(* ===== verification/Prelude.thy ===== *)
theory Prelude
  imports Complex_Main "HOL-Library.Char_ord" "HOL-Library.List_Lexorder" "HOL-Library.Sublist"
begin

text \<open>
  Shared vocabulary of the development.

  \<^item> Python strings are \<^typ>\<open>string\<close>, read as ASCII text: \<open>len\<close> counts characters, \<open>str.encode\<close> is the
    identity, \<open>str.strip\<close> removes the ASCII white space and \<open>str.casefold\<close> and \<open>str.lower\<close> fold the ASCII
    letters.
  \<^item> Python floats used as clock readings, leases and probabilities are \<^typ>\<open>real\<close>; only their
    order and the additions the code writes are used, rounding is not modelled.
  \<^item> An SQLite table is the list of its rows in insertion order. \<open>SELECT\<close> by primary key,
    \<open>UPDATE ... WHERE\<close>, \<open>DELETE ... WHERE\<close> and \<open>rowcount\<close> have the definitions below, with the
    lemmas that make a table behave as a finite map on its key.
  \<^item> A raised exception is \<open>Inl\<close> of an error datatype; a transaction that raises leaves the table
    as it found it.
  \<^item> \<open>reach\<close> is reachability of a transition system, and the locale \<open>inductive_invariant\<close> is the
    proof rule every store of the factory uses for its invariant.
\<close>

named_theorems table_simps \<open>rewriting of SELECT, UPDATE and DELETE on keyed tables\<close>
named_theorems inv_intros \<open>preservation of store invariants by the operations\<close>

type_synonym time = real

section \<open>Python strings\<close>

definition is_space :: "char \<Rightarrow> bool" where
  "is_space c = (c \<in> set [CHR '' '', CHR 0x09, CHR 0x0A, CHR 0x0B, CHR 0x0C, CHR 0x0D,
                          CHR 0x1C, CHR 0x1D, CHR 0x1E, CHR 0x1F])"

definition py_strip :: "string \<Rightarrow> string" where
  "py_strip s = rev (dropWhile is_space (rev (dropWhile is_space s)))"

definition hex_digits :: string where
  "hex_digits = ''0123456789abcdef''"

definition is_hex :: "char \<Rightarrow> bool" where
  "is_hex c = (c \<in> set hex_digits)"

definition startswith :: "string \<Rightarrow> string \<Rightarrow> bool" where
  "startswith s p = (take (length p) s = p)"

definition removeprefix :: "string \<Rightarrow> string \<Rightarrow> string" where
  "removeprefix s p = (if startswith s p then drop (length p) s else s)"

definition to_lower :: "char \<Rightarrow> char" where
  "to_lower c = (let n = of_char c :: nat in
     if 65 \<le> n \<and> n \<le> 90 then char_of (n + 32) else c)"

definition casefold :: "string \<Rightarrow> string" where
  "casefold s = map to_lower s"

fun join :: "string \<Rightarrow> string list \<Rightarrow> string" where
  "join sep [] = []"
| "join sep [x] = x"
| "join sep (x # y # xs) = x @ sep @ join sep (y # xs)"

definition endswith :: "string \<Rightarrow> string \<Rightarrow> bool" where
  "endswith s p = (drop (length s - length p) s = p)"

fun py_in :: "string \<Rightarrow> string \<Rightarrow> bool" where
  "py_in p [] = (p = [])"
| "py_in p (c # cs) = (startswith (c # cs) p \<or> py_in p cs)"

text \<open>\<open>s.split(sep)\<close> for a separator of one character.\<close>

fun split_on :: "char \<Rightarrow> string \<Rightarrow> string list" where
  "split_on sep [] = [[]]"
| "split_on sep (c # cs) =
     (if c = sep then [] # split_on sep cs
      else (case split_on sep cs of [] \<Rightarrow> [[c]] | p # ps \<Rightarrow> (c # p) # ps))"

definition NUL :: string where
  "NUL = [CHR 0x00]"

definition digit_char :: "nat \<Rightarrow> char" where
  "digit_char n = ''0123456789'' ! n"

fun nat_str :: "nat \<Rightarrow> string" where
  "nat_str n = (if n < 10 then [digit_char n] else nat_str (n div 10) @ [digit_char (n mod 10)])"

definition int_str :: "int \<Rightarrow> string" where
  "int_str i = (if i < 0 then CHR ''-'' # nat_str (nat (- i)) else nat_str (nat i))"

declare nat_str.simps [simp del]

lemma py_strip_Nil_iff: "py_strip s = [] \<longleftrightarrow> (\<forall>c\<in>set s. is_space c)"
proof -
  have "(\<forall>c\<in>set (dropWhile is_space s). is_space c) \<longleftrightarrow> (\<forall>c\<in>set s. is_space c)"
    by (induction s) auto
  then show ?thesis
    unfolding py_strip_def by (metis dropWhile_eq_Nil_conv rev_is_Nil_conv set_rev)
qed

lemma digit_char_inj: "a < 10 \<Longrightarrow> b < 10 \<Longrightarrow> digit_char a = digit_char b \<Longrightarrow> a = b"
proof -
  have "distinct ''0123456789''" "length ''0123456789'' = 10" by simp_all
  then show "a < 10 \<Longrightarrow> b < 10 \<Longrightarrow> digit_char a = digit_char b \<Longrightarrow> a = b"
    unfolding digit_char_def by (metis nth_eq_iff_index_eq)
qed

lemma nat_str_nonempty: "nat_str n \<noteq> []"
  by (subst nat_str.simps) simp

lemma nat_str_inj: "nat_str m = nat_str n \<Longrightarrow> m = n"
proof (induction m arbitrary: n rule: nat_str.induct)
  case (1 m)
  have um: "nat_str m = (if m < 10 then [digit_char m] else nat_str (m div 10) @ [digit_char (m mod 10)])"
    by (rule nat_str.simps)
  have un: "nat_str n = (if n < 10 then [digit_char n] else nat_str (n div 10) @ [digit_char (n mod 10)])"
    by (rule nat_str.simps)
  show ?case
  proof (cases "m < 10 \<or> n < 10")
    case True
    with 1(2) um un show ?thesis
      using nat_str_nonempty[of "m div 10"] nat_str_nonempty[of "n div 10"]
      by (auto split: if_splits dest: digit_char_inj)
  next
    case False
    with 1(2) um un have "nat_str (m div 10) = nat_str (n div 10)"
      and d: "digit_char (m mod 10) = digit_char (n mod 10)" by auto
    with 1(1) False have "m div 10 = n div 10" by auto
    moreover from d have "m mod 10 = n mod 10" by (auto dest: digit_char_inj[rotated 2])
    ultimately show ?thesis by (metis div_mult_mod_eq)
  qed
qed

lemma split_on_nonempty [simp]: "split_on sep s \<noteq> []"
  by (cases s) (auto split: list.splits)

lemma split_on_no_sep: "p \<in> set (split_on sep s) \<Longrightarrow> sep \<notin> set p"
proof (induction s arbitrary: p)
  case (Cons c cs)
  then show ?case by (cases "split_on sep cs") (auto split: if_splits)
qed simp

lemma split_on_id: "sep \<notin> set s \<Longrightarrow> split_on sep s = [s]"
  by (induction s) auto

lemma join_split_on: "join [sep] (split_on sep s) = s"
proof (induction s)
  case (Cons c cs)
  obtain p ps where "split_on sep cs = p # ps" by (cases "split_on sep cs") auto
  with Cons show ?case by (cases ps) auto
qed simp

lemma split_on_append: "sep \<notin> set p \<Longrightarrow> split_on sep (p @ sep # s) = p # split_on sep s"
  by (induction p) auto

lemma split_on_join:
  "ps \<noteq> [] \<Longrightarrow> (\<And>p. p \<in> set ps \<Longrightarrow> sep \<notin> set p) \<Longrightarrow> split_on sep (join [sep] ps) = ps"
proof (induction "[sep]" ps rule: join.induct)
  case (3 x y xs)
  then show ?case using split_on_append[of sep x "join [sep] (y # xs)"] by simp
qed (simp_all add: split_on_id)

section \<open>Tables\<close>

definition select_one :: "('r \<Rightarrow> 'k) \<Rightarrow> 'k \<Rightarrow> 'r list \<Rightarrow> 'r option" where
  "select_one key k t = List.find (\<lambda>r. key r = k) t"

definition upd_where :: "('r \<Rightarrow> bool) \<Rightarrow> ('r \<Rightarrow> 'r) \<Rightarrow> 'r list \<Rightarrow> 'r list" where
  "upd_where p f t = map (\<lambda>r. if p r then f r else r) t"

definition rowcount :: "('r \<Rightarrow> bool) \<Rightarrow> 'r list \<Rightarrow> nat" where
  "rowcount p t = length (filter p t)"

definition delete_where :: "('r \<Rightarrow> bool) \<Rightarrow> 'r list \<Rightarrow> 'r list" where
  "delete_where p t = filter (\<lambda>r. \<not> p r) t"

definition primary_key :: "('r \<Rightarrow> 'k) \<Rightarrow> 'r list \<Rightarrow> bool" where
  "primary_key key t = distinct (map key t)"

lemma select_one_Nil [simp]: "select_one key k [] = None"
  by (simp add: select_one_def)

lemma select_one_Cons [simp]:
  "select_one key k (r # t) = (if key r = k then Some r else select_one key k t)"
  by (simp add: select_one_def)

lemma select_one_SomeD: "select_one key k t = Some r \<Longrightarrow> r \<in> set t \<and> key r = k"
  by (induction t) (auto split: if_splits)

lemma select_one_None_iff: "select_one key k t = None \<longleftrightarrow> (\<forall>r\<in>set t. key r \<noteq> k)"
  by (induction t) auto

lemma select_one_in:
  "primary_key key t \<Longrightarrow> r \<in> set t \<Longrightarrow> key r = k \<Longrightarrow> select_one key k t = Some r"
  by (induction t) (force simp: primary_key_def)+

lemma select_one_Some_iff:
  "primary_key key t \<Longrightarrow> select_one key k t = Some r \<longleftrightarrow> r \<in> set t \<and> key r = k"
  using select_one_in select_one_SomeD by fastforce

lemma select_one_append [table_simps]:
  "select_one key k (t @ u) = (case select_one key k t of None \<Rightarrow> select_one key k u | Some r \<Rightarrow> Some r)"
  by (induction t) auto

lemma select_one_upd_where [table_simps]:
  assumes "\<And>r. r \<in> set t \<Longrightarrow> p r \<Longrightarrow> key (f r) = key r"
  shows "select_one key k (upd_where p f t)
           = map_option (\<lambda>r. if p r then f r else r) (select_one key k t)"
  using assms by (induction t) (auto simp: upd_where_def)

lemma map_upd_where:
  assumes "\<And>r. r \<in> set t \<Longrightarrow> p r \<Longrightarrow> g (f r) = g r"
  shows "map g (upd_where p f t) = map g t"
  using assms by (induction t) (auto simp: upd_where_def)

lemma primary_key_upd_where [inv_intros]:
  assumes "\<And>r. r \<in> set t \<Longrightarrow> p r \<Longrightarrow> key (f r) = key r" and "primary_key key t"
  shows "primary_key key (upd_where p f t)"
  using assms by (simp add: primary_key_def map_upd_where)

lemma primary_key_snoc [inv_intros]:
  "primary_key key t \<Longrightarrow> select_one key (key r) t = None \<Longrightarrow> primary_key key (t @ [r])"
  by (auto simp: primary_key_def select_one_None_iff)

lemma primary_key_delete [inv_intros]: "primary_key key t \<Longrightarrow> primary_key key (delete_where p t)"
  by (simp add: primary_key_def delete_where_def distinct_map_filter)

lemma upd_where_in: "r \<in> set (upd_where p f t) \<Longrightarrow>
    (r \<in> set t \<and> \<not> p r) \<or> (\<exists>r0\<in>set t. p r0 \<and> r = f r0)"
  by (auto simp: upd_where_def split: if_splits)

lemma upd_where_Nil [simp]: "upd_where p f [] = []"
  by (simp add: upd_where_def)

lemma length_upd_where [simp]: "length (upd_where p f t) = length t"
  by (simp add: upd_where_def)

lemma upd_where_none: "(\<And>r. r \<in> set t \<Longrightarrow> \<not> p r) \<Longrightarrow> upd_where p f t = t"
  by (induction t) (auto simp: upd_where_def)

lemma rowcount_key_le_1:
  assumes "primary_key key t" and "\<And>r. p r \<Longrightarrow> key r = k"
  shows "rowcount p t \<le> 1"
  using assms
proof (induction t)
  case Nil
  then show ?case by (simp add: rowcount_def)
next
  case (Cons r t)
  then have "rowcount p t \<le> 1" by (simp add: primary_key_def)
  moreover have "rowcount p t = 0" if "p r"
  proof -
    from that Cons.prems have "\<forall>r'\<in>set t. \<not> p r'" by (auto simp: primary_key_def)
    then show ?thesis by (auto simp: rowcount_def)
  qed
  ultimately show ?case by (simp add: rowcount_def)
qed

lemma rowcount_pos_iff: "0 < rowcount p t \<longleftrightarrow> (\<exists>r\<in>set t. p r)"
  by (auto simp: rowcount_def filter_empty_conv)

lemma rowcount_one_iff:
  assumes "primary_key key t" and "\<And>r. p r \<Longrightarrow> key r = k"
  shows "rowcount p t = 1 \<longleftrightarrow> (\<exists>r. select_one key k t = Some r \<and> p r)"
proof -
  have "rowcount p t \<le> 1" using assms by (rule rowcount_key_le_1)
  then have "rowcount p t = 1 \<longleftrightarrow> 0 < rowcount p t" by arith
  also have "\<dots> \<longleftrightarrow> (\<exists>r. select_one key k t = Some r \<and> p r)"
    using assms by (auto simp: rowcount_pos_iff select_one_Some_iff)
  finally show ?thesis .
qed

section \<open>Transition systems\<close>

inductive reach :: "('s \<Rightarrow> bool) \<Rightarrow> ('s \<Rightarrow> 's \<Rightarrow> bool) \<Rightarrow> 's \<Rightarrow> bool" for init step where
  reach_init: "init s \<Longrightarrow> reach init step s"
| reach_step: "reach init step s \<Longrightarrow> step s t \<Longrightarrow> reach init step t"

locale inductive_invariant =
  fixes init :: "'s \<Rightarrow> bool" and step :: "'s \<Rightarrow> 's \<Rightarrow> bool" and inv :: "'s \<Rightarrow> bool"
  assumes init_inv: "init s \<Longrightarrow> inv s"
    and step_inv: "inv s \<Longrightarrow> step s t \<Longrightarrow> inv t"
begin

lemma reach_inv: "reach init step s \<Longrightarrow> inv s"
  by (induction rule: reach.induct) (auto intro: init_inv step_inv)

lemma steps_inv: "step\<^sup>*\<^sup>* s t \<Longrightarrow> inv s \<Longrightarrow> inv t"
  by (induction rule: rtranclp_induct) (auto intro: step_inv)

lemma steps_preserve:
  assumes "step\<^sup>*\<^sup>* s t" and "inv s" and "P s"
    and "\<And>u v. inv u \<Longrightarrow> P u \<Longrightarrow> step u v \<Longrightarrow> P v"
  shows "P t"
proof -
  have "inv t \<and> P t"
    using assms by (induction rule: rtranclp_induct) (auto intro: step_inv)
  then show ?thesis ..
qed

end

section \<open>First matches\<close>

lemma find_in: "List.find p xs = Some x \<Longrightarrow> x \<in> set xs \<and> p x"
  by (auto simp: find_Some_iff)

lemma find_unique:
  assumes "x \<in> set xs" and "p x" and "\<And>y. y \<in> set xs \<Longrightarrow> p y \<Longrightarrow> y = x"
  shows "List.find p xs = Some x"
proof (cases "List.find p xs")
  case None
  then show ?thesis using assms(1,2) by (simp add: find_None_iff)
next
  case (Some y)
  then show ?thesis using find_in[OF Some] assms(3) by simp
qed

end
