(* ===== verification/Json.thy ===== *)
theory Json
  imports Prelude
begin

text \<open>
  The JSON documents the stores keep. A text column written with
  \<open>json.dumps(v, sort_keys=True, separators=(",", ":"))\<close> is represented by the canonical value it
  encodes, that is by \<open>jcanon v\<close>: two such texts are equal exactly when the canonical values are,
  and \<open>json.loads\<close> gives the canonical value back.
\<close>

datatype json =
    JNull
  | JBool bool
  | JInt int
  | JReal real
  | JStr string
  | JArr "json list"
  | JObj "(string \<times> json) list"

fun jcanon :: "json \<Rightarrow> json" where
  "jcanon (JArr xs) = JArr (map jcanon xs)"
| "jcanon (JObj kvs) = JObj (sort_key fst (map (\<lambda>(k, v). (k, jcanon v)) kvs))"
| "jcanon v = v"

text \<open>\<open>dict.get\<close> on a decoded document; \<open>None\<close> also for a value that is no mapping.\<close>

fun jget :: "string \<Rightarrow> json \<Rightarrow> json option" where
  "jget k (JObj kvs) = map_of kvs k"
| "jget k v = None"

definition jopt :: "string option \<Rightarrow> json" where
  "jopt x = (case x of None \<Rightarrow> JNull | Some s \<Rightarrow> JStr s)"

lemma jcanon_JStr [simp]: "jcanon (JStr s) = JStr s"
  by simp

lemma sorted_key_canon: "sorted (map fst (sort_key fst (kvs :: (string \<times> json) list)))"
  by simp

lemma jcanon_idem: "jcanon (jcanon v) = jcanon v"
proof (induction v)
  case (JArr xs)
  then show ?case by simp
next
  case (JObj kvs)
  let ?c = "sort_key fst (map (\<lambda>(k, v). (k, jcanon v)) kvs)"
  have "map (\<lambda>(k, v). (k, jcanon v)) ?c = ?c"
  proof (rule map_idI)
    fix kv assume "kv \<in> set ?c"
    then obtain k v where kv: "(k, v) \<in> set kvs" "kv = (k, jcanon v)" by auto
    then have "jcanon (jcanon v) = jcanon v"
      using JObj(1)[of "(k, v)" v] by simp
    then show "(\<lambda>(k, v). (k, jcanon v)) kv = kv" using kv by simp
  qed
  then show ?case by (simp add: sort_key_id_if_sorted)
qed simp_all

section \<open>Text form\<close>

text \<open>\<open>json.dumps(v, separators=(",", ":"), ensure_ascii=asc)\<close> on a value whose mappings are already in
  the wanted order. The text of a float is the parameter \<open>fr\<close>.\<close>

definition hex4 :: "nat \<Rightarrow> string" where
  "hex4 n = [hex_digits ! (n div 4096 mod 16), hex_digits ! (n div 256 mod 16),
             hex_digits ! (n div 16 mod 16), hex_digits ! (n mod 16)]"

definition jesc :: "bool \<Rightarrow> char \<Rightarrow> string" where
  "jesc asc c =
     (let n = of_char c :: nat in
      if n = 34 then [CHR 0x5C, CHR 0x22]
      else if n = 92 then [CHR 0x5C, CHR 0x5C]
      else if n = 10 then [CHR 0x5C, CHR ''n'']
      else if n = 13 then [CHR 0x5C, CHR ''r'']
      else if n = 9 then [CHR 0x5C, CHR ''t'']
      else if n = 12 then [CHR 0x5C, CHR ''f'']
      else if n = 8 then [CHR 0x5C, CHR ''b'']
      else if n < 32 \<or> (asc \<and> 126 < n) then CHR 0x5C # CHR ''u'' # hex4 n
      else [c])"

definition jstr :: "bool \<Rightarrow> string \<Rightarrow> string" where
  "jstr asc s = CHR 0x22 # concat (map (jesc asc) s) @ [CHR 0x22]"

fun jdumps :: "bool \<Rightarrow> (real \<Rightarrow> string) \<Rightarrow> json \<Rightarrow> string" where
  "jdumps asc fr JNull = ''null''"
| "jdumps asc fr (JBool b) = (if b then ''true'' else ''false'')"
| "jdumps asc fr (JInt i) = int_str i"
| "jdumps asc fr (JReal r) = fr r"
| "jdumps asc fr (JStr s) = jstr asc s"
| "jdumps asc fr (JArr xs) = ''['' @ join '','' (map (jdumps asc fr) xs) @ '']''"
| "jdumps asc fr (JObj kvs) =
     ''{'' @ join '','' (map (\<lambda>(k, v). jstr asc k @ '':'' @ jdumps asc fr v) kvs) @ ''}''"

fun is_jobj :: "json \<Rightarrow> bool" where
  "is_jobj (JObj kvs) = True"
| "is_jobj v = False"

section \<open>Python values of a decoded document\<close>

text \<open>\<open>str(v)\<close>, where the text of a float, a list and a dict is the parameter \<open>rep\<close>; and \<open>bool(v)\<close>.\<close>

fun py_str :: "(json \<Rightarrow> string) \<Rightarrow> json \<Rightarrow> string" where
  "py_str rep (JStr s) = s"
| "py_str rep (JInt i) = int_str i"
| "py_str rep (JBool b) = (if b then ''True'' else ''False'')"
| "py_str rep JNull = ''None''"
| "py_str rep v = rep v"

fun py_truthy :: "json \<Rightarrow> bool" where
  "py_truthy JNull = False"
| "py_truthy (JBool b) = b"
| "py_truthy (JInt i) = (i \<noteq> 0)"
| "py_truthy (JReal r) = (r \<noteq> 0)"
| "py_truthy (JStr s) = (s \<noteq> [])"
| "py_truthy (JArr xs) = (xs \<noteq> [])"
| "py_truthy (JObj kvs) = (kvs \<noteq> [])"

text \<open>\<open>d.get(k, default)\<close> and \<open>d.get(k)\<close>.\<close>

definition jget_or :: "string \<Rightarrow> json \<Rightarrow> json \<Rightarrow> json" where
  "jget_or k dflt v = (case jget k v of None \<Rightarrow> dflt | Some x \<Rightarrow> x)"

abbreviation jget0 :: "string \<Rightarrow> json \<Rightarrow> json" where
  "jget0 k \<equiv> jget_or k JNull"

definition py_or :: "json \<Rightarrow> json \<Rightarrow> json" where
  "py_or a b = (if py_truthy a then a else b)"

end
