(* ===== verification/Sha256.thy ===== *)
theory Sha256
  imports Prelude "HOL-Library.Word"
begin

unbundle bit_operations_syntax

text \<open>
  \<open>hashlib.sha256(raw).hexdigest()\<close>: the SHA-256 compression function over the padded message, so
  that the identifiers the factory derives from digests are computed and not assumed. The lemmas
  the components use are the shape of the result: 64 characters, every one a lowercase hexadecimal
  digit.
\<close>

type_synonym w32 = "32 word"
type_synonym hash_state = "w32 \<times> w32 \<times> w32 \<times> w32 \<times> w32 \<times> w32 \<times> w32 \<times> w32"

text \<open>The constants of the standard: the first 32 bits of the fractional parts of the cube roots of
  the first 64 primes and of the square roots of the first 8, computed digit by digit.\<close>

fun iroot :: "nat \<Rightarrow> nat \<Rightarrow> nat \<Rightarrow> nat \<Rightarrow> nat" where
  "iroot k 0 r n = (if (r + 1) ^ k \<le> n then r + 1 else r)"
| "iroot k (Suc b) r n = iroot k b (if (r + 2 ^ Suc b) ^ k \<le> n then r + 2 ^ Suc b else r) n"

definition small_primes :: "nat list" where
  "small_primes = filter (\<lambda>p. list_all (\<lambda>d. p mod d \<noteq> 0) [2..<p]) [2..<312]"

definition round_constants :: "w32 list" where
  "round_constants = map (\<lambda>p. of_nat (iroot 3 35 0 (p * 2 ^ 96) mod 2 ^ 32)) small_primes"

definition initial_word :: "nat \<Rightarrow> w32" where
  "initial_word p = of_nat (iroot 2 36 0 (p * 2 ^ 64) mod 2 ^ 32)"

definition initial_hash :: hash_state where
  "initial_hash = (initial_word 2, initial_word 3, initial_word 5, initial_word 7,
                   initial_word 11, initial_word 13, initial_word 17, initial_word 19)"

definition rotr :: "nat \<Rightarrow> w32 \<Rightarrow> w32" where
  "rotr n x = (drop_bit n x) OR (push_bit (32 - n) x)"

definition small_sigma0 :: "w32 \<Rightarrow> w32" where
  "small_sigma0 x = rotr 7 x XOR rotr 18 x XOR drop_bit 3 x"

definition small_sigma1 :: "w32 \<Rightarrow> w32" where
  "small_sigma1 x = rotr 17 x XOR rotr 19 x XOR drop_bit 10 x"

definition big_sigma0 :: "w32 \<Rightarrow> w32" where
  "big_sigma0 x = rotr 2 x XOR rotr 13 x XOR rotr 22 x"

definition big_sigma1 :: "w32 \<Rightarrow> w32" where
  "big_sigma1 x = rotr 6 x XOR rotr 11 x XOR rotr 25 x"

definition be_bytes :: "nat \<Rightarrow> nat \<Rightarrow> nat list" where
  "be_bytes n v = map (\<lambda>i. (v div 256 ^ (n - 1 - i)) mod 256) [0..<n]"

definition pad_message :: "nat list \<Rightarrow> nat list" where
  "pad_message m = m @ [128] @ replicate (nat ((55 - int (length m)) mod 64)) 0
                     @ be_bytes 8 (8 * length m)"

fun be_words :: "nat list \<Rightarrow> w32 list" where
  "be_words (a # b # c # d # rest) =
     of_nat (a * 16777216 + b * 65536 + c * 256 + d) # be_words rest"
| "be_words _ = []"

text \<open>The schedule is kept newest word first: position 1 is \<open>w[t-2]\<close>, position 15 is \<open>w[t-16]\<close>.\<close>

fun extend_schedule :: "nat \<Rightarrow> w32 list \<Rightarrow> w32 list" where
  "extend_schedule 0 w = w"
| "extend_schedule (Suc n) w =
     extend_schedule n ((small_sigma1 (w ! 1) + w ! 6 + small_sigma0 (w ! 14) + w ! 15) # w)"

fun sha_round :: "w32 \<times> w32 \<Rightarrow> hash_state \<Rightarrow> hash_state" where
  "sha_round (k, w) (a, b, c, d, e, f, g, h) =
     (let t1 = h + big_sigma1 e + ((e AND f) XOR (NOT e AND g)) + k + w;
          t2 = big_sigma0 a + ((a AND b) XOR (a AND c) XOR (b AND c))
      in (t1 + t2, a, b, c, d + t1, e, f, g))"

fun add_state :: "hash_state \<Rightarrow> hash_state \<Rightarrow> hash_state" where
  "add_state (a, b, c, d, e, f, g, h) (a', b', c', d', e', f', g', h') =
     (a + a', b + b', c + c', d + d', e + e', f + f', g + g', h + h')"

definition compress :: "hash_state \<Rightarrow> w32 list \<Rightarrow> hash_state" where
  "compress st block =
     (let ws = rev (extend_schedule 48 (rev block))
      in add_state st (fold sha_round (zip round_constants ws) st))"

fun blocks16 :: "nat \<Rightarrow> w32 list \<Rightarrow> w32 list list" where
  "blocks16 0 ws = []"
| "blocks16 (Suc n) ws = take 16 ws # blocks16 n (drop 16 ws)"

definition sha256_state :: "string \<Rightarrow> hash_state" where
  "sha256_state msg =
     (let ws = be_words (pad_message (map (\<lambda>c. of_char c :: nat) msg))
      in foldl compress initial_hash (blocks16 (length ws div 16) ws))"

definition hex_char :: "nat \<Rightarrow> char" where
  "hex_char n = hex_digits ! (n mod 16)"

definition word_hex :: "w32 \<Rightarrow> string" where
  "word_hex x = map (\<lambda>i. hex_char (unat (drop_bit (28 - 4 * i) x))) [0..<8]"

definition sha256_hex :: "string \<Rightarrow> string" where
  "sha256_hex msg = (case sha256_state msg of
     (a, b, c, d, e, f, g, h) \<Rightarrow> concat (map word_hex [a, b, c, d, e, f, g, h]))"

lemma hex_char_is_hex [simp]: "is_hex (hex_char n)"
proof -
  have "n mod 16 < length hex_digits" by (simp add: hex_digits_def)
  then show ?thesis unfolding hex_char_def is_hex_def by (rule nth_mem)
qed

lemma length_word_hex [simp]: "length (word_hex x) = 8"
  by (simp add: word_hex_def)

lemma word_hex_is_hex: "c \<in> set (word_hex x) \<Longrightarrow> is_hex c"
  by (auto simp: word_hex_def)

lemma length_sha256_hex [simp]: "length (sha256_hex msg) = 64"
  by (simp add: sha256_hex_def split: prod.split)

lemma sha256_hex_is_hex: "c \<in> set (sha256_hex msg) \<Longrightarrow> is_hex c"
  by (auto simp: sha256_hex_def split: prod.splits dest: word_hex_is_hex)

lemma take_sha256_hex: "n \<le> 64 \<Longrightarrow> length (take n (sha256_hex msg)) = n \<and> list_all is_hex (take n (sha256_hex msg))"
  by (auto simp: list_all_iff dest!: in_set_takeD sha256_hex_is_hex)

end
