(* ===== verification/Cells.thy ===== *)
theory Cells
  imports Json Sha256
begin

text \<open>
  The Factory Cell store of \<open>src/swfactory/cells.py\<close>: the durable identity of one repository,
  target and issue, its epoch fence, and the append-only timeline of its events.

  \<^item> \<open>cell_row\<close> and \<open>cell_event\<close> are the rows of the two tables, \<open>cell_store\<close> the database.
  \<^item> \<open>append_event\<close>, \<open>insert_identity\<close>, \<open>ensure\<close>, \<open>activate\<close>, \<open>take_epoch\<close>, \<open>patch\<close> and \<open>record_mutation\<close>
    are the mutations, \<open>get_cell\<close>, \<open>list_cells\<close>, \<open>history\<close> and \<open>followup_attention\<close> the reads. A
    mutation that raises leaves the database as it was; the callback \<open>on_authority_revoked\<close> acts on
    a state of its own (another database), which is not rolled back.
  \<^item> \<open>cells_inv\<close> is the invariant of the store. It gives the fencing properties: a Cell's epochs
    never decrease along its timeline, and no event is ever appended under a superseded epoch.
  \<^item> \<open>fence\<close> is the abstract specification (a map of current epochs and a log of receipts) that the
    store refines.
\<close>

section \<open>Identity\<close>

definition TERMINAL_STATES :: "string list" where
  "TERMINAL_STATES = [''success'', ''failed'', ''cancelled'', ''rejected'', ''cleaned'']"

definition CELL_ID_PREFIX :: string where
  "CELL_ID_PREFIX = ''cell_''"

definition CELL_ID_DIGEST_LEN :: nat where
  "CELL_ID_DIGEST_LEN = 24"

text \<open>\<open>re.match\<close> with a pattern ending in \<open>$\<close> also accepts one newline after the match.\<close>

definition is_cell_id :: "string \<Rightarrow> bool" where
  "is_cell_id v =
     (let rest = drop (length CELL_ID_PREFIX) v;
          body = take CELL_ID_DIGEST_LEN rest;
          tail = drop CELL_ID_DIGEST_LEN rest
      in startswith v CELL_ID_PREFIX \<and> length body = CELL_ID_DIGEST_LEN \<and> list_all is_hex body
         \<and> (tail = [] \<or> tail = [CHR 0x0A]))"

record cell_identity =
  id_repo :: string
  id_target :: string
  id_issue :: string

definition stable_id :: "cell_identity \<Rightarrow> string" where
  "stable_id i = CELL_ID_PREFIX
     @ take CELL_ID_DIGEST_LEN (sha256_hex (id_repo i @ NUL @ id_target i @ NUL @ id_issue i))"

record mutation =
  mu_cell :: string
  mu_epoch :: int
  mu_key :: string
  mu_kind :: string
  mu_payload :: json

definition operation_key :: "string \<Rightarrow> string list \<Rightarrow> string" where
  "operation_key kind parts =
     kind @ '':'' @ take 24 (sha256_hex (join NUL (kind # parts)))"

section \<open>The store\<close>

record cell_row =
  cell_id :: string
  cell_schema :: int
  cell_repo :: string
  cell_target :: string
  cell_issue :: string
  cell_epoch :: int
  cell_state :: string
  cell_dag_id :: "string option"
  cell_run_id :: "string option"
  cell_map_index :: "int option"
  cell_generation :: "string option"
  cell_policy_digest :: "string option"
  cell_base_sha :: "string option"
  cell_observed_sha :: "string option"
  cell_compute :: json
  cell_cleanup :: json
  cell_created_at :: time
  cell_updated_at :: time

record cell_event =
  ev_seq :: nat
  ev_cell :: string
  ev_epoch :: int
  ev_key :: string
  ev_kind :: string
  ev_payload :: json
  ev_at :: time

record cell_store =
  cs_cells :: "cell_row list"
  cs_events :: "cell_event list"
  cs_seq :: nat

definition empty_store :: cell_store where
  "empty_store = \<lparr>cs_cells = [], cs_events = [], cs_seq = 0\<rparr>"

datatype cell_error =
    StaleEpoch
  | DuplicateOperation
  | CellBusy
  | CellKeyError
  | CellValueError "string list"

text \<open>The keyword arguments of \<open>patch\<close>: the ten supported columns, and any other name.\<close>

datatype cell_field =
    F_state string
  | F_dag_id "string option"
  | F_run_id "string option"
  | F_map_index "int option"
  | F_generation "string option"
  | F_policy_digest "string option"
  | F_base_sha "string option"
  | F_observed_sha "string option"
  | F_compute json
  | F_cleanup json
  | F_other string json

fun field_name :: "cell_field \<Rightarrow> string" where
  "field_name (F_state _) = ''state''"
| "field_name (F_dag_id _) = ''airflow_dag_id''"
| "field_name (F_run_id _) = ''airflow_run_id''"
| "field_name (F_map_index _) = ''map_index''"
| "field_name (F_generation _) = ''factory_generation''"
| "field_name (F_policy_digest _) = ''policy_digest''"
| "field_name (F_base_sha _) = ''base_sha''"
| "field_name (F_observed_sha _) = ''observed_target_sha''"
| "field_name (F_compute _) = ''compute''"
| "field_name (F_cleanup _) = ''cleanup''"
| "field_name (F_other n _) = n"

fun field_json :: "cell_field \<Rightarrow> json" where
  "field_json (F_state v) = JStr v"
| "field_json (F_dag_id v) = jopt v"
| "field_json (F_run_id v) = jopt v"
| "field_json (F_map_index v) = (case v of None \<Rightarrow> JNull | Some i \<Rightarrow> JInt i)"
| "field_json (F_generation v) = jopt v"
| "field_json (F_policy_digest v) = jopt v"
| "field_json (F_base_sha v) = jopt v"
| "field_json (F_observed_sha v) = jopt v"
| "field_json (F_compute v) = v"
| "field_json (F_cleanup v) = v"
| "field_json (F_other _ v) = v"

fun apply_field :: "cell_field \<Rightarrow> cell_row \<Rightarrow> cell_row" where
  "apply_field (F_state v) r = r\<lparr>cell_state := v\<rparr>"
| "apply_field (F_dag_id v) r = r\<lparr>cell_dag_id := v\<rparr>"
| "apply_field (F_run_id v) r = r\<lparr>cell_run_id := v\<rparr>"
| "apply_field (F_map_index v) r = r\<lparr>cell_map_index := v\<rparr>"
| "apply_field (F_generation v) r = r\<lparr>cell_generation := v\<rparr>"
| "apply_field (F_policy_digest v) r = r\<lparr>cell_policy_digest := v\<rparr>"
| "apply_field (F_base_sha v) r = r\<lparr>cell_base_sha := v\<rparr>"
| "apply_field (F_observed_sha v) r = r\<lparr>cell_observed_sha := v\<rparr>"
| "apply_field (F_compute v) r = r\<lparr>cell_compute := jcanon v\<rparr>"
| "apply_field (F_cleanup v) r = r\<lparr>cell_cleanup := jcanon v\<rparr>"
| "apply_field (F_other _ _) r = r"

fun unsupported :: "cell_field \<Rightarrow> bool" where
  "unsupported (F_other _ _) = True"
| "unsupported _ = False"

definition fields_payload :: "cell_field list \<Rightarrow> json" where
  "fields_payload fs = JObj (map (\<lambda>f. (field_name f, field_json f)) fs)"

definition new_state :: "cell_field list \<Rightarrow> string option" where
  "new_state fs = map_option (\<lambda>f. case f of F_state v \<Rightarrow> v | _ \<Rightarrow> [])
     (List.find (\<lambda>f. field_name f = ''state'') fs)"

section \<open>Operations\<close>

definition get_cell :: "string \<Rightarrow> cell_store \<Rightarrow> cell_row option" where
  "get_cell c s = select_one cell_id c (cs_cells s)"

definition same_event :: "mutation \<Rightarrow> cell_event \<Rightarrow> bool" where
  "same_event m e = (ev_cell e = mu_cell m \<and> ev_key e = mu_key m)"

text \<open>\<open>_append\<close>: one insert, conditional on the Cell still standing at the mutation's epoch.\<close>

definition append_event :: "mutation \<Rightarrow> time \<Rightarrow> cell_store \<Rightarrow> cell_error + cell_store" where
  "append_event m now s =
     (case get_cell (mu_cell m) s of
        None \<Rightarrow> Inl StaleEpoch
      | Some r \<Rightarrow>
          if cell_epoch r \<noteq> mu_epoch m then Inl StaleEpoch
          else if list_ex (same_event m) (cs_events s) then Inl DuplicateOperation
          else Inr (s\<lparr>cs_events := cs_events s @
                       [\<lparr>ev_seq = Suc (cs_seq s), ev_cell = mu_cell m, ev_epoch = mu_epoch m,
                         ev_key = mu_key m, ev_kind = mu_kind m, ev_payload = jcanon (mu_payload m),
                         ev_at = now\<rparr>],
                     cs_seq := Suc (cs_seq s)\<rparr>))"

text \<open>\<open>INSERT OR IGNORE\<close>: ignored when the id or the (repo, target, issue) triple is taken.\<close>

definition insert_identity :: "cell_identity \<Rightarrow> time \<Rightarrow> cell_store \<Rightarrow> cell_store" where
  "insert_identity i now s =
     (if list_ex (\<lambda>r. cell_id r = stable_id i
                    \<or> (cell_repo r = id_repo i \<and> cell_target r = id_target i \<and> cell_issue r = id_issue i))
           (cs_cells s)
      then s
      else s\<lparr>cs_cells := cs_cells s @
              [\<lparr>cell_id = stable_id i, cell_schema = 1, cell_repo = id_repo i, cell_target = id_target i,
                cell_issue = id_issue i, cell_epoch = 1, cell_state = ''created'', cell_dag_id = None,
                cell_run_id = None, cell_map_index = None, cell_generation = None,
                cell_policy_digest = None, cell_base_sha = None, cell_observed_sha = None,
                cell_compute = JNull, cell_cleanup = JNull, cell_created_at = now,
                cell_updated_at = now\<rparr>]\<rparr>)"

type_synonym 'w revoker = "string \<Rightarrow> int \<Rightarrow> string \<Rightarrow> 'w \<Rightarrow> 'w"

definition call_revoker :: "'w revoker option \<Rightarrow> string \<Rightarrow> int \<Rightarrow> string \<Rightarrow> 'w \<Rightarrow> 'w" where
  "call_revoker rv c e reason w = (case rv of None \<Rightarrow> w | Some f \<Rightarrow> f c e reason w)"

definition activate_row :: "int \<Rightarrow> time \<Rightarrow> cell_row \<Rightarrow> cell_row" where
  "activate_row next_epoch now r =
     r\<lparr>cell_epoch := next_epoch, cell_state := ''dispatching'', cell_dag_id := None,
       cell_run_id := None, cell_map_index := None, cell_policy_digest := None,
       cell_compute := JNull, cell_cleanup := JNull, cell_updated_at := now\<rparr>"

definition activate ::
  "'w revoker option \<Rightarrow> cell_identity \<Rightarrow> string \<Rightarrow> time \<Rightarrow> cell_store \<times> 'w
     \<Rightarrow> (cell_error + cell_row) \<times> cell_store \<times> 'w" where
  "activate rv ident actor now = (\<lambda>(s0, w).
     let cid = stable_id ident; s = insert_identity ident now s0 in
     case get_cell cid s of
       None \<Rightarrow> (Inl CellKeyError, s0, w)
     | Some current \<Rightarrow>
         let fresh = (cell_state current = ''created'' \<and> cell_run_id current = None) in
         if \<not> fresh \<and> cell_state current \<notin> set TERMINAL_STATES then (Inl CellBusy, s0, w)
         else
           let previous_epoch = cell_epoch current;
               next_epoch = (if fresh then previous_epoch else previous_epoch + 1);
               w' = (if next_epoch \<noteq> previous_epoch
                     then call_revoker rv cid previous_epoch ''epoch_advanced'' w else w);
               hit = (\<lambda>r. cell_id r = cid \<and> cell_epoch r = cell_epoch current
                            \<and> cell_state r = cell_state current)
           in if rowcount hit (cs_cells s) \<noteq> 1 then (Inl StaleEpoch, s0, w')
              else
                let s1 = s\<lparr>cs_cells := upd_where hit (activate_row next_epoch now) (cs_cells s)\<rparr> in
                case append_event \<lparr>mu_cell = cid, mu_epoch = next_epoch,
                                   mu_key = ''activation:'' @ int_str next_epoch,
                                   mu_kind = ''activated'',
                                   mu_payload = JObj [(''actor'', JStr actor)]\<rparr> now s1 of
                  Inl e \<Rightarrow> (Inl e, s0, w')
                | Inr s2 \<Rightarrow>
                    (case get_cell cid s2 of
                       None \<Rightarrow> (Inl CellKeyError, s0, w')
                     | Some r \<Rightarrow> (Inr r, s2, w')))"

definition take_epoch ::
  "'w revoker option \<Rightarrow> string \<Rightarrow> int \<Rightarrow> string \<Rightarrow> time \<Rightarrow> cell_store \<times> 'w
     \<Rightarrow> (cell_error + int) \<times> cell_store \<times> 'w" where
  "take_epoch rv cid expected actor now = (\<lambda>(s, w).
     let next_epoch = expected + 1;
         w' = call_revoker rv cid expected ''epoch_advanced'' w;
         hit = (\<lambda>r. cell_id r = cid \<and> cell_epoch r = expected);
         s1 = s\<lparr>cs_cells := upd_where hit
                 (\<lambda>r. r\<lparr>cell_epoch := next_epoch, cell_policy_digest := None, cell_updated_at := now\<rparr>)
                 (cs_cells s)\<rparr>
     in if rowcount hit (cs_cells s) \<noteq> 1 then (Inl StaleEpoch, s, w')
        else case append_event \<lparr>mu_cell = cid, mu_epoch = next_epoch,
                                mu_key = ''epoch:'' @ int_str next_epoch, mu_kind = ''epoch_advanced'',
                                mu_payload = JObj [(''actor'', JStr actor)]\<rparr> now s1 of
               Inl e \<Rightarrow> (Inl e, s, w')
             | Inr s2 \<Rightarrow> (Inr next_epoch, s2, w'))"

definition patch ::
  "'w revoker option \<Rightarrow> string \<Rightarrow> int \<Rightarrow> string \<Rightarrow> cell_field list \<Rightarrow> time \<Rightarrow> cell_store \<times> 'w
     \<Rightarrow> (cell_error + cell_row) \<times> cell_store \<times> 'w" where
  "patch rv cid expected key fs now = (\<lambda>(s, w).
     if list_ex unsupported fs then
       (Inl (CellValueError (sort (map field_name (filter unsupported fs)))), s, w)
     else case get_cell cid s of
       None \<Rightarrow> (Inl CellKeyError, s, w)
     | Some row \<Rightarrow>
         if cell_epoch row \<noteq> expected then (Inl StaleEpoch, s, w)
         else
           let w' = (case new_state fs of
                       None \<Rightarrow> w
                     | Some st \<Rightarrow> if st \<in> set TERMINAL_STATES
                                 then call_revoker rv cid expected (''cell_'' @ st) w else w)
           in case append_event \<lparr>mu_cell = cid, mu_epoch = expected, mu_key = key, mu_kind = ''patch'',
                                 mu_payload = fields_payload fs\<rparr> now s of
                Inl e \<Rightarrow> (Inl e, s, w')
              | Inr s1 \<Rightarrow>
                  let hit = (\<lambda>r. cell_id r = cid \<and> cell_epoch r = expected);
                      s2 = (if fs = [] then s1
                            else s1\<lparr>cs_cells := upd_where hit
                                     (\<lambda>r. (fold apply_field fs r)\<lparr>cell_updated_at := now\<rparr>)
                                     (cs_cells s1)\<rparr>)
                  in if fs \<noteq> [] \<and> rowcount hit (cs_cells s1) \<noteq> 1 then (Inl StaleEpoch, s, w')
                     else (case get_cell cid s2 of
                             None \<Rightarrow> (Inl CellKeyError, s2, w')
                           | Some r \<Rightarrow> (Inr r, s2, w')))"

definition ensure ::
  "'w revoker option \<Rightarrow> cell_identity \<Rightarrow> cell_field list \<Rightarrow> time \<Rightarrow> cell_store \<times> 'w
     \<Rightarrow> (cell_error + cell_row) \<times> cell_store \<times> 'w" where
  "ensure rv ident fs now = (\<lambda>(s0, w).
     let cid = stable_id ident; s = insert_identity ident now s0 in
     if fs = [] then
       (case get_cell cid s of None \<Rightarrow> (Inl CellKeyError, s0, w) | Some r \<Rightarrow> (Inr r, s, w))
     else case patch rv cid 1 ''ensure:init'' fs now (s, w) of
            (Inl e, _, w') \<Rightarrow> (Inl e, s0, w')
          | (Inr _, s', w') \<Rightarrow>
              (case get_cell cid s' of None \<Rightarrow> (Inl CellKeyError, s0, w') | Some r \<Rightarrow> (Inr r, s', w')))"

definition record_mutation :: "mutation \<Rightarrow> time \<Rightarrow> cell_store \<Rightarrow> (cell_error + unit) \<times> cell_store" where
  "record_mutation m now s =
     (case append_event m now s of Inl e \<Rightarrow> (Inl e, s) | Inr s' \<Rightarrow> (Inr (), s'))"

definition list_cells :: "int \<Rightarrow> cell_store \<Rightarrow> cell_row list" where
  "list_cells limit s =
     take (nat (max 1 (min limit 1000))) (sort_key (\<lambda>r. - cell_updated_at r) (cs_cells s))"

definition history :: "string \<Rightarrow> cell_store \<Rightarrow> cell_event list" where
  "history c s = sort_key ev_seq (filter (\<lambda>e. ev_cell e = c) (cs_events s))"

fun drop_body :: "json \<Rightarrow> json" where
  "drop_body (JObj kvs) = JObj (filter (\<lambda>kv. fst kv \<noteq> ''body'') kvs)"
| "drop_body v = v"

definition followup_attention :: "cell_store \<Rightarrow> json list" where
  "followup_attention s =
     map (\<lambda>e. drop_body (ev_payload e))
       (sort_key ev_seq
         (filter (\<lambda>e. ev_kind e = ''github_followup''
                     \<and> jget ''disposition'' (ev_payload e) = Some (JStr ''needs_admission'')
                     \<and> \<not> list_ex (\<lambda>d. ev_cell d = ev_cell e \<and> ev_key d = ''dismiss:'' @ ev_key e)
                         (cs_events s))
           (cs_events s)))"

section \<open>Invariant\<close>

definition cell_triple :: "cell_row \<Rightarrow> string \<times> string \<times> string" where
  "cell_triple r = (cell_repo r, cell_target r, cell_issue r)"

definition event_id :: "cell_event \<Rightarrow> string \<times> string" where
  "event_id e = (ev_cell e, ev_key e)"

definition epoch_of :: "string \<Rightarrow> cell_store \<Rightarrow> int option" where
  "epoch_of c s = map_option cell_epoch (get_cell c s)"

definition epochs_sorted :: "cell_event list \<Rightarrow> bool" where
  "epochs_sorted = sorted_wrt (\<lambda>a b. ev_cell a = ev_cell b \<longrightarrow> ev_epoch a \<le> ev_epoch b)"

definition cells_inv :: "cell_store \<Rightarrow> bool" where
  "cells_inv s \<longleftrightarrow>
     primary_key cell_id (cs_cells s)
     \<and> primary_key cell_triple (cs_cells s)
     \<and> (\<forall>r\<in>set (cs_cells s). 1 \<le> cell_epoch r)
     \<and> primary_key event_id (cs_events s)
     \<and> (\<forall>e\<in>set (cs_events s). \<exists>n. epoch_of (ev_cell e) s = Some n \<and> ev_epoch e \<le> n)
     \<and> sorted_wrt (<) (map ev_seq (cs_events s))
     \<and> (\<forall>e\<in>set (cs_events s). ev_seq e \<le> cs_seq s)
     \<and> epochs_sorted (cs_events s)"

lemma cells_inv_empty: "cells_inv empty_store"
  by (simp add: cells_inv_def empty_store_def primary_key_def epochs_sorted_def)

lemma cells_inv_pk: "cells_inv s \<Longrightarrow> primary_key cell_id (cs_cells s)"
  by (simp add: cells_inv_def)

text \<open>What an update of rows may do: keep identity, and never lower the epoch of a hit row.\<close>

definition row_advance :: "(cell_row \<Rightarrow> bool) \<Rightarrow> (cell_row \<Rightarrow> cell_row) \<Rightarrow> bool" where
  "row_advance p f \<longleftrightarrow> (\<forall>r. p r \<longrightarrow>
     cell_id (f r) = cell_id r \<and> cell_triple (f r) = cell_triple r \<and> cell_epoch r \<le> cell_epoch (f r))"

lemma get_cell_upd:
  assumes "row_advance p f"
  shows "get_cell c (s\<lparr>cs_cells := upd_where p f (cs_cells s)\<rparr>)
           = map_option (\<lambda>r. if p r then f r else r) (get_cell c s)"
  using assms by (simp add: get_cell_def row_advance_def select_one_upd_where)

lemma epoch_of_upd:
  assumes "row_advance p f" and "epoch_of c s = Some n"
  shows "\<exists>m. epoch_of c (s\<lparr>cs_cells := upd_where p f (cs_cells s)\<rparr>) = Some m \<and> n \<le> m"
proof -
  from assms(2) obtain r where r: "get_cell c s = Some r" "n = cell_epoch r"
    by (auto simp: epoch_of_def)
  then have "get_cell c (s\<lparr>cs_cells := upd_where p f (cs_cells s)\<rparr>) = Some (if p r then f r else r)"
    by (simp add: get_cell_upd[OF assms(1)])
  moreover have "cell_epoch r \<le> cell_epoch (if p r then f r else r)"
    using assms(1) by (simp add: row_advance_def)
  ultimately show ?thesis using r(2) by (simp add: epoch_of_def)
qed

lemma cells_inv_upd [inv_intros]:
  assumes inv: "cells_inv s" and adv: "row_advance p f"
  shows "cells_inv (s\<lparr>cs_cells := upd_where p f (cs_cells s)\<rparr>)"
proof -
  let ?t = "s\<lparr>cs_cells := upd_where p f (cs_cells s)\<rparr>"
  have "primary_key cell_id (upd_where p f (cs_cells s))"
    "primary_key cell_triple (upd_where p f (cs_cells s))"
    using inv adv by (auto simp: cells_inv_def row_advance_def intro!: primary_key_upd_where)
  moreover have "\<forall>r\<in>set (upd_where p f (cs_cells s)). 1 \<le> cell_epoch r"
    using inv adv by (force simp: cells_inv_def row_advance_def dest!: upd_where_in)
  moreover have "\<forall>e\<in>set (cs_events s). \<exists>n. epoch_of (ev_cell e) ?t = Some n \<and> ev_epoch e \<le> n"
  proof
    fix e assume "e \<in> set (cs_events s)"
    then obtain n where n: "epoch_of (ev_cell e) s = Some n" "ev_epoch e \<le> n"
      using inv by (auto simp: cells_inv_def)
    from epoch_of_upd[OF adv n(1)] n(2)
    show "\<exists>n. epoch_of (ev_cell e) ?t = Some n \<and> ev_epoch e \<le> n" by fastforce
  qed
  ultimately show ?thesis using inv by (simp add: cells_inv_def)
qed

text \<open>The insert either adds the new row or changes nothing.\<close>

lemma get_cell_insert_identity:
  "get_cell c s = Some r \<Longrightarrow> get_cell c (insert_identity i now s) = Some r"
  by (simp add: insert_identity_def get_cell_def select_one_append)

lemma epoch_of_insert_identity:
  "epoch_of c s = Some n \<Longrightarrow> epoch_of c (insert_identity i now s) = Some n"
  by (auto simp: epoch_of_def get_cell_insert_identity)

lemma cs_events_insert_identity [simp]:
  "cs_events (insert_identity i now s) = cs_events s" "cs_seq (insert_identity i now s) = cs_seq s"
  by (simp_all add: insert_identity_def)

lemma cells_inv_insert_identity [inv_intros]:
  assumes inv: "cells_inv s"
  shows "cells_inv (insert_identity i now s)"
proof -
  have "primary_key cell_id (cs_cells (insert_identity i now s))"
    "primary_key cell_triple (cs_cells (insert_identity i now s))"
    using inv
    by (auto simp: cells_inv_def insert_identity_def primary_key_def list_ex_iff cell_triple_def)
  moreover have "\<forall>r\<in>set (cs_cells (insert_identity i now s)). 1 \<le> cell_epoch r"
    using inv by (auto simp: cells_inv_def insert_identity_def)
  moreover have "\<forall>e\<in>set (cs_events s). \<exists>n. epoch_of (ev_cell e) (insert_identity i now s) = Some n
                   \<and> ev_epoch e \<le> n"
    using inv by (force simp: cells_inv_def dest: epoch_of_insert_identity)
  ultimately show ?thesis using inv by (simp add: cells_inv_def)
qed

text \<open>The fenced append: it succeeds exactly at the current epoch and with a fresh key.\<close>

lemma append_event_Inr_iff:
  "(\<exists>s'. append_event m now s = Inr s') \<longleftrightarrow>
     epoch_of (mu_cell m) s = Some (mu_epoch m) \<and> \<not> list_ex (same_event m) (cs_events s)"
  by (auto simp: append_event_def epoch_of_def split: option.splits)

definition event_of :: "mutation \<Rightarrow> time \<Rightarrow> cell_store \<Rightarrow> cell_event" where
  "event_of m now s = \<lparr>ev_seq = Suc (cs_seq s), ev_cell = mu_cell m, ev_epoch = mu_epoch m,
     ev_key = mu_key m, ev_kind = mu_kind m, ev_payload = jcanon (mu_payload m), ev_at = now\<rparr>"

lemma event_of_simps [simp]:
  "ev_seq (event_of m now s) = Suc (cs_seq s)" "ev_cell (event_of m now s) = mu_cell m"
  "ev_epoch (event_of m now s) = mu_epoch m" "ev_key (event_of m now s) = mu_key m"
  "ev_kind (event_of m now s) = mu_kind m" "ev_payload (event_of m now s) = jcanon (mu_payload m)"
  by (simp_all add: event_of_def)

lemma append_event_Inr:
  assumes "append_event m now s = Inr s'"
  shows "s' = s\<lparr>cs_events := cs_events s @ [event_of m now s], cs_seq := Suc (cs_seq s)\<rparr>"
    and "epoch_of (mu_cell m) s = Some (mu_epoch m)"
    and "\<forall>e\<in>set (cs_events s). \<not> same_event m e"
  using assms
  by (auto simp: append_event_def epoch_of_def event_of_def list_ex_iff split: option.splits if_splits)

lemma cells_inv_append [inv_intros]:
  assumes inv: "cells_inv s" and app: "append_event m now s = Inr s'"
  shows "cells_inv s'"
proof -
  note s' = append_event_Inr(1)[OF app] and ep = append_event_Inr(2)[OF app]
    and fresh = append_event_Inr(3)[OF app]
  have "event_id (event_of m now s) \<notin> event_id ` set (cs_events s)"
    using fresh by (auto simp: event_id_def same_event_def)
  moreover have le: "ev_epoch e \<le> mu_epoch m" if "e \<in> set (cs_events s)" "ev_cell e = mu_cell m" for e
    using that ep inv by (auto simp: cells_inv_def)
  moreover have "epoch_of c s' = epoch_of c s" for c
    by (simp add: s' epoch_of_def get_cell_def)
  ultimately show ?thesis
    using inv ep
    by (auto simp: cells_inv_def s' primary_key_def epochs_sorted_def sorted_wrt_append le_Suc_eq
        less_Suc_eq_le)
qed

section \<open>Every operation keeps the invariant\<close>

lemma row_advance_activate: "row_advance (\<lambda>r. cell_id r = c \<and> cell_epoch r = e \<and> cell_state r = st)
    (activate_row (if fresh then e else e + 1) now)"
  by (simp add: row_advance_def activate_row_def cell_triple_def)

lemma row_advance_take: "row_advance (\<lambda>r. cell_id r = c \<and> cell_epoch r = e)
    (\<lambda>r. r\<lparr>cell_epoch := e + 1, cell_policy_digest := None, cell_updated_at := now\<rparr>)"
  by (simp add: row_advance_def cell_triple_def)

lemma apply_field_frame [simp]:
  "cell_id (apply_field f r) = cell_id r" "cell_repo (apply_field f r) = cell_repo r"
  "cell_target (apply_field f r) = cell_target r" "cell_issue (apply_field f r) = cell_issue r"
  "cell_epoch (apply_field f r) = cell_epoch r"
  by (cases f; simp)+

lemma fold_apply_field_frame [simp]:
  "cell_id (fold apply_field fs r) = cell_id r" "cell_repo (fold apply_field fs r) = cell_repo r"
  "cell_target (fold apply_field fs r) = cell_target r" "cell_issue (fold apply_field fs r) = cell_issue r"
  "cell_epoch (fold apply_field fs r) = cell_epoch r"
  by (induction fs arbitrary: r) simp_all

lemma row_advance_patch: "row_advance p (\<lambda>r. (fold apply_field fs r)\<lparr>cell_updated_at := now\<rparr>)"
  by (simp add: row_advance_def cell_triple_def)

lemma activate_cases:
  assumes "activate rv ident actor now (s0, w) = (res, s', w')"
  obtains (same) e where "res = Inl e" "s' = s0"
  | (ok) current n s1 s2 r where
      "get_cell (stable_id ident) (insert_identity ident now s0) = Some current"
      "(cell_state current = ''created'' \<and> cell_run_id current = None \<and> n = cell_epoch current)
        \<or> (\<not> (cell_state current = ''created'' \<and> cell_run_id current = None)
            \<and> cell_state current \<in> set TERMINAL_STATES \<and> n = cell_epoch current + 1)"
      "s1 = (insert_identity ident now s0)\<lparr>cs_cells := upd_where
              (\<lambda>r. cell_id r = stable_id ident \<and> cell_epoch r = cell_epoch current
                   \<and> cell_state r = cell_state current)
              (activate_row n now) (cs_cells (insert_identity ident now s0))\<rparr>"
      "append_event \<lparr>mu_cell = stable_id ident, mu_epoch = n, mu_key = ''activation:'' @ int_str n,
          mu_kind = ''activated'', mu_payload = JObj [(''actor'', JStr actor)]\<rparr> now s1 = Inr s2"
      "get_cell (stable_id ident) s2 = Some r" "res = Inr r" "s' = s2"
      "w' = (if n \<noteq> cell_epoch current
             then call_revoker rv (stable_id ident) (cell_epoch current) ''epoch_advanced'' w else w)"
  using assms
  by (auto simp: activate_def Let_def split: option.splits if_splits sum.splits)

lemma take_epoch_cases:
  assumes "take_epoch rv cid expected actor now (s, w) = (res, s', w')"
  obtains (same) e where "res = Inl e" "s' = s"
  | (ok) s1 where
      "rowcount (\<lambda>r. cell_id r = cid \<and> cell_epoch r = expected) (cs_cells s) = 1"
      "s1 = s\<lparr>cs_cells := upd_where (\<lambda>r. cell_id r = cid \<and> cell_epoch r = expected)
               (\<lambda>r. r\<lparr>cell_epoch := expected + 1, cell_policy_digest := None, cell_updated_at := now\<rparr>)
               (cs_cells s)\<rparr>"
      "append_event \<lparr>mu_cell = cid, mu_epoch = expected + 1, mu_key = ''epoch:'' @ int_str (expected + 1),
          mu_kind = ''epoch_advanced'', mu_payload = JObj [(''actor'', JStr actor)]\<rparr> now s1 = Inr s'"
      "res = Inr (expected + 1)" "w' = call_revoker rv cid expected ''epoch_advanced'' w"
  using assms by (auto simp: take_epoch_def Let_def split: if_splits sum.splits)

lemma patch_cases:
  assumes "patch rv cid expected key fs now (s, w) = (res, s', w')"
  obtains (same) e where "res = Inl e" "s' = s"
  | (ok) s1 where
      "\<not> list_ex unsupported fs" "epoch_of cid s = Some expected"
      "append_event \<lparr>mu_cell = cid, mu_epoch = expected, mu_key = key, mu_kind = ''patch'',
          mu_payload = fields_payload fs\<rparr> now s = Inr s1"
      "s' = (if fs = [] then s1
             else s1\<lparr>cs_cells := upd_where (\<lambda>r. cell_id r = cid \<and> cell_epoch r = expected)
                      (\<lambda>r. (fold apply_field fs r)\<lparr>cell_updated_at := now\<rparr>) (cs_cells s1)\<rparr>)"
      "w' = (case new_state fs of None \<Rightarrow> w | Some st \<Rightarrow>
               if st \<in> set TERMINAL_STATES then call_revoker rv cid expected (''cell_'' @ st) w else w)"
  using assms
  by (auto simp: patch_def Let_def epoch_of_def split: option.splits if_splits sum.splits)

lemma activate_inv [inv_intros]:
  assumes "cells_inv s" and "activate rv ident actor now (s, w) = (res, s', w')"
  shows "cells_inv s'"
  using assms(2)
proof (cases rule: activate_cases)
  case same
  with assms(1) show ?thesis by simp
next
  case (ok current n s1 s2 r)
  let ?p = "\<lambda>r. cell_id r = stable_id ident \<and> cell_epoch r = cell_epoch current
              \<and> cell_state r = cell_state current"
  have "row_advance ?p (activate_row n now)"
    using ok(2) by (auto simp: row_advance_def activate_row_def cell_triple_def)
  then have "cells_inv s1" unfolding ok(3)
    by (rule cells_inv_upd[OF cells_inv_insert_identity[OF assms(1)]])
  then show ?thesis unfolding ok(7) using ok(4) by (rule cells_inv_append)
qed

lemma take_epoch_inv [inv_intros]:
  assumes "cells_inv s" and "take_epoch rv cid expected actor now (s, w) = (res, s', w')"
  shows "cells_inv s'"
  using assms(2)
proof (cases rule: take_epoch_cases)
  case same
  with assms(1) show ?thesis by simp
next
  case (ok s1)
  have "cells_inv s1" unfolding ok(2) using assms(1) row_advance_take by (rule cells_inv_upd)
  then show ?thesis using ok(3) by (rule cells_inv_append)
qed

lemma patch_inv [inv_intros]:
  assumes "cells_inv s" and "patch rv cid expected key fs now (s, w) = (res, s', w')"
  shows "cells_inv s'"
  using assms(2)
proof (cases rule: patch_cases)
  case same
  with assms(1) show ?thesis by simp
next
  case (ok s1)
  have "cells_inv s1" using assms(1) ok(3) by (rule cells_inv_append)
  then show ?thesis unfolding ok(4) using row_advance_patch by (auto intro!: cells_inv_upd)
qed

lemma ensure_inv [inv_intros]:
  assumes "cells_inv s" and "ensure rv ident fs now (s, w) = (res, s', w')"
  shows "cells_inv s'"
  using assms cells_inv_insert_identity[of s ident now]
  by (auto simp: ensure_def Let_def split: if_splits option.splits prod.splits sum.splits
      dest: patch_inv)

lemma record_mutation_inv [inv_intros]:
  assumes "cells_inv s" and "record_mutation m now s = (res, s')"
  shows "cells_inv s'"
  using assms by (auto simp: record_mutation_def split: sum.splits intro: cells_inv_append)

text \<open>The store as a transition system: each mutation of the API is a step.\<close>

inductive cell_step :: "'w revoker option \<Rightarrow> cell_store \<times> 'w \<Rightarrow> cell_store \<times> 'w \<Rightarrow> bool" for rv where
  step_ensure: "ensure rv i fs now (s, w) = (res, s', w') \<Longrightarrow> cell_step rv (s, w) (s', w')"
| step_activate: "activate rv i actor now (s, w) = (res, s', w') \<Longrightarrow> cell_step rv (s, w) (s', w')"
| step_take: "take_epoch rv c e actor now (s, w) = (resi, s', w') \<Longrightarrow> cell_step rv (s, w) (s', w')"
| step_patch: "patch rv c e k fs now (s, w) = (res, s', w') \<Longrightarrow> cell_step rv (s, w) (s', w')"
| step_record: "record_mutation m now s = (resu, s') \<Longrightarrow> cell_step rv (s, w) (s', w)"

inductive_simps cell_step_iff: "cell_step rv (s, w) (s', w')"

lemma cell_step_inv: "cells_inv s \<Longrightarrow> cell_step rv (s, w) (s', w') \<Longrightarrow> cells_inv s'"
  by (auto simp: cell_step_iff
      dest: ensure_inv activate_inv take_epoch_inv patch_inv record_mutation_inv)

interpretation cells: inductive_invariant
  "\<lambda>(s, w). s = empty_store" "cell_step rv" "\<lambda>(s, w). cells_inv s" for rv :: "'w revoker option"
  by unfold_locales (auto simp: cells_inv_empty intro: cell_step_inv)

section \<open>Fencing\<close>

text \<open>How one operation may change the store: the timeline grows by events that carry the Cell's
  epoch after the operation, and no epoch goes down.\<close>

definition fenced_extension :: "cell_store \<Rightarrow> cell_store \<Rightarrow> bool" where
  "fenced_extension s t \<longleftrightarrow>
     (\<exists>new. cs_events t = cs_events s @ new
        \<and> (\<forall>e\<in>set new. epoch_of (ev_cell e) t = Some (ev_epoch e)))
     \<and> (\<forall>c n. epoch_of c s = Some n \<longrightarrow> (\<exists>m. epoch_of c t = Some m \<and> n \<le> m))"

lemma fenced_extension_refl [simp]: "fenced_extension s s"
  by (auto simp: fenced_extension_def)

lemma fenced_extension_rows:
  assumes "cs_events t = cs_events s"
    and "\<And>c n. epoch_of c s = Some n \<Longrightarrow> \<exists>m. epoch_of c t = Some m \<and> n \<le> m"
  shows "fenced_extension s t"
  using assms by (auto simp: fenced_extension_def)

lemma fenced_extension_insert: "fenced_extension s (insert_identity i now s)"
  by (rule fenced_extension_rows) (auto dest: epoch_of_insert_identity)

lemma fenced_extension_upd:
  "row_advance p f \<Longrightarrow> fenced_extension s (s\<lparr>cs_cells := upd_where p f (cs_cells s)\<rparr>)"
  by (rule fenced_extension_rows) (auto dest: epoch_of_upd)

lemma epoch_of_append_event [simp]:
  "append_event m now s = Inr t \<Longrightarrow> epoch_of c t = epoch_of c s"
  by (auto simp: epoch_of_def get_cell_def dest!: append_event_Inr(1))

lemma fenced_extension_append:
  assumes "append_event m now s = Inr t"
  shows "fenced_extension s t"
proof -
  have "cs_events t = cs_events s @ [event_of m now s]"
    using append_event_Inr(1)[OF assms] by simp
  moreover have "epoch_of (mu_cell m) t = Some (mu_epoch m)"
    using append_event_Inr(2)[OF assms] assms by simp
  ultimately show ?thesis using assms by (auto simp: fenced_extension_def)
qed

text \<open>An update of rows followed by an append, and an append followed by a patch of columns.\<close>

lemma fenced_extension_upd_append:
  assumes "fenced_extension s t" and "cs_events t = cs_events s" and "append_event m now t = Inr u"
  shows "fenced_extension s u"
  using assms fenced_extension_append[OF assms(3)]
  unfolding fenced_extension_def by (metis order_trans)

lemma epoch_of_same_upd:
  assumes "\<And>r. p r \<Longrightarrow> cell_id (f r) = cell_id r \<and> cell_epoch (f r) = cell_epoch r"
  shows "epoch_of c (s\<lparr>cs_cells := upd_where p f (cs_cells s)\<rparr>) = epoch_of c s"
  using assms by (auto simp: epoch_of_def get_cell_def select_one_upd_where option.map_comp comp_def
      intro!: option.map_cong)

lemma fenced_extension_append_upd:
  assumes "append_event m now s = Inr t"
    and "\<And>r. p r \<Longrightarrow> cell_id (f r) = cell_id r \<and> cell_epoch (f r) = cell_epoch r"
  shows "fenced_extension s (t\<lparr>cs_cells := upd_where p f (cs_cells t)\<rparr>)"
proof -
  let ?u = "t\<lparr>cs_cells := upd_where p f (cs_cells t)\<rparr>"
  have "epoch_of c ?u = epoch_of c t" for c using assms(2) by (rule epoch_of_same_upd)
  moreover have "cs_events ?u = cs_events t" by simp
  ultimately show ?thesis
    using fenced_extension_append[OF assms(1)] unfolding fenced_extension_def by auto
qed

lemma activate_fenced:
  assumes "activate rv i actor now (s, w) = (res, t, w')"
  shows "fenced_extension s t"
  using assms
proof (cases rule: activate_cases)
  case (ok current n s1 s2 r)
  let ?s = "insert_identity i now s"
  let ?p = "\<lambda>r. cell_id r = stable_id i \<and> cell_epoch r = cell_epoch current
              \<and> cell_state r = cell_state current"
  have adv: "row_advance ?p (activate_row n now)"
    using ok(2) by (auto simp: row_advance_def activate_row_def cell_triple_def)
  have "fenced_extension s s1"
  proof (rule fenced_extension_rows)
    show "cs_events s1 = cs_events s" by (simp add: ok(3))
    fix c k assume "epoch_of c s = Some k"
    then have "epoch_of c ?s = Some k" by (rule epoch_of_insert_identity)
    then show "\<exists>m. epoch_of c s1 = Some m \<and> k \<le> m" unfolding ok(3) by (rule epoch_of_upd[OF adv])
  qed
  moreover have "cs_events s1 = cs_events s" by (simp add: ok(3))
  ultimately show ?thesis unfolding ok(7) using ok(4) by (rule fenced_extension_upd_append)
qed simp

lemma take_epoch_fenced:
  assumes "take_epoch rv c e actor now (s, w) = (res, t, w')"
  shows "fenced_extension s t"
  using assms
proof (cases rule: take_epoch_cases)
  case (ok s1)
  have "fenced_extension s s1" unfolding ok(2) by (rule fenced_extension_upd[OF row_advance_take])
  moreover have "cs_events s1 = cs_events s" by (simp add: ok(2))
  ultimately show ?thesis using ok(3) by (rule fenced_extension_upd_append)
qed simp

lemma patch_fenced:
  assumes "patch rv c e k fs now (s, w) = (res, t, w')"
  shows "fenced_extension s t"
  using assms
proof (cases rule: patch_cases)
  case (ok s1)
  then show ?thesis
    by (auto intro: fenced_extension_append intro!: fenced_extension_append_upd[OF ok(3)])
qed simp

lemma record_fenced: "record_mutation m now s = (res, t) \<Longrightarrow> fenced_extension s t"
  by (auto simp: record_mutation_def split: sum.splits intro: fenced_extension_append)

lemma fenced_extension_insert_trans:
  "fenced_extension (insert_identity i now s) t \<Longrightarrow> fenced_extension s t"
  using epoch_of_insert_identity[of _ s _ i now] by (auto simp: fenced_extension_def)

lemma ensure_fenced: "ensure rv i fs now (s, w) = (res, t, w') \<Longrightarrow> fenced_extension s t"
  by (auto simp: ensure_def Let_def fenced_extension_insert split: if_splits option.splits prod.splits
      sum.splits dest!: patch_fenced intro: fenced_extension_insert_trans)

lemma cell_step_fenced: "cell_step rv (s, w) (t, w') \<Longrightarrow> fenced_extension s t"
  by (auto simp: cell_step_iff
      dest: ensure_fenced activate_fenced take_epoch_fenced patch_fenced record_fenced)

lemma fenced_steps:
  assumes "(cell_step rv)\<^sup>*\<^sup>* sw tw" and "epoch_of c (fst sw) = Some n"
  shows "(\<exists>new. cs_events (fst tw) = cs_events (fst sw) @ new
            \<and> (\<forall>e\<in>set new. ev_cell e = c \<longrightarrow> n \<le> ev_epoch e))
         \<and> (\<exists>m. epoch_of c (fst tw) = Some m \<and> n \<le> m)"
  using assms
proof (induction rule: rtranclp_induct)
  case base
  then show ?case by simp
next
  case (step y z)
  obtain new m where IH: "cs_events (fst y) = cs_events (fst sw) @ new"
    "\<forall>e\<in>set new. ev_cell e = c \<longrightarrow> n \<le> ev_epoch e" "epoch_of c (fst y) = Some m" "n \<le> m"
    using step by blast
  have "fenced_extension (fst y) (fst z)"
    using step(2) by (metis cell_step_fenced prod.collapse)
  then obtain new' m' where n': "cs_events (fst z) = cs_events (fst y) @ new'"
    "\<forall>e\<in>set new'. epoch_of (ev_cell e) (fst z) = Some (ev_epoch e)"
    "epoch_of c (fst z) = Some m'" "m \<le> m'"
    using IH(3) unfolding fenced_extension_def by blast
  have "\<forall>e\<in>set (new @ new'). ev_cell e = c \<longrightarrow> n \<le> ev_epoch e"
    using IH(2,4) n' by fastforce
  then show ?case using IH(1,4) n' by fastforce
qed

section \<open>The abstract fence\<close>

text \<open>What a client of the store relies on: the current epoch of every registered Cell, and the log
  of accepted receipts. A receipt is accepted only at the current epoch and only once per key.\<close>

record fence =
  f_epoch :: "string \<Rightarrow> int option"
  f_log :: "(string \<times> int \<times> string) list"

inductive fence_step :: "fence \<Rightarrow> fence \<Rightarrow> bool" where
  Register: "f_epoch a c = None \<Longrightarrow> fence_step a (a\<lparr>f_epoch := (f_epoch a)(c \<mapsto> 1)\<rparr>)"
| Advance: "f_epoch a c = Some e \<Longrightarrow> fence_step a (a\<lparr>f_epoch := (f_epoch a)(c \<mapsto> e + 1)\<rparr>)"
| Receipt: "f_epoch a c = Some e \<Longrightarrow> (\<And>e'. (c, e', k) \<notin> set (f_log a)) \<Longrightarrow>
     fence_step a (a\<lparr>f_log := f_log a @ [(c, e, k)]\<rparr>)"

definition abs_fence :: "cell_store \<Rightarrow> fence" where
  "abs_fence s = \<lparr>f_epoch = (\<lambda>c. epoch_of c s),
                  f_log = map (\<lambda>e. (ev_cell e, ev_epoch e, ev_key e)) (cs_events s)\<rparr>"

lemma fence_eqI: "f_epoch a = f_epoch b \<Longrightarrow> f_log a = f_log b \<Longrightarrow> a = (b :: fence)"
  by simp

lemma abs_fence_insert: "fence_step\<^sup>*\<^sup>* (abs_fence s) (abs_fence (insert_identity i now s))"
proof (cases "insert_identity i now s = s")
  case False
  then have none: "epoch_of (stable_id i) s = None"
    by (auto simp: insert_identity_def epoch_of_def get_cell_def list_ex_iff select_one_None_iff
        split: if_splits)
  have "epoch_of c (insert_identity i now s) = ((\<lambda>c. epoch_of c s)(stable_id i \<mapsto> 1)) c" for c
    using False none
    by (auto simp: insert_identity_def epoch_of_def get_cell_def select_one_append
        split: if_splits option.splits)
  then have "abs_fence (insert_identity i now s)
      = (abs_fence s)\<lparr>f_epoch := (f_epoch (abs_fence s))(stable_id i \<mapsto> 1)\<rparr>"
    by (intro fence_eqI) (auto simp: abs_fence_def)
  moreover have "fence_step (abs_fence s) \<dots>"
    using none by (intro Register) (simp add: abs_fence_def)
  ultimately show ?thesis by simp
qed simp

lemma abs_fence_append:
  assumes "append_event m now s = Inr t"
  shows "fence_step (abs_fence s) (abs_fence t)"
proof -
  have "abs_fence t = (abs_fence s)\<lparr>f_log := f_log (abs_fence s) @ [(mu_cell m, mu_epoch m, mu_key m)]\<rparr>"
    using assms append_event_Inr(1)[OF assms] by (intro fence_eqI) (auto simp: abs_fence_def)
  moreover have "fence_step (abs_fence s) \<dots>"
  proof (rule Receipt)
    show "f_epoch (abs_fence s) (mu_cell m) = Some (mu_epoch m)"
      using append_event_Inr(2)[OF assms] by (simp add: abs_fence_def)
    show "(mu_cell m, e', mu_key m) \<notin> set (f_log (abs_fence s))" for e'
      using append_event_Inr(3)[OF assms] by (force simp: abs_fence_def same_event_def)
  qed
  ultimately show ?thesis by simp
qed

text \<open>A row update guarded by the key either keeps every epoch or advances one Cell by one.\<close>

lemma abs_fence_same_upd:
  assumes "\<And>r. p r \<Longrightarrow> cell_id (f r) = cell_id r \<and> cell_epoch (f r) = cell_epoch r"
  shows "abs_fence (s\<lparr>cs_cells := upd_where p f (cs_cells s)\<rparr>) = abs_fence s"
proof -
  have "(\<lambda>c. epoch_of c (s\<lparr>cs_cells := upd_where p f (cs_cells s)\<rparr>)) = (\<lambda>c. epoch_of c s)"
    using epoch_of_same_upd[OF assms, where s = s] by (rule ext)
  then show ?thesis by (simp add: abs_fence_def)
qed

lemma abs_fence_bump:
  assumes row: "get_cell cid s = Some r" "p r"
    and p: "\<And>r'. p r' \<Longrightarrow> cell_id r' = cid"
    and f: "\<And>r'. p r' \<Longrightarrow> cell_id (f r') = cell_id r' \<and> cell_epoch (f r') = cell_epoch r' + 1"
  shows "fence_step (abs_fence s) (abs_fence (s\<lparr>cs_cells := upd_where p f (cs_cells s)\<rparr>))"
proof -
  let ?t = "s\<lparr>cs_cells := upd_where p f (cs_cells s)\<rparr>"
  have get: "get_cell c ?t = map_option (\<lambda>r. if p r then f r else r) (get_cell c s)" for c
  proof -
    have "cs_cells ?t = upd_where p f (cs_cells s)" by simp
    then show ?thesis unfolding get_cell_def
      by (simp only: select_one_upd_where[of "cs_cells s" p cell_id f, OF conjunct1[OF f]])
  qed
  have "epoch_of c ?t = ((\<lambda>c. epoch_of c s)(cid \<mapsto> cell_epoch r + 1)) c" for c
  proof (cases "c = cid")
    case True
    then show ?thesis using row f by (simp add: epoch_of_def get)
  next
    case False
    then have "\<not> p r'" if "get_cell c s = Some r'" for r'
      using that p select_one_SomeD by (fastforce simp: get_cell_def)
    then show ?thesis using False by (cases "get_cell c s") (simp_all add: epoch_of_def get)
  qed
  then have "abs_fence ?t
      = (abs_fence s)\<lparr>f_epoch := (f_epoch (abs_fence s))(cid \<mapsto> cell_epoch r + 1)\<rparr>"
    by (intro fence_eqI) (auto simp: abs_fence_def)
  moreover have "fence_step (abs_fence s) \<dots>"
    using row by (intro Advance) (simp add: abs_fence_def epoch_of_def)
  ultimately show ?thesis by simp
qed

lemma activate_refines:
  assumes "activate rv i actor now (s, w) = (res, t, w')"
  shows "fence_step\<^sup>*\<^sup>* (abs_fence s) (abs_fence t)"
  using assms
proof (cases rule: activate_cases)
  case (ok current n s1 s2 r)
  let ?s = "insert_identity i now s"
  have "fence_step\<^sup>*\<^sup>* (abs_fence ?s) (abs_fence s1)"
  proof (cases "n = cell_epoch current")
    case True
    then have "abs_fence s1 = abs_fence ?s"
      unfolding ok(3) by (intro abs_fence_same_upd) (auto simp: activate_row_def)
    then show ?thesis by simp
  next
    case False
    have cid: "cell_id current = stable_id i"
      using ok(1) select_one_SomeD by (fastforce simp: get_cell_def)
    have "fence_step (abs_fence ?s) (abs_fence s1)" unfolding ok(3)
      using ok(1,2) False cid by (intro abs_fence_bump[where r = current]) (auto simp: activate_row_def)
    then show ?thesis by blast
  qed
  then have "fence_step\<^sup>*\<^sup>* (abs_fence s) (abs_fence s1)"
    using abs_fence_insert by (rule rtranclp_trans[rotated])
  then show ?thesis unfolding ok(7) using abs_fence_append[OF ok(4)]
    by (rule rtranclp.rtrancl_into_rtrancl)
qed simp

lemma take_epoch_refines:
  assumes "primary_key cell_id (cs_cells s)" and "take_epoch rv c e actor now (s, w) = (res, t, w')"
  shows "fence_step\<^sup>*\<^sup>* (abs_fence s) (abs_fence t)"
  using assms(2)
proof (cases rule: take_epoch_cases)
  case (ok s1)
  obtain r where "get_cell c s = Some r" "cell_id r = c \<and> cell_epoch r = e"
    using ok(1) rowcount_one_iff[OF assms(1), of "\<lambda>r. cell_id r = c \<and> cell_epoch r = e" c]
    by (auto simp: get_cell_def)
  then have "fence_step (abs_fence s) (abs_fence s1)" unfolding ok(2)
    by (intro abs_fence_bump[where r = r]) auto
  then show ?thesis using abs_fence_append[OF ok(3)] by auto
qed simp

lemma patch_refines:
  assumes "patch rv c e k fs now (s, w) = (res, t, w')"
  shows "fence_step\<^sup>*\<^sup>* (abs_fence s) (abs_fence t)"
  using assms
proof (cases rule: patch_cases)
  case (ok s1)
  have "abs_fence t = abs_fence s1" unfolding ok(4) by (auto intro!: abs_fence_same_upd)
  then show ?thesis using abs_fence_append[OF ok(3)] by auto
qed simp

lemma ensure_refines:
  assumes "ensure rv i fs now (s, w) = (res, t, w')"
  shows "fence_step\<^sup>*\<^sup>* (abs_fence s) (abs_fence t)"
  using assms abs_fence_insert[of s i now]
  by (auto simp: ensure_def Let_def split: if_splits option.splits prod.splits sum.splits
      dest!: patch_refines)

lemma record_refines:
  assumes "record_mutation m now s = (res, t)"
  shows "fence_step\<^sup>*\<^sup>* (abs_fence s) (abs_fence t)"
  using assms by (auto simp: record_mutation_def split: sum.splits dest!: abs_fence_append)

lemma cell_step_refines:
  "cells_inv s \<Longrightarrow> cell_step rv (s, w) (t, w') \<Longrightarrow> fence_step\<^sup>*\<^sup>* (abs_fence s) (abs_fence t)"
  by (auto simp: cell_step_iff dest: ensure_refines activate_refines patch_refines record_refines
      take_epoch_refines[OF cells_inv_pk])

section \<open>Cell ids\<close>

lemma is_cell_id_iff:
  "is_cell_id v \<longleftrightarrow> (\<exists>h. length h = 24 \<and> list_all is_hex h
     \<and> (v = ''cell_'' @ h \<or> v = ''cell_'' @ h @ [CHR 0x0A]))"
proof
  assume v: "is_cell_id v"
  let ?h = "take 24 (drop 5 v)"
  have five: "length ''cell_'' = 5" by simp
  have "v = take 5 v @ ?h @ drop 24 (drop 5 v)" by (metis append_take_drop_id)
  moreover have "take 5 v = ''cell_''" "length ?h = 24" "list_all is_hex ?h"
    "drop 24 (drop 5 v) = [] \<or> drop 24 (drop 5 v) = [CHR 0x0A]"
    using v unfolding is_cell_id_def CELL_ID_PREFIX_def CELL_ID_DIGEST_LEN_def startswith_def Let_def five
    by blast+
  ultimately show "\<exists>h. length h = 24 \<and> list_all is_hex h
     \<and> (v = ''cell_'' @ h \<or> v = ''cell_'' @ h @ [CHR 0x0A])"
    by (metis append_Nil2)
next
  assume "\<exists>h. length h = 24 \<and> list_all is_hex h
     \<and> (v = ''cell_'' @ h \<or> v = ''cell_'' @ h @ [CHR 0x0A])"
  then obtain h where "length h = 24" "list_all is_hex h"
    "v = ''cell_'' @ h \<or> v = ''cell_'' @ h @ [CHR 0x0A]" by blast
  then show "is_cell_id v"
    by (auto simp: is_cell_id_def CELL_ID_PREFIX_def CELL_ID_DIGEST_LEN_def startswith_def Let_def)
qed

lemma stable_id_shape: "\<exists>h. length h = 24 \<and> list_all is_hex h \<and> stable_id i = ''cell_'' @ h"
  using take_sha256_hex[of 24] by (auto simp: stable_id_def CELL_ID_PREFIX_def CELL_ID_DIGEST_LEN_def)

lemma is_cell_id_stable_id [simp]: "is_cell_id (stable_id i)"
  using stable_id_shape[of i] by (auto simp: is_cell_id_iff)

section \<open>Properties\<close>

text \<open>Every id the minter produces is accepted by the predicate every reader uses, and it is 29
  characters long; but the predicate also accepts the same id followed by one newline, which is 30
  characters, because the pattern is anchored with a dollar sign under \<open>re.match\<close>.\<close>

theorem cell_id_minted_and_newline:
  "is_cell_id (stable_id i) \<and> length (stable_id i) = 29
   \<and> is_cell_id (stable_id i @ [CHR 0x0A])"
proof -
  obtain h where h: "length h = 24" "list_all is_hex h" "stable_id i = ''cell_'' @ h"
    using stable_id_shape by blast
  then have "is_cell_id (stable_id i @ [CHR 0x0A])" by (auto simp: is_cell_id_iff)
  then show ?thesis using h(1,3) is_cell_id_stable_id[of i] by simp
qed

text \<open>In every reachable store the timeline of a Cell is strictly ordered by sequence number,
  names each operation key once, carries epochs that never decrease, and none of them is beyond the
  Cell's current epoch.\<close>

theorem reachable_timeline:
  assumes "reach (\<lambda>(s, w). s = empty_store) (cell_step rv) (s, w)"
  shows "sorted_wrt (<) (map ev_seq (history c s))
       \<and> distinct (map ev_key (history c s))
       \<and> sorted (map ev_epoch (history c s))
       \<and> (\<forall>e\<in>set (history c s). \<exists>n. epoch_of c s = Some n \<and> ev_epoch e \<le> n)"
proof -
  have inv: "cells_inv s" using cells.reach_inv[OF assms] by simp
  let ?es = "filter (\<lambda>e. ev_cell e = c) (cs_events s)"
  have "sorted_wrt (<) (map ev_seq (cs_events s))" using inv by (simp add: cells_inv_def)
  then have seq: "sorted_wrt (<) (map ev_seq ?es)"
    by (simp add: sorted_wrt_map sorted_wrt_filter)
  then have "sorted (map ev_seq ?es)" by (rule strict_sorted_imp_sorted)
  then have hist: "history c s = ?es" unfolding history_def by (rule sort_key_id_if_sorted)
  have "distinct (map event_id (cs_events s))" using inv by (simp add: cells_inv_def primary_key_def)
  then have "inj_on event_id (set ?es)" "distinct ?es"
    by (auto simp: distinct_map inj_on_def)
  then have "distinct (map ev_key ?es)"
    by (auto simp: distinct_map inj_on_def event_id_def)
  moreover have "sorted (map ev_epoch ?es)"
  proof -
    have "sorted_wrt (\<lambda>a b. ev_cell a = ev_cell b \<longrightarrow> ev_epoch a \<le> ev_epoch b) ?es"
      using inv by (simp add: cells_inv_def epochs_sorted_def sorted_wrt_filter)
    then have "sorted_wrt (\<lambda>a b. ev_epoch a \<le> ev_epoch b) ?es"
      by (rule sorted_wrt_mono_rel[rotated]) auto
    then show ?thesis by (simp add: sorted_wrt_map)
  qed
  moreover have "\<forall>e\<in>set ?es. \<exists>n. epoch_of c s = Some n \<and> ev_epoch e \<le> n"
    using inv by (auto simp: cells_inv_def)
  ultimately show ?thesis using seq hist by simp
qed

definition demo_identity :: cell_identity where
  "demo_identity = \<lparr>id_repo = ''acme/shop'', id_target = ''.'', id_issue = ''7''\<rparr>"

definition demo_store :: cell_store where
  "demo_store = fst (snd (activate None demo_identity ''cli'' 1 (empty_store, ())))"

lemma demo_store_eq:
  "demo_store = \<lparr>cs_cells = [\<lparr>cell_id = stable_id demo_identity, cell_schema = 1,
      cell_repo = ''acme/shop'', cell_target = ''.'', cell_issue = ''7'', cell_epoch = 1,
      cell_state = ''dispatching'', cell_dag_id = None, cell_run_id = None, cell_map_index = None,
      cell_generation = None, cell_policy_digest = None, cell_base_sha = None,
      cell_observed_sha = None, cell_compute = JNull, cell_cleanup = JNull, cell_created_at = 1,
      cell_updated_at = 1\<rparr>],
     cs_events = [\<lparr>ev_seq = 1, ev_cell = stable_id demo_identity, ev_epoch = 1,
      ev_key = ''activation:1'', ev_kind = ''activated'', ev_payload = JObj [(''actor'', JStr ''cli'')],
      ev_at = 1\<rparr>], cs_seq = 1\<rparr>"
  by (simp add: demo_store_def activate_def Let_def insert_identity_def empty_store_def get_cell_def
      rowcount_def upd_where_def append_event_def activate_row_def int_str_def nat_str.simps
      digit_char_def demo_identity_def)

lemma demo_store_reach: "reach (\<lambda>(s, w). s = empty_store) (cell_step None) (demo_store, ())"
proof (rule reach_step[OF reach_init])
  show "(case (empty_store, ()) of (s, w) \<Rightarrow> s = empty_store)" by simp
  show "cell_step None (empty_store, ()) (demo_store, ())"
    by (rule step_activate[of _ demo_identity "''cli''" 1]) (simp add: demo_store_def prod_eq_iff)
qed

theorem reachable_timeline_witness:
  "map ev_key (history (stable_id demo_identity) demo_store) = [''activation:1'']
   \<and> distinct (map ev_key (history (stable_id demo_identity) demo_store))
   \<and> epoch_of (stable_id demo_identity) demo_store = Some 1"
  using reachable_timeline[OF demo_store_reach, of "stable_id demo_identity"]
  by (simp add: demo_store_eq history_def epoch_of_def get_cell_def)

text \<open>C3: The epoch fence. From any store that satisfies the invariant, whatever operations run and
  in whatever order, events are only appended, no event of a Cell is ever appended under an epoch
  below the one the Cell had at the start, and the Cell's epoch never goes down.\<close>

theorem no_stale_append:
  assumes "(cell_step rv)\<^sup>*\<^sup>* (s, w) (t, w')" and "epoch_of c s = Some n"
  shows "\<exists>new m. cs_events t = cs_events s @ new \<and> epoch_of c t = Some m \<and> n \<le> m
           \<and> (\<forall>e\<in>set new. ev_cell e = c \<longrightarrow> n \<le> ev_epoch e)"
  using fenced_steps[OF assms(1), of c n] assms(2) by auto

definition demo_store2 :: cell_store where
  "demo_store2 = fst (snd (take_epoch None (stable_id demo_identity) 1 ''ops'' 2 (demo_store, ())))"

lemma demo_step2: "cell_step None (demo_store, ()) (demo_store2, ())"
  by (rule step_take[of _ "stable_id demo_identity" 1 "''ops''" 2]) (simp add: demo_store2_def prod_eq_iff)

lemma demo_store2_epoch: "epoch_of (stable_id demo_identity) demo_store2 = Some 2"
  by (simp add: demo_store2_def take_epoch_def demo_store_eq Let_def rowcount_def upd_where_def
      append_event_def get_cell_def same_event_def int_str_def nat_str.simps digit_char_def epoch_of_def)

theorem no_stale_append_witness:
  "\<exists>new m. cs_events demo_store2 = cs_events demo_store @ new
     \<and> epoch_of (stable_id demo_identity) demo_store2 = Some m \<and> m = 2
     \<and> list_all (\<lambda>e. ev_cell e = stable_id demo_identity \<longrightarrow> 1 \<le> ev_epoch e) new"
proof -
  have "epoch_of (stable_id demo_identity) demo_store = Some 1"
    by (simp add: demo_store_eq epoch_of_def get_cell_def)
  from no_stale_append[OF r_into_rtranclp[of "cell_step None", OF demo_step2] this]
  show ?thesis using demo_store2_epoch by (auto simp: list_all_iff)
qed

text \<open>C26: The store implements the abstract fence: every operation of the API is a sequence of
  steps that register a Cell at epoch 1, advance one epoch by one, or accept one receipt at the
  current epoch under a fresh key.\<close>

theorem store_refines_fence:
  assumes "reach (\<lambda>(s, w). s = empty_store) (cell_step rv) (s, w)" and "cell_step rv (s, w) (t, w')"
  shows "fence_step\<^sup>*\<^sup>* (abs_fence s) (abs_fence t)"
  using cells.reach_inv[OF assms(1)] assms(2) by (auto intro: cell_step_refines)

theorem store_refines_fence_witness: "fence_step\<^sup>*\<^sup>* (abs_fence demo_store) (abs_fence demo_store2)"
  using store_refines_fence[OF demo_store_reach demo_step2] .

lemma insert_identity_present: "get_cell (stable_id i) s = Some r \<Longrightarrow> insert_identity i now s = s"
  by (auto simp: insert_identity_def get_cell_def list_ex_iff dest: select_one_SomeD)

definition fresh_row :: "cell_row \<Rightarrow> bool" where
  "fresh_row r \<longleftrightarrow> cell_state r = ''created'' \<and> cell_run_id r = None"

definition next_epoch :: "cell_row \<Rightarrow> int" where
  "next_epoch r = (if fresh_row r then cell_epoch r else cell_epoch r + 1)"

lemma activate_hit_one:
  assumes "primary_key cell_id (cs_cells s)" and "get_cell c s = Some r"
  shows "rowcount (\<lambda>x. cell_id x = c \<and> cell_epoch x = cell_epoch r \<and> cell_state x = cell_state r)
           (cs_cells s) = 1"
  using assms rowcount_one_iff[OF assms(1), where k = c and
      p = "\<lambda>x. cell_id x = c \<and> cell_epoch x = cell_epoch r \<and> cell_state x = cell_state r"]
  by (auto simp: get_cell_def dest: select_one_SomeD)

lemma append_event_fresh:
  assumes "get_cell (mu_cell m) s = Some r" and "cell_epoch r = mu_epoch m"
    and "\<not> list_ex (same_event m) (cs_events s)"
  shows "append_event m now s
           = Inr (s\<lparr>cs_events := cs_events s @ [event_of m now s], cs_seq := Suc (cs_seq s)\<rparr>)"
  using assms by (simp add: append_event_def event_of_def)

text \<open>Activation on every branch, for a Cell the store already holds. A Cell that is neither
  fresh nor terminal is refused as busy and nothing changes. Otherwise, if the activation event of
  the next epoch is already in the timeline the call is refused as a duplicate and the store is
  unchanged; if not, it succeeds: a fresh Cell keeps its epoch, a terminal one advances it by one
  after the authority of the old epoch has been revoked, and the row is dispatching, unbound and
  without a policy.\<close>

theorem activate_outcomes:
  assumes inv: "cells_inv s" and row: "get_cell (stable_id i) s = Some r"
  shows "if \<not> fresh_row r \<and> cell_state r \<notin> set TERMINAL_STATES
         then activate rv i actor now (s, w) = (Inl CellBusy, s, w)
         else let w1 = (if fresh_row r then w
                        else call_revoker rv (stable_id i) (cell_epoch r) ''epoch_advanced'' w)
              in if list_ex (\<lambda>e. ev_cell e = stable_id i
                                \<and> ev_key e = ''activation:'' @ int_str (next_epoch r)) (cs_events s)
                 then activate rv i actor now (s, w) = (Inl DuplicateOperation, s, w1)
                 else \<exists>t. activate rv i actor now (s, w)
                            = (Inr (activate_row (next_epoch r) now r), t, w1)
                          \<and> get_cell (stable_id i) t = Some (activate_row (next_epoch r) now r)"
proof (cases "\<not> fresh_row r \<and> cell_state r \<notin> set TERMINAL_STATES")
  case True
  then show ?thesis
    using row insert_identity_present[OF row] by (simp add: activate_def fresh_row_def)
next
  case False
  let ?c = "stable_id i"
  let ?p = "\<lambda>x. cell_id x = ?c \<and> cell_epoch x = cell_epoch r \<and> cell_state x = cell_state r"
  let ?f = "activate_row (next_epoch r) now"
  let ?t = "s\<lparr>cs_cells := upd_where ?p ?f (cs_cells s)\<rparr>"
  let ?m = "\<lparr>mu_cell = ?c, mu_epoch = next_epoch r, mu_key = ''activation:'' @ int_str (next_epoch r),
              mu_kind = ''activated'', mu_payload = JObj [(''actor'', JStr actor)]\<rparr>"
  have pk: "primary_key cell_id (cs_cells s)" using inv by (rule cells_inv_pk)
  have one: "rowcount ?p (cs_cells s) = 1" using pk row by (rule activate_hit_one)
  have adv: "row_advance ?p ?f"
    by (auto simp: row_advance_def activate_row_def cell_triple_def next_epoch_def)
  have "cell_id r = ?c" using row by (auto simp: get_cell_def dest: select_one_SomeD)
  then have get: "get_cell ?c ?t = Some (?f r)" using row by (simp add: get_cell_upd[OF adv])
  have same: "same_event ?m = (\<lambda>e. ev_cell e = ?c \<and> ev_key e = ''activation:'' @ int_str (next_epoch r))"
    by (auto simp: same_event_def)
  have unfold: "activate rv i actor now (s, w) =
    (let w1 = (if fresh_row r then w else call_revoker rv ?c (cell_epoch r) ''epoch_advanced'' w)
     in case append_event ?m now ?t of
          Inl e \<Rightarrow> (Inl e, s, w1)
        | Inr s2 \<Rightarrow> (case get_cell ?c s2 of None \<Rightarrow> (Inl CellKeyError, s, w1) | Some r' \<Rightarrow> (Inr r', s2, w1)))"
    using False row one insert_identity_present[OF row]
    by (auto simp: activate_def Let_def fresh_row_def next_epoch_def)
  show ?thesis
  proof (cases "list_ex (same_event ?m) (cs_events s)")
    case True
    then have "append_event ?m now ?t = Inl DuplicateOperation"
      using get by (simp add: append_event_def activate_row_def)
    then show ?thesis using False True unfolding unfold same Let_def by simp
  next
    case no: False
    let ?u = "?t\<lparr>cs_events := cs_events s @ [event_of ?m now ?t], cs_seq := Suc (cs_seq s)\<rparr>"
    have "append_event ?m now ?t = Inr ?u"
      using append_event_fresh[of ?m ?t "?f r" now] get no by (simp add: activate_row_def)
    moreover have "get_cell ?c ?u = Some (?f r)" using get by (simp add: get_cell_def)
    ultimately show ?thesis using False no unfolding unfold same Let_def by auto
  qed
qed

definition demo_terminal :: cell_store where
  "demo_terminal = demo_store\<lparr>cs_cells := map (\<lambda>r. r\<lparr>cell_state := ''failed''\<rparr>) (cs_cells demo_store)\<rparr>"

lemma demo_terminal_inv: "cells_inv demo_terminal"
  by (simp add: demo_terminal_def demo_store_eq cells_inv_def primary_key_def epoch_of_def get_cell_def
      epochs_sorted_def)

theorem activate_outcomes_witness:
  "fst (activate (Some (\<lambda>c e why log. log @ [(c, e, why)])) demo_identity ''cli'' 5 (demo_terminal, []))
     = Inr (activate_row 2 5 (hd (cs_cells demo_terminal)))
   \<and> snd (snd (activate (Some (\<lambda>c e why log. log @ [(c, e, why)])) demo_identity ''cli'' 5 (demo_terminal, [])))
     = [(stable_id demo_identity, 1, ''epoch_advanced'')]"
proof -
  let ?r = "hd (cs_cells demo_terminal)"
  have row: "get_cell (stable_id demo_identity) demo_terminal = Some ?r"
    by (simp add: demo_terminal_def demo_store_eq get_cell_def)
  have st: "\<not> fresh_row ?r" "cell_state ?r \<in> set TERMINAL_STATES" "next_epoch ?r = 2" "cell_epoch ?r = 1"
    by (simp_all add: demo_terminal_def demo_store_eq fresh_row_def TERMINAL_STATES_def next_epoch_def)
  have ev: "\<not> list_ex (\<lambda>e. ev_cell e = stable_id demo_identity \<and> ev_key e = ''activation:'' @ int_str 2)
      (cs_events demo_terminal)"
    by (simp add: demo_terminal_def demo_store_eq int_str_def nat_str.simps digit_char_def)
  show ?thesis
    using activate_outcomes[OF demo_terminal_inv row, of "Some (\<lambda>c e why log. log @ [(c, e, why)])" "''cli''" 5 "[]"]
      st ev by (auto simp: Let_def call_revoker_def)
qed

end
