(* ===== verification/Idempotency.thy ===== *)
theory Idempotency
  imports Cells
begin

text \<open>
  The operation journal of \<open>src/swfactory/idempotency.py\<close>: durable intents for external effects,
  the claim of the one live provider attempt, and the reconciliation rules.

  \<^item> \<open>op_row\<close> is a row of the \<open>operations\<close> table, the journal is the table.
  \<^item> \<open>begin_op\<close>, \<open>start_attempt\<close>, \<open>mark_in_doubt\<close>, \<open>mark_observation\<close>, \<open>schedule_retry\<close> and \<open>commit\<close>
    are its transactions; \<open>execute\<close> and \<open>observe_op\<close> are the calls composed of them. The provider
    callback and the reconciler are parameters acting on a world of their own; the clock readings of
    one call are a parameter \<open>ck\<close>, \<open>ck i\<close> the i-th reading.
  \<^item> The lemmas show that a committed receipt is final, that an attempt is claimed only when nobody
    holds it and the budget allows it, and that a call that finds an earlier intent reaches the
    provider only after a reconciler proved the effect absent and the operation is replay-safe.
\<close>

section \<open>Data\<close>

datatype outcome_status = OCommitted | DefinitelyAbsent | Ambiguous | Divergent | ORefused

fun status_str :: "outcome_status \<Rightarrow> string" where
  "status_str OCommitted = ''committed''"
| "status_str DefinitelyAbsent = ''definitely_absent''"
| "status_str Ambiguous = ''ambiguous''"
| "status_str Divergent = ''divergent''"
| "status_str ORefused = ''refused''"

datatype op_state = Intent | InDoubt | Reconciling | Committed | Exhausted | Refused

fun state_str :: "op_state \<Rightarrow> string" where
  "state_str Intent = ''intent''"
| "state_str InDoubt = ''in_doubt''"
| "state_str Reconciling = ''reconciling''"
| "state_str Committed = ''committed''"
| "state_str Exhausted = ''exhausted''"
| "state_str Refused = ''refused''"

datatype op_error =
    IdentityConflict
  | OperationInDoubt string
  | RetryBudgetExhausted
  | OpKeyError
  | Raised string

record op_ref =
  ref_cell :: string
  ref_epoch :: int
  ref_kind :: string
  ref_key :: string

definition build_ref :: "string \<Rightarrow> int \<Rightarrow> string \<Rightarrow> string list \<Rightarrow> op_ref" where
  "build_ref cell epoch kind parts =
     \<lparr>ref_cell = cell, ref_epoch = epoch, ref_kind = kind,
      ref_key = kind @ '':'' @ take 24 (sha256_hex (join NUL (cell # int_str epoch # kind # parts)))\<rparr>"

record mutation_outcome =
  mo_status :: outcome_status
  mo_result :: json
  mo_evidence :: json
  mo_detail :: "string option"

definition outcome_terminal :: "mutation_outcome \<Rightarrow> bool" where
  "outcome_terminal m = (mo_status m \<in> set [OCommitted, Divergent, ORefused])"

record retry_budget =
  rb_max_attempts :: int
  rb_base_delay :: real
  rb_max_delay :: real

definition sha256_prefix16 :: "string \<Rightarrow> nat" where
  "sha256_prefix16 msg = unat (drop_bit 16 (fst (sha256_state msg)))"

definition retry_delay :: "retry_budget \<Rightarrow> int \<Rightarrow> string \<Rightarrow> real" where
  "retry_delay b attempt key =
     (let exponent = nat (max 0 (attempt - 1));
          raw = min (rb_max_delay b) (rb_base_delay b * 2 ^ exponent);
          jitter = real (sha256_prefix16 (key @ '':'' @ int_str attempt)) / 65535
      in min (rb_max_delay b) (raw * (3 / 4 + 1 / 2 * jitter)))"

definition default_budget :: retry_budget where
  "default_budget = \<lparr>rb_max_attempts = 3, rb_base_delay = 1, rb_max_delay = 60\<rparr>"

definition budget_for :: "string \<Rightarrow> retry_budget" where
  "budget_for kind =
     (if kind = ''airflow_dispatch'' then \<lparr>rb_max_attempts = 3, rb_base_delay = 1, rb_max_delay = 30\<rparr>
      else if kind = ''github_publish'' then \<lparr>rb_max_attempts = 4, rb_base_delay = 1, rb_max_delay = 60\<rparr>
      else if kind = ''github_issue'' then \<lparr>rb_max_attempts = 4, rb_base_delay = 1, rb_max_delay = 60\<rparr>
      else if kind = ''sandbox_cleanup'' then \<lparr>rb_max_attempts = 5, rb_base_delay = 1, rb_max_delay = 60\<rparr>
      else default_budget)"

record op_row =
  op_key :: string
  op_cell :: string
  op_epoch :: int
  op_kind :: string
  op_state :: op_state
  op_result :: "json option"
  op_updated_at :: time
  op_attempts :: int
  op_last_error :: "string option"
  op_observation :: "(outcome_status \<times> json \<times> string option) option"
  op_next_attempt_at :: "time option"
  op_intent_digest :: "string option"
  op_owner :: "string option"
  op_lease_until :: "time option"
  op_replay_safe :: "bool option"
  op_max_attempts :: "int option"

type_synonym journal = "op_row list"

section \<open>Identity checks\<close>

definition valid_ref :: "op_ref \<Rightarrow> bool" where
  "valid_ref ref = (is_cell_id (ref_cell ref) \<and> 1 \<le> ref_epoch ref
     \<and> py_strip (ref_kind ref) \<noteq> [] \<and> py_strip (ref_key ref) \<noteq> [])"

definition valid_digest :: "string option \<Rightarrow> bool" where
  "valid_digest d = (case d of None \<Rightarrow> True | Some v \<Rightarrow>
     startswith v ''sha256:'' \<and> length (removeprefix v ''sha256:'') = 64
     \<and> list_all is_hex (removeprefix v ''sha256:''))"

definition identity_ok :: "op_ref \<Rightarrow> op_row \<Rightarrow> string option \<Rightarrow> bool" where
  "identity_ok ref row digest =
     (valid_ref ref \<and> valid_digest digest
      \<and> (op_cell row, op_epoch row, op_kind row) = (ref_cell ref, ref_epoch ref, ref_kind ref)
      \<and> \<not> (digest \<noteq> None \<and> op_intent_digest row \<noteq> None \<and> op_intent_digest row \<noteq> digest))"

section \<open>Transactions\<close>

definition get_op :: "string \<Rightarrow> journal \<Rightarrow> op_row option" where
  "get_op k j = select_one op_key k j"

abbreviation by_key :: "string \<Rightarrow> op_row \<Rightarrow> bool" where
  "by_key k r \<equiv> op_key r = k"

abbreviation open_by_key :: "string \<Rightarrow> op_row \<Rightarrow> bool" where
  "open_by_key k r \<equiv> op_key r = k \<and> op_state r \<noteq> Committed"

definition new_op :: "op_ref \<Rightarrow> string option \<Rightarrow> bool option \<Rightarrow> int option \<Rightarrow> time \<Rightarrow> op_row" where
  "new_op ref digest safe mx now =
     \<lparr>op_key = ref_key ref, op_cell = ref_cell ref, op_epoch = ref_epoch ref, op_kind = ref_kind ref,
      op_state = Intent, op_result = None, op_updated_at = now, op_attempts = 0, op_last_error = None,
      op_observation = None, op_next_attempt_at = None, op_intent_digest = digest, op_owner = None,
      op_lease_until = None, op_replay_safe = safe, op_max_attempts = mx\<rparr>"

definition insert_or_ignore :: "op_row \<Rightarrow> journal \<Rightarrow> journal" where
  "insert_or_ignore r j = (if get_op (op_key r) j = None then j @ [r] else j)"

definition divergent :: "'a option \<Rightarrow> 'a option \<Rightarrow> bool" where
  "divergent given stored = (given \<noteq> None \<and> stored \<noteq> None \<and> given \<noteq> stored)"

definition fill :: "'a option \<Rightarrow> 'a option \<Rightarrow> 'a option" where
  "fill stored given = (if stored = None then given else stored)"

text \<open>\<open>begin_bind\<close> is the part of the transaction that follows the insertion: the checks against
  the stored row and the one \<open>UPDATE\<close> that binds what the row does not have yet.\<close>

definition begin_bind ::
  "op_ref \<Rightarrow> string option \<Rightarrow> bool option \<Rightarrow> int option \<Rightarrow> time \<Rightarrow> op_row \<Rightarrow> journal \<Rightarrow> journal option" where
  "begin_bind ref digest safe mx now row j =
     (if \<not> identity_ok ref row digest then None
      else if divergent safe (op_replay_safe row) then None
      else if divergent mx (op_max_attempts row) then None
      else if (digest \<noteq> None \<and> op_intent_digest row = None)
              \<or> (safe \<noteq> None \<and> op_replay_safe row = None)
              \<or> (mx \<noteq> None \<and> op_max_attempts row = None) then
        Some (upd_where (by_key (ref_key ref))
                (\<lambda>r. r\<lparr>op_intent_digest := fill (op_intent_digest row) digest,
                      op_replay_safe := fill (op_replay_safe row) safe,
                      op_max_attempts := fill (op_max_attempts row) mx,
                      op_updated_at := now\<rparr>) j)
      else Some j)"

definition begin_op ::
  "op_ref \<Rightarrow> string option \<Rightarrow> bool option \<Rightarrow> int option \<Rightarrow> time \<Rightarrow> journal
     \<Rightarrow> (op_error + op_state) \<times> journal" where
  "begin_op ref digest safe mx now j =
     (if \<not> valid_ref ref \<or> \<not> valid_digest digest
         \<or> (case mx of None \<Rightarrow> False | Some m \<Rightarrow> m < 1) then (Inl IdentityConflict, j)
      else
        let j1 = insert_or_ignore (new_op ref digest safe mx now) j in
        case get_op (ref_key ref) j1 of
          None \<Rightarrow> (Inl OpKeyError, j)
        | Some row \<Rightarrow>
            (case begin_bind ref digest safe mx now row j1 of
               None \<Rightarrow> (Inl IdentityConflict, j)
             | Some j2 \<Rightarrow>
                 (case get_op (ref_key ref) j2 of
                    None \<Rightarrow> (Inl OpKeyError, j2)
                  | Some r \<Rightarrow> (Inr (op_state r), j2))))"

text \<open>\<open>start_attempt\<close> reads the row before its transaction opens (\<open>sqlite3\<close> begins it at the first
  \<open>UPDATE\<close>), so what it decides on the row it read (\<open>start_decide\<close>: raise at once, or one of three
  writes) and the write itself (\<open>start_write\<close>, on the journal as it is then) are two steps for other
  processes. The refusals that are recorded are kept: an expired lease is written as in doubt and a spent
  budget as exhausted before the exception is raised; only the claim repeats its conditions in its
  \<open>WHERE\<close> clause.\<close>

datatype claim_write = LeaseExpired string | BudgetSpent | ClaimAttempt int

definition start_decide :: "op_ref \<Rightarrow> retry_budget \<Rightarrow> time \<Rightarrow> op_row \<Rightarrow> op_error + claim_write" where
  "start_decide ref budget now row =
     (if \<not> identity_ok ref row None then Inl IdentityConflict
      else if op_state row = Committed then Inl (OperationInDoubt ''already_committed'')
      else
        let lease_until = (case op_lease_until row of None \<Rightarrow> 0 | Some t \<Rightarrow> t) in
        case op_owner row of
          Some incumbent \<Rightarrow>
            if lease_until > now then Inl (OperationInDoubt ''attempt_in_progress'') else Inr (LeaseExpired incumbent)
        | None \<Rightarrow>
            if op_attempts row \<ge> rb_max_attempts budget then Inr BudgetSpent
            else Inr (ClaimAttempt (op_attempts row + 1)))"

definition start_write ::
  "op_ref \<Rightarrow> real \<Rightarrow> string \<Rightarrow> time \<Rightarrow> claim_write \<Rightarrow> journal \<Rightarrow> (op_error + int \<times> string) \<times> journal" where
  "start_write ref lease_s owner now w j =
     (case w of
        LeaseExpired incumbent \<Rightarrow>
          (Inl (OperationInDoubt ''expired_attempt_in_doubt''),
           upd_where (\<lambda>r. op_key r = ref_key ref \<and> op_owner r = Some incumbent)
             (\<lambda>r. r\<lparr>op_state := InDoubt,
                   op_last_error := Some ''attempt lease expired; reconcile before another effect'',
                   op_updated_at := now\<rparr>) j)
      | BudgetSpent \<Rightarrow>
          (Inl RetryBudgetExhausted,
           upd_where (by_key (ref_key ref)) (\<lambda>r. r\<lparr>op_state := Exhausted, op_updated_at := now\<rparr>) j)
      | ClaimAttempt attempt \<Rightarrow>
          let hit = (\<lambda>r. op_key r = ref_key ref \<and> op_state r \<noteq> Committed \<and> op_owner r = None)
          in if rowcount hit j \<noteq> 1 then (Inl (OperationInDoubt ''attempt_in_progress''), j)
             else (Inr (attempt, owner),
                   upd_where hit
                     (\<lambda>r. r\<lparr>op_attempts := attempt, op_state := Intent, op_last_error := None,
                           op_next_attempt_at := None, op_owner := Some owner,
                           op_lease_until := Some (now + max 1 lease_s), op_updated_at := now\<rparr>) j))"

definition start_attempt ::
  "op_ref \<Rightarrow> retry_budget \<Rightarrow> real \<Rightarrow> string \<Rightarrow> time \<Rightarrow> journal
     \<Rightarrow> (op_error + int \<times> string) \<times> journal" where
  "start_attempt ref budget lease_s owner now j =
     (case get_op (ref_key ref) j of
        None \<Rightarrow> (Inl OpKeyError, j)
      | Some row \<Rightarrow>
          (case start_decide ref budget now row of
             Inl e \<Rightarrow> (Inl e, j)
           | Inr w \<Rightarrow> start_write ref lease_s owner now w j))"

lemmas start_attempt_unfold = start_attempt_def start_decide_def start_write_def

definition mark_in_doubt ::
  "op_ref \<Rightarrow> string \<Rightarrow> string option \<Rightarrow> time \<Rightarrow> journal \<Rightarrow> (op_error + unit) \<times> journal" where
  "mark_in_doubt ref err owner now j =
     (case get_op (ref_key ref) j of
        None \<Rightarrow> (Inl OpKeyError, j)
      | Some row \<Rightarrow>
          if \<not> identity_ok ref row None then (Inl IdentityConflict, j)
          else case owner of
            None \<Rightarrow> (Inr (), upd_where (open_by_key (ref_key ref))
                       (\<lambda>r. r\<lparr>op_state := InDoubt, op_last_error := Some (take 2000 err),
                             op_updated_at := now\<rparr>) j)
          | Some ow \<Rightarrow> (Inr (), upd_where (\<lambda>r. open_by_key (ref_key ref) r \<and> op_owner r = Some ow)
                       (\<lambda>r. r\<lparr>op_state := InDoubt, op_last_error := Some (take 2000 err),
                             op_owner := None, op_lease_until := None, op_updated_at := now\<rparr>) j))"

definition mark_observation ::
  "op_ref \<Rightarrow> mutation_outcome \<Rightarrow> time \<Rightarrow> journal \<Rightarrow> (op_error + unit) \<times> journal" where
  "mark_observation ref out now j =
     (case get_op (ref_key ref) j of
        None \<Rightarrow> (Inl OpKeyError, j)
      | Some row \<Rightarrow>
          if \<not> identity_ok ref row None then (Inl IdentityConflict, j)
          else (Inr (), upd_where (open_by_key (ref_key ref))
                  (\<lambda>r. r\<lparr>op_state := (if mo_status out = ORefused then Refused else Reconciling),
                        op_observation := Some (mo_status out, jcanon (mo_evidence out), mo_detail out),
                        op_updated_at := now\<rparr>) j))"

definition schedule_retry ::
  "op_ref \<Rightarrow> int \<Rightarrow> retry_budget \<Rightarrow> time \<Rightarrow> journal \<Rightarrow> (op_error + time) \<times> journal" where
  "schedule_retry ref attempt budget now j =
     (let w = now + retry_delay budget attempt (ref_key ref) in
      case get_op (ref_key ref) j of
        None \<Rightarrow> (Inl OpKeyError, j)
      | Some row \<Rightarrow>
          if \<not> identity_ok ref row None then (Inl IdentityConflict, j)
          else (Inr w, upd_where (by_key (ref_key ref))
                  (\<lambda>r. r\<lparr>op_next_attempt_at := Some w, op_updated_at := now\<rparr>) j))"

definition row_result :: "op_row \<Rightarrow> json" where
  "row_result r = (case op_result r of None \<Rightarrow> JNull | Some v \<Rightarrow> v)"

definition commit ::
  "op_ref \<Rightarrow> json \<Rightarrow> string option \<Rightarrow> time \<Rightarrow> journal \<Rightarrow> (op_error + unit) \<times> journal" where
  "commit ref result owner now j =
     (let payload = jcanon result in
      case get_op (ref_key ref) j of
        None \<Rightarrow> (Inl OpKeyError, j)
      | Some row \<Rightarrow>
          if \<not> identity_ok ref row None then (Inl IdentityConflict, j)
          else if op_state row = Committed then
            (if row_result row \<noteq> payload then (Inl IdentityConflict, j) else (Inr (), j))
          else if owner \<noteq> None \<and> op_owner row \<noteq> owner then
            (Inl (OperationInDoubt ''attempt_owner_changed''), j)
          else
            let hit = (\<lambda>r. open_by_key (ref_key ref) r \<and> (owner \<noteq> None \<longrightarrow> op_owner r = owner)) in
            if rowcount hit j \<noteq> 1 then
              (case get_op (ref_key ref) j of
                 None \<Rightarrow> (Inl OpKeyError, j)
               | Some latest \<Rightarrow>
                   if op_state latest = Committed \<and> row_result latest = payload then (Inr (), j)
                   else (Inl (OperationInDoubt ''commit_lost_attempt_owner''), j))
            else (Inr (), upd_where hit
                    (\<lambda>r. r\<lparr>op_state := Committed, op_result := Some payload, op_last_error := None,
                          op_next_attempt_at := None, op_owner := None, op_lease_until := None,
                          op_updated_at := now\<rparr>) j))"

section \<open>Calls\<close>

record exec_call =
  xc_ref :: op_ref
  xc_safe :: "bool option"
  xc_budget :: "retry_budget option"
  xc_digest :: "string option"
  xc_observe_first :: bool
  xc_owner :: string

type_synonym 'x provider = "'x \<Rightarrow> (string + json) \<times> 'x"
type_synonym 'x reconciler = "'x \<Rightarrow> (string + mutation_outcome) \<times> 'x"
type_synonym 'x exec_result = "(op_error + json) \<times> journal \<times> 'x"

definition call_budget :: "exec_call \<Rightarrow> retry_budget" where
  "call_budget c = (case xc_budget c of None \<Rightarrow> budget_for (ref_kind (xc_ref c)) | Some b \<Rightarrow> b)"

definition effective_budget :: "exec_call \<Rightarrow> op_row \<Rightarrow> retry_budget" where
  "effective_budget c row =
     (case (xc_budget c, op_max_attempts row) of
        (None, Some m) \<Rightarrow> (call_budget c)\<lparr>rb_max_attempts := m\<rparr>
      | _ \<Rightarrow> call_budget c)"

definition effective_safe :: "exec_call \<Rightarrow> op_row \<Rightarrow> bool" where
  "effective_safe c row = (case xc_safe c of Some b \<Rightarrow> b | None \<Rightarrow> op_replay_safe row = Some True)"

text \<open>The provider ran: commit its result, or record the doubt and the next attempt and re-raise.\<close>

definition exec_effect ::
  "exec_call \<Rightarrow> retry_budget \<Rightarrow> 'x provider \<Rightarrow> (nat \<Rightarrow> time) \<Rightarrow> int \<Rightarrow> string \<Rightarrow> journal \<Rightarrow> 'x
     \<Rightarrow> 'x exec_result" where
  "exec_effect c budget fn ck attempt owner j x =
     (case fn x of
        (Inl err, x1) \<Rightarrow>
          (case mark_in_doubt (xc_ref c) err (Some owner) (ck 5) j of
             (Inl e, j1) \<Rightarrow> (Inl e, j1, x1)
           | (Inr _, j1) \<Rightarrow>
               (case schedule_retry (xc_ref c) attempt budget (ck 6) j1 of
                  (Inl e, j2) \<Rightarrow> (Inl e, j2, x1)
                | (Inr _, j2) \<Rightarrow> (Inl (Raised err), j2, x1)))
      | (Inr v, x1) \<Rightarrow>
          (case commit (xc_ref c) v (Some owner) (ck 5) j of
             (Inl e, j1) \<Rightarrow> (Inl e, j1, x1)
           | (Inr _, j1) \<Rightarrow> (Inr v, j1, x1)))"

definition exec_claim ::
  "exec_call \<Rightarrow> retry_budget \<Rightarrow> 'x provider \<Rightarrow> (nat \<Rightarrow> time) \<Rightarrow> journal \<Rightarrow> 'x \<Rightarrow> 'x exec_result" where
  "exec_claim c budget fn ck j x =
     (case start_attempt (xc_ref c) budget 300 (xc_owner c) (ck 4) j of
        (Inl e, j1) \<Rightarrow> (Inl e, j1, x)
      | (Inr (attempt, owner), j1) \<Rightarrow> exec_effect c budget fn ck attempt owner j1 x)"

definition exec_decide ::
  "exec_call \<Rightarrow> retry_budget \<Rightarrow> bool \<Rightarrow> 'x provider \<Rightarrow> 'x reconciler option \<Rightarrow> (nat \<Rightarrow> time) \<Rightarrow> bool \<Rightarrow> op_row
     \<Rightarrow> journal \<Rightarrow> 'x \<Rightarrow> 'x exec_result" where
  "exec_decide c budget safe fn rc ck existed row j x =
     (if existed \<or> xc_observe_first c then
        (case rc of
           None \<Rightarrow> (Inl (OperationInDoubt (state_str (op_state row))), j, x)
         | Some rf \<Rightarrow>
             (case rf x of
                (Inl err, x1) \<Rightarrow> (Inl (Raised err), j, x1)
              | (Inr out, x1) \<Rightarrow>
                  (case mark_observation (xc_ref c) out (ck 3) j of
                     (Inl e, j1) \<Rightarrow> (Inl e, j1, x1)
                   | (Inr _, j1) \<Rightarrow>
                       if mo_status out = OCommitted then
                         (case commit (xc_ref c) (mo_result out) None (ck 4) j1 of
                            (Inl e, j2) \<Rightarrow> (Inl e, j2, x1)
                          | (Inr _, j2) \<Rightarrow> (Inr (mo_result out), j2, x1))
                       else if mo_status out \<noteq> DefinitelyAbsent \<or> \<not> safe then
                         (Inl (OperationInDoubt (status_str (mo_status out))), j1, x1)
                       else exec_claim c budget fn ck j1 x1)))
      else exec_claim c budget fn ck j x)"

definition exec_loaded ::
  "exec_call \<Rightarrow> 'x provider \<Rightarrow> 'x reconciler option \<Rightarrow> (nat \<Rightarrow> time) \<Rightarrow> bool \<Rightarrow> op_row \<Rightarrow> journal \<Rightarrow> 'x
     \<Rightarrow> 'x exec_result" where
  "exec_loaded c fn rc ck existed row j x =
     (if op_state row = Committed then (Inr (row_result row), j, x)
      else case op_owner row of
        None \<Rightarrow> exec_decide c (effective_budget c row) (effective_safe c row) fn rc ck existed row j x
      | Some incumbent \<Rightarrow>
          if (case op_lease_until row of None \<Rightarrow> 0 | Some t \<Rightarrow> t) > ck 1 then
            (Inl (OperationInDoubt ''attempt_in_progress''), j, x)
          else
            (case mark_in_doubt (xc_ref c) ''attempt lease expired; external outcome is unknown''
                    (Some incumbent) (ck 2) j of
               (Inl e, j1) \<Rightarrow> (Inl e, j1, x)
             | (Inr _, j1) \<Rightarrow>
                 (case get_op (ref_key (xc_ref c)) j1 of
                    None \<Rightarrow> (Inl OpKeyError, j1, x)
                  | Some row1 \<Rightarrow>
                      exec_decide c (effective_budget c row) (effective_safe c row) fn rc ck True row1 j1 x)))"

text \<open>The intent: what \<open>execute\<close> passes to \<open>begin\<close> depends on whether it found the row.\<close>

definition exec_begin :: "exec_call \<Rightarrow> bool \<Rightarrow> (nat \<Rightarrow> time) \<Rightarrow> journal \<Rightarrow> (op_error + op_state) \<times> journal" where
  "exec_begin c existed ck j =
     begin_op (xc_ref c) (xc_digest c) (xc_safe c)
       (if existed then map_option rb_max_attempts (xc_budget c)
        else Some (rb_max_attempts (call_budget c))) (ck 0) j"

definition execute ::
  "exec_call \<Rightarrow> 'x provider \<Rightarrow> 'x reconciler option \<Rightarrow> (nat \<Rightarrow> time) \<Rightarrow> journal \<Rightarrow> 'x \<Rightarrow> 'x exec_result" where
  "execute c fn rc ck j x =
     (let existed = (get_op (ref_key (xc_ref c)) j \<noteq> None) in
      if (case get_op (ref_key (xc_ref c)) j of
            None \<Rightarrow> False | Some row \<Rightarrow> \<not> identity_ok (xc_ref c) row (xc_digest c)) then
        (Inl IdentityConflict, j, x)
      else case exec_begin c existed ck j of
        (Inl e, j1) \<Rightarrow> (Inl e, j1, x)
      | (Inr _, j1) \<Rightarrow>
          (case get_op (ref_key (xc_ref c)) j1 of
             None \<Rightarrow> (Inl OpKeyError, j1, x)
           | Some row \<Rightarrow> exec_loaded c fn rc ck existed row j1 x))"

definition observe_op ::
  "op_ref \<Rightarrow> 'x reconciler \<Rightarrow> time \<Rightarrow> journal \<Rightarrow> 'x \<Rightarrow> (op_error + mutation_outcome) \<times> journal \<times> 'x" where
  "observe_op ref observer now j x =
     (case get_op (ref_key ref) j of
        None \<Rightarrow> (Inl OpKeyError, j, x)
      | Some row \<Rightarrow>
          if \<not> identity_ok ref row None then (Inl IdentityConflict, j, x)
          else if op_state row = Committed then
            (Inr \<lparr>mo_status = OCommitted, mo_result = row_result row,
                  mo_evidence = (case op_observation row of
                     None \<Rightarrow> JNull
                   | Some (st, ev, d) \<Rightarrow> JObj [(''detail'', jopt d), (''evidence'', ev), (''status'', JStr (status_str st))]),
                  mo_detail = Some ''journal is committed''\<rparr>, j, x)
          else
            (case observer x of
               (Inl err, x1) \<Rightarrow> (Inl (Raised err), j, x1)
             | (Inr out, x1) \<Rightarrow>
                 (case mark_observation ref out now j of
                    (Inl e, j1) \<Rightarrow> (Inl e, j1, x1)
                  | (Inr _, j1) \<Rightarrow>
                      if mo_status out = OCommitted then
                        (case commit ref (mo_result out) None now j1 of
                           (Inl e, j2) \<Rightarrow> (Inl e, j2, x1)
                         | (Inr _, j2) \<Rightarrow> (Inr out, j2, x1))
                      else (Inr out, j1, x1))))"

section \<open>Reads\<close>

definition unresolved :: "int \<Rightarrow> bool \<Rightarrow> time \<Rightarrow> journal \<Rightarrow> journal" where
  "unresolved limit due_only now j =
     take (nat (max 1 (min limit 1000)))
       (sort_key op_updated_at
         (filter (\<lambda>r. op_state r \<noteq> Committed
                     \<and> (due_only \<longrightarrow> (case op_next_attempt_at r of None \<Rightarrow> True | Some t \<Rightarrow> t \<le> now))) j))"

definition publications_for_pr :: "string \<Rightarrow> int \<Rightarrow> journal \<Rightarrow> journal" where
  "publications_for_pr repository number j =
     filter (\<lambda>r. op_kind r = ''github_publish'' \<and> op_state r = Committed
        \<and> jget ''repository'' (row_result r) = Some (JStr repository)
        \<and> jget ''pr_number'' (row_result r) = Some (JInt number)) j"

section \<open>Invariant of the journal\<close>

definition row_ok :: "op_row \<Rightarrow> bool" where
  "row_ok r = (0 \<le> op_attempts r
     \<and> (op_owner r = None \<longleftrightarrow> op_lease_until r = None)
     \<and> (op_state r = Committed \<longrightarrow> op_owner r = None \<and> (\<exists>v. op_result r = Some (jcanon v))))"

definition journal_inv :: "journal \<Rightarrow> bool" where
  "journal_inv j = (primary_key op_key j \<and> list_all row_ok j)"

text \<open>What any later journal keeps of a row: its identity, its policy once bound, the number of
  attempts as a lower bound, and the receipt once committed.\<close>

definition row_evolves :: "op_row \<Rightarrow> op_row \<Rightarrow> bool" where
  "row_evolves r r' = (op_key r' = op_key r \<and> op_cell r' = op_cell r \<and> op_epoch r' = op_epoch r
     \<and> op_kind r' = op_kind r \<and> op_attempts r \<le> op_attempts r'
     \<and> (op_intent_digest r \<noteq> None \<longrightarrow> op_intent_digest r' = op_intent_digest r)
     \<and> (op_replay_safe r \<noteq> None \<longrightarrow> op_replay_safe r' = op_replay_safe r)
     \<and> (op_max_attempts r \<noteq> None \<longrightarrow> op_max_attempts r' = op_max_attempts r)
     \<and> (op_state r = Committed \<longrightarrow> op_state r' = Committed \<and> op_result r' = op_result r))"

definition journal_evolves :: "journal \<Rightarrow> journal \<Rightarrow> bool" where
  "journal_evolves j j' = (\<forall>k r. get_op k j = Some r \<longrightarrow> (\<exists>r'. get_op k j' = Some r' \<and> row_evolves r r'))"

definition journal_ok :: "journal \<Rightarrow> journal \<Rightarrow> bool" where
  "journal_ok j j' = (journal_inv j' \<and> journal_evolves j j')"

lemma row_evolves_refl [simp]: "row_evolves r r"
  by (simp add: row_evolves_def)

lemma row_evolves_trans: "row_evolves a b \<Longrightarrow> row_evolves b c \<Longrightarrow> row_evolves a c"
  unfolding row_evolves_def by auto

lemma journal_evolves_refl [simp]: "journal_evolves j j"
  by (simp add: journal_evolves_def)

lemma journal_evolves_trans:
  "journal_evolves a b \<Longrightarrow> journal_evolves b c \<Longrightarrow> journal_evolves a c"
  unfolding journal_evolves_def by (meson row_evolves_trans)

lemma journal_ok_refl: "journal_inv j \<Longrightarrow> journal_ok j j"
  by (simp add: journal_ok_def)

lemma journal_ok_trans: "journal_ok a b \<Longrightarrow> journal_ok b c \<Longrightarrow> journal_ok a c"
  unfolding journal_ok_def by (meson journal_evolves_trans)

lemma journal_inv_Nil [simp]: "journal_inv []"
  by (simp add: journal_inv_def primary_key_def)

lemma get_op_in: "get_op k j = Some r \<Longrightarrow> r \<in> set j \<and> op_key r = k"
  unfolding get_op_def by (rule select_one_SomeD)

lemma get_op_unique:
  "journal_inv j \<Longrightarrow> get_op k j = Some r \<Longrightarrow> r' \<in> set j \<Longrightarrow> op_key r' = k \<Longrightarrow> r' = r"
  unfolding get_op_def journal_inv_def by (metis option.inject select_one_in)

lemma get_op_row_ok: "journal_inv j \<Longrightarrow> get_op k j = Some r \<Longrightarrow> row_ok r"
  using get_op_in by (fastforce simp: journal_inv_def list_all_iff)

lemma get_op_upd_where:
  assumes "\<And>r. r \<in> set j \<Longrightarrow> p r \<Longrightarrow> op_key (f r) = op_key r"
  shows "get_op k (upd_where p f j) = map_option (\<lambda>r. if p r then f r else r) (get_op k j)"
  unfolding get_op_def using assms by (rule select_one_upd_where)

lemma journal_ok_update:
  assumes "journal_inv j"
    and "\<And>r. r \<in> set j \<Longrightarrow> p r \<Longrightarrow> row_ok r \<Longrightarrow> row_evolves r (f r) \<and> row_ok (f r)"
  shows "journal_ok j (upd_where p f j)"
proof -
  have ok: "\<And>r. r \<in> set j \<Longrightarrow> row_ok r" using assms(1) by (simp add: journal_inv_def list_all_iff)
  have key: "\<And>r. r \<in> set j \<Longrightarrow> p r \<Longrightarrow> op_key (f r) = op_key r"
    using assms(2) ok by (simp add: row_evolves_def)
  have "primary_key op_key (upd_where p f j)"
    using key assms(1) by (intro primary_key_upd_where) (auto simp: journal_inv_def)
  moreover have "list_all row_ok (upd_where p f j)"
    using assms(2) ok by (auto simp: list_all_iff dest!: upd_where_in)
  moreover have "journal_evolves j (upd_where p f j)"
    unfolding journal_evolves_def
  proof (intro allI impI)
    fix k r assume g: "get_op k j = Some r"
    then have "r \<in> set j" using get_op_in by blast
    then have "row_evolves r (if p r then f r else r)" using assms(2) ok by simp
    moreover have "get_op k (upd_where p f j) = Some (if p r then f r else r)"
      using get_op_upd_where[of j p f k] key g by simp
    ultimately show "\<exists>r'. get_op k (upd_where p f j) = Some r' \<and> row_evolves r r'" by blast
  qed
  ultimately show ?thesis by (simp add: journal_ok_def journal_inv_def)
qed

lemma journal_ok_insert_or_ignore:
  assumes "journal_inv j" and "row_ok r"
  shows "journal_ok j (insert_or_ignore r j)"
  using assms unfolding insert_or_ignore_def journal_ok_def journal_inv_def journal_evolves_def get_op_def
  by (auto intro: primary_key_snoc simp: select_one_append)

section \<open>Every transaction keeps the invariant\<close>

lemma new_op_ok: "row_ok (new_op ref digest safe mx now)"
  by (simp add: row_ok_def new_op_def)

lemma fill_keeps: "d \<noteq> None \<Longrightarrow> fill d g = d"
  by (auto simp: fill_def)

lemma begin_op_ok:
  assumes "journal_inv j" and "begin_op ref digest safe mx now j = (res, j')"
  shows "journal_ok j j'"
proof -
  let ?j1 = "insert_or_ignore (new_op ref digest safe mx now) j"
  have ok1: "journal_ok j ?j1" using assms(1) new_op_ok by (rule journal_ok_insert_or_ignore)
  then have inv1: "journal_inv ?j1" by (simp add: journal_ok_def)
  let ?f = "\<lambda>row r. r\<lparr>op_intent_digest := fill (op_intent_digest row) digest,
              op_replay_safe := fill (op_replay_safe row) safe,
              op_max_attempts := fill (op_max_attempts row) mx, op_updated_at := now\<rparr>"
  have upd: "journal_ok ?j1 (upd_where (by_key (ref_key ref)) (?f row) ?j1)"
    if "get_op (ref_key ref) ?j1 = Some row" for row
    by (rule journal_ok_update[OF inv1])
       (use get_op_unique[OF inv1 that] in \<open>auto simp: row_evolves_def row_ok_def fill_keeps\<close>)
  show ?thesis
    using assms ok1 journal_ok_trans[OF ok1 upd]
    by (auto simp: begin_op_def begin_bind_def Let_def journal_ok_refl split: if_splits option.splits)
qed

lemma start_attempt_ok:
  assumes "journal_inv j" and "start_attempt ref budget lease_s owner now j = (res, j')"
  shows "journal_ok j j'"
proof (cases "get_op (ref_key ref) j")
  case None
  with assms show ?thesis by (auto simp: start_attempt_def journal_ok_refl)
next
  case (Some row)
  note uniq = get_op_unique[OF assms(1) Some]
  have exh: "journal_ok j (upd_where (by_key (ref_key ref))
      (\<lambda>r. r\<lparr>op_state := Exhausted, op_updated_at := now\<rparr>) j)" if "op_state row \<noteq> Committed"
    by (rule journal_ok_update[OF assms(1)])
       (use uniq that in \<open>auto simp: row_evolves_def row_ok_def\<close>)
  have expd: "journal_ok j (upd_where (\<lambda>r. op_key r = ref_key ref \<and> op_owner r = Some inc)
      (\<lambda>r. r\<lparr>op_state := InDoubt, op_last_error := e, op_updated_at := now\<rparr>) j)"
    if "op_state row \<noteq> Committed" for inc e
    by (rule journal_ok_update[OF assms(1)])
       (use uniq that in \<open>auto simp: row_evolves_def row_ok_def\<close>)
  have claim: "journal_ok j (upd_where (\<lambda>r. op_key r = ref_key ref \<and> op_state r \<noteq> Committed \<and> op_owner r = None)
      (\<lambda>r. r\<lparr>op_attempts := op_attempts row + 1, op_state := Intent, op_last_error := None,
            op_next_attempt_at := None, op_owner := Some owner,
            op_lease_until := Some t, op_updated_at := now\<rparr>) j)" for t
    by (rule journal_ok_update[OF assms(1)])
       (use uniq in \<open>auto simp: row_evolves_def row_ok_def\<close>)
  show ?thesis
    using assms Some exh expd claim
    by (auto simp: start_attempt_unfold Let_def journal_ok_refl split: if_splits option.splits)
qed

lemma mark_in_doubt_ok:
  assumes "journal_inv j" and "mark_in_doubt ref err owner now j = (res, j')"
  shows "journal_ok j j'"
proof -
  have upd: "journal_ok j (upd_where (open_by_key k) (\<lambda>r. r\<lparr>op_state := InDoubt, op_last_error := e, op_updated_at := now\<rparr>) j)"
    "journal_ok j (upd_where (\<lambda>r. open_by_key k r \<and> op_owner r = Some ow)
       (\<lambda>r. r\<lparr>op_state := InDoubt, op_last_error := e, op_owner := None, op_lease_until := None, op_updated_at := now\<rparr>) j)"
    for k e ow
    by (rule journal_ok_update[OF assms(1)], auto simp: row_evolves_def row_ok_def)+
  show ?thesis
    using assms upd by (auto simp: mark_in_doubt_def journal_ok_refl split: if_splits option.splits)
qed

lemma mark_observation_ok:
  assumes "journal_inv j" and "mark_observation ref out now j = (res, j')"
  shows "journal_ok j j'"
proof -
  have upd: "journal_ok j (upd_where (open_by_key k)
      (\<lambda>r. r\<lparr>op_state := if mo_status out = ORefused then Refused else Reconciling,
            op_observation := ob, op_updated_at := now\<rparr>) j)" for k ob
    by (rule journal_ok_update[OF assms(1)]) (auto simp: row_evolves_def row_ok_def)
  show ?thesis
    using assms upd by (auto simp: mark_observation_def journal_ok_refl split: if_splits option.splits)
qed

lemma schedule_retry_ok:
  assumes "journal_inv j" and "schedule_retry ref attempt budget now j = (res, j')"
  shows "journal_ok j j'"
proof -
  have upd: "journal_ok j (upd_where (by_key k) (\<lambda>r. r\<lparr>op_next_attempt_at := w, op_updated_at := now\<rparr>) j)" for k w
    by (rule journal_ok_update[OF assms(1)]) (auto simp: row_evolves_def row_ok_def)
  show ?thesis
    using assms upd by (auto simp: schedule_retry_def Let_def journal_ok_refl split: if_splits option.splits)
qed

lemma commit_ok:
  assumes "journal_inv j" and "commit ref v owner now j = (res, j')"
  shows "journal_ok j j'"
proof -
  have upd: "journal_ok j (upd_where (\<lambda>r. open_by_key k r \<and> (owner \<noteq> None \<longrightarrow> op_owner r = owner))
      (\<lambda>r. r\<lparr>op_state := Committed, op_result := Some (jcanon v), op_last_error := None,
            op_next_attempt_at := None, op_owner := None, op_lease_until := None,
            op_updated_at := now\<rparr>) j)" for k
    by (rule journal_ok_update[OF assms(1)]) (auto simp: row_evolves_def row_ok_def)
  show ?thesis
    using assms upd by (auto simp: commit_def Let_def journal_ok_refl split: if_splits option.splits)
qed

lemmas transactions_ok = begin_op_ok start_attempt_ok mark_in_doubt_ok mark_observation_ok
  schedule_retry_ok commit_ok

text \<open>The journal under several processes. A process in the window of \<open>start_attempt\<close> is a pending claim:
  what it decided on the row it read. Every other transaction repeats its conditions in the \<open>WHERE\<close> clause
  of its one \<open>UPDATE\<close> (or begins with a write), so its effect is that of the whole at the time of the write.\<close>

type_synonym pending_claim = "op_ref \<times> real \<times> string \<times> time \<times> claim_write"

abbreviation claim_ref :: "pending_claim \<Rightarrow> op_ref" where
  "claim_ref p \<equiv> fst p"

abbreviation claim_decision :: "pending_claim \<Rightarrow> claim_write" where
  "claim_decision p \<equiv> snd (snd (snd (snd p)))"

inductive journal_step :: "journal \<times> pending_claim list \<Rightarrow> journal \<times> pending_claim list \<Rightarrow> bool" where
  js_begin: "begin_op ref digest safe mx now j = (res, j') \<Longrightarrow> journal_step (j, ps) (j', ps)"
| js_read: "get_op (ref_key ref) j = Some row \<Longrightarrow> start_decide ref budget now row = Inr w
    \<Longrightarrow> journal_step (j, ps) (j, (ref, lease_s, owner, now, w) # ps)"
| js_write: "(ref, lease_s, owner, now, w) \<in> set ps \<Longrightarrow> start_write ref lease_s owner now w j = (res', j')
    \<Longrightarrow> journal_step (j, ps) (j', remove1 (ref, lease_s, owner, now, w) ps)"
| js_dies: "journal_step (j, ps) (j, remove1 p ps)"
| js_doubt: "mark_in_doubt ref err ow now j = (res'', j') \<Longrightarrow> journal_step (j, ps) (j', ps)"
| js_observe: "mark_observation ref out now j = (res'', j') \<Longrightarrow> journal_step (j, ps) (j', ps)"
| js_retry: "schedule_retry ref attempt budget now j = (res3, j') \<Longrightarrow> journal_step (j, ps) (j', ps)"
| js_commit: "commit ref v ow now j = (res'', j') \<Longrightarrow> journal_step (j, ps) (j', ps)"

text \<open>What survives every interleaving: a row keeps its identity and the policy bound to it.\<close>

definition row_kept :: "op_row \<Rightarrow> op_row \<Rightarrow> bool" where
  "row_kept r r' = (op_key r' = op_key r \<and> op_cell r' = op_cell r \<and> op_epoch r' = op_epoch r \<and> op_kind r' = op_kind r
     \<and> (op_intent_digest r \<noteq> None \<longrightarrow> op_intent_digest r' = op_intent_digest r)
     \<and> (op_replay_safe r \<noteq> None \<longrightarrow> op_replay_safe r' = op_replay_safe r)
     \<and> (op_max_attempts r \<noteq> None \<longrightarrow> op_max_attempts r' = op_max_attempts r))"

definition claim_ok :: "pending_claim \<Rightarrow> bool" where
  "claim_ok p = (case claim_decision p of ClaimAttempt n \<Rightarrow> 1 \<le> n | _ \<Rightarrow> True)"

fun journals_inv :: "journal \<times> pending_claim list \<Rightarrow> bool" where
  "journals_inv (j, ps) = (journal_inv j \<and> list_all claim_ok ps)"

lemma row_kept_refl [simp]: "row_kept r r"
  by (simp add: row_kept_def)

lemma row_kept_trans: "row_kept a b \<Longrightarrow> row_kept b c \<Longrightarrow> row_kept a c"
  by (auto simp: row_kept_def)

lemma row_evolves_kept: "row_evolves r r' \<Longrightarrow> row_kept r r'"
  by (simp add: row_evolves_def row_kept_def)

text \<open>A settled row: nothing changes it any more but a spent budget's write.\<close>

definition receipt_safe :: "string \<Rightarrow> pending_claim list \<Rightarrow> bool" where
  "receipt_safe k ps = list_all (\<lambda>p. ref_key (claim_ref p) = k \<longrightarrow> claim_decision p \<noteq> BudgetSpent) ps"

definition row_after :: "string \<Rightarrow> pending_claim list \<Rightarrow> op_row \<Rightarrow> op_row \<Rightarrow> bool" where
  "row_after k ps r r' = (row_kept r r'
     \<and> (op_state r = Committed \<and> receipt_safe k ps
          \<longrightarrow> op_state r' = Committed \<and> op_result r' = op_result r))"

lemma row_evolves_after: "row_evolves r r' \<Longrightarrow> row_after k ps r r'"
  by (simp add: row_after_def row_evolves_kept) (simp add: row_evolves_def)

lemma start_write_rows:
  assumes "journal_inv j" and "claim_ok (ref, lease_s, owner, now, w)"
    and "start_write ref lease_s owner now w j = (res, j')"
  shows "journal_inv j'" and "get_op k j = Some r \<Longrightarrow> (ref, lease_s, owner, now, w) \<in> set ps \<Longrightarrow>
    \<exists>r'. get_op k j' = Some r' \<and> row_after k ps r r'"
proof -
  obtain p f where j': "j' = upd_where p f j" and f: "\<And>r. row_ok r \<Longrightarrow> p r \<Longrightarrow> row_ok (f r) \<and> row_kept r (f r)"
    and c: "\<And>r. row_ok r \<Longrightarrow> p r \<Longrightarrow> op_state r = Committed \<Longrightarrow> w = BudgetSpent \<and> op_key r = ref_key ref"
  proof (cases w)
    case (LeaseExpired inc)
    with assms(3) show thesis
      by (intro that[of "\<lambda>r. op_key r = ref_key ref \<and> op_owner r = Some inc"
            "\<lambda>r. r\<lparr>op_state := InDoubt, op_last_error := Some ''attempt lease expired; reconcile before another effect'',
                   op_updated_at := now\<rparr>"]) (auto simp: start_write_def row_ok_def row_kept_def)
  next
    case BudgetSpent
    with assms(3) show thesis
      by (intro that[of "by_key (ref_key ref)" "\<lambda>r. r\<lparr>op_state := Exhausted, op_updated_at := now\<rparr>"])
         (auto simp: start_write_def row_ok_def row_kept_def)
  next
    case (ClaimAttempt n)
    let ?hit = "\<lambda>r. op_key r = ref_key ref \<and> op_state r \<noteq> Committed \<and> op_owner r = None"
    let ?f = "\<lambda>r. r\<lparr>op_attempts := n, op_state := Intent, op_last_error := None, op_next_attempt_at := None,
      op_owner := Some owner, op_lease_until := Some (now + max 1 lease_s), op_updated_at := now\<rparr>"
    have "j' = (if rowcount ?hit j = 1 then upd_where ?hit ?f j else upd_where (\<lambda>_. False) id j)"
      using assms(3) ClaimAttempt by (auto simp: start_write_def Let_def upd_where_none split: if_splits)
    then have "j' = upd_where (\<lambda>r. rowcount ?hit j = 1 \<and> ?hit r) ?f j" by (simp add: upd_where_def)
    then show thesis by (rule that) (use assms(2) ClaimAttempt in \<open>auto simp: row_ok_def row_kept_def claim_ok_def\<close>)
  qed
  have ok: "\<And>r. r \<in> set j \<Longrightarrow> row_ok r" using assms(1) by (simp add: journal_inv_def list_all_iff)
  have key: "\<And>r. r \<in> set j \<Longrightarrow> p r \<Longrightarrow> op_key (f r) = op_key r" using f ok by (simp add: row_kept_def)
  show "journal_inv j'"
    unfolding journal_inv_def j'
    using assms(1) key primary_key_upd_where[of j p op_key f] f ok
    by (auto simp: journal_inv_def list_all_iff dest!: upd_where_in)
  show "\<exists>r'. get_op k j' = Some r' \<and> row_after k ps r r'" if g: "get_op k j = Some r" and "(ref, lease_s, owner, now, w) \<in> set ps"
  proof -
    have "get_op k j' = Some (if p r then f r else r)" using get_op_upd_where[of j p f k] key g j' by simp
    moreover have "row_ok r" using get_op_in[OF g] ok by simp
    ultimately show ?thesis using f[of r] c[of r] get_op_in[OF g] that(2)
      by (auto simp: row_after_def receipt_safe_def list_all_iff)
  qed
qed

lemma start_decide_ok: "start_decide ref budget now row = Inr w \<Longrightarrow> row_ok row \<Longrightarrow> claim_ok (ref, lease_s, owner, now, w)"
  by (auto simp: start_decide_def claim_ok_def row_ok_def Let_def split: if_splits option.splits)

lemma start_decide_open: "start_decide ref budget now row = Inr w \<Longrightarrow> op_state row \<noteq> Committed"
  by (auto simp: start_decide_def split: if_splits)

lemma remove1_all: "list_all P ps \<Longrightarrow> list_all P (remove1 p ps)"
  by (auto simp: list_all_iff dest: notin_set_remove1)

lemma journals_step:
  assumes "journals_inv (j, ps)" and "journal_step (j, ps) (j', ps')"
  shows "journals_inv (j', ps')"
    and "get_op k j = Some r \<Longrightarrow> \<exists>r'. get_op k j' = Some r' \<and> row_after k ps r r'
           \<and> (op_state r = Committed \<and> receipt_safe k ps \<longrightarrow> receipt_safe k ps')"
proof -
  let ?goal = "\<lambda>j' ps'. journals_inv (j', ps') \<and> (\<forall>r. get_op k j = Some r \<longrightarrow> (\<exists>r'. get_op k j' = Some r' \<and> row_after k ps r r')
      \<and> (op_state r = Committed \<and> receipt_safe k ps \<longrightarrow> receipt_safe k ps'))"
  have inv: "journal_inv j" "list_all claim_ok ps" using assms(1) by simp_all
  have tx: "?goal j' ps" if ok: "journal_ok j j'" for j'
  proof -
    have "\<exists>r'. get_op k j' = Some r' \<and> row_after k ps r r'" if "get_op k j = Some r" for r
      using ok that row_evolves_after unfolding journal_ok_def journal_evolves_def by blast
    with ok inv show ?thesis by (simp add: journal_ok_def)
  qed
  have "?goal j' ps'"
    using assms(2)
  proof (cases rule: journal_step.cases)
    case (js_read ref row budget now w lease_s owner)
    have "claim_ok (ref, lease_s, owner, now, w)" using start_decide_ok[OF js_read(4) get_op_row_ok[OF inv(1) js_read(3)]] .
    moreover have "op_state r \<noteq> Committed" if "get_op k j = Some r" "k = ref_key ref" for r
      using that js_read(3) start_decide_open[OF js_read(4)] by simp
    ultimately show ?thesis using js_read(1,2) inv by (auto simp: receipt_safe_def row_after_def)
  next
    case (js_write ref lease_s owner now w res)
    have "claim_ok (ref, lease_s, owner, now, w)" using inv(2) js_write(2) by (auto simp: list_all_iff)
    note w = start_write_rows[OF inv(1) this js_write(3)]
    have "receipt_safe k ps \<Longrightarrow> receipt_safe k ps'" unfolding js_write(1) receipt_safe_def by (rule remove1_all)
    moreover have "list_all claim_ok ps'" unfolding js_write(1) by (rule remove1_all[OF inv(2)])
    ultimately show ?thesis using w(1) w(2)[OF _ js_write(2)] by simp
  next
    case (js_dies p)
    have "receipt_safe k ps \<Longrightarrow> receipt_safe k ps'" unfolding js_dies(2) receipt_safe_def by (rule remove1_all)
    moreover have "list_all claim_ok ps'" unfolding js_dies(2) by (rule remove1_all[OF inv(2)])
    ultimately show ?thesis using js_dies(1) inv(1) by (simp add: row_after_def)
  qed (use tx transactions_ok[OF inv(1)] in \<open>simp; fail | metis\<close>)+
  then show "journals_inv (j', ps')"
    and "get_op k j = Some r \<Longrightarrow> \<exists>r'. get_op k j' = Some r' \<and> row_after k ps r r'
           \<and> (op_state r = Committed \<and> receipt_safe k ps \<longrightarrow> receipt_safe k ps')" by blast+
qed

abbreviation reachable_journals :: "journal \<times> pending_claim list \<Rightarrow> bool" where
  "reachable_journals \<equiv> reach (\<lambda>s. s = ([], [])) journal_step"

interpretation journal: inductive_invariant "\<lambda>s. s = ([], [])" journal_step journals_inv
proof
  show "journals_inv s" if "s = ([], [])" for s using that by simp
  show "journals_inv t" if "journals_inv s" and "journal_step s t" for s t
    using that journals_step(1)[of "fst s" "snd s" "fst t" "snd t"] by simp
qed

definition reachable_journal :: "journal \<Rightarrow> bool" where
  "reachable_journal j = (\<exists>ps. reachable_journals (j, ps))"

lemma reachable_journal_Nil [simp]: "reachable_journal []"
  unfolding reachable_journal_def by (intro exI[of _ "[]"] reach_init) simp

lemma reachable_journal_inv: "reachable_journal j \<Longrightarrow> journal_inv j"
  unfolding reachable_journal_def using journal.reach_inv by fastforce

lemma journal_steps_rows:
  assumes "journal_step\<^sup>*\<^sup>* s t" and "journals_inv s" and "get_op k (fst s) = Some r"
  shows "\<exists>r'. get_op k (fst t) = Some r' \<and> row_after k (snd s) r r'
     \<and> (op_state r = Committed \<and> receipt_safe k (snd s) \<longrightarrow> receipt_safe k (snd t))"
  using assms(1)
proof (induction rule: rtranclp_induct)
  case base
  then show ?case using assms(3) by (simp add: row_after_def)
next
  case (step y z)
  obtain j ps j' ps' where yz: "y = (j, ps)" "z = (j', ps')" by (cases y, cases z) auto
  from step.IH yz obtain r1 where r1: "get_op k j = Some r1" "row_after k (snd s) r r1"
    "op_state r = Committed \<and> receipt_safe k (snd s) \<longrightarrow> receipt_safe k ps" by auto
  have "journals_inv (j, ps)" using journal.steps_inv[OF step.hyps(1) assms(2)] yz by simp
  from journals_step(2)[OF this step.hyps(2)[unfolded yz] r1(1)] obtain r2 where "get_op k j' = Some r2"
    "row_after k ps r1 r2" "op_state r1 = Committed \<and> receipt_safe k ps \<longrightarrow> receipt_safe k ps'" by blast
  moreover have "row_after k (snd s) r r2" using r1 \<open>row_after k ps r1 r2\<close> row_kept_trans unfolding row_after_def by metis
  ultimately show ?case using r1 unfolding yz row_after_def by auto
qed

section \<open>What begin and commit establish\<close>

lemma get_op_insert_or_ignore:
  "get_op (op_key r) (insert_or_ignore r j) = Some (case get_op (op_key r) j of None \<Rightarrow> r | Some r0 \<Rightarrow> r0)"
  by (auto simp: insert_or_ignore_def get_op_def select_one_append)

lemma ref_key_new_op [simp]: "op_key (new_op ref d s m now) = ref_key ref"
  by (simp add: new_op_def)

definition policy_bound :: "op_ref \<Rightarrow> string option \<Rightarrow> bool option \<Rightarrow> int option \<Rightarrow> op_row \<Rightarrow> bool" where
  "policy_bound ref digest safe mx r = (identity_ok ref r digest
     \<and> (digest \<noteq> None \<longrightarrow> op_intent_digest r = digest)
     \<and> (safe \<noteq> None \<longrightarrow> op_replay_safe r = safe)
     \<and> (mx \<noteq> None \<longrightarrow> op_max_attempts r = mx)
     \<and> (case mx of None \<Rightarrow> True | Some m \<Rightarrow> 1 \<le> m))"

definition bind_policy :: "string option \<Rightarrow> bool option \<Rightarrow> int option \<Rightarrow> time \<Rightarrow> op_row \<Rightarrow> op_row" where
  "bind_policy digest safe mx now r =
     (if (digest \<noteq> None \<and> op_intent_digest r = None) \<or> (safe \<noteq> None \<and> op_replay_safe r = None)
         \<or> (mx \<noteq> None \<and> op_max_attempts r = None)
      then r\<lparr>op_intent_digest := fill (op_intent_digest r) digest, op_replay_safe := fill (op_replay_safe r) safe,
             op_max_attempts := fill (op_max_attempts r) mx, op_updated_at := now\<rparr>
      else r)"

lemma get_op_self: "get_op k j = Some r \<Longrightarrow> op_key r = k"
  using get_op_in by blast

lemma begin_bind_Some:
  assumes "begin_bind ref digest safe mx now row j = Some j2" and "get_op (ref_key ref) j = Some row"
  shows "get_op (ref_key ref) j2 = Some (bind_policy digest safe mx now row)"
    and "case mx of None \<Rightarrow> True | Some m \<Rightarrow> 1 \<le> m \<Longrightarrow> policy_bound ref digest safe mx (bind_policy digest safe mx now row)"
proof -
  have ok: "identity_ok ref row digest" "\<not> divergent safe (op_replay_safe row)"
    "\<not> divergent mx (op_max_attempts row)"
    using assms(1) by (auto simp: begin_bind_def split: if_splits)
  show "get_op (ref_key ref) j2 = Some (bind_policy digest safe mx now row)"
    using assms get_op_self[OF assms(2)]
    by (auto simp: begin_bind_def ok bind_policy_def get_op_upd_where split: if_splits)
  show "case mx of None \<Rightarrow> True | Some m \<Rightarrow> 1 \<le> m \<Longrightarrow> policy_bound ref digest safe mx (bind_policy digest safe mx now row)"
    using ok by (cases digest; cases safe; cases mx)
      (auto simp: policy_bound_def bind_policy_def identity_ok_def divergent_def fill_def)
qed

lemma begin_op_Inr:
  assumes "begin_op ref digest safe mx now j = (Inr st, j')"
  shows "\<exists>row. row = (case get_op (ref_key ref) j of None \<Rightarrow> new_op ref digest safe mx now | Some r \<Rightarrow> r)
           \<and> get_op (ref_key ref) j' = Some (bind_policy digest safe mx now row)
           \<and> policy_bound ref digest safe mx (bind_policy digest safe mx now row)"
proof -
  let ?row = "case get_op (ref_key ref) j of None \<Rightarrow> new_op ref digest safe mx now | Some r \<Rightarrow> r"
  let ?j1 = "insert_or_ignore (new_op ref digest safe mx now) j"
  have g: "get_op (ref_key ref) ?j1 = Some ?row"
    using get_op_insert_or_ignore[of "new_op ref digest safe mx now" j] by simp
  have mx: "case mx of None \<Rightarrow> True | Some m \<Rightarrow> 1 \<le> m"
    using assms by (auto simp: begin_op_def split: if_splits option.splits)
  have b: "begin_bind ref digest safe mx now ?row ?j1 = Some j'"
    using assms unfolding begin_op_def Let_def g option.case
    by (simp split: if_splits option.splits)
  show ?thesis using begin_bind_Some[OF b g] mx by blast
qed

lemma begin_op_bound:
  assumes "get_op (ref_key ref) j = Some r" and "policy_bound ref digest safe mx r"
  shows "begin_op ref digest safe mx now j = (Inr (op_state r), j)"
proof -
  have i: "insert_or_ignore (new_op ref digest safe mx now) j = j"
    using assms(1) by (simp add: insert_or_ignore_def)
  have v: "valid_ref ref" "valid_digest digest" "\<not> (case mx of None \<Rightarrow> False | Some m \<Rightarrow> m < 1)"
    using assms(2) by (auto simp: policy_bound_def identity_ok_def split: option.splits)
  have b: "begin_bind ref digest safe mx now r j = Some j"
    using assms(2) by (cases digest; cases safe; cases mx)
      (simp_all add: begin_bind_def policy_bound_def divergent_def)
  show ?thesis by (simp only: begin_op_def v i b assms(1) Let_def option.case simp_thms if_False)
qed

lemma policy_bound_evolves:
  "policy_bound ref digest safe mx r \<Longrightarrow> row_evolves r r' \<Longrightarrow> policy_bound ref digest safe mx r'"
  unfolding policy_bound_def row_evolves_def identity_ok_def by auto

definition receipt :: "string \<Rightarrow> json \<Rightarrow> journal \<Rightarrow> bool" where
  "receipt k v j = (case get_op k j of None \<Rightarrow> False | Some r \<Rightarrow> op_state r = Committed \<and> row_result r = jcanon v)"

lemma commit_Inr:
  assumes "commit ref v owner now j = (Inr (), j')"
  shows "receipt (ref_key ref) v j'"
proof (cases "get_op (ref_key ref) j")
  case None
  with assms show ?thesis by (simp add: commit_def)
next
  case (Some r)
  show ?thesis
  proof (cases "op_state r = Committed")
    case True
    with Some assms show ?thesis
      by (auto simp: commit_def receipt_def Let_def split: if_splits)
  next
    case False
    with Some assms show ?thesis
      unfolding commit_def receipt_def Let_def
      by (auto simp: get_op_upd_where row_result_def get_op_self split: if_splits)
  qed
qed

section \<open>Execute\<close>

text \<open>The parts of \<open>execute\<close> only move the journal forward, and a call that returns a result leaves
  its receipt committed.\<close>

definition exec_good :: "op_ref \<Rightarrow> journal \<Rightarrow> 'x exec_result \<Rightarrow> bool" where
  "exec_good ref j res = (journal_ok j (fst (snd res))
     \<and> (\<forall>v. fst res = Inr v \<longrightarrow> receipt (ref_key ref) v (fst (snd res))))"

lemma exec_good_step: "journal_ok j j1 \<Longrightarrow> exec_good ref j1 res \<Longrightarrow> exec_good ref j res"
  unfolding exec_good_def using journal_ok_trans by blast

lemma exec_good_error: "journal_ok j j1 \<Longrightarrow> exec_good ref j (Inl e, j1, x)"
  by (simp add: exec_good_def)

lemma journal_ok_inv: "journal_ok j j' \<Longrightarrow> journal_inv j'"
  by (simp add: journal_ok_def)

lemma exec_commit_good:
  assumes "journal_inv j"
  shows "exec_good ref j (case commit ref v owner now j of
           (Inl e, j1) \<Rightarrow> (Inl e, j1, x) | (Inr _, j1) \<Rightarrow> (Inr v, j1, x))"
proof -
  obtain res j1 where c: "commit ref v owner now j = (res, j1)" by fastforce
  show ?thesis
    using commit_ok[OF assms c] commit_Inr[of ref v owner now j j1] c
    by (cases res) (auto simp: exec_good_def)
qed

lemma exec_effect_good:
  assumes "journal_inv j"
  shows "exec_good (xc_ref c) j (exec_effect c budget fn ck attempt owner j x)"
proof (cases "fn x")
  case (Pair res x1)
  show ?thesis
  proof (cases res)
    case (Inr v)
    with Pair exec_commit_good[OF assms] show ?thesis by (simp add: exec_effect_def)
  next
    case (Inl err)
    obtain r1 j1 where d: "mark_in_doubt (xc_ref c) err (Some owner) (ck 5) j = (r1, j1)" by fastforce
    note ok1 = mark_in_doubt_ok[OF assms d]
    obtain r2 j2 where s: "schedule_retry (xc_ref c) attempt budget (ck 6) j1 = (r2, j2)" by fastforce
    note ok2 = journal_ok_trans[OF ok1 schedule_retry_ok[OF journal_ok_inv[OF ok1] s]]
    show ?thesis
      using Pair Inl d s ok1 ok2
      by (cases r1; cases r2) (simp_all add: exec_effect_def exec_good_error)
  qed
qed

lemma exec_claim_good:
  assumes "journal_inv j"
  shows "exec_good (xc_ref c) j (exec_claim c budget fn ck j x)"
proof -
  obtain r1 j1 where s: "start_attempt (xc_ref c) budget 300 (xc_owner c) (ck 4) j = (r1, j1)" by fastforce
  note ok1 = start_attempt_ok[OF assms s]
  show ?thesis
    using s ok1 exec_good_step[OF ok1 exec_effect_good[OF journal_ok_inv[OF ok1]]]
    by (cases r1) (auto simp: exec_claim_def exec_good_error split: prod.splits)
qed

lemma exec_decide_good:
  assumes "journal_inv j"
  shows "exec_good (xc_ref c) j (exec_decide c budget safe fn rc ck existed row j x)"
proof (cases "existed \<or> xc_observe_first c")
  case False
  with exec_claim_good[OF assms] show ?thesis by (simp add: exec_decide_def)
next
  case True
  note refl = exec_good_error[OF journal_ok_refl[OF assms]]
  show ?thesis
  proof (cases rc)
    case None
    with True refl show ?thesis by (simp add: exec_decide_def)
  next
    case (Some rf)
    obtain ores x1 where rf: "rf x = (ores, x1)" by fastforce
    show ?thesis
    proof (cases ores)
      case (Inl err)
      with True Some rf refl show ?thesis by (simp add: exec_decide_def)
    next
      case (Inr out)
      obtain r1 j1 where m: "mark_observation (xc_ref c) out (ck 3) j = (r1, j1)" by fastforce
      note ok1 = mark_observation_ok[OF assms m]
      note inv1 = journal_ok_inv[OF ok1]
      show ?thesis
        using True Some rf Inr m
        by (cases r1) (simp_all add: exec_decide_def exec_good_error[OF ok1]
          exec_good_step[OF ok1 exec_claim_good[OF inv1]] exec_good_step[OF ok1 exec_commit_good[OF inv1]])
    qed
  qed
qed

lemma row_committed_canonical: "row_ok r \<Longrightarrow> op_state r = Committed \<Longrightarrow> jcanon (row_result r) = row_result r"
  by (auto simp: row_ok_def row_result_def jcanon_idem)

lemma exec_loaded_good:
  assumes "journal_inv j" and "get_op (ref_key (xc_ref c)) j = Some row"
  shows "exec_good (xc_ref c) j (exec_loaded c fn rc ck existed row j x)"
proof (cases "op_state row = Committed")
  case True
  with assms get_op_row_ok[OF assms] show ?thesis
    by (simp add: exec_loaded_def exec_good_def journal_ok_refl receipt_def row_committed_canonical)
next
  case open_row: False
  show ?thesis
  proof (cases "op_owner row")
    case None
    with open_row exec_decide_good[OF assms(1)] show ?thesis by (simp add: exec_loaded_def)
  next
    case (Some inc)
    obtain r1 j1 where d: "mark_in_doubt (xc_ref c) ''attempt lease expired; external outcome is unknown''
        (Some inc) (ck 2) j = (r1, j1)" by fastforce
    note ok1 = mark_in_doubt_ok[OF assms(1) d]
    show ?thesis
      using open_row Some d
      by (cases r1; cases "get_op (ref_key (xc_ref c)) j1")
         (simp_all add: exec_loaded_def exec_good_error[OF ok1] exec_good_error[OF journal_ok_refl[OF assms(1)]]
            exec_good_step[OF ok1 exec_decide_good[OF journal_ok_inv[OF ok1]]])
  qed
qed

lemma execute_good:
  assumes "journal_inv j"
  shows "exec_good (xc_ref c) j (execute c fn rc ck j x)"
proof -
  let ?ex = "get_op (ref_key (xc_ref c)) j \<noteq> None"
  obtain r1 j1 where b: "exec_begin c ?ex ck j = (r1, j1)" by fastforce
  then have ok1: "journal_ok j j1" using begin_op_ok[OF assms] by (simp add: exec_begin_def)
  note inv1 = journal_ok_inv[OF ok1]
  show ?thesis
  proof (cases "get_op (ref_key (xc_ref c)) j1")
    case None
    then show ?thesis
      using b
      by (cases r1) (simp_all add: execute_def Let_def exec_good_error[OF ok1] exec_good_error[OF journal_ok_refl[OF assms]])
  next
    case (Some row)
    show ?thesis
      using b Some
      by (cases r1) (simp_all add: execute_def Let_def exec_good_error[OF ok1]
        exec_good_error[OF journal_ok_refl[OF assms]] exec_good_step[OF ok1 exec_loaded_good[OF inv1 Some]])
  qed
qed

section \<open>Properties\<close>

lemma prefix16_le: "unat (drop_bit 16 (w :: 32 word)) \<le> 65535"
proof -
  have "unat w < 2 ^ LENGTH(32)" by (rule unsigned_less)
  moreover have "unat (drop_bit 16 w) = unat w div 2 ^ 16" 
    unfolding unat_drop_bit_eq by (rule drop_bit_eq_div)
  ultimately show ?thesis by simp
qed

lemma receipt_row:
  "receipt k v j \<Longrightarrow> \<exists>r. get_op k j = Some r \<and> op_state r = Committed \<and> row_result r = jcanon v"
  by (auto simp: receipt_def split: option.splits)

lemma exec_begin_bound:
  assumes "exec_begin c existed ck j = (Inr st, j1)"
  shows "\<exists>r. get_op (ref_key (xc_ref c)) j1 = Some r
           \<and> policy_bound (xc_ref c) (xc_digest c) (xc_safe c) (map_option rb_max_attempts (xc_budget c)) r"
proof -
  let ?mx = "if existed then map_option rb_max_attempts (xc_budget c) else Some (rb_max_attempts (call_budget c))"
  obtain r where r: "get_op (ref_key (xc_ref c)) j1 = Some r"
    and b: "policy_bound (xc_ref c) (xc_digest c) (xc_safe c) ?mx r"
    using begin_op_Inr[OF assms[unfolded exec_begin_def]] by blast
  have "policy_bound (xc_ref c) (xc_digest c) (xc_safe c) (map_option rb_max_attempts (xc_budget c)) r"
    using b by (cases existed; cases "xc_budget c") (simp_all add: policy_bound_def call_budget_def)
  with r show ?thesis by blast
qed

lemma execute_bound:
  assumes "journal_inv j" and "execute c fn rc ck j x = (Inr v, j', x')"
  shows "\<exists>r. get_op (ref_key (xc_ref c)) j' = Some r
           \<and> policy_bound (xc_ref c) (xc_digest c) (xc_safe c) (map_option rb_max_attempts (xc_budget c)) r"
proof -
  let ?ex = "get_op (ref_key (xc_ref c)) j \<noteq> None"
  obtain r1 j1 where b: "exec_begin c ?ex ck j = (r1, j1)" by fastforce
  from assms(2) b obtain st row where st: "r1 = Inr st" and g: "get_op (ref_key (xc_ref c)) j1 = Some row"
    and l: "exec_loaded c fn rc ck ?ex row j1 x = (Inr v, j', x')"
    by (cases r1; cases "get_op (ref_key (xc_ref c)) j1") (simp_all add: execute_def Let_def split: if_splits)
  from b have ok1: "journal_ok j j1" using begin_op_ok[OF assms(1)] by (simp add: exec_begin_def)
  have "journal_ok j1 j'"
    using exec_loaded_good[OF journal_ok_inv[OF ok1] g, of fn rc ck ?ex x] unfolding l exec_good_def by simp
  then obtain r where r: "get_op (ref_key (xc_ref c)) j' = Some r" "row_evolves row r"
    using g unfolding journal_ok_def journal_evolves_def by blast
  from exec_begin_bound[of c ?ex ck j st j1] b st g policy_bound_evolves[OF _ r(2)] r(1)
  show ?thesis by fastforce
qed

lemma execute_committed:
  assumes "get_op (ref_key (xc_ref c)) j = Some r" and "op_state r = Committed"
    and "policy_bound (xc_ref c) (xc_digest c) (xc_safe c) (map_option rb_max_attempts (xc_budget c)) r"
  shows "execute c fn rc ck j x = (Inr (row_result r), j, x)"
proof -
  have id: "identity_ok (xc_ref c) r (xc_digest c)" using assms(3) by (simp add: policy_bound_def)
  have "exec_begin c True ck j = (Inr Committed, j)"
    unfolding exec_begin_def using begin_op_bound[OF assms(1,3)] assms(2) by simp
  with assms(1,2) id show ?thesis by (simp add: execute_def exec_loaded_def)
qed

text \<open>C19: replay. When \<open>execute\<close> has returned a result, the same call made again returns the stored
  receipt of that result, whatever provider, reconciler, clock and world it meets then: it touches
  neither the world nor the journal, so the provider runs no second time.\<close>

theorem execute_replays_receipt:
  assumes "reachable_journal j" and "execute c fn rc ck j x = (Inr v, j', x')"
  shows "execute c fn2 rc2 ck2 j' y = (Inr (jcanon v), j', y)"
proof -
  note inv = reachable_journal_inv[OF assms(1)]
  have "receipt (ref_key (xc_ref c)) v j'"
    using execute_good[OF inv, of c fn rc ck x] unfolding assms(2) exec_good_def by simp
  then obtain r where r: "get_op (ref_key (xc_ref c)) j' = Some r" "op_state r = Committed"
    "row_result r = jcanon v" using receipt_row by blast
  have "policy_bound (xc_ref c) (xc_digest c) (xc_safe c) (map_option rb_max_attempts (xc_budget c)) r"
    using execute_bound[OF inv assms(2)] r(1) by auto
  from execute_committed[OF r(1,2) this] r(3) show ?thesis by simp
qed

text \<open>C20: a receipt is final, up to one race. Whatever transactions run on the journal, by whatever
  processes and in whatever order, with the read and the write of every \<open>start_attempt\<close> as separate steps
  and with processes that die between them: a row keeps its identity and the policy bound to it, and once
  it is committed it stays committed with the same result, unless a process that had read the row before
  the commit and found its budget spent has yet to write that (that write has no condition on the
  state).\<close>

theorem committed_receipt_final:
  assumes "reachable_journals (j, ps)" and "journal_step\<^sup>*\<^sup>* (j, ps) (j', ps')" and "get_op k j = Some r"
  shows "\<exists>r'. get_op k j' = Some r' \<and> row_kept r r'
     \<and> (op_state r = Committed \<and> (\<forall>p\<in>set ps. \<not> (ref_key (claim_ref p) = k \<and> claim_decision p = BudgetSpent))
          \<longrightarrow> op_state r' = Committed \<and> row_result r' = row_result r)"
proof -
  from journal_steps_rows[OF assms(2) journal.reach_inv[OF assms(1)], of k r] assms(3)
  obtain r' where "get_op k j' = Some r'" "row_after k ps r r'" by auto
  then show ?thesis by (auto simp: row_after_def receipt_safe_def list_all_iff row_result_def)
qed

text \<open>The race is real. A spent budget's write that lands after the commit turns the receipt into an
  exhausted row, and the next commit of the operation replaces the stored result.\<close>

lemma spent_claim_undoes_receipt:
  assumes "journal_inv j" and "get_op (ref_key ref) j = Some r" and "op_state r = Committed" and "identity_ok ref r None"
  shows "\<exists>j1 j2. start_write ref lease_s owner now BudgetSpent j = (Inl RetryBudgetExhausted, j1)
     \<and> get_op (ref_key ref) j1 = Some (r\<lparr>op_state := Exhausted, op_updated_at := now\<rparr>)
     \<and> commit ref v None t j1 = (Inr (), j2) \<and> receipt (ref_key ref) v j2"
proof -
  let ?j1 = "upd_where (by_key (ref_key ref)) (\<lambda>r. r\<lparr>op_state := Exhausted, op_updated_at := now\<rparr>) j"
  let ?r = "r\<lparr>op_state := Exhausted, op_updated_at := now\<rparr>"
  have w: "start_write ref lease_s owner now BudgetSpent j = (Inl RetryBudgetExhausted, ?j1)" by (simp add: start_write_def)
  have "claim_ok (ref, lease_s, owner, now, BudgetSpent)" by (simp add: claim_ok_def)
  then have inv: "journal_inv ?j1" by (rule start_write_rows(1)[OF assms(1) _ w])
  have g: "get_op (ref_key ref) ?j1 = Some ?r" using get_op_upd_where[of j "by_key (ref_key ref)"] assms(2) get_op_self[OF assms(2)] by simp
  have "rowcount (\<lambda>x. open_by_key (ref_key ref) x) ?j1 = 1"
    using rowcount_one_iff[of op_key ?j1 "open_by_key (ref_key ref)" "ref_key ref"] inv g
    by (auto simp: journal_inv_def get_op_def get_op_self[OF assms(2)])
  moreover have "identity_ok ref ?r None" using assms(4) by (simp add: identity_ok_def)
  ultimately have "fst (commit ref v None t ?j1) = Inr ()" using g by (simp add: commit_def Let_def)
  then obtain j2 where c: "commit ref v None t ?j1 = (Inr (), j2)" by (cases "commit ref v None t ?j1") auto
  with commit_Inr[OF c] w g show ?thesis by blast
qed

lemma exec_decide_gate:
  assumes "\<nexists>rf out x1. rc = Some rf \<and> rf x = (Inr out, x1) \<and> mo_status out = DefinitelyAbsent \<and> safe"
  shows "exec_decide c b safe fn rc ck True row j x = exec_decide c b safe fn' rc ck True row j x"
proof (cases rc)
  case None
  then show ?thesis by (simp add: exec_decide_def)
next
  case (Some rf)
  obtain ores x1 where rf: "rf x = (ores, x1)" by fastforce
  show ?thesis
  proof (cases ores)
    case (Inl e)
    with Some rf show ?thesis by (simp add: exec_decide_def)
  next
    case (Inr out)
    have "mo_status out \<noteq> DefinitelyAbsent \<or> \<not> safe" using assms Some rf Inr by blast
    then show ?thesis
      unfolding exec_decide_def Some rf Inr option.case prod.case sum.case
      by (simp split: prod.split sum.split)
  qed
qed

lemma bind_policy_safe: "effective_safe c (bind_policy d (xc_safe c) m now r) = effective_safe c r"
  by (cases "xc_safe c") (simp_all add: effective_safe_def bind_policy_def fill_def)

text \<open>C4: no blind replay. When the journal already holds an intent for the operation, \<open>execute\<close>
  behaves the same for every provider callback, that is it never calls it, unless a reconciler is
  supplied, it answers that the earlier attempt is definitely absent, and the operation is replay-safe
  by the caller's word or the policy stored with the intent.\<close>

theorem execute_no_blind_replay:
  assumes "get_op (ref_key (xc_ref c)) j = Some row"
    and "\<nexists>rf out x1. rc = Some rf \<and> rf x = (Inr out, x1)
           \<and> mo_status out = DefinitelyAbsent \<and> effective_safe c row"
  shows "execute c fn rc ck j x = execute c fn' rc ck j x"
proof -
  obtain r1 j1 where b: "exec_begin c True ck j = (r1, j1)" by fastforce
  show ?thesis
  proof (cases r1)
    case (Inl e)
    with assms(1) b show ?thesis by (simp add: execute_def)
  next
    case (Inr st)
    let ?mx = "map_option rb_max_attempts (xc_budget c)"
    let ?r = "bind_policy (xc_digest c) (xc_safe c) ?mx (ck 0) row"
    have g: "get_op (ref_key (xc_ref c)) j1 = Some ?r"
      using begin_op_Inr[of "xc_ref c" "xc_digest c" "xc_safe c" ?mx "ck 0" j st j1] b Inr assms(1)
      by (simp add: exec_begin_def)
    have "exec_loaded c fn rc ck True ?r j1 x = exec_loaded c fn' rc ck True ?r j1 x"
      unfolding exec_loaded_def bind_policy_safe
      by (simp only: exec_decide_gate[OF assms(2), of c _ fn _ _ _ fn'])
    with assms(1) b Inr g show ?thesis by (simp add: execute_def)
  qed
qed

definition claimed_row :: "string \<Rightarrow> time \<Rightarrow> real \<Rightarrow> op_row \<Rightarrow> op_row" where
  "claimed_row owner now lease_s r =
     r\<lparr>op_attempts := op_attempts r + 1, op_state := Intent, op_last_error := None, op_next_attempt_at := None,
       op_owner := Some owner, op_lease_until := Some (now + max 1 lease_s), op_updated_at := now\<rparr>"

lemma claim_rowcount:
  assumes "journal_inv j" and "get_op k j = Some row" and "op_state row \<noteq> Committed" and "op_owner row = None"
  shows "rowcount (\<lambda>r. op_key r = k \<and> op_state r \<noteq> Committed \<and> op_owner r = None) j = 1"
proof -
  have "primary_key op_key j" using assms(1) by (simp add: journal_inv_def)
  from rowcount_one_iff[OF this, of "\<lambda>r. op_key r = k \<and> op_state r \<noteq> Committed \<and> op_owner r = None" k]
  show ?thesis using assms(2-) get_op_self[OF assms(2)] unfolding get_op_def by blast
qed

text \<open>The claim. \<open>start_attempt\<close> grants an attempt exactly when the operation exists under this
  identity, is not committed, has no claim at all (not even an expired one) and has attempts left; the
  grant carries the next attempt number and the caller's token and is written to the row with its
  lease.\<close>

theorem start_attempt_grants:
  assumes "reachable_journal j"
  shows "start_attempt ref budget lease_s owner now j = (Inr (n, ow), j') \<longleftrightarrow>
     (\<exists>row. get_op (ref_key ref) j = Some row \<and> identity_ok ref row None \<and> op_state row \<noteq> Committed
        \<and> op_owner row = None \<and> op_attempts row < rb_max_attempts budget
        \<and> n = op_attempts row + 1 \<and> ow = owner
        \<and> j' = upd_where (by_key (ref_key ref)) (claimed_row owner now lease_s) j)"
    (is "?lhs \<longleftrightarrow> (\<exists>row. ?rhs row)")
proof (cases "get_op (ref_key ref) j")
  case None
  then show ?thesis by (simp add: start_attempt_def)
next
  case (Some row)
  note inv = reachable_journal_inv[OF assms]
  let ?hit = "\<lambda>r. op_key r = ref_key ref \<and> op_state r \<noteq> Committed \<and> op_owner r = None"
  let ?free = "op_state row \<noteq> Committed \<and> op_owner row = None"
  let ?set = "\<lambda>r. r\<lparr>op_attempts := op_attempts row + 1, op_state := Intent, op_last_error := None,
      op_next_attempt_at := None, op_owner := Some owner,
      op_lease_until := Some (now + max 1 lease_s), op_updated_at := now\<rparr>"
  have upd: "upd_where ?hit ?set j = upd_where (by_key (ref_key ref)) (claimed_row owner now lease_s) j" if ?free
    unfolding upd_where_def
  proof (rule map_cong[OF refl])
    fix r assume "r \<in> set j"
    with get_op_unique[OF inv Some this] that
    show "(if ?hit r then ?set r else r) = (if by_key (ref_key ref) r then claimed_row owner now lease_s r else r)"
      by (auto simp: claimed_row_def)
  qed
  have rc: "rowcount ?hit j = 1" if ?free
    by (rule claim_rowcount[OF inv Some]) (use that in simp_all)
  have "?lhs \<longleftrightarrow> ?rhs row"
  proof (cases "identity_ok ref row None \<and> ?free \<and> op_attempts row < rb_max_attempts budget")
    case True
    then have "start_attempt ref budget lease_s owner now j
        = (Inr (op_attempts row + 1, owner), upd_where ?hit ?set j)"
      using Some rc by (simp add: start_attempt_unfold Let_def)
    with True upd Some show ?thesis by auto
  next
    case False
    then have "\<not> ?lhs"
      using Some by (auto simp: start_attempt_unfold Let_def split: if_splits option.splits)
    with False show ?thesis by blast
  qed
  with Some show ?thesis by simp
qed

text \<open>The claim excludes everybody else. While an attempt of another owner is on the row, no
  \<open>start_attempt\<close> is granted, no other token can commit a result or clear the claim, whatever the
  clock says and whether or not the lease has expired.\<close>

theorem claim_excludes_others:
  assumes "reachable_journal j" and "get_op (ref_key ref) j = Some row" and "op_owner row = Some ow" and "ow' \<noteq> ow"
  shows "(\<forall>g. fst (start_attempt ref budget lease_s ow' now j) \<noteq> Inr g)
     \<and> fst (commit ref v (Some ow') now j) \<noteq> Inr () \<and> snd (commit ref v (Some ow') now j) = j
     \<and> snd (mark_in_doubt ref err (Some ow') now j) = j"
proof -
  note inv = reachable_journal_inv[OF assms(1)]
  have nc: "op_state row \<noteq> Committed"
    using get_op_row_ok[OF inv assms(2)] assms(3) by (auto simp: row_ok_def)
  have "upd_where (\<lambda>r. open_by_key (ref_key ref) r \<and> op_owner r = Some ow') f j = j" for f
    using get_op_unique[OF inv assms(2)] assms(3,4) by (intro upd_where_none) auto
  then show ?thesis
    using assms(2-4) nc
    by (simp add: start_attempt_unfold commit_def mark_in_doubt_def Let_def)
qed

text \<open>C40: backoff. With non-negative delays the wait before the next attempt is at least three
  quarters of the capped exponential delay, never more than the cap, and equal for equal operation and
  attempt.\<close>

theorem retry_delay_bounds:
  assumes "0 \<le> rb_base_delay b" and "0 \<le> rb_max_delay b"
  shows "3 / 4 * min (rb_max_delay b) (rb_base_delay b * 2 ^ nat (max 0 (attempt - 1))) \<le> retry_delay b attempt key
     \<and> retry_delay b attempt key \<le> rb_max_delay b
     \<and> retry_delay b attempt key \<le> 5 / 4 * (rb_base_delay b * 2 ^ nat (max 0 (attempt - 1)))"
proof -
  let ?raw = "min (rb_max_delay b) (rb_base_delay b * 2 ^ nat (max 0 (attempt - 1)))"
  let ?j = "real (sha256_prefix16 (key @ '':'' @ int_str attempt)) / 65535"
  have raw: "0 \<le> ?raw" using assms by simp
  have "sha256_prefix16 (key @ '':'' @ int_str attempt) \<le> 65535"
    unfolding sha256_prefix16_def by (rule prefix16_le)
  then have j: "0 \<le> ?j" "?j \<le> 1" by simp_all
  have lo: "3 / 4 * ?raw \<le> ?raw * (3 / 4 + 1 / 2 * ?j)"
    using mult_left_mono[OF _ raw, of "3/4" "3 / 4 + 1 / 2 * ?j"] j by (simp add: mult.commute)
  have hi: "?raw * (3 / 4 + 1 / 2 * ?j) \<le> ?raw * (5 / 4)"
    using j by (intro mult_left_mono raw) auto
  have cap: "?raw * (5 / 4) \<le> 5 / 4 * (rb_base_delay b * 2 ^ nat (max 0 (attempt - 1)))" by simp
  have low: "3 / 4 * ?raw \<le> rb_max_delay b" using raw by linarith
  show ?thesis
    unfolding retry_delay_def Let_def
    using lo low order_trans[OF hi cap] by (intro conjI min.boundedI min.cobounded1 min.coboundedI2)
qed

section \<open>A concrete call\<close>

definition demo_ref :: op_ref where
  "demo_ref = \<lparr>ref_cell = ''cell_0123456789abcdef01234567'', ref_epoch = 1, ref_kind = ''github_publish'',
     ref_key = ''publish:1''\<rparr>"

definition demo_call :: exec_call where
  "demo_call = \<lparr>xc_ref = demo_ref, xc_safe = Some True, xc_budget = None, xc_digest = None,
     xc_observe_first = False, xc_owner = ''a''\<rparr>"

definition count_ok :: "nat provider" where
  "count_ok n = (Inr (JInt 7), n + 1)"

definition count_fail :: "nat provider" where
  "count_fail n = (Inl ''timeout'', n + 1)"

definition demo_row :: op_row where
  "demo_row = new_op demo_ref None (Some True) (Some 4) 0"

lemma demo_valid: "valid_ref demo_ref"
  by code_simp

lemma demo_identity_ok: "identity_ok demo_ref demo_row None"
  by code_simp

lemma demo_begin: "begin_op demo_ref None (Some True) (Some 4) 0 [] = (Inr Intent, [demo_row])"
proof -
  have "insert_or_ignore demo_row [] = [demo_row]" by (simp add: insert_or_ignore_def get_op_def)
  moreover have "get_op (ref_key demo_ref) [demo_row] = Some demo_row"
    by (simp add: get_op_def demo_row_def)
  moreover have "begin_bind demo_ref None (Some True) (Some 4) 0 demo_row [demo_row] = Some [demo_row]"
    by (simp add: begin_bind_def demo_identity_ok) (simp add: demo_row_def new_op_def divergent_def)
  moreover have "valid_digest None" "op_state demo_row = Intent"
    by (simp_all add: valid_digest_def demo_row_def new_op_def)
  ultimately show ?thesis unfolding begin_op_def demo_row_def by (simp add: demo_valid)
qed

lemma demo_reachables: "reachable_journals ([demo_row], [])"
proof -
  have "reachable_journals ([], [])" by (rule reach_init) simp
  then show ?thesis using js_begin[OF demo_begin] by (rule reach_step)
qed

lemma demo_reachable: "reachable_journal [demo_row]"
  unfolding reachable_journal_def using demo_reachables by blast

definition demo_claimed :: op_row where
  "demo_claimed = claimed_row ''a'' 0 300 demo_row"

lemma demo_start: "start_attempt demo_ref (budget_for ''github_publish'') 300 ''a'' 0 [demo_row] = (Inr (1, ''a''), [demo_claimed])"
proof -
  have "get_op (ref_key demo_ref) [demo_row] = Some demo_row" by (simp add: get_op_def demo_row_def)
  moreover have "op_state demo_row = Intent" "op_owner demo_row = None" "op_attempts demo_row = 0"
    "op_key demo_row = ref_key demo_ref"
    by (simp_all add: demo_row_def new_op_def)
  moreover have "rb_max_attempts (budget_for ''github_publish'') = 4" by (simp add: budget_for_def)
  ultimately show ?thesis
    by (simp add: start_attempt_unfold demo_identity_ok rowcount_def Let_def demo_claimed_def claimed_row_def upd_where_def)
qed

text \<open>Two processes read the fresh row; the first writes its claim and the second is still in the window.\<close>

abbreviation demo_claim :: "string \<Rightarrow> pending_claim" where
  "demo_claim ow \<equiv> (demo_ref, 300, ow, 0, ClaimAttempt 1)"

lemma demo_decide: "start_decide demo_ref (budget_for ''github_publish'') 0 demo_row = Inr (ClaimAttempt 1)"
  by (simp add: start_decide_def demo_identity_ok budget_for_def) (simp add: demo_row_def new_op_def)

lemma get_demo_row: "get_op (ref_key demo_ref) [demo_row] = Some demo_row"
  by (simp add: get_op_def demo_row_def)

lemma demo_write: "start_write demo_ref 300 ''a'' 0 (ClaimAttempt 1) [demo_row] = (Inr (1, ''a''), [demo_claimed])"
  using demo_start by (simp add: start_attempt_def get_demo_row demo_decide)

lemma demo_claimed_reachables: "reachable_journals ([demo_claimed], [demo_claim ''b''])"
proof -
  have "reachable_journals ([demo_row], [demo_claim ''b''])"
    by (rule reach_step[OF demo_reachables js_read[OF get_demo_row demo_decide]])
  then have "reachable_journals ([demo_row], [demo_claim ''a'', demo_claim ''b''])"
    by (rule reach_step) (rule js_read[OF get_demo_row demo_decide])
  then have "reachable_journals ([demo_claimed], remove1 (demo_claim ''a'') [demo_claim ''a'', demo_claim ''b''])"
    by (rule reach_step) (rule js_write[OF _ demo_write], simp)
  then show ?thesis by simp
qed

lemma demo_claimed_reachable: "reachable_journal [demo_claimed]"
  unfolding reachable_journal_def using demo_claimed_reachables by blast

lemma get_demo_claimed: "get_op (ref_key demo_ref) [demo_claimed] = Some demo_claimed"
  by (simp add: get_op_def demo_claimed_def claimed_row_def demo_row_def)

definition demo_committed :: op_row where
  "demo_committed = demo_claimed\<lparr>op_state := Committed, op_result := Some (JInt 7), op_owner := None,
     op_lease_until := None\<rparr>"

lemma demo_commit: "commit demo_ref (JInt 7) (Some ''a'') 0 [demo_claimed] = (Inr (), [demo_committed])"
proof -
  have "identity_ok demo_ref demo_claimed None" by code_simp
  moreover have "op_state demo_claimed = Intent" "op_owner demo_claimed = Some ''a''"
    "op_key demo_claimed = ref_key demo_ref" "op_last_error demo_claimed = None"
    "op_next_attempt_at demo_claimed = None" "op_updated_at demo_claimed = 0"
    by (simp_all add: demo_claimed_def claimed_row_def demo_row_def new_op_def)
  ultimately show ?thesis
    by (simp add: commit_def get_demo_claimed rowcount_def Let_def demo_committed_def upd_where_def)
qed

lemma demo_execute: "execute demo_call count_ok None (\<lambda>i. 0) [] 0 = (Inr (JInt 7), [demo_committed], 1)"
proof -
  have b: "exec_begin demo_call False (\<lambda>i. 0) [] = (Inr Intent, [demo_row])"
    using demo_begin by (simp add: exec_begin_def demo_call_def call_budget_def demo_ref_def budget_for_def)
  have g: "get_op (ref_key (xc_ref demo_call)) [demo_row] = Some demo_row"
    by (simp add: get_op_def demo_row_def demo_call_def)
  have r: "op_state demo_row = Intent" "op_owner demo_row = None" "op_max_attempts demo_row = Some 4"
    by (simp_all add: demo_row_def new_op_def)
  have e: "effective_budget demo_call demo_row = budget_for ''github_publish''"
    by (simp add: effective_budget_def r call_budget_def demo_call_def demo_ref_def budget_for_def)
  show ?thesis
    using b g r
    by (simp add: execute_def get_op_def[of _ "[]"] exec_loaded_def exec_decide_def exec_claim_def e)
       (simp add: demo_call_def demo_start exec_effect_def count_ok_def demo_commit)
qed

theorem execute_replays_receipt_witness:
  "execute demo_call count_ok None (\<lambda>i. 0) [demo_committed] 5 = (Inr (JInt 7), [demo_committed], 5)"
  using execute_replays_receipt[OF reachable_journal_Nil demo_execute, of count_ok None "\<lambda>i. 0" 5] by simp

theorem committed_receipt_final_witness:
  "\<exists>j r'. start_write demo_ref 300 ''b'' 0 (ClaimAttempt 1) [demo_committed] = (Inl (OperationInDoubt ''attempt_in_progress''), j)
     \<and> get_op (ref_key demo_ref) j = Some r' \<and> op_state r' = Committed \<and> row_result r' = JInt 7"
proof -
  have r: "reachable_journals ([demo_committed], [demo_claim ''b''])"
    by (rule reach_step[OF demo_claimed_reachables js_commit[OF demo_commit]])
  have k: "op_key demo_committed = ref_key demo_ref" "op_state demo_committed = Committed" "row_result demo_committed = JInt 7"
    by (simp_all add: demo_committed_def demo_claimed_def claimed_row_def demo_row_def row_result_def)
  have w: "start_write demo_ref 300 ''b'' 0 (ClaimAttempt 1) [demo_committed]
      = (Inl (OperationInDoubt ''attempt_in_progress''), [demo_committed])"
    by (simp add: start_write_def rowcount_def k)
  have s: "journal_step\<^sup>*\<^sup>* ([demo_committed], [demo_claim ''b'']) ([demo_committed], remove1 (demo_claim ''b'') [demo_claim ''b''])"
    by (rule r_into_rtranclp, rule js_write[OF _ w]) simp
  have g: "get_op (ref_key demo_ref) [demo_committed] = Some demo_committed" by (simp add: get_op_def k(1)[symmetric])
  from committed_receipt_final[OF r s g] k w show ?thesis by auto
qed

theorem execute_no_blind_replay_witness:
  "execute demo_call count_ok None (\<lambda>i. 1000) [demo_claimed] 0
     = execute demo_call count_fail None (\<lambda>i. 1000) [demo_claimed] 0"
  using execute_no_blind_replay[of demo_call "[demo_claimed]" demo_claimed None 0 count_ok "\<lambda>i. 1000" count_fail]
    get_demo_claimed by (simp add: demo_call_def)

theorem start_attempt_grants_witness:
  "\<exists>row. get_op (ref_key demo_ref) [demo_row] = Some row \<and> op_owner row = None"
  using start_attempt_grants[OF demo_reachable, of demo_ref "budget_for ''github_publish''" 300 "''a''" 0] demo_start
  by blast

theorem claim_excludes_others_witness:
  "snd (commit demo_ref (JInt 9) (Some ''b'') 1000 [demo_claimed]) = [demo_claimed]"
proof -
  have "op_owner demo_claimed = Some ''a''" by (simp add: demo_claimed_def claimed_row_def)
  from claim_excludes_others[OF demo_claimed_reachable get_demo_claimed this, of "''b''"] show ?thesis by simp
qed

theorem retry_delay_bounds_witness: "retry_delay default_budget 9 ''k'' \<le> 60"
  using retry_delay_bounds[of default_budget 9 "''k''"] by (simp add: default_budget_def)

end
