(* ===== verification/RepairLease.thy ===== *)
theory RepairLease
  imports Idempotency
begin

text \<open>
  Cleanup receipts and repair leases, \<open>src/swfactory/cleanup_receipt.py\<close>.

  \<^item> \<open>cleanup_receipt\<close> with \<open>build_receipt\<close>, \<open>receipt_for\<close>, \<open>receipt_converged\<close> and \<open>receipt_dict\<close>.
  \<^item> \<open>lease_row\<close> is a row of \<open>repair_leases\<close>. \<open>acquire\<close> is one call running alone. The statements of
    that call are a \<open>SELECT\<close> (\<open>acquire_read\<close>) and a write (\<open>acquire_write\<close>); the connection opens its
    transaction at the write, so two processes may interleave between them.
  \<^item> The lemmas show that with atomic calls a live lease excludes every other owner, and that with
    interleaved statements two owners can be given the same lease epoch.
\<close>

section \<open>Cleanup receipts\<close>

datatype cleanup_status = Converged | AlreadyAbsent | CRefused | CAmbiguous | CFailed

fun cleanup_status_str :: "cleanup_status \<Rightarrow> string" where
  "cleanup_status_str Converged = ''converged''"
| "cleanup_status_str AlreadyAbsent = ''already_absent''"
| "cleanup_status_str CRefused = ''refused''"
| "cleanup_status_str CAmbiguous = ''ambiguous''"
| "cleanup_status_str CFailed = ''failed''"

record cleanup_receipt =
  cr_schema_version :: int
  cr_cell :: string
  cr_epoch :: int
  cr_operation_key :: string
  cr_provider :: string
  cr_resource :: string
  cr_status :: cleanup_status
  cr_requested_at :: time
  cr_observed_at :: time
  cr_attempts :: int
  cr_detail :: string

definition build_receipt ::
  "string \<Rightarrow> int \<Rightarrow> string \<Rightarrow> string \<Rightarrow> string \<Rightarrow> cleanup_status \<Rightarrow> time \<Rightarrow> int \<Rightarrow> string \<Rightarrow> time
     \<Rightarrow> cleanup_receipt option" where
  "build_receipt cell epoch key provider resource_id status requested_at attempts detail now =
     (if epoch < 1 \<or> attempts < 1 then None
      else Some \<lparr>cr_schema_version = 1, cr_cell = cell, cr_epoch = epoch, cr_operation_key = key,
        cr_provider = provider, cr_resource = resource_id, cr_status = status, cr_requested_at = requested_at,
        cr_observed_at = now, cr_attempts = attempts, cr_detail = take 2000 detail\<rparr>)"

definition receipt_for ::
  "op_ref \<Rightarrow> string \<Rightarrow> cleanup_status \<Rightarrow> string \<Rightarrow> time \<Rightarrow> string \<Rightarrow> time \<Rightarrow> cleanup_receipt option" where
  "receipt_for ref resource_id status provider requested_at detail now =
     build_receipt (ref_cell ref) (ref_epoch ref) (ref_key ref) provider resource_id status requested_at 1 detail now"

definition receipt_converged :: "cleanup_receipt \<Rightarrow> bool" where
  "receipt_converged r = (cr_status r \<in> set [Converged, AlreadyAbsent])"

definition receipt_dict :: "cleanup_receipt \<Rightarrow> json" where
  "receipt_dict r = JObj
     [(''schema_version'', JInt (cr_schema_version r)), (''cell_id'', JStr (cr_cell r)),
      (''epoch'', JInt (cr_epoch r)), (''operation_key'', JStr (cr_operation_key r)),
      (''provider'', JStr (cr_provider r)), (''resource_id'', JStr (cr_resource r)),
      (''status'', JStr (cleanup_status_str (cr_status r))), (''requested_at'', JReal (cr_requested_at r)),
      (''observed_at'', JReal (cr_observed_at r)), (''attempts'', JInt (cr_attempts r)),
      (''detail'', JStr (cr_detail r))]"

section \<open>Repair leases\<close>

record lease_row =
  lr_key :: string
  lr_owner :: string
  lr_epoch :: int
  lr_expires_at :: time
  lr_metadata :: json

record repair_lease =
  rl_key :: string
  rl_owner :: string
  rl_epoch :: int
  rl_expires_at :: time

datatype lease_error = TtlNotPositive | LeaseIntegrityError

definition acquire_read :: "string \<Rightarrow> lease_row list \<Rightarrow> lease_row option" where
  "acquire_read k t = select_one lr_key k t"

definition metadata_json :: "json option \<Rightarrow> json" where
  "metadata_json m = jcanon (case m of None \<Rightarrow> JObj [] | Some v \<Rightarrow> v)"

text \<open>The write that follows the read \<open>seen\<close>. \<open>INSERT\<close> fails when the key exists by then.\<close>

definition acquire_write ::
  "lease_row option \<Rightarrow> string \<Rightarrow> string \<Rightarrow> real \<Rightarrow> json option \<Rightarrow> time \<Rightarrow> lease_row list
     \<Rightarrow> (lease_error + repair_lease option) \<times> lease_row list" where
  "acquire_write seen k owner ttl_s metadata now t =
     (let expires = now + ttl_s; meta = metadata_json metadata in
      case seen of
        None \<Rightarrow>
          if select_one lr_key k t \<noteq> None then (Inl LeaseIntegrityError, t)
          else (Inr (Some \<lparr>rl_key = k, rl_owner = owner, rl_epoch = 1, rl_expires_at = expires\<rparr>),
                t @ [\<lparr>lr_key = k, lr_owner = owner, lr_epoch = 1, lr_expires_at = expires, lr_metadata = meta\<rparr>])
      | Some row \<Rightarrow>
          if lr_expires_at row > now \<and> lr_owner row \<noteq> owner then (Inr None, t)
          else
            let epoch = lr_epoch row + 1 in
            (Inr (Some \<lparr>rl_key = k, rl_owner = owner, rl_epoch = epoch, rl_expires_at = expires\<rparr>),
             upd_where (\<lambda>r. lr_key r = k)
               (\<lambda>r. r\<lparr>lr_owner := owner, lr_epoch := epoch, lr_expires_at := expires, lr_metadata := meta\<rparr>) t))"

definition acquire ::
  "string \<Rightarrow> string \<Rightarrow> real \<Rightarrow> json option \<Rightarrow> time \<Rightarrow> lease_row list
     \<Rightarrow> (lease_error + repair_lease option) \<times> lease_row list" where
  "acquire k owner ttl_s metadata now t =
     (if ttl_s \<le> 0 then (Inl TtlNotPositive, t)
      else acquire_write (acquire_read k t) k owner ttl_s metadata now t)"

definition held_by :: "repair_lease \<Rightarrow> lease_row \<Rightarrow> bool" where
  "held_by l r = (lr_key r = rl_key l \<and> lr_owner r = rl_owner l \<and> lr_epoch r = rl_epoch l)"

definition release :: "repair_lease \<Rightarrow> lease_row list \<Rightarrow> bool \<times> lease_row list" where
  "release l t = (rowcount (held_by l) t = 1, delete_where (held_by l) t)"

section \<open>Atomic calls\<close>

definition leases_inv :: "lease_row list \<Rightarrow> bool" where
  "leases_inv t = (primary_key lr_key t \<and> list_all (\<lambda>r. 1 \<le> lr_epoch r) t)"

inductive lease_step :: "lease_row list \<Rightarrow> lease_row list \<Rightarrow> bool" where
  ls_acquire: "acquire k owner ttl_s metadata now t = (res, t') \<Longrightarrow> lease_step t t'"
| ls_release: "release l t = (ok, t') \<Longrightarrow> lease_step t t'"

lemma acquire_inv [inv_intros]:
  assumes "leases_inv t" and "acquire k owner ttl_s metadata now t = (res, t')"
  shows "leases_inv t'"
proof (cases "ttl_s \<le> 0")
  case True
  with assms show ?thesis by (simp add: acquire_def)
next
  case False
  show ?thesis
  proof (cases "select_one lr_key k t")
    case None
    with False assms show ?thesis
      by (auto simp: acquire_def acquire_read_def acquire_write_def Let_def leases_inv_def intro: primary_key_snoc)
  next
    case (Some row)
    have "1 \<le> lr_epoch row"
      using assms(1) select_one_SomeD[OF Some] by (auto simp: leases_inv_def list_all_iff)
    with Some False assms show ?thesis
      by (auto simp: acquire_def acquire_read_def acquire_write_def Let_def leases_inv_def list_all_iff
            intro!: primary_key_upd_where dest!: upd_where_in split: if_splits)
  qed
qed

lemma release_inv [inv_intros]: "leases_inv t \<Longrightarrow> release l t = (ok, t') \<Longrightarrow> leases_inv t'"
  by (auto simp: release_def leases_inv_def list_all_iff delete_where_def
        intro: primary_key_delete[unfolded delete_where_def])

interpretation leases: inductive_invariant "\<lambda>t. t = []" lease_step leases_inv
proof
  fix t t' :: "lease_row list"
  show "leases_inv t" if "t = []" using that by (simp add: leases_inv_def primary_key_def)
  show "leases_inv t'" if "leases_inv t" "lease_step t t'"
    using that(2,1) by (cases rule: lease_step.cases) (auto intro: inv_intros)
qed

text \<open>Calls of the other workers while the lease lives: they present other owners, read a clock
  before its expiry and release leases of their own.\<close>

inductive rival_step :: "repair_lease \<Rightarrow> lease_row list \<Rightarrow> lease_row list \<Rightarrow> bool" for l where
  rs_acquire: "owner \<noteq> rl_owner l \<Longrightarrow> now < rl_expires_at l
     \<Longrightarrow> acquire k owner ttl_s metadata now t = (res, t') \<Longrightarrow> rival_step l t t'"
| rs_release: "rl_owner l' \<noteq> rl_owner l \<Longrightarrow> release l' t = (ok, t') \<Longrightarrow> rival_step l t t'"

definition lease_held :: "repair_lease \<Rightarrow> lease_row list \<Rightarrow> bool" where
  "lease_held l t = (\<exists>r. select_one lr_key (rl_key l) t = Some r \<and> held_by l r \<and> lr_expires_at r = rl_expires_at l)"

lemma select_one_delete_other:
  assumes "select_one key k t = Some r" and "\<not> p r" and "primary_key key t"
  shows "select_one key k (delete_where p t) = Some r"
proof -
  have "r \<in> set (delete_where p t)" "key r = k"
    using select_one_SomeD[OF assms(1)] assms(2) by (auto simp: delete_where_def)
  with primary_key_delete[OF assms(3)] show ?thesis by (intro select_one_in)
qed

lemma rival_acquire_refused:
  assumes "lease_held l t" and "owner \<noteq> rl_owner l" and "now < rl_expires_at l" and "0 < ttl_s"
  shows "acquire (rl_key l) owner ttl_s metadata now t = (Inr None, t)"
  using assms by (auto simp: lease_held_def held_by_def acquire_def acquire_read_def acquire_write_def Let_def)

lemma rival_step_holds:
  assumes "leases_inv t" and "lease_held l t" and "rival_step l t t'"
  shows "lease_held l t'"
  using assms(3)
proof cases
  case (rs_acquire owner now k ttl_s metadata res)
  show ?thesis
  proof (cases "k = rl_key l \<or> ttl_s \<le> 0")
    case True
    with rs_acquire assms(2) rival_acquire_refused[OF assms(2) rs_acquire(1,2)] show ?thesis
      by (cases "ttl_s \<le> 0") (auto simp: acquire_def)
  next
    case False
    from assms(2) obtain r where r: "select_one lr_key (rl_key l) t = Some r" "held_by l r"
      "lr_expires_at r = rl_expires_at l" by (auto simp: lease_held_def)
    have "select_one lr_key (rl_key l) (upd_where (\<lambda>r. lr_key r = k) f t) = Some r"
      if "\<And>r. lr_key (f r) = lr_key r" for f
      using that False r(1,2) by (auto simp: select_one_upd_where held_by_def)
    with False r rs_acquire(3) show ?thesis
      by (auto simp: acquire_def acquire_read_def acquire_write_def Let_def lease_held_def select_one_append
            split: option.splits if_splits)
  qed
next
  case (rs_release l' ok)
  from assms(2) obtain r where r: "select_one lr_key (rl_key l) t = Some r" "held_by l r"
    "lr_expires_at r = rl_expires_at l" by (auto simp: lease_held_def)
  have "\<not> held_by l' r" using rs_release(1) r(2) by (simp add: held_by_def)
  with select_one_delete_other[OF r(1)] assms(1) r rs_release(2) show ?thesis
    by (auto simp: lease_held_def release_def leases_inv_def)
qed

lemma rival_step_lease_step: "rival_step l t t' \<Longrightarrow> lease_step t t'"
  by (induction rule: rival_step.induct) (auto intro: lease_step.intros)

lemma acquire_granted:
  assumes "leases_inv t" and "acquire k owner ttl_s metadata now t = (Inr (Some l), t')"
  shows "rl_key l = k \<and> rl_owner l = owner \<and> rl_expires_at l = now + ttl_s \<and> 0 < ttl_s
     \<and> 1 \<le> rl_epoch l \<and> lease_held l t'"
proof (cases "select_one lr_key k t")
  case None
  with assms show ?thesis
    by (auto simp: acquire_def acquire_read_def acquire_write_def Let_def lease_held_def held_by_def
          select_one_append split: if_splits)
next
  case (Some row)
  have "1 \<le> lr_epoch row" "lr_key row = k"
    using assms(1) select_one_SomeD[OF Some] by (auto simp: leases_inv_def list_all_iff)
  with Some assms(2) show ?thesis
    by (auto simp: acquire_def acquire_read_def acquire_write_def Let_def lease_held_def held_by_def
          select_one_upd_where split: if_splits)
qed

text \<open>One repair worker. When calls are atomic and a worker has been granted a lease, then
  through any calls of other owners made before the lease expires the row still carries exactly this
  lease, and every further attempt of another owner to take the key before the expiry is refused.\<close>

theorem repair_lease_exclusive:
  assumes "reach (\<lambda>t. t = []) lease_step t" and "acquire k owner ttl_s metadata now t = (Inr (Some l), t1)"
    and "(rival_step l)\<^sup>*\<^sup>* t1 t2" and "owner' \<noteq> owner" and "now' < now + ttl_s" and "0 < ttl'"
  shows "lease_held l t2 \<and> acquire k owner' ttl' metadata' now' t2 = (Inr None, t2)"
proof -
  have inv: "leases_inv t" using leases.reach_inv[OF assms(1)] .
  note g = acquire_granted[OF inv assms(2)]
  have "leases_inv t2 \<and> lease_held l t2"
    using assms(3)
  proof (induction rule: rtranclp_induct)
    case base
    then show ?case using g acquire_inv[OF inv assms(2)] by blast
  next
    case (step y z)
    then show ?case using rival_step_holds leases.step_inv rival_step_lease_step by blast
  qed
  then show ?thesis using rival_acquire_refused[of l t2 owner' now' ttl'] g assms(4-6) by auto
qed

text \<open>A release removes nothing but the lease it names. It reports true exactly when the row
  still carries that owner and epoch, it then removes this row, and otherwise it changes nothing; a
  worker whose lease was taken over cannot release its successor's.\<close>

theorem release_only_own:
  assumes "reach (\<lambda>t. t = []) lease_step t"
  shows "release l t = (if (\<exists>r\<in>set t. held_by l r)
           then (True, filter (\<lambda>r. lr_key r \<noteq> rl_key l) t) else (False, t))"
proof -
  have pk: "primary_key lr_key t" using leases.reach_inv[OF assms] by (simp add: leases_inv_def)
  have rc: "rowcount (held_by l) t = 1 \<longleftrightarrow> (\<exists>r. select_one lr_key (rl_key l) t = Some r \<and> held_by l r)"
    using pk by (rule rowcount_one_iff) (simp add: held_by_def)
  show ?thesis
  proof (cases "\<exists>r\<in>set t. held_by l r")
    case True
    then obtain r where r: "r \<in> set t" "held_by l r" by blast
    have same: "held_by l r' \<longleftrightarrow> lr_key r' = rl_key l" if "r' \<in> set t" for r'
      using select_one_in[OF pk that] select_one_in[OF pk r(1)] r(2) by (auto simp: held_by_def)
    have "select_one lr_key (rl_key l) t = Some r" using select_one_in[OF pk r(1)] r(2) by (simp add: held_by_def)
    with r rc have "rowcount (held_by l) t = 1" by blast
    moreover have "delete_where (held_by l) t = filter (\<lambda>r. lr_key r \<noteq> rl_key l) t"
      unfolding delete_where_def using same by (intro filter_cong) auto
    ultimately show ?thesis using True by (simp add: release_def)
  next
    case False
    then have "rowcount (held_by l) t = 0" by (auto simp: rowcount_def filter_empty_conv)
    moreover have "delete_where (held_by l) t = t" using False by (auto simp: delete_where_def filter_id_conv)
    ultimately show ?thesis using False by (simp add: release_def)
  qed
qed

section \<open>Interleaved statements\<close>

definition expired_table :: "lease_row list" where
  "expired_table = [\<lparr>lr_key = ''k'', lr_owner = ''old'', lr_epoch = 4, lr_expires_at = 10, lr_metadata = JObj []\<rparr>]"

text \<open>Acquisition is not a compare-and-swap. Two workers that both read an expired lease before
  either of them writes are both granted the key, under the same lease epoch, one second apart and with
  both leases alive: the update is keyed by the lease key alone.\<close>

theorem acquire_not_compare_and_swap:
  "\<exists>t t1 t2 la lb. t = expired_table
     \<and> acquire_write (acquire_read ''k'' t) ''k'' ''a'' 30 None 20 t = (Inr (Some la), t1)
     \<and> acquire_write (acquire_read ''k'' t) ''k'' ''b'' 30 None 21 t1 = (Inr (Some lb), t2)
     \<and> rl_owner la \<noteq> rl_owner lb \<and> rl_epoch la = rl_epoch lb
     \<and> 21 < rl_expires_at la \<and> 21 < rl_expires_at lb \<and> lease_held lb t2 \<and> \<not> lease_held la t2"
  by (simp add: expired_table_def acquire_read_def acquire_write_def Let_def upd_where_def lease_held_def held_by_def)

definition demo_lease :: repair_lease where
  "demo_lease = \<lparr>rl_key = ''k'', rl_owner = ''a'', rl_epoch = 1, rl_expires_at = 30\<rparr>"

definition demo_lease_row :: lease_row where
  "demo_lease_row = \<lparr>lr_key = ''k'', lr_owner = ''a'', lr_epoch = 1, lr_expires_at = 30, lr_metadata = JObj []\<rparr>"

lemma demo_acquire: "acquire ''k'' ''a'' 30 None 0 [] = (Inr (Some demo_lease), [demo_lease_row])"
  by (simp add: acquire_def acquire_read_def acquire_write_def Let_def demo_lease_def demo_lease_row_def metadata_json_def)

lemma reach_lease_empty: "reach (\<lambda>t. t = []) lease_step []"
  by (rule reach_init) simp

theorem repair_lease_exclusive_witness:
  "acquire ''k'' ''b'' 30 None 29 [demo_lease_row] = (Inr None, [demo_lease_row])"
  using repair_lease_exclusive[OF reach_lease_empty demo_acquire rtranclp.rtrancl_refl, of "''b''" 29 30 None] by simp

theorem release_only_own_witness: "release demo_lease [demo_lease_row] = (True, [])"
proof -
  have "reach (\<lambda>t. t = []) lease_step [demo_lease_row]"
    using reach_lease_empty ls_acquire[OF demo_acquire] by (rule reach_step)
  from release_only_own[OF this, of demo_lease] show ?thesis
    by (simp add: held_by_def demo_lease_def demo_lease_row_def)
qed

end
