(* ===== verification/Revocation.thy ===== *)
theory Revocation
  imports Cells
begin

text \<open>
  The contract between the Cell store and what hangs on an epoch. \<open>CellStore\<close> is given a callback
  \<open>on_authority_revoked(cell, epoch, reason)\<close>; the locale states what the store relies on, that the
  callback ends every live authority of that Cell and epoch and creates none, and derives what the
  store then guarantees: after any successful advance of the epoch nothing lives under the old one,
  and authority lives only under the current epoch.
\<close>

text \<open>Authority lives only under the current epoch of its Cell.\<close>

definition only_current :: "(string \<Rightarrow> int \<Rightarrow> 'w \<Rightarrow> bool) \<Rightarrow> cell_store \<Rightarrow> 'w \<Rightarrow> bool" where
  "only_current live s w = (\<forall>c e. live c e w \<longrightarrow> epoch_of c s = Some e)"

text \<open>What an operation may do to the world of the callback: nothing, or one call of it.\<close>

definition revoker_effect :: "'w revoker option \<Rightarrow> 'w \<Rightarrow> 'w \<Rightarrow> bool" where
  "revoker_effect rv w w' = (w' = w \<or> (\<exists>c e reason. w' = call_revoker rv c e reason w))"

lemma activate_effect: "activate rv i actor now (s, w) = (res, s', w') \<Longrightarrow> revoker_effect rv w w'"
  by (auto simp: activate_def Let_def revoker_effect_def split: option.splits if_splits sum.splits)

lemma take_epoch_effect: "take_epoch rv c e actor now (s, w) = (res, s', w') \<Longrightarrow> revoker_effect rv w w'"
  by (auto simp: take_epoch_def Let_def revoker_effect_def split: option.splits if_splits sum.splits)

lemma patch_effect: "patch rv c e k fs now (s, w) = (res, s', w') \<Longrightarrow> revoker_effect rv w w'"
  by (auto simp: patch_def Let_def revoker_effect_def split: option.splits if_splits sum.splits)

lemma no_effect [simp]: "revoker_effect rv w w"
  by (simp add: revoker_effect_def)

lemma ensure_effect: "ensure rv i fs now (s, w) = (res, s', w') \<Longrightarrow> revoker_effect rv w w'"
  by (auto simp: ensure_def Let_def dest!: patch_effect
      split: option.splits if_splits sum.splits prod.splits)

lemmas world_effects = activate_effect take_epoch_effect patch_effect ensure_effect

lemma epoch_of_upd_other:
  assumes "\<And>r. p r \<Longrightarrow> cell_id r = cid \<and> cell_id (f r) = cell_id r" and "c \<noteq> cid"
  shows "epoch_of c (s\<lparr>cs_cells := upd_where p f (cs_cells s)\<rparr>) = epoch_of c s"
proof -
  have "select_one cell_id c (upd_where p f (cs_cells s)) = select_one cell_id c (cs_cells s)"
    using assms by (induction "cs_cells s" arbitrary: s rule: list.induct)
      (force simp: select_one_upd_where map_option_case dest: select_one_SomeD split: option.splits)+
  then show ?thesis by (simp add: epoch_of_def get_cell_def)
qed

locale authority_revoker =
  fixes revoker :: "'w revoker" and live :: "string \<Rightarrow> int \<Rightarrow> 'w \<Rightarrow> bool"
  assumes revokes: "\<not> live c e (revoker c e reason w)"
    and creates_none: "live c' e' (revoker c e reason w) \<Longrightarrow> live c' e' w"
begin

lemma call_creates_none: "live c' e' (call_revoker (Some revoker) c e reason w) \<Longrightarrow> live c' e' w"
  unfolding call_revoker_def option.case by (rule creates_none)

lemma take_epoch_revokes:
  assumes "take_epoch (Some revoker) c e actor now (s, w) = (Inr n, s', w')"
  shows "\<not> live c e w' \<and> n = e + 1"
  using assms by (cases rule: take_epoch_cases) (auto simp: call_revoker_def revokes)

lemma activate_revokes:
  assumes "activate (Some revoker) i actor now (s, w) = (Inr r, s', w')"
    and "get_cell (stable_id i) s = Some r0" and "cell_epoch r \<noteq> cell_epoch r0"
  shows "\<not> live (stable_id i) (cell_epoch r0) w'"
  using assms(1)
proof (cases rule: activate_cases)
  case (ok current n s1 s2 r1)
  have "insert_identity i now s = s" using assms(2) by (rule insert_identity_present)
  then have cur: "current = r0" using ok(1) assms(2) by simp
  have "cell_epoch r = n"
    using append_event_Inr(2)[OF ok(4)] ok(4,5,6) epoch_of_append_event[OF ok(4), of "stable_id i"]
    by (auto simp: epoch_of_def)
  with cur assms(3) ok show ?thesis by (simp add: call_revoker_def revokes)
qed simp

lemma effect_creates_none: "revoker_effect (Some revoker) w w' \<Longrightarrow> live c e w' \<Longrightarrow> live c e w"
  unfolding revoker_effect_def using call_creates_none by blast

lemma only_current_effect:
  assumes "only_current live s w" and "revoker_effect (Some revoker) w w'"
    and "\<And>c e. live c e w' \<Longrightarrow> epoch_of c s = Some e \<Longrightarrow> epoch_of c s' = Some e"
  shows "only_current live s' w'"
  using assms effect_creates_none unfolding only_current_def by blast

lemma activate_only_current:
  assumes "activate (Some revoker) i actor now (s, w) = (res, s', w')" and "only_current live s w"
  shows "only_current live s' w'"
proof (rule only_current_effect[OF assms(2) activate_effect[OF assms(1)]])
  fix c e assume l: "live c e w'" and cur: "epoch_of c s = Some e"
  from assms(1) show "epoch_of c s' = Some e"
  proof (cases rule: activate_cases)
    case (ok current n s1 s2 r)
    let ?s = "insert_identity i now s"
    have cur': "epoch_of c ?s = Some e" using cur by (rule epoch_of_insert_identity)
    have s': "epoch_of c s' = epoch_of c s1" using ok(4,7) by simp
    show ?thesis
    proof (cases "c = stable_id i")
      case True
      then have e: "e = cell_epoch current" using cur' ok(1) by (simp add: epoch_of_def)
      have n: "n = cell_epoch current"
        using l ok(8) True e by (auto simp: call_revoker_def revokes split: if_splits)
      have "epoch_of c s1 = epoch_of c ?s"
        unfolding ok(3) by (rule epoch_of_same_upd) (simp add: activate_row_def n)
      with s' cur' show ?thesis by simp
    next
      case False
      have "epoch_of c s1 = epoch_of c ?s"
        unfolding ok(3) using False by (intro epoch_of_upd_other[where cid = "stable_id i"]) (auto simp: activate_row_def)
      with s' cur' show ?thesis by simp
    qed
  qed (simp add: cur)
qed

lemma take_epoch_only_current:
  assumes "take_epoch (Some revoker) c0 e0 actor now (s, w) = (res, s', w')" and "only_current live s w"
  shows "only_current live s' w'"
proof (rule only_current_effect[OF assms(2) take_epoch_effect[OF assms(1)]])
  fix c e assume l: "live c e w'" and cur: "epoch_of c s = Some e"
  from assms(1) show "epoch_of c s' = Some e"
  proof (cases rule: take_epoch_cases)
    case (ok s1)
    have s': "epoch_of c s' = epoch_of c s1" using ok(3) by simp
    have "c \<noteq> c0 \<or> e \<noteq> e0" using l ok(5) by (auto simp: call_revoker_def revokes)
    then have "epoch_of c s1 = epoch_of c s"
    proof
      assume "c \<noteq> c0"
      then show ?thesis unfolding ok(2) by (intro epoch_of_upd_other[where cid = c0]) auto
    next
      assume ne: "e \<noteq> e0"
      show ?thesis
      proof (cases "c = c0")
        case True
        then obtain r where "get_cell c0 s = Some r" "cell_epoch r = e"
          using cur by (auto simp: epoch_of_def)
        then show ?thesis using ne True unfolding ok(2)
          by (auto simp: epoch_of_def get_cell_def select_one_upd_where)
      next
        case False
        then show ?thesis unfolding ok(2) by (intro epoch_of_upd_other[where cid = c0]) auto
      qed
    qed
    with s' cur show ?thesis by simp
  qed (simp add: cur)
qed

lemma patch_only_current:
  assumes "patch (Some revoker) c0 e0 k fs now (s, w) = (res, s', w')" and "only_current live s w"
  shows "only_current live s' w'"
proof (rule only_current_effect[OF assms(2) patch_effect[OF assms(1)]])
  fix c e assume cur: "epoch_of c s = Some e"
  from assms(1) show "epoch_of c s' = Some e"
  proof (cases rule: patch_cases)
    case (ok s1)
    have "epoch_of c (s1\<lparr>cs_cells := upd_where (\<lambda>r. cell_id r = c0 \<and> cell_epoch r = e0)
        (\<lambda>r. (fold apply_field fs r)\<lparr>cell_updated_at := now\<rparr>) (cs_cells s1)\<rparr>) = epoch_of c s1"
      by (rule epoch_of_same_upd) simp
    with ok(3,4) cur show ?thesis by simp
  qed (simp add: cur)
qed

lemma insert_only_current: "only_current live s w \<Longrightarrow> only_current live (insert_identity i now s) w"
  unfolding only_current_def using epoch_of_insert_identity by blast

lemma ensure_only_current:
  assumes "ensure (Some revoker) i fs now (s, w) = (res, s', w')" and oc: "only_current live s w"
  shows "only_current live s' w'"
proof (cases "fs = []")
  case True
  with assms insert_only_current[OF oc] show ?thesis by (auto simp: ensure_def Let_def split: option.splits)
next
  case False
  obtain res1 s1 w1 where p: "patch (Some revoker) (stable_id i) 1 ''ensure:init'' fs now (insert_identity i now s, w)
      = (res1, s1, w1)" by (metis prod_cases3)
  have "only_current live s1 w1" using patch_only_current[OF p insert_only_current[OF oc]] .
  moreover have "only_current live s w1"
    using only_current_effect[OF oc patch_effect[OF p]] by blast
  ultimately show ?thesis
    using assms(1) False p by (cases res1) (auto simp: ensure_def Let_def split: option.splits)
qed

lemma record_only_current:
  "record_mutation m now s = (res, s') \<Longrightarrow> only_current live s w \<Longrightarrow> only_current live s' w"
  unfolding record_mutation_def only_current_def by (auto split: sum.splits)

lemma cell_step_only_current:
  "cell_step (Some revoker) (s, w) (s', w') \<Longrightarrow> only_current live s w \<Longrightarrow> only_current live s' w'"
  unfolding cell_step_iff
  by (elim disjE exE conjE)
     (auto dest: ensure_only_current activate_only_current take_epoch_only_current patch_only_current record_only_current)

lemma patch_terminal_revokes:
  assumes "patch (Some revoker) c e k fs now (s, w) = (Inr r, s', w')"
    and "new_state fs = Some st" and "st \<in> set TERMINAL_STATES"
  shows "\<not> live c e w'"
  using assms by (cases rule: patch_cases) (auto simp: call_revoker_def revokes)

end

end
