(* ===== verification/CredentialLease.thy ===== *)
theory CredentialLease
  imports Revocation
begin

text \<open>
  The credential broker of \<open>src/swfactory/credential_lease.py\<close>, and the one-shot use of it,
  \<open>leased\<close> of \<open>src/swfactory/backend/service.py\<close>.

  \<^item> \<open>lease_binding\<close> with its validation, canonical document and digest; \<open>cred_row\<close> and \<open>lease_denial\<close>
    are the rows of the two tables, \<open>broker\<close> the database.
  \<^item> \<open>mint\<close>, \<open>redeem\<close>, \<open>revoke\<close>, \<open>revoke_epoch\<close>, \<open>revoke_prior_attempts\<close> and \<open>deny\<close> are the operations. The
    random lease id and bearer are arguments, the providers and the epoch reader parameters. The
    secondary callback \<open>on_denial\<close> acts outside the database and its failures are suppressed; it is
    left out.
  \<^item> A denial commits its row and everything the transaction wrote before it; any other exception
    rolls the transaction back.
  \<^item> \<open>revoke_epoch\<close> is the callback the backend gives the Cell store: it interprets the contract of
    \<open>Revocation\<close>, which gives that a fence advance leaves no live lease behind.
\<close>

section \<open>Bindings\<close>

definition LEASE_SCHEMA_VERSION :: int where
  "LEASE_SCHEMA_VERSION = 1"

definition MIN_NONCE_LEN :: nat where
  "MIN_NONCE_LEN = 16"

definition WILDCARD_CAPABILITIES :: "string list" where
  "WILDCARD_CAPABILITIES = [''*'', ''all'', ''any'', ''github'']"

record lease_binding =
  lb_factory_run :: string
  lb_dag_run :: string
  lb_task_instance :: string
  lb_stage :: string
  lb_sandbox :: string
  lb_attempt :: int
  lb_cell :: string
  lb_epoch :: int
  lb_operation_key :: string
  lb_policy_digest :: string

definition binding_strings :: "lease_binding \<Rightarrow> string list" where
  "binding_strings b = [lb_factory_run b, lb_dag_run b, lb_task_instance b, lb_stage b, lb_sandbox b,
     lb_operation_key b, lb_policy_digest b]"

definition binding_valid :: "lease_binding \<Rightarrow> bool" where
  "binding_valid b =
     (list_all (\<lambda>v. py_strip v \<noteq> [] \<and> length v \<le> 512) (binding_strings b)
      \<and> is_cell_id (lb_cell b)
      \<and> 1 \<le> lb_epoch b \<and> lb_epoch b \<le> 2 ^ 64 - 1
      \<and> 1 \<le> lb_attempt b \<and> lb_attempt b \<le> 2 ^ 64 - 1
      \<and> startswith (lb_policy_digest b) ''policy:'')"

definition binding_dict :: "lease_binding \<Rightarrow> json" where
  "binding_dict b = JObj
     [(''factory_run_id'', JStr (lb_factory_run b)), (''dag_run_id'', JStr (lb_dag_run b)),
      (''task_instance_id'', JStr (lb_task_instance b)), (''stage_id'', JStr (lb_stage b)),
      (''sandbox_id'', JStr (lb_sandbox b)), (''attempt_number'', JInt (lb_attempt b)),
      (''cell_id'', JStr (lb_cell b)), (''epoch'', JInt (lb_epoch b)),
      (''operation_key'', JStr (lb_operation_key b)), (''policy_digest'', JStr (lb_policy_digest b))]"

text \<open>The document has no float, so the text of floats plays no part in the digest.\<close>

definition binding_digest :: "lease_binding \<Rightarrow> string" where
  "binding_digest b = ''lease-binding:'' @ sha256_hex (jdumps False (\<lambda>r. []) (jcanon (binding_dict b)))"

definition BINDING_FIELDS :: "string list" where
  "BINDING_FIELDS = [''factory_run_id'', ''dag_run_id'', ''task_instance_id'', ''stage_id'', ''sandbox_id'',
     ''attempt_number'', ''cell_id'', ''epoch'', ''operation_key'', ''policy_digest'']"

datatype lease_error =
    LeaseDenied string
  | LeaseRefused string
  | LeaseValueError
  | LeaseKeyError
  | LeaseIntegrity
  | LeaseProviderRaised string

text \<open>\<open>from_untrusted\<close>: \<open>rep\<close> is \<open>str\<close> on a decoded value that is no string. An integer field must hold
  an integer, a boolean is none.\<close>

definition raw_str :: "(json \<Rightarrow> string) \<Rightarrow> json \<Rightarrow> string" where
  "raw_str rep v = (case v of JStr s \<Rightarrow> s | _ \<Rightarrow> rep v)"

definition raw_int :: "json \<Rightarrow> int option" where
  "raw_int v = (case v of JInt i \<Rightarrow> Some i | _ \<Rightarrow> None)"

definition from_untrusted :: "(json \<Rightarrow> string) \<Rightarrow> (string \<times> json) list \<Rightarrow> lease_error + lease_binding" where
  "from_untrusted rep raw =
     (if list_ex (\<lambda>kv. fst kv \<notin> set BINDING_FIELDS) raw then Inl (LeaseRefused ''unsupported fields'')
      else if list_ex (\<lambda>f. map_of raw f = None) BINDING_FIELDS then Inl (LeaseRefused ''invalid untrusted lease binding'')
      else
        let s = (\<lambda>f. raw_str rep (the (map_of raw f))); n = (\<lambda>f. raw_int (the (map_of raw f))) in
        case (n ''attempt_number'', n ''epoch'') of
          (Some a, Some e) \<Rightarrow>
            let b = \<lparr>lb_factory_run = s ''factory_run_id'', lb_dag_run = s ''dag_run_id'',
                      lb_task_instance = s ''task_instance_id'', lb_stage = s ''stage_id'',
                      lb_sandbox = s ''sandbox_id'', lb_attempt = a, lb_cell = s ''cell_id'', lb_epoch = e,
                      lb_operation_key = s ''operation_key'', lb_policy_digest = s ''policy_digest''\<rparr>
            in if binding_valid b then Inr b else Inl LeaseValueError
        | _ \<Rightarrow> Inl LeaseValueError)"

section \<open>The broker\<close>

record lease_handle =
  lh_id :: string
  lh_bearer :: string

record cred_row =
  cl_id :: string
  cl_schema_version :: int
  cl_secret_hash :: string
  cl_capability :: string
  cl_purpose :: string
  cl_binding :: json
  cl_binding_digest :: string
  cl_expires_at :: time
  cl_process_hash :: "string option"
  cl_revoked_at :: "time option"
  cl_revoke_reason :: "string option"
  cl_created_at :: time
  cl_cell :: string
  cl_epoch :: int
  cl_attempt :: int

record lease_denial =
  ld_seq :: nat
  ld_lease :: string
  ld_reason :: string
  ld_binding_digest :: "string option"
  ld_capability :: "string option"
  ld_purpose :: "string option"
  ld_factory_run :: "string option"
  ld_cell :: "string option"
  ld_epoch :: "int option"
  ld_attempt :: "int option"
  ld_created_at :: time

record broker =
  br_leases :: "cred_row list"
  br_denials :: "lease_denial list"
  br_seq :: nat

definition empty_broker :: broker where
  "empty_broker = \<lparr>br_leases = [], br_denials = [], br_seq = 0\<rparr>"

type_synonym credential_provider = "lease_binding \<Rightarrow> string + json"
type_synonym providers = "string \<Rightarrow> credential_provider option"
type_synonym epoch_reader = "string \<Rightarrow> int option"

definition hash_secret :: "string \<Rightarrow> string" where
  "hash_secret v = sha256_hex v"

definition get_lease :: "string \<Rightarrow> broker \<Rightarrow> cred_row option" where
  "get_lease k b = select_one cl_id k (br_leases b)"

text \<open>The epoch reader, when configured, raises for an unknown Cell.\<close>

definition read_epoch :: "epoch_reader option \<Rightarrow> string \<Rightarrow> lease_error + int option" where
  "read_epoch er c = (case er of None \<Rightarrow> Inr None
     | Some f \<Rightarrow> (case f c of None \<Rightarrow> Inl LeaseKeyError | Some e \<Rightarrow> Inr (Some e)))"

definition new_lease :: "lease_binding \<Rightarrow> string \<Rightarrow> string \<Rightarrow> real \<Rightarrow> time \<Rightarrow> lease_handle \<Rightarrow> cred_row" where
  "new_lease bd capability purpose ttl_s clock h =
     \<lparr>cl_id = lh_id h, cl_schema_version = LEASE_SCHEMA_VERSION, cl_secret_hash = hash_secret (lh_bearer h),
      cl_capability = capability, cl_purpose = purpose, cl_binding = jcanon (binding_dict bd),
      cl_binding_digest = binding_digest bd, cl_expires_at = clock + ttl_s, cl_process_hash = None,
      cl_revoked_at = None, cl_revoke_reason = None, cl_created_at = clock, cl_cell = lb_cell bd,
      cl_epoch = lb_epoch bd, cl_attempt = lb_attempt bd\<rparr>"

text \<open>\<open>mint\<close> checks its arguments and reads the Cell's epoch from the Cell store, and then inserts the lease
  in the broker's own database: two steps with no common transaction.\<close>

definition mint_check ::
  "providers \<Rightarrow> epoch_reader option \<Rightarrow> lease_binding \<Rightarrow> string \<Rightarrow> string \<Rightarrow> real \<Rightarrow> lease_error + string \<times> string" where
  "mint_check pv er bd capability0 purpose0 ttl_s =
     (let capability = py_strip capability0; purpose = py_strip purpose0 in
      if \<not> binding_valid bd then Inl LeaseValueError
      else if casefold capability \<in> set WILDCARD_CAPABILITIES \<or> CHR ''.'' \<notin> set capability then
        Inl (LeaseRefused ''credential capability must be explicit and deny-by-default'')
      else if pv capability = None then Inl (LeaseRefused ''no trusted provider'')
      else if purpose = [] \<or> length purpose > 128 then Inl LeaseValueError
      else if ttl_s \<le> 0 \<or> ttl_s > 3600 then Inl LeaseValueError
      else case read_epoch er (lb_cell bd) of
        Inl e \<Rightarrow> Inl e
      | Inr cur \<Rightarrow>
          if cur \<noteq> None \<and> cur \<noteq> Some (lb_epoch bd) then
            Inl (LeaseRefused ''cannot mint a credential lease for a stale Cell epoch'')
          else Inr (capability, purpose))"

definition mint_insert ::
  "lease_binding \<Rightarrow> string \<Rightarrow> string \<Rightarrow> real \<Rightarrow> time \<Rightarrow> string \<Rightarrow> string \<Rightarrow> broker \<Rightarrow> (lease_error + lease_handle) \<times> broker" where
  "mint_insert bd capability purpose ttl_s clock token_id token_bearer b =
     (let h = \<lparr>lh_id = ''lease_'' @ token_id, lh_bearer = ''swfl_'' @ token_bearer\<rparr> in
      if get_lease (lh_id h) b \<noteq> None then (Inl LeaseIntegrity, b)
      else (Inr h, b\<lparr>br_leases := br_leases b @ [new_lease bd capability purpose ttl_s clock h]\<rparr>))"

definition mint ::
  "providers \<Rightarrow> epoch_reader option \<Rightarrow> lease_binding \<Rightarrow> string \<Rightarrow> string \<Rightarrow> real \<Rightarrow> time \<Rightarrow> string \<Rightarrow> string \<Rightarrow> broker
     \<Rightarrow> (lease_error + lease_handle) \<times> broker" where
  "mint pv er bd capability0 purpose0 ttl_s clock token_id token_bearer b =
     (case mint_check pv er bd capability0 purpose0 ttl_s of
        Inl e \<Rightarrow> (Inl e, b)
      | Inr (capability, purpose) \<Rightarrow> mint_insert bd capability purpose ttl_s clock token_id token_bearer b)"

lemmas mint_unfold = mint_def mint_check_def mint_insert_def

definition deny :: "string \<Rightarrow> string \<Rightarrow> lease_binding \<Rightarrow> cred_row option \<Rightarrow> time \<Rightarrow> broker \<Rightarrow> (lease_error + 'a) \<times> broker" where
  "deny k reason bd row now b =
     (Inl (LeaseDenied reason),
      b\<lparr>br_denials := br_denials b @
          [\<lparr>ld_seq = Suc (br_seq b), ld_lease = k, ld_reason = reason, ld_binding_digest = Some (binding_digest bd),
            ld_capability = map_option cl_capability row, ld_purpose = map_option cl_purpose row,
            ld_factory_run = Some (lb_factory_run bd), ld_cell = Some (lb_cell bd),
            ld_epoch = Some (lb_epoch bd), ld_attempt = Some (lb_attempt bd), ld_created_at = now\<rparr>],
        br_seq := Suc (br_seq b)\<rparr>)"

definition bind_process :: "string \<Rightarrow> string \<Rightarrow> broker \<Rightarrow> broker" where
  "bind_process k hsh b =
     b\<lparr>br_leases := upd_where (\<lambda>r. cl_id r = k \<and> cl_process_hash r = None)
        (\<lambda>r. r\<lparr>cl_process_hash := Some hsh\<rparr>) (br_leases b)\<rparr>"

text \<open>The tail of \<open>redeem\<close>: the process binding, the provider, the credential.\<close>

definition redeem_bound ::
  "providers \<Rightarrow> lease_handle \<Rightarrow> lease_binding \<Rightarrow> string \<Rightarrow> time \<Rightarrow> cred_row \<Rightarrow> broker
     \<Rightarrow> (lease_error + string) \<times> broker" where
  "redeem_bound pv h bd nonce clock row0 b0 =
     (let process_hash = hash_secret nonce;
          b = (if cl_process_hash row0 = None then bind_process (lh_id h) process_hash b0 else b0);
          row = (if cl_process_hash row0 = None then get_lease (lh_id h) b else Some row0) in
      case row of
        None \<Rightarrow> deny (lh_id h) ''process_mismatch'' bd None clock b
      | Some r \<Rightarrow>
          if cl_process_hash r \<noteq> Some process_hash then deny (lh_id h) ''process_mismatch'' bd (Some r) clock b
          else (case pv (cl_capability r) of
                  None \<Rightarrow> deny (lh_id h) ''provider_unavailable'' bd (Some r) clock b
                | Some f \<Rightarrow>
                    (case f bd of
                       Inl err \<Rightarrow> (Inl (LeaseProviderRaised err), b0)
                     | Inr v \<Rightarrow>
                         (case v of
                            JStr s \<Rightarrow> if s = [] then (Inl (LeaseRefused ''returned no credential''), b0) else (Inr s, b)
                          | _ \<Rightarrow> (Inl (LeaseRefused ''returned no credential''), b0)))))"

definition redeem ::
  "providers \<Rightarrow> epoch_reader option \<Rightarrow> lease_handle \<Rightarrow> lease_binding \<Rightarrow> string \<Rightarrow> time \<Rightarrow> broker
     \<Rightarrow> (lease_error + string) \<times> broker" where
  "redeem pv er h bd nonce clock b =
     (if \<not> binding_valid bd then (Inl LeaseValueError, b)
      else if length nonce < MIN_NONCE_LEN then (Inl LeaseValueError, b)
      else case read_epoch er (lb_cell bd) of
        Inl e \<Rightarrow> (Inl e, b)
      | Inr cur \<Rightarrow>
          (case get_lease (lh_id h) b of
             None \<Rightarrow> deny (lh_id h) ''unknown_lease'' bd None clock b
           | Some row \<Rightarrow>
               if cl_secret_hash row \<noteq> hash_secret (lh_bearer h) then deny (lh_id h) ''invalid_bearer'' bd (Some row) clock b
               else if cl_revoked_at row \<noteq> None then deny (lh_id h) ''revoked'' bd (Some row) clock b
               else if cl_expires_at row \<le> clock then deny (lh_id h) ''expired'' bd (Some row) clock b
               else if cl_binding_digest row \<noteq> binding_digest bd then deny (lh_id h) ''binding_mismatch'' bd (Some row) clock b
               else if cur \<noteq> None \<and> cur \<noteq> Some (lb_epoch bd) then deny (lh_id h) ''stale_epoch'' bd (Some row) clock b
               else redeem_bound pv h bd nonce clock row b))"

definition revoke_where :: "(cred_row \<Rightarrow> bool) \<Rightarrow> string \<Rightarrow> time \<Rightarrow> broker \<Rightarrow> nat \<times> broker" where
  "revoke_where p reason clock b =
     (let hit = (\<lambda>r. p r \<and> cl_revoked_at r = None) in
      (rowcount hit (br_leases b),
       b\<lparr>br_leases := upd_where hit (\<lambda>r. r\<lparr>cl_revoked_at := Some clock, cl_revoke_reason := Some reason\<rparr>)
            (br_leases b)\<rparr>))"

definition revoke :: "string \<Rightarrow> string \<Rightarrow> time \<Rightarrow> broker \<Rightarrow> bool \<times> broker" where
  "revoke k reason clock b = (case revoke_where (\<lambda>r. cl_id r = k) reason clock b of (n, b') \<Rightarrow> (n \<noteq> 0, b'))"

definition revoke_epoch :: "string \<Rightarrow> int \<Rightarrow> string \<Rightarrow> time \<Rightarrow> broker \<Rightarrow> nat \<times> broker" where
  "revoke_epoch c e reason clock b = revoke_where (\<lambda>r. cl_cell r = c \<and> cl_epoch r = e) reason clock b"

definition revoke_prior_attempts ::
  "string \<Rightarrow> int \<Rightarrow> int \<Rightarrow> string \<Rightarrow> time \<Rightarrow> broker \<Rightarrow> (lease_error + nat) \<times> broker" where
  "revoke_prior_attempts c e attempt reason clock b =
     (if attempt < 1 then (Inl LeaseValueError, b)
      else case revoke_where (\<lambda>r. cl_cell r = c \<and> cl_epoch r = e \<and> cl_attempt r < attempt) reason clock b of
        (n, b') \<Rightarrow> (Inr n, b'))"

definition denials :: "int \<Rightarrow> broker \<Rightarrow> lease_denial list" where
  "denials limit b = take (nat (max 1 (min limit 1000))) (rev (br_denials b))"

definition inspect :: "string \<Rightarrow> broker \<Rightarrow> lease_error + (cred_row \<times> bool)" where
  "inspect k b = (case get_lease k b of
     None \<Rightarrow> Inl LeaseKeyError
   | Some r \<Rightarrow> Inr (r\<lparr>cl_secret_hash := [], cl_process_hash := None, cl_binding := JNull\<rparr>, cl_process_hash r \<noteq> None))"

text \<open>\<open>leased\<close>: revoke the earlier attempts, mint, redeem, run the body with the credential, revoke.
  The body is the caller's; its outcome is returned after the lease has been revoked.\<close>

definition leased ::
  "providers \<Rightarrow> epoch_reader option \<Rightarrow> lease_binding \<Rightarrow> string \<Rightarrow> string \<Rightarrow> real \<Rightarrow> string \<Rightarrow> (nat \<Rightarrow> time)
     \<Rightarrow> string \<Rightarrow> string \<Rightarrow> (string \<Rightarrow> broker \<Rightarrow> (lease_error + 'r) \<times> broker) \<Rightarrow> broker \<Rightarrow> (lease_error + 'r) \<times> broker" where
  "leased pv er bd capability purpose ttl_s nonce ck token_id token_bearer body b =
     (case revoke_prior_attempts (lb_cell bd) (lb_epoch bd) (lb_attempt bd) ''attempt_superseded'' (ck 0) b of
        (Inl e, b1) \<Rightarrow> (Inl e, b1)
      | (Inr _, b1) \<Rightarrow>
          (case mint pv er bd capability purpose ttl_s (ck 1) token_id token_bearer b1 of
             (Inl e, b2) \<Rightarrow> (Inl e, b2)
           | (Inr h, b2) \<Rightarrow>
               (case redeem pv er h bd nonce (ck 2) b2 of
                  (Inl e, b3) \<Rightarrow> (Inl e, snd (revoke (lh_id h) ''use_complete'' (ck 3) b3))
                | (Inr cred, b3) \<Rightarrow>
                    (case body cred b3 of (res, b4) \<Rightarrow> (res, snd (revoke (lh_id h) ''use_complete'' (ck 3) b4))))))"

section \<open>How the broker evolves\<close>

text \<open>What no operation changes of a lease: its identity, secret, capability, binding and expiry, the
  process it is bound to once bound, and its revocation once revoked.\<close>

definition lease_evolves :: "cred_row \<Rightarrow> cred_row \<Rightarrow> bool" where
  "lease_evolves r r' = (cl_id r' = cl_id r \<and> cl_secret_hash r' = cl_secret_hash r
     \<and> cl_capability r' = cl_capability r \<and> cl_binding_digest r' = cl_binding_digest r
     \<and> cl_expires_at r' = cl_expires_at r \<and> cl_cell r' = cl_cell r \<and> cl_epoch r' = cl_epoch r
     \<and> (cl_process_hash r \<noteq> None \<longrightarrow> cl_process_hash r' = cl_process_hash r)
     \<and> (cl_revoked_at r \<noteq> None \<longrightarrow> cl_revoked_at r' = cl_revoked_at r))"

definition broker_inv :: "broker \<Rightarrow> bool" where
  "broker_inv b = primary_key cl_id (br_leases b)"

definition broker_evolves :: "broker \<Rightarrow> broker \<Rightarrow> bool" where
  "broker_evolves b b' = (\<forall>k r. get_lease k b = Some r \<longrightarrow> (\<exists>r'. get_lease k b' = Some r' \<and> lease_evolves r r'))"

definition broker_ok :: "broker \<Rightarrow> broker \<Rightarrow> bool" where
  "broker_ok b b' = (broker_inv b' \<and> broker_evolves b b'
     \<and> (\<forall>r'\<in>set (br_leases b'). cl_revoked_at r' = None \<longrightarrow>
          (\<exists>r\<in>set (br_leases b). cl_revoked_at r = None \<and> cl_id r' = cl_id r \<and> cl_cell r' = cl_cell r \<and> cl_epoch r' = cl_epoch r)))"

lemma lease_evolves_refl [simp]: "lease_evolves r r"
  by (simp add: lease_evolves_def)

lemma lease_evolves_trans: "lease_evolves a b \<Longrightarrow> lease_evolves b c \<Longrightarrow> lease_evolves a c"
  unfolding lease_evolves_def by auto

lemma broker_evolves_refl [simp]: "broker_evolves b b"
  by (simp add: broker_evolves_def)

lemma broker_evolves_trans: "broker_evolves a b \<Longrightarrow> broker_evolves b c \<Longrightarrow> broker_evolves a c"
  unfolding broker_evolves_def by (meson lease_evolves_trans)

lemma broker_ok_refl: "broker_inv b \<Longrightarrow> broker_ok b b"
  by (auto simp: broker_ok_def)

lemma broker_ok_leases: "broker_inv b \<Longrightarrow> br_leases b' = br_leases b \<Longrightarrow> broker_ok b b'"
  by (auto simp: broker_ok_def broker_inv_def broker_evolves_def get_lease_def)

lemma broker_ok_trans:
  assumes "broker_ok a b" and "broker_ok b c"
  shows "broker_ok a c"
  unfolding broker_ok_def
proof (intro conjI ballI impI)
  show "broker_inv c" "broker_evolves a c"
    using assms by (auto simp: broker_ok_def intro: broker_evolves_trans)
  fix r' assume r': "r' \<in> set (br_leases c)" "cl_revoked_at r' = None"
  with assms(2) obtain r where r: "r \<in> set (br_leases b)" "cl_revoked_at r = None" "cl_id r' = cl_id r" "cl_cell r' = cl_cell r" "cl_epoch r' = cl_epoch r"
    unfolding broker_ok_def by meson
  with assms(1) show "\<exists>r\<in>set (br_leases a). cl_revoked_at r = None \<and> cl_id r' = cl_id r \<and> cl_cell r' = cl_cell r \<and> cl_epoch r' = cl_epoch r"
    unfolding broker_ok_def by simp
qed

lemma get_lease_upd:
  assumes "\<And>r. p r \<Longrightarrow> cl_id (f r) = cl_id r"
  shows "get_lease k (b\<lparr>br_leases := upd_where p f (br_leases b)\<rparr>)
           = map_option (\<lambda>r. if p r then f r else r) (get_lease k b)"
  using assms by (simp add: get_lease_def select_one_upd_where)

lemma broker_ok_update:
  assumes "broker_inv b" and "\<And>r. p r \<Longrightarrow> lease_evolves r (f r)"
    and "\<And>r. p r \<Longrightarrow> cl_revoked_at (f r) = None \<Longrightarrow> cl_revoked_at r = None"
  shows "broker_ok b (b\<lparr>br_leases := upd_where p f (br_leases b)\<rparr>)"
proof -
  have key: "\<And>r. p r \<Longrightarrow> cl_id (f r) = cl_id r" using assms(2) by (simp add: lease_evolves_def)
  have "primary_key cl_id (upd_where p f (br_leases b))"
    using key assms(1) by (intro primary_key_upd_where) (auto simp: broker_inv_def)
  moreover have "broker_evolves b (b\<lparr>br_leases := upd_where p f (br_leases b)\<rparr>)"
    unfolding broker_evolves_def using get_lease_upd[of p f, OF key] assms(2) by simp
  moreover have "\<exists>r\<in>set (br_leases b). cl_revoked_at r = None \<and> cl_id r' = cl_id r \<and> cl_cell r' = cl_cell r \<and> cl_epoch r' = cl_epoch r"
    if "r' \<in> set (upd_where p f (br_leases b))" "cl_revoked_at r' = None" for r'
    using upd_where_in[OF that(1)] that(2) assms(2,3) unfolding lease_evolves_def by blast
  ultimately show ?thesis by (simp add: broker_ok_def broker_inv_def)
qed

lemma revoke_where_ok: "broker_inv b \<Longrightarrow> revoke_where p reason clock b = (n, b') \<Longrightarrow> broker_ok b b'"
  unfolding revoke_where_def Let_def by (auto intro!: broker_ok_update simp: lease_evolves_def)

lemma bind_process_ok: "broker_inv b \<Longrightarrow> broker_ok b (bind_process k h b)"
  unfolding bind_process_def by (auto intro!: broker_ok_update simp: lease_evolves_def)

lemma deny_ok: "broker_ok b b1 \<Longrightarrow> deny k reason bd row now b1 = (res, b') \<Longrightarrow> broker_ok b b'"
proof -
  assume ok: "broker_ok b b1" and d: "deny k reason bd row now b1 = (res, b')"
  have "br_leases b' = br_leases b1" using d by (auto simp: deny_def)
  then have "broker_ok b1 b'" using ok by (intro broker_ok_leases) (simp add: broker_ok_def)
  with ok show "broker_ok b b'" by (rule broker_ok_trans)
qed

lemma deny_Inl [simp]: "deny k reason bd row now b \<noteq> (Inr v, b')"
  by (simp add: deny_def)

lemma redeem_bound_ok:
  assumes "broker_inv b" and "redeem_bound pv h bd nonce clock row b = (res, b')"
  shows "broker_ok b b'"
  using assms(2) deny_ok[OF broker_ok_refl[OF assms(1)]] deny_ok[OF bind_process_ok[OF assms(1)]]
    broker_ok_refl[OF assms(1)] bind_process_ok[OF assms(1)]
  unfolding redeem_bound_def Let_def
  by (auto split: option.splits if_splits sum.splits json.splits)

lemma redeem_ok: "broker_inv b \<Longrightarrow> redeem pv er h bd nonce clock b = (res, b') \<Longrightarrow> broker_ok b b'"
  unfolding redeem_def
  using deny_ok[OF broker_ok_refl, of b] redeem_bound_ok[of b] broker_ok_refl[of b]
  by (auto split: option.splits if_splits sum.splits)

lemma mint_Inr:
  assumes "mint pv er bd capability purpose ttl_s clock ti tb b = (Inr h, b')"
  shows "get_lease (lh_id h) b = None"
    and "b' = b\<lparr>br_leases := br_leases b @ [new_lease bd (py_strip capability) (py_strip purpose) ttl_s clock h]\<rparr>"
    and "\<And>f. er = Some f \<Longrightarrow> f (lb_cell bd) = Some (lb_epoch bd)"
    and "binding_valid bd" and "pv (py_strip capability) \<noteq> None" and "0 < ttl_s" and "ttl_s \<le> 3600"
  using assms unfolding mint_unfold read_epoch_def Let_def
  by (auto split: if_splits sum.splits option.splits)

lemma mint_Inl: "mint pv er bd capability purpose ttl_s clock ti tb b = (Inl e, b') \<Longrightarrow> b' = b"
  unfolding mint_unfold Let_def by (auto split: if_splits sum.splits)

lemma mint_evolves:
  assumes "broker_inv b" and "mint pv er bd capability purpose ttl_s clock ti tb b = (res, b')"
  shows "broker_inv b' \<and> broker_evolves b b'"
proof (cases res)
  case (Inl e)
  with assms mint_Inl show ?thesis by fastforce
next
  case (Inr h)
  note m = mint_Inr[OF assms(2)[unfolded Inr]]
  from m(1,2) assms(1) show ?thesis
    unfolding broker_inv_def broker_evolves_def get_lease_def
    by (auto simp: select_one_append new_lease_def intro!: primary_key_snoc)
qed

lemma revoke_ok: "broker_inv b \<Longrightarrow> revoke k reason clock b = (ok, b') \<Longrightarrow> broker_ok b b'"
  unfolding revoke_def by (auto intro: revoke_where_ok split: prod.splits)

lemma revoke_epoch_ok: "broker_inv b \<Longrightarrow> revoke_epoch c e reason clock b = (n, b') \<Longrightarrow> broker_ok b b'"
  unfolding revoke_epoch_def by (rule revoke_where_ok)

lemma revoke_prior_ok: "broker_inv b \<Longrightarrow> revoke_prior_attempts c e a reason clock b = (res, b') \<Longrightarrow> broker_ok b b'"
  unfolding revoke_prior_attempts_def by (auto intro: revoke_where_ok broker_ok_refl split: prod.splits if_splits)

lemmas broker_ops_ok = redeem_ok revoke_ok revoke_epoch_ok revoke_prior_ok

inductive broker_step :: "broker \<Rightarrow> broker \<Rightarrow> bool" where
  bs_mint: "mint pv er bd capability purpose ttl_s clock ti tb b = (res, b') \<Longrightarrow> broker_step b b'"
| bs_redeem: "redeem pv er h bd nonce clock b = (res', b') \<Longrightarrow> broker_step b b'"
| bs_revoke: "revoke k reason clock b = (ok, b') \<Longrightarrow> broker_step b b'"
| bs_revoke_epoch: "revoke_epoch c e reason clock b = (n, b') \<Longrightarrow> broker_step b b'"
| bs_revoke_prior: "revoke_prior_attempts c e a reason clock b = (res'', b') \<Longrightarrow> broker_step b b'"

lemma broker_step_evolves: "broker_step b b' \<Longrightarrow> broker_inv b \<Longrightarrow> broker_inv b' \<and> broker_evolves b b'"
  by (erule broker_step.cases) (auto dest: broker_ops_ok mint_evolves simp: broker_ok_def)

interpretation broker: inductive_invariant "\<lambda>b. b = empty_broker" broker_step broker_inv
  by unfold_locales (auto dest: broker_step_evolves simp: broker_inv_def empty_broker_def primary_key_def)

lemma broker_steps_evolve: "broker_step\<^sup>*\<^sup>* b b' \<Longrightarrow> broker_inv b \<Longrightarrow> broker_inv b' \<and> broker_evolves b b'"
  by (induction rule: rtranclp_induct) (auto dest: broker_step_evolves broker_evolves_trans)

section \<open>Redemption\<close>

text \<open>The checks \<open>redeem\<close> makes of a row and of the caller.\<close>

definition redeemable :: "epoch_reader option \<Rightarrow> lease_handle \<Rightarrow> lease_binding \<Rightarrow> string \<Rightarrow> time \<Rightarrow> cred_row \<Rightarrow> bool" where
  "redeemable er h bd nonce clock row =
     (binding_valid bd \<and> 16 \<le> length nonce
      \<and> cl_secret_hash row = hash_secret (lh_bearer h) \<and> cl_revoked_at row = None \<and> clock < cl_expires_at row
      \<and> cl_binding_digest row = binding_digest bd
      \<and> (\<forall>f. er = Some f \<longrightarrow> f (lb_cell bd) = Some (lb_epoch bd))
      \<and> (cl_process_hash row = None \<or> cl_process_hash row = Some (hash_secret nonce)))"

lemma get_lease_bind:
  assumes "get_lease k b = Some row"
  shows "get_lease k (bind_process k h b)
    = Some (if cl_process_hash row = None then row\<lparr>cl_process_hash := Some h\<rparr> else row)"
proof -
  have "cl_id row = k" using assms select_one_SomeD unfolding get_lease_def by metis
  with assms show ?thesis unfolding bind_process_def by (simp add: get_lease_upd)
qed

lemma redeem_bound_Inr_iff:
  assumes "get_lease (lh_id h) b = Some row"
  shows "redeem_bound pv h bd nonce clock row b = (Inr v, b') \<longleftrightarrow>
     (cl_process_hash row = None \<or> cl_process_hash row = Some (hash_secret nonce))
     \<and> (\<exists>f. pv (cl_capability row) = Some f \<and> f bd = Inr (JStr v)) \<and> v \<noteq> []
     \<and> b' = (if cl_process_hash row = None then bind_process (lh_id h) (hash_secret nonce) b else b)"
proof (cases "cl_process_hash row")
  case None
  then show ?thesis
    using get_lease_bind[OF assms, of "hash_secret nonce"]
    by (cases "pv (cl_capability row)")
       (auto simp: redeem_bound_def Let_def split: sum.splits json.splits)
next
  case (Some p)
  then show ?thesis
    by (cases "pv (cl_capability row)") (auto simp: redeem_bound_def Let_def split: sum.splits json.splits)
qed

lemma redeem_Inr_iff:
  "redeem pv er h bd nonce clock b = (Inr v, b') \<longleftrightarrow>
     (\<exists>row f. get_lease (lh_id h) b = Some row \<and> redeemable er h bd nonce clock row
        \<and> pv (cl_capability row) = Some f \<and> f bd = Inr (JStr v) \<and> v \<noteq> []
        \<and> b' = (if cl_process_hash row = None then bind_process (lh_id h) (hash_secret nonce) b else b))"
proof (cases "get_lease (lh_id h) b")
  case None
  then show ?thesis by (auto simp: redeem_def split: sum.splits if_splits)
next
  case (Some row)
  have er: "read_epoch er (lb_cell bd) = Inr cur \<Longrightarrow>
      (\<not> (cur \<noteq> None \<and> cur \<noteq> Some (lb_epoch bd))) = (\<forall>f. er = Some f \<longrightarrow> f (lb_cell bd) = Some (lb_epoch bd))" for cur
    by (auto simp: read_epoch_def split: option.splits)
  have bad: "read_epoch er (lb_cell bd) = Inl e \<Longrightarrow> \<not> (\<forall>f. er = Some f \<longrightarrow> f (lb_cell bd) = Some (lb_epoch bd))" for e
    by (auto simp: read_epoch_def split: option.splits)
  show ?thesis
  proof (cases "read_epoch er (lb_cell bd)")
    case (Inl e)
    with Some bad show ?thesis by (auto simp: redeem_def redeemable_def)
  next
    case (Inr cur)
    show ?thesis
      using er[OF Inr] redeem_bound_Inr_iff[OF Some, of pv bd nonce clock v b'] Some
      unfolding redeem_def redeemable_def Inr sum.case Some option.case MIN_NONCE_LEN_def
      by (auto split: if_splits)
  qed
qed

lemma redeem_Inr:
  assumes "redeem pv er h bd nonce clock b = (Inr v, b')"
  shows "\<exists>row row'. get_lease (lh_id h) b = Some row \<and> redeemable er h bd nonce clock row
     \<and> get_lease (lh_id h) b' = Some row' \<and> cl_process_hash row' = Some (hash_secret nonce)"
proof -
  obtain row where r: "get_lease (lh_id h) b = Some row" "redeemable er h bd nonce clock row"
    and b': "b' = (if cl_process_hash row = None then bind_process (lh_id h) (hash_secret nonce) b else b)"
    using assms unfolding redeem_Inr_iff by blast
  have "cl_process_hash row = None \<or> cl_process_hash row = Some (hash_secret nonce)"
    using r(2) by (simp add: redeemable_def)
  with get_lease_bind[OF r(1), of "hash_secret nonce"] r b' show ?thesis by auto
qed

text \<open>Redemption. \<open>redeem\<close> hands out a credential exactly when the lease exists and the caller
  presents its bearer, the lease is neither revoked nor expired, the execution binding presented has
  the digest the lease was minted for, the Cell still stands at that binding's epoch, the lease is not
  bound to another process, and the trusted provider of its capability yields a nonempty string; the
  value is the provider's, and the lease is bound to the caller's process afterwards.\<close>

theorem redeem_exactly_when:
  "redeem pv er h bd nonce clock b = (Inr v, b') \<longleftrightarrow>
     (\<exists>row f. get_lease (lh_id h) b = Some row \<and> redeemable er h bd nonce clock row
        \<and> pv (cl_capability row) = Some f \<and> f bd = Inr (JStr v) \<and> v \<noteq> []
        \<and> b' = (if cl_process_hash row = None then bind_process (lh_id h) (hash_secret nonce) b else b))"
  by (rule redeem_Inr_iff)

text \<open>One process per lease. If a lease was redeemed under some process nonce, then whatever the
  broker does afterwards, a later redemption of the same lease succeeds only under a nonce with the
  same hash.\<close>

theorem lease_single_process:
  assumes "reach (\<lambda>b. b = empty_broker) broker_step b"
    and "redeem pv er h bd nonce clock b = (Inr v, b1)" and "broker_step\<^sup>*\<^sup>* b1 b2"
    and "redeem pv2 er2 h2 bd2 nonce2 clock2 b2 = (Inr v2, b3)" and "lh_id h2 = lh_id h"
  shows "hash_secret nonce2 = hash_secret nonce"
proof -
  have inv: "broker_inv b" using broker.reach_inv[OF assms(1)] .
  have inv1: "broker_inv b1" using redeem_ok[OF inv assms(2)] by (simp add: broker_ok_def)
  obtain r1 where r1: "get_lease (lh_id h) b1 = Some r1" "cl_process_hash r1 = Some (hash_secret nonce)"
    using redeem_Inr[OF assms(2)] by blast
  obtain r2 where r2: "get_lease (lh_id h) b2 = Some r2" "lease_evolves r1 r2"
    using broker_steps_evolve[OF assms(3) inv1] r1(1) unfolding broker_evolves_def by blast
  have "cl_process_hash r2 = Some (hash_secret nonce)" using r2(2) r1(2) by (simp add: lease_evolves_def)
  moreover obtain row where "get_lease (lh_id h2) b2 = Some row" "redeemable er2 h2 bd2 nonce2 clock2 row"
    using redeem_Inr[OF assms(4)] by blast
  ultimately show ?thesis using r2(1) assms(5) by (auto simp: redeemable_def)
qed

text \<open>Revocation is final. Once a lease is revoked, no later redemption of it succeeds, whatever
  the broker does in between and whoever presents it.\<close>

theorem revoked_lease_dead:
  assumes "reach (\<lambda>b. b = empty_broker) broker_step b" and "get_lease k b = Some r"
    and "cl_revoked_at r \<noteq> None" and "broker_step\<^sup>*\<^sup>* b b2" and "lh_id h = k"
  shows "redeem pv er h bd nonce clock b2 \<noteq> (Inr v, b3)"
proof
  assume red: "redeem pv er h bd nonce clock b2 = (Inr v, b3)"
  obtain r2 where r2: "get_lease k b2 = Some r2" "lease_evolves r r2"
    using broker_steps_evolve[OF assms(4) broker.reach_inv[OF assms(1)]] assms(2) unfolding broker_evolves_def by blast
  with assms(3) have "cl_revoked_at r2 \<noteq> None" by (simp add: lease_evolves_def)
  moreover obtain row where "get_lease (lh_id h) b2 = Some row" "cl_revoked_at row = None"
    using redeem_Inr[OF red] by (auto simp: redeemable_def)
  ultimately show False using r2(1) assms(5) by simp
qed

lemma get_lease_revoke_where:
  "get_lease k (snd (revoke_where p reason clock b)) = map_option (\<lambda>r. if p r \<and> cl_revoked_at r = None
     then r\<lparr>cl_revoked_at := Some clock, cl_revoke_reason := Some reason\<rparr> else r) (get_lease k b)"
  unfolding revoke_where_def Let_def snd_conv by (simp add: get_lease_upd)

lemma get_lease_revoke:
  assumes "get_lease k b = Some r"
  shows "\<exists>r'. get_lease k (snd (revoke k reason clock b)) = Some r' \<and> cl_revoked_at r' \<noteq> None"
proof -
  have "cl_id r = k" using assms select_one_SomeD unfolding get_lease_def by metis
  then show ?thesis
    using get_lease_revoke_where[of k "\<lambda>r. cl_id r = k" reason clock b] assms
    by (auto simp: revoke_def split: prod.splits if_splits)
qed

text \<open>One-shot use. Whenever \<open>leased\<close> gets as far as minting a lease, the lease it minted is
  revoked in the state it returns, whether the redemption was denied, the body failed or it succeeded;
  the body may itself use the broker.\<close>

theorem leased_revokes:
  assumes "reach (\<lambda>b. b = empty_broker) broker_step b"
    and "\<And>cred b. broker_step\<^sup>*\<^sup>* b (snd (body cred b))"
    and "revoke_prior_attempts (lb_cell bd) (lb_epoch bd) (lb_attempt bd) ''attempt_superseded'' (ck 0) b = (Inr n, b1)"
    and "mint pv er bd capability purpose ttl_s (ck 1) ti tb b1 = (Inr h, b2)"
  shows "\<exists>r. get_lease (lh_id h) (snd (leased pv er bd capability purpose ttl_s nonce ck ti tb body b)) = Some r
     \<and> cl_revoked_at r \<noteq> None"
proof -
  have inv: "broker_inv b" using broker.reach_inv[OF assms(1)] .
  have inv1: "broker_inv b1" using revoke_prior_ok[OF inv assms(3)] by (simp add: broker_ok_def)
  have inv2: "broker_inv b2" using mint_evolves[OF inv1 assms(4)] by simp
  have here: "\<exists>r. get_lease (lh_id h) b2 = Some r"
    unfolding mint_Inr(2)[OF assms(4)] using mint_Inr(1)[OF assms(4)]
    by (simp add: get_lease_def select_one_append new_lease_def)
  obtain res b3 where red: "redeem pv er h bd nonce (ck 2) b2 = (res, b3)" by fastforce
  note ok3 = redeem_ok[OF inv2 red]
  have here3: "\<exists>r. get_lease (lh_id h) b3 = Some r"
    using ok3 here unfolding broker_ok_def broker_evolves_def by blast
  show ?thesis
  proof (cases res)
    case (Inl e)
    with here3 get_lease_revoke assms(3,4) red show ?thesis by (fastforce simp: leased_def)
  next
    case (Inr cred)
    have inv3: "broker_inv b3" using ok3 by (simp add: broker_ok_def)
    obtain res4 b4 where bd: "body cred b3 = (res4, b4)" by fastforce
    have "broker_evolves b3 b4" using broker_steps_evolve[OF assms(2)[of b3 cred] inv3] bd by simp
    then have "\<exists>r. get_lease (lh_id h) b4 = Some r" using here3 unfolding broker_evolves_def by blast
    with Inr get_lease_revoke assms(3,4) red bd show ?thesis by (fastforce simp: leased_def)
  qed
qed

section \<open>Leases and the epoch fence\<close>

definition broker_live :: "string \<Rightarrow> int \<Rightarrow> broker \<Rightarrow> bool" where
  "broker_live c e b = list_ex (\<lambda>r. cl_cell r = c \<and> cl_epoch r = e \<and> cl_revoked_at r = None) (br_leases b)"

text \<open>The callback the backend installs, with the clock reading of its one call.\<close>

definition lease_revoker :: "time \<Rightarrow> broker revoker" where
  "lease_revoker clock c e reason b = snd (revoke_epoch c e reason clock b)"

lemma leases_revoke_where:
  "br_leases (snd (revoke_where p reason clock b)) = upd_where (\<lambda>r. p r \<and> cl_revoked_at r = None)
     (\<lambda>r. r\<lparr>cl_revoked_at := Some clock, cl_revoke_reason := Some reason\<rparr>) (br_leases b)"
  by (simp add: revoke_where_def Let_def)

lemma live_after_revoke:
  assumes "r \<in> set (br_leases (snd (revoke_where p reason clock b)))" and "cl_revoked_at r = None"
  shows "r \<in> set (br_leases b) \<and> \<not> p r"
  using upd_where_in[OF assms(1)[unfolded leases_revoke_where]] assms(2) by auto

lemma broker_live_iff:
  "broker_live c e b \<longleftrightarrow> (\<exists>r\<in>set (br_leases b). cl_cell r = c \<and> cl_epoch r = e \<and> cl_revoked_at r = None)"
  by (auto simp: broker_live_def list_ex_iff)

interpretation epoch_leases: authority_revoker "lease_revoker clock" broker_live for clock
proof
  fix c e reason b c' e'
  show "\<not> broker_live c e (lease_revoker clock c e reason b)"
    unfolding broker_live_iff lease_revoker_def revoke_epoch_def using live_after_revoke by blast
  show "broker_live c' e' b" if "broker_live c' e' (lease_revoker clock c e reason b)"
    using that unfolding broker_live_iff lease_revoker_def revoke_epoch_def using live_after_revoke by blast
qed

text \<open>The Cell store and the broker together. They are two databases: a takeover first calls
  \<open>revoke_epoch\<close> and then commits the new epoch, and \<open>mint\<close> first reads the epoch and then inserts, with
  anything of other processes in between. \<open>fe_minting\<close> are the mints between their read and their insertion,
  \<open>fe_moving\<close> the epochs for which a Cell operation has called the broker and not ended yet, and \<open>fe_raced\<close>
  the leases inserted when their Cell had left the epoch already, or was leaving it.\<close>

abbreviation store_epochs :: "cell_store \<Rightarrow> epoch_reader option" where
  "store_epochs s \<equiv> Some (\<lambda>c. epoch_of c s)"

record fenced =
  fe_store :: cell_store
  fe_broker :: broker
  fe_minting :: "(lease_binding \<times> string \<times> string \<times> real) list"
  fe_moving :: "(string \<times> int) list"
  fe_raced :: "string set"

definition standing :: "string \<Rightarrow> int \<Rightarrow> fenced \<Rightarrow> bool" where
  "standing c e f = (epoch_of c (fe_store f) = Some e \<and> (c, e) \<notin> set (fe_moving f))"

text \<open>The calls a Cell operation makes to the broker, recorded.\<close>

definition record_call :: "(string \<times> int) list revoker" where
  "record_call c e reason w = (c, e) # w"

inductive fenced_step :: "fenced \<Rightarrow> fenced \<Rightarrow> bool" where
  fs_check: "mint_check pv (store_epochs (fe_store f)) bd capability purpose ttl_s = Inr (cap, purp)
    \<Longrightarrow> fenced_step f (f\<lparr>fe_minting := (bd, cap, purp, ttl_s) # fe_minting f\<rparr>)"
| fs_insert: "(bd, cap, purp, ttl_s) \<in> set (fe_minting f) \<Longrightarrow> mint_insert bd cap purp ttl_s clock ti tb (fe_broker f) = (Inr h, b')
    \<Longrightarrow> fenced_step f (f\<lparr>fe_broker := b', fe_minting := remove1 (bd, cap, purp, ttl_s) (fe_minting f),
          fe_raced := (if standing (lb_cell bd) (lb_epoch bd) f then fe_raced f else insert (lh_id h) (fe_raced f))\<rparr>)"
| fs_mint_ends: "fenced_step f (f\<lparr>fe_minting := remove1 m (fe_minting f)\<rparr>)"
| fs_calls: "fenced_step f (f\<lparr>fe_broker := lease_revoker clock c e reason (fe_broker f), fe_moving := (c, e) # fe_moving f\<rparr>)"
| fs_commit: "cell_step (Some record_call) (fe_store f, []) (s', calls) \<Longrightarrow> set calls \<subseteq> set (fe_moving f)
    \<Longrightarrow> fenced_step f (f\<lparr>fe_store := s'\<rparr>)"
| fs_move_ends: "fenced_step f (f\<lparr>fe_moving := remove1 m (fe_moving f)\<rparr>)"
| fs_redeem: "redeem pv er h bd nonce clock (fe_broker f) = (res', b') \<Longrightarrow> fenced_step f (f\<lparr>fe_broker := b'\<rparr>)"
| fs_revoke: "revoke k reason clock (fe_broker f) = (ok, b') \<Longrightarrow> fenced_step f (f\<lparr>fe_broker := b'\<rparr>)"
| fs_prior: "revoke_prior_attempts c e a reason clock (fe_broker f) = (res'', b') \<Longrightarrow> fenced_step f (f\<lparr>fe_broker := b'\<rparr>)"

definition fenced_inv :: "fenced \<Rightarrow> bool" where
  "fenced_inv f = (broker_inv (fe_broker f)
     \<and> (\<forall>r\<in>set (br_leases (fe_broker f)). cl_revoked_at r = None \<and> cl_id r \<notin> fe_raced f \<longrightarrow> standing (cl_cell r) (cl_epoch r) f))"

text \<open>A Cell operation moves an epoch only after it called the broker for it.\<close>

interpretation moved_epochs: authority_revoker record_call "\<lambda>c e w. epoch_of c s0 = Some e \<and> (c, e) \<notin> set w" for s0
  by unfold_locales (auto simp: record_call_def)

lemma cell_step_calls:
  assumes "cell_step (Some record_call) (s, []) (s', calls)" and "epoch_of c s = Some e"
  shows "epoch_of c s' = Some e \<or> (c, e) \<in> set calls"
  using moved_epochs.cell_step_only_current[OF assms(1), of s] assms(2) by (auto simp: only_current_def)

lemma fenced_inv_ok: "fenced_inv f \<Longrightarrow> broker_ok (fe_broker f) b' \<Longrightarrow> fenced_inv (f\<lparr>fe_broker := b'\<rparr>)"
  unfolding fenced_inv_def broker_ok_def standing_def by simp metis

lemma fenced_inv_broker: "fenced_inv f \<Longrightarrow> broker_inv (fe_broker f)"
  by (simp add: fenced_inv_def)

lemma mint_insert_Inr:
  assumes "mint_insert bd cap purp ttl_s clock ti tb b = (Inr h, b')"
  shows "get_lease (lh_id h) b = None" and "b' = b\<lparr>br_leases := br_leases b @ [new_lease bd cap purp ttl_s clock h]\<rparr>"
  using assms by (auto simp: mint_insert_def Let_def split: if_splits)

lemma mint_insert_inv: "broker_inv b \<Longrightarrow> mint_insert bd cap purp ttl_s clock ti tb b = (Inr h, b') \<Longrightarrow> broker_inv b'"
  using mint_insert_Inr[of bd cap purp ttl_s clock ti tb b h b']
  unfolding broker_inv_def get_lease_def by (auto simp: new_lease_def intro!: primary_key_snoc)

lemma fenced_insert_inv:
  assumes "fenced_inv f" and "mint_insert bd cap purp ttl_s clock ti tb (fe_broker f) = (Inr h, b')"
  shows "fenced_inv (f\<lparr>fe_broker := b', fe_minting := ms,
     fe_raced := (if standing (lb_cell bd) (lb_epoch bd) f then fe_raced f else insert (lh_id h) (fe_raced f))\<rparr>)"
  using assms(1) mint_insert_inv[OF _ assms(2)] mint_insert_Inr(2)[OF assms(2)]
  by (auto simp: fenced_inv_def standing_def new_lease_def)

lemma fenced_calls_inv:
  assumes "fenced_inv f"
  shows "fenced_inv (f\<lparr>fe_broker := lease_revoker clock c e reason (fe_broker f), fe_moving := (c, e) # fe_moving f\<rparr>)"
proof -
  let ?b = "lease_revoker clock c e reason (fe_broker f)"
  have "broker_inv ?b" using assms revoke_epoch_ok[OF _ surjective_pairing] by (simp add: lease_revoker_def fenced_inv_def broker_ok_def)
  moreover have "r \<in> set (br_leases (fe_broker f)) \<and> \<not> (cl_cell r = c \<and> cl_epoch r = e)"
    if "r \<in> set (br_leases ?b)" "cl_revoked_at r = None" for r
    using live_after_revoke[OF that(1)[unfolded lease_revoker_def revoke_epoch_def] that(2)] .
  ultimately show ?thesis using assms by (auto simp: fenced_inv_def standing_def)
qed

lemma fenced_commit_inv:
  assumes "fenced_inv f" and "cell_step (Some record_call) (fe_store f, []) (s', calls)" and "set calls \<subseteq> set (fe_moving f)"
  shows "fenced_inv (f\<lparr>fe_store := s'\<rparr>)"
  using assms(1,3) cell_step_calls[OF assms(2)] by (fastforce simp: fenced_inv_def standing_def)

lemma fenced_step_inv: "fenced_step f g \<Longrightarrow> fenced_inv f \<Longrightarrow> fenced_inv g"
proof (induction rule: fenced_step.induct)
  case (fs_check pv f bd capability purpose ttl_s cap purp)
  then show ?case by (simp add: fenced_inv_def standing_def)
next
  case fs_insert
  then show ?case by (intro fenced_insert_inv)
next
  case (fs_mint_ends f m)
  then show ?case by (simp add: fenced_inv_def standing_def)
next
  case (fs_move_ends f m)
  then show ?case by (auto simp: fenced_inv_def standing_def dest: notin_set_remove1)
qed (auto intro: fenced_insert_inv fenced_calls_inv fenced_commit_inv fenced_inv_ok broker_ops_ok fenced_inv_broker)

abbreviation fenced_init :: "fenced \<Rightarrow> bool" where
  "fenced_init f \<equiv> f = \<lparr>fe_store = empty_store, fe_broker = empty_broker, fe_minting = [], fe_moving = [], fe_raced = {}\<rparr>"

interpretation fenced: inductive_invariant fenced_init fenced_step fenced_inv
proof
  show "fenced_inv f" if "fenced_init f" for f
    using that by (simp add: fenced_inv_def broker_inv_def empty_broker_def primary_key_def)
  show "fenced_inv g" if "fenced_inv f" "fenced_step f g" for f g
    using that(2,1) by (rule fenced_step_inv)
qed


text \<open>A terminal Cell can still be issued credentials. The terminal \<open>patch\<close> revokes the leases of
  its epoch, but \<open>mint\<close> looks at the epoch alone and not at the state: for a terminal Cell it grants,
  and \<open>redeem\<close> then accepts, a new lease under the same epoch.\<close>

theorem mint_ignores_terminal_state:
  assumes "get_cell (lb_cell bd) s = Some row" and "cell_state row \<in> set TERMINAL_STATES"
    and "cell_epoch row = lb_epoch bd" and "binding_valid bd"
    and "pv ''github.publish'' = Some (\<lambda>_. Inr (JStr ''token''))" and "get_lease (''lease_'' @ ti) b = None"
    and "16 \<le> length nonce"
  shows "\<exists>h b1 b2. mint pv (store_epochs s) bd ''github.publish'' ''external-effect'' 300 clock ti tb b = (Inr h, b1)
     \<and> redeem pv (store_epochs s) h bd nonce clock b1 = (Inr ''token'', b2)"
proof -
  let ?h = "\<lparr>lh_id = ''lease_'' @ ti, lh_bearer = ''swfl_'' @ tb\<rparr>"
  let ?l = "new_lease bd ''github.publish'' ''external-effect'' 300 clock ?h"
  let ?b1 = "b\<lparr>br_leases := br_leases b @ [?l]\<rparr>"
  have ep: "epoch_of (lb_cell bd) s = Some (lb_epoch bd)" using assms(1,3) by (simp add: epoch_of_def)
  have strip: "py_strip ''github.publish'' = ''github.publish''" "py_strip ''external-effect'' = ''external-effect''"
    by code_simp+
  have cap: "casefold ''github.publish'' \<notin> set WILDCARD_CAPABILITIES" by code_simp
  have m: "mint pv (store_epochs s) bd ''github.publish'' ''external-effect'' 300 clock ti tb b = (Inr ?h, ?b1)"
    unfolding mint_unfold Let_def strip using assms(4-6) cap ep by (simp add: read_epoch_def)
  have g: "get_lease (lh_id ?h) ?b1 = Some ?l"
    using assms(6) by (simp add: get_lease_def select_one_append new_lease_def)
  have "redeemable (store_epochs s) ?h bd nonce clock ?l"
    using assms(4,7) ep by (simp add: redeemable_def new_lease_def)
  then have "\<exists>b2. redeem pv (store_epochs s) ?h bd nonce clock ?b1 = (Inr ''token'', b2)"
    unfolding redeem_Inr_iff using g assms(5) by (auto simp: new_lease_def)
  with m show ?thesis by blast
qed

section \<open>A concrete lease\<close>

definition demo_binding :: lease_binding where
  "demo_binding = \<lparr>lb_factory_run = ''run'', lb_dag_run = ''dag'', lb_task_instance = ''ti'', lb_stage = ''ship'',
     lb_sandbox = ''sb'', lb_attempt = 1, lb_cell = ''cell_0123456789abcdef01234567'', lb_epoch = 1,
     lb_operation_key = ''op'', lb_policy_digest = ''policy:x''\<rparr>"

definition demo_providers :: providers where
  "demo_providers = [''github.publish'' \<mapsto> (\<lambda>_. Inr (JStr ''token''))]"

definition demo_nonce :: string where
  "demo_nonce = ''0123456789abcdef''"

definition demo_handle :: lease_handle where
  "demo_handle = \<lparr>lh_id = ''lease_1'', lh_bearer = ''swfl_1''\<rparr>"

definition demo_cred :: cred_row where
  "demo_cred = new_lease demo_binding ''github.publish'' ''external-effect'' 300 0 demo_handle"

definition demo_broker :: broker where
  "demo_broker = empty_broker\<lparr>br_leases := [demo_cred]\<rparr>"

lemma demo_binding_valid: "binding_valid demo_binding"
  by code_simp

lemma demo_mint:
  assumes "er = None \<or> (\<exists>f. er = Some f \<and> f (lb_cell demo_binding) = Some 1)"
  shows "mint demo_providers er demo_binding ''github.publish'' ''external-effect'' 300 0 ''1'' ''1'' empty_broker
     = (Inr demo_handle, demo_broker)"
proof -
  have "py_strip ''github.publish'' = ''github.publish''" "py_strip ''external-effect'' = ''external-effect''"
    "casefold ''github.publish'' \<notin> set WILDCARD_CAPABILITIES" by code_simp+
  moreover have "lb_epoch demo_binding = 1" by (simp add: demo_binding_def)
  ultimately show ?thesis
    using assms demo_binding_valid
    by (auto simp: mint_unfold Let_def demo_providers_def read_epoch_def get_lease_def empty_broker_def
          demo_handle_def demo_broker_def demo_cred_def)
qed

lemma broker_empty_reach: "reach (\<lambda>b. b = empty_broker) broker_step empty_broker"
  by (rule reach_init) simp

lemma demo_broker_reach: "reach (\<lambda>b. b = empty_broker) broker_step demo_broker"
  using broker_empty_reach bs_mint[OF demo_mint[of None]] by (auto intro: reach_step)

definition demo_bound :: broker where
  "demo_bound = bind_process ''lease_1'' (hash_secret demo_nonce) demo_broker"

lemma demo_redeem: "redeem demo_providers None demo_handle demo_binding demo_nonce 10 demo_broker = (Inr ''token'', demo_bound)"
proof -
  have "get_lease (lh_id demo_handle) demo_broker = Some demo_cred"
    by (simp add: get_lease_def demo_broker_def demo_cred_def new_lease_def demo_handle_def)
  moreover have "redeemable None demo_handle demo_binding demo_nonce 10 demo_cred"
    using demo_binding_valid by (simp add: redeemable_def demo_cred_def new_lease_def demo_nonce_def)
  ultimately show ?thesis
    unfolding redeem_Inr_iff by (simp add: demo_cred_def new_lease_def demo_providers_def demo_bound_def demo_handle_def)
qed

lemma demo_redeem_again: "redeem demo_providers None demo_handle demo_binding demo_nonce 20 demo_bound = (Inr ''token'', demo_bound)"
proof -
  have g: "get_lease (lh_id demo_handle) demo_bound = Some (demo_cred\<lparr>cl_process_hash := Some (hash_secret demo_nonce)\<rparr>)"
    unfolding demo_bound_def using get_lease_bind[of "''lease_1''" demo_broker demo_cred]
    by (simp add: get_lease_def demo_broker_def demo_cred_def new_lease_def demo_handle_def)
  have "redeemable None demo_handle demo_binding demo_nonce 20 (demo_cred\<lparr>cl_process_hash := Some (hash_secret demo_nonce)\<rparr>)"
    using demo_binding_valid by (simp add: redeemable_def demo_cred_def new_lease_def demo_nonce_def)
  with g show ?thesis
    unfolding redeem_Inr_iff by (simp add: demo_cred_def new_lease_def demo_providers_def)
qed

theorem lease_single_process_witness:
  "redeem demo_providers None demo_handle demo_binding demo_nonce 20 demo_bound = (Inr ''token'', demo_bound)
   \<and> {hash_secret nonce2 |nonce2 v b. redeem demo_providers None demo_handle demo_binding nonce2 20 demo_bound = (Inr v, b)}
       = {hash_secret demo_nonce}"
  using lease_single_process[OF demo_broker_reach demo_redeem rtranclp.rtrancl_refl _ refl] demo_redeem_again by blast

definition demo_revoked :: broker where
  "demo_revoked = snd (revoke ''lease_1'' ''use_complete'' 30 demo_broker)"

theorem revoked_lease_dead_witness:
  "redeem demo_providers None demo_handle demo_binding demo_nonce 40 demo_revoked \<noteq> (Inr ''token'', demo_revoked)"
proof -
  have step: "broker_step demo_broker demo_revoked"
    unfolding demo_revoked_def by (rule bs_revoke[OF surjective_pairing])
  obtain r where "get_lease ''lease_1'' demo_revoked = Some r" "cl_revoked_at r \<noteq> None"
    using get_lease_revoke[of "''lease_1''" demo_broker demo_cred "''use_complete''" 30]
    by (auto simp: demo_revoked_def get_lease_def demo_broker_def demo_cred_def new_lease_def demo_handle_def)
  from revoked_lease_dead[OF reach_step[OF demo_broker_reach step] this rtranclp.rtrancl_refl, of demo_handle]
  show ?thesis by (simp add: demo_handle_def)
qed

theorem leased_revokes_witness:
  "\<exists>r. get_lease ''lease_1'' (snd (leased demo_providers None demo_binding ''github.publish'' ''external-effect'' 300
      demo_nonce (\<lambda>i. 0) ''1'' ''1'' (\<lambda>cred b. (Inr (), b)) empty_broker)) = Some r \<and> cl_revoked_at r \<noteq> None"
proof -
  have p: "revoke_prior_attempts (lb_cell demo_binding) (lb_epoch demo_binding) (lb_attempt demo_binding)
      ''attempt_superseded'' 0 empty_broker = (Inr 0, empty_broker)"
    by (simp add: revoke_prior_attempts_def revoke_where_def Let_def empty_broker_def rowcount_def demo_binding_def)
  from leased_revokes[OF broker_empty_reach, where body = "\<lambda>cred b. (Inr (), b)" and ck = "\<lambda>i. 0", OF _ p demo_mint[of None]]
  show ?thesis by (simp add: demo_handle_def)
qed

definition demo_cell :: cell_identity where
  "demo_cell = demo_identity"

definition demo_cell_binding :: lease_binding where
  "demo_cell_binding = demo_binding\<lparr>lb_cell := stable_id demo_cell\<rparr>"

text \<open>Two mints around a takeover. The first has read epoch 1 when the takeover revokes that epoch's leases
  and commits epoch 2; it inserts its lease afterwards. The second reads and inserts under epoch 2. Both
  leases are live: the first is the one the race leaves behind.\<close>

definition demo_next_binding :: lease_binding where
  "demo_next_binding = demo_cell_binding\<lparr>lb_epoch := 2\<rparr>"

definition demo_lease :: "lease_binding \<Rightarrow> string \<Rightarrow> cred_row" where
  "demo_lease bd k = new_lease bd ''github.publish'' ''external-effect'' 300 0 \<lparr>lh_id = ''lease_'' @ k, lh_bearer = ''swfl_'' @ k\<rparr>"

definition demo_fenced :: fenced where
  "demo_fenced = \<lparr>fe_store = demo_store2, fe_broker = empty_broker\<lparr>br_leases := [demo_lease demo_cell_binding ''1'', demo_lease demo_next_binding ''2'']\<rparr>,
     fe_minting = [], fe_moving = [], fe_raced = {''lease_1''}\<rparr>"

lemma demo_mint_check:
  assumes "bd = demo_cell_binding \<or> bd = demo_next_binding" and "epoch_of (stable_id demo_cell) s = Some (lb_epoch bd)"
  shows "mint_check demo_providers (store_epochs s) bd ''github.publish'' ''external-effect'' 300 = Inr (''github.publish'', ''external-effect'')"
proof -
  have "py_strip ''github.publish'' = ''github.publish''" "py_strip ''external-effect'' = ''external-effect''"
    "casefold ''github.publish'' \<notin> set WILDCARD_CAPABILITIES" by code_simp+
  moreover have "binding_valid bd" "lb_cell bd = stable_id demo_cell"
    using assms(1) demo_binding_valid
    by (auto simp: demo_cell_binding_def demo_next_binding_def binding_valid_def binding_strings_def)
  ultimately show ?thesis
    using assms(2) by (simp add: mint_check_def Let_def demo_providers_def read_epoch_def)
qed

lemma demo_take: "cell_step (Some record_call) (demo_store, []) (demo_store2, [(stable_id demo_cell, 1)])"
  by (rule step_take[of _ "stable_id demo_cell" 1 "''ops''" 2 demo_store _ "Inr 2"])
     (simp add: demo_store2_def take_epoch_def demo_store_eq Let_def rowcount_def upd_where_def append_event_def get_cell_def
       same_event_def demo_cell_def call_revoker_def record_call_def int_str_def nat_str.simps digit_char_def)

lemma demo_activate: "cell_step (Some record_call) (empty_store, []) (demo_store, [])"
  by (rule step_activate[of _ demo_identity "''cli''" 1 empty_store _ "Inr (hd (cs_cells demo_store))"])
     (simp add: demo_store_eq activate_def Let_def insert_identity_def empty_store_def get_cell_def
       rowcount_def upd_where_def append_event_def activate_row_def int_str_def nat_str.simps digit_char_def demo_identity_def)

lemma demo_fenced_reach: "reach fenced_init fenced_step demo_fenced"
proof -
  let ?c = "stable_id demo_cell"
  let ?m = "\<lambda>bd. (bd, ''github.publish'', ''external-effect'', 300 :: real)"
  let ?f = "\<lambda>s ls ms mv ra. \<lparr>fe_store = s, fe_broker = empty_broker\<lparr>br_leases := ls\<rparr>, fe_minting = ms, fe_moving = mv, fe_raced = ra\<rparr>"
  have e1: "epoch_of ?c demo_store = Some 1" by (simp add: demo_store_eq epoch_of_def get_cell_def demo_cell_def)
  have e2: "epoch_of ?c demo_store2 = Some 2" using demo_store2_epoch by (simp add: demo_cell_def)
  have bd: "lb_cell demo_cell_binding = ?c" "lb_epoch demo_cell_binding = 1" "lb_cell demo_next_binding = ?c" "lb_epoch demo_next_binding = 2"
    by (simp_all add: demo_cell_binding_def demo_next_binding_def demo_binding_def)
  have eb: "empty_broker\<lparr>br_leases := []\<rparr> = empty_broker" by (simp add: empty_broker_def)
  have "reach fenced_init fenced_step (?f empty_store [] [] [] {})" by (rule reach_init) (simp add: eb)
  then have "reach fenced_init fenced_step (?f demo_store [] [] [] {})"
    by (rule reach_step) (use fs_commit[of "?f empty_store [] [] [] {}", OF _ , of demo_store "[]"] demo_activate in simp)
  then have "reach fenced_init fenced_step (?f demo_store [] [?m demo_cell_binding] [] {})"
    by (rule reach_step) (use fs_check[of demo_providers "?f demo_store [] [] [] {}", OF demo_mint_check[of demo_cell_binding]] e1 bd in simp)
  then have "reach fenced_init fenced_step (?f demo_store [] [?m demo_cell_binding] [(?c, 1)] {})"
    by (rule reach_step) (use fs_calls[of "?f demo_store [] [?m demo_cell_binding] [] {}" ?c 1 0 "''epoch_advanced''"]
      in \<open>simp add: lease_revoker_def revoke_epoch_def revoke_where_def Let_def empty_broker_def upd_where_def\<close>)
  then have "reach fenced_init fenced_step (?f demo_store2 [] [?m demo_cell_binding] [(?c, 1)] {})"
    by (rule reach_step) (use fs_commit[of "?f demo_store [] [?m demo_cell_binding] [(?c, 1)] {}" demo_store2 "[(?c, 1)]"] demo_take in simp)
  then have "reach fenced_init fenced_step (?f demo_store2 [demo_lease demo_cell_binding ''1''] [] [(?c, 1)] {''lease_1''})"
    by (rule reach_step) (use fs_insert[of demo_cell_binding "''github.publish''" "''external-effect''" 300
        "?f demo_store2 [] [?m demo_cell_binding] [(?c, 1)] {}" 0 "''1''" "''1''"] e2 bd
      in \<open>simp add: mint_insert_def Let_def get_lease_def demo_lease_def standing_def\<close>)
  then have "reach fenced_init fenced_step (?f demo_store2 [demo_lease demo_cell_binding ''1''] [] [] {''lease_1''})"
    by (rule reach_step) (use fs_move_ends[of "?f demo_store2 [demo_lease demo_cell_binding ''1''] [] [(?c, 1)] {''lease_1''}" "(?c, 1)"] in simp)
  then have "reach fenced_init fenced_step (?f demo_store2 [demo_lease demo_cell_binding ''1''] [?m demo_next_binding] [] {''lease_1''})"
    by (rule reach_step) (use fs_check[of demo_providers "?f demo_store2 [demo_lease demo_cell_binding ''1''] [] [] {''lease_1''}",
        OF demo_mint_check[of demo_next_binding]] e2 bd in simp)
  then have "reach fenced_init fenced_step (?f demo_store2 [demo_lease demo_cell_binding ''1'', demo_lease demo_next_binding ''2''] [] [] {''lease_1''})"
    by (rule reach_step) (use fs_insert[of demo_next_binding "''github.publish''" "''external-effect''" 300
        "?f demo_store2 [demo_lease demo_cell_binding ''1''] [?m demo_next_binding] [] {''lease_1''}" 0 "''2''" "''2''"] e2 bd
      in \<open>simp add: mint_insert_def Let_def get_lease_def demo_lease_def new_lease_def standing_def\<close>)
  then show ?thesis by (simp add: demo_fenced_def)
qed

text \<open>The race is real: a live lease of a superseded epoch.\<close>

lemma minted_lease_outlives_epoch:
  "\<exists>f r. reach fenced_init fenced_step f \<and> r \<in> set (br_leases (fe_broker f)) \<and> cl_revoked_at r = None
     \<and> fe_moving f = [] \<and> epoch_of (cl_cell r) (fe_store f) = Some 2 \<and> cl_epoch r = 1"
proof (intro exI conjI)
  show "reach fenced_init fenced_step demo_fenced" by (rule demo_fenced_reach)
  show "demo_lease demo_cell_binding ''1'' \<in> set (br_leases (fe_broker demo_fenced))" "fe_moving demo_fenced = []"
    by (simp_all add: demo_fenced_def)
qed (use demo_store2_epoch in \<open>simp_all add: demo_lease_def new_lease_def demo_fenced_def demo_cell_binding_def demo_binding_def demo_cell_def\<close>)


theorem mint_ignores_terminal_state_witness:
  "\<exists>h b1 b2. mint demo_providers (store_epochs demo_terminal) demo_cell_binding ''github.publish'' ''external-effect'' 300 0 ''1'' ''1'' empty_broker
       = (Inr h, b1)
     \<and> redeem demo_providers (store_epochs demo_terminal) h demo_cell_binding demo_nonce 0 b1 = (Inr ''token'', b2)"
proof -
  let ?r = "hd (cs_cells demo_terminal)"
  have "get_cell (lb_cell demo_cell_binding) demo_terminal = Some ?r"
    by (simp add: demo_terminal_def demo_store_eq get_cell_def demo_cell_binding_def demo_cell_def)
  moreover have "cell_state ?r \<in> set TERMINAL_STATES" "cell_epoch ?r = lb_epoch demo_cell_binding"
    by (simp_all add: demo_terminal_def demo_store_eq TERMINAL_STATES_def demo_cell_binding_def demo_binding_def)
  moreover have "binding_valid demo_cell_binding"
    using demo_binding_valid by (simp add: demo_cell_binding_def binding_valid_def binding_strings_def)
  moreover have "demo_providers ''github.publish'' = Some (\<lambda>_. Inr (JStr ''token''))" by (simp add: demo_providers_def)
  moreover have "get_lease (''lease_'' @ ''1'') empty_broker = None" by (simp add: get_lease_def empty_broker_def)
  moreover have "16 \<le> length demo_nonce" by (simp add: demo_nonce_def)
  ultimately show ?thesis by (rule mint_ignores_terminal_state)
qed

end
