(* ===== verification/Admission.thy ===== *)
theory Admission
  imports Json Sha256 "HOL-Library.Multiset"
begin

text \<open>
  Admission control, \<open>src/swfactory/admission.py\<close>: the priorities and limits every admission decision
  is made with, and the in-memory controller.

  \<^item> \<open>priority\<close> and \<open>limits\<close> are shared with the durable store. A unit in use is the triple of its
    repository, actor and blueprint, \<open>within_limits\<close> says that a collection of units respects the limits.
  \<^item> \<open>controller\<close> is \<open>AdmissionController\<close>. Its heap is the sorted list of the queued items: sequence
    numbers are distinct, so \<open>heappop\<close> is determined and the layout of the heap is not observable.
  \<^item> The lemmas show that the active units never exceed a limit, that the queue is bounded and holds
    no active work, and that \<open>drain\<close> admits in priority and then submission order and leaves queued
    only what did not fit.
\<close>

section \<open>Priorities and limits\<close>

datatype priority = HOTFIX | MANUAL | NORMAL | BACKGROUND

fun prio_int :: "priority \<Rightarrow> int" where
  "prio_int HOTFIX = 0"
| "prio_int MANUAL = 10"
| "prio_int NORMAL = 20"
| "prio_int BACKGROUND = 30"

fun prio_name :: "priority \<Rightarrow> string" where
  "prio_name HOTFIX = ''hotfix''"
| "prio_name MANUAL = ''manual''"
| "prio_name NORMAL = ''normal''"
| "prio_name BACKGROUND = ''background''"

definition priorities :: "priority list" where
  "priorities = [HOTFIX, MANUAL, NORMAL, BACKGROUND]"

instantiation priority :: linorder
begin

definition less_eq_priority :: "priority \<Rightarrow> priority \<Rightarrow> bool" where
  "less_eq_priority p q = (prio_int p \<le> prio_int q)"

definition less_priority :: "priority \<Rightarrow> priority \<Rightarrow> bool" where
  "less_priority p q = (prio_int p < prio_int q)"

instance
proof
  fix x y z :: priority
  show "(x < y) = (x \<le> y \<and> \<not> y \<le> x)" by (auto simp: less_eq_priority_def less_priority_def)
  show "x \<le> x" by (simp add: less_eq_priority_def)
  show "x \<le> y \<Longrightarrow> y \<le> z \<Longrightarrow> x \<le> z" by (simp add: less_eq_priority_def)
  show "x \<le> y \<Longrightarrow> y \<le> x \<Longrightarrow> x = y" by (cases x; cases y) (simp_all add: less_eq_priority_def)
  show "x \<le> y \<or> y \<le> x" by (auto simp: less_eq_priority_def)
qed

end

record limits =
  global_active :: int
  per_repo_active :: int
  per_actor_active :: int
  per_blueprint_active :: int
  queue_size :: int

definition default_limits :: limits where
  "default_limits = \<lparr>global_active = 64, per_repo_active = 8, per_actor_active = 8,
     per_blueprint_active = 32, queue_size = 4096\<rparr>"

section \<open>Units in use\<close>

type_synonym unit_use = "string \<times> string \<times> string"

abbreviation u_repo :: "unit_use \<Rightarrow> string" where
  "u_repo u \<equiv> fst u"

abbreviation u_actor :: "unit_use \<Rightarrow> string" where
  "u_actor u \<equiv> fst (snd u)"

abbreviation u_blueprint :: "unit_use \<Rightarrow> string" where
  "u_blueprint u \<equiv> snd (snd u)"

definition count_by :: "('u \<Rightarrow> 'k) \<Rightarrow> 'k \<Rightarrow> 'u list \<Rightarrow> int" where
  "count_by f k us = int (length (filter (\<lambda>u. f u = k) us))"

definition within_limits :: "limits \<Rightarrow> unit_use list \<Rightarrow> bool" where
  "within_limits lm us \<longleftrightarrow> us = [] \<or>
     (int (length us) \<le> global_active lm
      \<and> (\<forall>k. count_by u_repo k us \<noteq> 0 \<longrightarrow> count_by u_repo k us \<le> per_repo_active lm)
      \<and> (\<forall>k. count_by u_actor k us \<noteq> 0 \<longrightarrow> count_by u_actor k us \<le> per_actor_active lm)
      \<and> (\<forall>k. count_by u_blueprint k us \<noteq> 0 \<longrightarrow> count_by u_blueprint k us \<le> per_blueprint_active lm))"

lemma count_by_mset: "mset us = mset vs \<Longrightarrow> count_by f k us = count_by f k vs"
  unfolding count_by_def by (metis mset_filter size_mset)

lemma count_by_append [simp]: "count_by f k (us @ vs) = count_by f k us + count_by f k vs"
  by (simp add: count_by_def)

lemma count_by_Cons [simp]: "count_by f k (u # us) = (if f u = k then 1 else 0) + count_by f k us"
  by (simp add: count_by_def)

lemma count_by_Nil [simp]: "count_by f k [] = 0"
  by (simp add: count_by_def)

lemma count_by_nonneg [simp]: "0 \<le> count_by f k us"
  by (simp add: count_by_def)

lemma count_by_le_length: "count_by f k us \<le> int (length us)"
  by (simp add: count_by_def)

lemma count_by_mono: "mset us \<subseteq># mset vs \<Longrightarrow> count_by f k us \<le> count_by f k vs"
  unfolding count_by_def by (metis multiset_filter_mono mset_filter of_nat_le_iff size_mset size_mset_mono)

lemma within_Nil [simp]: "within_limits lm []"
  by (simp add: within_limits_def)

lemma within_mono:
  assumes "within_limits lm vs" and "mset us \<subseteq># mset vs"
  shows "within_limits lm us"
proof (cases "us = []")
  case False
  then have "vs \<noteq> []" using assms(2) by auto
  have len: "length us \<le> length vs" using size_mset_mono[OF assms(2)] by simp
  have c: "count_by f k us \<noteq> 0 \<Longrightarrow> count_by f k vs \<noteq> 0 \<and> count_by f k us \<le> count_by f k vs" for f k
    using count_by_mono[OF assms(2), of f k] count_by_nonneg[of f k us] by linarith
  show ?thesis
    using assms(1) \<open>vs \<noteq> []\<close> len c unfolding within_limits_def
    by (smt (verit) of_nat_le_iff)
qed simp

lemma within_mset: "mset us = mset vs \<Longrightarrow> within_limits lm us = within_limits lm vs"
  using within_mono by (metis subset_mset.order_refl)

section \<open>The in-memory controller\<close>

record queued_work =
  qw_priority :: priority
  qw_sequence :: int
  qw_work :: string
  qw_repo :: string
  qw_actor :: string
  qw_blueprint :: string
  qw_enqueued_at :: time

definition sort_key_of :: "queued_work \<Rightarrow> int \<times> int" where
  "sort_key_of w = (prio_int (qw_priority w), qw_sequence w)"

record decision =
  d_admitted :: bool
  d_reason :: string
  d_position :: "nat option"

record controller =
  ac_queue :: "queued_work list"
  ac_seq :: int
  ac_active :: "(string \<times> queued_work) list"

definition new_controller :: controller where
  "new_controller = \<lparr>ac_queue = [], ac_seq = 0, ac_active = []\<rparr>"

text \<open>The order of the heap: the sort key, compared as a pair.\<close>

definition work_le :: "queued_work \<Rightarrow> queued_work \<Rightarrow> bool" where
  "work_le a b = (prio_int (qw_priority a) < prio_int (qw_priority b)
     \<or> prio_int (qw_priority a) = prio_int (qw_priority b) \<and> qw_sequence a \<le> qw_sequence b)"

fun heappush :: "queued_work \<Rightarrow> queued_work list \<Rightarrow> queued_work list" where
  "heappush w [] = [w]"
| "heappush w (x # xs) = (if work_le w x then w # x # xs else x # heappush w xs)"

definition active_units :: "controller \<Rightarrow> unit_use list" where
  "active_units c = map (\<lambda>(k, w). (qw_repo w, qw_actor w, qw_blueprint w)) (ac_active c)"

definition capacity_for :: "limits \<Rightarrow> string \<Rightarrow> string \<Rightarrow> string \<Rightarrow> controller \<Rightarrow> bool" where
  "capacity_for lm repo actor blueprint c =
     (let us = active_units c in
      int (length us) < global_active lm
      \<and> count_by u_repo repo us < per_repo_active lm
      \<and> count_by u_actor actor us < per_actor_active lm
      \<and> count_by u_blueprint blueprint us < per_blueprint_active lm)"

definition position_of :: "string \<Rightarrow> queued_work list \<Rightarrow> nat option" where
  "position_of k q = (let n = length (takeWhile (\<lambda>w. qw_work w \<noteq> k) q) in if n < length q then Some (Suc n) else None)"

definition new_item ::
  "string \<Rightarrow> string \<Rightarrow> string \<Rightarrow> string \<Rightarrow> priority \<Rightarrow> time \<Rightarrow> controller \<Rightarrow> queued_work" where
  "new_item k repo actor blueprint p now c =
     \<lparr>qw_priority = p, qw_sequence = ac_seq c + 1, qw_work = k, qw_repo = repo, qw_actor = actor,
      qw_blueprint = blueprint, qw_enqueued_at = now\<rparr>"

definition set_active :: "string \<Rightarrow> queued_work \<Rightarrow> (string \<times> queued_work) list \<Rightarrow> (string \<times> queued_work) list" where
  "set_active k w act = (if k \<in> fst ` set act then map (\<lambda>(k', w'). if k' = k then (k, w) else (k', w')) act
     else act @ [(k, w)])"

definition ac_submit ::
  "limits \<Rightarrow> string \<Rightarrow> string \<Rightarrow> string \<Rightarrow> string \<Rightarrow> priority \<Rightarrow> time \<Rightarrow> controller \<Rightarrow> decision \<times> controller" where
  "ac_submit lm k repo actor blueprint p now c =
     (if k \<in> fst ` set (ac_active c) \<or> list_ex (\<lambda>w. qw_work w = k) (ac_queue c) then
        (\<lparr>d_admitted = False, d_reason = ''duplicate'', d_position = None\<rparr>, c)
      else if capacity_for lm repo actor blueprint c then
        (\<lparr>d_admitted = True, d_reason = ''admitted'', d_position = None\<rparr>,
         c\<lparr>ac_seq := ac_seq c + 1, ac_active := set_active k (new_item k repo actor blueprint p now c) (ac_active c)\<rparr>)
      else if int (length (ac_queue c)) \<ge> queue_size lm then
        (\<lparr>d_admitted = False, d_reason = ''queue_full'', d_position = None\<rparr>, c)
      else
        let q = heappush (new_item k repo actor blueprint p now c) (ac_queue c) in
        (\<lparr>d_admitted = False, d_reason = ''queued'', d_position = position_of k q\<rparr>,
         c\<lparr>ac_seq := ac_seq c + 1, ac_queue := q\<rparr>))"

text \<open>The loop of \<open>drain\<close> consumes the queue, which bounds it.\<close>

fun drain_loop ::
  "limits \<Rightarrow> queued_work list \<Rightarrow> controller \<Rightarrow> string list \<Rightarrow> queued_work list
     \<Rightarrow> string list \<times> queued_work list \<times> queued_work list \<times> controller" where
  "drain_loop lm [] c admitted deferred = (admitted, deferred, [], c)"
| "drain_loop lm (w # q) c admitted deferred =
     (if \<not> int (length (ac_active c)) < global_active lm then (admitted, deferred, w # q, c)
      else if capacity_for lm (qw_repo w) (qw_actor w) (qw_blueprint w) c then
        drain_loop lm q (c\<lparr>ac_active := set_active (qw_work w) w (ac_active c)\<rparr>) (admitted @ [qw_work w]) deferred
      else drain_loop lm q c admitted (deferred @ [w]))"

definition ac_drain :: "limits \<Rightarrow> controller \<Rightarrow> string list \<times> controller" where
  "ac_drain lm c =
     (case drain_loop lm (ac_queue c) c [] [] of
        (admitted, deferred, rest, c') \<Rightarrow> (admitted, c'\<lparr>ac_queue := fold heappush deferred rest\<rparr>))"

definition ac_complete :: "limits \<Rightarrow> string \<Rightarrow> controller \<Rightarrow> string list \<times> controller" where
  "ac_complete lm k c = ac_drain lm (c\<lparr>ac_active := filter (\<lambda>kw. fst kw \<noteq> k) (ac_active c)\<rparr>)"

definition ac_row :: "time \<Rightarrow> queued_work \<Rightarrow> json" where
  "ac_row now w = JObj
     [(''work_id'', JStr (qw_work w)), (''repo'', JStr (qw_repo w)), (''actor'', JStr (qw_actor w)),
      (''blueprint'', JStr (qw_blueprint w)), (''priority'', JStr (prio_name (qw_priority w))),
      (''wait_s'', JReal (max 0 (now - qw_enqueued_at w)))]"

definition limits_dict :: "limits \<Rightarrow> json" where
  "limits_dict lm = JObj
     [(''global_active'', JInt (global_active lm)), (''per_repo_active'', JInt (per_repo_active lm)),
      (''per_actor_active'', JInt (per_actor_active lm)), (''per_blueprint_active'', JInt (per_blueprint_active lm)),
      (''queue_size'', JInt (queue_size lm))]"

fun with_entry :: "string \<Rightarrow> json \<Rightarrow> json \<Rightarrow> json" where
  "with_entry k v (JObj kvs) = JObj (kvs @ [(k, v)])"
| "with_entry k v j = j"

definition ac_snapshot :: "limits \<Rightarrow> time \<Rightarrow> controller \<Rightarrow> json" where
  "ac_snapshot lm now c = JObj
     [(''active'', JArr (map (\<lambda>(k, w). ac_row now w) (ac_active c))),
      (''queued'', JArr (map (\<lambda>(i, w). with_entry ''position'' (JInt (int i + 1)) (ac_row now w))
                         (enumerate 0 (ac_queue c)))),
      (''limits'', limits_dict lm)]"

section \<open>Capacity\<close>

lemma active_units_simps [simp]:
  "active_units (c\<lparr>ac_active := a\<rparr>) = map (\<lambda>(k, w). (qw_repo w, qw_actor w, qw_blueprint w)) a"
  "active_units (c\<lparr>ac_queue := q\<rparr>) = active_units c"
  "active_units (c\<lparr>ac_seq := n\<rparr>) = active_units c"
  by (simp_all add: active_units_def)

lemma set_active_new: "k \<notin> fst ` set act \<Longrightarrow> set_active k w act = act @ [(k, w)]"
  by (simp add: set_active_def)

lemma within_add:
  assumes "within_limits lm (active_units c)" and "capacity_for lm (qw_repo w) (qw_actor w) (qw_blueprint w) c"
  shows "within_limits lm (active_units c @ [(qw_repo w, qw_actor w, qw_blueprint w)])"
proof -
  have le: "count_by f k us + (if b then 1 else 0) \<le> n"
    if "count_by f k us + (if b then 1 else 0) \<noteq> 0" "count_by f k us \<noteq> 0 \<longrightarrow> count_by f k us \<le> n"
       "b \<longrightarrow> count_by f k us < n" for f k us b and n :: int
    using that by (cases b) auto
  show ?thesis
    using assms unfolding within_limits_def capacity_for_def Let_def
    by (auto simp: count_by_def)
qed

lemma capacity_for_mono:
  assumes "active_units c' = active_units c @ us" and "capacity_for lm r a b c'"
  shows "capacity_for lm r a b c"
  using assms count_by_nonneg[of u_repo r us] count_by_nonneg[of u_actor a us] count_by_nonneg[of u_blueprint b us]
  unfolding capacity_for_def Let_def by (auto simp del: count_by_nonneg)

text \<open>What the loop does: it appends to the active work what it takes from the queue, keeps the
  limits, and leaves behind work that does not fit, unless the factory is full.\<close>

lemma drain_loop_spec:
  assumes "drain_loop lm q c adm def = (adm', def', rest, c')"
    and "within_limits lm (active_units c)" and "distinct (map fst (ac_active c))"
    and "distinct (map qw_work q)" and "fst ` set (ac_active c) \<inter> qw_work ` set q = {}"
  shows "\<exists>new d. ac_active c' = ac_active c @ map (\<lambda>w. (qw_work w, w)) new \<and> def' = def @ d
     \<and> adm' = adm @ map qw_work new
     \<and> mset q = mset new + mset d + mset rest \<and> subseq new q \<and> ac_queue c' = ac_queue c \<and> ac_seq c' = ac_seq c
     \<and> within_limits lm (active_units c') \<and> distinct (map fst (ac_active c'))
     \<and> (\<forall>w\<in>set d. \<not> capacity_for lm (qw_repo w) (qw_actor w) (qw_blueprint w) c')
     \<and> (rest \<noteq> [] \<longrightarrow> int (length (ac_active c')) \<ge> global_active lm)"
  using assms
proof (induction lm q c adm "def" arbitrary: adm' def' rest c' rule: drain_loop.induct)
  case (1 lm c adm "def")
  then show ?case by auto
next
  case (2 lm w q c adm "def")
  consider (full) "\<not> int (length (ac_active c)) < global_active lm"
    | (fit) "int (length (ac_active c)) < global_active lm" "capacity_for lm (qw_repo w) (qw_actor w) (qw_blueprint w) c"
    | (no) "int (length (ac_active c)) < global_active lm" "\<not> capacity_for lm (qw_repo w) (qw_actor w) (qw_blueprint w) c"
    by blast
  then show ?case
  proof cases
    case full
    with 2(3-) show ?thesis by (intro exI[of _ "[]"]) auto
  next
    case fit
    let ?c = "c\<lparr>ac_active := set_active (qw_work w) w (ac_active c)\<rparr>"
    have sa: "set_active (qw_work w) w (ac_active c) = ac_active c @ [(qw_work w, w)]"
      using 2(7) by (intro set_active_new) auto
    have au: "active_units ?c = active_units c @ [(qw_repo w, qw_actor w, qw_blueprint w)]"
      by (simp add: sa active_units_def)
    have "\<exists>new d. ac_active c' = ac_active ?c @ map (\<lambda>w. (qw_work w, w)) new \<and> def' = def @ d
       \<and> adm' = (adm @ [qw_work w]) @ map qw_work new
       \<and> mset q = mset new + mset d + mset rest \<and> subseq new q \<and> ac_queue c' = ac_queue ?c \<and> ac_seq c' = ac_seq ?c
       \<and> within_limits lm (active_units c') \<and> distinct (map fst (ac_active c'))
       \<and> (\<forall>w\<in>set d. \<not> capacity_for lm (qw_repo w) (qw_actor w) (qw_blueprint w) c')
       \<and> (rest \<noteq> [] \<longrightarrow> int (length (ac_active c')) \<ge> global_active lm)"
      using 2(3-7) fit sa within_add[OF 2(4) fit(2)] au
      by (intro 2(1)) (auto simp: au)
    then obtain new d where nd: "ac_active c' = ac_active ?c @ map (\<lambda>w. (qw_work w, w)) new" "def' = def @ d"
      "adm' = (adm @ [qw_work w]) @ map qw_work new" "mset q = mset new + mset d + mset rest" "subseq new q"
      "ac_queue c' = ac_queue ?c" "ac_seq c' = ac_seq ?c" "within_limits lm (active_units c')"
      "distinct (map fst (ac_active c'))"
      "\<forall>w\<in>set d. \<not> capacity_for lm (qw_repo w) (qw_actor w) (qw_blueprint w) c'"
      "rest \<noteq> [] \<longrightarrow> int (length (ac_active c')) \<ge> global_active lm" by blast
    show ?thesis by (rule exI[of _ "w # new"], rule exI[of _ d]) (use nd sa in auto)
  next
    case no
    have "\<exists>new d. ac_active c' = ac_active c @ map (\<lambda>w. (qw_work w, w)) new \<and> def' = (def @ [w]) @ d
       \<and> adm' = adm @ map qw_work new
       \<and> mset q = mset new + mset d + mset rest \<and> subseq new q \<and> ac_queue c' = ac_queue c \<and> ac_seq c' = ac_seq c
       \<and> within_limits lm (active_units c') \<and> distinct (map fst (ac_active c'))
       \<and> (\<forall>w\<in>set d. \<not> capacity_for lm (qw_repo w) (qw_actor w) (qw_blueprint w) c')
       \<and> (rest \<noteq> [] \<longrightarrow> int (length (ac_active c')) \<ge> global_active lm)"
      using 2(3-7) no by (intro 2(2)) auto
    then obtain new d where nd: "ac_active c' = ac_active c @ map (\<lambda>w. (qw_work w, w)) new" "def' = (def @ [w]) @ d"
      "adm' = adm @ map qw_work new" "mset q = mset new + mset d + mset rest" "subseq new q"
      "ac_queue c' = ac_queue c" "ac_seq c' = ac_seq c" "within_limits lm (active_units c')"
      "distinct (map fst (ac_active c'))"
      "\<forall>w\<in>set d. \<not> capacity_for lm (qw_repo w) (qw_actor w) (qw_blueprint w) c'"
      "rest \<noteq> [] \<longrightarrow> int (length (ac_active c')) \<ge> global_active lm" by blast
    have "active_units c' = active_units c @ map (\<lambda>w. (qw_repo w, qw_actor w, qw_blueprint w)) new"
      using nd(1) by (simp add: active_units_def)
    then have "\<not> capacity_for lm (qw_repo w) (qw_actor w) (qw_blueprint w) c'"
      using no(2) capacity_for_mono by blast
    with nd show ?thesis by (intro exI[of _ new] exI[of _ "w # d"]) auto
  qed
qed

lemma mset_heappush [simp]: "mset (heappush w q) = add_mset w (mset q)"
  by (induction w q rule: heappush.induct) auto

lemma mset_fold_heappush [simp]: "mset (fold heappush ws q) = mset ws + mset q"
  by (induction ws arbitrary: q) auto

lemma set_heappush [simp]: "set (heappush w q) = insert w (set q)"
  using mset_heappush[of w q] by (metis set_mset_add_mset_insert set_mset_mset)

lemma work_le_trans: "work_le a b \<Longrightarrow> work_le b c \<Longrightarrow> work_le a c"
  unfolding work_le_def by auto

lemma work_le_total: "work_le a b \<or> work_le b a"
  unfolding work_le_def by auto

lemma sorted_heappush: "sorted_wrt work_le q \<Longrightarrow> sorted_wrt work_le (heappush w q)"
proof (induction w q rule: heappush.induct)
  case (2 w x xs)
  then show ?case using work_le_trans work_le_total by (auto split: if_splits) blast+
qed simp

lemma sorted_fold_heappush: "sorted_wrt work_le q \<Longrightarrow> sorted_wrt work_le (fold heappush ws q)"
  by (induction ws arbitrary: q) (auto simp: sorted_heappush)

lemma drain_loop_suffix: "drain_loop lm q c adm def = (adm', def', rest, c') \<Longrightarrow> suffix rest q"
  by (induction lm q c adm "def" rule: drain_loop.induct) (auto split: if_splits simp: suffix_ConsI)

lemma sorted_suffix: "sorted_wrt work_le q \<Longrightarrow> suffix r q \<Longrightarrow> sorted_wrt work_le r"
  by (auto simp: suffix_def sorted_wrt_append)

definition controller_inv :: "limits \<Rightarrow> controller \<Rightarrow> bool" where
  "controller_inv lm c = (within_limits lm (active_units c) \<and> distinct (map fst (ac_active c))
     \<and> distinct (map qw_work (ac_queue c)) \<and> fst ` set (ac_active c) \<inter> qw_work ` set (ac_queue c) = {}
     \<and> int (length (ac_queue c)) \<le> max 0 (queue_size lm) \<and> sorted_wrt work_le (ac_queue c))"

lemma mset_map_eq_distinct: "mset xs = mset ys \<Longrightarrow> distinct (map f xs) = distinct (map f ys)"
  by (metis mset_eq_imp_distinct_iff mset_map)

lemma ac_drain_spec:
  assumes "controller_inv lm c" and "ac_drain lm c = (adm, c')"
  shows "controller_inv lm c' \<and> (\<exists>new. adm = map qw_work new \<and> subseq new (ac_queue c)
       \<and> ac_active c' = ac_active c @ map (\<lambda>w. (qw_work w, w)) new
       \<and> mset (ac_queue c) = mset new + mset (ac_queue c'))
     \<and> (int (length (ac_active c')) \<ge> global_active lm
        \<or> (\<forall>w\<in>set (ac_queue c'). \<not> capacity_for lm (qw_repo w) (qw_actor w) (qw_blueprint w) c'))"
proof -
  obtain adm1 d1 rest c1 where l: "drain_loop lm (ac_queue c) c [] [] = (adm1, d1, rest, c1)"
    by (metis prod_cases4)
  with assms(2) have c': "adm = adm1" "c' = c1\<lparr>ac_queue := fold heappush d1 rest\<rparr>" by (auto simp: ac_drain_def)
  have pre: "within_limits lm (active_units c)" "distinct (map fst (ac_active c))" "distinct (map qw_work (ac_queue c))"
    "fst ` set (ac_active c) \<inter> qw_work ` set (ac_queue c) = {}" using assms(1) by (auto simp: controller_inv_def)
  obtain new where n: "ac_active c1 = ac_active c @ map (\<lambda>w. (qw_work w, w)) new" "adm1 = map qw_work new"
    "mset (ac_queue c) = mset new + mset d1 + mset rest" "subseq new (ac_queue c)"
    "within_limits lm (active_units c1)" "distinct (map fst (ac_active c1))"
    "\<forall>w\<in>set d1. \<not> capacity_for lm (qw_repo w) (qw_actor w) (qw_blueprint w) c1"
    "rest \<noteq> [] \<longrightarrow> int (length (ac_active c1)) \<ge> global_active lm"
    using drain_loop_spec[OF l pre] unfolding append_Nil by blast
  let ?q = "fold heappush d1 rest"
  have ms: "mset (ac_queue c) = mset (new @ ?q)" using n(3) by simp
  have dis: "distinct (map qw_work (new @ ?q))" using mset_map_eq_distinct[OF ms, of qw_work] pre(3) by blast
  have st: "set (ac_queue c) = set new \<union> set ?q" using ms by (metis set_append set_mset_mset)
  have len: "length ?q \<le> length (ac_queue c)" using mset_eq_length[OF ms] by simp
  have srt: "sorted_wrt work_le ?q"
    using drain_loop_suffix[OF l] assms(1) by (auto simp: controller_inv_def intro: sorted_fold_heappush sorted_suffix)
  have disj: "fst ` set (ac_active c1) \<inter> qw_work ` set ?q = {}"
    using pre(4) dis st n(1) by (auto simp: image_iff) force+
  have "controller_inv lm c'"
    using n(5,6) dis disj srt len assms(1) unfolding controller_inv_def c'(2) by auto
  moreover have "capacity_for lm r a b c' = capacity_for lm r a b c1" for r a b
    by (simp add: capacity_for_def c'(2))
  moreover have "set ?q = set d1 \<union> set rest"
    using mset_fold_heappush[of d1 rest] by (metis set_mset_mset set_mset_union)
  ultimately show ?thesis using n c' ms by auto
qed

lemma controller_inv_new: "controller_inv lm new_controller"
  by (simp add: controller_inv_def new_controller_def active_units_def)

lemma ac_submit_inv:
  assumes inv: "controller_inv lm c" and sub: "ac_submit lm k repo actor blueprint p now c = (d, c')"
  shows "controller_inv lm c'"
proof -
  let ?w = "new_item k repo actor blueprint p now c"
  have w: "qw_work ?w = k" "qw_repo ?w = repo" "qw_actor ?w = actor" "qw_blueprint ?w = blueprint"
    by (simp_all add: new_item_def)
  consider (same) "c' = c"
    | (admit) "k \<notin> fst ` set (ac_active c)" "\<forall>w\<in>set (ac_queue c). qw_work w \<noteq> k" "capacity_for lm repo actor blueprint c"
        "c' = c\<lparr>ac_seq := ac_seq c + 1, ac_active := set_active k ?w (ac_active c)\<rparr>"
    | (queue) "k \<notin> fst ` set (ac_active c)" "\<forall>w\<in>set (ac_queue c). qw_work w \<noteq> k"
        "int (length (ac_queue c)) < queue_size lm"
        "c' = c\<lparr>ac_seq := ac_seq c + 1, ac_queue := heappush ?w (ac_queue c)\<rparr>"
  proof (cases "k \<in> fst ` set (ac_active c) \<or> list_ex (\<lambda>w. qw_work w = k) (ac_queue c)")
    case True
    with sub same show thesis by (simp add: ac_submit_def)
  next
    case False
    note fresh = this
    then have f: "k \<notin> fst ` set (ac_active c)" "\<forall>w\<in>set (ac_queue c). qw_work w \<noteq> k"
      by (auto simp: list_ex_iff)
    show thesis
    proof (cases "capacity_for lm repo actor blueprint c")
      case True
      with sub fresh have "c' = c\<lparr>ac_seq := ac_seq c + 1, ac_active := set_active k ?w (ac_active c)\<rparr>"
        by (simp add: ac_submit_def)
      with f True show thesis by (rule admit)
    next
      case no: False
      show thesis
      proof (cases "int (length (ac_queue c)) \<ge> queue_size lm")
        case True
        with sub fresh no same show thesis by (simp add: ac_submit_def)
      next
        case False
        with sub fresh no have "c' = c\<lparr>ac_seq := ac_seq c + 1, ac_queue := heappush ?w (ac_queue c)\<rparr>"
          by (simp add: ac_submit_def Let_def)
        with f False show thesis by (intro queue) auto
      qed
    qed
  qed
  then show ?thesis
  proof cases
    case same
    with inv show ?thesis by simp
  next
    case admit
    have sa: "set_active k ?w (ac_active c) = ac_active c @ [(k, ?w)]" using admit(1) by (rule set_active_new)
    have "within_limits lm (active_units c @ [(repo, actor, blueprint)])"
      using within_add[of lm c ?w] inv admit(3) unfolding w controller_inv_def by blast
    then have "within_limits lm (active_units c')"
      unfolding admit(4) active_units_def sa by (simp add: new_item_def)
    then show ?thesis
      using inv admit sa unfolding controller_inv_def by auto
  next
    case queue
    have len: "length (heappush ?w (ac_queue c)) = Suc (length (ac_queue c))"
      using mset_eq_length[of "heappush ?w (ac_queue c)" "?w # ac_queue c"] by simp
    have "mset (heappush ?w (ac_queue c)) = mset (?w # ac_queue c)" by simp
    then have "distinct (map qw_work (heappush ?w (ac_queue c))) = distinct (map qw_work (?w # ac_queue c))"
      by (rule mset_map_eq_distinct)
    moreover have "distinct (map qw_work (?w # ac_queue c))"
      using inv queue(2) w(1) by (auto simp: controller_inv_def)
    ultimately show ?thesis
      using inv queue len w(1) unfolding controller_inv_def by (auto simp: sorted_heappush)
  qed
qed

lemma ac_complete_inv:
  assumes "controller_inv lm c" and "ac_complete lm k c = (adm, c')"
  shows "controller_inv lm c'"
proof -
  let ?c = "c\<lparr>ac_active := filter (\<lambda>kw. fst kw \<noteq> k) (ac_active c)\<rparr>"
  have "mset (active_units ?c) \<subseteq># mset (active_units c)"
    unfolding active_units_simps(1) active_units_def[of c] mset_map mset_filter
    by (rule image_mset_subseteq_mono[OF multiset_filter_subset])
  then have "controller_inv lm ?c"
    using assms(1) unfolding controller_inv_def by (auto intro: within_mono distinct_map_filter)
  then show ?thesis using ac_drain_spec assms(2) unfolding ac_complete_def by blast
qed

inductive controller_step :: "limits \<Rightarrow> controller \<Rightarrow> controller \<Rightarrow> bool" for lm where
  cs_submit: "ac_submit lm k repo actor blueprint p now c = (d, c') \<Longrightarrow> controller_step lm c c'"
| cs_complete: "ac_complete lm k c = (adm, c') \<Longrightarrow> controller_step lm c c'"
| cs_drain: "ac_drain lm c = (adm, c') \<Longrightarrow> controller_step lm c c'"

interpretation controller: inductive_invariant "\<lambda>c. c = new_controller" "controller_step lm" "controller_inv lm" for lm
proof
  show "controller_inv lm c" if "c = new_controller" for c using that controller_inv_new by simp
  show "controller_inv lm c'" if "controller_inv lm c" "controller_step lm c c'" for c c'
    using that(2,1) by (cases rule: controller_step.cases) (auto dest: ac_submit_inv ac_complete_inv ac_drain_spec)
qed

text \<open>The in-memory controller never over-admits. After any sequence of submissions, completions
  and drains the active work respects the global, repository, actor and blueprint limits, the queue is
  no longer than its bound, and no work is queued twice or both queued and active.\<close>

theorem controller_capacity:
  assumes "reach (\<lambda>c. c = new_controller) (controller_step lm) c"
  shows "within_limits lm (active_units c) \<and> int (length (ac_queue c)) \<le> max 0 (queue_size lm)
     \<and> distinct (map fst (ac_active c) @ map qw_work (ac_queue c))"
  using controller.reach_inv[OF assms] by (auto simp: controller_inv_def)

text \<open>The in-memory drain is fair and work-conserving. It admits items in the queue's order
  (priority, then submission), and stops only when the factory is globally full or when nothing left
  in the queue fits.\<close>

theorem controller_drain_work_conserving:
  assumes "reach (\<lambda>c. c = new_controller) (controller_step lm) c" and "ac_drain lm c = (adm, c')"
  shows "(\<exists>new. adm = map qw_work new \<and> subseq new (ac_queue c) \<and> mset (ac_queue c) = mset new + mset (ac_queue c'))
     \<and> sorted_wrt work_le (ac_queue c)
     \<and> (int (length (ac_active c')) \<ge> global_active lm
        \<or> (\<forall>w\<in>set (ac_queue c'). \<not> capacity_for lm (qw_repo w) (qw_actor w) (qw_blueprint w) c'))"
  using ac_drain_spec[OF controller.reach_inv[OF assms(1)] assms(2)] controller.reach_inv[OF assms(1)]
  by (auto simp: controller_inv_def)

definition one_each :: limits where
  "one_each = \<lparr>global_active = 2, per_repo_active = 1, per_actor_active = 2, per_blueprint_active = 2, queue_size = 4\<rparr>"

definition demo_controller :: controller where
  "demo_controller =
     snd (ac_submit one_each ''w2'' ''r'' ''a'' ''b'' NORMAL 0 (snd (ac_submit one_each ''w1'' ''r'' ''a'' ''b'' NORMAL 0 new_controller)))"

lemma demo_controller_reach: "reach (\<lambda>c. c = new_controller) (controller_step one_each) demo_controller"
proof -
  let ?c1 = "snd (ac_submit one_each ''w1'' ''r'' ''a'' ''b'' NORMAL 0 new_controller)"
  have "reach (\<lambda>c. c = new_controller) (controller_step one_each) new_controller" by (rule reach_init) simp
  then have "reach (\<lambda>c. c = new_controller) (controller_step one_each) ?c1"
    using cs_submit[OF surjective_pairing] by (rule reach_step)
  then show ?thesis unfolding demo_controller_def using cs_submit[OF surjective_pairing] by (rule reach_step)
qed

theorem controller_capacity_witness:
  "length (ac_queue demo_controller) = 1 \<and> within_limits one_each (active_units demo_controller)"
proof -
  have "length (ac_queue demo_controller) = 1" by code_simp
  with controller_capacity[OF demo_controller_reach] show ?thesis by blast
qed

theorem controller_drain_work_conserving_witness:
  "fst (ac_complete one_each ''w1'' demo_controller) = [''w2'']
   \<and> (\<exists>new. fst (ac_drain one_each demo_controller) = map qw_work new \<and> subseq new (ac_queue demo_controller))"
proof -
  have "fst (ac_complete one_each ''w1'' demo_controller) = [''w2'']" by code_simp
  with controller_drain_work_conserving[OF demo_controller_reach surjective_pairing] show ?thesis by blast
qed

end
