(* ===== verification/DurableAdmission.thy ===== *)
theory DurableAdmission
  imports Admission
begin

text \<open>
  The durable admission store and dispatch outbox, \<open>src/swfactory/durable_admission.py\<close>.

  \<^item> \<open>work_row\<close>, \<open>order_row\<close>, \<open>member_row\<close>, \<open>dispatch_row\<close>, \<open>throttle_row\<close> and \<open>fair_row\<close> are the rows of the
    tables, \<open>adm\<close> the database together with the process's own \<open>_inflight\<close> dict.
  \<^item> \<open>submit\<close>, \<open>drain\<close>, \<open>cancel\<close>, \<open>complete\<close>, \<open>claim\<close>, \<open>record_member_epoch\<close>, \<open>record_dispatch\<close>,
    \<open>release_dispatch\<close>, \<open>mark_undeliverable\<close>, \<open>note_outcome\<close> and \<open>migrate_legacy\<close> are the operations; each
    is one \<open>BEGIN IMMEDIATE\<close> transaction (two for those that end in \<open>drain\<close>), so they are atomic across
    processes. A transaction that raises is rolled back.
  \<^item> The clock readings of a call are a parameter \<open>ck\<close>. The text of a float, which enters the lease
    token and the request digest, is the parameter \<open>fr\<close> of the configuration.
  \<^item> Capacity is counted in member units: \<open>held_units\<close> lists the units of held members of holding
    orders. The lemmas show that it never exceeds a limit, that delivery attempts are bounded, that a
    delivery token is exclusive, and how \<open>drain\<close> treats a blocked order.
\<close>

section \<open>Data\<close>

definition WORK_ORDER_SCHEMA :: int where
  "WORK_ORDER_SCHEMA = 1"

definition MAX_DISPATCH_ATTEMPTS :: int where
  "MAX_DISPATCH_ATTEMPTS = 5"

definition DISPATCH_LEASE_S :: real where
  "DISPATCH_LEASE_S = 300"

fun weight :: "priority \<Rightarrow> nat" where
  "weight HOTFIX = 8"
| "weight MANUAL = 4"
| "weight NORMAL = 2"
| "weight BACKGROUND = 1"

datatype end_state = Success | Failed | Cancelled | Rejected | Cleaned

fun end_str :: "end_state \<Rightarrow> string" where
  "end_str Success = ''success''"
| "end_str Failed = ''failed''"
| "end_str Cancelled = ''cancelled''"
| "end_str Rejected = ''rejected''"
| "end_str Cleaned = ''cleaned''"

definition end_states :: "end_state list" where
  "end_states = [Success, Failed, Cancelled, Rejected, Cleaned]"

definition TERMINAL_PRECEDENCE :: "end_state list" where
  "TERMINAL_PRECEDENCE = [Rejected, Failed, Cancelled, Cleaned, Success]"

text \<open>\<open>state in TERMINAL_STATES\<close> on the string an operation is given.\<close>

definition terminal_of :: "string \<Rightarrow> end_state option" where
  "terminal_of s = List.find (\<lambda>e. end_str e = s) end_states"

datatype work_state = Queued | Admitted | Dispatching | Bound | LegacyActive | Ended end_state

fun work_state_str :: "work_state \<Rightarrow> string" where
  "work_state_str Queued = ''queued''"
| "work_state_str Admitted = ''admitted''"
| "work_state_str Dispatching = ''dispatching''"
| "work_state_str Bound = ''bound''"
| "work_state_str LegacyActive = ''active''"
| "work_state_str (Ended e) = end_str e"

definition holding :: "work_state \<Rightarrow> bool" where
  "holding s = (s \<in> set [Admitted, Dispatching, Bound])"

datatype member_state = Held | MEnded end_state

datatype dispatch_state = Pending | Inflight | Delivered | Abandoned | Undeliverable

fun dispatch_state_str :: "dispatch_state \<Rightarrow> string" where
  "dispatch_state_str Pending = ''pending''"
| "dispatch_state_str Inflight = ''inflight''"
| "dispatch_state_str Delivered = ''delivered''"
| "dispatch_state_str Abandoned = ''abandoned''"
| "dispatch_state_str Undeliverable = ''undeliverable''"

record capacity_block =
  cb_dimension :: string
  cb_current :: int
  cb_limit :: int
  cb_key :: string

record work_row =
  w_id :: string
  w_repo :: string
  w_actor :: string
  w_blueprint :: string
  w_priority :: priority
  w_sequence :: int
  w_state :: work_state
  w_reason :: string
  w_limiting :: "capacity_block option"
  w_cell :: "string option"
  w_cell_epoch :: "int option"
  w_enqueued_at :: time
  w_admitted_at :: "time option"
  w_terminal_at :: "time option"
  w_updated_at :: time

record order_row =
  o_work :: string
  o_schema_version :: int
  o_digest :: string
  o_payload :: json
  o_created_at :: time

record member_row =
  m_work :: string
  m_job_idx :: int
  m_repo :: string
  m_cell :: string
  m_epoch :: "int option"
  m_state :: member_state
  m_created_at :: time
  m_updated_at :: time

record dispatch_row =
  dr_work :: string
  dr_attempt :: int
  dr_state :: dispatch_state
  dr_token :: "string option"
  dr_lease_until :: "time option"
  dr_dag_run :: "string option"
  dr_last_error :: "string option"
  dr_observation :: "json option"
  dr_created_at :: time
  dr_updated_at :: time

record throttle_row =
  th_scope :: string
  th_key :: string
  th_reason :: string
  th_until :: time

record fair_row =
  fr_priority :: priority
  fr_deficit :: nat
  fr_served :: int

record adm =
  ad_work :: "work_row list"
  ad_orders :: "order_row list"
  ad_members :: "member_row list"
  ad_dispatch :: "dispatch_row list"
  ad_throttles :: "throttle_row list"
  ad_fairness :: "fair_row list"
  ad_seq :: int
  ad_inflight :: "(string \<times> string) list"

record adm_config =
  cf_limits :: limits
  cf_lease_s :: real
  cf_float :: "real \<Rightarrow> string"

record member_spec =
  ms_job_idx :: int
  ms_repo :: string
  ms_cell :: string

record dispatch_intent =
  di_work :: string
  di_attempt :: int
  di_token :: string
  di_order :: order_row
  di_members :: "member_row list"

record admission_decision =
  de_state :: string
  de_reason :: string
  de_position :: "nat option"
  de_limiting :: "capacity_block option"
  de_intent :: "dispatch_intent option"

datatype adm_error = AdmValueError | WorkOrderConflict | DispatchLeaseLost | AdmKeyError

definition empty_adm :: adm where
  "empty_adm = \<lparr>ad_work = [], ad_orders = [], ad_members = [], ad_dispatch = [], ad_throttles = [],
     ad_fairness = map (\<lambda>p. \<lparr>fr_priority = p, fr_deficit = 0, fr_served = 0\<rparr>) priorities, ad_seq = 0, ad_inflight = []\<rparr>"

section \<open>Reads\<close>

definition request_digest :: "(real \<Rightarrow> string) \<Rightarrow> json \<Rightarrow> string" where
  "request_digest fr payload = ''sha256:'' @ sha256_hex (jdumps True fr (jcanon payload))"

definition work_of :: "string \<Rightarrow> adm \<Rightarrow> work_row option" where
  "work_of k a = select_one w_id k (ad_work a)"

definition dispatch_of :: "string \<Rightarrow> adm \<Rightarrow> dispatch_row option" where
  "dispatch_of k a = select_one dr_work k (ad_dispatch a)"

definition work_order :: "string \<Rightarrow> adm \<Rightarrow> order_row option" where
  "work_order k a = select_one o_work k (ad_orders a)"

definition members_of :: "string \<Rightarrow> adm \<Rightarrow> member_row list" where
  "members_of k a = sort_key m_job_idx (filter (\<lambda>m. m_work m = k) (ad_members a))"

definition state_of :: "string \<Rightarrow> adm \<Rightarrow> string option" where
  "state_of k a = map_option (\<lambda>w. work_state_str (w_state w)) (work_of k a)"

text \<open>\<open>ORDER BY priority, sequence\<close>: two stable sorts, the major key last.\<close>

definition queued_rows :: "adm \<Rightarrow> work_row list" where
  "queued_rows a = sort_key (\<lambda>w. prio_int (w_priority w)) (sort_key w_sequence (filter (\<lambda>w. w_state w = Queued) (ad_work a)))"

definition count_queued :: "adm \<Rightarrow> int" where
  "count_queued a = int (length (filter (\<lambda>w. w_state w = Queued) (ad_work a)))"

definition adm_position :: "string \<Rightarrow> adm \<Rightarrow> nat option" where
  "adm_position k a = (let q = queued_rows a; n = length (takeWhile (\<lambda>w. w_id w \<noteq> k) q) in
     if n < length q then Some (Suc n) else None)"

definition any_other_candidate :: "string \<Rightarrow> adm \<Rightarrow> bool" where
  "any_other_candidate k a = list_ex (\<lambda>w. w_state w = Queued \<and> w_id w \<noteq> k) (ad_work a)"

text \<open>The join of held members with holding orders.\<close>

definition held_units :: "adm \<Rightarrow> unit_use list" where
  "held_units a = concat (map (\<lambda>m. if m_state m = Held
       then map (\<lambda>w. (m_repo m, w_actor w, w_blueprint w))
              (filter (\<lambda>w. w_id w = m_work m \<and> holding (w_state w)) (ad_work a))
       else []) (ad_members a))"

section \<open>Capacity\<close>

type_synonym check = "string \<times> string \<times> int \<times> int \<times> int"

definition dedup_sorted :: "string list \<Rightarrow> string list" where
  "dedup_sorted xs = remdups (sort xs)"

definition checks :: "limits \<Rightarrow> string list \<Rightarrow> string \<Rightarrow> string \<Rightarrow> unit_use list \<Rightarrow> check list" where
  "checks lm repos actor blueprint held =
     (let wanted = (if repos = [] then [''''] else repos) in
      [(''global'', '''', int (length held), int (length wanted), global_active lm)]
      @ map (\<lambda>r. (''repo'', r, count_by u_repo r held, count_by (\<lambda>x. x) r wanted, per_repo_active lm)) (dedup_sorted wanted)
      @ [(''actor'', actor, count_by u_actor actor held, int (length wanted), per_actor_active lm)]
      @ [(''blueprint'', blueprint, count_by u_blueprint blueprint held, int (length wanted), per_blueprint_active lm)])"

fun first_block :: "check list \<Rightarrow> capacity_block option" where
  "first_block [] = None"
| "first_block ((dimension, k, current, needed, limit) # cs) =
     (if current + needed > limit
      then Some \<lparr>cb_dimension = dimension, cb_current = current, cb_limit = limit, cb_key = k\<rparr>
      else first_block cs)"

definition capacity_block_for :: "limits \<Rightarrow> string list \<Rightarrow> string \<Rightarrow> string \<Rightarrow> adm \<Rightarrow> capacity_block option" where
  "capacity_block_for lm repos actor blueprint a = first_block (checks lm repos actor blueprint (held_units a))"

definition impossible :: "limits \<Rightarrow> string list \<Rightarrow> string \<Rightarrow> string \<Rightarrow> capacity_block option" where
  "impossible lm repos actor blueprint = first_block (checks lm repos actor blueprint [])"

text \<open>\<open>_throttle\<close> deletes what has expired, then answers with the first live throttle that applies.\<close>

definition throttle :: "string \<Rightarrow> time \<Rightarrow> adm \<Rightarrow> string option \<times> adm" where
  "throttle repo now a =
     (let a' = a\<lparr>ad_throttles := delete_where (\<lambda>t. th_until t \<le> now) (ad_throttles a)\<rparr> in
      (map_option (\<lambda>t. th_scope t @ '':'' @ th_key t @ '':'' @ th_reason t)
         (List.find (\<lambda>t. th_until t > now \<and> (th_scope t = ''global'' \<or> (th_scope t = ''repo'' \<and> th_key t = repo)))
            (ad_throttles a')), a'))"

definition rate_limit :: "string option \<Rightarrow> capacity_block option \<Rightarrow> capacity_block option" where
  "rate_limit th block = (case th of None \<Rightarrow> block
     | Some t \<Rightarrow> Some \<lparr>cb_dimension = ''rate_limit'', cb_current = 1, cb_limit = 0, cb_key = t\<rparr>)"

definition multi_repo_key :: "string list \<Rightarrow> string" where
  "multi_repo_key repos = ''multi:'' @ take 16 (sha256_hex (join NUL repos))"

definition worst :: "end_state list \<Rightarrow> end_state" where
  "worst es = (case List.find (\<lambda>c. c \<in> set es) TERMINAL_PRECEDENCE of None \<Rightarrow> Success | Some c \<Rightarrow> c)"

section \<open>Table updates\<close>

definition set_work :: "(work_row \<Rightarrow> bool) \<Rightarrow> (work_row \<Rightarrow> work_row) \<Rightarrow> adm \<Rightarrow> adm" where
  "set_work p f a = a\<lparr>ad_work := upd_where p f (ad_work a)\<rparr>"

definition set_members :: "(member_row \<Rightarrow> bool) \<Rightarrow> (member_row \<Rightarrow> member_row) \<Rightarrow> adm \<Rightarrow> adm" where
  "set_members p f a = a\<lparr>ad_members := upd_where p f (ad_members a)\<rparr>"

definition set_dispatch :: "(dispatch_row \<Rightarrow> bool) \<Rightarrow> (dispatch_row \<Rightarrow> dispatch_row) \<Rightarrow> adm \<Rightarrow> adm" where
  "set_dispatch p f a = a\<lparr>ad_dispatch := upd_where p f (ad_dispatch a)\<rparr>"

definition next_sequence :: "adm \<Rightarrow> int \<times> adm" where
  "next_sequence a = (ad_seq a + 1, a\<lparr>ad_seq := ad_seq a + 1\<rparr>)"

definition drop_inflight :: "string \<Rightarrow> adm \<Rightarrow> adm" where
  "drop_inflight k a = a\<lparr>ad_inflight := filter (\<lambda>kt. fst kt \<noteq> k) (ad_inflight a)\<rparr>"

text \<open>\<open>_open_dispatch\<close>: insert a pending intent, or reopen an abandoned one.\<close>

definition open_dispatch :: "string \<Rightarrow> time \<Rightarrow> adm \<Rightarrow> adm" where
  "open_dispatch k now a =
     (if dispatch_of k a = None then
        a\<lparr>ad_dispatch := ad_dispatch a @
            [\<lparr>dr_work = k, dr_attempt = 0, dr_state = Pending, dr_token = None, dr_lease_until = None,
              dr_dag_run = None, dr_last_error = None, dr_observation = None, dr_created_at = now,
              dr_updated_at = now\<rparr>]\<rparr>
      else set_dispatch (\<lambda>d. dr_work d = k \<and> dr_state d = Abandoned)
             (\<lambda>d. d\<lparr>dr_state := Pending, dr_updated_at := now\<rparr>) a)"

section \<open>Claiming a delivery\<close>

definition claim_token :: "adm_config \<Rightarrow> string \<Rightarrow> int \<Rightarrow> time \<Rightarrow> string" where
  "claim_token cf k attempt now =
     take 32 (sha256_hex (k @ NUL @ int_str attempt @ NUL @ cf_float cf now))"

definition claim_refused :: "string \<Rightarrow> time \<Rightarrow> dispatch_row \<Rightarrow> work_row \<Rightarrow> adm \<Rightarrow> bool" where
  "claim_refused k now d w a =
     (dr_state d \<in> set [Delivered, Abandoned, Undeliverable]
      \<or> w_state w \<notin> set [Admitted, Dispatching]
      \<or> k \<in> fst ` set (ad_inflight a)
      \<or> (w_state w = Dispatching \<and> (case dr_lease_until d of None \<Rightarrow> False | Some t \<Rightarrow> t > now))
      \<or> dr_attempt d + 1 > MAX_DISPATCH_ATTEMPTS)"

text \<open>\<open>_claim\<close> raises only for a work id without an order, and then nothing is kept.\<close>

definition claim ::
  "adm_config \<Rightarrow> string \<Rightarrow> real option \<Rightarrow> time \<Rightarrow> adm \<Rightarrow> (adm_error + dispatch_intent option) \<times> adm" where
  "claim cf k lease_s now a =
     (let lease = (case lease_s of None \<Rightarrow> cf_lease_s cf | Some l \<Rightarrow> l) in
      case (dispatch_of k a, work_of k a) of
        (Some d, Some w) \<Rightarrow>
          if claim_refused k now d w a then (Inr None, a)
          else
            let attempt = dr_attempt d + 1;
                token = claim_token cf k attempt now;
                a1 = set_dispatch (\<lambda>d. dr_work d = k)
                       (\<lambda>d. d\<lparr>dr_attempt := attempt, dr_state := Inflight, dr_token := Some token,
                             dr_lease_until := Some (now + max 0 lease), dr_updated_at := now\<rparr>) a;
                a2 = set_work (\<lambda>w. w_id w = k)
                       (\<lambda>w. w\<lparr>w_state := Dispatching, w_reason := ''dispatching'', w_updated_at := now\<rparr>) a1
            in (case work_order k a2 of
                  None \<Rightarrow> (Inl AdmKeyError, a)
                | Some ord \<Rightarrow>
                    (Inr (Some \<lparr>di_work = k, di_attempt = attempt, di_token = token, di_order = ord,
                                di_members = members_of k a2\<rparr>),
                     a2\<lparr>ad_inflight := (k, token) # ad_inflight a2\<rparr>))
      | _ \<Rightarrow> (Inr None, a))"

definition claim_dispatch ::
  "adm_config \<Rightarrow> string \<Rightarrow> real option \<Rightarrow> time \<Rightarrow> adm \<Rightarrow> (adm_error + dispatch_intent option) \<times> adm" where
  "claim_dispatch cf k lease_s now a = claim cf k lease_s now a"

definition lease_ok :: "string \<Rightarrow> string \<Rightarrow> adm \<Rightarrow> bool" where
  "lease_ok k token a = (case dispatch_of k a of None \<Rightarrow> False
     | Some d \<Rightarrow> dr_token d = Some token \<and> dr_state d = Inflight)"

definition assert_lease :: "string \<Rightarrow> string \<Rightarrow> adm \<Rightarrow> adm_error + unit" where
  "assert_lease k token a = (if lease_ok k token a then Inr () else Inl DispatchLeaseLost)"

definition attempts_exhausted :: "string \<Rightarrow> adm \<Rightarrow> bool" where
  "attempts_exhausted k a = (case dispatch_of k a of None \<Rightarrow> False | Some d \<Rightarrow> dr_attempt d \<ge> MAX_DISPATCH_ATTEMPTS)"

section \<open>Submission\<close>

fun digits_val :: "nat \<Rightarrow> string \<Rightarrow> nat option" where
  "digits_val acc [] = Some acc"
| "digits_val acc (c # cs) =
     (let n = of_char c :: nat in if 48 \<le> n \<and> n \<le> 57 then digits_val (10 * acc + (n - 48)) cs else None)"

text \<open>\<open>int()\<close> of a decoded value. Digit groups joined by underscores are not covered.\<close>

definition int_of_str :: "string \<Rightarrow> int option" where
  "int_of_str s =
     (let t = py_strip s in
      case t of
        [] \<Rightarrow> None
      | c # r \<Rightarrow>
          if c = CHR ''-'' then (if r = [] then None else map_option (\<lambda>n. - int n) (digits_val 0 r))
          else if c = CHR ''+'' then (if r = [] then None else map_option int (digits_val 0 r))
          else map_option int (digits_val 0 t))"

fun py_int :: "json \<Rightarrow> int option" where
  "py_int (JInt i) = Some i"
| "py_int (JBool b) = Some (if b then 1 else 0)"
| "py_int (JReal r) = Some (if r < 0 then \<lceil>r\<rceil> else \<lfloor>r\<rfloor>)"
| "py_int (JStr s) = int_of_str s"
| "py_int v = None"

definition order_schema :: "json \<Rightarrow> int option" where
  "order_schema ord = (case jget ''schema_version'' ord of None \<Rightarrow> Some 0 | Some v \<Rightarrow> py_int v)"

definition submit_valid :: "json \<Rightarrow> member_spec list \<Rightarrow> bool" where
  "submit_valid ord ms = (ms \<noteq> [] \<and> distinct (map ms_job_idx ms) \<and> distinct (map ms_cell ms)
     \<and> order_schema ord = Some WORK_ORDER_SCHEMA)"

definition repo_key_of :: "string list \<Rightarrow> string" where
  "repo_key_of repos = (if length (remdups repos) = 1 then hd repos else multi_repo_key repos)"

definition plain_decision :: "string \<Rightarrow> string \<Rightarrow> nat option \<Rightarrow> capacity_block option \<Rightarrow> admission_decision" where
  "plain_decision st reason pos block = \<lparr>de_state = st, de_reason = reason, de_position = pos, de_limiting = block, de_intent = None\<rparr>"

definition duplicate_decision :: "string \<Rightarrow> work_row \<Rightarrow> adm \<Rightarrow> admission_decision" where
  "duplicate_decision k w a =
     (let st = work_state_str (w_state w) in
      if holding (w_state w) then plain_decision st (''duplicate_'' @ st) None None
      else if w_state w = Queued then plain_decision ''queued'' ''duplicate_queued'' (adm_position k a) None
      else plain_decision st ''duplicate_terminal'' None None)"

definition same_order :: "string \<Rightarrow> string \<Rightarrow> adm \<Rightarrow> bool" where
  "same_order k digest a = (case work_order k a of None \<Rightarrow> True | Some r \<Rightarrow> o_digest r = digest)"

definition new_work ::
  "string \<Rightarrow> string \<Rightarrow> string \<Rightarrow> string \<Rightarrow> priority \<Rightarrow> int \<Rightarrow> capacity_block option \<Rightarrow> member_spec list \<Rightarrow> time \<Rightarrow> work_row" where
  "new_work k repo_key actor blueprint p seq block ms now =
     \<lparr>w_id = k, w_repo = repo_key, w_actor = actor, w_blueprint = blueprint, w_priority = p, w_sequence = seq,
      w_state = (if block = None then Admitted else Queued),
      w_reason = (if block = None then ''admitted'' else ''capacity''), w_limiting = block,
      w_cell = Some (hd (sort (map ms_cell ms))), w_cell_epoch = None, w_enqueued_at = now,
      w_admitted_at = (if block = None then Some now else None), w_terminal_at = None, w_updated_at = now\<rparr>"

definition new_member :: "string \<Rightarrow> time \<Rightarrow> member_spec \<Rightarrow> member_row" where
  "new_member k now m = \<lparr>m_work = k, m_job_idx = ms_job_idx m, m_repo = ms_repo m, m_cell = ms_cell m,
     m_epoch = None, m_state = Held, m_created_at = now, m_updated_at = now\<rparr>"

text \<open>The three inserts of an accepted submission.\<close>

definition insert_order ::
  "string \<Rightarrow> string \<Rightarrow> json \<Rightarrow> work_row \<Rightarrow> member_spec list \<Rightarrow> time \<Rightarrow> adm \<Rightarrow> adm" where
  "insert_order k digest ord w ms now a =
     a\<lparr>ad_work := ad_work a @ [w],
       ad_orders := ad_orders a @ [\<lparr>o_work = k, o_schema_version = WORK_ORDER_SCHEMA, o_digest = digest,
                                    o_payload = jcanon ord, o_created_at = now\<rparr>],
       ad_members := ad_members a @ map (new_member k now) (sort_key ms_job_idx ms)\<rparr>"

definition submit_new ::
  "adm_config \<Rightarrow> string \<Rightarrow> string \<Rightarrow> string \<Rightarrow> json \<Rightarrow> member_spec list \<Rightarrow> priority \<Rightarrow> (nat \<Rightarrow> time) \<Rightarrow> adm
     \<Rightarrow> (adm_error + admission_decision) \<times> adm" where
  "submit_new cf k actor blueprint ord ms p ck a0 =
     (let lm = cf_limits cf; repos = sort (map ms_repo ms); repo_key = repo_key_of repos; now = ck 0 in
      case impossible lm repos actor blueprint of
        Some b \<Rightarrow> (Inr (plain_decision ''rejected'' ''capacity_impossible'' None (Some b)), a0)
      | None \<Rightarrow>
          (case throttle repo_key (ck 1) a0 of
             (th, a) \<Rightarrow>
               let block = rate_limit th (capacity_block_for lm repos actor blueprint a0) in
               if block \<noteq> None \<and> count_queued a \<ge> queue_size lm then
                 (Inr (plain_decision ''rejected'' ''queue_full'' None
                    (Some \<lparr>cb_dimension = ''queue'', cb_current = count_queued a, cb_limit = queue_size lm, cb_key = ''''\<rparr>)), a)
               else
                 (case next_sequence a of
                    (seq, a1) \<Rightarrow>
                      let w = new_work k repo_key actor blueprint p seq block ms now;
                          a2 = insert_order k (request_digest (cf_float cf) ord) ord w ms now a1
                      in if block \<noteq> None then
                           (Inr (plain_decision ''queued'' ''capacity'' (adm_position k a2) block), a2)
                         else
                           (case claim cf k None (ck 2) (open_dispatch k now a2) of
                              (Inl e, _) \<Rightarrow> (Inl e, a0)
                            | (Inr i, a3) \<Rightarrow>
                                (Inr \<lparr>de_state = ''admitted'', de_reason = ''admitted'', de_position = None,
                                      de_limiting = None, de_intent = i\<rparr>, a3)))))"

definition submit ::
  "adm_config \<Rightarrow> string \<Rightarrow> string \<Rightarrow> string \<Rightarrow> json \<Rightarrow> member_spec list \<Rightarrow> priority \<Rightarrow> (nat \<Rightarrow> time) \<Rightarrow> adm
     \<Rightarrow> (adm_error + admission_decision) \<times> adm" where
  "submit cf k actor blueprint ord ms p ck a =
     (if \<not> submit_valid ord ms then (Inl AdmValueError, a)
      else case work_of k a of
        Some w \<Rightarrow>
          if same_order k (request_digest (cf_float cf) ord) a then (Inr (duplicate_decision k w a), a)
          else (Inl WorkOrderConflict, a)
      | None \<Rightarrow> submit_new cf k actor blueprint ord ms p ck a)"

section \<open>Draining\<close>

definition deficit_of :: "priority \<Rightarrow> adm \<Rightarrow> nat" where
  "deficit_of p a = (case select_one fr_priority p (ad_fairness a) of None \<Rightarrow> 0 | Some r \<Rightarrow> fr_deficit r)"

definition available :: "adm \<Rightarrow> priority list" where
  "available a = filter (\<lambda>p. list_ex (\<lambda>w. w_priority w = p) (queued_rows a)) priorities"

text \<open>When no class with queued work has a deficit left, each of them is given its weight.\<close>

definition replenish :: "adm \<Rightarrow> adm" where
  "replenish a =
     (if list_ex (\<lambda>p. deficit_of p a > 0) (available a) then a
      else a\<lparr>ad_fairness := upd_where (\<lambda>r. fr_priority r \<in> set (available a))
               (\<lambda>r. r\<lparr>fr_deficit := fr_deficit r + weight (fr_priority r)\<rparr>) (ad_fairness a)\<rparr>)"

definition next_fair_candidate :: "adm \<Rightarrow> work_row option \<times> adm" where
  "next_fair_candidate a =
     (if queued_rows a = [] then (None, a)
      else
        let a' = replenish a in
        case List.find (\<lambda>p. deficit_of p a' > 0) (available a) of
          None \<Rightarrow> (None, a')
        | Some p \<Rightarrow> (List.find (\<lambda>w. w_priority w = p) (queued_rows a), a'))"

definition record_service :: "priority \<Rightarrow> adm \<Rightarrow> adm" where
  "record_service p a = a\<lparr>ad_fairness := upd_where (\<lambda>r. fr_priority r = p)
     (\<lambda>r. r\<lparr>fr_deficit := fr_deficit r - 1, fr_served := fr_served r + 1\<rparr>) (ad_fairness a)\<rparr>"

definition set_limiting :: "string \<Rightarrow> capacity_block \<Rightarrow> time \<Rightarrow> adm \<Rightarrow> adm" where
  "set_limiting k b now a = set_work (\<lambda>w. w_id w = k) (\<lambda>w. w\<lparr>w_limiting := Some b, w_updated_at := now\<rparr>) a"

definition defer_sequence :: "string \<Rightarrow> time \<Rightarrow> adm \<Rightarrow> adm" where
  "defer_sequence k now a = (case next_sequence a of (seq, a1) \<Rightarrow>
     set_work (\<lambda>w. w_id w = k \<and> w_state w = Queued) (\<lambda>w. w\<lparr>w_sequence := seq, w_updated_at := now\<rparr>) a1)"

definition admit_queued :: "string \<Rightarrow> time \<Rightarrow> adm \<Rightarrow> adm" where
  "admit_queued k now a = set_work (\<lambda>w. w_id w = k \<and> w_state w = Queued)
     (\<lambda>w. w\<lparr>w_state := Admitted, w_reason := ''drained'', w_limiting := None, w_admitted_at := Some now,
           w_updated_at := now\<rparr>) a"

fun drain_iter :: "adm_config \<Rightarrow> (nat \<Rightarrow> time) \<Rightarrow> nat \<Rightarrow> string list \<Rightarrow> adm \<Rightarrow> string list \<times> adm" where
  "drain_iter cf ck 0 acc a = (acc, a)"
| "drain_iter cf ck (Suc n) acc a =
     (case next_fair_candidate a of
        (None, a1) \<Rightarrow> (acc, a1)
      | (Some item, a1) \<Rightarrow>
          let repos = map m_repo (members_of (w_id item) a1);
              cap = capacity_block_for (cf_limits cf) repos (w_actor item) (w_blueprint item) a1 in
          (case throttle (w_repo item) (ck 0) a1 of
             (th, a2) \<Rightarrow>
               (case rate_limit th cap of
                  Some b \<Rightarrow>
                    let a3 = set_limiting (w_id item) b (ck 1) a2 in
                    if \<not> any_other_candidate (w_id item) a3 then (acc, a3)
                    else drain_iter cf (\<lambda>i. ck (i + 3)) n acc (defer_sequence (w_id item) (ck 2) a3)
                | None \<Rightarrow>
                    if rowcount (\<lambda>w. w_id w = w_id item \<and> w_state w = Queued) (ad_work a2) = 1 then
                      drain_iter cf (\<lambda>i. ck (i + 3)) n (acc @ [w_id item])
                        (record_service (w_priority item)
                          (open_dispatch (w_id item) (ck 1) (admit_queued (w_id item) (ck 1) a2)))
                    else drain_iter cf (\<lambda>i. ck (i + 3)) n acc (admit_queued (w_id item) (ck 1) a2))))"

definition drain :: "adm_config \<Rightarrow> int option \<Rightarrow> (nat \<Rightarrow> time) \<Rightarrow> adm \<Rightarrow> string list \<times> adm" where
  "drain cf limit ck a =
     (let max_items = (case limit of None \<Rightarrow> global_active (cf_limits cf) | Some n \<Rightarrow> n) in
      drain_iter cf ck (nat (max 0 max_items)) [] a)"

section \<open>Closing work\<close>

definition cancel ::
  "adm_config \<Rightarrow> string \<Rightarrow> string \<Rightarrow> string \<Rightarrow> (nat \<Rightarrow> time) \<Rightarrow> adm \<Rightarrow> (adm_error + string list) \<times> adm" where
  "cancel cf k reason st ck a =
     (case terminal_of st of
        None \<Rightarrow> (Inl AdmValueError, a)
      | Some e \<Rightarrow>
          let now = ck 0;
              hit = (\<lambda>w. w_id w = k \<and> w_state w \<in> set [Queued, Admitted, Dispatching]) in
          if rowcount hit (ad_work a) \<noteq> 1 then (Inr [], a)
          else
            let a1 = set_work hit (\<lambda>w. w\<lparr>w_state := Ended e, w_reason := take 512 reason, w_terminal_at := Some now,
                       w_updated_at := now\<rparr>) a;
                a2 = set_members (\<lambda>m. m_work m = k \<and> m_state m = Held)
                       (\<lambda>m. m\<lparr>m_state := MEnded e, m_updated_at := now\<rparr>) a1;
                a3 = set_dispatch (\<lambda>d. dr_work d = k \<and> dr_state d \<noteq> Delivered)
                       (\<lambda>d. d\<lparr>dr_state := Abandoned, dr_token := None, dr_lease_until := None,
                             dr_last_error := Some (take 512 reason), dr_updated_at := now\<rparr>) a2
            in case drain cf None (\<lambda>i. ck (i + 1)) (drop_inflight k a3) of (ids, a4) \<Rightarrow> (Inr ids, a4))"

definition member_outcomes :: "string \<Rightarrow> adm \<Rightarrow> end_state list" where
  "member_outcomes k a =
     concat (map (\<lambda>m. case m_state m of Held \<Rightarrow> [] | MEnded e \<Rightarrow> [e]) (filter (\<lambda>m. m_work m = k) (ad_members a)))"

text \<open>\<open>complete\<close> closes one member; the order's own state follows when its last member is terminal.\<close>

definition complete ::
  "adm_config \<Rightarrow> string \<Rightarrow> string \<Rightarrow> int \<Rightarrow> string \<Rightarrow> (nat \<Rightarrow> time) \<Rightarrow> adm \<Rightarrow> (adm_error + string list) \<times> adm" where
  "complete cf k cell epoch st ck a =
     (case terminal_of st of
        None \<Rightarrow> (Inl AdmValueError, a)
      | Some e \<Rightarrow>
          let now = ck 0;
              hit = (\<lambda>m. m_work m = k \<and> m_cell m = cell \<and> m_epoch m = Some epoch \<and> m_state m = Held) in
          let a1 = set_members hit (\<lambda>m. m\<lparr>m_state := MEnded e, m_updated_at := now\<rparr>) a in
          if rowcount hit (ad_members a) \<noteq> 1 then (Inr [], a1)
          else if list_ex (\<lambda>m. m_work m = k \<and> m_state m = Held) (ad_members a1) then
            (Inr [], set_work (\<lambda>w. w_id w = k) (\<lambda>w. w\<lparr>w_reason := ''member_terminal'', w_updated_at := now\<rparr>) a1)
          else
            let a2 = set_work (\<lambda>w. w_id w = k \<and> holding (w_state w))
                       (\<lambda>w. w\<lparr>w_state := Ended (worst (member_outcomes k a1)), w_reason := ''members_terminal'',
                             w_terminal_at := Some now, w_updated_at := now\<rparr>) a1
            in case drain cf None (\<lambda>i. ck (i + 1)) a2 of (ids, a3) \<Rightarrow> (Inr ids, a3))"

section \<open>Delivery\<close>

definition record_member_epoch ::
  "string \<Rightarrow> int \<Rightarrow> int \<Rightarrow> string \<Rightarrow> time \<Rightarrow> adm \<Rightarrow> (adm_error + unit) \<times> adm" where
  "record_member_epoch k job_idx epoch token now a =
     (if epoch < 1 then (Inl AdmValueError, a)
      else if \<not> lease_ok k token a then (Inl DispatchLeaseLost, a)
      else
        let hit = (\<lambda>m. m_work m = k \<and> m_job_idx m = job_idx) in
        if rowcount hit (ad_members a) \<noteq> 1 then (Inl AdmKeyError, a)
        else (Inr (), set_members hit (\<lambda>m. m\<lparr>m_epoch := Some epoch, m_updated_at := now\<rparr>) a))"

definition first_by_cell :: "string \<Rightarrow> adm \<Rightarrow> member_row option" where
  "first_by_cell k a = (case sort_key m_cell (filter (\<lambda>m. m_work m = k) (ad_members a)) of [] \<Rightarrow> None | m # _ \<Rightarrow> Some m)"

definition record_dispatch :: "string \<Rightarrow> string \<Rightarrow> string \<Rightarrow> time \<Rightarrow> adm \<Rightarrow> (adm_error + unit) \<times> adm" where
  "record_dispatch k token dag_run now a =
     (if \<not> lease_ok k token a then (Inl DispatchLeaseLost, a)
      else if list_ex (\<lambda>m. m_work m = k \<and> m_epoch m = None) (ad_members a) then (Inl DispatchLeaseLost, a)
      else
        let a1 = set_dispatch (\<lambda>d. dr_work d = k)
                   (\<lambda>d. d\<lparr>dr_state := Delivered, dr_token := None, dr_lease_until := None, dr_dag_run := Some dag_run,
                         dr_last_error := None, dr_updated_at := now\<rparr>) a;
            a2 = set_work (\<lambda>w. w_id w = k \<and> w_state w = Dispatching)
                   (\<lambda>w. w\<lparr>w_state := Bound, w_reason := ''dispatched'', w_updated_at := now,
                         w_cell_epoch := Option.bind (first_by_cell k a) m_epoch,
                         w_cell := map_option m_cell (first_by_cell k a)\<rparr>) a1
        in (Inr (), drop_inflight k a2))"

text \<open>An empty observation is stored as absent, as \<open>None\<close> is.\<close>

definition observation_json :: "json option \<Rightarrow> json option" where
  "observation_json ob = (case ob of None \<Rightarrow> None | Some v \<Rightarrow> if v = JObj [] then None else Some (jcanon v))"

definition release_dispatch ::
  "string \<Rightarrow> string \<Rightarrow> string \<Rightarrow> json option \<Rightarrow> time \<Rightarrow> adm \<Rightarrow> (adm_error + unit) \<times> adm" where
  "release_dispatch k token err ob now a =
     (if \<not> lease_ok k token a then (Inl DispatchLeaseLost, a)
      else
        let a1 = set_dispatch (\<lambda>d. dr_work d = k)
                   (\<lambda>d. d\<lparr>dr_state := Pending, dr_token := None, dr_lease_until := None,
                         dr_last_error := Some (take 2000 err), dr_observation := observation_json ob,
                         dr_updated_at := now\<rparr>) a;
            a2 = set_work (\<lambda>w. w_id w = k \<and> w_state w = Dispatching)
                   (\<lambda>w. w\<lparr>w_state := Admitted, w_reason := ''dispatch_retry'', w_updated_at := now\<rparr>) a1
        in (Inr (), drop_inflight k a2))"

definition mark_undeliverable :: "string \<Rightarrow> string \<Rightarrow> json option \<Rightarrow> time \<Rightarrow> adm \<Rightarrow> adm" where
  "mark_undeliverable k err ob now a =
     (let a1 = set_dispatch (\<lambda>d. dr_work d = k \<and> dr_state d \<noteq> Delivered)
                 (\<lambda>d. d\<lparr>dr_state := Undeliverable, dr_token := None, dr_lease_until := None,
                       dr_last_error := Some (take 2000 err), dr_observation := observation_json ob,
                       dr_updated_at := now\<rparr>) a;
          a2 = set_work (\<lambda>w. w_id w = k \<and> w_state w = Dispatching)
                 (\<lambda>w. w\<lparr>w_state := Admitted, w_reason := ''undeliverable'', w_updated_at := now\<rparr>) a1
      in drop_inflight k a2)"

definition note_outcome :: "string \<Rightarrow> string \<Rightarrow> json option \<Rightarrow> time \<Rightarrow> adm \<Rightarrow> adm" where
  "note_outcome k err ob now a =
     drop_inflight k (set_dispatch (\<lambda>d. dr_work d = k)
       (\<lambda>d. d\<lparr>dr_last_error := Some (take 2000 err), dr_observation := observation_json ob, dr_updated_at := now\<rparr>) a)"

text \<open>The adoption of rows an older release left in state \<open>active\<close>, one row at a time.\<close>

definition migrate_row :: "time \<Rightarrow> work_row \<Rightarrow> adm \<Rightarrow> adm" where
  "migrate_row now w a =
     (case (w_cell w, w_cell_epoch w) of
        (Some (c # cs), Some e) \<Rightarrow>
          let a1 = set_work (\<lambda>r. w_id r = w_id w) (\<lambda>r. r\<lparr>w_state := Bound, w_updated_at := now\<rparr>) a in
          if list_ex (\<lambda>m. m_work m = w_id w \<and> m_job_idx m = 0) (ad_members a1) then a1
          else a1\<lparr>ad_members := ad_members a1 @
                  [\<lparr>m_work = w_id w, m_job_idx = 0, m_repo = w_repo w, m_cell = c # cs, m_epoch = Some e,
                    m_state = Held, m_created_at = now, m_updated_at = now\<rparr>]\<rparr>
      | _ \<Rightarrow> set_work (\<lambda>r. w_id r = w_id w)
               (\<lambda>r. r\<lparr>w_state := Ended Cancelled, w_reason := ''orphaned_admission'', w_terminal_at := Some now,
                     w_updated_at := now\<rparr>) a)"

definition migrate_legacy_active :: "time \<Rightarrow> adm \<Rightarrow> adm" where
  "migrate_legacy_active now a = fold (migrate_row now) (filter (\<lambda>w. w_state w = LegacyActive) (ad_work a)) a"

section \<open>Views\<close>

definition clamp_limit :: "int \<Rightarrow> nat" where
  "clamp_limit n = nat (max 1 (min n 1000))"

definition join_work :: "(member_row \<Rightarrow> work_row \<Rightarrow> bool) \<Rightarrow> adm \<Rightarrow> (member_row \<times> work_row) list" where
  "join_work p a = sort_key (\<lambda>(m, w). w_sequence w)
     (concat (map (\<lambda>m. map (\<lambda>w. (m, w)) (filter (\<lambda>w. w_id w = m_work m \<and> p m w) (ad_work a))) (ad_members a)))"

definition held_memberships :: "int \<Rightarrow> adm \<Rightarrow> (string \<times> string \<times> int) list" where
  "held_memberships limit a =
     map (\<lambda>(m, w). (m_work m, m_cell m, the (m_epoch m)))
       (take (clamp_limit limit) (join_work (\<lambda>m w. m_state m = Held \<and> m_epoch m \<noteq> None \<and> holding (w_state w)) a))"

definition members_for_cell :: "string \<Rightarrow> int \<Rightarrow> adm \<Rightarrow> string list" where
  "members_for_cell cell epoch a =
     map (\<lambda>(m, w). m_work m) (join_work (\<lambda>m w. m_cell m = cell \<and> m_epoch m = Some epoch \<and> m_state m = Held) a)"

definition work_order_for_cell :: "string \<Rightarrow> int \<Rightarrow> adm \<Rightarrow> adm_error + order_row" where
  "work_order_for_cell cell epoch a =
     (case filter (\<lambda>m. m_cell m = cell \<and> m_epoch m = Some epoch) (ad_members a) of
        [m] \<Rightarrow> (case work_order (m_work m) a of None \<Rightarrow> Inl AdmKeyError | Some r \<Rightarrow> Inr r)
      | _ \<Rightarrow> Inl AdmValueError)"

definition pending_dispatch :: "int \<Rightarrow> time \<Rightarrow> adm \<Rightarrow> string list" where
  "pending_dispatch limit now a =
     map w_id (take (clamp_limit limit)
       (sort_key (\<lambda>w. prio_int (w_priority w)) (sort_key w_sequence
         (filter (\<lambda>w. list_ex (\<lambda>d. dr_work d = w_id w \<and> dr_state d \<in> set [Pending, Inflight]
                     \<and> (w_state w = Admitted \<or> (w_state w = Dispatching
                          \<and> (case dr_lease_until d of None \<Rightarrow> True | Some t \<Rightarrow> t \<le> now)))) (ad_dispatch a))
            (ad_work a)))))"

definition public_dispatch :: "dispatch_row \<Rightarrow> json" where
  "public_dispatch d = JObj
     [(''state'', JStr (dispatch_state_str (dr_state d))), (''attempt'', JInt (dr_attempt d)),
      (''dag_run_id'', jopt (dr_dag_run d)), (''last_error'', jopt (dr_last_error d)),
      (''observation'', case dr_observation d of None \<Rightarrow> JNull | Some v \<Rightarrow> v)]"

definition dispatch_view :: "string \<Rightarrow> adm \<Rightarrow> json option" where
  "dispatch_view k a = map_option public_dispatch (dispatch_of k a)"

definition jint_opt :: "int option \<Rightarrow> json" where
  "jint_opt x = (case x of None \<Rightarrow> JNull | Some i \<Rightarrow> JInt i)"

definition member_dict :: "member_row \<Rightarrow> json" where
  "member_dict m = JObj
     [(''job_idx'', JInt (m_job_idx m)), (''repo'', JStr (m_repo m)), (''cell_id'', JStr (m_cell m)),
      (''cell_epoch'', jint_opt (m_epoch m)),
      (''state'', JStr (case m_state m of Held \<Rightarrow> ''held'' | MEnded e \<Rightarrow> end_str e))]"

definition block_dict :: "capacity_block \<Rightarrow> json" where
  "block_dict b = JObj
     [(''dimension'', JStr (cb_dimension b)), (''current'', JInt (cb_current b)), (''limit'', JInt (cb_limit b)),
      (''key'', JStr (cb_key b))]"

definition public_work :: "time \<Rightarrow> adm \<Rightarrow> work_row \<Rightarrow> json" where
  "public_work now a w = JObj
     [(''work_id'', JStr (w_id w)), (''repo'', JStr (w_repo w)), (''actor'', JStr (w_actor w)),
      (''blueprint'', JStr (w_blueprint w)), (''priority'', JStr (prio_name (w_priority w))),
      (''state'', JStr (work_state_str (w_state w))), (''reason'', JStr (w_reason w)),
      (''limiting'', case w_limiting w of None \<Rightarrow> JNull | Some b \<Rightarrow> block_dict b),
      (''wait_s'', JReal (max 0 (now - w_enqueued_at w))), (''cell_id'', jopt (w_cell w)),
      (''cell_epoch'', jint_opt (w_cell_epoch w)), (''members'', JArr (map member_dict (members_of (w_id w) a))),
      (''dispatch'', case dispatch_view (w_id w) a of None \<Rightarrow> JNull | Some v \<Rightarrow> v)]"

text \<open>\<open>NULL\<close> sorts before every time.\<close>

definition holding_rows :: "adm \<Rightarrow> work_row list" where
  "holding_rows a =
     (let ws = sort_key w_sequence (filter (\<lambda>w. holding (w_state w)) (ad_work a)) in
      filter (\<lambda>w. w_admitted_at w = None) ws
      @ sort_key (\<lambda>w. the (w_admitted_at w)) (filter (\<lambda>w. w_admitted_at w \<noteq> None) ws))"

definition round_half_even :: "real \<Rightarrow> int" where
  "round_half_even r =
     (let f = \<lfloor>r\<rfloor>; d = r - of_int f in
      if d < 1 / 2 then f else if d > 1 / 2 then f + 1 else if even f then f else f + 1)"

definition percentile :: "real list \<Rightarrow> real \<Rightarrow> real" where
  "percentile ordered q =
     (if ordered = [] then 0
      else ordered ! nat (min (int (length ordered) - 1)
             (max 0 (round_half_even (real (length ordered - 1) * q)))))"

definition count_state :: "work_state \<Rightarrow> adm \<Rightarrow> int" where
  "count_state st a = int (length (filter (\<lambda>w. w_state w = st) (ad_work a)))"

definition count_undeliverable :: "adm \<Rightarrow> int" where
  "count_undeliverable a = int (length (filter (\<lambda>w. holding (w_state w)
     \<and> list_ex (\<lambda>d. dr_work d = w_id w \<and> dr_state d = Undeliverable) (ad_dispatch a)) (ad_work a)))"

definition active_throttle_count :: "time \<Rightarrow> adm \<Rightarrow> int" where
  "active_throttle_count now a = int (length (filter (\<lambda>t. th_until t > now) (ad_throttles a)))"

definition snapshot :: "adm_config \<Rightarrow> int \<Rightarrow> time \<Rightarrow> time \<Rightarrow> adm \<Rightarrow> json" where
  "snapshot cf limit now now2 a =
     (let queued = take (clamp_limit limit) (queued_rows a);
          active = take (clamp_limit limit) (holding_rows a);
          ages = sort (map (\<lambda>w. max 0 (now - w_enqueued_at w)) queued)
      in JObj
        [(''active'', JArr (map (public_work now a) active)),
         (''queued'', JArr (map (\<lambda>(i, w). with_entry ''position'' (JInt (int i + 1)) (public_work now a w)) (enumerate 0 queued))),
         (''limits'', limits_dict (cf_limits cf)),
         (''capacity_unit'', JStr ''factory_cell_activation''),
         (''pressure'', JObj
            [(''active'', JInt (int (length active))), (''queued'', JInt (count_state Queued a)),
             (''awaiting_dispatch'', JInt (count_state Admitted a)), (''dispatching'', JInt (count_state Dispatching a)),
             (''bound'', JInt (count_state Bound a)), (''held_units'', JInt (int (length (held_units a)))),
             (''undeliverable'', JInt (count_undeliverable a)),
             (''oldest_wait_s'', JReal (if ages = [] then 0 else last ages)),
             (''p50_wait_s'', JReal (percentile ages (1 / 2))), (''p95_wait_s'', JReal (percentile ages (19 / 20))),
             (''throttles'', JInt (active_throttle_count now2 a))])])"

section \<open>The invariant\<close>

text \<open>Keys are unique, members hang on orders that exist, sequence numbers are below the counter, every
  delivery is within its budget, and the held units respect the limits.\<close>

definition member_key :: "member_row \<Rightarrow> string \<times> int" where
  "member_key m = (m_work m, m_job_idx m)"

definition adm_inv :: "limits \<Rightarrow> adm \<Rightarrow> bool" where
  "adm_inv lm a = (primary_key w_id (ad_work a) \<and> primary_key dr_work (ad_dispatch a)
     \<and> primary_key member_key (ad_members a)
     \<and> list_all (\<lambda>m. work_of (m_work m) a \<noteq> None) (ad_members a)
     \<and> list_all (\<lambda>d. 0 \<le> dr_attempt d \<and> dr_attempt d \<le> MAX_DISPATCH_ATTEMPTS) (ad_dispatch a)
     \<and> list_all (\<lambda>d. work_of (dr_work d) a \<noteq> None) (ad_dispatch a)
     \<and> list_all (\<lambda>w. w_state w \<noteq> LegacyActive) (ad_work a)
     \<and> within_limits lm (held_units a))"

lemma set_work_simps [simp]:
  "ad_members (set_work p f a) = ad_members a" "ad_dispatch (set_work p f a) = ad_dispatch a"
  "ad_orders (set_work p f a) = ad_orders a" "ad_throttles (set_work p f a) = ad_throttles a"
  "ad_work (set_work p f a) = upd_where p f (ad_work a)"
  by (simp_all add: set_work_def)

lemma set_members_simps [simp]:
  "ad_members (set_members p g a) = upd_where p g (ad_members a)" "ad_dispatch (set_members p g a) = ad_dispatch a"
  "ad_work (set_members p g a) = ad_work a" "ad_orders (set_members p g a) = ad_orders a"
  by (simp_all add: set_members_def)

lemma set_dispatch_simps [simp]:
  "ad_members (set_dispatch p h a) = ad_members a" "ad_dispatch (set_dispatch p h a) = upd_where p h (ad_dispatch a)"
  "ad_work (set_dispatch p h a) = ad_work a" "ad_orders (set_dispatch p h a) = ad_orders a"
  by (simp_all add: set_dispatch_def)

lemma drop_inflight_simps [simp]:
  "ad_members (drop_inflight k a) = ad_members a" "ad_dispatch (drop_inflight k a) = ad_dispatch a"
  "ad_work (drop_inflight k a) = ad_work a" "ad_orders (drop_inflight k a) = ad_orders a"
  by (simp_all add: drop_inflight_def)

text \<open>A member's units are those of the one order it hangs on.\<close>

definition member_unit :: "work_row list \<Rightarrow> member_row \<Rightarrow> unit_use list" where
  "member_unit ws m = (case select_one w_id (m_work m) ws of None \<Rightarrow> []
     | Some w \<Rightarrow> if m_state m = Held \<and> holding (w_state w) then [(m_repo m, w_actor w, w_blueprint w)] else [])"

lemma filter_key_select:
  assumes "primary_key key t"
  shows "filter (\<lambda>r. key r = k \<and> p r) t = (case select_one key k t of None \<Rightarrow> [] | Some r \<Rightarrow> if p r then [r] else [])"
  using assms
proof (induction t)
  case (Cons r t)
  then have pk: "primary_key key t" and "key r \<notin> key ` set t" by (simp_all add: primary_key_def)
  then have nk: "\<forall>x\<in>set t. key x \<noteq> key r" by (metis imageI)
  have "filter (\<lambda>x. key x = k \<and> p x) t = []" if "key r = k"
    using nk that by (auto simp: filter_empty_conv)
  with Cons.IH[OF pk] show ?case by auto
qed simp

lemma held_units_member_unit:
  assumes "primary_key w_id (ad_work a)"
  shows "held_units a = concat (map (member_unit (ad_work a)) (ad_members a))"
proof -
  have "(if m_state m = Held then map (\<lambda>w. (m_repo m, w_actor w, w_blueprint w))
           (filter (\<lambda>w. w_id w = m_work m \<and> holding (w_state w)) (ad_work a)) else []) = member_unit (ad_work a) m" for m
    using filter_key_select[OF assms, of "m_work m" "\<lambda>w. holding (w_state w)"]
    by (auto simp: member_unit_def split: option.splits)
  then show ?thesis unfolding held_units_def by simp
qed

lemma mset_concat_map_mono:
  assumes "\<And>x. x \<in> set xs \<Longrightarrow> mset (f x) \<subseteq># mset (g x)"
  shows "mset (concat (map f xs)) \<subseteq># mset (concat (map g xs))"
  using assms by (induction xs) (auto simp: subset_mset.add_mono)

text \<open>An update of orders and members that lets no new unit in keeps the capacity.\<close>

definition fewer_units :: "adm \<Rightarrow> adm \<Rightarrow> bool" where
  "fewer_units a' a = (mset (held_units a') \<subseteq># mset (held_units a))"

lemma fewer_units_refl [simp]: "fewer_units a a"
  by (simp add: fewer_units_def)

lemma fewer_units_trans: "fewer_units a b \<Longrightarrow> fewer_units b c \<Longrightarrow> fewer_units a c"
  unfolding fewer_units_def by (rule subset_mset.order_trans)

lemma held_units_cong: "ad_work a' = ad_work a \<Longrightarrow> ad_members a' = ad_members a \<Longrightarrow> held_units a' = held_units a"
  unfolding held_units_def by (simp only:)

lemma fewer_units_work:
  assumes "primary_key w_id (ad_work a)"
    and "\<And>w. w \<in> set (ad_work a) \<Longrightarrow> p w \<Longrightarrow> w_id (f w) = w_id w \<and> w_actor (f w) = w_actor w \<and> w_blueprint (f w) = w_blueprint w
           \<and> (holding (w_state (f w)) \<longrightarrow> holding (w_state w))"
  shows "fewer_units (set_work p f a) a"
proof -
  have pk: "primary_key w_id (upd_where p f (ad_work a))"
    using assms by (intro primary_key_upd_where) auto
  have key: "\<And>w. w \<in> set (ad_work a) \<Longrightarrow> p w \<Longrightarrow> w_id (f w) = w_id w" using assms(2) by blast
  have sel: "select_one w_id k (upd_where p f (ad_work a))
      = map_option (\<lambda>w. if p w then f w else w) (select_one w_id k (ad_work a))" for k
    using key by (rule select_one_upd_where)
  have "mset (member_unit (upd_where p f (ad_work a)) m) \<subseteq># mset (member_unit (ad_work a) m)" for m
  proof (cases "select_one w_id (m_work m) (ad_work a)")
    case None
    then show ?thesis using sel[of "m_work m"] by (simp add: member_unit_def)
  next
    case (Some w)
    then have "w \<in> set (ad_work a)" using select_one_SomeD by metis
    with Some assms(2)[of w] show ?thesis
      using sel[of "m_work m"] by (simp add: member_unit_def)
  qed
  then show ?thesis
    using held_units_member_unit[OF assms(1)] held_units_member_unit[of "set_work p f a"] pk
    unfolding fewer_units_def by (simp add: mset_concat_map_mono)
qed

lemma fewer_units_members:
  assumes "primary_key w_id (ad_work a)"
    and "\<And>m. m \<in> set (ad_members a) \<Longrightarrow> p m \<Longrightarrow> m_work (g m) = m_work m \<and> m_repo (g m) = m_repo m
           \<and> (m_state (g m) = Held \<longrightarrow> m_state m = Held)"
  shows "fewer_units (set_members p g a) a"
proof -
  have "mset (member_unit (ad_work a) (if p m then g m else m)) \<subseteq># mset (member_unit (ad_work a) m)"
    if "m \<in> set (ad_members a)" for m
    using assms(2)[OF that] by (auto simp: member_unit_def split: option.splits)
  then show ?thesis
    using held_units_member_unit[OF assms(1)] held_units_member_unit[of "set_members p g a"] assms(1)
    unfolding fewer_units_def by (simp add: upd_where_def comp_def mset_concat_map_mono)
qed

section \<open>Capacity checks are sound\<close>

lemma first_block_None_iff:
  "first_block cs = None \<longleftrightarrow> (\<forall>(dimension, k, current, needed, limit) \<in> set cs. current + needed \<le> limit)"
  by (induction cs rule: first_block.induct) auto

lemma count_map_unit:
  "count_by u_repo r (map (\<lambda>x. (x, ac, bp)) repos) = count_by (\<lambda>x. x) r repos"
  "count_by u_actor r (map (\<lambda>x. (x, ac, bp)) repos) = (if r = ac then int (length repos) else 0)"
  "count_by u_blueprint r (map (\<lambda>x. (x, ac, bp)) repos) = (if r = bp then int (length repos) else 0)"
  by (induction repos) auto

lemma count_by_zero_iff: "count_by f k us = 0 \<longleftrightarrow> k \<notin> f ` set us"
  by (auto simp: count_by_def filter_empty_conv image_iff)

lemma checks_sound:
  assumes "first_block (checks lm repos ac bp held) = None" and "within_limits lm held" and "repos \<noteq> []"
  shows "within_limits lm (held @ map (\<lambda>x. (x, ac, bp)) repos)"
proof -
  let ?new = "map (\<lambda>x. (x, ac, bp)) repos"
  have g: "int (length held) + int (length repos) \<le> global_active lm"
    and r: "\<And>x. x \<in> set repos \<Longrightarrow> count_by u_repo x held + count_by (\<lambda>x. x) x repos \<le> per_repo_active lm"
    and ac: "count_by u_actor ac held + int (length repos) \<le> per_actor_active lm"
    and bp: "count_by u_blueprint bp held + int (length repos) \<le> per_blueprint_active lm"
    using assms(1,3) unfolding first_block_None_iff checks_def Let_def dedup_sorted_def by auto
  have base: "count_by f k held \<noteq> 0 \<Longrightarrow> held \<noteq> []" for f :: "unit_use \<Rightarrow> string" and k by auto
  have w: "\<And>k. count_by u_repo k held \<noteq> 0 \<Longrightarrow> count_by u_repo k held \<le> per_repo_active lm"
    "\<And>k. count_by u_actor k held \<noteq> 0 \<Longrightarrow> count_by u_actor k held \<le> per_actor_active lm"
    "\<And>k. count_by u_blueprint k held \<noteq> 0 \<Longrightarrow> count_by u_blueprint k held \<le> per_blueprint_active lm"
    using assms(2) base unfolding within_limits_def by blast+
  have "count_by u_repo k (held @ ?new) \<le> per_repo_active lm" if "count_by u_repo k (held @ ?new) \<noteq> 0" for k
  proof (cases "k \<in> set repos")
    case True
    then show ?thesis using r by (simp add: count_map_unit)
  next
    case False
    then have "count_by u_repo k ?new = 0" by (simp add: count_map_unit count_by_zero_iff)
    with that w(1) show ?thesis by simp
  qed
  moreover have "count_by u_actor k (held @ ?new) \<le> per_actor_active lm" if "count_by u_actor k (held @ ?new) \<noteq> 0" for k
    using that w(2)[of k] ac by (cases "k = ac") (auto simp: count_map_unit)
  moreover have "count_by u_blueprint k (held @ ?new) \<le> per_blueprint_active lm" if "count_by u_blueprint k (held @ ?new) \<noteq> 0" for k
    using that w(3)[of k] bp by (cases "k = bp") (auto simp: count_map_unit)
  ultimately show ?thesis using g unfolding within_limits_def by simp
qed

lemma mset_concat_split:
  "mset (concat (map (\<lambda>x. f x @ g x) xs)) = mset (concat (map f xs)) + mset (concat (map g xs))"
  by (induction xs) auto

lemma concat_if_filter: "concat (map (\<lambda>x. if p x then [u x] else []) xs) = map u (filter p xs)"
  by (induction xs) auto

text \<open>Letting a queued order in adds at most one unit for each of its members.\<close>

lemma admit_units:
  assumes "primary_key w_id (ad_work a)" and "work_of k a = Some w"
    and "\<And>r. w_id (f r) = w_id r \<and> w_actor (f r) = w_actor r \<and> w_blueprint (f r) = w_blueprint r"
  shows "mset (held_units (set_work (\<lambda>r. w_id r = k \<and> w_state r = Queued) f a))
     \<subseteq># mset (held_units a @ map (\<lambda>m. (m_repo m, w_actor w, w_blueprint w)) (filter (\<lambda>m. m_work m = k) (ad_members a)))"
proof -
  let ?p = "\<lambda>r. w_id r = k \<and> w_state r = Queued"
  let ?ws = "upd_where ?p f (ad_work a)"
  let ?u = "\<lambda>m. if m_work m = k then [(m_repo m, w_actor w, w_blueprint w)] else []"
  have pk: "primary_key w_id ?ws" using assms(1,3) by (intro primary_key_upd_where) auto
  have sel: "select_one w_id x ?ws = map_option (\<lambda>r. if ?p r then f r else r) (select_one w_id x (ad_work a))" for x
    using assms(3) by (intro select_one_upd_where) auto
  have "mset (member_unit ?ws m) \<subseteq># mset (member_unit (ad_work a) m @ ?u m)" for m
  proof (cases "m_work m = k")
    case True
    then have "select_one w_id (m_work m) (ad_work a) = Some w" using assms(2) by (simp add: work_of_def)
    with True sel[of "m_work m"] assms(3)[of w] show ?thesis by (auto simp: member_unit_def)
  next
    case False
    have "member_unit ?ws m = member_unit (ad_work a) m"
    proof (cases "select_one w_id (m_work m) (ad_work a)")
      case (Some r)
      then have "w_id r = m_work m" using select_one_SomeD by metis
      with Some False sel[of "m_work m"] show ?thesis by (simp add: member_unit_def)
    qed (simp add: member_unit_def sel)
    then show ?thesis by simp
  qed
  then have "mset (concat (map (member_unit ?ws) (ad_members a)))
      \<subseteq># mset (concat (map (\<lambda>m. member_unit (ad_work a) m @ ?u m) (ad_members a)))"
    by (intro mset_concat_map_mono) auto
  then show ?thesis
    using held_units_member_unit[OF assms(1)] held_units_member_unit[of "set_work ?p f a"] pk
    by (simp add: mset_concat_split concat_if_filter)
qed

section \<open>Preservation\<close>

lemma adm_inv_cong:
  "ad_work a' = ad_work a \<Longrightarrow> ad_members a' = ad_members a \<Longrightarrow> ad_dispatch a' = ad_dispatch a \<Longrightarrow> adm_inv lm a \<Longrightarrow> adm_inv lm a'"
  unfolding adm_inv_def by (auto simp: work_of_def held_units_cong[of a' a])

lemma work_of_set_work:
  assumes "\<And>w. p w \<Longrightarrow> w_id (f w) = w_id w"
  shows "work_of k (set_work p f a) = map_option (\<lambda>w. if p w then f w else w) (work_of k a)"
  unfolding work_of_def set_work_simps using assms by (intro select_one_upd_where) auto

lemma work_of_simps [simp]:
  "work_of k (set_members q g a) = work_of k a" "work_of k (set_dispatch r h a) = work_of k a"
  "work_of k (drop_inflight j a) = work_of k a"
  by (simp_all add: work_of_def)

lemma inv_set_work:
  assumes "adm_inv lm a"
    and "\<And>w. w \<in> set (ad_work a) \<Longrightarrow> p w \<Longrightarrow> w_id (f w) = w_id w \<and> w_state (f w) \<noteq> LegacyActive"
    and "within_limits lm (held_units (set_work p f a))"
  shows "adm_inv lm (set_work p f a)"
proof -
  have "primary_key w_id (upd_where p f (ad_work a))"
    using assms(1,2) by (intro primary_key_upd_where) (auto simp: adm_inv_def)
  moreover have "work_of k (set_work p f a) = None \<longleftrightarrow> work_of k a = None" for k
    unfolding work_of_def set_work_simps
    using select_one_upd_where[of "ad_work a" p w_id f] assms(2) by simp
  moreover have "list_all (\<lambda>w. w_state w \<noteq> LegacyActive) (upd_where p f (ad_work a))"
    using assms(1,2) by (auto simp: adm_inv_def list_all_iff dest!: upd_where_in)
  ultimately show ?thesis using assms(1,3) unfolding adm_inv_def by simp
qed

lemma inv_set_work_fewer:
  assumes "adm_inv lm a"
    and "\<And>w. w \<in> set (ad_work a) \<Longrightarrow> p w \<Longrightarrow> w_id (f w) = w_id w \<and> w_actor (f w) = w_actor w \<and> w_blueprint (f w) = w_blueprint w
           \<and> (holding (w_state (f w)) \<longrightarrow> holding (w_state w)) \<and> w_state (f w) \<noteq> LegacyActive"
  shows "adm_inv lm (set_work p f a)"
proof -
  have "fewer_units (set_work p f a) a"
    using assms by (intro fewer_units_work) (auto simp: adm_inv_def)
  then have "within_limits lm (held_units (set_work p f a))"
    using assms(1) within_mono unfolding fewer_units_def adm_inv_def by blast
  with assms show ?thesis by (intro inv_set_work) auto
qed

lemma inv_set_members:
  assumes "adm_inv lm a"
    and "\<And>m. m \<in> set (ad_members a) \<Longrightarrow> p m \<Longrightarrow> m_work (g m) = m_work m \<and> m_job_idx (g m) = m_job_idx m \<and> m_repo (g m) = m_repo m
           \<and> (m_state (g m) = Held \<longrightarrow> m_state m = Held)"
  shows "adm_inv lm (set_members p g a)"
proof -
  have "fewer_units (set_members p g a) a"
    using assms by (intro fewer_units_members) (auto simp: adm_inv_def)
  then have "within_limits lm (held_units (set_members p g a))"
    using assms(1) within_mono unfolding fewer_units_def adm_inv_def by blast
  moreover have "primary_key member_key (upd_where p g (ad_members a))"
    using assms by (intro primary_key_upd_where) (auto simp: adm_inv_def member_key_def)
  moreover have "list_all (\<lambda>m. work_of (m_work m) a \<noteq> None) (upd_where p g (ad_members a))"
    using assms by (auto simp: adm_inv_def list_all_iff dest!: upd_where_in)
  ultimately show ?thesis using assms(1) unfolding adm_inv_def by simp
qed

lemma inv_set_dispatch:
  assumes "adm_inv lm a"
    and "\<And>d. d \<in> set (ad_dispatch a) \<Longrightarrow> p d \<Longrightarrow> dr_work (h d) = dr_work d
           \<and> 0 \<le> dr_attempt (h d) \<and> dr_attempt (h d) \<le> MAX_DISPATCH_ATTEMPTS"
  shows "adm_inv lm (set_dispatch p h a)"
proof -
  have "primary_key dr_work (upd_where p h (ad_dispatch a))"
    using assms by (intro primary_key_upd_where) (auto simp: adm_inv_def)
  moreover have "list_all (\<lambda>d. 0 \<le> dr_attempt d \<and> dr_attempt d \<le> MAX_DISPATCH_ATTEMPTS) (upd_where p h (ad_dispatch a))"
    "list_all (\<lambda>d. work_of (dr_work d) a \<noteq> None) (upd_where p h (ad_dispatch a))"
    using assms by (auto simp: adm_inv_def list_all_iff dest!: upd_where_in)
  moreover have "held_units (set_dispatch p h a) = held_units a" by (rule held_units_cong) simp_all
  ultimately show ?thesis using assms(1) unfolding adm_inv_def by simp
qed

lemma adm_inv_attempts: "adm_inv lm a \<Longrightarrow> d \<in> set (ad_dispatch a) \<Longrightarrow> 0 \<le> dr_attempt d \<and> dr_attempt d \<le> MAX_DISPATCH_ATTEMPTS"
  by (auto simp: adm_inv_def list_all_iff)

lemma inv_open_dispatch:
  assumes "adm_inv lm a" and "work_of k a \<noteq> None"
  shows "adm_inv lm (open_dispatch k now a)"
proof (cases "dispatch_of k a")
  case None
  let ?d = "\<lparr>dr_work = k, dr_attempt = 0, dr_state = Pending, dr_token = None, dr_lease_until = None,
              dr_dag_run = None, dr_last_error = None, dr_observation = None, dr_created_at = now, dr_updated_at = now\<rparr>"
  have "primary_key dr_work (ad_dispatch a @ [?d])"
    using None assms(1) by (intro primary_key_snoc) (auto simp: adm_inv_def dispatch_of_def)
  moreover have "held_units (a\<lparr>ad_dispatch := ad_dispatch a @ [?d]\<rparr>) = held_units a" by (rule held_units_cong) simp_all
  moreover have "work_of x (a\<lparr>ad_dispatch := ad_dispatch a @ [?d]\<rparr>) = work_of x a" for x by (simp add: work_of_def)
  ultimately show ?thesis
    using assms None unfolding adm_inv_def open_dispatch_def by (simp add: MAX_DISPATCH_ATTEMPTS_def)
next
  case (Some d)
  then show ?thesis
    using assms(1) adm_inv_attempts[OF assms(1)] unfolding open_dispatch_def by (auto intro!: inv_set_dispatch)
qed

lemma claim_refused_state: "\<not> claim_refused k now d w a \<Longrightarrow>
    holding (w_state w) \<and> dr_attempt d + 1 \<le> MAX_DISPATCH_ATTEMPTS \<and> k \<notin> fst ` set (ad_inflight a)"
  by (auto simp: claim_refused_def holding_def)

lemma work_of_in: "work_of k a = Some w \<Longrightarrow> w \<in> set (ad_work a) \<and> w_id w = k"
  unfolding work_of_def by (rule select_one_SomeD)

lemma dispatch_of_in: "dispatch_of k a = Some d \<Longrightarrow> d \<in> set (ad_dispatch a) \<and> dr_work d = k"
  unfolding dispatch_of_def by (rule select_one_SomeD)

lemma work_unique: "adm_inv lm a \<Longrightarrow> work_of k a = Some w \<Longrightarrow> w' \<in> set (ad_work a) \<Longrightarrow> w_id w' = k \<Longrightarrow> w' = w"
  unfolding work_of_def adm_inv_def by (metis option.inject select_one_in)

definition claimed :: "adm_config \<Rightarrow> string \<Rightarrow> real option \<Rightarrow> time \<Rightarrow> dispatch_row \<Rightarrow> adm \<Rightarrow> adm" where
  "claimed cf k lease_s now d a =
     set_work (\<lambda>w. w_id w = k) (\<lambda>w. w\<lparr>w_state := Dispatching, w_reason := ''dispatching'', w_updated_at := now\<rparr>)
       (set_dispatch (\<lambda>d. dr_work d = k)
          (\<lambda>r. r\<lparr>dr_attempt := dr_attempt d + 1, dr_state := Inflight, dr_token := Some (claim_token cf k (dr_attempt d + 1) now),
                dr_lease_until := Some (now + max 0 (case lease_s of None \<Rightarrow> cf_lease_s cf | Some l \<Rightarrow> l)), dr_updated_at := now\<rparr>) a)"

lemma claim_cases:
  assumes "claim cf k lease_s now a = (res, a')"
  obtains (none) "a' = a" "\<And>i. res \<noteq> Inr (Some i)"
  | (some) d w ord where "dispatch_of k a = Some d" "work_of k a = Some w" "\<not> claim_refused k now d w a"
      "work_order k a = Some ord"
      "res = Inr (Some \<lparr>di_work = k, di_attempt = dr_attempt d + 1, di_token = claim_token cf k (dr_attempt d + 1) now,
                di_order = ord, di_members = members_of k (claimed cf k lease_s now d a)\<rparr>)"
      "a' = (claimed cf k lease_s now d a)\<lparr>ad_inflight := (k, claim_token cf k (dr_attempt d + 1) now) # ad_inflight a\<rparr>"
proof (cases "dispatch_of k a")
  case None
  with assms show thesis by (intro none) (auto simp: claim_def)
next
  case (Some d)
  show thesis
  proof (cases "work_of k a")
    case None
    with Some assms show thesis by (intro none) (auto simp: claim_def)
  next
    case (Some w)
    note ds = \<open>dispatch_of k a = Some d\<close>
    have wo: "work_order k (claimed cf k lease_s now d a) = work_order k a"
      by (simp add: work_order_def claimed_def)
    have infl: "ad_inflight (claimed cf k lease_s now d a) = ad_inflight a"
      by (simp add: claimed_def set_work_def set_dispatch_def)
    have eq: "claim cf k lease_s now a =
       (if claim_refused k now d w a then (Inr None, a)
        else (case work_order k (claimed cf k lease_s now d a) of
                None \<Rightarrow> (Inl AdmKeyError, a)
              | Some ord \<Rightarrow> (Inr (Some \<lparr>di_work = k, di_attempt = dr_attempt d + 1,
                    di_token = claim_token cf k (dr_attempt d + 1) now, di_order = ord,
                    di_members = members_of k (claimed cf k lease_s now d a)\<rparr>),
                  (claimed cf k lease_s now d a)\<lparr>ad_inflight := (k, claim_token cf k (dr_attempt d + 1) now)
                      # ad_inflight (claimed cf k lease_s now d a)\<rparr>)))"
      unfolding claim_def ds Some prod.case option.case Let_def claimed_def by simp
    show thesis
    proof (cases "claim_refused k now d w a")
      case True
      with assms eq show thesis by (intro none) auto
    next
      case False
      show thesis
      proof (cases "work_order k a")
        case None
        with False assms eq wo show thesis by (intro none) auto
      next
        case so: (Some ord)
        with False assms eq wo infl have r: "res = Inr (Some \<lparr>di_work = k, di_attempt = dr_attempt d + 1,
            di_token = claim_token cf k (dr_attempt d + 1) now, di_order = ord,
            di_members = members_of k (claimed cf k lease_s now d a)\<rparr>)"
          "a' = (claimed cf k lease_s now d a)\<lparr>ad_inflight := (k, claim_token cf k (dr_attempt d + 1) now) # ad_inflight a\<rparr>"
          by simp_all
        show thesis using ds Some False so r by (rule some)
      qed
    qed
  qed
qed

lemma claimed_inv:
  assumes "adm_inv lm a" and "dispatch_of k a = Some d" and "work_of k a = Some w" and "\<not> claim_refused k now d w a"
  shows "adm_inv lm (claimed cf k lease_s now d a)"
proof -
  let ?a1 = "set_dispatch (\<lambda>d. dr_work d = k)
       (\<lambda>r. r\<lparr>dr_attempt := dr_attempt d + 1, dr_state := Inflight, dr_token := Some (claim_token cf k (dr_attempt d + 1) now),
             dr_lease_until := Some (now + max 0 (case lease_s of None \<Rightarrow> cf_lease_s cf | Some l \<Rightarrow> l)), dr_updated_at := now\<rparr>) a"
  note ok = claim_refused_state[OF assms(4)]
  have "0 \<le> dr_attempt d" using adm_inv_attempts[OF assms(1)] dispatch_of_in[OF assms(2)] by blast
  then have inv1: "adm_inv lm ?a1" using assms(1) ok by (intro inv_set_dispatch) auto
  show ?thesis
    unfolding claimed_def
    using inv1 work_unique[OF assms(1,3)] ok by (intro inv_set_work_fewer) auto
qed

lemma claim_inv: "adm_inv lm a \<Longrightarrow> claim cf k lease_s now a = (res, a') \<Longrightarrow> adm_inv lm a'"
  by (erule claim_cases) (auto intro: adm_inv_cong[OF _ _ _ claimed_inv])

lemma throttle_inv: "adm_inv lm a \<Longrightarrow> throttle r now a = (th, a') \<Longrightarrow> adm_inv lm a'"
  by (auto simp: throttle_def Let_def intro: adm_inv_cong)

lemma throttle_same:
  "throttle r now a = (th, a') \<Longrightarrow> ad_work a' = ad_work a \<and> ad_members a' = ad_members a \<and> ad_dispatch a' = ad_dispatch a \<and> ad_orders a' = ad_orders a \<and> ad_seq a' = ad_seq a"
  by (auto simp: throttle_def Let_def)

text \<open>The units an accepted submission adds are its members' when it is admitted, none when queued.\<close>

lemma member_unit_snoc_other:
  assumes "work_of (m_work m) a \<noteq> None"
  shows "member_unit (ad_work a @ [w]) m = member_unit (ad_work a) m"
  using assms by (auto simp: member_unit_def work_of_def select_one_append split: option.splits)

lemma held_units_insert_order:
  assumes "adm_inv lm a" and "work_of k a = None" and "w_id w = k"
  shows "held_units (insert_order k dg ord w ms now a) = held_units a @
     (if holding (w_state w) then map (\<lambda>r. (r, w_actor w, w_blueprint w)) (map ms_repo (sort_key ms_job_idx ms)) else [])"
proof -
  let ?a = "insert_order k dg ord w ms now a"
  have pk: "primary_key w_id (ad_work ?a)"
    using assms by (auto simp: insert_order_def adm_inv_def work_of_def intro: primary_key_snoc)
  have old: "member_unit (ad_work a @ [w]) m = member_unit (ad_work a) m" if "m \<in> set (ad_members a)" for m
    using that assms(1) by (intro member_unit_snoc_other) (auto simp: adm_inv_def list_all_iff)
  have new: "member_unit (ad_work a @ [w]) (new_member k now m) = (if holding (w_state w) then [(ms_repo m, w_actor w, w_blueprint w)] else [])" for m
    using assms(2,3) by (simp add: member_unit_def new_member_def work_of_def select_one_append)
  have "concat (map (member_unit (ad_work a @ [w])) (ad_members a)) = held_units a"
    unfolding held_units_member_unit[OF assms(1)[unfolded adm_inv_def, THEN conjunct1]]
    using old by (metis (no_types, lifting) map_cong)
  moreover have "concat (map (\<lambda>m. member_unit (ad_work a @ [w]) (new_member k now m)) xs)
      = (if holding (w_state w) then map (\<lambda>r. (r, w_actor w, w_blueprint w)) (map ms_repo xs) else [])" for xs
    unfolding new by (induction xs) auto
  ultimately show ?thesis
    unfolding held_units_member_unit[OF pk] by (simp add: insert_order_def comp_def)
qed

lemma insert_order_inv:
  assumes "adm_inv lm a" and "work_of k a = None" and "w_id w = k" and "w_state w \<noteq> LegacyActive"
    and "distinct (map ms_job_idx ms)" and "within_limits lm (held_units (insert_order k dg ord w ms now a))"
  shows "adm_inv lm (insert_order k dg ord w ms now a)"
proof -
  let ?a = "insert_order k dg ord w ms now a"
  have pk: "primary_key w_id (ad_work ?a)"
    using assms by (auto simp: insert_order_def adm_inv_def work_of_def intro: primary_key_snoc)
  have nomem: "\<forall>m\<in>set (ad_members a). m_work m \<noteq> k"
    using assms(1,2) by (auto simp: adm_inv_def list_all_iff)
  have "distinct (map ms_job_idx (sort_key ms_job_idx ms))"
    using assms(5) mset_map_eq_distinct[of "sort_key ms_job_idx ms" ms ms_job_idx] by simp
  then have "distinct (map member_key (map (new_member k now) (sort_key ms_job_idx ms)))"
    by (simp add: distinct_map member_key_def new_member_def inj_on_def)
  then have mk: "primary_key member_key (ad_members ?a)"
    using assms(1) nomem by (auto simp: insert_order_def adm_inv_def primary_key_def member_key_def new_member_def)
  have wk: "work_of x ?a = (case work_of x a of None \<Rightarrow> if x = k then Some w else None | Some r \<Rightarrow> Some r)" for x
    using assms(3) by (auto simp: insert_order_def work_of_def select_one_append split: option.splits)
  have "list_all (\<lambda>m. work_of (m_work m) ?a \<noteq> None) (ad_members ?a)"
    using assms(1) unfolding wk by (auto simp: insert_order_def adm_inv_def list_all_iff new_member_def split: option.splits)
  moreover have "list_all (\<lambda>d. work_of (dr_work d) ?a \<noteq> None) (ad_dispatch ?a)"
    using assms(1) unfolding wk by (auto simp: insert_order_def adm_inv_def list_all_iff split: option.splits)
  ultimately show ?thesis
    using pk mk assms unfolding adm_inv_def by (simp add: insert_order_def)
qed

lemma work_of_open_dispatch [simp]: "work_of k (open_dispatch j now a) = work_of k a"
  by (simp add: open_dispatch_def work_of_def)

lemma rate_limit_None: "rate_limit th b = None \<longleftrightarrow> th = None \<and> b = None"
  by (simp add: rate_limit_def split: option.splits)

lemma sort_key_Nil_iff [simp]: "sort_key f xs = [] \<longleftrightarrow> xs = []"
  by (metis length_0_conv length_sort)

lemma submit_new_inv:
  assumes inv: "adm_inv (cf_limits cf) a" and new: "work_of k a = None" and ms: "ms \<noteq> []" "distinct (map ms_job_idx ms)"
    and sub: "submit_new cf k actor bp ord ms p ck a = (res, a')"
  shows "adm_inv (cf_limits cf) a'"
proof (cases "impossible (cf_limits cf) (sort (map ms_repo ms)) actor bp")
  case (Some b)
  with sub inv show ?thesis by (simp add: submit_new_def)
next
  case None
  let ?repos = "sort (map ms_repo ms)"
  let ?rk = "repo_key_of ?repos"
  obtain th a1 where th: "throttle ?rk (ck 1) a = (th, a1)" by fastforce
  note same = throttle_same[OF th]
  have inv1: "adm_inv (cf_limits cf) a1" using throttle_inv[OF inv th] .
  let ?b = "rate_limit th (capacity_block_for (cf_limits cf) ?repos actor bp a)"
  let ?a2 = "a1\<lparr>ad_seq := ad_seq a1 + 1\<rparr>"
  have inv2: "adm_inv (cf_limits cf) ?a2" by (rule adm_inv_cong[OF _ _ _ inv1]) simp_all
  have new2: "work_of k ?a2 = None" using new same by (simp add: work_of_def)
  let ?w = "new_work k ?rk actor bp p (ad_seq a1 + 1) ?b ms (ck 0)"
  let ?a3 = "insert_order k (request_digest (cf_float cf) ord) ord ?w ms (ck 0) ?a2"
  have w: "w_id ?w = k" "w_state ?w \<noteq> LegacyActive" "w_actor ?w = actor" "w_blueprint ?w = bp"
    "holding (w_state ?w) \<longleftrightarrow> ?b = None"
    by (auto simp: new_work_def holding_def)
  have hu: "held_units ?a2 = held_units a" using same by (intro held_units_cong) auto
  have wl: "within_limits (cf_limits cf) (held_units a)" using inv by (simp add: adm_inv_def)
  have "within_limits (cf_limits cf) (held_units ?a3)"
  proof (cases "?b = None")
    case True
    then have "first_block (checks (cf_limits cf) ?repos actor bp (held_units a)) = None"
      by (simp add: rate_limit_None capacity_block_for_def)
    then have "within_limits (cf_limits cf) (held_units a @ map (\<lambda>x. (x, actor, bp)) ?repos)"
      using wl ms(1) by (intro checks_sound) auto
    moreover have "mset (held_units a @ map (\<lambda>x. (x, actor, bp)) ?repos) = mset (held_units ?a3)"
      using held_units_insert_order[OF inv2 new2 w(1)] w(3-5) True hu by (simp add: multiset.map_comp)
    ultimately show ?thesis using within_mset by blast
  next
    case False
    then have "\<not> holding (w_state ?w)" using w(5) by simp
    then show ?thesis unfolding held_units_insert_order[OF inv2 new2 w(1)] using hu wl by simp
  qed
  then have inv3: "adm_inv (cf_limits cf) ?a3" using inv2 new2 w(1,2) ms(2) by (intro insert_order_inv)
  have there: "work_of k ?a3 \<noteq> None"
    using w(1) by (auto simp: insert_order_def work_of_def select_one_append split: option.splits)
  have inv4: "adm_inv (cf_limits cf) (open_dispatch k (ck 0) ?a3)" using inv3 there by (rule inv_open_dispatch)
  obtain cres a4 where c: "claim cf k None (ck 2) (open_dispatch k (ck 0) ?a3) = (cres, a4)" by fastforce
  have inv5: "adm_inv (cf_limits cf) a4" using claim_inv[OF inv4 c] .
  have a': "a' = (if ?b \<noteq> None \<and> count_queued a1 \<ge> queue_size (cf_limits cf) then a1
      else if ?b \<noteq> None then ?a3 else (case cres of Inl e \<Rightarrow> a | Inr i \<Rightarrow> a4))"
    using sub unfolding submit_new_def Let_def None option.case th prod.case next_sequence_def c
    by (simp split: if_splits sum.splits)
  show ?thesis using inv inv1 inv3 inv5 unfolding a' by (auto split: sum.splits)
qed

lemma submit_inv:
  assumes "adm_inv (cf_limits cf) a" and "submit cf k actor bp ord ms p ck a = (res, a')"
  shows "adm_inv (cf_limits cf) a'"
proof (cases "submit_valid ord ms \<and> work_of k a = None")
  case True
  then show ?thesis
    using assms(2) submit_new_inv[OF assms(1), of k ms actor bp ord p ck res a']
    by (auto simp: submit_def submit_valid_def)
next
  case False
  then show ?thesis using assms by (auto simp: submit_def split: if_splits option.splits)
qed

lemma next_fair_same:
  "next_fair_candidate a = (c, a') \<Longrightarrow> ad_work a' = ad_work a \<and> ad_members a' = ad_members a \<and> ad_dispatch a' = ad_dispatch a"
  by (auto simp: next_fair_candidate_def replenish_def Let_def split: if_splits option.splits)

lemma queued_rows_in: "w \<in> set (queued_rows a) \<longleftrightarrow> w \<in> set (ad_work a) \<and> w_state w = Queued"
  by (auto simp: queued_rows_def)

lemma next_fair_queued: "next_fair_candidate a = (Some w, a') \<Longrightarrow> w \<in> set (ad_work a) \<and> w_state w = Queued"
  by (auto simp: next_fair_candidate_def Let_def queued_rows_in dest: find_in split: if_splits option.splits)

lemma admit_queued_inv:
  assumes inv: "adm_inv lm a" and w: "w \<in> set (ad_work a)"
    and cap: "capacity_block_for lm (map m_repo (members_of (w_id w) a)) (w_actor w) (w_blueprint w) a = None"
  shows "adm_inv lm (admit_queued (w_id w) now a)"
proof -
  let ?k = "w_id w"
  let ?f = "\<lambda>w. w\<lparr>w_state := Admitted, w_reason := ''drained'', w_limiting := None, w_admitted_at := Some now, w_updated_at := now\<rparr>"
  have wo: "work_of ?k a = Some w"
    unfolding work_of_def using inv w by (intro select_one_in) (auto simp: adm_inv_def)
  let ?ms = "filter (\<lambda>m. m_work m = ?k) (ad_members a)"
  let ?new = "map (\<lambda>m. (m_repo m, w_actor w, w_blueprint w)) ?ms"
  have sub: "mset (held_units (admit_queued ?k now a)) \<subseteq># mset (held_units a @ ?new)"
    unfolding admit_queued_def using inv wo by (intro admit_units) (auto simp: adm_inv_def)
  have wl: "within_limits lm (held_units a)" using inv by (simp add: adm_inv_def)
  have "within_limits lm (held_units a @ ?new)"
  proof (cases "?ms = []")
    case True
    then show ?thesis using wl by simp
  next
    case False
    let ?repos = "map m_repo (members_of ?k a)"
    have "mset (members_of ?k a) = mset ?ms" by (simp add: members_of_def)
    then have "?repos \<noteq> []" and ms: "mset ?repos = mset (map m_repo ?ms)"
      using False by (auto simp: members_of_def)
    then have "within_limits lm (held_units a @ map (\<lambda>x. (x, w_actor w, w_blueprint w)) ?repos)"
      using cap wl by (intro checks_sound) (auto simp: capacity_block_for_def)
    moreover have "mset (held_units a @ map (\<lambda>x. (x, w_actor w, w_blueprint w)) ?repos) = mset (held_units a @ ?new)"
      using ms by (simp add: members_of_def multiset.map_comp comp_def)
    ultimately show ?thesis using within_mset by blast
  qed
  then have "within_limits lm (held_units (admit_queued ?k now a))" using sub within_mono by blast
  then show ?thesis unfolding admit_queued_def using inv by (intro inv_set_work) auto
qed

lemma set_limiting_inv: "adm_inv lm a \<Longrightarrow> adm_inv lm (set_limiting k b now a)"
  unfolding set_limiting_def by (rule inv_set_work_fewer) (auto simp: adm_inv_def list_all_iff)

lemma defer_sequence_inv: "adm_inv lm a \<Longrightarrow> adm_inv lm (defer_sequence k now a)"
proof -
  assume inv: "adm_inv lm a"
  have "adm_inv lm (a\<lparr>ad_seq := ad_seq a + 1\<rparr>)" by (rule adm_inv_cong[OF _ _ _ inv]) simp_all
  then show ?thesis
    unfolding defer_sequence_def next_sequence_def prod.case
    by (rule inv_set_work_fewer) (auto simp: adm_inv_def list_all_iff)
qed

lemma record_service_inv: "adm_inv lm a \<Longrightarrow> adm_inv lm (record_service p a)"
  unfolding record_service_def by (rule adm_inv_cong) simp_all

lemma capacity_block_cong: "held_units a' = held_units a \<Longrightarrow> capacity_block_for lm r ac bp a' = capacity_block_for lm r ac bp a"
  by (simp add: capacity_block_for_def)

lemma members_of_cong: "ad_members a' = ad_members a \<Longrightarrow> members_of k a' = members_of k a"
  by (simp add: members_of_def)

lemma drain_iter_inv: "adm_inv (cf_limits cf) a \<Longrightarrow> drain_iter cf ck n acc a = (ids, a') \<Longrightarrow> adm_inv (cf_limits cf) a'"
proof (induction n arbitrary: ck acc a)
  case 0
  then show ?case by simp
next
  case (Suc n)
  obtain cand a1 where nf: "next_fair_candidate a = (cand, a1)" by fastforce
  have inv1: "adm_inv (cf_limits cf) a1" using next_fair_same[OF nf] Suc.prems(1) by (intro adm_inv_cong[of a1 a]) auto
  show ?case
  proof (cases cand)
    case None
    with Suc.prems(2) nf inv1 show ?thesis by simp
  next
    case (Some w)
    have wq: "w \<in> set (ad_work a1)" "w_state w = Queued"
      using next_fair_queued[OF nf[unfolded Some]] next_fair_same[OF nf] by auto
    let ?cap = "capacity_block_for (cf_limits cf) (map m_repo (members_of (w_id w) a1)) (w_actor w) (w_blueprint w) a1"
    obtain th a2 where th: "throttle (w_repo w) (ck 0) a1 = (th, a2)" by fastforce
    note same = throttle_same[OF th]
    have inv2: "adm_inv (cf_limits cf) a2" using throttle_inv[OF inv1 th] .
    show ?thesis
    proof (cases "rate_limit th ?cap")
      case (Some b)
      let ?a3 = "set_limiting (w_id w) b (ck 1) a2"
      have inv3: "adm_inv (cf_limits cf) ?a3" using inv2 by (rule set_limiting_inv)
      show ?thesis
      proof (cases "any_other_candidate (w_id w) ?a3")
        case True
        then show ?thesis
          using Suc.prems(2) nf \<open>cand = Some w\<close> th Some Suc.IH[OF defer_sequence_inv[OF inv3]] by simp
      next
        case False
        then show ?thesis using Suc.prems(2) nf \<open>cand = Some w\<close> th Some inv3 by simp
      qed
    next
      case None
      then have cap: "?cap = None" by (simp add: rate_limit_None)
      have cap2: "capacity_block_for (cf_limits cf) (map m_repo (members_of (w_id w) a2)) (w_actor w) (w_blueprint w) a2 = None"
        using cap members_of_cong[of a2 a1] capacity_block_cong[OF held_units_cong[of a2 a1]] same by simp
      have inv3: "adm_inv (cf_limits cf) (admit_queued (w_id w) (ck 1) a2)"
        using inv2 wq(1) cap2 same by (intro admit_queued_inv) auto
      have there: "work_of (w_id w) (admit_queued (w_id w) (ck 1) a2) \<noteq> None"
      proof -
        have "work_of (w_id w) a2 = Some w"
          unfolding work_of_def using inv2 wq(1) same by (intro select_one_in) (auto simp: adm_inv_def)
        then show ?thesis unfolding admit_queued_def by (subst work_of_set_work) auto
      qed
      have inv4: "adm_inv (cf_limits cf) (record_service (w_priority w) (open_dispatch (w_id w) (ck 1) (admit_queued (w_id w) (ck 1) a2)))"
        using inv3 there by (intro record_service_inv inv_open_dispatch)
      show ?thesis
      proof (cases "rowcount (\<lambda>x. w_id x = w_id w \<and> w_state x = Queued) (ad_work a2) = 1")
        case True
        then show ?thesis
          using Suc.prems(2) nf \<open>cand = Some w\<close> th None Suc.IH[OF inv4] by simp
      next
        case False
        then show ?thesis
          using Suc.prems(2) nf \<open>cand = Some w\<close> th None Suc.IH[OF inv3] by simp
      qed
    qed
  qed
qed

lemma drain_inv: "adm_inv (cf_limits cf) a \<Longrightarrow> drain cf limit ck a = (ids, a') \<Longrightarrow> adm_inv (cf_limits cf) a'"
  unfolding drain_def Let_def by (rule drain_iter_inv)

lemma drop_inflight_inv [simp]: "adm_inv lm (drop_inflight k a) = adm_inv lm a"
  using adm_inv_cong[of "drop_inflight k a" a] adm_inv_cong[of a "drop_inflight k a"] by auto

lemma adm_inv_no_legacy: "adm_inv lm a \<Longrightarrow> w \<in> set (ad_work a) \<Longrightarrow> w_state w \<noteq> LegacyActive"
  by (auto simp: adm_inv_def list_all_iff)

lemma cancel_inv:
  assumes inv: "adm_inv (cf_limits cf) a" and c: "cancel cf k reason st ck a = (res, a')"
  shows "adm_inv (cf_limits cf) a'"
proof (cases "terminal_of st")
  case None
  with c inv show ?thesis by (simp add: cancel_def)
next
  case (Some e)
  let ?hit = "\<lambda>w. w_id w = k \<and> w_state w \<in> set [Queued, Admitted, Dispatching]"
  let ?a1 = "set_work ?hit (\<lambda>w. w\<lparr>w_state := Ended e, w_reason := take 512 reason, w_terminal_at := Some (ck 0), w_updated_at := ck 0\<rparr>) a"
  let ?a2 = "set_members (\<lambda>m. m_work m = k \<and> m_state m = Held) (\<lambda>m. m\<lparr>m_state := MEnded e, m_updated_at := ck 0\<rparr>) ?a1"
  let ?a3 = "set_dispatch (\<lambda>d. dr_work d = k \<and> dr_state d \<noteq> Delivered)
     (\<lambda>d. d\<lparr>dr_state := Abandoned, dr_token := None, dr_lease_until := None, dr_last_error := Some (take 512 reason), dr_updated_at := ck 0\<rparr>) ?a2"
  have i1: "adm_inv (cf_limits cf) ?a1" using inv by (rule inv_set_work_fewer) (simp add: holding_def)
  have i2: "adm_inv (cf_limits cf) ?a2" using i1 by (rule inv_set_members) simp
  have i3: "adm_inv (cf_limits cf) ?a3" using i2 adm_inv_attempts[OF i2] by (intro inv_set_dispatch) auto
  obtain ids a4 where d: "drain cf None (\<lambda>i. ck (i + 1)) (drop_inflight k ?a3) = (ids, a4)" by fastforce
  have "adm_inv (cf_limits cf) a4" using drain_inv[OF _ d] i3 by simp
  moreover have "a' = a \<or> a' = a4"
    using c unfolding cancel_def Some option.case Let_def d prod.case by (auto split: if_splits)
  ultimately show ?thesis using inv by blast
qed

lemma complete_inv:
  assumes inv: "adm_inv (cf_limits cf) a" and c: "complete cf k cell epoch st ck a = (res, a')"
  shows "adm_inv (cf_limits cf) a'"
proof (cases "terminal_of st")
  case None
  with c inv show ?thesis by (simp add: complete_def)
next
  case (Some e)
  let ?a1 = "set_members (\<lambda>m. m_work m = k \<and> m_cell m = cell \<and> m_epoch m = Some epoch \<and> m_state m = Held)
     (\<lambda>m. m\<lparr>m_state := MEnded e, m_updated_at := ck 0\<rparr>) a"
  let ?b = "set_work (\<lambda>w. w_id w = k) (\<lambda>w. w\<lparr>w_reason := ''member_terminal'', w_updated_at := ck 0\<rparr>) ?a1"
  let ?a2 = "set_work (\<lambda>w. w_id w = k \<and> holding (w_state w)) (\<lambda>w. w\<lparr>w_state := Ended (worst (member_outcomes k ?a1)),
     w_reason := ''members_terminal'', w_terminal_at := Some (ck 0), w_updated_at := ck 0\<rparr>) ?a1"
  have i1: "adm_inv (cf_limits cf) ?a1" using inv by (rule inv_set_members) simp
  have ib: "adm_inv (cf_limits cf) ?b" using i1 adm_inv_no_legacy[OF i1] by (intro inv_set_work_fewer) auto
  have i2: "adm_inv (cf_limits cf) ?a2" using i1 by (rule inv_set_work_fewer) simp
  obtain ids a3 where d: "drain cf None (\<lambda>i. ck (i + 1)) ?a2 = (ids, a3)" by fastforce
  have i3: "adm_inv (cf_limits cf) a3" using drain_inv[OF i2 d] .
  have "a' = ?a1 \<or> a' = ?b \<or> a' = a3"
    using c unfolding complete_def Some option.case Let_def d prod.case by (auto split: if_splits)
  then show ?thesis using i1 ib i3 by blast
qed

lemma record_member_epoch_inv:
  "adm_inv lm a \<Longrightarrow> record_member_epoch k j e token now a = (res, a') \<Longrightarrow> adm_inv lm a'"
  unfolding record_member_epoch_def Let_def by (auto intro!: inv_set_members split: if_splits)

lemma to_admitted_inv:
  "adm_inv lm a \<Longrightarrow> adm_inv lm (set_work (\<lambda>w. w_id w = k \<and> w_state w = Dispatching)
     (\<lambda>w. w\<lparr>w_state := Admitted, w_reason := r, w_updated_at := now\<rparr>) a)"
  by (rule inv_set_work_fewer) (auto simp: holding_def)

lemma record_dispatch_inv:
  assumes "adm_inv lm a" and "record_dispatch k token run now a = (res, a')"
  shows "adm_inv lm a'"
proof -
  let ?a1 = "set_dispatch (\<lambda>d. dr_work d = k) (\<lambda>d. d\<lparr>dr_state := Delivered, dr_token := None, dr_lease_until := None,
     dr_dag_run := Some run, dr_last_error := None, dr_updated_at := now\<rparr>) a"
  let ?a2 = "set_work (\<lambda>w. w_id w = k \<and> w_state w = Dispatching)
     (\<lambda>w. w\<lparr>w_state := Bound, w_reason := ''dispatched'', w_updated_at := now,
           w_cell_epoch := Option.bind (first_by_cell k a) m_epoch, w_cell := map_option m_cell (first_by_cell k a)\<rparr>) ?a1"
  have i1: "adm_inv lm ?a1" using assms(1) adm_inv_attempts[OF assms(1)] by (intro inv_set_dispatch) auto
  have "adm_inv lm ?a2" using i1 by (rule inv_set_work_fewer) (auto simp: holding_def)
  moreover have "a' = a \<or> a' = drop_inflight k ?a2"
    using assms(2) unfolding record_dispatch_def Let_def by (auto split: if_splits)
  ultimately show ?thesis using assms(1) by auto
qed

lemma release_dispatch_inv:
  assumes "adm_inv lm a" and "release_dispatch k token err ob now a = (res, a')"
  shows "adm_inv lm a'"
proof -
  let ?a1 = "set_dispatch (\<lambda>d. dr_work d = k) (\<lambda>d. d\<lparr>dr_state := Pending, dr_token := None, dr_lease_until := None,
     dr_last_error := Some (take 2000 err), dr_observation := observation_json ob, dr_updated_at := now\<rparr>) a"
  have i1: "adm_inv lm ?a1" using assms(1) adm_inv_attempts[OF assms(1)] by (intro inv_set_dispatch) auto
  show ?thesis
    using assms to_admitted_inv[OF i1]
    unfolding release_dispatch_def Let_def by (auto split: if_splits)
qed

lemma mark_undeliverable_inv:
  assumes "adm_inv lm a"
  shows "adm_inv lm (mark_undeliverable k err ob now a)"
proof -
  let ?a1 = "set_dispatch (\<lambda>d. dr_work d = k \<and> dr_state d \<noteq> Delivered) (\<lambda>d. d\<lparr>dr_state := Undeliverable, dr_token := None,
     dr_lease_until := None, dr_last_error := Some (take 2000 err), dr_observation := observation_json ob, dr_updated_at := now\<rparr>) a"
  have "adm_inv lm ?a1" using assms adm_inv_attempts[OF assms] by (intro inv_set_dispatch) auto
  then show ?thesis unfolding mark_undeliverable_def Let_def drop_inflight_inv by (rule to_admitted_inv)
qed

lemma note_outcome_inv: "adm_inv lm a \<Longrightarrow> adm_inv lm (note_outcome k err ob now a)"
  unfolding note_outcome_def drop_inflight_inv using adm_inv_attempts[of lm a] by (intro inv_set_dispatch) auto

text \<open>A restart keeps the database and forgets the deliveries of the process.\<close>

inductive adm_step :: "adm_config \<Rightarrow> adm \<Rightarrow> adm \<Rightarrow> bool" for cf where
  st_submit: "submit cf k actor bp ord ms p ck a = (res, a') \<Longrightarrow> adm_step cf a a'"
| st_drain: "drain cf limit ck a = (ids, a') \<Longrightarrow> adm_step cf a a'"
| st_cancel: "cancel cf k reason st ck a = (res', a') \<Longrightarrow> adm_step cf a a'"
| st_complete: "complete cf k cell epoch st ck a = (res', a') \<Longrightarrow> adm_step cf a a'"
| st_claim: "claim_dispatch cf k lease_s now a = (res'', a') \<Longrightarrow> adm_step cf a a'"
| st_member: "record_member_epoch k j epoch token now a = (res3, a') \<Longrightarrow> adm_step cf a a'"
| st_record: "record_dispatch k token run now a = (res3, a') \<Longrightarrow> adm_step cf a a'"
| st_release: "release_dispatch k token err ob now a = (res3, a') \<Longrightarrow> adm_step cf a a'"
| st_undeliverable: "adm_step cf a (mark_undeliverable k err ob now a)"
| st_note: "adm_step cf a (note_outcome k err ob now a)"
| st_restart: "adm_step cf a (a\<lparr>ad_inflight := []\<rparr>)"

lemmas adm_ops_inv = submit_inv drain_inv cancel_inv complete_inv claim_inv[folded claim_dispatch_def]
  record_member_epoch_inv record_dispatch_inv release_dispatch_inv mark_undeliverable_inv note_outcome_inv

lemma empty_adm_inv: "adm_inv lm empty_adm"
  by (simp add: adm_inv_def empty_adm_def primary_key_def held_units_def)

lemma adm_step_inv: "adm_step cf a a' \<Longrightarrow> adm_inv (cf_limits cf) a \<Longrightarrow> adm_inv (cf_limits cf) a'"
proof (induction rule: adm_step.induct)
  case (st_restart a)
  then show ?case by (intro adm_inv_cong[of "a\<lparr>ad_inflight := []\<rparr>" a]) simp_all
qed (blast intro: adm_ops_inv)+

interpretation admission: inductive_invariant "\<lambda>a. a = empty_adm" "adm_step cf" "\<lambda>a. adm_inv (cf_limits cf) a" for cf
  by unfold_locales (auto simp: empty_adm_inv intro: adm_step_inv)

text \<open>C17: capacity is never oversold. After any sequence of submissions, drains, cancellations,
  completions, claims, deliveries and restarts, the units held by admitted, dispatching and bound
  orders respect the global, repository, actor and blueprint limits, whatever the orders' fan-out.\<close>

theorem durable_capacity:
  assumes "reach (\<lambda>a. a = empty_adm) (adm_step cf) a"
  shows "within_limits (cf_limits cf) (held_units a)"
  using admission.reach_inv[OF assms] by (simp add: adm_inv_def)

text \<open>Deliveries are bounded and exclusive. In every reachable state a claim is granted only to an
  order that is admitted or dispatching, whose intent is open, that no thread of this process is
  delivering, whose lease has run out if it has one, and with attempt number at most five; the claim
  makes its token the one token the store accepts.\<close>

theorem claim_bounded_exclusive:
  assumes "reach (\<lambda>a. a = empty_adm) (adm_step cf) a" and "claim_dispatch cf k lease_s now a = (Inr (Some i), a')"
  shows "\<exists>d w. dispatch_of k a = Some d \<and> work_of k a = Some w \<and> w_state w \<in> {Admitted, Dispatching}
     \<and> dr_state d \<in> {Pending, Inflight} \<and> k \<notin> fst ` set (ad_inflight a)
     \<and> (w_state w = Dispatching \<longrightarrow> (\<forall>t. dr_lease_until d = Some t \<longrightarrow> t \<le> now))
     \<and> di_attempt i = dr_attempt d + 1 \<and> 1 \<le> di_attempt i \<and> di_attempt i \<le> 5
     \<and> (\<forall>token. lease_ok k token a' \<longleftrightarrow> token = di_token i)"
  using assms(2)[unfolded claim_dispatch_def]
proof (cases rule: claim_cases)
  case none
  then show ?thesis by blast
next
  case (some d w ord)
  have inv: "adm_inv (cf_limits cf) a" using admission.reach_inv[OF assms(1)] .
  have att: "0 \<le> dr_attempt d" using adm_inv_attempts[OF inv] dispatch_of_in[OF some(1)] by blast
  have i: "di_attempt i = dr_attempt d + 1" "di_token i = claim_token cf k (dr_attempt d + 1) now"
    using some(5) by simp_all
  have st: "w_state w \<in> {Admitted, Dispatching}" "dr_state d \<in> {Pending, Inflight}" "k \<notin> fst ` set (ad_inflight a)"
    "w_state w = Dispatching \<longrightarrow> (\<forall>t. dr_lease_until d = Some t \<longrightarrow> t \<le> now)" "dr_attempt d + 1 \<le> 5"
    using some(3) by (cases "dr_state d"; force simp: claim_refused_def MAX_DISPATCH_ATTEMPTS_def split: option.splits)+
  have "dispatch_of k a' = map_option (\<lambda>r. if dr_work r = k then r\<lparr>dr_attempt := dr_attempt d + 1, dr_state := Inflight,
      dr_token := Some (claim_token cf k (dr_attempt d + 1) now),
      dr_lease_until := Some (now + max 0 (case lease_s of None \<Rightarrow> cf_lease_s cf | Some l \<Rightarrow> l)), dr_updated_at := now\<rparr> else r) (dispatch_of k a)"
    unfolding some(6) by (simp add: dispatch_of_def claimed_def select_one_upd_where)
  then have "\<forall>token. lease_ok k token a' \<longleftrightarrow> token = di_token i"
    using some(1) dispatch_of_in[OF some(1)] i(2) by (auto simp: lease_ok_def)
  with some(1,2) i st att show ?thesis by auto
qed

section \<open>A blocked class\<close>

text \<open>The one queued order of the first class, which does not fit and whose class has deficit left.\<close>

definition blocked_head :: "limits \<Rightarrow> string \<Rightarrow> adm \<Rightarrow> bool" where
  "blocked_head lm k a = (\<exists>h. work_of k a = Some h \<and> w_state h = Queued \<and> w_priority h = HOTFIX
     \<and> (\<forall>w\<in>set (ad_work a). w_state w = Queued \<and> w_id w \<noteq> k \<longrightarrow> w_priority w \<noteq> HOTFIX)
     \<and> deficit_of HOTFIX a > 0
     \<and> capacity_block_for lm (map m_repo (members_of k a)) (w_actor h) (w_blueprint h) a \<noteq> None)"

lemma blocked_head_selected:
  assumes inv: "adm_inv lm a" and "blocked_head lm k a" and h: "work_of k a = Some h"
  shows "next_fair_candidate a = (Some h, a)"
proof -
  have all: "w_state h = Queued \<and> w_priority h = HOTFIX
      \<and> (\<forall>w\<in>set (ad_work a). w_state w = Queued \<and> w_id w \<noteq> k \<longrightarrow> w_priority w \<noteq> HOTFIX) \<and> deficit_of HOTFIX a > 0"
    using assms(2) unfolding blocked_head_def h by simp
  then have q: "w_state h = Queued" "w_priority h = HOTFIX" "deficit_of HOTFIX a > 0" by blast+
  have others: "w_priority w \<noteq> HOTFIX" if "w \<in> set (ad_work a)" "w_state w = Queued" "w_id w \<noteq> k" for w
    using all that by blast
  have hq: "h \<in> set (queued_rows a)" using q(1) work_of_in[OF h] by (simp add: queued_rows_in)
  have av: "available a = HOTFIX # filter (\<lambda>p. list_ex (\<lambda>w. w_priority w = p) (queued_rows a)) [MANUAL, NORMAL, BACKGROUND]"
    using hq q(2) by (auto simp: available_def priorities_def list_ex_iff)
  have "replenish a = a" using q(3) by (simp add: replenish_def av)
  moreover have "List.find (\<lambda>w. w_priority w = HOTFIX) (queued_rows a) = Some h"
    using hq q(2) others work_unique[OF inv h] by (intro find_unique) (auto simp: queued_rows_in)
  ultimately show ?thesis
    using hq q(3) by (auto simp: next_fair_candidate_def av)
qed

lemma held_units_set_work_same:
  assumes "primary_key w_id (ad_work a)"
    and "\<And>w. w_id (f w) = w_id w \<and> w_actor (f w) = w_actor w \<and> w_blueprint (f w) = w_blueprint w \<and> w_state (f w) = w_state w"
  shows "held_units (set_work p f a) = held_units a"
proof -
  have pk: "primary_key w_id (upd_where p f (ad_work a))" using assms by (intro primary_key_upd_where) auto
  have sel: "select_one w_id x (upd_where p f (ad_work a)) = map_option (\<lambda>r. if p r then f r else r) (select_one w_id x (ad_work a))" for x
    using assms(2) by (intro select_one_upd_where) auto
  have "member_unit (upd_where p f (ad_work a)) m = member_unit (ad_work a) m" for m
    using assms(2) by (auto simp: member_unit_def sel split: option.splits)
  then show ?thesis
    using held_units_member_unit[OF assms(1)] held_units_member_unit[of "set_work p f a"] pk by (simp cong: map_cong)
qed

lemma blocked_head_set_work:
  assumes "adm_inv lm a" and "blocked_head lm k a"
    and f: "\<And>w. w_id (f w) = w_id w \<and> w_actor (f w) = w_actor w \<and> w_blueprint (f w) = w_blueprint w
             \<and> w_state (f w) = w_state w \<and> w_priority (f w) = w_priority w"
  shows "blocked_head lm k (set_work p f a)"
proof -
  obtain h where h: "work_of k a = Some h" "w_state h = Queued" "w_priority h = HOTFIX"
    "\<forall>w\<in>set (ad_work a). w_state w = Queued \<and> w_id w \<noteq> k \<longrightarrow> w_priority w \<noteq> HOTFIX" "deficit_of HOTFIX a > 0"
    "capacity_block_for lm (map m_repo (members_of k a)) (w_actor h) (w_blueprint h) a \<noteq> None"
    using assms(2) by (auto simp: blocked_head_def)
  let ?h = "if p h then f h else h"
  have wk: "work_of k (set_work p f a) = Some ?h" using h(1) f by (subst work_of_set_work) auto
  have hu: "held_units (set_work p f a) = held_units a"
    using assms(1) f by (intro held_units_set_work_same) (auto simp: adm_inv_def)
  have "\<forall>w\<in>set (upd_where p f (ad_work a)). w_state w = Queued \<and> w_id w \<noteq> k \<longrightarrow> w_priority w \<noteq> HOTFIX"
    using h(4) f by (auto dest!: upd_where_in)
  moreover have "deficit_of HOTFIX (set_work p f a) = deficit_of HOTFIX a" by (simp add: deficit_of_def set_work_def)
  ultimately show ?thesis
    unfolding blocked_head_def wk
    using h(2,3,5,6) f[of h] capacity_block_cong[OF hu] members_of_cong[of "set_work p f a" a] by auto
qed

lemma blocked_head_cong:
  assumes "blocked_head lm k a" and "ad_work a' = ad_work a" "ad_members a' = ad_members a" "ad_fairness a' = ad_fairness a"
  shows "blocked_head lm k a'"
  using assms held_units_cong[OF assms(2,3)] members_of_cong[OF assms(3)]
  unfolding blocked_head_def by (simp add: work_of_def deficit_of_def capacity_block_for_def)

lemma throttle_fairness: "throttle r now a = (th, a') \<Longrightarrow> ad_fairness a' = ad_fairness a"
  by (auto simp: throttle_def Let_def)

lemma drain_iter_blocked:
  "adm_inv (cf_limits cf) a \<Longrightarrow> blocked_head (cf_limits cf) k a \<Longrightarrow> fst (drain_iter cf ck n acc a) = acc"
proof (induction n arbitrary: ck acc a)
  case (Suc n)
  note inv = Suc.prems(1) and bh = Suc.prems(2)
  from bh obtain h where h: "work_of k a = Some h"
    and cap: "capacity_block_for (cf_limits cf) (map m_repo (members_of k a)) (w_actor h) (w_blueprint h) a \<noteq> None"
    by (auto simp: blocked_head_def)
  have hid: "w_id h = k" using work_of_in[OF h] by blast
  obtain th a2 where th: "throttle (w_repo h) (ck 0) a = (th, a2)" by fastforce
  have inv2: "adm_inv (cf_limits cf) a2" using throttle_inv[OF inv th] .
  have bh2: "blocked_head (cf_limits cf) k a2"
    using throttle_same[OF th] throttle_fairness[OF th] by (intro blocked_head_cong[OF bh]) auto
  obtain b where b: "rate_limit th (capacity_block_for (cf_limits cf) (map m_repo (members_of k a)) (w_actor h) (w_blueprint h) a) = Some b"
    using cap by (metis rate_limit_None option.exhaust)
  let ?a3 = "set_limiting k b (ck 1) a2"
  have inv3: "adm_inv (cf_limits cf) ?a3" using inv2 by (rule set_limiting_inv)
  have bh3: "blocked_head (cf_limits cf) k ?a3"
    unfolding set_limiting_def using inv2 bh2 by (rule blocked_head_set_work) simp
  let ?a4 = "?a3\<lparr>ad_seq := ad_seq ?a3 + 1\<rparr>"
  have "adm_inv (cf_limits cf) ?a4" by (rule adm_inv_cong[OF _ _ _ inv3]) simp_all
  moreover have "blocked_head (cf_limits cf) k ?a4" by (rule blocked_head_cong[OF bh3]) simp_all
  ultimately have bh4: "blocked_head (cf_limits cf) k (defer_sequence k (ck 2) ?a3)"
    unfolding defer_sequence_def next_sequence_def prod.case by (intro blocked_head_set_work) auto
  have "fst (drain_iter cf (\<lambda>i. ck (i + 3)) n acc (defer_sequence k (ck 2) ?a3)) = acc"
    using defer_sequence_inv[OF inv3] bh4 by (rule Suc.IH)
  then show ?case
    using blocked_head_selected[OF inv bh h] hid th b by (simp add: Let_def)
qed simp

text \<open>Head-of-line blocking. While the single queued order of the highest class does not fit and
  its class has deficit left, \<open>drain\<close> admits nothing at all, with any limit and at any time: deferring
  the blocked order moves it behind its own class only, so every further iteration selects it again,
  however much of the other classes' queued work would fit.\<close>

theorem drain_head_of_line:
  assumes "reach (\<lambda>a. a = empty_adm) (adm_step cf) a" and "blocked_head (cf_limits cf) k a"
  shows "fst (drain cf limit ck a) = []"
  using drain_iter_blocked[OF admission.reach_inv[OF assms(1)] assms(2)] by (simp add: drain_def Let_def)

section \<open>A withdrawn order\<close>

text \<open>The order is over and its intent is not in flight.\<close>

definition withdrawn :: "string \<Rightarrow> adm \<Rightarrow> bool" where
  "withdrawn k a = ((\<exists>w e. work_of k a = Some w \<and> w_state w = Ended e)
     \<and> (\<forall>d. dispatch_of k a = Some d \<longrightarrow> dr_state d \<noteq> Inflight))"

lemma withdrawn_cong: "ad_work a' = ad_work a \<Longrightarrow> ad_dispatch a' = ad_dispatch a \<Longrightarrow> withdrawn k a' = withdrawn k a"
  by (simp add: withdrawn_def work_of_def dispatch_of_def)

lemma withdrawn_set_work:
  assumes "withdrawn k a" and "\<And>w. p w \<Longrightarrow> w_id (f w) = w_id w"
    and "\<And>w e. p w \<Longrightarrow> w_id w = k \<Longrightarrow> w_state w = Ended e \<Longrightarrow> \<exists>e'. w_state (f w) = Ended e'"
  shows "withdrawn k (set_work p f a)"
proof -
  obtain w e where w: "work_of k a = Some w" "w_state w = Ended e" "w_id w = k"
    using assms(1) work_of_in by (auto simp: withdrawn_def)
  have "work_of k (set_work p f a) = Some (if p w then f w else w)"
    using w(1) assms(2) by (subst work_of_set_work) auto
  moreover have "\<exists>e'. w_state (if p w then f w else w) = Ended e'" using w assms(3) by auto
  moreover have "dispatch_of k (set_work p f a) = dispatch_of k a" by (simp add: dispatch_of_def)
  ultimately show ?thesis using assms(1) by (auto simp: withdrawn_def)
qed

lemma withdrawn_set_members [simp]: "withdrawn k (set_members p g a) = withdrawn k a"
  by (rule withdrawn_cong) simp_all

lemma withdrawn_drop [simp]: "withdrawn k (drop_inflight j a) = withdrawn k a"
  by (rule withdrawn_cong) simp_all

lemma dispatch_of_set_dispatch:
  assumes "\<And>d. p d \<Longrightarrow> dr_work (h d) = dr_work d"
  shows "dispatch_of k (set_dispatch p h a) = map_option (\<lambda>d. if p d then h d else d) (dispatch_of k a)"
  unfolding dispatch_of_def set_dispatch_simps using assms by (intro select_one_upd_where) auto

lemma withdrawn_set_dispatch:
  assumes "withdrawn k a" and "\<And>d. p d \<Longrightarrow> dr_work (h d) = dr_work d"
    and "\<And>d. p d \<Longrightarrow> dr_work d = k \<Longrightarrow> dr_state d \<noteq> Inflight \<Longrightarrow> dr_state (h d) \<noteq> Inflight"
  shows "withdrawn k (set_dispatch p h a)"
proof -
  have "dr_state (if p d then h d else d) \<noteq> Inflight" if "dispatch_of k a = Some d" for d
    using assms(1,3) that dispatch_of_in[OF that] by (auto simp: withdrawn_def)
  moreover have "dispatch_of k (set_dispatch p h a) = map_option (\<lambda>d. if p d then h d else d) (dispatch_of k a)"
    using assms(2) by (rule dispatch_of_set_dispatch)
  ultimately show ?thesis using assms(1) by (auto simp: withdrawn_def)
qed

lemma withdrawn_open_dispatch: "withdrawn k a \<Longrightarrow> withdrawn k (open_dispatch j now a)"
proof (cases "dispatch_of j a = None")
  case True
  assume "withdrawn k a"
  with True show ?thesis
    by (auto simp: withdrawn_def open_dispatch_def work_of_def dispatch_of_def select_one_append split: option.splits)
next
  case False
  assume "withdrawn k a"
  with False show ?thesis by (auto simp: open_dispatch_def intro: withdrawn_set_dispatch)
qed

lemma withdrawn_claim:
  assumes "withdrawn k a" and "claim cf j l now a = (res, a')"
  shows "withdrawn k a'"
  using assms(2)
proof (cases rule: claim_cases)
  case none
  with assms show ?thesis by simp
next
  case (some d w ord)
  have "j \<noteq> k"
    using some(2,3) assms(1) by (auto simp: withdrawn_def claim_refused_def)
  then have "withdrawn k (claimed cf j l now d a)"
    unfolding claimed_def using assms(1) by (intro withdrawn_set_work withdrawn_set_dispatch) auto
  then show ?thesis unfolding some(6) by (subst withdrawn_cong) simp_all
qed

lemma withdrawn_throttle: "throttle r now a = (th, a') \<Longrightarrow> withdrawn k a' = withdrawn k a"
  using throttle_same by (intro withdrawn_cong) auto

lemma withdrawn_drain_iter: "withdrawn k a \<Longrightarrow> withdrawn k (snd (drain_iter cf ck n acc a))"
proof (induction n arbitrary: ck acc a)
  case (Suc n)
  obtain cand a1 where nf: "next_fair_candidate a = (cand, a1)" by fastforce
  have c1: "withdrawn k a1" using Suc.prems next_fair_same[OF nf] withdrawn_cong[of a1 a] by simp
  show ?case
  proof (cases cand)
    case None
    with nf c1 show ?thesis by simp
  next
    case (Some w)
    obtain th a2 where th: "throttle (w_repo w) (ck 0) a1 = (th, a2)" by fastforce
    have c2: "withdrawn k a2" using c1 withdrawn_throttle[OF th] by simp
    have lim: "withdrawn k (set_limiting (w_id w) b (ck 1) a2)" for b
      unfolding set_limiting_def using c2 by (rule withdrawn_set_work) auto
    have "withdrawn k (defer_sequence (w_id w) (ck 2) (set_limiting (w_id w) b (ck 1) a2))" for b
    proof -
      have "withdrawn k ((set_limiting (w_id w) b (ck 1) a2)\<lparr>ad_seq := s\<rparr>)" for s
        using lim by (subst withdrawn_cong) simp_all
      then show ?thesis unfolding defer_sequence_def next_sequence_def prod.case by (rule withdrawn_set_work) auto
    qed
    moreover have adm: "withdrawn k (admit_queued (w_id w) (ck 1) a2)"
      unfolding admit_queued_def using c2 by (rule withdrawn_set_work) auto
    moreover have "withdrawn k (record_service p (open_dispatch (w_id w) (ck 1) (admit_queued (w_id w) (ck 1) a2)))" for p
      unfolding record_service_def using withdrawn_open_dispatch[OF adm] by (subst withdrawn_cong) simp_all
    ultimately show ?thesis
      using nf Some th lim Suc.IH by (auto simp: Let_def split: option.splits)
  qed
qed simp

lemma withdrawn_drain: "withdrawn k a \<Longrightarrow> drain cf limit ck a = (ids, a') \<Longrightarrow> withdrawn k a'"
  using withdrawn_drain_iter unfolding drain_def Let_def by (metis snd_conv)

lemma withdrawn_submit:
  assumes "withdrawn k a" and "submit cf j actor bp ord ms p ck a = (res, a')"
  shows "withdrawn k a'"
proof (cases "submit_valid ord ms \<and> work_of j a = None")
  case False
  with assms show ?thesis by (auto simp: submit_def split: if_splits option.splits)
next
  case True
  then have s: "submit_new cf j actor bp ord ms p ck a = (res, a')" using assms(2) by (simp add: submit_def)
  have jk: "j \<noteq> k" using True assms(1) by (auto simp: withdrawn_def)
  let ?rk = "repo_key_of (sort (map ms_repo ms))"
  obtain th a1 where th: "throttle ?rk (ck 1) a = (th, a1)" by fastforce
  have c1: "withdrawn k a1" using assms(1) withdrawn_throttle[OF th] by simp
  have ins: "withdrawn k (insert_order j dg ord w ms now (a1\<lparr>ad_seq := s\<rparr>))" if "w_id w = j" for dg w now s
    using c1 that jk by (auto simp: withdrawn_def insert_order_def work_of_def dispatch_of_def select_one_append)
  have cl: "withdrawn k a4" if "claim cf j None now2 (open_dispatch j now (insert_order j dg ord w ms now (a1\<lparr>ad_seq := s\<rparr>))) = (r, a4)" "w_id w = j"
    for now2 now dg w s r a4
    using withdrawn_claim[OF withdrawn_open_dispatch[OF ins[OF that(2)]] that(1)] .
  show ?thesis
  proof (cases "impossible (cf_limits cf) (sort (map ms_repo ms)) actor bp")
    case (Some b)
    with s assms(1) show ?thesis by (simp add: submit_new_def)
  next
    case None
    have id: "w_id (new_work j rk ac b pr sq bl m n) = j" for rk ac b pr sq bl m n by (simp add: new_work_def)
    show ?thesis
      using s unfolding submit_new_def Let_def None option.case th prod.case next_sequence_def
      using c1 assms(1) ins[OF id] cl[OF _ id]
      by (auto split: if_splits prod.splits sum.splits)
  qed
qed

lemma withdrawn_cancel:
  assumes "withdrawn k a" and "cancel cf j reason st ck a = (res, a')"
  shows "withdrawn k a'"
proof (cases "terminal_of st")
  case None
  with assms show ?thesis by (simp add: cancel_def)
next
  case (Some e)
  let ?a3 = "drop_inflight j (set_dispatch (\<lambda>d. dr_work d = j \<and> dr_state d \<noteq> Delivered)
       (\<lambda>d. d\<lparr>dr_state := Abandoned, dr_token := None, dr_lease_until := None, dr_last_error := Some (take 512 reason), dr_updated_at := ck 0\<rparr>)
     (set_members (\<lambda>m. m_work m = j \<and> m_state m = Held) (\<lambda>m. m\<lparr>m_state := MEnded e, m_updated_at := ck 0\<rparr>)
     (set_work (\<lambda>w. w_id w = j \<and> w_state w \<in> set [Queued, Admitted, Dispatching])
       (\<lambda>w. w\<lparr>w_state := Ended e, w_reason := take 512 reason, w_terminal_at := Some (ck 0), w_updated_at := ck 0\<rparr>) a)))"
  have c3: "withdrawn k ?a3"
    unfolding withdrawn_drop by (rule withdrawn_set_dispatch) (auto intro: withdrawn_set_work[OF assms(1)])
  obtain ids a4 where d: "drain cf None (\<lambda>i. ck (i + 1)) ?a3 = (ids, a4)" by fastforce
  have "a' = a \<or> a' = a4"
    using assms(2) unfolding cancel_def Some option.case Let_def d prod.case by (auto split: if_splits)
  then show ?thesis using assms(1) withdrawn_drain[OF c3 d] by blast
qed

lemma withdrawn_complete:
  assumes "withdrawn k a" and "complete cf j cell epoch st ck a = (res, a')"
  shows "withdrawn k a'"
proof (cases "terminal_of st")
  case None
  with assms show ?thesis by (simp add: complete_def)
next
  case (Some e)
  let ?a1 = "set_members (\<lambda>m. m_work m = j \<and> m_cell m = cell \<and> m_epoch m = Some epoch \<and> m_state m = Held)
     (\<lambda>m. m\<lparr>m_state := MEnded e, m_updated_at := ck 0\<rparr>) a"
  have c1: "withdrawn k ?a1" using assms(1) by simp
  have "withdrawn k (set_work (\<lambda>w. w_id w = j) (\<lambda>w. w\<lparr>w_reason := ''member_terminal'', w_updated_at := ck 0\<rparr>) ?a1)"
    using c1 by (rule withdrawn_set_work) auto
  moreover have "withdrawn k (set_work (\<lambda>w. w_id w = j \<and> holding (w_state w)) (\<lambda>w. w\<lparr>w_state := Ended (worst (member_outcomes j ?a1)),
     w_reason := ''members_terminal'', w_terminal_at := Some (ck 0), w_updated_at := ck 0\<rparr>) ?a1)"
    using c1 by (rule withdrawn_set_work) auto
  ultimately show ?thesis
    using c1 assms(2) withdrawn_drain unfolding complete_def Some option.case Let_def by (auto split: if_splits prod.splits)
qed

lemma withdrawn_no_lease: "withdrawn k a \<Longrightarrow> \<not> lease_ok k token a"
  by (auto simp: withdrawn_def lease_ok_def split: option.splits)

lemma withdrawn_step: "adm_step cf a a' \<Longrightarrow> withdrawn k a \<Longrightarrow> withdrawn k a'"
proof (induction rule: adm_step.induct)
  case (st_submit j actor bp ord ms p ck a res a')
  then show ?case using withdrawn_submit by blast
next
  case (st_drain limit ck a ids a')
  then show ?case using withdrawn_drain by blast
next
  case (st_cancel j reason st ck a res' a')
  then show ?case using withdrawn_cancel by blast
next
  case (st_complete j cell epoch st ck a res' a')
  then show ?case using withdrawn_complete by blast
next
  case (st_claim j l now a res'' a')
  then show ?case using withdrawn_claim unfolding claim_dispatch_def by blast
next
  case (st_member j i epoch token now a res3 a')
  then show ?case unfolding record_member_epoch_def Let_def by (auto split: if_splits)
next
  case (st_record j token run now a res3 a')
  then show ?case
    unfolding record_dispatch_def Let_def
    by (auto intro!: withdrawn_set_work withdrawn_set_dispatch split: if_splits)
next
  case (st_release j token err ob now a res3 a')
  then show ?case
    unfolding release_dispatch_def Let_def
    by (auto intro!: withdrawn_set_work withdrawn_set_dispatch split: if_splits)
next
  case (st_undeliverable a j err ob now)
  then show ?case
    unfolding mark_undeliverable_def Let_def by (auto intro!: withdrawn_set_work withdrawn_set_dispatch)
next
  case (st_note a j err ob now)
  then show ?case unfolding note_outcome_def by (auto intro!: withdrawn_set_dispatch)
next
  case (st_restart a)
  then show ?case by (subst withdrawn_cong) simp_all
qed

lemma cancel_withdraws:
  assumes inv: "adm_inv (cf_limits cf) a" and w: "work_of k a = Some w" "w_state w \<in> {Queued, Admitted, Dispatching}"
    and d: "\<forall>d. dispatch_of k a = Some d \<longrightarrow> dr_state d \<noteq> Delivered" and t: "terminal_of st = Some e"
    and c: "cancel cf k reason st ck a = (res, a')"
  shows "withdrawn k a'"
proof -
  let ?hit = "\<lambda>w. w_id w = k \<and> w_state w \<in> set [Queued, Admitted, Dispatching]"
  let ?f = "\<lambda>w. w\<lparr>w_state := Ended e, w_reason := take 512 reason, w_terminal_at := Some (ck 0), w_updated_at := ck 0\<rparr>"
  let ?p = "\<lambda>d. dr_work d = k \<and> dr_state d \<noteq> Delivered"
  let ?h = "\<lambda>d. d\<lparr>dr_state := Abandoned, dr_token := None, dr_lease_until := None, dr_last_error := Some (take 512 reason), dr_updated_at := ck 0\<rparr>"
  let ?a2 = "set_members (\<lambda>m. m_work m = k \<and> m_state m = Held) (\<lambda>m. m\<lparr>m_state := MEnded e, m_updated_at := ck 0\<rparr>) (set_work ?hit ?f a)"
  let ?a3 = "set_dispatch ?p ?h ?a2"
  have pk: "primary_key w_id (ad_work a)" using inv by (simp add: adm_inv_def)
  have "w_id w = k" using work_of_in[OF w(1)] by blast
  then have one: "rowcount ?hit (ad_work a) = 1"
    using rowcount_one_iff[OF pk, of ?hit k] w unfolding work_of_def by auto
  have "work_of k ?a3 = Some (?f w)"
    using w \<open>w_id w = k\<close> by (simp add: work_of_set_work)
  moreover have nd: "dispatch_of k ?a3 = map_option ?h (dispatch_of k a)"
  proof -
    have "dispatch_of k ?a2 = dispatch_of k a" by (simp add: dispatch_of_def)
    then have eq: "dispatch_of k ?a3 = map_option (\<lambda>d. if ?p d then ?h d else d) (dispatch_of k a)"
      using dispatch_of_set_dispatch[of ?p ?h k ?a2] by simp
    show ?thesis
    proof (cases "dispatch_of k a")
      case (Some x)
      then have "dr_work x = k" "dr_state x \<noteq> Delivered" using d dispatch_of_in by blast+
      with Some eq show ?thesis by simp
    next
      case None
      with eq show ?thesis by simp
    qed
  qed
  ultimately have "withdrawn k ?a3" unfolding withdrawn_def nd by auto
  then have "withdrawn k (drop_inflight k ?a3)" by (simp only: withdrawn_drop)
  moreover obtain ids a4 where dr: "drain cf None (\<lambda>i. ck (i + 1)) (drop_inflight k ?a3) = (ids, a4)" by fastforce
  moreover have "a' = a4"
    using c one unfolding cancel_def t option.case Let_def dr prod.case by simp
  ultimately show ?thesis using withdrawn_drain by blast
qed

text \<open>C35: a withdrawn order is never delivered. Once an order that is queued, admitted or dispatching
  and not yet delivered has been cancelled, no delivery token for it is accepted in any later state, so
  an attempt that returns late can neither record Cell epochs nor bind the order to a run, and the
  order never becomes anything but terminal again.\<close>

theorem cancelled_never_delivers:
  assumes "reach (\<lambda>a. a = empty_adm) (adm_step cf) a" and "work_of k a = Some w"
    and "w_state w \<in> {Queued, Admitted, Dispatching}"
    and "\<forall>d. dispatch_of k a = Some d \<longrightarrow> dr_state d \<noteq> Delivered"
    and "cancel cf k reason ''cancelled'' ck a = (res, a1)" and "(adm_step cf)\<^sup>*\<^sup>* a1 a2"
  shows "\<not> lease_ok k token a2 \<and> fst (record_dispatch k token run now a2) = Inl DispatchLeaseLost
     \<and> (\<exists>w' e. work_of k a2 = Some w' \<and> w_state w' = Ended e)"
proof -
  have "terminal_of ''cancelled'' = Some Cancelled" by code_simp
  then have w1: "withdrawn k a1" using cancel_withdraws[OF admission.reach_inv[OF assms(1)] assms(2-4) _ assms(5)] by blast
  have "withdrawn k a2"
    using assms(6) w1 by (induction rule: rtranclp_induct) (auto intro: withdrawn_step)
  then show ?thesis using withdrawn_no_lease[of k a2 token] by (simp add: record_dispatch_def withdrawn_def)
qed

section \<open>A concrete queue\<close>

definition demo_limits :: limits where
  "demo_limits = \<lparr>global_active = 2, per_repo_active = 1, per_actor_active = 4, per_blueprint_active = 4, queue_size = 4\<rparr>"

definition demo_cf :: adm_config where
  "demo_cf = \<lparr>cf_limits = demo_limits, cf_lease_s = 300, cf_float = (\<lambda>r. ''0.0'')\<rparr>"

definition demo_order :: json where
  "demo_order = JObj [(''schema_version'', JInt 1)]"

definition demo_member :: "string \<Rightarrow> string \<Rightarrow> member_spec" where
  "demo_member repo cell = \<lparr>ms_job_idx = 0, ms_repo = repo, ms_cell = cell\<rparr>"

definition demo_submit :: "string \<Rightarrow> string \<Rightarrow> priority \<Rightarrow> adm \<Rightarrow> adm" where
  "demo_submit k repo p a = snd (submit demo_cf k ''ann'' ''bp'' demo_order [demo_member repo (''c'' @ k)] p (\<lambda>i. 0) a)"

text \<open>Two orders run, a hotfix for a busy repository and a normal order for a free one wait for the
  global limit, and then the first order is cancelled.\<close>

definition demo_one :: adm where
  "demo_one = demo_submit ''0'' ''r0'' NORMAL empty_adm"

definition demo_two :: adm where
  "demo_two = demo_submit ''1'' ''r1'' NORMAL demo_one"

definition demo_three :: adm where
  "demo_three = demo_submit ''2'' ''r1'' HOTFIX demo_two"

definition demo_four :: adm where
  "demo_four = demo_submit ''3'' ''r2'' NORMAL demo_three"

definition demo_freed :: adm where
  "demo_freed = snd (cancel demo_cf ''0'' ''x'' ''cancelled'' (\<lambda>i. 0) demo_four)"

lemmas eval_submit = demo_submit_def submit_def submit_valid_def order_schema_def demo_order_def WORK_ORDER_SCHEMA_def
  work_of_def submit_new_def impossible_def checks_def dedup_sorted_def demo_member_def repo_key_of_def demo_cf_def demo_limits_def
  throttle_def delete_where_def capacity_block_for_def held_units_def holding_def rate_limit_def count_queued_def next_sequence_def
  new_work_def insert_order_def new_member_def open_dispatch_def dispatch_of_def claim_def claim_refused_def set_dispatch_def set_work_def
  upd_where_def work_order_def MAX_DISPATCH_ATTEMPTS_def members_of_def Let_def plain_decision_def empty_adm_def priorities_def adm_position_def

lemmas eval_cancel = cancel_def terminal_of_def end_states_def set_members_def drop_inflight_def drain_def next_fair_candidate_def
  queued_rows_def available_def replenish_def deficit_of_def set_limiting_def any_other_candidate_def defer_sequence_def rowcount_def
  eval_nat_numeral

lemmas demo_states = demo_freed_def demo_four_def demo_three_def demo_two_def demo_one_def

lemma demo_submit_step: "adm_step demo_cf a (demo_submit k repo p a)"
  unfolding demo_submit_def by (rule st_submit[OF surjective_pairing])

lemma demo_one_reach: "reach (\<lambda>a. a = empty_adm) (adm_step demo_cf) demo_one"
proof -
  have "reach (\<lambda>a. a = empty_adm) (adm_step demo_cf) empty_adm" by (rule reach_init) simp
  then show ?thesis unfolding demo_one_def using demo_submit_step by (rule reach_step)
qed

lemma demo_four_reach: "reach (\<lambda>a. a = empty_adm) (adm_step demo_cf) demo_four"
proof -
  note more = reach_step[where step = "adm_step demo_cf", OF _ demo_submit_step]
  show ?thesis unfolding demo_four_def demo_three_def demo_two_def by (intro more demo_one_reach)
qed

lemma demo_freed_reach: "reach (\<lambda>a. a = empty_adm) (adm_step demo_cf) demo_freed"
  using demo_four_reach unfolding demo_freed_def by (rule reach_step) (rule st_cancel[OF surjective_pairing])

theorem durable_capacity_witness:
  "held_units demo_one = [(''r0'', ''ann'', ''bp'')] \<and> within_limits demo_limits (held_units demo_one)"
proof -
  have "held_units demo_one = [(''r0'', ''ann'', ''bp'')]" by (simp add: demo_one_def eval_submit)
  with durable_capacity[OF demo_one_reach] show ?thesis by (simp add: demo_cf_def)
qed

theorem claim_bounded_exclusive_witness:
  "\<exists>i a'. claim_dispatch demo_cf ''0'' None 1000 (demo_one\<lparr>ad_inflight := []\<rparr>) = (Inr (Some i), a')
     \<and> di_attempt i \<le> 5 \<and> lease_ok ''0'' (di_token i) a'"
proof -
  have reach: "reach (\<lambda>a. a = empty_adm) (adm_step demo_cf) (demo_one\<lparr>ad_inflight := []\<rparr>)"
    using demo_one_reach st_restart by (rule reach_step)
  have "\<exists>i a'. claim_dispatch demo_cf ''0'' None 1000 (demo_one\<lparr>ad_inflight := []\<rparr>) = (Inr (Some i), a')"
    by (simp add: claim_dispatch_def demo_one_def eval_submit)
  then obtain i a' where c: "claim_dispatch demo_cf ''0'' None 1000 (demo_one\<lparr>ad_inflight := []\<rparr>) = (Inr (Some i), a')"
    by blast
  from claim_bounded_exclusive[OF reach c] c show ?thesis by blast
qed

theorem drain_head_of_line_witness:
  "fst (drain demo_cf None (\<lambda>i. 5) demo_freed) = []
   \<and> capacity_block_for demo_limits (map m_repo (members_of ''3'' demo_freed)) ''ann'' ''bp'' demo_freed = None
   \<and> map_option w_state (work_of ''3'' demo_freed) = Some Queued"
proof -
  have "blocked_head demo_limits ''2'' demo_freed"
    by (simp add: blocked_head_def demo_states eval_submit eval_cancel)
  moreover have "cf_limits demo_cf = demo_limits" by (simp add: demo_cf_def)
  ultimately have "fst (drain demo_cf None (\<lambda>i. 5) demo_freed) = []"
    using drain_head_of_line[OF demo_freed_reach, of "''2''" None "\<lambda>i. 5"] by simp
  moreover have "capacity_block_for demo_limits (map m_repo (members_of ''3'' demo_freed)) ''ann'' ''bp'' demo_freed = None"
    "map_option w_state (work_of ''3'' demo_freed) = Some Queued"
    by (simp_all add: demo_states eval_submit eval_cancel)
  ultimately show ?thesis by blast
qed

theorem cancelled_never_delivers_witness:
  "\<not> lease_ok ''0'' (claim_token demo_cf ''0'' 1 0) demo_freed
   \<and> lease_ok ''0'' (claim_token demo_cf ''0'' 1 0) demo_four"
proof -
  have l: "lease_ok ''0'' (claim_token demo_cf ''0'' 1 0) demo_four"
    by (simp add: lease_ok_def demo_states eval_submit)
  have "\<exists>w. work_of ''0'' demo_four = Some w \<and> w_state w = Dispatching"
    by (simp add: demo_states eval_submit)
  then obtain w where w: "work_of ''0'' demo_four = Some w" "w_state w \<in> {Queued, Admitted, Dispatching}" by auto
  have d: "\<forall>d. dispatch_of ''0'' demo_four = Some d \<longrightarrow> dr_state d \<noteq> Delivered"
    using l by (auto simp: lease_ok_def)
  have c: "cancel demo_cf ''0'' ''x'' ''cancelled'' (\<lambda>i. 0) demo_four
      = (fst (cancel demo_cf ''0'' ''x'' ''cancelled'' (\<lambda>i. 0) demo_four), demo_freed)"
    by (simp add: demo_freed_def)
  from cancelled_never_delivers[OF demo_four_reach w d c rtranclp.rtrancl_refl] l show ?thesis by blast
qed

end
