(* ===== verification/Paths.thy ===== *)
theory Paths
  imports Json
begin

text \<open>
  Path and identifier policy (\<open>src/src/swfactory/paths.py\<close>): the validators every trust boundary
  uses for identifiers, run ids, repositories, Git refs and POSIX paths, and the \<open>dir@base_branch\<close>
  target a Factory Cell is bound to.

  The parts of the Python library the module calls are written out: \<open>PurePosixPath\<close> (root, parts,
  \<open>as_posix\<close>) and \<open>posixpath.normpath\<close>, \<open>join\<close> and \<open>commonpath\<close>. \<open>Path.resolve\<close> depends on the file
  system and is a parameter of \<open>confined_path\<close>. The \<open>field\<close> argument only names the value in the
  message of the exception and has no counterpart.
\<close>

datatype path_error = PathError string

type_synonym 'a checked = "path_error + 'a"

section \<open>Identifiers, repositories and refs\<close>

definition is_alnum :: "char \<Rightarrow> bool" where
  "is_alnum c = (let n = of_char c :: nat in
     (48 \<le> n \<and> n \<le> 57) \<or> (65 \<le> n \<and> n \<le> 90) \<or> (97 \<le> n \<and> n \<le> 122))"

definition is_alpha :: "char \<Rightarrow> bool" where
  "is_alpha c = (let n = of_char c :: nat in (65 \<le> n \<and> n \<le> 90) \<or> (97 \<le> n \<and> n \<le> 122))"

text \<open>\<open>fullmatch\<close> of \<open>^F[R]{0,n}$\<close> for a first character class \<open>F\<close> and a class \<open>R\<close> of the rest.\<close>

fun shape :: "(char \<Rightarrow> bool) \<Rightarrow> (char \<Rightarrow> bool) \<Rightarrow> nat \<Rightarrow> string \<Rightarrow> bool" where
  "shape first rest n [] = False"
| "shape first rest n (c # cs) = (first c \<and> length cs \<le> n \<and> list_all rest cs)"

definition id_re :: "string \<Rightarrow> bool" where
  "id_re = shape is_alnum (\<lambda>c. is_alnum c \<or> c \<in> set ''._-'') 127"

definition run_id_re :: "string \<Rightarrow> bool" where
  "run_id_re = shape is_alnum (\<lambda>c. is_alnum c \<or> c \<in> set ''_-'') 31"

definition repo_part_re :: "string \<Rightarrow> bool" where
  "repo_part_re = shape is_alnum (\<lambda>c. is_alnum c \<or> c \<in> set ''._-'') 99"

definition validate_identifier :: "string \<Rightarrow> string checked" where
  "validate_identifier s =
     (if \<not> id_re s \<or> s \<in> set [''.'', ''..''] then Inl (PathError ''identifier'') else Inr s)"

definition validate_run_id :: "string \<Rightarrow> string checked" where
  "validate_run_id s = (if \<not> run_id_re s then Inl (PathError ''run_id'') else Inr s)"

definition validate_repo :: "string \<Rightarrow> string checked" where
  "validate_repo s =
     (let parts = split_on (CHR ''/'') s in
      if length parts \<noteq> 2 \<or> list_ex (\<lambda>p. \<not> repo_part_re p) parts then Inl (PathError ''repo shape'')
      else if list_ex (\<lambda>p. p \<in> set [''.'', ''..''] \<or> endswith p ''.lock'') parts
      then Inl (PathError ''repo reserved'')
      else Inr s)"

text \<open>The character class of \<open>_INVALID_REF_RE\<close>, and \<open>_INVALID_REF_RE.search\<close>. As the pattern is written,
  the class ends at the first closing bracket, so a match is a character of the class followed by a
  closing bracket.\<close>

definition ref_class :: "char \<Rightarrow> bool" where
  "ref_class c = (let n = of_char c :: nat in n \<le> 32 \<or> c \<in> set ''~^:?*'' \<or> n = 92 \<or> c = CHR ''['')"

fun invalid_ref_search :: "string \<Rightarrow> bool" where
  "invalid_ref_search (c # d # s) = ((ref_class c \<and> d = CHR '']'') \<or> invalid_ref_search (d # s))"
| "invalid_ref_search s = False"

definition validate_git_ref :: "string \<Rightarrow> string checked" where
  "validate_git_ref s =
     (let parts = split_on (CHR ''/'') s in
      if s = [] \<or> s = ''@'' \<or> invalid_ref_search s
         \<or> startswith s ''-'' \<or> startswith s ''/''
         \<or> endswith s ''/'' \<or> endswith s ''.''
         \<or> py_in ''..'' s \<or> py_in ''//'' s \<or> py_in [CHR ''@'', CHR 0x7B] s
         \<or> list_ex (\<lambda>p. p = [] \<or> startswith p ''.'' \<or> endswith p ''.lock'') parts
      then Inl (PathError ''git ref'') else Inr s)"

section \<open>POSIX paths\<close>

definition is_control :: "char \<Rightarrow> bool" where
  "is_control c = (let n = of_char c :: nat in n \<le> 31 \<or> n = 127)"

definition windows_drive :: "string \<Rightarrow> bool" where
  "windows_drive s = (case s of c # d # _ \<Rightarrow> is_alpha c \<and> d = CHR '':'' | _ \<Rightarrow> False)"

definition clean_posix :: "string \<Rightarrow> unit checked" where
  "clean_posix s =
     (if list_ex is_control s then Inl (PathError ''control characters'')
      else if s \<noteq> py_strip s \<or> list_ex (\<lambda>c. c = CHR 0x5C) s \<or> windows_drive s
      then Inl (PathError ''not clean'')
      else Inr ())"

definition no_target_separator :: "string \<Rightarrow> string checked" where
  "no_target_separator s = (if CHR ''@'' \<in> set s then Inl (PathError ''target separator'') else Inr s)"

text \<open>\<open>PurePosixPath\<close>: its root (two leading slashes are a root of their own), the components without
  the empty ones and \<open>.\<close>, and \<open>as_posix\<close>.\<close>

definition pp_root :: "string \<Rightarrow> string" where
  "pp_root s = (if startswith s ''//'' \<and> \<not> startswith s ''///'' then ''//''
                else if startswith s ''/'' then ''/'' else [])"

definition comps :: "string \<Rightarrow> string list" where
  "comps s = filter (\<lambda>p. p \<noteq> [] \<and> p \<noteq> ''.'') (split_on (CHR ''/'') s)"

definition pp_parts :: "string \<Rightarrow> string list" where
  "pp_parts s = (if pp_root s = [] then comps s else pp_root s # comps s)"

definition pp_absolute :: "string \<Rightarrow> bool" where
  "pp_absolute s = (pp_root s \<noteq> [])"

definition as_posix :: "string \<Rightarrow> string" where
  "as_posix s = (let t = pp_root s @ join ''/'' (comps s) in if t = [] then ''.'' else t)"

definition normalize_relative_path :: "string \<Rightarrow> bool \<Rightarrow> string checked" where
  "normalize_relative_path s allow_empty =
     (case clean_posix s of
        Inl e \<Rightarrow> Inl e
      | Inr _ \<Rightarrow>
          if s = [] then (if allow_empty then Inr [] else Inl (PathError ''empty''))
          else if pp_absolute s \<or> ''..'' \<in> set (pp_parts s) then Inl (PathError ''escapes root'')
          else let normalized = as_posix s in
               if normalized \<in> set [[], ''.''] then (if allow_empty then Inr [] else Inl (PathError ''no path''))
               else Inr normalized)"

definition normalize_target_dir :: "string \<Rightarrow> string checked" where
  "normalize_target_dir s =
     (case normalize_relative_path s True of Inl e \<Rightarrow> Inl e | Inr p \<Rightarrow> no_target_separator p)"

definition validate_target_base_branch :: "string \<Rightarrow> string checked" where
  "validate_target_base_branch s =
     (case validate_git_ref s of Inl e \<Rightarrow> Inl e | Inr r \<Rightarrow> no_target_separator r)"

definition job_dir :: "(json \<Rightarrow> string) \<Rightarrow> json \<Rightarrow> string" where
  "job_dir rep job = py_strip (py_str rep (jget_or ''dir'' (JStr []) job))"

definition job_branch :: "(json \<Rightarrow> string) \<Rightarrow> json \<Rightarrow> string" where
  "job_branch rep job =
     (let b = py_strip (py_str rep (jget_or ''base_branch'' (JStr ''main'') job)) in
      if b = [] then ''main'' else b)"

definition cell_target :: "(json \<Rightarrow> string) \<Rightarrow> json \<Rightarrow> string checked" where
  "cell_target rep job =
     (case normalize_target_dir (job_dir rep job) of
        Inl e \<Rightarrow> Inl e
      | Inr d \<Rightarrow>
          (let directory = (if d = [] then ''.'' else d) in
           case validate_target_base_branch (job_branch rep job) of
             Inl e \<Rightarrow> Inl e
           | Inr base_branch \<Rightarrow> Inr (directory @ ''@'' @ base_branch)))"

definition rstrip_slash :: "string \<Rightarrow> string" where
  "rstrip_slash s = rev (dropWhile (\<lambda>c. c = CHR ''/'') (rev s))"

definition normalize_absolute_posix_path :: "string \<Rightarrow> string checked" where
  "normalize_absolute_posix_path s =
     (case clean_posix s of
        Inl e \<Rightarrow> Inl e
      | Inr _ \<Rightarrow>
          if \<not> pp_absolute s \<or> ''..'' \<in> set (pp_parts s) \<or> as_posix s = ''/''
          then Inl (PathError ''not absolute'')
          else Inr (rstrip_slash (as_posix s)))"

section \<open>Confinement\<close>

text \<open>\<open>posixpath.normpath\<close>: the loop over the components keeps a leading \<open>..\<close> only in a relative path.\<close>

definition initial_slashes :: "string \<Rightarrow> nat" where
  "initial_slashes s = (if startswith s ''/''
     then (if startswith s ''//'' \<and> \<not> startswith s ''///'' then 2 else 1) else 0)"

fun norm_step :: "bool \<Rightarrow> string list \<Rightarrow> string \<Rightarrow> string list" where
  "norm_step absolute acc c =
     (if c = [] \<or> c = ''.'' then acc
      else if c \<noteq> ''..'' \<or> (\<not> absolute \<and> acc = []) \<or> (acc \<noteq> [] \<and> last acc = ''..'') then acc @ [c]
      else butlast acc)"

definition norm_comps :: "bool \<Rightarrow> string list \<Rightarrow> string list" where
  "norm_comps absolute cs = foldl (norm_step absolute) [] cs"

definition normpath :: "string \<Rightarrow> string" where
  "normpath s =
     (if s = [] then ''.''
      else let n = initial_slashes s;
               t = replicate n (CHR ''/'') @ join ''/'' (norm_comps (0 < n) (split_on (CHR ''/'') s)) in
           if t = [] then ''.'' else t)"

definition posix_join :: "string \<Rightarrow> string \<Rightarrow> string" where
  "posix_join a b = (if startswith b ''/'' then b
                     else if a = [] \<or> endswith a ''/'' then a @ b else a @ ''/'' @ b)"

text \<open>\<open>resolve\<close> is \<open>Path.resolve(strict=False)\<close> of the file system, as the text of the resolved path;
  \<open>is_relative_to\<close> compares the parts.\<close>

definition confined_path :: "(string \<Rightarrow> string) \<Rightarrow> string \<Rightarrow> string \<Rightarrow> string checked" where
  "confined_path resolve base s =
     (let boundary = resolve base;
          candidate = (if pp_absolute s then s else posix_join boundary s);
          resolved = resolve candidate in
      if \<not> prefix (pp_parts boundary) (pp_parts resolved) then Inl (PathError ''escapes root'') else Inr resolved)"

fun common_prefix :: "string list \<Rightarrow> string list \<Rightarrow> string list" where
  "common_prefix (x # xs) (y # ys) = (if x = y then x # common_prefix xs ys else [])"
| "common_prefix xs ys = []"

text \<open>\<open>posixpath.commonpath\<close> of two paths; \<open>None\<close> for its \<open>ValueError\<close> on mixed paths.\<close>

definition commonpath :: "string \<Rightarrow> string \<Rightarrow> string option" where
  "commonpath p q =
     (if startswith p ''/'' \<noteq> startswith q ''/'' then None
      else Some ((if startswith p ''/'' then ''/'' else []) @ join ''/'' (common_prefix (comps p) (comps q))))"

definition confined_posix_path :: "string \<Rightarrow> string \<Rightarrow> string checked" where
  "confined_posix_path base s =
     (let boundary = normpath base;
          candidate = normpath (if startswith s ''/'' then s else posix_join boundary s) in
      if commonpath boundary candidate \<noteq> Some boundary then Inl (PathError ''escapes root'')
      else Inr candidate)"

section \<open>Components of a path\<close>

lemma comps_no_slash: "p \<in> set (comps s) \<Longrightarrow> CHR ''/'' \<notin> set p \<and> p \<noteq> [] \<and> p \<noteq> ''.''"
  unfolding comps_def using split_on_no_sep by fastforce

definition plain_comps :: "string list \<Rightarrow> bool" where
  "plain_comps cs = (\<forall>c\<in>set cs. CHR ''/'' \<notin> set c \<and> c \<noteq> [] \<and> c \<noteq> ''.'')"

lemma plain_comps_comps [simp]: "plain_comps (comps s)"
  unfolding plain_comps_def using comps_no_slash by blast

lemma join_Nil_iff: "plain_comps cs \<Longrightarrow> join sep cs = [] \<longleftrightarrow> cs = []"
  by (induction sep cs rule: join.induct) (auto simp: plain_comps_def)

lemma comps_join: "plain_comps cs \<Longrightarrow> comps (join ''/'' cs) = cs"
proof (cases "cs = []")
  case True
  then show ?thesis by (simp add: comps_def)
next
  case False
  assume "plain_comps cs"
  then have "split_on (CHR ''/'') (join ''/'' cs) = cs" "\<forall>c\<in>set cs. c \<noteq> [] \<and> c \<noteq> ''.''"
    using False split_on_join[of cs "CHR ''/''"] by (auto simp: plain_comps_def)
  then show ?thesis by (simp add: comps_def filter_id_conv)
qed

lemma comps_slash: "comps (CHR ''/'' # s) = comps s"
  by (simp add: comps_def)

lemma comps_slashes: "comps (replicate n (CHR ''/'') @ s) = comps s"
  by (induction n) (simp_all add: comps_slash)

lemma hd_join: "plain_comps cs \<Longrightarrow> cs \<noteq> [] \<Longrightarrow> \<exists>c t. join sep cs = c # t \<and> c \<noteq> CHR ''/''"
  by (induction sep cs rule: join.induct) (auto simp: plain_comps_def neq_Nil_conv)

lemma join_not_absolute: "plain_comps cs \<Longrightarrow> \<not> startswith (join ''/'' cs) ''/''"
  using hd_join[of cs "''/''"] by (cases "cs = []") (auto simp: startswith_def)

text \<open>A relative path that the normaliser accepts names the same components, none of them \<open>..\<close>, and
  stays relative.\<close>

lemma normalize_relative_path_Inr:
  assumes "normalize_relative_path s ae = Inr p"
  shows "p = join ''/'' (comps s) \<and> comps p = comps s \<and> ''..'' \<notin> set (comps p) \<and> \<not> startswith p ''/''
         \<and> (p = [] \<longrightarrow> ae)"
proof -
  have "p = join ''/'' (comps s) \<and> ''..'' \<notin> set (comps s) \<and> (p = [] \<longrightarrow> ae)"
  proof (cases "s = []")
    case True
    then show ?thesis using assms
      by (auto simp: normalize_relative_path_def comps_def split: sum.splits if_splits)
  next
    case False
    with assms have rel: "pp_root s = []" "''..'' \<notin> set (comps s)"
      and nrm: "(if as_posix s \<in> set [[], ''.''] then (if ae then Inr [] else Inl (PathError ''no path'')) else Inr (as_posix s))
                  = (Inr p :: string checked)"
      by (auto simp: normalize_relative_path_def pp_absolute_def pp_parts_def Let_def split: sum.splits if_splits)
    have "as_posix s \<in> set [[], ''.''] \<longleftrightarrow> comps s = []"
    proof
      assume "as_posix s \<in> set [[], ''.'']"
      then have "join ''/'' (comps s) = [] \<or> join ''/'' (comps s) = ''.''"
        by (auto simp: as_posix_def rel Let_def split: if_splits)
      then show "comps s = []"
      proof
        assume j: "join ''/'' (comps s) = ''.''"
        have "comps s = comps ''.''" using comps_join[of "comps s"] j by simp
        then show ?thesis by (simp add: comps_def)
      qed (simp add: join_Nil_iff)
    qed (simp add: as_posix_def rel)
    then show ?thesis using nrm rel join_Nil_iff[of "comps s" "''/''"]
      by (auto simp: as_posix_def Let_def split: if_splits)
  qed
  then show ?thesis by (simp add: comps_join join_not_absolute)
qed

section \<open>Cell targets\<close>

lemma no_target_separator_Inr [simp]: "no_target_separator s = Inr p \<longleftrightarrow> p = s \<and> CHR ''@'' \<notin> set s"
  by (auto simp: no_target_separator_def)

lemma validate_git_ref_Inr: "validate_git_ref s = Inr r \<Longrightarrow> r = s"
  by (auto simp: validate_git_ref_def Let_def split: if_splits)

lemma target_base_branch_Inr: "validate_target_base_branch s = Inr r \<Longrightarrow> r = s \<and> CHR ''@'' \<notin> set s"
  by (auto simp: validate_target_base_branch_def dest: validate_git_ref_Inr split: sum.splits)

lemma target_dir_Inr: "normalize_target_dir s = Inr d \<Longrightarrow> CHR ''@'' \<notin> set d \<and> d = join ''/'' (comps s) \<and> d \<noteq> ''.''"
proof -
  assume "normalize_target_dir s = Inr d"
  then have d: "normalize_relative_path s True = Inr d" "CHR ''@'' \<notin> set d"
    by (auto simp: normalize_target_dir_def split: sum.splits)
  from normalize_relative_path_Inr[OF d(1)] have "d = join ''/'' (comps s)" "comps d = comps s" by auto
  moreover have "d \<noteq> ''.''"
  proof
    assume e: "d = ''.''"
    then have "comps s = []" using \<open>comps d = comps s\<close> by (simp add: comps_def)
    then show False using e \<open>d = join ''/'' (comps s)\<close> by simp
  qed
  ultimately show ?thesis using d(2) by simp
qed

lemma cell_target_Inr:
  assumes "cell_target rep job = Inr t"
  obtains d where "normalize_target_dir (job_dir rep job) = Inr d"
    and "validate_target_base_branch (job_branch rep job) = Inr (job_branch rep job)"
    and "t = (if d = [] then ''.'' else d) @ ''@'' @ job_branch rep job"
  using assms target_base_branch_Inr
  by (fastforce simp: cell_target_def Let_def split: sum.splits)

lemma append_sep_inject:
  "x \<notin> set a \<Longrightarrow> x \<notin> set b \<Longrightarrow> a @ x # u = b @ x # v \<longleftrightarrow> a = b \<and> u = v"
proof (induction a arbitrary: b)
  case Nil
  then show ?case by (cases b) auto
next
  case (Cons c a)
  then show ?case by (cases b) auto
qed

text \<open>C38: the target text that identity and policy of a Factory Cell bind is injective: two jobs with the
  same \<open>dir@base_branch\<close> target have the same base branch and directories with the same normal form,
  which has no parent component and is relative. No directory or branch can forge another pair by
  containing the separator.\<close>

theorem cell_target_injective:
  assumes "cell_target rep1 job1 = Inr t" and "cell_target rep2 job2 = Inr t"
  shows "job_branch rep1 job1 = job_branch rep2 job2
       \<and> normalize_target_dir (job_dir rep1 job1) = normalize_target_dir (job_dir rep2 job2)
       \<and> comps (job_dir rep1 job1) = comps (job_dir rep2 job2)
       \<and> ''..'' \<notin> set (comps (job_dir rep1 job1))"
proof -
  obtain d1 where 1: "normalize_target_dir (job_dir rep1 job1) = Inr d1"
    "t = (if d1 = [] then ''.'' else d1) @ ''@'' @ job_branch rep1 job1" by (rule cell_target_Inr[OF assms(1)])
  obtain d2 where 2: "normalize_target_dir (job_dir rep2 job2) = Inr d2"
    "t = (if d2 = [] then ''.'' else d2) @ ''@'' @ job_branch rep2 job2" by (rule cell_target_Inr[OF assms(2)])
  let ?f = "\<lambda>d. if d = [] then ''.'' else (d :: string)"
  have "?f d1 @ CHR ''@'' # job_branch rep1 job1 = ?f d2 @ CHR ''@'' # job_branch rep2 job2"
    using 1(2) 2(2) by simp
  moreover have "CHR ''@'' \<notin> set (?f d1)" "CHR ''@'' \<notin> set (?f d2)"
    using target_dir_Inr[OF 1(1)] target_dir_Inr[OF 2(1)] by auto
  ultimately have "?f d1 = ?f d2" and b: "job_branch rep1 job1 = job_branch rep2 job2"
    using append_sep_inject[of "CHR ''@''" "?f d1" "?f d2"] by blast+
  then have d: "d1 = d2"
    using target_dir_Inr[OF 1(1)] target_dir_Inr[OF 2(1)] by (auto split: if_splits)
  have c: "comps d = comps s \<and> ''..'' \<notin> set (comps s)" if "normalize_target_dir s = Inr d" for s d
  proof -
    from that have "normalize_relative_path s True = Inr d"
      by (auto simp: normalize_target_dir_def split: sum.splits)
    from normalize_relative_path_Inr[OF this] show ?thesis by metis
  qed
  show ?thesis using b d 1(1) 2(1) c[OF 1(1)] c[OF 2(1)] by simp
qed

definition demo_job :: json where
  "demo_job = JObj [(''dir'', JStr ''./services//api''), (''base_branch'', JStr ''release/1'')]"

definition demo_job2 :: json where
  "demo_job2 = JObj [(''base_branch'', JStr '' release/1 ''), (''dir'', JStr ''services/api/'')]"

lemmas path_eval = cell_target_def job_dir_def job_branch_def normalize_target_dir_def validate_target_base_branch_def
  normalize_relative_path_def clean_posix_def validate_git_ref_def no_target_separator_def pp_absolute_def
  pp_parts_def pp_root_def as_posix_def comps_def windows_drive_def is_control_def is_alpha_def py_strip_def
  is_space_def startswith_def endswith_def jget_or_def Let_def

lemma demo_job_target:
  "cell_target rep demo_job = Inr ''services/api@release/1''" "cell_target rep demo_job2 = Inr ''services/api@release/1''"
  by (simp_all add: path_eval demo_job_def demo_job2_def of_char_def)

theorem cell_target_injective_witness:
  "cell_target (\<lambda>_. []) demo_job = Inr ''services/api@release/1''
   \<and> comps (job_dir (\<lambda>_. []) demo_job) = comps (job_dir (\<lambda>_. []) demo_job2)"
  using cell_target_injective[OF demo_job_target(1) demo_job_target(2)] demo_job_target(1) by simp

section \<open>Git refs\<close>

lemma invalid_ref_needs_bracket: "invalid_ref_search s \<Longrightarrow> CHR '']'' \<in> set s"
  by (induction s rule: invalid_ref_search.induct) auto

text \<open>Every character that \<open>_INVALID_REF_RE\<close> lists is nevertheless accepted in a ref: a name with a
  space, a control character, \<open>~\<close>, \<open>^\<close>, \<open>:\<close>, \<open>?\<close>, \<open>*\<close>, a backslash or an opening bracket between two
  letters passes \<open>validate_git_ref\<close>, because the pattern asks for a closing bracket after it.\<close>

theorem git_ref_class_accepted:
  assumes "ref_class c"
  shows "validate_git_ref [CHR ''a'', c, CHR ''b''] = Inr [CHR ''a'', c, CHR ''b'']"
proof -
  have n: "c \<noteq> CHR ''/''" "c \<noteq> CHR ''.''" "c \<noteq> CHR ''@''" "c \<noteq> CHR ''k''" "c \<noteq> CHR '']''"
    using assms by (auto simp: ref_class_def Let_def)
  then have "\<not> invalid_ref_search [CHR ''a'', c, CHR ''b'']" by simp
  with n show ?thesis by (simp add: validate_git_ref_def startswith_def endswith_def Let_def)
qed

theorem git_ref_class_accepted_witness:
  "ref_class (CHR '' '') \<and> validate_git_ref ''a b'' = Inr ''a b''"
  using git_ref_class_accepted[of "CHR '' ''"] by (simp add: ref_class_def)

text \<open>\<open>normalize_relative_path\<close> checks for a drive letter and surrounding white space before it drops
  leading \<open>.\<close> components, so its result can be a text that it rejects itself.\<close>

lemma normalize_not_idempotent:
  "normalize_relative_path ''./C:/x'' False = Inr ''C:/x''"
  "normalize_relative_path ''C:/x'' False = Inl (PathError ''not clean'')"
  by (simp_all add: path_eval of_char_def)

section \<open>Confinement of remote sandbox paths\<close>

text \<open>The components reached from the absolute location \<open>cs\<close> by following the path text \<open>s\<close>.\<close>

definition walk :: "string list \<Rightarrow> string \<Rightarrow> string list" where
  "walk cs s = foldl (norm_step True) (if startswith s ''/'' then [] else cs) (split_on (CHR ''/'') s)"

definition settled :: "string list \<Rightarrow> bool" where
  "settled cs = (plain_comps cs \<and> ''..'' \<notin> set cs)"

lemma norm_step_settled: "settled acc \<Longrightarrow> CHR ''/'' \<notin> set c \<Longrightarrow> settled (norm_step True acc c)"
proof -
  assume s: "settled acc" and c: "CHR ''/'' \<notin> set c"
  have b: "settled (butlast acc)" using s by (auto simp: settled_def plain_comps_def dest: in_set_butlastD)
  have l: "\<not> (acc \<noteq> [] \<and> last acc = ''..'')" using s last_in_set[of acc] unfolding settled_def by metis
  consider "c = [] \<or> c = ''.''" | "c \<noteq> []" "c \<noteq> ''.''" "c \<noteq> ''..''" | "c = ''..''" by blast
  then show ?thesis
  proof cases
    case 2
    then have "settled (acc @ [c])" using s c by (simp add: settled_def plain_comps_def)
    with 2 show ?thesis by simp
  next
    case 3
    then have "norm_step True acc c = butlast acc" using l by auto
    with b show ?thesis by simp
  qed (use s in simp)
qed

lemma foldl_norm_settled:
  "settled acc \<Longrightarrow> (\<And>c. c \<in> set cs \<Longrightarrow> CHR ''/'' \<notin> set c) \<Longrightarrow> settled (foldl (norm_step True) acc cs)"
proof (induction cs arbitrary: acc)
  case (Cons c cs)
  then have "settled (norm_step True acc c)" by (intro norm_step_settled) auto
  with Cons show ?case by (metis foldl_Cons list.set_intros(2))
qed simp

lemma settled_Nil [simp]: "settled []"
  by (simp add: settled_def plain_comps_def)

lemma walk_settled: "settled cs \<Longrightarrow> settled (walk cs s)"
  unfolding walk_def using split_on_no_sep by (intro foldl_norm_settled) auto

lemma foldl_norm_id: "settled (acc @ cs) \<Longrightarrow> foldl (norm_step True) acc cs = acc @ cs"
proof (induction cs arbitrary: acc)
  case (Cons c cs)
  then have "norm_step True acc c = acc @ [c]" by (auto simp: settled_def plain_comps_def)
  with Cons show ?case by simp
qed simp

lemma absolute_hd: "startswith s ''/'' \<longleftrightarrow> (\<exists>t. s = CHR ''/'' # t)"
  by (cases s) (auto simp: startswith_def)

lemma normpath_absolute:
  assumes "startswith s ''/''"
  shows "normpath s = replicate (initial_slashes s) (CHR ''/'') @ join ''/'' (walk [] s)"
    and "0 < initial_slashes s"
proof -
  show pos: "0 < initial_slashes s" using assms by (simp add: initial_slashes_def)
  with assms show "normpath s = replicate (initial_slashes s) (CHR ''/'') @ join ''/'' (walk [] s)"
    by (auto simp: normpath_def walk_def norm_comps_def Let_def absolute_hd)
qed

lemma comps_normpath: "startswith s ''/'' \<Longrightarrow> comps (normpath s) = walk [] s"
  using walk_settled[OF settled_Nil, of s] by (simp add: normpath_absolute comps_slashes comps_join settled_def)

lemma normpath_stays_absolute: "startswith s ''/'' \<Longrightarrow> startswith (normpath s) ''/''"
  using normpath_absolute[of s] by (auto simp: absolute_hd gr0_conv_Suc)

lemma split_on_join_absolute:
  assumes "0 < n" and "settled cs"
  shows "foldl (norm_step True) acc (split_on (CHR ''/'') (replicate n (CHR ''/'') @ join ''/'' cs @ CHR ''/'' # t))
       = foldl (norm_step True) (foldl (norm_step True) acc cs) (split_on (CHR ''/'') t)"
proof -
  have e: "foldl (norm_step True) acc (split_on (CHR ''/'') (replicate n (CHR ''/'') @ u))
           = foldl (norm_step True) acc (split_on (CHR ''/'') u)" for u
    by (induction n) auto
  have "foldl (norm_step True) acc (split_on (CHR ''/'') (join ''/'' cs @ CHR ''/'' # t))
       = foldl (norm_step True) (foldl (norm_step True) acc cs) (split_on (CHR ''/'') t)"
    using assms(2)
  proof (induction "''/''" cs arbitrary: acc rule: join.induct)
    case (2 x)
    then show ?case by (simp add: split_on_append settled_def plain_comps_def)
  next
    case (3 x y xs)
    then show ?case
      using split_on_append[of "CHR ''/''" x "join ''/'' (y # xs) @ CHR ''/'' # t"]
      by (simp add: settled_def plain_comps_def)
  qed simp
  then show ?thesis by (simp add: e)
qed

lemma walk_posix_join:
  assumes "startswith base ''/''"
  shows "walk [] (if startswith s ''/'' then s else posix_join (normpath base) s) = walk (walk [] base) s"
proof (cases "startswith s ''/''")
  case True
  then show ?thesis by (simp add: walk_def)
next
  case False
  let ?n = "initial_slashes base" and ?B = "walk [] base"
  note np = normpath_absolute[OF assms]
  have B: "settled ?B" by (simp add: walk_settled)
  have fB: "foldl (norm_step True) [] ?B = ?B" using foldl_norm_id[of "[]" ?B] B by simp
  have abs: "startswith (posix_join (normpath base) s) ''/''"
    using False normpath_stays_absolute[OF assms] by (auto simp: posix_join_def absolute_hd)
  have "foldl (norm_step True) [] (split_on (CHR ''/'') (posix_join (normpath base) s))
        = foldl (norm_step True) ?B (split_on (CHR ''/'') s)"
  proof (cases "endswith (normpath base) ''/''")
    case True
    have "?B = []"
    proof (rule ccontr)
      assume ne: "?B \<noteq> []"
      have "last (join ''/'' cs) \<noteq> CHR ''/'' \<and> join ''/'' cs \<noteq> []" if "plain_comps cs" "cs \<noteq> []" for cs
        using that
      proof (induction "''/''" cs rule: join.induct)
        case (2 x)
        then have x: "CHR ''/'' \<notin> set x" "x \<noteq> []" by (simp_all add: plain_comps_def)
        then have "last x \<noteq> CHR ''/''" by (metis last_in_set)
        with x show ?case by simp
      qed (auto simp: plain_comps_def)
      with ne B have "last (join ''/'' ?B) \<noteq> CHR ''/''" "join ''/'' ?B \<noteq> []" by (auto simp: settled_def)
      then have "last (normpath base) \<noteq> CHR ''/''" "normpath base \<noteq> []" by (simp_all add: np)
      moreover have "last (normpath base) = CHR ''/''"
        using True \<open>normpath base \<noteq> []\<close> by (auto simp: endswith_def last_drop dest!: arg_cong[where f = last])
      ultimately show False by simp
    qed
    moreover have "foldl (norm_step True) [] (split_on (CHR ''/'') (replicate k (CHR ''/'') @ s))
        = foldl (norm_step True) [] (split_on (CHR ''/'') s)" for k by (induction k) auto
    ultimately show ?thesis using False True by (simp add: posix_join_def np)
  next
    case nl: False
    then have "posix_join (normpath base) s = replicate ?n (CHR ''/'') @ join ''/'' ?B @ CHR ''/'' # s"
      using False np by (auto simp: posix_join_def)
    then show ?thesis using split_on_join_absolute[OF np(2) B, of "[]" s] fB by simp
  qed
  with False abs show ?thesis by (simp add: walk_def)
qed

lemma common_prefix_eq: "common_prefix xs ys = xs \<longleftrightarrow> prefix xs ys"
  by (induction xs ys rule: common_prefix.induct) auto

lemma common_prefix_subset: "set (common_prefix xs ys) \<subseteq> set xs"
  by (induction xs ys rule: common_prefix.induct) auto

lemma commonpath_boundary:
  assumes "initial_slashes base = 1" and "startswith q ''/''"
  shows "commonpath (normpath base) q = Some (normpath base) \<longleftrightarrow> prefix (walk [] base) (comps q)"
proof -
  have a: "startswith base ''/''" using assms(1) by (auto simp: initial_slashes_def split: if_splits)
  let ?B = "walk [] base" and ?C = "common_prefix (walk [] base) (comps q)"
  have B: "plain_comps ?B" using walk_settled[OF settled_Nil, of base] by (simp add: settled_def)
  then have C: "plain_comps ?C" using common_prefix_subset[of ?B "comps q"] by (auto simp: plain_comps_def)
  have "commonpath (normpath base) q = Some (''/'' @ join ''/'' ?C)"
    using a assms(2) normpath_stays_absolute[OF a] by (simp add: commonpath_def comps_normpath)
  moreover have "normpath base = ''/'' @ join ''/'' ?B" using normpath_absolute(1)[OF a] assms(1) by simp
  moreover have "join ''/'' ?C = join ''/'' ?B \<longleftrightarrow> ?C = ?B" using comps_join[OF B] comps_join[OF C] by metis
  ultimately show ?thesis by (simp add: common_prefix_eq)
qed

text \<open>For an absolute sandbox root, \<open>confined_posix_path\<close> accepts a path exactly when the location reached
  by following it from the root, with every \<open>..\<close> resolved, lies at or below the root, and what it returns
  is that location: absolute, without \<open>..\<close>, with the components of the root as a prefix.\<close>

theorem confined_posix_path_exact:
  assumes "initial_slashes base = 1"
  shows "case confined_posix_path base s of
           Inr c \<Rightarrow> startswith c ''/'' \<and> comps c = walk (walk [] base) s \<and> ''..'' \<notin> set (comps c)
                    \<and> prefix (walk [] base) (comps c)
         | Inl _ \<Rightarrow> \<not> prefix (walk [] base) (walk (walk [] base) s)"
proof -
  have a: "startswith base ''/''" using assms by (auto simp: initial_slashes_def split: if_splits)
  let ?t = "if startswith s ''/'' then s else posix_join (normpath base) s"
  have t: "startswith ?t ''/''"
    using normpath_stays_absolute[OF a] by (auto simp: posix_join_def absolute_hd)
  have c: "comps (normpath ?t) = walk (walk [] base) s"
    using comps_normpath[OF t] walk_posix_join[OF a] by simp
  have n: "''..'' \<notin> set (walk (walk [] base) s)"
    using walk_settled[OF walk_settled[OF settled_Nil], of base s] by (simp add: settled_def)
  show ?thesis
  proof (cases "commonpath (normpath base) (normpath ?t) = Some (normpath base)")
    case True
    then have "confined_posix_path base s = Inr (normpath ?t)" by (simp add: confined_posix_path_def)
    moreover have "prefix (walk [] base) (walk (walk [] base) s)"
      using True commonpath_boundary[OF assms normpath_stays_absolute[OF t]] c by simp
    ultimately show ?thesis using c n normpath_stays_absolute[OF t] by simp
  next
    case False
    then have "confined_posix_path base s = Inl (PathError ''escapes root'')" by (simp add: confined_posix_path_def)
    moreover have "\<not> prefix (walk [] base) (walk (walk [] base) s)"
      using False commonpath_boundary[OF assms normpath_stays_absolute[OF t]] c by simp
    ultimately show ?thesis by simp
  qed
qed

theorem confined_posix_path_exact_witness:
  "confined_posix_path ''/work/cell'' ''src/../../cell/a'' = Inr ''/work/cell/a''
   \<and> prefix [''work'', ''cell''] (comps ''/work/cell/a'')
   \<and> \<not> prefix [''work'', ''cell''] (walk [''work'', ''cell''] ''../cellar'')"
proof -
  have i: "initial_slashes ''/work/cell'' = 1" by code_simp
  have w: "walk [] ''/work/cell'' = [''work'', ''cell'']" by code_simp
  have c: "confined_posix_path ''/work/cell'' ''src/../../cell/a'' = Inr ''/work/cell/a''"
    "confined_posix_path ''/work/cell'' ''../cellar'' = Inl (PathError ''escapes root'')"
    by code_simp+
  have "prefix [''work'', ''cell''] (comps ''/work/cell/a'')"
    using confined_posix_path_exact[OF i, of "''src/../../cell/a''"] unfolding c(1) w sum.case by blast
  moreover have "\<not> prefix [''work'', ''cell''] (walk [''work'', ''cell''] ''../cellar'')"
    using confined_posix_path_exact[OF i, of "''../cellar''"] unfolding c(2) w sum.case .
  ultimately show ?thesis using c(1) by blast
qed

end
