(* ===== verification/WorkGraph.thy ===== *)
theory WorkGraph
  imports Prelude "HOL-Library.Multiset"
begin

text \<open>
  Deterministic execution planning for the work graph of a plan (\<open>src/src/swfactory/workgraph.py\<close>).

  \<open>waves\<close> is called on work nodes, on plan tasks and on managed nodes, of which it reads the
  attributes \<open>id\<close> and \<open>depends_on\<close>; the two attributes are its first arguments. The sets of the loop
  are lists read only through membership, and the \<open>while\<close> loop is a recursion on the number of nodes
  that remain.

  The locale \<open>dependency_graph\<close> carries the theory of the loop: every wave is exactly the set of nodes
  that are not placed and whose dependencies are, so the waves are the unique earliest layering, and
  the loop fails exactly on a cyclic graph.
\<close>

datatype wg_error = DuplicateId | UnknownDependency string "string list" | SelfDependency string | CycleDetected

record work_node =
  wn_id :: string
  wn_depends_on :: "string list"
  wn_files :: "string list"
  wn_parallel_safe :: bool

record 'n work_wave =
  ww_index :: nat
  ww_nodes :: "'n list"

fun check_nodes :: "('n \<Rightarrow> string) \<Rightarrow> ('n \<Rightarrow> string list) \<Rightarrow> string list \<Rightarrow> 'n list \<Rightarrow> wg_error option" where
  "check_nodes nid deps ids [] = None"
| "check_nodes nid deps ids (n # ns) =
     (let missing = filter (\<lambda>d. d \<notin> set ids) (remdups (deps n)) in
      if missing \<noteq> [] then Some (UnknownDependency (nid n) (sort missing))
      else if nid n \<in> set (deps n) then Some (SelfDependency (nid n))
      else check_nodes nid deps ids ns)"

definition ready :: "('n \<Rightarrow> string) \<Rightarrow> ('n \<Rightarrow> string list) \<Rightarrow> 'n list \<Rightarrow> string list \<Rightarrow> string list \<Rightarrow> 'n list" where
  "ready nid deps ordered dn remaining = filter (\<lambda>n. nid n \<in> set remaining \<and> set (deps n) \<subseteq> set dn) ordered"

function wave_loop :: "('n \<Rightarrow> string) \<Rightarrow> ('n \<Rightarrow> string list) \<Rightarrow> 'n list \<Rightarrow> string list \<Rightarrow> string list
    \<Rightarrow> 'n work_wave list \<Rightarrow> wg_error + 'n work_wave list" where
  "wave_loop nid deps ordered dn remaining result =
     (if remaining = [] then Inr result
      else let r = ready nid deps ordered dn remaining in
           if r = [] then Inl CycleDetected
           else wave_loop nid deps ordered (dn @ map nid r) (filter (\<lambda>i. i \<notin> set (map nid r)) remaining)
                  (result @ [\<lparr>ww_index = length result, ww_nodes = r\<rparr>]))"
  by pat_completeness auto

lemma ready_shrinks:
  assumes "ready nid deps ordered dn remaining \<noteq> []"
  shows "length (filter (\<lambda>i. i \<notin> set (map nid (ready nid deps ordered dn remaining))) remaining) < length remaining"
proof -
  obtain n where n: "n \<in> set (ready nid deps ordered dn remaining)"
    using assms by (cases "ready nid deps ordered dn remaining") auto
  then have "nid n \<in> set remaining" by (simp add: ready_def)
  with n show ?thesis by (intro length_filter_less[of "nid n"]) auto
qed

termination wave_loop
  by (relation "measure (\<lambda>(nid, deps, ordered, dn, remaining, result). length remaining)")
     (use ready_shrinks in auto)

declare wave_loop.simps [simp del]

definition waves :: "('n \<Rightarrow> string) \<Rightarrow> ('n \<Rightarrow> string list) \<Rightarrow> 'n list \<Rightarrow> wg_error + 'n work_wave list" where
  "waves nid deps ordered =
     (let ids = remdups (map nid ordered) in
      if length ids \<noteq> length ordered then Inl DuplicateId
      else case check_nodes nid deps ids ordered of
             Some e \<Rightarrow> Inl e
           | None \<Rightarrow> wave_loop nid deps ordered [] ids [])"

fun conflict_set :: "work_node list \<Rightarrow> (string \<times> string \<times> string list) list" where
  "conflict_set [] = []"
| "conflict_set (left # rest) =
     concat (map (\<lambda>right.
       (let overlap = sort (filter (\<lambda>f. f \<in> set (wn_files right)) (remdups (wn_files left))) in
        if overlap \<noteq> [] then [(wn_id left, wn_id right, overlap)] else [])) rest)
     @ conflict_set rest"

definition deterministic_merge_order :: "string list \<Rightarrow> string list" where
  "deterministic_merge_order ids = sort (remdups ids)"

section \<open>The layering\<close>

definition placed :: "('n \<Rightarrow> string) \<Rightarrow> 'n work_wave list \<Rightarrow> string set" where
  "placed nid ws = (\<Union>w\<in>set ws. nid ` set (ww_nodes w))"

text \<open>Wave \<open>i\<close> holds, in the order of the plan, exactly the nodes not placed before it whose dependencies
  are all placed before it.\<close>

definition layered :: "('n \<Rightarrow> string) \<Rightarrow> ('n \<Rightarrow> string list) \<Rightarrow> 'n list \<Rightarrow> 'n work_wave list \<Rightarrow> bool" where
  "layered nid deps ordered ws =
     (\<forall>i<length ws. ww_index (ws ! i) = i \<and> ww_nodes (ws ! i) \<noteq> []
        \<and> ww_nodes (ws ! i) = filter (\<lambda>n. nid n \<notin> placed nid (take i ws) \<and> set (deps n) \<subseteq> placed nid (take i ws)) ordered)"

definition dep_rel :: "('n \<Rightarrow> string) \<Rightarrow> ('n \<Rightarrow> string list) \<Rightarrow> 'n list \<Rightarrow> (string \<times> string) set" where
  "dep_rel nid deps ordered = {(d, nid n) |d n. n \<in> set ordered \<and> d \<in> set (deps n)}"

lemma placed_Nil [simp]: "placed nid [] = {}"
  by (simp add: placed_def)

lemma placed_snoc [simp]: "placed nid (ws @ [w]) = placed nid ws \<union> nid ` set (ww_nodes w)"
  by (auto simp: placed_def)

lemma placed_mono: "placed nid (take i ws) \<subseteq> placed nid ws"
  by (auto simp: placed_def dest: in_set_takeD)

lemma placed_take_iff:
  "i \<le> length ws \<Longrightarrow> d \<in> placed nid (take i ws) \<longleftrightarrow> (\<exists>j<i. d \<in> nid ` set (ww_nodes (ws ! j)))"
  by (auto simp: placed_def nth_image[symmetric])

lemma layered_Nil [simp]: "layered nid deps ordered []"
  by (simp add: layered_def)

lemma layered_snoc:
  "layered nid deps ordered (ws @ [w]) \<longleftrightarrow> layered nid deps ordered ws \<and> ww_index w = length ws \<and> ww_nodes w \<noteq> []
     \<and> ww_nodes w = filter (\<lambda>n. nid n \<notin> placed nid ws \<and> set (deps n) \<subseteq> placed nid ws) ordered"
  unfolding layered_def by (auto simp: nth_append less_Suc_eq)

lemma check_nodes_None:
  "check_nodes nid deps ids ns = None \<longleftrightarrow> (\<forall>n\<in>set ns. set (deps n) \<subseteq> set ids \<and> nid n \<notin> set (deps n))"
  by (induction ns) (auto simp: Let_def filter_empty_conv)

locale dependency_graph =
  fixes nid :: "'n \<Rightarrow> string" and deps :: "'n \<Rightarrow> string list" and ordered :: "'n list"
  assumes ids_distinct: "distinct (map nid ordered)"
    and deps_known: "n \<in> set ordered \<Longrightarrow> set (deps n) \<subseteq> nid ` set ordered"
begin

lemma nid_inj: "m \<in> set ordered \<Longrightarrow> n \<in> set ordered \<Longrightarrow> nid m = nid n \<Longrightarrow> m = n"
  using ids_distinct by (auto simp: distinct_map dest: inj_onD)

lemma layered_nodes: "layered nid deps ordered ws \<Longrightarrow> w \<in> set ws \<Longrightarrow> set (ww_nodes w) \<subseteq> set ordered"
  by (auto simp: layered_def in_set_conv_nth)

lemma layered_mset:
  assumes "layered nid deps ordered ws"
  shows "mset (concat (map ww_nodes ws)) = mset (filter (\<lambda>n. nid n \<in> placed nid ws) ordered)"
  using assms
proof (induction ws rule: rev_induct)
  case (snoc w ws)
  let ?P = "\<lambda>n. nid n \<in> placed nid ws"
  let ?Q = "\<lambda>n. nid n \<notin> placed nid ws \<and> set (deps n) \<subseteq> placed nid ws"
  from snoc.prems have l: "layered nid deps ordered ws" and w: "ww_nodes w = filter ?Q ordered"
    by (auto simp: layered_snoc)
  have "nid n \<in> nid ` set (filter ?Q ordered) \<longleftrightarrow> ?Q n" if "n \<in> set ordered" for n
    using that nid_inj[OF that] by auto
  then have "filter (\<lambda>n. nid n \<in> placed nid (ws @ [w])) ordered = filter (\<lambda>n. ?P n \<or> ?Q n) ordered"
    by (intro filter_cong) (auto simp: w)
  moreover have "mset (filter (\<lambda>n. ?P n \<or> ?Q n) xs) = mset (filter ?P xs) + mset (filter ?Q xs)" for xs
    by (induction xs) auto
  ultimately show ?case using snoc.IH[OF l] by (simp add: w)
qed simp

lemma loop_layers:
  assumes "wave_loop nid deps ordered dn remaining result = Inr ws"
    and "layered nid deps ordered result" and "set dn = placed nid result"
    and "set remaining = nid ` set ordered - placed nid result"
  shows "layered nid deps ordered ws \<and> nid ` set ordered \<subseteq> placed nid ws"
  using assms
proof (induction "length remaining" arbitrary: dn remaining result rule: less_induct)
  case less
  let ?r = "ready nid deps ordered dn remaining"
  show ?case
  proof (cases "remaining = []")
    case True
    then have "ws = result" using less.prems(1) by (simp add: wave_loop.simps)
    then show ?thesis using less.prems True by auto
  next
    case False
    with less.prems(1) have ne: "?r \<noteq> []"
      and rec: "wave_loop nid deps ordered (dn @ map nid ?r) (filter (\<lambda>i. i \<notin> set (map nid ?r)) remaining)
                  (result @ [\<lparr>ww_index = length result, ww_nodes = ?r\<rparr>]) = Inr ws"
      by (auto simp: wave_loop.simps[of nid deps ordered dn remaining] Let_def split: if_splits)
    have r: "?r = filter (\<lambda>n. nid n \<notin> placed nid result \<and> set (deps n) \<subseteq> placed nid result) ordered"
      unfolding ready_def by (rule filter_cong) (use less.prems(3,4) in auto)
    show ?thesis
    proof (rule less.hyps[OF ready_shrinks[OF ne] rec])
      show "layered nid deps ordered (result @ [\<lparr>ww_index = length result, ww_nodes = ?r\<rparr>])"
        using less.prems(2) ne r by (simp add: layered_snoc)
    qed (use less.prems(3,4) in auto)
  qed
qed

text \<open>A failing loop leaves a nonempty set of nodes each of which depends on one of them.\<close>

lemma loop_stuck:
  assumes "wave_loop nid deps ordered dn remaining result = Inl e"
    and "set dn \<union> set remaining = nid ` set ordered"
  shows "e = CycleDetected \<and> (\<exists>R\<subseteq>nid ` set ordered. R \<noteq> {} \<and> (\<forall>i\<in>R. \<exists>d\<in>R. (d, i) \<in> dep_rel nid deps ordered))"
  using assms
proof (induction "length remaining" arbitrary: dn remaining result rule: less_induct)
  case less
  let ?r = "ready nid deps ordered dn remaining"
  from less.prems(1) have ne: "remaining \<noteq> []" by (auto simp: wave_loop.simps[of nid deps ordered dn remaining])
  show ?case
  proof (cases "?r = []")
    case True
    have "\<exists>d\<in>set remaining. (d, i) \<in> dep_rel nid deps ordered" if i: "i \<in> set remaining" for i
    proof -
      have "i \<in> nid ` set ordered" using i less.prems(2) by blast
      then obtain n where n: "n \<in> set ordered" "nid n = i" by blast
      with True i obtain d where d: "d \<in> set (deps n)" "d \<notin> set dn" by (auto simp: ready_def filter_empty_conv)
      then have "d \<in> set remaining" using deps_known[OF n(1)] less.prems(2) by blast
      then show ?thesis using d n by (auto simp: dep_rel_def)
    qed
    moreover have "e = CycleDetected" using True ne less.prems(1) by (simp add: wave_loop.simps[of nid deps ordered dn remaining])
    moreover have "set remaining \<subseteq> nid ` set ordered" using less.prems(2) by blast
    ultimately show ?thesis using ne by (intro conjI exI[of _ "set remaining"]) simp_all
  next
    case False
    with less.prems(1) ne have rec: "wave_loop nid deps ordered (dn @ map nid ?r) (filter (\<lambda>i. i \<notin> set (map nid ?r)) remaining)
        (result @ [\<lparr>ww_index = length result, ww_nodes = ?r\<rparr>]) = Inl e"
      by (simp add: wave_loop.simps[of nid deps ordered dn remaining] Let_def)
    have "set ?r \<subseteq> set ordered" by (auto simp: ready_def)
    then have "set (dn @ map nid ?r) \<union> set (filter (\<lambda>i. i \<notin> set (map nid ?r)) remaining) = nid ` set ordered"
      using less.prems(2) by auto
    then show ?thesis using less.hyps[OF ready_shrinks[OF False] rec] by blast
  qed
qed

lemma stuck_not_acyclic:
  assumes "R \<subseteq> nid ` set ordered" "R \<noteq> {}" and "\<forall>i\<in>R. \<exists>d\<in>R. (d, i) \<in> dep_rel nid deps ordered"
  shows "\<not> acyclic (dep_rel nid deps ordered)"
proof
  assume a: "acyclic (dep_rel nid deps ordered)"
  have "dep_rel nid deps ordered \<subseteq> (nid ` set ordered) \<times> (nid ` set ordered)"
    using deps_known by (auto simp: dep_rel_def)
  then have "finite (dep_rel nid deps ordered)" by (rule finite_subset) simp
  then have "wf (dep_rel nid deps ordered)" using a by (rule finite_acyclic_wf)
  then obtain z where "z \<in> R" "\<And>y. (y, z) \<in> dep_rel nid deps ordered \<Longrightarrow> y \<notin> R"
    using wfE_min'[of "dep_rel nid deps ordered" R] assms(2) by blast
  then show False using assms(3) by blast
qed

lemma layered_dep_before:
  assumes "layered nid deps ordered ws" and "n \<in> set (ww_nodes (ws ! i))" and "i < length ws" and "d \<in> set (deps n)"
  shows "\<exists>j<i. d \<in> nid ` set (ww_nodes (ws ! j))"
proof -
  have "d \<in> placed nid (take i ws)" using assms by (auto simp: layered_def)
  then show ?thesis using assms(3) by (simp add: placed_take_iff)
qed

lemma layered_in_wave:
  assumes "layered nid deps ordered ws" and "i < length ws" and "j < length ws"
    and "nid m \<in> nid ` set (ww_nodes (ws ! j))" and "m \<in> set (ww_nodes (ws ! i))"
  shows "i \<le> j"
proof (rule ccontr)
  assume "\<not> i \<le> j"
  then have "nid m \<in> placed nid (take i ws)"
    using assms(2,4) placed_take_iff[of i ws "nid m" nid] by (meson less_imp_le not_le)
  then show False using assms(1,2,5) by (auto simp: layered_def)
qed

end

section \<open>The waves of a plan\<close>

text \<open>The nodes that pass the checks before the loop form a dependency graph.\<close>

definition checked_nodes :: "('n \<Rightarrow> string) \<Rightarrow> ('n \<Rightarrow> string list) \<Rightarrow> 'n list \<Rightarrow> 'n list" where
  "checked_nodes nid deps ordered =
     (if length (remdups (map nid ordered)) = length ordered
         \<and> check_nodes nid deps (remdups (map nid ordered)) ordered = None then ordered else [])"

lemma remdups_length_distinct: "length (remdups (map f xs)) = length xs \<longleftrightarrow> distinct (map f xs)"
  by (metis length_map length_remdups_eq remdups_id_iff_distinct)

interpretation plan_graph: dependency_graph nid deps "checked_nodes nid deps ordered"
  for nid :: "'n \<Rightarrow> string" and deps ordered
proof unfold_locales
  show "distinct (map nid (checked_nodes nid deps ordered))"
    by (auto simp: checked_nodes_def remdups_length_distinct)
  show "set (deps n) \<subseteq> nid ` set (checked_nodes nid deps ordered)" if "n \<in> set (checked_nodes nid deps ordered)" for n
    using that by (auto simp: checked_nodes_def check_nodes_None split: if_splits)
qed

lemma waves_Inr:
  assumes "waves nid deps ordered = Inr ws"
  shows "checked_nodes nid deps ordered = ordered" and "layered nid deps ordered ws"
    and "nid ` set ordered \<subseteq> placed nid ws"
proof -
  from assms show e: "checked_nodes nid deps ordered = ordered"
    by (auto simp: waves_def checked_nodes_def Let_def split: if_splits option.splits)
  from assms have w: "wave_loop nid deps ordered [] (remdups (map nid ordered)) [] = Inr ws"
    by (auto simp: waves_def Let_def split: if_splits option.splits)
  from plan_graph.loop_layers[of nid deps ordered, unfolded e, OF w]
  show "layered nid deps ordered ws" "nid ` set ordered \<subseteq> placed nid ws" by simp_all
qed

definition demo_nodes :: "work_node list" where
  "demo_nodes =
     [\<lparr>wn_id = ''api'', wn_depends_on = [''model''], wn_files = [''a.py'', ''m.py''], wn_parallel_safe = True\<rparr>,
      \<lparr>wn_id = ''model'', wn_depends_on = [], wn_files = [''m.py''], wn_parallel_safe = False\<rparr>,
      \<lparr>wn_id = ''docs'', wn_depends_on = [], wn_files = [''d.md''], wn_parallel_safe = True\<rparr>]"

text \<open>C36: the waves of an accepted plan hold every node exactly once; they are numbered from zero and
  none is empty; every dependency of a node is in an earlier wave; and every node of a later wave has
  a dependency in the wave just before it, so no node could run earlier.\<close>

theorem waves_earliest_layering:
  assumes "waves nid deps ordered = Inr ws"
  shows "mset (concat (map ww_nodes ws)) = mset ordered
    \<and> (\<forall>i<length ws. ww_index (ws ! i) = i \<and> ww_nodes (ws ! i) \<noteq> []
         \<and> (\<forall>n\<in>set (ww_nodes (ws ! i)).
              (\<forall>d\<in>set (deps n). \<exists>j<i. d \<in> nid ` set (ww_nodes (ws ! j)))
            \<and> (0 < i \<longrightarrow> (\<exists>d\<in>set (deps n). d \<in> nid ` set (ww_nodes (ws ! (i - 1)))))))"
proof -
  note e = waves_Inr(1)[OF assms] and l = waves_Inr(2)[OF assms] and p = waves_Inr(3)[OF assms]
  have "filter (\<lambda>n. nid n \<in> placed nid ws) ordered = ordered"
    using p by (simp add: filter_id_conv image_subset_iff)
  then have "mset (concat (map ww_nodes ws)) = mset ordered"
    using plan_graph.layered_mset[of nid deps ordered, unfolded e, OF l] by metis
  moreover have "\<exists>d\<in>set (deps n). d \<in> nid ` set (ww_nodes (ws ! (i - 1)))"
    if i: "i < length ws" "0 < i" and n: "n \<in> set (ww_nodes (ws ! i))" for i n
  proof (rule ccontr)
    assume no: "\<not> ?thesis"
    from n i l have o: "n \<in> set ordered" "nid n \<notin> placed nid (take i ws)"
      and d: "set (deps n) \<subseteq> placed nid (take i ws)" by (auto simp: layered_def)
    obtain k where k: "i = Suc k" using i(2) by (cases i) auto
    have tk: "placed nid (take i ws) = placed nid (take k ws) \<union> nid ` set (ww_nodes (ws ! k))"
      using i(1) k by (simp add: take_Suc_conv_app_nth)
    then have "set (deps n) \<subseteq> placed nid (take k ws)" "nid n \<notin> placed nid (take k ws)"
      using no d o(2) k by auto
    with o(1) l i(1) k have "n \<in> set (ww_nodes (ws ! k))" by (auto simp: layered_def)
    with o(2) tk show False by auto
  qed
  moreover have "ww_index (ws ! i) = i \<and> ww_nodes (ws ! i) \<noteq> []" if "i < length ws" for i
    using l that unfolding layered_def by blast
  ultimately show ?thesis using plan_graph.layered_dep_before[of nid deps ordered, unfolded e, OF l] by blast
qed

lemma demo_waves:
  "waves wn_id wn_depends_on demo_nodes =
     Inr [\<lparr>ww_index = 0, ww_nodes = [demo_nodes ! 1, demo_nodes ! 2]\<rparr>, \<lparr>ww_index = 1, ww_nodes = [demo_nodes ! 0]\<rparr>]"
  by (simp add: waves_def demo_nodes_def wave_loop.simps ready_def Let_def)

theorem waves_earliest_layering_witness:
  "mset [demo_nodes ! 1, demo_nodes ! 2, demo_nodes ! 0] = mset demo_nodes
   \<and> (\<exists>d\<in>set (wn_depends_on (demo_nodes ! 0)). d \<in> wn_id ` {demo_nodes ! 1, demo_nodes ! 2})"
  using waves_earliest_layering[OF demo_waves] by (auto simp: All_less_Suc)

lemma layered_rank:
  assumes e: "checked_nodes nid deps ordered = ordered" and "layered nid deps ordered ws" and "nid ` set ordered \<subseteq> placed nid ws"
  shows "\<exists>r :: string \<Rightarrow> nat. \<forall>(d, i)\<in>dep_rel nid deps ordered. r d < r i"
proof -
  let ?r = "\<lambda>x. LEAST i. i < length ws \<and> x \<in> nid ` set (ww_nodes (ws ! i))"
  have "?r d < ?r i" if "(d, i) \<in> dep_rel nid deps ordered" for d i
  proof -
    from that obtain n where n: "n \<in> set ordered" "nid n = i" "d \<in> set (deps n)" by (auto simp: dep_rel_def)
    have "\<exists>k. k < length ws \<and> i \<in> nid ` set (ww_nodes (ws ! k))"
      using assms(3) n(1,2) placed_take_iff[of "length ws" ws i nid] by auto
    then have k: "?r i < length ws" "i \<in> nid ` set (ww_nodes (ws ! ?r i))" by (metis (mono_tags, lifting) LeastI_ex)+
    then obtain m where m: "m \<in> set (ww_nodes (ws ! ?r i))" "nid m = i" by blast
    have "m \<in> set ordered" using plan_graph.layered_nodes[of nid deps ordered, unfolded e, OF assms(2)] k(1) m(1) nth_mem by blast
    then have "m = n" using plan_graph.nid_inj[of _ nid deps ordered, unfolded e] n m(2) by blast
    then obtain j where j: "j < ?r i" "d \<in> nid ` set (ww_nodes (ws ! j))"
      using plan_graph.layered_dep_before[of nid deps ordered, unfolded e, OF assms(2) m(1) k(1)] n(3) by blast
    then have "?r d \<le> j" using k(1) by (intro Least_le) auto
    then show ?thesis using j(1) by simp
  qed
  then show ?thesis by (intro exI[of _ ?r]) blast
qed

lemma layered_acyclic:
  assumes "checked_nodes nid deps ordered = ordered" and "layered nid deps ordered ws" and "nid ` set ordered \<subseteq> placed nid ws"
  shows "acyclic (dep_rel nid deps ordered)"
proof -
  obtain r :: "string \<Rightarrow> nat" where "\<forall>(d, i)\<in>dep_rel nid deps ordered. r d < r i"
    using layered_rank[OF assms] by blast
  then have "dep_rel nid deps ordered \<subseteq> measure r" by auto
  then show ?thesis by (meson acyclic_subset wf_acyclic wf_measure)
qed

lemma waves_accepts:
  "((\<exists>ws. waves nid deps ordered = Inr ws) \<longleftrightarrow>
      distinct (map nid ordered) \<and> (\<Union>n\<in>set ordered. set (deps n)) \<subseteq> nid ` set ordered
      \<and> acyclic (dep_rel nid deps ordered))
   \<and> (waves nid deps ordered = Inl DuplicateId \<longleftrightarrow> \<not> distinct (map nid ordered))
   \<and> (waves nid deps ordered = Inl CycleDetected \<longleftrightarrow>
        distinct (map nid ordered) \<and> (\<Union>n\<in>set ordered. set (deps n)) \<subseteq> nid ` set ordered
        \<and> (\<forall>n\<in>set ordered. nid n \<notin> set (deps n)) \<and> \<not> acyclic (dep_rel nid deps ordered))"
proof -
  let ?ids = "remdups (map nid ordered)"
  let ?ok = "distinct (map nid ordered) \<and> (\<Union>n\<in>set ordered. set (deps n)) \<subseteq> nid ` set ordered"
  let ?ns = "\<forall>n\<in>set ordered. nid n \<notin> set (deps n)"
  have len: "length ?ids = length ordered \<longleftrightarrow> distinct (map nid ordered)"
    by (rule remdups_length_distinct)
  have chk: "check_nodes nid deps ?ids ordered = None \<longleftrightarrow> (\<Union>n\<in>set ordered. set (deps n)) \<subseteq> nid ` set ordered \<and> ?ns"
    by (auto simp: check_nodes_None)
  have chk_e: "check_nodes nid deps ids ns = Some e \<Longrightarrow> e \<noteq> CycleDetected \<and> e \<noteq> DuplicateId" for ids ns e
    by (induction ns) (auto simp: Let_def split: if_splits)
  have acns: "acyclic (dep_rel nid deps ordered) \<Longrightarrow> ?ns"
    by (auto simp: acyclic_def dep_rel_def)
  have loop: "(\<exists>ws. wave_loop nid deps ordered [] ?ids [] = Inr ws) \<longleftrightarrow> acyclic (dep_rel nid deps ordered)"
    "wave_loop nid deps ordered [] ?ids [] = Inl e \<Longrightarrow> e = CycleDetected" if "?ok \<and> ?ns" for e
  proof -
    from that have g: "checked_nodes nid deps ordered = ordered" using len chk by (auto simp: checked_nodes_def)
    note stuck = plan_graph.loop_stuck[of nid deps ordered, unfolded g]
    show "(\<exists>ws. wave_loop nid deps ordered [] ?ids [] = Inr ws) \<longleftrightarrow> acyclic (dep_rel nid deps ordered)"
    proof (cases "wave_loop nid deps ordered [] ?ids []")
      case (Inl e)
      then show ?thesis
        using stuck[OF Inl] plan_graph.stuck_not_acyclic[of _ nid deps ordered, unfolded g] by auto
    next
      case (Inr ws)
      then show ?thesis
        using plan_graph.loop_layers[of nid deps ordered, unfolded g, OF Inr] layered_acyclic[OF g] by auto
    qed
    show "wave_loop nid deps ordered [] ?ids [] = Inl e \<Longrightarrow> e = CycleDetected" using stuck by auto
  qed
  show ?thesis
  proof (cases "?ok \<and> ?ns")
    case True
    then have w: "waves nid deps ordered = wave_loop nid deps ordered [] ?ids []"
      using len chk by (simp add: waves_def Let_def)
    show ?thesis using loop True unfolding w
      by (cases "wave_loop nid deps ordered [] ?ids []") auto
  next
    case False
    then show ?thesis using len chk chk_e acns by (auto simp: waves_def Let_def split: option.splits)
  qed
qed

lemma acyclic_rank:
  assumes "distinct (map nid ordered)" and "(\<Union>n\<in>set ordered. set (deps n)) \<subseteq> nid ` set ordered"
    and "acyclic (dep_rel nid deps ordered)"
  shows "\<exists>r :: string \<Rightarrow> nat. \<forall>n\<in>set ordered. \<forall>d\<in>set (deps n). r d < r (nid n)"
proof -
  obtain ws where w: "waves nid deps ordered = Inr ws"
    using assms waves_accepts[of nid deps ordered] by blast
  obtain r :: "string \<Rightarrow> nat" where r: "\<forall>(d, i)\<in>dep_rel nid deps ordered. r d < r i"
    using layered_rank[OF waves_Inr[OF w]] by blast
  have "r d < r (nid n)" if "n \<in> set ordered" "d \<in> set (deps n)" for n d
    using bspec[OF r, of "(d, nid n)"] that by (auto simp: dep_rel_def)
  then show ?thesis by blast
qed

lemma rank_acyclic:
  assumes "\<forall>n\<in>set ordered. \<forall>d\<in>set (deps n). r d < (r (nid n) :: nat)"
  shows "acyclic (dep_rel nid deps ordered)"
proof -
  have "dep_rel nid deps ordered \<subseteq> measure r" using assms by (auto simp: dep_rel_def)
  then show ?thesis by (meson acyclic_subset wf_acyclic wf_measure)
qed

text \<open>C37: the planner accepts exactly the well-formed acyclic graphs: \<open>waves\<close> returns a layering if and
  only if the ids are distinct, every dependency names a node and the dependency relation has no
  cycle; and when it fails, the error is the one of the first check that fails, \<open>CycleDetected\<close> only on a graph
  that passes every other check.\<close>

theorem waves_total_on_dags:
  "((\<exists>ws. waves nid deps ordered = Inr ws) \<longleftrightarrow>
      distinct (map nid ordered) \<and> (\<Union>n\<in>set ordered. set (deps n)) \<subseteq> nid ` set ordered
      \<and> acyclic (dep_rel nid deps ordered))
   \<and> (waves nid deps ordered = Inl DuplicateId \<longleftrightarrow> \<not> distinct (map nid ordered))
   \<and> (waves nid deps ordered = Inl CycleDetected \<longleftrightarrow>
        distinct (map nid ordered) \<and> (\<Union>n\<in>set ordered. set (deps n)) \<subseteq> nid ` set ordered
        \<and> (\<forall>n\<in>set ordered. nid n \<notin> set (deps n)) \<and> \<not> acyclic (dep_rel nid deps ordered))"
  by (rule waves_accepts)

theorem waves_total_on_dags_witness:
  "\<not> acyclic (dep_rel wn_id wn_depends_on
       [\<lparr>wn_id = ''a'', wn_depends_on = [''b''], wn_files = [], wn_parallel_safe = False\<rparr>,
        \<lparr>wn_id = ''b'', wn_depends_on = [''a''], wn_files = [], wn_parallel_safe = False\<rparr>])
   \<and> acyclic (dep_rel wn_id wn_depends_on demo_nodes)"
proof
  let ?c = "[\<lparr>wn_id = ''a'', wn_depends_on = [''b''], wn_files = [], wn_parallel_safe = False\<rparr>,
        \<lparr>wn_id = ''b'', wn_depends_on = [''a''], wn_files = [], wn_parallel_safe = False\<rparr>]"
  have "waves wn_id wn_depends_on ?c = Inl CycleDetected"
    by (simp add: waves_def wave_loop.simps ready_def Let_def)
  then show "\<not> acyclic (dep_rel wn_id wn_depends_on ?c)"
    using waves_total_on_dags[of wn_id wn_depends_on ?c] by blast
  show "acyclic (dep_rel wn_id wn_depends_on demo_nodes)"
    using waves_total_on_dags[of wn_id wn_depends_on demo_nodes] demo_waves by blast
qed

section \<open>Merge conflicts\<close>

text \<open>A pair is reported exactly for two nodes, in plan order, that share a file; the overlap is the
  sorted set of the shared files, and the merge order is the sorted set of the completed ids.\<close>

lemma pair_Cons:
  "(\<exists>i j. i < j \<and> j < length (x # xs) \<and> P ((x # xs) ! i) ((x # xs) ! j)) \<longleftrightarrow>
   (\<exists>j<length xs. P x (xs ! j)) \<or> (\<exists>i j. i < j \<and> j < length xs \<and> P (xs ! i) (xs ! j))" (is "?L \<longleftrightarrow> ?R")
proof
  assume ?L
  then obtain i j where ij: "i < j" "j < length (x # xs)" "P ((x # xs) ! i) ((x # xs) ! j)" by blast
  then obtain j' where "j = Suc j'" by (cases j) auto
  with ij show ?R by (cases i) auto
next
  assume ?R
  then consider j where "j < length xs" "P x (xs ! j)"
    | i j where "i < j" "j < length xs" "P (xs ! i) (xs ! j)" by blast
  then show ?L
  proof cases
    case 1
    then show ?thesis by (intro exI[of _ 0] exI[of _ "Suc j"]) simp
  next
    case 2
    then show ?thesis by (intro exI[of _ "Suc i"] exI[of _ "Suc j"]) simp
  qed
qed

lemma conflict_set_iff:
  "(l, r, fs) \<in> set (conflict_set ns) \<longleftrightarrow>
     (\<exists>i j. i < j \<and> j < length ns \<and> wn_id (ns ! i) = l \<and> wn_id (ns ! j) = r \<and> fs \<noteq> []
        \<and> sorted fs \<and> distinct fs \<and> set fs = set (wn_files (ns ! i)) \<inter> set (wn_files (ns ! j)))"
proof (induction ns)
  case (Cons n ns)
  let ?ov = "\<lambda>m. sort (filter (\<lambda>f. f \<in> set (wn_files m)) (remdups (wn_files n)))"
  have ov: "fs = ?ov m \<longleftrightarrow> sorted fs \<and> distinct fs \<and> set fs = set (wn_files n) \<inter> set (wn_files m)" for m
  proof
    assume "sorted fs \<and> distinct fs \<and> set fs = set (wn_files n) \<inter> set (wn_files m)"
    then show "fs = ?ov m" by (intro sorted_distinct_set_unique[of fs "?ov m"]) auto
  qed auto
  have "(l, r, fs) \<in> set (conflict_set (n # ns)) \<longleftrightarrow>
      (\<exists>m\<in>set ns. wn_id n = l \<and> wn_id m = r \<and> fs \<noteq> [] \<and> fs = ?ov m) \<or> (l, r, fs) \<in> set (conflict_set ns)"
    by (auto simp: Let_def)
  also have "(\<exists>m\<in>set ns. wn_id n = l \<and> wn_id m = r \<and> fs \<noteq> [] \<and> fs = ?ov m) \<longleftrightarrow>
      (\<exists>j<length ns. wn_id n = l \<and> wn_id (ns ! j) = r \<and> fs \<noteq> [] \<and> fs = ?ov (ns ! j))"
    by (metis in_set_conv_nth)
  finally show ?case
    unfolding Cons.IH ov
    using pair_Cons[of n ns "\<lambda>a b. wn_id a = l \<and> wn_id b = r \<and> fs \<noteq> [] \<and> sorted fs \<and> distinct fs
      \<and> set fs = set (wn_files a) \<inter> set (wn_files b)"] by simp
qed simp

lemma merge_order_sorted:
  "sorted (deterministic_merge_order ids) \<and> distinct (deterministic_merge_order ids)
   \<and> set (deterministic_merge_order ids) = set ids"
  by (simp add: deterministic_merge_order_def)

lemma merge_order_deterministic:
  "set ids = set ids' \<Longrightarrow> deterministic_merge_order ids = deterministic_merge_order ids'"
  using merge_order_sorted sorted_distinct_set_unique by metis

end
