(* ===== verification/Lifecycle.thy ===== *)
theory Lifecycle
  imports Paths WorkGraph
begin

text \<open>
  Plans and the managed lifecycle graph: the boundary models \<open>PlanTask\<close> and \<open>Plan\<close> of
  \<open>src/src/swfactory/models.py\<close>, and \<open>ManagedNode\<close>, \<open>ManagedGraph\<close> and \<open>compile_graph\<close> of
  \<open>src/src/swfactory/lifecycle.py\<close>.

  A boundary model is a record, and its declared field constraints, validators and model validator are
  one function that gives the validated record or the reason it is refused; \<open>Literal\<close> types are
  datatypes. The command line (\<open>main\<close>) and the Mermaid text are not modelled.
\<close>

datatype life_error =
    FieldError string
  | UndeclaredFiles string "string list"
  | GraphError wg_error
  | MissingKey string
  | IdentifierError path_error

datatype agent_role = IssueMaker | Groomer | Planner | CodeWriter | Reviewer | Improver | Deliverer

datatype managed_stage = IntentStage | SpecStage | PlanStage | BuildAndTest | ReviewStage | DeliverStage

datatype execution = External | AirflowStage | InsideStage

record plan_task =
  pt_id :: string
  pt_title :: string
  pt_depends_on :: "string list"
  pt_files :: "string list"
  pt_tests :: "string list"
  pt_parallel_safe :: bool

record plan =
  pl_files :: "string list"
  pl_steps :: "string list"
  pl_tests :: "string list"
  pl_risks :: "string list"
  pl_work :: "plan_task list"

record managed_node =
  mn_id :: string
  mn_role :: agent_role
  mn_title :: string
  mn_stage :: managed_stage
  mn_execution :: execution
  mn_depends_on :: "string list"
  mn_condition :: "string option"
  mn_parallel_safe :: bool

record managed_graph =
  mg_issue_id :: string
  mg_nodes :: "managed_node list"

section \<open>Plans\<close>

definition is_lower :: "char \<Rightarrow> bool" where
  "is_lower c = (let n = of_char c :: nat in 97 \<le> n \<and> n \<le> 122)"

definition is_digit :: "char \<Rightarrow> bool" where
  "is_digit c = (let n = of_char c :: nat in 48 \<le> n \<and> n \<le> 57)"

definition task_id_re :: "string \<Rightarrow> bool" where
  "task_id_re = shape is_lower (\<lambda>c. is_lower c \<or> is_digit c \<or> c \<in> set ''_-'') 62"

definition node_id_re :: "string \<Rightarrow> bool" where
  "node_id_re = shape is_lower (\<lambda>c. is_lower c \<or> is_digit c \<or> c \<in> set ''_:-'') 95"

definition title_ok :: "string \<Rightarrow> bool" where
  "title_ok s = (1 \<le> length s \<and> length s \<le> 240)"

definition unique_dependencies :: "string list \<Rightarrow> life_error + string list" where
  "unique_dependencies vs =
     (let stripped = map py_strip vs in
      if list_ex (\<lambda>v. v = []) stripped then Inl (FieldError ''empty dependency'')
      else if length stripped \<noteq> length (remdups stripped) then Inl (FieldError ''duplicate dependency'')
      else Inr stripped)"

definition make_task :: "plan_task \<Rightarrow> life_error + plan_task" where
  "make_task t =
     (if \<not> task_id_re (pt_id t) then Inl (FieldError ''id'')
      else if \<not> title_ok (pt_title t) then Inl (FieldError ''title'')
      else if 32 < length (pt_depends_on t) then Inl (FieldError ''depends_on'')
      else if 128 < length (pt_files t) then Inl (FieldError ''files'')
      else if 128 < length (pt_tests t) then Inl (FieldError ''tests'')
      else case unique_dependencies (pt_depends_on t) of
             Inl e \<Rightarrow> Inl e
           | Inr ds \<Rightarrow> Inr (t\<lparr>pt_depends_on := ds\<rparr>))"

fun make_tasks :: "plan_task list \<Rightarrow> life_error + plan_task list" where
  "make_tasks [] = Inr []"
| "make_tasks (t # ts) =
     (case make_task t of
        Inl e \<Rightarrow> Inl e
      | Inr t' \<Rightarrow> (case make_tasks ts of Inl e \<Rightarrow> Inl e | Inr ts' \<Rightarrow> Inr (t' # ts')))"

fun undeclared :: "string list \<Rightarrow> plan_task list \<Rightarrow> life_error option" where
  "undeclared files [] = None"
| "undeclared files (t # ts) =
     (let u = sort (filter (\<lambda>f. f \<notin> set files) (remdups (pt_files t))) in
      if u \<noteq> [] then Some (UndeclaredFiles (pt_id t) u) else undeclared files ts)"

definition make_plan :: "plan \<Rightarrow> life_error + plan" where
  "make_plan p =
     (if 64 < length (pl_work p) then Inl (FieldError ''work'')
      else case make_tasks (pl_work p) of
             Inl e \<Rightarrow> Inl e
           | Inr work \<Rightarrow>
               (case undeclared (pl_files p) work of
                  Some e \<Rightarrow> Inl e
                | None \<Rightarrow>
                    (case waves pt_id pt_depends_on work of
                       Inl e \<Rightarrow> Inl (GraphError e)
                     | Inr _ \<Rightarrow> Inr (p\<lparr>pl_work := work\<rparr>))))"

definition work_layers :: "plan \<Rightarrow> wg_error + plan_task list list" where
  "work_layers p = (case waves pt_id pt_depends_on (pl_work p) of Inl e \<Rightarrow> Inl e | Inr ws \<Rightarrow> Inr (map ww_nodes ws))"

definition plan_fork_candidates :: "plan \<Rightarrow> wg_error + string list list" where
  "plan_fork_candidates p =
     (case waves pt_id pt_depends_on (pl_work p) of
        Inl e \<Rightarrow> Inl e
      | Inr ws \<Rightarrow> Inr (filter (\<lambda>g. 1 < length g)
                     (map (\<lambda>w. map pt_id (filter pt_parallel_safe (ww_nodes w))) ws)))"

section \<open>The managed graph\<close>

definition make_node :: "managed_node \<Rightarrow> life_error + managed_node" where
  "make_node n =
     (if \<not> node_id_re (mn_id n) then Inl (FieldError ''node id'')
      else if \<not> title_ok (mn_title n) then Inl (FieldError ''node title'')
      else Inr n)"

fun make_nodes :: "managed_node list \<Rightarrow> life_error + managed_node list" where
  "make_nodes [] = Inr []"
| "make_nodes (n # ns) =
     (case make_node n of
        Inl e \<Rightarrow> Inl e
      | Inr n' \<Rightarrow> (case make_nodes ns of Inl e \<Rightarrow> Inl e | Inr ns' \<Rightarrow> Inr (n' # ns')))"

definition make_graph :: "string \<Rightarrow> managed_node list \<Rightarrow> life_error + managed_graph" where
  "make_graph issue_id nodes =
     (if length nodes < 1 \<or> 80 < length nodes then Inl (FieldError ''nodes'')
      else case validate_identifier issue_id of
             Inl e \<Rightarrow> Inl (IdentifierError e)
           | Inr _ \<Rightarrow>
               (case waves mn_id mn_depends_on nodes of
                  Inl e \<Rightarrow> Inl (GraphError e)
                | Inr _ \<Rightarrow> Inr \<lparr>mg_issue_id = issue_id, mg_nodes = nodes\<rparr>))"

definition fork_candidates :: "managed_graph \<Rightarrow> wg_error + string list list" where
  "fork_candidates g =
     (case waves mn_id mn_depends_on (mg_nodes g) of
        Inl e \<Rightarrow> Inl e
      | Inr ws \<Rightarrow> Inr (filter (\<lambda>grp. 1 < length grp)
          (map (\<lambda>w. map mn_id (filter (\<lambda>n. mn_execution n = InsideStage \<and> mn_parallel_safe n) (ww_nodes w))) ws)))"

definition work_nodes :: "plan \<Rightarrow> life_error + plan_task list" where
  "work_nodes p =
     (if pl_work p \<noteq> [] then Inr (pl_work p)
      else let title = (case pl_steps p of [] \<Rightarrow> ''Implement the approved plan'' | s # _ \<Rightarrow> s) in
           case make_task \<lparr>pt_id = ''change'', pt_title = title, pt_depends_on = [], pt_files = pl_files p,
                           pt_tests = pl_tests p, pt_parallel_safe = False\<rparr> of
             Inl e \<Rightarrow> Inl e
           | Inr t \<Rightarrow> Inr [t])"

definition work_prefix :: "string \<Rightarrow> string" where
  "work_prefix i = ''work:'' @ i"

definition node_of :: "string \<Rightarrow> agent_role \<Rightarrow> string \<Rightarrow> managed_stage \<Rightarrow> execution \<Rightarrow> string list \<Rightarrow> string option
    \<Rightarrow> managed_node" where
  "node_of i r t st ex ds c = \<lparr>mn_id = i, mn_role = r, mn_title = t, mn_stage = st, mn_execution = ex,
     mn_depends_on = ds, mn_condition = c, mn_parallel_safe = False\<rparr>"

definition head_nodes :: "managed_node list" where
  "head_nodes =
     [node_of ''issue'' IssueMaker ''GitHub work order'' IntentStage External [] None,
      node_of ''groom'' Groomer ''Bound the specification'' SpecStage AirflowStage [''issue''] None,
      node_of ''plan'' Planner ''Validate the issue work graph'' PlanStage AirflowStage [''groom''] None]"

definition task_node :: "plan_task \<Rightarrow> managed_node" where
  "task_node t =
     (let parents = map work_prefix (pt_depends_on t) in
      \<lparr>mn_id = work_prefix (pt_id t), mn_role = CodeWriter, mn_title = pt_title t, mn_stage = BuildAndTest,
       mn_execution = InsideStage, mn_depends_on = (if parents = [] then [''plan''] else parents),
       mn_condition = None, mn_parallel_safe = pt_parallel_safe t\<rparr>)"

definition tail_nodes :: "string list \<Rightarrow> managed_node list" where
  "tail_nodes terminals =
     [node_of ''review'' Reviewer ''Review code, tests and plan fidelity'' ReviewStage AirflowStage terminals None,
      node_of ''improve'' Improver ''Repair blocking review findings'' ReviewStage InsideStage [''review'']
        (Some ''review=request_changes''),
      node_of ''deliver'' Deliverer ''Publish evidence and pull request'' DeliverStage AirflowStage [''review'']
        (Some ''review_stage=complete'')]"

text \<open>\<open>children[parent].add(node.id)\<close> raises on a parent that is no work node; a terminal has no children.\<close>

definition has_child :: "plan_task list \<Rightarrow> string \<Rightarrow> bool" where
  "has_child work i = list_ex (\<lambda>t. i \<in> set (pt_depends_on t)) work"

definition missing_parents :: "plan_task list \<Rightarrow> string list" where
  "missing_parents work = filter (\<lambda>p. p \<notin> set (map pt_id work)) (concat (map pt_depends_on work))"

definition terminals :: "plan_task list \<Rightarrow> string list" where
  "terminals work = map (work_prefix \<circ> pt_id) (filter (\<lambda>t. \<not> has_child work (pt_id t)) work)"

definition graph_nodes :: "plan_task list \<Rightarrow> managed_node list" where
  "graph_nodes work = head_nodes @ map task_node work @ tail_nodes (terminals work)"

definition compile_graph :: "string \<Rightarrow> plan \<Rightarrow> life_error + managed_graph" where
  "compile_graph issue_id p =
     (case validate_identifier issue_id of
        Inl e \<Rightarrow> Inl (IdentifierError e)
      | Inr _ \<Rightarrow>
          (case work_nodes p of
             Inl e \<Rightarrow> Inl e
           | Inr work \<Rightarrow>
               (case missing_parents work of
                  m # _ \<Rightarrow> Inl (MissingKey m)
                | [] \<Rightarrow>
                    (case make_nodes (graph_nodes work) of
                       Inl e \<Rightarrow> Inl e
                     | Inr nodes \<Rightarrow> make_graph issue_id nodes))))"

section \<open>Lemmas on validation\<close>

lemma make_task_Inr:
  "make_task t = Inr t' \<Longrightarrow> task_id_re (pt_id t') \<and> title_ok (pt_title t') \<and> pt_id t' = pt_id t \<and> pt_title t' = pt_title t
     \<and> distinct (pt_depends_on t')"
proof -
  assume a: "make_task t = Inr t'"
  then obtain ds where u: "unique_dependencies (pt_depends_on t) = Inr ds" and t': "t' = t\<lparr>pt_depends_on := ds\<rparr>"
    and "task_id_re (pt_id t)" "title_ok (pt_title t)"
    by (auto simp: make_task_def split: if_splits sum.splits)
  moreover have "ds = map py_strip (pt_depends_on t)" "length ds = length (remdups ds)"
    using u by (auto simp: unique_dependencies_def Let_def split: if_splits)
  then have "distinct ds" by (metis length_remdups_eq remdups_id_iff_distinct)
  ultimately show ?thesis by simp
qed

lemma make_tasks_Inr: "make_tasks ts = Inr ts' \<Longrightarrow> list_all2 (\<lambda>t t'. make_task t = Inr t') ts ts'"
  by (induction ts arbitrary: ts') (auto split: sum.splits)

lemma make_nodes_ok:
  "(\<forall>n\<in>set ns. node_id_re (mn_id n) \<and> title_ok (mn_title n)) \<Longrightarrow> make_nodes ns = Inr ns"
  by (induction ns) (auto simp: make_node_def)

lemma make_nodes_Inr: "make_nodes ns = Inr ns' \<Longrightarrow> ns' = ns"
  by (induction ns arbitrary: ns') (auto simp: make_node_def split: sum.splits if_splits)

definition good_work :: "plan_task list \<Rightarrow> bool" where
  "good_work work = (list_all (\<lambda>t. task_id_re (pt_id t) \<and> title_ok (pt_title t)) work \<and> length work \<le> 64
     \<and> distinct (map pt_id work) \<and> (\<Union>t\<in>set work. set (pt_depends_on t)) \<subseteq> pt_id ` set work
     \<and> acyclic (dep_rel pt_id pt_depends_on work))"

lemma make_plan_work:
  assumes "make_plan p0 = Inr p"
  shows "good_work (pl_work p)"
proof -
  from assms obtain ws where len: "length (pl_work p0) \<le> 64" and t: "make_tasks (pl_work p0) = Inr (pl_work p)"
    and w: "waves pt_id pt_depends_on (pl_work p) = Inr ws"
    by (auto simp: make_plan_def split: if_splits sum.splits option.splits)
  have "length (pl_work p) = length (pl_work p0)"
    using make_tasks_Inr[OF t] by (simp add: list_all2_lengthD)
  moreover have "list_all (\<lambda>t. task_id_re (pt_id t) \<and> title_ok (pt_title t)) (pl_work p)"
    using make_tasks_Inr[OF t] unfolding list_all2_conv_all_nth list_all_length by (metis make_task_Inr)
  ultimately show ?thesis using len waves_accepts[of pt_id pt_depends_on "pl_work p"] w
    by (simp add: good_work_def)
qed

lemma work_prefix_inj: "work_prefix a = work_prefix b \<longleftrightarrow> a = b"
  by (simp add: work_prefix_def)

lemma fixed_ids:
  "set (map mn_id head_nodes) = {''issue'', ''groom'', ''plan''}"
  "set (map mn_id (tail_nodes ts)) = {''review'', ''improve'', ''deliver''}"
  "work_prefix a \<notin> {''issue'', ''groom'', ''plan'', ''review'', ''improve'', ''deliver''}"
  by (simp_all add: head_nodes_def tail_nodes_def node_of_def work_prefix_def)

lemma task_node_simps [simp]:
  "mn_id (task_node t) = work_prefix (pt_id t)" "mn_title (task_node t) = pt_title t"
  "mn_depends_on (task_node t) = (if pt_depends_on t = [] then [''plan''] else map work_prefix (pt_depends_on t))"
  by (simp_all add: task_node_def Let_def)

lemma graph_ids: "mn_id ` set (graph_nodes work) =
    {''issue'', ''groom'', ''plan'', ''review'', ''improve'', ''deliver''} \<union> (work_prefix \<circ> pt_id) ` set work"
  using fixed_ids(1,2) by (auto simp: graph_nodes_def image_Un image_image)

lemma graph_ids_distinct:
  assumes "distinct (map pt_id work)"
  shows "distinct (map mn_id (graph_nodes work))"
proof -
  have "distinct (map (mn_id \<circ> task_node) work)"
    using assms by (simp add: distinct_map inj_on_def work_prefix_inj)
  moreover have "distinct (map mn_id head_nodes)" "distinct (map mn_id (tail_nodes ts))" for ts
    by (simp_all add: head_nodes_def tail_nodes_def node_of_def)
  moreover have "set (map mn_id head_nodes) \<inter> (mn_id \<circ> task_node) ` set work = {}"
    "set (map mn_id head_nodes) \<inter> set (map mn_id (tail_nodes ts)) = {}"
    "(mn_id \<circ> task_node) ` set work \<inter> set (map mn_id (tail_nodes ts)) = {}" for ts
    unfolding fixed_ids(1,2) by (auto simp: work_prefix_def)
  ultimately show ?thesis by (simp add: graph_nodes_def Int_Un_distrib image_comp)
qed

lemma terminals_subset: "set (terminals work) \<subseteq> (work_prefix \<circ> pt_id) ` set work"
  by (auto simp: terminals_def)

lemma graph_node_cases:
  assumes "n \<in> set (graph_nodes work)"
  obtains (task) t where "t \<in> set work" "n = task_node t"
  | (head) "n \<in> set head_nodes"
  | (review) "mn_id n = ''review''" "mn_depends_on n = terminals work" "title_ok (mn_title n)"
  | (tail) "mn_id n \<in> {''improve'', ''deliver''}" "mn_depends_on n = [''review'']" "title_ok (mn_title n)"
  using assms by (auto simp: graph_nodes_def tail_nodes_def node_of_def title_ok_def)

lemma head_node_facts:
  "n \<in> set head_nodes \<Longrightarrow> title_ok (mn_title n) \<and>
     ((mn_id n = ''issue'' \<and> mn_depends_on n = []) \<or> (mn_id n = ''groom'' \<and> mn_depends_on n = [''issue''])
      \<or> (mn_id n = ''plan'' \<and> mn_depends_on n = [''groom'']))"
  by (auto simp: head_nodes_def node_of_def title_ok_def)

section \<open>Compilation of a plan\<close>

lemma node_id_re_work: "task_id_re i \<Longrightarrow> node_id_re (work_prefix i)"
proof -
  assume "task_id_re i"
  then obtain c cs where i: "i = c # cs" "is_lower c" "length cs \<le> 62"
    "list_all (\<lambda>c. is_lower c \<or> is_digit c \<or> c \<in> set ''_-'') cs"
    by (cases i) (auto simp: task_id_re_def)
  have "list_all (\<lambda>c. is_lower c \<or> is_digit c \<or> c \<in> set ''_:-'') cs"
    using i(4) by (rule list.pred_mono_strong) auto
  moreover have "is_lower (CHR ''w'')" "is_lower (CHR ''o'')" "is_lower (CHR ''r'')" "is_lower (CHR ''k'')"
    by (simp_all add: is_lower_def)
  ultimately show ?thesis using i(1-3) by (simp add: node_id_re_def work_prefix_def)
qed

lemma node_id_re_fixed:
  "i \<in> {''issue'', ''groom'', ''plan'', ''review'', ''improve'', ''deliver''} \<Longrightarrow> node_id_re i"
  by (auto simp: node_id_re_def is_lower_def is_digit_def)

lemma good_work_nodes:
  assumes "good_work work"
  shows "make_nodes (graph_nodes work) = Inr (graph_nodes work)"
proof (intro make_nodes_ok ballI)
  fix n assume "n \<in> set (graph_nodes work)"
  then show "node_id_re (mn_id n) \<and> title_ok (mn_title n)"
  proof (cases rule: graph_node_cases)
    case (task t)
    then show ?thesis using assms by (auto simp: good_work_def list_all_iff intro: node_id_re_work)
  next
    case head
    then show ?thesis using head_node_facts[OF head] node_id_re_fixed[of "mn_id n"] by auto
  qed (use node_id_re_fixed[of "mn_id n"] in auto)
qed

text \<open>A rank for the compiled graph: the fixed nodes first, the work nodes by the rank the plan gives
  them, the review after all of them.\<close>

lemma good_work_acyclic:
  assumes "good_work work"
  shows "acyclic (dep_rel mn_id mn_depends_on (graph_nodes work))"
proof -
  obtain r :: "string \<Rightarrow> nat" where r: "\<forall>t\<in>set work. \<forall>d\<in>set (pt_depends_on t). r d < r (pt_id t)"
    using acyclic_rank[of pt_id work pt_depends_on] assms by (auto simp: good_work_def)
  define B where "B = sum_list (map (r \<circ> pt_id) work)"
  have B: "r (pt_id t) \<le> B" if "t \<in> set work" for t
    unfolding B_def by (rule member_le_sum_list) (use that in auto)
  define R where "R x = (if x = ''issue'' then 0 else if x = ''groom'' then 1 else if x = ''plan'' then 2
     else if x = ''review'' then B + 4 else if x \<in> {''improve'', ''deliver''} then B + 5 else 3 + r (drop 5 x))" for x
  have Rw: "R (work_prefix i) = 3 + r i" for i by (simp add: R_def work_prefix_def)
  have Rf: "R ''issue'' = 0" "R ''groom'' = 1" "R ''plan'' = 2" "R ''review'' = B + 4"
    "R ''improve'' = B + 5" "R ''deliver'' = B + 5" by (simp_all add: R_def)
  show ?thesis
  proof (rule rank_acyclic[where r = R], intro ballI)
    fix n d assume n: "n \<in> set (graph_nodes work)" and d: "d \<in> set (mn_depends_on n)"
    from n show "R d < R (mn_id n)"
    proof (cases rule: graph_node_cases)
      case (task t)
      then show ?thesis using d r by (auto simp: Rw Rf split: if_splits)
    next
      case head
      then show ?thesis using head_node_facts[OF head] d by (auto simp: Rf)
    next
      case review
      then obtain t where "t \<in> set work" "d = work_prefix (pt_id t)" using d terminals_subset by fastforce
      then show ?thesis using B[of t] review by (simp add: Rw Rf)
    next
      case tail
      then show ?thesis using d by (auto simp: Rf)
    qed
  qed
qed

lemma graph_deps_known:
  assumes "(\<Union>t\<in>set work. set (pt_depends_on t)) \<subseteq> pt_id ` set work"
  shows "(\<Union>n\<in>set (graph_nodes work). set (mn_depends_on n)) \<subseteq> mn_id ` set (graph_nodes work)"
proof (intro UN_least)
  fix n assume "n \<in> set (graph_nodes work)"
  then show "set (mn_depends_on n) \<subseteq> mn_id ` set (graph_nodes work)"
  proof (cases rule: graph_node_cases)
    case (task t)
    have "set (pt_depends_on t) \<subseteq> pt_id ` set work" using assms task(1) by blast
    then show ?thesis using task(2) unfolding graph_ids by (auto split: if_splits)
  next
    case head
    then show ?thesis using head_node_facts[OF head] unfolding graph_ids by auto
  next
    case review
    then show ?thesis using terminals_subset[of work] unfolding graph_ids by auto
  next
    case tail
    then show ?thesis unfolding graph_ids by auto
  qed
qed

lemma good_work_graph:
  assumes "good_work work" and "validate_identifier issue = Inr i"
  shows "make_graph issue (graph_nodes work) = Inr \<lparr>mg_issue_id = issue, mg_nodes = graph_nodes work\<rparr>"
proof -
  have "\<exists>ws. waves mn_id mn_depends_on (graph_nodes work) = Inr ws"
    using waves_accepts[of mn_id mn_depends_on "graph_nodes work"] good_work_acyclic[OF assms(1)]
      graph_ids_distinct[of work] graph_deps_known[of work] assms(1) unfolding good_work_def by blast
  moreover have "length (graph_nodes work) = length work + 6"
    by (simp add: graph_nodes_def head_nodes_def tail_nodes_def)
  ultimately show ?thesis using assms by (auto simp: make_graph_def good_work_def)
qed

lemma good_work_no_missing: "good_work work \<Longrightarrow> missing_parents work = []"
  by (auto simp: good_work_def missing_parents_def filter_empty_conv)

definition step_title :: "plan \<Rightarrow> string" where
  "step_title p = (case pl_steps p of [] \<Rightarrow> ''Implement the approved plan'' | s # _ \<Rightarrow> s)"

lemma change_task_good:
  assumes "make_task t = Inr t'" and "pt_depends_on t = []"
  shows "good_work [t']"
proof -
  have "pt_depends_on t' = []" using assms by (auto simp: make_task_def unique_dependencies_def split: if_splits)
  then show ?thesis using make_task_Inr[OF assms(1)] by (auto simp: good_work_def dep_rel_def acyclic_def)
qed

text \<open>Every plan that the boundary model accepted compiles under a safe issue id, except one without a
  work graph whose first step is empty or longer than 240 characters, or that lists more than 128
  files or tests; those raise, although the same plan was accepted.\<close>

theorem compile_graph_total:
  assumes "make_plan p0 = Inr p" and "validate_identifier issue = Inr i"
  shows "(\<exists>g. compile_graph issue p = Inr g) \<longleftrightarrow>
     pl_work p \<noteq> [] \<or> (title_ok (step_title p) \<and> length (pl_files p) \<le> 128 \<and> length (pl_tests p) \<le> 128)"
proof (cases "pl_work p = []")
  case False
  then have "compile_graph issue p = make_graph issue (graph_nodes (pl_work p))"
    using make_plan_work[OF assms(1)] assms(2)
    by (simp add: compile_graph_def work_nodes_def good_work_no_missing good_work_nodes)
  then show ?thesis using False good_work_graph[OF make_plan_work[OF assms(1)] assms(2)] by simp
next
  case True
  let ?t = "\<lparr>pt_id = ''change'', pt_title = step_title p, pt_depends_on = [], pt_files = pl_files p,
                           pt_tests = pl_tests p, pt_parallel_safe = False\<rparr>"
  have ok: "(\<exists>t'. make_task ?t = Inr t') \<longleftrightarrow>
      title_ok (step_title p) \<and> length (pl_files p) \<le> 128 \<and> length (pl_tests p) \<le> 128"
    by (auto simp: make_task_def unique_dependencies_def task_id_re_def is_lower_def)
  have w: "work_nodes p = (case make_task ?t of Inl e \<Rightarrow> Inl e | Inr t \<Rightarrow> Inr [t])"
    using True by (simp add: work_nodes_def step_title_def Let_def)
  show ?thesis
  proof (cases "make_task ?t")
    case (Inl e)
    then show ?thesis using True ok assms(2) by (simp add: compile_graph_def w)
  next
    case (Inr t')
    have g: "good_work [t']" using change_task_good[OF Inr] by simp
    have "compile_graph issue p = make_graph issue (graph_nodes [t'])"
      using Inr assms(2) by (simp add: compile_graph_def w good_work_no_missing[OF g] good_work_nodes[OF g])
    then show ?thesis using ok Inr True good_work_graph[OF g assms(2)] by simp
  qed
qed

definition demo_plan :: plan where
  "demo_plan = \<lparr>pl_files = [''a.py''], pl_steps = [''do it''], pl_tests = [], pl_risks = [],
     pl_work = [\<lparr>pt_id = ''api'', pt_title = ''API'', pt_depends_on = [''model''], pt_files = [''a.py''],
                  pt_tests = [], pt_parallel_safe = True\<rparr>,
                \<lparr>pt_id = ''model'', pt_title = ''Model'', pt_depends_on = [], pt_files = [],
                  pt_tests = [], pt_parallel_safe = False\<rparr>]\<rparr>"

definition demo_flat_plan :: plan where
  "demo_flat_plan = \<lparr>pl_files = [], pl_steps = [replicate 241 (CHR ''x'')], pl_tests = [], pl_risks = [], pl_work = []\<rparr>"

lemma demo_plan_ok: "make_plan demo_plan = Inr demo_plan" "validate_identifier ''42'' = Inr ''42''"
  by (simp_all add: make_plan_def demo_plan_def make_task_def unique_dependencies_def task_id_re_def title_ok_def
      is_lower_def is_digit_def py_strip_def is_space_def waves_def wave_loop.simps ready_def Let_def
      validate_identifier_def id_re_def is_alnum_def)

lemma demo_flat_plan_ok: "make_plan demo_flat_plan = Inr demo_flat_plan"
  by (simp add: make_plan_def demo_flat_plan_def waves_def wave_loop.simps)

theorem compile_graph_total_witness:
  "(\<exists>g. compile_graph ''42'' demo_plan = Inr g) \<and> (\<nexists>g. compile_graph ''42'' demo_flat_plan = Inr g)"
  using compile_graph_total[OF demo_plan_ok(1,2)] compile_graph_total[OF demo_flat_plan_ok demo_plan_ok(2)]
  by (simp add: demo_plan_def demo_flat_plan_def step_title_def title_ok_def)

section \<open>No work bypasses planning or review\<close>

abbreviation before :: "managed_graph \<Rightarrow> string \<Rightarrow> string \<Rightarrow> bool" where
  "before g a b \<equiv> (a, b) \<in> (dep_rel mn_id mn_depends_on (mg_nodes g))\<^sup>+"

lemma compile_graph_Inr:
  assumes "compile_graph issue p = Inr g"
  obtains work ws where "work_nodes p = Inr work" "missing_parents work = []" "mg_nodes g = graph_nodes work"
    and "waves mn_id mn_depends_on (graph_nodes work) = Inr ws"
  using assms
  by (auto simp: compile_graph_def make_graph_def dest: make_nodes_Inr split: sum.splits list.splits if_splits)

lemma dep_relI: "n \<in> set ns \<Longrightarrow> d \<in> set (deps n) \<Longrightarrow> (d, nid n) \<in> dep_rel nid deps ns"
  by (auto simp: dep_rel_def)

lemma task_edge:
  "t \<in> set work \<Longrightarrow> d \<in> set (pt_depends_on t) \<Longrightarrow>
     (work_prefix d, work_prefix (pt_id t)) \<in> dep_rel mn_id mn_depends_on (graph_nodes work)"
  unfolding dep_rel_def graph_nodes_def by (auto intro!: exI[of _ "task_node t"])

lemma root_edge:
  "t \<in> set work \<Longrightarrow> pt_depends_on t = [] \<Longrightarrow>
     (''plan'', work_prefix (pt_id t)) \<in> dep_rel mn_id mn_depends_on (graph_nodes work)"
  unfolding dep_rel_def graph_nodes_def by (auto intro!: exI[of _ "task_node t"])

lemma terminal_edge:
  "t \<in> set work \<Longrightarrow> \<not> has_child work (pt_id t) \<Longrightarrow>
     (work_prefix (pt_id t), ''review'') \<in> dep_rel mn_id mn_depends_on (graph_nodes work)"
  using dep_relI[of "tail_nodes (terminals work) ! 0" "graph_nodes work" "work_prefix (pt_id t)" mn_depends_on mn_id]
  by (simp add: graph_nodes_def tail_nodes_def node_of_def terminals_def)

lemma deliver_edge: "(''review'', ''deliver'') \<in> dep_rel mn_id mn_depends_on (graph_nodes work)"
  using dep_relI[of "tail_nodes (terminals work) ! 2" "graph_nodes work" "''review''" mn_depends_on mn_id]
  by (simp add: graph_nodes_def tail_nodes_def node_of_def)

lemma graph_wf:
  assumes "waves mn_id mn_depends_on ns = Inr ws"
  shows "wf (dep_rel mn_id mn_depends_on ns)" and "wf ((dep_rel mn_id mn_depends_on ns)\<inverse>)"
proof -
  have a: "acyclic (dep_rel mn_id mn_depends_on ns)"
    and k: "(\<Union>n\<in>set ns. set (mn_depends_on n)) \<subseteq> mn_id ` set ns"
    using waves_accepts[of mn_id mn_depends_on ns] assms by blast+
  have "dep_rel mn_id mn_depends_on ns \<subseteq> (mn_id ` set ns) \<times> (mn_id ` set ns)"
    using k by (auto simp: dep_rel_def)
  then have f: "finite (dep_rel mn_id mn_depends_on ns)" by (rule finite_subset) simp
  show "wf (dep_rel mn_id mn_depends_on ns)" using f a by (rule finite_acyclic_wf)
  show "wf ((dep_rel mn_id mn_depends_on ns)\<inverse>)" using f a by (rule finite_acyclic_wf_converse)
qed

lemma work_reaches_review:
  assumes "wf ((dep_rel mn_id mn_depends_on (graph_nodes work))\<inverse>)"
  shows "t \<in> set work \<Longrightarrow> (work_prefix (pt_id t), ''review'') \<in> (dep_rel mn_id mn_depends_on (graph_nodes work))\<^sup>+"
  using assms
proof (induction "work_prefix (pt_id t)" arbitrary: t rule: wf_induct_rule)
  case less
  show ?case
  proof (cases "has_child work (pt_id t)")
    case True
    then obtain m where m: "m \<in> set work" "pt_id t \<in> set (pt_depends_on m)" by (auto simp: has_child_def list_ex_iff)
    note e = task_edge[OF m]
    then have "(work_prefix (pt_id m), ''review'') \<in> (dep_rel mn_id mn_depends_on (graph_nodes work))\<^sup>+"
      using less.hyps[of m] m(1) by simp
    with e show ?thesis by (rule trancl_into_trancl2)
  qed (use terminal_edge less.prems in blast)
qed

lemma plan_reaches_work:
  assumes "wf (dep_rel mn_id mn_depends_on (graph_nodes work))" and "missing_parents work = []"
  shows "t \<in> set work \<Longrightarrow> (''plan'', work_prefix (pt_id t)) \<in> (dep_rel mn_id mn_depends_on (graph_nodes work))\<^sup>+"
  using assms(1)
proof (induction "work_prefix (pt_id t)" arbitrary: t rule: wf_induct_rule)
  case less
  show ?case
  proof (cases "pt_depends_on t")
    case (Cons d ds)
    then have "d \<in> set (concat (map pt_depends_on work))" using less.prems by force
    then have "d \<in> pt_id ` set work" using assms(2) by (fastforce simp: missing_parents_def filter_empty_conv)
    then obtain m where m: "m \<in> set work" "pt_id m = d" by blast
    have e: "(work_prefix (pt_id m), work_prefix (pt_id t)) \<in> dep_rel mn_id mn_depends_on (graph_nodes work)"
      using task_edge[OF less.prems, of d] Cons m(2) by simp
    then show ?thesis using less.hyps[of m] m(1) by (meson trancl_into_trancl)
  qed (use root_edge less.prems in blast)
qed

text \<open>In every compiled graph the work of an issue is confined between planning and review: each build
  node comes after the plan node and before the review node, and delivery comes after the review, so
  no dependency path lets work reach delivery unreviewed or start unplanned.\<close>

theorem work_between_plan_and_review:
  assumes "compile_graph issue p = Inr g"
  shows "(\<forall>n\<in>set (mg_nodes g). mn_stage n = BuildAndTest \<longrightarrow> before g ''plan'' (mn_id n) \<and> before g (mn_id n) ''review'')
    \<and> before g ''review'' ''deliver''"
proof -
  obtain work ws where w: "missing_parents work = []" "mg_nodes g = graph_nodes work"
    "waves mn_id mn_depends_on (graph_nodes work) = Inr ws"
    by (rule compile_graph_Inr[OF assms])
  have "before g ''plan'' (mn_id n) \<and> before g (mn_id n) ''review''"
    if n: "n \<in> set (mg_nodes g)" "mn_stage n = BuildAndTest" for n
  proof -
    have "\<exists>t\<in>set work. n = task_node t"
      using n by (auto simp: w(2) graph_nodes_def head_nodes_def tail_nodes_def node_of_def)
    then obtain t where t: "t \<in> set work" "n = task_node t" by blast
    show ?thesis
      using plan_reaches_work[OF graph_wf(1)[OF w(3)] w(1) t(1)] work_reaches_review[OF graph_wf(2)[OF w(3)] t(1)]
      by (simp add: w(2) t(2))
  qed
  moreover have "before g ''review'' ''deliver''" using deliver_edge[of work] w(2) by (auto intro: r_into_trancl)
  ultimately show ?thesis by blast
qed

lemma demo_compiled:
  "compile_graph ''42'' demo_plan = Inr \<lparr>mg_issue_id = ''42'', mg_nodes = graph_nodes (pl_work demo_plan)\<rparr>"
proof -
  have g: "good_work (pl_work demo_plan)" by (rule make_plan_work[OF demo_plan_ok(1)])
  have "work_nodes demo_plan = Inr (pl_work demo_plan)" by (simp add: work_nodes_def demo_plan_def)
  then show ?thesis
    using good_work_graph[OF g demo_plan_ok(2)] demo_plan_ok(2)
    by (simp add: compile_graph_def good_work_no_missing[OF g] good_work_nodes[OF g])
qed

theorem work_between_plan_and_review_witness:
  "before \<lparr>mg_issue_id = ''42'', mg_nodes = graph_nodes (pl_work demo_plan)\<rparr> ''work:model'' ''review''"
proof -
  have "task_node (pl_work demo_plan ! 1) \<in> set (graph_nodes (pl_work demo_plan))"
    "mn_stage (task_node (pl_work demo_plan ! 1)) = BuildAndTest" "mn_id (task_node (pl_work demo_plan ! 1)) = ''work:model''"
    by (simp_all add: graph_nodes_def demo_plan_def task_node_def work_prefix_def)
  then show ?thesis using work_between_plan_and_review[OF demo_compiled] by (metis managed_graph.select_convs(2))
qed

end
