(* ===== verification/StoreSchema.thy ===== *)
theory StoreSchema
  imports Json
begin

text \<open>
  The schema identity of the durable stores, \<open>store_schema.py\<close>: what this binary writes, the refusals in
  front of a store it must not own, the stamping of a legacy store and the read-only inspection. A database
  file is its version stamp (\<open>PRAGMA user_version\<close>), its table names and the highest row version of the
  Cell table; \<open>db_ok\<close> is false for a file SQLite cannot read. The theorem shows that opening a store never
  lowers its version and never creates a table over a stamped store that lost it.
\<close>

section \<open>Stores and files\<close>

definition CELL_ROW_SCHEMA_VERSION :: int where
  "CELL_ROW_SCHEMA_VERSION = 1"

definition EVIDENCE_SCHEMA_VERSION :: int where
  "EVIDENCE_SCHEMA_VERSION = 1"

datatype schema_error =
    StoreSchemaTooNew
  | StoreSchemaIncomplete "string list"
  | NoMigration int
  | DatabaseError
  | UnknownStore

datatype store_kind = Sqlite | EvidenceTree

record store_schema =
  ss_name :: string
  ss_path :: string
  ss_version :: int
  ss_tables :: "string list"
  ss_kind :: store_kind

definition FACTORY_STORES :: "store_schema list" where
  "FACTORY_STORES =
     [\<lparr>ss_name = ''cells'', ss_path = ''cells.sqlite3'', ss_version = 1, ss_tables = [''cells'', ''cell_events''],
       ss_kind = Sqlite\<rparr>,
      \<lparr>ss_name = ''operations'', ss_path = ''control/operations.sqlite3'', ss_version = 1, ss_tables = [''operations''],
       ss_kind = Sqlite\<rparr>,
      \<lparr>ss_name = ''admission'', ss_path = ''control/admission.sqlite3'', ss_version = 1,
       ss_tables = [''admission_work'', ''admission_order'', ''admission_members'', ''admission_dispatch''], ss_kind = Sqlite\<rparr>,
      \<lparr>ss_name = ''repairs'', ss_path = ''control/repairs.sqlite3'', ss_version = 1, ss_tables = [''repair_leases''],
       ss_kind = Sqlite\<rparr>,
      \<lparr>ss_name = ''evidence'', ss_path = ''evidence'', ss_version = EVIDENCE_SCHEMA_VERSION, ss_tables = [],
       ss_kind = EvidenceTree\<rparr>]"

definition STORES_BY_NAME :: "string \<Rightarrow> store_schema option" where
  "STORES_BY_NAME n = List.find (\<lambda>s. ss_name s = n) FACTORY_STORES"

definition supported_versions :: "(string \<times> int) list" where
  "supported_versions = map (\<lambda>s. (ss_name s, ss_version s)) FACTORY_STORES"

record db_file =
  db_ok :: bool
  db_version :: int
  db_tables :: "string list"
  db_cell_schema :: "int option"

definition missing_tables :: "store_schema \<Rightarrow> db_file \<Rightarrow> string list" where
  "missing_tables s db = sort (filter (\<lambda>t. t \<notin> set (db_tables db)) (ss_tables s))"

section \<open>Opening a store\<close>

definition guard_before_ddl :: "string \<Rightarrow> db_file \<Rightarrow> schema_error + int" where
  "guard_before_ddl name db =
     (case STORES_BY_NAME name of
        None \<Rightarrow> Inl UnknownStore
      | Some s \<Rightarrow>
          if \<not> db_ok db then Inl DatabaseError
          else if db_version db > ss_version s then Inl StoreSchemaTooNew
          else if db_version db \<ge> 1 \<and> missing_tables s db \<noteq> [] then Inl (StoreSchemaIncomplete (missing_tables s db))
          else Inr (db_version db))"

type_synonym db_step = "db_file \<Rightarrow> schema_error + db_file"

definition migrate_cells_rows :: db_step where
  "migrate_cells_rows db =
     (let highest = (case db_cell_schema db of None \<Rightarrow> 0 | Some v \<Rightarrow> v) in
      if highest > CELL_ROW_SCHEMA_VERSION then Inl StoreSchemaTooNew else Inr db)"

definition ADOPTIONS :: "(string \<times> db_step) list" where
  "ADOPTIONS = [(''cells'', migrate_cells_rows)]"

definition MIGRATIONS :: "(string \<times> (int \<times> db_step) list) list" where
  "MIGRATIONS = []"

fun run_steps :: "(int \<times> db_step) list \<Rightarrow> int list \<Rightarrow> db_step" where
  "run_steps steps [] db = Inr db"
| "run_steps steps (i # is) db =
     (case map_of steps i of
        None \<Rightarrow> Inl (NoMigration i)
      | Some migrate \<Rightarrow> (case migrate db of Inl e \<Rightarrow> Inl e | Inr db' \<Rightarrow> run_steps steps is db'))"

definition ensure_sqlite_schema :: "store_schema \<Rightarrow> db_file \<Rightarrow> schema_error + int \<times> db_file" where
  "ensure_sqlite_schema s db =
     (let version = db_version db; missing = missing_tables s db in
      if \<not> db_ok db then Inl DatabaseError
      else if version > ss_version s then Inl StoreSchemaTooNew
      else if missing \<noteq> [] then Inl (StoreSchemaIncomplete missing)
      else if version = ss_version s then Inr (version, db)
      else
        case (if version = 0
              then (case map_of ADOPTIONS (ss_name s) of None \<Rightarrow> Inr db | Some adopt \<Rightarrow> adopt db)
              else run_steps (case map_of MIGRATIONS (ss_name s) of None \<Rightarrow> [] | Some st \<Rightarrow> st)
                     [version..ss_version s - 1] db) of
          Inl e \<Rightarrow> Inl e
        | Inr db' \<Rightarrow> Inr (ss_version s, db'\<lparr>db_version := ss_version s\<rparr>))"

definition ensure_named_schema :: "string \<Rightarrow> db_file \<Rightarrow> schema_error + int \<times> db_file" where
  "ensure_named_schema name db =
     (case STORES_BY_NAME name of None \<Rightarrow> Inl UnknownStore | Some s \<Rightarrow> ensure_sqlite_schema s db)"

text \<open>The tables a store's own \<open>CREATE TABLE IF NOT EXISTS\<close> script creates, and the opening sequence every
  store runs: guard, script, stamp. An error leaves the file as the last completed step left it.\<close>

definition ddl_tables :: "string \<Rightarrow> string list" where
  "ddl_tables name =
     (if name = ''cells'' then [''cells'', ''cell_events'']
      else if name = ''operations'' then [''operations'']
      else if name = ''repairs'' then [''repair_leases'']
      else if name = ''admission'' then
        [''admission_work'', ''admission_meta'', ''admission_fairness'', ''admission_throttles'', ''admission_order'',
         ''admission_members'', ''admission_dispatch'']
      else [])"

definition run_ddl :: "string \<Rightarrow> db_file \<Rightarrow> db_file" where
  "run_ddl name db = db\<lparr>db_tables := db_tables db @ filter (\<lambda>t. t \<notin> set (db_tables db)) (ddl_tables name)\<rparr>"

definition open_store :: "string \<Rightarrow> db_file \<Rightarrow> (schema_error + int) \<times> db_file" where
  "open_store name db =
     (case guard_before_ddl name db of
        Inl e \<Rightarrow> (Inl e, db)
      | Inr _ \<Rightarrow>
          (case ensure_named_schema name (run_ddl name db) of
             Inl e \<Rightarrow> (Inl e, run_ddl name db)
           | Inr (v, db') \<Rightarrow> (Inr v, db')))"

text \<open>The evidence tree is stamped by a file of its own: absent, unreadable, or a declared version.\<close>

type_synonym evidence_stamp = "int option option"

definition ensure_evidence_schema :: "evidence_stamp \<Rightarrow> (schema_error + int) \<times> evidence_stamp" where
  "ensure_evidence_schema marker =
     (case marker of
        None \<Rightarrow> (Inr EVIDENCE_SCHEMA_VERSION, Some (Some EVIDENCE_SCHEMA_VERSION))
      | Some None \<Rightarrow> (Inl (StoreSchemaIncomplete []), marker)
      | Some (Some declared) \<Rightarrow>
          (if declared > EVIDENCE_SCHEMA_VERSION then Inl StoreSchemaTooNew else Inr declared, marker))"

section \<open>Read-only inspection\<close>

datatype status = Ok | Absent | Migratable | Unreadable | Incomplete | TooNew

record store_status =
  st_name :: string
  st_present :: bool
  st_version :: "int option"
  st_expected :: int
  st_status :: status

definition usable :: "store_status \<Rightarrow> bool" where
  "usable st = (st_status st \<in> set [Ok, Absent, Migratable])"

definition mk_status :: "store_schema \<Rightarrow> bool \<Rightarrow> int option \<Rightarrow> status \<Rightarrow> store_status" where
  "mk_status s present version st =
     \<lparr>st_name = ss_name s, st_present = present, st_version = version, st_expected = ss_version s, st_status = st\<rparr>"

definition inspect_evidence :: "store_schema \<Rightarrow> evidence_stamp option \<Rightarrow> store_status" where
  "inspect_evidence s dir =
     (case dir of
        None \<Rightarrow> mk_status s False None Absent
      | Some None \<Rightarrow> mk_status s True (Some 0) Migratable
      | Some (Some None) \<Rightarrow> mk_status s True None Unreadable
      | Some (Some (Some declared)) \<Rightarrow>
          if declared > ss_version s then mk_status s True (Some declared) TooNew
          else mk_status s True (Some declared) (if declared = ss_version s then Ok else Migratable))"

definition inspect_sqlite :: "store_schema \<Rightarrow> db_file option \<Rightarrow> store_status" where
  "inspect_sqlite s file =
     (case file of
        None \<Rightarrow> mk_status s False None Absent
      | Some db \<Rightarrow>
          if \<not> db_ok db then mk_status s True None Unreadable
          else if missing_tables s db \<noteq> [] then mk_status s True (Some (db_version db)) Incomplete
          else if db_version db > ss_version s then mk_status s True (Some (db_version db)) TooNew
          else if db_version db < ss_version s then mk_status s True (Some (db_version db)) Migratable
          else mk_status s True (Some (db_version db)) Ok)"

text \<open>The files of a state root by store name, and the evidence directory.\<close>

type_synonym db_files = "string \<Rightarrow> db_file option"

definition inspect_store :: "db_files \<Rightarrow> evidence_stamp option \<Rightarrow> store_schema \<Rightarrow> store_status" where
  "inspect_store files dir s =
     (case ss_kind s of EvidenceTree \<Rightarrow> inspect_evidence s dir | Sqlite \<Rightarrow> inspect_sqlite s (files (ss_name s)))"

definition inspect_state_root :: "db_files \<Rightarrow> evidence_stamp option \<Rightarrow> store_status list" where
  "inspect_state_root files dir = map (inspect_store files dir) FACTORY_STORES"

definition compat_problems :: "bool \<Rightarrow> db_files \<Rightarrow> evidence_stamp option \<Rightarrow> store_status list" where
  "compat_problems require_present files dir =
     (let statuses = inspect_state_root files dir in
      filter (\<lambda>st. \<not> usable st) statuses
      @ (if require_present then filter (\<lambda>st. st_status st = Absent) statuses else []))"

definition assert_compatible :: "bool \<Rightarrow> db_files \<Rightarrow> evidence_stamp option \<Rightarrow> string list + store_status list" where
  "assert_compatible require_present files dir =
     (let problems = compat_problems require_present files dir in
      if problems \<noteq> [] then Inl (map st_name problems) else Inr (inspect_state_root files dir))"

section \<open>Opening never downgrades\<close>

definition sqlite_names :: "string list" where
  "sqlite_names = [''cells'', ''operations'', ''admission'', ''repairs'']"

lemma store_named:
  assumes "STORES_BY_NAME name = Some s"
  shows "ss_name s = name" and "ss_version s = 1" and "s \<in> set FACTORY_STORES"
    and "ss_kind s = Sqlite \<Longrightarrow> name \<in> set sqlite_names"
proof -
  have "s \<in> set FACTORY_STORES \<and> ss_name s = name"
    using assms by (auto simp: STORES_BY_NAME_def dest: find_in)
  then show "s \<in> set FACTORY_STORES" and "ss_name s = name" by simp_all
  then show "ss_version s = 1" "ss_kind s = Sqlite \<Longrightarrow> name \<in> set sqlite_names"
    by (auto simp: FACTORY_STORES_def EVIDENCE_SCHEMA_VERSION_def sqlite_names_def)
qed

lemma missing_tables_Nil: "missing_tables s db = [] \<longleftrightarrow> set (ss_tables s) \<subseteq> set (db_tables db)"
proof -
  have "missing_tables s db = [] \<longleftrightarrow> set (missing_tables s db) = {}" by simp
  also have "\<dots> \<longleftrightarrow> set (ss_tables s) \<subseteq> set (db_tables db)" by (auto simp: missing_tables_def)
  finally show ?thesis .
qed

lemma ddl_complete:
  assumes "STORES_BY_NAME name = Some s"
  shows "set (ss_tables s) \<subseteq> set (db_tables (run_ddl name db))"
  using store_named[OF assms] by (auto simp: FACTORY_STORES_def run_ddl_def ddl_tables_def)

lemma run_ddl_simps [simp]:
  "db_ok (run_ddl n db) = db_ok db" "db_version (run_ddl n db) = db_version db"
  "db_cell_schema (run_ddl n db) = db_cell_schema db"
  by (simp_all add: run_ddl_def)

lemma no_steps: "is \<noteq> [] \<Longrightarrow> run_steps [] is db = Inl (NoMigration (hd is))"
  by (cases "is") simp_all

lemma hd_upto: "i \<le> j \<Longrightarrow> hd [i..j] = i"
  by (simp add: upto.simps)

lemma ensure_after_ddl:
  assumes s: "STORES_BY_NAME name = Some s" and "db_version db \<le> 1" and "db_ok db"
  shows "ensure_named_schema name (run_ddl name db) =
     (if db_version db = 1 then Inr (1, run_ddl name db)
      else if db_version db < 0 then Inl (NoMigration (db_version db))
      else if name = ''cells'' \<and> (case db_cell_schema db of None \<Rightarrow> False | Some h \<Rightarrow> h > 1) then Inl StoreSchemaTooNew
      else Inr (1, (run_ddl name db)\<lparr>db_version := 1\<rparr>))"
  using assms store_named[OF s] ddl_complete[OF s, of db]
  by (auto simp: ensure_named_schema_def ensure_sqlite_schema_def missing_tables_Nil MIGRATIONS_def no_steps hd_upto
      ADOPTIONS_def migrate_cells_rows_def CELL_ROW_SCHEMA_VERSION_def Let_def split: option.splits)

definition opens :: "store_schema \<Rightarrow> db_file \<Rightarrow> bool" where
  "opens s db \<longleftrightarrow> db_ok db \<and>
     (db_version db = 1 \<and> set (ss_tables s) \<subseteq> set (db_tables db)
      \<or> db_version db = 0 \<and> (ss_name s = ''cells'' \<longrightarrow> (case db_cell_schema db of None \<Rightarrow> True | Some h \<Rightarrow> h \<le> 1)))"

lemma open_store_cases:
  assumes s: "STORES_BY_NAME name = Some s"
  shows "opens s db \<Longrightarrow> open_store name db = (Inr 1, (run_ddl name db)\<lparr>db_version := 1\<rparr>)"
    and "\<not> opens s db \<Longrightarrow> \<exists>e. open_store name db = (Inl e, if db_ok db \<and> db_version db \<le> 0 then run_ddl name db else db)"
proof -
  have id: "(run_ddl name db)\<lparr>db_version := 1\<rparr> = run_ddl name db" if "db_version db = 1"
    using that by (simp add: run_ddl_def)
  show "open_store name db = (Inr 1, (run_ddl name db)\<lparr>db_version := 1\<rparr>)" if "opens s db"
    using that s id store_named[OF s] ensure_after_ddl[OF s, of db]
    by (auto simp: open_store_def guard_before_ddl_def opens_def missing_tables_Nil split: option.splits)
  show "\<exists>e. open_store name db = (Inl e, if db_ok db \<and> db_version db \<le> 0 then run_ddl name db else db)" if "\<not> opens s db"
    using that s store_named[OF s] ensure_after_ddl[OF s, of db]
    by (auto simp: open_store_def guard_before_ddl_def opens_def missing_tables_Nil split: option.splits)
qed

text \<open>C39: what opening a store accepts, by its stamp. A store stamped with the current version is opened exactly when it has
  every table the registry requires; otherwise it is refused and left untouched, so a required table that went missing is
  not recreated empty, and a newer store is refused untouched. An unstamped store is opened whatever tables it lost, unless
  it is the Cell store and has newer rows, and gets the current stamp. The tables of an opened store are those it had and all
  those of its script: a table the registry does not require is created in either case. No opening lowers a version.\<close>

theorem open_store_by_stamp:
  assumes "STORES_BY_NAME name = Some s"
  shows "(db_version db = 1 \<longrightarrow>
         (if db_ok db \<and> set (ss_tables s) \<subseteq> set (db_tables db)
          then fst (open_store name db) = Inr 1 \<and> set (db_tables (snd (open_store name db))) = set (db_tables db) \<union> set (ddl_tables name)
          else (\<exists>e. open_store name db = (Inl e, db))))
    \<and> (db_version db > 1 \<longrightarrow> (\<exists>e. open_store name db = (Inl e, db)))
    \<and> (db_version db = 0 \<and> db_ok db \<longrightarrow>
         (if name = ''cells'' \<and> (\<exists>h. db_cell_schema db = Some h \<and> h > 1)
          then open_store name db = (Inl StoreSchemaTooNew, run_ddl name db)
          else (\<exists>db'. open_store name db = (Inr 1, db') \<and> db_version db' = 1
                 \<and> set (db_tables db') = set (db_tables db) \<union> set (ddl_tables name))))
    \<and> db_version db \<le> db_version (snd (open_store name db))"
proof -
  have ddl: "set (db_tables (run_ddl name db)) = set (db_tables db) \<union> set (ddl_tables name)"
    by (auto simp: run_ddl_def)
  show ?thesis
  proof (cases "opens s db")
    case True
    then show ?thesis
      using open_store_cases(1)[OF assms True] ddl store_named(1)[OF assms] by (auto simp: opens_def)
  next
    case False
    obtain e where e: "open_store name db = (Inl e, if db_ok db \<and> db_version db \<le> 0 then run_ddl name db else db)"
      using open_store_cases(2)[OF assms False] by blast
    have "e = StoreSchemaTooNew" if "db_version db = 0" "db_ok db"
      using e False that assms store_named[OF assms] ensure_after_ddl[OF assms, of db]
      by (auto simp: open_store_def guard_before_ddl_def opens_def split: if_splits option.splits)
    then show ?thesis using e False store_named(1)[OF assms] by (auto simp: opens_def split: if_splits option.splits)
  qed
qed

text \<open>An unstamped Cell store that lost its event table opens as a healthy store with an empty one.\<close>

lemma unstamped_tables_recreated:
  "open_store ''cells'' \<lparr>db_ok = True, db_version = 0, db_tables = [''cells''], db_cell_schema = Some 1\<rparr>
     = (Inr 1, \<lparr>db_ok = True, db_version = 1, db_tables = [''cells'', ''cell_events''], db_cell_schema = Some 1\<rparr>)"
  by code_simp

text \<open>A stamped admission store that lost its throttles opens with an empty table of them: the registry does not require it.\<close>

lemma unrequired_table_recreated:
  "open_store ''admission'' \<lparr>db_ok = True, db_version = 1, db_tables = [''admission_work'', ''admission_meta'', ''admission_fairness'',
       ''admission_order'', ''admission_members'', ''admission_dispatch''], db_cell_schema = None\<rparr>
     = (Inr 1, \<lparr>db_ok = True, db_version = 1, db_tables = [''admission_work'', ''admission_meta'', ''admission_fairness'',
       ''admission_order'', ''admission_members'', ''admission_dispatch'', ''admission_throttles''], db_cell_schema = None\<rparr>)"
  by code_simp

definition demo_lost_table :: db_file where
  "demo_lost_table = \<lparr>db_ok = True, db_version = 1, db_tables = [''cells''], db_cell_schema = Some 1\<rparr>"

theorem open_store_by_stamp_witness:
  "\<exists>e. open_store ''cells'' demo_lost_table = (Inl e, demo_lost_table)"
proof -
  obtain s where s: "STORES_BY_NAME ''cells'' = Some s" "ss_tables s = [''cells'', ''cell_events'']"
    by (simp add: STORES_BY_NAME_def FACTORY_STORES_def)
  then have "\<not> set (ss_tables s) \<subseteq> set (db_tables demo_lost_table)" "db_version demo_lost_table = 1"
    by (simp_all add: demo_lost_table_def)
  with open_store_by_stamp[OF s(1), of demo_lost_table] show ?thesis by simp
qed

section \<open>Inspection and opening agree\<close>

text \<open>A present store that the inspection calls usable opens, unless it is an unstamped Cell store with newer
  rows or carries a negative stamp, which only the opening looks at.\<close>

lemma usable_store_opens:
  assumes "STORES_BY_NAME name = Some s" and "usable (inspect_sqlite s (Some db))"
    and "0 \<le> db_version db" and "case db_cell_schema db of None \<Rightarrow> True | Some h \<Rightarrow> h \<le> CELL_ROW_SCHEMA_VERSION"
  shows "opens s db"
  using assms(2,3) assms(4)[unfolded CELL_ROW_SCHEMA_VERSION_def] store_named[OF assms(1)]
  by (auto simp: usable_def inspect_sqlite_def mk_status_def opens_def missing_tables_Nil
      split: if_splits)

lemma assert_compatible_present:
  assumes "assert_compatible True files dir = Inr sts" and "s \<in> set FACTORY_STORES" and "ss_kind s = Sqlite"
  shows "\<exists>db. files (ss_name s) = Some db \<and> usable (inspect_sqlite s (Some db))"
proof -
  let ?st = "inspect_store files dir s"
  have "?st \<in> set (inspect_state_root files dir)" using assms(2) by (simp add: inspect_state_root_def)
  then have "usable ?st" "st_status ?st \<noteq> Absent"
    using assms(1) by (auto simp: assert_compatible_def compat_problems_def filter_empty_conv Let_def split: if_splits)
  with assms(3) show ?thesis
    by (cases "files (ss_name s)") (auto simp: inspect_store_def inspect_sqlite_def mk_status_def)
qed

end
