(* ===== verification/Recovery.thy ===== *)
theory Recovery
  imports Idempotency
begin

text \<open>
  Recovery decisions for durable external mutations (\<open>src/src/swfactory/operation_recovery.py\<close>), and
  the rows of the operation journal as the dictionaries \<open>OperationJournal.get\<close> hands to it.

  \<open>plan_recovery\<close> reads a decoded row: every \<open>operation.get(...)\<close> is a lookup in a JSON document, and
  \<open>rep\<close> is \<open>str\<close> of a float, a list or a dict. The clock is a parameter.

  The lemmas show when a retry may be planned at all, that every row of the journal gets a decision,
  and what that decision is.
\<close>

datatype recovery_action = RCommitted | Observe | Retry | Wait | Refuse | Dead

fun action_str :: "recovery_action \<Rightarrow> string" where
  "action_str RCommitted = ''committed''"
| "action_str Observe = ''observe''"
| "action_str Retry = ''retry''"
| "action_str Wait = ''wait''"
| "action_str Refuse = ''refuse''"
| "action_str Dead = ''dead''"

datatype recovery_error = RecoveryValueError string

record recovery_target =
  rt_kind :: string
  rt_identity :: "(string \<times> string) list"

definition canonical_target :: "recovery_target \<Rightarrow> recovery_error + json" where
  "canonical_target t =
     (if py_strip (rt_kind t) = [] then Inl (RecoveryValueError ''kind'')
      else let identity = filter (\<lambda>(k, v). py_strip k \<noteq> [] \<and> py_strip v \<noteq> []) (sort_key fst (rt_identity t)) in
           if identity = [] then Inl (RecoveryValueError ''identity'')
           else Inr (JObj [(''kind'', JStr (py_strip (rt_kind t))),
                           (''identity'', JObj (map (\<lambda>(k, v). (k, JStr v)) identity))]))"

definition target_digest :: "(real \<Rightarrow> string) \<Rightarrow> recovery_target \<Rightarrow> recovery_error + string" where
  "target_digest fr t =
     (case canonical_target t of
        Inl e \<Rightarrow> Inl e
      | Inr v \<Rightarrow> Inr (''target:'' @ sha256_hex (jdumps True fr (jcanon v))))"

record recovery_decision =
  rd_key :: string
  rd_action :: recovery_action
  rd_reason :: string
  rd_target :: "recovery_target option"
  rd_retry_at :: "real option"

definition decide :: "string \<Rightarrow> recovery_action \<Rightarrow> string \<Rightarrow> recovery_target option \<Rightarrow> recovery_decision" where
  "decide k a reason t = \<lparr>rd_key = k, rd_action = a, rd_reason = reason, rd_target = t, rd_retry_at = None\<rparr>"

definition decision_dict :: "recovery_decision \<Rightarrow> recovery_error + json" where
  "decision_dict d =
     (let doc = (\<lambda>t. JObj [(''operation_key'', JStr (rd_key d)), (''action'', JStr (action_str (rd_action d))),
                          (''reason'', JStr (rd_reason d)), (''target'', t),
                          (''retry_at'', (case rd_retry_at d of None \<Rightarrow> JNull | Some r \<Rightarrow> JReal r))]) in
      case rd_target d of
        None \<Rightarrow> Inr (doc JNull)
      | Some t \<Rightarrow> (case canonical_target t of Inl e \<Rightarrow> Inl e | Inr v \<Rightarrow> Inr (doc v)))"

text \<open>\<open>isinstance(v, (int, float))\<close>, which a boolean satisfies too, with the number it stands for.\<close>

fun as_number :: "json \<Rightarrow> real option" where
  "as_number (JInt i) = Some (of_int i)"
| "as_number (JReal r) = Some r"
| "as_number (JBool b) = Some (if b then 1 else 0)"
| "as_number v = None"

definition target_of :: "(json \<Rightarrow> string) \<Rightarrow> json \<Rightarrow> recovery_error + recovery_target option" where
  "target_of rep operation =
     (case jget0 ''target'' operation of
        JObj raw \<Rightarrow>
          (let kind = py_strip (py_str rep (jget_or ''kind'' (JStr []) (JObj raw))) in
           case jget0 ''identity'' (JObj raw) of
             JObj identity \<Rightarrow>
               if kind = [] then Inr None
               else let t = \<lparr>rt_kind = kind, rt_identity = map (\<lambda>(k, v). (k, py_str rep v)) identity\<rparr> in
                    (case canonical_target t of Inl e \<Rightarrow> Inl e | Inr _ \<Rightarrow> Inr (Some t))
           | _ \<Rightarrow> Inr None)
      | _ \<Rightarrow> Inr None)"

definition observed_status :: "(json \<Rightarrow> string) \<Rightarrow> json \<Rightarrow> string" where
  "observed_status rep operation =
     (case jget0 ''observation'' operation of
        JObj kvs \<Rightarrow> casefold (py_str rep (py_or (jget0 ''status'' (JObj kvs)) (JStr [])))
      | _ \<Rightarrow> [])"

definition row_state :: "(json \<Rightarrow> string) \<Rightarrow> json \<Rightarrow> string" where
  "row_state rep operation =
     casefold (py_str rep (py_or (py_or (jget0 ''state'' operation) (jget0 ''status'' operation)) (JStr ''pending'')))"

definition max_attempts_of :: "(json \<Rightarrow> string) \<Rightarrow> json \<Rightarrow> json" where
  "max_attempts_of rep operation =
     (case jget0 ''max_attempts'' operation of
        JNull \<Rightarrow> JInt (rb_max_attempts (budget_for (py_str rep (py_or (jget0 ''kind'' operation) (JStr [])))))
      | v \<Rightarrow> v)"

text \<open>The part of \<open>plan_recovery\<close> after the target was read, for the integers the budget check needs.\<close>

definition plan_attempt ::
  "(json \<Rightarrow> string) \<Rightarrow> json \<Rightarrow> string \<Rightarrow> string \<Rightarrow> recovery_target option \<Rightarrow> recovery_decision" where
  "plan_attempt rep operation key state target =
     (case (jget_or ''attempts'' (JInt 0) operation, max_attempts_of rep operation) of
        (JInt attempts, JInt max_attempts) \<Rightarrow>
          if attempts \<ge> max_attempts then decide key Dead ''retry_budget_exhausted'' target
          else
            let observed = observed_status rep operation;
                outcome = casefold (py_str rep (py_or (jget0 ''outcome'' operation) (JStr [])));
                replay_safe = jget0 ''replay_safe'' operation in
            if state \<in> set [''ambiguous'', ''observing'', ''in_doubt''] \<or> ''ambiguous'' \<in> set [outcome, observed]
            then decide key Observe ''must_observe_before_retry'' target
            else if attempts > 0 \<and> observed = ''definitely_absent'' \<and> \<not> py_truthy replay_safe
            then decide key Refuse ''replay_not_safe'' target
            else if attempts > 0 \<and> observed \<noteq> ''definitely_absent''
            then decide key Observe ''must_observe_before_retry'' target
            else decide key Retry ''retryable_pending_operation'' target
      | _ \<Rightarrow> decide key Dead ''invalid_retry_budget'' target)"

definition plan_recovery ::
  "(json \<Rightarrow> string) \<Rightarrow> json \<Rightarrow> int \<Rightarrow> time \<Rightarrow> recovery_error + recovery_decision" where
  "plan_recovery rep operation current_epoch clock =
     (let key = py_strip (py_str rep (jget_or ''operation_key'' (JStr []) operation)) in
      if key = [] then Inl (RecoveryValueError ''operation_key'')
      else case jget0 ''epoch'' operation of
        JInt epoch \<Rightarrow>
          if epoch < 1 then Inr (decide key Dead ''invalid_epoch'' None)
          else if epoch \<noteq> current_epoch then Inr (decide key Refuse ''stale_epoch'' None)
          else
            let state = row_state rep operation in
            if state \<in> set [''committed'', ''success'', ''done''] then Inr (decide key RCommitted ''already_committed'' None)
            else if state \<in> set [''refused'', ''divergent'', ''dead'', ''exhausted''] then Inr (decide key Dead state None)
            else
              (case as_number (jget0 ''next_attempt_at'' operation) of
                 Some t \<Rightarrow>
                   if t > clock then Inr ((decide key Wait ''backoff'' None)\<lparr>rd_retry_at := Some t\<rparr>)
                   else (case target_of rep operation of
                           Inl e \<Rightarrow> Inl e
                         | Inr target \<Rightarrow> Inr (plan_attempt rep operation key state target))
               | None \<Rightarrow> (case target_of rep operation of
                           Inl e \<Rightarrow> Inl e
                         | Inr target \<Rightarrow> Inr (plan_attempt rep operation key state target)))
      | _ \<Rightarrow> Inr (decide key Dead ''invalid_epoch'' None))"

section \<open>Rows of the journal\<close>

text \<open>\<open>dict(row)\<close> as \<open>OperationJournal.get\<close> and \<open>unresolved\<close> return it, columns in table order, with the two
  JSON columns decoded at the end.\<close>

definition jreal_opt :: "real option \<Rightarrow> json" where
  "jreal_opt x = (case x of None \<Rightarrow> JNull | Some r \<Rightarrow> JReal r)"

definition observation_json :: "op_row \<Rightarrow> json" where
  "observation_json r =
     (case op_observation r of
        None \<Rightarrow> JNull
      | Some (st, ev, detail) \<Rightarrow>
          JObj [(''detail'', jopt detail), (''evidence'', ev), (''status'', JStr (status_str st))])"

definition row_dict :: "op_row \<Rightarrow> json" where
  "row_dict r =
     JObj [(''operation_key'', JStr (op_key r)), (''cell_id'', JStr (op_cell r)), (''epoch'', JInt (op_epoch r)),
           (''kind'', JStr (op_kind r)), (''state'', JStr (state_str (op_state r))),
           (''updated_at'', JReal (op_updated_at r)), (''attempts'', JInt (op_attempts r)),
           (''last_error'', jopt (op_last_error r)), (''next_attempt_at'', jreal_opt (op_next_attempt_at r)),
           (''intent_digest'', jopt (op_intent_digest r)), (''attempt_owner'', jopt (op_owner r)),
           (''attempt_lease_until'', jreal_opt (op_lease_until r)),
           (''replay_safe'', (case op_replay_safe r of None \<Rightarrow> JNull | Some b \<Rightarrow> JInt (if b then 1 else 0))),
           (''max_attempts'', (case op_max_attempts r of None \<Rightarrow> JNull | Some m \<Rightarrow> JInt m)),
           (''result'', row_result r), (''observation'', observation_json r)]"

section \<open>When a retry is planned\<close>

lemma plan_attempt_Retry:
  assumes "rd_action (plan_attempt rep operation key state target) = Retry"
  shows "\<exists>a m. jget_or ''attempts'' (JInt 0) operation = JInt a \<and> max_attempts_of rep operation = JInt m \<and> a < m
      \<and> state \<notin> set [''ambiguous'', ''observing'', ''in_doubt'']
      \<and> (a \<le> 0 \<or> (observed_status rep operation = ''definitely_absent'' \<and> py_truthy (jget0 ''replay_safe'' operation)))"
proof -
  obtain a m where am: "jget_or ''attempts'' (JInt 0) operation = JInt a" "max_attempts_of rep operation = JInt m"
    using assms by (auto simp: plan_attempt_def decide_def split: json.splits)
  then show ?thesis using assms by (auto simp: plan_attempt_def decide_def Let_def split: if_splits)
qed

text \<open>C34: whatever document it is given, \<open>plan_recovery\<close> plans a retry only for an operation of the current
  epoch, out of its backoff and within its budget, that has never been attempted or whose last
  observation proved the effect absent while the operation is replay-safe; an operation in doubt is
  never retried.\<close>

theorem retry_only_when_safe:
  assumes "plan_recovery rep operation current_epoch clock = Inr d" and "rd_action d = Retry"
  shows "jget0 ''epoch'' operation = JInt current_epoch \<and> 1 \<le> current_epoch
    \<and> row_state rep operation \<notin> set [''committed'', ''success'', ''done'', ''refused'', ''divergent'', ''dead'', ''exhausted'',
                                    ''ambiguous'', ''observing'', ''in_doubt'']
    \<and> \<not> (\<exists>t. as_number (jget0 ''next_attempt_at'' operation) = Some t \<and> clock < t)
    \<and> (\<exists>a m. jget_or ''attempts'' (JInt 0) operation = JInt a \<and> max_attempts_of rep operation = JInt m \<and> a < m
        \<and> (a \<le> 0 \<or> (observed_status rep operation = ''definitely_absent'' \<and> py_truthy (jget0 ''replay_safe'' operation))))"
proof -
  obtain epoch where e: "jget0 ''epoch'' operation = JInt epoch"
    using assms by (auto simp: plan_recovery_def decide_def Let_def split: json.splits if_splits)
  with assms have c: "epoch = current_epoch" "1 \<le> epoch"
    "row_state rep operation \<notin> set [''committed'', ''success'', ''done'', ''refused'', ''divergent'', ''dead'', ''exhausted'']"
    "\<not> (\<exists>t. as_number (jget0 ''next_attempt_at'' operation) = Some t \<and> clock < t)"
    by (auto simp: plan_recovery_def decide_def Let_def split: if_splits option.splits)
  obtain key target where p: "d = plan_attempt rep operation key (row_state rep operation) target"
    using assms(1) c e by (auto simp: plan_recovery_def Let_def split: if_splits option.splits sum.splits)
  from plan_attempt_Retry[of rep operation key "row_state rep operation" target] assms(2) p c e
  show ?thesis by auto
qed

section \<open>The decision for a row of the journal\<close>

definition row_budget :: "op_row \<Rightarrow> int" where
  "row_budget r = (case op_max_attempts r of Some m \<Rightarrow> m | None \<Rightarrow> rb_max_attempts (budget_for (op_kind r)))"

definition row_observed :: "op_row \<Rightarrow> outcome_status option" where
  "row_observed r = map_option fst (op_observation r)"

definition row_action :: "int \<Rightarrow> time \<Rightarrow> op_row \<Rightarrow> recovery_action" where
  "row_action current_epoch clock r =
     (if op_epoch r < 1 then Dead
      else if op_epoch r \<noteq> current_epoch then Refuse
      else case op_state r of
        Committed \<Rightarrow> RCommitted
      | Refused \<Rightarrow> Dead
      | Exhausted \<Rightarrow> Dead
      | st \<Rightarrow>
          if (case op_next_attempt_at r of None \<Rightarrow> False | Some t \<Rightarrow> t > clock) then Wait
          else if op_attempts r \<ge> row_budget r then Dead
          else if st = InDoubt \<or> row_observed r = Some Ambiguous then Observe
          else if op_attempts r \<le> 0 then Retry
          else if row_observed r \<noteq> Some DefinitelyAbsent then Observe
          else if op_replay_safe r = Some True then Retry else Refuse)"

lemma row_dict_get [simp]:
  "jget_or ''operation_key'' d (row_dict r) = JStr (op_key r)" "jget_or ''epoch'' d (row_dict r) = JInt (op_epoch r)"
  "jget_or ''kind'' d (row_dict r) = JStr (op_kind r)" "jget_or ''state'' d (row_dict r) = JStr (state_str (op_state r))"
  "jget_or ''status'' d (row_dict r) = d" "jget_or ''outcome'' d (row_dict r) = d" "jget_or ''target'' d (row_dict r) = d"
  "jget_or ''attempts'' d (row_dict r) = JInt (op_attempts r)"
  "jget_or ''next_attempt_at'' d (row_dict r) = jreal_opt (op_next_attempt_at r)"
  "jget_or ''replay_safe'' d (row_dict r) = (case op_replay_safe r of None \<Rightarrow> JNull | Some b \<Rightarrow> JInt (if b then 1 else 0))"
  "jget_or ''max_attempts'' d (row_dict r) = (case op_max_attempts r of None \<Rightarrow> JNull | Some m \<Rightarrow> JInt m)"
  "jget_or ''observation'' d (row_dict r) = observation_json r"
  by (simp_all add: row_dict_def jget_or_def)

lemma observation_status:
  "jget0 ''status'' (JObj [(''detail'', a), (''evidence'', b), (''status'', c)]) = c"
  by (simp add: jget_or_def)

lemma state_str_eqs:
  "state_str st \<noteq> ''ambiguous''" "state_str st \<noteq> ''observing''" "state_str st = ''in_doubt'' \<longleftrightarrow> st = InDoubt"
  by (cases st; simp)+

lemma row_state_row: "row_state rep (row_dict r) = state_str (op_state r)"
  by (cases "op_state r") (simp_all add: row_state_def py_or_def casefold_def to_lower_def)

lemma observed_status_row:
  "observed_status rep (row_dict r) = (case row_observed r of None \<Rightarrow> [] | Some st \<Rightarrow> status_str st)"
proof (cases "op_observation r")
  case (Some ob)
  obtain st ev dt where "ob = (st, ev, dt)" by (cases ob)
  with Some show ?thesis
    by (cases st) (simp_all add: observed_status_def row_observed_def observation_json_def observation_status py_or_def
        casefold_def to_lower_def)
qed (simp add: observed_status_def row_observed_def observation_json_def)

lemma max_attempts_row: "max_attempts_of rep (row_dict r) = JInt (row_budget r)"
proof -
  have "budget_for (py_str rep (py_or (JStr (op_kind r)) (JStr []))) = budget_for (op_kind r)" by (simp add: py_or_def)
  then show ?thesis by (simp add: max_attempts_of_def row_budget_def split: option.splits)
qed

lemma target_of_row: "target_of rep (row_dict r) = Inr None"
  by (simp add: target_of_def)

lemma observed_eq:
  "observed_status rep (row_dict r) = ''ambiguous'' \<longleftrightarrow> row_observed r = Some Ambiguous"
  "observed_status rep (row_dict r) = ''definitely_absent'' \<longleftrightarrow> row_observed r = Some DefinitelyAbsent"
  "''ambiguous'' = observed_status rep (row_dict r) \<longleftrightarrow> row_observed r = Some Ambiguous"
proof -
  have "status_str st = ''ambiguous'' \<longleftrightarrow> st = Ambiguous" "status_str st = ''definitely_absent'' \<longleftrightarrow> st = DefinitelyAbsent" for st
    by (cases st; simp)+
  then show "observed_status rep (row_dict r) = ''ambiguous'' \<longleftrightarrow> row_observed r = Some Ambiguous"
    "observed_status rep (row_dict r) = ''definitely_absent'' \<longleftrightarrow> row_observed r = Some DefinitelyAbsent"
    by (cases "row_observed r"; simp add: observed_status_row)+
  then show "''ambiguous'' = observed_status rep (row_dict r) \<longleftrightarrow> row_observed r = Some Ambiguous" by metis
qed

lemma plan_attempt_row:
  "rd_action (plan_attempt rep (row_dict r) key (state_str (op_state r)) None) =
     (if op_attempts r \<ge> row_budget r then Dead
      else if op_state r = InDoubt \<or> row_observed r = Some Ambiguous then Observe
      else if op_attempts r \<le> 0 then Retry
      else if row_observed r \<noteq> Some DefinitelyAbsent then Observe
      else if op_replay_safe r = Some True then Retry else Refuse)"
proof -
  have "casefold (py_str rep (py_or JNull (JStr []))) = []"
    by (simp add: py_or_def casefold_def)
  moreover have "py_truthy (case op_replay_safe r of None \<Rightarrow> JNull | Some b \<Rightarrow> JInt (if b then 1 else 0))
      \<longleftrightarrow> op_replay_safe r = Some True"
    by (cases "op_replay_safe r") simp_all
  ultimately show ?thesis
    by (auto simp: plan_attempt_def max_attempts_row observed_eq state_str_eqs decide_def Let_def)
qed

lemma plan_recovery_row:
  assumes "py_strip (op_key r) \<noteq> []"
  shows "\<exists>d. plan_recovery rep (row_dict r) current_epoch clock = Inr d
           \<and> rd_action d = row_action current_epoch clock r \<and> rd_target d = None"
proof -
  have n: "as_number (jreal_opt (op_next_attempt_at r)) = op_next_attempt_at r"
    by (cases "op_next_attempt_at r") (simp_all add: jreal_opt_def)
  have t: "rd_target (plan_attempt rep (row_dict r) key st None) = None" for key st
    by (simp add: plan_attempt_def decide_def Let_def split: json.splits)
  note plan_attempt_row[of rep r "py_strip (op_key r)"]
  then show ?thesis using assms
    by (cases "op_state r")
       (auto simp: plan_recovery_def row_action_def row_state_row target_of_row n t decide_def Let_def split: option.splits)
qed

text \<open>\<open>plan_recovery\<close> on a row the journal returns never raises and decides as the table above: the
  decision depends on the epoch, the state, the backoff, the budget, the last observation and the replay
  policy of the row, and on nothing else in it.\<close>

theorem plan_recovery_journal_row:
  assumes "py_strip (op_key r) \<noteq> []"
  shows "\<exists>d. plan_recovery rep (row_dict r) current_epoch clock = Inr d
           \<and> rd_action d = row_action current_epoch clock r \<and> rd_target d = None"
  using assms by (rule plan_recovery_row)

text \<open>The decision does not look at the claim of a running attempt, and \<open>start_attempt\<close> keeps the observation
  that preceded it: while an attempt that followed a \<open>definitely_absent\<close> observation is in progress, the
  plan is another retry, which the journal refuses.\<close>

lemma live_attempt_planned_retry:
  assumes "get_op (ref_key ref) j = Some r" and "identity_ok ref r None"
    and "op_owner r = Some w" and "op_lease_until r = Some t" and "clock < t" and "op_state r = Intent"
    and "op_next_attempt_at r = None" and "op_attempts r < row_budget r"
    and "row_observed r = Some DefinitelyAbsent" and "op_replay_safe r = Some True"
  shows "(\<exists>d. plan_recovery rep (row_dict r) (op_epoch r) clock = Inr d \<and> rd_action d = Retry)
    \<and> start_attempt ref budget lease_s owner clock j = (Inl (OperationInDoubt ''attempt_in_progress''), j)"
proof -
  have key: "op_key r = ref_key ref" "op_epoch r = ref_epoch ref" "valid_ref ref"
    using assms(1,2) get_op_in by (auto simp: identity_ok_def)
  then have "py_strip (op_key r) \<noteq> []" "1 \<le> op_epoch r" by (simp_all add: valid_ref_def)
  moreover have "row_action (op_epoch r) clock r = Retry"
    using assms \<open>1 \<le> op_epoch r\<close> by (simp add: row_action_def)
  moreover have "start_attempt ref budget lease_s owner clock j = (Inl (OperationInDoubt ''attempt_in_progress''), j)"
    using assms by (simp add: start_attempt_unfold)
  ultimately show ?thesis using plan_recovery_row[of r rep "op_epoch r" clock] by auto
qed

section \<open>Examples\<close>

definition demo_absent :: op_row where
  "demo_absent = demo_row\<lparr>op_state := Reconciling, op_attempts := 1,
     op_observation := Some (DefinitelyAbsent, JNull, None)\<rparr>"

lemma demo_absent_key: "py_strip (op_key demo_absent) \<noteq> []"
  by code_simp

lemma demo_absent_action: "row_action 1 0 demo_absent = Retry" "row_action 2 0 demo_absent = Refuse"
  by (simp_all add: row_action_def demo_absent_def demo_row_def new_op_def demo_ref_def row_budget_def row_observed_def)

theorem plan_recovery_journal_row_witness:
  "\<exists>d. plan_recovery (\<lambda>_. []) (row_dict demo_absent) 1 0 = Inr d \<and> rd_action d = Retry \<and> rd_target d = None"
  using plan_recovery_journal_row[OF demo_absent_key, of "\<lambda>_. []" 1 0] by (simp add: demo_absent_action)

theorem retry_only_when_safe_witness:
  "observed_status (\<lambda>_. []) (row_dict demo_absent) = ''definitely_absent''"
proof -
  obtain d where d: "plan_recovery (\<lambda>_. []) (row_dict demo_absent) 1 0 = Inr d" "rd_action d = Retry"
    using plan_recovery_row[OF demo_absent_key, of "\<lambda>_. []" 1 0] by (auto simp: demo_absent_action)
  have "op_attempts demo_absent = 1" by (simp add: demo_absent_def)
  then show ?thesis using retry_only_when_safe[OF d] by auto
qed

end
