(* ===== verification/SecurityContract.thy ===== *)
theory SecurityContract
  imports Paths Cells
begin

text \<open>
  Trust and authority contracts: the authority map of \<open>src/src/swfactory/authority.py\<close>, and the
  policy, mutation envelope, capability and redaction contracts of
  \<open>src/src/swfactory/security_contract.py\<close>.

  \<^item> \<open>rule_for\<close> and \<open>validate_authority\<close> are the single-authority map and its check of a mutation.
  \<^item> \<open>canonical_policy\<close>, \<open>policy_digest_for_mapping\<close>, \<open>policy_digest_family\<close> and
    \<open>require_current_policy_digest\<close> are the policy coordinate system; \<open>fr\<close> is the text of a float, and
    the revision of the autonomy policy file is a parameter of \<open>for_factory_job\<close>.
  \<^item> \<open>redact\<close> works on JSON values (Python's lists and tuples are both arrays). The secret token patterns
    are sequences of single characters, repetitions of a class and word boundaries, and \<open>rx_sub\<close> is
    \<open>Pattern.sub\<close> for them: leftmost matches, greedy repetitions with backtracking.
\<close>

section \<open>Authority\<close>

datatype resource_kind =
    CELL | AIRFLOW_RUN | SANDBOX | GITHUB_PUBLICATION | MODEL_CALL | CLEANUP | ADMISSION | EVIDENCE | GENERATION

fun resource_str :: "resource_kind \<Rightarrow> string" where
  "resource_str CELL = ''cell''"
| "resource_str AIRFLOW_RUN = ''airflow_run''"
| "resource_str SANDBOX = ''sandbox''"
| "resource_str GITHUB_PUBLICATION = ''github_publication''"
| "resource_str MODEL_CALL = ''model_call''"
| "resource_str CLEANUP = ''cleanup''"
| "resource_str ADMISSION = ''admission''"
| "resource_str EVIDENCE = ''evidence''"
| "resource_str GENERATION = ''generation''"

record authority_rule =
  ar_resource :: resource_kind
  ar_owner :: string
  ar_fence :: string
  ar_truth :: string

definition rule :: "resource_kind \<Rightarrow> string \<Rightarrow> string \<Rightarrow> string \<Rightarrow> authority_rule" where
  "rule r ow f t = \<lparr>ar_resource = r, ar_owner = ow, ar_fence = f, ar_truth = t\<rparr>"

definition RULES :: "authority_rule list" where
  "RULES =
     [rule CELL ''python-backend'' ''cell_epoch'' ''CellStore'',
      rule AIRFLOW_RUN ''airflow'' ''dag_run_id'' ''Airflow metadata DB'',
      rule SANDBOX ''python-backend'' ''cell_epoch'' ''provider receipt'',
      rule GITHUB_PUBLICATION ''python-backend'' ''operation_key'' ''operation journal'',
      rule MODEL_CALL ''python-backend'' ''operation_key'' ''operation journal'',
      rule CLEANUP ''python-backend'' ''cell_epoch'' ''cleanup receipt'',
      rule ADMISSION ''python-backend'' ''work_id'' ''admission store'',
      rule EVIDENCE ''python-backend'' ''cell_epoch'' ''evidence bundle'',
      rule GENERATION ''python-backend'' ''generation_id'' ''generation manifest'']"

definition rule_for :: "resource_kind \<Rightarrow> authority_rule option" where
  "rule_for r = List.find (\<lambda>x. ar_resource x = r) RULES"

definition validate_manifest :: bool where
  "validate_manifest =
     (distinct (map ar_resource RULES) \<and> map_option ar_owner (rule_for AIRFLOW_RUN) = Some ''airflow'')"

record mutation_authority =
  ma_resource :: resource_kind
  ma_actor :: string
  ma_cell_id :: string
  ma_epoch :: int
  ma_operation_key :: string

datatype authority_error = NonPositiveEpoch | StaleAuthority | WrongActor string | NoCellId | NoOperationKey | NoRule

definition validate_authority :: "mutation_authority \<Rightarrow> int \<Rightarrow> string option \<Rightarrow> authority_error option" where
  "validate_authority m current_epoch allowed_actor =
     (if ma_epoch m < 1 then Some NonPositiveEpoch
      else if ma_epoch m \<noteq> current_epoch then Some StaleAuthority
      else
        let owner = (case allowed_actor of
                       Some a \<Rightarrow> if a \<noteq> [] then Some a else map_option ar_owner (rule_for (ma_resource m))
                     | None \<Rightarrow> map_option ar_owner (rule_for (ma_resource m))) in
        case owner of
          None \<Rightarrow> Some NoRule
        | Some ow \<Rightarrow>
            if ma_actor m \<noteq> ow then Some (WrongActor ow)
            else if \<not> is_cell_id (ma_cell_id m) then Some NoCellId
            else if py_strip (ma_operation_key m) = [] then Some NoOperationKey
            else None)"

section \<open>Policy\<close>

definition POLICY_SCHEMA_VERSION :: int where
  "POLICY_SCHEMA_VERSION = 1"

definition POLICY_DIGEST_PREFIX :: string where
  "POLICY_DIGEST_PREFIX = ''policy:v'' @ int_str POLICY_SCHEMA_VERSION @ '':''"

definition POLICY_MAX_EXACT_INTEGER :: int where
  "POLICY_MAX_EXACT_INTEGER = 2 ^ 53 - 1"

datatype contract_error = ContractError string

record canonical_policy =
  cp_repo :: string
  cp_target :: string
  cp_protected_paths :: "string list"
  cp_allowed_domains :: "string list"
  cp_sandbox_provider :: "string option"
  cp_sandbox_credentials :: "string list"
  cp_publication_backend_only :: bool
  cp_metadata :: "(string \<times> string) list"
  cp_schema_version :: int

definition sorted_set :: "string list \<Rightarrow> string list" where
  "sorted_set xs = sort (remdups xs)"

text \<open>A dict comprehension over pairs: the last value of a key wins and the first position is kept.\<close>

fun dict_of :: "(string \<times> string) list \<Rightarrow> (string \<times> string) list \<Rightarrow> (string \<times> string) list" where
  "dict_of acc [] = acc"
| "dict_of acc ((k, v) # kvs) =
     dict_of (if k \<in> set (map fst acc) then map (\<lambda>(k', v'). if k' = k then (k', v) else (k', v')) acc
              else acc @ [(k, v)]) kvs"

definition jstrs :: "string list \<Rightarrow> json" where
  "jstrs xs = JArr (map JStr xs)"

definition sort_pairs :: "(string \<times> string) list \<Rightarrow> (string \<times> string) list" where
  "sort_pairs kvs = sort_key fst (sort_key snd kvs)"

definition canonical_dict :: "canonical_policy \<Rightarrow> json" where
  "canonical_dict p =
     JObj [(''schema_version'', JInt (cp_schema_version p)),
           (''repo'', JStr (py_strip (cp_repo p))),
           (''target'', JStr (py_strip (cp_target p))),
           (''protected_paths'', jstrs (sorted_set (filter (\<lambda>s. s \<noteq> []) (map py_strip (cp_protected_paths p))))),
           (''allowed_domains'', jstrs (sorted_set (map casefold (filter (\<lambda>s. s \<noteq> []) (map py_strip (cp_allowed_domains p)))))),
           (''sandbox_provider'', jopt (cp_sandbox_provider p)),
           (''sandbox_credentials'', jstrs (sorted_set (cp_sandbox_credentials p))),
           (''publication_backend_only'', JBool (cp_publication_backend_only p)),
           (''metadata'', JObj (map (\<lambda>(k, v). (k, JStr v)) (dict_of [] (sort_pairs (cp_metadata p)))))]"

definition for_factory_job ::
  "(json \<Rightarrow> string) \<Rightarrow> string \<Rightarrow> string \<Rightarrow> json \<Rightarrow> contract_error + canonical_policy" where
  "for_factory_job rep autonomy_revision line_name job =
     (let line = py_strip line_name;
          repo = py_strip (py_str rep (jget_or ''repo'' (JStr []) job)) in
      case Paths.cell_target rep job of
        Inl (PathError e) \<Rightarrow> Inl (ContractError e)
      | Inr target \<Rightarrow>
          (let sb = py_strip (py_str rep (jget_or ''sandbox'' (JStr ''configured'') job));
               sandbox = (if sb = [] then ''configured'' else sb) in
           if line = [] then Inl (ContractError ''line'')
           else if repo = [] then Inl (ContractError ''repo'')
           else Inr \<lparr>cp_repo = repo, cp_target = target, cp_protected_paths = [], cp_allowed_domains = [],
                     cp_sandbox_provider = Some sandbox, cp_sandbox_credentials = [], cp_publication_backend_only = True,
                     cp_metadata = (''line'', line) # (if line = ''autonomous'' then [(''autonomy_revision'', autonomy_revision)] else []),
                     cp_schema_version = POLICY_SCHEMA_VERSION\<rparr>))"

text \<open>\<open>_canonical_value\<close> on a JSON document: exact integers and floats in range, mappings sorted.\<close>

fun in_exact_range :: "json \<Rightarrow> bool" where
  "in_exact_range (JInt i) = (\<bar>i\<bar> \<le> POLICY_MAX_EXACT_INTEGER)"
| "in_exact_range (JReal r) = (\<bar>r\<bar> \<le> of_int POLICY_MAX_EXACT_INTEGER)"
| "in_exact_range (JArr xs) = (\<forall>x\<in>set xs. in_exact_range x)"
| "in_exact_range (JObj kvs) = (\<forall>kv\<in>set kvs. in_exact_range (snd kv))"
| "in_exact_range v = True"

definition canonical_value :: "json \<Rightarrow> contract_error + json" where
  "canonical_value v = (if in_exact_range v then Inr (jcanon v) else Inl (ContractError ''exact range''))"

definition policy_digest_for_mapping :: "(real \<Rightarrow> string) \<Rightarrow> json \<Rightarrow> contract_error + string" where
  "policy_digest_for_mapping fr policy =
     (case canonical_value policy of
        Inl e \<Rightarrow> Inl e
      | Inr v \<Rightarrow> Inr (POLICY_DIGEST_PREFIX
                  @ sha256_hex (''v'' @ int_str POLICY_SCHEMA_VERSION @ NUL @ jdumps False fr v)))"

definition policy_digest :: "(real \<Rightarrow> string) \<Rightarrow> canonical_policy \<Rightarrow> contract_error + string" where
  "policy_digest fr p = policy_digest_for_mapping fr (canonical_dict p)"

definition hex64 :: "string \<Rightarrow> bool" where
  "hex64 s = (length s = 64 \<and> list_all is_hex s)"

definition is_digit_char :: "char \<Rightarrow> bool" where
  "is_digit_char c = (c \<in> set ''0123456789'')"

fun digits_value :: "nat \<Rightarrow> string \<Rightarrow> nat" where
  "digits_value acc [] = acc"
| "digits_value acc (c # cs) = digits_value (10 * acc + (of_char c - 48)) cs"

text \<open>The two \<open>re.fullmatch\<close> calls: the unmarked family, and a version number without leading zero.\<close>

definition policy_digest_family :: "string \<Rightarrow> contract_error + nat" where
  "policy_digest_family d =
     (if startswith d ''policy:'' \<and> hex64 (drop 7 d) then Inr 0
      else if startswith d ''policy:v'' then
        let ver = takeWhile is_digit_char (drop 8 d); rest = dropWhile is_digit_char (drop 8 d) in
        if ver \<noteq> [] \<and> hd ver \<noteq> CHR ''0'' \<and> startswith rest '':'' \<and> hex64 (drop 1 rest) then Inr (digits_value 0 ver)
        else Inl (ContractError ''policy digest'')
      else Inl (ContractError ''policy digest''))"

definition require_current_policy_digest :: "string \<Rightarrow> contract_error + unit" where
  "require_current_policy_digest d =
     (case policy_digest_family d of
        Inl e \<Rightarrow> Inl e
      | Inr family \<Rightarrow> if int family \<noteq> POLICY_SCHEMA_VERSION then Inl (ContractError ''policy family'') else Inr ())"

section \<open>Envelope and capabilities\<close>

record mutation_envelope =
  me_cell_id :: string
  me_epoch :: int
  me_operation_key :: string
  me_policy_digest :: string
  me_trace_id :: string
  me_actor :: string

definition validate_envelope :: "mutation_envelope \<Rightarrow> contract_error + unit" where
  "validate_envelope m =
     (if \<not> is_cell_id (me_cell_id m) then Inl (ContractError ''cell id'')
      else if me_epoch m < 1 then Inl (ContractError ''epoch'')
      else if me_operation_key m = [] \<or> 256 < length (me_operation_key m) then Inl (ContractError ''operation key'')
      else case require_current_policy_digest (me_policy_digest m) of
        Inl e \<Rightarrow> Inl e
      | Inr _ \<Rightarrow>
          if me_trace_id m = [] \<or> 128 < length (me_trace_id m) then Inl (ContractError ''trace id'')
          else if py_strip (me_actor m) = [] \<or> 128 < length (me_actor m) then Inl (ContractError ''actor'')
          else Inr ())"

definition envelope_dict :: "mutation_envelope \<Rightarrow> contract_error + json" where
  "envelope_dict m =
     (case validate_envelope m of
        Inl e \<Rightarrow> Inl e
      | Inr _ \<Rightarrow> Inr (JObj [(''cell_id'', JStr (me_cell_id m)), (''epoch'', JInt (me_epoch m)),
          (''operation_key'', JStr (me_operation_key m)), (''policy_digest'', JStr (me_policy_digest m)),
          (''trace_id'', JStr (me_trace_id m)), (''actor'', JStr (me_actor m)), (''schema_version'', JInt 1)]))"

datatype capability =
    READ_SOURCE | WRITE_WORKSPACE | READ_CACHE | WRITE_CACHE | USE_MODEL | PUBLISH_GIT | READ_SECRET | ADMIN_REPAIR

fun capability_str :: "capability \<Rightarrow> string" where
  "capability_str READ_SOURCE = ''read_source''"
| "capability_str WRITE_WORKSPACE = ''write_workspace''"
| "capability_str READ_CACHE = ''read_cache''"
| "capability_str WRITE_CACHE = ''write_cache''"
| "capability_str USE_MODEL = ''use_model''"
| "capability_str PUBLISH_GIT = ''publish_git''"
| "capability_str READ_SECRET = ''read_secret''"
| "capability_str ADMIN_REPAIR = ''admin_repair''"

record security_context =
  sc_tenant :: string
  sc_cell_id :: string
  sc_epoch :: int
  sc_role :: string
  sc_capabilities :: "capability list"
  sc_secret_scopes :: "string list"

definition validate_context :: "security_context \<Rightarrow> contract_error + unit" where
  "validate_context c =
     (if py_strip (sc_tenant c) = [] then Inl (ContractError ''tenant'')
      else if \<not> is_cell_id (sc_cell_id c) then Inl (ContractError ''cell id'')
      else if sc_epoch c < 1 then Inl (ContractError ''epoch'')
      else Inr ())"

definition authorize :: "security_context \<Rightarrow> capability \<Rightarrow> string \<Rightarrow> string option \<Rightarrow> contract_error + bool" where
  "authorize c cap tenant secret_scope =
     (case validate_context c of
        Inl e \<Rightarrow> Inl e
      | Inr _ \<Rightarrow>
          if tenant \<noteq> sc_tenant c then Inr False
          else if cap \<notin> set (sc_capabilities c) then Inr False
          else if cap = READ_SECRET then
            Inr (case secret_scope of None \<Rightarrow> False | Some s \<Rightarrow> s \<in> set (sc_secret_scopes c))
          else Inr True)"

section \<open>Redaction\<close>

definition REDACTED :: string where
  "REDACTED = ''[REDACTED]''"

text \<open>\<open>_SECRET_KEY.search\<close> (case-insensitive, the optional separator written out) or one of the suffixes.\<close>

definition secret_words :: "string list" where
  "secret_words = [''token'', ''secret'', ''password'', ''passwd'', ''apikey'', ''api_key'', ''api-key'',
     ''accesskey'', ''access_key'', ''access-key'', ''privatekey'', ''private_key'', ''private-key'',
     ''credential'', ''authorization'', ''cookie'']"

definition looks_secret_key :: "string \<Rightarrow> bool" where
  "looks_secret_key key =
     (list_ex (\<lambda>w. py_in w (casefold key)) secret_words
      \<or> list_ex (\<lambda>suffix. endswith (casefold key) (casefold suffix)) [''_TOKEN'', ''_SECRET'', ''_PASSWORD''])"

datatype rx_item = One "char \<Rightarrow> bool" | Many nat "char \<Rightarrow> bool" | WordB

definition is_word :: "char \<Rightarrow> bool" where
  "is_word c = (is_alnum c \<or> c = CHR ''_'')"

definition at_boundary :: "char option \<Rightarrow> string \<Rightarrow> bool" where
  "at_boundary prev s =
     ((case prev of None \<Rightarrow> False | Some c \<Rightarrow> is_word c) \<noteq> (case s of [] \<Rightarrow> False | c # _ \<Rightarrow> is_word c))"

text \<open>The first success among \<open>k, k - 1, ..., n\<close>.\<close>

fun try_down :: "(nat \<Rightarrow> 'a option) \<Rightarrow> nat \<Rightarrow> nat \<Rightarrow> 'a option" where
  "try_down f n 0 = (if n = 0 then f 0 else None)"
| "try_down f n (Suc k) =
     (if Suc k < n then None
      else case f (Suc k) of Some x \<Rightarrow> Some x | None \<Rightarrow> if Suc k = n then None else try_down f n k)"

definition last_char :: "char option \<Rightarrow> string \<Rightarrow> char option" where
  "last_char prev s = (if s = [] then prev else Some (last s))"

text \<open>The text left after a match at the start of \<open>s\<close>, whose preceding character is \<open>prev\<close>.\<close>

primrec rx_match :: "rx_item list \<Rightarrow> char option \<Rightarrow> string \<Rightarrow> string option" where
  "rx_match [] prev s = Some s"
| "rx_match (it # its) prev s =
     (case it of
        One p \<Rightarrow> (case s of [] \<Rightarrow> None | c # cs \<Rightarrow> if p c then rx_match its (Some c) cs else None)
      | WordB \<Rightarrow> if at_boundary prev s then rx_match its prev s else None
      | Many n p \<Rightarrow> try_down (\<lambda>k. rx_match its (last_char prev (take k s)) (drop k s)) n (length (takeWhile p s)))"

text \<open>\<open>Pattern.sub\<close>; every pattern of the module consumes at least one character.\<close>

function rx_sub :: "rx_item list \<Rightarrow> string \<Rightarrow> char option \<Rightarrow> string \<Rightarrow> string" where
  "rx_sub pat repl prev [] = []"
| "rx_sub pat repl prev (c # cs) =
     (case rx_match pat prev (c # cs) of
        Some rest \<Rightarrow>
          if length rest < length (c # cs)
          then repl @ rx_sub pat repl (last_char prev (take (length (c # cs) - length rest) (c # cs))) rest
          else c # rx_sub pat repl (Some c) cs
      | None \<Rightarrow> c # rx_sub pat repl (Some c) cs)"
  by pat_completeness auto
termination
  by (relation "measure (\<lambda>(pat, repl, prev, s). length s)") auto

definition lit :: "string \<Rightarrow> rx_item list" where
  "lit w = map (\<lambda>c. One (\<lambda>d. d = c)) w"

definition ilit :: "string \<Rightarrow> rx_item list" where
  "ilit w = map (\<lambda>c. One (\<lambda>d. to_lower d = to_lower c)) w"

definition TOKEN_PATTERNS :: "rx_item list list" where
  "TOKEN_PATTERNS =
     [WordB # ilit ''Bearer'' @ [Many 1 is_space, Many 1 (\<lambda>c. is_alnum c \<or> c \<in> set ''._~+/=-'')],
      lit ''gh'' @ [One (\<lambda>c. c \<in> set ''pousr'')] @ lit ''_'' @ [Many 20 is_word],
      WordB # lit ''github_pat_'' @ [Many 20 is_word, WordB],
      WordB # lit ''sk-'' @ [Many 20 (\<lambda>c. is_word c \<or> c = CHR ''-''), WordB],
      WordB # ilit ''apikey_'' @ [Many 8 is_alnum] @ ilit ''_'' @ [Many 32 (\<lambda>c. is_word c \<or> c = CHR ''-''), WordB],
      lit ''-----BEGIN '' @ [Many 0 (\<lambda>c. (is_alpha c \<and> to_lower c \<noteq> c) \<or> c = CHR '' '')] @ lit ''PRIVATE KEY-----'']"

definition redact_text :: "string \<Rightarrow> string" where
  "redact_text text = foldl (\<lambda>out pat. rx_sub pat REDACTED None out) text TOKEN_PATTERNS"

fun redact_under :: "string option \<Rightarrow> json \<Rightarrow> json" where
  "redact_under key v =
     (if (case key of None \<Rightarrow> False | Some k \<Rightarrow> looks_secret_key k) then JStr REDACTED
      else case v of
        JObj kvs \<Rightarrow> JObj (map (\<lambda>kv. (fst kv, redact_under (Some (fst kv)) (snd kv))) kvs)
      | JArr xs \<Rightarrow> JArr (map (redact_under None) xs)
      | JStr s \<Rightarrow> JStr (redact_text s)
      | _ \<Rightarrow> v)"

definition redact :: "json \<Rightarrow> json" where
  "redact v = redact_under None v"

declare redact_under.simps [simp del]

section \<open>The authority map\<close>

lemma validate_manifest_holds: "validate_manifest"
  by (simp add: validate_manifest_def RULES_def rule_def rule_for_def)

lemma rule_for_total: "\<exists>x. rule_for r = Some x \<and> ar_resource x = r"
  by (cases r) (simp_all add: rule_for_def RULES_def rule_def)

text \<open>A mutation passes without an explicit actor exactly when it is at the current epoch, by the owner of
  its resource, with a Cell id and an operation key; every resource has exactly one owner.\<close>

lemma validate_authority_None:
  "validate_authority m e None = None \<longleftrightarrow>
     1 \<le> ma_epoch m \<and> ma_epoch m = e
     \<and> ma_actor m = (if ma_resource m = AIRFLOW_RUN then ''airflow'' else ''python-backend'')
     \<and> is_cell_id (ma_cell_id m) \<and> py_strip (ma_operation_key m) \<noteq> []"
  by (cases "ma_resource m") (simp_all add: validate_authority_def rule_for_def RULES_def rule_def Let_def)

section \<open>Policy digests\<close>

lemma in_exact_range_canonical: "\<bar>cp_schema_version p\<bar> \<le> POLICY_MAX_EXACT_INTEGER \<Longrightarrow> in_exact_range (canonical_dict p)"
  by (auto simp: canonical_dict_def jstrs_def jopt_def split: option.splits)

lemma hex64_sha256 [simp]: "hex64 (sha256_hex m)"
  using sha256_hex_is_hex by (auto simp: hex64_def list_all_iff)

lemma digest_family_minted: "policy_digest_family (POLICY_DIGEST_PREFIX @ sha256_hex m) = Inr 1"
proof -
  have p: "POLICY_DIGEST_PREFIX = ''policy:v1:''"
    by (simp add: POLICY_DIGEST_PREFIX_def POLICY_SCHEMA_VERSION_def int_str_def nat_str.simps digit_char_def)
  have "\<not> hex64 (''v1:'' @ sha256_hex m)" by (simp add: hex64_def)
  then show ?thesis
    by (simp add: policy_digest_family_def p startswith_def is_digit_char_def Let_def)
qed

text \<open>Every digest the code derives from a policy is accepted at a mutation boundary, and a digest of the
  unmarked legacy family never is.\<close>

lemma policy_digest_current:
  "policy_digest fr p = Inr d \<Longrightarrow> require_current_policy_digest d = Inr ()"
  using digest_family_minted
  by (auto simp: policy_digest_def policy_digest_for_mapping_def require_current_policy_digest_def
      POLICY_SCHEMA_VERSION_def split: sum.splits)

lemma policy_digest_total:
  "\<bar>cp_schema_version p\<bar> \<le> POLICY_MAX_EXACT_INTEGER \<Longrightarrow> \<exists>d. policy_digest fr p = Inr d"
  using in_exact_range_canonical[of p]
  by (simp add: policy_digest_def policy_digest_for_mapping_def canonical_value_def)

lemma legacy_digest_refused:
  "hex64 h \<Longrightarrow> require_current_policy_digest (''policy:'' @ h) = Inl (ContractError ''policy family'')"
  by (simp add: require_current_policy_digest_def policy_digest_family_def startswith_def POLICY_SCHEMA_VERSION_def)

text \<open>The digest forgets the order and repetition of the sets of a policy and the spelling that
  \<open>canonical_dict\<close> normalises.\<close>

lemma policy_digest_canonical: "canonical_dict p = canonical_dict q \<Longrightarrow> policy_digest fr p = policy_digest fr q"
  by (simp add: policy_digest_def)

section \<open>Redaction of structured data\<close>

text \<open>\<open>secret_free v\<close>: every entry of a mapping of \<open>v\<close>, at any depth, whose key looks secret holds the marker.\<close>

fun secret_free :: "json \<Rightarrow> bool" where
  "secret_free (JObj kvs) =
     (\<forall>kv\<in>set kvs. (looks_secret_key (fst kv) \<longrightarrow> snd kv = JStr REDACTED) \<and> secret_free (snd kv))"
| "secret_free (JArr xs) = (\<forall>x\<in>set xs. secret_free x)"
| "secret_free v = True"

lemma redact_under_secret_free: "secret_free (redact_under key v)"
proof (induction v arbitrary: key)
  case (JArr xs)
  then show ?case by (subst redact_under.simps) auto
next
  case (JObj kvs)
  have "looks_secret_key k \<Longrightarrow> redact_under (Some k) x = JStr REDACTED" for k x
    by (subst redact_under.simps) simp
  moreover have "secret_free (redact_under (Some (fst kv)) (snd kv))" if "kv \<in> set kvs" for kv
    using JObj[of kv "snd kv"] that by (cases kv) auto
  ultimately show ?case by (subst redact_under.simps) auto
qed (subst redact_under.simps, auto)+

lemma redact_secret_free: "secret_free (redact v)"
  by (simp add: redact_def redact_under_secret_free)

text \<open>The shape of a document survives redaction: the keys of every mapping on the way stay in place.\<close>

lemma redact_keys: "redact (JObj kvs) = JObj kvs' \<Longrightarrow> map fst kvs' = map fst kvs"
  by (auto simp: redact_def redact_under.simps[of _ "JObj _"])

end
