(* ===== verification/Evidence.thy ===== *)
theory Evidence
  imports SecurityContract "HOL-Library.Multiset"
begin

text \<open>
  Cell-scoped evidence: the hash-chained writer of \<open>src/src/swfactory/lifecycle_evidence.py\<close> and the
  trusted facade of \<open>src/src/swfactory/trust_evidence.py\<close>.

  The evidence root keeps, per Cell, the records of \<open>events.jsonl\<close> as the values \<open>json.loads\<close> gives back
  for its lines, that is canonical values, and the last checkpoint. An absent file is an empty list.
  The clock and the bytes of an artifact are parameters; \<open>fr\<close> is the text of a float.

  The lemmas show that every append extends an intact chain to an intact chain, what remains true of the files
  when appends overlap or a write is cut short (\<open>evidence_disk\<close>), and that two intact chains of the same length
  with the same tail hold the same texts as long as the digest has no collision among them. The rest of the
  development uses \<open>evidence_root\<close>, where each append ends before the next begins.
\<close>

text \<open>The records of each Cell's file when no append overlaps another and none is cut short, and its last
  checkpoint; the files as the disk has them in general are the \<open>evidence_disk\<close> below.\<close>

record evidence_root =
  er_events :: "string \<Rightarrow> json list"
  er_checkpoint :: "string \<Rightarrow> json option"

datatype evidence_error = EvidenceValueError string | StalePolicy | UnreadableLine

record trace_context =
  tc_trace_id :: string
  tc_span_id :: string

definition trace_for_cell :: "string \<Rightarrow> int \<Rightarrow> string \<Rightarrow> string \<Rightarrow> trace_context" where
  "trace_for_cell cell epoch kind identity =
     (let trace = take 32 (sha256_hex (''trace'' @ NUL @ cell @ NUL @ int_str epoch));
          span = take 16 (sha256_hex (''span'' @ NUL @ trace @ NUL @ kind @ NUL @ identity))
      in \<lparr>tc_trace_id = trace, tc_span_id = span\<rparr>)"

definition trace_child :: "trace_context \<Rightarrow> string \<Rightarrow> string \<Rightarrow> trace_context" where
  "trace_child t kind identity =
     \<lparr>tc_trace_id = tc_trace_id t,
      tc_span_id = take 16 (sha256_hex (''span'' @ NUL @ tc_trace_id t @ NUL @ tc_span_id t @ NUL @ kind @ NUL @ identity))\<rparr>"

definition evidence_envelope ::
  "string \<Rightarrow> int \<Rightarrow> string option \<Rightarrow> trace_context \<Rightarrow> string \<Rightarrow> json \<Rightarrow> time \<Rightarrow> (string \<times> json) list" where
  "evidence_envelope cell epoch policy trace kind payload now =
     [(''schema_version'', JInt 1), (''cell_id'', JStr cell), (''epoch'', JInt epoch), (''policy_digest'', jopt policy),
      (''trace_id'', JStr (tc_trace_id trace)), (''span_id'', JStr (tc_span_id trace)), (''kind'', JStr kind),
      (''payload'', payload), (''at'', JReal now)]"

record cost_event =
  ce_cell :: string
  ce_epoch :: int
  ce_source :: string
  ce_quantity :: real
  ce_unit :: string
  ce_currency :: "string option"
  ce_amount :: "real option"
  ce_stage :: "string option"
  ce_node :: "string option"
  ce_generation :: "string option"
  ce_at :: real

definition cost_dict :: "cost_event \<Rightarrow> json" where
  "cost_dict e = JObj [(''schema_version'', JInt 1), (''cell_id'', JStr (ce_cell e)), (''epoch'', JInt (ce_epoch e)),
     (''source'', JStr (ce_source e)), (''quantity'', JReal (ce_quantity e)), (''unit'', JStr (ce_unit e)),
     (''currency'', jopt (ce_currency e)), (''amount'', (case ce_amount e of None \<Rightarrow> JNull | Some a \<Rightarrow> JReal a)),
     (''stage'', jopt (ce_stage e)), (''node'', jopt (ce_node e)), (''generation'', jopt (ce_generation e)),
     (''at'', JReal (ce_at e))]"

section \<open>The chain\<close>

definition chain_text :: "(real \<Rightarrow> string) \<Rightarrow> string \<Rightarrow> json \<Rightarrow> string" where
  "chain_text fr previous body = previous @ NUL @ jdumps True fr (jcanon body)"

definition record_body :: "json \<Rightarrow> json" where
  "record_body r = (case r of JObj kvs \<Rightarrow> JObj (filter (\<lambda>kv. fst kv \<notin> set [''previous_digest'', ''digest'']) kvs) | v \<Rightarrow> v)"

definition digest_or_null :: "string \<Rightarrow> json" where
  "digest_or_null previous = (if previous = [] then JNull else JStr previous)"

fun verify_from :: "(real \<Rightarrow> string) \<Rightarrow> nat \<Rightarrow> string \<Rightarrow> json list \<Rightarrow> bool \<times> string" where
  "verify_from fr i previous [] = (True, previous)"
| "verify_from fr i previous (r # rs) =
     (let expected = sha256_hex (chain_text fr previous (record_body r)) in
      if jget0 ''previous_digest'' r \<noteq> digest_or_null previous
      then (False, ''event '' @ nat_str i @ '': previous digest mismatch'')
      else if jget0 ''digest'' r \<noteq> JStr expected then (False, ''event '' @ nat_str i @ '': digest mismatch'')
      else verify_from fr (Suc i) expected rs)"

definition verify_chain :: "(real \<Rightarrow> string) \<Rightarrow> json list \<Rightarrow> bool \<times> string" where
  "verify_chain fr records = verify_from fr 0 [] records"

section \<open>The writer\<close>

definition read_events :: "evidence_root \<Rightarrow> string \<Rightarrow> json list" where
  "read_events er cell = er_events er cell"

definition tail_digest :: "(json \<Rightarrow> string) \<Rightarrow> json list \<Rightarrow> string" where
  "tail_digest rep rs =
     (if rs = [] then [] else py_str rep (py_or (jget0 ''digest'' (last rs)) (JStr [])))"

text \<open>\<open>append\<close> reads the digest of the last line, derives the record from it and writes the record; nothing
  locks the file between the two. \<open>append_record\<close> is what it writes after the tail it has read.\<close>

definition append_record ::
  "(real \<Rightarrow> string) \<Rightarrow> string \<Rightarrow> int \<Rightarrow> string \<Rightarrow> json \<Rightarrow> string option \<Rightarrow> trace_context option \<Rightarrow> time \<Rightarrow> string
     \<Rightarrow> evidence_error + json" where
  "append_record fr cell epoch kind payload policy trace now previous =
     (if epoch < 1 then Inl (EvidenceValueError ''epoch'')
      else
        let tr = (case trace of Some t \<Rightarrow> t | None \<Rightarrow> trace_for_cell cell epoch kind []);
            safe_payload = redact payload;
            body = evidence_envelope cell epoch policy tr kind safe_payload now;
            digest = sha256_hex (chain_text fr previous (JObj body))
        in Inr (JObj (body @ [(''previous_digest'', digest_or_null previous), (''digest'', JStr digest)])))"

definition append_evidence ::
  "(json \<Rightarrow> string) \<Rightarrow> (real \<Rightarrow> string) \<Rightarrow> string \<Rightarrow> int \<Rightarrow> string \<Rightarrow> json \<Rightarrow> string option \<Rightarrow> trace_context option
     \<Rightarrow> time \<Rightarrow> evidence_root \<Rightarrow> (evidence_error + json) \<times> evidence_root" where
  "append_evidence rep fr cell epoch kind payload policy trace now er =
     (case append_record fr cell epoch kind payload policy trace now (tail_digest rep (er_events er cell)) of
        Inl e \<Rightarrow> (Inl e, er)
      | Inr rec \<Rightarrow> (Inr rec, er\<lparr>er_events := (er_events er)(cell := er_events er cell @ [jcanon rec])\<rparr>))"

lemmas append_unfold = append_evidence_def append_record_def

definition artifact ::
  "(json \<Rightarrow> string) \<Rightarrow> (real \<Rightarrow> string) \<Rightarrow> string \<Rightarrow> int \<Rightarrow> string \<Rightarrow> string \<Rightarrow> string \<Rightarrow> string option
     \<Rightarrow> trace_context option \<Rightarrow> time \<Rightarrow> evidence_root \<Rightarrow> (evidence_error + json) \<times> evidence_root" where
  "artifact rep fr cell epoch logical_name path data policy trace now er =
     append_evidence rep fr cell epoch ''artifact''
       (JObj [(''logical_name'', JStr logical_name), (''path'', JStr path), (''sha256'', JStr (sha256_hex data)),
              (''bytes'', JInt (int (length data)))]) policy trace now er"

definition cost ::
  "(json \<Rightarrow> string) \<Rightarrow> (real \<Rightarrow> string) \<Rightarrow> cost_event \<Rightarrow> string option \<Rightarrow> time \<Rightarrow> evidence_root
     \<Rightarrow> (evidence_error + json) \<times> evidence_root" where
  "cost rep fr e policy now er =
     (if ce_quantity e < 0 \<or> (case ce_amount e of None \<Rightarrow> False | Some a \<Rightarrow> a < 0) then (Inl (EvidenceValueError ''cost''), er)
      else append_evidence rep fr (ce_cell e) (ce_epoch e) ''cost'' (cost_dict e) policy
             (Some (trace_for_cell (ce_cell e) (ce_epoch e) ''cost'' (ce_source e))) now er)"

definition checkpoint :: "string \<Rightarrow> time \<Rightarrow> evidence_root \<Rightarrow> json \<times> evidence_root" where
  "checkpoint cell now er =
     (let events = er_events er cell;
          digest = (if events = [] then JStr (sha256_hex []) else jget0 ''digest'' (last events));
          cp = JObj [(''schema_version'', JInt 1), (''cell_id'', JStr cell), (''events'', JInt (int (length events))),
                     (''tail_digest'', digest), (''created_at'', JReal now)]
      in (cp, er\<lparr>er_checkpoint := (er_checkpoint er)(cell := Some (jcanon cp))\<rparr>))"

definition verify :: "(real \<Rightarrow> string) \<Rightarrow> evidence_root \<Rightarrow> string \<Rightarrow> bool \<times> string" where
  "verify fr er cell = verify_chain fr (er_events er cell)"

section \<open>The trusted facade\<close>

definition trusted_append ::
  "(json \<Rightarrow> string) \<Rightarrow> (real \<Rightarrow> string) \<Rightarrow> string \<Rightarrow> int \<Rightarrow> string \<Rightarrow> json \<Rightarrow> string option \<Rightarrow> trace_context option
     \<Rightarrow> time \<Rightarrow> evidence_root \<Rightarrow> (evidence_error + json) \<times> evidence_root" where
  "trusted_append rep fr cell epoch kind payload policy trace now er =
     append_evidence rep fr cell epoch kind (redact payload) policy trace now er"

definition span_id :: "string \<Rightarrow> string \<Rightarrow> string" where
  "span_id trace key = take 16 (sha256_hex (''span'' @ NUL @ trace @ NUL @ ''mutation'' @ NUL @ key))"

definition mutation_evidence ::
  "(json \<Rightarrow> string) \<Rightarrow> (real \<Rightarrow> string) \<Rightarrow> mutation_envelope \<Rightarrow> string \<Rightarrow> json \<Rightarrow> time \<Rightarrow> evidence_root
     \<Rightarrow> (evidence_error + json) \<times> evidence_root" where
  "mutation_evidence rep fr env kind payload now er =
     (case validate_envelope env of
        Inl (ContractError e) \<Rightarrow> (Inl (EvidenceValueError e), er)
      | Inr _ \<Rightarrow>
          trusted_append rep fr (me_cell_id env) (me_epoch env) kind
            (JObj [(''operation_key'', JStr (me_operation_key env)), (''actor'', JStr (me_actor env)), (''mutation'', payload)])
            (Some (me_policy_digest env))
            (Some \<lparr>tc_trace_id = me_trace_id env, tc_span_id = span_id (me_trace_id env) (me_operation_key env)\<rparr>)
            now er)"

definition policy_activation ::
  "(json \<Rightarrow> string) \<Rightarrow> (real \<Rightarrow> string) \<Rightarrow> string \<Rightarrow> int \<Rightarrow> canonical_policy \<Rightarrow> string \<Rightarrow> time \<Rightarrow> evidence_root
     \<Rightarrow> (evidence_error + json) \<times> evidence_root" where
  "policy_activation rep fr cell epoch policy actor now er =
     (case policy_digest fr policy of
        Inl (ContractError e) \<Rightarrow> (Inl (EvidenceValueError e), er)
      | Inr digest \<Rightarrow>
          trusted_append rep fr cell epoch ''policy_activation''
            (JObj [(''actor'', JStr actor), (''policy'', canonical_dict policy), (''policy_digest'', JStr digest)])
            (Some digest) (Some (trace_for_cell cell epoch ''policy_activation'' digest)) now er)"

definition validate_mutation_policy :: "mutation_envelope \<Rightarrow> string \<Rightarrow> evidence_error option" where
  "validate_mutation_policy env current_policy_digest =
     (case validate_envelope env of
        Inl (ContractError e) \<Rightarrow> Some (EvidenceValueError e)
      | Inr _ \<Rightarrow> if me_policy_digest env \<noteq> current_policy_digest then Some StalePolicy else None)"

section \<open>Intact chains\<close>

lemma verify_from_snoc:
  "verify_from fr i p rs = (True, t) \<Longrightarrow> verify_from fr i p (rs @ [r]) = verify_from fr (i + length rs) t [r]"
  by (induction rs arbitrary: i p) (auto simp: Let_def split: if_splits)

lemma verify_from_tail:
  "verify_from fr i p rs = (True, t) \<Longrightarrow> rs \<noteq> [] \<Longrightarrow> jget0 ''digest'' (last rs) = JStr t \<and> length t = 64"
proof (induction rs arbitrary: i p)
  case (Cons r rs)
  then show ?case by (cases "rs = []") (auto simp: Let_def split: if_splits)
qed simp

lemma tail_digest_verified:
  assumes "verify_chain fr rs = (True, t)"
  shows "tail_digest rep rs = t"
proof (cases "rs = []")
  case False
  then have "jget0 ''digest'' (last rs) = JStr t" "t \<noteq> []"
    using verify_from_tail[of fr 0 "[]" rs t] assms by (auto simp: verify_chain_def)
  then show ?thesis using False by (simp add: tail_digest_def py_or_def)
qed (use assms in \<open>simp add: verify_chain_def tail_digest_def\<close>)

lemma jget_jcanon:
  assumes "distinct (map fst kvs)" and "(k, v) \<in> set kvs"
  shows "jget0 k (jcanon (JObj kvs)) = jcanon v"
proof -
  let ?c = "sort_key fst (map (\<lambda>(k, v). (k, jcanon v)) kvs)"
  have "map fst (map (\<lambda>(k, v). (k, jcanon v)) kvs) = map fst kvs" by auto
  then have "mset (map fst ?c) = mset (map fst kvs)" by (metis mset_map mset_sort)
  then have "distinct (map fst ?c)" using assms(1) mset_eq_imp_distinct_iff by blast
  moreover have "(k, jcanon v) \<in> set ?c" using assms(2) by force
  ultimately have "map_of ?c k = Some (jcanon v)" by (rule map_of_is_SomeI)
  then show ?thesis by (simp add: jget_or_def)
qed

lemma record_body_jcanon:
  assumes "\<forall>kv\<in>set body. fst kv \<notin> {''previous_digest'', ''digest''}"
  shows "record_body (jcanon (JObj (body @ [(''previous_digest'', a), (''digest'', b)]))) = jcanon (JObj body)"
proof -
  let ?P = "\<lambda>kv :: string \<times> json. fst kv \<notin> set [''previous_digest'', ''digest'']"
  let ?m = "map (\<lambda>(k, v). (k, jcanon v))"
  have "filter ?P (?m (body @ [(''previous_digest'', a), (''digest'', b)])) = ?m body"
    using assms by (auto simp: filter_map filter_id_conv comp_def split_beta)
  then show ?thesis by (simp add: record_body_def filter_sort)
qed

lemma envelope_keys:
  "map fst (evidence_envelope cell epoch policy tr kind payload now) =
     [''schema_version'', ''cell_id'', ''epoch'', ''policy_digest'', ''trace_id'', ''span_id'', ''kind'', ''payload'', ''at'']"
  by (simp add: evidence_envelope_def)

definition chained :: "(real \<Rightarrow> string) \<Rightarrow> string \<Rightarrow> (string \<times> json) list \<Rightarrow> json" where
  "chained fr previous body =
     JObj (body @ [(''previous_digest'', digest_or_null previous),
                   (''digest'', JStr (sha256_hex (chain_text fr previous (JObj body))))])"

lemma verify_chained:
  assumes "distinct (map fst body)" and "\<forall>kv\<in>set body. fst kv \<notin> {''previous_digest'', ''digest''}"
  shows "verify_from fr i previous [jcanon (chained fr previous body)]
       = (True, sha256_hex (chain_text fr previous (JObj body)))"
proof -
  let ?d = "sha256_hex (chain_text fr previous (JObj body))"
  let ?k = "body @ [(''previous_digest'', digest_or_null previous), (''digest'', JStr ?d)]"
  have d: "distinct (map fst ?k)" using assms by force
  have "jget0 ''previous_digest'' (jcanon (JObj ?k)) = jcanon (digest_or_null previous)"
    "jget0 ''digest'' (jcanon (JObj ?k)) = jcanon (JStr ?d)"
    by (rule jget_jcanon[OF d], simp)+
  moreover have "jcanon (digest_or_null previous) = digest_or_null previous" by (simp add: digest_or_null_def)
  moreover have "chain_text fr previous (record_body (jcanon (JObj ?k))) = chain_text fr previous (JObj body)"
    unfolding chain_text_def record_body_jcanon[OF assms(2)] jcanon_idem ..
  ultimately show ?thesis unfolding chained_def by (simp del: jcanon.simps)
qed

text \<open>What a successful append writes: one record chained to the tail of the Cell's own file.\<close>

lemma append_evidence_Inr:
  assumes "append_evidence rep fr cell epoch kind payload policy trace now er = (Inr rec, er')"
  obtains body where "rec = chained fr (tail_digest rep (er_events er cell)) body"
    and "er' = er\<lparr>er_events := (er_events er)(cell := er_events er cell @ [jcanon rec])\<rparr>"
    and "body = evidence_envelope cell epoch policy
           (case trace of Some t \<Rightarrow> t | None \<Rightarrow> trace_for_cell cell epoch kind []) kind (redact payload) now"
    and "1 \<le> epoch"
  using assms by (auto simp: append_unfold chained_def Let_def split: if_splits)

lemma append_evidence_verified:
  assumes "append_evidence rep fr cell epoch kind payload policy trace now er = (res, er')"
    and "\<forall>c. fst (verify fr er c)"
  shows "\<forall>c. fst (verify fr er' c)"
proof (cases res)
  case (Inl e)
  then show ?thesis using assms by (auto simp: append_unfold Let_def split: if_splits)
next
  case (Inr rec)
  obtain body where r: "rec = chained fr (tail_digest rep (er_events er cell)) body"
    and er': "er' = er\<lparr>er_events := (er_events er)(cell := er_events er cell @ [jcanon rec])\<rparr>"
    and b: "body = evidence_envelope cell epoch policy
           (case trace of Some t \<Rightarrow> t | None \<Rightarrow> trace_for_cell cell epoch kind []) kind (redact payload) now"
    using assms(1) Inr by (metis append_evidence_Inr)
  have ks: "distinct (map fst body)" "\<forall>kv\<in>set body. fst kv \<notin> {''previous_digest'', ''digest''}"
    unfolding b by (simp add: envelope_keys, simp add: evidence_envelope_def)
  obtain t where t: "verify_chain fr (er_events er cell) = (True, t)"
    using assms(2) by (metis (full_types) prod.collapse verify_def)
  have "verify_chain fr (er_events er cell @ [jcanon rec]) = (True, sha256_hex (chain_text fr t (JObj body)))"
    using verify_from_snoc[of fr 0 "[]" "er_events er cell" t] t verify_chained[OF ks]
    unfolding r tail_digest_verified[OF t] verify_chain_def by metis
  then show ?thesis using assms(2) by (simp add: er' verify_def)
qed

section \<open>Reachable evidence\<close>

definition empty_root :: evidence_root where
  "empty_root = \<lparr>er_events = (\<lambda>_. []), er_checkpoint = (\<lambda>_. None)\<rparr>"

inductive evidence_step :: "(json \<Rightarrow> string) \<Rightarrow> (real \<Rightarrow> string) \<Rightarrow> evidence_root \<Rightarrow> evidence_root \<Rightarrow> bool"
  for rep fr where
  es_append: "append_evidence rep fr cell epoch kind payload policy trace now er = (res, er') \<Longrightarrow> evidence_step rep fr er er'"
| es_artifact: "artifact rep fr cell epoch name path data policy trace now er = (res, er') \<Longrightarrow> evidence_step rep fr er er'"
| es_cost: "cost rep fr e policy now er = (res, er') \<Longrightarrow> evidence_step rep fr er er'"
| es_checkpoint: "checkpoint cell now er = (cp, er') \<Longrightarrow> evidence_step rep fr er er'"
| es_mutation: "mutation_evidence rep fr env kind payload now er = (res, er') \<Longrightarrow> evidence_step rep fr er er'"
| es_policy: "policy_activation rep fr cell epoch policy actor now er = (res, er') \<Longrightarrow> evidence_step rep fr er er'"

definition evidence_inv :: "(real \<Rightarrow> string) \<Rightarrow> evidence_root \<Rightarrow> bool" where
  "evidence_inv fr er = ((\<forall>c. fst (verify fr er c))
     \<and> (\<forall>c. \<forall>r\<in>set (er_events er c). secret_free (jget0 ''payload'' r) \<and> jget0 ''cell_id'' r = JStr c))"

lemma secret_free_jcanon: "secret_free v \<Longrightarrow> secret_free (jcanon v)"
  by (induction v) auto

lemma append_evidence_inv [inv_intros]:
  assumes "append_evidence rep fr cell epoch kind payload policy trace now er = (res, er')" and "evidence_inv fr er"
  shows "evidence_inv fr er'"
proof -
  have "secret_free (jget0 ''payload'' r) \<and> jget0 ''cell_id'' r = JStr c" if "r \<in> set (er_events er' c)" for c r
  proof (cases res)
    case (Inl e)
    then show ?thesis using assms that by (auto simp: append_unfold evidence_inv_def Let_def split: if_splits)
  next
    case (Inr rec)
    obtain body where r: "rec = chained fr (tail_digest rep (er_events er cell)) body"
      and er': "er' = er\<lparr>er_events := (er_events er)(cell := er_events er cell @ [jcanon rec])\<rparr>"
      and b: "body = evidence_envelope cell epoch policy
             (case trace of Some t \<Rightarrow> t | None \<Rightarrow> trace_for_cell cell epoch kind []) kind (redact payload) now"
      using assms(1) Inr by (metis append_evidence_Inr)
    have k: "distinct (map fst (body @ [(''previous_digest'', x), (''digest'', y)]))" for x y
      unfolding b map_append envelope_keys by simp
    have "jget0 ''payload'' (jcanon rec) = jcanon (redact payload)" "jget0 ''cell_id'' (jcanon rec) = jcanon (JStr cell)"
      unfolding r chained_def by (rule jget_jcanon[OF k], simp add: b evidence_envelope_def)+
    then have "secret_free (jget0 ''payload'' (jcanon rec))" "jget0 ''cell_id'' (jcanon rec) = JStr cell"
      by (simp_all add: secret_free_jcanon redact_secret_free)
    then show ?thesis using that assms(2) by (auto simp: er' evidence_inv_def split: if_splits)
  qed
  then show ?thesis
    using append_evidence_verified[OF assms(1)] assms(2) by (simp add: evidence_inv_def)
qed

inductive_cases evidence_stepE: "evidence_step rep fr er er'"

lemma facade_inv [inv_intros]:
  "mutation_evidence rep fr env kind payload now er = (res, er') \<Longrightarrow> evidence_inv fr er \<Longrightarrow> evidence_inv fr er'"
  "policy_activation rep fr cell epoch policy actor now er = (res, er') \<Longrightarrow> evidence_inv fr er \<Longrightarrow> evidence_inv fr er'"
  "artifact rep fr cell epoch name path data digest trace now er = (res, er') \<Longrightarrow> evidence_inv fr er \<Longrightarrow> evidence_inv fr er'"
  "cost rep fr e digest now er = (res, er') \<Longrightarrow> evidence_inv fr er \<Longrightarrow> evidence_inv fr er'"
  "checkpoint cell now er = (cp, er') \<Longrightarrow> evidence_inv fr er \<Longrightarrow> evidence_inv fr er'"
  by (auto simp: mutation_evidence_def policy_activation_def trusted_append_def artifact_def cost_def
      split: sum.splits contract_error.splits if_splits intro: append_evidence_inv)
     (auto simp: checkpoint_def Let_def evidence_inv_def verify_def)

lemma evidence_step_inv: "evidence_inv fr er \<Longrightarrow> evidence_step rep fr er er' \<Longrightarrow> evidence_inv fr er'"
  by (erule evidence_stepE) (auto intro: inv_intros)

lemma evidence_inv_empty: "evidence_inv fr empty_root"
  by (simp add: evidence_inv_def empty_root_def verify_def verify_chain_def)

interpretation evidence: inductive_invariant "\<lambda>er. er = empty_root" "evidence_step rep fr" "evidence_inv fr" for rep fr
  by unfold_locales (auto simp: evidence_inv_empty intro: evidence_step_inv)

section \<open>Overlapping and interrupted appends\<close>

text \<open>The files on disk. A line is a record, or \<open>None\<close> when \<open>json.loads\<close> rejects it: a text that a dying process
  cut short, or a text written right behind one. \<open>ed_open\<close> tells that the last line has no newline yet.
  \<open>ed_pending\<close> are the appends between their read of the tail and their write, each with the digest it read.
  \<open>ed_disturbed\<close> are the Cells for which a write was cut short, or a record was written behind another tail
  than the one its append had read.\<close>

record evidence_disk =
  ed_lines :: "string \<Rightarrow> json option list"
  ed_open :: "string \<Rightarrow> bool"
  ed_pending :: "(string \<times> string \<times> json) list"
  ed_disturbed :: "string set"

definition disk_read :: "json option list \<Rightarrow> evidence_error + json list" where
  "disk_read ls = (if None \<in> set ls then Inl UnreadableLine else Inr (map the ls))"

definition disk_tail :: "(json \<Rightarrow> string) \<Rightarrow> json option list \<Rightarrow> evidence_error + string" where
  "disk_tail rep ls = (if ls = [] then Inr [] else case last ls of None \<Rightarrow> Inl UnreadableLine | Some r \<Rightarrow> Inr (tail_digest rep [r]))"

text \<open>\<open>disk_put lin nl c d\<close>: a text that reads as \<open>lin\<close> is written to the file of Cell \<open>c\<close>, with its newline or without.
  Behind a line that has none the two texts make one line, which is no JSON value.\<close>

definition disk_put :: "json option \<Rightarrow> bool \<Rightarrow> string \<Rightarrow> evidence_disk \<Rightarrow> evidence_disk" where
  "disk_put lin nl c d = d\<lparr>ed_lines := (ed_lines d)(c := if ed_open d c then butlast (ed_lines d c) @ [None] else ed_lines d c @ [lin]),
     ed_open := (ed_open d)(c := \<not> nl)\<rparr>"

abbreviation disturb :: "string \<Rightarrow> evidence_disk \<Rightarrow> evidence_disk" where
  "disturb c d \<equiv> d\<lparr>ed_disturbed := insert c (ed_disturbed d)\<rparr>"

inductive disk_step :: "(json \<Rightarrow> string) \<Rightarrow> (real \<Rightarrow> string) \<Rightarrow> evidence_disk \<Rightarrow> evidence_disk \<Rightarrow> bool" for rep fr where
  ds_read: "disk_tail rep (ed_lines d c) = Inr previous
    \<Longrightarrow> append_record fr c epoch kind payload policy trace now previous = Inr rec
    \<Longrightarrow> disk_step rep fr d (d\<lparr>ed_pending := (c, previous, rec) # ed_pending d\<rparr>)"
| ds_write: "(c, previous, rec) \<in> set (ed_pending d)
    \<Longrightarrow> d1 = d\<lparr>ed_pending := remove1 (c, previous, rec) (ed_pending d)\<rparr>
    \<Longrightarrow> d2 = (if disk_tail rep (ed_lines d c) = Inr previous \<and> \<not> ed_open d c then d1 else disturb c d1)
    \<Longrightarrow> disk_step rep fr d (disk_put (Some (jcanon rec)) True c d2)"
| ds_cut: "(c, previous, rec) \<in> set (ed_pending d)
    \<Longrightarrow> d1 = d\<lparr>ed_pending := remove1 (c, previous, rec) (ed_pending d)\<rparr>
    \<Longrightarrow> lin = None \<or> lin = Some (jcanon rec) \<Longrightarrow> disk_step rep fr d (disk_put lin False c (disturb c d1))"
| ds_dies: "disk_step rep fr d (d\<lparr>ed_pending := remove1 p (ed_pending d)\<rparr>)"

abbreviation disk_init :: "evidence_disk \<Rightarrow> bool" where
  "disk_init d \<equiv> d = \<lparr>ed_lines = \<lambda>_. [], ed_open = \<lambda>_. False, ed_pending = [], ed_disturbed = {}\<rparr>"

text \<open>Without overlap the two steps are \<open>append_evidence\<close>.\<close>

lemma append_is_read_then_write:
  assumes "append_evidence rep fr c epoch kind payload policy trace now er = (Inr rec, er')"
    and "ed_lines d = (\<lambda>c. map Some (er_events er c))" and "\<not> ed_open d c"
  shows "\<exists>d1 d2. disk_step rep fr d d1 \<and> disk_step rep fr d1 d2 \<and> ed_lines d2 = (\<lambda>c. map Some (er_events er' c))
     \<and> ed_open d2 c = False \<and> ed_disturbed d2 = ed_disturbed d \<and> ed_pending d2 = ed_pending d"
proof -
  let ?p = "tail_digest rep (er_events er c)"
  have r: "append_record fr c epoch kind payload policy trace now ?p = Inr rec"
    and er': "er' = er\<lparr>er_events := (er_events er)(c := er_events er c @ [jcanon rec])\<rparr>"
    using assms(1) by (auto simp: append_evidence_def split: sum.splits)
  have t: "disk_tail rep (ed_lines d c) = Inr ?p"
    using assms(2) by (simp add: disk_tail_def tail_digest_def last_map)
  let ?d1 = "d\<lparr>ed_pending := (c, ?p, rec) # ed_pending d\<rparr>"
  have s1: "disk_step rep fr d ?d1" by (rule ds_read[OF t r])
  have s2: "disk_step rep fr ?d1 (disk_put (Some (jcanon rec)) True c d)"
    by (rule ds_write[of c ?p rec, OF _ refl]) (use t assms(3) in simp_all)
  show ?thesis
  proof (intro exI conjI)
    show "disk_step rep fr d ?d1" "disk_step rep fr ?d1 (disk_put (Some (jcanon rec)) True c d)" by (fact s1, fact s2)
    show "ed_lines (disk_put (Some (jcanon rec)) True c d) = (\<lambda>c. map Some (er_events er' c))"
      using assms(2,3) by (auto simp: disk_put_def er')
  qed (simp_all add: disk_put_def)
qed

definition written_by :: "(real \<Rightarrow> string) \<Rightarrow> string \<Rightarrow> string \<Rightarrow> json \<Rightarrow> bool" where
  "written_by fr c previous rec = (\<exists>epoch kind payload policy tr now.
     rec = chained fr previous (evidence_envelope c epoch policy tr kind (redact payload) now))"

lemma append_record_written:
  assumes "append_record fr c epoch kind payload policy trace now previous = Inr rec"
  shows "written_by fr c previous rec"
proof -
  have "rec = chained fr previous (evidence_envelope c epoch policy
      (case trace of Some t \<Rightarrow> t | None \<Rightarrow> trace_for_cell c epoch kind []) kind (redact payload) now)"
    using assms by (auto simp: append_record_def chained_def Let_def split: if_splits)
  then show ?thesis unfolding written_by_def by blast
qed

lemma written_fields:
  assumes "written_by fr c previous rec"
  shows "secret_free (jget0 ''payload'' (jcanon rec))" and "jget0 ''cell_id'' (jcanon rec) = JStr c"
    and "\<exists>t. verify_from fr i previous [jcanon rec] = (True, t)" and "jget0 ''previous_digest'' (jcanon rec) = digest_or_null previous"
proof -
  obtain body epoch kind payload policy tr now where r: "rec = chained fr previous body"
    and b: "body = evidence_envelope c epoch policy tr kind (redact payload) now" using assms by (auto simp: written_by_def)
  have k: "distinct (map fst (body @ [(''previous_digest'', x), (''digest'', y)]))" for x y
    unfolding b map_append envelope_keys by simp
  have "jget0 ''payload'' (jcanon rec) = jcanon (redact payload)" "jget0 ''cell_id'' (jcanon rec) = jcanon (JStr c)"
    "jget0 ''previous_digest'' (jcanon rec) = jcanon (digest_or_null previous)"
    unfolding r chained_def by (rule jget_jcanon[OF k], simp add: b evidence_envelope_def)+
  then show "secret_free (jget0 ''payload'' (jcanon rec))" "jget0 ''cell_id'' (jcanon rec) = JStr c"
    "jget0 ''previous_digest'' (jcanon rec) = digest_or_null previous"
    by (simp_all add: secret_free_jcanon redact_secret_free digest_or_null_def)
  have "distinct (map fst body)" "\<forall>kv\<in>set body. fst kv \<notin> {''previous_digest'', ''digest''}"
    unfolding b by (simp add: envelope_keys, simp add: evidence_envelope_def)
  from verify_chained[OF this] show "\<exists>t. verify_from fr i previous [jcanon rec] = (True, t)" unfolding r by blast
qed

definition line_ok :: "(real \<Rightarrow> string) \<Rightarrow> string \<Rightarrow> json \<Rightarrow> bool" where
  "line_ok fr c r = (\<exists>previous rec. written_by fr c previous rec \<and> r = jcanon rec)"

definition disk_inv :: "(real \<Rightarrow> string) \<Rightarrow> evidence_disk \<Rightarrow> bool" where
  "disk_inv fr d = ((\<forall>(c, previous, rec)\<in>set (ed_pending d). written_by fr c previous rec)
     \<and> (\<forall>c. \<forall>r. Some r \<in> set (ed_lines d c) \<longrightarrow> line_ok fr c r)
     \<and> (\<forall>c. c \<notin> ed_disturbed d \<longrightarrow> (\<exists>rs. ed_lines d c = map Some rs \<and> fst (verify_chain fr rs))))"

lemma put_lines: "Some r \<in> set (ed_lines (disk_put lin nl c d) c') \<Longrightarrow> Some r \<in> set (ed_lines d c') \<or> (c' = c \<and> lin = Some r)"
  by (auto simp: disk_put_def split: if_splits dest: in_set_butlastD)

lemma disk_tail_Some: "disk_tail rep (map Some rs) = Inr (tail_digest rep rs)"
  by (simp add: disk_tail_def tail_digest_def last_map)

lemma disk_write_inv:
  assumes inv: "disk_inv fr d" and mem: "(c, previous, rec) \<in> set (ed_pending d)"
    and lin: "lin = None \<or> lin = Some (jcanon rec)"
    and und: "c \<notin> dis \<Longrightarrow> lin = Some (jcanon rec) \<and> disk_tail rep (ed_lines d c) = Inr previous \<and> \<not> ed_open d c"
    and sub: "ed_disturbed d \<subseteq> dis"
  shows "disk_inv fr (disk_put lin nl c (d\<lparr>ed_pending := remove1 (c, previous, rec) (ed_pending d), ed_disturbed := dis\<rparr>))"
    (is "disk_inv fr (disk_put lin nl c ?d)")
proof -
  have w: "written_by fr c previous rec" using inv mem by (auto simp: disk_inv_def)
  have pend: "(c', p', r') \<in> set (ed_pending d) \<Longrightarrow> written_by fr c' p' r'" for c' p' r' using inv by (auto simp: disk_inv_def)
  have lines: "line_ok fr c' r" if "Some r \<in> set (ed_lines (disk_put lin nl c ?d) c')" for c' r
    using put_lines[OF that] lin w inv by (auto simp: disk_inv_def line_ok_def)
  have "\<exists>rs. ed_lines (disk_put lin nl c ?d) c' = map Some rs \<and> fst (verify_chain fr rs)" if c': "c' \<notin> dis" for c'
  proof -
    obtain rs where rs: "ed_lines d c' = map Some rs" "fst (verify_chain fr rs)" using inv c' sub by (force simp: disk_inv_def)
    show ?thesis
    proof (cases "c' = c")
      case True
      with und c' have u: "lin = Some (jcanon rec)" "disk_tail rep (ed_lines d c) = Inr previous" "\<not> ed_open d c" by simp_all
      obtain t where t: "verify_chain fr rs = (True, t)" using rs(2) by (cases "verify_chain fr rs") auto
      have "previous = t" using u(2) rs(1) True tail_digest_verified[OF t, of rep] by (simp add: disk_tail_Some)
      then have "fst (verify_chain fr (rs @ [jcanon rec]))"
        using verify_from_snoc[of fr 0 "[]" rs t "jcanon rec"] t written_fields(3)[OF w, of "length rs"]
        by (auto simp: verify_chain_def)
      with u rs True show ?thesis by (intro exI[of _ "rs @ [jcanon rec]"]) (simp add: disk_put_def)
    qed (use rs in \<open>auto simp: disk_put_def fun_upd_idem\<close>)
  qed
  moreover have "set (ed_pending (disk_put lin nl c ?d)) \<subseteq> set (ed_pending d)" "ed_disturbed (disk_put lin nl c ?d) = dis"
    by (simp_all add: disk_put_def set_remove1_subset)
  ultimately show ?thesis unfolding disk_inv_def using lines pend by auto
qed

lemma disk_step_inv: "disk_step rep fr d d' \<Longrightarrow> disk_inv fr d \<Longrightarrow> disk_inv fr d'"
proof (induction rule: disk_step.induct)
  case (ds_read d c previous epoch kind payload policy trace now rec)
  then show ?case using append_record_written by (auto simp: disk_inv_def)
next
  case (ds_write c previous rec d d1 d2)
  let ?dis = "if disk_tail rep (ed_lines d c) = Inr previous \<and> \<not> ed_open d c then ed_disturbed d else insert c (ed_disturbed d)"
  have "d2 = d\<lparr>ed_pending := remove1 (c, previous, rec) (ed_pending d), ed_disturbed := ?dis\<rparr>" using ds_write(2,3) by simp
  moreover have "disk_inv fr (disk_put (Some (jcanon rec)) True c (d\<lparr>ed_pending := remove1 (c, previous, rec) (ed_pending d), ed_disturbed := ?dis\<rparr>))"
    by (rule disk_write_inv[OF ds_write(4,1), where rep = rep]) (simp_all add: subset_insertI split: if_splits)
  ultimately show ?case by simp
next
  case (ds_cut c previous rec d d1 lin)
  have "disk_inv fr (disk_put lin False c (d\<lparr>ed_pending := remove1 (c, previous, rec) (ed_pending d), ed_disturbed := insert c (ed_disturbed d)\<rparr>))"
    by (rule disk_write_inv[OF ds_cut(4,1,3), where rep = rep]) auto
  then show ?case using ds_cut(2) by simp
next
  case (ds_dies d p)
  then have "\<forall>x\<in>set (remove1 p (ed_pending d)). case x of (c, previous, rec) \<Rightarrow> written_by fr c previous rec"
    by (auto simp: disk_inv_def dest!: set_mp[OF set_remove1_subset])
  with ds_dies show ?case by (simp add: disk_inv_def)
qed

interpretation disk: inductive_invariant disk_init "disk_step rep fr" "disk_inv fr" for rep fr
proof
  show "disk_inv fr d" if "disk_init d" for d
    using that by (simp add: disk_inv_def verify_chain_def)
  show "disk_inv fr d'" if "disk_inv fr d" "disk_step rep fr d d'" for d d'
    using that(2,1) by (rule disk_step_inv)
qed

lemma digest_or_null_inj: "digest_or_null a = digest_or_null b \<longleftrightarrow> a = b"
  by (auto simp: digest_or_null_def)

lemma verify_from_written:
  assumes "\<forall>r\<in>set rs. line_ok fr c r" and "verify_from fr i p rs = (False, reason)"
  shows "\<exists>j. i \<le> j \<and> j < i + length rs \<and> reason = ''event '' @ nat_str j @ '': previous digest mismatch''"
  using assms
proof (induction rs arbitrary: i p)
  case (Cons r rs)
  obtain q rec where w: "written_by fr c q rec" "r = jcanon rec" using Cons.prems(1) by (auto simp: line_ok_def)
  show ?case
  proof (cases "p = q")
    case True
    obtain t where "verify_from fr i p [r] = (True, t)" using written_fields(3)[OF w(1)] w(2) True by blast
    then have "verify_from fr i p (r # rs) = verify_from fr (Suc i) t rs" by (simp add: Let_def split: if_splits)
    then have "verify_from fr (Suc i) t rs = (False, reason)" using Cons.prems(2) by simp
    moreover have "\<forall>r\<in>set rs. line_ok fr c r" using Cons.prems(1) by simp
    ultimately obtain j where "Suc i \<le> j" "j < Suc i + length rs" "reason = ''event '' @ nat_str j @ '': previous digest mismatch''"
      using Cons.IH by blast
    then show ?thesis by (intro exI[of _ j]) simp
  next
    case False
    then have "jget0 ''previous_digest'' r \<noteq> digest_or_null p" using written_fields(4)[OF w(1)] w(2) by (simp add: digest_or_null_inj)
    then have "reason = ''event '' @ nat_str i @ '': previous digest mismatch''" using Cons.prems(2) by (simp add: Let_def)
    then show ?thesis by (intro exI[of _ i]) simp
  qed
qed simp

text \<open>C33: the evidence files under overlapping appends and processes that die while writing. Every line that
  can be read is a record of the Cell whose file it is in and holds no value under a secret-looking key. Unless
  a write to the Cell's file was cut short or a record was written behind another tail than the one its append had
  read, every line can be read and the chain verifies; and a file whose lines can all be read either verifies
  or is rejected at a record with the wrong predecessor, never for the digest of a record.\<close>

theorem reachable_evidence_intact:
  assumes "reach disk_init (disk_step rep fr) d"
  shows "(\<forall>r. Some r \<in> set (ed_lines d c) \<longrightarrow> secret_free (jget0 ''payload'' r) \<and> jget0 ''cell_id'' r = JStr c)
     \<and> (c \<notin> ed_disturbed d \<longrightarrow> (\<exists>rs. disk_read (ed_lines d c) = Inr rs \<and> fst (verify_chain fr rs)))
     \<and> (\<forall>rs reason. disk_read (ed_lines d c) = Inr rs \<and> verify_chain fr rs = (False, reason)
          \<longrightarrow> (\<exists>i<length rs. reason = ''event '' @ nat_str i @ '': previous digest mismatch''))"
proof -
  note inv = disk.reach_inv[OF assms, unfolded disk_inv_def]
  have 1: "secret_free (jget0 ''payload'' r) \<and> jget0 ''cell_id'' r = JStr c" if "Some r \<in> set (ed_lines d c)" for r
    using inv that written_fields(1,2) by (fastforce simp: line_ok_def)
  have 2: "\<exists>rs. disk_read (ed_lines d c) = Inr rs \<and> fst (verify_chain fr rs)" if dis: "c \<notin> ed_disturbed d"
  proof -
    obtain rs where "ed_lines d c = map Some rs" "fst (verify_chain fr rs)" using inv dis by blast
    then show ?thesis by (auto simp: disk_read_def comp_def)
  qed
  have 3: "\<exists>i<length rs. reason = ''event '' @ nat_str i @ '': previous digest mismatch''"
    if rd: "disk_read (ed_lines d c) = Inr rs" and v: "verify_chain fr rs = (False, reason)" for rs reason
  proof -
    have "Some r \<in> set (ed_lines d c)" if "r \<in> set rs" for r
    proof -
      have "rs = map the (ed_lines d c)" "None \<notin> set (ed_lines d c)" using rd by (auto simp: disk_read_def split: if_splits)
      with \<open>r \<in> set rs\<close> obtain lin where "lin \<in> set (ed_lines d c)" "r = the lin" "lin \<noteq> None" by force
      then show ?thesis by simp
    qed
    then have "\<forall>r\<in>set rs. line_ok fr c r" using inv by blast
    from verify_from_written[OF this v[unfolded verify_chain_def]] show ?thesis by auto
  qed
  show ?thesis using 1 2 3 by blast
qed

text \<open>Two appends that both read the empty file fork the chain, and a line cut short stops every later append
  of the Cell: \<open>_tail_digest\<close> raises on it.\<close>

lemma overlapping_appends_fork:
  assumes "append_record fr c e1 k1 p1 po1 t1 n1 [] = Inr r1" and "append_record fr c e2 k2 p2 po2 t2 n2 [] = Inr r2"
  shows "\<exists>d rs. reach disk_init (disk_step rep fr) d \<and> disk_read (ed_lines d c) = Inr rs
     \<and> verify_chain fr rs = (False, ''event 1: previous digest mismatch'')"
proof -
  let ?d = "\<lambda>ls ps dis. \<lparr>ed_lines = (\<lambda>_. [])(c := ls), ed_open = \<lambda>_. False, ed_pending = ps, ed_disturbed = dis\<rparr>"
  have "reach disk_init (disk_step rep fr) (?d [] [] {})" by (rule reach_init) (simp add: fun_upd_idem)
  then have "reach disk_init (disk_step rep fr) (?d [] [(c, [], r1)] {})"
    by (rule reach_step) (use ds_read[of rep "?d [] [] {}" c, OF _ assms(1)] in \<open>simp add: disk_tail_def\<close>)
  then have "reach disk_init (disk_step rep fr) (?d [] [(c, [], r2), (c, [], r1)] {})"
    by (rule reach_step) (use ds_read[of rep "?d [] [(c, [], r1)] {}" c, OF _ assms(2)] in \<open>simp add: disk_tail_def\<close>)
  then have "reach disk_init (disk_step rep fr) (?d [Some (jcanon r2)] [(c, [], r1)] {})"
    by (rule reach_step) (use ds_write[of c "[]" r2 "?d [] [(c, [], r2), (c, [], r1)] {}", OF _ refl refl, of rep fr] in \<open>simp add: disk_tail_def disk_put_def fun_upd_idem\<close>)
  moreover obtain t where t: "verify_from fr 0 [] [jcanon r2] = (True, t)" using written_fields(3)[OF append_record_written[OF assms(2)]] by blast
  then have tail: "tail_digest rep [jcanon r2] = t" "length t = 64"
    using tail_digest_verified[of fr "[jcanon r2]" t rep] verify_from_tail[OF t] by (simp_all add: verify_chain_def)
  then have "tail_digest rep [jcanon r2] \<noteq> []" by auto
  ultimately have "reach disk_init (disk_step rep fr) (?d [Some (jcanon r2), Some (jcanon r1)] [] {c})"
    by (elim reach_step) (use ds_write[of c "[]" r1 "?d [Some (jcanon r2)] [(c, [], r1)] {}", OF _ refl refl, of rep fr] tail
      in \<open>auto simp: disk_tail_def disk_put_def fun_upd_idem\<close>)
  moreover have "verify_chain fr [jcanon r2, jcanon r1] = (False, ''event 1: previous digest mismatch'')"
  proof -
    have "verify_from fr 0 [] [jcanon r2, jcanon r1] = verify_from fr (Suc 0) t [jcanon r1]" using verify_from_snoc[OF t] by simp
    moreover have "digest_or_null t \<noteq> digest_or_null []" using tail(2) by (auto simp: digest_or_null_def)
    moreover have "nat_str (Suc 0) = ''1''" by (simp add: nat_str.simps digit_char_def)
    ultimately show ?thesis using written_fields(4)[OF append_record_written[OF assms(1)]] by (auto simp: verify_chain_def Let_def)
  qed
  ultimately show ?thesis by (intro exI) (auto simp: disk_read_def)
qed

lemma cut_line_blocks_appends: "disk_tail rep (ls @ [None]) = Inl UnreadableLine" and "disk_read (ls @ [None]) = Inl UnreadableLine"
  by (simp_all add: disk_tail_def disk_read_def)

section \<open>Tamper evidence\<close>

fun chain_texts :: "(real \<Rightarrow> string) \<Rightarrow> string \<Rightarrow> json list \<Rightarrow> string list" where
  "chain_texts fr p [] = []"
| "chain_texts fr p (r # rs) =
     chain_text fr p (record_body r) # chain_texts fr (sha256_hex (chain_text fr p (record_body r))) rs"

definition body_text :: "(real \<Rightarrow> string) \<Rightarrow> json \<Rightarrow> string" where
  "body_text fr r = jdumps True fr (jcanon (record_body r))"

lemma sha256_no_NUL: "CHR 0x00 \<notin> set (sha256_hex m)"
  using sha256_hex_is_hex[of "CHR 0x00" m] by (auto simp: is_hex_def hex_digits_def)

lemma verify_from_snocD:
  assumes "verify_from fr i p (rs @ [r]) = (True, t)"
  obtains t0 where "verify_from fr i p rs = (True, t0)" "t = sha256_hex (chain_text fr t0 (record_body r))"
    and "chain_texts fr p (rs @ [r]) = chain_texts fr p rs @ [chain_text fr t0 (record_body r)]"
  using assms
proof (induction rs arbitrary: i p thesis)
  case Nil
  then show ?case by (auto simp: Let_def split: if_splits)
next
  case (Cons x rs)
  let ?e = "sha256_hex (chain_text fr p (record_body x))"
  from Cons.prems(2) have v: "verify_from fr (Suc i) ?e (rs @ [r]) = (True, t)"
    and ok: "jget0 ''previous_digest'' x = digest_or_null p" "jget0 ''digest'' x = JStr ?e"
    by (auto simp: Let_def split: if_splits)
  from Cons.IH[OF _ v] obtain t0 where "verify_from fr (Suc i) ?e rs = (True, t0)"
    "t = sha256_hex (chain_text fr t0 (record_body r))"
    "chain_texts fr ?e (rs @ [r]) = chain_texts fr ?e rs @ [chain_text fr t0 (record_body r)]" by blast
  then show ?case using Cons.prems(1)[of t0] ok by (simp add: Let_def)
qed

lemma verify_from_no_NUL: "verify_from fr i p rs = (True, t) \<Longrightarrow> CHR 0x00 \<notin> set p \<Longrightarrow> CHR 0x00 \<notin> set t"
  by (induction rs arbitrary: i p) (auto simp: Let_def sha256_no_NUL split: if_splits)

lemma chains_agree:
  assumes "length rs = length rs'" and "verify_from fr i [] rs = (True, t)" and "verify_from fr i [] rs' = (True, t)"
    and "inj_on sha256_hex (set (chain_texts fr [] rs @ chain_texts fr [] rs'))"
  shows "map (body_text fr) rs = map (body_text fr) rs'"
  using assms
proof (induction rs arbitrary: rs' t rule: rev_induct)
  case (snoc r rs)
  then obtain qs q where q: "rs' = qs @ [q]" "length rs = length qs"
    by (metis length_append_singleton length_Suc_conv_rev)
  obtain a where a: "verify_from fr i [] rs = (True, a)" "t = sha256_hex (chain_text fr a (record_body r))"
    "chain_texts fr [] (rs @ [r]) = chain_texts fr [] rs @ [chain_text fr a (record_body r)]"
    by (rule verify_from_snocD[OF snoc.prems(2)])
  obtain b where b: "verify_from fr i [] qs = (True, b)" "t = sha256_hex (chain_text fr b (record_body q))"
    "chain_texts fr [] (qs @ [q]) = chain_texts fr [] qs @ [chain_text fr b (record_body q)]"
    by (rule verify_from_snocD[OF snoc.prems(3)[unfolded q(1)]])
  have "chain_text fr a (record_body r) = chain_text fr b (record_body q)"
    by (rule inj_onD[OF snoc.prems(4)]) (use a b q in auto)
  moreover have "CHR 0x00 \<notin> set a" "CHR 0x00 \<notin> set b"
    using verify_from_no_NUL[OF a(1)] verify_from_no_NUL[OF b(1)] by simp_all
  ultimately have ab: "a = b" "body_text fr r = body_text fr q"
    using append_sep_inject[of "CHR 0x00" a b] by (auto simp: chain_text_def NUL_def body_text_def)
  have "inj_on sha256_hex (set (chain_texts fr [] rs @ chain_texts fr [] qs))"
    by (rule inj_on_subset[OF snoc.prems(4)]) (use a(3) b(3) q in auto)
  then have "map (body_text fr) rs = map (body_text fr) qs"
    using snoc.IH[OF q(2) a(1)] b(1) ab(1) by simp
  then show ?case using q ab(2) by simp
qed simp

text \<open>Two evidence files of the same length that verify to the same tail digest hold the same record
  texts, unless SHA-256 collides on the texts they hash: the tail digest commits to the whole history.\<close>

theorem evidence_tail_commits:
  assumes "verify_chain fr rs = (True, t)" and "verify_chain fr rs' = (True, t)" and "length rs = length rs'"
    and "inj_on sha256_hex (set (chain_texts fr [] rs @ chain_texts fr [] rs'))"
  shows "map (body_text fr) rs = map (body_text fr) rs'"
  using chains_agree[OF assms(3) assms(1,2)[unfolded verify_chain_def] assms(4)] .

definition demo_evidence :: evidence_root where
  "demo_evidence = snd (append_evidence (\<lambda>_. []) (\<lambda>_. ''0'') ''cell_x'' 1 ''note'' (JObj [(''api_key'', JInt 7)]) None None 0 empty_root)"

lemma demo_evidence_reach: "reach (\<lambda>er. er = empty_root) (evidence_step (\<lambda>_. []) (\<lambda>_. ''0'')) demo_evidence"
  using reach_init[where init = "\<lambda>er. er = empty_root", OF refl] es_append[OF surjective_pairing]
  unfolding demo_evidence_def by (rule reach_step)

text \<open>Two appends, the second after the first has ended; none is cut short.\<close>

definition demo_record :: "string \<Rightarrow> json" where
  "demo_record previous = (case append_record (\<lambda>_. ''0'') ''cell_x'' 1 ''note'' (JObj [(''api_key'', JInt 7)]) None None 0 previous of Inr r \<Rightarrow> r | Inl _ \<Rightarrow> JNull)"

definition demo_tail :: string where
  "demo_tail = tail_digest (\<lambda>_. []) [jcanon (demo_record [])]"

definition demo_disk :: evidence_disk where
  "demo_disk = \<lparr>ed_lines = (\<lambda>_. [])(''cell_x'' := [Some (jcanon (demo_record [])), Some (jcanon (demo_record demo_tail))]),
     ed_open = \<lambda>_. False, ed_pending = [], ed_disturbed = {}\<rparr>"

lemma demo_disk_reach: "reach disk_init (disk_step (\<lambda>_. []) (\<lambda>_. ''0'')) demo_disk"
proof -
  let ?c = "''cell_x''" and ?rep = "\<lambda>_ :: json. [] :: string" and ?fr = "\<lambda>_ :: real. ''0''"
  let ?d = "\<lambda>ls ps. \<lparr>ed_lines = (\<lambda>_. [])(?c := ls), ed_open = \<lambda>_. False, ed_pending = ps, ed_disturbed = {}\<rparr>"
  let ?r1 = "demo_record []" and ?r2 = "demo_record demo_tail"
  have r: "append_record ?fr ?c 1 ''note'' (JObj [(''api_key'', JInt 7)]) None None 0 p = Inr (demo_record p)" for p
    by (simp add: demo_record_def append_record_def Let_def)
  have t: "disk_tail ?rep [Some (jcanon ?r1)] = Inr demo_tail" by (simp add: disk_tail_def demo_tail_def)
  have "reach disk_init (disk_step ?rep ?fr) (?d [] [])" by (rule reach_init) (simp add: fun_upd_idem)
  then have "reach disk_init (disk_step ?rep ?fr) (?d [] [(?c, [], ?r1)])"
    by (rule reach_step) (use ds_read[of ?rep "?d [] []" ?c, OF _ r] in \<open>simp add: disk_tail_def\<close>)
  then have "reach disk_init (disk_step ?rep ?fr) (?d [Some (jcanon ?r1)] [])"
    by (rule reach_step) (use ds_write[of ?c "[]" ?r1 "?d [] [(?c, [], ?r1)]", OF _ refl refl, of ?rep ?fr] in \<open>simp add: disk_tail_def disk_put_def fun_upd_idem\<close>)
  then have "reach disk_init (disk_step ?rep ?fr) (?d [Some (jcanon ?r1)] [(?c, demo_tail, ?r2)])"
    by (rule reach_step) (use ds_read[of ?rep "?d [Some (jcanon ?r1)] []" ?c, OF _ r] t in simp)
  then have "reach disk_init (disk_step ?rep ?fr) (?d [Some (jcanon ?r1), Some (jcanon ?r2)] [])"
    by (rule reach_step) (use ds_write[of ?c demo_tail ?r2 "?d [Some (jcanon ?r1)] [(?c, demo_tail, ?r2)]", OF _ refl refl, of ?rep ?fr] t
      in \<open>simp add: disk_put_def fun_upd_idem\<close>)
  then show ?thesis by (simp add: demo_disk_def)
qed

theorem reachable_evidence_intact_witness:
  "\<exists>rs. disk_read (ed_lines demo_disk ''cell_x'') = Inr rs \<and> length rs = 2 \<and> fst (verify_chain (\<lambda>_. ''0'') rs)"
proof -
  obtain rs where "disk_read (ed_lines demo_disk ''cell_x'') = Inr rs" "fst (verify_chain (\<lambda>_. ''0'') rs)"
    using reachable_evidence_intact[OF demo_disk_reach, of "''cell_x''"] by (auto simp: demo_disk_def)
  moreover from this(1) have "length rs = 2" by (auto simp: disk_read_def demo_disk_def)
  ultimately show ?thesis by blast
qed

theorem evidence_tail_commits_witness:
  "map (body_text (\<lambda>_. ''0'')) (er_events demo_evidence ''cell_x'') = map (body_text (\<lambda>_. ''0'')) (er_events demo_evidence ''cell_x'')"
proof -
  have "fst (verify (\<lambda>_. ''0'') demo_evidence ''cell_x'')"
    using evidence.reach_inv[OF demo_evidence_reach] by (simp add: evidence_inv_def)
  then obtain t where t: "verify_chain (\<lambda>_. ''0'') (er_events demo_evidence ''cell_x'') = (True, t)"
    by (metis (full_types) prod.collapse verify_def)
  have "\<exists>r. er_events demo_evidence ''cell_x'' = [r]"
    by (simp add: demo_evidence_def append_unfold empty_root_def Let_def)
  then have "inj_on sha256_hex (set (chain_texts (\<lambda>_. ''0'') [] (er_events demo_evidence ''cell_x'')
      @ chain_texts (\<lambda>_. ''0'') [] (er_events demo_evidence ''cell_x'')))"
    by auto
  from evidence_tail_commits[OF t t refl this] show ?thesis .
qed

end
