(* ===== verification/CoreCapabilities.thy ===== *)
theory CoreCapabilities
  imports Idempotency Recovery Evidence
begin

text \<open>
  The canonical path of externally visible effects (\<open>src/src/swfactory/core_capabilities.py\<close>): one
  Cell, one epoch, one operation key and one immutable intent, carried through the Cell store, the
  operation journal and the evidence chain.

  \<open>core\<close> is the state of \<open>CoreCapabilityRuntime\<close>: the three stores and the state the Cell store's
  revocation callback acts on. \<open>core_activate\<close>, \<open>bind_airflow\<close> and \<open>execute_external\<close> are its operations,
  \<open>inspect\<close> its read. An exception leaves what the stores had committed before it. The provider and the
  reconciler of \<open>execute_external\<close> are parameters on a world of their own, as in the journal, and \<open>ck\<close>
  gives the clock readings of one call.

  \<open>operator_projection\<close> and \<open>recovery_plan\<close> are the projections of
  \<open>src/src/swfactory/backend/core_service.py\<close>.
\<close>

datatype core_error =
    CoreCapabilityError string
  | CellNotActive
  | CoreValueError string
  | PermissionDenied
  | CoreAuthority authority_error
  | CoreCell cell_error
  | CoreJournal op_error
  | CoreEvidence evidence_error
  | CoreContract contract_error

record 'w core =
  co_cells :: cell_store
  co_world :: 'w
  co_journal :: journal
  co_evidence :: evidence_root

definition TERMINAL_EFFECT_RESOURCES :: "resource_kind list" where
  "TERMINAL_EFFECT_RESOURCES = [CLEANUP, EVIDENCE]"

record airflow_binding =
  ab_cell_id :: string
  ab_epoch :: int
  ab_dag_id :: string
  ab_run_id :: string
  ab_map_index :: "int option"

definition validate_binding :: "airflow_binding \<Rightarrow> core_error option" where
  "validate_binding b =
     (if \<not> is_cell_id (ab_cell_id b) then Some (CoreValueError ''cell id'')
      else if ab_epoch b < 1 then Some (CoreValueError ''epoch'')
      else if py_strip (ab_dag_id b) = [] \<or> py_strip (ab_run_id b) = [] then Some (CoreValueError ''dag_id and run_id'')
      else if (case ab_map_index b of None \<Rightarrow> False | Some i \<Rightarrow> i < 0) then Some (CoreValueError ''map_index'')
      else None)"

record core_request =
  rq_airflow :: airflow_binding
  rq_security :: security_context
  rq_resource :: resource_kind
  rq_capability :: capability
  rq_actor :: string
  rq_kind :: string
  rq_expected_policy_digest :: string
  rq_target_tenant :: string
  rq_parts :: "string list"
  rq_secret_scope :: "string option"
  rq_replay_safe :: "bool option"
  rq_external_key :: "string option"
  rq_intent_digest :: "string option"

definition validate_sha256_digest :: "string \<Rightarrow> bool" where
  "validate_sha256_digest s = (startswith s ''sha256:'' \<and> hex64 (removeprefix s ''sha256:''))"

definition validate_request :: "core_request \<Rightarrow> core_error option" where
  "validate_request r =
     (case validate_binding (rq_airflow r) of
        Some e \<Rightarrow> Some e
      | None \<Rightarrow>
        (case validate_context (rq_security r) of
           Inl e \<Rightarrow> Some (CoreContract e)
         | Inr _ \<Rightarrow>
           if sc_cell_id (rq_security r) \<noteq> ab_cell_id (rq_airflow r) \<or> sc_epoch (rq_security r) \<noteq> ab_epoch (rq_airflow r)
           then Some (CoreCapabilityError ''identities'')
           else if py_strip (rq_actor r) = [] then Some (CoreValueError ''actor'')
           else if py_strip (rq_kind r) = [] \<or> 128 < length (rq_kind r) then Some (CoreValueError ''kind'')
           else if \<not> startswith (rq_expected_policy_digest r) ''policy:'' then Some (CoreValueError ''policy digest'')
           else if py_strip (rq_target_tenant r) = [] then Some (CoreValueError ''tenant'')
           else if (case rq_external_key r of None \<Rightarrow> False | Some k \<Rightarrow> py_strip k = [] \<or> 256 < length k)
           then Some (CoreValueError ''operation key'')
           else if (case rq_intent_digest r of None \<Rightarrow> False | Some d \<Rightarrow> \<not> validate_sha256_digest d)
           then Some (CoreValueError ''intent digest'')
           else None))"

record core_result =
  cr_operation_key :: string
  cr_result :: json
  cr_evidence_digest :: string
  cr_replayed :: bool

section \<open>Checks\<close>

definition current_cell :: "string \<Rightarrow> int \<Rightarrow> cell_store \<Rightarrow> core_error + cell_row" where
  "current_cell c e s =
     (case get_cell c s of
        None \<Rightarrow> Inl (CoreCell CellKeyError)
      | Some cell \<Rightarrow> if cell_epoch cell \<noteq> e then Inl (CoreCell StaleEpoch) else Inr cell)"

definition refuse_terminal_effect :: "cell_row \<Rightarrow> resource_kind \<Rightarrow> bool" where
  "refuse_terminal_effect cell r = (cell_state cell \<in> set TERMINAL_STATES \<and> r \<notin> set TERMINAL_EFFECT_RESOURCES)"

definition airflow_owner :: "cell_row \<Rightarrow> airflow_binding \<Rightarrow> bool" where
  "airflow_owner cell b =
     ((cell_dag_id cell, cell_run_id cell, cell_map_index cell) = (Some (ab_dag_id b), Some (ab_run_id b), ab_map_index b))"

definition require_policy :: "cell_row \<Rightarrow> core_error + string" where
  "require_policy cell =
     (case cell_policy_digest cell of
        None \<Rightarrow> Inl (CoreCapabilityError ''no policy'')
      | Some d \<Rightarrow> if startswith d ''policy:'' then Inr d else Inl (CoreCapabilityError ''no policy''))"

definition already_committed :: "string \<Rightarrow> journal \<Rightarrow> bool" where
  "already_committed key j = (case get_op key j of None \<Rightarrow> False | Some r \<Rightarrow> op_state r = Committed)"

section \<open>Digests\<close>

definition core_trace_id :: "string \<Rightarrow> int \<Rightarrow> string" where
  "core_trace_id c e = take 32 (sha256_hex (''trace'' @ NUL @ c @ NUL @ int_str e))"

definition result_digest :: "(real \<Rightarrow> string) \<Rightarrow> json \<Rightarrow> string" where
  "result_digest fr v = ''result:'' @ sha256_hex (jdumps True fr (jcanon v))"

definition request_digest :: "(real \<Rightarrow> string) \<Rightarrow> core_request \<Rightarrow> string \<Rightarrow> string" where
  "request_digest fr r key =
     ''sha256:'' @ sha256_hex (jdumps True fr (jcanon (JObj
        [(''cell_id'', JStr (ab_cell_id (rq_airflow r))), (''epoch'', JInt (ab_epoch (rq_airflow r))),
         (''dag_id'', JStr (ab_dag_id (rq_airflow r))), (''run_id'', JStr (ab_run_id (rq_airflow r))),
         (''map_index'', (case ab_map_index (rq_airflow r) of None \<Rightarrow> JNull | Some i \<Rightarrow> JInt i)),
         (''resource'', JStr (resource_str (rq_resource r))), (''capability'', JStr (capability_str (rq_capability r))),
         (''actor'', JStr (rq_actor r)), (''kind'', JStr (rq_kind r)),
         (''policy_digest'', JStr (rq_expected_policy_digest r)), (''target_tenant'', JStr (rq_target_tenant r)),
         (''parts'', JArr (map JStr (rq_parts r))), (''operation_key'', JStr key)])))"

definition request_key :: "core_request \<Rightarrow> string" where
  "request_key r =
     (case rq_external_key r of
        Some k \<Rightarrow> if k \<noteq> [] then k
                  else operation_key (rq_kind r) (ab_cell_id (rq_airflow r) # int_str (ab_epoch (rq_airflow r)) # rq_parts r)
      | None \<Rightarrow> operation_key (rq_kind r) (ab_cell_id (rq_airflow r) # int_str (ab_epoch (rq_airflow r)) # rq_parts r))"

definition request_intent :: "(real \<Rightarrow> string) \<Rightarrow> core_request \<Rightarrow> string" where
  "request_intent fr r =
     (case rq_intent_digest r of
        Some d \<Rightarrow> if d \<noteq> [] then d else request_digest fr r (request_key r)
      | None \<Rightarrow> request_digest fr r (request_key r))"

definition request_envelope :: "core_request \<Rightarrow> mutation_envelope" where
  "request_envelope r =
     \<lparr>me_cell_id = ab_cell_id (rq_airflow r), me_epoch = ab_epoch (rq_airflow r), me_operation_key = request_key r,
      me_policy_digest = rq_expected_policy_digest r,
      me_trace_id = core_trace_id (ab_cell_id (rq_airflow r)) (ab_epoch (rq_airflow r)), me_actor = rq_actor r\<rparr>"

section \<open>Effects recorded once\<close>

text \<open>\<open>_cell_effect_once\<close>: a duplicate is accepted when the latest event of that key is the same effect.\<close>

definition cell_effect_once :: "mutation \<Rightarrow> time \<Rightarrow> cell_store \<Rightarrow> core_error option \<times> cell_store" where
  "cell_effect_once m now s =
     (case record_mutation m now s of
        (Inr _, s') \<Rightarrow> (None, s')
      | (Inl DuplicateOperation, s') \<Rightarrow>
          (case List.find (\<lambda>e. ev_key e = mu_key m) (rev (history (mu_cell m) s')) of
             None \<Rightarrow> (Some (CoreCapabilityError ''no matching event''), s')
           | Some e \<Rightarrow>
               if ev_kind e \<noteq> mu_kind m \<or> ev_payload e \<noteq> jcanon (mu_payload m)
               then (Some (CoreCapabilityError ''different Cell effect''), s')
               else (None, s'))
      | (Inl e, s') \<Rightarrow> (Some (CoreCell e), s'))"

text \<open>The fields of an evidence record; the files hold only records of the writer, whose epoch is an
  integer and whose payload is a mapping.\<close>

definition record_epoch :: "json \<Rightarrow> int" where
  "record_epoch r = (case jget ''epoch'' r of Some (JInt i) \<Rightarrow> i | _ \<Rightarrow> -1)"

definition record_payload :: "json \<Rightarrow> json" where
  "record_payload r = py_or (jget0 ''payload'' r) (JObj [])"

definition mutation_evidence_once ::
  "(json \<Rightarrow> string) \<Rightarrow> (real \<Rightarrow> string) \<Rightarrow> mutation_envelope \<Rightarrow> string \<Rightarrow> json \<Rightarrow> time \<Rightarrow> evidence_root
     \<Rightarrow> (core_error + json) \<times> evidence_root" where
  "mutation_evidence_once rep fr env kind payload now er =
     (case List.find (\<lambda>r. jget0 ''operation_key'' (record_payload r) = JStr (me_operation_key env))
             (rev (read_events er (me_cell_id env))) of
        Some r \<Rightarrow>
          if record_epoch r \<noteq> me_epoch env \<or> jget0 ''policy_digest'' r \<noteq> JStr (me_policy_digest env)
          then (Inl (CoreCapabilityError ''evidence of another epoch or policy''), er)
          else if jget0 ''kind'' r \<noteq> JStr kind then (Inl (CoreCapabilityError ''evidence of another kind''), er)
          else (Inr r, er)
      | None \<Rightarrow>
          (case mutation_evidence rep fr env kind payload now er of
             (Inl e, er') \<Rightarrow> (Inl (CoreEvidence e), er')
           | (Inr r, er') \<Rightarrow> (Inr r, er')))"

definition policy_evidence_once ::
  "(json \<Rightarrow> string) \<Rightarrow> (real \<Rightarrow> string) \<Rightarrow> cell_row \<Rightarrow> canonical_policy \<Rightarrow> string \<Rightarrow> time \<Rightarrow> evidence_root
     \<Rightarrow> (core_error + json) \<times> evidence_root" where
  "policy_evidence_once rep fr cell policy actor now er =
     (case policy_digest fr policy of
        Inl e \<Rightarrow> (Inl (CoreContract e), er)
      | Inr digest \<Rightarrow>
          (case List.find (\<lambda>r. jget0 ''kind'' r = JStr ''policy_activation'' \<and> record_epoch r = cell_epoch cell
                               \<and> jget0 ''policy_digest'' (record_payload r) = JStr digest)
                  (rev (read_events er (cell_id cell))) of
             Some r \<Rightarrow> (Inr r, er)
           | None \<Rightarrow>
               (case policy_activation rep fr (cell_id cell) (cell_epoch cell) policy actor now er of
                  (Inl e, er') \<Rightarrow> (Inl (CoreEvidence e), er')
                | (Inr r, er') \<Rightarrow> (Inr r, er'))))"

definition airflow_evidence_once ::
  "(json \<Rightarrow> string) \<Rightarrow> (real \<Rightarrow> string) \<Rightarrow> cell_row \<Rightarrow> airflow_binding \<Rightarrow> string \<Rightarrow> time \<Rightarrow> evidence_root
     \<Rightarrow> (core_error + json) \<times> evidence_root" where
  "airflow_evidence_once rep fr cell b key now er =
     (case require_policy cell of
        Inl e \<Rightarrow> (Inl e, er)
      | Inr policy \<Rightarrow>
          mutation_evidence_once rep fr
            \<lparr>me_cell_id = ab_cell_id b, me_epoch = ab_epoch b, me_operation_key = key, me_policy_digest = policy,
             me_trace_id = core_trace_id (ab_cell_id b) (ab_epoch b), me_actor = ''airflow''\<rparr>
            ''airflow_bound''
            (JObj [(''dag_id'', JStr (ab_dag_id b)), (''run_id'', JStr (ab_run_id b)),
                   (''map_index'', (case ab_map_index b of None \<Rightarrow> JNull | Some i \<Rightarrow> JInt i))]) now er)"

section \<open>Operations\<close>

text \<open>\<open>activate\<close>: the Cell (new epoch or the one already active), its policy digest, its evidence.\<close>

definition core_activate_cell ::
  "'w revoker option \<Rightarrow> cell_identity \<Rightarrow> string \<Rightarrow> string \<Rightarrow> time \<Rightarrow> 'w core \<Rightarrow> (core_error + cell_row) \<times> 'w core" where
  "core_activate_cell rv ident actor digest now c =
     (case activate rv ident actor now (co_cells c, co_world c) of
        (Inr cell, s, w) \<Rightarrow> (Inr cell, c\<lparr>co_cells := s, co_world := w\<rparr>)
      | (Inl CellBusy, s, w) \<Rightarrow>
          (let c1 = c\<lparr>co_cells := s, co_world := w\<rparr> in
           case get_cell (stable_id ident) s of
             None \<Rightarrow> (Inl (CoreCell CellKeyError), c1)
           | Some cell \<Rightarrow>
               if cell_policy_digest cell \<notin> set [None, Some digest]
               then (Inl (CoreCapabilityError ''different policy digest''), c1)
               else (Inr cell, c1))
      | (Inl e, s, w) \<Rightarrow> (Inl (CoreCell e), c\<lparr>co_cells := s, co_world := w\<rparr>))"

definition core_activate_policy ::
  "'w revoker option \<Rightarrow> string \<Rightarrow> time \<Rightarrow> cell_row \<Rightarrow> 'w core \<Rightarrow> (core_error + cell_row) \<times> 'w core" where
  "core_activate_policy rv digest now cell c =
     (let key = operation_key ''policy_activation'' [cell_id cell, int_str (cell_epoch cell), digest] in
      case patch rv (cell_id cell) (cell_epoch cell) key [F_policy_digest (Some digest)] now (co_cells c, co_world c) of
        (Inr cell', s, w) \<Rightarrow> (Inr cell', c\<lparr>co_cells := s, co_world := w\<rparr>)
      | (Inl DuplicateOperation, s, w) \<Rightarrow>
          (let c1 = c\<lparr>co_cells := s, co_world := w\<rparr> in
           case get_cell (cell_id cell) s of
             None \<Rightarrow> (Inl (CoreCell CellKeyError), c1)
           | Some cell' \<Rightarrow>
               if cell_policy_digest cell' \<noteq> Some digest then (Inl (CoreCapabilityError ''key reused''), c1)
               else (Inr cell', c1))
      | (Inl e, s, w) \<Rightarrow> (Inl (CoreCell e), c\<lparr>co_cells := s, co_world := w\<rparr>))"

definition core_activate ::
  "(json \<Rightarrow> string) \<Rightarrow> (real \<Rightarrow> string) \<Rightarrow> 'w revoker option \<Rightarrow> cell_identity \<Rightarrow> string \<Rightarrow> canonical_policy
     \<Rightarrow> (nat \<Rightarrow> time) \<Rightarrow> 'w core \<Rightarrow> (core_error + cell_row) \<times> 'w core" where
  "core_activate rep fr rv ident actor policy ck c =
     (if py_strip (cp_repo policy) \<noteq> py_strip (id_repo ident) \<or> py_strip (cp_target policy) \<noteq> py_strip (id_target ident)
      then (Inl (CoreCapabilityError ''policy identity''), c)
      else case policy_digest fr policy of
        Inl e \<Rightarrow> (Inl (CoreContract e), c)
      | Inr digest \<Rightarrow>
          (case core_activate_cell rv ident actor digest (ck 0) c of
             (Inl e, c1) \<Rightarrow> (Inl e, c1)
           | (Inr cell, c1) \<Rightarrow>
               (case core_activate_policy rv digest (ck 1) cell c1 of
                  (Inl e, c2) \<Rightarrow> (Inl e, c2)
                | (Inr cell', c2) \<Rightarrow>
                    (case policy_evidence_once rep fr cell' policy actor (ck 2) (co_evidence c2) of
                       (Inl e, er) \<Rightarrow> (Inl e, c2\<lparr>co_evidence := er\<rparr>)
                     | (Inr _, er) \<Rightarrow> (Inr cell', c2\<lparr>co_evidence := er\<rparr>)))))"

definition binding_key :: "airflow_binding \<Rightarrow> string" where
  "binding_key b = operation_key ''airflow_bind''
     [ab_cell_id b, int_str (ab_epoch b), ab_dag_id b, ab_run_id b,
      int_str (case ab_map_index b of Some i \<Rightarrow> i | None \<Rightarrow> -1)]"

definition bind_finish ::
  "(json \<Rightarrow> string) \<Rightarrow> (real \<Rightarrow> string) \<Rightarrow> airflow_binding \<Rightarrow> time \<Rightarrow> cell_row \<Rightarrow> 'w core \<Rightarrow> (core_error + cell_row) \<times> 'w core" where
  "bind_finish rep fr b now cell c =
     (case airflow_evidence_once rep fr cell b (binding_key b) now (co_evidence c) of
        (Inl e, er) \<Rightarrow> (Inl e, c\<lparr>co_evidence := er\<rparr>)
      | (Inr _, er) \<Rightarrow> (Inr cell, c\<lparr>co_evidence := er\<rparr>))"

definition bind_airflow ::
  "(json \<Rightarrow> string) \<Rightarrow> (real \<Rightarrow> string) \<Rightarrow> 'w revoker option \<Rightarrow> airflow_binding \<Rightarrow> (nat \<Rightarrow> time) \<Rightarrow> 'w core
     \<Rightarrow> (core_error + cell_row) \<times> 'w core" where
  "bind_airflow rep fr rv b ck c =
     (case validate_binding b of
        Some e \<Rightarrow> (Inl e, c)
      | None \<Rightarrow>
        (case current_cell (ab_cell_id b) (ab_epoch b) (co_cells c) of
           Inl e \<Rightarrow> (Inl e, c)
         | Inr cell \<Rightarrow>
           if refuse_terminal_effect cell AIRFLOW_RUN then (Inl CellNotActive, c)
           else case validate_authority \<lparr>ma_resource = AIRFLOW_RUN, ma_actor = ''airflow'', ma_cell_id = ab_cell_id b,
                       ma_epoch = ab_epoch b, ma_operation_key = binding_key b\<rparr> (cell_epoch cell) None of
             Some e \<Rightarrow> (Inl (CoreAuthority e), c)
           | None \<Rightarrow>
             if cell_run_id cell \<noteq> None then
               (if \<not> airflow_owner cell b then (Inl (CoreCapabilityError ''bound to another run''), c)
                else bind_finish rep fr b (ck 0) cell c)
             else
               (case patch rv (ab_cell_id b) (ab_epoch b) (binding_key b)
                       [F_dag_id (Some (ab_dag_id b)), F_run_id (Some (ab_run_id b)), F_map_index (ab_map_index b),
                        F_state ''running''] (ck 0) (co_cells c, co_world c) of
                  (Inl e, s, w) \<Rightarrow> (Inl (CoreCell e), c\<lparr>co_cells := s, co_world := w\<rparr>)
                | (Inr cell', s, w) \<Rightarrow> bind_finish rep fr b (ck 1) cell' (c\<lparr>co_cells := s, co_world := w\<rparr>))))"

text \<open>The callbacks handed to the journal redact what the caller's callbacks return.\<close>

definition durable_call :: "'x provider \<Rightarrow> 'x provider" where
  "durable_call fn x = (case fn x of (Inl e, x') \<Rightarrow> (Inl e, x') | (Inr v, x') \<Rightarrow> (Inr (redact v), x'))"

definition reconcile_redacted :: "'x reconciler \<Rightarrow> 'x reconciler" where
  "reconcile_redacted rc x =
     (case rc x of
        (Inl e, x') \<Rightarrow> (Inl e, x')
      | (Inr out, x') \<Rightarrow> (Inr (out\<lparr>mo_result := redact (mo_result out), mo_evidence := redact (mo_evidence out)\<rparr>), x'))"

definition request_call :: "(real \<Rightarrow> string) \<Rightarrow> core_request \<Rightarrow> retry_budget option \<Rightarrow> bool \<Rightarrow> string \<Rightarrow> exec_call" where
  "request_call fr r budget observe_first owner =
     \<lparr>xc_ref = \<lparr>ref_cell = ab_cell_id (rq_airflow r), ref_epoch = ab_epoch (rq_airflow r), ref_kind = rq_kind r,
                ref_key = request_key r\<rparr>,
      xc_safe = rq_replay_safe r, xc_budget = budget, xc_digest = Some (request_intent fr r),
      xc_observe_first = observe_first, xc_owner = owner\<rparr>"

text \<open>Every check before the journal is reached: the Cell and whether the key is already committed, or the
  first refusal.\<close>

definition admit_effect :: "core_request \<Rightarrow> cell_store \<Rightarrow> journal \<Rightarrow> core_error + cell_row \<times> bool" where
  "admit_effect r s j =
     (case validate_request r of
        Some e \<Rightarrow> Inl e
      | None \<Rightarrow>
        (case current_cell (ab_cell_id (rq_airflow r)) (ab_epoch (rq_airflow r)) s of
           Inl e \<Rightarrow> Inl e
         | Inr cell \<Rightarrow>
           if \<not> airflow_owner cell (rq_airflow r) then Inl (CoreCapabilityError ''not the bound run'')
           else case require_policy cell of
             Inl e \<Rightarrow> Inl e
           | Inr current_policy \<Rightarrow>
             (case validate_mutation_policy (request_envelope r) current_policy of
                Some e \<Rightarrow> Inl (CoreEvidence e)
              | None \<Rightarrow>
                (case authorize (rq_security r) (rq_capability r) (rq_target_tenant r) (rq_secret_scope r) of
                   Inl e \<Rightarrow> Inl (CoreContract e)
                 | Inr False \<Rightarrow> Inl PermissionDenied
                 | Inr True \<Rightarrow>
                   (case validate_authority \<lparr>ma_resource = rq_resource r, ma_actor = rq_actor r,
                           ma_cell_id = ab_cell_id (rq_airflow r), ma_epoch = ab_epoch (rq_airflow r),
                           ma_operation_key = request_key r\<rparr> (cell_epoch cell) None of
                      Some e \<Rightarrow> Inl (CoreAuthority e)
                    | None \<Rightarrow>
                      let replayed = already_committed (request_key r) j in
                      if \<not> replayed \<and> refuse_terminal_effect cell (rq_resource r) then Inl CellNotActive
                      else Inr (cell, replayed))))))"

definition effect_payload :: "(real \<Rightarrow> string) \<Rightarrow> core_request \<Rightarrow> json \<Rightarrow> (string \<times> json) list" where
  "effect_payload fr r result =
     [(''resource'', JStr (resource_str (rq_resource r))), (''capability'', JStr (capability_str (rq_capability r))),
      (''status'', JStr ''committed''), (''intent_digest'', JStr (request_intent fr r)),
      (''result_digest'', JStr (result_digest fr result))]"

definition effect_mutation :: "(real \<Rightarrow> string) \<Rightarrow> core_request \<Rightarrow> json \<Rightarrow> mutation" where
  "effect_mutation fr r result =
     \<lparr>mu_cell = ab_cell_id (rq_airflow r), mu_epoch = ab_epoch (rq_airflow r), mu_key = request_key r,
      mu_kind = ''external_mutation'', mu_payload = JObj (effect_payload fr r result)\<rparr>"

text \<open>After the journal returned a result: the Cell's history, the evidence, the answer.\<close>

definition record_effect ::
  "(json \<Rightarrow> string) \<Rightarrow> (real \<Rightarrow> string) \<Rightarrow> core_request \<Rightarrow> bool \<Rightarrow> (nat \<Rightarrow> time) \<Rightarrow> json \<Rightarrow> 'w core
     \<Rightarrow> (core_error + core_result) \<times> 'w core" where
  "record_effect rep fr r replayed ck result c =
     (case cell_effect_once (effect_mutation fr r result) (ck 7) (co_cells c) of
        (Some e, s) \<Rightarrow> (Inl e, c\<lparr>co_cells := s\<rparr>)
      | (None, s) \<Rightarrow>
          (case mutation_evidence_once rep fr (request_envelope r) ''external_mutation''
                  (JObj (effect_payload fr r result @ [(''result'', result)])) (ck 8) (co_evidence c) of
             (Inl e, er) \<Rightarrow> (Inl e, c\<lparr>co_cells := s, co_evidence := er\<rparr>)
           | (Inr evidence, er) \<Rightarrow>
               (Inr \<lparr>cr_operation_key = request_key r, cr_result = result,
                     cr_evidence_digest = py_str rep (jget0 ''digest'' evidence), cr_replayed = replayed\<rparr>,
                c\<lparr>co_cells := s, co_evidence := er\<rparr>)))"

definition execute_external ::
  "(json \<Rightarrow> string) \<Rightarrow> (real \<Rightarrow> string) \<Rightarrow> core_request \<Rightarrow> 'x provider \<Rightarrow> 'x reconciler option \<Rightarrow> retry_budget option
     \<Rightarrow> bool \<Rightarrow> string \<Rightarrow> (nat \<Rightarrow> time) \<Rightarrow> 'w core \<Rightarrow> 'x \<Rightarrow> (core_error + core_result) \<times> 'w core \<times> 'x" where
  "execute_external rep fr r fn rc budget observe_first owner ck c x =
     (case admit_effect r (co_cells c) (co_journal c) of
        Inl e \<Rightarrow> (Inl e, c, x)
      | Inr (cell, replayed) \<Rightarrow>
          (case execute (request_call fr r budget observe_first owner) (durable_call fn)
                  (map_option reconcile_redacted rc) ck (co_journal c) x of
             (Inl e, j, x') \<Rightarrow> (Inl (CoreJournal e), c\<lparr>co_journal := j\<rparr>, x')
           | (Inr result, j, x') \<Rightarrow>
               (case record_effect rep fr r replayed ck result (c\<lparr>co_journal := j\<rparr>) of
                  (res, c') \<Rightarrow> (res, c', x'))))"

section \<open>Inspection and recovery plans\<close>

record inspection =
  in_cell :: cell_row
  in_history :: "cell_event list"
  in_unresolved :: "op_row list"
  in_verified :: bool
  in_tail :: string

definition inspect :: "(real \<Rightarrow> string) \<Rightarrow> string \<Rightarrow> 'w core \<Rightarrow> core_error + inspection" where
  "inspect fr cid c =
     (case get_cell cid (co_cells c) of
        None \<Rightarrow> Inl (CoreCell CellKeyError)
      | Some cell \<Rightarrow>
          (let unresolved_rows = filter (\<lambda>row. op_cell row = cid) (unresolved 1000 False 0 (co_journal c));
               v = verify fr (co_evidence c) cid in
           Inr \<lparr>in_cell = cell, in_history = history cid (co_cells c), in_unresolved = unresolved_rows,
                in_verified = fst v, in_tail = snd v\<rparr>))"

fun collect :: "('a \<Rightarrow> 'e + 'b) \<Rightarrow> 'a list \<Rightarrow> 'e + 'b list" where
  "collect f [] = Inr []"
| "collect f (x # xs) =
     (case f x of Inl e \<Rightarrow> Inl e | Inr y \<Rightarrow> (case collect f xs of Inl e \<Rightarrow> Inl e | Inr ys \<Rightarrow> Inr (y # ys)))"

datatype plan_error = Refused404 | PlanError recovery_error

definition recovery_entry :: "(json \<Rightarrow> string) \<Rightarrow> int \<Rightarrow> time \<Rightarrow> op_row \<Rightarrow> plan_error + json" where
  "recovery_entry rep epoch now row =
     (case plan_recovery rep (row_dict row) epoch now of
        Inl e \<Rightarrow> Inl (PlanError e)
      | Inr d \<Rightarrow>
          (case decision_dict d of
             Inl e \<Rightarrow> Inl (PlanError e)
           | Inr doc \<Rightarrow> Inr (JObj [(''operation_key'', JStr (op_key row)), (''state'', JStr (state_str (op_state row))),
               (''observation'', observation_json row), (''last_error'', jopt (op_last_error row)), (''next_action'', doc)])))"

definition operator_recovery :: "(json \<Rightarrow> string) \<Rightarrow> (real \<Rightarrow> string) \<Rightarrow> string \<Rightarrow> time \<Rightarrow> 'w core \<Rightarrow> plan_error + inspection \<times> json list" where
  "operator_recovery rep fr cid now c =
     (case inspect fr cid c of
        Inl _ \<Rightarrow> Inl Refused404
      | Inr truth \<Rightarrow>
          (case collect (recovery_entry rep (cell_epoch (in_cell truth)) now) (in_unresolved truth) of
             Inl e \<Rightarrow> Inl e
           | Inr entries \<Rightarrow> Inr (truth, entries)))"

definition recovery_plan :: "(json \<Rightarrow> string) \<Rightarrow> string \<Rightarrow> time \<Rightarrow> 'w core \<Rightarrow> plan_error + op_row \<times> cell_row \<times> json" where
  "recovery_plan rep key now c =
     (case get_op key (co_journal c) of
        None \<Rightarrow> Inl Refused404
      | Some row \<Rightarrow>
          (case get_cell (op_cell row) (co_cells c) of
             None \<Rightarrow> Inl Refused404
           | Some cell \<Rightarrow>
               (case plan_recovery rep (row_dict row) (cell_epoch cell) now of
                  Inl e \<Rightarrow> Inl (PlanError e)
                | Inr d \<Rightarrow>
                    (case decision_dict d of Inl e \<Rightarrow> Inl (PlanError e) | Inr doc \<Rightarrow> Inr (row, cell, doc)))))"

section \<open>The fence in front of the provider\<close>

text \<open>What the Cell, the journal and the request must say for an external effect to be attempted.\<close>

definition effect_permitted :: "core_request \<Rightarrow> cell_store \<Rightarrow> journal \<Rightarrow> bool" where
  "effect_permitted r s j \<longleftrightarrow> (\<exists>cell.
     get_cell (ab_cell_id (rq_airflow r)) s = Some cell \<and> cell_epoch cell = ab_epoch (rq_airflow r)
     \<and> airflow_owner cell (rq_airflow r)
     \<and> cell_policy_digest cell = Some (rq_expected_policy_digest r)
     \<and> policy_digest_family (rq_expected_policy_digest r) = Inr 1
     \<and> sc_cell_id (rq_security r) = ab_cell_id (rq_airflow r) \<and> sc_epoch (rq_security r) = ab_epoch (rq_airflow r)
     \<and> sc_tenant (rq_security r) = rq_target_tenant r \<and> rq_capability r \<in> set (sc_capabilities (rq_security r))
     \<and> (rq_capability r = READ_SECRET \<longrightarrow> rq_secret_scope r \<in> Some ` set (sc_secret_scopes (rq_security r)))
     \<and> rq_actor r = (if rq_resource r = AIRFLOW_RUN then ''airflow'' else ''python-backend'')
     \<and> (cell_state cell \<in> set TERMINAL_STATES \<longrightarrow> rq_resource r \<in> {CLEANUP, EVIDENCE})
     \<and> \<not> already_committed (request_key r) j)"

lemma require_policy_Inr: "require_policy cell = Inr d \<Longrightarrow> cell_policy_digest cell = Some d"
  by (auto simp: require_policy_def split: option.splits if_splits)

lemma validate_mutation_policy_None:
  "validate_mutation_policy env d = None \<Longrightarrow> me_policy_digest env = d \<and> policy_digest_family d = Inr 1"
  by (auto simp: validate_mutation_policy_def validate_envelope_def require_current_policy_digest_def POLICY_SCHEMA_VERSION_def
      split: sum.splits contract_error.splits if_splits)

lemma authorize_True:
  "authorize sc cap tenant scope = Inr True \<Longrightarrow>
     sc_tenant sc = tenant \<and> cap \<in> set (sc_capabilities sc) \<and> (cap = READ_SECRET \<longrightarrow> scope \<in> Some ` set (sc_secret_scopes sc))"
  by (auto simp: authorize_def split: sum.splits if_splits option.splits)

lemma validate_request_None:
  "validate_request r = None \<Longrightarrow>
     sc_cell_id (rq_security r) = ab_cell_id (rq_airflow r) \<and> sc_epoch (rq_security r) = ab_epoch (rq_airflow r)"
  by (auto simp: validate_request_def split: option.splits sum.splits if_splits)

lemma current_cell_Inr [simp]: "current_cell c e s = Inr cell \<longleftrightarrow> get_cell c s = Some cell \<and> cell_epoch cell = e"
  by (auto simp: current_cell_def split: option.splits)

lemma admit_effect_Inr:
  assumes "admit_effect r s j = Inr (cell, replayed)"
  obtains d where "validate_request r = None"
    and "get_cell (ab_cell_id (rq_airflow r)) s = Some cell" and "cell_epoch cell = ab_epoch (rq_airflow r)"
    and "airflow_owner cell (rq_airflow r)" and "require_policy cell = Inr d"
    and "validate_mutation_policy (request_envelope r) d = None"
    and "authorize (rq_security r) (rq_capability r) (rq_target_tenant r) (rq_secret_scope r) = Inr True"
    and "validate_authority \<lparr>ma_resource = rq_resource r, ma_actor = rq_actor r, ma_cell_id = ab_cell_id (rq_airflow r),
           ma_epoch = ab_epoch (rq_airflow r), ma_operation_key = request_key r\<rparr> (cell_epoch cell) None = None"
    and "replayed = already_committed (request_key r) j"
    and "replayed \<or> \<not> refuse_terminal_effect cell (rq_resource r)"
  using assms unfolding admit_effect_def Let_def
  by (force split: option.splits sum.splits if_splits bool.splits)

lemma admit_effect_permitted:
  assumes "admit_effect r s j = Inr (cell, False)"
  shows "effect_permitted r s j"
proof -
  obtain d where a: "validate_request r = None"
    "get_cell (ab_cell_id (rq_airflow r)) s = Some cell" "cell_epoch cell = ab_epoch (rq_airflow r)"
    "airflow_owner cell (rq_airflow r)" "require_policy cell = Inr d"
    "validate_mutation_policy (request_envelope r) d = None"
    "authorize (rq_security r) (rq_capability r) (rq_target_tenant r) (rq_secret_scope r) = Inr True"
    "validate_authority \<lparr>ma_resource = rq_resource r, ma_actor = rq_actor r, ma_cell_id = ab_cell_id (rq_airflow r),
           ma_epoch = ab_epoch (rq_airflow r), ma_operation_key = request_key r\<rparr> (cell_epoch cell) None = None"
    "\<not> already_committed (request_key r) j" "\<not> refuse_terminal_effect cell (rq_resource r)"
    using admit_effect_Inr[OF assms] by metis
  have "d = rq_expected_policy_digest r" "policy_digest_family (rq_expected_policy_digest r) = Inr 1"
    using validate_mutation_policy_None[OF a(6)] by (auto simp: request_envelope_def)
  moreover have "rq_actor r = (if rq_resource r = AIRFLOW_RUN then ''airflow'' else ''python-backend'')"
    using a(8) unfolding validate_authority_None by simp
  moreover have "cell_state cell \<in> set TERMINAL_STATES \<longrightarrow> rq_resource r \<in> {CLEANUP, EVIDENCE}"
    using a(10) by (simp add: refuse_terminal_effect_def TERMINAL_EFFECT_RESOURCES_def)
  ultimately show ?thesis
    unfolding effect_permitted_def
    using a(2,3,4,9) require_policy_Inr[OF a(5)] authorize_True[OF a(7)] validate_request_None[OF a(1)] by blast
qed

text \<open>A key that is committed is answered from the journal whatever the callback.\<close>

lemma execute_committed_no_call:
  assumes "already_committed (ref_key (xc_ref c)) j"
  shows "execute c fn rc ck j x = execute c fn' rc ck j x"
proof -
  obtain row where row: "get_op (ref_key (xc_ref c)) j = Some row" "op_state row = Committed"
    using assms by (auto simp: already_committed_def split: option.splits)
  obtain res j1 where b: "exec_begin c True ck j = (res, j1)" by fastforce
  show ?thesis
  proof (cases res)
    case (Inl e)
    with row b show ?thesis by (simp add: execute_def)
  next
    case (Inr st)
    obtain row1 where "get_op (ref_key (xc_ref c)) j1 = Some row1" "op_state row1 = Committed"
      using begin_op_Inr[OF b[unfolded exec_begin_def Inr]] row by (auto simp: bind_policy_def)
    with row b Inr show ?thesis by (simp add: execute_def exec_loaded_def)
  qed
qed

text \<open>C1: the provider callback of an external effect is never reached unless the Cell stands at the
  request's epoch, is bound to the requesting Airflow run and carries the expected current policy digest,
  the tenant and capability were granted (and the secret scope, for a secret), the actor owns the
  resource, the Cell is not terminal (cleanup and evidence excepted), and the operation is not already
  committed: without all of these \<open>execute_external\<close> behaves the same for every callback.\<close>

theorem external_effect_fenced:
  assumes "\<not> effect_permitted r (co_cells c) (co_journal c)"
  shows "execute_external rep fr r fn rc budget obs owner ck c x = execute_external rep fr r fn' rc budget obs owner ck c x"
proof (cases "admit_effect r (co_cells c) (co_journal c)")
  case (Inl e)
  then show ?thesis by (simp add: execute_external_def)
next
  case (Inr p)
  obtain cell replayed where p: "p = (cell, replayed)" by (cases p)
  have "replayed" using admit_effect_permitted[of r "co_cells c" "co_journal c" cell] assms Inr p by (cases replayed) auto
  then have "already_committed (ref_key (xc_ref (request_call fr r budget obs owner))) (co_journal c)"
    using admit_effect_Inr[OF Inr[unfolded p]] by (auto simp: request_call_def)
  from execute_committed_no_call[OF this, of "durable_call fn" "map_option reconcile_redacted rc" ck x "durable_call fn'"]
  show ?thesis unfolding execute_external_def Inr p sum.case prod.case by simp
qed
section \<open>Repeating an effect\<close>

lemma record_mutation_cells: "record_mutation m now s = (res, s') \<Longrightarrow> cs_cells s' = cs_cells s"
  by (auto simp: record_mutation_def append_event_def split: option.splits sum.splits if_splits)

lemma cell_effect_once_None:
  assumes "cell_effect_once m now s = (None, s')" and "cells_inv s"
  obtains e where "e \<in> set (cs_events s')" "ev_cell e = mu_cell m" "ev_key e = mu_key m" "ev_kind e = mu_kind m"
    "ev_payload e = jcanon (mu_payload m)" "cells_inv s'" "cs_cells s' = cs_cells s"
    "epoch_of (mu_cell m) s' = Some (mu_epoch m)"
proof (cases "record_mutation m now s")
  case (Pair res t)
  have inv: "cells_inv t" using record_mutation_inv[OF assms(2)] Pair by simp
  have cells: "cs_cells t = cs_cells s" by (rule record_mutation_cells[OF Pair])
  show ?thesis
  proof (cases res)
    case (Inr u)
    then have t: "s' = t" using assms(1) Pair by (simp add: cell_effect_once_def)
    have "append_event m now s = Inr t" using Pair Inr by (auto simp: record_mutation_def split: sum.splits)
    then have "event_of m now s \<in> set (cs_events t)" "epoch_of (mu_cell m) s = Some (mu_epoch m)"
      by (auto simp: append_event_def event_of_def epoch_of_def split: option.splits if_splits)
    then show ?thesis using that[of "event_of m now s"] inv cells t
      by (simp add: epoch_of_def get_cell_def)
  next
    case (Inl e)
    then have e: "e = DuplicateOperation" and t: "s' = t"
      using assms(1) Pair by (cases e; auto simp: cell_effect_once_def split: option.splits if_splits)+
    have st: "t = s" "epoch_of (mu_cell m) s = Some (mu_epoch m)"
      using Pair Inl e by (auto simp: record_mutation_def append_event_def epoch_of_def split: sum.splits option.splits if_splits)
    obtain ev where f: "List.find (\<lambda>e. ev_key e = mu_key m) (rev (history (mu_cell m) t)) = Some ev"
      and k: "ev_kind ev = mu_kind m" "ev_payload ev = jcanon (mu_payload m)"
      using assms(1) Pair Inl e by (auto simp: cell_effect_once_def split: option.splits if_splits)
    have "ev \<in> set (history (mu_cell m) t)" "ev_key ev = mu_key m"
      using find_in[OF f] by simp_all
    then show ?thesis using that[of ev] k inv cells t st by (auto simp: history_def)
  qed
qed

lemma cell_effect_again:
  assumes "cell_effect_once m now s = (None, s')" and "cells_inv s"
  shows "cell_effect_once m now' s' = (None, s')"
proof -
  obtain e where e: "e \<in> set (cs_events s')" "ev_cell e = mu_cell m" "ev_key e = mu_key m" "ev_kind e = mu_kind m"
    "ev_payload e = jcanon (mu_payload m)" and inv: "cells_inv s'" and ep: "epoch_of (mu_cell m) s' = Some (mu_epoch m)"
    by (rule cell_effect_once_None[OF assms])
  have "list_ex (same_event m) (cs_events s')" using e by (auto simp: list_ex_iff same_event_def)
  then have r: "record_mutation m now' s' = (Inl DuplicateOperation, s')"
    using ep by (auto simp: record_mutation_def append_event_def epoch_of_def split: option.splits)
  have "List.find (\<lambda>e. ev_key e = mu_key m) (rev (history (mu_cell m) s')) = Some e"
  proof (rule find_unique)
    fix x assume "x \<in> set (rev (history (mu_cell m) s'))" "ev_key x = mu_key m"
    then have "x \<in> set (cs_events s')" "event_id x = event_id e" using e by (auto simp: history_def event_id_def)
    then show "x = e" using inv e(1) by (auto simp: cells_inv_def primary_key_def distinct_map dest: inj_onD)
  qed (use e in \<open>auto simp: history_def\<close>)
  then show ?thesis using r e by (simp add: cell_effect_once_def)
qed

lemma not_secret_keys: "\<not> looks_secret_key ''operation_key''" "\<not> looks_secret_key ''actor''" "\<not> looks_secret_key ''mutation''"
proof -
  have c: "casefold ''operation_key'' = ''operation_key''" "casefold ''actor'' = ''actor''" "casefold ''mutation'' = ''mutation''"
    by (simp_all add: casefold_def to_lower_def)
  have u: "casefold ''_TOKEN'' = ''_token''" "casefold ''_SECRET'' = ''_secret''" "casefold ''_PASSWORD'' = ''_password''"
    by code_simp+
  show "\<not> looks_secret_key ''operation_key''" "\<not> looks_secret_key ''actor''" "\<not> looks_secret_key ''mutation''"
    by (simp_all add: looks_secret_key_def c u secret_words_def startswith_def endswith_def)
qed

lemma redact_payload:
  "redact (JObj [(''operation_key'', JStr k), (''actor'', JStr a), (''mutation'', v)]) =
     JObj [(''operation_key'', JStr (redact_text k)), (''actor'', JStr (redact_text a)), (''mutation'', redact_under (Some ''mutation'') v)]"
  using not_secret_keys by (simp add: redact_def redact_under.simps[of _ "JObj _"] redact_under.simps[of _ "JStr _"])

lemma mutation_evidence_Inr:
  assumes "mutation_evidence rep fr env kind payload now er = (Inr rec, er')"
    and "redact_text (me_operation_key env) = me_operation_key env"
  shows "er_events er' (me_cell_id env) = er_events er (me_cell_id env) @ [jcanon rec]"
    and "jget0 ''operation_key'' (record_payload (jcanon rec)) = JStr (me_operation_key env)"
    and "record_epoch (jcanon rec) = me_epoch env" and "jget0 ''policy_digest'' (jcanon rec) = JStr (me_policy_digest env)"
    and "jget0 ''kind'' (jcanon rec) = JStr kind" and "jget0 ''digest'' (jcanon rec) = jget0 ''digest'' rec"
proof -
  let ?pay = "JObj [(''operation_key'', JStr (me_operation_key env)), (''actor'', JStr (me_actor env)), (''mutation'', payload)]"
  have a: "append_evidence rep fr (me_cell_id env) (me_epoch env) kind (redact ?pay) (Some (me_policy_digest env))
      (Some \<lparr>tc_trace_id = me_trace_id env, tc_span_id = span_id (me_trace_id env) (me_operation_key env)\<rparr>) now er = (Inr rec, er')"
    using assms(1) by (auto simp: mutation_evidence_def trusted_append_def split: sum.splits contract_error.splits)
  obtain body where r: "rec = chained fr (tail_digest rep (er_events er (me_cell_id env))) body"
    and er': "er' = er\<lparr>er_events := (er_events er)(me_cell_id env := er_events er (me_cell_id env) @ [jcanon rec])\<rparr>"
    and b: "body = evidence_envelope (me_cell_id env) (me_epoch env) (Some (me_policy_digest env))
       \<lparr>tc_trace_id = me_trace_id env, tc_span_id = span_id (me_trace_id env) (me_operation_key env)\<rparr> kind (redact (redact ?pay)) now"
    using append_evidence_Inr[OF a] by (metis option.case(2))
  show "er_events er' (me_cell_id env) = er_events er (me_cell_id env) @ [jcanon rec]" by (simp add: er')
  have k: "distinct (map fst (body @ [(''previous_digest'', x), (''digest'', y)]))" for x y
    unfolding b map_append envelope_keys by simp
  have get: "(key, v) \<in> set body \<Longrightarrow> jget0 key (jcanon rec) = jcanon v" for key v
    unfolding r chained_def by (rule jget_jcanon[OF k]) simp
  have "jget0 ''payload'' (jcanon rec) = jcanon (redact (redact ?pay))" by (rule get) (simp add: b evidence_envelope_def)
  then show "jget0 ''operation_key'' (record_payload (jcanon rec)) = JStr (me_operation_key env)"
    using assms(2) by (simp add: redact_payload record_payload_def py_or_def jget_or_def)
  have "jget0 ''epoch'' (jcanon rec) = JInt (me_epoch env)" using get[of "''epoch''" "JInt (me_epoch env)"]
    by (simp add: b evidence_envelope_def)
  then show "record_epoch (jcanon rec) = me_epoch env" by (auto simp: record_epoch_def jget_or_def split: option.splits)
  show "jget0 ''policy_digest'' (jcanon rec) = JStr (me_policy_digest env)" "jget0 ''kind'' (jcanon rec) = JStr kind"
    using get[of "''policy_digest''" "JStr (me_policy_digest env)"] get[of "''kind''" "JStr kind"]
    by (simp_all add: b evidence_envelope_def jopt_def)
  let ?d = "JStr (sha256_hex (chain_text fr (tail_digest rep (er_events er (me_cell_id env))) (JObj body)))"
  have "jget0 ''digest'' (jcanon rec) = jcanon ?d" unfolding r chained_def by (rule jget_jcanon[OF k]) simp
  moreover have "jget0 ''digest'' rec = ?d" unfolding r chained_def jget_or_def b
    by (simp add: evidence_envelope_def)
  ultimately show "jget0 ''digest'' (jcanon rec) = jget0 ''digest'' rec" by simp
qed

lemma mutation_evidence_again:
  assumes "mutation_evidence_once rep fr env kind payload now er = (Inr rec, er')"
    and "redact_text (me_operation_key env) = me_operation_key env"
  shows "\<exists>rec'. mutation_evidence_once rep fr env kind payload' now' er' = (Inr rec', er')
           \<and> jget0 ''digest'' rec' = jget0 ''digest'' rec"
proof (cases "List.find (\<lambda>r. jget0 ''operation_key'' (record_payload r) = JStr (me_operation_key env))
             (rev (read_events er (me_cell_id env)))")
  case (Some r)
  then show ?thesis using assms(1) by (auto simp: mutation_evidence_once_def split: if_splits)
next
  case None
  then have m: "mutation_evidence rep fr env kind payload now er = (Inr rec, er')"
    using assms(1) by (auto simp: mutation_evidence_once_def split: prod.splits sum.splits)
  note f = mutation_evidence_Inr[OF m assms(2)]
  have "mutation_evidence_once rep fr env kind payload' now' er' = (Inr (jcanon rec), er')"
    using f by (simp add: mutation_evidence_once_def read_events_def)
  then show ?thesis using f(6) by blast
qed
lemma already_committed_receipt: "receipt k v j \<Longrightarrow> already_committed k j"
  using receipt_row[of k v j] by (auto simp: already_committed_def)

lemma record_effect_Inr:
  assumes "record_effect rep fr r replayed ck result c = (Inr res, c')"
  obtains s er evidence where
    "cell_effect_once (effect_mutation fr r result) (ck 7) (co_cells c) = (None, s)"
    "mutation_evidence_once rep fr (request_envelope r) ''external_mutation''
       (JObj (effect_payload fr r result @ [(''result'', result)])) (ck 8) (co_evidence c) = (Inr evidence, er)"
    "c' = c\<lparr>co_cells := s, co_evidence := er\<rparr>"
    "res = \<lparr>cr_operation_key = request_key r, cr_result = result,
            cr_evidence_digest = py_str rep (jget0 ''digest'' evidence), cr_replayed = replayed\<rparr>"
  using assms by (auto simp: record_effect_def split: prod.splits option.splits sum.splits)

lemma effect_again_same: "effect_mutation fr r (jcanon v) = effect_mutation fr r v"
  by (simp add: effect_mutation_def effect_payload_def result_digest_def jcanon_idem)

lemma record_effect_again:
  assumes "record_effect rep fr r replayed ck v c = (Inr res, c')" and "cells_inv (co_cells c)"
    and "redact_text (request_key r) = request_key r"
  shows "record_effect rep fr r True ck' (jcanon v) c' = (Inr (res\<lparr>cr_result := jcanon v, cr_replayed := True\<rparr>), c')"
proof -
  obtain s er evidence where m: "cell_effect_once (effect_mutation fr r v) (ck 7) (co_cells c) = (None, s)"
    and e: "mutation_evidence_once rep fr (request_envelope r) ''external_mutation''
       (JObj (effect_payload fr r v @ [(''result'', v)])) (ck 8) (co_evidence c) = (Inr evidence, er)"
    and c': "c' = c\<lparr>co_cells := s, co_evidence := er\<rparr>"
    and res: "res = \<lparr>cr_operation_key = request_key r, cr_result = v,
            cr_evidence_digest = py_str rep (jget0 ''digest'' evidence), cr_replayed = replayed\<rparr>"
    by (rule record_effect_Inr[OF assms(1)])
  have "cell_effect_once (effect_mutation fr r (jcanon v)) (ck' 7) s = (None, s)"
    unfolding effect_again_same by (rule cell_effect_again[OF m assms(2)])
  moreover have k: "redact_text (me_operation_key (request_envelope r)) = me_operation_key (request_envelope r)"
    using assms(3) by (simp add: request_envelope_def)
  obtain evidence' where "mutation_evidence_once rep fr (request_envelope r) ''external_mutation''
       (JObj (effect_payload fr r (jcanon v) @ [(''result'', jcanon v)])) (ck' 8) er = (Inr evidence', er)"
    "jget0 ''digest'' evidence' = jget0 ''digest'' evidence"
    using mutation_evidence_again[OF e k] by blast
  ultimately show ?thesis by (simp add: record_effect_def c' res)
qed

lemma admit_again:
  assumes "admit_effect r s j = Inr (cell, replayed)" and "cs_cells s' = cs_cells s" and "already_committed (request_key r) j'"
  shows "admit_effect r s' j' = Inr (cell, True)"
proof -
  have g: "get_cell c s' = get_cell c s" for c using assms(2) by (simp add: get_cell_def)
  obtain d where a: "validate_request r = None"
    "get_cell (ab_cell_id (rq_airflow r)) s = Some cell" "cell_epoch cell = ab_epoch (rq_airflow r)"
    "airflow_owner cell (rq_airflow r)" "require_policy cell = Inr d"
    "validate_mutation_policy (request_envelope r) d = None"
    "authorize (rq_security r) (rq_capability r) (rq_target_tenant r) (rq_secret_scope r) = Inr True"
    "validate_authority \<lparr>ma_resource = rq_resource r, ma_actor = rq_actor r, ma_cell_id = ab_cell_id (rq_airflow r),
           ma_epoch = ab_epoch (rq_airflow r), ma_operation_key = request_key r\<rparr> (cell_epoch cell) None = None"
    using admit_effect_Inr[OF assms(1)] by metis
  have "current_cell (ab_cell_id (rq_airflow r)) (ab_epoch (rq_airflow r)) s' = Inr cell"
    using a(2,3) g by simp
  then show ?thesis using a(1,4-8) assms(3) by (simp add: admit_effect_def Let_def del: current_cell_Inr)
qed

text \<open>C2: an external effect converges. After \<open>execute_external\<close> returned a result, the same request made
  again, by another worker, with other callbacks, another clock and another world, is answered from the
  receipt: it returns the stored result with the same operation key and evidence digest, marked as
  replayed, and changes neither the Cell history, the journal, the evidence nor the world. (The operation
  key must not itself look like a secret token, which the evidence would mask.)\<close>

theorem external_effect_converges:
  assumes "reachable_journal (co_journal c)" and "cells_inv (co_cells c)"
    and "redact_text (request_key r) = request_key r"
    and "execute_external rep fr r fn rc budget obs owner ck c x = (Inr res, c', x')"
  shows "execute_external rep fr r fn2 rc2 budget obs2 owner2 ck2 c' y
       = (Inr (res\<lparr>cr_result := jcanon (cr_result res), cr_replayed := True\<rparr>), c', y)"
proof -
  let ?call = "request_call fr r budget obs owner" and ?call2 = "request_call fr r budget obs2 owner2"
  obtain cell replayed where a: "admit_effect r (co_cells c) (co_journal c) = Inr (cell, replayed)"
    using assms(4) by (auto simp: execute_external_def split: sum.splits)
  obtain v j where e: "execute ?call (durable_call fn) (map_option reconcile_redacted rc) ck (co_journal c) x = (Inr v, j, x')"
    and r: "record_effect rep fr r replayed ck v (c\<lparr>co_journal := j\<rparr>) = (Inr res, c')"
    using assms(4) a by (auto simp: execute_external_def split: prod.splits sum.splits)
  note inv = reachable_journal_inv[OF assms(1)]
  have key: "ref_key (xc_ref ?call) = request_key r" by (simp add: request_call_def)
  have rec: "receipt (request_key r) v j"
    using execute_good[OF inv, of ?call "durable_call fn" "map_option reconcile_redacted rc" ck x] e key
    by (simp add: exec_good_def)
  obtain s er where c': "c' = c\<lparr>co_journal := j, co_cells := s, co_evidence := er\<rparr>" and res: "cr_result res = v"
    and m: "cell_effect_once (effect_mutation fr r v) (ck 7) (co_cells c) = (None, s)"
    by (rule record_effect_Inr[OF r]) simp
  have j': "co_journal c' = j" by (simp add: c')
  have cells: "cs_cells (co_cells c') = cs_cells (co_cells c)"
    by (rule cell_effect_once_None[OF m assms(2)]) (simp add: c')
  obtain row where row: "get_op (request_key r) j = Some row" "op_state row = Committed" "row_result row = jcanon v"
    using receipt_row[OF rec] by blast
  have "policy_bound (xc_ref ?call) (xc_digest ?call) (xc_safe ?call) (map_option rb_max_attempts (xc_budget ?call)) row"
    using execute_bound[OF inv e] row(1) key by auto
  then have "execute ?call2 f2 q2 ck2 j y = (Inr (jcanon v), j, y)" for f2 q2
    using execute_committed[of ?call2 j row] row key by (simp add: request_call_def)
  moreover have "admit_effect r (co_cells c') (co_journal c') = Inr (cell, True)"
    using admit_again[OF a cells] already_committed_receipt[OF rec] j' by simp
  moreover have cj: "c'\<lparr>co_journal := j\<rparr> = c'" using j' by (cases c') simp
  have "record_effect rep fr r True ck2 (jcanon v) (c'\<lparr>co_journal := j\<rparr>) = (Inr (res\<lparr>cr_result := jcanon v, cr_replayed := True\<rparr>), c')"
    unfolding cj using record_effect_again[OF r _ assms(3)] assms(2) by simp
  ultimately show ?thesis using j' res by (simp add: execute_external_def)
qed

section \<open>A first effect goes through\<close>

lemma start_attempt_free:
  assumes "journal_inv j" and "get_op (ref_key ref) j = Some row" and "identity_ok ref row None"
    and "op_state row = Intent" and "op_owner row = None" and "op_attempts row < rb_max_attempts budget"
  shows "\<exists>j' row'. start_attempt ref budget lease_s owner now j = (Inr (op_attempts row + 1, owner), j')
     \<and> get_op (ref_key ref) j' = Some row' \<and> op_state row' = Intent \<and> op_owner row' = Some owner
     \<and> identity_ok ref row' None"
proof -
  have "rowcount (\<lambda>r. op_key r = ref_key ref \<and> op_state r \<noteq> Committed \<and> op_owner r = None) j = 1"
    by (rule claim_rowcount[OF assms(1,2)]) (use assms(4,5) in simp_all)
  then show ?thesis
    using assms get_op_self[OF assms(2)]
    by (simp add: start_attempt_unfold Let_def get_op_upd_where identity_ok_def)
qed

lemma commit_own:
  assumes "journal_inv j" and "get_op (ref_key ref) j = Some row" and "identity_ok ref row None"
    and "op_state row = Intent" and "op_owner row = Some owner"
  shows "\<exists>j'. commit ref v (Some owner) now j = (Inr (), j')"
proof -
  have "rowcount (\<lambda>r. open_by_key (ref_key ref) r \<and> (Some owner \<noteq> None \<longrightarrow> op_owner r = Some owner)) j = 1"
    using rowcount_one_iff[of op_key j "\<lambda>r. open_by_key (ref_key ref) r \<and> (Some owner \<noteq> None \<longrightarrow> op_owner r = Some owner)"
        "ref_key ref"] assms get_op_self[OF assms(2)]
    unfolding get_op_def journal_inv_def by auto
  then show ?thesis using assms by (simp add: commit_def Let_def)
qed

lemma execute_first:
  assumes "journal_inv j" and "get_op (ref_key (xc_ref c)) j = None"
    and "valid_ref (xc_ref c)" and "valid_digest (xc_digest c)" and "\<not> xc_observe_first c"
    and "1 \<le> rb_max_attempts (call_budget c)" and "fn x = (Inr v, x')"
  shows "\<exists>j'. execute c fn rc ck j x = (Inr v, j', x')"
proof -
  let ?ref = "xc_ref c"
  let ?mx = "Some (rb_max_attempts (call_budget c))"
  let ?new = "new_op ?ref (xc_digest c) (xc_safe c) ?mx (ck 0)"
  let ?j1 = "j @ [?new]"
  have ins: "insert_or_ignore ?new j = ?j1" using assms(2) by (simp add: insert_or_ignore_def)
  have inv1: "journal_inv ?j1"
    using journal_ok_insert_or_ignore[OF assms(1) new_op_ok] ins by (metis journal_ok_inv)
  have g: "get_op (ref_key ?ref) ?j1 = Some ?new"
    using assms(2) by (simp add: get_op_def select_one_append)
  have id: "identity_ok ?ref ?new d" if "d = xc_digest c \<or> d = None" for d
    using assms(3,4) that by (auto simp: identity_ok_def new_op_def valid_digest_def)
  have bind: "begin_bind ?ref (xc_digest c) (xc_safe c) ?mx (ck 0) ?new ?j1 = Some ?j1"
  proof -
    have "op_intent_digest ?new = xc_digest c" "op_replay_safe ?new = xc_safe c" "op_max_attempts ?new = ?mx"
      by (simp_all add: new_op_def)
    then show ?thesis using id[of "xc_digest c"] by (auto simp: begin_bind_def divergent_def)
  qed
  have st: "op_state ?new = Intent" "op_owner ?new = None" "op_attempts ?new = 0" "op_max_attempts ?new = ?mx"
    by (simp_all add: new_op_def)
  have b: "exec_begin c False ck j = (Inr Intent, ?j1)"
    using assms(3,4,6) bind g ins st(1) by (simp add: exec_begin_def begin_op_def Let_def)
  have bud: "effective_budget c ?new = call_budget c" by (simp add: effective_budget_def st(4) split: option.split)
  obtain j2 row2 where s2: "start_attempt ?ref (call_budget c) 300 (xc_owner c) (ck 4) ?j1 = (Inr (1, xc_owner c), j2)"
    and r2: "get_op (ref_key ?ref) j2 = Some row2" "op_state row2 = Intent" "op_owner row2 = Some (xc_owner c)"
      "identity_ok ?ref row2 None"
    using start_attempt_free[OF inv1 g id[of None] st(1,2), of "call_budget c" 300 "xc_owner c" "ck 4"] assms(6) st(3) by auto
  have inv2: "journal_inv j2" using start_attempt_ok[OF inv1 s2] by (rule journal_ok_inv)
  obtain j3 where "commit ?ref v (Some (xc_owner c)) (ck 5) j2 = (Inr (), j3)"
    using commit_own[OF inv2 r2(1,4,2,3), of v "ck 5"] by blast
  then show ?thesis
    using assms(2,5,7) b g st s2
    by (simp add: execute_def exec_loaded_def bud exec_decide_def exec_claim_def exec_effect_def)
qed

lemma request_valid_digest:
  assumes "validate_request r = None"
  shows "valid_digest (Some (request_intent fr r))"
proof -
  have d: "valid_digest (Some s)" if "validate_sha256_digest s" for s
    using that by (simp add: valid_digest_def validate_sha256_digest_def hex64_def)
  have "validate_sha256_digest (request_digest fr r k)" for k
    by (simp add: validate_sha256_digest_def request_digest_def startswith_def removeprefix_def)
  moreover have "rq_intent_digest r = Some s \<Longrightarrow> validate_sha256_digest s" for s
    using assms by (auto simp: validate_request_def split: option.splits sum.splits if_splits)
  ultimately show ?thesis by (auto simp: request_intent_def d split: option.splits)
qed

lemma request_valid_ref:
  assumes "admit_effect r s j = Inr (cell, replayed)"
  shows "valid_ref \<lparr>ref_cell = ab_cell_id (rq_airflow r), ref_epoch = ab_epoch (rq_airflow r), ref_kind = rq_kind r,
                ref_key = request_key r\<rparr>"
proof -
  obtain d where "validate_request r = None"
    "validate_authority \<lparr>ma_resource = rq_resource r, ma_actor = rq_actor r, ma_cell_id = ab_cell_id (rq_airflow r),
           ma_epoch = ab_epoch (rq_airflow r), ma_operation_key = request_key r\<rparr> (cell_epoch cell) None = None"
    using admit_effect_Inr[OF assms] by metis
  then show ?thesis
    unfolding validate_authority_None
    by (auto simp: valid_ref_def validate_request_def split: option.splits sum.splits if_splits)
qed

lemma effect_completes:
  assumes "journal_inv (co_journal c)" and "admit_effect r (co_cells c) (co_journal c) = Inr (cell, False)"
    and "get_op (request_key r) (co_journal c) = None"
    and "\<forall>e\<in>set (cs_events (co_cells c)). ev_cell e \<noteq> ab_cell_id (rq_airflow r) \<or> ev_key e \<noteq> request_key r"
    and "\<forall>d\<in>set (er_events (co_evidence c) (ab_cell_id (rq_airflow r))).
           jget0 ''operation_key'' (record_payload d) \<noteq> JStr (request_key r)"
    and "case budget of None \<Rightarrow> True | Some b \<Rightarrow> 1 \<le> rb_max_attempts b" and "fn x = (Inr v, x')"
  shows "\<exists>res c'. execute_external rep fr r fn rc budget False owner ck c x = (Inr res, c', x')
           \<and> cr_result res = redact v \<and> \<not> cr_replayed res"
proof -
  let ?call = "request_call fr r budget False owner"
  obtain d where a: "validate_request r = None" "get_cell (ab_cell_id (rq_airflow r)) (co_cells c) = Some cell"
    "cell_epoch cell = ab_epoch (rq_airflow r)" "validate_mutation_policy (request_envelope r) d = None"
    using admit_effect_Inr[OF assms(2)] by metis
  have "1 \<le> rb_max_attempts (call_budget ?call)"
    using assms(6) by (cases budget) (simp_all add: call_budget_def request_call_def budget_for_def default_budget_def)
  then obtain j where e: "execute ?call (durable_call fn) (map_option reconcile_redacted rc) ck (co_journal c) x = (Inr (redact v), j, x')"
    using execute_first[OF assms(1), of ?call "durable_call fn" x "redact v" x' "map_option reconcile_redacted rc" ck]
      assms(3,7) request_valid_ref[OF assms(2)] request_valid_digest[OF a(1)]
    by (auto simp: request_call_def durable_call_def)
  let ?m = "effect_mutation fr r (redact v)"
  have "\<not> list_ex (same_event ?m) (cs_events (co_cells c))"
    using assms(4) by (auto simp: list_ex_iff same_event_def effect_mutation_def)
  then obtain s where m: "cell_effect_once ?m (ck 7) (co_cells c) = (None, s)"
    using a(2,3) by (simp add: cell_effect_once_def record_mutation_def append_event_def effect_mutation_def)
  have v: "validate_envelope (request_envelope r) = Inr ()" and ep: "1 \<le> ab_epoch (rq_airflow r)"
    using a(4) request_valid_ref[OF assms(2)]
    by (auto simp: validate_mutation_policy_def valid_ref_def split: sum.splits contract_error.splits)
  have "List.find (\<lambda>r'. jget0 ''operation_key'' (record_payload r') = JStr (request_key r))
      (rev (er_events (co_evidence c) (ab_cell_id (rq_airflow r)))) = None"
    using assms(5) by (simp add: find_None_iff)
  then obtain ev er where "mutation_evidence_once rep fr (request_envelope r) ''external_mutation''
      (JObj (effect_payload fr r (redact v) @ [(''result'', redact v)])) (ck 8) (co_evidence c) = (Inr ev, er)"
    using v ep by (simp add: mutation_evidence_once_def read_events_def request_envelope_def mutation_evidence_def
        trusted_append_def append_unfold Let_def)
  with e m show ?thesis
    unfolding execute_external_def assms(2) by (simp add: record_effect_def)
qed

text \<open>C21: an admitted effect whose operation key is new to the Cell's history, the journal and the evidence
  completes: with a provider that succeeds and a budget of at least one attempt, \<open>execute_external\<close> calls
  it once and returns its redacted result, marked as not replayed.\<close>

theorem external_effect_completes:
  assumes "journal_inv (co_journal c)" and "admit_effect r (co_cells c) (co_journal c) = Inr (cell, False)"
    and "get_op (request_key r) (co_journal c) = None"
    and "\<forall>e\<in>set (cs_events (co_cells c)). ev_cell e \<noteq> ab_cell_id (rq_airflow r) \<or> ev_key e \<noteq> request_key r"
    and "\<forall>d\<in>set (er_events (co_evidence c) (ab_cell_id (rq_airflow r))).
           jget0 ''operation_key'' (record_payload d) \<noteq> JStr (request_key r)"
    and "case budget of None \<Rightarrow> True | Some b \<Rightarrow> 1 \<le> rb_max_attempts b" and "fn x = (Inr v, x')"
  shows "\<exists>res c'. execute_external rep fr r fn rc budget False owner ck c x = (Inr res, c', x')
           \<and> cr_result res = redact v \<and> \<not> cr_replayed res"
  using assms by (rule effect_completes)

section \<open>Examples\<close>

definition demo_airflow :: airflow_binding where
  "demo_airflow = \<lparr>ab_cell_id = ''cell_0123456789abcdef01234567'', ab_epoch = 1, ab_dag_id = ''line'', ab_run_id = ''run1'',
     ab_map_index = None\<rparr>"

definition demo_policy_digest :: string where
  "demo_policy_digest = ''policy:v1:'' @ replicate 64 (CHR ''0'')"

definition demo_cell :: cell_row where
  "demo_cell = \<lparr>cell_id = ''cell_0123456789abcdef01234567'', cell_schema = 1, cell_repo = ''o/r'', cell_target = ''.@main'',
     cell_issue = ''1'', cell_epoch = 1, cell_state = ''running'', cell_dag_id = Some ''line'', cell_run_id = Some ''run1'',
     cell_map_index = None, cell_generation = None, cell_policy_digest = Some demo_policy_digest, cell_base_sha = None,
     cell_observed_sha = None, cell_compute = JNull, cell_cleanup = JNull, cell_created_at = 0, cell_updated_at = 0\<rparr>"

definition demo_core :: "unit core" where
  "demo_core = \<lparr>co_cells = \<lparr>cs_cells = [demo_cell], cs_events = [], cs_seq = 0\<rparr>, co_world = (), co_journal = [],
     co_evidence = empty_root\<rparr>"

definition demo_request :: core_request where
  "demo_request = \<lparr>rq_airflow = demo_airflow,
     rq_security = \<lparr>sc_tenant = ''t'', sc_cell_id = ''cell_0123456789abcdef01234567'', sc_epoch = 1, sc_role = ''publisher'',
       sc_capabilities = [PUBLISH_GIT], sc_secret_scopes = []\<rparr>,
     rq_resource = GITHUB_PUBLICATION, rq_capability = PUBLISH_GIT, rq_actor = ''python-backend'', rq_kind = ''github_publish'',
     rq_expected_policy_digest = demo_policy_digest, rq_target_tenant = ''t'', rq_parts = [], rq_secret_scope = None,
     rq_replay_safe = None, rq_external_key = Some ''publish:1'', rq_intent_digest = None\<rparr>"

lemma length_core_trace_id [simp]: "length (core_trace_id c e) = 32"
  by (simp add: core_trace_id_def)

lemma demo_request_key: "request_key demo_request = ''publish:1''" "redact_text ''publish:1'' = ''publish:1''"
  by code_simp+

lemma demo_admitted: "admit_effect demo_request (co_cells demo_core) [] = Inr (demo_cell, False)"
proof -
  have 1: "validate_request demo_request = None" by code_simp
  have 2: "get_cell ''cell_0123456789abcdef01234567'' (co_cells demo_core) = Some demo_cell"
    by (simp add: get_cell_def demo_core_def demo_cell_def)
  have e: "is_cell_id ''cell_0123456789abcdef01234567''" "require_current_policy_digest demo_policy_digest = Inr ()"
    "py_strip ''python-backend'' \<noteq> []"
    by code_simp+
  have t: "core_trace_id ''cell_0123456789abcdef01234567'' 1 \<noteq> []"
    using length_core_trace_id[of "''cell_0123456789abcdef01234567''" 1] by (metis list.size(3) zero_neq_numeral)
  have env: "request_envelope demo_request = \<lparr>me_cell_id = ''cell_0123456789abcdef01234567'', me_epoch = 1,
      me_operation_key = ''publish:1'', me_policy_digest = demo_policy_digest,
      me_trace_id = core_trace_id ''cell_0123456789abcdef01234567'' 1, me_actor = ''python-backend''\<rparr>"
    using demo_request_key(1) by (simp add: request_envelope_def) (simp add: demo_request_def demo_airflow_def)
  have 3: "validate_mutation_policy (request_envelope demo_request) demo_policy_digest = None"
    unfolding env validate_mutation_policy_def validate_envelope_def using e t by simp
  have 4: "authorize (rq_security demo_request) (rq_capability demo_request) (rq_target_tenant demo_request)
      (rq_secret_scope demo_request) = Inr True" by code_simp
  have 5: "validate_authority \<lparr>ma_resource = rq_resource demo_request, ma_actor = rq_actor demo_request,
      ma_cell_id = ab_cell_id (rq_airflow demo_request), ma_epoch = ab_epoch (rq_airflow demo_request),
      ma_operation_key = request_key demo_request\<rparr> (cell_epoch demo_cell) None = None" by code_simp
  have 6: "airflow_owner demo_cell (rq_airflow demo_request)" "require_policy demo_cell = Inr demo_policy_digest"
    "\<not> refuse_terminal_effect demo_cell (rq_resource demo_request)" by code_simp+
  have 7: "current_cell (ab_cell_id (rq_airflow demo_request)) (ab_epoch (rq_airflow demo_request)) (co_cells demo_core) = Inr demo_cell"
    using 2 by (simp add: demo_request_def demo_airflow_def demo_cell_def)
  show ?thesis using 1 3 4 5 6 7
    by (simp add: admit_effect_def already_committed_def get_op_def Let_def del: current_cell_Inr)
qed

lemma demo_core_inv: "cells_inv (co_cells demo_core)" "journal_inv (co_journal demo_core)" "reachable_journal (co_journal demo_core)"
proof -
  show "cells_inv (co_cells demo_core)"
    by (simp add: cells_inv_def demo_core_def demo_cell_def primary_key_def epochs_sorted_def)
  show "journal_inv (co_journal demo_core)" by (simp add: demo_core_def)
  show "reachable_journal (co_journal demo_core)" by (simp add: demo_core_def)
qed

lemma demo_hyps:
  "admit_effect demo_request (co_cells demo_core) (co_journal demo_core) = Inr (demo_cell, False)"
  "get_op (request_key demo_request) (co_journal demo_core) = None"
  "\<forall>e\<in>set (cs_events (co_cells demo_core)). ev_cell e \<noteq> ab_cell_id (rq_airflow demo_request) \<or> ev_key e \<noteq> request_key demo_request"
  "\<forall>d\<in>set (er_events (co_evidence demo_core) (ab_cell_id (rq_airflow demo_request))).
     jget0 ''operation_key'' (record_payload d) \<noteq> JStr (request_key demo_request)"
  "case (None::retry_budget option) of None \<Rightarrow> True | Some b \<Rightarrow> 1 \<le> rb_max_attempts b"
  "count_ok 0 = (Inr (JInt 7), 1)"
proof -
  have j: "co_journal demo_core = []" and e: "cs_events (co_cells demo_core) = []"
    and d: "er_events (co_evidence demo_core) = (\<lambda>_. [])"
    by (simp_all add: demo_core_def empty_root_def)
  show "admit_effect demo_request (co_cells demo_core) (co_journal demo_core) = Inr (demo_cell, False)"
    unfolding j by (rule demo_admitted)
  show "get_op (request_key demo_request) (co_journal demo_core) = None" unfolding j get_op_def by simp
  show "\<forall>e\<in>set (cs_events (co_cells demo_core)). ev_cell e \<noteq> ab_cell_id (rq_airflow demo_request) \<or> ev_key e \<noteq> request_key demo_request"
    unfolding e by simp
  show "\<forall>d\<in>set (er_events (co_evidence demo_core) (ab_cell_id (rq_airflow demo_request))).
     jget0 ''operation_key'' (record_payload d) \<noteq> JStr (request_key demo_request)"
    unfolding d by simp
  show "case (None::retry_budget option) of None \<Rightarrow> True | Some b \<Rightarrow> 1 \<le> rb_max_attempts b" by simp
  show "count_ok 0 = (Inr (JInt 7), 1)" by (simp add: count_ok_def)
qed

lemma demo_completes:
  "\<exists>res c'. execute_external (\<lambda>_. []) (\<lambda>_. ''0'') demo_request count_ok None None False ''w'' (\<lambda>i. 0) demo_core 0 = (Inr res, c', 1)
     \<and> cr_result res = redact (JInt 7) \<and> \<not> cr_replayed res"
  using demo_core_inv(2) demo_hyps by (rule effect_completes[where fn = count_ok and x = 0])

theorem external_effect_completes_witness:
  "\<exists>res c'. execute_external (\<lambda>_. []) (\<lambda>_. ''0'') demo_request count_ok None None False ''w'' (\<lambda>i. 0) demo_core 0 = (Inr res, c', 1)
     \<and> cr_result res = redact (JInt 7) \<and> \<not> cr_replayed res"
  using demo_core_inv(2) demo_hyps by (rule external_effect_completes[where fn = count_ok and x = 0])

theorem external_effect_converges_witness:
  "\<exists>res c'. execute_external (\<lambda>_. []) (\<lambda>_. ''0'') demo_request count_ok None None False ''w'' (\<lambda>i. 0) demo_core 0 = (Inr res, c', 1)
     \<and> execute_external (\<lambda>_. []) (\<lambda>_. ''0'') demo_request count_fail None None True ''v'' (\<lambda>i. 9) c' 5
         = (Inr (res\<lparr>cr_result := jcanon (cr_result res), cr_replayed := True\<rparr>), c', 5)"
proof -
  obtain res c' where e: "execute_external (\<lambda>_. []) (\<lambda>_. ''0'') demo_request count_ok None None False ''w'' (\<lambda>i. 0) demo_core 0 = (Inr res, c', 1)"
    using demo_completes by blast
  have k: "redact_text (request_key demo_request) = request_key demo_request" by (simp add: demo_request_key)
  show ?thesis by (intro exI conjI, rule e, rule external_effect_converges[OF demo_core_inv(3,1) k e])
qed

theorem external_effect_fenced_witness:
  "execute_external (\<lambda>_. []) (\<lambda>_. ''0'') (demo_request\<lparr>rq_airflow := demo_airflow\<lparr>ab_epoch := 2\<rparr>\<rparr>) count_ok None None False ''w'' (\<lambda>i. 0) demo_core 0
   = execute_external (\<lambda>_. []) (\<lambda>_. ''0'') (demo_request\<lparr>rq_airflow := demo_airflow\<lparr>ab_epoch := 2\<rparr>\<rparr>) count_fail None None False ''w'' (\<lambda>i. 0) demo_core 0"
proof -
  have "\<not> effect_permitted (demo_request\<lparr>rq_airflow := demo_airflow\<lparr>ab_epoch := 2\<rparr>\<rparr>) (co_cells demo_core) (co_journal demo_core)"
    by (simp add: effect_permitted_def get_cell_def demo_core_def demo_airflow_def) (simp add: demo_cell_def)
  from external_effect_fenced[OF this] show ?thesis .
qed

end
