(* ===== verification/RestoreContract.thy ===== *)
theory RestoreContract
  imports StoreSchema CoreCapabilities DurableAdmission "HOL-Library.Product_Lexorder"
begin

text \<open>
  The restore contract, \<open>restore_contract.py\<close>: the state root of a factory, the joins between its stores,
  the marker a restore leaves behind, and the gate in front of every external effect. The gate keeps a
  cached copy of the marker with the file stamp it was read at, as the code does.

  A state root is the files of the stores, the contents of the ones the contract reads, the evidence of
  every Cell, the marker file and the archived markers. A line of an evidence file that is no JSON is
  represented by the record \<open>_read_events\<close> puts in its place, and a Cell has an evidence file once it has a
  record; \<open>sr_cell_dirs\<close> are the Cell directories of the evidence tree in order. The integer \<open>sr_restore_open\<close> is the row \<open>restore_open\<close> of the admission store's meta table.
  A file operation of the operator and a call of the gate do not overlap.
\<close>

section \<open>State root, marker and gate\<close>

definition GATE_PENDING :: string where
  "GATE_PENDING = ''pending''"

definition GATE_RECONCILING :: string where
  "GATE_RECONCILING = ''reconciling''"

definition GATE_CLEAR :: string where
  "GATE_CLEAR = ''clear''"

datatype restore_error =
    MutationsWithheld
  | RestoreRefused
  | ReconciliationIncomplete
  | MetaWriteFailed
  | RestorePlanError recovery_error

datatype gate_event =
    GRestored time string string
  | GResumed time string string
  | GReconciled time "string option" "string option"
  | GClosed time string string

record marker =
  mk_state :: "string option"
  mk_restored_at :: time
  mk_actor :: string
  mk_reason :: string
  mk_manifest_digest :: string
  mk_created_at :: "time option"
  mk_restored_cells :: "string list"
  mk_unreconciled_cells :: "string list"
  mk_unreconciled_dispatch :: "string list"
  mk_fence_rollbacks :: "(string \<times> int \<times> int) list"
  mk_history :: "gate_event list"

text \<open>The marker file: what \<open>stat\<close> says of it, and its content unless that is unreadable.\<close>

record marker_file =
  mf_stamp :: "int \<times> int"
  mf_doc :: "marker option"

record state_root =
  sr_files :: db_files
  sr_evidence_dir :: "evidence_stamp option"
  sr_cells :: cell_store
  sr_journal :: journal
  sr_adm :: adm
  sr_restore_open :: "int option"
  sr_evidence :: evidence_root
  sr_cell_dirs :: "string list"
  sr_marker :: "marker_file option"
  sr_archive :: "marker list"

definition present :: "string \<Rightarrow> state_root \<Rightarrow> bool" where
  "present name r = (sr_files r name \<noteq> None)"

definition meta_readable :: "state_root \<Rightarrow> bool" where
  "meta_readable r = (case sr_files r ''admission'' of None \<Rightarrow> False
     | Some db \<Rightarrow> db_ok db \<and> ''admission_meta'' \<in> set (db_tables db))"

definition restore_stamp :: "state_root \<Rightarrow> int" where
  "restore_stamp r =
     (if \<not> present ''admission'' r then 0
      else if \<not> meta_readable r then 0
      else case sr_restore_open r of None \<Rightarrow> 0 | Some v \<Rightarrow> v)"

definition set_restore_stamp :: "int \<Rightarrow> state_root \<Rightarrow> restore_error + state_root" where
  "set_restore_stamp v r =
     (if \<not> present ''admission'' r then Inr r
      else if \<not> meta_readable r then Inl MetaWriteFailed
      else Inr (r\<lparr>sr_restore_open := Some v\<rparr>))"

section \<open>Cross-store coherence\<close>

datatype coherence_problem =
    UnknownCell string string
  | JournalAhead string string int int
  | NoReceipt string string int

definition cell_epochs :: "cell_store \<Rightarrow> (string \<times> int) list" where
  "cell_epochs s = map (\<lambda>c. (cell_id c, cell_epoch c)) (cs_cells s)"

definition operation_problem :: "(string \<times> int) list \<Rightarrow> op_row \<Rightarrow> coherence_problem list" where
  "operation_problem epochs row =
     (case map_of epochs (op_cell row) of
        None \<Rightarrow> [UnknownCell (op_key row) (op_cell row)]
      | Some e \<Rightarrow> if op_epoch row > e then [JournalAhead (op_key row) (op_cell row) (op_epoch row) e] else [])"

definition effect_events :: "cell_store \<Rightarrow> (string \<times> string \<times> int) list" where
  "effect_events s = map (\<lambda>e. (ev_cell e, ev_key e, ev_epoch e))
     (filter (\<lambda>e. ev_kind e = ''external_mutation'') (cs_events s))"

definition coherence_problems :: "state_root \<Rightarrow> coherence_problem list" where
  "coherence_problems r =
     (if \<not> present ''cells'' r \<or> \<not> present ''operations'' r then []
      else
        let epochs = cell_epochs (sr_cells r); journal = sr_journal r in
        concat (map (operation_problem epochs) (sort_key op_key journal))
        @ concat (map (\<lambda>(cell, key, epoch).
              if key \<notin> set (map op_key journal) then [NoReceipt cell key epoch] else [])
            (sort (effect_events (sr_cells r)))))"

section \<open>The marker a restore writes\<close>

definition current_epochs :: "state_root \<Rightarrow> (string \<times> int) list" where
  "current_epochs r = (if \<not> present ''cells'' r then [] else cell_epochs (sr_cells r))"

definition fence_rollbacks :: "state_root \<Rightarrow> (string \<times> int) list \<Rightarrow> (string \<times> int \<times> int) list" where
  "fence_rollbacks r superseded =
     concat (map (\<lambda>(cell, was). case map_of (current_epochs r) cell of
          None \<Rightarrow> [] | Some e \<Rightarrow> if was > e then [(cell, was, e)] else []) (sort superseded))"

definition restored_live_cells :: "state_root \<Rightarrow> string list" where
  "restored_live_cells r =
     dedup_sorted
       ((if present ''cells'' r
         then map cell_id (filter (\<lambda>c. cell_state c \<notin> set TERMINAL_STATES) (cs_cells (sr_cells r))) else [])
        @ (if present ''operations'' r
           then map op_cell (filter (\<lambda>row. op_state row \<noteq> Committed) (sr_journal r)) else []))"

definition inflight_dispatch :: "state_root \<Rightarrow> string list" where
  "inflight_dispatch r =
     (if \<not> present ''admission'' r then []
      else sort (map dr_work (filter (\<lambda>d. dr_state d = Inflight) (ad_dispatch (sr_adm r)))))"

definition build_marker ::
  "string \<Rightarrow> time option \<Rightarrow> string \<Rightarrow> string \<Rightarrow> (string \<times> int) list \<Rightarrow> time \<Rightarrow> state_root \<Rightarrow> marker" where
  "build_marker manifest_digest created actor reason superseded now r =
     (let cells = restored_live_cells r in
      \<lparr>mk_state = Some GATE_PENDING, mk_restored_at = now, mk_actor = actor, mk_reason = reason,
       mk_manifest_digest = manifest_digest, mk_created_at = created, mk_restored_cells = cells,
       mk_unreconciled_cells = cells, mk_unreconciled_dispatch = inflight_dispatch r,
       mk_fence_rollbacks = fence_rollbacks r superseded, mk_history = [GRestored now actor reason]\<rparr>)"

section \<open>The gate\<close>

record gate =
  g_stamp :: "(int \<times> int) option"
  g_marker :: "marker option"
  g_orphaned :: "bool option"

definition new_gate :: gate where
  "new_gate = \<lparr>g_stamp = None, g_marker = None, g_orphaned = None\<rparr>"

type_synonym 'a gate_call = "gate \<Rightarrow> (restore_error + 'a) \<times> gate"

definition gret :: "'a \<Rightarrow> 'a gate_call" where
  "gret x g = (Inr x, g)"

definition graise :: "restore_error \<Rightarrow> 'a gate_call" where
  "graise e g = (Inl e, g)"

definition gbind :: "'a gate_call \<Rightarrow> ('a \<Rightarrow> 'b gate_call) \<Rightarrow> 'b gate_call" where
  "gbind m k g = (case m g of (Inl e, g') \<Rightarrow> (Inl e, g') | (Inr x, g') \<Rightarrow> k x g')"

definition gate_marker :: "state_root \<Rightarrow> marker option gate_call" where
  "gate_marker r g =
     (case sr_marker r of
        None \<Rightarrow> (Inr None, g\<lparr>g_stamp := None, g_marker := None\<rparr>)
      | Some f \<Rightarrow>
          if g_stamp g \<noteq> Some (mf_stamp f) then
            (case mf_doc f of
               None \<Rightarrow> (Inl MutationsWithheld, g)
             | Some m \<Rightarrow> (Inr (Some m), g\<lparr>g_stamp := Some (mf_stamp f), g_marker := Some m\<rparr>))
          else (Inr (g_marker g), g))"

definition orphaned :: "state_root \<Rightarrow> bool gate_call" where
  "orphaned r = gbind (gate_marker r) (\<lambda>m.
     case m of
       Some _ \<Rightarrow> gret False
     | None \<Rightarrow> (\<lambda>g.
         case g_orphaned g of
           Some b \<Rightarrow> (Inr b, g)
         | None \<Rightarrow> let b = (restore_stamp r \<noteq> 0) in (Inr b, g\<lparr>g_orphaned := Some b\<rparr>)))"

definition marker_state :: "marker \<Rightarrow> string" where
  "marker_state m = (case mk_state m of None \<Rightarrow> GATE_PENDING | Some s \<Rightarrow> s)"

definition gate_state :: "state_root \<Rightarrow> string gate_call" where
  "gate_state r = gbind (gate_marker r) (\<lambda>m.
     case m of
       Some mk \<Rightarrow> gret (marker_state mk)
     | None \<Rightarrow> gbind (orphaned r) (\<lambda>b. gret (if b then GATE_PENDING else GATE_CLEAR)))"

definition assert_mutations_allowed :: "state_root \<Rightarrow> unit gate_call" where
  "assert_mutations_allowed r = gbind (gate_marker r) (\<lambda>m.
     gbind (if m = None then orphaned r else gret False) (\<lambda>b.
       if b then graise MutationsWithheld
       else gbind (gate_state r) (\<lambda>st.
         if st = GATE_PENDING then graise MutationsWithheld else gret ())))"

definition requires_observation :: "string \<Rightarrow> state_root \<Rightarrow> bool gate_call" where
  "requires_observation cell r = gbind (gate_marker r) (\<lambda>m.
     case m of None \<Rightarrow> orphaned r | Some mk \<Rightarrow> gret (marker_state mk \<noteq> GATE_CLEAR))"

record gate_window =
  gw_created_at :: "time option"
  gw_restored_at :: "time option"
  gw_unobserved :: "time option"

definition no_window :: gate_window where
  "no_window = \<lparr>gw_created_at = None, gw_restored_at = None, gw_unobserved = None\<rparr>"

definition marker_window :: "marker \<Rightarrow> gate_window" where
  "marker_window m =
     \<lparr>gw_created_at = mk_created_at m, gw_restored_at = Some (mk_restored_at m),
      gw_unobserved = map_option (\<lambda>c. max 0 (mk_restored_at m - c)) (mk_created_at m)\<rparr>"

definition gate_window_of :: "state_root \<Rightarrow> gate_window gate_call" where
  "gate_window_of r = gbind (gate_marker r) (\<lambda>m. gret (case m of None \<Rightarrow> no_window | Some mk \<Rightarrow> marker_window mk))"

record gate_report =
  gr_state :: "string"
  gr_cells :: "string list"
  gr_dispatch :: "string list"
  gr_observation_required :: bool
  gr_window :: gate_window
  gr_rollbacks :: "(string \<times> int \<times> int) list"

definition outstanding :: "state_root \<Rightarrow> gate_report gate_call" where
  "outstanding r = gbind (gate_marker r) (\<lambda>m.
     case m of
       None \<Rightarrow> gbind (orphaned r) (\<lambda>b.
         gret \<lparr>gr_state = (if b then GATE_PENDING else GATE_CLEAR), gr_cells = [], gr_dispatch = [],
               gr_observation_required = b, gr_window = no_window, gr_rollbacks = []\<rparr>)
     | Some mk \<Rightarrow> gbind (gate_window_of r) (\<lambda>w.
         gret \<lparr>gr_state = marker_state mk, gr_cells = mk_unreconciled_cells mk, gr_dispatch = mk_unreconciled_dispatch mk,
               gr_observation_required = (marker_state mk \<noteq> GATE_CLEAR), gr_window = w,
               gr_rollbacks = mk_fence_rollbacks mk\<rparr>))"

section \<open>Operator steps\<close>

definition cells_owing_evidence :: "state_root \<Rightarrow> string list" where
  "cells_owing_evidence r = (if \<not> present ''operations'' r then [] else map op_cell (sr_journal r))"

definition evidence_accepted :: "(real \<Rightarrow> string) \<Rightarrow> state_root \<Rightarrow> string \<Rightarrow> bool" where
  "evidence_accepted fr r cell =
     (if er_events (sr_evidence r) cell = [] then cell \<notin> set (cells_owing_evidence r)
      else fst (verify_chain fr (er_events (sr_evidence r) cell)))"

definition ready_to_resume :: "(real \<Rightarrow> string) \<Rightarrow> state_root \<Rightarrow> marker \<Rightarrow> bool" where
  "ready_to_resume fr r m =
     (case assert_compatible True (sr_files r) (sr_evidence_dir r) of
        Inl _ \<Rightarrow> False
      | Inr _ \<Rightarrow> coherence_problems r = [] \<and> list_all (evidence_accepted fr r) (mk_restored_cells m))"

definition write_marker :: "marker \<Rightarrow> int \<times> int \<Rightarrow> state_root \<Rightarrow> state_root" where
  "write_marker m stamp r = r\<lparr>sr_marker := Some \<lparr>mf_stamp = stamp, mf_doc = Some m\<rparr>\<rparr>"

type_synonym operator_result = "(restore_error + marker) \<times> gate \<times> state_root"

definition resumed_marker :: "string \<Rightarrow> string \<Rightarrow> time \<Rightarrow> marker \<Rightarrow> marker" where
  "resumed_marker actor reason now m =
     m\<lparr>mk_state := Some GATE_RECONCILING, mk_history := mk_history m @ [GResumed now actor reason]\<rparr>"

definition resume ::
  "(real \<Rightarrow> string) \<Rightarrow> string \<Rightarrow> string \<Rightarrow> time \<Rightarrow> int \<times> int \<Rightarrow> gate \<Rightarrow> state_root \<Rightarrow> operator_result" where
  "resume fr actor reason now stamp g r =
     (case gate_marker r g of
        (Inl e, g') \<Rightarrow> (Inl e, g', r)
      | (Inr None, g') \<Rightarrow> (Inl MutationsWithheld, g', r)
      | (Inr (Some m), g') \<Rightarrow>
          if mk_state m \<noteq> Some GATE_PENDING then (Inr m, g', r)
          else if \<not> ready_to_resume fr r m then (Inl RestoreRefused, g', r)
          else (Inr (resumed_marker actor reason now m), g'\<lparr>g_stamp := None\<rparr>,
                write_marker (resumed_marker actor reason now m) stamp r))"

definition cell_observed :: "string \<Rightarrow> state_root \<Rightarrow> bool" where
  "cell_observed cell r =
     (\<not> present ''operations'' r
      \<or> list_all (\<lambda>row. op_observation row \<noteq> None)
          (filter (\<lambda>row. op_cell row = cell \<and> op_state row \<noteq> Committed) (sr_journal r)))"

definition dispatch_settled :: "string \<Rightarrow> state_root \<Rightarrow> bool" where
  "dispatch_settled work r =
     (\<not> present ''admission'' r
      \<or> (case dispatch_of work (sr_adm r) of None \<Rightarrow> True
         | Some d \<Rightarrow> \<not> (dr_state d = Inflight \<and> dr_observation d = None)))"

definition reconciled_marker :: "string option \<Rightarrow> string option \<Rightarrow> time \<Rightarrow> marker \<Rightarrow> marker" where
  "reconciled_marker cell work now m =
     m\<lparr>mk_unreconciled_cells := (case cell of None \<Rightarrow> mk_unreconciled_cells m
         | Some c \<Rightarrow> filter (\<lambda>c'. c' \<noteq> c) (mk_unreconciled_cells m)),
       mk_unreconciled_dispatch := (case work of None \<Rightarrow> mk_unreconciled_dispatch m
         | Some w \<Rightarrow> filter (\<lambda>w'. w' \<noteq> w) (mk_unreconciled_dispatch m)),
       mk_history := mk_history m @ [GReconciled now cell work]\<rparr>"

definition mark_reconciled ::
  "string option \<Rightarrow> string option \<Rightarrow> time \<Rightarrow> int \<times> int \<Rightarrow> gate \<Rightarrow> state_root \<Rightarrow> operator_result" where
  "mark_reconciled cell work now stamp g r =
     (case gate_marker r g of
        (Inl e, g') \<Rightarrow> (Inl e, g', r)
      | (Inr None, g') \<Rightarrow> (Inl ReconciliationIncomplete, g', r)
      | (Inr (Some m), g') \<Rightarrow>
          if mk_state m = Some GATE_PENDING then (Inl ReconciliationIncomplete, g', r)
          else if (case cell of None \<Rightarrow> False | Some c \<Rightarrow> \<not> cell_observed c r) then (Inl ReconciliationIncomplete, g', r)
          else if (case work of None \<Rightarrow> False | Some w \<Rightarrow> \<not> dispatch_settled w r) then (Inl ReconciliationIncomplete, g', r)
          else (Inr (reconciled_marker cell work now m), g'\<lparr>g_stamp := None\<rparr>,
                write_marker (reconciled_marker cell work now m) stamp r))"

text \<open>\<open>_archive\<close> makes three writes in this order; \<open>archive_writes\<close> gives the state root after each of them.\<close>

definition archive_marker :: "marker \<Rightarrow> state_root \<Rightarrow> state_root" where
  "archive_marker m r = r\<lparr>sr_archive := sr_archive r @ [m]\<rparr>"

definition unlink_marker :: "state_root \<Rightarrow> state_root" where
  "unlink_marker r = r\<lparr>sr_marker := None\<rparr>"

definition archive :: "marker \<Rightarrow> gate \<Rightarrow> state_root \<Rightarrow> operator_result" where
  "archive m g r =
     (case set_restore_stamp 0 (archive_marker m r) of
        Inl e \<Rightarrow> (Inl e, g, archive_marker m r)
      | Inr r' \<Rightarrow> (Inr m, \<lparr>g_stamp = None, g_marker = None, g_orphaned = Some False\<rparr>, unlink_marker r'))"

definition archive_writes :: "marker \<Rightarrow> state_root \<Rightarrow> state_root list" where
  "archive_writes m r =
     archive_marker m r # (case set_restore_stamp 0 (archive_marker m r) of Inl _ \<Rightarrow> [] | Inr r' \<Rightarrow> [r', unlink_marker r'])"

definition close_gate ::
  "string \<Rightarrow> string \<Rightarrow> bool \<Rightarrow> time \<Rightarrow> gate \<Rightarrow> state_root \<Rightarrow> operator_result" where
  "close_gate actor reason window_reviewed now g r =
     (case gate_marker r g of
        (Inl e, g') \<Rightarrow> (Inl e, g', r)
      | (Inr None, g') \<Rightarrow> (Inl ReconciliationIncomplete, g', r)
      | (Inr (Some m), g') \<Rightarrow>
          if mk_state m = Some GATE_PENDING then (Inl ReconciliationIncomplete, g', r)
          else if mk_unreconciled_cells m @ mk_unreconciled_dispatch m \<noteq> [] then (Inl ReconciliationIncomplete, g', r)
          else if \<not> window_reviewed then (Inl ReconciliationIncomplete, g', r)
          else archive (m\<lparr>mk_state := Some GATE_CLEAR, mk_history := mk_history m @ [GClosed now actor reason]\<rparr>) g' r)"

section \<open>The operator's view\<close>

record recon_row =
  rr_key :: string
  rr_cell :: string
  rr_kind :: string
  rr_state :: op_state
  rr_action :: recovery_action
  rr_reason :: string

definition reconcile_row ::
  "(json \<Rightarrow> string) \<Rightarrow> string \<Rightarrow> (string \<times> int) list \<Rightarrow> time \<Rightarrow> op_row \<Rightarrow> restore_error + recon_row" where
  "reconcile_row rep gate_st epochs now row =
     (case plan_recovery rep (row_dict row)
             (case map_of epochs (op_cell row) of None \<Rightarrow> op_epoch row | Some e \<Rightarrow> e) now of
        Inl e \<Rightarrow> Inl (RestorePlanError e)
      | Inr d \<Rightarrow>
          (let restored = rd_action d \<in> set [Retry, Observe] \<and> gate_st \<noteq> GATE_CLEAR in
           Inr \<lparr>rr_key = op_key row, rr_cell = op_cell row, rr_kind = op_kind row, rr_state = op_state row,
                rr_action = (if restored then Observe else rd_action d),
                rr_reason = (if restored then ''restored_state_cannot_prove_this_attempt_never_landed'' else rd_reason d)\<rparr>))"

definition plan_reconciliation ::
  "(json \<Rightarrow> string) \<Rightarrow> time \<Rightarrow> state_root \<Rightarrow> restore_error + gate_report \<times> recon_row list" where
  "plan_reconciliation rep now r =
     (case outstanding r new_gate of
        (Inl e, _) \<Rightarrow> Inl e
      | (Inr rpt, _) \<Rightarrow>
          if \<not> present ''operations'' r then Inr (rpt, [])
          else
            (case collect (reconcile_row rep (gr_state rpt) (current_epochs r) now)
                    (sort_key op_updated_at (filter (\<lambda>row. op_state row \<noteq> Committed) (sr_journal r))) of
               Inl e \<Rightarrow> Inl e
             | Inr rows \<Rightarrow> Inr (rpt, rows)))"

record factory_status =
  fs_compatible :: bool
  fs_agree :: bool
  fs_allowed :: bool
  fs_observation :: bool
  fs_rows :: "recon_row list"

definition factory_status_of :: "(json \<Rightarrow> string) \<Rightarrow> time \<Rightarrow> state_root \<Rightarrow> restore_error + factory_status" where
  "factory_status_of rep now r =
     (case plan_reconciliation rep now r of
        Inl e \<Rightarrow> Inl e
      | Inr (rpt, rows) \<Rightarrow>
          (let compatible = list_all usable (inspect_state_root (sr_files r) (sr_evidence_dir r));
               incoherent = coherence_problems r in
           Inr \<lparr>fs_compatible = compatible, fs_agree = (incoherent = []),
                fs_allowed = (compatible \<and> incoherent = [] \<and> gr_state rpt \<noteq> GATE_PENDING),
                fs_observation = gr_observation_required rpt, fs_rows = rows\<rparr>))"

section \<open>What the gate answers\<close>

text \<open>The two facts the marker file and the admission store decide together: whether effects are withheld,
  and whether the window of a restore is open. A gate is fresh for a state root when what it cached is what
  it would read.\<close>

definition withheld :: "state_root \<Rightarrow> bool" where
  "withheld r = (case sr_marker r of None \<Rightarrow> restore_stamp r \<noteq> 0
     | Some f \<Rightarrow> (case mf_doc f of None \<Rightarrow> True | Some m \<Rightarrow> marker_state m = GATE_PENDING))"

definition window_open :: "state_root \<Rightarrow> bool" where
  "window_open r = (case sr_marker r of None \<Rightarrow> restore_stamp r \<noteq> 0
     | Some f \<Rightarrow> (case mf_doc f of None \<Rightarrow> True | Some m \<Rightarrow> marker_state m \<noteq> GATE_CLEAR))"

definition gate_fresh :: "gate \<Rightarrow> state_root \<Rightarrow> bool" where
  "gate_fresh g r \<longleftrightarrow>
     (case sr_marker r of None \<Rightarrow> True
      | Some f \<Rightarrow> g_stamp g = Some (mf_stamp f) \<longrightarrow> g_marker g \<noteq> None \<and> mf_doc f = g_marker g)
     \<and> (case g_orphaned g of None \<Rightarrow> True | Some b \<Rightarrow> b = (restore_stamp r \<noteq> 0))"

lemma gate_words [simp]:
  "GATE_PENDING \<noteq> GATE_CLEAR" "GATE_CLEAR \<noteq> GATE_PENDING" "GATE_RECONCILING \<noteq> GATE_PENDING" "GATE_RECONCILING \<noteq> GATE_CLEAR"
  by (simp_all add: GATE_PENDING_def GATE_CLEAR_def GATE_RECONCILING_def)

lemma new_gate_fresh [simp]: "gate_fresh new_gate r"
  by (simp add: gate_fresh_def new_gate_def split: option.splits)

lemma withheld_window_open: "withheld r \<Longrightarrow> window_open r"
  by (auto simp: withheld_def window_open_def split: option.splits)

lemma gate_marker_fresh:
  assumes "gate_fresh g r"
  shows "\<exists>g'. gate_fresh g' r \<and> gate_marker r g =
           ((case sr_marker r of None \<Rightarrow> Inr None
             | Some f \<Rightarrow> (case mf_doc f of None \<Rightarrow> Inl MutationsWithheld | Some m \<Rightarrow> Inr (Some m))), g')"
  using assms by (auto simp: gate_marker_def gate_fresh_def split: option.splits)

lemma orphaned_fresh:
  assumes "gate_fresh g r" and "sr_marker r = None"
  shows "\<exists>g'. gate_fresh g' r \<and> orphaned r g = (Inr (restore_stamp r \<noteq> 0), g')"
proof -
  obtain g1 where g1: "gate_fresh g1 r" "gate_marker r g = (Inr None, g1)"
    using gate_marker_fresh[OF assms(1)] assms(2) by auto
  show ?thesis
    using g1(1) assms(2)
    by (cases "g_orphaned g1") (auto simp: orphaned_def gbind_def g1(2) gate_fresh_def Let_def)
qed

lemma gate_state_fresh:
  assumes "gate_fresh g r" and "fst (gate_marker r g) \<noteq> Inl MutationsWithheld"
  shows "\<exists>g' st. gate_fresh g' r \<and> gate_state r g = (Inr st, g') \<and> (st = GATE_PENDING \<longleftrightarrow> withheld r)"
proof -
  obtain g1 where g1: "gate_fresh g1 r" and m: "gate_marker r g = ((case sr_marker r of None \<Rightarrow> Inr None
       | Some f \<Rightarrow> (case mf_doc f of None \<Rightarrow> Inl MutationsWithheld | Some m \<Rightarrow> Inr (Some m))), g1)"
    using gate_marker_fresh[OF assms(1)] by blast
  show ?thesis
  proof (cases "sr_marker r")
    case None
    then have e: "gate_marker r g = (Inr None, g1)" using m by simp
    obtain g2 where g2: "gate_fresh g2 r" "orphaned r g1 = (Inr (restore_stamp r \<noteq> 0), g2)"
      using orphaned_fresh[OF g1 None] by blast
    show ?thesis using None g2(1)
      by (auto simp: gate_state_def gbind_def e g2(2) gret_def withheld_def)
  next
    case (Some f)
    then obtain mk where d: "mf_doc f = Some mk" using assms(2) m by (auto split: option.splits)
    then have e: "gate_marker r g = (Inr (Some mk), g1)" using m Some by simp
    show ?thesis using Some d g1 by (auto simp: gate_state_def gbind_def e gret_def withheld_def)
  qed
qed

lemma assert_mutations_fresh:
  assumes "gate_fresh g r"
  shows "\<exists>g'. gate_fresh g' r \<and>
     assert_mutations_allowed r g = (if withheld r then Inl MutationsWithheld else Inr (), g')"
proof -
  obtain g1 where g1: "gate_fresh g1 r" and m: "gate_marker r g = ((case sr_marker r of None \<Rightarrow> Inr None
       | Some f \<Rightarrow> (case mf_doc f of None \<Rightarrow> Inl MutationsWithheld | Some m \<Rightarrow> Inr (Some m))), g1)"
    using gate_marker_fresh[OF assms] by blast
  show ?thesis
  proof (cases "sr_marker r")
    case None
    then have e: "gate_marker r g = (Inr None, g1)" using m by simp
    obtain g2 where g2: "gate_fresh g2 r" "orphaned r g1 = (Inr (restore_stamp r \<noteq> 0), g2)"
      using orphaned_fresh[OF g1 None] by blast
    have "fst (gate_marker r g2) \<noteq> Inl MutationsWithheld" using None by (simp add: gate_marker_def)
    then obtain g3 st where g3: "gate_fresh g3 r" "gate_state r g2 = (Inr st, g3)" "st = GATE_PENDING \<longleftrightarrow> withheld r"
      using gate_state_fresh[OF g2(1)] by blast
    have w: "withheld r \<longleftrightarrow> restore_stamp r \<noteq> 0" using None by (simp add: withheld_def)
    show ?thesis
    proof (cases "restore_stamp r \<noteq> 0")
      case True
      with w g2(1) show ?thesis
        by (auto simp: assert_mutations_allowed_def gbind_def e g2(2) graise_def)
    next
      case False
      with w g3 show ?thesis
        by (auto simp: assert_mutations_allowed_def gbind_def e g2(2) g3(2) gret_def)
    qed
  next
    case (Some f)
    show ?thesis
    proof (cases "mf_doc f")
      case None
      then have e: "gate_marker r g = (Inl MutationsWithheld, g1)" and "withheld r" using m Some by (simp_all add: withheld_def)
      then show ?thesis using g1 by (auto simp: assert_mutations_allowed_def gbind_def e)
    next
      case d: (Some mk)
      then have e: "gate_marker r g = (Inr (Some mk), g1)" using m Some by simp
      have "fst (gate_marker r g1) \<noteq> Inl MutationsWithheld"
        using gate_marker_fresh[OF g1] Some d by auto
      then obtain g3 st where g3: "gate_fresh g3 r" "gate_state r g1 = (Inr st, g3)" "st = GATE_PENDING \<longleftrightarrow> withheld r"
        using gate_state_fresh[OF g1] by blast
      have "gbind (gret False) k g1 = k False g1" for k :: "bool \<Rightarrow> unit gate_call" by (simp add: gbind_def gret_def)
      with g3 show ?thesis
        by (auto simp: assert_mutations_allowed_def gbind_def e g3(2) gret_def graise_def)
    qed
  qed
qed

lemma requires_observation_fresh:
  assumes "gate_fresh g r" and "\<not> withheld r"
  shows "\<exists>g'. gate_fresh g' r \<and> requires_observation cell r g = (Inr (window_open r), g')"
proof -
  obtain g1 where g1: "gate_fresh g1 r" and m: "gate_marker r g = ((case sr_marker r of None \<Rightarrow> Inr None
       | Some f \<Rightarrow> (case mf_doc f of None \<Rightarrow> Inl MutationsWithheld | Some m \<Rightarrow> Inr (Some m))), g1)"
    using gate_marker_fresh[OF assms(1)] by blast
  show ?thesis
  proof (cases "sr_marker r")
    case None
    then have e: "gate_marker r g = (Inr None, g1)" using m by simp
    then show ?thesis using orphaned_fresh[OF g1 None] None by (simp add: requires_observation_def gbind_def e window_open_def)
  next
    case (Some f)
    then obtain mk where d: "mf_doc f = Some mk" using assms(2) by (auto simp: withheld_def split: option.splits)
    then have e: "gate_marker r g = (Inr (Some mk), g1)" using m Some by simp
    show ?thesis using Some d g1 by (auto simp: requires_observation_def gbind_def e gret_def window_open_def)
  qed
qed

section \<open>A restored factory until its window is closed\<close>

text \<open>What happens to a state root and to the gate of the running backend after a restore, in any order: the
  backend asks the gate, any store changes, an operator resumes or reconciles from a process of its own,
  and the marker is lost, damaged, or put back from a copy that does not claim the window is closed. A file
  that is written gets a stamp the backend has not seen. Closing the window is not among the steps.\<close>

inductive restored_step :: "(real \<Rightarrow> string) \<Rightarrow> state_root \<times> gate \<Rightarrow> state_root \<times> gate \<Rightarrow> bool" for fr where
  ask_allowed: "assert_mutations_allowed r g = (res, g') \<Longrightarrow> restored_step fr (r, g) (r, g')"
| ask_observe: "requires_observation cell r g = (res, g') \<Longrightarrow> restored_step fr (r, g) (r, g')"
| stores: "restored_step fr (r, g) (r\<lparr>sr_cells := cs, sr_journal := j, sr_adm := a, sr_evidence := er\<rparr>, g)"
| resumed: "resume fr actor reason now stamp new_gate r = (res, g2, r') \<Longrightarrow> g_stamp g \<noteq> Some stamp
    \<Longrightarrow> restored_step fr (r, g) (r', g)"
| reconciled: "mark_reconciled cell work now stamp new_gate r = (res, g2, r') \<Longrightarrow> g_stamp g \<noteq> Some stamp
    \<Longrightarrow> restored_step fr (r, g) (r', g)"
| lost: "restored_step fr (r, g) (r\<lparr>sr_marker := None\<rparr>, g)"
| damaged: "g_stamp g \<noteq> Some stamp \<Longrightarrow> restored_step fr (r, g) (r\<lparr>sr_marker := Some \<lparr>mf_stamp = stamp, mf_doc = None\<rparr>\<rparr>, g)"
| put_back: "g_stamp g \<noteq> Some stamp \<Longrightarrow> marker_state m \<noteq> GATE_CLEAR \<Longrightarrow> restored_step fr (r, g) (write_marker m stamp r, g)"

definition restored_inv :: "state_root \<times> gate \<Rightarrow> bool" where
  "restored_inv = (\<lambda>(r, g). gate_fresh g r \<and> restore_stamp r \<noteq> 0 \<and> window_open r)"

text \<open>A state root right after a restore: the pending marker and the stamp are both in place, and the backend
  starts with a gate of its own.\<close>

definition just_restored :: "state_root \<times> gate \<Rightarrow> bool" where
  "just_restored = (\<lambda>(r, g). g = new_gate \<and> restore_stamp r \<noteq> 0
     \<and> (\<exists>f m. sr_marker r = Some f \<and> mf_doc f = Some m \<and> mk_state m = Some GATE_PENDING))"

lemma gate_marker_new:
  "gate_marker r new_gate = (Inr (Some m), g') \<Longrightarrow> \<exists>f. sr_marker r = Some f \<and> mf_doc f = Some m"
  by (auto simp: gate_marker_def new_gate_def split: option.splits)

lemma restore_stamp_simps [simp]:
  "restore_stamp (write_marker m stamp r) = restore_stamp r"
  "restore_stamp (r\<lparr>sr_marker := mf\<rparr>) = restore_stamp r"
  "restore_stamp (r\<lparr>sr_cells := cs, sr_journal := j, sr_adm := a, sr_evidence := er\<rparr>) = restore_stamp r"
  by (simp_all add: restore_stamp_def present_def meta_readable_def write_marker_def)

lemma written_marker:
  assumes "gate_fresh g r" and "g_stamp g \<noteq> Some stamp" and "restore_stamp r \<noteq> 0"
  shows "gate_fresh g (r\<lparr>sr_marker := Some \<lparr>mf_stamp = stamp, mf_doc = d\<rparr>\<rparr>)"
    and "(case d of None \<Rightarrow> True | Some m \<Rightarrow> marker_state m \<noteq> GATE_CLEAR)
         \<Longrightarrow> restored_inv (r\<lparr>sr_marker := Some \<lparr>mf_stamp = stamp, mf_doc = d\<rparr>\<rparr>, g)"
proof -
  show fr: "gate_fresh g (r\<lparr>sr_marker := Some \<lparr>mf_stamp = stamp, mf_doc = d\<rparr>\<rparr>)"
    using assms by (auto simp: gate_fresh_def split: option.splits)
  show "restored_inv (r\<lparr>sr_marker := Some \<lparr>mf_stamp = stamp, mf_doc = d\<rparr>\<rparr>, g)"
    if "case d of None \<Rightarrow> True | Some m \<Rightarrow> marker_state m \<noteq> GATE_CLEAR"
    using that fr assms(3) by (auto simp: restored_inv_def window_open_def split: option.splits)
qed

lemma marker_state_set [simp]:
  "marker_state (resumed_marker actor reason now m) = GATE_RECONCILING"
  "marker_state (reconciled_marker cell work now m) = marker_state m"
  by (simp_all add: marker_state_def resumed_marker_def reconciled_marker_def)

lemma resume_writes:
  assumes "resume fr actor reason now stamp new_gate r = (res, g2, r')"
  shows "r' = r \<or> (\<exists>m. marker_state m \<noteq> GATE_CLEAR \<and> r' = write_marker m stamp r)"
proof -
  have "r' = r \<or> (\<exists>m. r' = write_marker (resumed_marker actor reason now m) stamp r)"
    using assms by (auto simp: resume_def split: sum.splits prod.splits option.splits if_splits)
  then show ?thesis by (metis marker_state_set(1) gate_words(4))
qed

lemma mark_reconciled_writes:
  assumes "mark_reconciled cell work now stamp new_gate r = (res, g2, r')" and "window_open r"
  shows "r' = r \<or> (\<exists>m. marker_state m \<noteq> GATE_CLEAR \<and> r' = write_marker m stamp r)"
proof -
  have "r' = r \<or> (\<exists>m g'. gate_marker r new_gate = (Inr (Some m), g') \<and> r' = write_marker (reconciled_marker cell work now m) stamp r)"
    using assms(1) by (auto simp: mark_reconciled_def split: sum.splits prod.splits option.splits if_splits)
  moreover have "marker_state m \<noteq> GATE_CLEAR" if "gate_marker r new_gate = (Inr (Some m), g')" for m g'
    using gate_marker_new[OF that] assms(2) by (auto simp: window_open_def)
  ultimately show ?thesis by (metis marker_state_set(2))
qed

lemma requires_observation_keeps:
  assumes "gate_fresh g r" and "requires_observation cell r g = (res, g')"
  shows "gate_fresh g' r"
proof -
  obtain g1 where "gate_fresh g1 r" "gate_marker r g = ((case sr_marker r of None \<Rightarrow> Inr None
     | Some f \<Rightarrow> (case mf_doc f of None \<Rightarrow> Inl MutationsWithheld | Some m \<Rightarrow> Inr (Some m))), g1)"
    using gate_marker_fresh[OF assms(1)] by blast
  then show ?thesis
    using assms(2) orphaned_fresh[of g1 r]
    by (auto simp: requires_observation_def gbind_def gret_def split: option.splits)
qed

lemma restored_step_inv:
  assumes "restored_inv s" and "restored_step fr s t"
  shows "restored_inv t"
proof -
  obtain r g where s: "s = (r, g)" by fastforce
  have i: "gate_fresh g r" "restore_stamp r \<noteq> 0" "window_open r"
    using assms(1) s by (simp_all add: restored_inv_def)
  from assms(2)[unfolded s] show ?thesis
  proof (cases rule: restored_step.cases)
    case (ask_allowed res g')
    then show ?thesis using assert_mutations_fresh[OF i(1)] i by (auto simp: restored_inv_def)
  next
    case (ask_observe cell res g')
    then show ?thesis using requires_observation_keeps[OF i(1), of cell] i by (simp add: restored_inv_def)
  next
    case (stores cs j a er)
    then show ?thesis using i by (simp add: restored_inv_def gate_fresh_def window_open_def split: option.splits)
  next
    case (resumed actor reason now stamp res g2 r')
    then show ?thesis
      using resume_writes[OF resumed(2)] assms(1) s written_marker(2)[OF i(1) _ i(2), of stamp "Some m" for m]
      by (auto simp: write_marker_def)
  next
    case (reconciled cell work now stamp res g2 r')
    then show ?thesis
      using mark_reconciled_writes[OF reconciled(2) i(3)] assms(1) s written_marker(2)[OF i(1) _ i(2), of stamp "Some m" for m]
      by (auto simp: write_marker_def)
  next
    case lost
    then show ?thesis using i by (simp add: restored_inv_def gate_fresh_def window_open_def split: option.splits)
  next
    case (damaged stamp)
    then show ?thesis using written_marker(2)[OF i(1) _ i(2), of stamp None] by simp
  next
    case (put_back stamp m)
    then show ?thesis using written_marker(2)[OF i(1) _ i(2), of stamp "Some m"] by (simp add: write_marker_def)
  qed
qed

lemma just_restored_inv: "just_restored s \<Longrightarrow> restored_inv s"
  by (auto simp: just_restored_def restored_inv_def window_open_def marker_state_def)

interpretation restored: inductive_invariant just_restored "restored_step fr" restored_inv for fr
  by unfold_locales (auto intro: just_restored_inv restored_step_inv)

section \<open>Closing the window\<close>

lemma window_open_archive [simp]: "window_open (archive_marker m r) = window_open r"
  by (simp add: window_open_def archive_marker_def restore_stamp_def present_def meta_readable_def split: option.splits)

lemma set_restore_stamp_marker: "set_restore_stamp v r = Inr r' \<Longrightarrow> sr_marker r' = sr_marker r"
  by (auto simp: set_restore_stamp_def split: if_splits)

lemma set_restore_stamp_zero: "set_restore_stamp 0 r = Inr r' \<Longrightarrow> restore_stamp r' = 0"
  by (auto simp: set_restore_stamp_def restore_stamp_def present_def meta_readable_def split: if_splits)

lemma archive_outcomes:
  assumes "sr_marker r = Some f" and "window_open r" and "archive m g r = (res, g', r')"
  shows "(\<exists>e. res = Inl e \<and> window_open r')
         \<or> (res = Inr m \<and> \<not> window_open r' \<and> (\<forall>s\<in>set (butlast (archive_writes m r)). window_open s))"
proof (cases "set_restore_stamp 0 (archive_marker m r)")
  case (Inl e)
  with assms show ?thesis by (auto simp: archive_def)
next
  case (Inr r1)
  have f: "sr_marker r1 = Some f" using set_restore_stamp_marker[OF Inr] assms(1) by (simp add: archive_marker_def)
  then have "window_open r1" using assms(1,2) by (simp add: window_open_def)
  moreover have "\<not> window_open (unlink_marker r1)"
    using set_restore_stamp_zero[OF Inr] by (simp add: window_open_def unlink_marker_def)
  ultimately show ?thesis using assms Inr by (auto simp: archive_def archive_writes_def)
qed

lemma close_gate_cases:
  assumes "close_gate actor reason reviewed now new_gate r = (res, g', r')"
  shows "(\<exists>e. res = Inl e \<and> r' = r)
     \<or> (\<exists>f m g1. sr_marker r = Some f \<and> mf_doc f = Some m \<and> mk_state m \<noteq> Some GATE_PENDING \<and> reviewed
          \<and> mk_unreconciled_cells m = [] \<and> mk_unreconciled_dispatch m = []
          \<and> archive (m\<lparr>mk_state := Some GATE_CLEAR, mk_history := mk_history m @ [GClosed now actor reason]\<rparr>) g1 r = (res, g', r'))"
proof -
  obtain x g1 where x: "gate_marker r new_gate = (x, g1)" by fastforce
  show ?thesis
  proof (cases "\<exists>m. x = Inr (Some m)")
    case True
    then obtain m where "x = Inr (Some m)" by blast
    then show ?thesis using assms x gate_marker_new[of r m g1] by (auto simp: close_gate_def split: if_splits)
  next
    case False
    then show ?thesis using assms x by (cases x) (auto simp: close_gate_def split: option.splits)
  qed
qed

text \<open>C23: the restore window ends only by a successful \<open>close\<close>, and atomically. A close that raises leaves the
  window open. A close that returns found a readable marker past validation, with nothing left to
  reconcile and the interval reviewed; afterwards the window is closed, and a crash between the three
  writes it makes leaves it open.\<close>

theorem close_gate_crash_safe:
  assumes "window_open r" and "close_gate actor reason reviewed now new_gate r = (res, g', r')"
  shows "(\<exists>e. res = Inl e \<and> window_open r')
     \<or> (\<exists>f m c. sr_marker r = Some f \<and> mf_doc f = Some m \<and> mk_state m \<noteq> Some GATE_PENDING
          \<and> mk_unreconciled_cells m = [] \<and> mk_unreconciled_dispatch m = [] \<and> reviewed
          \<and> res = Inr c \<and> \<not> window_open r' \<and> (\<forall>s\<in>set (butlast (archive_writes c r)). window_open s))"
proof -
  from close_gate_cases[OF assms(2)] show ?thesis
  proof (elim disjE exE conjE)
    fix e assume "res = Inl e" "r' = r"
    then show ?thesis using assms(1) by blast
  next
    fix f m g1
    assume *: "sr_marker r = Some f" "mf_doc f = Some m" "mk_state m \<noteq> Some GATE_PENDING" "reviewed"
      "mk_unreconciled_cells m = []" "mk_unreconciled_dispatch m = []"
      "archive (m\<lparr>mk_state := Some GATE_CLEAR, mk_history := mk_history m @ [GClosed now actor reason]\<rparr>) g1 r = (res, g', r')"
    from archive_outcomes[OF *(1) assms(1) *(7)] show ?thesis using * by blast
  qed
qed

section \<open>External effects keep the stores coherent\<close>

definition stores_agree :: "cell_store \<Rightarrow> journal \<Rightarrow> bool" where
  "stores_agree s j \<longleftrightarrow>
     (\<forall>row\<in>set j. \<exists>cell. get_cell (op_cell row) s = Some cell \<and> op_epoch row \<le> cell_epoch cell)
     \<and> (\<forall>e\<in>set (cs_events s). ev_kind e = ''external_mutation'' \<longrightarrow> ev_key e \<in> op_key ` set j)"

lemma map_of_epochs: "map_of (cell_epochs s) c = map_option cell_epoch (get_cell c s)"
proof -
  have "map_of (map (\<lambda>c. (cell_id c, cell_epoch c)) xs) c = map_option cell_epoch (select_one cell_id c xs)" for xs
    by (induction xs) (simp_all add: select_one_def)
  then show ?thesis by (simp add: cell_epochs_def get_cell_def)
qed

lemma coherence_problems_Nil:
  assumes "present ''cells'' r" and "present ''operations'' r"
  shows "coherence_problems r = [] \<longleftrightarrow> stores_agree (sr_cells r) (sr_journal r)"
proof -
  have "operation_problem (cell_epochs s) row = [] \<longleftrightarrow>
      (\<exists>cell. get_cell (op_cell row) s = Some cell \<and> op_epoch row \<le> cell_epoch cell)" for s row
    by (auto simp: operation_problem_def map_of_epochs split: option.splits)
  then show ?thesis
    using assms by (auto simp: coherence_problems_def stores_agree_def effect_events_def Let_def split: if_splits)
qed

text \<open>The journal operations only add the row of the call's own reference.\<close>

definition op_id :: "op_row \<Rightarrow> string \<times> string \<times> int" where
  "op_id row = (op_key row, op_cell row, op_epoch row)"

definition ref_id :: "op_ref \<Rightarrow> string \<times> string \<times> int" where
  "ref_id ref = (ref_key ref, ref_cell ref, ref_epoch ref)"

lemma op_ids_upd [simp]:
  assumes "\<And>row. op_id (f row) = op_id row"
  shows "map op_id (upd_where p f j) = map op_id j"
  using assms by (intro map_upd_where) simp

lemma op_id_update [simp]:
  "op_id (row\<lparr>op_state := st\<rparr>) = op_id row" "op_id (row\<lparr>op_updated_at := t\<rparr>) = op_id row"
  "op_id (row\<lparr>op_last_error := e\<rparr>) = op_id row" "op_id (row\<lparr>op_observation := ob\<rparr>) = op_id row"
  "op_id (row\<lparr>op_next_attempt_at := n\<rparr>) = op_id row" "op_id (row\<lparr>op_owner := ow\<rparr>) = op_id row"
  "op_id (row\<lparr>op_lease_until := l\<rparr>) = op_id row" "op_id (row\<lparr>op_attempts := a\<rparr>) = op_id row"
  "op_id (row\<lparr>op_result := rs\<rparr>) = op_id row" "op_id (row\<lparr>op_intent_digest := d\<rparr>) = op_id row"
  "op_id (row\<lparr>op_replay_safe := sf\<rparr>) = op_id row" "op_id (row\<lparr>op_max_attempts := mx\<rparr>) = op_id row"
  by (simp_all add: op_id_def)

lemma op_ids_kept:
  "map op_id (snd (start_attempt ref budget lease_s owner now j)) = map op_id j"
  "map op_id (snd (mark_in_doubt ref err ow now j)) = map op_id j"
  "map op_id (snd (mark_observation ref out now j)) = map op_id j"
  "map op_id (snd (schedule_retry ref attempt budget now j)) = map op_id j"
  "map op_id (snd (commit ref v ow now j)) = map op_id j"
  by (auto simp: start_attempt_unfold mark_in_doubt_def mark_observation_def schedule_retry_def commit_def Let_def
      split: option.splits sum.splits claim_write.splits)

lemma op_ids_eq:
  "start_attempt ref budget lease_s owner now j = (x1, j') \<Longrightarrow> map op_id j' = map op_id j"
  "mark_in_doubt ref err ow now j = (x2, j') \<Longrightarrow> map op_id j' = map op_id j"
  "mark_observation ref out now j = (x3, j') \<Longrightarrow> map op_id j' = map op_id j"
  "schedule_retry ref attempt budget now j = (x4, j') \<Longrightarrow> map op_id j' = map op_id j"
  "commit ref v ow now j = (x5, j') \<Longrightarrow> map op_id j' = map op_id j"
  using op_ids_kept by (metis snd_conv)+

lemma op_ids_begin:
  assumes "begin_op ref digest safe mx now j = (x, j')"
  shows "set (map op_id j') \<subseteq> insert (ref_id ref) (set (map op_id j))"
proof -
  have n: "op_id (new_op ref digest safe mx now) = ref_id ref" by (simp add: op_id_def ref_id_def new_op_def)
  have i: "set (map op_id (insert_or_ignore (new_op ref digest safe mx now) j)) \<subseteq> insert (ref_id ref) (set (map op_id j))"
    using n by (auto simp: insert_or_ignore_def)
  have b: "begin_bind ref digest safe mx now row j1 = Some j2 \<Longrightarrow> map op_id j2 = map op_id j1" for row j1 j2
    by (auto simp: begin_bind_def split: if_splits)
  have "j' = j \<or> map op_id j' = map op_id (insert_or_ignore (new_op ref digest safe mx now) j)"
    using assms b by (fastforce simp: begin_op_def Let_def split: if_splits option.splits)
  with i show ?thesis by (elim disjE) (simp add: subset_insertI, simp only:)
qed

lemma op_ids_exec:
  "exec_effect c b fn ck n ow j x = (res, j', x') \<Longrightarrow> map op_id j' = map op_id j"
  "exec_claim c b fn ck j x = (res, j', x') \<Longrightarrow> map op_id j' = map op_id j"
  "exec_decide c b sf fn rc ck ex row j x = (res, j', x') \<Longrightarrow> map op_id j' = map op_id j"
  "exec_loaded c fn rc ck ex row j x = (res, j', x') \<Longrightarrow> map op_id j' = map op_id j"
proof -
  show e: "exec_effect c b fn ck n ow j x = (res, j', x') \<Longrightarrow> map op_id j' = map op_id j" for c b ck n ow j x res j' x'
    by (auto simp: exec_effect_def dest!: op_ids_eq split: prod.splits sum.splits)
  show cl: "exec_claim c b fn ck j x = (res, j', x') \<Longrightarrow> map op_id j' = map op_id j" for c b ck j x res j' x'
    by (auto simp: exec_claim_def dest!: op_ids_eq e split: prod.splits sum.splits)
  show d: "exec_decide c b sf fn rc ck ex row j x = (res, j', x') \<Longrightarrow> map op_id j' = map op_id j" for c b sf ck ex row j x res j' x'
    by (auto simp: exec_decide_def dest!: op_ids_eq cl split: if_splits option.splits prod.splits sum.splits)
  show "exec_loaded c fn rc ck ex row j x = (res, j', x') \<Longrightarrow> map op_id j' = map op_id j"
    by (auto simp: exec_loaded_def dest!: op_ids_eq d split: if_splits option.splits prod.splits sum.splits)
qed

lemma op_ids_execute:
  assumes "execute c fn rc ck j x = (res, j', x')"
  shows "set (map op_id j') \<subseteq> insert (ref_id (xc_ref c)) (set (map op_id j))"
proof (cases "j' = j")
  case False
  then obtain b j1 where "exec_begin c (get_op (ref_key (xc_ref c)) j \<noteq> None) ck j = (b, j1)" "map op_id j' = map op_id j1"
    using assms by (auto simp: execute_def Let_def dest: op_ids_exec(4) split: if_splits prod.splits sum.splits option.splits)
  then show ?thesis using op_ids_begin unfolding exec_begin_def by metis
qed auto

lemma stores_agree_journal:
  assumes "stores_agree s j" and "set (map op_id j') \<subseteq> insert (k, c, e) (set (map op_id j))"
    and "op_key ` set j \<subseteq> op_key ` set j'" and "get_cell c s = Some cell" and "e \<le> cell_epoch cell"
  shows "stores_agree s j'"
proof -
  have "\<exists>cell. get_cell (op_cell row) s = Some cell \<and> op_epoch row \<le> cell_epoch cell" if "row \<in> set j'" for row
  proof -
    have "op_id row \<in> insert (k, c, e) (set (map op_id j))" using that assms(2) by auto
    then consider "op_cell row = c" "op_epoch row = e"
      | row0 where "row0 \<in> set j" "op_cell row = op_cell row0" "op_epoch row = op_epoch row0"
      by (auto simp: op_id_def)
    then show ?thesis
    proof cases
      case 1
      then show ?thesis using assms(4,5) by simp
    next
      case 2
      then show ?thesis using assms(1) by (simp add: stores_agree_def)
    qed
  qed
  moreover have "ev_key e \<in> op_key ` set j'" if "e \<in> set (cs_events s)" "ev_kind e = ''external_mutation''" for e
    using that assms(1,3) by (auto simp: stores_agree_def)
  ultimately show ?thesis by (simp add: stores_agree_def)
qed

lemma journal_keys_grow: "journal_evolves j j' \<Longrightarrow> journal_inv j \<Longrightarrow> op_key ` set j \<subseteq> op_key ` set j'"
proof
  fix k assume "journal_evolves j j'" "journal_inv j" "k \<in> op_key ` set j"
  then obtain row where "get_op k j = Some row"
    by (auto simp: get_op_def journal_inv_def select_one_Some_iff)
  with \<open>journal_evolves j j'\<close> obtain row' where "get_op k j' = Some row'" by (auto simp: journal_evolves_def)
  then show "k \<in> op_key ` set j'" using get_op_in get_op_self by fastforce
qed

lemma cell_effect_once_store:
  assumes "cell_effect_once m now s = (e, s')"
  shows "cs_cells s' = cs_cells s \<and> (cs_events s' = cs_events s \<or> (\<exists>ev. cs_events s' = cs_events s @ [ev] \<and> ev_key ev = mu_key m))"
proof -
  obtain x t where r: "record_mutation m now s = (x, t)" by fastforce
  then have "s' = t" using assms by (auto simp: cell_effect_once_def split: sum.splits option.splits if_splits cell_error.splits)
  then show ?thesis using r by (auto simp: record_mutation_def dest: append_event_Inr(1) split: sum.splits)
qed

lemma stores_agree_effect:
  assumes "stores_agree s j" and "cell_effect_once m now s = (e, s')" and "mu_key m \<in> op_key ` set j"
  shows "stores_agree s' j"
  using assms(1,3) cell_effect_once_store[OF assms(2)] by (auto simp: stores_agree_def get_cell_def)

lemma record_effect_cells:
  assumes "record_effect rep fr r replayed ck v c = (res, c')"
  shows "\<exists>e. cell_effect_once (effect_mutation fr r v) (ck 7) (co_cells c) = (e, co_cells c') \<and> co_journal c' = co_journal c"
  using assms by (auto simp: record_effect_def split: prod.splits option.splits sum.splits)

lemma effects_agree:
  assumes "stores_agree (co_cells c) (co_journal c)" and "journal_inv (co_journal c)"
    and "execute_external rep fr r fn rc budget obs owner ck c x = (res, c', x')"
  shows "stores_agree (co_cells c') (co_journal c')"
proof (cases "admit_effect r (co_cells c) (co_journal c)")
  case (Inl e)
  then show ?thesis using assms(1,3) by (simp add: execute_external_def)
next
  case (Inr p)
  then obtain cell replayed where a: "admit_effect r (co_cells c) (co_journal c) = Inr (cell, replayed)" by (cases p) auto
  let ?call = "request_call fr r budget obs owner"
  obtain ans j y where e: "execute ?call (durable_call fn) (map_option reconcile_redacted rc) ck (co_journal c) x = (ans, j, y)"
    by (metis prod_cases3)
  obtain d where cell: "get_cell (ab_cell_id (rq_airflow r)) (co_cells c) = Some cell" "cell_epoch cell = ab_epoch (rq_airflow r)"
    using admit_effect_Inr[OF a] by metis
  have good: "exec_good (xc_ref ?call) (co_journal c) (ans, j, y)"
    using execute_good[OF assms(2), of ?call] e by metis
  then have "op_key ` set (co_journal c) \<subseteq> op_key ` set j"
    using journal_keys_grow[OF _ assms(2)] by (simp add: exec_good_def journal_ok_def)
  moreover have "set (map op_id j) \<subseteq> insert (ref_id (xc_ref ?call)) (set (map op_id (co_journal c)))"
    by (rule op_ids_execute[OF e])
  ultimately have sj: "stores_agree (co_cells c) j"
    using stores_agree_journal[OF assms(1)] cell by (simp add: ref_id_def request_call_def)
  show ?thesis
  proof (cases ans)
    case (Inl err)
    then show ?thesis using assms(3) a e sj by (simp add: execute_external_def) (auto simp: execute_external_def)
  next
    case (Inr v)
    then have "receipt (request_key r) v j" using good by (simp add: exec_good_def request_call_def)
    then obtain row where "get_op (request_key r) j = Some row" by (auto simp: receipt_def split: option.splits)
    then have "request_key r \<in> op_key ` set j" using get_op_in by force
    moreover obtain res2 c2 where "record_effect rep fr r replayed ck v (c\<lparr>co_journal := j\<rparr>) = (res2, c2)" by fastforce
    moreover have "c' = c2" using assms(3) a e Inr calculation(2) by (simp add: execute_external_def)
    ultimately show ?thesis
      using record_effect_cells[of rep fr r replayed ck v "c\<lparr>co_journal := j\<rparr>" res2 c2] stores_agree_effect[OF sj]
      by (auto simp: effect_mutation_def)
  qed
qed

text \<open>C22: an external effect keeps the Cell store and the operation journal coherent, whether it succeeds, is
  refused or fails half way: if the joins that a backup and a restore check held before
  \<open>execute_external\<close>, they hold after it.\<close>

theorem effects_keep_coherence:
  assumes "present ''cells'' sr" and "present ''operations'' sr" and "journal_inv (co_journal c)"
    and "coherence_problems (sr\<lparr>sr_cells := co_cells c, sr_journal := co_journal c\<rparr>) = []"
    and "execute_external rep fr r fn rc budget obs owner ck c x = (res, c', x')"
  shows "coherence_problems (sr\<lparr>sr_cells := co_cells c', sr_journal := co_journal c'\<rparr>) = []"
  using assms effects_agree[OF _ assms(3,5)]
  by (simp add: coherence_problems_Nil present_def)

section \<open>Examples\<close>

definition demo_db :: "string \<Rightarrow> db_file option" where
  "demo_db n = (if n \<in> set sqlite_names
     then Some \<lparr>db_ok = True, db_version = 1, db_tables = ddl_tables n, db_cell_schema = None\<rparr> else None)"

definition demo_root :: state_root where
  "demo_root = \<lparr>sr_files = demo_db, sr_evidence_dir = Some (Some (Some 1)), sr_cells = empty_store, sr_journal = [],
     sr_adm = empty_adm, sr_restore_open = None, sr_evidence = empty_root, sr_cell_dirs = [], sr_marker = None, sr_archive = []\<rparr>"

definition demo_marker :: marker where
  "demo_marker = \<lparr>mk_state = Some GATE_RECONCILING, mk_restored_at = 100, mk_actor = ''op'', mk_reason = ''drill'',
     mk_manifest_digest = [], mk_created_at = Some 40, mk_restored_cells = [], mk_unreconciled_cells = [],
     mk_unreconciled_dispatch = [], mk_fence_rollbacks = [], mk_history = []\<rparr>"

definition demo_open :: state_root where
  "demo_open = demo_root\<lparr>sr_restore_open := Some 100, sr_marker := Some \<lparr>mf_stamp = (1, 1), mf_doc = Some demo_marker\<rparr>\<rparr>"

lemma demo_present: "present ''cells'' demo_root" "present ''operations'' demo_root" "present ''admission'' demo_root"
  "meta_readable demo_root"
  by code_simp+

lemma demo_open_facts: "window_open demo_open" "set_restore_stamp 0 (archive_marker m demo_open) \<noteq> Inl e"
proof -
  show "window_open demo_open" by (simp add: window_open_def demo_open_def demo_marker_def marker_state_def)
  show "set_restore_stamp 0 (archive_marker m demo_open) \<noteq> Inl e"
    using demo_present(3,4) by (simp add: set_restore_stamp_def archive_marker_def demo_open_def present_def meta_readable_def)
qed

lemma demo_close: "\<exists>c g r'. close_gate ''op'' ''reviewed'' True 200 new_gate demo_open = (Inr c, g, r')"
proof (cases "set_restore_stamp 0 (archive_marker (demo_marker\<lparr>mk_state := Some GATE_CLEAR, mk_history := [GClosed 200 ''op'' ''reviewed'']\<rparr>) demo_open)")
  case (Inl e)
  then show ?thesis using demo_open_facts(2) by blast
next
  case (Inr r1)
  have "gate_marker demo_open new_gate = (Inr (Some demo_marker), \<lparr>g_stamp = Some (1, 1), g_marker = Some demo_marker, g_orphaned = None\<rparr>)"
    by (simp add: gate_marker_def new_gate_def demo_open_def)
  moreover have "mk_state demo_marker \<noteq> Some GATE_PENDING" "mk_unreconciled_cells demo_marker = []"
    "mk_unreconciled_dispatch demo_marker = []" "mk_history demo_marker = []"
    by (simp_all add: demo_marker_def)
  ultimately show ?thesis using Inr by (simp add: close_gate_def archive_def)
qed

theorem close_gate_crash_safe_witness:
  "\<exists>c g r'. close_gate ''op'' ''reviewed'' True 200 new_gate demo_open = (Inr c, g, r') \<and> \<not> window_open r'"
proof -
  obtain c g r' where e: "close_gate ''op'' ''reviewed'' True 200 new_gate demo_open = (Inr c, g, r')" using demo_close by blast
  from close_gate_crash_safe[OF demo_open_facts(1) e] e show ?thesis by blast
qed

lemma demo_core_coherent: "coherence_problems (demo_root\<lparr>sr_cells := co_cells demo_core, sr_journal := co_journal demo_core\<rparr>) = []"
proof -
  have "stores_agree (co_cells demo_core) (co_journal demo_core)" by (simp add: stores_agree_def demo_core_def)
  then show ?thesis using demo_present(1,2) by (simp add: coherence_problems_Nil present_def)
qed

theorem effects_keep_coherence_witness:
  "\<exists>res c' x'. execute_external (\<lambda>_. []) (\<lambda>_. ''0'') demo_request count_ok None None False ''w'' (\<lambda>i. 0) demo_core 0 = (res, c', x')
     \<and> coherence_problems (demo_root\<lparr>sr_cells := co_cells c', sr_journal := co_journal c'\<rparr>) = []"
proof -
  obtain res c' x' where e: "execute_external (\<lambda>_. []) (\<lambda>_. ''0'') demo_request count_ok None None False ''w'' (\<lambda>i. 0) demo_core 0 = (res, c', x')"
    by (metis prod_cases3)
  show ?thesis
    by (intro exI conjI, rule e, rule effects_keep_coherence[OF demo_present(1,2) demo_core_inv(2) demo_core_coherent e])
qed

text \<open>The check of the joins asks for a journal row of an effect, whatever its state: a row that is still an
  intent passes for a receipt.\<close>

lemma coherence_accepts_intent:
  assumes "op_key row = ev_key e" and "op_cell row = cell_id cell" and "op_epoch row = cell_epoch cell" and "op_state row = Intent"
  shows "coherence_problems (demo_root\<lparr>sr_cells := \<lparr>cs_cells = [cell], cs_events = [e], cs_seq = 1\<rparr>, sr_journal := [row]\<rparr>) = []"
proof -
  have "stores_agree \<lparr>cs_cells = [cell], cs_events = [e], cs_seq = 1\<rparr> [row]"
    using assms by (simp add: stores_agree_def get_cell_def select_one_def)
  then show ?thesis using demo_present(1,2) by (simp add: coherence_problems_Nil present_def)
qed

text \<open>A gate that once found the marker missing keeps that answer: it withholds effects for as long as it lives,
  also after another process has put the marker back and closed the window.\<close>

lemma orphan_answer_sticks:
  assumes "g_orphaned g = Some True" and "sr_marker r = None"
  shows "fst (assert_mutations_allowed r g) = Inl MutationsWithheld"
  using assms by (simp add: assert_mutations_allowed_def orphaned_def gate_marker_def gbind_def graise_def)

end
