(* ===== verification/Backup.thy ===== *)
theory Backup
  imports RestoreContract
begin

text \<open>
  Coordinated backup and restore, the first half of \<open>restore_contract.py\<close>: the window in which every store is
  locked, the manifest, its verification, and the placement of a backup. How SQLite writes a store into a
  file and reads it back is the parameter \<open>decode\<close> (the payload files as a state root) and \<open>copy\<close> (a state
  root as payload files); what is proved of them needs no law. The theorems show that a fenced snapshot is
  one instant, when a finished backup verifies, and that a restore leaves the factory fenced.
\<close>

section \<open>Quiescing the stores\<close>

text \<open>The stores are locked one after another; until a store is locked another connection may commit to it,
  which changes its content and its \<open>data_version\<close>. The state is the paths still to lock, the locked ones,
  and version and content of every store.\<close>

type_synonym 'a fencing = "string list \<times> string list \<times> (string \<Rightarrow> int) \<times> (string \<Rightarrow> 'a)"

inductive quiesce_step :: "'a fencing \<Rightarrow> 'a fencing \<Rightarrow> bool" where
  lock: "quiesce_step (p # ps, locked, v, c) (ps, p # locked, v, c)"
| other_commit: "p \<notin> set locked \<Longrightarrow> quiesce_step (ps, locked, v, c) (ps, locked, v(p := v p + 1), c(p := x))"

definition moved :: "string list \<Rightarrow> (string \<Rightarrow> int) \<Rightarrow> (string \<Rightarrow> int) \<Rightarrow> string list" where
  "moved paths before after = filter (\<lambda>p. after p \<noteq> before p) paths"

definition quiesce_result :: "string list \<Rightarrow> (string \<Rightarrow> int) \<Rightarrow> (string \<Rightarrow> int) \<Rightarrow> bool" where
  "quiesce_result paths before after = (moved paths before after = [])"

lemma quiesce_unmoved:
  assumes "quiesce_step\<^sup>*\<^sup>* (paths, [], v0, c0) (ps, locked, v, c)"
  shows "v0 p \<le> v p \<and> (v p = v0 p \<longrightarrow> c p = c0 p)"
proof -
  let ?inv = "\<lambda>(_, _, v, c). v0 p \<le> v p \<and> (v p = v0 p \<longrightarrow> c p = c0 p)"
  have "?inv (ps, locked, v, c)"
    using assms
  proof (induction rule: rtranclp_induct)
    case (step s t)
    from step.hyps(2) step.IH show ?case by cases auto
  qed simp
  then show ?thesis by simp
qed

lemma quiesce_locks:
  assumes "quiesce_step\<^sup>*\<^sup>* (paths, [], v0, c0) (ps, locked, v, c)"
  shows "set paths = set ps \<union> set locked"
proof -
  have "(\<lambda>(ps, locked, v, c). set paths = set ps \<union> set locked) (ps, locked, v, c)"
    using assms
  proof (induction rule: rtranclp_induct)
    case (step s t)
    from step.hyps(2) step.IH show ?case by cases auto
  qed simp
  then show ?thesis by simp
qed

lemma locked_content_fixed:
  assumes "quiesce_step\<^sup>*\<^sup>* s t" and "s = (ps, locked, v, c)" and "t = (ps', locked', v', c')" and "p \<in> set locked"
  shows "p \<in> set locked' \<and> c' p = c p"
proof -
  have "(\<lambda>(_, l, _, d). p \<in> set l \<and> d p = c p) t"
    using assms(1)
  proof (induction rule: rtranclp_induct)
    case base
    then show ?case using assms(2,4) by simp
  next
    case (step y z)
    from step.hyps(2) step.IH show ?case by cases auto
  qed
  then show ?thesis using assms(3) by simp
qed

text \<open>C25: a backup window is one instant. If the last store is locked and no store's version moved while the
  locks were being taken, every store still holds what it held before the first lock, and no later commit
  of anyone changes it while the window lasts.\<close>

theorem quiesced_snapshot_is_one_instant:
  assumes "quiesce_step\<^sup>*\<^sup>* (paths, [], before, c0) ([], locked, after, c1)" and "quiesce_result paths before after"
    and "p \<in> set paths"
  shows "c1 p = c0 p \<and> (\<forall>ps l v c2. quiesce_step\<^sup>*\<^sup>* ([], locked, after, c1) (ps, l, v, c2) \<longrightarrow> c2 p = c0 p)"
proof -
  have "after p = before p" using assms(2,3) by (auto simp: quiesce_result_def moved_def filter_empty_conv)
  then have c1: "c1 p = c0 p" using quiesce_unmoved[OF assms(1), of p] by simp
  moreover have "p \<in> set locked" using quiesce_locks[OF assms(1)] assms(3) by simp
  ultimately show ?thesis using locked_content_fixed[OF _ refl refl] by metis
qed

section \<open>Backups and their manifest\<close>

definition BACKUP_SCHEMA_VERSION :: int where
  "BACKUP_SCHEMA_VERSION = 1"

record file_entry =
  fe_path :: string
  fe_bytes :: int
  fe_sha256 :: string

record store_entry =
  se_name :: string
  se_path :: string
  se_present :: bool
  se_version :: "int option"
  se_kind :: string
  se_wal_bytes :: "int option"

record cell_entry =
  ce_id :: string
  ce_events :: int
  ce_intact :: bool
  ce_tail :: string
  ce_detail :: string

record manifest =
  mn_schema :: int
  mn_created_at :: time
  mn_actor :: string
  mn_host :: string
  mn_state_root :: string
  mn_stores :: "store_entry list"
  mn_evidence_present :: bool
  mn_cells :: "cell_entry list"
  mn_runs :: "(string \<times> int) list"
  mn_files :: "file_entry list"
  mn_digest :: string
  mn_complete :: bool

datatype manifest_file = NoManifest | UnreadableManifest | Manifest manifest

record backup_dir =
  bd_manifest :: manifest_file
  bd_files :: "(string \<times> string) list"

definition jbool_int :: "int option \<Rightarrow> json" where
  "jbool_int v = (case v of None \<Rightarrow> JNull | Some i \<Rightarrow> JInt i)"

definition store_json :: "store_entry \<Rightarrow> json" where
  "store_json e = JObj ([(''name'', JStr (se_name e)), (''relative_path'', JStr (se_path e)), (''present'', JBool (se_present e)),
     (''schema_version'', jbool_int (se_version e)), (''kind'', JStr (se_kind e))]
     @ (case se_wal_bytes e of None \<Rightarrow> [] | Some n \<Rightarrow> [(''source_wal_bytes'', JInt n)]))"

definition cell_json :: "cell_entry \<Rightarrow> json" where
  "cell_json e = JObj [(''cell_id'', JStr (ce_id e)), (''events'', JInt (ce_events e)), (''chain_intact'', JBool (ce_intact e)),
     (''tail_digest'', JStr (ce_tail e)), (''detail'', JStr (ce_detail e))]"

definition file_json :: "file_entry \<Rightarrow> json" where
  "file_json e = JObj [(''path'', JStr (fe_path e)), (''bytes'', JInt (fe_bytes e)), (''sha256'', JStr (fe_sha256 e))]"

definition manifest_body :: "manifest \<Rightarrow> json" where
  "manifest_body m = JObj
     [(''schema_version'', JInt (mn_schema m)), (''created_at'', JReal (mn_created_at m)), (''actor'', JStr (mn_actor m)),
      (''host'', JStr (mn_host m)), (''state_root'', JStr (mn_state_root m)), (''quiesced'', JBool True),
      (''binary_store_versions'', JObj (map (\<lambda>(n, v). (n, JInt v)) supported_versions)),
      (''stores'', JArr (map store_json (mn_stores m))),
      (''evidence'', JObj [(''present'', JBool (mn_evidence_present m)), (''cells'', JArr (map cell_json (mn_cells m)))]),
      (''runs'', JArr (map (\<lambda>(run, n). JObj [(''run_id'', JStr run), (''files'', JInt n)]) (mn_runs m))),
      (''files'', JArr (map file_json (mn_files m)))]"

definition digest_of :: "(real \<Rightarrow> string) \<Rightarrow> json \<Rightarrow> string" where
  "digest_of fr body = ''sha256:'' @ sha256_hex (jdumps True fr (jcanon body))"

definition hash_tree :: "(string \<times> string) list \<Rightarrow> file_entry list" where
  "hash_tree files = map (\<lambda>(p, data). \<lparr>fe_path = p, fe_bytes = int (length data), fe_sha256 = sha256_hex data\<rparr>) (sort_key fst files)"

definition store_entry_of :: "(string \<Rightarrow> int) \<Rightarrow> bool \<Rightarrow> state_root \<Rightarrow> store_schema \<Rightarrow> store_entry" where
  "store_entry_of wal evidence_present r s =
     (let st = inspect_store (sr_files r) (sr_evidence_dir r) s in
      case ss_kind s of
        EvidenceTree \<Rightarrow> \<lparr>se_name = ss_name s, se_path = ss_path s, se_present = evidence_present, se_version = st_version st,
          se_kind = ''evidence'', se_wal_bytes = None\<rparr>
      | Sqlite \<Rightarrow> \<lparr>se_name = ss_name s, se_path = ss_path s, se_present = present (ss_name s) r, se_version = st_version st,
          se_kind = ''sqlite'', se_wal_bytes = Some (wal (ss_name s))\<rparr>)"

definition evidence_entry :: "(real \<Rightarrow> string) \<Rightarrow> state_root \<Rightarrow> string \<Rightarrow> cell_entry" where
  "evidence_entry fr payload cell =
     (let records = er_events (sr_evidence payload) cell; v = verify_chain fr records in
      \<lparr>ce_id = cell, ce_events = int (length records), ce_intact = fst v, ce_tail = (if fst v then snd v else []),
       ce_detail = (if fst v then [] else snd v)\<rparr>)"

datatype backup_error = DestNotEmpty | UnsupportedRoot | UnusableStores "string list" | NotQuiesced | StoresDisagree

text \<open>The circumstances of one run: whether the destination is empty, whether the state root is supported,
  whether the window closed without a commit, and the recorded texts.\<close>

record backup_run =
  br_dest_empty :: bool
  br_supported :: bool
  br_quiesced :: bool
  br_actor :: string
  br_host :: string
  br_root :: string
  br_now :: time
  br_wal :: "string \<Rightarrow> int"
  br_runs :: "(string \<times> int) list"

definition seal :: "(real \<Rightarrow> string) \<Rightarrow> manifest \<Rightarrow> manifest" where
  "seal fr m = m\<lparr>mn_digest := digest_of fr (manifest_body m), mn_complete := True\<rparr>"

definition create_backup ::
  "(real \<Rightarrow> string) \<Rightarrow> (state_root \<Rightarrow> (string \<times> string) list) \<Rightarrow> ((string \<times> string) list \<Rightarrow> state_root) \<Rightarrow> backup_run
     \<Rightarrow> state_root \<Rightarrow> backup_error + backup_dir" where
  "create_backup fr copy decode run r =
     (let unusable = filter (\<lambda>st. \<not> usable st) (inspect_state_root (sr_files r) (sr_evidence_dir r));
          files = copy r; payload = decode files; evidence_present = (sr_evidence_dir r \<noteq> None) in
      if \<not> br_dest_empty run then Inl DestNotEmpty
      else if \<not> br_supported run then Inl UnsupportedRoot
      else if unusable \<noteq> [] then Inl (UnusableStores (map st_name unusable))
      else if \<not> br_quiesced run then Inl NotQuiesced
      else if coherence_problems payload \<noteq> [] then Inl StoresDisagree
      else
        let body = \<lparr>mn_schema = BACKUP_SCHEMA_VERSION, mn_created_at = br_now run, mn_actor = br_actor run,
              mn_host = br_host run, mn_state_root = br_root run,
              mn_stores = map (store_entry_of (br_wal run) evidence_present r) FACTORY_STORES,
              mn_evidence_present = evidence_present,
              mn_cells = (if evidence_present then map (evidence_entry fr payload) (sr_cell_dirs payload) else []),
              mn_runs = br_runs run, mn_files = hash_tree files, mn_digest = [], mn_complete = False\<rparr>
        in Inr \<lparr>bd_manifest = Manifest (seal fr body), bd_files = files\<rparr>)"

section \<open>Verification\<close>

datatype backup_problem =
    ManifestMissing
  | ManifestUnreadable
  | WrongBackupSchema
  | NotComplete
  | ManifestEdited
  | FileMissing string
  | FileChanged string
  | FileUndeclared string
  | StoreAbsent string
  | StoresDisagreed coherence_problem
  | ChainBroken string
  | TailChanged string

fun last_by :: "('a \<Rightarrow> 'k) \<Rightarrow> 'a list \<Rightarrow> 'a list" where
  "last_by key [] = []"
| "last_by key (x # xs) = (if key x \<in> set (map key xs) then last_by key xs else x # last_by key xs)"

definition declared_files :: "manifest \<Rightarrow> file_entry list" where
  "declared_files m = sort_key fe_path (last_by fe_path (mn_files m))"

definition file_problem :: "(string \<times> string) list \<Rightarrow> file_entry \<Rightarrow> backup_problem list" where
  "file_problem files e =
     (case map_of files (fe_path e) of
        None \<Rightarrow> [FileMissing (fe_path e)]
      | Some data \<Rightarrow>
          if int (length data) \<noteq> fe_bytes e \<or> sha256_hex data \<noteq> fe_sha256 e then [FileChanged (fe_path e)] else [])"

definition cell_problem :: "(real \<Rightarrow> string) \<Rightarrow> state_root \<Rightarrow> cell_entry \<Rightarrow> backup_problem list" where
  "cell_problem fr payload e =
     (if \<not> ce_intact e then [ChainBroken (ce_id e)]
      else let v = verify_chain fr (er_events (sr_evidence payload) (ce_id e)) in
        if \<not> fst v \<or> snd v \<noteq> ce_tail e then [TailChanged (ce_id e)] else [])"

definition verify_backup :: "(real \<Rightarrow> string) \<Rightarrow> ((string \<times> string) list \<Rightarrow> state_root) \<Rightarrow> backup_dir \<Rightarrow> backup_problem list" where
  "verify_backup fr decode b =
     (case bd_manifest b of
        NoManifest \<Rightarrow> [ManifestMissing]
      | UnreadableManifest \<Rightarrow> [ManifestUnreadable]
      | Manifest m \<Rightarrow>
          if mn_schema m \<noteq> BACKUP_SCHEMA_VERSION then [WrongBackupSchema]
          else
            (if mn_complete m then [] else [NotComplete])
            @ (if mn_digest m \<noteq> digest_of fr (manifest_body m) then [ManifestEdited] else [])
            @ concat (map (file_problem (bd_files b)) (declared_files m))
            @ concat (map (\<lambda>p. if p \<notin> set (map fe_path (mn_files m)) then [FileUndeclared p] else [])
                (sort (map fst (bd_files b))))
            @ concat (map (\<lambda>e. if se_present e then [] else [StoreAbsent (se_name e)]) (mn_stores m))
            @ map StoresDisagreed (coherence_problems (decode (bd_files b)))
            @ concat (map (cell_problem fr (decode (bd_files b))) (mn_cells m)))"

section \<open>Restore\<close>

definition py_trunc :: "real \<Rightarrow> int" where
  "py_trunc x = (if 0 \<le> x then \<lfloor>x\<rfloor> else \<lceil>x\<rceil>)"

definition version_refused :: "store_entry \<Rightarrow> bool" where
  "version_refused e =
     (case map_of supported_versions (se_name e) of
        None \<Rightarrow> True
      | Some limit \<Rightarrow> (case se_version e of None \<Rightarrow> False | Some v \<Rightarrow> v > limit))"

definition place_payload :: "((string \<times> string) list \<Rightarrow> state_root) \<Rightarrow> backup_dir \<Rightarrow> state_root" where
  "place_payload decode b = (decode (bd_files b))\<lparr>sr_marker := None, sr_archive := []\<rparr>"

definition restore_marker ::
  "((string \<times> string) list \<Rightarrow> state_root) \<Rightarrow> backup_dir \<Rightarrow> manifest \<Rightarrow> state_root option \<Rightarrow> string \<Rightarrow> string \<Rightarrow> time \<Rightarrow> marker" where
  "restore_marker decode b m target actor reason now =
     build_marker (mn_digest m) (Some (mn_created_at m)) actor reason
       (case target of None \<Rightarrow> [] | Some t \<Rightarrow> current_epochs t) now (place_payload decode b)"

text \<open>The state root after each of the writes of a restore: the payload, the marker, the stamp.\<close>

definition restore_writes ::
  "((string \<times> string) list \<Rightarrow> state_root) \<Rightarrow> backup_dir \<Rightarrow> marker \<Rightarrow> int \<times> int \<Rightarrow> state_root list" where
  "restore_writes decode b mk stamp =
     (let r1 = place_payload decode b; r2 = write_marker mk stamp r1 in
      [r1, r2] @ (case set_restore_stamp (py_trunc (mk_restored_at mk)) r2 of Inl _ \<Rightarrow> [] | Inr r3 \<Rightarrow> [r3]))"

text \<open>The target is the state root found at the destination, \<open>None\<close> when it is empty or absent.\<close>

definition restore ::
  "(real \<Rightarrow> string) \<Rightarrow> ((string \<times> string) list \<Rightarrow> state_root) \<Rightarrow> backup_dir \<Rightarrow> state_root option \<Rightarrow> string \<Rightarrow> string
     \<Rightarrow> bool \<Rightarrow> time \<Rightarrow> int \<times> int \<Rightarrow> (restore_error + marker) \<times> state_root option" where
  "restore fr decode b target actor reason replace_existing now stamp =
     (if verify_backup fr decode b \<noteq> [] then (Inl RestoreRefused, target)
      else case bd_manifest b of
        Manifest m \<Rightarrow>
          if list_ex version_refused (mn_stores m) then (Inl RestoreRefused, target)
          else if target \<noteq> None \<and> \<not> replace_existing then (Inl RestoreRefused, target)
          else
            let mk = restore_marker decode b m target actor reason now; r2 = write_marker mk stamp (place_payload decode b) in
            (case set_restore_stamp (py_trunc (mk_restored_at mk)) r2 of
               Inl e \<Rightarrow> (Inl e, Some r2)
             | Inr r3 \<Rightarrow> (Inr mk, Some r3))
      | _ \<Rightarrow> (Inl RestoreRefused, target))"

section \<open>When a finished backup verifies\<close>

lemma last_by_distinct: "distinct (map key xs) \<Longrightarrow> last_by key xs = xs"
  by (induction xs) auto

lemma seal_simps [simp]:
  "mn_schema (seal fr m) = mn_schema m" "mn_complete (seal fr m)" "mn_files (seal fr m) = mn_files m"
  "mn_stores (seal fr m) = mn_stores m" "mn_cells (seal fr m) = mn_cells m"
  "mn_digest (seal fr m) = digest_of fr (manifest_body (seal fr m))"
  by (simp_all add: seal_def manifest_body_def)

lemma hash_tree_paths: "map fe_path (hash_tree files) = map fst (sort_key fst files)"
  by (simp add: hash_tree_def case_prod_beta comp_def)

lemma hash_tree_accepted:
  assumes "distinct (map fst files)" and "e \<in> set (hash_tree files)"
  shows "file_problem files e = []"
  using assms by (auto simp: hash_tree_def file_problem_def dest: map_of_is_SomeI)

lemma declared_created:
  assumes "distinct (map fst files)" and "mn_files m = hash_tree files"
  shows "set (declared_files m) = set (hash_tree files)"
proof -
  have "distinct (map fe_path (hash_tree files))"
    using assms(1) unfolding hash_tree_paths by (simp add: distinct_map)
  then show ?thesis using assms(2) by (simp add: declared_files_def last_by_distinct)
qed

lemma evidence_entry_problem:
  "cell_problem fr payload (evidence_entry fr payload c) = [] \<longleftrightarrow> fst (verify_chain fr (er_events (sr_evidence payload) c))"
  by (simp add: cell_problem_def evidence_entry_def Let_def)

lemma store_entries_present:
  "(\<forall>e\<in>set (map (store_entry_of wal ev r) FACTORY_STORES). se_present e)
     \<longleftrightarrow> ev \<and> (\<forall>n\<in>set sqlite_names. present n r)"
  by (auto simp: FACTORY_STORES_def store_entry_of_def sqlite_names_def Let_def)

text \<open>C24: a finished backup verifies exactly when every store was there to be copied and every evidence chain in
  the copy is intact: the digests, the file list and the joins that \<open>verify_backup\<close> checks always hold of
  what \<open>create_backup\<close> wrote, so the two conditions it does not check before it seals the manifest are the
  only ones that make it unrestorable.\<close>

theorem created_backup_verifies:
  assumes "create_backup fr copy decode run r = Inr b" and "distinct (map fst (copy r))"
  shows "verify_backup fr decode b = [] \<longleftrightarrow>
     (\<forall>n\<in>set sqlite_names. present n r) \<and> sr_evidence_dir r \<noteq> None
     \<and> (\<forall>c\<in>set (sr_cell_dirs (decode (copy r))). fst (verify_chain fr (er_events (sr_evidence (decode (copy r))) c)))"
proof -
  obtain m where m: "bd_manifest b = Manifest (seal fr m)" "bd_files b = copy r" "coherence_problems (decode (copy r)) = []"
    "mn_schema m = BACKUP_SCHEMA_VERSION" "mn_files m = hash_tree (copy r)"
    "mn_stores m = map (store_entry_of (br_wal run) (sr_evidence_dir r \<noteq> None) r) FACTORY_STORES"
    "mn_cells m = (if sr_evidence_dir r \<noteq> None then map (evidence_entry fr (decode (copy r))) (sr_cell_dirs (decode (copy r))) else [])"
    using assms(1) by (auto simp: create_backup_def Let_def split: if_splits)
  have files: "concat (map (file_problem (copy r)) (declared_files (seal fr m))) = []"
    using declared_created[OF assms(2), of "seal fr m"] hash_tree_accepted[OF assms(2)] m(5) by simp
  have "set (map fe_path (mn_files m)) = fst ` set (copy r)"
    unfolding m(5) hash_tree_paths by simp
  then have undeclared: "concat (map (\<lambda>p. if p \<notin> set (map fe_path (mn_files m)) then [FileUndeclared p] else []) (sort (map fst (copy r)))) = []"
    by (auto simp: concat_eq_Nil_conv)
  let ?stores = "concat (map (\<lambda>e. if se_present e then [] else [StoreAbsent (se_name e)]) (mn_stores m))"
  let ?cells = "concat (map (cell_problem fr (decode (copy r))) (mn_cells m))"
  have v: "verify_backup fr decode b = ?stores @ ?cells"
    unfolding verify_backup_def m(1,2) manifest_file.case using files undeclared m(3,4) by simp
  have stores: "?stores = [] \<longleftrightarrow> sr_evidence_dir r \<noteq> None \<and> (\<forall>n\<in>set sqlite_names. present n r)"
    unfolding store_entries_present[symmetric, of "sr_evidence_dir r \<noteq> None" r "br_wal run"] m(6)[symmetric]
    by (auto split: if_splits)
  have cells: "?cells = [] \<longleftrightarrow> (\<forall>c\<in>set (sr_cell_dirs (decode (copy r))). fst (verify_chain fr (er_events (sr_evidence (decode (copy r))) c)))"
    if "sr_evidence_dir r \<noteq> None"
    using that unfolding m(7) by (simp add: evidence_entry_problem)
  show ?thesis unfolding v append_is_Nil_conv stores using cells by blast
qed

section \<open>A restore leaves the factory fenced\<close>

lemma restore_Inr:
  assumes "restore fr decode b target actor reason replace now stamp = (Inr mk, t)"
  obtains m r3 where "bd_manifest b = Manifest m" "verify_backup fr decode b = []" "t = Some r3"
    "mk = restore_marker decode b m target actor reason now" "target \<noteq> None \<longrightarrow> replace"
    "\<not> list_ex version_refused (mn_stores m)"
    "set_restore_stamp (py_trunc now) (write_marker mk stamp (place_payload decode b)) = Inr r3"
proof -
  from assms obtain m where m: "bd_manifest b = Manifest m"
    by (auto simp: restore_def split: if_splits manifest_file.splits)
  let ?mk = "restore_marker decode b m target actor reason now"
  have "mk_restored_at ?mk = now" by (simp add: restore_marker_def build_marker_def Let_def)
  then show ?thesis
    using that[OF m] assms m by (auto simp: restore_def Let_def split: if_splits sum.splits)
qed

lemma py_trunc_pos: "1 \<le> x \<Longrightarrow> py_trunc x \<noteq> 0"
  unfolding py_trunc_def by (simp add: floor_eq_iff)

lemma present_write_marker [simp]: "present n (write_marker mk stamp r) = present n r"
  "present n (place_payload decode b) = present n (decode (bd_files b))"
  by (simp_all add: present_def write_marker_def place_payload_def)

lemma restored_fenced:
  assumes "restore fr decode b target actor reason replace now stamp = (Inr mk, Some r')" and "1 \<le> now"
    and "present ''admission'' (decode (bd_files b))"
  shows "just_restored (r', new_gate)" and "withheld r'" and "sr_marker r' = Some \<lparr>mf_stamp = stamp, mf_doc = Some mk\<rparr>"
proof -
  obtain m where mk: "mk = restore_marker decode b m target actor reason now"
    and r3: "set_restore_stamp (py_trunc now) (write_marker mk stamp (place_payload decode b)) = Inr r'"
    using restore_Inr[OF assms(1)] by (metis option.inject)
  have st: "mk_state mk = Some GATE_PENDING" by (simp add: mk restore_marker_def build_marker_def Let_def)
  show f: "sr_marker r' = Some \<lparr>mf_stamp = stamp, mf_doc = Some mk\<rparr>"
    using set_restore_stamp_marker[OF r3] by (simp add: write_marker_def)
  then show "withheld r'" using st by (simp add: withheld_def marker_state_def)
  have "restore_stamp r' = py_trunc now"
    using r3 assms(3) by (auto simp: set_restore_stamp_def restore_stamp_def present_def meta_readable_def write_marker_def
        place_payload_def split: if_splits option.splits)
  then show "just_restored (r', new_gate)"
    using f st py_trunc_pos[OF assms(2)] by (auto simp: just_restored_def)
qed

text \<open>The payload is placed before the marker and the stamp: a restore that dies in between leaves a restored
  state root that the gate takes for one that was never restored.\<close>

lemma restore_crash_unfenced:
  assumes "sr_restore_open (decode (bd_files b)) = None"
  shows "hd (restore_writes decode b mk stamp) = place_payload decode b"
    and "\<not> window_open (hd (restore_writes decode b mk stamp))"
    and "fst (assert_mutations_allowed (hd (restore_writes decode b mk stamp)) new_gate) = Inr ()"
proof -
  let ?r = "place_payload decode b"
  show h: "hd (restore_writes decode b mk stamp) = ?r" by (simp add: restore_writes_def Let_def)
  have w: "\<not> withheld ?r" "\<not> window_open ?r"
    using assms by (simp_all add: withheld_def window_open_def place_payload_def restore_stamp_def present_def meta_readable_def
        split: option.splits)
  then show "\<not> window_open (hd (restore_writes decode b mk stamp))" using h by simp
  show "fst (assert_mutations_allowed (hd (restore_writes decode b mk stamp)) new_gate) = Inr ()"
    using assert_mutations_fresh[OF new_gate_fresh, of ?r] w h by auto
qed

section \<open>Examples\<close>

definition demo_copy :: "state_root \<Rightarrow> (string \<times> string) list" where
  "demo_copy r = [(''state/cells.sqlite3'', ''cells''), (''state/control/operations.sqlite3'', ''operations'')]"

definition demo_decode :: "(string \<times> string) list \<Rightarrow> state_root" where
  "demo_decode files = demo_root"

definition demo_run :: backup_run where
  "demo_run = \<lparr>br_dest_empty = True, br_supported = True, br_quiesced = True, br_actor = ''op'', br_host = ''h'', br_root = ''/s'',
     br_now = 40, br_wal = (\<lambda>_. 0), br_runs = []\<rparr>"

lemma demo_inspected: "filter (\<lambda>st. \<not> usable st) (inspect_state_root (sr_files demo_root) (sr_evidence_dir demo_root)) = []"
  "coherence_problems demo_root = []" "\<forall>n\<in>set sqlite_names. present n demo_root"
  by code_simp+

lemma demo_created: "\<exists>b. create_backup (\<lambda>_. ''0'') demo_copy demo_decode demo_run demo_root = Inr b"
  using demo_inspected(1,2)
  by (simp add: create_backup_def demo_run_def demo_decode_def Let_def)

definition demo_content :: "string \<Rightarrow> nat" where
  "demo_content p = (if p = ''a'' then 7 else 9)"

theorem quiesced_snapshot_is_one_instant_witness:
  "quiesce_step\<^sup>*\<^sup>* ([], [''b'', ''a''], \<lambda>_. 0, demo_content) ([], [''b'', ''a''], (\<lambda>_. 0)(''z'' := 1), demo_content(''z'' := 5))
   \<and> (demo_content(''z'' := 5)) ''a'' = demo_content ''a''"
proof -
  let ?z = "\<lambda>_::string. (0::int)" and ?c = demo_content
  have l: "quiesce_step ([''a'', ''b''], [], ?z, ?c) ([''b''], [''a''], ?z, ?c)"
    "quiesce_step ([''b''], [''a''], ?z, ?c) ([], [''b'', ''a''], ?z, ?c)" by (rule lock)+
  have w: "quiesce_step\<^sup>*\<^sup>* ([''a'', ''b''], [], ?z, ?c) ([], [''b'', ''a''], ?z, ?c)"
    by (rule converse_rtranclp_into_rtranclp[of quiesce_step, OF l(1) r_into_rtranclp[of quiesce_step, OF l(2)]])
  have "quiesce_step ([], [''b'', ''a''], ?z, ?c) ([], [''b'', ''a''], ?z(''z'' := ?z ''z'' + 1), ?c(''z'' := 5))"
    by (rule other_commit) simp
  then have c: "quiesce_step\<^sup>*\<^sup>* ([], [''b'', ''a''], ?z, ?c) ([], [''b'', ''a''], ?z(''z'' := 1), ?c(''z'' := 5))"
    by (simp add: r_into_rtranclp)
  have "quiesce_result [''a'', ''b''] ?z ?z" "''a'' \<in> set [''a'', ''b'']" by (simp_all add: quiesce_result_def moved_def)
  from quiesced_snapshot_is_one_instant[OF w this] c show ?thesis by blast
qed

theorem created_backup_verifies_witness:
  "\<exists>b. create_backup (\<lambda>_. ''0'') demo_copy demo_decode demo_run demo_root = Inr b \<and> verify_backup (\<lambda>_. ''0'') demo_decode b = []"
proof -
  obtain b where b: "create_backup (\<lambda>_. ''0'') demo_copy demo_decode demo_run demo_root = Inr b" using demo_created by blast
  have "distinct (map fst (demo_copy demo_root))" by (simp add: demo_copy_def)
  from created_backup_verifies[OF b this] have "verify_backup (\<lambda>_. ''0'') demo_decode b = []"
    using demo_inspected(3) by (simp add: demo_decode_def) (simp add: demo_root_def)
  with b show ?thesis by blast
qed

lemma demo_backup: "\<exists>b m. bd_manifest b = Manifest m \<and> verify_backup (\<lambda>_. ''0'') demo_decode b = []
    \<and> \<not> list_ex version_refused (mn_stores m)"
proof -
  let ?m = "seal (\<lambda>_. ''0'') \<lparr>mn_schema = 1, mn_created_at = 40, mn_actor = ''op'', mn_host = ''h'', mn_state_root = ''/s'', mn_stores = [],
     mn_evidence_present = True, mn_cells = [], mn_runs = [], mn_files = [], mn_digest = [], mn_complete = False\<rparr>"
  have "verify_backup (\<lambda>_. ''0'') demo_decode \<lparr>bd_manifest = Manifest ?m, bd_files = []\<rparr> = []"
    using demo_inspected(2) by (simp add: verify_backup_def BACKUP_SCHEMA_VERSION_def declared_files_def demo_decode_def)
  moreover have "mn_stores ?m = []" by simp
  ultimately show ?thesis by (intro exI[of _ "\<lparr>bd_manifest = Manifest ?m, bd_files = []\<rparr>"] exI[of _ ?m]) simp
qed

lemma demo_restored: "\<exists>b mk r0. restore (\<lambda>_. ''0'') demo_decode b None ''op'' ''drill'' False 100 (1, 1) = (Inr mk, Some r0)"
proof -
  obtain b m where b: "bd_manifest b = Manifest m" "verify_backup (\<lambda>_. ''0'') demo_decode b = []"
    "\<not> list_ex version_refused (mn_stores m)" using demo_backup by blast
  let ?mk = "restore_marker demo_decode b m None ''op'' ''drill'' 100"
  have "\<exists>r3. set_restore_stamp (py_trunc (mk_restored_at ?mk)) (write_marker ?mk (1, 1) (place_payload demo_decode b)) = Inr r3"
    using demo_present(3,4)
    by (simp add: set_restore_stamp_def write_marker_def place_payload_def demo_decode_def present_def meta_readable_def)
  then show ?thesis using b by (auto simp: restore_def Let_def)
qed

end
