(* ===== verification/ControlKernel.thy ===== *)
theory ControlKernel
  imports Backup
begin

text \<open>
  The control seam of the backend, \<open>control_kernel.py\<close>: the kernel holds the state root and, when it was given
  one, the restore gate, and asks the gate before every external effect. The interface between the two is
  the locale \<open>effect_gate\<close>; its client lemmas are the fence itself, and the gate of \<open>restore_contract.py\<close>
  is its interpretation. The theorem joins backup, restore, gate, journal and core runtime.
\<close>

section \<open>The kernel\<close>

datatype kernel_error =
    KernelRestore restore_error
  | KernelJournal op_error
  | KernelCore core_error
  | NotConfigured

record kernel =
  kn_root :: state_root
  kn_gate :: "gate option"
  kn_core :: bool

definition must_observe :: "string \<Rightarrow> state_root \<Rightarrow> gate option \<Rightarrow> (restore_error + bool) \<times> gate option" where
  "must_observe cell r go =
     (case go of
        None \<Rightarrow> (Inr False, None)
      | Some g \<Rightarrow>
          (case assert_mutations_allowed r g of
             (Inl e, g1) \<Rightarrow> (Inl e, Some g1)
           | (Inr _, g1) \<Rightarrow> (case requires_observation cell r g1 of (x, g2) \<Rightarrow> (x, Some g2))))"

definition mutate ::
  "exec_call \<Rightarrow> 'x provider \<Rightarrow> 'x reconciler option \<Rightarrow> (nat \<Rightarrow> time) \<Rightarrow> kernel \<Rightarrow> 'x
     \<Rightarrow> (kernel_error + json) \<times> kernel \<times> 'x" where
  "mutate call fn rc ck k x =
     (case must_observe (ref_cell (xc_ref call)) (kn_root k) (kn_gate k) of
        (Inl e, go) \<Rightarrow> (Inl (KernelRestore e), k\<lparr>kn_gate := go\<rparr>, x)
      | (Inr observe, go) \<Rightarrow>
          (case execute (call\<lparr>xc_observe_first := observe\<rparr>) fn rc ck (sr_journal (kn_root k)) x of
             (res, j, x') \<Rightarrow>
               (case res of Inl e \<Rightarrow> Inl (KernelJournal e) | Inr v \<Rightarrow> Inr v,
                k\<lparr>kn_gate := go, kn_root := (kn_root k)\<lparr>sr_journal := j\<rparr>\<rparr>, x')))"

definition core_of :: "state_root \<Rightarrow> unit core" where
  "core_of r = \<lparr>co_cells = sr_cells r, co_world = (), co_journal = sr_journal r, co_evidence = sr_evidence r\<rparr>"

definition with_core :: "unit core \<Rightarrow> state_root \<Rightarrow> state_root" where
  "with_core c r = r\<lparr>sr_cells := co_cells c, sr_journal := co_journal c, sr_evidence := co_evidence c\<rparr>"

definition mutate_core ::
  "(json \<Rightarrow> string) \<Rightarrow> (real \<Rightarrow> string) \<Rightarrow> core_request \<Rightarrow> 'x provider \<Rightarrow> 'x reconciler option \<Rightarrow> retry_budget option
     \<Rightarrow> string \<Rightarrow> (nat \<Rightarrow> time) \<Rightarrow> kernel \<Rightarrow> 'x \<Rightarrow> (kernel_error + core_result) \<times> kernel \<times> 'x" where
  "mutate_core rep fr r fn rc budget owner ck k x =
     (if \<not> kn_core k then (Inl NotConfigured, k, x)
      else
        case must_observe (ab_cell_id (rq_airflow r)) (kn_root k) (kn_gate k) of
          (Inl e, go) \<Rightarrow> (Inl (KernelRestore e), k\<lparr>kn_gate := go\<rparr>, x)
        | (Inr observe, go) \<Rightarrow>
            (case execute_external rep fr r fn rc budget observe owner ck (core_of (kn_root k)) x of
               (res, c, x') \<Rightarrow>
                 (case res of Inl e \<Rightarrow> Inl (KernelCore e) | Inr v \<Rightarrow> Inr v,
                  k\<lparr>kn_gate := go, kn_root := with_core c (kn_root k)\<rparr>, x')))"

section \<open>Admission and the snapshot\<close>

text \<open>A terminal Cell gives its units back, one membership after another; the first error ends the loop.\<close>

fun release_loop ::
  "adm_config \<Rightarrow> string \<Rightarrow> int \<Rightarrow> string \<Rightarrow> (nat \<Rightarrow> nat \<Rightarrow> time) \<Rightarrow> nat \<Rightarrow> string list \<Rightarrow> string list \<Rightarrow> adm
     \<Rightarrow> (adm_error + string list) \<times> adm" where
  "release_loop cf cell epoch st ck i [] admitted a = (Inr admitted, a)"
| "release_loop cf cell epoch st ck i (w # ws) admitted a =
     (case complete cf w cell epoch st (ck i) a of
        (Inl e, a') \<Rightarrow> (Inl e, a')
      | (Inr ids, a') \<Rightarrow> release_loop cf cell epoch st ck (Suc i) ws (admitted @ ids) a')"

definition release_cell ::
  "adm_config \<Rightarrow> string \<Rightarrow> int \<Rightarrow> string \<Rightarrow> (nat \<Rightarrow> nat \<Rightarrow> time) \<Rightarrow> kernel \<Rightarrow> (adm_error + string list) \<times> kernel" where
  "release_cell cf cell epoch st ck k =
     (case release_loop cf cell epoch st ck 0 (members_for_cell cell epoch (sr_adm (kn_root k))) [] (sr_adm (kn_root k)) of
        (res, a) \<Rightarrow> (res, k\<lparr>kn_root := (kn_root k)\<lparr>sr_adm := a\<rparr>\<rparr>))"

definition counts :: "string list \<Rightarrow> (string \<times> int) list" where
  "counts values = map (\<lambda>v. (v, int (length (filter (\<lambda>w. w = v) values)))) (dedup_sorted values)"

definition kernel_snapshot :: "adm_config \<Rightarrow> int \<Rightarrow> time \<Rightarrow> time \<Rightarrow> kernel \<Rightarrow> json" where
  "kernel_snapshot cf limit now now2 k =
     (let unres = unresolved limit False 0 (sr_journal (kn_root k)); jcounts = (\<lambda>c. JObj (map (\<lambda>(v, n). (v, JInt n)) c)) in
      JObj [(''schema_version'', JInt 1), (''queue'', snapshot cf limit now now2 (sr_adm (kn_root k))),
        (''operations'', JArr (map row_dict unres)),
        (''repair_debt'', JObj [(''count'', JInt (int (length unres))),
           (''states'', jcounts (counts (map (\<lambda>row. state_str (op_state row)) unres))),
           (''kinds'', jcounts (counts (map op_kind unres)))])])"

lemma release_loop_inv:
  assumes "adm_inv (cf_limits cf) a" and "release_loop cf cell epoch st ck i ws admitted a = (res, a')"
  shows "adm_inv (cf_limits cf) a'"
  using assms
proof (induction ws arbitrary: i admitted a)
  case (Cons w ws)
  obtain x a1 where c: "complete cf w cell epoch st (ck i) a = (x, a1)" by fastforce
  then have "adm_inv (cf_limits cf) a1" using complete_inv[OF Cons.prems(1)] by blast
  then show ?case using Cons.IH Cons.prems(2) c by (cases x) auto
qed simp

lemma release_cell_inv:
  assumes "adm_inv (cf_limits cf) (sr_adm (kn_root k))"
  shows "adm_inv (cf_limits cf) (sr_adm (kn_root (snd (release_cell cf cell epoch st ck k))))"
  using release_loop_inv[OF assms] by (auto simp: release_cell_def split: prod.splits)

section \<open>The interface of the gate\<close>

locale effect_gate =
  fixes ask :: "'r \<Rightarrow> 'g \<Rightarrow> (restore_error + bool) \<times> 'g"
    and ok :: "'g \<Rightarrow> 'r \<Rightarrow> bool"
    and shut :: "'r \<Rightarrow> bool"
    and watched :: "'r \<Rightarrow> bool"
  assumes ask_shut: "ok g r \<Longrightarrow> shut r \<Longrightarrow> \<exists>e g'. ask r g = (Inl e, g') \<and> ok g' r"
    and ask_open: "ok g r \<Longrightarrow> \<not> shut r \<Longrightarrow> \<exists>g'. ask r g = (Inr (watched r), g') \<and> ok g' r"
begin

text \<open>An effect whose watched form does not use its callback is the same for every callback behind a gate that
  is shut or watched.\<close>

lemma callback_irrelevant:
  assumes "ok g r" and "shut r \<or> watched r" and "\<And>g'. run True g' = run' True g'"
  shows "(case ask r g of (Inl e, g') \<Rightarrow> stop e g' | (Inr b, g') \<Rightarrow> run b g')
       = (case ask r g of (Inl e, g') \<Rightarrow> stop e g' | (Inr b, g') \<Rightarrow> run' b g')"
proof (cases "shut r")
  case True
  then show ?thesis using ask_shut[OF assms(1)] by auto
next
  case False
  then show ?thesis using ask_open[OF assms(1)] assms(2,3) by auto
qed

end

definition gate_ok :: "gate option \<Rightarrow> state_root \<Rightarrow> bool" where
  "gate_ok go r = (case go of None \<Rightarrow> False | Some g \<Rightarrow> gate_fresh g r)"

lemma must_observe_gate:
  assumes "gate_ok go r"
  shows "\<exists>go'. gate_ok go' r \<and>
     must_observe cell r go = (if withheld r then Inl MutationsWithheld else Inr (window_open r), go')"
proof -
  obtain g where g: "go = Some g" "gate_fresh g r" using assms by (auto simp: gate_ok_def split: option.splits)
  obtain g1 where g1: "gate_fresh g1 r" "assert_mutations_allowed r g = (if withheld r then Inl MutationsWithheld else Inr (), g1)"
    using assert_mutations_fresh[OF g(2)] by blast
  show ?thesis
  proof (cases "withheld r")
    case True
    then show ?thesis using g(1) g1 by (auto simp: must_observe_def gate_ok_def)
  next
    case False
    then obtain g2 where "gate_fresh g2 r" "requires_observation cell r g1 = (Inr (window_open r), g2)"
      using requires_observation_fresh[OF g1(1)] by blast
    then show ?thesis using False g(1) g1(2) by (auto simp: must_observe_def gate_ok_def)
  qed
qed

interpretation kernel_gate: effect_gate "must_observe cell" gate_ok withheld window_open for cell
proof unfold_locales
  show "\<exists>e g'. must_observe cell r g = (Inl e, g') \<and> gate_ok g' r" if "gate_ok g r" "withheld r" for g r
    using must_observe_gate[OF that(1), of cell] that(2) by auto
  show "\<exists>g'. must_observe cell r g = (Inr (window_open r), g') \<and> gate_ok g' r" if "gate_ok g r" "\<not> withheld r" for g r
    using must_observe_gate[OF that(1), of cell] that(2) by auto
qed

section \<open>No blind effect after a restore\<close>

definition remote_absent :: "'x reconciler option \<Rightarrow> 'x \<Rightarrow> bool" where
  "remote_absent rc x = (case rc of None \<Rightarrow> False
     | Some rf \<Rightarrow> (case rf x of (Inl _, _) \<Rightarrow> False | (Inr out, _) \<Rightarrow> mo_status out = DefinitelyAbsent))"

lemma remote_absent_redacted: "remote_absent (map_option reconcile_redacted rc) x = remote_absent rc x"
  by (cases rc) (auto simp: remote_absent_def reconcile_redacted_def split: prod.splits sum.splits)

lemma observe_first_no_call:
  assumes "xc_observe_first c" and "\<not> remote_absent rc x"
  shows "execute c fn rc ck j x = execute c fn' rc ck j x"
proof -
  have d: "exec_decide c b safe fn rc ck True row j1 x = exec_decide c b safe fn' rc ck True row j1 x" for b safe row j1
    using assms(2) by (intro exec_decide_gate) (auto simp: remote_absent_def)
  have "exec_decide c b safe f rc ck ex row j1 x = exec_decide c b safe f rc ck True row j1 x" for b safe f ex row j1
    using assms(1) by (simp add: exec_decide_def)
  with d have "exec_decide c b safe fn rc ck ex row j1 x = exec_decide c b safe fn' rc ck ex row j1 x" for b safe ex row j1
    by metis
  then have "exec_loaded c fn rc ck ex row j1 x = exec_loaded c fn' rc ck ex row j1 x" for ex row j1
    unfolding exec_loaded_def by presburger
  then show ?thesis unfolding execute_def by presburger
qed

lemma external_observe_first_no_call:
  assumes "\<not> remote_absent rc x"
  shows "execute_external rep fr r fn rc budget True owner ck c x = execute_external rep fr r fn' rc budget True owner ck c x"
proof -
  have "execute (request_call fr r budget True owner) (durable_call fn) (map_option reconcile_redacted rc) ck j x
      = execute (request_call fr r budget True owner) (durable_call fn') (map_option reconcile_redacted rc) ck j x" for j
    using assms by (intro observe_first_no_call) (simp_all add: request_call_def remote_absent_redacted)
  then show ?thesis unfolding execute_external_def by presburger
qed

lemma mutate_watched:
  assumes "gate_ok (kn_gate k) (kn_root k)" and "window_open (kn_root k)" and "\<not> remote_absent rc x \<or> withheld (kn_root k)"
  shows "mutate call fn rc ck k x = mutate call fn' rc ck k x"
    and "mutate_core rep fr q fn rc budget owner ck k x = mutate_core rep fr q fn' rc budget owner ck k x"
proof -
  note gate = must_observe_gate[OF assms(1)]
  show "mutate call fn rc ck k x = mutate call fn' rc ck k x"
  proof (cases "withheld (kn_root k)")
    case True
    then show ?thesis using gate[of "ref_cell (xc_ref call)"] by (auto simp: mutate_def)
  next
    case False
    then have "execute (call\<lparr>xc_observe_first := True\<rparr>) fn rc ck j x = execute (call\<lparr>xc_observe_first := True\<rparr>) fn' rc ck j x" for j
      using assms(3) by (intro observe_first_no_call) simp_all
    then show ?thesis
      unfolding mutate_def using assms(1,2) by (intro kernel_gate.callback_irrelevant) simp_all
  qed
  show "mutate_core rep fr q fn rc budget owner ck k x = mutate_core rep fr q fn' rc budget owner ck k x"
  proof (cases "withheld (kn_root k)")
    case True
    then show ?thesis using gate[of "ab_cell_id (rq_airflow q)"] by (auto simp: mutate_core_def)
  next
    case False
    then have "execute_external rep fr q fn rc budget True owner ck c x = execute_external rep fr q fn' rc budget True owner ck c x"
      for c :: "unit core" using assms(3) by (intro external_observe_first_no_call) simp
    then show ?thesis
      unfolding mutate_core_def using assms(1,2)
      by (cases "kn_core k") (simp_all only: if_True if_False simp_thms, intro kernel_gate.callback_irrelevant, simp_all)
  qed
qed

lemma mutate_withheld:
  assumes "gate_ok (kn_gate k) (kn_root k)" and "withheld (kn_root k)"
  shows "\<exists>go. mutate call fn rc ck k x = (Inl (KernelRestore MutationsWithheld), k\<lparr>kn_gate := go\<rparr>, x)"
    and "kn_core k \<Longrightarrow> \<exists>go. mutate_core rep fr q fn rc budget owner ck k x = (Inl (KernelRestore MutationsWithheld), k\<lparr>kn_gate := go\<rparr>, x)"
proof -
  obtain go where "must_observe (ref_cell (xc_ref call)) (kn_root k) (kn_gate k) = (Inl MutationsWithheld, go)"
    using must_observe_gate[OF assms(1)] assms(2) by auto
  then show "\<exists>go. mutate call fn rc ck k x = (Inl (KernelRestore MutationsWithheld), k\<lparr>kn_gate := go\<rparr>, x)"
    by (auto simp: mutate_def)
  obtain go where "must_observe (ab_cell_id (rq_airflow q)) (kn_root k) (kn_gate k) = (Inl MutationsWithheld, go)"
    using must_observe_gate[OF assms(1)] assms(2) by auto
  then show "kn_core k \<Longrightarrow> \<exists>go. mutate_core rep fr q fn rc budget owner ck k x = (Inl (KernelRestore MutationsWithheld), k\<lparr>kn_gate := go\<rparr>, x)"
    by (auto simp: mutate_core_def)
qed

text \<open>C16: after a restore, and for as long as the window is not closed, no external effect happens blindly. In
  any run of the restored factory (the contents of the stores change, operators resume and reconcile, the marker is lost,
  damaged or put back in any state but clear; the restore stamp of the admission store stays), while the restore is not validated every effect is refused with nothing changed;
  afterwards neither \<open>mutate\<close> nor \<open>mutate_core\<close> reaches its provider callback, not even for an operation
  the journal has never seen, unless the caller's reconciler has looked at the remote and found the effect
  definitely absent.\<close>

theorem restored_factory_fenced:
  assumes "restore fr decode b target actor reason replace now stamp = (Inr mk, Some r0)" and "1 \<le> now"
    and "present ''admission'' (decode (bd_files b))"
    and "(restored_step fr)\<^sup>*\<^sup>* (r0, new_gate) (kn_root k, g)" and "kn_gate k = Some g"
  shows "(withheld (kn_root k) \<longrightarrow>
           (\<exists>go. mutate call fn rc ck k x = (Inl (KernelRestore MutationsWithheld), k\<lparr>kn_gate := go\<rparr>, x)))
       \<and> (withheld (kn_root k) \<or> \<not> remote_absent rc x \<longrightarrow>
            mutate call fn rc ck k x = mutate call fn' rc ck k x
            \<and> mutate_core rep fr2 q fn rc budget owner ck k x = mutate_core rep fr2 q fn' rc budget owner ck k x)"
proof -
  have "just_restored (r0, new_gate)" by (rule restored_fenced[OF assms(1-3)])
  then have "restored_inv (kn_root k, g)"
    using restored.steps_inv[OF assms(4)] just_restored_inv by blast
  then have ok: "gate_ok (kn_gate k) (kn_root k)" "window_open (kn_root k)"
    using assms(5) by (simp_all add: restored_inv_def gate_ok_def)
  show ?thesis
    by (intro conjI impI) (erule mutate_withheld(1)[OF ok(1)], (rule mutate_watched[OF ok], blast)+)
qed

section \<open>Example\<close>

theorem restored_factory_fenced_witness:
  "\<exists>b mk r0. restore (\<lambda>_. ''0'') demo_decode b None ''op'' ''drill'' False 100 (1, 1) = (Inr mk, Some r0)
     \<and> mutate demo_call count_ok None (\<lambda>_. 0) \<lparr>kn_root = r0, kn_gate = Some new_gate, kn_core = True\<rparr> 0
       = mutate demo_call count_fail None (\<lambda>_. 0) \<lparr>kn_root = r0, kn_gate = Some new_gate, kn_core = True\<rparr> 0"
proof -
  obtain b mk r0 where e: "restore (\<lambda>_. ''0'') demo_decode b None ''op'' ''drill'' False 100 (1, 1) = (Inr mk, Some r0)"
    using demo_restored by blast
  let ?k = "\<lparr>kn_root = r0, kn_gate = Some new_gate, kn_core = True\<rparr>"
  have "mutate demo_call count_ok None (\<lambda>_. 0) ?k 0 = mutate demo_call count_fail None (\<lambda>_. 0) ?k 0"
    using restored_factory_fenced[OF e, of ?k new_gate demo_call count_ok None "\<lambda>_. 0" 0 count_fail] demo_present(3)
    by (simp add: demo_decode_def remote_absent_def)
  with e show ?thesis by blast
qed

end
