(* ===== verification/WorkExecutor.thy ===== *)
theory WorkExecutor
  imports WorkGraph Sha256
begin

text \<open>
  The executor of a plan's work graph, \<open>work_executor.py\<close>: nodes of a wave run serially or in a thread pool,
  their results are checked, and the candidates are merged in a stable order.

  The runner and the merger are callbacks over a world of their own; each call also says whether somebody
  requested cancellation while it ran, which is how the shared flag changes from outside. In the pool a
  node's run is one step; the schedule is a parameter, the list of the requests in completion order, each
  with whether it had started before the pool was told to cancel what is pending. \<open>ex_elapsed\<close> is the time the clock measures for each attempt of one
  run; another run of the same plan has other measurements.

  The theorems show that merges form a chain in dependency order of checked results, and that the report of
  a plan whose nodes succeed depends neither on the schedule nor, durations apart, on the clock.
\<close>

section \<open>Data\<close>

datatype node_state = NOk | NFailed | NCancelled | NSkipped

datatype conflict_kind = Disjoint | Overlap | StaleBase | Protected | Undeclared

record node_request =
  nr_cell :: string
  nr_epoch :: int
  nr_node :: work_node
  nr_head :: string
  nr_deps :: "string list"
  nr_attempt :: int
  nr_timeout :: int

definition new_request :: "string \<Rightarrow> int \<Rightarrow> work_node \<Rightarrow> string \<Rightarrow> string list \<Rightarrow> node_request" where
  "new_request cell epoch node head deps =
     \<lparr>nr_cell = cell, nr_epoch = epoch, nr_node = node, nr_head = head, nr_deps = deps, nr_attempt = 1, nr_timeout = 1800\<rparr>"

definition logical_id :: "node_request \<Rightarrow> string" where
  "logical_id q = ''wn_'' @ take 24 (sha256_hex (nr_cell q @ NUL @ int_str (nr_epoch q) @ NUL @ wn_id (nr_node q) @ NUL @ nr_head q))"

record node_result =
  rs_logical :: string
  rs_node :: string
  rs_state :: node_state
  rs_input :: string
  rs_output :: "string option"
  rs_touched :: "string list"
  rs_artifacts :: "string list"
  rs_incarnation :: "string option"
  rs_attempt :: int
  rs_duration :: real
  rs_detail :: string

definition no_result :: "string \<Rightarrow> string \<Rightarrow> node_state \<Rightarrow> string \<Rightarrow> int \<Rightarrow> string \<Rightarrow> node_result" where
  "no_result logical node st head attempt detail =
     \<lparr>rs_logical = logical, rs_node = node, rs_state = st, rs_input = head, rs_output = None, rs_touched = [], rs_artifacts = [],
      rs_incarnation = None, rs_attempt = attempt, rs_duration = 0, rs_detail = detail\<rparr>"

record conflict_receipt =
  cx_left :: string
  cx_right :: string
  cx_kind :: conflict_kind
  cx_files :: "string list"
  cx_detail :: string

record merge_receipt =
  mr_index :: nat
  mr_node :: string
  mr_source :: string
  mr_before :: string
  mr_after :: string
  mr_transform :: string
  mr_reverify :: bool
  mr_conflicts :: "conflict_receipt list"

record execution_report =
  xr_cell :: string
  xr_epoch :: int
  xr_input :: string
  xr_parallel :: bool
  xr_results :: "node_result list"
  xr_merges :: "merge_receipt list"
  xr_final :: string
  xr_cancelled :: bool
  xr_conflicts :: "conflict_receipt list"

record executor_policy =
  ep_max_parallel :: int
  ep_max_attempts :: int
  ep_allow_parallel :: bool
  ep_protected :: "string list"

definition policy_ok :: "executor_policy \<Rightarrow> bool" where
  "policy_ok p = (\<not> (ep_max_parallel p < 1 \<or> ep_max_attempts p < 1))"

datatype executor_error =
    WrongLogicalNode
  | NoAttempt
  | RunnerRaised string
  | MergerRaised string
  | MergeMismatch
  | MergeStale
  | MergeNoTarget
  | MergeUnverified
  | MissingResult string
  | BadPlan wg_error

text \<open>The text a pool keeps of an exception, type and message; \<open>RunnerRaised\<close> carries it whole.\<close>

fun error_text :: "executor_error \<Rightarrow> string" where
  "error_text (RunnerRaised t) = take 2000 t"
| "error_text WrongLogicalNode = ''ValueError: runner returned result for the wrong logical node''"
| "error_text NoAttempt = ''AssertionError: ''"
| "error_text e = []"

type_synonym 'w runner = "node_request \<Rightarrow> 'w \<Rightarrow> (string + node_result) \<times> bool \<times> 'w"
type_synonym 'w merger = "node_result \<Rightarrow> string \<Rightarrow> nat \<Rightarrow> 'w \<Rightarrow> (string + merge_receipt) \<times> bool \<times> 'w"

record 'w executor =
  ex_runner :: "'w runner"
  ex_merger :: "'w merger"
  ex_policy :: executor_policy
  ex_elapsed :: "node_request \<Rightarrow> real"
  ex_schedule :: "node_request list \<Rightarrow> (node_request \<times> bool) list"

section \<open>Running one node\<close>

fun attempts_from ::
  "'w executor \<Rightarrow> node_request \<Rightarrow> nat \<Rightarrow> int \<Rightarrow> node_result option \<Rightarrow> bool \<Rightarrow> 'w \<Rightarrow> (executor_error + node_result) \<times> bool \<times> 'w" where
  "attempts_from ex q 0 attempt last_result cancelled w =
     (case last_result of None \<Rightarrow> Inl NoAttempt | Some r \<Rightarrow> Inr r, cancelled, w)"
| "attempts_from ex q (Suc n) attempt last_result cancelled w =
     (if cancelled then (Inr (no_result (logical_id q) (wn_id (nr_node q)) NCancelled (nr_head q) attempt []), cancelled, w)
      else
        let req = q\<lparr>nr_attempt := attempt\<rparr> in
        case ex_runner ex req w of
          (Inl e, c, w1) \<Rightarrow> (Inl (RunnerRaised e), c, w1)
        | (Inr r0, c, w1) \<Rightarrow>
            if rs_logical r0 \<noteq> logical_id q \<or> rs_node r0 \<noteq> wn_id (nr_node q) then (Inl WrongLogicalNode, c, w1)
            else
              let r = r0\<lparr>rs_attempt := attempt, rs_duration := max (rs_duration r0) (ex_elapsed ex req)\<rparr> in
              if rs_state r = NOk then (Inr r, c, w1)
              else if \<not> startswith (rs_detail r) ''retryable:'' then (Inr r, c, w1)
              else attempts_from ex q n (attempt + 1) (Some r) c w1)"

definition run_with_retry :: "'w executor \<Rightarrow> node_request \<Rightarrow> bool \<Rightarrow> 'w \<Rightarrow> (executor_error + node_result) \<times> bool \<times> 'w" where
  "run_with_retry ex q cancelled w = attempts_from ex q (nat (ep_max_attempts (ex_policy ex))) 1 None cancelled w"

fun run_serial ::
  "'w executor \<Rightarrow> node_request list \<Rightarrow> node_result list \<Rightarrow> bool \<Rightarrow> 'w \<Rightarrow> (executor_error + node_result list) \<times> bool \<times> 'w" where
  "run_serial ex [] out cancelled w = (Inr out, cancelled, w)"
| "run_serial ex (q # qs) out cancelled w =
     (if cancelled then (Inr out, cancelled, w)
      else case run_with_retry ex q cancelled w of
        (Inl e, c, w1) \<Rightarrow> (Inl e, c, w1)
      | (Inr r, c, w1) \<Rightarrow>
          if rs_state r \<noteq> NOk then (Inr (out @ [r]), True, w1) else run_serial ex qs (out @ [r]) c w1)"

fun run_pool ::
  "'w executor \<Rightarrow> (node_request \<times> bool) list \<Rightarrow> (string \<Rightarrow> node_result option) \<Rightarrow> bool \<Rightarrow> 'w
     \<Rightarrow> (string \<Rightarrow> node_result option) \<times> bool \<times> 'w" where
  "run_pool ex [] by_id cancelled w = (by_id, cancelled, w)"
| "run_pool ex ((q, started) # rest) by_id cancelled w =
     (if cancelled \<and> \<not> started then run_pool ex rest by_id cancelled w
      else case run_with_retry ex q cancelled w of
        (res, c, w1) \<Rightarrow>
          let r = (case res of Inr r \<Rightarrow> r
                   | Inl e \<Rightarrow> no_result (logical_id q) (wn_id (nr_node q)) NFailed (nr_head q) (nr_attempt q) (error_text e)) in
          run_pool ex rest (by_id(wn_id (nr_node q) \<mapsto> r)) (c \<or> rs_state r \<noteq> NOk) w1)"

definition run_parallel ::
  "'w executor \<Rightarrow> node_request list \<Rightarrow> bool \<Rightarrow> 'w \<Rightarrow> (executor_error + node_result list) \<times> bool \<times> 'w" where
  "run_parallel ex qs cancelled w =
     (case run_pool ex (ex_schedule ex qs) Map.empty cancelled w of
        (by_id, c, w1) \<Rightarrow> (Inr (List.map_filter (\<lambda>q. by_id (wn_id (nr_node q))) qs), c, w1))"

section \<open>Conflicts and merges\<close>

definition sorted_common :: "string list \<Rightarrow> string list \<Rightarrow> string list" where
  "sorted_common xs ys = sort (filter (\<lambda>x. x \<in> set ys) (remdups xs))"

definition node_conflicts :: "string list \<Rightarrow> string \<Rightarrow> work_node \<Rightarrow> node_result \<Rightarrow> conflict_receipt list" where
  "node_conflicts protected head node r =
     (if rs_input r \<noteq> head then [\<lparr>cx_left = rs_node r, cx_right = ''target'', cx_kind = StaleBase, cx_files = [],
        cx_detail = ''expected '' @ head @ '', candidate used '' @ rs_input r\<rparr>] else [])
     @ (let unexpected = sort (filter (\<lambda>f. f \<notin> set (wn_files node)) (remdups (rs_touched r))) in
        if unexpected \<noteq> [] then [\<lparr>cx_left = rs_node r, cx_right = ''plan'', cx_kind = Undeclared, cx_files = unexpected, cx_detail = []\<rparr>] else [])
     @ (let hit = sorted_common (rs_touched r) protected in
        if hit \<noteq> [] then [\<lparr>cx_left = rs_node r, cx_right = ''policy'', cx_kind = Protected, cx_files = hit, cx_detail = []\<rparr>] else [])"

fun overlap_conflicts :: "node_result list \<Rightarrow> conflict_receipt list" where
  "overlap_conflicts [] = []"
| "overlap_conflicts (left # rest) =
     concat (map (\<lambda>right. let overlap = sorted_common (rs_touched left) (rs_touched right) in
        if overlap \<noteq> [] then [\<lparr>cx_left = rs_node left, cx_right = rs_node right, cx_kind = Overlap, cx_files = overlap, cx_detail = []\<rparr>] else []) rest)
     @ overlap_conflicts rest"

definition premerge_conflicts ::
  "executor_policy \<Rightarrow> work_node list \<Rightarrow> node_result list \<Rightarrow> string \<Rightarrow> executor_error + conflict_receipt list" where
  "premerge_conflicts p nodes results head =
     (let node_of = (\<lambda>r. List.find (\<lambda>n. wn_id n = rs_node r) (rev nodes)) in
      case List.find (\<lambda>r. node_of r = None) results of
        Some r \<Rightarrow> Inl (MissingResult (rs_node r))
      | None \<Rightarrow> Inr (concat (map (\<lambda>r. case node_of r of None \<Rightarrow> [] | Some n \<Rightarrow> node_conflicts (ep_protected p) head n r) results)
                    @ overlap_conflicts results))"

definition classify_conflicts ::
  "executor_policy \<Rightarrow> node_result list \<Rightarrow> string \<Rightarrow> string \<Rightarrow> conflict_receipt list" where
  "classify_conflicts p results observed expected =
     (if observed \<noteq> expected then [\<lparr>cx_left = ''target'', cx_right = ''candidate'', cx_kind = StaleBase, cx_files = [],
        cx_detail = ''expected '' @ expected @ '', observed '' @ observed\<rparr>] else [])
     @ concat (map (\<lambda>r. let hit = sorted_common (rs_touched r) (ep_protected p) in
         if hit \<noteq> [] then [\<lparr>cx_left = rs_node r, cx_right = ''policy'', cx_kind = Protected, cx_files = hit, cx_detail = []\<rparr>] else []) results)
     @ overlap_conflicts results"

definition validate_merge :: "merge_receipt \<Rightarrow> node_result \<Rightarrow> string \<Rightarrow> executor_error option" where
  "validate_merge m r head =
     (if mr_node m \<noteq> rs_node r \<or> Some (mr_source m) \<noteq> rs_output r then Some MergeMismatch
      else if mr_before m \<noteq> head then Some MergeStale
      else if mr_after m = [] then Some MergeNoTarget
      else if mr_transform m \<noteq> ''fast_forward'' \<and> \<not> mr_reverify m then Some MergeUnverified
      else None)"

section \<open>The plan\<close>

record 'w exec_state =
  xs_results :: "string \<Rightarrow> node_result option"
  xs_head :: string
  xs_merges :: "merge_receipt list"
  xs_conflicts :: "conflict_receipt list"
  xs_cancelled :: bool
  xs_world :: 'w

fun merge_nodes :: "'w executor \<Rightarrow> string list \<Rightarrow> 'w exec_state \<Rightarrow> executor_error option \<times> 'w exec_state" where
  "merge_nodes ex [] s = (None, s)"
| "merge_nodes ex (i # ids) s =
     (if xs_cancelled s then (None, s)
      else case xs_results s i of
        None \<Rightarrow> (Some (MissingResult i), s)
      | Some r \<Rightarrow>
          if rs_output r = None then (None, s\<lparr>xs_cancelled := True\<rparr>)
          else case ex_merger ex r (xs_head s) (length (xs_merges s)) (xs_world s) of
            (Inl e, c, w) \<Rightarrow> (Some (MergerRaised e), s\<lparr>xs_world := w\<rparr>)
          | (Inr m, c, w) \<Rightarrow>
              (case validate_merge m r (xs_head s) of
                 Some e \<Rightarrow> (Some e, s\<lparr>xs_world := w\<rparr>)
               | None \<Rightarrow> merge_nodes ex ids
                   (s\<lparr>xs_merges := xs_merges s @ [m], xs_head := mr_after m, xs_cancelled := c, xs_world := w\<rparr>)))"

definition head_of :: "node_result \<Rightarrow> string" where
  "head_of r = (case rs_output r of None \<Rightarrow> rs_input r | Some h \<Rightarrow> if h = [] then rs_input r else h)"

definition wave_requests ::
  "string \<Rightarrow> int \<Rightarrow> 'w exec_state \<Rightarrow> work_node list \<Rightarrow> executor_error + node_request list" where
  "wave_requests cell epoch s nodes =
     (case List.find (\<lambda>d. xs_results s d = None) (concat (map wn_depends_on nodes)) of
        Some d \<Rightarrow> Inl (MissingResult d)
      | None \<Rightarrow> Inr (map (\<lambda>n. new_request cell epoch n (xs_head s)
                  (map (\<lambda>d. case xs_results s d of None \<Rightarrow> [] | Some r \<Rightarrow> head_of r) (wn_depends_on n))) nodes))"

text \<open>One wave, after the check of the flag: run, record, stop on a failure or a conflict, merge. \<open>Inr True\<close>
  goes on with the next wave.\<close>

definition record_results :: "node_result list \<Rightarrow> (string \<Rightarrow> node_result option) \<Rightarrow> string \<Rightarrow> node_result option" where
  "record_results rs m = foldl (\<lambda>m r. m(rs_node r \<mapsto> r)) m rs"

definition exec_wave ::
  "'w executor \<Rightarrow> string \<Rightarrow> int \<Rightarrow> bool \<Rightarrow> work_node list \<Rightarrow> 'w exec_state \<Rightarrow> (executor_error + bool) \<times> 'w exec_state" where
  "exec_wave ex cell epoch par nodes s =
     (case wave_requests cell epoch s nodes of
        Inl e \<Rightarrow> (Inl e, s)
      | Inr qs \<Rightarrow>
          (case (if par \<and> length qs > 1 then run_parallel ex qs (xs_cancelled s) (xs_world s)
                 else run_serial ex qs [] (xs_cancelled s) (xs_world s)) of
             (Inl e, c, w) \<Rightarrow> (Inl e, s\<lparr>xs_cancelled := c, xs_world := w\<rparr>)
           | (Inr rs, c, w) \<Rightarrow>
               let s1 = s\<lparr>xs_results := record_results rs (xs_results s), xs_cancelled := c, xs_world := w\<rparr> in
               if c \<or> list_ex (\<lambda>r. rs_state r \<noteq> NOk) rs then (Inr False, s1\<lparr>xs_cancelled := True\<rparr>)
               else (case premerge_conflicts (ex_policy ex) nodes rs (xs_head s) of
                  Inl e \<Rightarrow> (Inl e, s1)
                | Inr found \<Rightarrow>
                    if found \<noteq> [] then (Inr False, s1\<lparr>xs_conflicts := xs_conflicts s1 @ found, xs_cancelled := True\<rparr>)
                    else (case merge_nodes ex (deterministic_merge_order (map rs_node rs)) s1 of
                        (Some e, s2) \<Rightarrow> (Inl e, s2)
                      | (None, s2) \<Rightarrow> (Inr True, s2)))))"

fun exec_waves ::
  "'w executor \<Rightarrow> string \<Rightarrow> int \<Rightarrow> bool \<Rightarrow> work_node work_wave list \<Rightarrow> 'w exec_state \<Rightarrow> executor_error option \<times> 'w exec_state" where
  "exec_waves ex cell epoch par [] s = (None, s)"
| "exec_waves ex cell epoch par (wave # rest) s =
     (if xs_cancelled s then (None, s)
      else case exec_wave ex cell epoch par (ww_nodes wave) s of
        (Inl e, s1) \<Rightarrow> (Some e, s1)
      | (Inr False, s1) \<Rightarrow> (None, s1)
      | (Inr True, s1) \<Rightarrow> exec_waves ex cell epoch par rest s1)"

definition not_started :: "string \<Rightarrow> int \<Rightarrow> 'w exec_state \<Rightarrow> work_node \<Rightarrow> node_result" where
  "not_started cell epoch s n =
     no_result (logical_id (new_request cell epoch n (xs_head s) [])) (wn_id n)
       (if xs_cancelled s then NCancelled else NSkipped) (xs_head s) 1 ''not started after upstream cancellation/failure''"

definition may_parallel :: "executor_policy \<Rightarrow> bool \<Rightarrow> work_node list \<Rightarrow> bool" where
  "may_parallel p supports_fork nodes =
     (ep_allow_parallel p \<and> supports_fork \<and> ep_max_parallel p > 1 \<and> conflict_set nodes = [] \<and> list_all wn_parallel_safe nodes)"

definition execute_plan ::
  "'w executor \<Rightarrow> string \<Rightarrow> int \<Rightarrow> string \<Rightarrow> work_node list \<Rightarrow> bool \<Rightarrow> bool \<Rightarrow> 'w \<Rightarrow> (executor_error + execution_report) \<times> 'w" where
  "execute_plan ex cell epoch input_head nodes supports_fork cancelled w =
     (case waves wn_id wn_depends_on nodes of
        Inl e \<Rightarrow> (Inl (BadPlan e), w)
      | Inr ws \<Rightarrow>
          let par = may_parallel (ex_policy ex) supports_fork nodes;
              s0 = \<lparr>xs_results = Map.empty, xs_head = input_head, xs_merges = [], xs_conflicts = [], xs_cancelled = cancelled, xs_world = w\<rparr> in
          (case exec_waves ex cell epoch par ws s0 of
             (Some e, s) \<Rightarrow> (Inl e, xs_world s)
           | (None, s) \<Rightarrow>
               (Inr \<lparr>xr_cell = cell, xr_epoch = epoch, xr_input = input_head, xr_parallel = par,
                     xr_results = map (\<lambda>n. case xs_results s (wn_id n) of Some r \<Rightarrow> r | None \<Rightarrow> not_started cell epoch s n) nodes,
                     xr_merges = xs_merges s, xr_final = xs_head s, xr_cancelled = xs_cancelled s,
                     xr_conflicts = xs_conflicts s\<rparr>, xs_world s)))"

section \<open>Results belong to their nodes\<close>

lemma attempts_node:
  assumes "attempts_from ex q n attempt last_result cancelled w = (Inr r, c, w')"
    and "\<And>r. last_result = Some r \<Longrightarrow> rs_node r = wn_id (nr_node q)"
  shows "rs_node r = wn_id (nr_node q)"
  using assms
proof (induction n arbitrary: attempt last_result cancelled w)
  case 0
  then show ?case by (auto split: option.splits)
next
  case (Suc n)
  obtain res c1 w1 where x: "ex_runner ex (q\<lparr>nr_attempt := attempt\<rparr>) w = (res, c1, w1)" by (metis prod_cases3)
  show ?case
  proof (cases "cancelled \<or> (\<exists>e. res = Inl e)")
    case True
    then show ?thesis using Suc.prems(1) x by (auto simp: no_result_def split: if_splits)
  next
    case False
    then obtain r0 where r0: "res = Inr r0" by (cases res) auto
    let ?r = "r0\<lparr>rs_attempt := attempt, rs_duration := max (rs_duration r0) (ex_elapsed ex (q\<lparr>nr_attempt := attempt\<rparr>))\<rparr>"
    have id: "rs_logical r0 = logical_id q" "rs_node r0 = wn_id (nr_node q)"
      using Suc.prems(1) False x r0 by (auto simp: Let_def split: if_splits)
    consider "r = ?r" | "attempts_from ex q n (attempt + 1) (Some ?r) c1 w1 = (Inr r, c, w')"
      using Suc.prems(1) False x r0 id by (auto simp: Let_def split: if_splits)
    then show ?thesis
    proof cases
      case 1
      then show ?thesis using id by simp
    next
      case 2
      then show ?thesis using Suc.IH[OF 2] id by simp
    qed
  qed
qed

lemma run_with_retry_node: "run_with_retry ex q cancelled w = (Inr r, c, w') \<Longrightarrow> rs_node r = wn_id (nr_node q)"
  unfolding run_with_retry_def by (erule attempts_node) simp

text \<open>A flag that is set stays set, so a pool whose flag is clear in the end has run every request it was
  scheduled.\<close>

lemma run_cancelled: "run_with_retry ex q True w = (res, c, w') \<Longrightarrow> c"
  by (cases "nat (ep_max_attempts (ex_policy ex))") (auto simp: run_with_retry_def)

definition node_of :: "node_request \<Rightarrow> string" where
  "node_of q = wn_id (nr_node q)"

lemma run_serial_results:
  assumes "run_serial ex qs out cancelled w = (Inr rs, c, w')"
  shows "\<exists>k\<le>length qs. map rs_node rs = map rs_node out @ map node_of (take k qs)
           \<and> (\<not> c \<and> list_all (\<lambda>r. rs_state r = NOk) rs \<longrightarrow> k = length qs)"
  using assms
proof (induction ex qs out cancelled w rule: run_serial.induct)
  case (1 ex out cancelled w)
  then show ?case by auto
next
  case (2 ex q qs out cancelled w)
  show ?case
  proof (cases cancelled)
    case True
    then show ?thesis using "2.prems" by (intro exI[of _ 0]) auto
  next
    case False
    obtain res c1 w1 where x: "run_with_retry ex q cancelled w = (res, c1, w1)" by (metis prod_cases3)
    then obtain r where r: "res = Inr r" using "2.prems" False by (cases res) auto
    have id: "rs_node r = node_of q" using run_with_retry_node[of ex q cancelled w r c1 w1] x r by (simp add: node_of_def)
    show ?thesis
    proof (cases "rs_state r = NOk")
      case True
      then have e: "run_serial ex qs (out @ [r]) c1 w1 = (Inr rs, c, w')" using "2.prems" False x r by simp
      have "\<exists>k\<le>length qs. map rs_node rs = map rs_node (out @ [r]) @ map node_of (take k qs)
          \<and> (\<not> c \<and> list_all (\<lambda>r. rs_state r = NOk) rs \<longrightarrow> k = length qs)"
        using "2.IH"[OF False x[symmetric] r refl] True e by simp
      then obtain k where k: "k \<le> length qs" "map rs_node rs = map rs_node (out @ [r]) @ map node_of (take k qs)"
        "\<not> c \<and> list_all (\<lambda>r. rs_state r = NOk) rs \<longrightarrow> k = length qs" by blast
      then show ?thesis using id by (intro exI[of _ "Suc k"]) simp
    next
      case False2: False
      then have "rs = out @ [r]" using "2.prems" False x r by simp
      then show ?thesis using id False2 by (intro exI[of _ 1]) simp
    qed
  qed
qed

lemma run_pool_results:
  assumes "run_pool ex sched by_id cancelled w = (m, c, w')"
    and "\<And>i r. by_id i = Some r \<Longrightarrow> rs_node r = i"
  shows "(\<forall>i r. m i = Some r \<longrightarrow> rs_node r = i) \<and> (cancelled \<longrightarrow> c) \<and> dom by_id \<subseteq> dom m \<and> dom m \<subseteq> dom by_id \<union> node_of ` fst ` set sched
     \<and> (\<not> c \<longrightarrow> node_of ` fst ` set sched \<subseteq> dom m)"
  using assms
proof (induction ex sched by_id cancelled w rule: run_pool.induct)
  case (1 ex by_id cancelled w)
  then show ?case by auto
next
  case (2 ex q started rest by_id cancelled w)
  show ?case
  proof (cases "cancelled \<and> \<not> started")
    case True
    then have e: "run_pool ex rest by_id cancelled w = (m, c, w')" using "2.prems"(1) by simp
    from "2.IH"(1)[OF True e "2.prems"(2)] True show ?thesis by auto
  next
    case False
    obtain res c1 w1 where x: "run_with_retry ex q cancelled w = (res, c1, w1)" by (metis prod_cases3)
    define r where "r = (case res of Inr r \<Rightarrow> r | Inl e \<Rightarrow> no_result (logical_id q) (wn_id (nr_node q)) NFailed (nr_head q) (nr_attempt q) (error_text e))"
    have id: "rs_node r = node_of q"
      using run_with_retry_node[of ex q cancelled w _ c1 w1] x by (auto simp: r_def node_of_def no_result_def split: sum.splits)
    have e: "run_pool ex rest (by_id(wn_id (nr_node q) \<mapsto> r)) (c1 \<or> rs_state r \<noteq> NOk) w1 = (m, c, w')"
      using "2.prems"(1) False x by (simp add: r_def[symmetric] Let_def)
    have keyed: "rs_node r' = i" if "(by_id(wn_id (nr_node q) \<mapsto> r)) i = Some r'" for i r'
      using that "2.prems"(2) id by (auto simp: node_of_def split: if_splits)
    have "cancelled \<longrightarrow> c1" using run_cancelled[of ex q w res c1 w1] x by auto
    moreover have d: "dom (by_id(wn_id (nr_node q) \<mapsto> r)) = insert (node_of q) (dom by_id)" by (simp add: node_of_def)
    ultimately show ?thesis
      using "2.IH"(2)[OF False x[symmetric] refl r_def e keyed, unfolded d] by auto
  qed
qed

definition schedules_all :: "'w executor \<Rightarrow> bool" where
  "schedules_all ex \<longleftrightarrow> (\<forall>qs. fst ` set (ex_schedule ex qs) = set qs)"

lemma map_filter_keyed:
  assumes "\<And>i r. m i = Some r \<Longrightarrow> rs_node r = i"
  shows "map rs_node (List.map_filter (\<lambda>q. m (node_of q)) qs) = filter (\<lambda>i. i \<in> dom m) (map node_of qs)"
  using assms by (induction qs) (auto simp: List.map_filter_simps split: option.splits)

lemma run_parallel_results:
  assumes "run_parallel ex qs cancelled w = (res, c, w')" and "schedules_all ex"
  shows "\<exists>rs. res = Inr rs \<and> set (map rs_node rs) \<subseteq> node_of ` set qs \<and> (distinct (map node_of qs) \<longrightarrow> distinct (map rs_node rs))
     \<and> (\<not> c \<longrightarrow> map rs_node rs = map node_of qs)"
proof -
  obtain m c1 w1 where p: "run_pool ex (ex_schedule ex qs) Map.empty cancelled w = (m, c1, w1)" by (metis prod_cases3)
  have empty: "rs_node r = i" if "Map.empty i = Some r" for i r using that by simp
  have k: "\<And>i r. m i = Some r \<Longrightarrow> rs_node r = i" "\<not> c1 \<Longrightarrow> node_of ` fst ` set (ex_schedule ex qs) \<subseteq> dom m"
    using run_pool_results[OF p, OF empty] by blast+
  let ?rs = "List.map_filter (\<lambda>q. m (wn_id (nr_node q))) qs"
  have e: "res = Inr ?rs" "c = c1" using assms(1) p by (simp_all add: run_parallel_def)
  have rs: "map rs_node ?rs = filter (\<lambda>i. i \<in> dom m) (map node_of qs)"
    using map_filter_keyed[of m qs, OF k(1)] by (simp add: node_of_def)
  have "map rs_node ?rs = map node_of qs" if "\<not> c"
  proof -
    have "fst ` set (ex_schedule ex qs) = set qs" using assms(2) by (simp add: schedules_all_def)
    then have "node_of ` set qs \<subseteq> dom m" using that k(2) e(2) by metis
    then have "\<forall>i\<in>set (map node_of qs). i \<in> dom m" by auto
    then show ?thesis unfolding rs by (rule filter_True)
  qed
  moreover have "set (map rs_node ?rs) \<subseteq> node_of ` set qs" "distinct (map node_of qs) \<longrightarrow> distinct (map rs_node ?rs)"
    unfolding rs by auto
  ultimately show ?thesis using e(1) by blast
qed

lemma wave_run_results:
  assumes "(if par \<and> length qs > 1 then run_parallel ex qs cancelled w else run_serial ex qs [] cancelled w) = (Inr rs, c, w')"
    and "schedules_all ex" and "distinct (map node_of qs)"
  shows "set (map rs_node rs) \<subseteq> node_of ` set qs" and "distinct (map rs_node rs)"
    and "\<not> c \<Longrightarrow> list_all (\<lambda>r. rs_state r = NOk) rs \<Longrightarrow> map rs_node rs = map node_of qs"
proof -
  have "set (map rs_node rs) \<subseteq> node_of ` set qs \<and> distinct (map rs_node rs)
     \<and> (\<not> c \<and> list_all (\<lambda>r. rs_state r = NOk) rs \<longrightarrow> map rs_node rs = map node_of qs)"
  proof (cases "par \<and> length qs > 1")
    case True
    then show ?thesis using run_parallel_results[of ex qs cancelled w "Inr rs" c w'] assms by auto
  next
    case False
    then have "run_serial ex qs [] cancelled w = (Inr rs, c, w')" using assms(1) by auto
    from run_serial_results[OF this] obtain k where k: "map rs_node rs = take k (map node_of qs)"
      "\<not> c \<and> list_all (\<lambda>r. rs_state r = NOk) rs \<longrightarrow> k = length qs" by (auto simp: take_map)
    then show ?thesis using assms(3) by (auto dest: in_set_takeD)
  qed
  then show "set (map rs_node rs) \<subseteq> node_of ` set qs" "distinct (map rs_node rs)"
    "\<not> c \<Longrightarrow> list_all (\<lambda>r. rs_state r = NOk) rs \<Longrightarrow> map rs_node rs = map node_of qs" by blast+
qed

section \<open>Checked candidates\<close>

lemma sort_Nil: "sort xs = [] \<longleftrightarrow> xs = []"
  by (metis set_sort set_empty)

lemma sorted_common_Nil: "sorted_common xs ys = [] \<longleftrightarrow> set xs \<inter> set ys = {}"
proof -
  have "sorted_common xs ys = [] \<longleftrightarrow> set (sorted_common xs ys) = {}" by simp
  also have "\<dots> \<longleftrightarrow> set xs \<inter> set ys = {}" unfolding sorted_common_def by auto
  finally show ?thesis .
qed

lemma node_conflicts_Nil:
  "node_conflicts protected head n r = [] \<longleftrightarrow>
     rs_input r = head \<and> set (rs_touched r) \<subseteq> set (wn_files n) \<and> set (rs_touched r) \<inter> set protected = {}"
proof -
  have "sort (filter (\<lambda>f. f \<notin> set (wn_files n)) (remdups (rs_touched r))) = [] \<longleftrightarrow> set (rs_touched r) \<subseteq> set (wn_files n)"
    by (auto simp: sort_Nil filter_empty_conv)
  then show ?thesis by (simp add: node_conflicts_def sorted_common_Nil Let_def)
qed

lemma overlap_conflicts_Nil:
  "overlap_conflicts rs = [] \<longleftrightarrow> (\<forall>i j. i < j \<and> j < length rs \<longrightarrow> set (rs_touched (rs ! i)) \<inter> set (rs_touched (rs ! j)) = {})"
proof (induction rs)
  case (Cons r rs)
  have "overlap_conflicts (r # rs) = [] \<longleftrightarrow>
      (\<forall>x\<in>set rs. set (rs_touched r) \<inter> set (rs_touched x) = {}) \<and> overlap_conflicts rs = []"
    unfolding overlap_conflicts.simps append_is_Nil_conv concat_eq_Nil_conv set_map ball_simps
    by (simp add: sorted_common_Nil Let_def)
  also have "\<dots> \<longleftrightarrow> (\<forall>j<length rs. set (rs_touched r) \<inter> set (rs_touched (rs ! j)) = {}) \<and> overlap_conflicts rs = []"
    unfolding all_set_conv_all_nth by simp
  also have "\<dots> \<longleftrightarrow> (\<forall>i j. i < j \<and> j < length (r # rs) \<longrightarrow> set (rs_touched ((r # rs) ! i)) \<inter> set (rs_touched ((r # rs) ! j)) = {})"
    unfolding Cons.IH using pair_Cons[of r rs "\<lambda>a b. set (rs_touched a) \<inter> set (rs_touched b) \<noteq> {}"] by blast
  finally show ?case .
qed simp

lemma premerge_Nil:
  assumes "premerge_conflicts p nodes rs head = Inr []" and "r \<in> set rs"
  shows "\<exists>n\<in>set nodes. wn_id n = rs_node r \<and> rs_input r = head \<and> set (rs_touched r) \<subseteq> set (wn_files n)
           \<and> set (rs_touched r) \<inter> set (ep_protected p) = {}"
proof -
  let ?f = "\<lambda>r. List.find (\<lambda>n. wn_id n = rs_node r) (rev nodes)"
  have none: "List.find (\<lambda>r. ?f r = None) rs = None" and
    nil: "concat (map (\<lambda>r. case ?f r of None \<Rightarrow> [] | Some n \<Rightarrow> node_conflicts (ep_protected p) head n r) rs) = []"
    using assms(1) by (auto simp: premerge_conflicts_def Let_def split: option.splits)
  have "?f r \<noteq> None"
  proof
    assume "?f r = None"
    then have "\<exists>x. x \<in> set rs \<and> ?f x = None" using assms(2) by blast
    with none[THEN iffD1[OF find_None_iff]] show False by contradiction
  qed
  then obtain n where n: "?f r = Some n" by blast
  then have "node_conflicts (ep_protected p) head n r = []" using nil assms(2) by auto
  then show ?thesis using find_in[OF n] by (auto simp: node_conflicts_Nil)
qed

section \<open>The merges of a plan\<close>

fun chain :: "string \<Rightarrow> merge_receipt list \<Rightarrow> string \<Rightarrow> bool" where
  "chain h [] h' = (h = h')"
| "chain h (m # ms) h' = (mr_before m = h \<and> chain (mr_after m) ms h')"

lemma chain_append: "chain h (ms @ ms') h' \<longleftrightarrow> (\<exists>g. chain h ms g \<and> chain g ms' h')"
  by (induction ms arbitrary: h) auto

text \<open>What a merge that is part of a report rests on: a node of the plan, whose recorded result succeeded,
  touched declared and unprotected files only, and is the source of the merge.\<close>

definition merge_ok :: "work_node list \<Rightarrow> string list \<Rightarrow> (string \<Rightarrow> node_result option) \<Rightarrow> merge_receipt \<Rightarrow> bool" where
  "merge_ok nodes protected results m \<longleftrightarrow> (\<exists>n\<in>set nodes. \<exists>r. wn_id n = mr_node m \<and> results (mr_node m) = Some r
     \<and> rs_state r = NOk \<and> rs_output r = Some (mr_source m) \<and> mr_after m \<noteq> []
     \<and> (mr_transform m = ''fast_forward'' \<or> mr_reverify m)
     \<and> set (rs_touched r) \<subseteq> set (wn_files n) \<and> set (rs_touched r) \<inter> set protected = {})"

definition merge_valid :: "(string \<Rightarrow> node_result option) \<Rightarrow> merge_receipt \<Rightarrow> bool" where
  "merge_valid results m \<longleftrightarrow> (\<exists>r. results (mr_node m) = Some r \<and> rs_output r = Some (mr_source m) \<and> mr_after m \<noteq> []
     \<and> (mr_transform m = ''fast_forward'' \<or> mr_reverify m))"

lemma validate_merge_None:
  assumes "validate_merge m r head = None" and "results i = Some r" and "rs_node r = i"
  shows "mr_node m = i" and "mr_before m = head" and "merge_valid results m"
  using assms by (auto simp: validate_merge_def merge_valid_def split: if_splits)

lemma merge_nodes_spec:
  assumes "merge_nodes ex ids s = (None, s')" and "\<And>i r. xs_results s i = Some r \<Longrightarrow> rs_node r = i"
  shows "\<exists>k ms. k \<le> length ids \<and> map mr_node ms = take k ids \<and> xs_merges s' = xs_merges s @ ms \<and> chain (xs_head s) ms (xs_head s')
     \<and> list_all (merge_valid (xs_results s)) ms \<and> xs_results s' = xs_results s \<and> xs_conflicts s' = xs_conflicts s
     \<and> (\<not> xs_cancelled s' \<longrightarrow> k = length ids)"
  using assms
proof (induction ex ids s rule: merge_nodes.induct)
  case (1 ex s)
  then show ?case by auto
next
  case (2 ex i ids s)
  show ?case
  proof (cases "xs_cancelled s \<or> (\<exists>r. xs_results s i = Some r \<and> rs_output r = None)")
    case True
    then have "s' = s \<and> xs_cancelled s \<or> s' = s\<lparr>xs_cancelled := True\<rparr>" using "2.prems"(1) by (auto split: if_splits)
    then show ?thesis by (intro exI[of _ 0] exI[of _ "[]"]) auto
  next
    case False
    then obtain r where r: "xs_results s i = Some r" "rs_output r \<noteq> None" and nc: "\<not> xs_cancelled s"
      using "2.prems"(1) by (cases "xs_results s i") auto
    obtain res c w where x: "ex_merger ex r (xs_head s) (length (xs_merges s)) (xs_world s) = (res, c, w)" by (metis prod_cases3)
    obtain m where m: "res = Inr m" "validate_merge m r (xs_head s) = None"
      using "2.prems"(1) nc r x by (cases res) (auto split: option.splits)
    let ?s = "s\<lparr>xs_merges := xs_merges s @ [m], xs_head := mr_after m, xs_cancelled := c, xs_world := w\<rparr>"
    have e: "merge_nodes ex ids ?s = (None, s')" using "2.prems"(1) nc r x m by (auto split: option.splits)
    have ih: "\<exists>k ms. k \<le> length ids \<and> map mr_node ms = take k ids \<and> xs_merges s' = xs_merges ?s @ ms \<and> chain (xs_head ?s) ms (xs_head s')
       \<and> list_all (merge_valid (xs_results ?s)) ms \<and> xs_results s' = xs_results ?s \<and> xs_conflicts s' = xs_conflicts ?s
       \<and> (\<not> xs_cancelled s' \<longrightarrow> k = length ids)"
      using "2.IH"[OF nc r x[symmetric] m(1) refl m(2) e] "2.prems"(2) by simp
    then obtain k ms where k: "k \<le> length ids" "map mr_node ms = take k ids" "xs_merges s' = xs_merges ?s @ ms"
      "chain (xs_head ?s) ms (xs_head s')" "list_all (merge_valid (xs_results ?s)) ms" "xs_results s' = xs_results ?s"
      "xs_conflicts s' = xs_conflicts ?s" "\<not> xs_cancelled s' \<longrightarrow> k = length ids" by blast
    then show ?thesis
      using validate_merge_None[of m r "xs_head s" "xs_results s" i, OF m(2) r(1) "2.prems"(2)[OF r(1)]]
      by (intro exI[of _ "Suc k"] exI[of _ "m # ms"]) simp
  qed
qed

definition plan_inv :: "work_node list \<Rightarrow> string list \<Rightarrow> string \<Rightarrow> string set \<Rightarrow> 'w exec_state \<Rightarrow> bool" where
  "plan_inv nodes protected input dn s \<longleftrightarrow>
     (\<forall>i r. xs_results s i = Some r \<longrightarrow> rs_node r = i)
     \<and> chain input (xs_merges s) (xs_head s)
     \<and> list_all (merge_ok nodes protected (xs_results s)) (xs_merges s)
     \<and> distinct (map mr_node (xs_merges s)) \<and> mr_node ` set (xs_merges s) \<subseteq> dn
     \<and> (\<forall>k<length (xs_merges s). \<forall>n\<in>set nodes. wn_id n = mr_node (xs_merges s ! k)
            \<longrightarrow> set (wn_depends_on n) \<subseteq> mr_node ` set (take k (xs_merges s)))
     \<and> (\<not> xs_cancelled s \<longrightarrow> mr_node ` set (xs_merges s) = dn)"

definition wave_fits :: "work_node list \<Rightarrow> string set \<Rightarrow> work_node list \<Rightarrow> bool" where
  "wave_fits nodes dn wave \<longleftrightarrow> set wave \<subseteq> set nodes \<and> distinct (map wn_id wave) \<and> wn_id ` set wave \<inter> dn = {}
     \<and> (\<forall>n\<in>set nodes. wn_id n \<in> wn_id ` set wave \<longrightarrow> set (wn_depends_on n) \<subseteq> dn)"

lemma record_results_Cons: "record_results (a # rs) m = record_results rs (m(rs_node a \<mapsto> a))"
  by (simp add: record_results_def)

lemma record_results_other: "i \<notin> rs_node ` set rs \<Longrightarrow> record_results rs m i = m i"
proof (induction rs arbitrary: m)
  case (Cons a rs)
  then show ?case by (simp add: record_results_Cons)
qed (simp add: record_results_def)

lemma record_results_own: "distinct (map rs_node rs) \<Longrightarrow> r \<in> set rs \<Longrightarrow> record_results rs m (rs_node r) = Some r"
proof (induction rs arbitrary: m)
  case (Cons a rs)
  show ?case
  proof (cases "r = a")
    case True
    have "rs_node a \<notin> rs_node ` set rs" using Cons.prems(1) by auto
    then show ?thesis using True by (simp add: record_results_Cons record_results_other)
  next
    case False
    then show ?thesis using Cons by (simp add: record_results_Cons)
  qed
qed simp

lemma record_results_keyed:
  assumes "\<And>i r. m i = Some r \<Longrightarrow> rs_node r = i" and "record_results rs m i = Some r"
  shows "rs_node r = i"
  using assms
proof (induction rs arbitrary: m)
  case (Cons a rs)
  show ?case
  proof (rule Cons.IH)
    show "rs_node r' = j" if "(m(rs_node a \<mapsto> a)) j = Some r'" for j r'
      using that Cons.prems(1) by (cases "j = rs_node a") auto
    show "record_results rs (m(rs_node a \<mapsto> a)) i = Some r" using Cons.prems(2) by (simp add: record_results_Cons)
  qed
qed (simp add: record_results_def)

lemma merge_ok_cong: "results (mr_node m) = results' (mr_node m) \<Longrightarrow> merge_ok nodes p results m = merge_ok nodes p results' m"
  by (simp add: merge_ok_def)

lemma plan_inv_more:
  assumes "plan_inv nodes p input dn s" and "\<not> xs_cancelled s" and "wave_fits nodes dn wave"
    and "\<And>i r. xs_results s' i = Some r \<Longrightarrow> rs_node r = i" and "\<And>i. i \<in> dn \<Longrightarrow> xs_results s' i = xs_results s i"
    and "xs_merges s' = xs_merges s @ ms" and "chain (xs_head s) ms (xs_head s')"
    and "list_all (merge_ok nodes p (xs_results s')) ms" and "distinct (map mr_node ms)" and "mr_node ` set ms \<subseteq> wn_id ` set wave"
    and "\<not> xs_cancelled s' \<Longrightarrow> mr_node ` set ms = wn_id ` set wave"
  shows "plan_inv nodes p input (dn \<union> wn_id ` set wave) s'"
proof -
  have old: "mr_node ` set (xs_merges s) = dn" using assms(1,2) by (simp add: plan_inv_def)
  have "merge_ok nodes p (xs_results s') m" if "m \<in> set (xs_merges s)" for m
  proof -
    have "mr_node m \<in> dn" using that old by blast
    then show ?thesis using assms(1,5) that merge_ok_cong[of "xs_results s'" m "xs_results s" nodes p]
      by (simp add: plan_inv_def list_all_iff)
  qed
  then have ok: "list_all (merge_ok nodes p (xs_results s')) (xs_merges s')" using assms(6,8) by (auto simp: list_all_iff)
  have fits: "wn_id ` set wave \<inter> dn = {}" "\<And>n. n \<in> set nodes \<Longrightarrow> wn_id n \<in> wn_id ` set wave \<Longrightarrow> set (wn_depends_on n) \<subseteq> dn"
    using assms(3) by (auto simp: wave_fits_def)
  have dist: "distinct (map mr_node (xs_merges s'))"
    using assms(1,6,9,10) fits(1) old by (auto simp: plan_inv_def)
  have "set (wn_depends_on n) \<subseteq> mr_node ` set (take k (xs_merges s'))"
    if k: "k < length (xs_merges s')" "n \<in> set nodes" "wn_id n = mr_node (xs_merges s' ! k)" for k n
  proof (cases "k < length (xs_merges s)")
    case True
    then show ?thesis using assms(1,6) k by (simp add: plan_inv_def nth_append)
  next
    case False
    then have "xs_merges s' ! k \<in> set ms" using k(1) assms(6) by (simp add: nth_append)
    then have "wn_id n \<in> wn_id ` set wave" using assms(10) k(3) by auto
    then have "set (wn_depends_on n) \<subseteq> mr_node ` set (xs_merges s)" using fits(2) k(2) old by simp
    also have "\<dots> \<subseteq> mr_node ` set (take k (xs_merges s'))" using False assms(6) by auto
    finally show ?thesis .
  qed
  moreover have "chain input (xs_merges s') (xs_head s')"
    using assms(1,6,7) chain_append by (auto simp: plan_inv_def)
  ultimately show ?thesis
    using ok dist assms(4,6,10,11) old by (auto simp: plan_inv_def)
qed

lemma wave_requests_nodes: "wave_requests cell epoch s wave = Inr qs \<Longrightarrow> map node_of qs = map wn_id wave"
  by (auto simp: wave_requests_def node_of_def new_request_def comp_def split: option.splits)

lemma merged_candidate:
  assumes "premerge_conflicts p wave rs head = Inr []" and "set wave \<subseteq> set nodes" and "distinct (map rs_node rs)"
    and "list_all (\<lambda>r. rs_state r = NOk) rs" and "mr_node m \<in> rs_node ` set rs" and "merge_valid (record_results rs res) m"
  shows "merge_ok nodes (ep_protected p) (record_results rs res) m"
proof -
  obtain r where r: "r \<in> set rs" "rs_node r = mr_node m" using assms(5) by force
  then have e: "record_results rs res (mr_node m) = Some r" using record_results_own[OF assms(3) r(1)] by simp
  obtain n where "n \<in> set wave" "wn_id n = mr_node m" "set (rs_touched r) \<subseteq> set (wn_files n)"
    "set (rs_touched r) \<inter> set (ep_protected p) = {}"
    using premerge_Nil[OF assms(1) r(1)] r(2) by auto
  then show ?thesis using assms(2,4,6) r(1) e by (auto simp: merge_ok_def merge_valid_def list_all_iff)
qed

lemma exec_wave_inv:
  assumes inv: "plan_inv nodes (ep_protected (ex_policy ex)) input dn s" and fits: "wave_fits nodes dn wave"
    and nc: "\<not> xs_cancelled s" and sched: "schedules_all ex" and x: "exec_wave ex cell epoch par wave s = (Inr b, s')"
  shows "plan_inv nodes (ep_protected (ex_policy ex)) input (dn \<union> wn_id ` set wave) s' \<and> (\<not> b \<longrightarrow> xs_cancelled s')"
proof -
  obtain qs where q: "wave_requests cell epoch s wave = Inr qs" using x by (auto simp: exec_wave_def split: sum.splits)
  obtain ans c w where ans: "(if par \<and> length qs > 1 then run_parallel ex qs (xs_cancelled s) (xs_world s)
      else run_serial ex qs [] (xs_cancelled s) (xs_world s)) = (ans, c, w)" by (metis prod_cases3)
  then obtain rs where rs: "ans = Inr rs" using x q by (cases ans) (auto simp: exec_wave_def)
  have ids: "map node_of qs = map wn_id wave" by (rule wave_requests_nodes[OF q])
  have dq: "distinct (map node_of qs)" using fits ids by (simp add: wave_fits_def)
  note run = wave_run_results[OF ans[unfolded rs] sched dq]
  have W: "rs_node ` set rs \<subseteq> wn_id ` set wave" using run(1) ids by (metis set_map)
  let ?s1 = "s\<lparr>xs_results := record_results rs (xs_results s), xs_cancelled := c, xs_world := w\<rparr>"
  have keyed: "rs_node r = i" if "record_results rs (xs_results s) i = Some r" for i r
    using that inv record_results_keyed[of "xs_results s" rs i r] by (auto simp: plan_inv_def)
  have same: "record_results rs (xs_results s) i = xs_results s i" if "i \<in> dn" for i
    using that W fits by (intro record_results_other) (auto simp: wave_fits_def)
  have stop: "plan_inv nodes (ep_protected (ex_policy ex)) input (dn \<union> wn_id ` set wave) t"
    if "xs_results t = record_results rs (xs_results s)" "xs_merges t = xs_merges s" "xs_head t = xs_head s" "xs_cancelled t" for t :: "'w exec_state"
    using that keyed same by (intro plan_inv_more[OF inv nc fits, of t "[]"]) auto
  show ?thesis
  proof (cases "c \<or> list_ex (\<lambda>r. rs_state r \<noteq> NOk) rs")
    case True
    then have "b = False" "s' = ?s1\<lparr>xs_cancelled := True\<rparr>" using x q ans rs by (auto simp: exec_wave_def Let_def)
    then show ?thesis using stop[of s'] by simp
  next
    case False
    then have ok: "\<not> c" "list_all (\<lambda>r. rs_state r = NOk) rs" by (auto simp: list_all_iff list_ex_iff)
    obtain found where found: "premerge_conflicts (ex_policy ex) wave rs (xs_head s) = Inr found"
      using x q ans rs False by (auto simp: exec_wave_def Let_def split: sum.splits)
    show ?thesis
    proof (cases "found = []")
      case False2: False
      then have "b = False" "s' = ?s1\<lparr>xs_conflicts := xs_conflicts ?s1 @ found, xs_cancelled := True\<rparr>"
        using x q ans rs False found by (auto simp: exec_wave_def Let_def)
      then show ?thesis using stop[of s'] by simp
    next
      case True
      let ?ids = "deterministic_merge_order (map rs_node rs)"
      have m: "merge_nodes ex ?ids ?s1 = (None, s')" "b = True"
        using x q ans rs False found True by (auto simp: exec_wave_def Let_def split: prod.splits option.splits)
      have "rs_node ` set rs = wn_id ` set wave" using run(3)[OF ok] ids by (metis set_map)
      then have order: "distinct ?ids" "set ?ids = wn_id ` set wave" using merge_order_sorted[of "map rs_node rs"] by simp_all
      obtain k ms where k: "map mr_node ms = take k ?ids" "xs_merges s' = xs_merges s @ ms" "chain (xs_head s) ms (xs_head s')"
        "list_all (merge_valid (record_results rs (xs_results s))) ms" "xs_results s' = record_results rs (xs_results s)"
        "\<not> xs_cancelled s' \<longrightarrow> k = length ?ids"
        using merge_nodes_spec[OF m(1)] keyed by auto
      have sub: "mr_node ` set ms \<subseteq> rs_node ` set rs"
        using k(1) order \<open>rs_node ` set rs = wn_id ` set wave\<close> by (metis set_map set_take_subset)
      have "list_all (merge_ok nodes (ep_protected (ex_policy ex)) (xs_results s')) ms"
        using k(4,5) sub fits merged_candidate[OF found[unfolded True] _ run(2) ok(2)] by (auto simp: list_all_iff wave_fits_def)
      moreover have "distinct (map mr_node ms)" using k(1) order(1) by simp
      moreover have "mr_node ` set ms = wn_id ` set wave" if "\<not> xs_cancelled s'"
        using that k(1,6) order(2) by (metis order_refl set_map take_all)
      ultimately have "plan_inv nodes (ep_protected (ex_policy ex)) input (dn \<union> wn_id ` set wave) s'"
        using k keyed same sub W by (intro plan_inv_more[OF inv nc fits, of s' ms]) auto
      then show ?thesis using m(2) by simp
    qed
  qed
qed

fun stacked :: "work_node list \<Rightarrow> string set \<Rightarrow> work_node work_wave list \<Rightarrow> bool" where
  "stacked nodes dn [] = True"
| "stacked nodes dn (w # ws) = (wave_fits nodes dn (ww_nodes w) \<and> stacked nodes (dn \<union> wn_id ` set (ww_nodes w)) ws)"

lemma layered_stacked:
  assumes "layered wn_id wn_depends_on nodes ws" and "distinct (map wn_id nodes)" and "i \<le> length ws"
  shows "stacked nodes (placed wn_id (take i ws)) (drop i ws)"
  using assms(3)
proof (induction "length ws - i" arbitrary: i)
  case (Suc k)
  then have i: "i < length ws" by linarith
  let ?dn = "placed wn_id (take i ws)"
  have w: "ww_nodes (ws ! i) = filter (\<lambda>n. wn_id n \<notin> ?dn \<and> set (wn_depends_on n) \<subseteq> ?dn) nodes"
    using assms(1) i unfolding layered_def by blast
  have inj: "m = n" if "m \<in> set nodes" "n \<in> set nodes" "wn_id m = wn_id n" for m n
    using that assms(2) by (auto simp: distinct_map dest: inj_onD)
  have "wave_fits nodes ?dn (ww_nodes (ws ! i))"
    using assms(2) inj by (auto simp: w wave_fits_def distinct_map_filter dest: inj)
  moreover have "placed wn_id (take (Suc i) ws) = ?dn \<union> wn_id ` set (ww_nodes (ws ! i))"
    using i by (simp add: take_Suc_conv_app_nth)
  moreover have "stacked nodes (placed wn_id (take (Suc i) ws)) (drop (Suc i) ws)"
    using Suc.hyps i by (intro Suc.hyps(1)) auto
  moreover have "drop i ws = ws ! i # drop (Suc i) ws" using i by (simp add: Cons_nth_drop_Suc)
  ultimately show ?case by simp
qed simp

lemma waves_stacked:
  assumes "waves wn_id wn_depends_on nodes = Inr ws"
  shows "stacked nodes {} ws" and "distinct (map wn_id nodes)" and "placed wn_id ws = wn_id ` set nodes"
proof -
  show d: "distinct (map wn_id nodes)"
    using plan_graph.ids_distinct[of wn_id wn_depends_on nodes] waves_Inr(1)[OF assms] by simp
  show "stacked nodes {} ws" using layered_stacked[OF waves_Inr(2)[OF assms] d, of 0] by simp
  show "placed wn_id ws = wn_id ` set nodes"
    using waves_Inr(3)[OF assms] plan_graph.layered_nodes[of wn_id wn_depends_on nodes, unfolded waves_Inr(1)[OF assms], OF waves_Inr(2)[OF assms]]
    by (fastforce simp: placed_def)
qed

lemma exec_waves_inv:
  assumes "plan_inv nodes (ep_protected (ex_policy ex)) input dn s" and "stacked nodes dn ws" and "schedules_all ex"
    and "exec_waves ex cell epoch par ws s = (None, s')"
  shows "\<exists>dn'. dn' \<subseteq> dn \<union> placed wn_id ws \<and> plan_inv nodes (ep_protected (ex_policy ex)) input dn' s'
     \<and> (\<not> xs_cancelled s' \<longrightarrow> dn' = dn \<union> placed wn_id ws)"
  using assms
proof (induction ws arbitrary: dn s)
  case Nil
  then show ?case by auto
next
  case (Cons w ws)
  have p: "placed wn_id (w # ws) = wn_id ` set (ww_nodes w) \<union> placed wn_id ws" by (simp add: placed_def)
  show ?case
  proof (cases "xs_cancelled s")
    case True
    then show ?thesis using Cons.prems by auto
  next
    case False
    obtain res s1 where x: "exec_wave ex cell epoch par (ww_nodes w) s = (res, s1)" by force
    obtain b where b: "res = Inr b" using Cons.prems(4) False x by (cases res) auto
    let ?dn = "dn \<union> wn_id ` set (ww_nodes w)"
    have inv: "plan_inv nodes (ep_protected (ex_policy ex)) input ?dn s1" "\<not> b \<longrightarrow> xs_cancelled s1"
      using exec_wave_inv[OF Cons.prems(1) _ False Cons.prems(3) x[unfolded b]] Cons.prems(2) by auto
    show ?thesis
    proof (cases b)
      case True
      then have "exec_waves ex cell epoch par ws s1 = (None, s')" using Cons.prems(4) False x b by simp
      from Cons.IH[OF inv(1) _ Cons.prems(3) this] Cons.prems(2) show ?thesis unfolding p by auto
    next
      case False2: False
      then have "s' = s1" using Cons.prems(4) False x b by simp
      then show ?thesis using inv False2 unfolding p by blast
    qed
  qed
qed

section \<open>The report\<close>

definition result_of :: "execution_report \<Rightarrow> string \<Rightarrow> node_result option" where
  "result_of rep i = List.find (\<lambda>r. rs_node r = i) (xr_results rep)"

lemma find_map_keyed:
  assumes "distinct (map wn_id nodes)" and "n \<in> set nodes" and "\<And>n. n \<in> set nodes \<Longrightarrow> rs_node (f n) = wn_id n"
  shows "List.find (\<lambda>r. rs_node r = wn_id n) (map f nodes) = Some (f n)"
  using assms by (induction nodes) auto

lemma report_inv:
  fixes ex :: "'w executor"
  assumes "fst (execute_plan ex cell epoch input nodes forks cancelled w) = Inr rep" and "schedules_all ex"
  shows "\<exists>(s :: 'w exec_state) ws. waves wn_id wn_depends_on nodes = Inr ws
     \<and> (\<exists>dn\<subseteq>wn_id ` set nodes. plan_inv nodes (ep_protected (ex_policy ex)) input dn s
            \<and> (\<not> xs_cancelled s \<longrightarrow> dn = wn_id ` set nodes))
     \<and> rep = \<lparr>xr_cell = cell, xr_epoch = epoch, xr_input = input, xr_parallel = may_parallel (ex_policy ex) forks nodes,
             xr_results = map (\<lambda>n. case xs_results s (wn_id n) of Some r \<Rightarrow> r | None \<Rightarrow> not_started cell epoch s n) nodes,
             xr_merges = xs_merges s, xr_final = xs_head s, xr_cancelled = xs_cancelled s, xr_conflicts = xs_conflicts s\<rparr>"
proof -
  obtain ws where w: "waves wn_id wn_depends_on nodes = Inr ws"
    using assms(1) by (auto simp: execute_plan_def split: sum.splits)
  let ?s0 = "\<lparr>xs_results = Map.empty, xs_head = input, xs_merges = [], xs_conflicts = [], xs_cancelled = cancelled, xs_world = w\<rparr>"
  obtain err s where s: "exec_waves ex cell epoch (may_parallel (ex_policy ex) forks nodes) ws ?s0 = (err, s)" by force
  have none: "err = None" using assms(1) w s by (cases err) (auto simp: execute_plan_def Let_def)
  have "plan_inv nodes (ep_protected (ex_policy ex)) input {} ?s0" by (simp add: plan_inv_def)
  from exec_waves_inv[OF this waves_stacked(1)[OF w] assms(2) s[unfolded none]] waves_stacked(3)[OF w]
  have "\<exists>dn\<subseteq>wn_id ` set nodes. plan_inv nodes (ep_protected (ex_policy ex)) input dn s \<and> (\<not> xs_cancelled s \<longrightarrow> dn = wn_id ` set nodes)"
    by auto
  moreover have "rep = \<lparr>xr_cell = cell, xr_epoch = epoch, xr_input = input, xr_parallel = may_parallel (ex_policy ex) forks nodes,
             xr_results = map (\<lambda>n. case xs_results s (wn_id n) of Some r \<Rightarrow> r | None \<Rightarrow> not_started cell epoch s n) nodes,
             xr_merges = xs_merges s, xr_final = xs_head s, xr_cancelled = xs_cancelled s, xr_conflicts = xs_conflicts s\<rparr>"
    using assms(1) w s none by (simp add: execute_plan_def Let_def)
  ultimately show ?thesis using w by blast
qed

lemma report_results:
  assumes "distinct (map wn_id nodes)" and "\<And>i r. xs_results s i = Some r \<Longrightarrow> rs_node r = i" and "n \<in> set nodes"
    and "xr_results rep = map (\<lambda>n. case xs_results s (wn_id n) of Some r \<Rightarrow> r | None \<Rightarrow> not_started cell epoch s n) nodes"
  shows "result_of rep (wn_id n) = Some (case xs_results s (wn_id n) of Some r \<Rightarrow> r | None \<Rightarrow> not_started cell epoch s n)"
  unfolding result_of_def assms(4)
  by (rule find_map_keyed[OF assms(1,3)]) (auto simp: assms(2) not_started_def no_result_def split: option.splits)

text \<open>C31: the merges of a plan's report are a chain of accepted candidates. They lead from the input head to
  the final head, no node is merged twice, and a node is merged only after all its dependencies. Each merge takes
  the output of the node's reported result, which succeeded and touched only files the node declares and
  none the policy protects; a merge that is no fast forward asks for re-verification. Every node of the
  plan has one result, in the order of the plan, and a run that was not cancelled has merged every node.\<close>

theorem merges_are_checked_chain:
  fixes ex :: "'w executor"
  assumes "fst (execute_plan ex cell epoch input nodes forks cancelled w) = Inr rep" and "schedules_all ex"
  shows "chain input (xr_merges rep) (xr_final rep)
    \<and> distinct (map mr_node (xr_merges rep))
    \<and> list_all (merge_ok nodes (ep_protected (ex_policy ex)) (result_of rep)) (xr_merges rep)
    \<and> (\<forall>k<length (xr_merges rep). \<forall>n\<in>set nodes. wn_id n = mr_node (xr_merges rep ! k)
          \<longrightarrow> set (wn_depends_on n) \<subseteq> mr_node ` set (take k (xr_merges rep)))
    \<and> map rs_node (xr_results rep) = map wn_id nodes
    \<and> (\<not> xr_cancelled rep \<longrightarrow> mr_node ` set (xr_merges rep) = wn_id ` set nodes)"
proof -
  obtain s :: "'w exec_state" and ws dn where w: "waves wn_id wn_depends_on nodes = Inr ws" and dn: "dn \<subseteq> wn_id ` set nodes"
    and inv: "plan_inv nodes (ep_protected (ex_policy ex)) input dn s" and full: "\<not> xs_cancelled s \<longrightarrow> dn = wn_id ` set nodes"
    and r: "rep = \<lparr>xr_cell = cell, xr_epoch = epoch, xr_input = input, xr_parallel = may_parallel (ex_policy ex) forks nodes,
             xr_results = map (\<lambda>n. case xs_results s (wn_id n) of Some r \<Rightarrow> r | None \<Rightarrow> not_started cell epoch s n) nodes,
             xr_merges = xs_merges s, xr_final = xs_head s, xr_cancelled = xs_cancelled s, xr_conflicts = xs_conflicts s\<rparr>"
    using report_inv[OF assms] by blast
  have rep: "xr_results rep = map (\<lambda>n. case xs_results s (wn_id n) of Some r \<Rightarrow> r | None \<Rightarrow> not_started cell epoch s n) nodes"
    "xr_merges rep = xs_merges s" "xr_final rep = xs_head s" "xr_cancelled rep = xs_cancelled s" by (simp_all add: r)
  have keyed: "rs_node r = i" if "xs_results s i = Some r" for i r using inv that by (simp add: plan_inv_def)
  have "merge_ok nodes (ep_protected (ex_policy ex)) (result_of rep) m" if m: "m \<in> set (xs_merges s)" for m
  proof -
    have ok: "merge_ok nodes (ep_protected (ex_policy ex)) (xs_results s) m"
      using inv m by (auto simp: plan_inv_def list_all_iff)
    then obtain n r where n: "n \<in> set nodes" "wn_id n = mr_node m" "xs_results s (mr_node m) = Some r"
      unfolding merge_ok_def by blast
    have "result_of rep (mr_node m) = xs_results s (mr_node m)"
      using report_results[OF waves_stacked(2)[OF w] keyed n(1) rep(1)] n(2,3) by simp
    then show ?thesis using ok merge_ok_cong by blast
  qed
  moreover have "map rs_node (xr_results rep) = map wn_id nodes"
    using keyed by (auto simp: rep(1) not_started_def no_result_def split: option.splits)
  ultimately show ?thesis using inv full by (simp add: rep plan_inv_def list_all_iff)
qed

section \<open>Schedules\<close>

text \<open>A runner that keeps no state of its own: its answer is a function of the request, the number of the attempt
  included, nobody cancels, and every node succeeds within the attempts the policy allows, each attempt before
  the last asking for a retry. Candidates that conflict or that the merger refuses are still possible.\<close>

fun succeeds :: "(node_request \<Rightarrow> node_result) \<Rightarrow> node_request \<Rightarrow> int \<Rightarrow> nat \<Rightarrow> bool" where
  "succeeds f q a 0 = False"
| "succeeds f q a (Suc n) =
     (rs_state (f (q\<lparr>nr_attempt := a\<rparr>)) = NOk \<or> startswith (rs_detail (f (q\<lparr>nr_attempt := a\<rparr>))) ''retryable:'' \<and> succeeds f q (a + 1) n)"

definition steady :: "'w executor \<Rightarrow> (node_request \<Rightarrow> node_result) \<Rightarrow> bool" where
  "steady ex f \<longleftrightarrow> (\<forall>q w. ex_runner ex q w = (Inr (f q), False, w)
     \<and> rs_logical (f q) = logical_id q \<and> rs_node (f q) = wn_id (nr_node q)
     \<and> succeeds f q 1 (nat (ep_max_attempts (ex_policy ex))))"

fun steady_from :: "'w executor \<Rightarrow> (node_request \<Rightarrow> node_result) \<Rightarrow> node_request \<Rightarrow> int \<Rightarrow> nat \<Rightarrow> node_result" where
  "steady_from ex f q a n =
     (let req = q\<lparr>nr_attempt := a\<rparr>; r = f req in
      case n of Suc (Suc m) \<Rightarrow>
        if rs_state r = NOk then r\<lparr>rs_attempt := a, rs_duration := max (rs_duration r) (ex_elapsed ex req)\<rparr>
        else steady_from ex f q (a + 1) (Suc m)
      | _ \<Rightarrow> r\<lparr>rs_attempt := a, rs_duration := max (rs_duration r) (ex_elapsed ex req)\<rparr>)"

declare steady_from.simps [simp del]

definition steady_result :: "'w executor \<Rightarrow> (node_request \<Rightarrow> node_result) \<Rightarrow> node_request \<Rightarrow> node_result" where
  "steady_result ex f q = steady_from ex f q 1 (nat (ep_max_attempts (ex_policy ex)))"

lemma logical_attempt [simp]: "logical_id (q\<lparr>nr_attempt := a\<rparr>) = logical_id q"
  by (simp add: logical_id_def)

lemma attempts_steady:
  assumes "steady ex f" and "succeeds f q a n"
  shows "attempts_from ex q n a lst False w = (Inr (steady_from ex f q a n), False, w)
     \<and> rs_node (steady_from ex f q a n) = node_of q \<and> rs_state (steady_from ex f q a n) = NOk"
  using assms(2)
proof (induction n arbitrary: a lst)
  case (Suc n)
  let ?r = "f (q\<lparr>nr_attempt := a\<rparr>)"
  have r: "ex_runner ex (q\<lparr>nr_attempt := a\<rparr>) w = (Inr ?r, False, w)" "rs_logical ?r = logical_id q" "rs_node ?r = wn_id (nr_node q)"
    using assms(1) by (auto simp: steady_def)
  show ?case
  proof (cases "rs_state ?r = NOk")
    case True
    then show ?thesis using r by (simp add: steady_from.simps[of ex f q a "Suc n"] Let_def node_of_def split: nat.splits)
  next
    case False
    then have s: "startswith (rs_detail ?r) ''retryable:''" "succeeds f q (a + 1) n" using Suc.prems by auto
    then obtain m where m: "n = Suc m" by (cases n) auto
    have "steady_from ex f q a (Suc n) = steady_from ex f q (a + 1) n"
      unfolding m by (subst steady_from.simps) (use False in \<open>simp add: Let_def\<close>)
    then show ?thesis using r False s(1) Suc.IH[OF s(2)] by (simp add: Let_def del: succeeds.simps)
  qed
qed simp

lemma steady_fields: "steady ex f \<Longrightarrow> rs_node (steady_result ex f q) = node_of q \<and> rs_state (steady_result ex f q) = NOk"
  using attempts_steady[of ex f q 1] by (simp add: steady_def steady_result_def)

lemma steady_run: "steady ex f \<Longrightarrow> run_with_retry ex q False w = (Inr (steady_result ex f q), False, w)"
  using attempts_steady[of ex f q 1] by (simp add: steady_def steady_result_def run_with_retry_def)

lemma steady_serial: "steady ex f \<Longrightarrow> run_serial ex qs out False w = (Inr (out @ map (steady_result ex f) qs), False, w)"
  by (induction qs arbitrary: out) (simp_all add: steady_run steady_fields)

lemma steady_pool:
  assumes "steady ex f"
  shows "run_pool ex sched by_id False w =
     (foldl (\<lambda>m q. m(node_of q \<mapsto> steady_result ex f q)) by_id (map fst sched), False, w)"
  using assms by (induction sched arbitrary: by_id) (auto simp: steady_run steady_fields node_of_def)

lemma foldl_keyed:
  assumes "inj_on k (insert q (set qs))" and "q \<in> set qs \<or> m (k q) = Some (v q)"
  shows "foldl (\<lambda>m q. m(k q \<mapsto> v q)) m qs (k q) = Some (v q)"
  using assms
proof (induction qs arbitrary: m)
  case (Cons a qs)
  have "inj_on k (insert q (set qs))" using Cons.prems(1) by (rule inj_on_subset) auto
  moreover have "q \<in> set qs \<or> (m(k a \<mapsto> v a)) (k q) = Some (v q)"
    using inj_onD[OF Cons.prems(1), of q a] Cons.prems(2) by (cases "a = q") auto
  ultimately show ?case unfolding foldl.simps by (rule Cons.IH)
qed simp

lemma steady_parallel:
  assumes "steady ex f" and "schedules_all ex" and "distinct (map node_of qs)"
  shows "run_parallel ex qs False w = (Inr (map (steady_result ex f) qs), False, w)"
proof -
  let ?m = "foldl (\<lambda>m q. m(node_of q \<mapsto> steady_result ex f q)) Map.empty (map fst (ex_schedule ex qs))"
  have sched: "set (map fst (ex_schedule ex qs)) = set qs" using assms(2) by (simp add: schedules_all_def)
  have "?m (node_of q) = Some (steady_result ex f q)" if "q \<in> set qs" for q
    using that sched assms(3) by (intro foldl_keyed) (auto simp: distinct_map insert_absorb)
  then have "List.map_filter (\<lambda>q. ?m (node_of q)) xs = map (steady_result ex f) xs" if "set xs \<subseteq> set qs" for xs
    using that by (induction xs) (auto simp: List.map_filter_simps)
  then show ?thesis using steady_pool[OF assms(1), of "ex_schedule ex qs" Map.empty w]
    by (simp add: run_parallel_def node_of_def)
qed

text \<open>Two runs of one plan measure different times. \<open>untimed\<close> forgets the durations; nothing else of a run
  depends on them, provided the merger does not look at them.\<close>

definition untimed :: "node_result \<Rightarrow> node_result" where
  "untimed r = r\<lparr>rs_duration := 0\<rparr>"

definition untimed_state :: "'w exec_state \<Rightarrow> 'w exec_state" where
  "untimed_state s = s\<lparr>xs_results := map_option untimed \<circ> xs_results s\<rparr>"

definition untimed_report :: "execution_report \<Rightarrow> execution_report" where
  "untimed_report rep = rep\<lparr>xr_results := map untimed (xr_results rep)\<rparr>"

definition merger_ignores_time :: "'w executor \<Rightarrow> bool" where
  "merger_ignores_time ex \<longleftrightarrow> (\<forall>r. ex_merger ex (untimed r) = ex_merger ex r)"

lemma untimed_fields [simp]:
  "rs_logical (untimed r) = rs_logical r" "rs_node (untimed r) = rs_node r" "rs_state (untimed r) = rs_state r"
  "rs_input (untimed r) = rs_input r" "rs_output (untimed r) = rs_output r" "rs_touched (untimed r) = rs_touched r"
  "head_of (untimed r) = head_of r" "untimed (untimed r) = untimed r"
  by (simp_all add: untimed_def head_of_def split: option.split)

lemma untimed_state_fields [simp]:
  "xs_results (untimed_state s) = map_option untimed \<circ> xs_results s" "xs_head (untimed_state s) = xs_head s"
  "xs_merges (untimed_state s) = xs_merges s" "xs_conflicts (untimed_state s) = xs_conflicts s"
  "xs_cancelled (untimed_state s) = xs_cancelled s" "xs_world (untimed_state s) = xs_world s"
  by (simp_all add: untimed_state_def)

lemma untimed_state_upd [simp]:
  "untimed_state (s\<lparr>xs_head := h\<rparr>) = (untimed_state s)\<lparr>xs_head := h\<rparr>" "untimed_state (s\<lparr>xs_merges := ms\<rparr>) = (untimed_state s)\<lparr>xs_merges := ms\<rparr>"
  "untimed_state (s\<lparr>xs_conflicts := cs\<rparr>) = (untimed_state s)\<lparr>xs_conflicts := cs\<rparr>"
  "untimed_state (s\<lparr>xs_cancelled := c\<rparr>) = (untimed_state s)\<lparr>xs_cancelled := c\<rparr>"
  "untimed_state (s\<lparr>xs_world := w\<rparr>) = (untimed_state s)\<lparr>xs_world := w\<rparr>"
  "untimed_state (s\<lparr>xs_results := m\<rparr>) = (untimed_state s)\<lparr>xs_results := map_option untimed \<circ> m\<rparr>"
  by (simp_all add: untimed_state_def)

lemma untimed_requests: "wave_requests cell epoch (untimed_state s) nodes = wave_requests cell epoch s nodes"
proof -
  have h: "(case map_option untimed x of None \<Rightarrow> [] | Some r \<Rightarrow> head_of r) = (case x of None \<Rightarrow> [] | Some r \<Rightarrow> head_of r)" for x
    by (cases x) simp_all
  then show ?thesis unfolding wave_requests_def untimed_state_fields comp_apply h by simp
qed

lemma untimed_record: "map_option untimed \<circ> record_results rs m = record_results (map untimed rs) (map_option untimed \<circ> m)"
  by (induction rs arbitrary: m) (simp_all add: record_results_def fun_upd_comp)

lemma untimed_overlap: "overlap_conflicts (map untimed rs) = overlap_conflicts rs"
  by (induction rs) (simp_all add: comp_def Let_def cong: if_cong)

lemma find_untimed: "(\<And>r. P (untimed r) = P r) \<Longrightarrow> List.find P (map untimed rs) = map_option untimed (List.find P rs)"
  by (induction rs) simp_all

lemma untimed_premerge: "premerge_conflicts p nodes (map untimed rs) head = premerge_conflicts p nodes rs head"
proof -
  have nc: "node_conflicts protected head n (untimed r) = node_conflicts protected head n r" for protected n r
    by (simp add: node_conflicts_def Let_def cong: if_cong)
  then show ?thesis
    by (simp add: premerge_conflicts_def untimed_overlap find_untimed comp_def Let_def cong: option.case_cong split: option.split)
qed

lemma untimed_merge:
  assumes "merger_ignores_time ex"
  shows "merge_nodes ex ids (untimed_state s) = map_prod id untimed_state (merge_nodes ex ids s)"
proof (induction ids arbitrary: s)
  case (Cons i ids)
  have v: "validate_merge m (untimed r) h = validate_merge m r h" for m r h by (simp add: validate_merge_def)
  have k: "ex_merger ex (untimed r) = ex_merger ex r" for r using assms by (simp add: merger_ignores_time_def)
  note IH = Cons.IH[of "s\<lparr>xs_merges := ms, xs_head := h, xs_cancelled := c, xs_world := w\<rparr>" for ms h c w]
  show ?case using IH by (simp add: v k split: option.splits prod.splits sum.splits)
qed simp

lemma merge_clock: "merge_nodes (ex\<lparr>ex_elapsed := el\<rparr>) ids s = merge_nodes ex ids s"
  by (induction ids arbitrary: s) (simp_all split: option.splits prod.splits sum.splits)

lemma steady_clock: "steady ex f \<Longrightarrow> steady (ex\<lparr>ex_elapsed := el\<rparr>) f"
  by (simp add: steady_def)

lemma untimed_steady_from: "untimed (steady_from (ex\<lparr>ex_elapsed := el\<rparr>) f q a n) = untimed (steady_from ex f q a n)"
proof (induction n arbitrary: a rule: less_induct)
  case (less n)
  show ?case
    unfolding steady_from.simps[of "ex\<lparr>ex_elapsed := el\<rparr>" f q a n] steady_from.simps[of ex f q a n]
    using less by (auto simp: Let_def untimed_def split: nat.splits)
qed

lemma untimed_steady: "map untimed (map (steady_result (ex\<lparr>ex_elapsed := el\<rparr>) f) qs) = map untimed (map (steady_result ex f) qs)"
  by (simp add: steady_result_def untimed_steady_from)

lemma steady_wave_eq:
  assumes "steady ex f" and "schedules_all ex" and "distinct (map node_of qs)" and "wave_requests cell epoch s wave = Inr qs" and "\<not> xs_cancelled s"
  shows "exec_wave ex cell epoch par wave s =
    (let rs = map (steady_result ex f) qs; s1 = s\<lparr>xs_results := record_results rs (xs_results s)\<rparr> in
     case premerge_conflicts (ex_policy ex) wave rs (xs_head s) of
       Inl e \<Rightarrow> (Inl e, s1)
     | Inr found \<Rightarrow>
         if found \<noteq> [] then (Inr False, s1\<lparr>xs_conflicts := xs_conflicts s1 @ found, xs_cancelled := True\<rparr>)
         else (case merge_nodes ex (deterministic_merge_order (map rs_node rs)) s1 of (Some e, s2) \<Rightarrow> (Inl e, s2) | (None, s2) \<Rightarrow> (Inr True, s2)))"
proof -
  have ok: "\<not> list_ex (\<lambda>r. rs_state r \<noteq> NOk) (map (steady_result ex f) qs)" using steady_fields[OF assms(1)] by (simp add: list_ex_iff)
  have run: "(if par \<and> length qs > 1 then run_parallel ex qs (xs_cancelled s) (xs_world s) else run_serial ex qs [] (xs_cancelled s) (xs_world s))
      = (Inr (map (steady_result ex f) qs), False, xs_world s)"
    using assms steady_parallel[OF assms(1-3), of "xs_world s"] steady_serial[OF assms(1), of qs "[]" "xs_world s"] by simp
  have upd: "s\<lparr>xs_results := m, xs_cancelled := False, xs_world := xs_world s\<rparr> = s\<lparr>xs_results := m\<rparr>" for m
    using assms(5) by simp
  show ?thesis unfolding exec_wave_def assms(4) sum.case run prod.case Let_def upd using ok by simp
qed

lemma steady_wave:
  assumes "steady ex f" and "schedules_all ex" and "merger_ignores_time ex" and "distinct (map wn_id wave)"
    and "untimed_state s = untimed_state t" and "\<not> xs_cancelled s"
  shows "map_prod id untimed_state (exec_wave (ex\<lparr>ex_elapsed := el\<rparr>) cell epoch par wave s) = map_prod id untimed_state (exec_wave ex cell epoch False wave t)"
proof -
  have eq: "xs_head t = xs_head s" "xs_cancelled t = xs_cancelled s" "xs_conflicts t = xs_conflicts s"
    "wave_requests cell epoch t wave = wave_requests cell epoch s wave"
    using arg_cong[OF assms(5), of xs_head] arg_cong[OF assms(5), of xs_cancelled] arg_cong[OF assms(5), of xs_conflicts]
      untimed_requests[of cell epoch s wave, unfolded assms(5)] untimed_requests[of cell epoch t wave] by simp_all
  show ?thesis
  proof (cases "wave_requests cell epoch s wave")
    case (Inl e)
    then show ?thesis using eq(4) assms(5) by (simp add: exec_wave_def)
  next
    case (Inr qs)
    let ?ex = "ex\<lparr>ex_elapsed := el\<rparr>"
    let ?r1 = "map (steady_result ?ex f) qs" and ?r2 = "map (steady_result ex f) qs"
    let ?s1 = "s\<lparr>xs_results := record_results ?r1 (xs_results s)\<rparr>" and ?t1 = "t\<lparr>xs_results := record_results ?r2 (xs_results t)\<rparr>"
    have d: "distinct (map node_of qs)" using wave_requests_nodes[OF Inr] assms(4) by simp
    have u: "map untimed ?r1 = map untimed ?r2" by (rule untimed_steady)
    then have ids: "map rs_node ?r1 = map rs_node ?r2" by (metis map_map comp_apply map_cong untimed_fields(2) list.map_comp)
    have st: "untimed_state ?s1 = untimed_state ?t1"
      unfolding untimed_state_upd untimed_record u assms(5) using arg_cong[OF assms(5), of xs_results] by simp
    have pm: "premerge_conflicts p wave ?r1 h = premerge_conflicts p wave ?r2 h" for p h
      using untimed_premerge[of p wave ?r1 h, unfolded u] untimed_premerge[of p wave ?r2 h] by (rule trans[OF sym])
    have mg: "map_prod id untimed_state (merge_nodes ?ex ids ?s1) = map_prod id untimed_state (merge_nodes ex ids ?t1)" for ids
      unfolding merge_clock using untimed_merge[OF assms(3), of ids ?s1] untimed_merge[OF assms(3), of ids ?t1] st by simp
    have "schedules_all ?ex" using assms(2) by (simp add: schedules_all_def)
    note w1 = steady_wave_eq[OF steady_clock[OF assms(1), of el] this d Inr assms(6), where par = par]
    have "wave_requests cell epoch t wave = Inr qs" "\<not> xs_cancelled t" using Inr eq assms(6) by simp_all
    note w2 = steady_wave_eq[OF assms(1,2) d this, where par = False]
    obtain e1 s2 e2 t2 where m: "merge_nodes ?ex (deterministic_merge_order (map rs_node ?r1)) ?s1 = (e1, s2)"
      "merge_nodes ex (deterministic_merge_order (map rs_node ?r2)) ?t1 = (e2, t2)" by fastforce
    have "(e1, untimed_state s2) = (e2, untimed_state t2)"
      using mg[of "deterministic_merge_order (map rs_node ?r1)", unfolded m(1), unfolded ids m(2)] by simp
    then have "e1 = e2" "untimed_state s2 = untimed_state t2" by simp_all
    moreover have "ex_policy ?ex = ex_policy ex" by simp
    ultimately show ?thesis unfolding w1 w2 Let_def m eq pm
      using st eq by (simp split: sum.splits option.splits)
  qed
qed

lemma steady_waves:
  assumes "steady ex f" and "schedules_all ex" and "merger_ignores_time ex" and "stacked nodes dn ws" and "untimed_state s = untimed_state t"
  shows "map_prod id untimed_state (exec_waves (ex\<lparr>ex_elapsed := el\<rparr>) cell epoch par ws s) = map_prod id untimed_state (exec_waves ex cell epoch False ws t)"
  using assms(4,5)
proof (induction ws arbitrary: dn s t)
  case (Cons w ws)
  have c: "xs_cancelled t = xs_cancelled s" using arg_cong[OF Cons.prems(2), of xs_cancelled] by simp
  have d: "distinct (map wn_id (ww_nodes w))" using Cons.prems by (simp add: wave_fits_def)
  show ?case
  proof (cases "xs_cancelled s")
    case False
    obtain r1 s1 r2 t1 where m: "exec_wave (ex\<lparr>ex_elapsed := el\<rparr>) cell epoch par (ww_nodes w) s = (r1, s1)"
      "exec_wave ex cell epoch False (ww_nodes w) t = (r2, t1)" by fastforce
    have e: "r1 = r2" "untimed_state s1 = untimed_state t1"
      using steady_wave[OF assms(1-3) d Cons.prems(2) False, of el cell epoch par] m by simp_all
    show ?thesis using False c m e Cons.IH[OF _ e(2)] Cons.prems(1) by (auto split: sum.splits bool.splits)
  qed (use c Cons.prems(2) in simp)
qed simp

text \<open>C32: for nodes that succeed, the thread pool computes what running them one by one computes. The runner is a
  function of its request that nobody cancels and whose nodes all succeed within the allowed attempts, the
  pool runs every request, and the merger does not look at durations. Then, whatever the order in which the
  pool's runs complete and whatever time each run measures, the report and the merger's effects of a
  pooled run are those of a serial run of the same plan, except for the durations and the note that the run was parallel.\<close>

theorem parallel_equals_serial:
  assumes "steady ex f" and "schedules_all ex" and "merger_ignores_time ex"
  shows "map_prod (map_sum id untimed_report) id (execute_plan (ex\<lparr>ex_elapsed := el\<rparr>) cell epoch input nodes True cancelled w) =
    map_prod (map_sum id (\<lambda>rep. untimed_report rep\<lparr>xr_parallel := may_parallel (ex_policy ex) True nodes\<rparr>)) id
      (execute_plan ex cell epoch input nodes False cancelled w)"
proof (cases "waves wn_id wn_depends_on nodes")
  case (Inr ws)
  let ?s0 = "\<lparr>xs_results = Map.empty, xs_head = input, xs_merges = [], xs_conflicts = [], xs_cancelled = cancelled, xs_world = w\<rparr>"
  let ?par = "may_parallel (ex_policy ex) True nodes"
  obtain e1 s e2 t where m: "exec_waves (ex\<lparr>ex_elapsed := el\<rparr>) cell epoch ?par ws ?s0 = (e1, s)" "exec_waves ex cell epoch False ws ?s0 = (e2, t)" by fastforce
  have u: "e1 = e2" "untimed_state s = untimed_state t"
    using steady_waves[OF assms waves_stacked(1)[OF Inr] refl, of el cell epoch ?par ?s0] m by simp_all
  have f: "xs_head s = xs_head t" "xs_merges s = xs_merges t" "xs_conflicts s = xs_conflicts t" "xs_cancelled s = xs_cancelled t" "xs_world s = xs_world t"
    using arg_cong[OF u(2), of xs_head] arg_cong[OF u(2), of xs_merges] arg_cong[OF u(2), of xs_conflicts]
      arg_cong[OF u(2), of xs_cancelled] arg_cong[OF u(2), of xs_world] by simp_all
  have r: "map_option untimed (xs_results s i) = map_option untimed (xs_results t i)" for i
    using fun_cong[OF arg_cong[OF u(2), of xs_results], of i] by simp
  have "untimed (case xs_results s i of Some r \<Rightarrow> r | None \<Rightarrow> not_started cell epoch s n) = untimed (case xs_results t i of Some r \<Rightarrow> r | None \<Rightarrow> not_started cell epoch t n)" for i n
    using r[of i] f by (auto simp: not_started_def split: option.splits)
  then show ?thesis using Inr m u(1) f by (cases e2) (simp_all add: execute_plan_def Let_def untimed_report_def may_parallel_def)
qed (simp add: execute_plan_def)

section \<open>A run\<close>

definition demo_result :: "node_request \<Rightarrow> node_result" where
  "demo_result q = (no_result (logical_id q) (wn_id (nr_node q)) NOk (nr_head q) 1 [])
     \<lparr>rs_output := Some (wn_id (nr_node q) @ ''-tip''), rs_touched := take 1 (wn_files (nr_node q))\<rparr>"

definition demo_merger :: "nat merger" where
  "demo_merger r head k w =
     (Inr \<lparr>mr_index = k, mr_node = rs_node r, mr_source = the (rs_output r), mr_before = head, mr_after = head @ ''+'' @ rs_node r,
           mr_transform = ''merge'', mr_reverify = True, mr_conflicts = []\<rparr>, False, Suc w)"

definition demo_plan :: "work_node list" where
  "demo_plan =
     [\<lparr>wn_id = ''api'', wn_depends_on = [''model''], wn_files = [''a.py''], wn_parallel_safe = True\<rparr>,
      \<lparr>wn_id = ''model'', wn_depends_on = [], wn_files = [''m.py''], wn_parallel_safe = True\<rparr>,
      \<lparr>wn_id = ''docs'', wn_depends_on = [], wn_files = [''d.md''], wn_parallel_safe = True\<rparr>]"

text \<open>The pool of this executor completes its runs in the reverse order.\<close>

definition demo_executor :: "nat executor" where
  "demo_executor = \<lparr>ex_runner = (\<lambda>q w. (Inr (demo_result q), False, w)), ex_merger = demo_merger,
     ex_policy = \<lparr>ep_max_parallel = 4, ep_max_attempts = 2, ep_allow_parallel = True, ep_protected = [''ci.yml'']\<rparr>,
     ex_elapsed = (\<lambda>q. 1), ex_schedule = (\<lambda>qs. map (\<lambda>q. (q, True)) (rev qs))\<rparr>"

lemma demo_steady: "steady demo_executor demo_result"
  by (simp add: steady_def demo_executor_def demo_result_def no_result_def numeral_2_eq_2)

lemma demo_merger_time: "merger_ignores_time demo_executor"
  by (simp add: merger_ignores_time_def demo_executor_def demo_merger_def fun_eq_iff)

lemma demo_schedules: "schedules_all demo_executor"
  by (simp add: schedules_all_def demo_executor_def image_image)

lemma demo_plan_waves:
  "waves wn_id wn_depends_on demo_plan =
     Inr [\<lparr>ww_index = 0, ww_nodes = [demo_plan ! 1, demo_plan ! 2]\<rparr>, \<lparr>ww_index = 1, ww_nodes = [demo_plan ! 0]\<rparr>]"
  by (simp add: waves_def demo_plan_def wave_loop.simps ready_def Let_def)

lemma demo_report:
  "\<exists>rep. fst (execute_plan demo_executor ''cell_1'' 3 ''h0'' demo_plan False False 0) = Inr rep
     \<and> xr_final rep = ''h0+docs+model+api'' \<and> \<not> xr_cancelled rep \<and> map mr_node (xr_merges rep) = [''docs'', ''model'', ''api'']"
  unfolding execute_plan_def demo_plan_waves
  by (simp add: exec_wave_def wave_requests_def demo_plan_def run_with_retry_def demo_executor_def demo_result_def no_result_def
    new_request_def logical_id_def record_results_def premerge_conflicts_def node_conflicts_def sorted_common_def
    deterministic_merge_order_def demo_merger_def validate_merge_def may_parallel_def head_of_def Let_def numeral_2_eq_2)

theorem merges_are_checked_chain_witness:
  "\<exists>rep. fst (execute_plan demo_executor ''cell_1'' 3 ''h0'' demo_plan False False 0) = Inr rep
     \<and> chain ''h0'' (xr_merges rep) ''h0+docs+model+api'' \<and> length (xr_merges rep) = 3
     \<and> list_all (merge_ok demo_plan [''ci.yml''] (result_of rep)) (xr_merges rep)"
proof -
  obtain rep where rep: "fst (execute_plan demo_executor ''cell_1'' 3 ''h0'' demo_plan False False 0) = Inr rep
     \<and> xr_final rep = ''h0+docs+model+api'' \<and> \<not> xr_cancelled rep \<and> map mr_node (xr_merges rep) = [''docs'', ''model'', ''api'']"
    by (rule exE[OF demo_report])
  note e = conjunct1[OF rep] and final = conjunct1[OF conjunct2[OF rep]] and m = conjunct2[OF conjunct2[OF conjunct2[OF rep]]]
  have p: "ep_protected (ex_policy demo_executor) = [''ci.yml'']" by (simp add: demo_executor_def)
  note all = merges_are_checked_chain[OF e demo_schedules, unfolded p final]
  have "length (xr_merges rep) = 3" using arg_cong[OF m, of length] by simp
  then show ?thesis
    by (intro exI[of _ rep] conjI) (rule e conjunct1[OF all] conjunct1[OF conjunct2[OF conjunct2[OF all]]] | assumption)+
qed

theorem parallel_equals_serial_witness:
  "\<exists>rep w. execute_plan (demo_executor\<lparr>ex_elapsed := (\<lambda>q. 5)\<rparr>) ''cell_1'' 3 ''h0'' demo_plan True False 0 = (Inr rep, w)
     \<and> xr_parallel rep \<and> xr_final rep = ''h0+docs+model+api'' \<and> map mr_node (xr_merges rep) = [''docs'', ''model'', ''api'']"
proof -
  obtain rep w where rep: "execute_plan demo_executor ''cell_1'' 3 ''h0'' demo_plan False False 0 = (Inr rep, w)"
    "xr_final rep = ''h0+docs+model+api''" "map mr_node (xr_merges rep) = [''docs'', ''model'', ''api'']"
    using demo_report by (metis prod.collapse)
  have p: "may_parallel (ex_policy demo_executor) True demo_plan"
    by (simp add: may_parallel_def demo_executor_def demo_plan_def)
  obtain res w' where e: "execute_plan (demo_executor\<lparr>ex_elapsed := (\<lambda>q. 5)\<rparr>) ''cell_1'' 3 ''h0'' demo_plan True False 0 = (res, w')" by force
  have eq: "map_sum id untimed_report res = Inr (untimed_report rep\<lparr>xr_parallel := True\<rparr>)"
    using parallel_equals_serial[OF demo_steady demo_schedules demo_merger_time, of "\<lambda>q. 5" "''cell_1''" 3 "''h0''" demo_plan False 0] rep p e by simp
  then obtain rep' where r: "res = Inr rep'" "untimed_report rep' = untimed_report rep\<lparr>xr_parallel := True\<rparr>" by (cases res) auto
  have "xr_parallel rep'" "xr_final rep' = xr_final rep" "xr_merges rep' = xr_merges rep"
    using arg_cong[OF r(2), of xr_parallel] arg_cong[OF r(2), of xr_final] arg_cong[OF r(2), of xr_merges] by (simp_all add: untimed_report_def)
  then show ?thesis using e r(1) rep by simp
qed

end
