(* ===== verification/AcceptedInputs.thy ===== *)
theory AcceptedInputs
  imports SecurityContract
begin

text \<open>
  The inputs one Cell epoch was admitted with, \<open>src/src/swfactory/accepted_inputs.py\<close>: the documents that are
  digested, the snapshot, and the pin of a run directory with its admission, comparison and deliberate retirement.

  What a worker reads at task time (settings, files, templates, agent policies, the revision of the autonomous policy)
  is the record \<open>worker\<close>; \<open>bp_dump\<close> stands for \<open>blueprint.model_dump(mode="json")\<close> and \<open>fr\<close> for the text of a
  float. A control file is absent, unreadable or the value it parses to. Files that are not ASCII are not represented.

  The lemmas show that an admitted epoch is never reinterpreted, what a refusal names, and what a crash between the
  writes of an admission leaves.
\<close>

section \<open>What a worker reads\<close>

record issue =
  is_id :: string
  is_title :: string
  is_body :: string
  is_labels :: "string list"
  is_url :: "string option"
  is_state :: string

datatype gate_mode = HumanGate | AutoGate | PolicyGate

record gate =
  ga_name :: string
  ga_artifact :: string
  ga_mode :: gate_mode

record blueprint =
  bp_order :: "string list"
  bp_gates :: "gate list"
  bp_review_policy :: string
  bp_dump :: json

record worker =
  wk_setting :: "string \<Rightarrow> json"
  wk_gate_replay :: "string option"
  wk_agent :: string
  wk_blueprint :: string
  wk_repo :: string
  wk_target_dir :: string
  wk_base_branch :: string
  wk_file :: "string \<Rightarrow> string option"
  wk_prompt :: "string \<Rightarrow> string option"
  wk_factory_file :: "string \<Rightarrow> string option"
  wk_agent_policies :: "(string \<times> json) list"
  wk_revision :: string
  wk_external :: json

definition SCHEMA_VERSION :: int where
  "SCHEMA_VERSION = 2"

definition POLICY_SETTINGS :: "string list" where
  "POLICY_SETTINGS =
     [''sandbox'', ''agent'', ''scm'', ''approve'', ''tests'', ''crabbox_provider'', ''max_build_iterations'', ''max_review_fixes'',
      ''max_turns'', ''max_budget_usd_per_stage'', ''max_budget_usd'', ''gate_timeout_h'', ''stage_timeout_h'', ''max_parallel_jobs'',
      ''max_parallel_forks'', ''gateway_profile'', ''islo_environment'', ''sandbox_ttl_s'', ''sandbox_idle_s'', ''islo_snapshot'',
      ''toolset_backend'', ''toolset_sbx_host_network_policy'', ''toolset_sbx_image'', ''toolset_smolvm_socket'',
      ''toolset_smolvm_image'', ''toolset_smolvm_cpus'', ''toolset_smolvm_memory_mb'', ''toolset_workdir'', ''srt_allowed_domains'',
      ''docker_image'', ''docker_credentials'', ''docker_network'', ''docker_user'', ''allow_local_agent'']"

definition OPERATIONAL_SETTINGS :: "string list" where
  "OPERATIONAL_SETTINGS = [''fixtures_dir'', ''workdir'', ''record_dir'', ''sandbox_owner'', ''gate_replay'', ''agent_profile'']"

fun STAGE_PROMPTS :: "string \<Rightarrow> string list" where
  "STAGE_PROMPTS stage =
     (if stage = ''spec'' then [''spec'']
      else if stage = ''plan'' then [''plan'', ''dialect'']
      else if stage = ''build_and_test'' then [''build'', ''fix'', ''build_node'', ''fusion'', ''dialect'', ''file_pack'']
      else if stage = ''review'' then [''review'', ''fix'', ''dialect'']
      else [])"

definition UNREFERENCED_PROMPTS :: "string list" where
  "UNREFERENCED_PROMPTS = [''diagnose'']"

section \<open>Documents and digests\<close>

definition accepted_sha256 :: "(real \<Rightarrow> string) \<Rightarrow> json \<Rightarrow> string" where
  "accepted_sha256 fr v = sha256_hex (jdumps False fr (jcanon v))"

definition issue_document :: "issue \<Rightarrow> json" where
  "issue_document i =
     JObj [(''id'', JStr (is_id i)), (''title'', JStr (is_title i)), (''body'', JStr (is_body i)),
           (''labels'', JArr (map JStr (is_labels i)))]"

definition replay_digest :: "worker \<Rightarrow> string option" where
  "replay_digest w =
     (case wk_gate_replay w of
        None \<Rightarrow> None
      | Some p \<Rightarrow> if p = [] then None else Some (case wk_file w p of Some t \<Rightarrow> sha256_hex t | None \<Rightarrow> ''unreadable''))"

definition referenced_prompts :: "blueprint option \<Rightarrow> string list" where
  "referenced_prompts b =
     (case b of None \<Rightarrow> [] | Some bp \<Rightarrow> sort (remdups (concat (map STAGE_PROMPTS (bp_order bp)))))"

definition agent_policy_document :: "worker \<Rightarrow> json" where
  "agent_policy_document w = JObj (sort_key fst (wk_agent_policies w))"

definition packaged_review_policy_digest :: "worker \<Rightarrow> blueprint option \<Rightarrow> string option" where
  "packaged_review_policy_digest w b =
     map_option sha256_hex (wk_factory_file w (case b of None \<Rightarrow> ''REVIEW.md'' | Some bp \<Rightarrow> bp_review_policy bp))"

definition template_digest :: "worker \<Rightarrow> string \<Rightarrow> string" where
  "template_digest w name = (case wk_prompt w name of Some t \<Rightarrow> sha256_hex t | None \<Rightarrow> ''missing'')"

definition prompt_document :: "worker \<Rightarrow> blueprint option \<Rightarrow> (string \<times> string) list" where
  "prompt_document w b = map (\<lambda>n. (n, template_digest w n)) (referenced_prompts b)"

definition autonomy_revision :: "worker \<Rightarrow> blueprint option \<Rightarrow> string option" where
  "autonomy_revision w b =
     (case b of None \<Rightarrow> None | Some bp \<Rightarrow> if list_ex (\<lambda>g. ga_mode g = PolicyGate) (bp_gates bp) then Some (wk_revision w) else None)"

definition blueprint_json :: "blueprint option \<Rightarrow> json" where
  "blueprint_json b = (case b of None \<Rightarrow> JNull | Some bp \<Rightarrow> bp_dump bp)"

definition templates_json :: "(string \<times> string) list \<Rightarrow> json" where
  "templates_json ts = JArr (map (\<lambda>(n, d). JArr [JStr n, JStr d]) ts)"

definition policy_document :: "worker \<Rightarrow> blueprint option \<Rightarrow> json" where
  "policy_document w b =
     JObj ([(''schema_version'', JInt SCHEMA_VERSION),
            (''config'', JObj (map (\<lambda>n. (n, wk_setting w n)) POLICY_SETTINGS)),
            (''gate_replay_sha256'', jopt (replay_digest w)),
            (''autonomy_revision'', jopt (autonomy_revision w b)),
            (''blueprint'', blueprint_json b),
            (''prompt_templates'', templates_json (prompt_document w b)),
            (''review_policy_sha256'', jopt (packaged_review_policy_digest w b)),
            (''agent_policies'', agent_policy_document w)]
           @ (if wk_agent w = ''external'' then [(''external_agent'', wk_external w)] else []))"

definition policy_sha256 :: "(real \<Rightarrow> string) \<Rightarrow> worker \<Rightarrow> blueprint option \<Rightarrow> string" where
  "policy_sha256 fr w b = accepted_sha256 fr (policy_document w b)"

section \<open>The snapshot\<close>

record accepted_inputs =
  ai_schema :: int
  ai_cell :: "string option"
  ai_epoch :: "int option"
  ai_managed :: bool
  ai_issue :: string
  ai_issue_sha :: string
  ai_blueprint :: string
  ai_blueprint_sha :: string
  ai_templates :: "(string \<times> string) list"
  ai_review_sha :: "string option"
  ai_policy_sha :: string
  ai_repo :: string
  ai_target_dir :: string
  ai_base_branch :: string

definition jint_opt :: "int option \<Rightarrow> json" where
  "jint_opt x = (case x of None \<Rightarrow> JNull | Some i \<Rightarrow> JInt i)"

definition inputs_dump :: "accepted_inputs \<Rightarrow> (string \<times> json) list" where
  "inputs_dump a =
     [(''schema_version'', JInt (ai_schema a)), (''cell_id'', jopt (ai_cell a)), (''cell_epoch'', jint_opt (ai_epoch a)),
      (''managed'', JBool (ai_managed a)), (''issue_id'', JStr (ai_issue a)), (''issue_sha256'', JStr (ai_issue_sha a)),
      (''blueprint'', JStr (ai_blueprint a)), (''blueprint_sha256'', JStr (ai_blueprint_sha a)),
      (''prompt_templates'', templates_json (ai_templates a)), (''review_policy_sha256'', jopt (ai_review_sha a)),
      (''policy_sha256'', JStr (ai_policy_sha a)), (''repo'', JStr (ai_repo a)), (''target_dir'', JStr (ai_target_dir a)),
      (''base_branch'', JStr (ai_base_branch a))]"

definition inputs_digest :: "accepted_inputs \<Rightarrow> string" where
  "inputs_digest a = ''inputs:'' @ accepted_sha256 (\<lambda>r. []) (JObj (inputs_dump a))"

definition snapshot ::
  "(real \<Rightarrow> string) \<Rightarrow> worker \<Rightarrow> blueprint option \<Rightarrow> issue \<Rightarrow> string option \<Rightarrow> int option \<Rightarrow> bool \<Rightarrow> accepted_inputs" where
  "snapshot fr w b i cell epoch managed =
     \<lparr>ai_schema = SCHEMA_VERSION, ai_cell = cell, ai_epoch = epoch, ai_managed = managed, ai_issue = is_id i,
      ai_issue_sha = accepted_sha256 fr (issue_document i), ai_blueprint = wk_blueprint w,
      ai_blueprint_sha = accepted_sha256 fr (blueprint_json b), ai_templates = prompt_document w b,
      ai_review_sha = packaged_review_policy_digest w b, ai_policy_sha = policy_sha256 fr w b, ai_repo = wk_repo w,
      ai_target_dir = wk_target_dir w, ai_base_branch = wk_base_branch w\<rparr>"

section \<open>What changed\<close>

text \<open>\<open>_short\<close>: the text of a dumped value, cut to twelve characters. The ellipsis is written \<open>...\<close>.\<close>

definition short_text :: "string \<Rightarrow> string" where
  "short_text t = (if length t > 13 then take 12 t @ ''...'' else t)"

fun json_text :: "json \<Rightarrow> string" where
  "json_text JNull = ''none''"
| "json_text v = py_str (\<lambda>v. []) v"

definition short :: "json \<Rightarrow> string" where
  "short v = short_text (json_text v)"

definition describe_templates :: "(string \<times> string) list \<Rightarrow> (string \<times> string) list \<Rightarrow> string list" where
  "describe_templates accepted current =
     (let was = map_of (rev accepted); now = map_of (rev current) in
      concat (map (\<lambda>n. if was n = now n then []
        else [case (was n, now n) of
                (None, _) \<Rightarrow> ''prompt template prompts/'' @ n @ ''.md is newly referenced by this line''
              | (Some a, None) \<Rightarrow> ''prompt template prompts/'' @ n @ ''.md is no longer referenced by this line''
              | (Some a, Some b) \<Rightarrow> ''prompt template prompts/'' @ n @ ''.md changed ('' @ short_text a @ '' -> '' @ short_text b @ '')''])
        (sort (remdups (map fst (accepted @ current))))))"

definition FIELD_NAMES :: "(string \<times> string) list" where
  "FIELD_NAMES =
     [(''cell_id'', ''Cell id''), (''cell_epoch'', ''cell epoch''), (''managed'', ''who owns this Cell epoch''), (''issue_id'', ''issue id''),
      (''issue_sha256'', ''issue content''), (''blueprint'', ''blueprint name''), (''blueprint_sha256'', ''resolved blueprint''),
      (''prompt_templates'', ''prompt templates''), (''policy_sha256'', ''effective policy''),
      (''review_policy_sha256'', ''packaged review policy (REVIEW.md)''), (''repo'', ''target repo''),
      (''target_dir'', ''target directory''), (''base_branch'', ''base branch'')]"

definition dumped :: "accepted_inputs \<Rightarrow> string \<Rightarrow> json option" where
  "dumped a f = map_of (inputs_dump a) f"

definition policy_explained :: "accepted_inputs \<Rightarrow> accepted_inputs \<Rightarrow> bool" where
  "policy_explained a c = list_ex (\<lambda>f. dumped a f \<noteq> dumped c f) [''prompt_templates'', ''review_policy_sha256'', ''blueprint_sha256'']"

definition describe_mismatch :: "accepted_inputs \<Rightarrow> accepted_inputs \<Rightarrow> string list" where
  "describe_mismatch a c =
     concat (map (\<lambda>(f, label).
       if dumped a f = dumped c f then []
       else if f = ''policy_sha256'' \<and> policy_explained a c then []
       else if f = ''prompt_templates'' then describe_templates (ai_templates a) (ai_templates c)
       else [label @ '' ('' @ short (the (dumped a f)) @ '' -> '' @ short (the (dumped c f)) @ '')'']) FIELD_NAMES)"

section \<open>The pin of a run directory\<close>

datatype 'a control = Missing | Unreadable | Holds 'a

datatype history_event =
    HistoryAccepted accepted_inputs string
  | HistorySuperseded string string string

record run_pins =
  rp_pin :: "accepted_inputs control"
  rp_digest :: "string option"
  rp_admitted_at :: "time control"
  rp_history :: "history_event list"
  rp_cell :: "json control"

datatype inputs_error =
    PinUnreadable
  | NoAcceptedInputs
  | EarlierBuild int int
  | NoStableDigest int
  | InputsDrifted "string list"
  | ReacceptNeedsReason
  | ReacceptManaged

definition stored :: "run_pins \<Rightarrow> inputs_error + accepted_inputs option" where
  "stored s = (case rp_pin s of Missing \<Rightarrow> Inr None | Unreadable \<Rightarrow> Inl PinUnreadable | Holds a \<Rightarrow> Inr (Some a))"

definition pinned_digest :: "run_pins \<Rightarrow> inputs_error + string option" where
  "pinned_digest s =
     (case stored s of
        Inl e \<Rightarrow> Inl e
      | Inr None \<Rightarrow> Inr None
      | Inr (Some a) \<Rightarrow>
          (case rp_digest s of
             Some d \<Rightarrow> Inr (Some (py_strip d))
           | None \<Rightarrow> if ai_schema a = SCHEMA_VERSION then Inr (Some (inputs_digest a)) else Inl (NoStableDigest (ai_schema a))))"

definition require_inputs :: "run_pins \<Rightarrow> inputs_error + accepted_inputs" where
  "require_inputs s =
     (case stored s of Inl e \<Rightarrow> Inl e | Inr None \<Rightarrow> Inl NoAcceptedInputs | Inr (Some a) \<Rightarrow> Inr a)"

definition write_pin :: "accepted_inputs \<Rightarrow> run_pins \<Rightarrow> run_pins" where
  "write_pin a s = s\<lparr>rp_pin := Holds a\<rparr>"

definition write_digest :: "accepted_inputs \<Rightarrow> run_pins \<Rightarrow> run_pins" where
  "write_digest a s = s\<lparr>rp_digest := Some (inputs_digest a @ [CHR 0x0A])\<rparr>"

definition write_admitted_at :: "time \<Rightarrow> run_pins \<Rightarrow> run_pins" where
  "write_admitted_at now s = s\<lparr>rp_admitted_at := Holds now\<rparr>"

definition log_accepted :: "accepted_inputs \<Rightarrow> run_pins \<Rightarrow> run_pins" where
  "log_accepted a s = s\<lparr>rp_history := rp_history s @ [HistoryAccepted a (inputs_digest a)]\<rparr>"

text \<open>The four file writes of an admission, in their order; a process that dies leaves a prefix of them.\<close>

definition admit_writes :: "time \<Rightarrow> accepted_inputs \<Rightarrow> (run_pins \<Rightarrow> run_pins) list" where
  "admit_writes now current = [write_pin current, write_digest current, write_admitted_at now, log_accepted current]"

definition run_writes :: "(run_pins \<Rightarrow> run_pins) list \<Rightarrow> run_pins \<Rightarrow> run_pins" where
  "run_writes ws s = fold (\<lambda>write s. write s) ws s"

definition admit :: "time \<Rightarrow> accepted_inputs \<Rightarrow> run_pins \<Rightarrow> (inputs_error + accepted_inputs) \<times> run_pins" where
  "admit now current s =
     (case stored s of
        Inl e \<Rightarrow> (Inl e, s)
      | Inr None \<Rightarrow> (Inr current, run_writes (admit_writes now current) s)
      | Inr (Some a) \<Rightarrow>
          if ai_schema a \<noteq> ai_schema current then (Inl (EarlierBuild (ai_schema a) (ai_schema current)), s)
          else if inputs_digest a \<noteq> inputs_digest current then
            (Inl (InputsDrifted (let changed = describe_mismatch a current in
               if changed = [] then [''an unclassified field''] else changed)), s)
          else (Inr a, s))"

definition pins_managed :: "run_pins \<Rightarrow> bool" where
  "pins_managed s =
     (case rp_cell s of Missing \<Rightarrow> False | Unreadable \<Rightarrow> True | Holds v \<Rightarrow> is_jobj v \<and> py_truthy (jget0 ''managed'' v))"

definition clear_writes :: "(run_pins \<Rightarrow> run_pins) list" where
  "clear_writes = [rp_pin_update (\<lambda>_. Missing), rp_digest_update (\<lambda>_. None), rp_admitted_at_update (\<lambda>_. Missing)]"

definition log_superseded :: "string \<Rightarrow> string \<Rightarrow> accepted_inputs \<Rightarrow> run_pins \<Rightarrow> run_pins" where
  "log_superseded actor reason a s = s\<lparr>rp_history := rp_history s @ [HistorySuperseded (py_strip actor) (py_strip reason) (inputs_digest a)]\<rparr>"

definition reaccept_writes :: "string \<Rightarrow> string \<Rightarrow> accepted_inputs \<Rightarrow> (run_pins \<Rightarrow> run_pins) list" where
  "reaccept_writes actor reason a = log_superseded actor reason a # clear_writes"

definition reaccept :: "string \<Rightarrow> string \<Rightarrow> run_pins \<Rightarrow> (inputs_error + accepted_inputs) \<times> run_pins" where
  "reaccept actor reason s =
     (if py_strip actor = [] \<or> py_strip reason = [] then (Inl ReacceptNeedsReason, s)
      else if pins_managed s then (Inl ReacceptManaged, s)
      else case require_inputs s of
        Inl e \<Rightarrow> (Inl e, s)
      | Inr a \<Rightarrow> (Inr a, run_writes (reaccept_writes actor reason a) s))"

text \<open>A re-accept whose process dies after \<open>n\<close> of its writes.\<close>

definition reaccept_dies :: "nat \<Rightarrow> string \<Rightarrow> string \<Rightarrow> run_pins \<Rightarrow> run_pins" where
  "reaccept_dies n actor reason s =
     (if py_strip actor = [] \<or> py_strip reason = [] \<or> pins_managed s then s
      else case require_inputs s of Inl e \<Rightarrow> s | Inr a \<Rightarrow> run_writes (take n (reaccept_writes actor reason a)) s)"

definition admitted_at :: "time \<Rightarrow> run_pins \<Rightarrow> time option" where
  "admitted_at now s = (case rp_admitted_at s of Missing \<Rightarrow> None | Unreadable \<Rightarrow> Some now | Holds t \<Rightarrow> Some t)"

definition answered_before_admission :: "time \<Rightarrow> run_pins \<Rightarrow> time option \<Rightarrow> bool" where
  "answered_before_admission now s responded =
     (case admitted_at now s of
        None \<Rightarrow> False
      | Some t0 \<Rightarrow> (case responded of None \<Rightarrow> False | Some t \<Rightarrow> t < t0))"

text \<open>A context of a run, \<open>_prepare_ctx\<close> of \<open>runtime.py\<close> up to the construction of the context: closed work and work the
  autonomous policy turns away are refused, the inputs are admitted, and only then is the binding of the Cell written.
  Cleanup passes \<open>enforce = False\<close>. \<open>triage\<close> is the autonomous policy's reason to refuse an issue.\<close>

datatype prepare_error = IssueNotOpen string | TriageBlocked string | PrepareInputs inputs_error

definition binding_cell :: "json option \<Rightarrow> string option" where
  "binding_cell b = (case b of None \<Rightarrow> None | Some v \<Rightarrow> (case jget0 ''cell_id'' v of JStr c \<Rightarrow> Some c | _ \<Rightarrow> None))"

definition binding_epoch :: "json option \<Rightarrow> int option" where
  "binding_epoch b = (case b of None \<Rightarrow> None | Some v \<Rightarrow> (case jget0 ''epoch'' v of JInt e \<Rightarrow> Some e | _ \<Rightarrow> None))"

definition binding_managed :: "json option \<Rightarrow> bool" where
  "binding_managed b = (case b of None \<Rightarrow> False | Some v \<Rightarrow> py_truthy (jget0 ''managed'' v))"

definition prepare_checks :: "(issue \<Rightarrow> string \<Rightarrow> string option) \<Rightarrow> worker \<Rightarrow> blueprint \<Rightarrow> issue \<Rightarrow> bool \<Rightarrow> prepare_error option" where
  "prepare_checks triage w bp i enforce =
     (if enforce \<and> is_state i \<noteq> ''open'' then Some (IssueNotOpen (is_state i))
      else if enforce \<and> list_ex (\<lambda>g. ga_mode g = PolicyGate) (bp_gates bp) then map_option TriageBlocked (triage i (wk_repo w))
      else None)"

definition prepare ::
  "(real \<Rightarrow> string) \<Rightarrow> (issue \<Rightarrow> string \<Rightarrow> string option) \<Rightarrow> worker \<Rightarrow> blueprint \<Rightarrow> issue \<Rightarrow> bool \<Rightarrow> time \<Rightarrow> json option
     \<Rightarrow> run_pins \<Rightarrow> (prepare_error + unit) \<times> run_pins" where
  "prepare fr triage w bp i enforce now binding s =
     (case prepare_checks triage w bp i enforce of
        Some e \<Rightarrow> (Inl e, s)
      | None \<Rightarrow>
          let current = snapshot fr w (Some bp) i (binding_cell binding) (binding_epoch binding) (binding_managed binding) in
          (case (if enforce then admit now current s else (Inr current, s)) of
             (Inl e, s1) \<Rightarrow> (Inl (PrepareInputs e), s1)
           | (Inr a, s1) \<Rightarrow> (Inr (), case binding of None \<Rightarrow> s1 | Some b \<Rightarrow> s1\<lparr>rp_cell := Holds b\<rparr>)))"

text \<open>A context whose process dies after \<open>n\<close> of the writes of its admission.\<close>

definition prepare_dies ::
  "nat \<Rightarrow> (real \<Rightarrow> string) \<Rightarrow> (issue \<Rightarrow> string \<Rightarrow> string option) \<Rightarrow> worker \<Rightarrow> blueprint \<Rightarrow> issue \<Rightarrow> time \<Rightarrow> json option
     \<Rightarrow> run_pins \<Rightarrow> run_pins" where
  "prepare_dies n fr triage w bp i now binding s =
     (if prepare_checks triage w bp i True = None \<and> rp_pin s = Missing
      then run_writes (take n (admit_writes now
             (snapshot fr w (Some bp) i (binding_cell binding) (binding_epoch binding) (binding_managed binding)))) s
      else s)"

section \<open>Admission\<close>

lemmas pin_writes = write_pin_def write_digest_def write_admitted_at_def log_accepted_def clear_writes_def log_superseded_def
  admit_writes_def reaccept_writes_def run_writes_def

lemma inputs_digest_shape: "startswith (inputs_digest a) ''inputs:'' \<and> hex64 (drop 7 (inputs_digest a))"
  by (simp add: inputs_digest_def accepted_sha256_def startswith_def)

lemma admit_Inr:
  assumes "admit now current s = (Inr a, s')"
  shows "inputs_digest a = inputs_digest current" and "ai_schema a = ai_schema current" and "rp_pin s' = Holds a"
    and "rp_pin s = Holds a \<Longrightarrow> s' = s" and "rp_pin s \<noteq> Holds a \<Longrightarrow> rp_pin s = Missing \<and> a = current \<and> rp_admitted_at s' = Holds now"
    and "rp_cell s' = rp_cell s"
  using assms by (auto simp: admit_def stored_def pin_writes split: control.splits if_splits)

lemma admit_Inl: "admit now current s = (Inl e, s') \<Longrightarrow> s' = s"
  by (auto simp: admit_def split: sum.splits option.splits if_splits)

text \<open>A refusal of drifted inputs names at least one cause, when the pinned templates are those of a blueprint.\<close>

lemma describe_templates_Nil:
  assumes "describe_templates a b = []" and "distinct (map fst a)" and "distinct (map fst b)"
  shows "set a = set b"
proof -
  have eq: "map_of (rev a) n = map_of (rev b) n" if "n \<in> fst ` set (a @ b)" for n
    using assms(1) that by (fastforce simp: describe_templates_def Let_def)
  have "map_of (rev a) = map_of (rev b)"
  proof
    fix n
    show "map_of (rev a) n = map_of (rev b) n"
    proof (cases "n \<in> fst ` set (a @ b)")
      case False
      then have "map_of (rev a) n = None" "map_of (rev b) n = None" by (auto simp: map_of_eq_None_iff)
      then show ?thesis by simp
    qed (rule eq)
  qed
  then have "set (rev a) = set (rev b)"
    using assms(2,3) map_of_inject_set[of "rev a" "rev b"] by (simp add: rev_map[symmetric])
  then show ?thesis by simp
qed

definition templates_sorted :: "accepted_inputs \<Rightarrow> bool" where
  "templates_sorted a \<longleftrightarrow> sorted (map fst (ai_templates a)) \<and> distinct (map fst (ai_templates a))"

lemma snapshot_templates_sorted: "templates_sorted (snapshot fr w b i cell epoch managed)"
  by (simp add: templates_sorted_def snapshot_def prompt_document_def referenced_prompts_def comp_def split: option.splits)

lemma templates_sorted_eq:
  assumes "templates_sorted a" and "templates_sorted c" and "set (ai_templates a) = set (ai_templates c)"
  shows "ai_templates a = ai_templates c"
proof -
  have "inj_on fst (set (ai_templates a) \<union> set (ai_templates c))"
    using assms by (simp add: templates_sorted_def distinct_map)
  then show ?thesis using assms map_sorted_distinct_set_unique[of fst "ai_templates a" "ai_templates c"]
    by (simp add: templates_sorted_def)
qed

lemma dumped_fields:
  "dumped a ''cell_id'' = Some (jopt (ai_cell a))" "dumped a ''cell_epoch'' = Some (jint_opt (ai_epoch a))"
  "dumped a ''managed'' = Some (JBool (ai_managed a))" "dumped a ''issue_id'' = Some (JStr (ai_issue a))"
  "dumped a ''issue_sha256'' = Some (JStr (ai_issue_sha a))" "dumped a ''blueprint'' = Some (JStr (ai_blueprint a))"
  "dumped a ''blueprint_sha256'' = Some (JStr (ai_blueprint_sha a))" "dumped a ''prompt_templates'' = Some (templates_json (ai_templates a))"
  "dumped a ''policy_sha256'' = Some (JStr (ai_policy_sha a))" "dumped a ''review_policy_sha256'' = Some (jopt (ai_review_sha a))"
  "dumped a ''repo'' = Some (JStr (ai_repo a))" "dumped a ''target_dir'' = Some (JStr (ai_target_dir a))"
  "dumped a ''base_branch'' = Some (JStr (ai_base_branch a))"
  by (simp_all add: dumped_def inputs_dump_def)

lemma refusal_names_cause:
  assumes "ai_schema a = ai_schema c" and "inputs_digest a \<noteq> inputs_digest c" and "templates_sorted a" and "templates_sorted c"
  shows "describe_mismatch a c \<noteq> []"
proof
  assume nil: "describe_mismatch a c = []"
  have field: "dumped a f = dumped c f" if "(f, l) \<in> set FIELD_NAMES" "f \<noteq> ''policy_sha256''" "f \<noteq> ''prompt_templates''" for f l
    using nil that by (fastforce simp: describe_mismatch_def split: if_splits)
  have t: "ai_templates a = ai_templates c"
  proof (cases "dumped a ''prompt_templates'' = dumped c ''prompt_templates''")
    case True
    have "inj (\<lambda>(n, d). JArr [JStr n, JStr d])" by (auto simp: inj_def)
    then show ?thesis using True by (simp add: dumped_fields templates_json_def inj_map_eq_map)
  next
    case False
    then have "describe_templates (ai_templates a) (ai_templates c) = []"
      using nil by (auto simp: describe_mismatch_def FIELD_NAMES_def split: if_splits)
    then show ?thesis
      using describe_templates_Nil assms(3,4) templates_sorted_eq by (simp add: templates_sorted_def)
  qed
  have f: "dumped a ''cell_id'' = dumped c ''cell_id''" "dumped a ''cell_epoch'' = dumped c ''cell_epoch''"
    "dumped a ''managed'' = dumped c ''managed''" "dumped a ''issue_id'' = dumped c ''issue_id''"
    "dumped a ''issue_sha256'' = dumped c ''issue_sha256''" "dumped a ''blueprint'' = dumped c ''blueprint''"
    "dumped a ''blueprint_sha256'' = dumped c ''blueprint_sha256''" "dumped a ''review_policy_sha256'' = dumped c ''review_policy_sha256''"
    "dumped a ''repo'' = dumped c ''repo''" "dumped a ''target_dir'' = dumped c ''target_dir''"
    "dumped a ''base_branch'' = dumped c ''base_branch''"
    by (rule field; simp add: FIELD_NAMES_def)+
  then have "\<not> policy_explained a c" using t by (simp add: policy_explained_def dumped_fields)
  then have "dumped a ''policy_sha256'' = dumped c ''policy_sha256''"
    using nil by (auto simp: describe_mismatch_def FIELD_NAMES_def split: if_splits)
  then have "inputs_dump a = inputs_dump c" using f t assms(1) by (simp add: dumped_fields inputs_dump_def)
  then show False using assms(2) by (simp add: inputs_digest_def)
qed

section \<open>An admitted epoch is not reinterpreted\<close>

inductive pins_step :: "run_pins \<Rightarrow> run_pins \<Rightarrow> bool" where
  step_prepare: "prepare fr triage w bp i enforce now binding s = (res, s') \<Longrightarrow> pins_step s s'"
| step_prepare_dies: "pins_step s (prepare_dies n fr triage w bp i now binding s)"
| step_reaccept: "reaccept actor reason s = (res2, s') \<Longrightarrow> pins_step s s'"
| step_reaccept_dies: "pins_step s (reaccept_dies n actor reason s)"

definition holds_or_superseded :: "nat \<Rightarrow> string \<Rightarrow> run_pins \<Rightarrow> bool" where
  "holds_or_superseded n d s \<longleftrightarrow> n \<le> length (rp_history s)
     \<and> ((\<exists>p. rp_pin s = Holds p \<and> inputs_digest p = d)
        \<or> (\<exists>actor reason. HistorySuperseded actor reason d \<in> set (drop n (rp_history s)) \<and> actor \<noteq> [] \<and> reason \<noteq> []))"

lemma prepare_Inr:
  assumes "prepare fr triage w bp i True now binding s = (Inr (), s')"
  obtains a s1 where "admit now (snapshot fr w (Some bp) i (binding_cell binding) (binding_epoch binding) (binding_managed binding)) s = (Inr a, s1)"
    and "s' = (case binding of None \<Rightarrow> s1 | Some b \<Rightarrow> s1\<lparr>rp_cell := Holds b\<rparr>)"
  using assms by (auto simp: prepare_def Let_def split: option.splits prod.splits sum.splits)

lemma prepare_keeps:
  assumes "prepare fr triage w bp i enforce now binding s = (res, s')"
  shows "(rp_pin s \<noteq> Missing \<longrightarrow> rp_pin s' = rp_pin s) \<and> (\<exists>es. rp_history s' = rp_history s @ es)"
proof -
  let ?c = "snapshot fr w (Some bp) i (binding_cell binding) (binding_epoch binding) (binding_managed binding)"
  obtain r s1 where x: "(if enforce then admit now ?c s else (Inr ?c, s)) = (r, s1)" by force
  have k: "(rp_pin s \<noteq> Missing \<longrightarrow> rp_pin s1 = rp_pin s) \<and> (\<exists>es. rp_history s1 = rp_history s @ es)"
    using x by (auto simp: admit_def stored_def pin_writes split: if_splits control.splits)
  have "s' = s \<or> rp_pin s' = rp_pin s1 \<and> rp_history s' = rp_history s1"
    using assms x by (auto simp: prepare_def Let_def split: option.splits sum.splits)
  then show ?thesis using k by auto
qed

lemma reaccept_Inr:
  assumes "reaccept actor reason s = (res, s')"
  shows "s' = s \<or> (\<exists>a. rp_pin s = Holds a \<and> py_strip actor \<noteq> [] \<and> py_strip reason \<noteq> [] \<and> \<not> pins_managed s
     \<and> s' = s\<lparr>rp_history := rp_history s @ [HistorySuperseded (py_strip actor) (py_strip reason) (inputs_digest a)],
          rp_pin := Missing, rp_digest := None, rp_admitted_at := Missing\<rparr>)"
  using assms by (auto simp: pin_writes reaccept_def require_inputs_def stored_def split: if_splits control.splits)

text \<open>What is left by a process that dies: the pin is written first, and a retirement is recorded before the pin goes.\<close>

lemma take4: "take n [a, b, c, d] \<in> {[], [a], [a, b], [a, b, c], [a, b, c, d]}"
  by (cases n; cases "n - 1"; cases "n - 2"; cases "n - 3") auto

lemma prepare_dies_cases:
  obtains "prepare_dies n fr triage w bp i now binding s = s"
  | c where "c = snapshot fr w (Some bp) i (binding_cell binding) (binding_epoch binding) (binding_managed binding)"
      "rp_pin s = Missing" "rp_pin (prepare_dies n fr triage w bp i now binding s) = Holds c"
      "rp_cell (prepare_dies n fr triage w bp i now binding s) = rp_cell s"
      "\<exists>es. rp_history (prepare_dies n fr triage w bp i now binding s) = rp_history s @ es"
proof -
  let ?c = "snapshot fr w (Some bp) i (binding_cell binding) (binding_epoch binding) (binding_managed binding)"
  show thesis
    using that take4[of n "write_pin ?c" "write_digest ?c" "write_admitted_at now" "log_accepted ?c"]
    by (cases "prepare_checks triage w bp i True = None \<and> rp_pin s = Missing") (auto simp: prepare_dies_def pin_writes)
qed

lemma reaccept_dies_cases:
  obtains "reaccept_dies n actor reason s = s"
  | a where "rp_pin s = Holds a" "py_strip actor \<noteq> []" "py_strip reason \<noteq> []"
      "rp_history (reaccept_dies n actor reason s) = rp_history s @ [HistorySuperseded (py_strip actor) (py_strip reason) (inputs_digest a)]"
      "rp_cell (reaccept_dies n actor reason s) = rp_cell s"
      "rp_pin (reaccept_dies n actor reason s) = Missing
       \<or> (rp_pin (reaccept_dies n actor reason s) = rp_pin s \<and> rp_admitted_at (reaccept_dies n actor reason s) = rp_admitted_at s)"
proof (cases "py_strip actor = [] \<or> py_strip reason = [] \<or> pins_managed s")
  case False
  show thesis
  proof (cases "require_inputs s")
    case (Inr a)
    let ?k = "[log_superseded actor reason a, rp_pin_update (\<lambda>_. Missing), rp_digest_update (\<lambda>_. None), rp_admitted_at_update (\<lambda>_. Missing)]"
    have d: "reaccept_dies n actor reason s = run_writes (take n ?k) s"
      using False Inr by (simp add: reaccept_dies_def reaccept_writes_def clear_writes_def)
    have "rp_pin s = Holds a" using Inr by (auto simp: require_inputs_def stored_def split: control.splits)
    then show thesis
      using that False take4[of n "log_superseded actor reason a" "rp_pin_update (\<lambda>_. Missing)" "rp_digest_update (\<lambda>_. None)" "rp_admitted_at_update (\<lambda>_. Missing)"]
      unfolding d by (auto simp: run_writes_def log_superseded_def)
  qed (use that False in \<open>simp add: reaccept_dies_def\<close>)
qed (use that in \<open>simp add: reaccept_dies_def\<close>)

lemma pins_step_keeps: "pins_step s s' \<Longrightarrow> holds_or_superseded n d s \<Longrightarrow> holds_or_superseded n d s'"
proof (induction rule: pins_step.cases)
  case (step_prepare fr triage w bp i enforce now binding s res s')
  then obtain es where "rp_history s' = rp_history s @ es" "rp_pin s \<noteq> Missing \<longrightarrow> rp_pin s' = rp_pin s"
    using prepare_keeps by blast
  then show ?case using step_prepare by (auto simp: holds_or_superseded_def)
next
  case (step_prepare_dies s m fr triage w bp i now binding)
  then show ?case by (cases rule: prepare_dies_cases[of m fr triage w bp i now binding s]) (auto simp: holds_or_superseded_def, blast+)
next
  case (step_reaccept actor reason s res s')
  then show ?case using reaccept_Inr[of actor reason s res s'] by (auto simp: holds_or_superseded_def pin_writes) blast+
next
  case (step_reaccept_dies s m actor reason)
  then show ?case by (cases rule: reaccept_dies_cases[of m actor reason s]) (auto simp: holds_or_superseded_def)
qed

lemma pins_steps_keep: "pins_step\<^sup>*\<^sup>* s t \<Longrightarrow> holds_or_superseded n d s \<Longrightarrow> holds_or_superseded n d t"
  by (induction rule: rtranclp_induct) (auto intro: pins_step_keeps)

text \<open>C27: an admitted epoch is never quietly reinterpreted. When two tasks of a run both pass the fence, with whatever other
  tasks, clean-ups and re-accepts between them, also ones that die between their file writes, their inputs have the same digest, or the history holds a record,
  written in between, that retires the first inputs and names the actor and the reason.\<close>

theorem epoch_not_reinterpreted:
  assumes "prepare fr triage w bp i True now binding s = (Inr (), s1)" and "pins_step\<^sup>*\<^sup>* s1 s2"
    and "prepare fr' triage' w' bp' i' True now' binding' s2 = (Inr (), s3)"
  shows "inputs_digest (snapshot fr w (Some bp) i (binding_cell binding) (binding_epoch binding) (binding_managed binding))
         = inputs_digest (snapshot fr' w' (Some bp') i' (binding_cell binding') (binding_epoch binding') (binding_managed binding'))
     \<or> (\<exists>actor reason. actor \<noteq> [] \<and> reason \<noteq> []
          \<and> HistorySuperseded actor reason
              (inputs_digest (snapshot fr w (Some bp) i (binding_cell binding) (binding_epoch binding) (binding_managed binding)))
             \<in> set (drop (length (rp_history s1)) (rp_history s2)))"
proof -
  let ?d = "inputs_digest (snapshot fr w (Some bp) i (binding_cell binding) (binding_epoch binding) (binding_managed binding))"
  let ?c = "snapshot fr' w' (Some bp') i' (binding_cell binding') (binding_epoch binding') (binding_managed binding')"
  obtain a t where a: "admit now (snapshot fr w (Some bp) i (binding_cell binding) (binding_epoch binding) (binding_managed binding)) s = (Inr a, t)"
    "s1 = (case binding of None \<Rightarrow> t | Some b \<Rightarrow> t\<lparr>rp_cell := Holds b\<rparr>)"
    using prepare_Inr[OF assms(1)] by blast
  have "rp_pin s1 = Holds a \<and> inputs_digest a = ?d" using admit_Inr(1,3)[OF a(1)] a(2) by (simp split: option.splits)
  then have "holds_or_superseded (length (rp_history s1)) ?d s1" by (simp add: holds_or_superseded_def)
  from pins_steps_keep[OF assms(2) this] have k: "holds_or_superseded (length (rp_history s1)) ?d s2" .
  obtain c u where c: "admit now' ?c s2 = (Inr c, u)" using prepare_Inr[OF assms(3)] by blast
  have "inputs_digest p = inputs_digest ?c" if "rp_pin s2 = Holds p" for p
    using admit_Inr(1,5)[OF c] that by (cases "p = c") auto
  then show ?thesis using k unfolding holds_or_superseded_def by metis
qed

text \<open>The writes of an admission are separate. A crash after the first leaves a pin without its time, which later
  contexts accept as it is; the check of the answer's time is then off for the rest of the run.\<close>

lemma admit_crash_waives_answer_time:
  assumes "rp_admitted_at s = Missing"
  shows "admit now a (write_pin a s) = (Inr a, write_pin a s) \<and> \<not> answered_before_admission later (write_pin a s) (Some t)"
  using assms by (simp add: admit_def stored_def pin_writes answered_before_admission_def admitted_at_def)

text \<open>Likewise a crash while a pin is retired, and another after the next pin is written, leave the digest of the
  retired inputs beside the new ones.\<close>

lemma crash_keeps_old_digest:
  assumes "rp_digest s = Some d" and "ai_schema a = SCHEMA_VERSION"
  shows "pinned_digest (write_pin a (s\<lparr>rp_pin := Missing\<rparr>)) = Inr (Some (py_strip d))
     \<and> require_inputs (write_pin a (s\<lparr>rp_pin := Missing\<rparr>)) = Inr a"
  using assms by (simp add: pinned_digest_def require_inputs_def stored_def pin_writes)

text \<open>Cleanup writes the binding of the Cell without passing the fence.\<close>

lemma cleanup_rewrites_binding:
  "rp_cell (snd (prepare fr triage w bp i False now (Some b) s)) = Holds b"
  by (simp add: prepare_def prepare_checks_def Let_def)

section \<open>A run\<close>

definition demo_worker :: worker where
  "demo_worker = \<lparr>wk_setting = (\<lambda>n. JNull), wk_gate_replay = None, wk_agent = ''scripted'', wk_blueprint = ''factory'', wk_repo = ''a/b'',
     wk_target_dir = [], wk_base_branch = ''main'', wk_file = (\<lambda>p. None), wk_prompt = (\<lambda>n. Some n), wk_factory_file = (\<lambda>n. None),
     wk_agent_policies = [], wk_revision = [], wk_external = JNull\<rparr>"

definition demo_blueprint :: blueprint where
  "demo_blueprint = \<lparr>bp_order = [''intent'', ''plan'', ''deliver''], bp_gates = [\<lparr>ga_name = ''plan'', ga_artifact = ''plan.md'', ga_mode = HumanGate\<rparr>],
     bp_review_policy = ''REVIEW.md'', bp_dump = JObj []\<rparr>"

definition demo_issue :: "string \<Rightarrow> issue" where
  "demo_issue body = \<lparr>is_id = ''7'', is_title = ''t'', is_body = body, is_labels = [], is_url = None, is_state = ''open''\<rparr>"

definition empty_pins :: run_pins where
  "empty_pins = \<lparr>rp_pin = Missing, rp_digest = None, rp_admitted_at = Missing, rp_history = [], rp_cell = Missing\<rparr>"

definition demo_snapshot :: "string \<Rightarrow> accepted_inputs" where
  "demo_snapshot body = snapshot (\<lambda>r. []) demo_worker (Some demo_blueprint) (demo_issue body) None None False"

definition demo_pins :: "time \<Rightarrow> string \<Rightarrow> run_pins \<Rightarrow> run_pins" where
  "demo_pins now body s = run_writes (admit_writes now (demo_snapshot body)) s"

lemma demo_prepare:
  "rp_pin s = Missing \<Longrightarrow>
   prepare (\<lambda>r. []) (\<lambda>i r. None) demo_worker demo_blueprint (demo_issue body) True now None s = (Inr (), demo_pins now body s)"
  by (simp add: prepare_def prepare_checks_def demo_issue_def demo_blueprint_def binding_cell_def binding_epoch_def binding_managed_def
      admit_def stored_def demo_pins_def demo_snapshot_def Let_def)

theorem epoch_not_reinterpreted_witness:
  "let s2 = snd (reaccept ''bob'' ''scope changed'' (demo_pins 1 ''old'' empty_pins)) in
   inputs_digest (demo_snapshot ''old'') = inputs_digest (demo_snapshot ''new'')
   \<or> (\<exists>actor reason. actor \<noteq> [] \<and> reason \<noteq> [] \<and> HistorySuperseded actor reason (inputs_digest (demo_snapshot ''old'')) \<in> set (drop 1 (rp_history s2)))"
proof -
  let ?s1 = "demo_pins 1 ''old'' empty_pins"
  let ?s2 = "snd (reaccept ''bob'' ''scope changed'' ?s1)"
  have h: "length (rp_history ?s1) = 1" by (simp add: demo_pins_def pin_writes empty_pins_def)
  have p: "rp_pin ?s2 = Missing"
    by (simp add: reaccept_def require_inputs_def stored_def demo_pins_def pin_writes empty_pins_def pins_managed_def py_strip_def is_space_def)
  have step: "pins_step\<^sup>*\<^sup>* ?s1 ?s2" by (rule r_into_rtranclp, rule pins_step.step_reaccept[OF prod.collapse[symmetric]])
  have start: "rp_pin empty_pins = Missing" by (simp add: empty_pins_def)
  show ?thesis
    using epoch_not_reinterpreted[OF demo_prepare[OF start, of "''old''" 1] step demo_prepare[OF p, of "''new''" 2]]
    by (simp add: demo_snapshot_def binding_cell_def binding_epoch_def binding_managed_def h Let_def)
qed

end
