(* ===== verification/Approvals.thy ===== *)
theory Approvals
  imports AcceptedInputs Cells
begin

text \<open>
  Who may satisfy a release gate: \<open>src/src/swfactory/approval_policy.py\<close>, the \<open>Approval\<close> model of \<open>models.py\<close>, and the
  recording and validation of decisions in \<open>stages.py\<close> (\<open>cli_approver\<close>, \<open>cell_evidence\<close>, \<open>_record_approval\<close>,
  \<open>_load_approvals\<close>, \<open>_validate_approvals\<close>).

  A response of the approval operator is absent, no mapping, or the three fields the code reads. Times are UTC; the
  parser of ISO texts is \<open>ge_iso\<close>, the reader of the fixture file is \<open>ge_read\<close> (\<open>None\<close> when the file cannot be
  read or is no JSON), and the revision of the autonomous policy is \<open>revision\<close>. Artifacts are the texts below the
  artifact directory, by name. An entry of \<open>approvals.json\<close> is an approval or a malformed item with the gate it names.

  The theorems show what a decision can come from, that recorded decisions are well-formed, and that publication rests
  on a decision for every gate over this artifact, Cell epoch and inputs, given after these inputs were admitted.
\<close>

section \<open>Decisions\<close>

datatype decision = Approve | Reject

datatype approval_mode = ByHuman | ByDefault | ByReplay | ByPolicy

record approval =
  ap_gate :: string
  ap_decision :: decision
  ap_actor :: string
  ap_at :: time
  ap_artifact :: "string option"
  ap_mode :: approval_mode
  ap_cell :: "string option"
  ap_epoch :: "int option"
  ap_inputs :: "string option"
  ap_responded_at :: "time option"

datatype gate_error =
    GateAutoNotBool
  | GateModeUnknown
  | GateModeContradicts
  | PolicyGateNeedsBackend
  | FixtureUnreadable
  | FixtureNotObject
  | FixtureEntry string
  | FixtureRefused string
  | NoResponse
  | ResponseMalformed
  | NoSingleOption
  | NoIdentity
  | ReservedActor string
  | NoAnswerTime
  | InvalidApproval
  | ApproveByConfiguration
  | RecordedForGate string
  | RecordedForInputs
  | RecordedForCell
  | NoPolicyDecision
  | StalePolicyAuthority
  | AutomaticOnHuman
  | ReplayOnManaged
  | HumanUnderReserved
  | UnknownGate string
  | ArtifactMissing string
  | ArtifactChanged
  | ArtifactMismatch string
  | CellBindingInvalid
  | BoundToCell
  | AnsweredBeforeAdmission
  | ApprovalsNotList
  | ApprovalsInvalid
  | DuplicateDecision string
  | UnknownGates "string list"
  | MissingDecision string
  | OutOfSequence "string list"
  | InputsError inputs_error

definition AUTO_ACTOR :: string where
  "AUTO_ACTOR = ''auto''"

definition REPLAY_ACTOR_PREFIX :: string where
  "REPLAY_ACTOR_PREFIX = ''replay:''"

text \<open>The constraints the boundary model declares; a construction that violates them raises.\<close>

definition approval_ok :: "approval \<Rightarrow> bool" where
  "approval_ok a =
     (ap_gate a \<in> set [''intent'', ''plan''] \<and> ap_actor a \<noteq> []
      \<and> (case ap_artifact a of None \<Rightarrow> True | Some d \<Rightarrow> hex64 d)
      \<and> (case ap_epoch a of None \<Rightarrow> True | Some e \<Rightarrow> 1 \<le> e)
      \<and> (case ap_inputs a of None \<Rightarrow> True | Some d \<Rightarrow> startswith d ''inputs:'' \<and> hex64 (drop 7 d)))"

definition mk_approval ::
  "string \<Rightarrow> decision \<Rightarrow> string \<Rightarrow> time \<Rightarrow> approval_mode \<Rightarrow> time option \<Rightarrow> gate_error + approval" where
  "mk_approval g d actor now mode responded =
     (let a = \<lparr>ap_gate = g, ap_decision = d, ap_actor = actor, ap_at = now, ap_artifact = None, ap_mode = mode,
               ap_cell = None, ap_epoch = None, ap_inputs = None, ap_responded_at = responded\<rparr> in
      if approval_ok a then Inr a else Inl InvalidApproval)"

section \<open>The declared mode of a gate\<close>

definition declared_mode :: "json \<Rightarrow> gate_error + gate_mode" where
  "declared_mode spec =
     (let mode = jget0 ''mode'' spec; auto = jget0 ''auto'' spec in
      if auto \<noteq> JNull \<and> auto \<noteq> JBool True \<and> auto \<noteq> JBool False then Inl GateAutoNotBool
      else if mode = JNull then Inr (if auto = JBool True then AutoGate else HumanGate)
      else if mode \<noteq> JStr ''human'' \<and> mode \<noteq> JStr ''auto'' \<and> mode \<noteq> JStr ''policy'' then Inl GateModeUnknown
      else if auto \<noteq> JNull \<and> auto \<noteq> JBool (mode = JStr ''auto'') then Inl GateModeContradicts
      else Inr (if mode = JStr ''auto'' then AutoGate else if mode = JStr ''policy'' then PolicyGate else HumanGate))"

section \<open>Responses\<close>

definition actor_of :: "json \<Rightarrow> string option" where
  "actor_of user =
     (let v = (if is_jobj user then py_or (jget0 ''name'' user) (jget0 ''id'' user) else user) in
      case v of JStr s \<Rightarrow> if py_strip s = [] then None else Some (py_strip s) | _ \<Rightarrow> None)"

fun fixture_entry :: "json \<Rightarrow> (decision \<times> string) option" where
  "fixture_entry e =
     (case (if is_jobj e then jget0 ''decision'' e else JNull, if is_jobj e then jget0 ''actor'' e else JNull) of
        (JStr d, JStr actor) \<Rightarrow>
          if (d = ''approve'' \<or> d = ''reject'') \<and> py_strip actor \<noteq> []
          then Some (if d = ''approve'' then Approve else Reject, py_strip actor) else None
      | _ \<Rightarrow> None)"

fun fixture_entries :: "(string \<times> json) list \<Rightarrow> gate_error + (string \<times> decision \<times> string) list" where
  "fixture_entries [] = Inr []"
| "fixture_entries ((g, e) # rest) =
     (case fixture_entry e of
        None \<Rightarrow> Inl (FixtureEntry g)
      | Some x \<Rightarrow> (case fixture_entries rest of Inl err \<Rightarrow> Inl err | Inr xs \<Rightarrow> Inr ((g, x) # xs)))"

definition load_replay_fixture ::
  "(string \<Rightarrow> json option) \<Rightarrow> string option \<Rightarrow> gate_error + (string \<times> decision \<times> string) list option" where
  "load_replay_fixture read path =
     (case path of
        None \<Rightarrow> Inr None
      | Some p \<Rightarrow>
          if p = [] then Inr None
          else (case read p of
                  None \<Rightarrow> Inl FixtureUnreadable
                | Some (JObj kvs) \<Rightarrow> (case fixture_entries kvs of Inl e \<Rightarrow> Inl e | Inr xs \<Rightarrow> Inr (Some xs))
                | Some v \<Rightarrow> Inl FixtureNotObject))"

definition replay_refusal :: "bool \<Rightarrow> string \<Rightarrow> string option" where
  "replay_refusal managed scm =
     (if managed then Some ''a backend-managed Cell''
      else if scm \<noteq> ''local'' then Some (''a run publishing through scm '' @ [CHR 0x27] @ scm @ [CHR 0x27])
      else None)"

definition replay_approval ::
  "(string \<Rightarrow> json option) \<Rightarrow> time \<Rightarrow> string \<Rightarrow> string option \<Rightarrow> bool \<Rightarrow> string \<Rightarrow> gate_error + approval option" where
  "replay_approval read now g path managed scm =
     (case load_replay_fixture read path of
        Inl e \<Rightarrow> Inl e
      | Inr None \<Rightarrow> Inr None
      | Inr (Some fixture) \<Rightarrow>
          (case replay_refusal managed scm of
             Some r \<Rightarrow> Inl (FixtureRefused r)
           | None \<Rightarrow>
               (case map_of fixture g of
                  None \<Rightarrow> Inr None
                | Some (d, actor) \<Rightarrow>
                    (case mk_approval g d (REPLAY_ACTOR_PREFIX @ actor) now ByReplay None of
                       Inl e \<Rightarrow> Inl e | Inr a \<Rightarrow> Inr (Some a)))))"

datatype answer_time = NoTime | TimeText string | TimeValue time

datatype response = NoAnswer | NotMapping | Answer json json answer_time

definition responded_at :: "(string \<Rightarrow> time option) \<Rightarrow> answer_time \<Rightarrow> time option" where
  "responded_at isot t = (case t of NoTime \<Rightarrow> None | TimeText s \<Rightarrow> isot s | TimeValue v \<Rightarrow> Some v)"

definition reserved_actor :: "string \<Rightarrow> bool" where
  "reserved_actor actor =
     (let folded = casefold actor in
      folded = casefold AUTO_ACTOR \<or> startswith folded (casefold REPLAY_ACTOR_PREFIX) \<or> startswith folded ''policy:'')"

definition chosen_decision :: "json \<Rightarrow> decision option" where
  "chosen_decision chosen =
     (if chosen = JArr [JStr ''Approve''] then Some Approve
      else if chosen = JArr [JStr ''Reject''] then Some Reject else None)"

record gate_env =
  ge_read :: "string \<Rightarrow> json option"
  ge_iso :: "string \<Rightarrow> time option"
  ge_fixture :: "string option"
  ge_scm :: string
  ge_approve :: string

definition approval_from_response ::
  "gate_env \<Rightarrow> time \<Rightarrow> string \<Rightarrow> gate_mode \<Rightarrow> bool \<Rightarrow> response \<Rightarrow> gate_error + approval" where
  "approval_from_response ge now g gmode managed response =
     (if gmode = PolicyGate then Inl PolicyGateNeedsBackend
      else case response of
        NoAnswer \<Rightarrow>
          (case replay_approval (ge_read ge) now g (ge_fixture ge) managed (ge_scm ge) of
             Inl e \<Rightarrow> Inl e | Inr (Some a) \<Rightarrow> Inr a | Inr None \<Rightarrow> Inl NoResponse)
      | NotMapping \<Rightarrow> Inl ResponseMalformed
      | Answer chosen user t \<Rightarrow>
          (case chosen_decision chosen of
             None \<Rightarrow> Inl NoSingleOption
           | Some d \<Rightarrow>
               (case actor_of user of
                  None \<Rightarrow> if gmode \<noteq> AutoGate then Inl NoIdentity else mk_approval g d AUTO_ACTOR now ByDefault None
                | Some actor \<Rightarrow>
                    if reserved_actor actor then Inl (ReservedActor actor)
                    else (case responded_at (ge_iso ge) t of
                            None \<Rightarrow> Inl NoAnswerTime
                          | Some answered \<Rightarrow> mk_approval g d actor now ByHuman (Some answered)))))"

section \<open>Re-checking a recorded decision\<close>

definition check_recorded ::
  "string \<Rightarrow> string \<Rightarrow> gate_mode \<Rightarrow> approval \<Rightarrow> bool \<Rightarrow> string option \<Rightarrow> int option \<Rightarrow> string option \<Rightarrow> gate_error option" where
  "check_recorded revision g gmode a managed cell epoch inputs =
     (if ap_gate a \<noteq> g then Some (RecordedForGate (ap_gate a))
      else if ap_inputs a \<noteq> inputs then Some RecordedForInputs
      else if ap_cell a \<noteq> cell \<or> ap_epoch a \<noteq> epoch then Some RecordedForCell
      else if gmode = PolicyGate \<and> (ap_mode a \<noteq> ByPolicy \<or> \<not> startswith (ap_actor a) ''policy:'') then Some NoPolicyDecision
      else if ap_mode a = ByPolicy \<and> (\<not> managed \<or> gmode \<noteq> PolicyGate \<or> ap_actor a \<noteq> ''policy:'' @ revision) then Some StalePolicyAuthority
      else if gmode = HumanGate \<and> (ap_mode a = ByDefault \<or> ap_mode a = ByPolicy) then Some AutomaticOnHuman
      else if ap_mode a = ByReplay \<and> managed then Some ReplayOnManaged
      else if ap_mode a = ByHuman \<and> (ap_actor a = AUTO_ACTOR \<or> startswith (ap_actor a) REPLAY_ACTOR_PREFIX) then Some HumanUnderReserved
      else None)"

section \<open>The Cell binding of a job\<close>

datatype binding_error =
    BadCellId
  | BadCellEpoch
  | BadManagedFlag
  | SealsInXCom
  | AuthorityUnreachable
  | AuthorityInvalid
  | StaleEpoch
  | BadPolicyDigest
  | BadGeneration
  | NoPolicyDigest
  | BadJobIndex

text \<open>\<open>inspect\<close> is the backend's answer for a Cell, when a backend is configured; \<open>pyint\<close> is \<open>int(...)\<close>.\<close>

definition binding_seals :: "(string \<Rightarrow> json option) option \<Rightarrow> string \<Rightarrow> int \<Rightarrow> bool \<Rightarrow> json \<Rightarrow> json \<Rightarrow> binding_error + json \<times> json" where
  "binding_seals inspect cell e m digest generation =
     (case inspect of
        None \<Rightarrow> Inr (digest, generation)
      | Some ask \<Rightarrow>
          if \<not> m then Inr (digest, generation)
          else if digest \<noteq> JNull \<or> generation \<noteq> JNull then Inl SealsInXCom
          else (case ask cell of
                  None \<Rightarrow> Inl AuthorityUnreachable
                | Some doc \<Rightarrow>
                    if \<not> is_jobj doc \<or> jget0 ''cell_id'' doc \<noteq> JStr cell then Inl AuthorityInvalid
                    else if jget0 ''epoch'' doc \<noteq> JInt e then Inl StaleEpoch
                    else Inr (jget0 ''policy_digest'' doc, jget0 ''factory_generation'' doc)))"

definition binding_doc :: "(json \<Rightarrow> int option) \<Rightarrow> json \<Rightarrow> string \<Rightarrow> int \<Rightarrow> bool \<Rightarrow> json \<Rightarrow> json \<Rightarrow> binding_error + json" where
  "binding_doc pyint job cell e m d gen =
     (if \<not> (case d of JNull \<Rightarrow> True | JStr t \<Rightarrow> startswith t ''policy:'' | _ \<Rightarrow> False) then Inl BadPolicyDigest
      else if \<not> (case gen of JNull \<Rightarrow> True | JStr t \<Rightarrow> True | _ \<Rightarrow> False) then Inl BadGeneration
      else if m \<and> d = JNull then Inl NoPolicyDigest
      else case pyint (jget_or ''job_idx'' (JInt 0) job) of
        None \<Rightarrow> Inl BadJobIndex
      | Some idx \<Rightarrow> Inr (JObj [(''schema_version'', JInt 1), (''cell_id'', JStr cell), (''epoch'', JInt e),
          (''managed'', JBool m), (''job_idx'', JInt idx), (''policy_digest'', d), (''factory_generation'', gen)]))"

definition cell_binding ::
  "(string \<Rightarrow> json option) option \<Rightarrow> (json \<Rightarrow> int option) \<Rightarrow> (json \<Rightarrow> string) \<Rightarrow> json \<Rightarrow> binding_error + json option" where
  "cell_binding inspect pyint rep job =
     (let raw = jget0 ''cell_id'' job; cell = py_strip (py_str rep raw) in
      if raw = JNull \<or> raw = JStr [] then Inr None
      else if \<not> is_cell_id cell then Inl BadCellId
      else case jget0 ''cell_epoch'' job of
        JInt e \<Rightarrow>
          if e < 1 then Inl BadCellEpoch
          else (case jget_or ''cell_managed'' (JBool False) job of
                  JBool m \<Rightarrow>
                    (case binding_seals inspect cell e m (jget0 ''cell_policy_digest'' job) (jget0 ''cell_generation'' job) of
                       Inl err \<Rightarrow> Inl err
                     | Inr (d, gen) \<Rightarrow> map_sum id Some (binding_doc pyint job cell e m d gen))
                | _ \<Rightarrow> Inl BadManagedFlag)
      | _ \<Rightarrow> Inl BadCellEpoch)"

section \<open>Recording\<close>

datatype approval_entry = Entry approval | Malformed "string option"

datatype approvals_file = NoApprovals | Approvals "approval_entry list" | NotAList

record run =
  ru_pins :: run_pins
  ru_artifact :: "string \<Rightarrow> string option"
  ru_approvals :: approvals_file

definition cell_evidence :: "run_pins \<Rightarrow> gate_error + string option \<times> int option \<times> bool" where
  "cell_evidence s =
     (case rp_cell s of
        Missing \<Rightarrow> Inr (None, None, False)
      | Unreadable \<Rightarrow> Inl CellBindingInvalid
      | Holds v \<Rightarrow>
          if \<not> is_jobj v then Inl CellBindingInvalid
          else Inr (case jget0 ''cell_id'' v of JStr c \<Rightarrow> Some c | _ \<Rightarrow> None,
                    case jget0 ''epoch'' v of JInt e \<Rightarrow> Some e | JBool b \<Rightarrow> Some (if b then 1 else 0) | _ \<Rightarrow> None,
                    py_truthy (jget0 ''managed'' v)))"

definition gate_artifact :: "gate list \<Rightarrow> string \<Rightarrow> gate_error + string" where
  "gate_artifact gates name =
     (case List.find (\<lambda>g. ga_name g = name) gates of None \<Rightarrow> Inl (UnknownGate name) | Some g \<Rightarrow> Inr (ga_artifact g))"

definition artifact_sha256 :: "run \<Rightarrow> string \<Rightarrow> gate_error + string" where
  "artifact_sha256 r name = (case ru_artifact r name of None \<Rightarrow> Inl (ArtifactMissing name) | Some t \<Rightarrow> Inr (sha256_hex t))"

definition entry_gate :: "approval_entry \<Rightarrow> string option" where
  "entry_gate e = (case e of Entry a \<Rightarrow> Some (ap_gate a) | Malformed g \<Rightarrow> g)"

definition stamp_approval :: "string \<Rightarrow> string option \<Rightarrow> int option \<Rightarrow> string \<Rightarrow> approval \<Rightarrow> approval" where
  "stamp_approval digest cell epoch inputs a =
     a\<lparr>ap_artifact := Some digest, ap_cell := cell, ap_epoch := epoch, ap_inputs := Some inputs\<rparr>"

definition record_checks ::
  "time \<Rightarrow> gate list \<Rightarrow> approval \<Rightarrow> run \<Rightarrow> gate_error + approval" where
  "record_checks now gates a r =
     (case gate_artifact gates (ap_gate a) of
        Inl e \<Rightarrow> Inl e
      | Inr artifact \<Rightarrow>
          (case artifact_sha256 r artifact of
             Inl e \<Rightarrow> Inl e
           | Inr digest \<Rightarrow>
               (case cell_evidence (ru_pins r) of
                  Inl e \<Rightarrow> Inl e
                | Inr (cell, epoch, managed) \<Rightarrow>
                    (case require_inputs (ru_pins r) of
                       Inl e \<Rightarrow> Inl (InputsError e)
                     | Inr ai \<Rightarrow>
                         let inputs = inputs_digest ai in
                         if ap_cell a \<noteq> None \<and> ap_cell a \<noteq> cell \<or> ap_epoch a \<noteq> None \<and> ap_epoch a \<noteq> epoch then Inl BoundToCell
                         else if ap_artifact a \<noteq> None \<and> ap_artifact a \<noteq> Some digest then Inl ArtifactChanged
                         else if ap_responded_at a \<noteq> None \<and> answered_before_admission now (ru_pins r) (ap_responded_at a)
                           then Inl AnsweredBeforeAdmission
                         else if ap_inputs a \<noteq> None \<and> ap_inputs a \<noteq> Some inputs then Inl RecordedForInputs
                         else Inr (stamp_approval digest cell epoch inputs a)))))"

definition record_approval :: "time \<Rightarrow> gate list \<Rightarrow> approval \<Rightarrow> run \<Rightarrow> (gate_error + unit) \<times> run" where
  "record_approval now gates a r =
     (case record_checks now gates a r of
        Inl e \<Rightarrow> (Inl e, r)
      | Inr a' \<Rightarrow>
          (case ru_approvals r of
             NotAList \<Rightarrow> (Inl ApprovalsNotList, r)
           | f \<Rightarrow>
               let items = (case f of Approvals es \<Rightarrow> es | _ \<Rightarrow> []) in
               (Inr (), r\<lparr>ru_approvals := Approvals (filter (\<lambda>e. entry_gate e \<noteq> Some (ap_gate a')) items @ [Entry a'])\<rparr>)))"

text \<open>The local approver. The answers of the backend for a policy gate and of the person at the terminal are arguments.\<close>

definition cli_approver ::
  "gate_env \<Rightarrow> time \<Rightarrow> gate \<Rightarrow> run \<Rightarrow> (gate_error + approval) \<Rightarrow> bool \<Rightarrow> string \<Rightarrow> gate_error + approval" where
  "cli_approver ge now g r backend confirmed user =
     (if ga_mode g = PolicyGate then backend
      else if ga_mode g = AutoGate then mk_approval (ga_name g) Approve AUTO_ACTOR now ByDefault None
      else case cell_evidence (ru_pins r) of
        Inl e \<Rightarrow> Inl e
      | Inr (cell, epoch, managed) \<Rightarrow>
          (case replay_approval (ge_read ge) now (ga_name g) (ge_fixture ge) managed (ge_scm ge) of
             Inl e \<Rightarrow> Inl e
           | Inr (Some a) \<Rightarrow> Inr a
           | Inr None \<Rightarrow>
               if ge_approve ge = ''auto'' then Inl ApproveByConfiguration
               else case ru_artifact r (ga_artifact g) of
                 None \<Rightarrow> Inl (ArtifactMissing (ga_artifact g))
               | Some t \<Rightarrow> mk_approval (ga_name g) (if confirmed then Approve else Reject) user now ByHuman None))"

section \<open>Validation before publication\<close>

fun entry_approvals :: "approval_entry list \<Rightarrow> approval list option" where
  "entry_approvals [] = Some []"
| "entry_approvals (Entry a # es) = map_option ((#) a) (entry_approvals es)"
| "entry_approvals (Malformed g # es) = None"

definition load_approvals :: "run \<Rightarrow> gate_error + approval list" where
  "load_approvals r =
     (case ru_approvals r of
        NoApprovals \<Rightarrow> Inr []
      | NotAList \<Rightarrow> Inl ApprovalsNotList
      | Approvals es \<Rightarrow>
          (case entry_approvals es of
             None \<Rightarrow> Inl ApprovalsInvalid
           | Some as \<Rightarrow> if list_all approval_ok as then Inr as else Inl ApprovalsInvalid))"

fun first_repeat :: "string list \<Rightarrow> string list \<Rightarrow> string option" where
  "first_repeat seen [] = None"
| "first_repeat seen (x # xs) = (if x \<in> set seen then Some x else first_repeat (x # seen) xs)"

fun validate_gates ::
  "string \<Rightarrow> run \<Rightarrow> approval list \<Rightarrow> string option \<Rightarrow> int option \<Rightarrow> bool \<Rightarrow> string \<Rightarrow> gate list \<Rightarrow> string list
     \<Rightarrow> gate_error + string list \<times> string option" where
  "validate_gates revision r as cell epoch managed inputs [] done = Inr (done, None)"
| "validate_gates revision r as cell epoch managed inputs (g # gs) done =
     (case List.find (\<lambda>a. ap_gate a = ga_name g) as of
        None \<Rightarrow> Inl (MissingDecision (ga_name g))
      | Some a \<Rightarrow>
          (case artifact_sha256 r (ga_artifact g) of
             Inl e \<Rightarrow> Inl e
           | Inr expected \<Rightarrow>
               if ap_artifact a \<noteq> Some expected then Inl (ArtifactMismatch (ga_name g))
               else case check_recorded revision (ga_name g) (ga_mode g) a managed cell epoch (Some inputs) of
                 Some e \<Rightarrow> Inl e
               | None \<Rightarrow>
                   if ap_decision a = Reject then Inr (ga_name g # done, Some (ga_name g))
                   else validate_gates revision r as cell epoch managed inputs gs (ga_name g # done)))"

definition validate_approvals :: "string \<Rightarrow> gate list \<Rightarrow> run \<Rightarrow> approval list \<Rightarrow> gate_error + string option" where
  "validate_approvals revision gates r as =
     (case first_repeat [] (map ap_gate as) of
        Some g \<Rightarrow> Inl (DuplicateDecision g)
      | None \<Rightarrow>
          let unknown = sort (filter (\<lambda>n. n \<notin> ga_name ` set gates) (remdups (map ap_gate as))) in
          if unknown \<noteq> [] then Inl (UnknownGates unknown)
          else case cell_evidence (ru_pins r) of
            Inl e \<Rightarrow> Inl e
          | Inr (cell, epoch, managed) \<Rightarrow>
              (case require_inputs (ru_pins r) of
                 Inl e \<Rightarrow> Inl (InputsError e)
               | Inr ai \<Rightarrow>
                   (case validate_gates revision r as cell epoch managed (inputs_digest ai) gates [] of
                      Inl e \<Rightarrow> Inl e
                    | Inr (done, rejected) \<Rightarrow>
                        let extra = sort (filter (\<lambda>n. n \<notin> set done) (remdups (map ap_gate as))) in
                        if extra \<noteq> [] then Inl (OutOfSequence extra) else Inr rejected)))"

text \<open>The gate part of \<open>deliver\<close>: load, then validate.\<close>

definition delivery_gate :: "string \<Rightarrow> gate list \<Rightarrow> run \<Rightarrow> gate_error + string option" where
  "delivery_gate revision gates r =
     (case load_approvals r of Inl e \<Rightarrow> Inl e | Inr as \<Rightarrow> validate_approvals revision gates r as)"

section \<open>Where a decision comes from\<close>

lemma mk_approval_Inr:
  "mk_approval g d actor now mode responded = Inr a \<longleftrightarrow>
     a = \<lparr>ap_gate = g, ap_decision = d, ap_actor = actor, ap_at = now, ap_artifact = None, ap_mode = mode,
          ap_cell = None, ap_epoch = None, ap_inputs = None, ap_responded_at = responded\<rparr> \<and> approval_ok a"
  by (auto simp: mk_approval_def Let_def)

lemma replay_approval_Some:
  assumes "replay_approval read now g path managed scm = Inr (Some a)"
  shows "\<not> managed \<and> scm = ''local'' \<and> ap_mode a = ByReplay \<and> ap_gate a = g \<and> ap_responded_at a = None \<and> approval_ok a
     \<and> (\<exists>fixture actor. load_replay_fixture read path = Inr (Some fixture) \<and> map_of fixture g = Some (ap_decision a, actor)
            \<and> ap_actor a = REPLAY_ACTOR_PREFIX @ actor)"
  using assms
  by (auto simp: replay_approval_def replay_refusal_def mk_approval_Inr split: sum.splits option.splits if_splits)

text \<open>A decision has one of three sources. With no response, only the declared fixture can answer, for a run
  that is not managed and publishes locally. A response chooses exactly one of the two options; without an identity it
  counts only on a gate declared automatic, and with one it is recorded as a human answer under that identity, which is
  none of the runtime's own names in any spelling, with the time of the answer. Policy gates are never answered here.\<close>

theorem approval_provenance:
  assumes "approval_from_response ge now g gmode managed response = Inr a"
  shows "gmode \<noteq> PolicyGate \<and> ap_gate a = g \<and> approval_ok a
    \<and> (case response of
         NoAnswer \<Rightarrow> ap_mode a = ByReplay \<and> \<not> managed \<and> ge_scm ge = ''local''
           \<and> (\<exists>fixture actor. load_replay_fixture (ge_read ge) (ge_fixture ge) = Inr (Some fixture)
                \<and> map_of fixture g = Some (ap_decision a, actor) \<and> ap_actor a = REPLAY_ACTOR_PREFIX @ actor)
       | NotMapping \<Rightarrow> False
       | Answer chosen user t \<Rightarrow> chosen_decision chosen = Some (ap_decision a)
           \<and> (case actor_of user of
                None \<Rightarrow> ap_mode a = ByDefault \<and> gmode = AutoGate \<and> ap_actor a = AUTO_ACTOR
              | Some actor \<Rightarrow> ap_mode a = ByHuman \<and> ap_actor a = actor \<and> \<not> reserved_actor actor
                  \<and> responded_at (ge_iso ge) t \<noteq> None \<and> ap_responded_at a = responded_at (ge_iso ge) t))"
proof (cases response)
  case NoAnswer
  then have "gmode \<noteq> PolicyGate" "replay_approval (ge_read ge) now g (ge_fixture ge) managed (ge_scm ge) = Inr (Some a)"
    using assms by (auto simp: approval_from_response_def split: if_splits sum.splits option.splits)
  then show ?thesis using replay_approval_Some[of "ge_read ge" now g "ge_fixture ge" managed "ge_scm ge" a] NoAnswer by auto
next
  case NotMapping
  then show ?thesis using assms by (simp add: approval_from_response_def split: if_splits)
next
  case (Answer chosen user t)
  then show ?thesis using assms
    by (auto simp: approval_from_response_def mk_approval_Inr split: if_splits option.splits)
qed

definition demo_env :: gate_env where
  "demo_env = \<lparr>ge_read = (\<lambda>p. None), ge_iso = (\<lambda>t. if t = ''2026-01-02'' then Some 20 else None), ge_fixture = None, ge_scm = ''github'',
     ge_approve = ''prompt''\<rparr>"

lemma demo_answer:
  "approval_from_response demo_env 21 ''plan'' HumanGate True
      (Answer (JArr [JStr ''Approve'']) (JObj [(''name'', JStr '' alice '')]) (TimeText ''2026-01-02'')) =
   Inr \<lparr>ap_gate = ''plan'', ap_decision = Approve, ap_actor = ''alice'', ap_at = 21, ap_artifact = None, ap_mode = ByHuman,
        ap_cell = None, ap_epoch = None, ap_inputs = None, ap_responded_at = Some 20\<rparr>"
  by (simp add: approval_from_response_def demo_env_def chosen_decision_def actor_of_def py_or_def jget_or_def reserved_actor_def
      py_strip_def is_space_def casefold_def to_lower_def AUTO_ACTOR_def REPLAY_ACTOR_PREFIX_def startswith_def responded_at_def
      mk_approval_def approval_ok_def Let_def)

theorem approval_provenance_witness:
  "\<not> reserved_actor ''alice'' \<and> responded_at (ge_iso demo_env) (TimeText ''2026-01-02'') \<noteq> None"
  using approval_provenance[OF demo_answer]
  by (simp add: actor_of_def py_or_def jget_or_def py_strip_def is_space_def split: option.splits)

section \<open>Runs\<close>

text \<open>The steps of a run directory. The second component remembers every admission, its time and the digest of the
  inputs, and the digests of the inputs whose admission died between its file writes.\<close>

record admissions =
  am_log :: "(time \<times> string) list"
  am_cut :: "string list"

definition log_admission :: "time \<Rightarrow> run_pins \<Rightarrow> run_pins \<Rightarrow> admissions \<Rightarrow> admissions" where
  "log_admission now s s' adm =
     (case (rp_pin s, rp_pin s') of (Missing, Holds a) \<Rightarrow> adm\<lparr>am_log := (now, inputs_digest a) # am_log adm\<rparr> | _ \<Rightarrow> adm)"

definition log_cut :: "run_pins \<Rightarrow> run_pins \<Rightarrow> admissions \<Rightarrow> admissions" where
  "log_cut s s' adm =
     (case (rp_pin s, rp_pin s') of (Missing, Holds a) \<Rightarrow> adm\<lparr>am_cut := inputs_digest a # am_cut adm\<rparr> | _ \<Rightarrow> adm)"

inductive run_step :: "gate list \<Rightarrow> run \<times> admissions \<Rightarrow> run \<times> admissions \<Rightarrow> bool" for gates where
  run_prepare: "cell_binding inspect pyint rep job = Inr binding
    \<Longrightarrow> prepare fr triage w bp i enforce now binding (ru_pins r) = (res, p)
    \<Longrightarrow> run_step gates (r, adm) (r\<lparr>ru_pins := p\<rparr>, log_admission now (ru_pins r) p adm)"
| run_prepare_dies: "p = prepare_dies n fr triage w bp i now binding (ru_pins r)
    \<Longrightarrow> run_step gates (r, adm) (r\<lparr>ru_pins := p\<rparr>, log_cut (ru_pins r) p adm)"
| run_reaccept: "reaccept actor reason (ru_pins r) = (res2, p) \<Longrightarrow> run_step gates (r, adm) (r\<lparr>ru_pins := p\<rparr>, adm)"
| run_reaccept_dies: "p = reaccept_dies n actor reason (ru_pins r) \<Longrightarrow> run_step gates (r, adm) (r\<lparr>ru_pins := p\<rparr>, adm)"
| run_artifact: "run_step gates (r, adm) (r\<lparr>ru_artifact := (ru_artifact r)(name := body)\<rparr>, adm)"
| run_record: "approval_ok a \<Longrightarrow> record_approval now gates a r = (res3, r') \<Longrightarrow> run_step gates (r, adm) (r', adm)"

definition new_run :: "run \<times> admissions \<Rightarrow> bool" where
  "new_run x = (x = (\<lparr>ru_pins = empty_pins, ru_artifact = Map.empty, ru_approvals = NoApprovals\<rparr>, \<lparr>am_log = [], am_cut = []\<rparr>))"

definition cell_ok :: "run_pins \<Rightarrow> bool" where
  "cell_ok s = (case cell_evidence s of Inl e \<Rightarrow> False | Inr (c, e, m) \<Rightarrow> (case e of None \<Rightarrow> True | Some n \<Rightarrow> 1 \<le> n))"

definition pins_inv :: "admissions \<Rightarrow> run_pins \<Rightarrow> bool" where
  "pins_inv adm s \<longleftrightarrow> cell_ok s
     \<and> (case rp_pin s of Missing \<Rightarrow> True | Unreadable \<Rightarrow> False
        | Holds p \<Rightarrow> inputs_digest p \<in> set (am_cut adm)
            \<or> (case rp_admitted_at s of Holds t0 \<Rightarrow> (t0, inputs_digest p) \<in> set (am_log adm) | _ \<Rightarrow> False))"

definition answered_after :: "admissions \<Rightarrow> approval \<Rightarrow> bool" where
  "answered_after adm a \<longleftrightarrow> (case ap_responded_at a of None \<Rightarrow> True
     | Some t \<Rightarrow> (\<exists>d. ap_inputs a = Some d \<and> (d \<in> set (am_cut adm) \<or> (\<exists>t0\<le>t. (t0, d) \<in> set (am_log adm)))))"

definition entry_inv :: "admissions \<Rightarrow> approval_entry \<Rightarrow> bool" where
  "entry_inv adm e = (case e of Malformed g \<Rightarrow> False | Entry a \<Rightarrow> approval_ok a \<and> answered_after adm a)"

definition entries :: "approvals_file \<Rightarrow> approval_entry list" where
  "entries f = (case f of Approvals es \<Rightarrow> es | _ \<Rightarrow> [])"

definition run_inv :: "run \<times> admissions \<Rightarrow> bool" where
  "run_inv x = (case x of (r, adm) \<Rightarrow> pins_inv adm (ru_pins r) \<and> ru_approvals r \<noteq> NotAList \<and> list_all (entry_inv adm) (entries (ru_approvals r)))"

lemma binding_doc_Inr:
  assumes "binding_doc pyint job cell e m d gen = Inr b"
  shows "is_jobj b \<and> jget0 ''cell_id'' b = JStr cell \<and> jget0 ''epoch'' b = JInt e \<and> jget0 ''managed'' b = JBool m"
proof -
  obtain idx where "b = JObj [(''schema_version'', JInt 1), (''cell_id'', JStr cell), (''epoch'', JInt e),
          (''managed'', JBool m), (''job_idx'', JInt idx), (''policy_digest'', d), (''factory_generation'', gen)]"
    using assms unfolding binding_doc_def by (simp split: if_splits option.splits) metis
  then show ?thesis by (simp add: jget_or_def)
qed

lemma binding_cell_ok:
  assumes "cell_binding inspect pyint rep job = Inr (Some b)"
  shows "\<exists>c e m. is_jobj b \<and> jget0 ''cell_id'' b = JStr c \<and> jget0 ''epoch'' b = JInt e \<and> 1 \<le> e \<and> jget0 ''managed'' b = JBool m"
proof -
  let ?cell = "py_strip (py_str rep (jget0 ''cell_id'' job))"
  obtain e where e: "jget0 ''cell_epoch'' job = JInt e" "\<not> e < 1"
    using assms by (cases "jget0 ''cell_epoch'' job") (auto simp: cell_binding_def Let_def split: if_splits)
  obtain m where m: "jget_or ''cell_managed'' (JBool False) job = JBool m"
    using assms e by (cases "jget_or ''cell_managed'' (JBool False) job") (auto simp: cell_binding_def Let_def split: if_splits)
  obtain d gen where "binding_seals inspect ?cell e m (jget0 ''cell_policy_digest'' job) (jget0 ''cell_generation'' job) = Inr (d, gen)"
    using assms e m
    by (cases "binding_seals inspect ?cell e m (jget0 ''cell_policy_digest'' job) (jget0 ''cell_generation'' job)")
       (auto simp: cell_binding_def Let_def split: if_splits)
  then have "binding_doc pyint job ?cell e m d gen = Inr b"
    using assms e m by (cases "binding_doc pyint job ?cell e m d gen") (auto simp: cell_binding_def Let_def split: if_splits)
  then show ?thesis using binding_doc_Inr e(2) by (meson not_less)
qed

definition admissions_grow :: "admissions \<Rightarrow> admissions \<Rightarrow> bool" where
  "admissions_grow adm adm' \<longleftrightarrow> set (am_log adm) \<subseteq> set (am_log adm') \<and> set (am_cut adm) \<subseteq> set (am_cut adm')"

lemma entry_inv_mono: "entry_inv adm e \<Longrightarrow> admissions_grow adm adm' \<Longrightarrow> entry_inv adm' e"
  unfolding entry_inv_def answered_after_def admissions_grow_def by (auto split: approval_entry.splits option.splits)

lemma logs_grow: "admissions_grow adm (log_admission now s s' adm)" "admissions_grow adm (log_cut s s' adm)"
  by (auto simp: admissions_grow_def log_admission_def log_cut_def split: control.splits)

lemma prepare_pins_inv:
  assumes inv: "pins_inv adm s" and bind: "cell_binding inspect pyint rep job = Inr binding"
    and x: "prepare fr triage w bp i enforce now binding s = (res, s')"
  shows "pins_inv (log_admission now s s' adm) s'"
proof -
  let ?c = "snapshot fr w (Some bp) i (binding_cell binding) (binding_epoch binding) (binding_managed binding)"
  obtain ans s1 where ans: "(if enforce then admit now ?c s else (Inr ?c, s)) = (ans, s1)" by force
  have cell1: "rp_cell s1 = rp_cell s" and stamp: "(rp_pin s1 = rp_pin s \<and> rp_admitted_at s1 = rp_admitted_at s)
      \<or> (rp_pin s = Missing \<and> (\<exists>a. rp_pin s1 = Holds a) \<and> rp_admitted_at s1 = Holds now)"
    using ans by (auto simp: admit_def stored_def pin_writes split: if_splits control.splits)
  have "s' = s \<or> s' = s1 \<or> (\<exists>b. binding = Some b \<and> s' = s1\<lparr>rp_cell := Holds b\<rparr>)"
    using x ans by (auto simp: prepare_def Let_def split: option.splits sum.splits)
  then consider "s' = s" | "s' = s1" | b where "binding = Some b" "s' = s1\<lparr>rp_cell := Holds b\<rparr>" by blast
  then have "cell_ok s'"
  proof cases
    case 3
    then show ?thesis using binding_cell_ok[of inspect pyint rep job b] bind by (auto simp: cell_ok_def cell_evidence_def)
  qed (use inv cell1 in \<open>auto simp: pins_inv_def cell_ok_def cell_evidence_def\<close>)
  moreover have "(rp_pin s' = rp_pin s \<and> rp_admitted_at s' = rp_admitted_at s)
      \<or> (rp_pin s = Missing \<and> (\<exists>a. rp_pin s' = Holds a) \<and> rp_admitted_at s' = Holds now)"
    using \<open>s' = s \<or> s' = s1 \<or> _\<close> stamp by auto
  ultimately show ?thesis using inv unfolding pins_inv_def log_admission_def
    by (auto split: control.splits)
qed

lemma prepare_dies_pins_inv:
  assumes "pins_inv adm s"
  shows "pins_inv (log_cut s (prepare_dies n fr triage w bp i now binding s) adm) (prepare_dies n fr triage w bp i now binding s)"
  using assms by (cases rule: prepare_dies_cases[of n fr triage w bp i now binding s])
    (auto simp: pins_inv_def log_cut_def cell_ok_def cell_evidence_def split: control.splits)

lemma reaccept_dies_pins_inv:
  assumes "pins_inv adm s"
  shows "pins_inv adm (reaccept_dies n actor reason s)"
  using assms by (cases rule: reaccept_dies_cases[of n actor reason s])
    (auto simp: pins_inv_def cell_ok_def cell_evidence_def split: control.splits)

lemma reaccept_pins_inv:
  assumes "pins_inv adm s" and "reaccept actor reason s = (res, s')"
  shows "pins_inv adm s'"
  using assms(1) reaccept_Inr[OF assms(2)] by (auto simp: pins_inv_def pin_writes cell_ok_def cell_evidence_def)

lemma record_checks_Inr:
  assumes "record_checks now gates a r = Inr a'"
  obtains cell epoch managed ai body where "cell_evidence (ru_pins r) = Inr (cell, epoch, managed)" "rp_pin (ru_pins r) = Holds ai"
    "a' = stamp_approval (sha256_hex body) cell epoch (inputs_digest ai) a"
    "ap_responded_at a \<noteq> None \<longrightarrow> \<not> answered_before_admission now (ru_pins r) (ap_responded_at a)"
proof -
  obtain n where n: "gate_artifact gates (ap_gate a) = Inr n" using assms by (auto simp: record_checks_def split: sum.splits)
  obtain body where b: "artifact_sha256 r n = Inr (sha256_hex body)"
    using assms n by (auto simp: record_checks_def artifact_sha256_def split: option.splits)
  obtain cell epoch managed where c: "cell_evidence (ru_pins r) = Inr (cell, epoch, managed)"
    using assms n b by (auto simp: record_checks_def split: sum.splits)
  obtain ai where ai: "rp_pin (ru_pins r) = Holds ai"
    using assms n b c by (auto simp: record_checks_def require_inputs_def stored_def split: control.splits)
  show ?thesis
    using assms n b c ai by (intro that[OF c ai, of body]) (auto simp: record_checks_def require_inputs_def stored_def Let_def split: if_splits)
qed

lemma stamped_inv:
  assumes inv: "pins_inv adm (ru_pins r)" and ok: "approval_ok a" and x: "record_checks now gates a r = Inr a'"
  shows "entry_inv adm (Entry a')"
proof -
  obtain cell epoch managed ai body where e: "cell_evidence (ru_pins r) = Inr (cell, epoch, managed)" "rp_pin (ru_pins r) = Holds ai"
    "a' = stamp_approval (sha256_hex body) cell epoch (inputs_digest ai) a"
    "ap_responded_at a \<noteq> None \<longrightarrow> \<not> answered_before_admission now (ru_pins r) (ap_responded_at a)"
    using record_checks_Inr[OF x] by blast
  consider "inputs_digest ai \<in> set (am_cut adm)"
    | t0 where "rp_admitted_at (ru_pins r) = Holds t0" "(t0, inputs_digest ai) \<in> set (am_log adm)"
    using inv e(2) by (auto simp: pins_inv_def split: control.splits)
  then have "answered_after adm a'"
    using e(3,4) by cases (auto simp: answered_after_def stamp_approval_def answered_before_admission_def admitted_at_def
        split: option.splits)
  have "approval_ok a'"
    using ok inv e(1,3) inputs_digest_shape by (auto simp: approval_ok_def stamp_approval_def pins_inv_def cell_ok_def split: option.splits)
  with \<open>answered_after adm a'\<close> show ?thesis by (simp add: entry_inv_def)
qed

interpretation runs: inductive_invariant new_run "run_step gates" run_inv for gates
proof unfold_locales
  show "run_inv s" if "new_run s" for s
    using that by (simp add: new_run_def run_inv_def pins_inv_def cell_ok_def cell_evidence_def empty_pins_def entries_def)
  show "run_inv t" if "run_inv s" and "run_step gates s t" for s t
    using that(2,1)
  proof cases
    case (run_prepare inspect pyint rep job binding fr triage w bp i enforce now r res p adm)
    then show ?thesis using that(1) prepare_pins_inv entry_inv_mono[OF _ logs_grow(1)]
      by (auto simp: run_inv_def list_all_iff)
  next
    case (run_prepare_dies p n fr triage w bp i now binding r adm)
    then show ?thesis using that(1) prepare_dies_pins_inv entry_inv_mono[OF _ logs_grow(2)]
      by (auto simp: run_inv_def list_all_iff)
  next
    case (run_reaccept_dies p n actor reason r adm)
    then show ?thesis using that(1) reaccept_dies_pins_inv by (auto simp: run_inv_def)
  next
    case (run_reaccept actor reason r res2 p adm)
    then show ?thesis using that(1) reaccept_pins_inv by (auto simp: run_inv_def)
  next
    case (run_artifact r adm name body)
    then show ?thesis using that(1) by (simp add: run_inv_def)
  next
    case (run_record a now r res3 r' adm)
    show ?thesis
    proof (cases "record_checks now gates a r")
      case (Inl e)
      then show ?thesis using that(1) run_record by (simp add: record_approval_def)
    next
      case (Inr a')
      have "entry_inv adm (Entry a')" using stamped_inv[OF _ run_record(3) Inr] that(1) run_record(1) by (simp add: run_inv_def)
      moreover have "ru_approvals r \<noteq> NotAList" using that(1) run_record(1) by (simp add: run_inv_def)
      ultimately show ?thesis using that(1) run_record Inr
        by (cases "ru_approvals r") (auto simp: record_approval_def run_inv_def entries_def list_all_iff Let_def)
    qed
  qed
qed

lemma entries_load:
  assumes "list_all (entry_inv adm) es"
  shows "\<exists>as. entry_approvals es = Some as \<and> list_all (\<lambda>a. approval_ok a \<and> answered_after adm a) as"
  using assms
proof (induction es)
  case (Cons e es)
  then obtain as where "entry_approvals es = Some as" "list_all (\<lambda>a. approval_ok a \<and> answered_after adm a) as" by auto
  then show ?case using Cons.prems by (cases e) (auto simp: entry_inv_def)
qed simp

lemma run_inv_loads:
  assumes "run_inv (r, adm)"
  shows "\<exists>as. load_approvals r = Inr as \<and> list_all (\<lambda>a. approval_ok a \<and> answered_after adm a) as"
proof (cases "ru_approvals r")
  case (Approvals es)
  then obtain as where "entry_approvals es = Some as" "list_all (\<lambda>a. approval_ok a \<and> answered_after adm a) as"
    using entries_load[of adm es] assms by (auto simp: run_inv_def entries_def)
  then show ?thesis using Approvals by (auto simp: load_approvals_def list_all_iff)
qed (use assms in \<open>auto simp: load_approvals_def run_inv_def\<close>)

text \<open>C29: whatever tasks, clean-ups, re-accepts (also ones that die between their file writes), artifact writes and recordings a run goes through, the recorded decisions stay
  well-formed: \<open>approvals.json\<close> always loads, and every decision in it satisfies the declared schema, with a known gate, an
  actor, hexadecimal digests and a positive epoch.\<close>

theorem recorded_approvals_typed:
  assumes "reach new_run (run_step gates) (r, adm)"
  shows "\<exists>as. load_approvals r = Inr as \<and> list_all approval_ok as"
  using run_inv_loads[OF runs.reach_inv[OF assms]] by (auto simp: list_all_iff)

section \<open>Publication\<close>

definition gate_authorised :: "string \<Rightarrow> run \<Rightarrow> admissions \<Rightarrow> string option \<Rightarrow> gate \<Rightarrow> approval \<Rightarrow> bool" where
  "gate_authorised revision r adm rejected g a \<longleftrightarrow>
     ap_gate a = ga_name g
     \<and> (\<exists>body. ru_artifact r (ga_artifact g) = Some body \<and> ap_artifact a = Some (sha256_hex body))
     \<and> (\<exists>managed ai. cell_evidence (ru_pins r) = Inr (ap_cell a, ap_epoch a, managed)
          \<and> rp_pin (ru_pins r) = Holds ai \<and> ap_inputs a = Some (inputs_digest ai)
          \<and> (case ap_responded_at a of None \<Rightarrow> True | Some t \<Rightarrow> inputs_digest ai \<in> set (am_cut adm) \<or> (\<exists>t0\<le>t. (t0, inputs_digest ai) \<in> set (am_log adm)))
          \<and> (case ap_mode a of
               ByHuman \<Rightarrow> ga_mode g \<noteq> PolicyGate \<and> ap_actor a \<noteq> AUTO_ACTOR \<and> \<not> startswith (ap_actor a) REPLAY_ACTOR_PREFIX
             | ByDefault \<Rightarrow> ga_mode g = AutoGate
             | ByReplay \<Rightarrow> ga_mode g \<noteq> PolicyGate \<and> \<not> managed
             | ByPolicy \<Rightarrow> ga_mode g = PolicyGate \<and> managed \<and> ap_actor a = ''policy:'' @ revision))
     \<and> (ap_decision a = Reject \<longleftrightarrow> rejected = Some (ga_name g))"

lemma check_recorded_None:
  assumes "check_recorded revision g gmode a managed cell epoch inputs = None"
  shows "ap_gate a = g" and "ap_inputs a = inputs" and "ap_cell a = cell" and "ap_epoch a = epoch"
    and "case ap_mode a of
               ByHuman \<Rightarrow> gmode \<noteq> PolicyGate \<and> ap_actor a \<noteq> AUTO_ACTOR \<and> \<not> startswith (ap_actor a) REPLAY_ACTOR_PREFIX
             | ByDefault \<Rightarrow> gmode = AutoGate
             | ByReplay \<Rightarrow> gmode \<noteq> PolicyGate \<and> \<not> managed
             | ByPolicy \<Rightarrow> gmode = PolicyGate \<and> managed \<and> ap_actor a = ''policy:'' @ revision"
  using assms by (cases gmode; auto simp: check_recorded_def split: if_splits approval_mode.splits)+

lemma validate_gates_rejected:
  assumes "validate_gates revision r as cell epoch managed inputs gs seen = Inr (seen', Some n)"
  shows "\<exists>a. List.find (\<lambda>a. ap_gate a = n) as = Some a \<and> ap_decision a = Reject"
  using assms
proof (induction gs arbitrary: seen)
  case (Cons g gs)
  then show ?case by (auto split: option.splits sum.splits if_splits)
qed simp

lemma validate_gates_Inr:
  assumes "validate_gates revision r as cell epoch managed inputs gs seen = Inr (seen', rejected)"
    and "i < length gs" and "\<forall>j<i. rejected \<noteq> Some (ga_name (gs ! j))"
  shows "\<exists>a\<in>set as. \<exists>body. ap_gate a = ga_name (gs ! i) \<and> ru_artifact r (ga_artifact (gs ! i)) = Some body
     \<and> ap_artifact a = Some (sha256_hex body)
     \<and> check_recorded revision (ga_name (gs ! i)) (ga_mode (gs ! i)) a managed cell epoch (Some inputs) = None
     \<and> (ap_decision a = Reject \<longleftrightarrow> rejected = Some (ga_name (gs ! i)))"
  using assms
proof (induction gs arbitrary: i seen)
  case (Cons g gs)
  obtain a where a: "List.find (\<lambda>a. ap_gate a = ga_name g) as = Some a"
    using Cons.prems(1) by (auto split: option.splits)
  obtain body where b: "ru_artifact r (ga_artifact g) = Some body" "ap_artifact a = Some (sha256_hex body)"
    "check_recorded revision (ga_name g) (ga_mode g) a managed cell epoch (Some inputs) = None"
    using Cons.prems(1) a by (auto simp: artifact_sha256_def split: option.splits if_splits)
  show ?case
  proof (cases "ap_decision a = Reject")
    case True
    then have r: "rejected = Some (ga_name g)" using Cons.prems(1) a b by (simp add: artifact_sha256_def)
    have "i = 0" using Cons.prems(3) r by (cases i) auto
    then show ?thesis using find_in[OF a] b True r by auto
  next
    case False
    then have rest: "validate_gates revision r as cell epoch managed inputs gs (ga_name g # seen) = Inr (seen', rejected)"
      using Cons.prems(1) a b by (simp add: artifact_sha256_def)
    show ?thesis
    proof (cases i)
      case 0
      have "rejected \<noteq> Some (ga_name g)"
        using validate_gates_rejected[of revision r as cell epoch managed inputs gs _ seen' "ga_name g"] rest a False by auto
      then show ?thesis using 0 find_in[OF a] b False by auto
    next
      case (Suc k)
      have "\<forall>j<k. rejected \<noteq> Some (ga_name (gs ! j))" using Cons.prems(3) Suc by auto
      then show ?thesis using Cons.IH[OF rest] Cons.prems(2) Suc by auto
    qed
  qed
qed simp

text \<open>C12: a run publishes only with authority. When \<open>deliver\<close> accepts the recorded decisions, every gate of the line up to
  the first rejection has a decision over the artifact as it is now, for the Cell epoch and the accepted inputs of the
  run; an answer that carries its time was given after an admission of exactly these inputs, unless an admission of
  them died between its file writes (a decision without an answer time is not constrained in time); a gate declared human is
  answered by a person or, where the run is not managed, by the fixture, and never by a default; a policy gate is
  answered by the current policy revision for a managed Cell; and every decision up to the rejected gate approves.\<close>

theorem publication_has_authority:
  assumes "reach new_run (run_step gates) (r, adm)" and "delivery_gate revision gates r = Inr rejected"
    and "i < length gates" and "\<forall>j<i. rejected \<noteq> Some (ga_name (gates ! j))"
  shows "\<exists>as a. load_approvals r = Inr as \<and> a \<in> set as \<and> gate_authorised revision r adm rejected (gates ! i) a"
proof -
  obtain as where as: "load_approvals r = Inr as" "list_all (\<lambda>a. approval_ok a \<and> answered_after adm a) as"
    using run_inv_loads[OF runs.reach_inv[OF assms(1)]] by blast
  have v: "validate_approvals revision gates r as = Inr rejected" using assms(2) as(1) by (simp add: delivery_gate_def)
  obtain cell epoch managed where c: "cell_evidence (ru_pins r) = Inr (cell, epoch, managed)"
    using v by (auto simp: validate_approvals_def Let_def split: option.splits if_splits sum.splits)
  obtain ai where ai: "rp_pin (ru_pins r) = Holds ai"
    using v c by (auto simp: validate_approvals_def require_inputs_def stored_def Let_def split: option.splits if_splits control.splits)
  obtain seen where g: "validate_gates revision r as cell epoch managed (inputs_digest ai) gates [] = Inr (seen, rejected)"
    using v c ai by (auto simp: validate_approvals_def require_inputs_def stored_def Let_def split: option.splits if_splits sum.splits)
  obtain a body where a: "a \<in> set as" "ru_artifact r (ga_artifact (gates ! i)) = Some body" "ap_artifact a = Some (sha256_hex body)"
    "check_recorded revision (ga_name (gates ! i)) (ga_mode (gates ! i)) a managed cell epoch (Some (inputs_digest ai)) = None"
    "ap_decision a = Reject \<longleftrightarrow> rejected = Some (ga_name (gates ! i))"
    using validate_gates_Inr[OF g assms(3,4)] by blast
  have "answered_after adm a" using as(2) a(1) by (simp add: list_all_iff)
  then have "case ap_responded_at a of None \<Rightarrow> True | Some t \<Rightarrow> inputs_digest ai \<in> set (am_cut adm) \<or> (\<exists>t0\<le>t. (t0, inputs_digest ai) \<in> set (am_log adm))"
    using check_recorded_None(2)[OF a(4)] by (auto simp: answered_after_def split: option.splits)
  then have "gate_authorised revision r adm rejected (gates ! i) a"
    using check_recorded_None[OF a(4)] a(2,3,5) c ai by (auto simp: gate_authorised_def)
  then show ?thesis using as(1) a(1) by blast
qed

section \<open>A delivered run\<close>

definition demo_gates :: "gate list" where
  "demo_gates = [\<lparr>ga_name = ''plan'', ga_artifact = ''plan.md'', ga_mode = HumanGate\<rparr>]"

definition demo_decision :: approval where
  "demo_decision = \<lparr>ap_gate = ''plan'', ap_decision = Approve, ap_actor = ''alice'', ap_at = 21, ap_artifact = None, ap_mode = ByHuman,
        ap_cell = None, ap_epoch = None, ap_inputs = None, ap_responded_at = Some 20\<rparr>"

definition demo_recorded :: approval where
  "demo_recorded = stamp_approval (sha256_hex ''p'') None None (inputs_digest (demo_snapshot ''b'')) demo_decision"

definition demo_run :: run where
  "demo_run = \<lparr>ru_pins = demo_pins 10 ''b'' empty_pins, ru_artifact = [''plan.md'' \<mapsto> ''p''], ru_approvals = Approvals [Entry demo_recorded]\<rparr>"

lemma demo_pins_fields:
  "rp_pin (demo_pins now body empty_pins) = Holds (demo_snapshot body)" "rp_cell (demo_pins now body empty_pins) = Missing"
  "rp_admitted_at (demo_pins now body empty_pins) = Holds now"
  by (simp_all add: demo_pins_def pin_writes empty_pins_def)

lemma demo_run_reachable: "reach new_run (run_step demo_gates) (demo_run, \<lparr>am_log = [(10, inputs_digest (demo_snapshot ''b''))], am_cut = []\<rparr>)"
proof -
  let ?r0 = "\<lparr>ru_pins = empty_pins, ru_artifact = Map.empty, ru_approvals = NoApprovals\<rparr>"
  let ?adm = "\<lparr>am_log = [(10, inputs_digest (demo_snapshot ''b''))], am_cut = []\<rparr>"
  have empty: "rp_pin empty_pins = Missing" by (simp add: empty_pins_def)
  have job: "cell_binding None (\<lambda>v. None) (\<lambda>v. []) (JObj []) = Inr None" by (simp add: cell_binding_def jget_or_def)
  have "reach new_run (run_step demo_gates) (?r0, \<lparr>am_log = [], am_cut = []\<rparr>)" by (rule reach_init) (simp add: new_run_def)
  moreover have "run_step demo_gates (?r0, \<lparr>am_log = [], am_cut = []\<rparr>) (?r0\<lparr>ru_pins := demo_pins 10 ''b'' empty_pins\<rparr>, ?adm)"
    using run_prepare[OF job, of "\<lambda>r. []" "\<lambda>i r. None" demo_worker demo_blueprint "demo_issue ''b''" True 10 ?r0 "Inr ()" "demo_pins 10 ''b'' empty_pins"
      demo_gates "\<lparr>am_log = [], am_cut = []\<rparr>"] demo_prepare[OF empty]
    by (simp add: log_admission_def empty demo_pins_fields)
  ultimately have "reach new_run (run_step demo_gates) (?r0\<lparr>ru_pins := demo_pins 10 ''b'' empty_pins\<rparr>, ?adm)" by (rule reach_step)
  moreover have "run_step demo_gates (?r0\<lparr>ru_pins := demo_pins 10 ''b'' empty_pins\<rparr>, ?adm)
      (?r0\<lparr>ru_pins := demo_pins 10 ''b'' empty_pins, ru_artifact := [''plan.md'' \<mapsto> ''p'']\<rparr>, ?adm)"
    using run_artifact[of demo_gates "?r0\<lparr>ru_pins := demo_pins 10 ''b'' empty_pins\<rparr>" ?adm "''plan.md''" "Some ''p''"] by simp
  ultimately have "reach new_run (run_step demo_gates) (?r0\<lparr>ru_pins := demo_pins 10 ''b'' empty_pins, ru_artifact := [''plan.md'' \<mapsto> ''p'']\<rparr>, ?adm)"
    by (rule reach_step)
  moreover have "record_approval 21 demo_gates demo_decision (?r0\<lparr>ru_pins := demo_pins 10 ''b'' empty_pins, ru_artifact := [''plan.md'' \<mapsto> ''p'']\<rparr>)
      = (Inr (), demo_run)"
    by (simp add: record_approval_def record_checks_def gate_artifact_def demo_gates_def demo_decision_def artifact_sha256_def cell_evidence_def
      require_inputs_def stored_def demo_pins_fields answered_before_admission_def admitted_at_def demo_run_def demo_recorded_def Let_def)
  then have "run_step demo_gates (?r0\<lparr>ru_pins := demo_pins 10 ''b'' empty_pins, ru_artifact := [''plan.md'' \<mapsto> ''p'']\<rparr>, ?adm) (demo_run, ?adm)"
    by (rule run_record[rotated]) (simp add: approval_ok_def demo_decision_def)
  ultimately show ?thesis by (rule reach_step)
qed

lemma demo_delivery: "delivery_gate ''rev'' demo_gates demo_run = Inr None"
proof -
  have ok: "approval_ok demo_recorded"
    using inputs_digest_shape[of "demo_snapshot ''b''"] by (simp add: approval_ok_def demo_recorded_def stamp_approval_def demo_decision_def)
  have "load_approvals demo_run = Inr [demo_recorded]" by (simp add: load_approvals_def demo_run_def ok)
  then show ?thesis
    by (simp add: delivery_gate_def demo_run_def validate_approvals_def demo_gates_def cell_evidence_def demo_pins_fields
      require_inputs_def stored_def artifact_sha256_def check_recorded_def demo_recorded_def stamp_approval_def demo_decision_def
      AUTO_ACTOR_def REPLAY_ACTOR_PREFIX_def startswith_def Let_def)
qed

text \<open>The check at continuation compares the runtime's own names exactly, where the recording folds the case.\<close>

lemma continuation_accepts_folded_name:
  "reserved_actor ''AUTO'' \<and> check_recorded revision ''plan'' HumanGate (demo_recorded\<lparr>ap_actor := ''AUTO''\<rparr>) managed None None
     (Some (inputs_digest (demo_snapshot ''b''))) = None"
proof
  show "reserved_actor ''AUTO''" by code_simp
qed (simp add: AUTO_ACTOR_def REPLAY_ACTOR_PREFIX_def startswith_def check_recorded_def demo_recorded_def stamp_approval_def demo_decision_def)

theorem recorded_approvals_typed_witness: "\<exists>as. load_approvals demo_run = Inr as \<and> list_all approval_ok as"
  by (rule recorded_approvals_typed[OF demo_run_reachable])

theorem publication_has_authority_witness:
  "\<exists>as a. load_approvals demo_run = Inr as \<and> a \<in> set as
     \<and> gate_authorised ''rev'' demo_run \<lparr>am_log = [(10, inputs_digest (demo_snapshot ''b''))], am_cut = []\<rparr> None (demo_gates ! 0) a"
  by (rule publication_has_authority[OF demo_run_reachable demo_delivery]) (simp_all add: demo_gates_def)

end
