(* ===== verification/JsonParse.thy ===== *)
theory JsonParse
  imports Json
begin

text \<open>
  \<open>json.loads\<close> on one line of a journal. Values are read by recursive descent; a parser returns the value and the rest of
  the input. Characters are bytes: those above 127 are taken as they come, so the text is not checked to be UTF-8, and
  escapes become the UTF-8 bytes of their code point. The value of a number with a fraction or an exponent, and of the
  three constants Python accepts beyond JSON, is the parameter \<open>flt\<close>.

  The recursion counts down a number; \<open>jloads\<close> starts it with twice the length of the text, and more never changes
  the result, since every second call consumes a character.

  The lemmas show that what \<open>json.dumps\<close> writes is read back, and that no proper prefix of the text of an object is a
  document, which is what makes a torn append recognisable.
\<close>

section \<open>Lexical elements\<close>

definition json_space :: "char \<Rightarrow> bool" where
  "json_space c = (c \<in> set [CHR '' '', CHR 0x09, CHR 0x0A, CHR 0x0D])"

definition skip_ws :: "string \<Rightarrow> string" where
  "skip_ws s = dropWhile json_space s"

definition hex_value :: "char \<Rightarrow> nat option" where
  "hex_value c = (let n = of_char c :: nat in
     if 48 \<le> n \<and> n \<le> 57 then Some (n - 48)
     else if 97 \<le> n \<and> n \<le> 102 then Some (n - 87)
     else if 65 \<le> n \<and> n \<le> 70 then Some (n - 55) else None)"

fun read_hex4 :: "string \<Rightarrow> (nat \<times> string) option" where
  "read_hex4 (a # b # c # d # r) =
     (case (hex_value a, hex_value b, hex_value c, hex_value d) of
        (Some w, Some x, Some y, Some z) \<Rightarrow> Some (w * 4096 + x * 256 + y * 16 + z, r)
      | _ \<Rightarrow> None)"
| "read_hex4 _ = None"

definition utf8 :: "nat \<Rightarrow> string" where
  "utf8 n =
     (if n < 128 then [char_of n]
      else if n < 2048 then [char_of (192 + n div 64), char_of (128 + n mod 64)]
      else if n < 65536 then [char_of (224 + n div 4096), char_of (128 + n div 64 mod 64), char_of (128 + n mod 64)]
      else [char_of (240 + n div 262144), char_of (128 + n div 4096 mod 64), char_of (128 + n div 64 mod 64), char_of (128 + n mod 64)])"

text \<open>The escape after \<open>\u\<close>: a high surrogate joins the low surrogate that follows it.\<close>

definition read_unicode :: "string \<Rightarrow> (string \<times> string) option" where
  "read_unicode s =
     (case read_hex4 s of
        None \<Rightarrow> None
      | Some (n, r) \<Rightarrow>
          (case r of
             b # u # r1 \<Rightarrow>
               if 55296 \<le> n \<and> n \<le> 56319 \<and> b = CHR 0x5C \<and> u = CHR ''u'' then
                 (case read_hex4 r1 of
                    None \<Rightarrow> None
                  | Some (m, r2) \<Rightarrow>
                      if 56320 \<le> m \<and> m \<le> 57343 then Some (utf8 (65536 + ((n - 55296) * 1024 + (m - 56320))), r2)
                      else Some (utf8 n, r))
               else Some (utf8 n, r)
           | _ \<Rightarrow> Some (utf8 n, r)))"

definition read_escape :: "string \<Rightarrow> (string \<times> string) option" where
  "read_escape s =
     (case s of
        [] \<Rightarrow> None
      | c # r \<Rightarrow>
          if c = CHR 0x22 \<or> c = CHR 0x5C \<or> c = CHR ''/'' then Some ([c], r)
          else if c = CHR ''b'' then Some ([CHR 0x08], r)
          else if c = CHR ''f'' then Some ([CHR 0x0C], r)
          else if c = CHR ''n'' then Some ([CHR 0x0A], r)
          else if c = CHR ''r'' then Some ([CHR 0x0D], r)
          else if c = CHR ''t'' then Some ([CHR 0x09], r)
          else if c = CHR ''u'' then read_unicode r
          else None)"

lemma read_hex4_shorter: "read_hex4 s = Some (n, r) \<Longrightarrow> length r < length s"
  by (cases s rule: read_hex4.cases) (auto split: option.splits)

lemma read_unicode_shorter:
  assumes "read_unicode s = Some (x, r)"
  shows "length r < length s"
proof -
  obtain n r0 where h: "read_hex4 s = Some (n, r0)" using assms by (cases "read_hex4 s") (auto simp: read_unicode_def)
  have "r = r0 \<or> (\<exists>b u r1 m. r0 = b # u # r1 \<and> read_hex4 r1 = Some (m, r))"
    using assms h by (auto simp: read_unicode_def split: list.splits if_splits option.splits)
  then show ?thesis using read_hex4_shorter[OF h] read_hex4_shorter by fastforce
qed

lemma read_escape_shorter: "read_escape s = Some (x, r) \<Longrightarrow> length r < length s"
  by (auto simp: read_escape_def split: list.splits if_splits dest: read_unicode_shorter)

function read_string :: "string \<Rightarrow> (string \<times> string) option" where
  "read_string [] = None"
| "read_string (c # r) =
     (if c = CHR 0x22 then Some ([], r)
      else if c = CHR 0x5C then
        (case read_escape r of
           None \<Rightarrow> None
         | Some (x, r1) \<Rightarrow> map_option (\<lambda>(t, r2). (x @ t, r2)) (read_string r1))
      else if (of_char c :: nat) < 32 then None
      else map_option (\<lambda>(t, r2). (c # t, r2)) (read_string r))"
  by pat_completeness auto

termination
  by (relation "measure length") (auto dest: read_escape_shorter)

definition num_chars :: string where
  "num_chars = ''+-.0123456789eE''"

definition all_digits :: "string \<Rightarrow> bool" where
  "all_digits s = (s \<noteq> [] \<and> list_all (\<lambda>c. c \<in> set ''0123456789'') s)"

definition digit_of :: "char \<Rightarrow> nat" where
  "digit_of c = of_char c - 48"

definition digits_nat :: "string \<Rightarrow> nat" where
  "digits_nat s = foldl (\<lambda>n c. 10 * n + digit_of c) 0 s"

definition int_digits :: "string \<Rightarrow> bool" where
  "int_digits s = (all_digits s \<and> (s = ''0'' \<or> hd s \<noteq> CHR ''0''))"

definition drop_minus :: "string \<Rightarrow> string" where
  "drop_minus s = (case s of c # r \<Rightarrow> if c = CHR ''-'' then r else s | [] \<Rightarrow> s)"

definition exp_part :: "string \<Rightarrow> bool" where
  "exp_part s = (case s of
     [] \<Rightarrow> True
   | c # r \<Rightarrow> (c = CHR ''e'' \<or> c = CHR ''E'')
       \<and> all_digits (case r of d # r1 \<Rightarrow> if d = CHR ''+'' \<or> d = CHR ''-'' then r1 else r | [] \<Rightarrow> []))"

definition frac_part :: "string \<Rightarrow> bool" where
  "frac_part s = (case s of
     c # r \<Rightarrow> if c = CHR ''.'' then
         all_digits (takeWhile (\<lambda>c. c \<in> set ''0123456789'') r) \<and> exp_part (dropWhile (\<lambda>c. c \<in> set ''0123456789'') r)
       else exp_part s
   | [] \<Rightarrow> False)"

definition float_text :: "string \<Rightarrow> bool" where
  "float_text s = (let u = drop_minus s in
     int_digits (takeWhile (\<lambda>c. c \<in> set ''0123456789'') u) \<and> frac_part (dropWhile (\<lambda>c. c \<in> set ''0123456789'') u))"

definition read_number :: "(string \<Rightarrow> real) \<Rightarrow> string \<Rightarrow> (json \<times> string) option" where
  "read_number flt s =
     (let t = takeWhile (\<lambda>c. c \<in> set num_chars) s; r = dropWhile (\<lambda>c. c \<in> set num_chars) s in
      if int_digits (drop_minus t) then
        Some (JInt (if t \<noteq> drop_minus t then - int (digits_nat (drop_minus t)) else int (digits_nat t)), r)
      else if float_text t then Some (JReal (flt t), r)
      else None)"

definition literals :: "(string \<Rightarrow> real) \<Rightarrow> (string \<times> json) list" where
  "literals flt = [(''null'', JNull), (''true'', JBool True), (''false'', JBool False), (''NaN'', JReal (flt ''NaN'')),
     (''Infinity'', JReal (flt ''Infinity'')), (''-Infinity'', JReal (flt ''-Infinity''))]"

definition read_literal :: "(string \<Rightarrow> real) \<Rightarrow> string \<Rightarrow> (json \<times> string) option" where
  "read_literal flt s =
     (case List.find (\<lambda>(t, v). startswith s t) (literals flt) of
        Some (t, v) \<Rightarrow> Some (v, drop (length t) s)
      | None \<Rightarrow> None)"

section \<open>Values\<close>

text \<open>\<open>dict\<close> of the members: the last value of a key, at the place of the first.\<close>

definition dict_members :: "(string \<times> json) list \<Rightarrow> (string \<times> json) list" where
  "dict_members kvs = map (\<lambda>k. (k, the (map_of (rev kvs) k))) (rev (remdups (rev (map fst kvs))))"

definition opens :: "char \<Rightarrow> string \<Rightarrow> bool" where
  "opens c s = (skip_ws s \<noteq> [] \<and> hd (skip_ws s) = c)"

definition after :: "string \<Rightarrow> string" where
  "after s = tl (skip_ws s)"

fun read_value :: "(string \<Rightarrow> real) \<Rightarrow> nat \<Rightarrow> string \<Rightarrow> (json \<times> string) option"
and read_elements :: "(string \<Rightarrow> real) \<Rightarrow> nat \<Rightarrow> string \<Rightarrow> (json list \<times> string) option"
and read_members :: "(string \<Rightarrow> real) \<Rightarrow> nat \<Rightarrow> string \<Rightarrow> ((string \<times> json) list \<times> string) option" where
  "read_value flt 0 s = None"
| "read_value flt (Suc n) s =
     (if opens (CHR 0x22) s then map_option (\<lambda>(t, r). (JStr t, r)) (read_string (after s))
      else if opens (CHR ''['') s then
        if opens (CHR '']'') (after s) then Some (JArr [], after (after s))
        else map_option (\<lambda>(vs, r). (JArr vs, r)) (read_elements flt n (after s))
      else if opens (CHR 0x7B) s then
        if opens (CHR 0x7D) (after s) then Some (JObj [], after (after s))
        else map_option (\<lambda>(kvs, r). (JObj (dict_members kvs), r)) (read_members flt n (after s))
      else case read_literal flt (skip_ws s) of Some x \<Rightarrow> Some x | None \<Rightarrow> read_number flt (skip_ws s))"
| "read_elements flt 0 s = None"
| "read_elements flt (Suc n) s =
     (case read_value flt n s of
        None \<Rightarrow> None
      | Some (v, r) \<Rightarrow>
          if opens (CHR '','') r then map_option (\<lambda>(vs, r1). (v # vs, r1)) (read_elements flt n (after r))
          else if opens (CHR '']'') r then Some ([v], after r)
          else None)"
| "read_members flt 0 s = None"
| "read_members flt (Suc n) s =
     (if \<not> opens (CHR 0x22) s then None
      else case read_string (after s) of
        None \<Rightarrow> None
      | Some (k, r) \<Rightarrow>
          if \<not> opens (CHR '':'') r then None
          else case read_value flt n (after r) of
            None \<Rightarrow> None
          | Some (v, r1) \<Rightarrow>
              if opens (CHR '','') r1 then map_option (\<lambda>(kvs, r2). ((k, v) # kvs, r2)) (read_members flt n (after r1))
              else if opens (CHR 0x7D) r1 then Some ([(k, v)], after r1)
              else None)"

definition jloads :: "(string \<Rightarrow> real) \<Rightarrow> string \<Rightarrow> json option" where
  "jloads flt s =
     (case read_value flt (2 * length s + 2) s of
        Some (v, r) \<Rightarrow> if skip_ws r = [] then Some v else None
      | None \<Rightarrow> None)"

section \<open>More input\<close>

lemma skip_ws_append: "skip_ws s \<noteq> [] \<Longrightarrow> skip_ws (s @ t) = skip_ws s @ t"
  by (auto simp: skip_ws_def dropWhile_append dropWhile_eq_Nil_conv)

lemma opens_append: "opens c s \<Longrightarrow> opens c (s @ t) \<and> after (s @ t) = after s @ t"
  by (auto simp: opens_def after_def skip_ws_append)

lemma opens_append_iff: "skip_ws s \<noteq> [] \<Longrightarrow> opens c (s @ t) = opens c s"
  by (auto simp: opens_def skip_ws_append)

lemma opens_nonempty: "opens c s \<Longrightarrow> skip_ws s \<noteq> [] \<and> s \<noteq> []"
  by (auto simp: opens_def skip_ws_def)

lemma opens_unique: "opens c s \<Longrightarrow> opens d s \<longleftrightarrow> c = d"
  by (auto simp: opens_def)

lemma read_hex4_append: "read_hex4 s = Some (n, r) \<Longrightarrow> read_hex4 (s @ t) = Some (n, r @ t)"
  by (cases s rule: read_hex4.cases) (auto split: option.splits)

lemma read_unicode_append:
  assumes "read_unicode s = Some (x, r)" and "r \<noteq> []" and "hd r = CHR 0x5C \<Longrightarrow> 2 \<le> length r"
  shows "read_unicode (s @ t) = Some (x, r @ t)"
proof -
  obtain n r0 where h: "read_hex4 s = Some (n, r0)" using assms(1) by (cases "read_hex4 s") (auto simp: read_unicode_def)
  note ht = read_hex4_append[OF h, of t]
  have "r0 \<noteq> []" using assms(1,2) h by (auto simp: read_unicode_def)
  then consider b where "r0 = [b]" | b u r1 where "r0 = b # u # r1" by (metis list.exhaust)
  then show ?thesis
  proof cases
    case 1
    then have "r = [b]" "x = utf8 n" using assms(1) h by (auto simp: read_unicode_def)
    moreover have "b \<noteq> CHR 0x5C" using assms(3) calculation by auto
    ultimately show ?thesis using ht 1 by (auto simp: read_unicode_def split: list.splits)
  next
    case 2
    show ?thesis
    proof (cases "55296 \<le> n \<and> n \<le> 56319 \<and> b = CHR 0x5C \<and> u = CHR ''u''")
      case True
      then obtain m r2 where m: "read_hex4 r1 = Some (m, r2)" using assms(1) h 2 by (cases "read_hex4 r1") (auto simp: read_unicode_def)
      then show ?thesis using assms(1) h ht 2 True read_hex4_append[OF m, of t] by (auto simp: read_unicode_def split: if_splits)
    next
      case False
      then show ?thesis using assms(1) h ht 2 by (auto simp: read_unicode_def)
    qed
  qed
qed

lemma read_string_starts:
  assumes "read_string r = Some y"
  shows "r \<noteq> [] \<and> (hd r = CHR 0x5C \<longrightarrow> 2 \<le> length r)"
proof (cases r)
  case (Cons c s)
  then show ?thesis using assms by (cases s) (auto simp: read_escape_def split: if_splits)
qed (use assms in simp)

lemma read_escape_append:
  assumes "read_escape s = Some (x, r)" and "read_string r = Some y"
  shows "read_escape (s @ t) = Some (x, r @ t)"
proof (cases s)
  case (Cons c s1)
  show ?thesis
  proof (cases "c = CHR ''u''")
    case True
    then have "read_unicode s1 = Some (x, r)" using assms(1) Cons by (simp add: read_escape_def)
    then have "read_unicode (s1 @ t) = Some (x, r @ t)" using read_string_starts[OF assms(2)] by (intro read_unicode_append) auto
    then show ?thesis using True Cons by (simp add: read_escape_def)
  next
    case False
    then show ?thesis using assms(1) Cons by (auto simp: read_escape_def split: if_splits)
  qed
qed (use assms(1) in \<open>simp add: read_escape_def\<close>)

lemma read_string_append: "read_string s = Some (x, r) \<Longrightarrow> read_string (s @ t) = Some (x, r @ t)"
proof (induction s arbitrary: x r rule: read_string.induct)
  case (2 c s)
  show ?case
  proof (cases "c = CHR 0x5C")
    case True
    then obtain y r1 where e: "read_escape s = Some (y, r1)" using "2.prems" by (auto split: option.splits)
    then obtain z r2 where z: "read_string r1 = Some (z, r2)" "x = y @ z" "r = r2" using "2.prems" True by auto
    have nq: "c \<noteq> CHR 0x22" using True by simp
    show ?thesis using True read_escape_append[OF e z(1), of t] "2.IH"(1)[OF nq True e refl z(1)] z(2,3) by simp
  next
    case False
    then show ?thesis using "2.prems" "2.IH"(2) by (auto split: if_splits)
  qed
qed simp

lemma read_string_shorter: "read_string s = Some (x, r) \<Longrightarrow> length r < length s"
proof (induction s arbitrary: x r rule: read_string.induct)
  case (2 c s)
  show ?case
  proof (cases "c = CHR 0x5C")
    case True
    then obtain y r1 where e: "read_escape s = Some (y, r1)" using "2.prems" by (auto split: option.splits)
    then obtain z where z: "read_string r1 = Some (z, r)" using "2.prems" True by auto
    have nq: "c \<noteq> CHR 0x22" using True by simp
    show ?thesis using "2.IH"(1)[OF nq True e refl z] read_escape_shorter[OF e] by simp
  next
    case False
    then show ?thesis using "2.prems" "2.IH"(2) by (fastforce split: if_splits)
  qed
qed simp

lemma startswith_Cons: "startswith (c # s) (d # p) \<longleftrightarrow> c = d \<and> startswith s p"
  by (simp add: startswith_def)

lemma startswith_Nil [simp]: "startswith s []" "startswith [] (d # p) = False"
  by (simp_all add: startswith_def)

lemma startswith_iff: "startswith s p \<longleftrightarrow> (\<exists>u. s = p @ u)"
proof
  assume "startswith s p"
  then have "s = p @ drop (length p) s" unfolding startswith_def by (metis append_take_drop_id)
  then show "\<exists>u. s = p @ u" by blast
qed (auto simp: startswith_def)

lemma startswith_append: "startswith s p \<Longrightarrow> startswith (s @ t) p \<and> drop (length p) (s @ t) = drop (length p) s @ t"
  by (auto simp: startswith_iff)

lemma startswith_length: "startswith s p \<Longrightarrow> length p \<le> length s"
  by (auto simp: startswith_iff)

lemma read_literal_append:
  assumes "read_literal flt s = Some (v, r)"
  shows "read_literal flt (s @ t) = Some (v, r @ t)"
proof (cases s)
  case (Cons c s1)
  then show ?thesis using assms startswith_append[of s1 _ t]
    by (auto simp: read_literal_def literals_def startswith_Cons split: if_splits option.splits dest: startswith_length)
qed (use assms in \<open>simp add: read_literal_def literals_def\<close>)

lemma read_literal_shorter: "read_literal flt s = Some (v, r) \<Longrightarrow> length r < length s"
  by (cases s) (auto simp: read_literal_def literals_def startswith_iff split: if_splits)

lemma read_number_starts:
  assumes "read_number flt s = Some (v, r)"
  shows "s \<noteq> [] \<and> (hd s \<in> set ''0123456789'' \<or> hd s = CHR ''-'' \<and> tl s \<noteq> [] \<and> hd (tl s) \<in> set ''0123456789'')"
proof -
  let ?t = "takeWhile (\<lambda>c. c \<in> set num_chars) s"
  have "int_digits (drop_minus ?t) \<or> float_text ?t" using assms by (auto simp: read_number_def Let_def split: if_splits)
  then have "drop_minus ?t \<noteq> [] \<and> hd (drop_minus ?t) \<in> set ''0123456789''"
  proof
    assume "int_digits (drop_minus ?t)"
    then show ?thesis by (cases "drop_minus ?t") (auto simp: int_digits_def all_digits_def)
  next
    assume "float_text ?t"
    then have "all_digits (takeWhile (\<lambda>c. c \<in> set ''0123456789'') (drop_minus ?t))" by (simp add: float_text_def int_digits_def Let_def)
    then show ?thesis by (cases "drop_minus ?t") (auto simp: all_digits_def split: if_splits)
  qed
  then show ?thesis
    by (cases s; cases "tl s") (auto simp: drop_minus_def split: if_splits)
qed

lemma number_no_literal:
  assumes "read_number flt s = Some (v, r)"
  shows "read_literal flt (s @ t) = None"
proof (cases s)
  case (Cons c s1)
  show ?thesis
  proof (cases "c = CHR ''-''")
    case True
    then obtain d s2 where "s1 = d # s2" "d \<in> set ''0123456789''" using read_number_starts[OF assms] Cons by (cases s1) auto
    then show ?thesis using Cons True by (auto simp: read_literal_def literals_def startswith_Cons)
  next
    case False
    then have "c \<in> set ''0123456789''" using read_number_starts[OF assms] Cons by simp
    then show ?thesis using Cons by (auto simp: read_literal_def literals_def startswith_Cons)
  qed
qed (use read_number_starts[OF assms] in simp)

lemma read_number_append:
  assumes "read_number flt s = Some (v, r)" and "r \<noteq> []"
  shows "read_number flt (s @ t) = Some (v, r @ t)"
proof -
  have "dropWhile (\<lambda>c. c \<in> set num_chars) s \<noteq> []" using assms by (auto simp: read_number_def Let_def split: if_splits)
  then obtain c where "c \<in> set s" "c \<notin> set num_chars" by (auto simp: dropWhile_eq_Nil_conv)
  then show ?thesis using assms(1) by (auto simp: read_number_def Let_def split: if_splits)
qed

lemma read_number_shorter: "read_number flt s = Some (v, r) \<Longrightarrow> length r < length s"
proof -
  assume a: "read_number flt s = Some (v, r)"
  obtain c s1 where c: "s = c # s1" using read_number_starts[OF a] by (cases s) auto
  have "insert (CHR ''-'') (set ''0123456789'') \<subseteq> set num_chars" by (simp add: num_chars_def)
  moreover have "c \<in> insert (CHR ''-'') (set ''0123456789'')" using read_number_starts[OF a] c by (metis insert_iff list.sel(1))
  ultimately have s: "s = c # s1" "c \<in> set num_chars" using c by blast+
  have "r = dropWhile (\<lambda>c. c \<in> set num_chars) s" using a by (auto simp: read_number_def Let_def split: if_splits)
  then show ?thesis using s length_dropWhile_le[of "\<lambda>c. c \<in> set num_chars" s1] by simp
qed

definition brackets :: "string \<Rightarrow> bool" where
  "brackets s = (opens (CHR 0x22) s \<or> opens (CHR ''['') s \<or> opens (CHR 0x7B) s)"

lemma starts_append: "skip_ws s \<noteq> [] \<Longrightarrow> after (s @ t) = after s @ t \<and> opens c (s @ t) = opens c s"
  by (auto simp: opens_append_iff after_def skip_ws_append)

lemma read_value_starts: "read_value flt n s = Some x \<Longrightarrow> skip_ws s \<noteq> []"
proof
  assume r: "read_value flt n s = Some x" and e: "skip_ws s = []"
  have "read_literal flt [] = None" by (simp add: read_literal_def literals_def)
  moreover have "read_number flt [] = None" using read_number_starts[of flt "[]"] by (cases "read_number flt []") auto
  ultimately show False using r e by (cases n) (auto simp: opens_def)
qed

lemma read_elements_starts: "read_elements flt n s = Some x \<Longrightarrow> skip_ws s \<noteq> []"
  by (cases n) (auto split: option.splits dest: read_value_starts)

lemma read_members_starts: "read_members flt n s = Some x \<Longrightarrow> skip_ws s \<noteq> []"
  by (cases n) (auto simp: opens_def split: if_splits)

lemma read_append:
  shows "read_value flt n s = Some (v, r) \<Longrightarrow> r \<noteq> [] \<or> brackets s \<Longrightarrow> read_value flt n (s @ t) = Some (v, r @ t)"
    and "read_elements flt n s = Some (vs, r) \<Longrightarrow> read_elements flt n (s @ t) = Some (vs, r @ t)"
    and "read_members flt n s = Some (kvs, r) \<Longrightarrow> read_members flt n (s @ t) = Some (kvs, r @ t)"
proof (induction flt n s and flt n s and flt n s arbitrary: v r and vs r and kvs r
    rule: read_value_read_elements_read_members.induct)
  case (2 flt n s)
  have ne: "skip_ws s \<noteq> []" using "2.prems"(1) by (rule read_value_starts)
  note o = starts_append[OF ne, of t]
  consider (q) "opens (CHR 0x22) s" | (a) "opens (CHR ''['') s" | (m) "opens (CHR 0x7B) s" | (x) "\<not> brackets s" by (auto simp: brackets_def)
  then show ?case
  proof cases
    case q
    then show ?thesis using "2.prems"(1) o by (auto dest: read_string_append)
  next
    case a
    then have nq: "\<not> opens (CHR 0x22) s" using opens_unique by fastforce
    show ?thesis
    proof (cases "opens (CHR '']'') (after s)")
      case True
      then show ?thesis using "2.prems"(1) o a nq opens_append[OF True, of t] by auto
    next
      case False
      then obtain vs where vs: "read_elements flt n (after s) = Some (vs, r)" "v = JArr vs" using "2.prems"(1) a nq by auto
      have "\<not> opens (CHR '']'') (after s @ t)" using False starts_append[OF read_elements_starts[OF vs(1)]] by simp
      then show ?thesis using "2.IH"(1)[OF nq a False vs(1)] o a nq vs(2) by simp
    qed
  next
    case m
    then have nq: "\<not> opens (CHR 0x22) s" "\<not> opens (CHR ''['') s" using opens_unique by fastforce+
    show ?thesis
    proof (cases "opens (CHR 0x7D) (after s)")
      case True
      then show ?thesis using "2.prems"(1) o m nq opens_append[OF True, of t] by auto
    next
      case False
      then obtain kvs where kvs: "read_members flt n (after s) = Some (kvs, r)" "v = JObj (dict_members kvs)" using "2.prems"(1) m nq by auto
      have "\<not> opens (CHR 0x7D) (after s @ t)" using False starts_append[OF read_members_starts[OF kvs(1)]] by simp
      then show ?thesis using "2.IH"(2)[OF nq m False kvs(1)] o m nq kvs(2) by simp
    qed
  next
    case x
    then have r: "r \<noteq> []" using "2.prems"(2) by blast
    have b: "\<not> opens (CHR 0x22) s" "\<not> opens (CHR ''['') s" "\<not> opens (CHR 0x7B) s" using x by (auto simp: brackets_def)
    show ?thesis
    proof (cases "read_literal flt (skip_ws s)")
      case None
      then have "read_number flt (skip_ws s) = Some (v, r)" using "2.prems"(1) b by simp
      then show ?thesis using number_no_literal read_number_append r b o ne by (simp add: skip_ws_append)
    next
      case (Some y)
      then have "read_literal flt (skip_ws s) = Some (v, r)" using "2.prems"(1) b by simp
      then show ?thesis using read_literal_append b o ne by (simp add: skip_ws_append)
    qed
  qed
next
  case (4 flt n s)
  obtain v r1 where v: "read_value flt n s = Some (v, r1)" using "4.prems" by (cases "read_value flt n s") auto
  have ne: "skip_ws r1 \<noteq> []" using "4.prems" v by (auto simp: opens_def split: if_splits)
  then have "r1 \<noteq> []" by (auto simp: skip_ws_def)
  then have vt: "read_value flt n (s @ t) = Some (v, r1 @ t)" using "4.IH"(1)[OF v] by blast
  show ?case
  proof (cases "opens (CHR '','') r1")
    case True
    then obtain vs1 where "read_elements flt n (after r1) = Some (vs1, r)" "vs = v # vs1" using "4.prems" v by auto
    then show ?thesis using "4.IH"(2)[OF v refl True] vt starts_append[OF ne, of t] True by simp
  next
    case False
    then show ?thesis using "4.prems" v vt starts_append[OF ne, of t] by (auto split: if_splits)
  qed
next
  case (6 flt n s)
  have q: "opens (CHR 0x22) s" using "6.prems" by (auto split: if_splits)
  obtain k r0 where k: "read_string (after s) = Some (k, r0)" using "6.prems" q by (cases "read_string (after s)") auto
  have c: "opens (CHR '':'') r0" using "6.prems" q k by (auto split: if_splits)
  obtain v r1 where v: "read_value flt n (after r0) = Some (v, r1)" using "6.prems" q k c by (cases "read_value flt n (after r0)") auto
  have ne: "skip_ws r1 \<noteq> []" using "6.prems" q k c v by (auto simp: opens_def split: if_splits)
  then have "r1 \<noteq> []" by (auto simp: skip_ws_def)
  then have vt: "read_value flt n (after r0 @ t) = Some (v, r1 @ t)" using "6.IH"(1)[OF _ k refl _ v] q c by blast
  have head: "opens (CHR 0x22) (s @ t)" "read_string (after (s @ t)) = Some (k, r0 @ t)" "opens (CHR '':'') (r0 @ t)" "after (r0 @ t) = after r0 @ t"
    using opens_append[OF q, of t] opens_append[OF c, of t] read_string_append[OF k, of t] by simp_all
  show ?case
  proof (cases "opens (CHR '','') r1")
    case True
    then obtain kvs1 where "read_members flt n (after r1) = Some (kvs1, r)" "kvs = (k, v) # kvs1" using "6.prems" q k c v by auto
    then show ?thesis using "6.IH"(2)[OF _ k refl _ v refl True] q c vt head starts_append[OF ne, of t] True by simp
  next
    case False
    then show ?thesis using "6.prems" q k c v vt head starts_append[OF ne, of t] by (auto split: if_splits)
  qed
qed simp_all

section \<open>Enough recursion\<close>

lemma skip_ws_le: "length (skip_ws s) \<le> length s"
  by (simp add: skip_ws_def length_dropWhile_le)

lemma after_shorter: "skip_ws s \<noteq> [] \<Longrightarrow> length (after s) < length s"
  using skip_ws_le[of s] by (cases "skip_ws s") (auto simp: after_def)

lemma opens_shorter: "opens c s \<Longrightarrow> length (after s) < length s"
  by (rule after_shorter) (simp add: opens_def)

lemma opens_skip: "opens c (after s) \<Longrightarrow> length (after (after s)) < length (after s)"
  by (rule opens_shorter)

lemma read_shorter:
  shows "read_value flt n s = Some (v, r) \<Longrightarrow> length r < length s"
    and "read_elements flt n s = Some (vs, r) \<Longrightarrow> length r < length s"
    and "read_members flt n s = Some (kvs, r) \<Longrightarrow> length r < length s"
proof (induction flt n s and flt n s and flt n s arbitrary: v r and vs r and kvs r
    rule: read_value_read_elements_read_members.induct)
  case (2 flt n s)
  have a: "length (after s) < length s" using after_shorter[OF read_value_starts[OF "2.prems"]] .
  consider (q) "opens (CHR 0x22) s" | (a) "\<not> opens (CHR 0x22) s" "opens (CHR ''['') s"
    | (m) "\<not> opens (CHR 0x22) s" "\<not> opens (CHR ''['') s" "opens (CHR 0x7B) s"
    | (x) "\<not> opens (CHR 0x22) s" "\<not> opens (CHR ''['') s" "\<not> opens (CHR 0x7B) s" by blast
  then show ?case
  proof cases
    case q
    then show ?thesis using "2.prems" a by (auto dest: read_string_shorter)
  next
    case a
    then show ?thesis using "2.prems" "2.IH"(1) \<open>length (after s) < length s\<close> opens_skip[of "CHR '']''" s]
      by (fastforce split: if_splits)
  next
    case m
    then show ?thesis using "2.prems" "2.IH"(2) \<open>length (after s) < length s\<close> opens_skip[of "CHR 0x7D" s]
      by (fastforce split: if_splits)
  next
    case x
    then show ?thesis using "2.prems" skip_ws_le[of s]
      by (auto split: option.splits dest: read_literal_shorter read_number_shorter)
  qed
next
  case (4 flt n s)
  obtain v r1 where v: "read_value flt n s = Some (v, r1)" using "4.prems" by (cases "read_value flt n s") auto
  note s = "4.IH"(1)[OF v]
  show ?case
  proof (cases "opens (CHR '','') r1")
    case True
    then obtain vs1 where "read_elements flt n (after r1) = Some (vs1, r)" using "4.prems" v by auto
    then show ?thesis using "4.IH"(2)[OF v refl True] s opens_shorter[OF True] by fastforce
  next
    case False
    then show ?thesis using "4.prems" v s opens_shorter[of "CHR '']''" r1] by (auto split: if_splits)
  qed
next
  case (6 flt n s)
  have q: "opens (CHR 0x22) s" using "6.prems" by (auto split: if_splits)
  obtain k r0 where k: "read_string (after s) = Some (k, r0)" using "6.prems" q by (cases "read_string (after s)") auto
  have c: "opens (CHR '':'') r0" using "6.prems" q k by (auto split: if_splits)
  obtain v r1 where v: "read_value flt n (after r0) = Some (v, r1)" using "6.prems" q k c by (cases "read_value flt n (after r0)") auto
  have s: "length r1 < length s"
    using "6.IH"(1)[OF _ k refl _ v] q c opens_shorter[OF q] opens_shorter[OF c] read_string_shorter[OF k] by fastforce
  show ?case
  proof (cases "opens (CHR '','') r1")
    case True
    then obtain kvs1 where "read_members flt n (after r1) = Some (kvs1, r)" using "6.prems" q k c v by auto
    then show ?thesis using "6.IH"(2)[OF _ k refl _ v refl True] q c s opens_shorter[OF True] by fastforce
  next
    case False
    then show ?thesis using "6.prems" q k c v s opens_shorter[of "CHR 0x7D" r1] by (auto split: if_splits)
  qed
qed simp_all

lemma read_enough:
  shows "2 * length s + 1 \<le> n \<Longrightarrow> n \<le> m \<Longrightarrow> read_value flt n s = read_value flt m s"
    and "2 * length s + 2 \<le> n \<Longrightarrow> n \<le> m \<Longrightarrow> read_elements flt n s = read_elements flt m s"
    and "2 * length s + 2 \<le> n \<Longrightarrow> n \<le> m \<Longrightarrow> read_members flt n s = read_members flt m s"
proof (induction n arbitrary: m s)
  case (Suc n)
  {
    case 1
    then obtain k where m: "m = Suc k" "n \<le> k" by (cases m) auto
    have e: "read_elements flt n (after s) = read_elements flt k (after s)" "read_members flt n (after s) = read_members flt k (after s)"
      if "opens c s" for c
      using Suc.IH(2,3)[of "after s" k] 1 m(2) opens_shorter[OF that] by auto
    show ?case unfolding m(1) read_value.simps using e by auto
  next
    case 2
    then obtain k where m: "m = Suc k" "n \<le> k" by (cases m) auto
    have v: "read_value flt n s = read_value flt k s" using Suc.IH(1)[of s k] 2 m(2) by simp
    have e: "read_elements flt n (after r) = read_elements flt k (after r)" if "read_value flt k s = Some (v, r)" "opens c r" for v r c
      using Suc.IH(2)[of "after r" k] 2 m(2) read_shorter(1)[OF that(1)] opens_shorter[OF that(2)] by auto
    show ?case unfolding m(1) read_elements.simps v using e by (auto split: option.splits)
  next
    case 3
    then obtain k where m: "m = Suc k" "n \<le> k" by (cases m) auto
    have v: "read_value flt n (after r) = read_value flt k (after r)" if "opens c s" "read_string (after s) = Some (x, r)" "opens d r" for c x r d
      using Suc.IH(1)[of "after r" k] 3 m(2) opens_shorter[OF that(1)] read_string_shorter[OF that(2)] opens_shorter[OF that(3)] by auto
    have e: "read_members flt n (after r1) = read_members flt k (after r1)"
      if "opens c s" "read_string (after s) = Some (x, r)" "opens d r" "read_value flt k (after r) = Some (y, r1)" "opens f r1" for c x r d y r1 f
      using Suc.IH(3)[of "after r1" k] 3 m(2) opens_shorter[OF that(1)] read_string_shorter[OF that(2)] opens_shorter[OF that(3)]
        read_shorter(1)[OF that(4)] opens_shorter[OF that(5)] by auto
    show ?case unfolding m(1) read_members.simps using v e by (auto split: option.splits)
  }
qed simp_all

section \<open>Reading back what was written\<close>

lemma hex_value_digit: "k < 16 \<Longrightarrow> hex_value (hex_digits ! k) = Some k"
proof -
  have "list_all (\<lambda>k. hex_value (hex_digits ! k) = Some k) [0..<16]" by code_simp
  then show "k < 16 \<Longrightarrow> hex_value (hex_digits ! k) = Some k" by (simp add: list_all_iff)
qed

lemma read_hex4_hex4: "n < 256 \<Longrightarrow> read_hex4 (hex4 n @ r) = Some (n, r)"
proof -
  assume n: "n < 256"
  have "n div 4096 = 0" "n div 256 = 0" "n div 16 < 16" using n by auto
  then show ?thesis by (simp add: hex4_def hex_value_digit)
qed

lemma escape_chars:
  "char_of (34::nat) = CHR 0x22" "char_of (92::nat) = CHR 0x5C" "char_of (10::nat) = CHR 0x0A" "char_of (13::nat) = CHR 0x0D"
  "char_of (9::nat) = CHR 0x09" "char_of (12::nat) = CHR 0x0C" "char_of (8::nat) = CHR 0x08"
  by code_simp+

lemma read_string_escaped: "read_string (jesc False c @ s) = map_option (\<lambda>(t, r). (c # t, r)) (read_string s)"
proof -
  let ?n = "of_char c :: nat"
  have c: "char_of ?n = c" by simp
  have u: "read_unicode (hex4 ?n @ s) = Some ([c], s)" if "?n < 32"
  proof -
    have "read_hex4 (hex4 ?n @ s) = Some (?n, s)" using that by (intro read_hex4_hex4) simp
    then show ?thesis using that by (auto simp: read_unicode_def utf8_def split: list.splits)
  qed
  consider "?n = 34" | "?n = 92" | "?n = 10" | "?n = 13" | "?n = 9" | "?n = 12" | "?n = 8"
    | "?n \<notin> {34, 92, 10, 13, 9, 12, 8}" "?n < 32" | "?n \<notin> {34, 92, 10, 13, 9, 12, 8}" "\<not> ?n < 32" by blast
  then show ?thesis
  proof cases
    case 8
    then show ?thesis using u by (auto simp: jesc_def read_escape_def Let_def)
  next
    case 9
    then have "c \<noteq> CHR 0x22" "c \<noteq> CHR 0x5C" by auto
    then show ?thesis using 9 by (simp add: jesc_def Let_def)
  qed (use c in \<open>auto simp: jesc_def read_escape_def escape_chars Let_def\<close>)
qed

lemma read_string_jstr: "read_string (concat (map (jesc False) s) @ CHR 0x22 # r) = Some (s, r)"
  by (induction s) (simp_all add: read_string_escaped)

lemma digit_char_facts:
  assumes "k < 10"
  shows "digit_char k \<in> set ''0123456789''" and "digit_of (digit_char k) = k" and "digit_char k = CHR ''0'' \<Longrightarrow> k = 0"
proof -
  have "list_all (\<lambda>k. digit_char k \<in> set ''0123456789'' \<and> digit_of (digit_char k) = k \<and> (digit_char k = CHR ''0'' \<longrightarrow> k = 0)) [0..<10]"
    by code_simp
  then have "digit_char k \<in> set ''0123456789'' \<and> digit_of (digit_char k) = k \<and> (digit_char k = CHR ''0'' \<longrightarrow> k = 0)"
    using assms by (simp add: list_all_iff)
  then show "digit_char k \<in> set ''0123456789''" "digit_of (digit_char k) = k" "digit_char k = CHR ''0'' \<Longrightarrow> k = 0" by blast+
qed

lemma nat_str_step: "nat_str n = (if n < 10 then [digit_char n] else nat_str (n div 10) @ [digit_char (n mod 10)])"
  by (rule nat_str.simps)

lemma nat_str_digits: "digits_nat (nat_str n) = n \<and> all_digits (nat_str n) \<and> (0 < n \<longrightarrow> hd (nat_str n) \<noteq> CHR ''0'')"
proof (induction n rule: nat_str.induct)
  case (1 n)
  show ?case
  proof (cases "n < 10")
    case True
    then show ?thesis using digit_char_facts[OF True] by (auto simp: nat_str_step[of n] digits_nat_def all_digits_def)
  next
    case False
    have m: "n mod 10 < 10" by simp
    have ih: "digits_nat (nat_str (n div 10)) = n div 10" "all_digits (nat_str (n div 10))" "hd (nat_str (n div 10)) \<noteq> CHR ''0''"
      using 1 False by auto
    then show ?thesis using False digit_char_facts[OF m] nat_str_nonempty[of "n div 10"]
      by (auto simp: nat_str_step[of n] digits_nat_def all_digits_def)
  qed
qed

lemma nat_str_int_digits: "int_digits (nat_str n)"
  using nat_str_digits[of n] by (cases "n = 0") (auto simp: int_digits_def nat_str_step[of 0] digit_char_def)

definition follows :: "string \<Rightarrow> bool" where
  "follows r = (r = [] \<or> hd r \<notin> set num_chars)"

lemma digits_num_chars: "set ''0123456789'' \<subseteq> set num_chars" "CHR ''-'' \<in> set num_chars" "CHR ''-'' \<notin> set ''0123456789''"
  by (simp_all add: num_chars_def)

lemma take_number:
  assumes "set t \<subseteq> set num_chars" and "follows r"
  shows "takeWhile (\<lambda>c. c \<in> set num_chars) (t @ r) = t" and "dropWhile (\<lambda>c. c \<in> set num_chars) (t @ r) = r"
  using assms by (cases r; auto simp: follows_def takeWhile_append dropWhile_append)+

lemma nat_str_chars: "set (nat_str n) \<subseteq> set ''0123456789''" and nat_str_no_minus: "drop_minus (nat_str n) = nat_str n"
proof -
  have "list_all (\<lambda>c. c \<in> set ''0123456789'') (nat_str n)" using nat_str_digits[of n] unfolding all_digits_def by blast
  then show s: "set (nat_str n) \<subseteq> set ''0123456789''" unfolding list_all_iff subset_eq .
  have "hd (nat_str n) \<in> set ''0123456789''" using s hd_in_set[OF nat_str_nonempty[of n]] by (rule subsetD)
  then have "hd (nat_str n) \<noteq> CHR ''-''" using digits_num_chars(3) by (rule_tac notI) (erule notE, erule subst)
  then show "drop_minus (nat_str n) = nat_str n" by (cases "nat_str n") (auto simp: drop_minus_def)
qed

lemma read_number_int: "follows r \<Longrightarrow> read_number flt (int_str i @ r) = Some (JInt i, r)"
proof -
  assume r: "follows r"
  have c: "set (nat_str n) \<subseteq> set num_chars" for n using nat_str_chars digits_num_chars(1) by blast
  show ?thesis
  proof (cases "i < 0")
    case True
    let ?t = "CHR ''-'' # nat_str (nat (- i))"
    have "set ?t \<subseteq> set num_chars" using c digits_num_chars(2) by simp
    note t = take_number[OF this r]
    have d: "drop_minus ?t = nat_str (nat (- i))" by (simp add: drop_minus_def)
    show ?thesis using True t d nat_str_int_digits nat_str_digits[of "nat (- i)"]
      by (simp add: read_number_def int_str_def Let_def)
  next
    case False
    note t = take_number[OF c r]
    show ?thesis using False t nat_str_no_minus nat_str_int_digits nat_str_digits[of "nat i"]
      by (simp add: read_number_def int_str_def Let_def)
  qed
qed

definition float_repr :: "(real \<Rightarrow> string) \<Rightarrow> (string \<Rightarrow> real) \<Rightarrow> real \<Rightarrow> bool" where
  "float_repr fr flt x \<longleftrightarrow> float_text (fr x) \<and> \<not> int_digits (drop_minus (fr x)) \<and> set (fr x) \<subseteq> set num_chars \<and> flt (fr x) = x"

text \<open>A document \<open>json.dumps\<close> can write and \<open>json.loads\<close> gives back: the keys of its mappings are distinct, and the texts of
  its floats are read as the same floats.\<close>

fun json_ok :: "(real \<Rightarrow> string) \<Rightarrow> (string \<Rightarrow> real) \<Rightarrow> json \<Rightarrow> bool" where
  "json_ok fr flt (JReal x) = float_repr fr flt x"
| "json_ok fr flt (JArr xs) = list_all (json_ok fr flt) xs"
| "json_ok fr flt (JObj kvs) = (distinct (map fst kvs) \<and> list_all (\<lambda>(k, v). json_ok fr flt v) kvs)"
| "json_ok fr flt v = True"

lemma dict_members_id: "distinct (map fst kvs) \<Longrightarrow> dict_members kvs = kvs"
proof -
  assume d: "distinct (map fst kvs)"
  then have "rev (remdups (rev (map fst kvs))) = map fst kvs" by (simp add: distinct_remdups_id)
  moreover have "map_of (rev kvs) k = Some v" if "(k, v) \<in> set kvs" for k v
    using that d by (intro map_of_is_SomeI) (auto simp: rev_map[symmetric])
  ultimately show ?thesis by (auto simp: dict_members_def comp_def intro!: map_idI)
qed

lemma skip_ws_Cons: "skip_ws (c # s) = (if json_space c then skip_ws s else c # s)"
  by (simp add: skip_ws_def)

lemma opens_Cons: "\<not> json_space c \<Longrightarrow> opens d (c # s) = (c = d) \<and> after (c # s) = s"
  by (auto simp: opens_def after_def skip_ws_Cons)

lemma delimiters [simp]:
  "\<not> json_space (CHR 0x22)" "\<not> json_space (CHR ''['')" "\<not> json_space (CHR '']'')" "\<not> json_space (CHR 0x7B)" "\<not> json_space (CHR 0x7D)"
  "\<not> json_space (CHR '','')" "\<not> json_space (CHR '':'')"
  by (simp_all add: json_space_def)

lemma digit_no_space: "c \<in> set ''0123456789'' \<or> c = CHR ''-'' \<Longrightarrow> \<not> json_space c \<and> c \<noteq> CHR 0x22 \<and> c \<noteq> CHR ''['' \<and> c \<noteq> CHR 0x7B"
  by (auto simp: json_space_def)

lemma read_value_number:
  assumes "read_number flt s = Some (v, r)"
  shows "read_value flt (Suc n) s = Some (v, r)"
proof -
  obtain c s1 where s: "s = c # s1" using read_number_starts[OF assms] by (cases s) auto
  have c: "c \<in> set ''0123456789'' \<or> c = CHR ''-''" using read_number_starts[OF assms] s by (metis list.sel(1))
  note d = digit_no_space[OF c]
  have "read_literal flt s = None" using number_no_literal[OF assms, of "[]"] by simp
  then show ?thesis using assms s d by (simp add: opens_Cons skip_ws_Cons)
qed

lemma letters [simp]: "\<not> json_space (CHR ''n'')" "\<not> json_space (CHR ''t'')" "\<not> json_space (CHR ''f'')"
  by (simp_all add: json_space_def)

lemma read_literal_words:
  "read_literal flt (''null'' @ r) = Some (JNull, r)" "read_literal flt (''true'' @ r) = Some (JBool True, r)"
  "read_literal flt (''false'' @ r) = Some (JBool False, r)"
  by (simp_all add: read_literal_def literals_def startswith_Cons)

lemma read_value_word:
  assumes "read_literal flt (c # s) = Some x" and "\<not> json_space c" and "c \<notin> {CHR 0x22, CHR ''['', CHR 0x7B}"
  shows "read_value flt (Suc n) (c # s) = Some x"
  using assms by (simp add: opens_Cons skip_ws_Cons)

lemma read_value_literal:
  "read_value flt (Suc n) (''null'' @ r) = Some (JNull, r)" "read_value flt (Suc n) (''true'' @ r) = Some (JBool True, r)"
  "read_value flt (Suc n) (''false'' @ r) = Some (JBool False, r)"
  using read_literal_words[of flt r] by (simp_all add: read_value_word del: read_value.simps)

lemma dump_first:
  assumes "json_ok fr flt v" and "follows r"
  shows "skip_ws (jdumps False fr v @ r) = jdumps False fr v @ r \<and> \<not> opens (CHR '']'') (jdumps False fr v @ r)"
proof (cases v)
  case (JInt i)
  obtain c s where c: "int_str i @ r = c # s" "c \<in> set ''0123456789'' \<or> c = CHR ''-''"
    using read_number_starts[OF read_number_int[OF assms(2), of undefined i]] by (cases "int_str i @ r") (simp, metis list.sel(1))
  have "c \<noteq> CHR '']''" using c(2) by auto
  then show ?thesis using JInt c digit_no_space[OF c(2)] by (simp add: skip_ws_Cons opens_Cons)
next
  case (JReal x)
  then have f: "float_repr fr flt x" using assms(1) by simp
  have "read_number flt (fr x @ r) = Some (JReal x, r)"
    using f assms(2) take_number[of "fr x" r] by (simp add: float_repr_def read_number_def Let_def)
  then obtain c s where c: "fr x @ r = c # s" "c \<in> set ''0123456789'' \<or> c = CHR ''-''"
    using read_number_starts[of flt "fr x @ r" "JReal x" r] by (cases "fr x @ r") (simp, metis list.sel(1))
  have "c \<noteq> CHR '']''" using c(2) by auto
  then show ?thesis using JReal c digit_no_space[OF c(2)] by (simp add: skip_ws_Cons opens_Cons)
qed (auto simp: jstr_def skip_ws_Cons opens_Cons json_space_def)

lemma follows_delims: "follows (CHR '','' # r)" "follows (CHR '']'' # r)" "follows (CHR 0x7D # r)"
  by (simp_all add: follows_def num_chars_def)

definition rereads :: "(real \<Rightarrow> string) \<Rightarrow> (string \<Rightarrow> real) \<Rightarrow> json \<Rightarrow> bool" where
  "rereads fr flt v \<longleftrightarrow> (\<forall>n r. follows r \<longrightarrow> 2 * length (jdumps False fr v @ r) + 1 \<le> n
      \<longrightarrow> read_value flt n (jdumps False fr v @ r) = Some (v, r))"

lemma rereadsD:
  "rereads fr flt v \<Longrightarrow> follows r \<Longrightarrow> 2 * length (jdumps False fr v @ r) + 1 \<le> n \<Longrightarrow> read_value flt n (jdumps False fr v @ r) = Some (v, r)"
  by (simp add: rereads_def)

lemma reread_elements:
  assumes "xs \<noteq> []" and "\<forall>x\<in>set xs. rereads fr flt x"
    and "2 * length (join '','' (map (jdumps False fr) xs) @ CHR '']'' # r) + 2 \<le> n"
  shows "read_elements flt n (join '','' (map (jdumps False fr) xs) @ CHR '']'' # r) = Some (xs, r)"
  using assms
proof (induction xs arbitrary: n)
  case (Cons x xs)
  obtain m where m: "n = Suc m" using Cons.prems(3) by (cases n) auto
  show ?case
  proof (cases xs)
    case Nil
    have "read_value flt m (jdumps False fr x @ CHR '']'' # r) = Some (x, CHR '']'' # r)"
      using Cons.prems Nil m by (intro rereadsD follows_delims) auto
    then show ?thesis using m Nil by (simp add: opens_Cons)
  next
    case (Cons y ys)
    let ?s = "join '','' (map (jdumps False fr) xs) @ CHR '']'' # r"
    have j: "join '','' (map (jdumps False fr) (x # xs)) @ CHR '']'' # r = jdumps False fr x @ CHR '','' # ?s"
      using Cons by simp
    have f: "2 * length (jdumps False fr x @ CHR '','' # ?s) + 2 \<le> Suc m" using Cons.prems(3) unfolding j m .
    then have "read_value flt m (jdumps False fr x @ CHR '','' # ?s) = Some (x, CHR '','' # ?s)"
      using Cons.prems(2) by (intro rereadsD follows_delims) auto
    moreover have "read_elements flt m ?s = Some (xs, r)" using Cons.prems(2) f \<open>xs = y # ys\<close> by (intro Cons.IH) auto
    ultimately show ?thesis unfolding j m by (simp add: opens_Cons)
  qed
qed simp

lemma reread_members:
  assumes "kvs \<noteq> []" and "\<forall>(k, v)\<in>set kvs. rereads fr flt v"
    and "2 * length (join '','' (map (\<lambda>(k, v). jstr False k @ '':'' @ jdumps False fr v) kvs) @ CHR 0x7D # r) + 2 \<le> n"
  shows "read_members flt n (join '','' (map (\<lambda>(k, v). jstr False k @ '':'' @ jdumps False fr v) kvs) @ CHR 0x7D # r) = Some (kvs, r)"
  using assms
proof (induction kvs arbitrary: n)
  case (Cons kv kvs)
  obtain m where m: "n = Suc m" using Cons.prems(3) by (cases n) auto
  obtain k v where kv: "kv = (k, v)" by force
  let ?m = "\<lambda>(k, v). jstr False k @ '':'' @ jdumps False fr v"
  have key: "read_string (concat (map (jesc False) k) @ CHR 0x22 # CHR '':'' # t) = Some (k, CHR '':'' # t)" for t
    by (rule read_string_jstr)
  have v: "rereads fr flt v" using Cons.prems(2) kv by simp
  show ?case
  proof (cases kvs)
    case Nil
    have "read_value flt m (jdumps False fr v @ CHR 0x7D # r) = Some (v, CHR 0x7D # r)"
      using Cons.prems(3) Nil m kv by (intro rereadsD[OF v] follows_delims) auto
    then show ?thesis using m Nil kv key by (simp add: opens_Cons jstr_def)
  next
    case (Cons y ys)
    let ?s = "join '','' (map ?m kvs) @ CHR 0x7D # r"
    have j: "join '','' (map ?m (kv # kvs)) @ CHR 0x7D # r = jstr False k @ '':'' @ jdumps False fr v @ CHR '','' # ?s"
      using Cons kv by simp
    have f: "2 * length (jstr False k @ '':'' @ jdumps False fr v @ CHR '','' # ?s) + 2 \<le> Suc m" using Cons.prems(3) unfolding j m .
    then have "read_value flt m (jdumps False fr v @ CHR '','' # ?s) = Some (v, CHR '','' # ?s)"
      by (intro rereadsD[OF v] follows_delims) auto
    moreover have "read_members flt m ?s = Some (kvs, r)" using Cons.prems(2) f \<open>kvs = y # ys\<close> by (intro Cons.IH) auto
    ultimately show ?thesis unfolding j m using key kv by (simp add: opens_Cons jstr_def)
  qed
qed simp

lemma read_real: "float_repr fr flt x \<Longrightarrow> follows r \<Longrightarrow> read_number flt (fr x @ r) = Some (JReal x, r)"
  using take_number[of "fr x" r] by (simp add: float_repr_def read_number_def Let_def)

lemma rereadsI: "(\<And>m r. follows r \<Longrightarrow> read_value flt (Suc m) (jdumps False fr v @ r) = Some (v, r)) \<Longrightarrow> rereads fr flt v"
  unfolding rereads_def by (metis Suc_le_D add_Suc_right One_nat_def)

lemma json_reread: "json_ok fr flt v \<Longrightarrow> rereads fr flt v"
proof (induction v)
  case JNull
  show ?case by (rule rereadsI) (simp only: jdumps.simps read_value_literal)
next
  case (JBool b)
  show ?case by (rule rereadsI) (cases b; simp only: jdumps.simps read_value_literal if_True if_False)
next
  case (JInt i)
  show ?case by (rule rereadsI) (simp only: jdumps.simps read_value_number[OF read_number_int])
next
  case (JReal x)
  then have "float_repr fr flt x" by simp
  then show ?case by (intro rereadsI) (simp only: jdumps.simps read_value_number[OF read_real])
next
  case (JStr s)
  show ?case unfolding rereads_def
  proof (intro allI impI)
    fix n r assume "2 * length (jdumps False fr (JStr s) @ r) + 1 \<le> n"
    then obtain m where "n = Suc m" by (cases n) auto
    then show "read_value flt n (jdumps False fr (JStr s) @ r) = Some (JStr s, r)"
      by (simp add: jstr_def opens_Cons read_string_jstr)
  qed
next
  case (JArr xs)
  show ?case unfolding rereads_def
  proof (intro allI impI)
    fix n r assume n: "2 * length (jdumps False fr (JArr xs) @ r) + 1 \<le> n"
    then obtain m where m: "n = Suc m" by (cases n) auto
    let ?s = "join '','' (map (jdumps False fr) xs) @ CHR '']'' # r"
    show "read_value flt n (jdumps False fr (JArr xs) @ r) = Some (JArr xs, r)"
    proof (cases xs)
      case Nil
      then show ?thesis using m by (simp add: opens_Cons)
    next
      case (Cons x ys)
      have ok: "json_ok fr flt x" using JArr.prems Cons by simp
      obtain u where u: "?s = jdumps False fr x @ u" "follows u"
        using Cons by (cases ys) (auto simp: follows_delims)
      have "\<not> opens (CHR '']'') ?s" unfolding u(1) using dump_first[OF ok u(2)] by blast
      moreover have "read_elements flt m ?s = Some (xs, r)"
        using JArr Cons n m by (intro reread_elements) (auto simp: list_all_iff)
      ultimately show ?thesis using m by (simp add: opens_Cons)
    qed
  qed
next
  case (JObj kvs)
  show ?case unfolding rereads_def
  proof (intro allI impI)
    fix n r assume n: "2 * length (jdumps False fr (JObj kvs) @ r) + 1 \<le> n"
    then obtain m where m: "n = Suc m" by (cases n) auto
    let ?s = "join '','' (map (\<lambda>(k, v). jstr False k @ '':'' @ jdumps False fr v) kvs) @ CHR 0x7D # r"
    show "read_value flt n (jdumps False fr (JObj kvs) @ r) = Some (JObj kvs, r)"
    proof (cases kvs)
      case Nil
      then show ?thesis using m by (simp add: opens_Cons)
    next
      case (Cons kv ys)
      obtain u where u: "?s = CHR 0x22 # u" using Cons by (cases kv; cases ys) (auto simp: jstr_def)
      have "\<not> opens (CHR 0x7D) ?s" unfolding u by (simp add: opens_Cons)
      moreover have "read_members flt m ?s = Some (kvs, r)"
        using JObj Cons n m by (intro reread_members) (fastforce simp: list_all_iff)+
      moreover have "dict_members kvs = kvs" using JObj.prems by (intro dict_members_id) simp
      ultimately show ?thesis using m by (simp add: opens_Cons)
    qed
  qed
qed

declare read_value.simps [simp del] read_elements.simps [simp del] read_members.simps [simp del]

lemma json_roundtrip: "json_ok fr flt v \<Longrightarrow> jloads flt (jdumps False fr v) = Some v"
  using rereadsD[OF json_reread[of fr flt v], of "[]" "2 * length (jdumps False fr v) + 2"]
  by (simp add: jloads_def follows_def skip_ws_def)

lemma torn_object:
  assumes "json_ok fr flt (JObj kvs)" and "p @ t = jdumps False fr (JObj kvs)" and "t \<noteq> []"
  shows "jloads flt p = None"
proof (rule ccontr)
  assume "jloads flt p \<noteq> None"
  then obtain v r where v: "read_value flt (2 * length p + 2) p = Some (v, r)"
    by (auto simp: jloads_def split: option.splits)
  have "p \<noteq> []" using read_value_starts[OF v] by (auto simp: skip_ws_def)
  then obtain p' where p: "p = CHR 0x7B # p'" using assms(2) by (cases p) auto
  have "brackets p" unfolding p by (simp add: brackets_def opens_Cons)
  moreover have "read_value flt (2 * length (p @ t) + 2) p = Some (v, r)"
    using read_enough(1)[of p "2 * length p + 2" "2 * length (p @ t) + 2" flt] v by simp
  ultimately have "read_value flt (2 * length (p @ t) + 2) (p @ t) = Some (v, r @ t)" using read_append(1) by blast
  moreover have "read_value flt (2 * length (p @ t) + 2) (p @ t) = Some (JObj kvs, [])"
    using rereadsD[OF json_reread[OF assms(1)], of "[]" "2 * length (p @ t) + 2"] assms(2) by (simp add: follows_def)
  ultimately show False using assms(3) by simp
qed

lemma jesc_no_newline: "CHR 0x0A \<notin> set (jesc False c)"
proof -
  have "CHR 0x0A \<notin> set (hex4 n)" for n
  proof -
    have "CHR 0x0A \<notin> set hex_digits" by (simp add: hex_digits_def)
    moreover have "length hex_digits = 16" by (simp add: hex_digits_def)
    ultimately have "CHR 0x0A \<noteq> hex_digits ! (k mod 16)" for k by (metis mod_less_divisor nth_mem zero_less_numeral)
    then show ?thesis by (auto simp: hex4_def)
  qed
  moreover have "c = CHR 0x0A \<Longrightarrow> (of_char c :: nat) = 10" by simp
  ultimately show ?thesis by (auto simp: jesc_def Let_def)
qed

lemma join_set: "set (join sep xs) \<subseteq> set sep \<union> \<Union> (set ` set xs)"
  by (induction sep xs rule: join.induct) auto

lemma num_no_newline: "CHR 0x0A \<notin> set num_chars"
  by (simp add: num_chars_def)

lemma dump_no_newline: "json_ok fr flt v \<Longrightarrow> CHR 0x0A \<notin> set (jdumps False fr v)"
proof (induction v)
  case (JInt i)
  have "set (int_str i) \<subseteq> set num_chars"
    using nat_str_chars digits_num_chars(1,2) by (auto simp: int_str_def split: if_splits)
  then show ?case using num_no_newline by auto
next
  case (JReal x)
  then show ?case using num_no_newline by (auto simp: float_repr_def)
next
  case (JStr s)
  then show ?case using jesc_no_newline by (auto simp: jstr_def)
next
  case (JArr xs)
  then show ?case using join_set[of "'',''" "map (jdumps False fr) xs"] by (fastforce simp: list_all_iff)
next
  case (JObj kvs)
  have "CHR 0x0A \<notin> set (jstr False k @ '':'' @ jdumps False fr v)" if "(k, v) \<in> set kvs" for k v
    using JObj that jesc_no_newline by (fastforce simp: jstr_def list_all_iff)
  then show ?case using join_set[of "'',''" "map (\<lambda>(k, v). jstr False k @ '':'' @ jdumps False fr v) kvs"] by fastforce
qed simp_all

end
