(* ===== verification/RunState.thy ===== *)
theory RunState
  imports JsonParse Sha256
begin

text \<open>
  Host-owned run state, \<open>src/src/swfactory/state.py\<close>: the append-only journals of a run directory, byte by byte, and the
  records of the operations that owned it.

  A journal is the string of its bytes, empty when the file does not exist. An append reads the file, saves and cuts a torn
  tail and writes one line; a process that dies leaves any prefix of what it was writing. Locks make one append atomic
  to other processes, not to a crash. \<open>fr\<close> is the text of a float and \<open>flt\<close> its reader. The owner's attempt id and the
  clock are arguments.

  The theorems show that a journal survives crashes at any byte of any append, and that the records of ownership are
  bracketed so that an interrupted operation is always recognised.
\<close>

section \<open>Journals\<close>

datatype journal_error = JournalCorruption nat

definition NL :: char where
  "NL = CHR 0x0A"

text \<open>\<open>bytes.strip()\<close> leaves nothing.\<close>

definition blank_line :: "string \<Rightarrow> bool" where
  "blank_line s = list_all (\<lambda>c. c \<in> set [CHR '' '', CHR 0x09, CHR 0x0A, CHR 0x0B, CHR 0x0C, CHR 0x0D]) s"

definition ends_with_newline :: "string \<Rightarrow> bool" where
  "ends_with_newline raw = (raw \<noteq> [] \<and> last raw = NL)"

fun decode_lines ::
  "(string \<Rightarrow> real) \<Rightarrow> string \<Rightarrow> string list \<Rightarrow> nat \<Rightarrow> nat \<Rightarrow> json list \<Rightarrow> journal_error + json list \<times> nat" where
  "decode_lines flt raw [] index offset records = Inr (records, length raw)"
| "decode_lines flt raw (line # lines) index offset records =
     (if blank_line line then decode_lines flt raw lines (index + 1) (offset + length line + 1) records
      else case jloads flt line of
        Some v \<Rightarrow> decode_lines flt raw lines (index + 1) (offset + length line + 1) (records @ [v])
      | None \<Rightarrow>
          if lines = [] \<and> \<not> ends_with_newline raw then Inr (records, offset)
          else Inl (JournalCorruption (index + 1)))"

definition decode_journal :: "(string \<Rightarrow> real) \<Rightarrow> string \<Rightarrow> journal_error + json list \<times> nat" where
  "decode_journal flt raw = decode_lines flt raw (split_on NL raw) 0 0 []"

record run_files =
  rf_journal :: "string \<Rightarrow> string"
  rf_recovered :: "(string \<times> string) list"

definition read_jsonl :: "(string \<Rightarrow> real) \<Rightarrow> string \<Rightarrow> run_files \<Rightarrow> journal_error + json list" where
  "read_jsonl flt name s = (case decode_journal flt (rf_journal s name) of Inl e \<Rightarrow> Inl e | Inr (rs, intact) \<Rightarrow> Inr rs)"

record journal_state =
  js_records :: nat
  js_bytes :: nat
  js_torn :: nat

definition journal_status :: "(string \<Rightarrow> real) \<Rightarrow> string \<Rightarrow> run_files \<Rightarrow> journal_error + journal_state" where
  "journal_status flt name s =
     (case decode_journal flt (rf_journal s name) of
        Inl e \<Rightarrow> Inl e
      | Inr (rs, intact) \<Rightarrow> Inr \<lparr>js_records = length rs, js_bytes = length (rf_journal s name), js_torn = length (rf_journal s name) - intact\<rparr>)"

text \<open>What an append to the bytes \<open>raw\<close> does: the bytes it keeps, the torn tail it saves, the bytes it writes.\<close>

definition append_plan :: "(real \<Rightarrow> string) \<Rightarrow> (string \<Rightarrow> real) \<Rightarrow> string \<Rightarrow> json \<Rightarrow> journal_error + string \<times> string \<times> string" where
  "append_plan fr flt raw value =
     (case decode_journal flt raw of
        Inl e \<Rightarrow> Inl e
      | Inr (rs, intact) \<Rightarrow>
          let kept = take intact raw in
          Inr (kept, drop intact raw,
               (if kept \<noteq> [] \<and> \<not> ends_with_newline kept then [NL] else []) @ jdumps False fr value @ [NL]))"

definition recovery_name :: "string \<Rightarrow> string \<Rightarrow> string" where
  "recovery_name name raw = ''recovery/'' @ name @ ''.'' @ sha256_hex (name @ NUL @ raw) @ ''.tail''"

definition save_tail :: "string \<Rightarrow> string \<Rightarrow> string \<Rightarrow> run_files \<Rightarrow> run_files" where
  "save_tail name raw tail s =
     (if tail = [] then s
      else s\<lparr>rf_recovered := (recovery_name name raw, tail) # filter (\<lambda>(n, t). n \<noteq> recovery_name name raw) (rf_recovered s)\<rparr>)"

definition append_json ::
  "(real \<Rightarrow> string) \<Rightarrow> (string \<Rightarrow> real) \<Rightarrow> string \<Rightarrow> json \<Rightarrow> run_files \<Rightarrow> (journal_error + string) \<times> run_files" where
  "append_json fr flt name value s =
     (case append_plan fr flt (rf_journal s name) value of
        Inl e \<Rightarrow> (Inl e, s)
      | Inr (kept, tail, written) \<Rightarrow>
          (Inr (jdumps False fr value @ [NL]),
           (save_tail name (rf_journal s name) tail s)\<lparr>rf_journal := (rf_journal s)(name := kept @ written)\<rparr>))"

text \<open>The process dies during an append: before it cut the tail, or with a prefix of its bytes written.\<close>

definition append_dies :: "(real \<Rightarrow> string) \<Rightarrow> (string \<Rightarrow> real) \<Rightarrow> string \<Rightarrow> json \<Rightarrow> run_files \<Rightarrow> run_files \<Rightarrow> bool" where
  "append_dies fr flt name value s s' \<longleftrightarrow>
     (\<exists>kept tail written. append_plan fr flt (rf_journal s name) value = Inr (kept, tail, written)
        \<and> (s' = s \<or> s' = save_tail name (rf_journal s name) tail s
           \<or> (\<exists>k. s' = (save_tail name (rf_journal s name) tail s)\<lparr>rf_journal := (rf_journal s)(name := kept @ take k written)\<rparr>)))"

section \<open>Ownership\<close>

definition jis_str :: "json \<Rightarrow> bool" where
  "jis_str v = (case v of JStr s \<Rightarrow> True | _ \<Rightarrow> False)"

definition operation_ok :: "json \<Rightarrow> bool" where
  "operation_ok v =
     (is_jobj v \<and> jget0 ''event'' v \<in> set (map JStr [''started'', ''completed'', ''failed'', ''interrupted''])
      \<and> list_all (\<lambda>k. jis_str (jget0 k v)) [''attempt_id'', ''operation'', ''started_at''])"

fun first_bad :: "nat \<Rightarrow> json list \<Rightarrow> nat option" where
  "first_bad i [] = None"
| "first_bad i (v # vs) = (if operation_ok v then first_bad (i + 1) vs else Some i)"

definition operation_records :: "(string \<Rightarrow> real) \<Rightarrow> run_files \<Rightarrow> journal_error + json list" where
  "operation_records flt s =
     (case read_jsonl flt ''operations.jsonl'' s of
        Inl e \<Rightarrow> Inl e
      | Inr rs \<Rightarrow> (case first_bad 1 rs of None \<Rightarrow> Inr rs | Some i \<Rightarrow> Inl (JournalCorruption i)))"

datatype op_event = Started | Completed | Failed | Interrupted

record op_record =
  or_attempt :: string
  or_operation :: string
  or_event :: op_event

record run_owner =
  ro_held :: "(string \<times> string) option"
  ro_log :: "op_record list"

datatype owner_error = RunBusy

definition last_started :: "op_record list \<Rightarrow> bool" where
  "last_started ops = (ops \<noteq> [] \<and> or_event (last ops) = Started)"

definition settle_log :: "op_record list \<Rightarrow> op_record list" where
  "settle_log ops = (if last_started ops then ops @ [(last ops)\<lparr>or_event := Interrupted\<rparr>] else ops)"

definition begin_exclusive :: "string \<Rightarrow> string \<Rightarrow> run_owner \<Rightarrow> (owner_error + unit) \<times> run_owner" where
  "begin_exclusive attempt operation s =
     (if ro_held s \<noteq> None then (Inl RunBusy, s)
      else (Inr (), \<lparr>ro_held = Some (attempt, operation),
                     ro_log = settle_log (ro_log s) @ [\<lparr>or_attempt = attempt, or_operation = operation, or_event = Started\<rparr>]\<rparr>))"

definition end_exclusive :: "bool \<Rightarrow> run_owner \<Rightarrow> run_owner" where
  "end_exclusive ok s =
     (case ro_held s of
        None \<Rightarrow> s
      | Some (attempt, operation) \<Rightarrow>
          \<lparr>ro_held = None,
           ro_log = ro_log s @ [\<lparr>or_attempt = attempt, or_operation = operation, or_event = (if ok then Completed else Failed)\<rparr>]\<rparr>)"

record owner_view =
  ov_held :: bool
  ov_interrupted :: bool
  ov_last :: "op_record option"

definition ownership :: "run_owner \<Rightarrow> owner_view" where
  "ownership s =
     \<lparr>ov_held = (ro_held s \<noteq> None), ov_interrupted = (ro_held s = None \<and> last_started (ro_log s)),
      ov_last = (if ro_log s = [] then None else Some (last (ro_log s)))\<rparr>"

text \<open>The kernel releases the lock when a process dies: while it owns the run, between the two records it writes first,
  or because its last receipt could not be saved.\<close>

inductive owner_step :: "run_owner \<Rightarrow> run_owner \<Rightarrow> bool" where
  owner_begin: "begin_exclusive attempt operation s = (res, s') \<Longrightarrow> owner_step s s'"
| owner_end: "owner_step s (end_exclusive ok s)"
| owner_dies: "owner_step s (s\<lparr>ro_held := None\<rparr>)"
| owner_settle_dies: "ro_held s = None \<Longrightarrow> owner_step s (s\<lparr>ro_log := settle_log (ro_log s)\<rparr>)"

section \<open>The shape of a journal\<close>

definition is_record :: "(real \<Rightarrow> string) \<Rightarrow> (string \<Rightarrow> real) \<Rightarrow> json \<Rightarrow> bool" where
  "is_record fr flt v \<longleftrightarrow> (\<exists>kvs. v = JObj kvs) \<and> json_ok fr flt v"

definition lines_of :: "(real \<Rightarrow> string) \<Rightarrow> json list \<Rightarrow> string" where
  "lines_of fr vs = concat (map (\<lambda>v. jdumps False fr v @ [NL]) vs)"

text \<open>Whole lines, then a prefix of the text of a record: all of it (without the newline), a torn part, or nothing.\<close>

definition journal_form :: "(real \<Rightarrow> string) \<Rightarrow> (string \<Rightarrow> real) \<Rightarrow> string \<Rightarrow> json list \<Rightarrow> string \<Rightarrow> string \<Rightarrow> json \<Rightarrow> bool" where
  "journal_form fr flt raw vs p t v \<longleftrightarrow> raw = lines_of fr vs @ p \<and> list_all (is_record fr flt) vs \<and> is_record fr flt v
     \<and> p @ t = jdumps False fr v"

lemma lines_of_snoc: "lines_of fr (vs @ [v]) = lines_of fr vs @ jdumps False fr v @ [NL]"
  by (simp add: lines_of_def)

lemma record_text:
  assumes "is_record fr flt v"
  shows "NL \<notin> set (jdumps False fr v)" and "jdumps False fr v \<noteq> []" and "hd (jdumps False fr v) = CHR 0x7B"
    and "jloads flt (jdumps False fr v) = Some v"
  using assms dump_no_newline[of fr flt v] json_roundtrip[of fr flt v] by (auto simp: is_record_def NL_def)

lemma record_prefix:
  assumes "is_record fr flt v" and "p @ t = jdumps False fr v"
  shows "NL \<notin> set p" and "p \<noteq> [] \<Longrightarrow> \<not> blank_line p" and "t \<noteq> [] \<Longrightarrow> jloads flt p = None"
proof -
  show "NL \<notin> set p" using record_text(1)[OF assms(1)] assms(2) by (metis Un_iff set_append)
  show "\<not> blank_line p" if "p \<noteq> []"
  proof -
    have "hd p = CHR 0x7B" using that record_text(3)[OF assms(1)] assms(2) by (metis hd_append2)
    then show ?thesis using that by (cases p) (auto simp: blank_line_def)
  qed
  show "jloads flt p = None" if "t \<noteq> []"
    using assms that torn_object by (auto simp: is_record_def)
qed

lemma split_lines:
  assumes "list_all (is_record fr flt) vs" and "NL \<notin> set p"
  shows "split_on NL (lines_of fr vs @ p) = map (jdumps False fr) vs @ [p]"
  using assms(1)
proof (induction vs)
  case Nil
  then show ?case using assms(2) by (simp add: lines_of_def split_on_id)
next
  case (Cons v vs)
  then show ?case using split_on_append[of NL "jdumps False fr v" "lines_of fr vs @ p"] record_text(1)[of fr flt v]
    by (simp add: lines_of_def)
qed

lemma decode_whole_lines:
  assumes "list_all (is_record fr flt) vs"
  shows "decode_lines flt raw (map (jdumps False fr) vs @ lines) i off rs
     = decode_lines flt raw lines (i + length vs) (off + length (lines_of fr vs)) (rs @ vs)"
  using assms
proof (induction vs arbitrary: i off rs)
  case (Cons v vs)
  have "\<not> blank_line (jdumps False fr v)" using record_prefix(2)[of fr flt v "jdumps False fr v" "[]"] record_text(2) Cons.prems by auto
  then show ?case using Cons record_text(4)[of fr flt v] by (simp add: lines_of_def ac_simps)
qed (simp add: lines_of_def)

lemma decode_form:
  assumes "journal_form fr flt raw vs p t v"
  shows "decode_journal flt raw = Inr (if t = [] then vs @ [v] else vs, if t = [] then length raw else length (lines_of fr vs))"
proof -
  have f: "raw = lines_of fr vs @ p" "list_all (is_record fr flt) vs" "is_record fr flt v" "p @ t = jdumps False fr v"
    using assms by (simp_all add: journal_form_def)
  note pre = record_prefix[OF f(3,4)]
  have d: "decode_journal flt raw = decode_lines flt raw [p] (length vs) (length (lines_of fr vs)) vs"
    using decode_whole_lines[OF f(2), of raw "[p]" 0 0 "[]"] split_lines[OF f(2) pre(1)] f(1) by (simp add: decode_journal_def)
  show ?thesis
  proof (cases "t = []")
    case True
    then have "p = jdumps False fr v" using f(4) by simp
    then show ?thesis using d True pre(2) record_text(2,4)[OF f(3)] by simp
  next
    case False
    show ?thesis
    proof (cases "p = []")
      case True
      then show ?thesis using d False f(1) by (simp add: blank_line_def)
    next
      case ne: False
      have "last raw = last p" using f(1) ne by simp
      moreover have "last p \<noteq> NL" using pre(1) last_in_set[OF ne] by metis
      ultimately have "\<not> ends_with_newline raw" by (simp add: ends_with_newline_def)
      then show ?thesis using d False ne pre(2,3) by simp
    qed
  qed
qed

lemma plan_form:
  assumes "journal_form fr flt raw vs p t v"
  shows "append_plan fr flt raw w = Inr (if t = [] then raw else lines_of fr vs, if t = [] then [] else p,
     (if t = [] then [NL] else []) @ jdumps False fr w @ [NL])"
proof -
  have raw: "raw = lines_of fr vs @ p" and v: "is_record fr flt v" "p @ t = jdumps False fr v"
    using assms by (simp_all add: journal_form_def)
  have "lines_of fr vs = [] \<or> ends_with_newline (lines_of fr vs)"
    by (cases vs rule: rev_cases) (auto simp: lines_of_def ends_with_newline_def)
  moreover have "raw \<noteq> [] \<and> \<not> ends_with_newline raw" if "t = []"
  proof -
    have "p \<noteq> []" using v that record_text(2)[OF v(1)] by auto
    moreover have "last p \<noteq> NL" using record_prefix(1)[OF v] last_in_set[OF calculation] by auto
    ultimately show ?thesis using raw by (simp add: ends_with_newline_def)
  qed
  ultimately show ?thesis using decode_form[OF assms] raw by (auto simp: append_plan_def Let_def)
qed

definition form_records :: "json list \<Rightarrow> string \<Rightarrow> json \<Rightarrow> json list" where
  "form_records vs t v = (if t = [] then vs @ [v] else vs)"

lemma whole_form: "list_all (is_record fr flt) vs \<Longrightarrow> is_record fr flt w \<Longrightarrow> journal_form fr flt (lines_of fr vs) vs [] (jdumps False fr w) w"
  by (simp add: journal_form_def)

lemma cut_line:
  assumes "list_all (is_record fr flt) vs" and "is_record fr flt w"
  shows "\<exists>vs' p t v. journal_form fr flt (lines_of fr vs @ take j (jdumps False fr w @ [NL])) vs' p t v
     \<and> (form_records vs' t v = vs \<or> form_records vs' t v = vs @ [w])"
proof (cases "j \<le> length (jdumps False fr w)")
  case True
  then have "journal_form fr flt (lines_of fr vs @ take j (jdumps False fr w @ [NL])) vs (take j (jdumps False fr w)) (drop j (jdumps False fr w)) w"
    using assms by (simp add: journal_form_def)
  moreover have "form_records vs (drop j (jdumps False fr w)) w \<in> {vs, vs @ [w]}" by (simp add: form_records_def)
  ultimately show ?thesis by blast
next
  case False
  then have "lines_of fr vs @ take j (jdumps False fr w @ [NL]) = lines_of fr (vs @ [w])" by (simp add: lines_of_snoc)
  moreover have "journal_form fr flt (lines_of fr (vs @ [w])) (vs @ [w]) [] (jdumps False fr w) w"
    using assms by (intro whole_form) simp_all
  moreover have "form_records (vs @ [w]) (jdumps False fr w) w = vs @ [w]"
    using record_text(2)[OF assms(2)] by (simp add: form_records_def)
  ultimately show ?thesis by metis
qed

lemma append_form:
  assumes "journal_form fr flt raw vs p t v" and "is_record fr flt w" and "append_plan fr flt raw w = Inr (kept, tail, written)"
  shows "\<exists>vs'. kept @ written = lines_of fr vs' \<and> list_all (is_record fr flt) vs' \<and> vs' = form_records vs t v @ [w]"
    and "\<exists>vs' p' t' v'. journal_form fr flt (kept @ take k written) vs' p' t' v'
      \<and> (form_records vs' t' v' = form_records vs t v \<or> form_records vs' t' v' = form_records vs t v @ [w])"
proof -
  have f: "raw = lines_of fr vs @ p" "list_all (is_record fr flt) vs" "is_record fr flt v" "p @ t = jdumps False fr v"
    using assms(1) by (simp_all add: journal_form_def)
  have plan: "kept = (if t = [] then raw else lines_of fr vs)" "written = (if t = [] then [NL] else []) @ jdumps False fr w @ [NL]"
    using plan_form[OF assms(1), of w] assms(3) by simp_all
  have recs: "list_all (is_record fr flt) (form_records vs t v)" using f(2,3) by (simp add: form_records_def)
  have whole: "kept @ (if t = [] then [NL] else []) = lines_of fr (form_records vs t v)"
    using f(1,4) plan(1) by (auto simp: form_records_def lines_of_snoc)
  show "\<exists>vs'. kept @ written = lines_of fr vs' \<and> list_all (is_record fr flt) vs' \<and> vs' = form_records vs t v @ [w]"
    using whole plan(2) recs assms(2) by (auto simp: lines_of_snoc)
  show "\<exists>vs' p' t' v'. journal_form fr flt (kept @ take k written) vs' p' t' v'
      \<and> (form_records vs' t' v' = form_records vs t v \<or> form_records vs' t' v' = form_records vs t v @ [w])"
  proof (cases "t = [] \<and> k = 0")
    case True
    then show ?thesis using assms(1) plan by auto
  next
    case False
    define j where "j = (if t = [] then k - 1 else k)"
    have "kept @ take k written = lines_of fr (form_records vs t v) @ take j (jdumps False fr w @ [NL])"
      using False whole plan(2) by (cases k) (auto simp: j_def)
    then show ?thesis using cut_line[OF recs assms(2), of j] by metis
  qed
qed

section \<open>Crashes\<close>

text \<open>The history of one journal: the appends in order, each with whether it returned.\<close>

inductive journal_run :: "(real \<Rightarrow> string) \<Rightarrow> (string \<Rightarrow> real) \<Rightarrow> string \<Rightarrow> run_files \<Rightarrow> (json \<times> bool) list \<Rightarrow> bool"
  for fr flt name where
  run_start: "rf_journal s name = [] \<Longrightarrow> journal_run fr flt name s []"
| run_appended: "journal_run fr flt name s h \<Longrightarrow> is_record fr flt v \<Longrightarrow> append_json fr flt name v s = (Inr line, s')
    \<Longrightarrow> journal_run fr flt name s' (h @ [(v, True)])"
| run_died: "journal_run fr flt name s h \<Longrightarrow> is_record fr flt v \<Longrightarrow> append_dies fr flt name v s s'
    \<Longrightarrow> journal_run fr flt name s' (h @ [(v, False)])"
| run_other: "journal_run fr flt name s h \<Longrightarrow> rf_journal s' name = rf_journal s name \<Longrightarrow> journal_run fr flt name s' h"

definition between :: "(json \<times> bool) list \<Rightarrow> json list \<Rightarrow> bool" where
  "between h rs \<longleftrightarrow> subseq (map fst (filter snd h)) rs \<and> subseq rs (map fst h)"

lemma between_snoc:
  "between h rs \<Longrightarrow> between (h @ [(v, b)]) (rs @ [v])" "between h rs \<Longrightarrow> between (h @ [(v, False)]) rs"
  by (auto simp: between_def subseq_append_iff intro: subseq_order.trans)

lemma save_tail_journal: "rf_journal (save_tail name raw tail s) = rf_journal s"
  by (simp add: save_tail_def)

lemma journal_run_form:
  "journal_run fr flt name s h \<Longrightarrow> \<exists>vs p t v. journal_form fr flt (rf_journal s name) vs p t v \<and> between h (form_records vs t v)"
proof (induction rule: journal_run.induct)
  case (run_start s)
  have "is_record fr flt (JObj [])" by (simp add: is_record_def)
  then have "journal_form fr flt (rf_journal s name) [] [] (jdumps False fr (JObj [])) (JObj [])"
    using run_start by (simp add: journal_form_def lines_of_def)
  moreover have "between [] (form_records [] (jdumps False fr (JObj [])) (JObj []))" by (simp add: between_def form_records_def)
  ultimately show ?case by blast
next
  case (run_appended s h w line s')
  then obtain vs p t v where f: "journal_form fr flt (rf_journal s name) vs p t v" "between h (form_records vs t v)" by blast
  obtain kept tail written where plan: "append_plan fr flt (rf_journal s name) w = Inr (kept, tail, written)"
    using plan_form[OF f(1)] by blast
  then have raw: "rf_journal s' name = kept @ written" using run_appended.hyps(3) by (auto simp: append_json_def)
  obtain vs' where vs': "kept @ written = lines_of fr vs'" "list_all (is_record fr flt) vs'" "vs' = form_records vs t v @ [w]"
    using append_form(1)[OF f(1) run_appended.hyps(2) plan] by blast
  have "form_records vs' (jdumps False fr w) w = form_records vs t v @ [w]"
    using vs'(3) record_text(2)[OF run_appended.hyps(2)] by (simp add: form_records_def)
  then show ?case using raw vs'(1) whole_form[OF vs'(2) run_appended.hyps(2)] between_snoc(1)[OF f(2), of w True] by metis
next
  case (run_died s h w s')
  then obtain vs p t v where f: "journal_form fr flt (rf_journal s name) vs p t v" "between h (form_records vs t v)" by blast
  obtain kept tail written where plan: "append_plan fr flt (rf_journal s name) w = Inr (kept, tail, written)"
    "rf_journal s' name = rf_journal s name \<or> (\<exists>k. rf_journal s' name = kept @ take k written)"
    using run_died.hyps(3) unfolding append_dies_def
    by (elim exE conjE) (rule that, assumption, auto simp: save_tail_journal)
  from plan(2) show ?case
  proof
    assume "rf_journal s' name = rf_journal s name"
    then show ?thesis using f between_snoc(2) by metis
  next
    assume "\<exists>k. rf_journal s' name = kept @ take k written"
    then obtain k where k: "rf_journal s' name = kept @ take k written" by blast
    then show ?thesis
      using append_form(2)[OF f(1) run_died.hyps(2) plan(1), of k] between_snoc[OF f(2), of w] by metis
  qed
next
  case (run_other s h s')
  then show ?case by simp
qed

lemma form_reads:
  assumes "journal_form fr flt (rf_journal s name) vs p t v"
  shows "read_jsonl flt name s = Inr (form_records vs t v)"
  using decode_form[OF assms] by (simp add: read_jsonl_def form_records_def)

text \<open>C13: a journal survives a crash at any byte of any append. Whatever appends completed and whatever others died part way,
  the journal reads without an error; the records read are those of every append that returned, in order, and of some that
  did not, and nothing else; and the next append succeeds and adds exactly its record to what a reader saw before.\<close>

theorem journal_survives_crashes:
  assumes "journal_run fr flt name s h"
  shows "\<exists>records. read_jsonl flt name s = Inr records
    \<and> subseq (map fst (filter snd h)) records \<and> subseq records (map fst h)
    \<and> (\<forall>v. is_record fr flt v \<longrightarrow> (\<exists>line s'. append_json fr flt name v s = (Inr line, s') \<and> read_jsonl flt name s' = Inr (records @ [v])))"
proof -
  obtain vs p t v where f: "journal_form fr flt (rf_journal s name) vs p t v" "between h (form_records vs t v)"
    using journal_run_form[OF assms] by blast
  have "\<exists>line s'. append_json fr flt name w s = (Inr line, s') \<and> read_jsonl flt name s' = Inr (form_records vs t v @ [w])"
    if w: "is_record fr flt w" for w
  proof -
    obtain kept tail written where plan: "append_plan fr flt (rf_journal s name) w = Inr (kept, tail, written)"
      using plan_form[OF f(1)] by blast
    let ?s = "(save_tail name (rf_journal s name) tail s)\<lparr>rf_journal := (rf_journal s)(name := kept @ written)\<rparr>"
    obtain vs' where vs': "kept @ written = lines_of fr vs'" "list_all (is_record fr flt) vs'" "vs' = form_records vs t v @ [w]"
      using append_form(1)[OF f(1) w plan] by blast
    have "journal_form fr flt (rf_journal ?s name) vs' [] (jdumps False fr w) w" using whole_form[OF vs'(2) w] vs'(1) by simp
    then have "read_jsonl flt name ?s = Inr (form_records vs t v @ [w])"
      using form_reads vs'(3) record_text(2)[OF w] by (metis form_records_def)
    then show ?thesis using plan by (simp add: append_json_def)
  qed
  then show ?thesis using f(2) form_reads[OF f(1)] by (auto simp: between_def)
qed

definition demo_record :: "string \<Rightarrow> json" where
  "demo_record x = JObj [(''event'', JStr x), (''n'', JInt 7)]"

theorem journal_survives_crashes_witness:
  "\<exists>s records. rf_journal s ''log'' \<noteq> [] \<and> read_jsonl (\<lambda>t. 0) ''log'' s = Inr records
     \<and> subseq [demo_record ''a''] records \<and> subseq records [demo_record ''a'', demo_record ''b'']"
proof -
  let ?fr = "\<lambda>r. []" and ?flt = "\<lambda>t. 0 :: real"
  have rec: "is_record ?fr ?flt (demo_record x)" for x by (simp add: is_record_def demo_record_def)
  define s0 :: run_files where "s0 = \<lparr>rf_journal = (\<lambda>n. []), rf_recovered = []\<rparr>"
  have "journal_run ?fr ?flt ''log'' s0 []" by (rule run_start) (simp add: s0_def)
  moreover obtain line s1 where a: "append_json ?fr ?flt ''log'' (demo_record ''a'') s0 = (Inr line, s1)"
    using journal_survives_crashes[OF calculation] rec by blast
  ultimately have r1: "journal_run ?fr ?flt ''log'' s1 [(demo_record ''a'', True)]" using run_appended[OF _ rec] by fastforce
  obtain vs p t v where f: "journal_form ?fr ?flt (rf_journal s1 ''log'') vs p t v" using journal_run_form[OF r1] by blast
  obtain kept tail written where plan: "append_plan ?fr ?flt (rf_journal s1 ''log'') (demo_record ''b'') = Inr (kept, tail, written)"
    using plan_form[OF f] by blast
  then have "written \<noteq> []" using plan_form[OF f, of "demo_record ''b''"] by (auto split: if_splits)
  define s2 where "s2 = (save_tail ''log'' (rf_journal s1 ''log'') tail s1)\<lparr>rf_journal := (rf_journal s1)(''log'' := kept @ take 5 written)\<rparr>"
  have "append_dies ?fr ?flt ''log'' (demo_record ''b'') s1 s2" using plan unfolding append_dies_def s2_def by blast
  from run_died[OF r1 rec this] have r2: "journal_run ?fr ?flt ''log'' s2 [(demo_record ''a'', True), (demo_record ''b'', False)]" by simp
  have "rf_journal s2 ''log'' \<noteq> []" using \<open>written \<noteq> []\<close> by (simp add: s2_def)
  then show ?thesis using journal_survives_crashes[OF r2] by auto
qed

section \<open>Bracketed ownership\<close>

text \<open>Every operation's start is followed by its own receipt, or is the last record.\<close>

fun bracketed :: "op_record list \<Rightarrow> bool" where
  "bracketed [] = True"
| "bracketed [a] = (or_event a = Started)"
| "bracketed (a # b # rest) =
     (or_event a = Started \<and> or_event b \<noteq> Started \<and> or_attempt b = or_attempt a \<and> or_operation b = or_operation a \<and> bracketed rest)"

lemma bracketed_snoc:
  "bracketed ops \<Longrightarrow> \<not> last_started ops \<Longrightarrow> or_event a = Started \<Longrightarrow> bracketed (ops @ [a])"
  "bracketed ops \<Longrightarrow> last_started ops \<Longrightarrow> or_event a \<noteq> Started \<Longrightarrow> or_attempt a = or_attempt (last ops) \<Longrightarrow> or_operation a = or_operation (last ops)
     \<Longrightarrow> bracketed (ops @ [a])"
proof (induction ops rule: bracketed.induct)
  case (3 b c rest)
  { case 1 then show ?case using "3.IH"(1) by (cases rest) (auto simp: last_started_def) }
  { case 2 then show ?case using "3.IH"(2) by (cases rest) (auto simp: last_started_def) }
qed (auto simp: last_started_def)

lemma settle_log_settled: "bracketed ops \<Longrightarrow> bracketed (settle_log ops) \<and> \<not> last_started (settle_log ops)"
  using bracketed_snoc(2)[of ops "(last ops)\<lparr>or_event := Interrupted\<rparr>"] by (auto simp: settle_log_def last_started_def)

definition owner_inv :: "run_owner \<Rightarrow> bool" where
  "owner_inv s \<longleftrightarrow> bracketed (ro_log s)
     \<and> (case ro_held s of None \<Rightarrow> True
        | Some (attempt, operation) \<Rightarrow> last_started (ro_log s) \<and> or_attempt (last (ro_log s)) = attempt \<and> or_operation (last (ro_log s)) = operation)"

interpretation owners: inductive_invariant "\<lambda>s. s = \<lparr>ro_held = None, ro_log = []\<rparr>" owner_step owner_inv
proof unfold_locales
  show "owner_inv s" if "s = \<lparr>ro_held = None, ro_log = []\<rparr>" for s using that by (simp add: owner_inv_def)
  show "owner_inv t" if inv: "owner_inv s" and step: "owner_step s t" for s t
    using step
  proof cases
    case (owner_begin attempt operation res)
    let ?a = "\<lparr>or_attempt = attempt, or_operation = operation, or_event = Started\<rparr>"
    have "bracketed (settle_log (ro_log s) @ [?a])"
      using settle_log_settled[of "ro_log s"] inv by (intro bracketed_snoc(1)) (auto simp: owner_inv_def)
    then show ?thesis using owner_begin inv by (auto simp: begin_exclusive_def owner_inv_def last_started_def split: if_splits)
  next
    case (owner_end ok)
    show ?thesis
    proof (cases "ro_held s")
      case (Some ao)
      obtain attempt operation where ao: "ao = (attempt, operation)" by force
      let ?a = "\<lparr>or_attempt = attempt, or_operation = operation, or_event = (if ok then Completed else Failed)\<rparr>"
      have "bracketed (ro_log s @ [?a])" using inv Some ao by (intro bracketed_snoc(2)) (auto simp: owner_inv_def)
      then show ?thesis using owner_end Some ao by (simp add: end_exclusive_def owner_inv_def)
    qed (use owner_end inv in \<open>simp add: end_exclusive_def\<close>)
  next
    case owner_dies
    then show ?thesis using inv by (simp add: owner_inv_def)
  next
    case owner_settle_dies
    then show ?thesis using inv settle_log_settled[of "ro_log s"] by (simp add: owner_inv_def)
  qed
qed

text \<open>C30: the operations journal of a run is bracketed, however often its owners die: every start is followed by the receipt of
  the same attempt, completed, failed or interrupted, and only the last start may have none. The last start has no receipt
  exactly while its owner holds the run or after the owner died, and then the view of an operator says interrupted.\<close>

theorem operations_bracketed:
  assumes "reach (\<lambda>s. s = \<lparr>ro_held = None, ro_log = []\<rparr>) owner_step s"
  shows "bracketed (ro_log s) \<and> (last_started (ro_log s) \<longleftrightarrow> ov_held (ownership s) \<or> ov_interrupted (ownership s))
    \<and> \<not> (ov_held (ownership s) \<and> ov_interrupted (ownership s))"
  using owners.reach_inv[OF assms] by (auto simp: owner_inv_def ownership_def split: option.splits)

theorem operations_bracketed_witness:
  "let s = \<lparr>ro_held = None, ro_log = [\<lparr>or_attempt = ''x'', or_operation = ''plan'', or_event = Started\<rparr>]\<rparr> in
   bracketed (ro_log s) \<and> ov_interrupted (ownership s)"
proof -
  let ?s = "\<lparr>ro_held = None, ro_log = [\<lparr>or_attempt = ''x'', or_operation = ''plan'', or_event = Started\<rparr>]\<rparr>"
  let ?h = "\<lparr>ro_held = Some (''x'', ''plan''), ro_log = [\<lparr>or_attempt = ''x'', or_operation = ''plan'', or_event = Started\<rparr>]\<rparr>"
  have "reach (\<lambda>s. s = \<lparr>ro_held = None, ro_log = []\<rparr>) owner_step \<lparr>ro_held = None, ro_log = []\<rparr>" by (rule reach_init) simp
  moreover have "owner_step \<lparr>ro_held = None, ro_log = []\<rparr> ?h"
    by (rule owner_begin[of "''x''" "''plan''" _ "Inr ()"]) (simp add: begin_exclusive_def settle_log_def last_started_def)
  ultimately have "reach (\<lambda>s. s = \<lparr>ro_held = None, ro_log = []\<rparr>) owner_step ?h" by (rule reach_step)
  moreover have "owner_step ?h ?s" using owner_dies[of ?h] by simp
  ultimately have r: "reach (\<lambda>s. s = \<lparr>ro_held = None, ro_log = []\<rparr>) owner_step ?s" by (rule reach_step)
  show ?thesis using operations_bracketed[OF r] by (simp add: last_started_def ownership_def)
qed


section \<open>The interface of a journal\<close>

text \<open>What a component that keeps its records in a journal relies on: an append adds one record, and an append that dies adds one or
  none. \<open>good\<close> is the provider's own invariant.\<close>

locale row_journal =
  fixes rows :: "'s \<Rightarrow> 'v list" and append :: "'v \<Rightarrow> 's \<Rightarrow> 's" and dies :: "'v \<Rightarrow> 's \<Rightarrow> 's \<Rightarrow> bool"
    and ok :: "'v \<Rightarrow> bool" and good :: "'s \<Rightarrow> bool"
  assumes append_good: "good s \<Longrightarrow> ok v \<Longrightarrow> good (append v s)"
    and append_rows: "good s \<Longrightarrow> ok v \<Longrightarrow> rows (append v s) = rows s @ [v]"
    and dies_good: "good s \<Longrightarrow> ok v \<Longrightarrow> dies v s s' \<Longrightarrow> good s'"
    and dies_rows: "good s \<Longrightarrow> ok v \<Longrightarrow> dies v s s' \<Longrightarrow> rows s' = rows s \<or> rows s' = rows s @ [v]"
begin

lemma append_keeps:
  assumes "good s" and "ok v" and "P (rows s @ [v])"
  shows "good (append v s) \<and> P (rows (append v s))"
  using assms append_good append_rows by simp

lemma dies_keeps:
  assumes "good s" and "ok v" and "dies v s s'" and "P (rows s)" and "P (rows s @ [v])"
  shows "good s' \<and> P (rows s')"
  using assms dies_good dies_rows by metis

end

definition holds_rows :: "(real \<Rightarrow> string) \<Rightarrow> (string \<Rightarrow> real) \<Rightarrow> string \<Rightarrow> run_files \<Rightarrow> json list \<Rightarrow> bool" where
  "holds_rows fr flt name s rs \<longleftrightarrow> (\<exists>vs p t v. journal_form fr flt (rf_journal s name) vs p t v \<and> form_records vs t v = rs)"

definition journal_rows :: "(string \<Rightarrow> real) \<Rightarrow> string \<Rightarrow> run_files \<Rightarrow> json list" where
  "journal_rows flt name s = (case read_jsonl flt name s of Inl e \<Rightarrow> [] | Inr rs \<Rightarrow> rs)"

definition journal_good :: "(real \<Rightarrow> string) \<Rightarrow> (string \<Rightarrow> real) \<Rightarrow> string \<Rightarrow> run_files \<Rightarrow> bool" where
  "journal_good fr flt name s \<longleftrightarrow> (\<exists>rs. holds_rows fr flt name s rs)"

lemma holds_rows_read: "holds_rows fr flt name s rs \<Longrightarrow> read_jsonl flt name s = Inr rs"
  using form_reads unfolding holds_rows_def by blast

lemma journal_good_read: "journal_good fr flt name s \<Longrightarrow> read_jsonl flt name s = Inr (journal_rows flt name s)"
  using holds_rows_read by (fastforce simp: journal_good_def journal_rows_def)

lemma empty_journal_good: "rf_journal s name = [] \<Longrightarrow> holds_rows fr flt name s []"
proof -
  assume e: "rf_journal s name = []"
  have "is_record fr flt (JObj [])" by (simp add: is_record_def)
  then have "journal_form fr flt (rf_journal s name) [] [] (jdumps False fr (JObj [])) (JObj [])"
    using e by (simp add: journal_form_def lines_of_def)
  moreover have "form_records [] (jdumps False fr (JObj [])) (JObj []) = []" by (simp add: form_records_def)
  ultimately show ?thesis unfolding holds_rows_def by blast
qed

lemma holds_rows_append:
  assumes "holds_rows fr flt name s rs" and w: "is_record fr flt w"
  shows "\<exists>line. fst (append_json fr flt name w s) = Inr line" and "holds_rows fr flt name (snd (append_json fr flt name w s)) (rs @ [w])"
proof -
  obtain vs p t v where f: "journal_form fr flt (rf_journal s name) vs p t v" "form_records vs t v = rs"
    using assms(1) by (auto simp: holds_rows_def)
  obtain kept tail written where plan: "append_plan fr flt (rf_journal s name) w = Inr (kept, tail, written)"
    using plan_form[OF f(1)] by blast
  obtain vs' where vs': "kept @ written = lines_of fr vs'" "list_all (is_record fr flt) vs'" "vs' = rs @ [w]"
    using append_form(1)[OF f(1) w plan] f(2) by blast
  have "journal_form fr flt (rf_journal (snd (append_json fr flt name w s)) name) vs' [] (jdumps False fr w) w"
    using whole_form[OF vs'(2) w] vs'(1) plan by (simp add: append_json_def)
  then show "holds_rows fr flt name (snd (append_json fr flt name w s)) (rs @ [w])"
    using vs'(3) record_text(2)[OF w] unfolding holds_rows_def form_records_def by metis
  show "\<exists>line. fst (append_json fr flt name w s) = Inr line" using plan by (simp add: append_json_def)
qed

lemma holds_rows_dies:
  assumes "holds_rows fr flt name s rs" and w: "is_record fr flt w" and "append_dies fr flt name w s s'"
  shows "holds_rows fr flt name s' rs \<or> holds_rows fr flt name s' (rs @ [w])"
proof -
  obtain vs p t v where f: "journal_form fr flt (rf_journal s name) vs p t v" "form_records vs t v = rs"
    using assms(1) by (auto simp: holds_rows_def)
  obtain kept tail written where plan: "append_plan fr flt (rf_journal s name) w = Inr (kept, tail, written)"
    "rf_journal s' name = rf_journal s name \<or> (\<exists>k. rf_journal s' name = kept @ take k written)"
    using assms(3) unfolding append_dies_def
    by (elim exE conjE) (rule that, assumption, auto simp: save_tail_journal)
  from plan(2) show ?thesis
  proof
    assume "rf_journal s' name = rf_journal s name"
    then show ?thesis using f unfolding holds_rows_def by metis
  next
    assume "\<exists>k. rf_journal s' name = kept @ take k written"
    then obtain k where k: "rf_journal s' name = kept @ take k written" by blast
    show ?thesis using append_form(2)[OF f(1) w plan(1), of k] f(2) unfolding holds_rows_def k by metis
  qed
qed

interpretation journal: row_journal "journal_rows flt name" "\<lambda>v s. snd (append_json fr flt name v s)" "append_dies fr flt name"
  "is_record fr flt" "journal_good fr flt name"
proof unfold_locales
  fix s v s'
  assume g: "journal_good fr flt name s" and v: "is_record fr flt v"
  then obtain rs where rs: "holds_rows fr flt name s rs" by (auto simp: journal_good_def)
  note app = holds_rows_append(2)[OF rs v]
  show "journal_good fr flt name (snd (append_json fr flt name v s))" using app by (auto simp: journal_good_def)
  show "journal_rows flt name (snd (append_json fr flt name v s)) = journal_rows flt name s @ [v]"
    using holds_rows_read[OF app] holds_rows_read[OF rs] by (simp add: journal_rows_def)
  assume d: "append_dies fr flt name v s s'"
  note die = holds_rows_dies[OF rs v d]
  show "journal_good fr flt name s'" using die by (auto simp: journal_good_def)
  show "journal_rows flt name s' = journal_rows flt name s \<or> journal_rows flt name s' = journal_rows flt name s @ [v]"
    using die holds_rows_read[of fr flt name s'] holds_rows_read[OF rs] by (auto simp: journal_rows_def)
qed

end
