(* ===== verification/CallAccounting.thy ===== *)
theory CallAccounting
  imports RunState Idempotency "HOL-Library.AList"
begin

text \<open>
  Spending per provider call, \<open>src/src/swfactory/call_accounting.py\<close>: the ledger \<open>agent_calls.jsonl\<close> of a run, a client of the
  run's journals (\<open>RunState\<close>).

  A call is reserved before the provider can be paid, settled when it answers, marked unknown when it dies, and reconciled by
  an observation. The ledger is the sequence of rows; what is known of a call is the fold of its rows. Identifiers, clock
  readings and the host are the argument \<open>call_env\<close>; \<open>py_reader\<close> is what Python's \<open>str\<close>, \<open>float\<close> and \<open>int\<close> do with text and
  containers. Amounts are reals, rounded to six places where the code rounds.
\<close>

section \<open>Conversions\<close>

record py_reader =
  pr_repr :: "json \<Rightarrow> string"
  pr_float :: "string \<Rightarrow> real option"
  pr_int :: "string \<Rightarrow> int option"

datatype refusal = AlreadySettled real | NoUsage

datatype ledger_error =
    LedgerJournal journal_error
  | LedgerValueError
  | LedgerTypeError
  | LedgerKeyError string
  | ReconciliationRefused refusal

fun to_float :: "py_reader \<Rightarrow> json \<Rightarrow> ledger_error + real" where
  "to_float pr (JReal r) = Inr r"
| "to_float pr (JInt i) = Inr (real_of_int i)"
| "to_float pr (JBool b) = Inr (if b then 1 else 0)"
| "to_float pr (JStr s) = (case pr_float pr s of None \<Rightarrow> Inl LedgerValueError | Some r \<Rightarrow> Inr r)"
| "to_float pr v = Inl LedgerTypeError"

fun to_int :: "py_reader \<Rightarrow> json \<Rightarrow> ledger_error + int" where
  "to_int pr (JInt i) = Inr i"
| "to_int pr (JReal r) = Inr (if 0 \<le> r then \<lfloor>r\<rfloor> else \<lceil>r\<rceil>)"
| "to_int pr (JBool b) = Inr (if b then 1 else 0)"
| "to_int pr (JStr s) = (case pr_int pr s of None \<Rightarrow> Inl LedgerValueError | Some i \<Rightarrow> Inr i)"
| "to_int pr v = Inl LedgerTypeError"

text \<open>\<open>round(x, 6)\<close>: to the nearest, halves to the even digit.\<close>

definition round_half_even :: "real \<Rightarrow> int" where
  "round_half_even x =
     (let f = \<lfloor>x\<rfloor>; d = x - real_of_int f in
      if d < 1 / 2 then f else if 1 / 2 < d then f + 1 else if even f then f else f + 1)"

definition round6 :: "real \<Rightarrow> real" where
  "round6 x = real_of_int (round_half_even (x * 1000000)) / 1000000"

section \<open>Records\<close>

record call_attempt =
  ca_id :: string
  ca_owner :: string
  ca_stage :: string
  ca_iteration :: int
  ca_reserved :: real

record call_record =
  cr_id :: string
  cr_stage :: string
  cr_iteration :: int
  cr_state :: string
  cr_reserved :: real
  cr_settled :: "real option"
  cr_receipt :: json
  cr_observation :: json
  cr_reason :: json
  cr_owner :: json
  cr_lease_until :: real
  cr_observed :: json

definition cr_unreconciled :: "call_record \<Rightarrow> bool" where
  "cr_unreconciled r = (cr_settled r = None)"

definition cr_charge :: "call_record \<Rightarrow> real" where
  "cr_charge r = (case cr_settled r of None \<Rightarrow> cr_reserved r | Some c \<Rightarrow> c)"

definition CALLS_LOG :: string where
  "CALLS_LOG = ''agent_calls.jsonl''"

definition DEFAULT_LEASE_S :: real where
  "DEFAULT_LEASE_S = 3600"

definition releasing :: "outcome_status \<Rightarrow> bool" where
  "releasing st = (st \<in> set [OCommitted, DefinitelyAbsent])"

record call_env =
  ce_uuid :: string
  ce_owner :: string
  ce_now :: real
  ce_at :: string
  ce_pid :: int
  ce_host :: string

section \<open>Reads\<close>

text \<open>A field that keeps the earlier row's value when this row has none.\<close>

definition kept_field :: "string \<Rightarrow> json \<Rightarrow> json \<Rightarrow> json" where
  "kept_field k row prior = py_or (jget0 k row) prior"

definition prior_field :: "(call_record \<Rightarrow> json) \<Rightarrow> call_record option \<Rightarrow> json" where
  "prior_field f prior = (case prior of None \<Rightarrow> JNull | Some r \<Rightarrow> f r)"

definition row_settled :: "py_reader \<Rightarrow> json \<Rightarrow> ledger_error + real option" where
  "row_settled pr row =
     (if jget0 ''cost_usd'' row = JNull then Inr None
      else case to_float pr (jget0 ''cost_usd'' row) of Inl e \<Rightarrow> Inl e | Inr c \<Rightarrow> Inr (Some c))"

definition row_lease :: "py_reader \<Rightarrow> call_record option \<Rightarrow> json \<Rightarrow> ledger_error + real" where
  "row_lease pr prior row =
     to_float pr (py_or (jget0 ''lease_until'' row) (JReal (case prior of None \<Rightarrow> 0 | Some r \<Rightarrow> cr_lease_until r)))"

definition fold_row :: "py_reader \<Rightarrow> call_record option \<Rightarrow> string \<Rightarrow> json \<Rightarrow> ledger_error + call_record" where
  "fold_row pr prior cid row =
     (case to_int pr (jget_or ''iteration'' (JInt 0) row) of
        Inl e \<Rightarrow> Inl e
      | Inr iteration \<Rightarrow>
     (case to_float pr (jget_or ''reserved_usd'' (JReal 0) row) of
        Inl e \<Rightarrow> Inl e
      | Inr reserved \<Rightarrow>
     (case row_settled pr row of
        Inl e \<Rightarrow> Inl e
      | Inr settled \<Rightarrow>
     (case row_lease pr prior row of
        Inl e \<Rightarrow> Inl e
      | Inr lease \<Rightarrow>
          Inr \<lparr>cr_id = cid, cr_stage = py_str (pr_repr pr) (jget_or ''stage'' (JStr []) row), cr_iteration = iteration,
               cr_state = py_str (pr_repr pr) (jget_or ''state'' (JStr ''intent'') row), cr_reserved = reserved,
               cr_settled = settled, cr_receipt = kept_field ''receipt'' row (prior_field cr_receipt prior),
               cr_observation = kept_field ''observation'' row (prior_field cr_observation prior),
               cr_reason = kept_field ''reason'' row (prior_field cr_reason prior),
               cr_owner = kept_field ''owner'' row (prior_field cr_owner prior), cr_lease_until = lease,
               cr_observed = kept_field ''observed'' row (prior_field cr_observed prior)\<rparr>))))"

definition row_call_id :: "json \<Rightarrow> string option" where
  "row_call_id row = (case jget0 ''call_id'' row of JStr s \<Rightarrow> Some s | _ \<Rightarrow> None)"

fun fold_rows :: "py_reader \<Rightarrow> json list \<Rightarrow> (string \<times> call_record) list \<Rightarrow> ledger_error + (string \<times> call_record) list" where
  "fold_rows pr [] folded = Inr folded"
| "fold_rows pr (row # rows) folded =
     (case row_call_id row of
        None \<Rightarrow> fold_rows pr rows folded
      | Some cid \<Rightarrow>
          (case fold_row pr (map_of folded cid) cid row of
             Inl e \<Rightarrow> Inl e
           | Inr r \<Rightarrow> fold_rows pr rows (AList.update cid r folded)))"

definition call_records :: "(string \<Rightarrow> real) \<Rightarrow> py_reader \<Rightarrow> run_files \<Rightarrow> ledger_error + call_record list" where
  "call_records flt pr s =
     (case read_jsonl flt CALLS_LOG s of
        Inl e \<Rightarrow> Inl (LedgerJournal e)
      | Inr rows \<Rightarrow> (case fold_rows pr rows [] of Inl e \<Rightarrow> Inl e | Inr folded \<Rightarrow> Inr (map snd folded)))"

definition call_record_of :: "(string \<Rightarrow> real) \<Rightarrow> py_reader \<Rightarrow> string \<Rightarrow> run_files \<Rightarrow> ledger_error + call_record" where
  "call_record_of flt pr cid s =
     (case call_records flt pr s of
        Inl e \<Rightarrow> Inl e
      | Inr rs \<Rightarrow> (case List.find (\<lambda>r. cr_id r = cid) rs of None \<Rightarrow> Inl (LedgerKeyError cid) | Some r \<Rightarrow> Inr r))"

definition charged_usd :: "(string \<Rightarrow> real) \<Rightarrow> py_reader \<Rightarrow> run_files \<Rightarrow> ledger_error + real" where
  "charged_usd flt pr s = (case call_records flt pr s of Inl e \<Rightarrow> Inl e | Inr rs \<Rightarrow> Inr (round6 (sum_list (map cr_charge rs))))"

definition unreconciled_calls :: "(string \<Rightarrow> real) \<Rightarrow> py_reader \<Rightarrow> run_files \<Rightarrow> ledger_error + call_record list" where
  "unreconciled_calls flt pr s = (case call_records flt pr s of Inl e \<Rightarrow> Inl e | Inr rs \<Rightarrow> Inr (filter cr_unreconciled rs))"

definition unreconciled_usd :: "(string \<Rightarrow> real) \<Rightarrow> py_reader \<Rightarrow> run_files \<Rightarrow> ledger_error + real" where
  "unreconciled_usd flt pr s = (case unreconciled_calls flt pr s of Inl e \<Rightarrow> Inl e | Inr rs \<Rightarrow> Inr (round6 (sum_list (map cr_charge rs))))"

definition is_floor_row :: "json \<Rightarrow> bool" where
  "is_floor_row row = (is_jobj row \<and> jget ''floor_usd'' row \<noteq> None \<and> jget ''call_id'' row = None)"

definition floor_usd :: "(string \<Rightarrow> real) \<Rightarrow> py_reader \<Rightarrow> run_files \<Rightarrow> ledger_error + real option" where
  "floor_usd flt pr s =
     (case read_jsonl flt CALLS_LOG s of
        Inl e \<Rightarrow> Inl (LedgerJournal e)
      | Inr rows \<Rightarrow>
          (case List.find is_floor_row rows of
             None \<Rightarrow> Inr None
           | Some row \<Rightarrow> (case to_float pr (jget0 ''floor_usd'' row) of Inl e \<Rightarrow> Inl e | Inr f \<Rightarrow> Inr (Some f))))"

section \<open>Writes\<close>

definition call_row :: "call_attempt \<Rightarrow> string \<Rightarrow> (string \<times> json) list \<Rightarrow> json" where
  "call_row a now kvs =
     JObj ([(''call_id'', JStr (ca_id a)), (''stage'', JStr (ca_stage a)), (''iteration'', JInt (ca_iteration a)), (''at'', JStr now)] @ kvs)"

definition append_row :: "(real \<Rightarrow> string) \<Rightarrow> (string \<Rightarrow> real) \<Rightarrow> json \<Rightarrow> run_files \<Rightarrow> (ledger_error + unit) \<times> run_files" where
  "append_row fr flt row s =
     (case append_json fr flt CALLS_LOG row s of (Inl e, s') \<Rightarrow> (Inl (LedgerJournal e), s') | (Inr line, s') \<Rightarrow> (Inr (), s'))"

definition mk_attempt :: "call_env \<Rightarrow> string \<Rightarrow> int \<Rightarrow> real \<Rightarrow> call_attempt" where
  "mk_attempt env stage iteration usd =
     \<lparr>ca_id = stage @ ''.'' @ int_str iteration @ '':'' @ take 12 (ce_uuid env), ca_owner = ce_owner env, ca_stage = stage,
      ca_iteration = iteration, ca_reserved = usd\<rparr>"

definition reserve_row :: "call_env \<Rightarrow> real \<Rightarrow> call_attempt \<Rightarrow> json" where
  "reserve_row env lease_s a =
     call_row a (ce_at env)
       [(''event'', JStr ''reserved''), (''state'', JStr ''intent''), (''reserved_usd'', JReal (ca_reserved a)), (''cost_usd'', JNull),
        (''owner'', JStr (ca_owner a)), (''lease_until'', JReal (ce_now env + max 1 lease_s)), (''pid'', JInt (ce_pid env)),
        (''host'', JStr (ce_host env))]"

definition reserve ::
  "(real \<Rightarrow> string) \<Rightarrow> (string \<Rightarrow> real) \<Rightarrow> call_env \<Rightarrow> string \<Rightarrow> int \<Rightarrow> real \<Rightarrow> real \<Rightarrow> run_files
     \<Rightarrow> (ledger_error + call_attempt) \<times> run_files" where
  "reserve fr flt env stage iteration usd lease_s s =
     (if usd < 0 then (Inl LedgerValueError, s)
      else
        let a = mk_attempt env stage iteration usd in
        case append_row fr flt (reserve_row env lease_s a) s of
          (Inl e, s') \<Rightarrow> (Inl e, s')
        | (Inr _, s') \<Rightarrow> (Inr a, s'))"

definition settle_row :: "call_env \<Rightarrow> real \<Rightarrow> json \<Rightarrow> call_attempt \<Rightarrow> json" where
  "settle_row env cost rcpt a =
     call_row a (ce_at env)
       [(''event'', JStr ''settled''), (''state'', JStr ''committed''), (''reserved_usd'', JReal (ca_reserved a)),
        (''cost_usd'', JReal cost), (''receipt'', py_or rcpt (JObj []))]"

definition settle ::
  "(real \<Rightarrow> string) \<Rightarrow> (string \<Rightarrow> real) \<Rightarrow> call_env \<Rightarrow> call_attempt \<Rightarrow> real \<Rightarrow> json \<Rightarrow> run_files \<Rightarrow> (ledger_error + unit) \<times> run_files" where
  "settle fr flt env a cost rcpt s =
     (if cost < 0 then (Inl LedgerValueError, s) else append_row fr flt (settle_row env cost rcpt a) s)"

definition unknown_row :: "call_env \<Rightarrow> string \<Rightarrow> json \<Rightarrow> call_attempt \<Rightarrow> json" where
  "unknown_row env reason observed a =
     call_row a (ce_at env)
       ([(''event'', JStr ''unknown''), (''state'', JStr ''in_doubt''), (''reserved_usd'', JReal (ca_reserved a)), (''cost_usd'', JNull),
         (''reason'', JStr (take 2000 reason))] @ (if py_truthy observed then [(''observed'', observed)] else []))"

definition mark_unknown ::
  "(real \<Rightarrow> string) \<Rightarrow> (string \<Rightarrow> real) \<Rightarrow> call_env \<Rightarrow> call_attempt \<Rightarrow> string \<Rightarrow> json \<Rightarrow> run_files \<Rightarrow> (ledger_error + unit) \<times> run_files" where
  "mark_unknown fr flt env a reason observed s = append_row fr flt (unknown_row env reason observed a) s"

text \<open>The provider's own usage in an observation: a number that is not a boolean and not negative.\<close>

definition usage_number :: "json \<Rightarrow> real option" where
  "usage_number v =
     (case v of
        JInt i \<Rightarrow> (if 0 \<le> i then Some (real_of_int i) else None)
      | JReal r \<Rightarrow> (if 0 \<le> r then Some r else None)
      | _ \<Rightarrow> None)"

definition usage_of :: "mutation_outcome \<Rightarrow> real option" where
  "usage_of m =
     (case usage_number (mo_result m) of
        Some u \<Rightarrow> Some u
      | None \<Rightarrow> usage_number (jget0 ''cost_usd'' (py_or (mo_evidence m) (JObj []))))"

definition observed_usage :: "mutation_outcome \<Rightarrow> refusal + real option" where
  "observed_usage m =
     (if \<not> releasing (mo_status m) then Inr None
      else if mo_status m = DefinitelyAbsent then Inr (Some 0)
      else case usage_of m of None \<Rightarrow> Inl NoUsage | Some u \<Rightarrow> Inr (Some u))"

definition state_for :: "mutation_outcome \<Rightarrow> real option \<Rightarrow> op_state" where
  "state_for m usage = (if usage \<noteq> None then Committed else if mo_status m = ORefused then Refused else Reconciling)"

definition observe_row :: "call_env \<Rightarrow> mutation_outcome \<Rightarrow> real option \<Rightarrow> call_record \<Rightarrow> json" where
  "observe_row env m usage r =
     call_row \<lparr>ca_id = cr_id r, ca_owner = [], ca_stage = cr_stage r, ca_iteration = cr_iteration r, ca_reserved = cr_reserved r\<rparr> (ce_at env)
       [(''event'', JStr ''observed''), (''state'', JStr (state_str (state_for m usage))), (''reserved_usd'', JReal (cr_reserved r)),
        (''cost_usd'', case usage of None \<Rightarrow> JNull | Some u \<Rightarrow> JReal u),
        (''observation'', JObj [(''status'', JStr (status_str (mo_status m))), (''evidence'', mo_evidence m), (''detail'', jopt (mo_detail m))])]"

definition reconcile ::
  "(real \<Rightarrow> string) \<Rightarrow> (string \<Rightarrow> real) \<Rightarrow> py_reader \<Rightarrow> call_env \<Rightarrow> string \<Rightarrow> mutation_outcome \<Rightarrow> run_files
     \<Rightarrow> (ledger_error + call_record) \<times> run_files" where
  "reconcile fr flt pr env cid m s =
     (case call_record_of flt pr cid s of
        Inl e \<Rightarrow> (Inl e, s)
      | Inr r \<Rightarrow>
     (case cr_settled r of
        Some c \<Rightarrow> (Inl (ReconciliationRefused (AlreadySettled c)), s)
      | None \<Rightarrow>
     (case observed_usage m of
        Inl why \<Rightarrow> (Inl (ReconciliationRefused why), s)
      | Inr usage \<Rightarrow>
     (case append_row fr flt (observe_row env m usage r) s of
        (Inl e, s') \<Rightarrow> (Inl e, s')
      | (Inr _, s') \<Rightarrow> (call_record_of flt pr cid s', s')))))"

definition floor_row :: "call_env \<Rightarrow> real \<Rightarrow> json" where
  "floor_row env usd = JObj [(''floor_usd'', JReal usd), (''at'', JStr (ce_at env))]"

definition adopt_floor ::
  "(real \<Rightarrow> string) \<Rightarrow> (string \<Rightarrow> real) \<Rightarrow> py_reader \<Rightarrow> call_env \<Rightarrow> real \<Rightarrow> run_files \<Rightarrow> (ledger_error + real) \<times> run_files" where
  "adopt_floor fr flt pr env usd s =
     (case floor_usd flt pr s of
        Inl e \<Rightarrow> (Inl e, s)
      | Inr (Some f) \<Rightarrow> (Inr f, s)
      | Inr None \<Rightarrow>
          (case append_row fr flt (floor_row env (round6 (max usd 0))) s of
             (Inl e, s') \<Rightarrow> (Inl e, s')
           | (Inr _, s') \<Rightarrow> (Inr (round6 (max usd 0)), s')))"


section \<open>Rounding\<close>

lemma round_half_even_near: "\<bar>real_of_int (round_half_even x) - x\<bar> \<le> 1 / 2"
proof -
  have "0 \<le> x - real_of_int \<lfloor>x\<rfloor>" "x - real_of_int \<lfloor>x\<rfloor> < 1" by linarith+
  then show ?thesis by (simp add: round_half_even_def Let_def abs_if) linarith
qed

lemma round6_near: "\<bar>round6 x - x\<bar> \<le> 1 / 2000000"
  using round_half_even_near[of "x * 1000000"] by (simp add: round6_def abs_le_iff field_simps)

lemma round6_nonneg: "0 \<le> x \<Longrightarrow> 0 \<le> round6 x"
proof -
  assume "0 \<le> x"
  then have "0 \<le> \<lfloor>x * 1000000\<rfloor>" by simp
  then have "0 \<le> round_half_even (x * 1000000)" by (auto simp: round_half_even_def Let_def)
  then show ?thesis by (simp add: round6_def)
qed

section \<open>The book\<close>

text \<open>The fold of the rows: one record per call, in the order of the first rows.\<close>

definition book_ok :: "(string \<times> call_record) list \<Rightarrow> bool" where
  "book_ok book \<longleftrightarrow> distinct (map fst book) \<and> (\<forall>(k, r) \<in> set book. cr_id r = k)"

definition book_charge :: "(string \<times> call_record) list \<Rightarrow> real" where
  "book_charge book = sum_list (map (cr_charge \<circ> snd) book)"

lemma fold_rows_append:
  "fold_rows pr (xs @ ys) book = (case fold_rows pr xs book of Inl e \<Rightarrow> Inl e | Inr book' \<Rightarrow> fold_rows pr ys book')"
  by (induction pr xs book rule: fold_rows.induct) (auto split: option.splits sum.splits)

lemma book_ok_update: "book_ok book \<Longrightarrow> cr_id r = k \<Longrightarrow> book_ok (AList.update k r book)"
proof -
  assume "book_ok book" and r: "cr_id r = k"
  then have "distinct (map fst (AList.update k r book))" "\<forall>(k, r) \<in> set book. cr_id r = k" by (simp_all add: book_ok_def distinct_update)
  moreover have "set (AList.update k r book) \<subseteq> insert (k, r) (set book)" by (induction book) auto
  ultimately show ?thesis using r by (auto simp: book_ok_def)
qed

lemma fold_row_id: "fold_row pr prior cid row = Inr r \<Longrightarrow> cr_id r = cid"
  by (auto simp: fold_row_def split: sum.splits)

lemma fold_rows_ok: "fold_rows pr rows book = Inr book' \<Longrightarrow> book_ok book \<Longrightarrow> book_ok book'"
  by (induction pr rows book rule: fold_rows.induct)
    (auto split: option.splits sum.splits dest: fold_row_id intro: book_ok_update)

lemma book_charge_update:
  assumes "distinct (map fst book)"
  shows "book_charge (AList.update k r book)
     = book_charge book + cr_charge r - (case map_of book k of None \<Rightarrow> 0 | Some old \<Rightarrow> cr_charge old)"
  using assms by (induction book) (auto simp: book_charge_def map_of_eq_None_iff split: option.splits dest: map_of_SomeD)

lemma book_find: "book_ok book \<Longrightarrow> List.find (\<lambda>r. cr_id r = cid) (map snd book) = map_of book cid"
  by (induction book) (auto simp: book_ok_def)

lemma call_records_book:
  assumes "read_jsonl flt CALLS_LOG s = Inr rows" and "fold_rows pr rows [] = Inr book"
  shows "call_records flt pr s = Inr (map snd book)" and "charged_usd flt pr s = Inr (round6 (book_charge book))"
    and "call_record_of flt pr cid s = (case map_of book cid of None \<Rightarrow> Inl (LedgerKeyError cid) | Some r \<Rightarrow> Inr r)"
    and "unreconciled_calls flt pr s = Inr (filter cr_unreconciled (map snd book))"
proof -
  show r: "call_records flt pr s = Inr (map snd book)" using assms by (simp add: call_records_def)
  then show "charged_usd flt pr s = Inr (round6 (book_charge book))" by (simp add: charged_usd_def book_charge_def comp_def)
  show "unreconciled_calls flt pr s = Inr (filter cr_unreconciled (map snd book))" using r by (simp add: unreconciled_calls_def)
  have "book_ok book" using fold_rows_ok[OF assms(2)] by (simp add: book_ok_def)
  then show "call_record_of flt pr cid s = (case map_of book cid of None \<Rightarrow> Inl (LedgerKeyError cid) | Some r \<Rightarrow> Inr r)"
    using r book_find[of book cid] by (simp add: call_record_of_def)
qed


text \<open>What a row of the ledger says: the call it is about, its reservation and what it settles.\<close>

definition row_says :: "py_reader \<Rightarrow> json \<Rightarrow> string \<Rightarrow> real \<Rightarrow> real option \<Rightarrow> bool" where
  "row_says pr row cid reserved settled \<longleftrightarrow> row_call_id row = Some cid \<and> \<not> is_floor_row row
     \<and> (\<forall>prior. \<exists>r. fold_row pr prior cid row = Inr r \<and> cr_id r = cid \<and> cr_reserved r = reserved \<and> cr_settled r = settled)"

lemma to_float_or: "\<exists>x. to_float pr (py_or (JReal a) (JReal b)) = Inr x" "\<exists>x. to_float pr (py_or JNull (JReal b)) = Inr x"
  by (simp_all add: py_or_def)

lemma call_row_says:
  assumes "map_of kvs ''reserved_usd'' = Some (JReal x)"
    and "map_of kvs ''cost_usd'' = Some (case settled of None \<Rightarrow> JNull | Some c \<Rightarrow> JReal c)"
    and "map_of kvs ''lease_until'' = None \<or> (\<exists>l. map_of kvs ''lease_until'' = Some (JReal l))"
  shows "row_says pr (call_row a now kvs) (ca_id a) x settled"
proof -
  have lease: "\<exists>l. row_lease pr prior (call_row a now kvs) = Inr l" for prior
    using assms(3) to_float_or by (auto simp: row_lease_def call_row_def jget_or_def)
  have "\<exists>r. fold_row pr prior (ca_id a) (call_row a now kvs) = Inr r \<and> cr_id r = ca_id a \<and> cr_reserved r = x \<and> cr_settled r = settled" for prior
    using assms(1,2) lease[of prior]
    by (auto simp: fold_row_def row_settled_def call_row_def jget_or_def split: option.splits)
  then show ?thesis by (simp add: row_says_def row_call_id_def is_floor_row_def call_row_def jget_or_def)
qed

lemma reserve_row_says: "row_says pr (reserve_row env l a) (ca_id a) (ca_reserved a) None"
  unfolding reserve_row_def by (rule call_row_says) simp_all

lemma settle_row_says: "row_says pr (settle_row env cost rcpt a) (ca_id a) (ca_reserved a) (Some cost)"
  unfolding settle_row_def by (rule call_row_says) simp_all

lemma unknown_row_says: "row_says pr (unknown_row env reason observed a) (ca_id a) (ca_reserved a) None"
  unfolding unknown_row_def by (rule call_row_says) simp_all

lemma observe_row_says: "row_says pr (observe_row env m usage r) (cr_id r) (cr_reserved r) usage"
  unfolding observe_row_def
  using call_row_says[of _ "cr_reserved r" usage pr
      "\<lparr>ca_id = cr_id r, ca_owner = [], ca_stage = cr_stage r, ca_iteration = cr_iteration r, ca_reserved = cr_reserved r\<rparr>" "ce_at env"]
  by simp

lemmas rows_say = reserve_row_says settle_row_says unknown_row_says observe_row_says

lemma floor_row_facts: "is_floor_row (floor_row env f)" "row_call_id (floor_row env f) = None"
    "to_float pr (jget0 ''floor_usd'' (floor_row env f)) = Inr f"
  by (simp_all add: is_floor_row_def floor_row_def row_call_id_def jget_or_def)

section \<open>What the ledger holds\<close>

text \<open>The state of a ledger that only its own operations wrote: its book and its adopted floor.\<close>

definition ledger_of :: "py_reader \<Rightarrow> json list \<Rightarrow> (string \<times> call_record) list \<Rightarrow> real option \<Rightarrow> bool" where
  "ledger_of pr rows book fl \<longleftrightarrow> fold_rows pr rows [] = Inr book
     \<and> (case List.find is_floor_row rows of None \<Rightarrow> fl = None | Some row \<Rightarrow> (\<exists>f. to_float pr (jget0 ''floor_usd'' row) = Inr f \<and> fl = Some f))"

definition ledger :: "(real \<Rightarrow> string) \<Rightarrow> (string \<Rightarrow> real) \<Rightarrow> py_reader \<Rightarrow> run_files \<Rightarrow> (string \<times> call_record) list \<Rightarrow> real option \<Rightarrow> bool" where
  "ledger fr flt pr s book fl \<longleftrightarrow> journal_good fr flt CALLS_LOG s \<and> ledger_of pr (journal_rows flt CALLS_LOG s) book fl"

lemma ledger_reads:
  assumes "ledger fr flt pr s book fl"
  shows "call_records flt pr s = Inr (map snd book)" "charged_usd flt pr s = Inr (round6 (book_charge book))"
    "call_record_of flt pr cid s = (case map_of book cid of None \<Rightarrow> Inl (LedgerKeyError cid) | Some r \<Rightarrow> Inr r)"
    "unreconciled_calls flt pr s = Inr (filter cr_unreconciled (map snd book))"
    "floor_usd flt pr s = Inr fl" "book_ok book"
proof -
  note j = journal_good_read[of fr flt CALLS_LOG s] and l = assms[unfolded ledger_def ledger_of_def]
  show "call_records flt pr s = Inr (map snd book)" "charged_usd flt pr s = Inr (round6 (book_charge book))"
    "call_record_of flt pr cid s = (case map_of book cid of None \<Rightarrow> Inl (LedgerKeyError cid) | Some r \<Rightarrow> Inr r)"
    "unreconciled_calls flt pr s = Inr (filter cr_unreconciled (map snd book))"
    using call_records_book[OF j, of pr book] l by blast+
  show "floor_usd flt pr s = Inr fl" using j l by (auto simp: floor_usd_def split: option.splits)
  have "book_ok []" by (simp add: book_ok_def)
  then show "book_ok book" using l fold_rows_ok by blast
qed

lemma find_snoc: "List.find p (xs @ [x]) = (case List.find p xs of Some y \<Rightarrow> Some y | None \<Rightarrow> if p x then Some x else None)"
  by (induction xs) auto

text \<open>One more row: about a call, or the floor.\<close>

lemma ledger_of_call:
  assumes "ledger_of pr rows book fl" and "row_says pr row cid reserved settled"
  shows "\<exists>r. ledger_of pr (rows @ [row]) (AList.update cid r book) fl \<and> cr_id r = cid \<and> cr_reserved r = reserved \<and> cr_settled r = settled"
proof -
  obtain r where r: "fold_row pr (map_of book cid) cid row = Inr r" "cr_id r = cid" "cr_reserved r = reserved" "cr_settled r = settled"
    and row: "row_call_id row = Some cid" "\<not> is_floor_row row"
    using assms(2) unfolding row_says_def by blast
  then have "ledger_of pr (rows @ [row]) (AList.update cid r book) fl"
    using assms(1) by (auto simp: ledger_of_def fold_rows_append find_snoc split: option.splits)
  then show ?thesis using r by blast
qed

lemma ledger_of_floor:
  assumes "ledger_of pr rows book fl"
  shows "ledger_of pr (rows @ [floor_row env f]) book (case fl of None \<Rightarrow> Some f | Some g \<Rightarrow> Some g)"
  using assms floor_row_facts[where env=env and f=f] by (auto simp: ledger_of_def fold_rows_append find_snoc split: option.splits)

lemma append_row_done:
  assumes "ledger fr flt pr s book fl" and "is_record fr flt row"
  shows "fst (append_row fr flt row s) = Inr ()" and "snd (append_row fr flt row s) = snd (append_json fr flt CALLS_LOG row s)"
proof -
  obtain rs where "holds_rows fr flt CALLS_LOG s rs" using assms(1) by (auto simp: ledger_def journal_good_def)
  from holds_rows_append(1)[OF this assms(2)] show "fst (append_row fr flt row s) = Inr ()"
    by (auto simp: append_row_def split: prod.splits sum.splits)
  show "snd (append_row fr flt row s) = snd (append_json fr flt CALLS_LOG row s)"
    by (simp add: append_row_def split: prod.splits sum.splits)
qed

lemma ledger_call:
  assumes "ledger fr flt pr s book fl" and "is_record fr flt row" and "row_says pr row cid reserved settled"
  shows "\<exists>s' r. append_row fr flt row s = (Inr (), s') \<and> ledger fr flt pr s' (AList.update cid r book) fl
    \<and> cr_id r = cid \<and> cr_reserved r = reserved \<and> cr_settled r = settled"
proof -
  have l: "journal_good fr flt CALLS_LOG s" "ledger_of pr (journal_rows flt CALLS_LOG s) book fl" using assms(1) by (simp_all add: ledger_def)
  note keeps = journal.append_keeps[OF l(1) assms(2)]
  obtain r where "ledger_of pr (journal_rows flt CALLS_LOG s @ [row]) (AList.update cid r book) fl" "cr_id r = cid"
    "cr_reserved r = reserved" "cr_settled r = settled" using ledger_of_call[OF l(2) assms(3)] by blast
  then show ?thesis using keeps[where P="\<lambda>rows. ledger_of pr rows (AList.update cid r book) fl"] append_row_done[OF assms(1,2)]
    unfolding ledger_def by (metis prod.collapse)
qed

lemma ledger_call_dies:
  assumes "ledger fr flt pr s book fl" and "is_record fr flt row" and "row_says pr row cid reserved settled"
    and "append_dies fr flt CALLS_LOG row s s'"
  shows "ledger fr flt pr s' book fl \<or> (\<exists>r. ledger fr flt pr s' (AList.update cid r book) fl
    \<and> cr_id r = cid \<and> cr_reserved r = reserved \<and> cr_settled r = settled)"
proof -
  have l: "journal_good fr flt CALLS_LOG s" "ledger_of pr (journal_rows flt CALLS_LOG s) book fl" using assms(1) by (simp_all add: ledger_def)
  obtain r where r: "ledger_of pr (journal_rows flt CALLS_LOG s @ [row]) (AList.update cid r book) fl" "cr_id r = cid"
    "cr_reserved r = reserved" "cr_settled r = settled" using ledger_of_call[OF l(2) assms(3)] by blast
  then show ?thesis using journal.dies_keeps[OF l(1) assms(2,4),
      where P="\<lambda>rows. ledger_of pr rows book fl \<or> ledger_of pr rows (AList.update cid r book) fl"] l(2)
    unfolding ledger_def by blast
qed

lemma ledger_floor:
  assumes "ledger fr flt pr s book fl" and "is_record fr flt (floor_row env f)"
  shows "\<exists>s'. append_row fr flt (floor_row env f) s = (Inr (), s') \<and> ledger fr flt pr s' book (case fl of None \<Rightarrow> Some f | Some g \<Rightarrow> Some g)"
    and "append_dies fr flt CALLS_LOG (floor_row env f) s s' \<Longrightarrow> ledger fr flt pr s' book fl
      \<or> ledger fr flt pr s' book (case fl of None \<Rightarrow> Some f | Some g \<Rightarrow> Some g)"
proof -
  let ?g = "case fl of None \<Rightarrow> Some f | Some g \<Rightarrow> Some g"
  have l: "journal_good fr flt CALLS_LOG s" "ledger_of pr (journal_rows flt CALLS_LOG s) book fl" using assms(1) by (simp_all add: ledger_def)
  note fl = ledger_of_floor[OF l(2), of env f]
  show "\<exists>s'. append_row fr flt (floor_row env f) s = (Inr (), s') \<and> ledger fr flt pr s' book ?g"
    using journal.append_keeps[OF l(1) assms(2), where P="\<lambda>rows. ledger_of pr rows book ?g"] fl append_row_done[OF assms]
    unfolding ledger_def by (metis prod.collapse)
  show "ledger fr flt pr s' book fl \<or> ledger fr flt pr s' book ?g" if "append_dies fr flt CALLS_LOG (floor_row env f) s s'"
    using journal.dies_keeps[OF l(1) assms(2) that, where P="\<lambda>rows. ledger_of pr rows book fl \<or> ledger_of pr rows book ?g"] fl l(2)
    unfolding ledger_def by blast
qed


section \<open>Effects of the operations\<close>

lemma reserve_effect:
  assumes "ledger fr flt pr s book fl" and "0 \<le> usd" and "a = mk_attempt env stage iteration usd"
    and "is_record fr flt (reserve_row env lease_s a)"
  shows "\<exists>s' r. reserve fr flt env stage iteration usd lease_s s = (Inr a, s') \<and> ledger fr flt pr s' (AList.update (ca_id a) r book) fl
    \<and> cr_id r = ca_id a \<and> cr_reserved r = usd \<and> cr_settled r = None"
  using ledger_call[OF assms(1,4) reserve_row_says] assms(2,3) by (fastforce simp: reserve_def Let_def mk_attempt_def)

text \<open>A reconciliation that does not refuse records the observation; only the provider's usage or a proof of absence settles.\<close>

lemma reconcile_effect:
  assumes "ledger fr flt pr s book fl" and "map_of book cid = Some r" and "cr_settled r = None" and "observed_usage m = Inr usage"
    and "is_record fr flt (observe_row env m usage r)"
  shows "\<exists>s' r'. reconcile fr flt pr env cid m s = (Inr r', s') \<and> ledger fr flt pr s' (AList.update cid r' book) fl
    \<and> cr_id r' = cid \<and> cr_reserved r' = cr_reserved r \<and> cr_settled r' = usage"
proof -
  have "cr_id r = cid" using ledger_reads(6)[OF assms(1)] map_of_SomeD[OF assms(2)] by (auto simp: book_ok_def)
  then obtain s' r' where a: "append_row fr flt (observe_row env m usage r) s = (Inr (), s')"
    "ledger fr flt pr s' (AList.update cid r' book) fl" "cr_id r' = cid" "cr_reserved r' = cr_reserved r" "cr_settled r' = usage"
    using ledger_call[OF assms(1,5) observe_row_says] by auto
  then have "reconcile fr flt pr env cid m s = (Inr r', s')"
    using ledger_reads(3)[OF assms(1), of cid] ledger_reads(3)[OF a(2), of cid] assms(2,3,4)
    by (simp add: reconcile_def update_conv)
  then show ?thesis using a by blast
qed

lemma reconcile_refuses:
  assumes "ledger fr flt pr s book fl"
  shows "map_of book cid = None \<Longrightarrow> reconcile fr flt pr env cid m s = (Inl (LedgerKeyError cid), s)"
    and "map_of book cid = Some r \<Longrightarrow> cr_settled r = Some c \<Longrightarrow> reconcile fr flt pr env cid m s = (Inl (ReconciliationRefused (AlreadySettled c)), s)"
    and "map_of book cid = Some r \<Longrightarrow> cr_settled r = None \<Longrightarrow> observed_usage m = Inl why
      \<Longrightarrow> reconcile fr flt pr env cid m s = (Inl (ReconciliationRefused why), s)"
  using ledger_reads(3)[OF assms, of cid] by (simp_all add: reconcile_def)

lemma settle_effect:
  assumes "ledger fr flt pr s book fl" and "0 \<le> cost" and "is_record fr flt (settle_row env cost rcpt a)"
  shows "\<exists>s' r. settle fr flt env a cost rcpt s = (Inr (), s') \<and> ledger fr flt pr s' (AList.update (ca_id a) r book) fl
    \<and> cr_id r = ca_id a \<and> cr_reserved r = ca_reserved a \<and> cr_settled r = Some cost"
  using ledger_call[OF assms(1,3) settle_row_says] assms(2) by (simp add: settle_def)

lemma mark_unknown_effect:
  assumes "ledger fr flt pr s book fl" and "is_record fr flt (unknown_row env reason observed a)"
  shows "\<exists>s' r. mark_unknown fr flt env a reason observed s = (Inr (), s') \<and> ledger fr flt pr s' (AList.update (ca_id a) r book) fl
    \<and> cr_id r = ca_id a \<and> cr_reserved r = ca_reserved a \<and> cr_settled r = None"
  using ledger_call[OF assms unknown_row_says] by (simp add: mark_unknown_def)

lemma adopt_floor_effect:
  assumes "ledger fr flt pr s book fl" and "fl = None \<Longrightarrow> is_record fr flt (floor_row env (round6 (max usd 0)))"
  shows "\<exists>s' f. adopt_floor fr flt pr env usd s = (Inr f, s') \<and> ledger fr flt pr s' book (Some f)
    \<and> f = (case fl of None \<Rightarrow> round6 (max usd 0) | Some g \<Rightarrow> g)"
proof (cases fl)
  case None
  then show ?thesis using ledger_floor(1)[OF assms(1) assms(2)] ledger_reads(5)[OF assms(1)] by (auto simp: adopt_floor_def)
next
  case (Some g)
  then show ?thesis using ledger_reads(5)[OF assms(1)] assms(1) by (auto simp: adopt_floor_def)
qed

lemma empty_ledger: "rf_journal s CALLS_LOG = [] \<Longrightarrow> ledger fr flt pr s [] None"
  using holds_rows_read[OF empty_journal_good[of s CALLS_LOG fr flt]] empty_journal_good[of s CALLS_LOG fr flt]
  by (auto simp: ledger_def ledger_of_def journal_rows_def journal_good_def)

end
