(* ===== verification/Budget.thy ===== *)
theory Budget
  imports CallAccounting
begin

text \<open>
  The run budget, the spending side of \<open>_agent\<close> in \<open>src/src/swfactory/stages.py\<close>: what a run has committed, what a call is
  granted, and the order of reservation, provider call and settlement.

  The provider (the agent process) is an argument; so are the checks \<open>_agent\<close> makes before it reserves (policy, binding, mounts,
  worktree) and after it settled, which raise or do not. \<open>observe\<close> is the sandbox's proof that a call never started, and
  \<open>validate\<close> the schema of a stage record, giving its cost.

  \<open>spend_step\<close> interleaves the ledger's operations with the provider's own billing, with processes that die inside any write,
  and with operators who reconcile. The provider's true bill is a ghost, and it may exceed what the call was granted. What the
  theorem needs of the provider: it bills only calls that were reserved, and its answer and an observation of it are the truth.
\<close>

section \<open>What a run has committed\<close>

datatype budget_error = BudgetLedger ledger_error | StageError string string | CallRaised string

record budget_cfg =
  bc_external :: bool
  bc_docker :: bool
  bc_hard_cap :: bool
  bc_run_cap :: real
  bc_stage_cap :: real

record budget_ctx =
  bx_spent :: real
  bx_seeded :: bool

definition RUN_STAGES_LOG :: string where
  "RUN_STAGES_LOG = ''stages.jsonl''"

fun validated_costs :: "(json \<Rightarrow> real option) \<Rightarrow> json list \<Rightarrow> real list option" where
  "validated_costs validate [] = Some []"
| "validated_costs validate (v # vs) =
     (case validate v of
        None \<Rightarrow> None
      | Some c \<Rightarrow> (case validated_costs validate vs of None \<Rightarrow> None | Some cs \<Rightarrow> Some (c # cs)))"

definition stage_costs :: "(string \<Rightarrow> real) \<Rightarrow> (json \<Rightarrow> real option) \<Rightarrow> run_files \<Rightarrow> budget_error + real" where
  "stage_costs flt validate s =
     (case read_jsonl flt RUN_STAGES_LOG s of
        Inl e \<Rightarrow> Inl (StageError ''policy'' ''run journal is corrupt'')
      | Inr vs \<Rightarrow>
          (case validated_costs validate vs of
             None \<Rightarrow> Inl (StageError ''policy'' ''run journal is corrupt'')
           | Some cs \<Rightarrow> Inr (sum_list cs)))"

definition observed_cost :: "(string \<Rightarrow> real) \<Rightarrow> py_reader \<Rightarrow> run_files \<Rightarrow> budget_error + real" where
  "observed_cost flt pr s =
     (case floor_usd flt pr s of
        Inl e \<Rightarrow> Inl (BudgetLedger e)
      | Inr fl \<Rightarrow>
     (case call_records flt pr s of
        Inl e \<Rightarrow> Inl (BudgetLedger e)
      | Inr rs \<Rightarrow> Inr ((case fl of None \<Rightarrow> 0 | Some f \<Rightarrow> f) + sum_list (map (\<lambda>r. case cr_settled r of None \<Rightarrow> 0 | Some c \<Rightarrow> c) rs))))"

definition persisted_cost :: "budget_cfg \<Rightarrow> (string \<Rightarrow> real) \<Rightarrow> py_reader \<Rightarrow> (json \<Rightarrow> real option) \<Rightarrow> run_files \<Rightarrow> budget_error + real" where
  "persisted_cost cfg flt pr validate s = (if bc_external cfg then observed_cost flt pr s else stage_costs flt validate s)"

definition lift_ledger :: "(ledger_error + 'a) \<times> run_files \<Rightarrow> (budget_error + 'a) \<times> run_files" where
  "lift_ledger x = (case x of (Inl e, s) \<Rightarrow> (Inl (BudgetLedger e), s) | (Inr v, s) \<Rightarrow> (Inr v, s))"

definition floor_amount :: "budget_cfg \<Rightarrow> (string \<Rightarrow> real) \<Rightarrow> py_reader \<Rightarrow> (json \<Rightarrow> real option) \<Rightarrow> run_files \<Rightarrow> budget_error + real" where
  "floor_amount cfg flt pr validate s =
     (case call_records flt pr s of
        Inl e \<Rightarrow> Inl (BudgetLedger e)
      | Inr rs \<Rightarrow> if rs \<noteq> [] then Inr 0 else persisted_cost cfg flt pr validate s)"

definition run_floor ::
  "budget_cfg \<Rightarrow> (real \<Rightarrow> string) \<Rightarrow> (string \<Rightarrow> real) \<Rightarrow> py_reader \<Rightarrow> (json \<Rightarrow> real option) \<Rightarrow> call_env \<Rightarrow> run_files
     \<Rightarrow> (budget_error + real) \<times> run_files" where
  "run_floor cfg fr flt pr validate env s =
     (case floor_usd flt pr s of
        Inl e \<Rightarrow> (Inl (BudgetLedger e), s)
      | Inr (Some f) \<Rightarrow> (Inr f, s)
      | Inr None \<Rightarrow>
          (case floor_amount cfg flt pr validate s of
             Inl e \<Rightarrow> (Inl e, s)
           | Inr usd \<Rightarrow> lift_ledger (adopt_floor fr flt pr env usd s)))"

definition persisted_spend ::
  "budget_cfg \<Rightarrow> (real \<Rightarrow> string) \<Rightarrow> (string \<Rightarrow> real) \<Rightarrow> py_reader \<Rightarrow> (json \<Rightarrow> real option) \<Rightarrow> call_env \<Rightarrow> run_files
     \<Rightarrow> (budget_error + real) \<times> run_files" where
  "persisted_spend cfg fr flt pr validate env s =
     (case run_floor cfg fr flt pr validate env s of
        (Inl e, s') \<Rightarrow> (Inl e, s')
      | (Inr f, s') \<Rightarrow>
          (case charged_usd flt pr s' of Inl e \<Rightarrow> (Inl (BudgetLedger e), s') | Inr c \<Rightarrow> (Inr (round6 (f + c)), s')))"

text \<open>\<open>seed_budget\<close> once a process has its context, and with \<open>refresh\<close>.\<close>

definition seeded_spent :: "budget_cfg \<Rightarrow> budget_ctx \<Rightarrow> real \<Rightarrow> real" where
  "seeded_spent cfg ctx persisted =
     (if \<not> bx_seeded ctx then bx_spent ctx + persisted
      else if bc_external cfg then persisted else max (bx_spent ctx) persisted)"

definition seed_budget ::
  "budget_cfg \<Rightarrow> (real \<Rightarrow> string) \<Rightarrow> (string \<Rightarrow> real) \<Rightarrow> py_reader \<Rightarrow> (json \<Rightarrow> real option) \<Rightarrow> call_env \<Rightarrow> bool \<Rightarrow> budget_ctx \<Rightarrow> run_files
     \<Rightarrow> (budget_error + real) \<times> budget_ctx \<times> run_files" where
  "seed_budget cfg fr flt pr validate env refresh ctx s =
     (if bx_seeded ctx \<and> \<not> refresh then (Inr (bx_spent ctx), ctx, s)
      else case persisted_spend cfg fr flt pr validate env s of
        (Inl e, s') \<Rightarrow> (Inl e, ctx, s')
      | (Inr p, s') \<Rightarrow>
          let spent = seeded_spent cfg ctx p in (Inr spent, \<lparr>bx_spent = spent, bx_seeded = True\<rparr>, s'))"

section \<open>One agent call\<close>

text \<open>The calls a sandbox can prove never started are reconciled before the ceiling is read.\<close>

fun recover_calls ::
  "(real \<Rightarrow> string) \<Rightarrow> (string \<Rightarrow> real) \<Rightarrow> py_reader \<Rightarrow> call_env \<Rightarrow> (string \<Rightarrow> budget_error + mutation_outcome option) \<Rightarrow> call_record list \<Rightarrow> run_files
     \<Rightarrow> (budget_error + unit) \<times> run_files" where
  "recover_calls fr flt pr env observe [] s = (Inr (), s)"
| "recover_calls fr flt pr env observe (r # rs) s =
     (case observe (cr_id r) of
        Inl e \<Rightarrow> (Inl e, s)
      | Inr None \<Rightarrow> recover_calls fr flt pr env observe rs s
      | Inr (Some m) \<Rightarrow>
          (case reconcile fr flt pr env (cr_id r) m s of
             (Inl e, s') \<Rightarrow> (Inl (BudgetLedger e), s')
           | (Inr _, s') \<Rightarrow> recover_calls fr flt pr env observe rs s'))"

definition recover_external ::
  "budget_cfg \<Rightarrow> (real \<Rightarrow> string) \<Rightarrow> (string \<Rightarrow> real) \<Rightarrow> py_reader \<Rightarrow> call_env \<Rightarrow> (string \<Rightarrow> budget_error + mutation_outcome option) \<Rightarrow> run_files
     \<Rightarrow> (budget_error + unit) \<times> run_files" where
  "recover_external cfg fr flt pr env observe s =
     (if \<not> (bc_external cfg \<and> bc_docker cfg) then (Inr (), s)
      else case unreconciled_calls flt pr s of
        Inl e \<Rightarrow> (Inl (BudgetLedger e), s)
      | Inr rs \<Rightarrow> recover_calls fr flt pr env observe rs s)"

text \<open>An external paid attempt of the same stage and iteration that nobody resolved refuses the next one.\<close>

definition unresolved_attempt :: "budget_cfg \<Rightarrow> (string \<Rightarrow> real) \<Rightarrow> py_reader \<Rightarrow> string \<Rightarrow> int \<Rightarrow> run_files \<Rightarrow> budget_error option" where
  "unresolved_attempt cfg flt pr stage iteration s =
     (if \<not> (bc_external cfg \<and> bc_hard_cap cfg) then None
      else case unreconciled_calls flt pr s of
        Inl e \<Rightarrow> Some (BudgetLedger e)
      | Inr rs \<Rightarrow>
          if list_ex (\<lambda>r. cr_stage r = stage \<and> cr_iteration r = iteration) rs
          then Some (StageError ''policy'' ''external paid attempt is unresolved'') else None)"

definition reserve_granted ::
  "budget_cfg \<Rightarrow> (real \<Rightarrow> string) \<Rightarrow> (string \<Rightarrow> real) \<Rightarrow> py_reader \<Rightarrow> call_env \<Rightarrow> budget_error option \<Rightarrow> string \<Rightarrow> int \<Rightarrow> real \<Rightarrow> run_files
     \<Rightarrow> (budget_error + call_attempt) \<times> run_files" where
  "reserve_granted cfg fr flt pr env preflight stage iteration granted s =
     (case preflight of
        Some e \<Rightarrow> (Inl e, s)
      | None \<Rightarrow>
     (case unresolved_attempt cfg flt pr stage iteration s of
        Some e \<Rightarrow> (Inl e, s)
      | None \<Rightarrow> lift_ledger (reserve fr flt env stage iteration granted DEFAULT_LEASE_S s)))"

definition agent_open ::
  "budget_cfg \<Rightarrow> (real \<Rightarrow> string) \<Rightarrow> (string \<Rightarrow> real) \<Rightarrow> py_reader \<Rightarrow> (json \<Rightarrow> real option) \<Rightarrow> call_env
     \<Rightarrow> (string \<Rightarrow> budget_error + mutation_outcome option) \<Rightarrow> budget_error option \<Rightarrow> string \<Rightarrow> int \<Rightarrow> budget_ctx \<Rightarrow> run_files
     \<Rightarrow> (budget_error + call_attempt) \<times> budget_ctx \<times> run_files" where
  "agent_open cfg fr flt pr validate env observe preflight stage iteration ctx s =
     (case recover_external cfg fr flt pr env observe s of
        (Inl e, s1) \<Rightarrow> (Inl e, ctx, s1)
      | (Inr _, s1) \<Rightarrow>
     (case seed_budget cfg fr flt pr validate env True ctx s1 of
        (Inl e, ctx2, s2) \<Rightarrow> (Inl e, ctx2, s2)
      | (Inr spent, ctx2, s2) \<Rightarrow>
          if bc_run_cap cfg - spent \<le> 0 then (Inl (StageError ''policy'' ''run budget exhausted''), ctx2, s2)
          else case reserve_granted cfg fr flt pr env preflight stage iteration (min (bc_stage_cap cfg) (bc_run_cap cfg - spent)) s2 of
            (r, s3) \<Rightarrow> (r, ctx2, s3)))"

datatype agent_answer = AgentRaises string | AgentAnswers "real option" json json "budget_error option"

definition agent_close ::
  "budget_cfg \<Rightarrow> (real \<Rightarrow> string) \<Rightarrow> (string \<Rightarrow> real) \<Rightarrow> py_reader \<Rightarrow> call_env \<Rightarrow> (string \<Rightarrow> budget_error + mutation_outcome option)
     \<Rightarrow> call_attempt \<Rightarrow> agent_answer \<Rightarrow> budget_ctx \<Rightarrow> run_files \<Rightarrow> (budget_error + unit) \<times> budget_ctx \<times> run_files" where
  "agent_close cfg fr flt pr env observe a answer ctx s =
     (case answer of
        AgentRaises why \<Rightarrow>
          (case (if bc_external cfg \<and> bc_docker cfg then observe (ca_id a) else Inr None) of
             Inl e \<Rightarrow> (Inl e, ctx, s)
           | Inr (Some m) \<Rightarrow>
               (case reconcile fr flt pr env (ca_id a) m s of
                  (Inl e, s') \<Rightarrow> (Inl (BudgetLedger e), ctx, s')
                | (Inr _, s') \<Rightarrow> (Inl (CallRaised why), ctx, s'))
           | Inr None \<Rightarrow>
               (case mark_unknown fr flt env a why JNull s of
                  (Inl e, s') \<Rightarrow> (Inl (BudgetLedger e), ctx, s')
                | (Inr _, s') \<Rightarrow> (Inl (CallRaised why), ctx, s')))
      | AgentAnswers cost rcpt observed post \<Rightarrow>
          (case (case cost of
                   None \<Rightarrow> mark_unknown fr flt env a ''external usage requires a trusted provider observation'' observed s
                 | Some c \<Rightarrow> settle fr flt env a c rcpt s) of
             (Inl e, s') \<Rightarrow> (Inl (BudgetLedger e), ctx, s')
           | (Inr _, s') \<Rightarrow>
               let ctx' = ctx\<lparr>bx_spent := bx_spent ctx + (case cost of None \<Rightarrow> 0 | Some c \<Rightarrow> c)\<rparr> in
               (if bc_run_cap cfg < bx_spent ctx' then Inl (StageError ''policy'' ''run budget exceeded'')
                else case post of None \<Rightarrow> Inr () | Some e \<Rightarrow> Inl e, ctx', s')))"


section \<open>Spending with crashes\<close>

record spending =
  sg_files :: run_files
  sg_bill :: "string \<Rightarrow> real"
  sg_final :: "string \<Rightarrow> bool"
  sg_open :: "call_attempt option"

text \<open>An observation that tells the truth about a call: its usage is the bill, absence means that nothing was billed.\<close>

definition true_outcome :: "spending \<Rightarrow> string \<Rightarrow> mutation_outcome \<Rightarrow> bool" where
  "true_outcome g cid m \<longleftrightarrow> (\<forall>u. observed_usage m = Inr (Some u) \<longrightarrow> u = sg_bill g cid)"

definition outcome_written :: "(real \<Rightarrow> string) \<Rightarrow> (string \<Rightarrow> real) \<Rightarrow> py_reader \<Rightarrow> call_env \<Rightarrow> string \<Rightarrow> mutation_outcome \<Rightarrow> run_files \<Rightarrow> bool" where
  "outcome_written fr flt pr env cid m s \<longleftrightarrow>
     (\<forall>r usage. call_record_of flt pr cid s = Inr r \<longrightarrow> observed_usage m = Inr usage \<longrightarrow> is_record fr flt (observe_row env m usage r))"

definition close_if :: "string \<Rightarrow> call_attempt option \<Rightarrow> call_attempt option" where
  "close_if cid oa = (case oa of None \<Rightarrow> None | Some a \<Rightarrow> if ca_id a = cid then None else Some a)"

definition finalise :: "string \<Rightarrow> mutation_outcome \<Rightarrow> (string \<Rightarrow> bool) \<Rightarrow> string \<Rightarrow> bool" where
  "finalise cid m fin = (if releasing (mo_status m) then fin(cid := True) else fin)"

definition may_reserve ::
  "budget_cfg \<Rightarrow> (string \<Rightarrow> real) \<Rightarrow> py_reader \<Rightarrow> call_attempt \<Rightarrow> run_files \<Rightarrow> bool" where
  "may_reserve cfg flt pr a s \<longleftrightarrow>
     (\<exists>f c spent. floor_usd flt pr s = Inr (Some f) \<and> charged_usd flt pr s = Inr c \<and> round6 (f + c) \<le> spent
        \<and> 0 < bc_run_cap cfg - spent \<and> ca_reserved a = min (bc_stage_cap cfg) (bc_run_cap cfg - spent))
     \<and> call_record_of flt pr (ca_id a) s = Inl (LedgerKeyError (ca_id a))"

inductive spend_step ::
  "budget_cfg \<Rightarrow> (real \<Rightarrow> string) \<Rightarrow> (string \<Rightarrow> real) \<Rightarrow> py_reader \<Rightarrow> spending \<Rightarrow> spending \<Rightarrow> bool"
  for cfg fr flt pr where
  sp_bill: "call_record_of flt pr cid (sg_files g) = Inr r \<Longrightarrow> \<not> sg_final g cid \<Longrightarrow> 0 \<le> x
    \<Longrightarrow> spend_step cfg fr flt pr g (g\<lparr>sg_bill := (sg_bill g)(cid := sg_bill g cid + x)\<rparr>)"
| sp_floor: "call_records flt pr (sg_files g) = Inr rs \<Longrightarrow> rs = [] \<or> usd = 0 \<Longrightarrow> is_record fr flt (floor_row env (round6 (max usd 0)))
    \<Longrightarrow> adopt_floor fr flt pr env usd (sg_files g) = (res, s') \<Longrightarrow> spend_step cfg fr flt pr g (g\<lparr>sg_files := s'\<rparr>)"
| sp_floor_dies: "floor_usd flt pr (sg_files g) = Inr None \<Longrightarrow> is_record fr flt (floor_row env (round6 (max usd 0)))
    \<Longrightarrow> append_dies fr flt CALLS_LOG (floor_row env (round6 (max usd 0))) (sg_files g) s'
    \<Longrightarrow> spend_step cfg fr flt pr g (g\<lparr>sg_files := s', sg_open := None\<rparr>)"
| sp_reserve: "sg_open g = None \<Longrightarrow> a = mk_attempt env stage iteration usd \<Longrightarrow> may_reserve cfg flt pr a (sg_files g)
    \<Longrightarrow> is_record fr flt (reserve_row env lease a) \<Longrightarrow> reserve fr flt env stage iteration usd lease (sg_files g) = (Inr a, s')
    \<Longrightarrow> spend_step cfg fr flt pr g (g\<lparr>sg_files := s', sg_open := Some a\<rparr>)"
| sp_reserve_dies: "a = mk_attempt env stage iteration usd \<Longrightarrow> may_reserve cfg flt pr a (sg_files g) \<Longrightarrow> 0 \<le> usd
    \<Longrightarrow> is_record fr flt (reserve_row env lease a) \<Longrightarrow> append_dies fr flt CALLS_LOG (reserve_row env lease a) (sg_files g) s'
    \<Longrightarrow> spend_step cfg fr flt pr g (g\<lparr>sg_files := s', sg_open := None\<rparr>)"
| sp_settle: "sg_open g = Some a \<Longrightarrow> cost = sg_bill g (ca_id a) \<Longrightarrow> is_record fr flt (settle_row env cost rcpt a)
    \<Longrightarrow> settle fr flt env a cost rcpt (sg_files g) = (res, s')
    \<Longrightarrow> spend_step cfg fr flt pr g (g\<lparr>sg_files := s', sg_final := (sg_final g)(ca_id a := True), sg_open := None\<rparr>)"
| sp_settle_dies: "sg_open g = Some a \<Longrightarrow> cost = sg_bill g (ca_id a) \<Longrightarrow> is_record fr flt (settle_row env cost rcpt a)
    \<Longrightarrow> append_dies fr flt CALLS_LOG (settle_row env cost rcpt a) (sg_files g) s'
    \<Longrightarrow> spend_step cfg fr flt pr g (g\<lparr>sg_files := s', sg_final := (sg_final g)(ca_id a := True), sg_open := None\<rparr>)"
| sp_unknown: "sg_open g = Some a \<Longrightarrow> is_record fr flt (unknown_row env why obs a)
    \<Longrightarrow> mark_unknown fr flt env a why obs (sg_files g) = (res, s')
    \<Longrightarrow> spend_step cfg fr flt pr g (g\<lparr>sg_files := s', sg_open := None\<rparr>)"
| sp_unknown_dies: "sg_open g = Some a \<Longrightarrow> is_record fr flt (unknown_row env why obs a)
    \<Longrightarrow> append_dies fr flt CALLS_LOG (unknown_row env why obs a) (sg_files g) s'
    \<Longrightarrow> spend_step cfg fr flt pr g (g\<lparr>sg_files := s', sg_open := None\<rparr>)"
| sp_reconcile: "true_outcome g cid m \<Longrightarrow> outcome_written fr flt pr env cid m (sg_files g)
    \<Longrightarrow> reconcile fr flt pr env cid m (sg_files g) = (res, s')
    \<Longrightarrow> spend_step cfg fr flt pr g
      (g\<lparr>sg_files := s', sg_final := finalise cid m (sg_final g), sg_open := close_if cid (sg_open g)\<rparr>)"
| sp_reconcile_dies: "true_outcome g cid m \<Longrightarrow> call_record_of flt pr cid (sg_files g) = Inr r \<Longrightarrow> cr_settled r = None
    \<Longrightarrow> observed_usage m = Inr usage \<Longrightarrow> is_record fr flt (observe_row env m usage r)
    \<Longrightarrow> append_dies fr flt CALLS_LOG (observe_row env m usage r) (sg_files g) s'
    \<Longrightarrow> spend_step cfg fr flt pr g (g\<lparr>sg_files := s', sg_final := finalise cid m (sg_final g), sg_open := None\<rparr>)"
| sp_dies: "spend_step cfg fr flt pr g (g\<lparr>sg_open := None\<rparr>)"

definition spend_init :: "spending \<Rightarrow> bool" where
  "spend_init g \<longleftrightarrow> rf_journal (sg_files g) CALLS_LOG = [] \<and> sg_bill g = (\<lambda>cid. 0) \<and> sg_final g = (\<lambda>cid. False) \<and> sg_open g = None"

section \<open>The ledger bounds the bill\<close>

definition floor_of :: "real option \<Rightarrow> real" where
  "floor_of fl = (case fl of None \<Rightarrow> 0 | Some f \<Rightarrow> f)"

text \<open>What the provider billed above the grant of a call, and the part of a charge that the grant covers.\<close>

definition overbilled :: "(string \<Rightarrow> real) \<Rightarrow> call_record \<Rightarrow> real" where
  "overbilled bill r = max 0 (bill (cr_id r) - cr_reserved r)"

definition granted_charge :: "call_record \<Rightarrow> real" where
  "granted_charge r = min (cr_charge r) (cr_reserved r)"

definition book_granted :: "(string \<times> call_record) list \<Rightarrow> real" where
  "book_granted book = sum_list (map (granted_charge \<circ> snd) book)"

lemma book_granted_update:
  assumes "distinct (map fst book)"
  shows "book_granted (AList.update k r book)
     = book_granted book + granted_charge r - (case map_of book k of None \<Rightarrow> 0 | Some old \<Rightarrow> granted_charge old)"
  using assms by (induction book) (auto simp: book_granted_def map_of_eq_None_iff split: option.splits dest: map_of_SomeD)

lemma book_granted_le: "book_granted book \<le> book_charge book"
  unfolding book_granted_def book_charge_def by (intro sum_list_mono) (simp add: granted_charge_def)

text \<open>One entry of the book against the provider.\<close>

definition entry_ok :: "spending \<Rightarrow> string \<Rightarrow> call_record \<Rightarrow> bool" where
  "entry_ok g cid r \<longleftrightarrow> cr_id r = cid \<and> 0 \<le> sg_bill g cid
     \<and> (\<forall>c. cr_settled r = Some c \<longrightarrow> sg_final g cid \<and> c = sg_bill g cid)"

definition spend_books :: "budget_cfg \<Rightarrow> spending \<Rightarrow> (string \<times> call_record) list \<Rightarrow> real option \<Rightarrow> bool" where
  "spend_books cfg g book fl \<longleftrightarrow>
     (fl = None \<longrightarrow> book = []) \<and> 0 \<le> floor_of fl
     \<and> (\<forall>cid. map_of book cid = None \<longrightarrow> sg_bill g cid = 0) \<and> (\<forall>cid r. map_of book cid = Some r \<longrightarrow> entry_ok g cid r)
     \<and> (\<forall>a. sg_open g = Some a \<longrightarrow> (\<exists>r. map_of book (ca_id a) = Some r \<and> cr_reserved r = ca_reserved a \<and> cr_settled r = None))
     \<and> floor_of fl + book_granted book \<le> max (bc_run_cap cfg + 1 / 1000000) (floor_of fl)"

definition spend_inv :: "budget_cfg \<Rightarrow> (real \<Rightarrow> string) \<Rightarrow> (string \<Rightarrow> real) \<Rightarrow> py_reader \<Rightarrow> spending \<Rightarrow> bool" where
  "spend_inv cfg fr flt pr g \<longleftrightarrow> (\<exists>book fl. ledger fr flt pr (sg_files g) book fl \<and> spend_books cfg g book fl)"

lemma entry_charge:
  assumes "entry_ok g cid r"
  shows "sg_bill g (cr_id r) \<le> cr_charge r \<or> cr_settled r = None \<and> cr_reserved r < sg_bill g (cr_id r)"
    and "sg_bill g (cr_id r) \<le> cr_charge r + (if cr_settled r = None then overbilled (sg_bill g) r else 0)"
    and "sg_bill g (cr_id r) \<le> granted_charge r + overbilled (sg_bill g) r"
  using assms by (auto simp: entry_ok_def cr_charge_def granted_charge_def overbilled_def split: option.splits)

text \<open>An entry replaced by a row about the same reservation: its charge uses no more of the grant than before.\<close>

lemma books_replace:
  assumes "spend_books cfg g book fl" and "book_ok book" and "map_of book cid = Some old"
    and "cr_id r = cid" and "cr_reserved r = cr_reserved old" and "granted_charge r \<le> granted_charge old"
    and "\<And>c. cr_settled r = Some c \<Longrightarrow> fin cid \<and> c = sg_bill g cid"
    and "\<And>k. sg_final g k \<Longrightarrow> fin k"
    and "\<And>a. oa = Some a \<Longrightarrow> sg_open g = Some a \<and> ca_id a \<noteq> cid"
  shows "spend_books cfg (g\<lparr>sg_files := s', sg_final := fin, sg_open := oa\<rparr>) (AList.update cid r book) fl"
proof -
  have "book_granted (AList.update cid r book) \<le> book_granted book"
    using book_granted_update[of book cid r] assms(2,3,6) by (simp add: book_ok_def)
  moreover have "entry_ok g cid old" using assms(1,3) by (simp add: spend_books_def)
  ultimately show ?thesis using assms unfolding spend_books_def entry_ok_def by (simp add: update_conv) fastforce
qed


lemma books_add:
  assumes "spend_books cfg g book fl" and "book_ok book" and "map_of book cid = None" and "fl \<noteq> None"
    and "cr_id r = cid" and "cr_settled r = None" and "0 \<le> cr_reserved r"
    and "floor_of fl + book_charge book + cr_reserved r \<le> bc_run_cap cfg + 1 / 1000000"
    and "oa = None \<or> (\<exists>a. oa = Some a \<and> ca_id a = cid \<and> ca_reserved a = cr_reserved r)"
  shows "spend_books cfg (g\<lparr>sg_files := s', sg_open := oa\<rparr>) (AList.update cid r book) fl"
proof -
  have "book_granted (AList.update cid r book) \<le> book_charge book + cr_reserved r"
    using book_granted_update[of book cid r] book_granted_le[of book] assms(2,3,6) by (simp add: book_ok_def granted_charge_def)
  then show ?thesis using assms unfolding spend_books_def entry_ok_def by (auto simp: update_conv)
qed

lemma reserve_room:
  assumes "ledger fr flt pr s book fl" and "may_reserve cfg flt pr a s"
  shows "fl \<noteq> None" and "map_of book (ca_id a) = None" and "floor_of fl + book_charge book + ca_reserved a \<le> bc_run_cap cfg + 1 / 1000000"
proof -
  note reads = ledger_reads[OF assms(1)]
  obtain f c spent where m: "floor_usd flt pr s = Inr (Some f)" "charged_usd flt pr s = Inr c" "round6 (f + c) \<le> spent"
    "ca_reserved a = min (bc_stage_cap cfg) (bc_run_cap cfg - spent)" "call_record_of flt pr (ca_id a) s = Inl (LedgerKeyError (ca_id a))"
    using assms(2) by (auto simp: may_reserve_def)
  have fc: "fl = Some f" "c = round6 (book_charge book)" using m reads by simp_all
  then show "fl \<noteq> None" by simp
  show "map_of book (ca_id a) = None" using m(5) reads(3)[of "ca_id a"] by (simp split: option.splits)
  have "f + book_charge book \<le> round6 (f + c) + 1 / 1000000"
    using round6_near[of "f + c"] round6_near[of "book_charge book"] fc(2) by linarith
  then show "floor_of fl + book_charge book + ca_reserved a \<le> bc_run_cap cfg + 1 / 1000000"
    using m(3,4) fc(1) by (simp add: floor_of_def)
qed

lemma record_in_book:
  assumes "ledger fr flt pr s book fl" and "call_record_of flt pr cid s = Inr r"
  shows "map_of book cid = Some r"
  using assms(2) ledger_reads(3)[OF assms(1), of cid] by (simp split: option.splits)

lemma releasing_usage: "observed_usage m = Inr usage \<Longrightarrow> releasing (mo_status m) \<longleftrightarrow> usage \<noteq> None"
  by (auto simp: observed_usage_def split: if_splits option.splits dest: sym)

text \<open>A row about an entry of the book, written whole or not at all.\<close>

lemma replace_written:
  assumes "ledger fr flt pr (sg_files g) book fl" and "spend_books cfg g book fl"
    and "ledger fr flt pr s' book fl \<or> (\<exists>r. ledger fr flt pr s' (AList.update cid r book) fl \<and> cr_id r = cid \<and> cr_reserved r = cr_reserved old \<and> cr_settled r = st)"
    and "map_of book cid = Some old" and "cr_settled old = None" and "st = None \<or> (st = Some (sg_bill g cid) \<and> fin cid)"
    and "\<And>k. sg_final g k \<Longrightarrow> fin k" and "\<And>a. oa = Some a \<Longrightarrow> sg_open g = Some a \<and> ca_id a \<noteq> cid"
  shows "spend_inv cfg fr flt pr (g\<lparr>sg_files := s', sg_final := fin, sg_open := oa\<rparr>)"
  using assms(3)
proof
  assume l: "ledger fr flt pr s' book fl"
  have "spend_books cfg (g\<lparr>sg_files := s', sg_final := fin, sg_open := oa\<rparr>) book fl"
    using assms(2,7,8) unfolding spend_books_def entry_ok_def by simp
  then show ?thesis using l unfolding spend_inv_def by auto
next
  assume "\<exists>r. ledger fr flt pr s' (AList.update cid r book) fl \<and> cr_id r = cid \<and> cr_reserved r = cr_reserved old \<and> cr_settled r = st"
  then obtain r where r: "ledger fr flt pr s' (AList.update cid r book) fl" "cr_id r = cid" "cr_reserved r = cr_reserved old" "cr_settled r = st" by blast
  have "granted_charge r \<le> granted_charge old" using r(3) assms(5) by (simp add: granted_charge_def cr_charge_def)
  then have "spend_books cfg (g\<lparr>sg_files := s', sg_final := fin, sg_open := oa\<rparr>) (AList.update cid r book) fl"
    using r assms(6) by (intro books_replace[OF assms(2) ledger_reads(6)[OF assms(1)] assms(4)] assms(7,8)) auto
  then show ?thesis using r(1) unfolding spend_inv_def by auto
qed

lemma reserve_written:
  assumes "ledger fr flt pr (sg_files g) book fl" and "spend_books cfg g book fl" and "may_reserve cfg flt pr a (sg_files g)"
    and "ledger fr flt pr s' (AList.update (ca_id a) r book) fl" "cr_id r = ca_id a" "cr_reserved r = ca_reserved a" "cr_settled r = None"
    and "0 \<le> ca_reserved a" and "oa = None \<or> oa = Some a"
  shows "spend_inv cfg fr flt pr (g\<lparr>sg_files := s', sg_open := oa\<rparr>)"
  using books_add[OF assms(2) ledger_reads(6)[OF assms(1)] reserve_room(2)[OF assms(1,3)] reserve_room(1)[OF assms(1,3)], of r oa s']
    reserve_room(3)[OF assms(1,3)] assms(4-) unfolding spend_inv_def by auto

lemma floor_written:
  assumes "spend_books cfg g book fl" and "ledger fr flt pr s' book (Some f)" and "fl = None \<Longrightarrow> 0 \<le> f" and "\<And>h. fl = Some h \<Longrightarrow> f = h"
  shows "spend_books cfg (g\<lparr>sg_files := s'\<rparr>) book (Some f)"
  using assms by (cases fl) (auto simp: spend_books_def entry_ok_def floor_of_def book_granted_def)


lemma books_kept:
  assumes "spend_books cfg g book fl" and "\<And>k. sg_final g k \<Longrightarrow> fin k" and "\<And>a. oa = Some a \<Longrightarrow> sg_open g = Some a"
    and "ledger fr flt pr s' book fl"
  shows "spend_inv cfg fr flt pr (g\<lparr>sg_files := s', sg_final := fin, sg_open := oa\<rparr>)"
proof -
  have "spend_books cfg (g\<lparr>sg_files := s', sg_final := fin, sg_open := oa\<rparr>) book fl"
    using assms(1-3) unfolding spend_books_def entry_ok_def by simp
  then show ?thesis using assms(4) unfolding spend_inv_def by auto
qed

lemma finalise_facts: "fin k \<Longrightarrow> finalise cid m fin k" "observed_usage m = Inr (Some u) \<Longrightarrow> finalise cid m fin cid"
    "close_if cid oa = Some a \<Longrightarrow> oa = Some a \<and> ca_id a \<noteq> cid"
  using releasing_usage[of m "Some u"] by (auto simp: finalise_def close_if_def split: option.splits if_splits)

lemma reconcile_keeps:
  assumes l: "ledger fr flt pr (sg_files g) book fl" and b: "spend_books cfg g book fl" and "true_outcome g cid m"
    and "outcome_written fr flt pr env cid m (sg_files g)" and res: "reconcile fr flt pr env cid m (sg_files g) = (res, s')"
  shows "spend_inv cfg fr flt pr (g\<lparr>sg_files := s', sg_final := finalise cid m (sg_final g), sg_open := close_if cid (sg_open g)\<rparr>)"
proof (cases "\<exists>r usage. map_of book cid = Some r \<and> cr_settled r = None \<and> observed_usage m = Inr usage")
  case True
  then obtain r usage where r: "map_of book cid = Some r" "cr_settled r = None" "observed_usage m = Inr usage" by blast
  then have row: "is_record fr flt (observe_row env m usage r)" using assms(4) ledger_reads(3)[OF l, of cid] by (simp add: outcome_written_def)
  obtain r' where "ledger fr flt pr s' (AList.update cid r' book) fl" "cr_id r' = cid" "cr_reserved r' = cr_reserved r" "cr_settled r' = usage"
    using reconcile_effect[OF l r row] res by auto
  then show ?thesis using r assms(3) finalise_facts
    by (intro replace_written[OF l b _ r(1,2), of s' usage]) (cases usage; auto simp: true_outcome_def)+
next
  case False
  then have "s' = sg_files g" using reconcile_refuses[OF l] res by (cases "map_of book cid"; cases "observed_usage m") (auto, metis option.exhaust_sel prod.inject)
  then show ?thesis using l finalise_facts by (intro books_kept[OF b]) auto
qed

lemma reconcile_dies_keeps:
  assumes l: "ledger fr flt pr (sg_files g) book fl" and b: "spend_books cfg g book fl" and "true_outcome g cid m"
    and r: "call_record_of flt pr cid (sg_files g) = Inr r" "cr_settled r = None" "observed_usage m = Inr usage"
    and "is_record fr flt (observe_row env m usage r)" and "append_dies fr flt CALLS_LOG (observe_row env m usage r) (sg_files g) s'"
  shows "spend_inv cfg fr flt pr (g\<lparr>sg_files := s', sg_final := finalise cid m (sg_final g), sg_open := None\<rparr>)"
proof -
  note old = record_in_book[OF l r(1)]
  have "cr_id r = cid" using ledger_reads(6)[OF l] map_of_SomeD[OF old] by (auto simp: book_ok_def)
  then have "ledger fr flt pr s' book fl \<or> (\<exists>r'. ledger fr flt pr s' (AList.update cid r' book) fl \<and> cr_id r' = cid
      \<and> cr_reserved r' = cr_reserved r \<and> cr_settled r' = usage)"
    using ledger_call_dies[OF l assms(7) observe_row_says assms(8)] by simp
  then show ?thesis using r(3) assms(3) finalise_facts
    by (intro replace_written[OF l b _ old r(2), of s' usage]) (cases usage; auto simp: true_outcome_def)+
qed

text \<open>A row about the call in flight.\<close>

lemma open_row_keeps:
  assumes l: "ledger fr flt pr (sg_files g) book fl" and b: "spend_books cfg g book fl" and op: "sg_open g = Some a"
    and "ledger fr flt pr s' book fl \<or> (\<exists>r. ledger fr flt pr s' (AList.update (ca_id a) r book) fl \<and> cr_id r = ca_id a
      \<and> cr_reserved r = ca_reserved a \<and> cr_settled r = st)"
    and "st = None \<or> (st = Some (sg_bill g (ca_id a)) \<and> fin (ca_id a))" and "\<And>k. sg_final g k \<Longrightarrow> fin k"
  shows "spend_inv cfg fr flt pr (g\<lparr>sg_files := s', sg_final := fin, sg_open := None\<rparr>)"
proof -
  obtain old where old: "map_of book (ca_id a) = Some old" "cr_reserved old = ca_reserved a" "cr_settled old = None"
    using b op by (auto simp: spend_books_def)
  show ?thesis using assms(4-6) old(2) by (intro replace_written[OF l b _ old(1) old(3), of s' st]) auto
qed

lemma reserve_keeps:
  assumes l: "ledger fr flt pr (sg_files g) book fl" and b: "spend_books cfg g book fl" and a: "a = mk_attempt env stage iteration usd"
    and may: "may_reserve cfg flt pr a (sg_files g)" and row: "is_record fr flt (reserve_row env lease a)"
  shows "reserve fr flt env stage iteration usd lease (sg_files g) = (Inr a, s') \<Longrightarrow> spend_inv cfg fr flt pr (g\<lparr>sg_files := s', sg_open := Some a\<rparr>)"
    and "0 \<le> usd \<Longrightarrow> append_dies fr flt CALLS_LOG (reserve_row env lease a) (sg_files g) s' \<Longrightarrow> spend_inv cfg fr flt pr (g\<lparr>sg_files := s', sg_open := None\<rparr>)"
proof -
  have res: "ca_reserved a = usd" using a by (simp add: mk_attempt_def)
  show "spend_inv cfg fr flt pr (g\<lparr>sg_files := s', sg_open := Some a\<rparr>)" if r: "reserve fr flt env stage iteration usd lease (sg_files g) = (Inr a, s')"
  proof -
    have usd: "0 \<le> usd" using r by (auto simp: reserve_def split: if_splits)
    then show ?thesis using reserve_effect[OF l usd a row] reserve_written[OF l b may, of s' _ "Some a"] r res by auto
  qed
  show "spend_inv cfg fr flt pr (g\<lparr>sg_files := s', sg_open := None\<rparr>)"
    if "0 \<le> usd" and d: "append_dies fr flt CALLS_LOG (reserve_row env lease a) (sg_files g) s'"
    using ledger_call_dies[OF l row reserve_row_says d] reserve_written[OF l b may, of s' _ None] that(1) res
      books_kept[OF b, of "sg_final g" None fr flt pr s'] by auto
qed

lemma floor_keeps:
  assumes l: "ledger fr flt pr (sg_files g) book fl" and b: "spend_books cfg g book fl" and row: "is_record fr flt (floor_row env (round6 (max usd 0)))"
  shows "adopt_floor fr flt pr env usd (sg_files g) = (res, s') \<Longrightarrow> spend_inv cfg fr flt pr (g\<lparr>sg_files := s'\<rparr>)"
    and "floor_usd flt pr (sg_files g) = Inr None \<Longrightarrow> append_dies fr flt CALLS_LOG (floor_row env (round6 (max usd 0))) (sg_files g) s'
      \<Longrightarrow> spend_inv cfg fr flt pr (g\<lparr>sg_files := s', sg_open := None\<rparr>)"
proof -
  have pos: "0 \<le> round6 (max usd 0)" by (rule round6_nonneg) simp
  show "spend_inv cfg fr flt pr (g\<lparr>sg_files := s'\<rparr>)" if "adopt_floor fr flt pr env usd (sg_files g) = (res, s')"
  proof -
    obtain s1 f where e: "adopt_floor fr flt pr env usd (sg_files g) = (Inr f, s1)" "ledger fr flt pr s1 book (Some f)"
      and fl: "f = (case fl of None \<Rightarrow> round6 (max usd 0) | Some g \<Rightarrow> g)"
      using adopt_floor_effect[OF l row] by blast
    then have f: "ledger fr flt pr s' book (Some f)" using that by simp
    have "spend_books cfg (g\<lparr>sg_files := s'\<rparr>) book (Some f)" using pos fl by (intro floor_written[OF b f]) auto
    then show ?thesis using f unfolding spend_inv_def by auto
  qed
  show "spend_inv cfg fr flt pr (g\<lparr>sg_files := s', sg_open := None\<rparr>)"
    if "floor_usd flt pr (sg_files g) = Inr None" and d: "append_dies fr flt CALLS_LOG (floor_row env (round6 (max usd 0))) (sg_files g) s'"
  proof -
    have none: "fl = None" using ledger_reads(5)[OF l] that(1) by simp
    from ledger_floor(2)[OF l row d] show ?thesis
    proof
      assume "ledger fr flt pr s' book fl"
      then show ?thesis using books_kept[OF b, of "sg_final g" None fr flt pr s'] by simp
    next
      assume "ledger fr flt pr s' book (case fl of None \<Rightarrow> Some (round6 (max usd 0)) | Some g \<Rightarrow> Some g)"
      then have f: "ledger fr flt pr s' book (Some (round6 (max usd 0)))" using none by simp
      then have "spend_books cfg (g\<lparr>sg_files := s'\<rparr>) book (Some (round6 (max usd 0)))" using pos none by (intro floor_written[OF b f]) auto
      then show ?thesis using books_kept[of cfg _ book _ "sg_final g" None fr flt pr s'] f by fastforce
    qed
  qed
qed

lemma spend_step_inv:
  assumes inv: "spend_inv cfg fr flt pr g" and step: "spend_step cfg fr flt pr g g'"
  shows "spend_inv cfg fr flt pr g'"
proof -
  obtain book fl where l: "ledger fr flt pr (sg_files g) book fl" and b: "spend_books cfg g book fl"
    using inv by (auto simp: spend_inv_def)
  from step show ?thesis
  proof cases
    case (sp_bill cid r x)
    have "map_of book cid = Some r" using record_in_book[OF l sp_bill(2)] .
    then have "spend_books cfg g' book fl" using b sp_bill unfolding spend_books_def entry_ok_def by (auto split: if_splits)
    then show ?thesis using l sp_bill(1) unfolding spend_inv_def by auto
  next
    case (sp_floor rs usd env res s')
    then show ?thesis using floor_keeps(1)[OF l b] by simp
  next
    case (sp_floor_dies env usd s')
    then show ?thesis using floor_keeps(2)[OF l b] by simp
  next
    case (sp_reserve a env stage iteration usd lease s')
    then show ?thesis using reserve_keeps(1)[OF l b sp_reserve(3-5)] by simp
  next
    case (sp_reserve_dies a env stage iteration usd lease s')
    then show ?thesis using reserve_keeps(2)[OF l b sp_reserve_dies(2,3,5)] by simp
  next
    case (sp_settle a cost env rcpt res s')
    have "0 \<le> cost" using b sp_settle(2,3) by (auto simp: spend_books_def entry_ok_def)
    from settle_effect[OF l this sp_settle(4)] show ?thesis unfolding sp_settle(1)
      using sp_settle(3,5) by (intro open_row_keeps[OF l b sp_settle(2), of s' "Some cost"]) auto
  next
    case (sp_settle_dies a cost env rcpt s')
    from ledger_call_dies[OF l sp_settle_dies(4) settle_row_says sp_settle_dies(5)] show ?thesis unfolding sp_settle_dies(1)
      using sp_settle_dies(3) by (intro open_row_keeps[OF l b sp_settle_dies(2), of s' "Some cost"]) auto
  next
    case (sp_unknown a env why obs res s')
    then show ?thesis using mark_unknown_effect[OF l sp_unknown(3)] open_row_keeps[OF l b sp_unknown(2), of s' None "sg_final g"] by auto
  next
    case (sp_unknown_dies a env why obs s')
    then show ?thesis
      using ledger_call_dies[OF l sp_unknown_dies(3) unknown_row_says sp_unknown_dies(4)] open_row_keeps[OF l b sp_unknown_dies(2), of s' None "sg_final g"] by auto
  next
    case (sp_reconcile cid m env res s')
    then show ?thesis using reconcile_keeps[OF l b] by simp
  next
    case (sp_reconcile_dies cid m r usage env s')
    then show ?thesis using reconcile_dies_keeps[OF l b] by simp
  next
    case sp_dies
    then show ?thesis using l b unfolding spend_inv_def spend_books_def entry_ok_def by auto
  qed
qed

interpretation spendings: inductive_invariant spend_init "spend_step cfg fr flt pr" "spend_inv cfg fr flt pr"
proof unfold_locales
  show "spend_inv cfg fr flt pr g" if "spend_init g" for g
  proof -
    have "spend_books cfg g [] None" using that by (simp add: spend_init_def spend_books_def floor_of_def book_granted_def)
    then show ?thesis using that empty_ledger[of "sg_files g" fr flt pr] unfolding spend_init_def spend_inv_def by blast
  qed
qed (rule spend_step_inv)


section \<open>The code takes these steps\<close>

text \<open>Rows the code writes are written: every observation's evidence and every amount can be written and read back.\<close>

definition observations_ok ::
  "(real \<Rightarrow> string) \<Rightarrow> (string \<Rightarrow> real) \<Rightarrow> py_reader \<Rightarrow> call_env \<Rightarrow> (string \<Rightarrow> budget_error + mutation_outcome option) \<Rightarrow> (string \<Rightarrow> real) \<Rightarrow> bool" where
  "observations_ok fr flt pr env observe bill \<longleftrightarrow> (\<forall>cid m. observe cid = Inr (Some m) \<longrightarrow>
     (\<forall>u. observed_usage m = Inr (Some u) \<longrightarrow> u = bill cid) \<and> (\<forall>s. outcome_written fr flt pr env cid m s))"

definition absent_call :: "(string \<Rightarrow> real) \<Rightarrow> py_reader \<Rightarrow> string \<Rightarrow> run_files \<Rightarrow> bool" where
  "absent_call flt pr cid s \<longleftrightarrow> call_record_of flt pr cid s = Inl (LedgerKeyError cid)"

lemma absent_book: "ledger fr flt pr s book fl \<Longrightarrow> absent_call flt pr cid s \<longleftrightarrow> map_of book cid = None"
  using ledger_reads(3)[of fr flt pr s book fl cid] by (auto simp: absent_call_def split: option.splits)

lemma reconcile_absent:
  assumes l: "ledger fr flt pr s book fl" and "outcome_written fr flt pr env cid m s" and "reconcile fr flt pr env cid m s = (res, s')"
    and "absent_call flt pr k s"
  shows "absent_call flt pr k s'"
proof (cases "\<exists>r usage. map_of book cid = Some r \<and> cr_settled r = None \<and> observed_usage m = Inr usage")
  case True
  then obtain r usage where r: "map_of book cid = Some r" "cr_settled r = None" "observed_usage m = Inr usage" by blast
  then have row: "is_record fr flt (observe_row env m usage r)" using assms(2) ledger_reads(3)[OF l, of cid] by (simp add: outcome_written_def)
  obtain r' where "ledger fr flt pr s' (AList.update cid r' book) fl" using reconcile_effect[OF l r row] assms(3) by auto
  then show ?thesis using absent_book[OF l] absent_book assms(4) r(1) by (fastforce simp: update_conv)
next
  case False
  then have "s' = s" using reconcile_refuses[OF l] assms(3) by (cases "map_of book cid"; cases "observed_usage m") (auto, metis option.exhaust_sel prod.inject)
  then show ?thesis using assms(4) by simp
qed

text \<open>A part of the code that runs between two provider calls: it takes steps, and adds no call.\<close>

definition quiet_steps :: "budget_cfg \<Rightarrow> (real \<Rightarrow> string) \<Rightarrow> (string \<Rightarrow> real) \<Rightarrow> py_reader \<Rightarrow> spending \<Rightarrow> run_files \<Rightarrow> spending \<Rightarrow> bool" where
  "quiet_steps cfg fr flt pr g s' g' \<longleftrightarrow> (spend_step cfg fr flt pr)\<^sup>*\<^sup>* g g' \<and> sg_files g' = s' \<and> sg_bill g' = sg_bill g \<and> sg_open g' = None
     \<and> (\<forall>k. absent_call flt pr k (sg_files g) \<longrightarrow> absent_call flt pr k s')"

lemma quiet_trans: "quiet_steps cfg fr flt pr g s1 g1 \<Longrightarrow> quiet_steps cfg fr flt pr g1 s2 g2 \<Longrightarrow> quiet_steps cfg fr flt pr g s2 g2"
  unfolding quiet_steps_def by (auto intro: rtranclp_trans)

lemma quiet_refl: "sg_open g = None \<Longrightarrow> sg_files g = s \<Longrightarrow> quiet_steps cfg fr flt pr g s g"
  by (simp add: quiet_steps_def)

lemma quiet_none: "sg_open g = None \<Longrightarrow> \<exists>g'. quiet_steps cfg fr flt pr g (sg_files g) g'"
  using quiet_refl by blast

lemma quiet_inv: "quiet_steps cfg fr flt pr g s g' \<Longrightarrow> spend_inv cfg fr flt pr g \<Longrightarrow> spend_inv cfg fr flt pr g'"
  unfolding quiet_steps_def using spendings.steps_inv by blast

lemma reconcile_step:
  assumes inv: "spend_inv cfg fr flt pr g" and obs: "observations_ok fr flt pr env observe (sg_bill g)" "observe cid = Inr (Some m)"
    and rec: "reconcile fr flt pr env cid m (sg_files g) = (res, s')"
    and op: "close_if cid (sg_open g) = None"
  shows "\<exists>g'. quiet_steps cfg fr flt pr g s' g'"
proof -
  let ?g = "g\<lparr>sg_files := s', sg_final := finalise cid m (sg_final g), sg_open := close_if cid (sg_open g)\<rparr>"
  have ok: "true_outcome g cid m" "outcome_written fr flt pr env cid m (sg_files g)"
    using obs by (auto simp: observations_ok_def true_outcome_def)
  obtain book fl where l: "ledger fr flt pr (sg_files g) book fl" using inv by (auto simp: spend_inv_def)
  have "spend_step cfg fr flt pr g ?g" by (rule sp_reconcile[OF ok rec])
  then have "quiet_steps cfg fr flt pr g s' ?g" using reconcile_absent[OF l ok(2) rec] op by (auto simp: quiet_steps_def)
  then show ?thesis by blast
qed

lemma recover_steps:
  assumes "spend_inv cfg fr flt pr g" and "sg_open g = None" and "observations_ok fr flt pr env observe (sg_bill g)"
    and "recover_calls fr flt pr env observe rs (sg_files g) = (res, s')"
  shows "\<exists>g'. quiet_steps cfg fr flt pr g s' g'"
  using assms
proof (induction rs arbitrary: g)
  case Nil
  then show ?case by (auto intro: quiet_refl)
next
  case (Cons r rs)
  show ?case
  proof (cases "observe (cr_id r)")
    case (Inl e)
    then show ?thesis using Cons.prems by (auto intro: quiet_refl)
  next
    case (Inr mo)
    show ?thesis
    proof (cases mo)
      case None
      then show ?thesis using Inr Cons.IH[OF Cons.prems(1-3)] Cons.prems(4) by simp
    next
      case (Some m)
      obtain res1 s1 where rec: "reconcile fr flt pr env (cr_id r) m (sg_files g) = (res1, s1)" by force
      obtain g1 where g1: "quiet_steps cfg fr flt pr g s1 g1"
        using reconcile_step[OF Cons.prems(1,3) _ rec] Inr Some Cons.prems(2) by (auto simp: close_if_def)
      show ?thesis
      proof (cases res1)
        case (Inl e)
        then show ?thesis using g1 rec Some Inr Cons.prems(4) \<open>observe (cr_id r) = Inr mo\<close> by auto
      next
        case ok: (Inr r')
        then have "recover_calls fr flt pr env observe rs (sg_files g1) = (res, s')" "sg_bill g1 = sg_bill g" "sg_open g1 = None"
          using rec Some Inr Cons.prems(4) g1 by (simp_all add: quiet_steps_def)
        then show ?thesis using Cons.IH[OF quiet_inv[OF g1 Cons.prems(1)], of] Cons.prems(3) quiet_trans[OF g1] by fastforce
      qed
    qed
  qed
qed


lemma recover_external_steps:
  assumes "spend_inv cfg fr flt pr g" and "sg_open g = None" and "observations_ok fr flt pr env observe (sg_bill g)"
    and "recover_external cfg fr flt pr env observe (sg_files g) = (res, s')"
  shows "\<exists>g'. quiet_steps cfg fr flt pr g s' g'"
  using assms(4) recover_steps[OF assms(1-3)] quiet_none[OF assms(2), of cfg fr flt pr]
  by (auto simp: recover_external_def split: if_splits sum.splits)

definition floors_written :: "budget_cfg \<Rightarrow> (real \<Rightarrow> string) \<Rightarrow> (string \<Rightarrow> real) \<Rightarrow> py_reader \<Rightarrow> (json \<Rightarrow> real option) \<Rightarrow> call_env \<Rightarrow> bool" where
  "floors_written cfg fr flt pr validate env \<longleftrightarrow>
     (\<forall>s usd. floor_amount cfg flt pr validate s = Inr usd \<longrightarrow> is_record fr flt (floor_row env (round6 (max usd 0))))"

lemma seed_steps:
  assumes inv: "spend_inv cfg fr flt pr g" and op: "sg_open g = None" and fl: "floors_written cfg fr flt pr validate env"
    and seed: "seed_budget cfg fr flt pr validate env True ctx (sg_files g) = (res, ctx', s')"
  shows "\<exists>g'. quiet_steps cfg fr flt pr g s' g'"
    and "res = Inr spent \<Longrightarrow> 0 \<le> bx_spent ctx \<Longrightarrow>
      \<exists>f c. floor_usd flt pr s' = Inr (Some f) \<and> charged_usd flt pr s' = Inr c \<and> round6 (f + c) \<le> spent"
proof -
  obtain book fl where l: "ledger fr flt pr (sg_files g) book fl" using inv by (auto simp: spend_inv_def)
  obtain rf s1 where rf: "run_floor cfg fr flt pr validate env (sg_files g) = (rf, s1)" by force
  have s1: "s' = s1" using seed rf
    by (auto simp: seed_budget_def persisted_spend_def Let_def split: sum.splits prod.splits if_splits)
  have steps: "(\<exists>g'. quiet_steps cfg fr flt pr g s1 g') \<and> (\<forall>f. rf = Inr f \<longrightarrow> floor_usd flt pr s1 = Inr (Some f))"
  proof (cases fl)
    case (Some f)
    then show ?thesis using rf ledger_reads(5)[OF l] quiet_none[OF op, of cfg fr flt pr] by (auto simp: run_floor_def)
  next
    case None
    show ?thesis
    proof (cases "floor_amount cfg flt pr validate (sg_files g)")
      case (Inl e)
      then show ?thesis using rf None ledger_reads(5)[OF l] quiet_none[OF op, of cfg fr flt pr] by (auto simp: run_floor_def)
    next
      case (Inr usd)
      have row: "is_record fr flt (floor_row env (round6 (max usd 0)))" using fl Inr by (auto simp: floors_written_def)
      obtain s2 where e: "adopt_floor fr flt pr env usd (sg_files g) = (Inr (round6 (max usd 0)), s2)" "ledger fr flt pr s2 book (Some (round6 (max usd 0)))"
        using adopt_floor_effect[OF l row] None by auto
      have "book = [] \<or> usd = 0" using Inr ledger_reads(1)[OF l] by (auto simp: floor_amount_def split: if_splits)
      then have "spend_step cfg fr flt pr g (g\<lparr>sg_files := s2\<rparr>)" using sp_floor[OF ledger_reads(1)[OF l] _ row e(1)] by simp
      then have "quiet_steps cfg fr flt pr g s2 (g\<lparr>sg_files := s2\<rparr>)" using op absent_book[OF l] absent_book[OF e(2)] by (auto simp: quiet_steps_def)
      then show ?thesis using rf None Inr e ledger_reads(5)[OF l] ledger_reads(5)[OF e(2)] by (auto simp: run_floor_def lift_ledger_def)
    qed
  qed
  show "\<exists>g'. quiet_steps cfg fr flt pr g s' g'" using steps s1 by blast
  show "\<exists>f c. floor_usd flt pr s' = Inr (Some f) \<and> charged_usd flt pr s' = Inr c \<and> round6 (f + c) \<le> spent"
    if ok: "res = Inr spent" and pos: "0 \<le> bx_spent ctx"
  proof -
    obtain f c where f: "rf = Inr f" "charged_usd flt pr s1 = Inr c" "spent = seeded_spent cfg ctx (round6 (f + c))"
      using seed rf ok by (auto simp: seed_budget_def persisted_spend_def Let_def split: sum.splits prod.splits if_splits)
    then show ?thesis using steps s1 pos by (auto simp: seeded_spent_def)
  qed
qed

lemma reserve_error_same: "reserve fr flt env stage iteration usd lease s = (Inl e, s') \<Longrightarrow> s' = s"
  by (auto simp: reserve_def append_row_def append_json_def Let_def split: if_splits prod.splits sum.splits)

lemma reserve_attempt: "reserve fr flt env stage iteration usd lease s = (Inr a, s') \<Longrightarrow> a = mk_attempt env stage iteration usd"
  by (auto simp: reserve_def Let_def split: if_splits prod.splits sum.splits)

text \<open>Opening a call: recovery, the floor and the reservation are steps, and the reservation is one the ceiling allows.\<close>

lemma agent_open_steps:
  assumes inv: "spend_inv cfg fr flt pr g" and op: "sg_open g = None" and obs: "observations_ok fr flt pr env observe (sg_bill g)"
    and fl: "floors_written cfg fr flt pr validate env" and pos: "0 \<le> bx_spent ctx"
    and fresh: "\<And>usd. absent_call flt pr (ca_id (mk_attempt env stage iteration usd)) (sg_files g)"
    and run: "agent_open cfg fr flt pr validate env observe preflight stage iteration ctx (sg_files g) = (res, ctx', s')"
    and row: "\<And>a. res = Inr a \<Longrightarrow> is_record fr flt (reserve_row env DEFAULT_LEASE_S a)"
  shows "\<exists>g'. (spend_step cfg fr flt pr)\<^sup>*\<^sup>* g g' \<and> sg_files g' = s' \<and> sg_bill g' = sg_bill g
    \<and> sg_open g' = (case res of Inl e \<Rightarrow> None | Inr a \<Rightarrow> Some a)"
proof -
  obtain r1 s1 where r1: "recover_external cfg fr flt pr env observe (sg_files g) = (r1, s1)" by force
  obtain g1 where g1: "quiet_steps cfg fr flt pr g s1 g1" using recover_external_steps[OF inv op obs r1] by blast
  then have g1f: "sg_files g1 = s1" "sg_open g1 = None" by (simp_all add: quiet_steps_def)
  obtain r2 c2 s2 where r2: "seed_budget cfg fr flt pr validate env True ctx (sg_files g1) = (r2, c2, s2)" by (metis prod_cases3)
  note seed = seed_steps[OF quiet_inv[OF g1 inv] g1f(2) fl r2]
  obtain g2 where "quiet_steps cfg fr flt pr g1 s2 g2" using seed(1) by blast
  then have g2: "quiet_steps cfg fr flt pr g s2 g2" by (rule quiet_trans[OF g1])
  then have g2f: "sg_files g2 = s2" "sg_open g2 = None" "sg_bill g2 = sg_bill g" "(spend_step cfg fr flt pr)\<^sup>*\<^sup>* g g2"
    by (simp_all add: quiet_steps_def)
  consider (err) e where "res = Inl e" "s' = s1 \<or> s' = s2"
    | (opened) spent usd a where "r2 = Inr spent" "0 < bc_run_cap cfg - spent" "usd = min (bc_stage_cap cfg) (bc_run_cap cfg - spent)"
      "res = Inr a" "reserve fr flt env stage iteration usd DEFAULT_LEASE_S s2 = (Inr a, s')"
    using run r1 r2 g1f(1) reserve_error_same
    by (fastforce simp: agent_open_def reserve_granted_def lift_ledger_def split: sum.splits prod.splits if_splits option.splits)
  then show ?thesis
  proof cases
    case err
    then show ?thesis using g1 g2 by (auto simp: quiet_steps_def)
  next
    case opened
    note a = reserve_attempt[OF opened(5)]
    have "absent_call flt pr (ca_id a) s2" using g2 fresh a by (simp add: quiet_steps_def)
    then have "may_reserve cfg flt pr a s2" using seed(2)[OF opened(1) pos] opened(2,3) a
      by (auto simp: may_reserve_def absent_call_def mk_attempt_def)
    then have "spend_step cfg fr flt pr g2 (g2\<lparr>sg_files := s', sg_open := Some a\<rparr>)"
      using sp_reserve[OF g2f(2) a, of cfg flt pr fr DEFAULT_LEASE_S s'] row[OF opened(4)] opened(5) g2f(1) by simp
    then show ?thesis using g2f opened(4) by (intro exI[of _ "g2\<lparr>sg_files := s', sg_open := Some a\<rparr>"]) auto
  qed
qed

text \<open>Closing it: whatever the agent did, one row about the call in flight, or none when the proof of absence cannot be read.\<close>

lemma agent_close_steps:
  assumes inv: "spend_inv cfg fr flt pr g" and op: "sg_open g = Some a" and obs: "observations_ok fr flt pr env observe (sg_bill g)"
    and answer: "\<And>c rcpt obs post. answer = AgentAnswers (Some c) rcpt obs post \<Longrightarrow> c = sg_bill g (ca_id a) \<and> is_record fr flt (settle_row env c rcpt a)"
    and unknown: "\<And>why. is_record fr flt (unknown_row env why JNull a)"
      "\<And>why rcpt obs post. answer = AgentAnswers None rcpt obs post \<Longrightarrow> is_record fr flt (unknown_row env why obs a)"
    and run: "agent_close cfg fr flt pr env observe a answer ctx (sg_files g) = (res, ctx', s')"
  shows "\<exists>g'. (spend_step cfg fr flt pr)\<^sup>*\<^sup>* g g' \<and> sg_files g' = s' \<and> sg_bill g' = sg_bill g \<and> sg_open g' = None"
proof -
  have rec: ?thesis if "observe (ca_id a) = Inr (Some m)" "reconcile fr flt pr env (ca_id a) m (sg_files g) = (r, s')" for m r
    using reconcile_step[OF inv obs that] op by (auto simp: close_if_def quiet_steps_def)
  have unk: ?thesis if "is_record fr flt (unknown_row env why ob a)" "mark_unknown fr flt env a why ob (sg_files g) = (r, s')" for why ob r
    using sp_unknown[OF op that, of cfg pr] by (intro exI[of _ "g\<lparr>sg_files := s', sg_open := None\<rparr>"]) auto
  have set: ?thesis if "c = sg_bill g (ca_id a)" "is_record fr flt (settle_row env c rcpt a)" "settle fr flt env a c rcpt (sg_files g) = (r, s')" for c rcpt r
    using sp_settle[OF op that, of cfg pr]
    by (intro exI[of _ "g\<lparr>sg_files := s', sg_final := (sg_final g)(ca_id a := True), sg_open := None\<rparr>"]) auto
  have stop: ?thesis if "s' = sg_files g" using that sp_dies[of cfg fr flt pr g] by (intro exI[of _ "g\<lparr>sg_open := None\<rparr>"]) auto
  show ?thesis
  proof (cases answer)
    case (AgentRaises why)
    then show ?thesis using run stop rec unk[OF unknown(1)]
      by (auto simp: agent_close_def split: sum.splits option.splits prod.splits if_splits)
  next
    case (AgentAnswers cost rcpt ob post)
    show ?thesis
    proof (cases cost)
      case None
      then obtain r where "mark_unknown fr flt env a ''external usage requires a trusted provider observation'' ob (sg_files g) = (r, s')"
        using run AgentAnswers by (auto simp: agent_close_def Let_def split: sum.splits prod.splits)
      then show ?thesis using unk unknown(2) AgentAnswers None by blast
    next
      case (Some c)
      then obtain r where "settle fr flt env a c rcpt (sg_files g) = (r, s')"
        using run AgentAnswers by (auto simp: agent_close_def Let_def split: sum.splits prod.splits)
      then show ?thesis using set answer AgentAnswers Some by blast
    qed
  qed
qed


section \<open>The budget\<close>

text \<open>C9: the ledger is never below the provider. However calls, crashes inside any write, late billing and reconciliations interleave,
  every call the provider billed has a record, and a settled record charges the whole bill; a record that is not settled charges its
  reservation, and falls short only by what the provider billed above it. So the committed total the code computes covers all bills
  (to half a millionth) but for the excess of the unsettled calls, and what a run had spent before its ledger began plus all its
  bills stays within the run ceiling plus one millionth (or within that earlier spending, when it was above the ceiling) but for what
  the provider billed above its grants.\<close>

theorem spending_covered:
  assumes "reach spend_init (spend_step cfg fr flt pr) g"
  shows "\<exists>records total fl. call_records flt pr (sg_files g) = Inr records \<and> charged_usd flt pr (sg_files g) = Inr total
    \<and> floor_usd flt pr (sg_files g) = Inr fl
    \<and> (\<forall>cid. (\<forall>r \<in> set records. cr_id r \<noteq> cid) \<longrightarrow> sg_bill g cid = 0)
    \<and> (\<forall>r \<in> set records. sg_bill g (cr_id r) \<le> cr_charge r \<or> cr_settled r = None \<and> cr_reserved r < sg_bill g (cr_id r))
    \<and> sum_list (map (\<lambda>r. sg_bill g (cr_id r)) records)
        \<le> total + 1 / 2000000 + sum_list (map (overbilled (sg_bill g)) (filter cr_unreconciled records))
    \<and> floor_of fl + sum_list (map (\<lambda>r. sg_bill g (cr_id r)) records)
        \<le> max (bc_run_cap cfg + 1 / 1000000) (floor_of fl) + sum_list (map (overbilled (sg_bill g)) records)"
proof -
  obtain book fl where l: "ledger fr flt pr (sg_files g) book fl" and b: "spend_books cfg g book fl"
    using spendings.reach_inv[OF assms] by (auto simp: spend_inv_def)
  note reads = ledger_reads[OF l]
  let ?rs = "map snd book" and ?bill = "\<lambda>r. sg_bill g (cr_id r)"
  have entry: "\<exists>k. entry_ok g k r" if "r \<in> set ?rs" for r
  proof -
    obtain k where "(k, r) \<in> set book" using \<open>r \<in> set ?rs\<close> by (auto simp: image_iff)
    then have "map_of book k = Some r" using reads(6) by (simp add: book_ok_def)
    then show ?thesis using b by (auto simp: spend_books_def)
  qed
  have known: "sg_bill g cid = 0" if "\<forall>r \<in> set ?rs. cr_id r \<noteq> cid" for cid
  proof (rule ccontr)
    assume "sg_bill g cid \<noteq> 0"
    then obtain r where r: "map_of book cid = Some r" using b by (cases "map_of book cid") (auto simp: spend_books_def)
    then have "r \<in> set ?rs" using map_of_SomeD by force
    moreover have "cr_id r = cid" using b r by (simp add: spend_books_def entry_ok_def)
    ultimately show False using that by blast
  qed
  have "sum_list (map ?bill ?rs) \<le> sum_list (map (\<lambda>r. cr_charge r + (if cr_settled r = None then overbilled (sg_bill g) r else 0)) ?rs)"
    using entry entry_charge(2) by (intro sum_list_mono) blast
  also have "\<dots> = book_charge book + sum_list (map (overbilled (sg_bill g)) (filter cr_unreconciled ?rs))"
    by (simp add: sum_list_addf book_charge_def sum_list_map_filter' cr_unreconciled_def comp_def)
  finally have total: "sum_list (map ?bill ?rs)
      \<le> round6 (book_charge book) + 1 / 2000000 + sum_list (map (overbilled (sg_bill g)) (filter cr_unreconciled ?rs))"
    using round6_near[of "book_charge book"] by linarith
  have "sum_list (map ?bill ?rs) \<le> sum_list (map (\<lambda>r. granted_charge r + overbilled (sg_bill g) r) ?rs)"
    using entry entry_charge(3) by (intro sum_list_mono) blast
  also have "\<dots> = book_granted book + sum_list (map (overbilled (sg_bill g)) ?rs)"
    by (simp add: sum_list_addf book_granted_def comp_def)
  finally have cap: "floor_of fl + sum_list (map ?bill ?rs)
      \<le> max (bc_run_cap cfg + 1 / 1000000) (floor_of fl) + sum_list (map (overbilled (sg_bill g)) ?rs)"
    using b unfolding spend_books_def by linarith
  have "\<forall>r \<in> set ?rs. ?bill r \<le> cr_charge r \<or> cr_settled r = None \<and> cr_reserved r < ?bill r"
    using entry entry_charge(1) by blast
  then show ?thesis
    by (intro exI[of _ ?rs] exI[of _ "round6 (book_charge book)"] exI[of _ fl] conjI)
      (use reads(1,2,5) known total cap in blast)+
qed

definition demo_fr :: "real \<Rightarrow> string" where
  "demo_fr x = (if x = 0 then ''0.0'' else if x = 2 then ''2.0'' else if x = 3 then ''3.0'' else ''3600.0'')"

definition demo_flt :: "string \<Rightarrow> real" where
  "demo_flt t = (if t = ''0.0'' then 0 else if t = ''2.0'' then 2 else if t = ''3.0'' then 3 else 3600)"

definition demo_pr :: py_reader where
  "demo_pr = \<lparr>pr_repr = (\<lambda>v. []), pr_float = (\<lambda>s. None), pr_int = (\<lambda>s. None)\<rparr>"

definition demo_env :: call_env where
  "demo_env = \<lparr>ce_uuid = ''u'', ce_owner = ''o'', ce_now = 0, ce_at = ''t'', ce_pid = 1, ce_host = ''h''\<rparr>"

definition demo_budget :: budget_cfg where
  "demo_budget = \<lparr>bc_external = False, bc_docker = False, bc_hard_cap = False, bc_run_cap = 8, bc_stage_cap = 2\<rparr>"

lemma demo_floats: "float_repr demo_fr demo_flt 0" "float_repr demo_fr demo_flt 2" "float_repr demo_fr demo_flt 3" "float_repr demo_fr demo_flt 3600"
  by (simp_all add: float_repr_def demo_fr_def demo_flt_def) code_simp+

theorem spending_covered_witness:
  "\<exists>g records total fl. reach spend_init (spend_step demo_budget demo_fr demo_flt demo_pr) g
     \<and> sg_bill g ''build.1:u'' = 3 \<and> sg_open g = None
     \<and> call_records demo_flt demo_pr (sg_files g) = Inr records \<and> charged_usd demo_flt demo_pr (sg_files g) = Inr total
     \<and> floor_usd demo_flt demo_pr (sg_files g) = Inr fl
     \<and> sum_list (map (\<lambda>r. sg_bill g (cr_id r)) records)
         \<le> total + 1 / 2000000 + sum_list (map (overbilled (sg_bill g)) (filter cr_unreconciled records))
     \<and> floor_of fl + sum_list (map (\<lambda>r. sg_bill g (cr_id r)) records)
         \<le> max (bc_run_cap demo_budget + 1 / 1000000) (floor_of fl) + sum_list (map (overbilled (sg_bill g)) records)"
proof -
  let ?step = "spend_step demo_budget demo_fr demo_flt demo_pr"
  define g0 :: spending where "g0 = \<lparr>sg_files = \<lparr>rf_journal = (\<lambda>n. []), rf_recovered = []\<rparr>, sg_bill = (\<lambda>k. 0), sg_final = (\<lambda>k. False), sg_open = None\<rparr>"
  define a where "a = mk_attempt demo_env ''build'' 1 2"
  have a: "ca_id a = ''build.1:u''" "ca_reserved a = 2" by (simp_all add: a_def mk_attempt_def demo_env_def int_str_def) code_simp
  have r0: "round6 0 = 0" "round6 (max 0 0) = 0" by (simp_all add: round6_def round_half_even_def)
  have row1: "is_record demo_fr demo_flt (floor_row demo_env (round6 (max 0 0)))" using demo_floats r0 by (simp add: is_record_def floor_row_def)
  have row2: "is_record demo_fr demo_flt (reserve_row demo_env 3600 a)"
    using demo_floats a by (simp add: is_record_def reserve_row_def call_row_def demo_env_def)
  have reach0: "reach spend_init ?step g0" by (rule reach_init) (simp add: spend_init_def g0_def)
  have l0: "ledger demo_fr demo_flt demo_pr (sg_files g0) [] None" by (rule empty_ledger) (simp add: g0_def)
  obtain s1 where s1: "adopt_floor demo_fr demo_flt demo_pr demo_env 0 (sg_files g0) = (Inr 0, s1)" "ledger demo_fr demo_flt demo_pr s1 [] (Some 0)"
    using adopt_floor_effect[OF l0 row1] r0 by auto
  have reach1: "reach spend_init ?step (g0\<lparr>sg_files := s1\<rparr>)"
    using reach_step[OF reach0, OF sp_floor[OF ledger_reads(1)[OF l0] _ row1 s1(1)]] by simp
  have may: "may_reserve demo_budget demo_flt demo_pr a s1"
    using ledger_reads[OF s1(2)] a r0 by (auto simp: may_reserve_def demo_budget_def book_charge_def intro!: exI[of _ 0])
  obtain s2 r where s2: "reserve demo_fr demo_flt demo_env ''build'' 1 2 3600 s1 = (Inr a, s2)"
      "ledger demo_fr demo_flt demo_pr s2 (AList.update (ca_id a) r []) (Some 0)" "cr_reserved r = 2"
    using reserve_effect[OF s1(2) _ a_def row2] by auto
  have reach2: "reach spend_init ?step (g0\<lparr>sg_files := s2, sg_open := Some a\<rparr>)"
    using reach_step[OF reach1, OF sp_reserve[OF _ a_def _ row2]] may s2(1) by (simp add: g0_def)
  have rec: "call_record_of demo_flt demo_pr ''build.1:u'' s2 = Inr r" using ledger_reads(3)[OF s2(2), of "''build.1:u''"] a by simp
  let ?g3 = "g0\<lparr>sg_files := s2, sg_open := Some a, sg_bill := (\<lambda>k. 0)(''build.1:u'' := 3)\<rparr>"
  have "?step (g0\<lparr>sg_files := s2, sg_open := Some a\<rparr>) ?g3"
    using sp_bill[of demo_flt demo_pr "''build.1:u''" "g0\<lparr>sg_files := s2, sg_open := Some a\<rparr>" r 3 demo_budget demo_fr] rec by (simp add: g0_def)
  note reach3 = reach_step[OF reach2, OF this]
  have row3: "is_record demo_fr demo_flt (settle_row demo_env 3 JNull a)"
    using demo_floats a by (simp add: is_record_def settle_row_def call_row_def demo_env_def py_or_def)
  obtain res s4 where s4: "settle demo_fr demo_flt demo_env a 3 JNull s2 = (res, s4)" by force
  define g where "g = ?g3\<lparr>sg_files := s4, sg_final := (\<lambda>k. False)(''build.1:u'' := True), sg_open := None\<rparr>"
  have reach4: "reach spend_init ?step g"
    using reach_step[OF reach3, OF sp_settle[of _ a 3 demo_fr demo_flt demo_env JNull res s4]] row3 s4 a by (simp add: g_def g0_def)
  have covered: "sg_bill g ''build.1:u'' = 3" "sg_open g = None" by (simp_all add: g_def)
  show ?thesis using reach4 covered spending_covered[OF reach4] by blast
qed

end
