(* ===== verification/SandboxGovernance.thy ===== *)
theory SandboxGovernance
  imports JsonParse Sha256
begin

text \<open>
  Ownership of sandboxes, \<open>src/src/swfactory/sandbox_governance.py\<close>: the identity a resource is stamped with, the labels that
  carry it, the decision whether a resource may be removed, and the debt of removals that were not confirmed. Labels are
  the dictionary's entries; \<open>int(text)\<close> is written out for ASCII text.
\<close>

section \<open>Identity and labels\<close>

record sandbox_identity =
  si_provider :: string
  si_cell :: string
  si_epoch :: int
  si_attempt :: string

type_synonym labels = "(string \<times> string) list"

definition si_valid :: "sandbox_identity \<Rightarrow> bool" where
  "si_valid i = (si_provider i \<noteq> [] \<and> si_cell i \<noteq> [] \<and> 0 < si_epoch i \<and> si_attempt i \<noteq> [])"

definition is_alnum :: "char \<Rightarrow> bool" where
  "is_alnum c = (let n = of_char c :: nat in (48 \<le> n \<and> n \<le> 57) \<or> (65 \<le> n \<and> n \<le> 90) \<or> (97 \<le> n \<and> n \<le> 122))"

definition governance_hash :: "(real \<Rightarrow> string) \<Rightarrow> json \<Rightarrow> string" where
  "governance_hash fr v = sha256_hex (jdumps True fr (jcanon v))"

definition identity_json :: "sandbox_identity \<Rightarrow> json" where
  "identity_json i = JObj [(''provider'', JStr (si_provider i)), (''cell_id'', JStr (si_cell i)), (''epoch'', JInt (si_epoch i)), (''attempt_id'', JStr (si_attempt i))]"

definition stable_name :: "(real \<Rightarrow> string) \<Rightarrow> sandbox_identity \<Rightarrow> string option" where
  "stable_name fr i =
     (if \<not> si_valid i then None
      else Some (take 63 (''swf-'' @ take 20 (filter is_alnum (map to_lower (si_cell i))) @ ''-'' @ take 20 (governance_hash fr (identity_json i)))))"

definition identity_labels :: "sandbox_identity \<Rightarrow> labels" where
  "identity_labels i =
     [(''swfactory.owned'', ''true''), (''swfactory.cell'', si_cell i), (''swfactory.epoch'', int_str (si_epoch i)), (''swfactory.attempt'', si_attempt i)]"

text \<open>\<open>int(text)\<close>: white space around, a sign, digits in groups separated by single underscores.\<close>

definition digit_groups :: "string \<Rightarrow> int option" where
  "digit_groups s =
     (if list_all (\<lambda>g. g \<noteq> [] \<and> all_digits g) (split_on (CHR ''_'') s) then Some (int (digits_nat (concat (split_on (CHR ''_'') s)))) else None)"

definition py_int :: "string \<Rightarrow> int option" where
  "py_int s =
     (case py_strip s of
        [] \<Rightarrow> None
      | c # cs \<Rightarrow>
          if c = CHR ''-'' then map_option uminus (digit_groups cs)
          else if c = CHR ''+'' then digit_groups cs
          else digit_groups (c # cs))"

definition from_labels :: "string \<Rightarrow> labels \<Rightarrow> sandbox_identity option" where
  "from_labels provider ls =
     (if map_of ls ''swfactory.owned'' \<noteq> Some ''true'' then None
      else case (map_of ls ''swfactory.cell'', map_of ls ''swfactory.epoch'', map_of ls ''swfactory.attempt'') of
        (Some cell, Some epoch, Some attempt) \<Rightarrow>
          (case py_int epoch of
             None \<Rightarrow> None
           | Some e \<Rightarrow>
               let i = \<lparr>si_provider = provider, si_cell = cell, si_epoch = e, si_attempt = attempt\<rparr> in
               if si_valid i then Some i else None)
      | _ \<Rightarrow> None)"

section \<open>Decisions\<close>

datatype cleanup_decision = REMOVE | KEEP | OBSERVE | REFUSE

record resource_observation =
  ob_provider_id :: string
  ob_labels :: labels
  ob_running :: bool
  ob_reachable :: bool

definition authorize_cleanup :: "sandbox_identity \<Rightarrow> resource_observation \<Rightarrow> int option \<Rightarrow> bool \<Rightarrow> cleanup_decision option" where
  "authorize_cleanup i ob current_epoch active =
     (if \<not> si_valid i then None
      else Some
        (if \<not> ob_reachable ob then OBSERVE
         else if map_of (ob_labels ob) ''swfactory.owned'' \<noteq> Some ''true'' then REFUSE
         else if map_of (ob_labels ob) ''swfactory.cell'' \<noteq> Some (si_cell i) then REFUSE
         else if map_of (ob_labels ob) ''swfactory.epoch'' \<noteq> Some (int_str (si_epoch i)) then REFUSE
         else if map_of (ob_labels ob) ''swfactory.attempt'' \<noteq> Some (si_attempt i) then REFUSE
         else case current_epoch of
           None \<Rightarrow> OBSERVE
         | Some e \<Rightarrow>
             if e \<noteq> si_epoch i then (if \<not> active then REMOVE else REFUSE)
             else if active then KEEP
             else REMOVE))"

section \<open>Debt\<close>

type_synonym cleanup_debt = "(string \<times> sandbox_identity) list"

datatype debt_error = DebtInvalid | DebtReused | DebtMismatch

definition debt_record :: "string \<Rightarrow> sandbox_identity \<Rightarrow> cleanup_debt \<Rightarrow> (debt_error + unit) \<times> cleanup_debt" where
  "debt_record pid i d =
     (if \<not> si_valid i then (Inl DebtInvalid, d)
      else case map_of d pid of
        Some j \<Rightarrow> if j \<noteq> i then (Inl DebtReused, d) else (Inr (), d)
      | None \<Rightarrow> (Inr (), d @ [(pid, i)]))"

definition debt_settle :: "string \<Rightarrow> sandbox_identity \<Rightarrow> cleanup_debt \<Rightarrow> (debt_error + unit) \<times> cleanup_debt" where
  "debt_settle pid i d =
     (if map_of d pid \<noteq> Some i then (Inl DebtMismatch, d) else (Inr (), filter (\<lambda>(p, j). p \<noteq> pid) d))"

section \<open>Labels carry the identity\<close>

lemma nat_str_plain: "\<forall>c \<in> set (nat_str n). c \<in> set ''0123456789''"
  using nat_str_chars by blast

lemma digit_plain: "c \<in> set ''0123456789'' \<Longrightarrow> \<not> is_space c \<and> c \<noteq> CHR ''_'' \<and> c \<noteq> CHR ''+'' \<and> c \<noteq> CHR ''-''"
  by (auto simp: is_space_def)

lemma digit_groups_nat: "digit_groups (nat_str n) = Some (int n)"
proof -
  have "CHR ''_'' \<notin> set (nat_str n)" using nat_str_plain digit_plain by blast
  then show ?thesis using nat_str_digits[of n] nat_str_nonempty[of n] by (simp add: digit_groups_def split_on_id)
qed

lemma strip_plain:
  assumes "\<forall>c \<in> set s. \<not> is_space c"
  shows "py_strip s = s"
proof -
  have "dropWhile is_space t = t" if "set t = set s" for t
    using assms that hd_in_set[of t] by (cases "t = []") (auto simp: dropWhile_eq_self_iff)
  then show ?thesis by (simp add: py_strip_def)
qed

lemma py_int_str: "py_int (int_str i) = Some i"
proof (cases "i < 0")
  case True
  have "\<forall>c \<in> set (int_str i). \<not> is_space c" using True nat_str_plain[of "nat (- i)"] digit_plain by (simp add: int_str_def is_space_def)
  then show ?thesis using strip_plain[of "int_str i"] True digit_groups_nat[of "nat (- i)"] by (simp add: py_int_def int_str_def)
next
  case False
  then have str: "int_str i = nat_str (nat i)" by (simp add: int_str_def)
  obtain c cs where n: "nat_str (nat i) = c # cs" using nat_str_nonempty by (cases "nat_str (nat i)") auto
  then have "c \<in> set ''0123456789''" using nat_str_plain[of "nat i"] by simp
  note c = digit_plain[OF this]
  have "py_strip (nat_str (nat i)) = nat_str (nat i)" using nat_str_plain[of "nat i"] digit_plain by (intro strip_plain) blast
  then have "py_int (int_str i) = digit_groups (nat_str (nat i))" using str n c by (simp add: py_int_def)
  then show ?thesis using digit_groups_nat[of "nat i"] False by simp
qed

lemma labels_claim: "si_valid i \<Longrightarrow> from_labels (si_provider i) (identity_labels i) = Some i"
  by (simp add: from_labels_def identity_labels_def py_int_str Let_def si_valid_def)

lemma authorized_exactly:
  "authorize_cleanup i ob e active = Some REMOVE \<longleftrightarrow>
     si_valid i \<and> ob_reachable ob \<and> \<not> active \<and> e \<noteq> None \<and> (\<forall>(k, v) \<in> set (identity_labels i). map_of (ob_labels ob) k = Some v)"
  by (cases e) (auto simp: authorize_cleanup_def identity_labels_def)

lemma removed_is_claimed:
  assumes "authorize_cleanup i ob e active = Some REMOVE"
  shows "from_labels (si_provider i) (ob_labels ob) = Some i"
  using assms by (auto simp: authorized_exactly from_labels_def identity_labels_def py_int_str Let_def si_valid_def)

section \<open>Debt is per resource\<close>

lemma debt_record_effect:
  assumes "debt_record pid i d = (Inr (), d')"
  shows "map_of d' pid = Some i" and "p \<noteq> pid \<Longrightarrow> map_of d' p = map_of d p" and "map_of d pid = None \<or> map_of d pid = Some i"
  using assms by (auto simp: debt_record_def map_add_def split: if_splits option.splits)

lemma map_of_remove: "map_of (filter (\<lambda>(p, j). p \<noteq> pid) d) p = (if p = pid then None else map_of d p)"
  by (induction d) auto

lemma debt_settle_effect:
  "debt_settle pid i d = (Inr (), d') \<Longrightarrow> map_of d pid = Some i \<and> map_of d' p = (if p = pid then None else map_of d p)"
  by (auto simp: debt_settle_def map_of_remove split: if_splits)

end
