(* ===== verification/ExternalRun.thy ===== *)
theory ExternalRun
  imports Budget SandboxGovernance
begin

text \<open>
  Paid external attempts in a container, the part of \<open>DockerSandbox\<close> in \<open>src/src/swfactory/sandbox.py\<close> that launches one
  (\<open>run_external\<close>), tears it down (\<open>_cleanup_external\<close>), recovers after a crash (\<open>_reap_external\<close>) and proves that one never
  started (\<open>external_no_start_observation\<close>).

  The daemon is an argument: what it answers to \<open>create\<close>, \<open>ps\<close>, \<open>rm\<close> and \<open>start\<close>. The state is the run's journals, its control
  files, each written by an atomic rename, and, as a ghost, the calls whose container was asked to start. The process is a
  small machine whose phases are the writes and daemon calls of \<open>run_external\<close> in their order; it may die in any phase and
  inside any write. The command line, the mounts and the receipts for an operator are not modelled.
\<close>

section \<open>Rows and labels\<close>

definition PROCESSES :: string where
  "PROCESSES = ''external-processes.jsonl''"

definition call_hash :: "string \<Rightarrow> string" where
  "call_hash cid = take 16 (sha256_hex cid)"

definition external_labels :: "sandbox_identity \<Rightarrow> string \<Rightarrow> labels" where
  "external_labels i cid = identity_labels i @ [(''swfactory.external'', ''true''), (''swfactory.external-call'', call_hash cid)]"

definition labels_json :: "labels \<Rightarrow> json" where
  "labels_json ls = JObj (map (\<lambda>(k, v). (k, JStr v)) ls)"

text \<open>Equality of two decoded documents: dictionaries compare without order.\<close>

definition json_eq :: "json \<Rightarrow> json \<Rightarrow> bool" where
  "json_eq a b = (jcanon a = jcanon b)"

definition intent_row :: "string \<Rightarrow> string \<Rightarrow> labels \<Rightarrow> real \<Rightarrow> json" where
  "intent_row cid name ls now =
     JObj [(''call_id'', JStr cid), (''container'', JStr name), (''labels'', labels_json ls), (''event'', JStr ''intent''),
           (''container_id_required'', JBool True), (''at'', JReal now)]"

definition container_row :: "string \<Rightarrow> string \<Rightarrow> string \<Rightarrow> string \<Rightarrow> labels \<Rightarrow> real \<Rightarrow> json" where
  "container_row event cid name container_id ls now =
     JObj [(''call_id'', JStr cid), (''container'', JStr name), (''container_id'', JStr container_id), (''labels'', labels_json ls),
           (''event'', JStr event), (''at'', JReal now)]"

definition cleaned_row :: "string \<Rightarrow> string \<Rightarrow> labels \<Rightarrow> real \<Rightarrow> json" where
  "cleaned_row cid name ls now =
     JObj [(''call_id'', JStr cid), (''container'', JStr name), (''labels'', labels_json ls), (''event'', JStr ''cleaned''), (''at'', JReal now)]"

definition is_container_id :: "string \<Rightarrow> bool" where
  "is_container_id s = (length s = 64 \<and> list_all (\<lambda>c. c \<in> set ''0123456789abcdef'') s)"

section \<open>Creating\<close>

record run_result =
  rr_exit :: int
  rr_stdout :: string
  rr_stderr :: string
  rr_timed_out :: bool

definition rr_ok :: "run_result \<Rightarrow> bool" where
  "rr_ok r = (rr_exit r = 0 \<and> \<not> rr_timed_out r)"

text \<open>An acknowledged refusal of the daemon: the only failure that proves that nothing was created.\<close>

definition create_refused :: "run_result \<Rightarrow> bool" where
  "create_refused r =
     (\<not> rr_timed_out r \<and> 0 < rr_exit r \<and> py_strip (rr_stdout r) = [] \<and> startswith (py_strip (rr_stderr r)) ''Error response from daemon:'')"

record docker_row =
  dr_id :: string
  dr_name :: string
  dr_labels :: labels
  dr_running :: bool

text \<open>The listing confirms the container that was created: one row of the name, with its identifier, not running, with the labels.\<close>

definition create_confirmed :: "string \<Rightarrow> string \<Rightarrow> labels \<Rightarrow> docker_row list \<Rightarrow> bool" where
  "create_confirmed name container_id ls rows =
     (case filter (\<lambda>r. dr_name r = name) rows of
        [r] \<Rightarrow> dr_id r = container_id \<and> \<not> dr_running r \<and> list_all (\<lambda>(k, v). map_of (dr_labels r) k = Some v) ls
      | _ \<Rightarrow> False)"

section \<open>Tearing down\<close>

record cleanup_args =
  cu_name :: string
  cu_call :: string
  cu_labels :: labels
  cu_uncertain_if_absent :: bool
  cu_expected :: "string option"
  cu_require_id :: bool
  cu_unstarted :: bool

definition docker_observation :: "docker_row \<Rightarrow> resource_observation" where
  "docker_observation r = \<lparr>ob_provider_id = dr_id r, ob_labels = dr_labels r, ob_running = dr_running r, ob_reachable = True\<rparr>"

definition owned_attempt :: "sandbox_identity \<Rightarrow> cleanup_args \<Rightarrow> docker_row \<Rightarrow> bool" where
  "owned_attempt i a r =
     (authorize_cleanup i (docker_observation r) (Some (si_epoch i)) False = Some REMOVE
      \<and> map_of (dr_labels r) ''swfactory.external'' = Some ''true''
      \<and> map_of (dr_labels r) ''swfactory.external-call'' = map_of (cu_labels a) ''swfactory.external-call''
      \<and> dr_id r \<noteq> [] \<and> \<not> (cu_require_id a \<and> cu_expected a = None)
      \<and> (case cu_expected a of None \<Rightarrow> True | Some e \<Rightarrow> dr_id r = e)
      \<and> \<not> (cu_unstarted a \<and> dr_running r))"

definition observe_attempt ::
  "sandbox_identity \<Rightarrow> cleanup_args \<Rightarrow> (labels \<Rightarrow> 'x \<Rightarrow> (string + docker_row list) \<times> 'x) \<Rightarrow> 'x \<Rightarrow> (string + docker_row list) \<times> 'x" where
  "observe_attempt i a ps x =
     (case ps (cu_labels a) x of
        (Inl e, x') \<Rightarrow> (Inl e, x')
      | (Inr rows, x') \<Rightarrow>
          let matches = filter (\<lambda>r. dr_name r = cu_name a) rows in
          (if list_all (owned_attempt i a) matches then Inr matches else Inl ''external container identity does not match the owned attempt'', x'))"

text \<open>Debt before each removal; a removal that fails leaves the attempt unresolved.\<close>

fun remove_rows ::
  "sandbox_identity \<Rightarrow> (string \<Rightarrow> 'x \<Rightarrow> (string + unit) \<times> 'x) \<Rightarrow> docker_row list \<Rightarrow> cleanup_debt \<Rightarrow> 'x \<Rightarrow> (string + cleanup_debt) \<times> 'x" where
  "remove_rows i rm [] d x = (Inr d, x)"
| "remove_rows i rm (r # rs) d x =
     (case debt_record (dr_id r) i d of
        (Inl e, _) \<Rightarrow> (Inl ''provider identity reused across Factory Cells'', x)
      | (Inr _, d1) \<Rightarrow>
          (case rm (dr_id r) x of (Inl e, x1) \<Rightarrow> (Inl e, x1) | (Inr _, x1) \<Rightarrow> remove_rows i rm rs d1 x1))"

fun settle_rows :: "sandbox_identity \<Rightarrow> docker_row list \<Rightarrow> cleanup_debt \<Rightarrow> string + cleanup_debt" where
  "settle_rows i [] d = Inr d"
| "settle_rows i (r # rs) d =
     (case debt_settle (dr_id r) i d of (Inl e, _) \<Rightarrow> Inl ''cleanup receipt does not match outstanding debt'' | (Inr _, d1) \<Rightarrow> settle_rows i rs d1)"

text \<open>\<open>_cleanup_external\<close>: \<open>Inr\<close> when the code records the terminal row, \<open>Inl\<close> when it raises. The row itself is the next write.\<close>

definition cleanup_external ::
  "sandbox_identity \<Rightarrow> cleanup_args \<Rightarrow> (labels \<Rightarrow> 'x \<Rightarrow> (string + docker_row list) \<times> 'x) \<Rightarrow> (string \<Rightarrow> 'x \<Rightarrow> (string + unit) \<times> 'x) \<Rightarrow> 'x
     \<Rightarrow> (string + unit) \<times> 'x" where
  "cleanup_external i a ps rm x =
     (case observe_attempt i a ps x of
        (Inl e, x1) \<Rightarrow> (Inl e, x1)
      | (Inr rows, x1) \<Rightarrow>
          if rows = [] then
            (if cu_uncertain_if_absent a then Inl ''external container creation/cleanup was not observed'' else Inr (), x1)
          else case remove_rows i rm rows [] x1 of
            (Inl e, x2) \<Rightarrow> (Inl e, x2)
          | (Inr d, x2) \<Rightarrow>
              (case observe_attempt i a ps x2 of
                 (Inl e, x3) \<Rightarrow> (Inl e, x3)
               | (Inr left, x3) \<Rightarrow>
                   if left \<noteq> [] then (Inl ''external container remains after removal'', x3)
                   else (case settle_rows i rows d of Inl e \<Rightarrow> Inl e | Inr _ \<Rightarrow> Inr (), x3)))"

section \<open>The proof that nothing started\<close>

text \<open>The control files are the decoded documents: each is written whole and read back whole.\<close>

record ext_state =
  es_files :: run_files
  es_control :: "string \<rightharpoonup> json"

definition proof_path :: "string \<Rightarrow> string" where
  "proof_path cid = ''external-not-started/'' @ sha256_hex cid @ ''.json''"

definition proof_json :: "string \<Rightarrow> string \<Rightarrow> labels \<Rightarrow> string \<Rightarrow> int \<Rightarrow> json" where
  "proof_json cid name ls img exit_code =
     jcanon (JObj [(''schema_version'', JInt 1), (''status'', JStr ''not_started''), (''phase'', JStr ''create''), (''call_id'', JStr cid),
       (''container'', JStr name), (''labels'', labels_json ls), (''image'', JStr img), (''exit_code'', JInt exit_code)])"

definition positive_int :: "json \<Rightarrow> bool" where
  "positive_int v = (case v of JInt n \<Rightarrow> 0 < n | _ \<Rightarrow> False)"

definition proof_valid :: "sandbox_identity \<Rightarrow> string \<Rightarrow> json \<Rightarrow> bool" where
  "proof_valid i cid p =
     (is_jobj p \<and> jget0 ''schema_version'' p = JInt 1 \<and> jget0 ''status'' p = JStr ''not_started'' \<and> jget0 ''phase'' p = JStr ''create''
      \<and> jget0 ''call_id'' p = JStr cid \<and> json_eq (jget0 ''labels'' p) (labels_json (external_labels i cid))
      \<and> jis_str (jget0 ''container'' p) \<and> positive_int (jget0 ''exit_code'' p))"

definition call_rows :: "string \<Rightarrow> json list \<Rightarrow> json list" where
  "call_rows cid rows = filter (\<lambda>r. jget0 ''call_id'' r = JStr cid) rows"

definition has_start :: "json list \<Rightarrow> bool" where
  "has_start rows = list_ex (\<lambda>r. jget0 ''event'' r = JStr ''start_intent'') rows"

definition rows_valid :: "sandbox_identity \<Rightarrow> string \<Rightarrow> json \<Rightarrow> json list \<Rightarrow> bool" where
  "rows_valid i cid p rows =
     (rows \<noteq> [] \<and> \<not> has_start rows \<and> jget0 ''event'' (last rows) = JStr ''cleaned''
      \<and> list_all (\<lambda>r. json_eq (jget0 ''labels'' r) (labels_json (external_labels i cid)) \<and> jget0 ''container'' r = jget0 ''container'' p) rows)"

definition external_no_start_observation ::
  "(string \<Rightarrow> real) \<Rightarrow> sandbox_identity \<Rightarrow> string \<Rightarrow> ext_state \<Rightarrow> budget_error + mutation_outcome option" where
  "external_no_start_observation flt i cid s =
     (case es_control s (proof_path cid) of
        None \<Rightarrow> Inr None
      | Some p \<Rightarrow>
          if \<not> proof_valid i cid p then Inl (StageError ''policy'' ''external no-start observation is invalid'')
          else case read_jsonl flt PROCESSES (es_files s) of
            Inl e \<Rightarrow> Inl (StageError ''policy'' ''external no-start observation is invalid'')
          | Inr rows \<Rightarrow>
              if list_all is_jobj rows \<and> rows_valid i cid p (call_rows cid rows) then
                Inr (Some \<lparr>mo_status = DefinitelyAbsent, mo_result = JNull, mo_evidence = p,
                           mo_detail = Some ''factory observed refusal before any start''\<rparr>)
              else Inl (StageError ''policy'' ''external no-start observation is invalid''))"

section \<open>Recovery after a crash\<close>

record pending_attempt =
  pd_call :: json
  pd_id :: "string option"
  pd_required :: bool

definition json_str :: "json \<Rightarrow> string option" where
  "json_str v = (case v of JStr s \<Rightarrow> Some s | _ \<Rightarrow> None)"

definition labelled :: "labels \<Rightarrow> json \<Rightarrow> bool" where
  "labelled ls row = list_all (\<lambda>(k, v). jget0 k (jget0 ''labels'' row) = JStr v) ls"

definition confirms :: "pending_attempt \<Rightarrow> json \<Rightarrow> string \<Rightarrow> bool" where
  "confirms p row container_id =
     (pd_call p = jget0 ''call_id'' row \<and> is_container_id container_id \<and> (case pd_id p of None \<Rightarrow> True | Some e \<Rightarrow> e = container_id))"

definition pending_row :: "json \<Rightarrow> (string \<times> pending_attempt) list \<Rightarrow> (string \<times> pending_attempt) list option" where
  "pending_row row pending =
     (case json_str (jget0 ''container'' row) of
        None \<Rightarrow> None
      | Some name \<Rightarrow>
          if jget0 ''event'' row = JStr ''intent'' then
            Some (AList.update name \<lparr>pd_call = jget0 ''call_id'' row, pd_id = json_str (jget0 ''container_id'' row),
              pd_required = py_truthy (jget0 ''container_id_required'' row)\<rparr> pending)
          else if jget0 ''event'' row \<in> set [JStr ''created'', JStr ''start_intent''] then
            (case (map_of pending name, json_str (jget0 ''container_id'' row)) of
               (Some p, Some c) \<Rightarrow> if confirms p row c then Some (AList.update name (p\<lparr>pd_id := Some c\<rparr>) pending) else None
             | _ \<Rightarrow> None)
          else if jget0 ''event'' row = JStr ''cleaned'' then Some (filter (\<lambda>(n, p). n \<noteq> name) pending)
          else Some pending)"

fun pending_attempts :: "labels \<Rightarrow> json list \<Rightarrow> (string \<times> pending_attempt) list \<Rightarrow> (string \<times> pending_attempt) list option" where
  "pending_attempts ls [] pending = Some pending"
| "pending_attempts ls (row # rows) pending =
     (if \<not> (is_jobj row \<and> is_jobj (jget0 ''labels'' row)) then None
      else if \<not> labelled ls row then pending_attempts ls rows pending
      else case pending_row row pending of None \<Rightarrow> None | Some p \<Rightarrow> pending_attempts ls rows p)"

definition reap_labels :: "sandbox_identity \<Rightarrow> labels" where
  "reap_labels i = identity_labels i @ [(''swfactory.external'', ''true'')]"

definition reap_owned :: "sandbox_identity \<Rightarrow> docker_row \<Rightarrow> bool" where
  "reap_owned i r =
     (authorize_cleanup i (docker_observation r) (Some (si_epoch i)) False = Some REMOVE \<and> map_of (dr_labels r) ''swfactory.external'' = Some ''true'')"

definition row_hash :: "docker_row \<Rightarrow> string" where
  "row_hash r = (case map_of (dr_labels r) ''swfactory.external-call'' of None \<Rightarrow> [] | Some h \<Rightarrow> h)"

definition reap_call :: "(string \<times> pending_attempt) list \<Rightarrow> docker_row \<Rightarrow> string option" where
  "reap_call pending r = (case map_of pending (dr_name r) of None \<Rightarrow> Some (''recovered.'' @ row_hash r) | Some p \<Rightarrow> json_str (pd_call p))"

definition reap_args :: "(string \<times> pending_attempt) list \<Rightarrow> string \<Rightarrow> docker_row \<Rightarrow> cleanup_args" where
  "reap_args pending cid r =
     \<lparr>cu_name = dr_name r, cu_call = cid, cu_labels = dr_labels r, cu_uncertain_if_absent = True,
      cu_expected = (case map_of pending (dr_name r) of None \<Rightarrow> None | Some p \<Rightarrow> pd_id p),
      cu_require_id = (case map_of pending (dr_name r) of None \<Rightarrow> False | Some p \<Rightarrow> pd_required p), cu_unstarted = False\<rparr>"

definition hash_ok :: "string \<Rightarrow> bool" where
  "hash_ok h = (length h = 16 \<and> list_all (\<lambda>c. c \<in> set ''0123456789abcdef'') h)"

text \<open>One listed container after the other; each that is this run's is removed and its terminal row appended.\<close>

fun reap_rows ::
  "(real \<Rightarrow> string) \<Rightarrow> (string \<Rightarrow> real) \<Rightarrow> sandbox_identity \<Rightarrow> (labels \<Rightarrow> 'x \<Rightarrow> (string + docker_row list) \<times> 'x) \<Rightarrow> (string \<Rightarrow> 'x \<Rightarrow> (string + unit) \<times> 'x)
     \<Rightarrow> real \<Rightarrow> docker_row list \<Rightarrow> (string \<times> pending_attempt) list \<Rightarrow> run_files \<Rightarrow> 'x \<Rightarrow> (string + (string \<times> pending_attempt) list) \<times> run_files \<times> 'x" where
  "reap_rows fr flt i ps rm now [] pending s x = (Inr pending, s, x)"
| "reap_rows fr flt i ps rm now (r # rs) pending s x =
     (if \<not> reap_owned i r then reap_rows fr flt i ps rm now rs pending s x
      else if \<not> hash_ok (row_hash r) \<or> dr_id r = [] \<or> dr_name r = [] then (Inl ''stale external container has an incomplete attempt identity'', s, x)
      else case reap_call pending r of
        None \<Rightarrow> (Inl ''invalid call'', s, x)
      | Some cid \<Rightarrow>
          (case cleanup_external i (reap_args pending cid r) ps rm x of
             (Inl e, x1) \<Rightarrow> (Inl e, s, x1)
           | (Inr _, x1) \<Rightarrow>
               (case append_json fr flt PROCESSES (cleaned_row cid (dr_name r) (dr_labels r) now) s of
                  (Inl e, s1) \<Rightarrow> (Inl ''journal'', s1, x1)
                | (Inr _, s1) \<Rightarrow> reap_rows fr flt i ps rm now rs (filter (\<lambda>(n, p). n \<noteq> dr_name r) pending) s1 x1)))"

definition reap_external ::
  "(real \<Rightarrow> string) \<Rightarrow> (string \<Rightarrow> real) \<Rightarrow> sandbox_identity \<Rightarrow> (labels \<Rightarrow> 'x \<Rightarrow> (string + docker_row list) \<times> 'x) \<Rightarrow> (string \<Rightarrow> 'x \<Rightarrow> (string + unit) \<times> 'x)
     \<Rightarrow> real \<Rightarrow> run_files \<Rightarrow> 'x \<Rightarrow> (string + unit) \<times> run_files \<times> 'x" where
  "reap_external fr flt i ps rm now s x =
     (case read_jsonl flt PROCESSES s of
        Inl e \<Rightarrow> (Inl ''journal'', s, x)
      | Inr records \<Rightarrow>
     (case pending_attempts (reap_labels i) records [] of
        None \<Rightarrow> (Inl ''external process journal contains an invalid record'', s, x)
      | Some pending \<Rightarrow>
     (case ps (reap_labels i) x of
        (Inl e, x1) \<Rightarrow> (Inl e, s, x1)
      | (Inr rows, x1) \<Rightarrow>
     (case reap_rows fr flt i ps rm now rows pending s x1 of
        (Inl e, s2, x2) \<Rightarrow> (Inl e, s2, x2)
      | (Inr left, s2, x2) \<Rightarrow>
     (case ps (reap_labels i) x2 of
        (Inl e, x3) \<Rightarrow> (Inl e, s2, x3)
      | (Inr rows3, x3) \<Rightarrow>
          (if list_ex (reap_owned i) rows3 then Inl ''stale external execution remains after cleanup''
           else if left \<noteq> [] then Inl ''previous external creation has no observed terminal cleanup'' else Inr (), s2, x3))))))"


section \<open>Closing the sandbox\<close>

text \<open>\<open>close\<close>: the containers this identity labelled are reclaimed one by one; an external container is never removed here. The
  result says what was removed and what is left as debt.\<close>

record close_result =
  cl_converged :: "string list"
  cl_failed :: "string list"
  cl_debt :: cleanup_debt

fun close_rows ::
  "sandbox_identity \<Rightarrow> (string \<Rightarrow> 'x \<Rightarrow> (string + unit) \<times> 'x) \<Rightarrow> docker_row list \<Rightarrow> close_result \<Rightarrow> 'x \<Rightarrow> (string + close_result) \<times> 'x" where
  "close_rows i rm [] acc x = (Inr acc, x)"
| "close_rows i rm (r # rs) acc x =
     (if authorize_cleanup i (docker_observation r) (Some (si_epoch i)) False \<noteq> Some REMOVE then close_rows i rm rs acc x
      else if map_of (dr_labels r) ''swfactory.external'' = Some ''true'' then (Inl ''external call lacks observed terminal cleanup'', x)
      else case debt_record (dr_id r) i (cl_debt acc) of
        (Inl e, _) \<Rightarrow> (Inl ''provider identity reused across Factory Cells'', x)
      | (Inr _, d) \<Rightarrow>
          (case rm (dr_id r) x of
             (Inl e, x1) \<Rightarrow> close_rows i rm rs (acc\<lparr>cl_failed := cl_failed acc @ [dr_id r], cl_debt := d\<rparr>) x1
           | (Inr _, x1) \<Rightarrow>
               (case debt_settle (dr_id r) i d of
                  (Inl e, _) \<Rightarrow> (Inl ''cleanup receipt does not match outstanding debt'', x1)
                | (Inr _, d2) \<Rightarrow> close_rows i rm rs (acc\<lparr>cl_converged := cl_converged acc @ [dr_id r], cl_debt := d2\<rparr>) x1)))"

definition close_sandbox ::
  "(real \<Rightarrow> string) \<Rightarrow> (string \<Rightarrow> real) \<Rightarrow> sandbox_identity \<Rightarrow> (labels \<Rightarrow> 'x \<Rightarrow> (string + docker_row list) \<times> 'x) \<Rightarrow> (string \<Rightarrow> 'x \<Rightarrow> (string + unit) \<times> 'x)
     \<Rightarrow> real \<Rightarrow> run_files \<Rightarrow> 'x \<Rightarrow> (string + close_result) \<times> run_files \<times> 'x" where
  "close_sandbox fr flt i ps rm now s x =
     (case (if rf_journal s PROCESSES = [] then (Inr (), s, x) else reap_external fr flt i ps rm now s x) of
        (Inl e, s1, x1) \<Rightarrow> (Inl e, s1, x1)
      | (Inr _, s1, x1) \<Rightarrow>
          (case ps (identity_labels i) x1 of
             (Inl e, x2) \<Rightarrow> (Inr \<lparr>cl_converged = [], cl_failed = [], cl_debt = []\<rparr>, s1, x2)
           | (Inr rows, x2) \<Rightarrow>
               (case close_rows i rm rows \<lparr>cl_converged = [], cl_failed = [], cl_debt = []\<rparr> x2 of (res, x3) \<Rightarrow> (res, s1, x3))))"

lemma close_spares_others:
  assumes "\<And>r x. r \<in> set rows \<Longrightarrow> from_labels (si_provider i) (dr_labels r) = Some i \<Longrightarrow> map_of (dr_labels r) ''swfactory.external'' \<noteq> Some ''true''
    \<Longrightarrow> rm (dr_id r) x = rm' (dr_id r) x"
  shows "close_rows i rm rows acc x = close_rows i rm' rows acc x"
  using assms
proof (induction rows arbitrary: acc x)
  case (Cons r rows)
  have "rm (dr_id r) x = rm' (dr_id r) x"
    if "authorize_cleanup i (docker_observation r) (Some (si_epoch i)) False = Some REMOVE" "map_of (dr_labels r) ''swfactory.external'' \<noteq> Some ''true''"
    using Cons.prems[of r x] removed_is_claimed[OF that(1)] that(2) by (simp add: docker_observation_def)
  moreover have "close_rows i rm rows acc x = close_rows i rm' rows acc x" for acc x using Cons by simp
  ultimately show ?case
    by (cases "authorize_cleanup i (docker_observation r) (Some (si_epoch i)) False = Some REMOVE \<and> map_of (dr_labels r) ''swfactory.external'' \<noteq> Some ''true''")
      (auto split: prod.splits sum.splits)
qed simp

section \<open>The attempt as a machine\<close>

datatype ext_phase =
    PIntent
  | PCreate
  | PCreated string
  | PConfirm string
  | PStartRow string
  | PStart string
  | PTeardown bool "string option"
  | PCleaned bool
  | PProof
  | PDone

record ext_proc =
  xp_call :: string
  xp_name :: string
  xp_phase :: ext_phase
  xp_exit :: int

record ext_sys =
  ex_state :: ext_state
  ex_proc :: "ext_proc option"
  ex_started :: "string \<Rightarrow> bool"
  ex_used :: "string \<Rightarrow> bool"

text \<open>What a phase appends to the journal, and the phase after it.\<close>

definition phase_row :: "sandbox_identity \<Rightarrow> real \<Rightarrow> ext_proc \<Rightarrow> json option" where
  "phase_row i now p =
     (let cid = xp_call p; ls = external_labels i cid in
      case xp_phase p of
        PIntent \<Rightarrow> Some (intent_row cid (xp_name p) ls now)
      | PCreated c \<Rightarrow> Some (container_row ''created'' cid (xp_name p) c ls now)
      | PStartRow c \<Rightarrow> Some (container_row ''start_intent'' cid (xp_name p) c ls now)
      | PCleaned refused \<Rightarrow> Some (cleaned_row cid (xp_name p) ls now)
      | _ \<Rightarrow> None)"

definition after_row :: "ext_phase \<Rightarrow> ext_phase" where
  "after_row ph =
     (case ph of
        PIntent \<Rightarrow> PCreate
      | PCreated c \<Rightarrow> PConfirm c
      | PStartRow c \<Rightarrow> PStart c
      | PCleaned refused \<Rightarrow> if refused then PProof else PDone
      | _ \<Rightarrow> ph)"

definition after_create :: "run_result \<Rightarrow> ext_phase" where
  "after_create r =
     (if \<not> rr_ok r then PTeardown (create_refused r) None
      else let c = py_strip (rr_stdout r) in if is_container_id c then PCreated c else PTeardown False None)"

definition after_confirm :: "sandbox_identity \<Rightarrow> ext_proc \<Rightarrow> string \<Rightarrow> string + docker_row list \<Rightarrow> ext_phase" where
  "after_confirm i p c listing =
     (case listing of
        Inl e \<Rightarrow> PTeardown False (Some c)
      | Inr rows \<Rightarrow> if create_confirmed (xp_name p) c (external_labels i (xp_call p)) rows then PStartRow c else PTeardown False (Some c))"

definition teardown_args :: "sandbox_identity \<Rightarrow> ext_proc \<Rightarrow> bool \<Rightarrow> string option \<Rightarrow> cleanup_args" where
  "teardown_args i p refused c =
     \<lparr>cu_name = xp_name p, cu_call = xp_call p, cu_labels = external_labels i (xp_call p), cu_uncertain_if_absent = \<not> refused,
      cu_expected = c, cu_require_id = True, cu_unstarted = refused\<rparr>"

definition after_teardown :: "bool \<Rightarrow> string + unit \<Rightarrow> ext_phase" where
  "after_teardown refused res = (case res of Inl e \<Rightarrow> PDone | Inr _ \<Rightarrow> PCleaned refused)"

definition write_proof :: "sandbox_identity \<Rightarrow> string \<Rightarrow> ext_proc \<Rightarrow> ext_state \<Rightarrow> ext_state" where
  "write_proof i img p s =
     s\<lparr>es_control := (es_control s)(proof_path (xp_call p) \<mapsto> proof_json (xp_call p) (xp_name p) (external_labels i (xp_call p)) img (xp_exit p))\<rparr>"

definition with_files :: "run_files \<Rightarrow> ext_sys \<Rightarrow> ext_sys" where
  "with_files s g = g\<lparr>ex_state := (ex_state g)\<lparr>es_files := s\<rparr>\<rparr>"

inductive ext_step :: "(real \<Rightarrow> string) \<Rightarrow> (string \<Rightarrow> real) \<Rightarrow> sandbox_identity \<Rightarrow> ext_sys \<Rightarrow> ext_sys \<Rightarrow> bool" for fr flt i where
  x_begin: "ex_proc g = None \<Longrightarrow> \<not> ex_used g cid
    \<Longrightarrow> ext_step fr flt i g (g\<lparr>ex_proc := Some \<lparr>xp_call = cid, xp_name = name, xp_phase = PIntent, xp_exit = 0\<rparr>, ex_used := (ex_used g)(cid := True)\<rparr>)"
| x_row: "ex_proc g = Some p \<Longrightarrow> phase_row i now p = Some row \<Longrightarrow> is_record fr flt row
    \<Longrightarrow> append_json fr flt PROCESSES row (es_files (ex_state g)) = (Inr line, s')
    \<Longrightarrow> ext_step fr flt i g ((with_files s' g)\<lparr>ex_proc := Some (p\<lparr>xp_phase := after_row (xp_phase p)\<rparr>)\<rparr>)"
| x_row_dies: "ex_proc g = Some p \<Longrightarrow> phase_row i now p = Some row \<Longrightarrow> is_record fr flt row
    \<Longrightarrow> append_dies fr flt PROCESSES row (es_files (ex_state g)) s' \<Longrightarrow> ext_step fr flt i g ((with_files s' g)\<lparr>ex_proc := None\<rparr>)"
| x_create: "ex_proc g = Some p \<Longrightarrow> xp_phase p = PCreate
    \<Longrightarrow> ext_step fr flt i g (g\<lparr>ex_proc := Some (p\<lparr>xp_phase := after_create r, xp_exit := rr_exit r\<rparr>)\<rparr>)"
| x_confirm: "ex_proc g = Some p \<Longrightarrow> xp_phase p = PConfirm c
    \<Longrightarrow> ext_step fr flt i g (g\<lparr>ex_proc := Some (p\<lparr>xp_phase := after_confirm i p c listing\<rparr>)\<rparr>)"
| x_start: "ex_proc g = Some p \<Longrightarrow> xp_phase p = PStart c
    \<Longrightarrow> ext_step fr flt i g (g\<lparr>ex_started := (ex_started g)(xp_call p := True), ex_proc := Some (p\<lparr>xp_phase := PTeardown False (Some c)\<rparr>)\<rparr>)"
| x_teardown: "ex_proc g = Some p \<Longrightarrow> xp_phase p = PTeardown refused c \<Longrightarrow> fst (cleanup_external i (teardown_args i p refused c) ps rm (x :: docker_row list)) = res
    \<Longrightarrow> ext_step fr flt i g (g\<lparr>ex_proc := Some (p\<lparr>xp_phase := after_teardown refused res\<rparr>)\<rparr>)"
| x_proof: "ex_proc g = Some p \<Longrightarrow> xp_phase p = PProof
    \<Longrightarrow> ext_step fr flt i g (g\<lparr>ex_state := write_proof i img p (ex_state g), ex_proc := Some (p\<lparr>xp_phase := PDone\<rparr>)\<rparr>)"
| x_end: "ex_proc g = Some p \<Longrightarrow> xp_phase p = PDone \<Longrightarrow> ext_step fr flt i g (g\<lparr>ex_proc := None\<rparr>)"
| x_dies: "ext_step fr flt i g (g\<lparr>ex_proc := None\<rparr>)"
| x_reaped: "ex_proc g = None \<Longrightarrow> is_record fr flt (cleaned_row cid name ls now)
    \<Longrightarrow> append_json fr flt PROCESSES (cleaned_row cid name ls now) (es_files (ex_state g)) = (Inr line, s') \<Longrightarrow> ext_step fr flt i g (with_files s' g)"
| x_reap_dies: "ex_proc g = None \<Longrightarrow> is_record fr flt (cleaned_row cid name ls now)
    \<Longrightarrow> append_dies fr flt PROCESSES (cleaned_row cid name ls now) (es_files (ex_state g)) s' \<Longrightarrow> ext_step fr flt i g (with_files s' g)"
| x_other: "rf_journal s' PROCESSES = rf_journal (es_files (ex_state g)) PROCESSES \<Longrightarrow> ext_step fr flt i g (with_files s' g)"

definition ext_init :: "ext_sys \<Rightarrow> bool" where
  "ext_init g \<longleftrightarrow> rf_journal (es_files (ex_state g)) PROCESSES = [] \<and> es_control (ex_state g) = Map.empty \<and> ex_proc g = None
     \<and> ex_started g = (\<lambda>c. False) \<and> ex_used g = (\<lambda>c. False)"

section \<open>A start leaves its row\<close>

definition ext_rows :: "(string \<Rightarrow> real) \<Rightarrow> ext_sys \<Rightarrow> json list" where
  "ext_rows flt g = journal_rows flt PROCESSES (es_files (ex_state g))"

text \<open>The call of a proof is over: it was used and no process of it will start anything.\<close>

definition call_over :: "ext_sys \<Rightarrow> string \<Rightarrow> bool" where
  "call_over g cid \<longleftrightarrow> ex_used g cid \<and> (\<forall>p. ex_proc g = Some p \<longrightarrow> xp_call p = cid \<longrightarrow> xp_phase p = PDone)"

definition ext_inv :: "(real \<Rightarrow> string) \<Rightarrow> (string \<Rightarrow> real) \<Rightarrow> ext_sys \<Rightarrow> bool" where
  "ext_inv fr flt g \<longleftrightarrow> journal_good fr flt PROCESSES (es_files (ex_state g))
     \<and> (\<forall>cid. ex_started g cid \<longrightarrow> has_start (call_rows cid (ext_rows flt g)))
     \<and> (\<forall>p c. ex_proc g = Some p \<longrightarrow> xp_phase p = PStart c \<longrightarrow> has_start (call_rows (xp_call p) (ext_rows flt g)))
     \<and> (\<forall>p. ex_proc g = Some p \<longrightarrow> ex_used g (xp_call p))
     \<and> (\<forall>path doc cid. es_control (ex_state g) path = Some doc \<longrightarrow> jget0 ''call_id'' doc = JStr cid \<longrightarrow> call_over g cid)"

lemma has_start_mono: "has_start (call_rows cid rows) \<Longrightarrow> has_start (call_rows cid (rows @ rest))"
  by (auto simp: has_start_def call_rows_def)

lemma start_row_seen: "has_start (call_rows cid (rows @ [container_row ''start_intent'' cid name c ls now]))"
  by (simp add: has_start_def call_rows_def container_row_def jget_or_def)

lemma map_of_sorted: "distinct (map fst kvs) \<Longrightarrow> map_of (sort_key fst kvs) = map_of kvs"
  by (intro map_of_inject_set[THEN iffD2]) (simp_all add: distinct_map)

lemma jget_canon: "distinct (map fst kvs) \<Longrightarrow> jget k (jcanon (JObj kvs)) = map_option jcanon (map_of kvs k)"
proof -
  assume d: "distinct (map fst kvs)"
  have "distinct (map fst (map (\<lambda>(k, v). (k, jcanon v)) kvs))" using d by (simp add: comp_def split_def)
  from map_of_sorted[OF this] have "jget k (jcanon (JObj kvs)) = map_of (map (\<lambda>(k, v). (k, jcanon v)) kvs) k" by simp
  then show ?thesis by (simp add: map_of_map)
qed

lemma proof_call: "jget0 ''call_id'' (proof_json cid name ls img e) = JStr cid"
  unfolding proof_json_def jget_or_def by (subst jget_canon) simp_all

text \<open>What a step of the process changes: the rows grow, and the controls only by a proof.\<close>

lemma grown_inv:
  assumes inv: "ext_inv fr flt g" and rows: "ext_rows flt g' = ext_rows flt g @ rest" and good: "journal_good fr flt PROCESSES (es_files (ex_state g'))"
    and started: "\<And>c. ex_started g' c \<Longrightarrow> ex_started g c \<or> has_start (call_rows c (ext_rows flt g'))"
    and start: "\<And>p c. ex_proc g' = Some p \<Longrightarrow> xp_phase p = PStart c \<Longrightarrow> has_start (call_rows (xp_call p) (ext_rows flt g'))"
    and used: "\<And>p. ex_proc g' = Some p \<Longrightarrow> ex_used g' (xp_call p)" "\<And>c. ex_used g c \<Longrightarrow> ex_used g' c"
    and over: "\<And>p. ex_proc g' = Some p \<Longrightarrow> xp_phase p = PDone \<or> \<not> ex_used g (xp_call p) \<or> (\<exists>q. ex_proc g = Some q \<and> xp_call q = xp_call p \<and> xp_phase q \<noteq> PDone)"
    and ctrl: "es_control (ex_state g') = es_control (ex_state g)"
  shows "ext_inv fr flt g'"
proof -
  have "call_over g' cid" if "call_over g cid" for cid
    using that over used(2) unfolding call_over_def by blast
  then show ?thesis
    using inv good started start used has_start_mono rows ctrl unfolding ext_inv_def by (metis (no_types, lifting))
qed


lemma append_rows_ext:
  assumes "journal_good fr flt PROCESSES (es_files (ex_state g))" and "is_record fr flt row"
    and "append_json fr flt PROCESSES row (es_files (ex_state g)) = (Inr line, s')"
  shows "journal_good fr flt PROCESSES s'" and "journal_rows flt PROCESSES s' = ext_rows flt g @ [row]"
  using journal.append_good[OF assms(1,2)] journal.append_rows[OF assms(1,2)] assms(3) by (simp_all add: ext_rows_def)

lemma dies_rows_ext:
  assumes "journal_good fr flt PROCESSES (es_files (ex_state g))" and "is_record fr flt row"
    and "append_dies fr flt PROCESSES row (es_files (ex_state g)) s'"
  shows "journal_good fr flt PROCESSES s'" and "\<exists>rest. journal_rows flt PROCESSES s' = ext_rows flt g @ rest"
proof -
  show "journal_good fr flt PROCESSES s'" using journal.dies_good[OF assms] .
  have "journal_rows flt PROCESSES s' = ext_rows flt g @ [] \<or> journal_rows flt PROCESSES s' = ext_rows flt g @ [row]"
    using journal.dies_rows[OF assms] by (simp add: ext_rows_def)
  then show "\<exists>rest. journal_rows flt PROCESSES s' = ext_rows flt g @ rest" by blast
qed

lemma with_files_simps [simp]:
  "ex_proc (with_files s g) = ex_proc g" "ex_started (with_files s g) = ex_started g" "ex_used (with_files s g) = ex_used g"
  "es_control (ex_state (with_files s g)) = es_control (ex_state g)" "es_files (ex_state (with_files s g)) = s"
  by (simp_all add: with_files_def)

lemma row_phase: "phase_row i now p = Some row \<Longrightarrow> xp_phase p \<noteq> PDone \<and> (\<forall>c. after_row (xp_phase p) = PStart c \<longrightarrow>
    row = container_row ''start_intent'' (xp_call p) (xp_name p) c (external_labels i (xp_call p)) now)"
  by (auto simp: phase_row_def after_row_def Let_def split: ext_phase.splits if_splits)

lemma not_start [simp]: "after_create r \<noteq> PStart c" "after_confirm i p c' l \<noteq> PStart c" "after_teardown b res \<noteq> PStart c"
  by (auto simp: after_create_def after_confirm_def after_teardown_def Let_def split: sum.splits)

lemma ext_step_inv:
  assumes inv: "ext_inv fr flt g" and step: "ext_step fr flt i g g'"
  shows "ext_inv fr flt g'"
proof -
  have good: "journal_good fr flt PROCESSES (es_files (ex_state g))" and used: "\<And>p. ex_proc g = Some p \<Longrightarrow> ex_used g (xp_call p)"
    and started: "\<And>p c. ex_proc g = Some p \<Longrightarrow> xp_phase p = PStart c \<Longrightarrow> has_start (call_rows (xp_call p) (ext_rows flt g))"
    using inv by (simp_all add: ext_inv_def)
  from step show ?thesis
  proof cases
    case (x_begin cid name)
    then show ?thesis using good by (intro grown_inv[OF inv, of _ "[]"]) (auto simp: ext_rows_def)
  next
    case (x_row p now row line s')
    note app = append_rows_ext[OF good x_row(4,5)]
    show ?thesis using x_row used app row_phase[OF x_row(3)] start_row_seen
      by (intro grown_inv[OF inv, of _ "[row]"]) (auto simp: ext_rows_def)
  next
    case (x_row_dies p now row s')
    note d = dies_rows_ext[OF good x_row_dies(4,5)]
    then obtain rest where "journal_rows flt PROCESSES s' = ext_rows flt g @ rest" by blast
    then show ?thesis using x_row_dies d(1) by (intro grown_inv[OF inv, of _ rest]) (auto simp: ext_rows_def)
  next
    case (x_create p r)
    then show ?thesis using good used by (intro grown_inv[OF inv, of _ "[]"]) (auto simp: ext_rows_def)
  next
    case (x_confirm p c listing)
    then show ?thesis using good used by (intro grown_inv[OF inv, of _ "[]"]) (auto simp: ext_rows_def)
  next
    case (x_start p c)
    then show ?thesis using good used started[OF x_start(2,3)] by (intro grown_inv[OF inv, of _ "[]"]) (auto simp: ext_rows_def split: if_splits)
  next
    case (x_teardown p refused c ps rm x res)
    then show ?thesis using good used by (intro grown_inv[OF inv, of _ "[]"]) (auto simp: ext_rows_def)
  next
    case (x_proof p img)
    have "call_over g' (xp_call p)" using x_proof used by (simp add: call_over_def)
    moreover have "call_over g' cid" if "call_over g cid" for cid using that x_proof by (auto simp: call_over_def)
    ultimately show ?thesis using inv x_proof proof_call
      by (auto simp: ext_inv_def write_proof_def ext_rows_def split: if_splits)
  next
    case (x_end p)
    then show ?thesis using good by (intro grown_inv[OF inv, of _ "[]"]) (auto simp: ext_rows_def)
  next
    case x_dies
    then show ?thesis using good by (intro grown_inv[OF inv, of _ "[]"]) (auto simp: ext_rows_def)
  next
    case (x_reaped cid name ls now line s')
    note app = append_rows_ext[OF good x_reaped(3,4)]
    show ?thesis using x_reaped app by (intro grown_inv[OF inv, of _ "[cleaned_row cid name ls now]"]) (auto simp: ext_rows_def)
  next
    case (x_reap_dies cid name ls now s')
    note d = dies_rows_ext[OF good x_reap_dies(3,4)]
    then obtain rest where "journal_rows flt PROCESSES s' = ext_rows flt g @ rest" by blast
    then show ?thesis using x_reap_dies d(1) by (intro grown_inv[OF inv, of _ rest]) (auto simp: ext_rows_def)
  next
    case (x_other s')
    have "holds_rows fr flt PROCESSES s' rs = holds_rows fr flt PROCESSES (es_files (ex_state g)) rs" for rs
      using x_other(2) by (simp add: holds_rows_def)
    moreover have "journal_rows flt PROCESSES s' = ext_rows flt g" using x_other(2) by (simp add: ext_rows_def journal_rows_def read_jsonl_def)
    ultimately show ?thesis using x_other(1) good used by (intro grown_inv[OF inv, of _ "[]"]) (auto simp: ext_rows_def journal_good_def started[unfolded ext_rows_def])
  qed
qed

interpretation attempts: inductive_invariant ext_init "ext_step fr flt i" "ext_inv fr flt"
proof unfold_locales
  show "ext_inv fr flt g" if "ext_init g" for g
  proof -
    have "holds_rows fr flt PROCESSES (es_files (ex_state g)) []" using that by (intro empty_journal_good) (simp add: ext_init_def)
    then show ?thesis using that by (auto simp: ext_init_def ext_inv_def journal_good_def)
  qed
qed (rule ext_step_inv)


section \<open>The proof is the truth\<close>

definition never_started :: "ext_sys \<Rightarrow> string \<Rightarrow> bool" where
  "never_started g cid \<longleftrightarrow> \<not> ex_started g cid \<and> call_over g cid"

lemma never_started_step:
  assumes "never_started g cid" and "ext_step fr flt i g g'"
  shows "never_started g' cid"
  using assms(2,1)
  by cases (auto simp: never_started_def call_over_def phase_row_def Let_def split: ext_phase.splits)

lemma never_started_steps: "(ext_step fr flt i)\<^sup>*\<^sup>* g g' \<Longrightarrow> never_started g cid \<Longrightarrow> never_started g' cid"
  by (induction rule: rtranclp_induct) (auto intro: never_started_step)

lemma observed_never_started:
  assumes "ext_inv fr flt g" and "external_no_start_observation flt i cid (ex_state g) = Inr (Some m)"
  shows "never_started g cid" and "mo_status m = DefinitelyAbsent"
proof -
  obtain p rows where o: "es_control (ex_state g) (proof_path cid) = Some p" "proof_valid i cid p"
    "read_jsonl flt PROCESSES (es_files (ex_state g)) = Inr rows" "rows_valid i cid p (call_rows cid rows)" "mo_status m = DefinitelyAbsent"
    using assms(2) by (auto simp: external_no_start_observation_def split: option.splits if_splits sum.splits)
  then show "mo_status m = DefinitelyAbsent" by simp
  have "call_over g cid" using assms(1) o(1,2) unfolding ext_inv_def proof_valid_def by blast
  moreover have "rows = ext_rows flt g" using o(3) by (simp add: ext_rows_def journal_rows_def)
  then have "\<not> ex_started g cid" using assms(1) o(4) unfolding ext_inv_def rows_valid_def by blast
  ultimately show "never_started g cid" by (simp add: never_started_def)
qed

text \<open>C15: a proof that an attempt never started is the truth, and stays the truth. Through every history of attempts, refusals of the
  daemon, crashes in any phase and inside any write, and recoveries, a call whose no-start observation is accepted has no
  container that was asked to start, and no later step of the factory asks one to. What the observation lets the ledger
  release was never spent.\<close>

theorem no_start_is_truth:
  assumes "reach ext_init (ext_step fr flt i) g" and "external_no_start_observation flt i cid (ex_state g) = Inr (Some m)"
    and "(ext_step fr flt i)\<^sup>*\<^sup>* g g'"
  shows "\<not> ex_started g' cid \<and> observed_usage m = Inr (Some 0)"
  using never_started_steps[OF assms(3)] observed_never_started[OF attempts.reach_inv[OF assms(1)] assms(2)]
  by (simp add: never_started_def observed_usage_def releasing_def)

text \<open>With it the ledger's hypothesis on observations holds for this sandbox: a provider bills only what was started.\<close>

lemma sandbox_observations_true:
  assumes "reach ext_init (ext_step fr flt i) g" and "\<forall>cid. bill cid \<noteq> 0 \<longrightarrow> ex_started g cid"
    and "\<And>cid m. external_no_start_observation flt i cid (ex_state g) = Inr (Some m) \<Longrightarrow> \<forall>s. outcome_written fr flt pr env cid m s"
  shows "observations_ok fr flt pr env (\<lambda>cid. external_no_start_observation flt i cid (ex_state g)) bill"
  using assms observed_never_started[OF attempts.reach_inv[OF assms(1)]]
  unfolding observations_ok_def by (fastforce simp: never_started_def observed_usage_def releasing_def)

text \<open>And a refused attempt that ran to its end is accepted: the proof it wrote passes the reader's checks.\<close>

lemma refused_attempt_accepted:
  assumes "read_jsonl flt PROCESSES (es_files s) = Inr rows" and "list_all is_jobj rows"
    and "call_rows cid rows = [intent_row cid name (external_labels i cid) t1, cleaned_row cid name (external_labels i cid) t2]"
    and "es_control s (proof_path cid) = Some (proof_json cid name (external_labels i cid) img e)" and "0 < e"
  shows "\<exists>m. external_no_start_observation flt i cid s = Inr (Some m)"
proof -
  let ?p = "proof_json cid name (external_labels i cid) img e"
  have get: "jget k ?p = map_option jcanon (map_of [(''schema_version'', JInt 1), (''status'', JStr ''not_started''), (''phase'', JStr ''create''), (''call_id'', JStr cid),
       (''container'', JStr name), (''labels'', labels_json (external_labels i cid)), (''image'', JStr img), (''exit_code'', JInt e)] k)" for k
    unfolding proof_json_def by (rule jget_canon) simp
  have "is_jobj ?p" by (simp add: proof_json_def)
  then have "proof_valid i cid ?p" using assms(5) by (simp add: proof_valid_def jget_or_def get json_eq_def jcanon_idem jis_str_def positive_int_def)
  moreover have "rows_valid i cid ?p (call_rows cid rows)"
    unfolding assms(3) by (simp add: rows_valid_def has_start_def intent_row_def cleaned_row_def jget_or_def get json_eq_def)
  ultimately show ?thesis using assms(1,2,4) by (simp add: external_no_start_observation_def)
qed


definition demo_box :: sandbox_identity where
  "demo_box = \<lparr>si_provider = ''docker'', si_cell = ''c1'', si_epoch = 1, si_attempt = ''r1''\<rparr>"

definition demo_refusal :: run_result where
  "demo_refusal = \<lparr>rr_exit = 1, rr_stdout = [], rr_stderr = ''Error response from daemon: no'', rr_timed_out = False\<rparr>"

lemma labels_ok: "distinct (map fst ls) \<Longrightarrow> json_ok fr flt (labels_json ls)"
  by (induction ls) (auto simp: labels_json_def split_def comp_def)

lemma demo_rows_ok:
  "is_record demo_fr demo_flt (intent_row cid n (external_labels demo_box cid) 0)" "is_record demo_fr demo_flt (cleaned_row cid n (external_labels demo_box cid) 0)"
proof -
  have "json_ok demo_fr demo_flt (labels_json (external_labels demo_box cid))" by (rule labels_ok) (simp add: external_labels_def identity_labels_def)
  then show "is_record demo_fr demo_flt (intent_row cid n (external_labels demo_box cid) 0)" "is_record demo_fr demo_flt (cleaned_row cid n (external_labels demo_box cid) 0)"
    using demo_floats(1) by (simp_all add: is_record_def intent_row_def cleaned_row_def)
qed

lemma demo_refused_run:
  "\<exists>g. reach ext_init (ext_step demo_fr demo_flt demo_box) g \<and> ex_used g ''call'' \<and> (\<exists>m. external_no_start_observation demo_flt demo_box ''call'' (ex_state g) = Inr (Some m))"
proof -
  let ?step = "ext_step demo_fr demo_flt demo_box" and ?ls = "external_labels demo_box ''call''"
  define p where "p ph e = \<lparr>xp_call = ''call'', xp_name = ''n'', xp_phase = ph, xp_exit = e\<rparr>" for ph e
  define g0 :: ext_sys where "g0 = \<lparr>ex_state = \<lparr>es_files = \<lparr>rf_journal = (\<lambda>n. []), rf_recovered = []\<rparr>, es_control = Map.empty\<rparr>, ex_proc = None,
    ex_started = (\<lambda>c. False), ex_used = (\<lambda>c. False)\<rparr>"
  have r0: "reach ext_init ?step g0" by (rule reach_init) (simp add: ext_init_def g0_def)
  define g1 where "g1 = g0\<lparr>ex_proc := Some (p PIntent 0), ex_used := (\<lambda>c. False)(''call'' := True)\<rparr>"
  have "?step g0 g1" using x_begin[of g0 "''call''" demo_fr demo_flt demo_box "''n''"] by (simp add: g0_def g1_def p_def)
  then have r1: "reach ext_init ?step g1" by (rule reach_step[OF r0])
  obtain line1 s1 where s1: "append_json demo_fr demo_flt PROCESSES (intent_row ''call'' ''n'' ?ls 0) (es_files (ex_state g1)) = (Inr line1, s1)"
    "holds_rows demo_fr demo_flt PROCESSES s1 [intent_row ''call'' ''n'' ?ls 0]"
    using holds_rows_append[OF empty_journal_good[of "es_files (ex_state g1)" PROCESSES] demo_rows_ok(1)]
    by (fastforce simp: g1_def g0_def prod_eq_iff)
  define g2 where "g2 = (with_files s1 g1)\<lparr>ex_proc := Some (p PCreate 0)\<rparr>"
  have "?step g1 g2" using x_row[of g1 "p PIntent 0" demo_box 0 _ demo_fr demo_flt line1 s1] s1(1) demo_rows_ok(1)
    by (simp add: g1_def g2_def p_def phase_row_def after_row_def Let_def)
  then have r2: "reach ext_init ?step g2" by (rule reach_step[OF r1])
  define g3 where "g3 = g2\<lparr>ex_proc := Some (p (PTeardown True None) 1)\<rparr>"
  have "after_create demo_refusal = PTeardown True None" by (simp add: after_create_def rr_ok_def create_refused_def demo_refusal_def) code_simp
  then have "?step g2 g3" using x_create[of g2 "p PCreate 0" demo_fr demo_flt demo_box demo_refusal] by (simp add: g2_def g3_def p_def demo_refusal_def)
  then have r3: "reach ext_init ?step g3" by (rule reach_step[OF r2])
  define g4 where "g4 = g3\<lparr>ex_proc := Some (p (PCleaned True) 1)\<rparr>"
  have "?step g3 g4"
    using x_teardown[of g3 "p (PTeardown True None) 1" True None demo_box "\<lambda>ls x. (Inr [], x)" "\<lambda>c x. (Inr (), x)" "[]" "Inr ()" demo_fr demo_flt]
    by (simp add: g3_def g4_def p_def cleanup_external_def observe_attempt_def Let_def teardown_args_def after_teardown_def)
  then have r4: "reach ext_init ?step g4" by (rule reach_step[OF r3])
  obtain line2 s2 where s2: "append_json demo_fr demo_flt PROCESSES (cleaned_row ''call'' ''n'' ?ls 0) s1 = (Inr line2, s2)"
    "holds_rows demo_fr demo_flt PROCESSES s2 ([intent_row ''call'' ''n'' ?ls 0] @ [cleaned_row ''call'' ''n'' ?ls 0])"
    using holds_rows_append[OF s1(2) demo_rows_ok(2)] by (fastforce simp: prod_eq_iff)
  define g5 where "g5 = (with_files s2 g4)\<lparr>ex_proc := Some (p PProof 1)\<rparr>"
  have "?step g4 g5" using x_row[of g4 "p (PCleaned True) 1" demo_box 0 _ demo_fr demo_flt line2 s2] s2(1) demo_rows_ok(2)
    by (simp add: g4_def g3_def g2_def g5_def p_def phase_row_def after_row_def Let_def)
  then have r5: "reach ext_init ?step g5" by (rule reach_step[OF r4])
  define g6 where "g6 = g5\<lparr>ex_state := write_proof demo_box ''img'' (p PProof 1) (ex_state g5), ex_proc := Some (p PDone 1)\<rparr>"
  have "?step g5 g6" using x_proof[of g5 "p PProof 1" demo_fr demo_flt demo_box "''img''"] by (simp add: g5_def g6_def p_def)
  then have r6: "reach ext_init ?step g6" by (rule reach_step[OF r5])
  have "\<exists>m. external_no_start_observation demo_flt demo_box ''call'' (ex_state g6) = Inr (Some m)"
  proof (rule refused_attempt_accepted[where name="''n''" and img="''img''" and e=1])
    show "read_jsonl demo_flt PROCESSES (es_files (ex_state g6)) = Inr [intent_row ''call'' ''n'' ?ls 0, cleaned_row ''call'' ''n'' ?ls 0]"
      using holds_rows_read[OF s2(2)] by (simp add: g6_def g5_def write_proof_def)
    show "es_control (ex_state g6) (proof_path ''call'') = Some (proof_json ''call'' ''n'' ?ls ''img'' 1)"
      by (simp add: g6_def write_proof_def p_def)
  qed (simp_all add: intent_row_def cleaned_row_def call_rows_def jget_or_def)
  moreover have "ex_used g6 ''call''" by (simp add: g6_def g5_def g4_def g3_def g2_def g1_def)
  ultimately show ?thesis using r6 by blast
qed

theorem no_start_is_truth_witness:
  "\<exists>(g :: ext_sys) m. ex_used g ''call'' \<and> external_no_start_observation demo_flt demo_box ''call'' (ex_state g) = Inr (Some m)
     \<and> \<not> ex_started g ''call'' \<and> observed_usage m = Inr (Some 0)"
proof -
  obtain g m where g: "reach ext_init (ext_step demo_fr demo_flt demo_box) g" "ex_used g ''call''"
    "external_no_start_observation demo_flt demo_box ''call'' (ex_state g) = Inr (Some m)"
    using demo_refused_run by blast
  have "\<not> ex_started g ''call'' \<and> observed_usage m = Inr (Some 0)" by (rule no_start_is_truth[OF g(1,3) rtranclp.rtrancl_refl])
  then show ?thesis using g(2,3) by blast
qed

end
