(* ===== verification/CallObservations.thy ===== *)
theory CallObservations
  imports ExternalRun
begin

text \<open>
  Billing observations an operator imports, \<open>src/src/swfactory/call_observations.py\<close>: the strict reader of the ledger, the
  factory's descriptor of a call, the terminal cleanup a final bill must follow, and the import itself, which composes the
  ledger (\<open>CallAccounting\<close>) and the container journal (\<open>ExternalRun\<close>). It runs while it owns the run (\<open>RunState\<close>), so it is one step.

  Schema parsing is pydantic's: \<open>parse_obs\<close> and \<open>parse_desc\<close> give the typed fields of a document, or nothing; the validators the
  source writes are definitions here. The file the operator names is the argument \<open>source_file\<close> with what \<open>stat\<close> and the path
  checks say of it. \<open>stamp\<close> is the time an ISO timestamp denotes.
\<close>

section \<open>The strict reader\<close>

definition money_ok :: "json \<Rightarrow> bool" where
  "money_ok v = (case v of JInt n \<Rightarrow> 0 \<le> n | JReal r \<Rightarrow> 0 \<le> r | _ \<Rightarrow> False)"

definition strict_row :: "json \<Rightarrow> bool" where
  "strict_row row =
     (is_jobj row
      \<and> (case jget ''call_id'' row of
           None \<Rightarrow> money_ok (jget0 ''floor_usd'' row)
         | Some v \<Rightarrow> (case v of JStr s \<Rightarrow> s \<noteq> [] | _ \<Rightarrow> False) \<and> money_ok (jget0 ''reserved_usd'' row)
             \<and> (jget0 ''cost_usd'' row = JNull \<or> money_ok (jget0 ''cost_usd'' row))))"

datatype import_error =
    ImportValue
  | ImportLedger ledger_error
  | ImportRefused string

definition strict_records :: "(string \<Rightarrow> real) \<Rightarrow> py_reader \<Rightarrow> run_files \<Rightarrow> import_error + call_record list" where
  "strict_records flt pr s =
     (case read_jsonl flt CALLS_LOG s of
        Inl e \<Rightarrow> Inl (ImportLedger (LedgerJournal e))
      | Inr rows \<Rightarrow>
          if \<not> list_all strict_row rows then Inl ImportValue
          else case call_records flt pr s of Inl e \<Rightarrow> Inl (ImportLedger e) | Inr rs \<Rightarrow> Inr rs)"

section \<open>Documents\<close>

record descriptor =
  ds_run :: string
  ds_call :: string
  ds_inputs :: "string option"
  ds_profile :: json
  ds_profile_sha :: string
  ds_manifest_sha :: string
  ds_stage :: string
  ds_iteration :: int
  ds_reserved :: real
  ds_sandbox :: string
  ds_workdir :: string
  ds_labels :: labels

definition is_sha :: "string \<Rightarrow> bool" where
  "is_sha s = (length s = 64 \<and> list_all (\<lambda>c. c \<in> set ''0123456789abcdef'') s)"

definition inputs_digest_ok :: "string \<Rightarrow> bool" where
  "inputs_digest_ok s = (startswith s ''inputs:'' \<and> is_sha (drop 7 s))"

definition canonical_hash :: "(real \<Rightarrow> string) \<Rightarrow> json \<Rightarrow> string" where
  "canonical_hash fr v = sha256_hex (jdumps False fr (jcanon v))"

definition descriptor_path :: "string \<Rightarrow> string" where
  "descriptor_path cid = ''external-calls/'' @ sha256_hex cid @ ''.json''"

definition descriptor_matches :: "(real \<Rightarrow> string) \<Rightarrow> call_record \<Rightarrow> descriptor \<Rightarrow> bool" where
  "descriptor_matches fr r d =
     (ds_call d = cr_id r \<and> ds_stage d = cr_stage r \<and> ds_iteration d = cr_iteration r \<and> ds_reserved d = cr_reserved r
      \<and> ds_profile_sha d = canonical_hash fr (ds_profile d) \<and> ds_manifest_sha d = canonical_hash fr (jget0 ''manifest'' (ds_profile d))
      \<and> inputs_digest_ok (case ds_inputs d of None \<Rightarrow> [] | Some x \<Rightarrow> x))"

definition call_descriptor ::
  "(real \<Rightarrow> string) \<Rightarrow> (json \<Rightarrow> descriptor option) \<Rightarrow> call_record \<Rightarrow> ext_state \<Rightarrow> import_error + descriptor" where
  "call_descriptor fr parse_desc r s =
     (case es_control s (descriptor_path (cr_id r)) of
        None \<Rightarrow> Inl (ImportRefused ''call lacks a factory pre-launch descriptor'')
      | Some doc \<Rightarrow>
          (case parse_desc doc of
             None \<Rightarrow> Inl ImportValue
           | Some d \<Rightarrow> if descriptor_matches fr r d then Inr d else Inl (ImportRefused ''factory call descriptor does not match'')))"

record observation =
  bo_run :: string
  bo_call :: string
  bo_inputs :: string
  bo_profile_sha :: string
  bo_provider :: string
  bo_account :: string
  bo_request :: string
  bo_reference :: string
  bo_observed_at :: string
  bo_status :: outcome_status
  bo_final :: bool
  bo_cost :: "real option"
  bo_doc :: json

definition label_ok :: "nat \<Rightarrow> string \<Rightarrow> bool" where
  "label_ok n s = (s \<noteq> [] \<and> length s \<le> n \<and> py_strip s \<noteq> [] \<and> list_all (\<lambda>c. 32 \<le> (of_char c :: nat)) s)"

text \<open>The field and model validators of an observation.\<close>

definition observation_ok :: "(string \<Rightarrow> real option) \<Rightarrow> observation \<Rightarrow> bool" where
  "observation_ok stamp b =
     (inputs_digest_ok (bo_inputs b) \<and> is_sha (bo_profile_sha b)
      \<and> label_ok 128 (bo_provider b) \<and> label_ok 256 (bo_account b) \<and> label_ok 256 (bo_request b) \<and> label_ok 1024 (bo_reference b)
      \<and> stamp (bo_observed_at b) \<noteq> None
      \<and> bo_status b \<in> set [OCommitted, DefinitelyAbsent, Ambiguous]
      \<and> (case bo_cost b of None \<Rightarrow> True | Some c \<Rightarrow> 0 \<le> c)
      \<and> (if bo_status b = OCommitted then bo_final b \<and> bo_cost b \<noteq> None else bo_cost b = None)
      \<and> (bo_status b = DefinitelyAbsent \<longrightarrow> bo_final b) \<and> (bo_status b = Ambiguous \<longrightarrow> \<not> bo_final b))"

definition parse_observation :: "(string \<Rightarrow> observation option) \<Rightarrow> (string \<Rightarrow> real option) \<Rightarrow> string \<Rightarrow> observation option" where
  "parse_observation parse_obs stamp raw =
     (if 65536 < length raw then None
      else case parse_obs raw of None \<Rightarrow> None | Some b \<Rightarrow> if observation_ok stamp b then Some b else None)"

section \<open>The cleanup a final bill follows\<close>

definition cleanup_rows_ok :: "descriptor \<Rightarrow> json list \<Rightarrow> bool" where
  "cleanup_rows_ok d rows =
     (let expected = labels_json (ds_labels d @ [(''swfactory.external'', ''true''), (''swfactory.external-call'', call_hash (ds_call d))]) in
      rows \<noteq> [] \<and> jget0 ''event'' (hd rows) = JStr ''intent'' \<and> jget0 ''container_id_required'' (hd rows) = JBool True
      \<and> jget0 ''event'' (last rows) = JStr ''cleaned''
      \<and> list_all (\<lambda>r. json_eq (jget0 ''labels'' r) expected \<and> jget0 ''container'' r = jget0 ''container'' (hd rows)) rows)"

definition started_ids :: "json list \<Rightarrow> json list" where
  "started_ids rows = map (jget0 ''container_id'') (filter (\<lambda>r. jget0 ''event'' r \<in> set [JStr ''created'', JStr ''start_intent'']) rows)"

definition same_container :: "json list \<Rightarrow> bool" where
  "same_container ids =
     (ids \<noteq> [] \<and> list_all (\<lambda>v. case v of JStr s \<Rightarrow> is_container_id s | _ \<Rightarrow> False) ids \<and> list_all (\<lambda>v. v = hd ids) ids)"

definition row_time :: "json \<Rightarrow> real option" where
  "row_time row = (case jget0 ''at'' row of JInt n \<Rightarrow> if 0 \<le> n then Some (real_of_int n) else None | JReal t \<Rightarrow> if 0 \<le> t then Some t else None | _ \<Rightarrow> None)"

definition cleanup_time :: "(string \<Rightarrow> real) \<Rightarrow> descriptor \<Rightarrow> run_files \<Rightarrow> import_error + real" where
  "cleanup_time flt d s =
     (if \<not> (hd (split_on (CHR '':'') (ds_sandbox d)) = ''docker'') then Inl (ImportRefused ''billing imports require factory-observed Docker teardown'')
      else case read_jsonl flt PROCESSES s of
        Inl e \<Rightarrow> Inl (ImportLedger (LedgerJournal e))
      | Inr journal \<Rightarrow>
          let rows = call_rows (ds_call d) journal in
          if \<not> list_all is_jobj journal then Inl (ImportRefused ''external process journal contains an invalid record'')
          else if from_labels ''docker'' (ds_labels d) = None then Inl (ImportRefused ''factory descriptor lacks complete Docker ownership labels'')
          else if \<not> cleanup_rows_ok d rows then Inl (ImportRefused ''call has no matching terminal Docker cleanup'')
          else if \<not> same_container (started_ids rows) then Inl (ImportRefused ''Docker cleanup lacks the acknowledged creation identity'')
          else case row_time (last rows) of
            None \<Rightarrow> Inl (ImportRefused ''Docker cleanup has an invalid observation time'')
          | Some t \<Rightarrow> Inr t)"

section \<open>The import\<close>

record source_file =
  sf_path :: string
  sf_outside :: bool
  sf_owned_regular :: bool
  sf_raw :: string

record import_request =
  iq_run :: string
  iq_call :: string
  iq_actor :: string
  iq_reason :: string
  iq_now :: string

definition actor_ok :: "import_request \<Rightarrow> bool" where
  "actor_ok q = (py_strip (iq_actor q) \<noteq> [] \<and> py_strip (iq_reason q) \<noteq> [] \<and> length (iq_actor q) \<le> 256 \<and> length (iq_reason q) \<le> 2000)"

definition binds_call :: "import_request \<Rightarrow> descriptor \<Rightarrow> observation \<Rightarrow> bool" where
  "binds_call q d b =
     (bo_run b = iq_run q \<and> ds_run d = iq_run q \<and> bo_call b = iq_call q \<and> Some (bo_inputs b) = ds_inputs d \<and> bo_profile_sha b = ds_profile_sha d)"

definition evidence_json :: "import_request \<Rightarrow> source_file \<Rightarrow> observation \<Rightarrow> json" where
  "evidence_json q f b =
     JObj [(''schema_version'', JInt 1), (''authority'', JStr ''operator_attestation''), (''actor'', JStr (py_strip (iq_actor q))),
       (''reason'', JStr (py_strip (iq_reason q))), (''imported_at'', JStr (iq_now q)), (''source'', JStr (sf_path f)),
       (''observation_sha256'', JStr (sha256_hex (sf_raw f))), (''observation'', bo_doc b)]"

definition archive_path :: "string \<Rightarrow> string \<Rightarrow> string" where
  "archive_path cid digest = ''external-observations/'' @ sha256_hex cid @ ''/'' @ digest @ ''.json''"

text \<open>The first import's evidence is kept over a crash before the ledger row.\<close>

definition archive_evidence :: "string \<Rightarrow> json \<Rightarrow> json \<Rightarrow> ext_state \<Rightarrow> (import_error + json) \<times> ext_state" where
  "archive_evidence path digest ev s =
     (case es_control s path of
        Some kept \<Rightarrow>
          (if json_eq (jget0 ''observation_sha256'' kept) digest \<and> json_eq (jget0 ''observation'' kept) (jget0 ''observation'' ev)
           then Inr kept else Inl (ImportRefused ''archived observation does not match the imported evidence''), s)
      | None \<Rightarrow> (Inr ev, s\<lparr>es_control := (es_control s)(path \<mapsto> ev)\<rparr>))"

definition applied_before :: "string \<Rightarrow> call_record \<Rightarrow> bool" where
  "applied_before digest r = (jget0 ''observation_sha256'' (py_or (jget0 ''evidence'' (py_or (cr_observation r) (JObj []))) (JObj [])) = JStr digest)"

record import_result =
  ir_already :: bool
  ir_settled :: "real option"

definition import_outcome :: "observation \<Rightarrow> json \<Rightarrow> mutation_outcome" where
  "import_outcome b ev =
     \<lparr>mo_status = bo_status b, mo_result = (case bo_cost b of None \<Rightarrow> JNull | Some c \<Rightarrow> JReal c), mo_evidence = ev,
      mo_detail = Some ''explicit operator billing attestation''\<rparr>"

definition settle_import ::
  "(real \<Rightarrow> string) \<Rightarrow> (string \<Rightarrow> real) \<Rightarrow> py_reader \<Rightarrow> call_env \<Rightarrow> import_request \<Rightarrow> source_file \<Rightarrow> observation \<Rightarrow> ext_state
     \<Rightarrow> (import_error + import_result) \<times> ext_state" where
  "settle_import fr flt pr env q f b s =
     (case archive_evidence (archive_path (iq_call q) (sha256_hex (sf_raw f))) (JStr (sha256_hex (sf_raw f))) (evidence_json q f b) s of
        (Inl e, s1) \<Rightarrow> (Inl e, s1)
      | (Inr ev, s1) \<Rightarrow>
          (case reconcile fr flt pr env (iq_call q) (import_outcome b ev) (es_files s1) of
             (res, files) \<Rightarrow>
               (case res of Inl e \<Rightarrow> Inl (ImportLedger e) | Inr r \<Rightarrow> Inr \<lparr>ir_already = False, ir_settled = cr_settled r\<rparr>,
                s1\<lparr>es_files := files\<rparr>)))"

definition check_time :: "(string \<Rightarrow> real) \<Rightarrow> (string \<Rightarrow> real option) \<Rightarrow> descriptor \<Rightarrow> observation \<Rightarrow> run_files \<Rightarrow> import_error option" where
  "check_time flt stamp d b s =
     (if bo_status b = Ambiguous then None
      else case cleanup_time flt d s of
        Inl e \<Rightarrow> Some e
      | Inr stopped \<Rightarrow>
          (case stamp (bo_observed_at b) of
             None \<Rightarrow> Some ImportValue
           | Some t \<Rightarrow> if t < stopped then Some (ImportRefused ''final billing observation predates terminal Docker cleanup'') else None))"

definition reconcile_call ::
  "(real \<Rightarrow> string) \<Rightarrow> (string \<Rightarrow> real) \<Rightarrow> py_reader \<Rightarrow> call_env \<Rightarrow> (json \<Rightarrow> descriptor option) \<Rightarrow> (string \<Rightarrow> observation option)
     \<Rightarrow> (string \<Rightarrow> real option) \<Rightarrow> import_request \<Rightarrow> (descriptor \<Rightarrow> source_file) \<Rightarrow> ext_state \<Rightarrow> (import_error + import_result) \<times> ext_state" where
  "reconcile_call fr flt pr env parse_desc parse_obs stamp q file s =
     (if \<not> actor_ok q then (Inl ImportValue, s)
      else case strict_records flt pr (es_files s) of
        Inl e \<Rightarrow> (Inl e, s)
      | Inr records \<Rightarrow>
     (case List.find (\<lambda>r. cr_id r = iq_call q) records of
        None \<Rightarrow> (Inl (ImportRefused ''call is not recorded in this run''), s)
      | Some r \<Rightarrow>
     (case call_descriptor fr parse_desc r s of
        Inl e \<Rightarrow> (Inl e, s)
      | Inr d \<Rightarrow>
          let f = file d in
          if \<not> sf_outside f then (Inl (ImportRefused ''billing observations must be operator files outside factory state and checkout''), s)
          else if \<not> sf_owned_regular f then (Inl (ImportRefused ''billing observation must be an operator-owned regular file without hardlinks''), s)
          else case parse_observation parse_obs stamp (sf_raw f) of
            None \<Rightarrow> (Inl ImportValue, s)
          | Some b \<Rightarrow>
              if \<not> binds_call q d b then (Inl (ImportRefused ''observation does not match this run, call, admitted inputs and profile''), s)
              else case cr_settled r of
                Some c \<Rightarrow>
                  (if applied_before (sha256_hex (sf_raw f)) r then Inr \<lparr>ir_already = True, ir_settled = Some c\<rparr>
                   else Inl (ImportRefused ''settled charges are immutable; conflicting or unrelated replay refused''), s)
              | None \<Rightarrow>
                  (case check_time flt stamp d b (es_files s) of
                     Some e \<Rightarrow> (Inl e, s)
                   | None \<Rightarrow> settle_import fr flt pr env q f b s))))"


section \<open>An import is evidenced\<close>

text \<open>The observation's verdict as the ledger reads it.\<close>

definition verdict :: "observation \<Rightarrow> real option" where
  "verdict b = (if bo_status b = DefinitelyAbsent then Some 0 else bo_cost b)"

lemma import_usage: "observation_ok stamp b \<Longrightarrow> observed_usage (import_outcome b ev) = Inr (verdict b)"
  by (auto simp: observation_ok_def observed_usage_def import_outcome_def verdict_def releasing_def usage_of_def usage_number_def split: option.splits if_splits)

lemma parsed_ok: "parse_observation parse_obs stamp raw = Some b \<Longrightarrow> observation_ok stamp b"
  by (auto simp: parse_observation_def split: if_splits option.splits)

lemma strict_same: "strict_records flt pr s = Inr rs \<Longrightarrow> call_records flt pr s = Inr rs"
  by (auto simp: strict_records_def split: sum.splits if_splits)

lemma check_time_none:
  assumes "check_time flt stamp d b s = None" and "bo_status b \<noteq> Ambiguous"
  shows "\<exists>stopped t. cleanup_time flt d s = Inr stopped \<and> stamp (bo_observed_at b) = Some t \<and> stopped \<le> t"
  using assms by (auto simp: check_time_def split: sum.splits option.splits if_splits)

lemma archive_files: "archive_evidence path digest ev s = (res, s') \<Longrightarrow> es_files s' = es_files s"
  by (auto simp: archive_evidence_def split: option.splits)

text \<open>The gates an import that returned has passed.\<close>

lemma import_gates:
  assumes "reconcile_call fr flt pr env parse_desc parse_obs stamp q file s = (Inr res, s')"
  shows "\<exists>records r d b. strict_records flt pr (es_files s) = Inr records \<and> List.find (\<lambda>r. cr_id r = iq_call q) records = Some r
    \<and> call_descriptor fr parse_desc r s = Inr d \<and> sf_outside (file d) \<and> sf_owned_regular (file d)
    \<and> parse_observation parse_obs stamp (sf_raw (file d)) = Some b \<and> binds_call q d b
    \<and> (if cr_settled r = None then check_time flt stamp d b (es_files s) = None \<and> settle_import fr flt pr env q (file d) b s = (Inr res, s')
       else s' = s \<and> applied_before (sha256_hex (sf_raw (file d))) r \<and> res = \<lparr>ir_already = True, ir_settled = cr_settled r\<rparr>)"
proof -
  obtain records where records: "strict_records flt pr (es_files s) = Inr records"
    using assms by (auto simp: reconcile_call_def split: if_splits sum.splits)
  obtain r where r: "List.find (\<lambda>r. cr_id r = iq_call q) records = Some r"
    using assms records by (auto simp: reconcile_call_def split: if_splits option.splits)
  obtain d where d: "call_descriptor fr parse_desc r s = Inr d"
    using assms records r by (auto simp: reconcile_call_def split: if_splits sum.splits)
  obtain b where b: "parse_observation parse_obs stamp (sf_raw (file d)) = Some b"
    using assms records r d by (auto simp: reconcile_call_def Let_def split: if_splits option.splits)
  show ?thesis using assms records r d b
    by (cases "cr_settled r") (auto simp: reconcile_call_def Let_def split: if_splits option.splits)
qed

definition import_written ::
  "(real \<Rightarrow> string) \<Rightarrow> (string \<Rightarrow> real) \<Rightarrow> py_reader \<Rightarrow> call_env \<Rightarrow> (string \<Rightarrow> observation option) \<Rightarrow> (string \<Rightarrow> real option) \<Rightarrow> import_request
     \<Rightarrow> source_file \<Rightarrow> ext_state \<Rightarrow> bool" where
  "import_written fr flt pr env parse_obs stamp q f s \<longleftrightarrow>
     (\<forall>b ev s1. parse_observation parse_obs stamp (sf_raw f) = Some b
        \<longrightarrow> archive_evidence (archive_path (iq_call q) (sha256_hex (sf_raw f))) (JStr (sha256_hex (sf_raw f))) (evidence_json q f b) s = (Inr ev, s1)
        \<longrightarrow> outcome_written fr flt pr env (iq_call q) (import_outcome b ev) (es_files s))"

text \<open>C28: an imported bill is evidenced. When the import of an operator's observation returns, the file is the operator's own and
  outside the factory, the observation names this run, this recorded call, its admitted inputs and its profile as the
  factory described them before launch. A charge already settled is untouched and was settled by these very bytes.
  Otherwise the charge becomes what the observation says: the final bill, nothing for a call that never reached the
  provider, or still the whole reservation; and a final verdict is later than the observed removal of the container.\<close>

theorem imported_bill_evidenced:
  assumes "ledger fr flt pr (es_files s) book fl"
    and "reconcile_call fr flt pr env parse_desc parse_obs stamp q file s = (Inr res, s')"
    and "\<forall>d. import_written fr flt pr env parse_obs stamp q (file d) s"
  shows "\<exists>r d b. map_of book (iq_call q) = Some r \<and> call_descriptor fr parse_desc r s = Inr d \<and> sf_outside (file d) \<and> sf_owned_regular (file d)
    \<and> parse_observation parse_obs stamp (sf_raw (file d)) = Some b \<and> binds_call q d b
    \<and> (if ir_already res then s' = s \<and> cr_settled r = ir_settled res \<and> cr_settled r \<noteq> None \<and> applied_before (sha256_hex (sf_raw (file d))) r
       else cr_settled r = None \<and> ir_settled res = verdict b
         \<and> (\<exists>r'. ledger fr flt pr (es_files s') (AList.update (iq_call q) r' book) fl \<and> cr_settled r' = verdict b \<and> cr_reserved r' = cr_reserved r)
         \<and> (bo_status b \<noteq> Ambiguous \<longrightarrow> (\<exists>stopped t. cleanup_time flt d (es_files s) = Inr stopped \<and> stamp (bo_observed_at b) = Some t \<and> stopped \<le> t)))"
proof -
  note l = assms(1)
  obtain records r d b where g: "strict_records flt pr (es_files s) = Inr records" "List.find (\<lambda>r. cr_id r = iq_call q) records = Some r"
    "call_descriptor fr parse_desc r s = Inr d" "sf_outside (file d)" "sf_owned_regular (file d)"
    "parse_observation parse_obs stamp (sf_raw (file d)) = Some b" "binds_call q d b"
    and fin: "if cr_settled r = None then check_time flt stamp d b (es_files s) = None \<and> settle_import fr flt pr env q (file d) b s = (Inr res, s')
       else s' = s \<and> applied_before (sha256_hex (sf_raw (file d))) r \<and> res = \<lparr>ir_already = True, ir_settled = cr_settled r\<rparr>"
    using import_gates[OF assms(2)] by blast
  have r: "map_of book (iq_call q) = Some r"
    using strict_same[OF g(1)] ledger_reads(1,6)[OF l] book_find[of book "iq_call q"] g(2) by simp
  show ?thesis
  proof (cases "cr_settled r")
    case (Some c)
    then show ?thesis using fin r g(3-) by (intro exI[of _ r] exI[of _ d] exI[of _ b]) simp
  next
    case None
    then have imp: "check_time flt stamp d b (es_files s) = None" "settle_import fr flt pr env q (file d) b s = (Inr res, s')" using fin by simp_all
    obtain ev s1 where ev: "archive_evidence (archive_path (iq_call q) (sha256_hex (sf_raw (file d)))) (JStr (sha256_hex (sf_raw (file d))))
        (evidence_json q (file d) b) s = (Inr ev, s1)"
      using imp(2) by (auto simp: settle_import_def split: prod.splits sum.splits)
    note files = archive_files[OF ev] and usage = import_usage[OF parsed_ok[OF g(6)], of ev]
    have row: "is_record fr flt (observe_row env (import_outcome b ev) (verdict b) r)"
    proof -
      have "outcome_written fr flt pr env (iq_call q) (import_outcome b ev) (es_files s)"
        using assms(3) g(6) ev unfolding import_written_def by blast
      then show ?thesis using usage ledger_reads(3)[OF l, of "iq_call q"] r by (simp add: outcome_written_def)
    qed
    obtain f2 r' where rec: "reconcile fr flt pr env (iq_call q) (import_outcome b ev) (es_files s) = (Inr r', f2)"
      "ledger fr flt pr f2 (AList.update (iq_call q) r' book) fl" "cr_reserved r' = cr_reserved r" "cr_settled r' = verdict b"
      using reconcile_effect[OF l r None usage row] by blast
    have "res = \<lparr>ir_already = False, ir_settled = verdict b\<rparr>" "es_files s' = f2" using imp(2) ev rec files by (auto simp: settle_import_def)
    then show ?thesis using rec r None g(3-) check_time_none[OF imp(1)] by (intro exI[of _ r] exI[of _ d] exI[of _ b]) auto
  qed
qed


definition demo_request :: import_request where
  "demo_request = \<lparr>iq_run = ''run'', iq_call = ''build.1:u'', iq_actor = ''ops'', iq_reason = ''bill'', iq_now = ''t''\<rparr>"

definition demo_file :: source_file where
  "demo_file = \<lparr>sf_path = ''/home/ops/bill.json'', sf_outside = True, sf_owned_regular = True, sf_raw = ''bill''\<rparr>"

definition demo_inputs :: string where
  "demo_inputs = ''inputs:'' @ sha256_hex []"

definition demo_desc :: "call_record \<Rightarrow> descriptor" where
  "demo_desc r = \<lparr>ds_run = ''run'', ds_call = cr_id r, ds_inputs = Some demo_inputs, ds_profile = JNull, ds_profile_sha = canonical_hash demo_fr JNull,
     ds_manifest_sha = canonical_hash demo_fr JNull, ds_stage = cr_stage r, ds_iteration = cr_iteration r, ds_reserved = cr_reserved r,
     ds_sandbox = ''docker:x'', ds_workdir = ''/w'', ds_labels = identity_labels demo_box\<rparr>"

definition demo_bill :: observation where
  "demo_bill = \<lparr>bo_run = ''run'', bo_call = ''build.1:u'', bo_inputs = demo_inputs, bo_profile_sha = canonical_hash demo_fr JNull,
     bo_provider = ''p'', bo_account = ''a'', bo_request = ''r'', bo_reference = ''e'', bo_observed_at = ''t'', bo_status = Ambiguous,
     bo_final = False, bo_cost = None, bo_doc = JNull\<rparr>"

lemma sha_is_sha: "is_sha (sha256_hex m)"
  using sha256_hex_is_hex[of _ m] by (auto simp: is_sha_def list_all_iff is_hex_def hex_digits_def)

lemma demo_bill_ok: "observation_ok (\<lambda>t. Some 0) demo_bill"
  using sha_is_sha[of "[]"] sha_is_sha[of "jdumps False demo_fr (jcanon JNull)"]
  by (simp add: observation_ok_def demo_bill_def inputs_digest_ok_def demo_inputs_def canonical_hash_def startswith_def label_ok_def
      py_strip_def is_space_def)

lemma demo_reserved:
  "\<exists>s r. ledger demo_fr demo_flt demo_pr s [(''build.1:u'', r)] None \<and> cr_id r = ''build.1:u'' \<and> cr_settled r = None \<and> cr_reserved r = 2
     \<and> strict_records demo_flt demo_pr s = Inr [r]"
proof -
  define a where "a = mk_attempt demo_env ''build'' 1 2"
  have a: "ca_id a = ''build.1:u''" "ca_reserved a = 2" by (simp_all add: a_def mk_attempt_def demo_env_def int_str_def) code_simp
  define s0 :: run_files where "s0 = \<lparr>rf_journal = (\<lambda>n. []), rf_recovered = []\<rparr>"
  have row: "is_record demo_fr demo_flt (reserve_row demo_env 3600 a)"
    using demo_floats a by (simp add: is_record_def reserve_row_def call_row_def demo_env_def)
  have l0: "ledger demo_fr demo_flt demo_pr s0 [] None" by (rule empty_ledger) (simp add: s0_def)
  obtain s1 r where l1: "append_row demo_fr demo_flt (reserve_row demo_env 3600 a) s0 = (Inr (), s1)"
    "ledger demo_fr demo_flt demo_pr s1 (AList.update (ca_id a) r []) None" "cr_id r = ca_id a" "cr_reserved r = ca_reserved a" "cr_settled r = None"
    using ledger_call[OF l0 row reserve_row_says] by blast
  have "journal_rows demo_flt CALLS_LOG s1 = journal_rows demo_flt CALLS_LOG s0 @ [reserve_row demo_env 3600 a]"
    using journal.append_rows[OF _ row, of CALLS_LOG s0] append_row_done(2)[OF l0 row] l0 l1(1) by (simp add: ledger_def)
  moreover have "journal_rows demo_flt CALLS_LOG s0 = []"
    using holds_rows_read[OF empty_journal_good[of s0 CALLS_LOG demo_fr demo_flt]] by (simp add: journal_rows_def s0_def)
  ultimately have "read_jsonl demo_flt CALLS_LOG s1 = Inr [reserve_row demo_env 3600 a]"
    using journal_good_read[of demo_fr demo_flt CALLS_LOG s1] l1(2) by (simp add: ledger_def)
  moreover have "strict_row (reserve_row demo_env 3600 a)"
    using a by (simp add: strict_row_def reserve_row_def call_row_def jget_or_def money_ok_def)
  ultimately have "strict_records demo_flt demo_pr s1 = Inr [r]" using ledger_reads(1)[OF l1(2)] by (simp add: strict_records_def)
  then show ?thesis using l1(2-) a by auto
qed

theorem imported_bill_evidenced_witness:
  "\<exists>s s' res b (r :: call_record). reconcile_call demo_fr demo_flt demo_pr demo_env (\<lambda>doc. Some (demo_desc r)) (\<lambda>raw. Some demo_bill) (\<lambda>t. Some 0)
       demo_request (\<lambda>d. demo_file) s = (Inr res, s')
     \<and> parse_observation (\<lambda>raw. Some demo_bill) (\<lambda>t. Some 0) (sf_raw demo_file) = Some b \<and> \<not> ir_already res \<and> ir_settled res = verdict b"
proof -
  obtain f r where l: "ledger demo_fr demo_flt demo_pr f [(''build.1:u'', r)] None" "cr_id r = ''build.1:u''" "cr_settled r = None" "cr_reserved r = 2"
    and strict: "strict_records demo_flt demo_pr f = Inr [r]" using demo_reserved by blast
  define s where "s = \<lparr>es_files = f, es_control = [descriptor_path ''build.1:u'' \<mapsto> JNull]\<rparr>"
  let ?run = "reconcile_call demo_fr demo_flt demo_pr demo_env (\<lambda>doc. Some (demo_desc r)) (\<lambda>raw. Some demo_bill) (\<lambda>t. Some 0) demo_request (\<lambda>d. demo_file)"
  let ?path = "archive_path ''build.1:u'' (sha256_hex ''bill'')" and ?ev = "evidence_json demo_request demo_file demo_bill"
  have parse: "parse_observation (\<lambda>raw. Some demo_bill) (\<lambda>t. Some 0) (sf_raw demo_file) = Some demo_bill"
    using demo_bill_ok by (simp add: parse_observation_def demo_file_def)
  have "?path \<noteq> descriptor_path ''build.1:u''" by (simp add: archive_path_def descriptor_path_def)
  then have arch: "archive_evidence ?path (JStr (sha256_hex ''bill'')) ?ev s = (Inr ?ev, s\<lparr>es_control := (es_control s)(?path \<mapsto> ?ev)\<rparr>)"
    by (simp add: archive_evidence_def s_def)
  have "json_ok demo_fr demo_flt ?ev" by (simp add: evidence_json_def demo_bill_def)
  then have row: "is_record demo_fr demo_flt (observe_row demo_env (import_outcome demo_bill ?ev) None r)"
    using demo_floats(2) l(4) by (simp add: observe_row_def call_row_def is_record_def import_outcome_def demo_bill_def jopt_def)
  have usage: "observed_usage (import_outcome demo_bill ?ev) = Inr None"
    using import_usage[OF demo_bill_ok] by (simp add: verdict_def demo_bill_def)
  have written: "import_written demo_fr demo_flt demo_pr demo_env (\<lambda>raw. Some demo_bill) (\<lambda>t. Some 0) demo_request demo_file s"
    using parse arch usage row ledger_reads(3)[OF l(1), of "''build.1:u''"]
    by (simp add: import_written_def demo_request_def demo_file_def outcome_written_def s_def)
  obtain f2 r' where rec: "reconcile demo_fr demo_flt demo_pr demo_env ''build.1:u'' (import_outcome demo_bill ?ev) f = (Inr r', f2)"
    using reconcile_effect[OF l(1) _ l(3) usage row, of "''build.1:u''"] by auto
  have d: "call_descriptor demo_fr (\<lambda>doc. Some (demo_desc r)) r s = Inr (demo_desc r)"
    using sha_is_sha[of "[]"] l(2)
    by (simp add: call_descriptor_def s_def descriptor_matches_def demo_desc_def inputs_digest_ok_def demo_inputs_def startswith_def jget_or_def)
  have si: "settle_import demo_fr demo_flt demo_pr demo_env demo_request demo_file demo_bill s
      = (Inr \<lparr>ir_already = False, ir_settled = cr_settled r'\<rparr>, s\<lparr>es_control := (es_control s)(?path \<mapsto> ?ev), es_files := f2\<rparr>)"
    using arch rec by (simp add: settle_import_def demo_request_def demo_file_def s_def)
  have "actor_ok demo_request" by (simp add: actor_ok_def demo_request_def py_strip_def is_space_def)
  then have run: "?run s = (Inr \<lparr>ir_already = False, ir_settled = cr_settled r'\<rparr>, s\<lparr>es_control := (es_control s)(?path \<mapsto> ?ev), es_files := f2\<rparr>)"
    using strict d parse si l(2,3)
    by (simp add: reconcile_call_def Let_def s_def demo_request_def binds_call_def demo_desc_def demo_bill_def demo_file_def check_time_def)
  have "ledger demo_fr demo_flt demo_pr (es_files s) [(''build.1:u'', r)] None" using l(1) by (simp add: s_def)
  from imported_bill_evidenced[OF this run] written
  obtain b where "parse_observation (\<lambda>raw. Some demo_bill) (\<lambda>t. Some 0) (sf_raw demo_file) = Some b" "cr_settled r' = verdict b" by auto
  then show ?thesis using run by (intro exI conjI) (assumption | simp)+
qed

end
