(* ===== verification/SandboxSweep.thy ===== *)
theory SandboxSweep
  imports SandboxGovernance ControlKernel RepairLease
begin

text \<open>
  The sweep of orphaned sandboxes, the second half of \<open>src/src/swfactory/maintain.py\<close> with the listing helpers of
  \<open>sandbox.py\<close> and the route \<open>_sweep\<close> of \<open>backend/routes.py\<close>. It composes the Cell store (who owns a sandbox), sandbox governance
  (may it be removed), the control kernel and the operation journal (every removal is a journaled operation).

  The providers are arguments on a world \<open>'x\<close> of their own: \<open>listing\<close> and \<open>rm\<close> of islo, \<open>containers\<close> and \<open>rm\<close> of the docker
  daemon; so are \<open>sha1\<close>, the reader \<open>iso\<close> and the writer \<open>fmt\<close> of ISO timestamps. The clock is \<open>ck\<close>, read once per use. Printed
  lines are not modelled. A sweep whose ledger of debt refuses a resource stops with that error, as in the code.
\<close>

section \<open>Listings\<close>

definition parse_ts :: "(string \<Rightarrow> time option) \<Rightarrow> json \<Rightarrow> time option" where
  "parse_ts rd v =
     (case v of
        JInt i \<Rightarrow> Some (real_of_int i)
      | JReal r \<Rightarrow> Some r
      | JStr s \<Rightarrow> if s = [] then None else rd (concat (map (\<lambda>c. if c = CHR ''Z'' then ''+00:00'' else [c]) s))
      | _ \<Rightarrow> None)"

definition CREATED_KEYS :: "string list" where
  "CREATED_KEYS = [''created_at'', ''createdAt'', ''created-at'', ''created'']"

fun first_timestamp :: "(string \<Rightarrow> time option) \<Rightarrow> json \<Rightarrow> string list \<Rightarrow> time option" where
  "first_timestamp rd scope [] = None"
| "first_timestamp rd scope (k # ks) = (case parse_ts rd (jget0 k scope) of None \<Rightarrow> first_timestamp rd scope ks | Some t \<Rightarrow> Some t)"

definition islo_rows :: "(string \<Rightarrow> real) \<Rightarrow> string \<Rightarrow> json list" where
  "islo_rows flt list_json =
     (case jloads flt list_json of
        None \<Rightarrow> []
      | Some data \<Rightarrow>
          (case (case data of
                   JObj kvs \<Rightarrow> (case List.find (\<lambda>v. case v of JArr xs \<Rightarrow> True | _ \<Rightarrow> False) (map snd kvs) of None \<Rightarrow> JArr [] | Some v \<Rightarrow> v)
                 | v \<Rightarrow> v) of
             JArr xs \<Rightarrow> filter is_jobj xs
           | _ \<Rightarrow> []))"

definition py_text :: "(json \<Rightarrow> string) \<Rightarrow> string \<Rightarrow> json \<Rightarrow> string" where
  "py_text rep k item = py_str rep (py_or (jget0 k item) (JStr []))"

definition creator :: "(json \<Rightarrow> string) \<Rightarrow> json \<Rightarrow> string" where
  "creator rep item = map to_lower (py_strip (py_text rep ''created_by'' item))"

definition owned_sandboxes :: "(string \<Rightarrow> real) \<Rightarrow> (json \<Rightarrow> string) \<Rightarrow> string \<Rightarrow> string \<Rightarrow> json list" where
  "owned_sandboxes flt rep list_json owner =
     (let own = map to_lower (py_strip owner) in
      if own = [] then []
      else filter (\<lambda>item. jget0 ''status'' item \<noteq> JStr ''deleted'' \<and> creator rep item = own) (islo_rows flt list_json))"

text \<open>\<open>SANDBOX_NAME_RE\<close>, matched with \<open>re.match\<close>: the dollar also accepts a final newline.\<close>

definition slug_char :: "char \<Rightarrow> bool" where
  "slug_char c = (let n = of_char c :: nat in (48 \<le> n \<and> n \<le> 57) \<or> (97 \<le> n \<and> n \<le> 122))"

definition sandbox_name_body :: "string \<Rightarrow> bool" where
  "sandbox_name_body s =
     (let mid = drop 4 (take (length s - 9) s); tail = drop (length s - 9) s in
      14 \<le> length s \<and> take 4 s = ''swf-'' \<and> mid \<noteq> [] \<and> slug_char (hd mid)
      \<and> list_all (\<lambda>c. slug_char c \<or> c = CHR ''_'' \<or> c = CHR ''-'') (tl mid)
      \<and> hd tail = CHR ''-'' \<and> list_all (\<lambda>c. c \<in> set ''0123456789abcdef'') (tl tail))"

definition sandbox_name_ok :: "string \<Rightarrow> bool" where
  "sandbox_name_ok s = (sandbox_name_body s \<or> (s \<noteq> [] \<and> last s = CHR 0x0A \<and> sandbox_name_body (butlast s)))"

record 'x sweep_env =
  sw_flt :: "string \<Rightarrow> real"
  sw_rep :: "json \<Rightarrow> string"
  sw_iso :: "string \<Rightarrow> time option"
  sw_fmt :: "time \<Rightarrow> string"
  sw_sha1 :: "string \<Rightarrow> string"
  sw_owner :: string
  sw_ttl :: real
  sw_now :: time
  sw_limit :: int
  sw_worker :: string

definition item_name :: "'x sweep_env \<Rightarrow> json \<Rightarrow> string" where
  "item_name env item = py_text (sw_rep env) ''name'' item"

definition item_created :: "'x sweep_env \<Rightarrow> json \<Rightarrow> time option" where
  "item_created env item = first_timestamp (sw_iso env) item CREATED_KEYS"

definition sweep_orphans :: "'x sweep_env \<Rightarrow> string \<Rightarrow> string list" where
  "sweep_orphans env list_json =
     map (item_name env) (filter (\<lambda>item. sandbox_name_ok (item_name env item)
         \<and> (case item_created env item of None \<Rightarrow> False | Some t \<Rightarrow> sw_ttl env < sw_now env - t))
       (owned_sandboxes (sw_flt env) (sw_rep env) list_json (sw_owner env)))"

section \<open>Whose sandbox\<close>

definition run_id_for :: "(string \<Rightarrow> string) \<Rightarrow> string \<Rightarrow> int \<Rightarrow> string" where
  "run_id_for sha1 seed job_idx = take 8 (sha1 (seed @ '':'' @ int_str job_idx))"

definition last_segment :: "string \<Rightarrow> string" where
  "last_segment name = last (split_on (CHR ''-'') name)"

definition bound_run :: "'x sweep_env \<Rightarrow> string \<Rightarrow> cell_row \<Rightarrow> bool" where
  "bound_run env run8 cell =
     (case cell_run_id cell of
        None \<Rightarrow> False
      | Some run_id \<Rightarrow> run_id \<noteq> [] \<and> run_id_for (sw_sha1 env) run_id (case cell_map_index cell of None \<Rightarrow> 0 | Some i \<Rightarrow> i) = run8)"

definition cell_for_sandbox :: "'x sweep_env \<Rightarrow> string \<Rightarrow> cell_row list \<Rightarrow> cell_row option" where
  "cell_for_sandbox env name cells = List.find (bound_run env (last_segment name)) cells"

definition sandbox_identity_of :: "'x sweep_env \<Rightarrow> json \<Rightarrow> cell_row option \<Rightarrow> sandbox_identity" where
  "sandbox_identity_of env item cell =
     (let name = item_name env item;
          attempt = (case item_created env item of None \<Rightarrow> last_segment name | Some t \<Rightarrow> sw_fmt env t)
      in case cell of
           None \<Rightarrow> \<lparr>si_provider = ''islo'', si_cell = stable_id \<lparr>id_repo = sw_owner env, id_target = ''islo'', id_issue = name\<rparr>,
                    si_epoch = 1, si_attempt = attempt\<rparr>
         | Some c \<Rightarrow> \<lparr>si_provider = ''islo'', si_cell = cell_id c, si_epoch = cell_epoch c, si_attempt = attempt\<rparr>)"

definition cell_active :: "cell_row \<Rightarrow> bool" where
  "cell_active c = (cell_state c \<notin> set TERMINAL_STATES)"

definition authorize_removal :: "'x sweep_env \<Rightarrow> sandbox_identity \<Rightarrow> json \<Rightarrow> cell_row option \<Rightarrow> cleanup_decision option" where
  "authorize_removal env i item cell =
     (let ob = \<lparr>ob_provider_id = item_name env item, ob_labels = identity_labels i,
                ob_running = (jget0 ''status'' item = JStr ''running''), ob_reachable = True\<rparr>
      in case cell of
           None \<Rightarrow> authorize_cleanup i ob (Some 1) False
         | Some c \<Rightarrow> authorize_cleanup i ob (Some (cell_epoch c)) (cell_active c))"

record container =
  ct_id :: string
  ct_name :: string
  ct_labels :: labels
  ct_running :: bool

definition authorize_container :: "sandbox_identity option \<Rightarrow> container \<Rightarrow> cell_row option \<Rightarrow> cleanup_decision option" where
  "authorize_container io row cell =
     (case io of
        None \<Rightarrow> Some REFUSE
      | Some i \<Rightarrow>
          let ob = \<lparr>ob_provider_id = ct_id row, ob_labels = ct_labels row, ob_running = ct_running row, ob_reachable = True\<rparr> in
          case cell of
            None \<Rightarrow> authorize_cleanup i ob None False
          | Some c \<Rightarrow> authorize_cleanup i ob (Some (cell_epoch c)) (cell_active c))"

section \<open>One removal\<close>

definition CLEANUP_KIND :: string where
  "CLEANUP_KIND = ''sandbox_cleanup''"

definition receipt_json :: "op_ref \<Rightarrow> string \<Rightarrow> cleanup_status \<Rightarrow> string \<Rightarrow> time \<Rightarrow> time \<Rightarrow> json option" where
  "receipt_json ref resource st provider requested_at now =
     map_option receipt_dict (receipt_for ref resource st provider requested_at [] now)"

definition resource_evidence :: "string \<Rightarrow> string \<Rightarrow> json" where
  "resource_evidence resource provider = JObj [(''resource'', JStr resource), (''provider'', JStr provider)]"

definition observe_removal ::
  "op_ref \<Rightarrow> string \<Rightarrow> string \<Rightarrow> (nat \<Rightarrow> time) \<Rightarrow> ('x \<Rightarrow> (string + bool) \<times> 'x) \<Rightarrow> 'x reconciler" where
  "observe_removal ref resource provider ck seen x =
     (case seen x of
        (Inl e, x') \<Rightarrow>
          (Inr \<lparr>mo_status = Ambiguous, mo_result = JNull, mo_evidence = resource_evidence resource provider, mo_detail = Some (take 500 e)\<rparr>, x')
      | (Inr True, x') \<Rightarrow>
          (Inr \<lparr>mo_status = DefinitelyAbsent, mo_result = JNull, mo_evidence = resource_evidence resource provider,
                mo_detail = Some (provider @ '' resource still listed'')\<rparr>, x')
      | (Inr False, x') \<Rightarrow>
          (case receipt_json ref resource AlreadyAbsent provider (ck 0) (ck 1) of
             None \<Rightarrow> (Inl ''cleanup epoch/attempts must be positive'', x')
           | Some r \<Rightarrow> (Inr \<lparr>mo_status = OCommitted, mo_result = r, mo_evidence = resource_evidence resource provider, mo_detail = None\<rparr>, x')))"

definition remove_effect ::
  "op_ref \<Rightarrow> string \<Rightarrow> string \<Rightarrow> (nat \<Rightarrow> time) \<Rightarrow> (string \<Rightarrow> 'x \<Rightarrow> (string + unit) \<times> 'x) \<Rightarrow> 'x provider" where
  "remove_effect ref resource provider ck rm x =
     (case rm resource x of
        (Inl e, x') \<Rightarrow> (Inl e, x')
      | (Inr _, x') \<Rightarrow>
          (case receipt_json ref resource Converged provider (ck 0) (ck 1) of
             None \<Rightarrow> (Inl ''cleanup epoch/attempts must be positive'', x')
           | Some r \<Rightarrow> (Inr r, x')))"

definition remove_call :: "'x sweep_env \<Rightarrow> op_ref \<Rightarrow> exec_call" where
  "remove_call env ref =
     \<lparr>xc_ref = ref, xc_safe = Some True, xc_budget = None, xc_digest = None, xc_observe_first = False, xc_owner = sw_worker env\<rparr>"

definition remove_resource ::
  "'x sweep_env \<Rightarrow> op_ref \<Rightarrow> string \<Rightarrow> string \<Rightarrow> (nat \<Rightarrow> time) \<Rightarrow> ('x \<Rightarrow> (string + bool) \<times> 'x) \<Rightarrow> (string \<Rightarrow> 'x \<Rightarrow> (string + unit) \<times> 'x)
     \<Rightarrow> kernel \<Rightarrow> 'x \<Rightarrow> json option \<times> kernel \<times> 'x" where
  "remove_resource env ref resource provider ck seen rm k x =
     (case mutate (remove_call env ref) (remove_effect ref resource provider ck rm)
             (Some (observe_removal ref resource provider ck seen)) ck k x of
        (Inr r, k1, x1) \<Rightarrow> (Some r, k1, x1)
      | (Inl e, k1, x1) \<Rightarrow>
          (case observe_op ref (observe_removal ref resource provider ck seen) (ck 9) (sr_journal (kn_root k1)) x1 of
             (res, j, x2) \<Rightarrow>
               (case res of
                  Inl e \<Rightarrow> None
                | Inr out \<Rightarrow> (if mo_status out = OCommitted then Some (mo_result out) else None),
                k1\<lparr>kn_root := (kn_root k1)\<lparr>sr_journal := j\<rparr>\<rparr>, x2)))"


section \<open>The sweeps\<close>

record sweep_report =
  rp_removed :: "string list"
  rp_kept :: "string list"
  rp_debt :: "string list"
  rp_reconciled :: "string list"

record 'x sweep_state =
  ss_kernel :: kernel
  ss_world :: 'x
  ss_debt :: cleanup_debt
  ss_removed :: "string list"
  ss_kept :: "string list"

text \<open>A nominee that may be removed: the debt first, then the journaled removal, then the settlement.\<close>

definition sweep_remove ::
  "'x sweep_env \<Rightarrow> string \<Rightarrow> (nat \<Rightarrow> time) \<Rightarrow> (string \<Rightarrow> 'x \<Rightarrow> (string + bool) \<times> 'x) \<Rightarrow> (string \<Rightarrow> 'x \<Rightarrow> (string + unit) \<times> 'x)
     \<Rightarrow> string \<Rightarrow> sandbox_identity \<Rightarrow> 'x sweep_state \<Rightarrow> (debt_error + unit) \<times> 'x sweep_state" where
  "sweep_remove env provider ck seen rm resource i st =
     (case debt_record resource i (ss_debt st) of
        (Inl e, _) \<Rightarrow> (Inl e, st)
      | (Inr _, d) \<Rightarrow>
          (case remove_resource env (build_ref (si_cell i) (si_epoch i) CLEANUP_KIND [resource, si_attempt i]) resource provider ck
                  (seen resource) rm (ss_kernel st) (ss_world st) of
             (r, k, x) \<Rightarrow>
               let st1 = st\<lparr>ss_kernel := k, ss_world := x, ss_debt := d\<rparr> in
               (case r of
                  None \<Rightarrow> (Inr (), st1)
                | Some v \<Rightarrow>
                    if \<not> py_truthy v then (Inr (), st1)
                    else case debt_settle resource i d of
                      (Inl e, _) \<Rightarrow> (Inl e, st1)
                    | (Inr _, d2) \<Rightarrow> (Inr (), st1\<lparr>ss_debt := d2, ss_removed := ss_removed st1 @ [resource]\<rparr>))))"

definition container_identity :: "container \<Rightarrow> sandbox_identity option" where
  "container_identity row = from_labels ''docker'' (ct_labels row)"

definition container_cell :: "cell_row list \<Rightarrow> container \<Rightarrow> cell_row option" where
  "container_cell cells row =
     (case container_identity row of None \<Rightarrow> None | Some i \<Rightarrow> map_of (rev (map (\<lambda>c. (cell_id c, c)) cells)) (si_cell i))"

definition sweep_container ::
  "'x sweep_env \<Rightarrow> cell_row list \<Rightarrow> (nat \<Rightarrow> time) \<Rightarrow> (string \<Rightarrow> 'x \<Rightarrow> (string + bool) \<times> 'x) \<Rightarrow> (string \<Rightarrow> 'x \<Rightarrow> (string + unit) \<times> 'x)
     \<Rightarrow> container \<Rightarrow> 'x sweep_state \<Rightarrow> (debt_error + unit) \<times> 'x sweep_state" where
  "sweep_container env cells ck seen rm row st =
     (case (container_identity row, authorize_container (container_identity row) row (container_cell cells row)) of
        (Some i, Some REMOVE) \<Rightarrow> sweep_remove env ''docker'' ck seen rm (ct_id row) i st
      | (Some i, None) \<Rightarrow> (Inl DebtInvalid, st)
      | _ \<Rightarrow> (Inr (), st\<lparr>ss_kept := ss_kept st @ [ct_id row]\<rparr>))"

fun sweep_all :: "('r \<Rightarrow> 'x sweep_state \<Rightarrow> (debt_error + unit) \<times> 'x sweep_state) \<Rightarrow> 'r list \<Rightarrow> 'x sweep_state \<Rightarrow> (debt_error + unit) \<times> 'x sweep_state" where
  "sweep_all f [] st = (Inr (), st)"
| "sweep_all f (r # rs) st = (case f r st of (Inl e, st1) \<Rightarrow> (Inl e, st1) | (Inr _, st1) \<Rightarrow> sweep_all f rs st1)"

text \<open>Earlier removals in doubt whose resource is no longer listed.\<close>

definition settle_candidate :: "(json \<Rightarrow> string) \<Rightarrow> string \<Rightarrow> string list \<Rightarrow> op_row \<Rightarrow> string option" where
  "settle_candidate rep provider seen row =
     (if op_kind row \<noteq> CLEANUP_KIND then None
      else case op_observation row of
        None \<Rightarrow> None
      | Some (st, ev, d) \<Rightarrow>
          let name = py_str rep (py_or (jget0 ''resource'' (py_or ev (JObj []))) (JStr [])) in
          if name = [] \<or> name \<in> set seen
             \<or> py_str rep (py_or (jget0 ''provider'' (py_or ev (JObj []))) (JStr ''islo'')) \<noteq> provider then None
          else Some name)"

definition row_ref :: "op_row \<Rightarrow> op_ref" where
  "row_ref row = \<lparr>ref_cell = op_cell row, ref_epoch = op_epoch row, ref_kind = CLEANUP_KIND, ref_key = op_key row\<rparr>"

fun settle_absent :: "(json \<Rightarrow> string) \<Rightarrow> string \<Rightarrow> string list \<Rightarrow> (nat \<Rightarrow> time) \<Rightarrow> op_row list \<Rightarrow> journal \<Rightarrow> (op_error + string list) \<times> journal" where
  "settle_absent rep provider seen ck [] j = (Inr [], j)"
| "settle_absent rep provider seen ck (row # rows) j =
     (case settle_candidate rep provider seen row of
        None \<Rightarrow> settle_absent rep provider seen ck rows j
      | Some name \<Rightarrow>
          (case receipt_json (row_ref row) name AlreadyAbsent provider (if op_updated_at row = 0 then ck 2 else op_updated_at row) (ck 1) of
             None \<Rightarrow> (Inl (Raised ''cleanup epoch/attempts must be positive''), j)
           | Some r \<Rightarrow>
               (case observe_op (row_ref row)
                       (\<lambda>u. (Inr \<lparr>mo_status = OCommitted, mo_result = r, mo_evidence = resource_evidence name provider, mo_detail = None\<rparr>, u))
                       (ck 9) j () of
                  (Inl e, j1, _) \<Rightarrow> (Inl e, j1)
                | (Inr out, j1, _) \<Rightarrow>
                    (case settle_absent rep provider seen ck rows j1 of
                       (Inl e, j2) \<Rightarrow> (Inl e, j2)
                     | (Inr names, j2) \<Rightarrow> (Inr (if mo_status out = OCommitted then name # names else names), j2)))))"

datatype sweep_error = SweepListing string | SweepDebt debt_error | SweepJournal op_error

definition finish_sweep ::
  "(json \<Rightarrow> string) \<Rightarrow> string \<Rightarrow> string list \<Rightarrow> (nat \<Rightarrow> time) \<Rightarrow> (debt_error + unit) \<times> 'x sweep_state \<Rightarrow> (sweep_error + sweep_report) \<times> kernel \<times> 'x" where
  "finish_sweep rep provider seen ck res =
     (case res of
        (Inl e, st) \<Rightarrow> (Inl (SweepDebt e), ss_kernel st, ss_world st)
      | (Inr _, st) \<Rightarrow>
          let j = sr_journal (kn_root (ss_kernel st)) in
          (case settle_absent rep provider seen ck (unresolved 1000 False 0 j) j of
             (sr, j1) \<Rightarrow>
               ((case sr of
                   Inl e \<Rightarrow> Inl (SweepJournal e)
                 | Inr names \<Rightarrow> Inr \<lparr>rp_removed = ss_removed st, rp_kept = ss_kept st, rp_debt = sort (map fst (ss_debt st)), rp_reconciled = names\<rparr>),
                (ss_kernel st)\<lparr>kn_root := (kn_root (ss_kernel st))\<lparr>sr_journal := j1\<rparr>\<rparr>, ss_world st)))"

definition fresh_sweep :: "kernel \<Rightarrow> 'x \<Rightarrow> 'x sweep_state" where
  "fresh_sweep k x = \<lparr>ss_kernel = k, ss_world = x, ss_debt = [], ss_removed = [], ss_kept = []\<rparr>"

definition container_present :: "('x \<Rightarrow> (string + container list) \<times> 'x) \<Rightarrow> string \<Rightarrow> 'x \<Rightarrow> (string + bool) \<times> 'x" where
  "container_present containers cid x =
     (case containers x of (Inl e, x') \<Rightarrow> (Inl e, x') | (Inr rows, x') \<Rightarrow> (Inr (list_ex (\<lambda>r. ct_id r = cid) rows), x'))"

definition sweep_containers ::
  "'x sweep_env \<Rightarrow> cell_row list \<Rightarrow> (nat \<Rightarrow> time) \<Rightarrow> ('x \<Rightarrow> (string + container list) \<times> 'x) \<Rightarrow> (string \<Rightarrow> 'x \<Rightarrow> (string + unit) \<times> 'x)
     \<Rightarrow> kernel \<Rightarrow> 'x \<Rightarrow> (sweep_error + sweep_report) \<times> kernel \<times> 'x" where
  "sweep_containers env cells ck containers rm k x =
     (case containers x of
        (Inl e, x1) \<Rightarrow> (Inl (SweepListing e), k, x1)
      | (Inr rows, x1) \<Rightarrow>
          finish_sweep (sw_rep env) ''docker'' (map ct_id rows) ck
            (sweep_all (sweep_container env cells ck (container_present containers) rm) (take (nat (max (sw_limit env) 0)) rows) (fresh_sweep k x1)))"

definition sandbox_present :: "'x sweep_env \<Rightarrow> ('x \<Rightarrow> (string + string) \<times> 'x) \<Rightarrow> string \<Rightarrow> 'x \<Rightarrow> (string + bool) \<times> 'x" where
  "sandbox_present env listing name x =
     (case listing x of
        (Inl e, x') \<Rightarrow> (Inl e, x')
      | (Inr body, x') \<Rightarrow> (Inr (list_ex (\<lambda>it. jget0 ''name'' it = JStr name) (owned_sandboxes (sw_flt env) (sw_rep env) body (sw_owner env))), x'))"

text \<open>The item of a name: the last one listed under it.\<close>

definition item_of :: "'x sweep_env \<Rightarrow> json list \<Rightarrow> string \<Rightarrow> json" where
  "item_of env items name = (case map_of (rev (map (\<lambda>it. (item_name env it, it)) items)) name of None \<Rightarrow> JNull | Some it \<Rightarrow> it)"

definition sweep_sandbox ::
  "'x sweep_env \<Rightarrow> cell_row list \<Rightarrow> json list \<Rightarrow> (nat \<Rightarrow> time) \<Rightarrow> (string \<Rightarrow> 'x \<Rightarrow> (string + bool) \<times> 'x) \<Rightarrow> (string \<Rightarrow> 'x \<Rightarrow> (string + unit) \<times> 'x)
     \<Rightarrow> string \<Rightarrow> 'x sweep_state \<Rightarrow> (debt_error + unit) \<times> 'x sweep_state" where
  "sweep_sandbox env cells items ck seen rm name st =
     (let item = item_of env items name; cell = cell_for_sandbox env name cells; i = sandbox_identity_of env item cell in
      case authorize_removal env i item cell of
        Some REMOVE \<Rightarrow> sweep_remove env ''islo'' ck seen rm name i st
      | None \<Rightarrow> (Inl DebtInvalid, st)
      | _ \<Rightarrow> (Inr (), st\<lparr>ss_kept := ss_kept st @ [name]\<rparr>))"

definition sweep_islo ::
  "'x sweep_env \<Rightarrow> cell_row list \<Rightarrow> (nat \<Rightarrow> time) \<Rightarrow> ('x \<Rightarrow> (string + string) \<times> 'x) \<Rightarrow> (string \<Rightarrow> 'x \<Rightarrow> (string + unit) \<times> 'x)
     \<Rightarrow> kernel \<Rightarrow> 'x \<Rightarrow> (sweep_error + sweep_report) \<times> kernel \<times> 'x" where
  "sweep_islo env cells ck listing rm k x =
     (case listing x of
        (Inl e, x1) \<Rightarrow> (Inl (SweepListing e), k, x1)
      | (Inr body, x1) \<Rightarrow>
          let items = owned_sandboxes (sw_flt env) (sw_rep env) body (sw_owner env) in
          finish_sweep (sw_rep env) ''islo'' (map (item_name env) items) ck
            (sweep_all (sweep_sandbox env cells items ck (sandbox_present env listing) rm)
              (take (nat (max (sw_limit env) 0)) (sweep_orphans env body)) (fresh_sweep k x1)))"

text \<open>The whole sweep, as the backend route calls it: with the Cells its store lists.\<close>

definition no_report :: sweep_report where
  "no_report = \<lparr>rp_removed = [], rp_kept = [], rp_debt = [], rp_reconciled = []\<rparr>"

definition merge_reports :: "sweep_report \<Rightarrow> sweep_report \<Rightarrow> sweep_report" where
  "merge_reports a b =
     \<lparr>rp_removed = rp_removed a @ rp_removed b, rp_kept = rp_kept a @ rp_kept b, rp_debt = rp_debt a @ rp_debt b,
      rp_reconciled = rp_reconciled a @ rp_reconciled b\<rparr>"

definition sweep_sandboxes ::
  "'x sweep_env \<Rightarrow> bool \<Rightarrow> cell_row list \<Rightarrow> (nat \<Rightarrow> time) \<Rightarrow> ('x \<Rightarrow> (string + string) \<times> 'x) \<Rightarrow> (string \<Rightarrow> 'x \<Rightarrow> (string + unit) \<times> 'x)
     \<Rightarrow> ('x \<Rightarrow> (string + container list) \<times> 'x) \<Rightarrow> (string \<Rightarrow> 'x \<Rightarrow> (string + unit) \<times> 'x) \<Rightarrow> kernel \<Rightarrow> 'x
     \<Rightarrow> (sweep_error + sweep_report) \<times> kernel \<times> 'x" where
  "sweep_sandboxes env docker cells ck listing rm_islo containers rm_docker k x =
     (case (if sw_owner env \<noteq> [] then sweep_islo env cells ck listing rm_islo k x else (Inr no_report, k, x)) of
        (Inl e, k1, x1) \<Rightarrow> (Inl e, k1, x1)
      | (Inr a, k1, x1) \<Rightarrow>
          if \<not> docker then (Inr a, k1, x1)
          else case sweep_containers env cells ck containers rm_docker k1 x1 of
            (Inl e, k2, x2) \<Rightarrow> (Inr a, k2, x2)
          | (Inr b, k2, x2) \<Rightarrow> (Inr (merge_reports a b), k2, x2))"

definition sweep_route ::
  "'x sweep_env \<Rightarrow> bool \<Rightarrow> (nat \<Rightarrow> time) \<Rightarrow> ('x \<Rightarrow> (string + string) \<times> 'x) \<Rightarrow> (string \<Rightarrow> 'x \<Rightarrow> (string + unit) \<times> 'x)
     \<Rightarrow> ('x \<Rightarrow> (string + container list) \<times> 'x) \<Rightarrow> (string \<Rightarrow> 'x \<Rightarrow> (string + unit) \<times> 'x) \<Rightarrow> kernel \<Rightarrow> 'x
     \<Rightarrow> (sweep_error + sweep_report) \<times> kernel \<times> 'x" where
  "sweep_route env docker ck listing rm_islo containers rm_docker k x =
     sweep_sandboxes env docker (list_cells 1000 (sr_cells (kn_root k))) ck listing rm_islo containers rm_docker k x"


section \<open>What the sweep may touch\<close>

text \<open>A container the sweep may remove: it carries a complete stamp whose Cell the store holds and that Cell is over.\<close>

definition container_over :: "cell_row list \<Rightarrow> container \<Rightarrow> bool" where
  "container_over cells row \<longleftrightarrow>
     (\<exists>i. container_identity row = Some i \<and> (\<exists>c \<in> set cells. cell_id c = si_cell i \<and> \<not> cell_active c))"

definition sandbox_over :: "'x sweep_env \<Rightarrow> cell_row list \<Rightarrow> string \<Rightarrow> bool" where
  "sandbox_over env cells name \<longleftrightarrow>
     sandbox_name_ok name \<and> (\<forall>c. cell_for_sandbox env name cells = Some c \<longrightarrow> \<not> cell_active c)"

lemma remove_resource_cong:
  assumes "\<And>x. rm resource x = rm' resource x"
  shows "remove_resource env ref resource provider ck seen rm k x = remove_resource env ref resource provider ck seen rm' k x"
proof -
  have "remove_effect ref resource provider ck rm = remove_effect ref resource provider ck rm'"
    by (rule ext) (simp add: remove_effect_def assms)
  then show ?thesis by (simp add: remove_resource_def)
qed

lemma sweep_remove_cong:
  assumes "\<And>x. rm resource x = rm' resource x"
  shows "sweep_remove env provider ck seen rm resource i st = sweep_remove env provider ck seen rm' resource i st"
  using remove_resource_cong[of rm resource rm', OF assms] by (simp add: sweep_remove_def split: prod.splits sum.splits)

lemma sweep_all_cong: "(\<And>r st. r \<in> set rs \<Longrightarrow> f r st = g r st) \<Longrightarrow> sweep_all f rs st = sweep_all g rs st"
  by (induction rs arbitrary: st) (auto split: prod.splits sum.splits)

lemma container_authorized:
  assumes "container_identity row = Some i" and "authorize_container (container_identity row) row (container_cell cells row) = Some REMOVE"
  shows "container_over cells row"
proof (cases "container_cell cells row")
  case None
  then show ?thesis using assms by (simp add: authorize_container_def authorized_exactly)
next
  case (Some c)
  then have "(si_cell i, c) \<in> set (rev (map (\<lambda>c. (cell_id c, c)) cells))" using assms(1) map_of_SomeD by (fastforce simp: container_cell_def)
  then have "c \<in> set cells" "cell_id c = si_cell i" by auto
  moreover have "\<not> cell_active c" using assms Some by (simp add: authorize_container_def authorized_exactly)
  ultimately show ?thesis using assms(1) by (auto simp: container_over_def)
qed

lemma sweep_container_cong:
  assumes "container_over cells row \<Longrightarrow> \<forall>x. rm (ct_id row) x = rm' (ct_id row) x"
  shows "sweep_container env cells ck seen rm row st = sweep_container env cells ck seen rm' row st"
proof (cases "\<exists>i. container_identity row = Some i \<and> authorize_container (container_identity row) row (container_cell cells row) = Some REMOVE")
  case True
  then have "\<forall>x. rm (ct_id row) x = rm' (ct_id row) x" using container_authorized assms by blast
  then show ?thesis using True sweep_remove_cong[of rm "ct_id row" rm'] by (auto simp: sweep_container_def)
next
  case False
  then show ?thesis by (auto simp: sweep_container_def split: option.splits cleanup_decision.splits)
qed

lemma removal_authorized:
  assumes "authorize_removal env (sandbox_identity_of env item cell) item cell = Some REMOVE"
  shows "\<forall>c. cell = Some c \<longrightarrow> \<not> cell_active c"
  using assms by (auto simp: authorize_removal_def authorized_exactly Let_def)

lemma sweep_sandbox_cong:
  assumes "sandbox_over env cells name \<Longrightarrow> \<forall>x. rm name x = rm' name x" and "sandbox_name_ok name"
  shows "sweep_sandbox env cells items ck seen rm name st = sweep_sandbox env cells items ck seen rm' name st"
proof (cases "authorize_removal env (sandbox_identity_of env (item_of env items name) (cell_for_sandbox env name cells)) (item_of env items name)
    (cell_for_sandbox env name cells) = Some REMOVE")
  case True
  then have "\<forall>x. rm name x = rm' name x" using removal_authorized[OF True] assms by (auto simp: sandbox_over_def)
  then show ?thesis using True sweep_remove_cong[of rm name rm'] by (simp add: sweep_sandbox_def Let_def)
next
  case False
  then show ?thesis by (simp add: sweep_sandbox_def Let_def split: option.splits cleanup_decision.splits)
qed

lemma orphan_named: "name \<in> set (sweep_orphans env body) \<Longrightarrow> sandbox_name_ok name"
  by (auto simp: sweep_orphans_def)

lemma sweep_islo_cong:
  assumes "\<And>name. sandbox_over env cells name \<Longrightarrow> \<forall>x. rm name x = rm' name x"
  shows "sweep_islo env cells ck listing rm k x = sweep_islo env cells ck listing rm' k x"
proof -
  have "sweep_all (sweep_sandbox env cells items ck seen rm) (take n (sweep_orphans env body)) st
      = sweep_all (sweep_sandbox env cells items ck seen rm') (take n (sweep_orphans env body)) st" for items seen n body st
    using assms orphan_named by (intro sweep_all_cong sweep_sandbox_cong) (auto dest: in_set_takeD)
  then show ?thesis by (simp add: sweep_islo_def Let_def split: prod.splits sum.splits)
qed

lemma sweep_containers_cong:
  assumes "\<And>rows x' row. containers x = (Inr rows, x') \<Longrightarrow> row \<in> set rows \<Longrightarrow> container_over cells row \<Longrightarrow> \<forall>x. rm (ct_id row) x = rm' (ct_id row) x"
  shows "sweep_containers env cells ck containers rm k x = sweep_containers env cells ck containers rm' k x"
proof (cases "containers x")
  case (Pair res x')
  have "sweep_all (sweep_container env cells ck seen rm) (take n rows) st = sweep_all (sweep_container env cells ck seen rm') (take n rows) st"
    if "res = Inr rows" for rows seen n st
    using assms[of rows x'] Pair that by (intro sweep_all_cong sweep_container_cong) (auto dest: in_set_takeD)
  then show ?thesis using Pair by (cases res) (simp_all add: sweep_containers_def)
qed

section \<open>The route\<close>

text \<open>The listing the route passes is the whole store as long as it has at most a thousand Cells.\<close>

lemma listed_cells: "length (cs_cells s) \<le> 1000 \<Longrightarrow> set (list_cells 1000 s) = set (cs_cells s)"
  by (simp add: list_cells_def)

definition runs_distinct :: "'x sweep_env \<Rightarrow> cell_row list \<Rightarrow> bool" where
  "runs_distinct env cells \<longleftrightarrow> (\<forall>c \<in> set cells. \<forall>d \<in> set cells. \<forall>r. bound_run env r c \<longrightarrow> bound_run env r d \<longrightarrow> c = d)"

lemma sandbox_over_store:
  assumes "set cells = set store" and "runs_distinct env store" and "sandbox_over env cells name"
    and "c \<in> set store" and "bound_run env (last_segment name) c"
  shows "\<not> cell_active c"
proof -
  obtain d where d: "cell_for_sandbox env name cells = Some d"
    using assms(1,4,5) by (cases "cell_for_sandbox env name cells") (auto simp: cell_for_sandbox_def find_None_iff)
  then have "d \<in> set cells" "bound_run env (last_segment name) d" using find_in by (fastforce simp: cell_for_sandbox_def)+
  then have "d = c" using assms(1,2,4,5) by (auto simp: runs_distinct_def)
  then show ?thesis using assms(3) d by (auto simp: sandbox_over_def)
qed

text \<open>C14: the sweep never touches live work, as long as the store has at most the thousand Cells the route lists and no two Cells'
  runs share their eight digits. Whatever the listings say and whatever the journal holds, the outcome of a sweep does not depend
  on what removing a resource would do, unless the resource is a sandbox with the factory's name all of whose Cells in the store
  are over, or a listed container with a complete stamp whose Cell the store holds and that Cell is over: no removal of anything
  else is ever attempted.\<close>

theorem sweep_spares_live_work:
  assumes "length (cs_cells (sr_cells (kn_root k))) \<le> 1000" and "runs_distinct env (cs_cells (sr_cells (kn_root k)))"
    and "\<forall>name x. sandbox_name_ok name
        \<and> (\<forall>c \<in> set (cs_cells (sr_cells (kn_root k))). bound_run env (last_segment name) c \<longrightarrow> \<not> cell_active c)
      \<longrightarrow> rm_islo name x = rm_islo' name x"
    and "\<forall>x1 rows x2 row x. containers x1 = (Inr rows, x2) \<and> row \<in> set rows \<and> container_over (cs_cells (sr_cells (kn_root k))) row
      \<longrightarrow> rm_docker (ct_id row) x = rm_docker' (ct_id row) x"
  shows "sweep_route env docker ck listing rm_islo containers rm_docker k x = sweep_route env docker ck listing rm_islo' containers rm_docker' k x"
proof -
  let ?store = "cs_cells (sr_cells (kn_root k))" and ?cells = "list_cells 1000 (sr_cells (kn_root k))"
  note cells = listed_cells[OF assms(1)]
  have islo: "\<forall>x. rm_islo name x = rm_islo' name x" if "sandbox_over env ?cells name" for name
    using that assms(3) sandbox_over_store[OF cells assms(2) that] by (auto simp: sandbox_over_def)
  have docker: "\<forall>x. rm_docker (ct_id row) x = rm_docker' (ct_id row) x"
    if "containers x1 = (Inr rows, x2)" "row \<in> set rows" "container_over ?cells row" for x1 rows x2 row
    using that assms(4) cells unfolding container_over_def by metis
  have "sweep_islo env ?cells ck listing rm_islo k x = sweep_islo env ?cells ck listing rm_islo' k x"
    by (rule sweep_islo_cong) (rule islo)
  moreover have "sweep_containers env ?cells ck containers rm_docker k1 x1 = sweep_containers env ?cells ck containers rm_docker' k1 x1" for k1 x1
    by (rule sweep_containers_cong) (rule docker)
  ultimately show ?thesis by (simp add: sweep_route_def sweep_sandboxes_def split: prod.splits sum.splits)
qed


text \<open>The demonstration: a live Cell with a sandbox and a container, and a Cell that is over and left a container. The sandbox is
  old enough to be nominated. Removing a live resource would empty the world; the sweep removes the orphan alone.\<close>

definition demo_live :: cell_row where
  "demo_live = (hd (cs_cells demo_store))\<lparr>cell_id := ''cell_aaaaaaaaaaaaaaaaaaaaaaaa'', cell_run_id := Some ''run-1''\<rparr>"

definition demo_over :: cell_row where
  "demo_over = (hd (cs_cells demo_store))\<lparr>cell_id := ''cell_bbbbbbbbbbbbbbbbbbbbbbbb'', cell_state := ''success''\<rparr>"

definition demo_sweep_kernel :: kernel where
  "demo_sweep_kernel = \<lparr>kn_root = demo_root\<lparr>sr_cells := demo_store\<lparr>cs_cells := [demo_live, demo_over]\<rparr>\<rparr>, kn_gate = None, kn_core = False\<rparr>"

definition demo_sweep :: "string list sweep_env" where
  "demo_sweep = \<lparr>sw_flt = (\<lambda>s. 0), sw_rep = (\<lambda>v. []), sw_iso = (\<lambda>s. Some 0), sw_fmt = (\<lambda>t. ''t''), sw_sha1 = (\<lambda>s. ''deadbeef''),
     sw_owner = ''factory'', sw_ttl = 60, sw_now = 1000, sw_limit = 50, sw_worker = ''w''\<rparr>"

definition demo_item :: json where
  "demo_item = JObj [(''name'', JStr ''swf-a-deadbeef''), (''created_by'', JStr ''factory''), (''created_at'', JInt 0)]"

definition demo_listing :: "string list \<Rightarrow> (string + string) \<times> string list" where
  "demo_listing x = (Inr (jdumps False (\<lambda>r. []) (JArr [demo_item])), x)"

definition demo_identity_of :: "cell_row \<Rightarrow> sandbox_identity" where
  "demo_identity_of c = \<lparr>si_provider = ''docker'', si_cell = cell_id c, si_epoch = 1, si_attempt = ''a1''\<rparr>"

definition demo_container :: "string \<Rightarrow> cell_row \<Rightarrow> container" where
  "demo_container cid c = \<lparr>ct_id = cid, ct_name = cid, ct_labels = identity_labels (demo_identity_of c), ct_running = True\<rparr>"

definition demo_containers :: "string list \<Rightarrow> (string + container list) \<times> string list" where
  "demo_containers x = (Inr [demo_container ''live'' demo_live, demo_container ''over'' demo_over], x)"

definition demo_rm :: "bool \<Rightarrow> string \<Rightarrow> string list \<Rightarrow> (string + unit) \<times> string list" where
  "demo_rm deadly r x = (if deadly \<and> r \<in> set [''swf-a-deadbeef'', ''live''] then (Inr (), []) else (Inr (), removeAll r x))"

abbreviation demo_world :: "string list" where
  "demo_world \<equiv> [''swf-a-deadbeef'', ''live'', ''over'']"

lemma demo_over_id: "is_cell_id ''cell_bbbbbbbbbbbbbbbbbbbbbbbb''"
  by code_simp

lemma demo_cell_facts:
  "cell_active demo_live" "\<not> cell_active demo_over" "cell_id demo_live \<noteq> cell_id demo_over"
  "bound_run demo_sweep ''deadbeef'' demo_live" "cell_run_id demo_over = None" "cell_epoch demo_live = 1" "cell_epoch demo_over = 1"
  "is_cell_id (cell_id demo_over)" "cell_id demo_live \<noteq> []" "cell_id demo_over \<noteq> []" "cell_updated_at demo_live = cell_updated_at demo_over"
  by (simp_all add: bound_run_def demo_live_def demo_over_def demo_store_eq demo_sweep_def run_id_for_def cell_active_def TERMINAL_STATES_def
      demo_over_id)

lemma demo_segment: "last_segment ''swf-a-deadbeef'' = ''deadbeef''" "sandbox_name_ok ''swf-a-deadbeef''" "\<not> sandbox_name_ok ''live''"
  by code_simp+

lemma demo_sweep_cells: "cs_cells (sr_cells (kn_root demo_sweep_kernel)) = [demo_live, demo_over]"
    "list_cells 1000 (sr_cells (kn_root demo_sweep_kernel)) = [demo_live, demo_over]"
  using demo_cell_facts(11) by (simp_all add: demo_sweep_kernel_def list_cells_def)

lemma demo_container_identity: "container_identity (demo_container cid c) = (if cell_id c = [] then None else Some (demo_identity_of c))"
  using labels_claim[of "demo_identity_of c"]
  by (auto simp: container_identity_def demo_container_def demo_identity_of_def si_valid_def from_labels_def identity_labels_def py_int_str Let_def)

lemma demo_islo_kept:
  "sweep_islo demo_sweep [demo_live, demo_over] ck demo_listing rm demo_sweep_kernel x
     = (Inr \<lparr>rp_removed = [], rp_kept = [''swf-a-deadbeef''], rp_debt = [], rp_reconciled = []\<rparr>, demo_sweep_kernel, x)"
proof -
  have "jloads (sw_flt demo_sweep) (jdumps False (\<lambda>r. []) (JArr [demo_item])) = Some (JArr [demo_item])"
    by (rule json_roundtrip) (simp add: demo_item_def)
  then have items: "owned_sandboxes (sw_flt demo_sweep) (sw_rep demo_sweep) (jdumps False (\<lambda>r. []) (JArr [demo_item])) (sw_owner demo_sweep) = [demo_item]"
    by (simp add: owned_sandboxes_def islo_rows_def creator_def py_text_def demo_item_def demo_sweep_def Let_def) code_simp
  have name: "item_name demo_sweep demo_item = ''swf-a-deadbeef''" "item_created demo_sweep demo_item = Some 0"
    by (simp_all add: item_name_def item_created_def py_text_def demo_item_def CREATED_KEYS_def parse_ts_def py_or_def jget_or_def)
  have orphans: "sweep_orphans demo_sweep (jdumps False (\<lambda>r. []) (JArr [demo_item])) = [''swf-a-deadbeef'']"
    using items name demo_segment by (simp add: sweep_orphans_def) (simp add: demo_sweep_def)
  have cell: "cell_for_sandbox demo_sweep ''swf-a-deadbeef'' [demo_live, demo_over] = Some demo_live"
    using demo_cell_facts demo_segment by (simp add: cell_for_sandbox_def)
  have "item_of demo_sweep [demo_item] ''swf-a-deadbeef'' = demo_item" using name by (simp add: item_of_def)
  moreover have "authorize_removal demo_sweep (sandbox_identity_of demo_sweep demo_item (Some demo_live)) demo_item (Some demo_live) = Some KEEP"
    using demo_cell_facts name by (simp add: authorize_removal_def sandbox_identity_of_def authorize_cleanup_def identity_labels_def si_valid_def Let_def)
      (simp add: demo_sweep_def)
  ultimately have "sweep_sandbox demo_sweep [demo_live, demo_over] [demo_item] ck seen rm ''swf-a-deadbeef'' st
      = (Inr (), st\<lparr>ss_kept := ss_kept st @ [''swf-a-deadbeef'']\<rparr>)" for seen st
    using cell by (simp add: sweep_sandbox_def)
  moreover have lim: "nat (max (sw_limit demo_sweep) 0) = 50" by (simp add: demo_sweep_def)
  ultimately show ?thesis
    using items orphans name
    by (simp add: sweep_islo_def demo_listing_def finish_sweep_def fresh_sweep_def Idempotency.unresolved_def Let_def
        demo_sweep_kernel_def demo_root_def)
qed

lemma demo_removed:
  "snd (snd (remove_resource demo_sweep (build_ref (cell_id demo_over) 1 CLEANUP_KIND parts) ''over'' ''docker'' ck seen (demo_rm False)
     demo_sweep_kernel demo_world)) = [''swf-a-deadbeef'', ''live'']
   \<and> (\<exists>v. fst (remove_resource demo_sweep (build_ref (cell_id demo_over) 1 CLEANUP_KIND parts) ''over'' ''docker'' ck seen (demo_rm False)
     demo_sweep_kernel demo_world) = Some v)"
proof -
  let ?ref = "build_ref (cell_id demo_over) 1 CLEANUP_KIND parts"
  let ?call = "(remove_call demo_sweep ?ref)\<lparr>xc_observe_first := False\<rparr>"
  have "py_strip (CHR ''s'' # s) \<noteq> []" for s by (auto simp: py_strip_def is_space_def dropWhile_eq_Nil_conv)
  then have ref: "valid_ref ?ref" using demo_cell_facts(8) by (simp add: valid_ref_def build_ref_def CLEANUP_KIND_def)
  obtain v where rm: "remove_effect ?ref ''over'' ''docker'' ck (demo_rm False) demo_world = (Inr v, [''swf-a-deadbeef'', ''live''])"
    by (simp add: remove_effect_def demo_rm_def receipt_json_def receipt_for_def build_receipt_def build_ref_def)
  have "\<exists>j'. execute ?call (remove_effect ?ref ''over'' ''docker'' ck (demo_rm False)) (Some (observe_removal ?ref ''over'' ''docker'' ck seen)) ck []
      demo_world = (Inr v, j', [''swf-a-deadbeef'', ''live''])"
    using ref rm by (intro execute_first) (simp_all add: get_op_def valid_digest_def call_budget_def remove_call_def build_ref_def budget_for_def
        default_budget_def CLEANUP_KIND_def journal_inv_def primary_key_def)
  then show ?thesis
    by (auto simp: remove_resource_def mutate_def must_observe_def demo_sweep_kernel_def demo_root_def)
qed

lemma demo_docker_swept:
  "\<exists>res k'. sweep_containers demo_sweep [demo_live, demo_over] ck demo_containers (demo_rm False) demo_sweep_kernel demo_world
     = (res, k', [''swf-a-deadbeef'', ''live''])"
proof -
  let ?live = "demo_container ''live'' demo_live" and ?over = "demo_container ''over'' demo_over"
  let ?i = "demo_identity_of demo_over" and ?seen = "container_present demo_containers"
  let ?st = "(fresh_sweep demo_sweep_kernel demo_world)\<lparr>ss_kept := [''live'']\<rparr>"
  note ids = demo_container_identity[of "''live''" demo_live] demo_container_identity[of "''over''" demo_over]
  have cells: "container_cell [demo_live, demo_over] ?live = Some demo_live" "container_cell [demo_live, demo_over] ?over = Some demo_over"
    using ids demo_cell_facts by (simp_all add: container_cell_def) (simp_all add: demo_identity_of_def)
  have kept: "sweep_container demo_sweep [demo_live, demo_over] ck ?seen (demo_rm False) ?live (fresh_sweep demo_sweep_kernel demo_world) = (Inr (), ?st)"
    using ids cells demo_cell_facts
    by (simp add: sweep_container_def authorize_container_def authorize_cleanup_def demo_container_def demo_identity_of_def identity_labels_def si_valid_def
        fresh_sweep_def)
  have auth: "authorize_container (Some ?i) ?over (Some demo_over) = Some REMOVE"
    using demo_cell_facts
    by (simp add: authorize_container_def authorize_cleanup_def demo_container_def demo_identity_of_def identity_labels_def si_valid_def)
  have swept: "\<exists>st. sweep_container demo_sweep [demo_live, demo_over] ck ?seen (demo_rm False) ?over ?st = (Inr (), st) \<and> ss_world st = [''swf-a-deadbeef'', ''live'']"
    using ids cells auth demo_cell_facts demo_removed[of "[''over'', ''a1'']" ck "?seen ''over''"]
    by (auto simp: sweep_container_def sweep_remove_def debt_record_def debt_settle_def fresh_sweep_def demo_identity_of_def demo_container_def si_valid_def
        Let_def split: prod.splits)
  then show ?thesis using kept
    by (auto simp: sweep_containers_def demo_containers_def finish_sweep_def Let_def demo_sweep_def split: prod.splits)
qed

lemma demo_not_over: "\<not> container_over [demo_live, demo_over] (demo_container cid demo_live)"
  using demo_cell_facts by (auto simp: container_over_def demo_container_identity) (simp_all add: demo_identity_of_def)

lemma demo_swept:
  "\<exists>res k'. sweep_route demo_sweep True ck demo_listing (demo_rm False) demo_containers (demo_rm False) demo_sweep_kernel demo_world
     = (res, k', [''swf-a-deadbeef'', ''live''])"
proof -
  obtain res k' where d: "sweep_containers demo_sweep [demo_live, demo_over] ck demo_containers (demo_rm False) demo_sweep_kernel demo_world
     = (res, k', [''swf-a-deadbeef'', ''live''])" using demo_docker_swept by blast
  have "sw_owner demo_sweep \<noteq> []" by (simp add: demo_sweep_def)
  then show ?thesis
    using demo_islo_kept[of ck "demo_rm False" demo_world] demo_sweep_cells(2) d by (cases res) (simp_all add: sweep_route_def sweep_sandboxes_def)
qed

theorem sweep_spares_live_work_witness:
  "\<exists>res k'. sweep_route demo_sweep True (\<lambda>n. 0) demo_listing (demo_rm False) demo_containers (demo_rm False) demo_sweep_kernel demo_world
       = (res, k', [''swf-a-deadbeef'', ''live''])
   \<and> sweep_route demo_sweep True (\<lambda>n. 0) demo_listing (demo_rm True) demo_containers (demo_rm True) demo_sweep_kernel demo_world
       = (res, k', [''swf-a-deadbeef'', ''live''])"
proof -
  note cells = demo_sweep_cells(1)
  have "sweep_route demo_sweep True (\<lambda>n. 0) demo_listing (demo_rm False) demo_containers (demo_rm False) demo_sweep_kernel demo_world
      = sweep_route demo_sweep True (\<lambda>n. 0) demo_listing (demo_rm True) demo_containers (demo_rm True) demo_sweep_kernel demo_world"
  proof (rule sweep_spares_live_work)
    show "length (cs_cells (sr_cells (kn_root demo_sweep_kernel))) \<le> 1000" by (simp add: cells)
    show "runs_distinct demo_sweep (cs_cells (sr_cells (kn_root demo_sweep_kernel)))"
      using demo_cell_facts(5) by (simp add: cells runs_distinct_def bound_run_def)
    show "\<forall>name x. sandbox_name_ok name
        \<and> (\<forall>c \<in> set (cs_cells (sr_cells (kn_root demo_sweep_kernel))). bound_run demo_sweep (last_segment name) c \<longrightarrow> \<not> cell_active c)
      \<longrightarrow> demo_rm False name x = demo_rm True name x"
    proof (intro allI impI)
      fix name x
      assume "sandbox_name_ok name
        \<and> (\<forall>c \<in> set (cs_cells (sr_cells (kn_root demo_sweep_kernel))). bound_run demo_sweep (last_segment name) c \<longrightarrow> \<not> cell_active c)"
      then have "name \<noteq> ''live''" "name \<noteq> ''swf-a-deadbeef''" using demo_cell_facts(1,4) demo_segment unfolding cells by auto
      then show "demo_rm False name x = demo_rm True name x" by (simp add: demo_rm_def)
    qed
    show "\<forall>x1 rows x2 row x. demo_containers x1 = (Inr rows, x2) \<and> row \<in> set rows
        \<and> container_over (cs_cells (sr_cells (kn_root demo_sweep_kernel))) row
      \<longrightarrow> demo_rm False (ct_id row) x = demo_rm True (ct_id row) x"
      using demo_not_over by (auto simp: cells demo_containers_def demo_rm_def demo_container_def)
  qed
  then show ?thesis using demo_swept[of "\<lambda>n. 0"] by simp
qed

section \<open>Limits of the sweep\<close>

text \<open>A Cell outside the listing owns nothing: with more than a thousand Cells, a live Cell that was not updated recently loses
  its sandbox, whose removal is authorised as if nobody owned it.\<close>

lemma take_newest:
  assumes "length others = 1000" and "\<forall>d \<in> set others. cell_updated_at d = t" and "cell_updated_at c < t"
  shows "list_cells 1000 (s\<lparr>cs_cells := others @ [c]\<rparr>) = others"
proof -
  have "map (\<lambda>r. - cell_updated_at r) others = replicate (length others) (- t)" using assms(2) by (induction others) auto
  then have "sorted (map (\<lambda>r. - cell_updated_at r) (others @ [c]))" using assms(3) by (simp add: sorted_append)
  then have "sort_key (\<lambda>r. - cell_updated_at r) (others @ [c]) = others @ [c]" by (rule sort_key_id_if_sorted)
  then show ?thesis using assms(1) by (simp add: list_cells_def)
qed

lemma unlisted_live_sandbox_removed:
  assumes "cell_active c" and "bound_run env (last_segment name) c" and "length others = 1000"
    and "\<forall>d \<in> set others. cell_updated_at d = t \<and> cell_run_id d = None" and "cell_updated_at c < t"
    and "item_name env item \<noteq> []" and "item_created env item = Some created" and "sw_fmt env created \<noteq> []"
  shows "cell_for_sandbox env name (list_cells 1000 (s\<lparr>cs_cells := others @ [c]\<rparr>)) = None"
    and "authorize_removal env (sandbox_identity_of env item None) item None = Some REMOVE"
proof -
  have "list_cells 1000 (s\<lparr>cs_cells := others @ [c]\<rparr>) = others" using take_newest assms(3-5) by blast
  then show "cell_for_sandbox env name (list_cells 1000 (s\<lparr>cs_cells := others @ [c]\<rparr>)) = None"
    using assms(4) by (simp add: cell_for_sandbox_def find_None_iff bound_run_def)
  have "stable_id j \<noteq> []" for j by (simp add: stable_id_def CELL_ID_PREFIX_def)
  then have "si_valid (sandbox_identity_of env item None)" using assms(7,8) by (simp add: si_valid_def sandbox_identity_of_def Let_def)
  then show "authorize_removal env (sandbox_identity_of env item None) item None = Some REMOVE"
    by (simp add: authorize_removal_def authorized_exactly identity_labels_def Let_def)
qed

text \<open>The limit counts listed containers, kept ones too: orphans behind as many containers of live Cells are never reached.\<close>

lemma kept_rows_use_up_the_limit:
  assumes "\<forall>row \<in> set rows. \<exists>d. authorize_container (container_identity row) row (container_cell cells row) = Some d \<and> d \<noteq> REMOVE"
  shows "sweep_all (sweep_container env cells ck seen rm) rows st = (Inr (), st\<lparr>ss_kept := ss_kept st @ map ct_id rows\<rparr>)"
  using assms
proof (induction rows arbitrary: st)
  case (Cons row rows)
  then obtain d where "authorize_container (container_identity row) row (container_cell cells row) = Some d" "d \<noteq> REMOVE" by auto
  then have "sweep_container env cells ck seen rm row st = (Inr (), st\<lparr>ss_kept := ss_kept st @ [ct_id row]\<rparr>)"
    by (cases d) (auto simp: sweep_container_def split: option.splits)
  then show ?case using Cons by simp
qed simp

end
