(* ===== verification/Calls.thy ===== *)
theory Calls
  imports Prelude
begin

text \<open>
  Calls that read and change a state and may raise: how they are composed, and the locale \<open>closed_moves\<close> with the
  rules by which a relation between states passes from single accesses to whole handlers.
\<close>

named_theorems moves_intros "how calls move the state"

section \<open>Calls\<close>

type_synonym ('s, 'e, 'a) action = "'s \<Rightarrow> ('e + 'a) \<times> 's"

definition ret :: "'a \<Rightarrow> ('s, 'e, 'a) action" where
  "ret v = (\<lambda>f. (Inr v, f))"

definition raise :: "'e \<Rightarrow> ('s, 'e, 'a) action" where
  "raise e = (\<lambda>f. (Inl e, f))"

definition andthen :: "('s, 'e, 'a) action \<Rightarrow> ('a \<Rightarrow> ('s, 'e, 'b) action) \<Rightarrow> ('s, 'e, 'b) action" where
  "andthen m k = (\<lambda>f. case m f of (Inl e, f1) \<Rightarrow> (Inl e, f1) | (Inr v, f1) \<Rightarrow> k v f1)"

text \<open>\<open>try\<close>: the outcome as a value, whatever it was.\<close>

definition attempt :: "('s, 'e, 'a) action \<Rightarrow> ('s, 'e, 'e + 'a) action" where
  "attempt m = (\<lambda>f. case m f of (r, f1) \<Rightarrow> (Inr r, f1))"

definition tap :: "('s \<Rightarrow> 'a) \<Rightarrow> ('s, 'e, 'a) action" where
  "tap g = (\<lambda>f. (Inr (g f), f))"

definition local :: "('s \<Rightarrow> 's) \<Rightarrow> ('s, 'e, unit) action" where
  "local g = (\<lambda>f. (Inr (), g f))"

definition lift_result :: "'e + 'a \<Rightarrow> ('s, 'e, 'a) action" where
  "lift_result r = (\<lambda>f. (r, f))"

definition check_that :: "bool \<Rightarrow> 'e \<Rightarrow> ('s, 'e, unit) action" where
  "check_that b e = (if b then ret () else raise e)"

fun for_each :: "('a \<Rightarrow> ('s, 'e, 'b) action) \<Rightarrow> 'a list \<Rightarrow> ('s, 'e, 'b list) action" where
  "for_each body [] = ret []"
| "for_each body (x # xs) = andthen (body x) (\<lambda>v. andthen (for_each body xs) (\<lambda>vs. ret (v # vs)))"

section \<open>Rules for moves\<close>

text \<open>How a call relates the state before and after. A relation that is reflexive and transitive passes from the
  accesses to whatever is composed of them.\<close>

definition moves :: "('s \<Rightarrow> 's \<Rightarrow> bool) \<Rightarrow> ('s, 'e, 'a) action \<Rightarrow> bool" where
  "moves R m = (\<forall>f. R f (snd (m f)))"

lemma movesD: "moves R m \<Longrightarrow> m f = (r, f') \<Longrightarrow> R f f'"
  by (metis moves_def snd_conv)

locale closed_moves =
  fixes R :: "'s \<Rightarrow> 's \<Rightarrow> bool"
  assumes R_refl: "R f f"
    and R_trans: "R f g \<Longrightarrow> R g h \<Longrightarrow> R f h"
begin

lemma moves_ret [moves_intros]: "moves R (ret v)"
  by (simp add: moves_def ret_def R_refl)

lemma moves_raise [moves_intros]: "moves R (raise e)"
  by (simp add: moves_def raise_def R_refl)

lemma moves_lift [moves_intros]: "moves R (lift_result r)"
  by (simp add: moves_def lift_result_def R_refl)

lemma moves_tap [moves_intros]: "moves R (tap g)"
  by (simp add: moves_def tap_def R_refl)

lemma moves_check [moves_intros]: "moves R (check_that b e)"
  by (simp add: check_that_def moves_ret moves_raise)

lemma moves_andthen [moves_intros]: "moves R m \<Longrightarrow> (\<And>v. moves R (k v)) \<Longrightarrow> moves R (andthen m k)"
  unfolding moves_def andthen_def by (auto split: prod.splits sum.splits) (metis R_trans snd_conv)+

lemma moves_then:
  assumes "moves R m" and "\<And>f v f'. m f = (Inr v, f') \<Longrightarrow> moves R (k v)"
  shows "moves R (andthen m k)"
  unfolding moves_def
proof
  fix f
  obtain r f' where m: "m f = (r, f')" by fastforce
  then have "R f f'" by (rule movesD[OF assms(1)])
  then show "R f (snd (andthen m k f))"
    using m assms(2) R_trans by (cases r) (auto simp: andthen_def moves_def)
qed

lemma moves_lift_then [moves_intros]: "(\<And>v. r = Inr v \<Longrightarrow> moves R (k v)) \<Longrightarrow> moves R (andthen (lift_result r) k)"
  by (cases r) (simp_all add: moves_def andthen_def lift_result_def R_refl)

lemma moves_attempt [moves_intros]: "moves R m \<Longrightarrow> moves R (attempt m)"
  unfolding moves_def attempt_def by (auto split: prod.splits) (metis snd_conv)

lemma moves_if [moves_intros]: "moves R m \<Longrightarrow> moves R n \<Longrightarrow> moves R (if b then m else n)"
  by simp

lemma moves_for_each [moves_intros]: "(\<And>x. x \<in> set xs \<Longrightarrow> moves R (body x)) \<Longrightarrow> moves R (for_each body xs)"
  by (induction xs) (auto intro: moves_intros)

lemma moves_tap_then: "(\<And>f. moves R (k (g f))) \<Longrightarrow> moves R (andthen (tap g) k)"
  by (simp add: moves_def andthen_def tap_def)

lemma moves_case_option [moves_intros]:
  "moves R m \<Longrightarrow> (\<And>v. moves R (k v)) \<Longrightarrow> moves R (case z of None \<Rightarrow> m | Some v \<Rightarrow> k v)"
  by (cases z) simp_all

lemma moves_case_sum [moves_intros]:
  "(\<And>e. moves R (h e)) \<Longrightarrow> (\<And>v. moves R (k v)) \<Longrightarrow> moves R (case z of Inl e \<Rightarrow> h e | Inr v \<Rightarrow> k v)"
  by (cases z) simp_all

lemma moves_case_prod [moves_intros]: "(\<And>a b. moves R (k a b)) \<Longrightarrow> moves R (case z of (a, b) \<Rightarrow> k a b)"
  by (cases z) simp

lemma moves_case_list [moves_intros]:
  "moves R m \<Longrightarrow> (\<And>x xs. moves R (k x xs)) \<Longrightarrow> moves R (case z of [] \<Rightarrow> m | x # xs \<Rightarrow> k x xs)"
  by (cases z) simp_all

lemma moves_let [moves_intros]: "moves R (k v) \<Longrightarrow> moves R (let y = v in k y)"
  by simp

end

section \<open>What a call adds to a log\<close>

text \<open>For a state that keeps a log, \<open>out\<close>: the call only appends, and what it appends fits its result.\<close>

definition emits :: "('s \<Rightarrow> 'l list) \<Rightarrow> ('s, 'e, 'a) action \<Rightarrow> ('e + 'a \<Rightarrow> 'l list \<Rightarrow> bool) \<Rightarrow> bool" where
  "emits out m P = (\<forall>s. \<exists>lg. out (snd (m s)) = out s @ lg \<and> P (fst (m s)) lg)"

lemma emitsD: "emits out m P \<Longrightarrow> m s = (res, s') \<Longrightarrow> \<exists>lg. out s' = out s @ lg \<and> P res lg"
  unfolding emits_def by (metis fst_conv snd_conv)

lemma emits_weaken: "emits out m P \<Longrightarrow> (\<And>res lg. P res lg \<Longrightarrow> Q res lg) \<Longrightarrow> emits out m Q"
  unfolding emits_def by blast

lemma emits_ret: "P (Inr v) [] \<Longrightarrow> emits out (ret v) P"
  by (simp add: emits_def ret_def)

lemma emits_raise: "P (Inl e) [] \<Longrightarrow> emits out (raise e) P"
  by (simp add: emits_def raise_def)

lemma emits_lift: "P res [] \<Longrightarrow> emits out (lift_result res) P"
  by (simp add: emits_def lift_result_def)

lemma emits_andthen:
  assumes "emits out m P" and "\<And>v s1. P (Inr v) s1 \<Longrightarrow> emits out (k v) (\<lambda>res s2. Q res (s1 @ s2))" and "\<And>e s. P (Inl e) s \<Longrightarrow> Q (Inl e) s"
  shows "emits out (andthen m k) Q"
  unfolding emits_def
proof
  fix r
  obtain res r1 where m: "m r = (res, r1)" by fastforce
  then obtain s1 where s1: "out r1 = out r @ s1" "P res s1" using emitsD[OF assms(1)] by blast
  show "\<exists>lg. out (snd (andthen m k r)) = out r @ lg \<and> Q (fst (andthen m k r)) lg"
  proof (cases res)
    case (Inl e)
    then show ?thesis using m s1 assms(3) by (auto simp: andthen_def)
  next
    case (Inr v)
    obtain res2 r2 where k: "k v r1 = (res2, r2)" by fastforce
    then obtain s2 where "out r2 = out r1 @ s2" "Q res2 (s1 @ s2)" using emitsD[OF assms(2)] s1 Inr by blast
    then show ?thesis using m k s1 Inr by (auto simp: andthen_def)
  qed
qed

lemma emits_attempt: "emits out m P \<Longrightarrow> emits out (attempt m) (\<lambda>res lg. \<exists>r. res = Inr r \<and> P r lg)"
  unfolding emits_def attempt_def by (simp add: case_prod_beta)

end
