(* ===== verification/PatchPolicy.thy ===== *)
theory PatchPolicy
  imports SecurityContract JsonParse
begin

text \<open>
  The patch policy of \<open>src/src/swfactory/scm.py\<close>: the paths a patch stream names, the checks on them, and the search
  for secrets. A patch is given as its decoded text, and the text as its UTF-8 bytes; line breaks and blanks of more
  than one byte are recognised as Python does.

  \<open>render_change\<close> writes a change the way \<open>git format-patch\<close> does, with git's quoting of names. The lemmas show that the
  reader finds every path such a stream touches, so that an accepted patch stays inside the checkout.
\<close>

section \<open>Lines and blanks\<close>

definition codes :: "string \<Rightarrow> nat list" where
  "codes s = map of_char s"

text \<open>How many bytes the line break at the start of the text has; 0 when there is none.\<close>

definition line_break :: "string \<Rightarrow> nat" where
  "line_break s =
     (let n = codes (take 3 s) in
      if take 2 n = [13, 10] then 2
      else if take 1 n \<in> set (map (\<lambda>b. [b]) [10, 11, 12, 13, 28, 29, 30]) then 1
      else if take 2 n = [194, 133] then 2
      else if n = [226, 128, 168] \<or> n = [226, 128, 169] then 3
      else 0)"

function lines_from :: "string \<Rightarrow> string \<Rightarrow> string list" where
  "lines_from cur [] = (if cur = [] then [] else [cur])"
| "lines_from cur (c # cs) =
     (if line_break (c # cs) = 0 then lines_from (cur @ [c]) cs
      else cur # lines_from [] (drop (line_break (c # cs)) (c # cs)))"
  by pat_completeness auto
termination
  by (relation "measure (\<lambda>(cur, s). length s)") auto

definition splitlines :: "string \<Rightarrow> string list" where
  "splitlines s = lines_from [] s"

text \<open>How many bytes the blank at the start of the text has, as \<open>\s\<close> reads it.\<close>

definition space_len :: "string \<Rightarrow> nat" where
  "space_len s =
     (let n = codes (take 3 s) in
      if take 1 n \<in> set (map (\<lambda>b. [b]) [9, 10, 11, 12, 13, 28, 29, 30, 31, 32]) then 1
      else if take 2 n \<in> set [[194, 133], [194, 160]] then 2
      else if n \<in> set ([[225, 154, 128], [226, 128, 168], [226, 128, 169], [226, 128, 175], [226, 129, 159], [227, 128, 128]]
                       @ map (\<lambda>b. [226, 128, 128 + b]) [0..<11]) then 3
      else 0)"

section \<open>Names\<close>

definition DQ :: char where
  "DQ = CHR 0x22"

definition BS :: char where
  "BS = CHR 0x5C"

definition c_escape :: "char \<Rightarrow> char" where
  "c_escape c = (case map_of (zip ''tnrabfv'' [CHR 0x09, CHR 0x0A, CHR 0x0D, CHR 0x07, CHR 0x08, CHR 0x0C, CHR 0x0B]) c of
     Some d \<Rightarrow> d | None \<Rightarrow> c)"

definition octal_value :: "char \<Rightarrow> nat option" where
  "octal_value c = (let n = of_char c :: nat in if 48 \<le> n \<and> n \<le> 55 then Some (n - 48) else None)"

definition octal3 :: "string \<Rightarrow> nat option" where
  "octal3 s =
     (case s of
        a # b # c # _ \<Rightarrow>
          (case (octal_value a, octal_value b, octal_value c) of
             (Some x, Some y, Some z) \<Rightarrow> Some (64 * x + 8 * y + z)
           | _ \<Rightarrow> None)
      | _ \<Rightarrow> None)"

text \<open>\<open>re.sub\<close> of the escapes of a quoted name; a backslash before a line feed or at the end stays.\<close>

function unescape :: "string \<Rightarrow> string" where
  "unescape [] = []"
| "unescape (c # cs) =
     (if c \<noteq> BS then c # unescape cs
      else case octal3 cs of
        Some n \<Rightarrow> utf8 n @ unescape (drop 3 cs)
      | None \<Rightarrow>
          (case cs of
             [] \<Rightarrow> [c]
           | d # ds \<Rightarrow> if d = CHR 0x0A then c # unescape cs else c_escape d # unescape ds))"
  by pat_completeness auto
termination
  by (relation "measure length") auto

definition unquote :: "string \<Rightarrow> string" where
  "unquote s = (if 2 \<le> length s \<and> hd s = DQ \<and> last s = DQ then unescape (butlast (tl s)) else s)"

definition strip_ab :: "string \<Rightarrow> string" where
  "strip_ab name = (let s = unquote name in if startswith s ''a/'' \<or> startswith s ''b/'' then drop 2 s else s)"

text \<open>The length of a quoted token after its opening quote.\<close>

fun quoted_len :: "string \<Rightarrow> nat option" where
  "quoted_len [] = None"
| "quoted_len (c # cs) =
     (if c = DQ then Some 1
      else if c = BS then
        (case cs of [] \<Rightarrow> None | d # ds \<Rightarrow> if d = CHR 0x0A then None else map_option (\<lambda>n. n + 2) (quoted_len ds))
      else map_option Suc (quoted_len cs))"

fun word_len :: "string \<Rightarrow> nat" where
  "word_len [] = 0"
| "word_len (c # cs) = (if space_len (c # cs) = 0 then Suc (word_len cs) else 0)"

function header_tokens :: "string \<Rightarrow> string list" where
  "header_tokens [] = []"
| "header_tokens (c # cs) =
     (if c = DQ \<and> quoted_len cs \<noteq> None then
        (c # take (the (quoted_len cs)) cs) # header_tokens (drop (the (quoted_len cs)) cs)
      else if space_len (c # cs) = 0 then
        take (word_len (c # cs)) (c # cs) # header_tokens (drop (word_len (c # cs)) (c # cs))
      else header_tokens (drop (space_len (c # cs)) (c # cs)))"
  by pat_completeness auto
termination
  by (relation "measure length") auto

text \<open>\<open>rest.partition(" b/")\<close>.\<close>

fun partition_b :: "string \<Rightarrow> string \<times> string" where
  "partition_b [] = ([], [])"
| "partition_b (c # cs) =
     (if startswith (c # cs) '' b/'' then ([], drop 3 (c # cs))
      else case partition_b cs of (a, b) \<Rightarrow> (c # a, b))"

definition header_paths :: "string \<Rightarrow> string list" where
  "header_paths rest =
     (if startswith rest [DQ] \<or> endswith rest [DQ] then map strip_ab (header_tokens rest)
      else
        let mid = length rest div 2; a = take mid rest; b = drop (mid + 1) rest in
        if length rest mod 2 = 1 \<and> startswith a ''a/'' \<and> startswith b ''b/'' \<and> drop 2 a = drop 2 b then [drop 2 a]
        else case partition_b rest of (x, y) \<Rightarrow> [removeprefix x ''a/'', y])"

section \<open>The paths of a patch\<close>

definition DIFF_HEADER :: string where
  "DIFF_HEADER = ''diff --git ''"

definition RENAME_PREFIXES :: "string list" where
  "RENAME_PREFIXES = [''rename from '', ''rename to '', ''copy from '', ''copy to '']"

definition rename_copy :: "string \<Rightarrow> string option" where
  "rename_copy line =
     (case List.find (\<lambda>p. startswith line p \<and> length p < length line) RENAME_PREFIXES of
        None \<Rightarrow> None | Some p \<Rightarrow> Some (drop (length p) line))"

definition file_line :: "string \<Rightarrow> string option" where
  "file_line line =
     (if (startswith line ''--- '' \<or> startswith line ''+++ '') \<and> 4 < length line then
        let name = drop 4 line in Some (if 2 \<le> length name \<and> last name = CHR 0x09 then butlast name else name)
      else None)"

text \<open>The paths of the lines, in order: whether a header is being read, then what one line adds.\<close>

fun line_paths :: "bool \<Rightarrow> string list \<Rightarrow> string list" where
  "line_paths inh [] = []"
| "line_paths inh (line # ls) =
     (if startswith line DIFF_HEADER then header_paths (drop (length DIFF_HEADER) line) @ line_paths True ls
      else if \<not> inh then line_paths False ls
      else if startswith line ''@@'' then line_paths False ls
      else case rename_copy line of
        Some name \<Rightarrow> unquote name # line_paths True ls
      | None \<Rightarrow>
          (case file_line line of
             Some name \<Rightarrow> (if strip_ab name = ''/dev/null'' then [] else [strip_ab name]) @ line_paths True ls
           | None \<Rightarrow> line_paths True ls))"

text \<open>\<open>dict.setdefault\<close> keeps the first occurrence.\<close>

definition first_of_each :: "'a list \<Rightarrow> 'a list" where
  "first_of_each xs = rev (remdups (rev xs))"

definition patch_paths :: "string \<Rightarrow> string list" where
  "patch_paths text = first_of_each (line_paths False (splitlines text))"

definition strip_slashes :: "string \<Rightarrow> string" where
  "strip_slashes s = rev (dropWhile (\<lambda>c. c = CHR ''/'') (rev (dropWhile (\<lambda>c. c = CHR ''/'') s)))"

definition norm_prefix :: "string \<Rightarrow> string" where
  "norm_prefix p = strip_slashes (removeprefix (py_strip p) ''./'')"

section \<open>Validation\<close>

datatype scm_error =
    ScmPolicy string
  | ScmStage string bool
  | ScmRefused int string
  | ScmValue string
  | ScmCrash string

definition creates_symlink :: "string \<Rightarrow> bool" where
  "creates_symlink text = list_ex (\<lambda>l. l = ''new mode 120000'' \<or> l = ''new file mode 120000'') (split_on (CHR 0x0A) text)"

definition under :: "string \<Rightarrow> string \<Rightarrow> bool" where
  "under path p = (p = [] \<or> path = p \<or> startswith path (p @ ''/''))"

definition check_path :: "string list option \<Rightarrow> string \<Rightarrow> scm_error option" where
  "check_path allowed path =
     (let parts = split_on (CHR ''/'') path in
      if startswith path ''/'' \<or> 1 < length path \<and> path ! 1 = CHR '':'' then Some (ScmPolicy (''patch touches absolute path: '' @ path))
      else if ''..'' \<in> set parts then Some (ScmPolicy (''patch path escapes the checkout: '' @ path))
      else if ''.git'' \<in> set parts then Some (ScmPolicy (''patch touches .git: '' @ path))
      else case allowed of
        None \<Rightarrow> None
      | Some ps \<Rightarrow> if list_ex (under path) ps then None else Some (ScmPolicy (''patch touches '' @ path @ '', outside allowed'')))"

fun first_error :: "('a \<Rightarrow> 'e option) \<Rightarrow> 'a list \<Rightarrow> 'e option" where
  "first_error chk [] = None"
| "first_error chk (x # xs) = (case chk x of Some e \<Rightarrow> Some e | None \<Rightarrow> first_error chk xs)"

definition validate_patch :: "string list option \<Rightarrow> string \<Rightarrow> scm_error option" where
  "validate_patch allowed text =
     (if creates_symlink text then Some (ScmPolicy ''patch creates a symlink (mode 120000)'')
      else first_error (check_path (map_option (map norm_prefix) allowed)) (patch_paths text))"

text \<open>\<open>Pattern.search\<close>.\<close>

fun rx_search :: "rx_item list \<Rightarrow> char option \<Rightarrow> string \<Rightarrow> bool" where
  "rx_search pat prev [] = (rx_match pat prev [] \<noteq> None)"
| "rx_search pat prev (c # cs) = (rx_match pat prev (c # cs) \<noteq> None \<or> rx_search pat (Some c) cs)"

definition is_upper :: "char \<Rightarrow> bool" where
  "is_upper c = (let n = of_char c :: nat in 65 \<le> n \<and> n \<le> 90)"

definition is_digit :: "char \<Rightarrow> bool" where
  "is_digit c = (let n = of_char c :: nat in 48 \<le> n \<and> n \<le> 57)"

definition exactly :: "nat \<Rightarrow> (char \<Rightarrow> bool) \<Rightarrow> rx_item list" where
  "exactly n p = replicate n (One p)"

definition SECRET_PATTERNS :: "(string \<times> rx_item list) list" where
  "SECRET_PATTERNS =
     [(''aws-access-key-id'', lit ''AKIA'' @ exactly 16 (\<lambda>c. is_digit c \<or> is_upper c)),
      (''anthropic-api-key'', lit ''sk-ant-'' @ [Many 20 (\<lambda>c. is_alnum c \<or> c \<in> set ''_-'')]),
      (''github-token'', lit ''ghp_'' @ exactly 36 is_alnum),
      (''github-fine-grained-token'', lit ''github_pat_'' @ [Many 20 (\<lambda>c. is_alnum c \<or> c = CHR ''_'')]),
      (''private-key'', lit ''-----BEGIN '' @ [Many 0 (\<lambda>c. is_upper c \<or> c = CHR '' '')] @ lit ''PRIVATE KEY-----''),
      (''google-api-key'', lit ''AIza'' @ exactly 35 (\<lambda>c. is_alnum c \<or> c \<in> set ''_-'')),
      (''slack-token'', lit ''xox'' @ [One (\<lambda>c. c \<in> set ''baprs'')] @ lit ''-'' @ [Many 10 (\<lambda>c. is_alnum c \<or> c = CHR ''-'')])]"

definition scan_secrets :: "string \<Rightarrow> string list" where
  "scan_secrets text = map fst (filter (\<lambda>(kind, pat). rx_search pat None text) SECRET_PATTERNS)"

text \<open>\<open>bytes.strip\<close> removes ASCII blanks.\<close>

definition blank_bytes :: "string \<Rightarrow> bool" where
  "blank_bytes s = list_all (\<lambda>c. (of_char c :: nat) \<in> set [9, 10, 11, 12, 13, 32]) s"

definition check_patch :: "string list option \<Rightarrow> string \<Rightarrow> scm_error option" where
  "check_patch allowed text =
     (if blank_bytes text then Some (ScmStage ''empty patch: nothing to publish'' False)
      else case validate_patch allowed text of
        Some e \<Rightarrow> Some e
      | None \<Rightarrow> if scan_secrets text \<noteq> [] then Some (ScmPolicy (''secret-like token in patch: '' @ join '', '' (scan_secrets text))) else None)"


section \<open>What git writes\<close>

text \<open>A name as git prints it: quoted when it has a control character, a quote, a backslash or a byte outside ASCII.\<close>

definition must_quote :: "char \<Rightarrow> bool" where
  "must_quote c = (let n = of_char c :: nat in n < 32 \<or> n = 34 \<or> n = 92 \<or> 126 < n)"

definition octal_char :: "nat \<Rightarrow> char" where
  "octal_char n = char_of (48 + n mod 8)"

definition git_escape :: "char \<Rightarrow> string" where
  "git_escape c =
     (let n = of_char c :: nat in
      if \<not> must_quote c then [c]
      else if n = 34 \<or> n = 92 then [BS, c]
      else if 7 \<le> n \<and> n \<le> 13 then [BS, ''abtnvfr'' ! (n - 7)]
      else [BS, octal_char (n div 64), octal_char (n div 8), octal_char n])"

definition git_name :: "string \<Rightarrow> string \<Rightarrow> string" where
  "git_name pre p = (if list_ex must_quote p then DQ # concat (map git_escape (pre @ p)) @ [DQ] else pre @ p)"

text \<open>One file of a \<open>format-patch\<close> stream: the header, the lines before the names of a rename (modes, similarity), the
  rename, and everything after it.\<close>

record change =
  ch_old :: string
  ch_new :: string
  ch_modes :: "string list"
  ch_rest :: string

definition unlines :: "string list \<Rightarrow> string" where
  "unlines ls = concat (map (\<lambda>l. l @ [CHR 0x0A]) ls)"

definition change_header :: "change \<Rightarrow> string" where
  "change_header c = DIFF_HEADER @ git_name ''a/'' (ch_old c) @ '' '' @ git_name ''b/'' (ch_new c)"

definition rename_lines :: "change \<Rightarrow> string list" where
  "rename_lines c = (if ch_old c = ch_new c then []
     else [''rename from '' @ git_name [] (ch_old c), ''rename to '' @ git_name [] (ch_new c)])"

definition render_change :: "change \<Rightarrow> string" where
  "render_change c = unlines (change_header c # ch_modes c @ rename_lines c) @ ch_rest c"

definition ascii :: "string \<Rightarrow> bool" where
  "ascii s = list_all (\<lambda>c. (of_char c :: nat) < 128) s"

definition printable :: "string \<Rightarrow> bool" where
  "printable s = list_all (\<lambda>c. 32 \<le> (of_char c :: nat) \<and> (of_char c :: nat) < 127) s"

definition change_ok :: "change \<Rightarrow> bool" where
  "change_ok c = (ch_old c \<noteq> [] \<and> ch_new c \<noteq> [] \<and> ascii (ch_old c) \<and> ascii (ch_new c)
     \<and> list_all (\<lambda>l. printable l \<and> \<not> startswith l ''@@'' \<and> \<not> startswith l DIFF_HEADER) (ch_modes c))"

section \<open>The reader finds what git writes\<close>

lemma startswith_self_append [simp]: "startswith (p @ s) p"
  by (simp add: startswith_def)

lemma startswith_append_same: "startswith (p @ s) (p @ q) = startswith s q"
  by (simp add: startswith_def)

lemma of_octal_char: "of_char (octal_char n) = 48 + n mod (8::nat)"
  by (simp add: octal_char_def of_char_of)

lemma octal_value_char: "octal_value (octal_char n) = Some (n mod 8)"
  by (simp add: octal_value_def of_octal_char)

lemma octal3_escape: "n < 512 \<Longrightarrow> octal3 (octal_char (n div 64) # octal_char (n div 8) # octal_char n # s) = Some n"
proof -
  assume "n < 512"
  then have "n div 64 mod 8 = n div 64" by simp
  moreover have "n div 64 = n div 8 div 8" by (simp add: div_mult2_eq[symmetric])
  ultimately have "64 * (n div 64 mod 8) + 8 * (n div 8 mod 8) + n mod 8 = n"
    using div_mult_mod_eq[of n 8] div_mult_mod_eq[of "n div 8" 8] by linarith
  then show ?thesis by (simp only: octal3_def octal_value_char list.case prod.case option.case)
qed

text \<open>The three shapes of an escape.\<close>

lemma git_escape_cases:
  assumes "(of_char c :: nat) < 128"
  obtains (plain) "git_escape c = [c]" "c \<noteq> BS" "c \<noteq> DQ" "\<not> must_quote c"
  | (short) e where "git_escape c = [BS, e]" "octal_value e = None" "e \<noteq> CHR 0x0A" "c_escape e = c" "e = BS \<or> e = DQ \<or> \<not> must_quote e"
  | (octal) "git_escape c = [BS, octal_char (of_char c div 64), octal_char (of_char c div 8), octal_char (of_char c)]"
proof -
  let ?n = "of_char c :: nat"
  consider "\<not> must_quote c" | "must_quote c" "?n = 34 \<or> ?n = 92" | "7 \<le> ?n \<and> ?n \<le> 13"
    | "must_quote c" "?n \<noteq> 34" "?n \<noteq> 92" "\<not> (7 \<le> ?n \<and> ?n \<le> 13)" by blast
  then show thesis
  proof cases
    case 1
    then have "?n \<noteq> 92" "?n \<noteq> 34" by (simp_all add: must_quote_def Let_def)
    then have "c \<noteq> BS" "c \<noteq> DQ" by (auto simp: BS_def DQ_def)
    then show ?thesis using plain 1 by (simp add: git_escape_def)
  next
    case 2
    then have "of_char c = (of_char DQ :: nat) \<or> of_char c = (of_char BS :: nat)" by (simp add: BS_def DQ_def)
    then have c: "c = DQ \<or> c = BS" by (simp only: of_char_eq_iff)
    then show ?thesis using short[of c] 2 by (auto simp: git_escape_def octal_value_def BS_def DQ_def c_escape_def)
  next
    case 3
    then have "?n = 7 \<or> ?n = 8 \<or> ?n = 9 \<or> ?n = 10 \<or> ?n = 11 \<or> ?n = 12 \<or> ?n = 13" by arith
    then have "?n = of_char (CHR 0x07) \<or> ?n = of_char (CHR 0x08) \<or> ?n = of_char (CHR 0x09) \<or> ?n = of_char (CHR 0x0A)
      \<or> ?n = of_char (CHR 0x0B) \<or> ?n = of_char (CHR 0x0C) \<or> ?n = of_char (CHR 0x0D)" by simp
    then have "c = CHR 0x07 \<or> c = CHR 0x08 \<or> c = CHR 0x09 \<or> c = CHR 0x0A \<or> c = CHR 0x0B \<or> c = CHR 0x0C \<or> c = CHR 0x0D"
      by (simp only: of_char_eq_iff)
    then show ?thesis using short[of "''abtnvfr'' ! (?n - 7)"]
      by (elim disjE) (simp_all add: git_escape_def must_quote_def octal_value_def c_escape_def)
  next
    case 4
    then show ?thesis using octal by (auto simp: git_escape_def Let_def)
  qed
qed

lemma unescape_git: "(of_char c :: nat) < 128 \<Longrightarrow> unescape (git_escape c @ s) = c # unescape s"
proof -
  assume c: "(of_char c :: nat) < 128"
  then show ?thesis
  proof (cases c rule: git_escape_cases)
    case (short e)
    then have "octal3 (e # s) = None" by (simp add: octal3_def split: list.splits option.splits)
    then show ?thesis using short by simp
  next
    case octal
    then show ?thesis using c octal3_escape[of "of_char c" s] by (simp add: utf8_def)
  qed simp
qed

lemma unescape_name: "ascii p \<Longrightarrow> unescape (concat (map git_escape p)) = p"
  by (induction p) (simp_all add: ascii_def unescape_git)

lemma unquote_quoted: "ascii p \<Longrightarrow> unquote (DQ # concat (map git_escape p) @ [DQ]) = p"
  by (simp add: unquote_def unescape_name)

lemma quoted_len_git: "(of_char c :: nat) < 128 \<Longrightarrow> quoted_len (git_escape c @ s) = map_option (\<lambda>n. n + length (git_escape c)) (quoted_len s)"
proof -
  assume c: "(of_char c :: nat) < 128"
  have digit: "octal_char k \<noteq> DQ \<and> octal_char k \<noteq> BS \<and> octal_char k \<noteq> CHR 0x0A" for k
    using of_octal_char[of k] by (auto simp: DQ_def BS_def)
  show ?thesis using c
  proof (cases c rule: git_escape_cases)
    case (short e)
    then show ?thesis by (simp add: BS_def DQ_def)
  next
    case octal
    then show ?thesis using digit by (simp add: BS_def DQ_def option.map_comp comp_def)
  qed simp
qed

lemma quoted_len_name: "ascii p \<Longrightarrow> quoted_len (concat (map git_escape p) @ DQ # s) = Some (length (concat (map git_escape p)) + 1)"
  by (induction p) (simp_all add: ascii_def quoted_len_git)

lemma header_token: "ascii p \<Longrightarrow>
  header_tokens (DQ # concat (map git_escape p) @ DQ # s) = (DQ # concat (map git_escape p) @ [DQ]) # header_tokens s"
  by (simp add: quoted_len_name)

lemma name_plain: "\<not> list_ex must_quote p \<Longrightarrow> DQ \<notin> set p"
  by (induction p) (auto simp: must_quote_def DQ_def)

lemma unquote_plain: "DQ \<notin> set p \<Longrightarrow> unquote p = p"
  by (cases p) (auto simp: unquote_def)

lemma unquote_name: "ascii p \<Longrightarrow> unquote (git_name [] p) = p"
  by (simp add: git_name_def unquote_quoted unquote_plain name_plain)

text \<open>A header whose two names are the same.\<close>

lemma header_paths_same:
  assumes "ascii p"
  shows "p \<in> set (header_paths (git_name ''a/'' p @ '' '' @ git_name ''b/'' p))"
proof (cases "list_ex must_quote p")
  case True
  have ab: "ascii (''a/'' @ p)" "ascii (''b/'' @ p)" using assms by (simp_all add: ascii_def)
  have sp: "header_tokens (CHR '' '' # s) = header_tokens s" for s by (simp add: space_len_def codes_def DQ_def)
  have "header_tokens (git_name ''a/'' p @ '' '' @ git_name ''b/'' p)
     = [DQ # concat (map git_escape (''a/'' @ p)) @ [DQ], DQ # concat (map git_escape (''b/'' @ p)) @ [DQ]]"
    using True header_token[OF ab(1), of "CHR '' '' # DQ # concat (map git_escape (''b/'' @ p)) @ [DQ]"] header_token[OF ab(2), of "[]"]
    by (simp only: git_name_def if_True append_Cons append_Nil append_assoc sp header_tokens.simps(1))
  moreover have "strip_ab (DQ # concat (map git_escape (''a/'' @ p)) @ [DQ]) = p"
    using unquote_quoted[OF ab(1)] by (simp add: strip_ab_def startswith_def)
  moreover have "startswith (git_name ''a/'' p @ '' '' @ git_name ''b/'' p) [DQ]" using True by (simp add: git_name_def startswith_def)
  ultimately show ?thesis by (simp add: header_paths_def)
next
  case False
  let ?a = "''a/'' @ p"
  have nodq: "DQ \<notin> set p" using name_plain[OF False] .
  have r: "git_name ''a/'' p @ '' '' @ git_name ''b/'' p = ?a @ CHR '' '' # ''b/'' @ p" using False by (simp add: git_name_def)
  have "\<not> startswith (?a @ CHR '' '' # ''b/'' @ p) [DQ]" by (simp add: startswith_def DQ_def)
  moreover have "\<not> endswith (?a @ CHR '' '' # ''b/'' @ p) [DQ]"
  proof -
    have "last (?a @ CHR '' '' # ''b/'' @ p) \<noteq> DQ" using nodq by (cases "p = []") (auto simp: DQ_def dest: last_in_set)
    then show ?thesis by (metis append_take_drop_id endswith_def last_snoc)
  qed
  moreover have "length (?a @ CHR '' '' # ''b/'' @ p) div 2 = length ?a" "length (?a @ CHR '' '' # ''b/'' @ p) mod 2 = 1" by simp_all presburger+
  ultimately show ?thesis unfolding r header_paths_def Let_def by (simp add: startswith_def)
qed

subsection \<open>Lines\<close>

lemma lines_after_break: "\<exists>xs. lines_from cur (pre @ CHR 0x0A # s) = xs @ lines_from [] s"
proof (induction "length pre" arbitrary: pre cur rule: less_induct)
  case less
  show ?case
  proof (cases pre)
    case Nil
    then show ?thesis by (simp add: line_break_def codes_def)
  next
    case (Cons c cs)
    let ?t = "c # cs @ CHR 0x0A # s" and ?k = "line_break (c # cs @ CHR 0x0A # s)"
    have k: "?k \<le> length (c # cs) \<or> cs = [] \<and> ?k = 2"
      by (cases cs; cases "tl cs") (auto simp: line_break_def codes_def Let_def)
    consider "?k = 0" | "0 < ?k" "?k \<le> length (c # cs)" | "cs = []" "?k = 2" using k by auto
    then show ?thesis
    proof cases
      case 1
      then show ?thesis using less[of cs "cur @ [c]"] Cons by simp
    next
      case 2
      then have "drop ?k ?t = drop ?k (c # cs) @ CHR 0x0A # s" using drop_append[of ?k "c # cs" "CHR 0x0A # s"] by simp
      moreover obtain xs where "lines_from [] (drop ?k (c # cs) @ CHR 0x0A # s) = xs @ lines_from [] s"
        using less[of "drop ?k (c # cs)" "[]"] 2 Cons by auto
      ultimately have "lines_from cur (pre @ CHR 0x0A # s) = (cur # xs) @ lines_from [] s" using 2 Cons by simp
      then show ?thesis by blast
    next
      case 3
      then show ?thesis using Cons by simp
    qed
  qed
qed

lemma printable_no_break: "32 \<le> (of_char c :: nat) \<Longrightarrow> (of_char c :: nat) < 127 \<Longrightarrow> line_break (c # s) = 0"
  by (auto simp: line_break_def codes_def Let_def)

lemma printable_line: "printable l \<Longrightarrow> lines_from cur (l @ CHR 0x0A # s) = (cur @ l) # lines_from [] s"
proof (induction l arbitrary: cur)
  case Nil
  then show ?case by (simp add: line_break_def codes_def)
next
  case (Cons c l)
  then show ?case using printable_no_break[of c "l @ CHR 0x0A # s"] by (simp add: printable_def)
qed

lemma printable_lines: "list_all printable ls \<Longrightarrow> lines_from [] (unlines ls @ s) = ls @ lines_from [] s"
  by (induction ls) (simp_all add: unlines_def printable_line)

lemma printable_escape:
  assumes "(of_char c :: nat) < 128"
  shows "printable (git_escape c)"
  using assms
proof (cases c rule: git_escape_cases)
  case plain
  then show ?thesis using assms by (simp add: printable_def must_quote_def Let_def)
next
  case (short e)
  then show ?thesis by (auto simp: printable_def must_quote_def Let_def BS_def DQ_def)
next
  case octal
  have "k mod 8 < 79" for k :: nat by (rule less_trans[OF mod_less_divisor]) simp_all
  then show ?thesis using octal by (simp add: printable_def of_octal_char BS_def)
qed

lemma printable_append [simp]: "printable (a @ b) = (printable a \<and> printable b)"
  by (simp add: printable_def)

lemma printable_name:
  assumes "ascii p" "ascii pre" "printable pre"
  shows "printable (git_name pre p)"
proof (cases "list_ex must_quote p")
  case True
  have "printable (concat (map git_escape q))" if "ascii q" for q
    using that by (induction q) (simp_all add: ascii_def printable_escape, simp add: printable_def)
  then show ?thesis using True assms by (simp add: git_name_def ascii_def) (simp add: printable_def DQ_def)
next
  case False
  then have "printable p" by (induction p) (auto simp: printable_def must_quote_def Let_def)
  then show ?thesis using False assms by (simp add: git_name_def)
qed

subsection \<open>Sections\<close>

lemma line_paths_append: "\<exists>b'. line_paths b (xs @ ys) = line_paths b xs @ line_paths b' ys"
proof (induction xs arbitrary: b)
  case (Cons x xs)
  obtain t where "line_paths True (xs @ ys) = line_paths True xs @ line_paths t ys" using Cons.IH by blast
  moreover obtain u where "line_paths False (xs @ ys) = line_paths False xs @ line_paths u ys" using Cons.IH by blast
  ultimately show ?case by (auto split: option.splits)
qed auto

lemma line_paths_skip: "list_all (\<lambda>l. \<not> startswith l ''@@'' \<and> \<not> startswith l DIFF_HEADER) ms \<Longrightarrow>
  set (line_paths True zs) \<subseteq> set (line_paths True (ms @ zs))"
  by (induction ms) (auto split: option.splits)

lemma git_name_nonempty: "p \<noteq> [] \<Longrightarrow> git_name [] p \<noteq> []"
  by (simp add: git_name_def)

lemma rename_line_paths:
  assumes "p \<noteq> []" "ascii p" "pre = ''rename from '' \<or> pre = ''rename to ''"
  shows "line_paths True ((pre @ git_name [] p) # zs) = p # line_paths True zs"
proof -
  have "rename_copy (pre @ git_name [] p) = Some (git_name [] p)"
    using assms(3) git_name_nonempty[OF assms(1)]
    by (elim disjE) (simp_all add: rename_copy_def RENAME_PREFIXES_def startswith_def)
  moreover have "\<not> startswith (pre @ git_name [] p) DIFF_HEADER" "\<not> startswith (pre @ git_name [] p) ''@@''"
    using assms(3) by (auto simp: startswith_def DIFF_HEADER_def)
  ultimately show ?thesis by (simp add: unquote_name[OF assms(2)])
qed

lemma render_lines:
  assumes "change_ok c"
  obtains xs zs where "splitlines (pre @ CHR 0x0A # render_change c @ post) = xs @ change_header c # ch_modes c @ rename_lines c @ zs"
proof -
  have p: "printable ''a/''" "printable ''b/''" "printable []" "printable '' ''" "printable DIFF_HEADER" "printable ''rename from ''" "printable ''rename to ''"
    by (simp_all add: printable_def DIFF_HEADER_def)
  have a: "ascii ''a/''" "ascii ''b/''" "ascii []" by (simp_all add: ascii_def)
  have n: "ascii (ch_old c)" "ascii (ch_new c)" "list_all printable (ch_modes c)" using assms by (auto simp: change_ok_def list_all_iff)
  have "printable (change_header c)" unfolding change_header_def
    using p by (simp only: printable_append printable_name[OF n(1) a(1) p(1)] printable_name[OF n(2) a(2) p(2)])
  moreover have "list_all printable (rename_lines c)" unfolding rename_lines_def
    using p printable_name[OF n(1) a(3) p(3)] printable_name[OF n(2) a(3) p(3)] by (auto simp only: printable_append list.pred_inject split: if_splits)
  ultimately have "list_all printable (change_header c # ch_modes c @ rename_lines c)" using n by simp
  then have "lines_from [] (render_change c @ post) = (change_header c # ch_modes c @ rename_lines c) @ lines_from [] (ch_rest c @ post)"
    unfolding render_change_def by (metis append_assoc printable_lines)
  moreover obtain xs where "splitlines (pre @ CHR 0x0A # render_change c @ post) = xs @ lines_from [] (render_change c @ post)"
    using lines_after_break unfolding splitlines_def by blast
  ultimately show ?thesis using that by simp
qed

lemma set_first_of_each [simp]: "set (first_of_each xs) = set xs"
  by (simp add: first_of_each_def)

lemma collected_paths_complete:
  assumes "change_ok c"
  shows "ch_old c \<in> set (patch_paths (pre @ CHR 0x0A # render_change c @ post))"
    and "ch_new c \<in> set (patch_paths (pre @ CHR 0x0A # render_change c @ post))"
proof -
  obtain xs zs where l: "splitlines (pre @ CHR 0x0A # render_change c @ post) = xs @ change_header c # ch_modes c @ rename_lines c @ zs"
    using render_lines[OF assms] .
  let ?h = "header_paths (git_name ''a/'' (ch_old c) @ '' '' @ git_name ''b/'' (ch_new c))"
  have hp: "line_paths b (change_header c # ys) = ?h @ line_paths True ys" for b ys by (simp add: change_header_def)
  obtain b' where "line_paths False (xs @ change_header c # ch_modes c @ rename_lines c @ zs)
      = line_paths False xs @ line_paths b' (change_header c # ch_modes c @ rename_lines c @ zs)" using line_paths_append by blast
  then have "line_paths False (splitlines (pre @ CHR 0x0A # render_change c @ post))
      = line_paths False xs @ ?h @ line_paths True (ch_modes c @ rename_lines c @ zs)" by (simp only: l hp)
  then have h: "set ?h \<subseteq> set (patch_paths (pre @ CHR 0x0A # render_change c @ post))"
    and t: "set (line_paths True (ch_modes c @ rename_lines c @ zs)) \<subseteq> set (patch_paths (pre @ CHR 0x0A # render_change c @ post))"
    by (auto simp only: patch_paths_def set_first_of_each set_append)
  have r: "set (line_paths True (rename_lines c @ zs)) \<subseteq> set (patch_paths (pre @ CHR 0x0A # render_change c @ post))"
    using line_paths_skip[of "ch_modes c" "rename_lines c @ zs"] t assms by (auto simp: change_ok_def list_all_iff)
  have ok: "ch_old c \<noteq> []" "ch_new c \<noteq> []" "ascii (ch_old c)" "ascii (ch_new c)" using assms by (simp_all add: change_ok_def)
  have ren: "line_paths True (rename_lines c @ zs) = ch_old c # ch_new c # line_paths True zs" if "ch_old c \<noteq> ch_new c"
  proof -
    have "rename_lines c @ zs = (''rename from '' @ git_name [] (ch_old c)) # (''rename to '' @ git_name [] (ch_new c)) # zs"
      using that by (simp add: rename_lines_def)
    then show ?thesis by (simp only: rename_line_paths[OF ok(1,3) disjI1[OF refl]] rename_line_paths[OF ok(2,4) disjI2[OF refl]])
  qed
  show "ch_old c \<in> set (patch_paths (pre @ CHR 0x0A # render_change c @ post))"
    using h r header_paths_same[OF ok(3)] ren by (cases "ch_old c = ch_new c") auto
  show "ch_new c \<in> set (patch_paths (pre @ CHR 0x0A # render_change c @ post))"
    using h r header_paths_same[OF ok(3)] ren by (cases "ch_old c = ch_new c") auto
qed

section \<open>An accepted patch stays in the checkout\<close>

lemma first_error_None: "first_error chk xs = None \<Longrightarrow> x \<in> set xs \<Longrightarrow> chk x = None"
  by (induction xs) (auto split: option.splits)

text \<open>Where a path may lead: relative, no parent component, nothing of \<open>.git\<close>, and under an allowed prefix.\<close>

definition confined_to :: "string list option \<Rightarrow> string \<Rightarrow> bool" where
  "confined_to allowed path =
     (\<not> startswith path ''/'' \<and> ''..'' \<notin> set (split_on (CHR ''/'') path) \<and> ''.git'' \<notin> set (split_on (CHR ''/'') path)
      \<and> (case allowed of None \<Rightarrow> True | Some ps \<Rightarrow> \<exists>p\<in>set ps. under path (norm_prefix p)))"

lemma check_path_confined: "check_path (map_option (map norm_prefix) allowed) path = None \<Longrightarrow> confined_to allowed path"
  by (auto simp: check_path_def confined_to_def Let_def list_ex_iff split: if_splits option.splits)

text \<open>C11: a patch that passes the publication check touches no path outside the checkout. Whatever stands before and after
  it in the stream, a file change as git writes it, renames and quoted names included, has both its names relative, without
  a parent component, outside \<open>.git\<close> and under an allowed prefix; and the stream has none of the secret shapes.\<close>

theorem accepted_patch_confined:
  assumes "check_patch allowed (pre @ CHR 0x0A # render_change c @ post) = None" and "change_ok c"
  shows "confined_to allowed (ch_old c) \<and> confined_to allowed (ch_new c)
    \<and> scan_secrets (pre @ CHR 0x0A # render_change c @ post) = []"
proof -
  let ?t = "pre @ CHR 0x0A # render_change c @ post"
  have v: "validate_patch allowed ?t = None" "scan_secrets ?t = []"
    using assms(1) by (auto simp: check_patch_def split: if_splits option.splits)
  then have "first_error (check_path (map_option (map norm_prefix) allowed)) (patch_paths ?t) = None"
    by (simp add: validate_patch_def split: if_splits)
  note ok = check_path_confined[OF first_error_None[OF this]]
  show ?thesis using v(2) collected_paths_complete[OF assms(2), of pre post] ok by simp
qed

lemmas patch_eval = unlines_def patch_paths_def splitlines_def line_break_def codes_def Let_def startswith_def DIFF_HEADER_def header_paths_def endswith_def DQ_def rename_copy_def RENAME_PREFIXES_def file_line_def strip_ab_def unquote_def first_of_each_def
  check_patch_def blank_bytes_def validate_patch_def creates_symlink_def check_path_def under_def norm_prefix_def strip_slashes_def py_strip_def is_space_def removeprefix_def

lemma rx_match_lit: "rx_match (lit w @ pat) prev s = Some r \<Longrightarrow> startswith s w"
  by (induction w arbitrary: prev s) (auto simp: lit_def startswith_def split: list.splits if_splits)

lemma rx_search_lit: "rx_search (lit w @ pat) prev s \<Longrightarrow> py_in w s"
  by (induction s arbitrary: prev) (auto dest: rx_match_lit simp: startswith_def)

lemma no_secrets:
  assumes "list_all (\<lambda>w. \<not> py_in w t) [''AKIA'', ''sk-ant-'', ''ghp_'', ''github_pat_'', ''-----BEGIN '', ''AIza'', ''xox'']"
  shows "scan_secrets t = []"
  using assms rx_search_lit[of _ _ None t] by (auto simp: scan_secrets_def SECRET_PATTERNS_def)

definition demo_change :: change where
  "demo_change = \<lparr>ch_old = ''d/a'', ch_new = ''d/b'', ch_modes = [], ch_rest = []\<rparr>"

lemma demo_render: "render_change demo_change = unlines [''diff --git a/d/a b/d/b'', ''rename from d/a'', ''rename to d/b'']"
  by (simp add: render_change_def demo_change_def change_header_def rename_lines_def git_name_def must_quote_def DIFF_HEADER_def)

lemma demo_change_accepted:
  "check_patch (Some [''d'']) (''From: f'' @ CHR 0x0A # render_change demo_change @ []) = None" "change_ok demo_change"
proof -
  let ?t = "''From: f'' @ CHR 0x0A # render_change demo_change @ []"
  have "patch_paths ?t = [''d/a'', ''d/b'']" by (simp add: demo_render patch_eval)
  then have "validate_patch (Some [''d'']) ?t = None"
    by (simp add: validate_patch_def creates_symlink_def demo_render unlines_def check_path_def norm_prefix_def strip_slashes_def py_strip_def
        is_space_def removeprefix_def startswith_def under_def)
  moreover have "scan_secrets ?t = []" by (rule no_secrets) (simp add: demo_render unlines_def startswith_def)
  ultimately show "check_patch (Some [''d'']) ?t = None" by (simp add: check_patch_def blank_bytes_def)
  show "change_ok demo_change" by (simp add: change_ok_def demo_change_def ascii_def)
qed

theorem accepted_patch_confined_witness:
  "confined_to (Some [''d'']) ''d/a'' \<and> confined_to (Some [''d'']) ''d/b''
    \<and> scan_secrets (''From: f'' @ CHR 0x0A # render_change demo_change @ []) = []"
  using accepted_patch_confined[OF demo_change_accepted] by (simp add: demo_change_def)

section \<open>What the reader does not see\<close>

text \<open>A change in the traditional form, which \<open>git apply\<close> reads too, has no \<open>diff --git\<close> line: after a hunk its names
  are not collected, and the patch passes whatever the allowed prefixes are.\<close>

definition traditional_patch :: string where
  "traditional_patch = unlines [''From: f'', ''diff --git a/docs/a b/docs/a'', ''@@ -1 +1 @@'', ''-x'', ''+y'',
     ''--- a/.github/w'', ''+++ b/.github/w'', ''@@ -0,0 +1 @@'', ''+z'']"

lemma traditional_diff_paths: "patch_paths traditional_patch = [''docs/a'']"
  by (simp add: traditional_patch_def patch_eval)

lemma traditional_diff_unseen: "check_patch (Some [''docs'']) traditional_patch = None"
proof -
  have "scan_secrets traditional_patch = []" by (rule no_secrets) (simp add: traditional_patch_def unlines_def startswith_def)
  then show ?thesis
    by (simp add: check_patch_def validate_patch_def traditional_diff_paths) (simp add: traditional_patch_def patch_eval)
qed

text \<open>A change of where an existing symbolic link points names the mode on its index line only.\<close>

definition symlink_patch :: string where
  "symlink_patch = unlines [''From: f'', ''diff --git a/docs/l b/docs/l'', ''index 1..2 120000'', ''--- a/docs/l'', ''+++ b/docs/l'',
     ''@@ -1 +1 @@'', ''-x'', ''+/etc'']"

lemma symlink_target_unseen: "check_patch (Some [''docs'']) symlink_patch = None"
proof -
  have "scan_secrets symlink_patch = []" by (rule no_secrets) (simp add: symlink_patch_def unlines_def startswith_def)
  moreover have "patch_paths symlink_patch = [''docs/l'']" by (simp add: symlink_patch_def patch_eval)
  ultimately show ?thesis by (simp add: check_patch_def validate_patch_def) (simp add: symlink_patch_def patch_eval)
qed

text \<open>A byte outside ASCII is read back as a character of its own, so a quoted name of two bytes becomes four.\<close>

lemma quoted_utf8_misread:
  "codes (unquote (DQ # BS # ''303'' @ BS # ''251'' @ [DQ])) = [195, 131, 194, 169]"
  by code_simp

end
