(* ===== verification/ServiceCore.thy ===== *)
theory ServiceCore
  imports ControlKernel JsonParse Calls PatchPolicy
begin

text \<open>
  The ground of \<open>backend/service.py\<close>: the factory object (the control kernel with its stores, the world of the
  lease broker, the memory of the last observations and the Airflow side), calls that read or change it and may
  raise, the Airflow client call, the installed lines with their fan-out (\<open>Blueprint.jobs\<close>), and the immutable work
  order. A call is a function from the factory to a result or an error and the factory afterwards; every store
  access is one call of the store's model.
\<close>

section \<open>Errors, environment and state\<close>

datatype service_error =
    SRefused int string
  | SValueError string
  | SControlError string
  | SKeyError string
  | SAirflow string
  | SRestore restore_error
  | SKernel kernel_error
  | SAdmission adm_error
  | SCell cell_error
  | SEvidence evidence_error
  | SScm scm_error

record bp_target =
  tg_repo :: string
  tg_dir :: string
  tg_branch :: string

record bp_line =
  bl_name :: string
  bl_version :: int
  bl_order :: "string list"
  bl_targets :: "bp_target list"
  bl_budget :: real

text \<open>A request to Airflow: method, path and body. Its answer is a status with a decoded body, or it raises.\<close>

type_synonym 'x airflow_call = "string \<Rightarrow> string \<Rightarrow> json option \<Rightarrow> 'x \<Rightarrow> (service_error + int \<times> json) \<times> 'x"

text \<open>
  What a handler is given from outside: the admission limits, \<open>str\<close> of exceptions, floats, lists and dicts, the
  clock (one stream of readings per access), the tokens of journal attempts, the revocation callback of the Cell
  store, the Airflow client, the installed lines, and the environment variables \<open>SWF_DRAIN\<close> and \<open>SWF_GENERATION\<close>.
\<close>

record ('w, 'x) svc_env =
  en_cf :: adm_config
  en_rep :: "json \<Rightarrow> string"
  en_show :: "service_error \<Rightarrow> string"
  en_clock :: "nat \<Rightarrow> nat \<Rightarrow> time"
  en_owner :: "nat \<Rightarrow> string"
  en_revoker :: "'w revoker option"
  en_airflow :: "'x airflow_call"
  en_lines :: "string \<Rightarrow> service_error + bp_line"
  en_drain :: string
  en_generation :: string
  en_autonomy_revision :: string
  en_airflow_url :: string

record ('w, 'x) factory =
  fc_kernel :: kernel
  fc_world :: 'w
  fc_debt :: "(string \<times> json) list"
  fc_observed :: "(string \<times> time) list"
  fc_tick :: nat
  fc_air :: 'x

type_synonym ('w, 'x, 'a) call = "('w, 'x) factory \<Rightarrow> (service_error + 'a) \<times> ('w, 'x) factory"

abbreviation fc_cells :: "('w, 'x) factory \<Rightarrow> cell_store" where
  "fc_cells f \<equiv> sr_cells (kn_root (fc_kernel f))"

abbreviation fc_adm :: "('w, 'x) factory \<Rightarrow> adm" where
  "fc_adm f \<equiv> sr_adm (kn_root (fc_kernel f))"

abbreviation fc_journal :: "('w, 'x) factory \<Rightarrow> journal" where
  "fc_journal f \<equiv> sr_journal (kn_root (fc_kernel f))"

abbreviation fc_evidence :: "('w, 'x) factory \<Rightarrow> evidence_root" where
  "fc_evidence f \<equiv> sr_evidence (kn_root (fc_kernel f))"

definition with_root :: "(state_root \<Rightarrow> state_root) \<Rightarrow> ('w, 'x) factory \<Rightarrow> ('w, 'x) factory" where
  "with_root g f = f\<lparr>fc_kernel := (fc_kernel f)\<lparr>kn_root := g (kn_root (fc_kernel f))\<rparr>\<rparr>"

section \<open>Calls\<close>

text \<open>One stream of clock readings for the next access.\<close>

definition next_clock :: "('w, 'x) svc_env \<Rightarrow> ('w, 'x, nat \<Rightarrow> time) call" where
  "next_clock env = (\<lambda>f. (Inr (en_clock env (fc_tick f)), f\<lparr>fc_tick := Suc (fc_tick f)\<rparr>))"

definition on_cells ::
  "(cell_store \<times> 'w \<Rightarrow> (cell_error + 'a) \<times> cell_store \<times> 'w) \<Rightarrow> ('w, 'x, 'a) call" where
  "on_cells op = (\<lambda>f. case op (fc_cells f, fc_world f) of
     (r, s, w) \<Rightarrow> (map_sum SCell id r, (with_root (\<lambda>rt. rt\<lparr>sr_cells := s\<rparr>) f)\<lparr>fc_world := w\<rparr>))"

definition on_admission :: "(adm \<Rightarrow> (adm_error + 'a) \<times> adm) \<Rightarrow> ('w, 'x, 'a) call" where
  "on_admission op = (\<lambda>f. case op (fc_adm f) of
     (r, a) \<Rightarrow> (map_sum SAdmission id r, with_root (\<lambda>rt. rt\<lparr>sr_adm := a\<rparr>) f))"

definition on_evidence :: "(evidence_root \<Rightarrow> (evidence_error + 'a) \<times> evidence_root) \<Rightarrow> ('w, 'x, 'a) call" where
  "on_evidence op = (\<lambda>f. case op (fc_evidence f) of
     (r, e) \<Rightarrow> (map_sum SEvidence id r, with_root (\<lambda>rt. rt\<lparr>sr_evidence := e\<rparr>) f))"

definition on_air :: "('x \<Rightarrow> (service_error + 'a) \<times> 'x) \<Rightarrow> ('w, 'x, 'a) call" where
  "on_air op = (\<lambda>f. case op (fc_air f) of (r, x) \<Rightarrow> (r, f\<lparr>fc_air := x\<rparr>))"

definition on_kernel :: "(kernel \<Rightarrow> 'x \<Rightarrow> (kernel_error + 'a) \<times> kernel \<times> 'x) \<Rightarrow> ('w, 'x, 'a) call" where
  "on_kernel op = (\<lambda>f. case op (fc_kernel f) (fc_air f) of
     (r, k, x) \<Rightarrow> (map_sum SKernel id r, f\<lparr>fc_kernel := k, fc_air := x\<rparr>))"

section \<open>Small helpers of the service\<close>

definition LIVE_CELL_STATES :: "string list" where
  "LIVE_CELL_STATES = [''dispatching'', ''queued'', ''running'']"

definition RECONCILE_INTERVAL_S :: real where
  "RECONCILE_INTERVAL_S = 60"

definition SCHEDULE_ACTOR :: string where
  "SCHEDULE_ACTOR = ''airflow-schedule''"

text \<open>\<open>urllib.parse.quote(value, safe="")\<close> on code points below 256, encoded as UTF-8.\<close>

definition unreserved :: "char \<Rightarrow> bool" where
  "unreserved c = (let n = of_char c :: nat in 48 \<le> n \<and> n \<le> 57 \<or> 65 \<le> n \<and> n \<le> 90 \<or> 97 \<le> n \<and> n \<le> 122 \<or> c \<in> set ''_.-~'')"

definition utf8 :: "char \<Rightarrow> nat list" where
  "utf8 c = (let n = of_char c :: nat in if n < 128 then [n] else [192 + n div 64, 128 + n mod 64])"

definition upper_hex :: "nat \<Rightarrow> char" where
  "upper_hex d = (''0123456789ABCDEF'') ! (d mod 16)"

definition seg :: "string \<Rightarrow> string" where
  "seg v = concat (map (\<lambda>c. if unreserved c then [c]
     else concat (map (\<lambda>b. [CHR ''%'', upper_hex (b div 16), upper_hex b]) (utf8 c))) v)"

definition run_path :: "string \<Rightarrow> string option \<Rightarrow> string" where
  "run_path dag run = ''/dags/'' @ seg dag @ (case run of None \<Rightarrow> [] | Some r \<Rightarrow> ''/dagRuns/'' @ seg r)"

definition run_url :: "string \<Rightarrow> string \<Rightarrow> string \<Rightarrow> string" where
  "run_url base dag run = base @ ''/dags/'' @ seg dag @ ''/runs/'' @ seg run"

text \<open>\<open>text(body, key)\<close>: a string that is not blank, within its length, stripped.\<close>

definition text_field :: "string \<Rightarrow> nat \<Rightarrow> json \<Rightarrow> service_error + string" where
  "text_field key max_len v =
     (case v of
        JStr s \<Rightarrow> if py_strip s = [] \<or> length s > max_len then Inl (SValueError key) else Inr (py_strip s)
      | _ \<Rightarrow> Inl (SValueError key))"

definition has_cleanup_debt :: "cell_row \<Rightarrow> bool" where
  "has_cleanup_debt r = (py_truthy (cell_compute r) \<and> \<not> py_truthy (cell_cleanup r) \<and> cell_state r \<in> set TERMINAL_STATES)"

definition nonempty :: "string option \<Rightarrow> bool" where
  "nonempty v = (case v of None \<Rightarrow> False | Some s \<Rightarrow> s \<noteq> [])"

definition airflow_binding :: "cell_row \<Rightarrow> service_error + airflow_binding" where
  "airflow_binding c =
     (case (cell_dag_id c, cell_run_id c) of
        (Some d, Some r) \<Rightarrow>
          if d = [] \<or> r = [] then Inl (SRefused 409 ''Factory Cell is not bound to an authoritative Airflow run'')
          else Inr \<lparr>ab_cell_id = cell_id c, ab_epoch = cell_epoch c, ab_dag_id = d, ab_run_id = r,
                    ab_map_index = cell_map_index c\<rparr>
      | _ \<Rightarrow> Inl (SRefused 409 ''Factory Cell is not bound to an authoritative Airflow run''))"

definition cell_actor :: "string \<Rightarrow> string \<Rightarrow> string" where
  "cell_actor actor work = ''backend:'' @ actor @ '':'' @ work"

definition work_id_for :: "(real \<Rightarrow> string) \<Rightarrow> string \<Rightarrow> json \<Rightarrow> string" where
  "work_id_for fr request desired =
     ''submit_'' @ take 32 (sha256_hex (jdumps True fr (jcanon (JObj [(''request'', JStr request), (''epochs'', desired)]))))"

definition snapshot_digest :: "(json \<Rightarrow> string) \<Rightarrow> json \<Rightarrow> service_error + string" where
  "snapshot_digest rep ord =
     (case jget ''request_digest'' ord of
        None \<Rightarrow> Inl (SKeyError ''request_digest'')
      | Some v \<Rightarrow> Inr (removeprefix (py_str rep v) ''sha256:''))"

definition to_upper :: "char \<Rightarrow> char" where
  "to_upper c = (let n = of_char c :: nat in if 97 \<le> n \<and> n \<le> 122 then char_of (n - 32) else c)"

definition priority_of :: "json \<Rightarrow> service_error + priority" where
  "priority_of v =
     (case v of
        JNull \<Rightarrow> Inr NORMAL
      | JStr s \<Rightarrow>
          (let u = map to_upper (py_strip s) in
           case List.find (\<lambda>p. map to_upper (prio_name p) = u) priorities of
             Some p \<Rightarrow> Inr p
           | None \<Rightarrow> Inl (SValueError ''priority''))
      | _ \<Rightarrow> Inl (SValueError ''priority''))"

section \<open>The Airflow client\<close>

definition MAX_RESPONSE :: nat where
  "MAX_RESPONSE = 16 * 1024 * 1024"

text \<open>
  What \<open>airflow\<close> rests on: the credential holder (asked to forget its token first when its argument is true), one
  HTTP exchange with a bearer token, the environment's fixed token, and the reader of floats. The exchange raises or
  answers a status and the bytes read.
\<close>

record 'x http_layer =
  ht_credential :: "bool \<Rightarrow> 'x \<Rightarrow> (service_error + string option) \<times> 'x"
  ht_exchange :: "string \<Rightarrow> string \<Rightarrow> string option \<Rightarrow> string option \<Rightarrow> 'x \<Rightarrow> (service_error + int \<times> string) \<times> 'x"
  ht_fixed_token :: bool
  ht_base :: string
  ht_floats :: "string \<Rightarrow> real"
  ht_float_text :: "real \<Rightarrow> string"

definition credential :: "'x http_layer \<Rightarrow> bool \<Rightarrow> 'x \<Rightarrow> (service_error + string option) \<times> 'x" where
  "credential ht refresh = ht_credential ht (refresh \<and> \<not> ht_fixed_token ht)"

fun airflow_loop :: "'x http_layer \<Rightarrow> nat \<Rightarrow> nat \<Rightarrow> 'x airflow_call" where
  "airflow_loop ht 0 i method path body x = (Inl (SRefused 401 ''Airflow authentication failed''), x)"
| "airflow_loop ht (Suc n) i method path body x =
     (case credential ht (0 < i) x of
        (Inl e, x1) \<Rightarrow> (Inl e, x1)
      | (Inr token, x1) \<Rightarrow>
          (case ht_exchange ht method (ht_base ht @ ''/api/v2'' @ path) token (map_option (jdumps False (ht_float_text ht)) body) x1 of
             (Inl e, x2) \<Rightarrow> (Inl e, x2)
           | (Inr (status, raw), x2) \<Rightarrow>
               if status = 401 \<and> i = 0 \<and> \<not> ht_fixed_token ht then airflow_loop ht n (Suc i) method path body x2
               else if length raw > MAX_RESPONSE then (Inl (SRefused 502 ''Airflow response exceeds backend limit''), x2)
               else if raw = [] then (Inr (status, JNull), x2)
               else (case jloads (ht_floats ht) raw of
                       None \<Rightarrow> (Inl (SRefused 502 ''Airflow returned invalid JSON''), x2)
                     | Some v \<Rightarrow> (Inr (status, v), x2))))"

definition airflow :: "'x http_layer \<Rightarrow> 'x airflow_call" where
  "airflow ht method path body x = airflow_loop ht 2 0 method path body x"

text \<open>At most one second exchange, and only after a 401 with a token that can be renewed.\<close>

lemma airflow_second_only_after_401:
  assumes "credential ht False x = (Inr t, x1)"
    and "ht_exchange ht m (ht_base ht @ ''/api/v2'' @ p) t (map_option (jdumps False (ht_float_text ht)) b) x1 = (Inr (st, raw), x2)"
    and "st \<noteq> 401 \<or> ht_fixed_token ht"
  shows "snd (airflow ht m p b x) = x2"
  using assms by (auto simp: airflow_def numeral_2_eq_2 split: option.splits)

definition checked_airflow :: "'x airflow_call \<Rightarrow> string \<Rightarrow> string \<Rightarrow> json option \<Rightarrow> 'x \<Rightarrow> (service_error + json) \<times> 'x" where
  "checked_airflow air method path body x =
     (case air method path body x of
        (Inl e, x1) \<Rightarrow> (Inl e, x1)
      | (Inr (status, payload), x1) \<Rightarrow>
          if status \<ge> 300 then
            (Inl (SRefused status (''Airflow rejected '' @ method @ '' (HTTP '' @ int_str status @ '')''
               @ (if method \<noteq> ''GET'' \<and> status \<ge> 500 then ''; mutation outcome may be unknown'' else []))), x1)
          else (Inr payload, x1))"

section \<open>Lines and their fan-out\<close>

text \<open>\<open>str.isdigit\<close> on code points below 256 and \<open>dict.fromkeys\<close>.\<close>

definition py_isdigit :: "string \<Rightarrow> bool" where
  "py_isdigit s = (s \<noteq> [] \<and> list_all (\<lambda>c. let n = of_char c :: nat in 48 \<le> n \<and> n \<le> 57 \<or> n \<in> set [178, 179, 185]) s)"

definition from_keys :: "'a list \<Rightarrow> 'a list" where
  "from_keys xs = rev (remdups (rev xs))"

fun clean_issues :: "string list \<Rightarrow> service_error + string list" where
  "clean_issues [] = Inr []"
| "clean_issues (i # is) =
     (let v = py_strip i in
      if v = [] then clean_issues is
      else case (if py_isdigit v then Inr v else normalize_relative_path v False) of
        Inl (PathError e) \<Rightarrow> Inl (SValueError e)
      | Inr p \<Rightarrow> (case clean_issues is of Inl e \<Rightarrow> Inl e | Inr ps \<Rightarrow> Inr (p # ps)))"

definition job_doc :: "nat \<Rightarrow> string \<Rightarrow> bp_target \<Rightarrow> json" where
  "job_doc idx issue t = JObj [(''issue'', JStr issue), (''repo'', JStr (tg_repo t)), (''dir'', JStr (tg_dir t)),
     (''base_branch'', JStr (tg_branch t)), (''job_idx'', JInt (int idx))]"

text \<open>\<open>Blueprint.jobs\<close> for a run that names its issues: issues times selected targets, numbered in that order.\<close>

definition blueprint_jobs :: "bp_line \<Rightarrow> string list \<Rightarrow> string list \<Rightarrow> service_error + json list" where
  "blueprint_jobs line issues wanted =
     (case clean_issues issues of
        Inl e \<Rightarrow> Inl e
      | Inr cleaned \<Rightarrow>
          (let is = from_keys cleaned;
               targets = (if wanted = [] then bl_targets line else filter (\<lambda>t. tg_repo t \<in> set wanted) (bl_targets line)) in
           if is = [] then Inl (SValueError ''conf.issues'')
           else if wanted \<noteq> [] \<and> \<not> set wanted \<subseteq> set (map tg_repo targets) then Inl (SValueError ''conf.targets'')
           else (let pairs = concat (map (\<lambda>i. map (Pair i) targets) is) in
                 Inr (map (\<lambda>(idx, i, t). job_doc idx i t) (enumerate 0 pairs)))))"

lemma blueprint_jobs_numbered:
  assumes "blueprint_jobs line issues wanted = Inr jobs"
  shows "map (jget ''job_idx'') jobs = map (\<lambda>n. Some (JInt (int n))) [0..<length jobs]"
proof -
  have idx: "map (jget ''job_idx'') (map (\<lambda>(idx, i, t). job_doc idx i t) (enumerate 0 ps))
      = map (\<lambda>n. Some (JInt (int n))) [0..<length ps]" for ps
    by (rule nth_equalityI) (auto simp: nth_enumerate_eq job_doc_def split: prod.splits)
  obtain ps where "jobs = map (\<lambda>(idx, i, t). job_doc idx i t) (enumerate 0 ps)"
    using assms by (auto simp: blueprint_jobs_def Let_def split: sum.splits if_splits)
  then show ?thesis by (simp only: idx length_map length_enumerate)
qed

section \<open>The work order\<close>

definition subscript :: "string \<Rightarrow> json \<Rightarrow> service_error + json" where
  "subscript k v = (case jget k v of None \<Rightarrow> Inl (SKeyError k) | Some x \<Rightarrow> Inr x)"

definition identity_for_job :: "(json \<Rightarrow> string) \<Rightarrow> json \<Rightarrow> service_error + cell_identity" where
  "identity_for_job rep job =
     (case jget ''repo'' job of
        None \<Rightarrow> Inl (SKeyError ''repo'')
      | Some repo \<Rightarrow>
          (case Paths.cell_target rep job of
             Inl (PathError e) \<Rightarrow> Inl (SValueError e)
           | Inr target \<Rightarrow>
               (case jget ''issue'' job of
                  None \<Rightarrow> Inl (SKeyError ''issue'')
                | Some issue \<Rightarrow> Inr \<lparr>id_repo = py_strip (py_str rep repo), id_target = target,
                                    id_issue = py_strip (py_str rep issue)\<rparr>)))"

definition policy_digest_of_job :: "('w, 'x) svc_env \<Rightarrow> string \<Rightarrow> json \<Rightarrow> service_error + string" where
  "policy_digest_of_job env line_name job =
     (case for_factory_job (en_rep env) (en_autonomy_revision env) line_name job of
        Inl (ContractError e) \<Rightarrow> Inl (SValueError e)
      | Inr p \<Rightarrow> (case policy_digest (cf_float (en_cf env)) p of
                   Inl (ContractError e) \<Rightarrow> Inl (SValueError e)
                 | Inr d \<Rightarrow> Inr d))"

definition desired_epoch :: "('w, 'x) svc_env \<Rightarrow> json \<Rightarrow> ('w, 'x, int) call" where
  "desired_epoch env job =
     andthen (lift_result (identity_for_job (en_rep env) job)) (\<lambda>ident.
     tap (\<lambda>f. case get_cell (stable_id ident) (fc_cells f) of
                None \<Rightarrow> 1
              | Some c \<Rightarrow> if cell_state c \<in> set TERMINAL_STATES then cell_epoch c + 1 else cell_epoch c))"

text \<open>One job as the order keeps it, with the digest of its policy; jobs come from \<open>blueprint_jobs\<close>, so every field
  of the subscripts is there.\<close>

definition job_str :: "(json \<Rightarrow> string) \<Rightarrow> string \<Rightarrow> json \<Rightarrow> string" where
  "job_str rep k job = py_str rep (jget_or k (JStr []) job)"

definition order_job :: "('w, 'x) svc_env \<Rightarrow> string \<Rightarrow> json \<Rightarrow> service_error + json" where
  "order_job env line_name job =
     (case policy_digest_of_job env line_name job of
        Inl e \<Rightarrow> Inl e
      | Inr d \<Rightarrow> Inr (JObj [(''job_idx'', jget_or ''job_idx'' (JInt 0) job), (''repo'', JStr (job_str (en_rep env) ''repo'' job)),
          (''issue'', JStr (job_str (en_rep env) ''issue'' job)), (''dir'', JStr (job_str (en_rep env) ''dir'' job)),
          (''base_branch'', JStr (py_str (en_rep env) (jget_or ''base_branch'' (JStr ''main'') job))), (''policy_digest'', JStr d)]))"

definition blueprint_identity :: "('w, 'x) svc_env \<Rightarrow> bp_line \<Rightarrow> service_error + string" where
  "blueprint_identity env line =
     (case policy_digest_for_mapping (cf_float (en_cf env))
        (JObj [(''name'', JStr (bl_name line)), (''version'', JInt (bl_version line)),
               (''stages'', JArr (map JStr (bl_order line))),
               (''targets'', JArr (map (\<lambda>t. JObj [(''repo'', JStr (tg_repo t)), (''dir'', JStr (tg_dir t)),
                  (''base_branch'', JStr (tg_branch t))]) (bl_targets line)))]) of
        Inl (ContractError e) \<Rightarrow> Inl (SValueError e) | Inr d \<Rightarrow> Inr d)"

definition conf_doc :: "string list \<Rightarrow> string list \<Rightarrow> json" where
  "conf_doc issues targets = JObj ((''issues'', JArr (map JStr issues))
     # (if targets = [] then [] else [(''targets'', JArr (map JStr targets))]))"

definition request_doc ::
  "bp_line \<Rightarrow> string \<Rightarrow> json list \<Rightarrow> string list \<Rightarrow> string list \<Rightarrow> string \<Rightarrow> priority \<Rightarrow> string option \<Rightarrow> (string \<times> json) list" where
  "request_doc line identity jobs issues targets actor p run =
     [(''schema_version'', JInt WORK_ORDER_SCHEMA), (''line'', JStr (bl_name line)), (''actor'', JStr actor),
      (''priority'', JStr (prio_name p)), (''issues'', JArr (map JStr issues)), (''targets'', JArr (map JStr targets)),
      (''blueprint'', JObj [(''name'', JStr (bl_name line)), (''version'', JInt (bl_version line)), (''identity'', JStr identity)]),
      (''jobs'', JArr jobs)]
     @ (case run of None \<Rightarrow> [] | Some r \<Rightarrow> [(''airflow_run_id'', JStr r)])"

definition generation_of :: "('w, 'x) svc_env \<Rightarrow> string" where
  "generation_of env = (if en_generation env = [] then ''stable'' else en_generation env)"

text \<open>\<open>_work_order\<close>: the order and the work id its digest and epochs give.\<close>

definition work_order_doc ::
  "('w, 'x) svc_env \<Rightarrow> bp_line \<Rightarrow> json list \<Rightarrow> string list \<Rightarrow> string list \<Rightarrow> string \<Rightarrow> priority \<Rightarrow> string option
     \<Rightarrow> ('w, 'x, string \<times> json) call" where
  "work_order_doc env line jobs issues targets actor p run =
     andthen (lift_result (blueprint_identity env line)) (\<lambda>identity.
     andthen (for_each (\<lambda>job. lift_result (order_job env (bl_name line) job)) jobs) (\<lambda>kept.
     let fr = cf_float (en_cf env);
         request = request_doc line identity kept issues targets actor p run;
         digest = request_digest fr (JObj request) in
     andthen (for_each (\<lambda>job. andthen (desired_epoch env job)
         (\<lambda>e. ret (py_str (en_rep env) (jget_or ''job_idx'' (JInt 0) job), JInt e))) jobs) (\<lambda>desired.
     let work = work_id_for fr digest (JObj desired) in
     ret (work,
          JObj (request @
           [(''request_digest'', JStr digest), (''desired_epochs'', JObj desired), (''conf'', conf_doc issues targets),
            (''generation'', JStr (generation_of env)),
            (''dag_run_id'', JStr (case run of
                Some (c # cs) \<Rightarrow> c # cs
              | _ \<Rightarrow> ''swf__'' @ removeprefix work ''submit_''))])))))"

end
