(* ===== verification/Dispatch.thy ===== *)
theory Dispatch
  imports ServiceCore
begin

text \<open>
  The delivery of admitted work, the middle of \<open>backend/service.py\<close>: binding the members of an order to Factory
  Cells, handing the order to Airflow through the operation journal, recovery and retirement of failed deliveries,
  compensation, the reconciliation of held units with Cell and Airflow truth, redelivery, submission, lifecycle
  transitions and the cancellation of queued work. Each definition follows the method of the same name.
\<close>

section \<open>Accesses\<close>

definition cell_get :: "string \<Rightarrow> ('w, 'x, cell_row) call" where
  "cell_get c = (\<lambda>f. (case get_cell c (fc_cells f) of None \<Rightarrow> Inl (SCell CellKeyError) | Some r \<Rightarrow> Inr r, f))"

definition cell_patch ::
  "('w, 'x) svc_env \<Rightarrow> string \<Rightarrow> int \<Rightarrow> string \<Rightarrow> cell_field list \<Rightarrow> ('w, 'x, cell_row) call" where
  "cell_patch env c e key fs =
     andthen (next_clock env) (\<lambda>ck. on_cells (patch (en_revoker env) c e key fs (ck 0)))"

definition cell_activate :: "('w, 'x) svc_env \<Rightarrow> cell_identity \<Rightarrow> string \<Rightarrow> ('w, 'x, cell_row) call" where
  "cell_activate env ident actor =
     andthen (next_clock env) (\<lambda>ck. on_cells (activate (en_revoker env) ident actor (ck 0)))"

definition evidence_append ::
  "('w, 'x) svc_env \<Rightarrow> string \<Rightarrow> int \<Rightarrow> string \<Rightarrow> json \<Rightarrow> string option \<Rightarrow> trace_context \<Rightarrow> ('w, 'x, json) call" where
  "evidence_append env c e kind payload policy trace =
     andthen (next_clock env) (\<lambda>ck. on_evidence
       (trusted_append (en_rep env) (cf_float (en_cf env)) c e kind payload policy (Some trace) (ck 0)))"

definition adm_claim :: "('w, 'x) svc_env \<Rightarrow> string \<Rightarrow> ('w, 'x, dispatch_intent option) call" where
  "adm_claim env work = andthen (next_clock env) (\<lambda>ck. on_admission (claim_dispatch (en_cf env) work None (ck 0)))"

definition adm_complete :: "('w, 'x) svc_env \<Rightarrow> string \<Rightarrow> string \<Rightarrow> int \<Rightarrow> string \<Rightarrow> ('w, 'x, string list) call" where
  "adm_complete env work cell epoch st =
     andthen (next_clock env) (\<lambda>ck. on_admission (complete (en_cf env) work cell epoch st ck))"

definition adm_cancel :: "('w, 'x) svc_env \<Rightarrow> string \<Rightarrow> string \<Rightarrow> string \<Rightarrow> ('w, 'x, string list) call" where
  "adm_cancel env work reason st =
     andthen (next_clock env) (\<lambda>ck. on_admission (cancel (en_cf env) work reason st ck))"

definition adm_member_epoch :: "('w, 'x) svc_env \<Rightarrow> dispatch_intent \<Rightarrow> int \<Rightarrow> int \<Rightarrow> ('w, 'x, unit) call" where
  "adm_member_epoch env i idx epoch =
     andthen (next_clock env) (\<lambda>ck. on_admission (record_member_epoch (di_work i) idx epoch (di_token i) (ck 0)))"

definition adm_delivered :: "('w, 'x) svc_env \<Rightarrow> dispatch_intent \<Rightarrow> string \<Rightarrow> ('w, 'x, unit) call" where
  "adm_delivered env i run =
     andthen (next_clock env) (\<lambda>ck. on_admission (record_dispatch (di_work i) (di_token i) run (ck 0)))"

definition adm_release :: "('w, 'x) svc_env \<Rightarrow> dispatch_intent \<Rightarrow> string \<Rightarrow> json option \<Rightarrow> ('w, 'x, unit) call" where
  "adm_release env i err ob =
     andthen (next_clock env) (\<lambda>ck. on_admission (release_dispatch (di_work i) (di_token i) err ob (ck 0)))"

definition adm_undeliverable :: "('w, 'x) svc_env \<Rightarrow> string \<Rightarrow> string \<Rightarrow> json option \<Rightarrow> ('w, 'x, unit) call" where
  "adm_undeliverable env work err ob =
     andthen (next_clock env) (\<lambda>ck. on_admission (\<lambda>a. (Inr (), mark_undeliverable work err ob (ck 0) a)))"

definition adm_note :: "('w, 'x) svc_env \<Rightarrow> string \<Rightarrow> string \<Rightarrow> json option \<Rightarrow> ('w, 'x, unit) call" where
  "adm_note env work err ob =
     andthen (next_clock env) (\<lambda>ck. on_admission (\<lambda>a. (Inr (), note_outcome work err ob (ck 0) a)))"

definition adm_assert_lease :: "dispatch_intent \<Rightarrow> ('w, 'x, unit) call" where
  "adm_assert_lease i = on_admission (\<lambda>a. (assert_lease (di_work i) (di_token i) a, a))"

text \<open>\<open>control.mutate\<close> with \<open>replay_safe=True\<close>: the token of the attempt and the clock come with the access.\<close>

definition journaled ::
  "('w, 'x) svc_env \<Rightarrow> op_ref \<Rightarrow> retry_budget option \<Rightarrow> 'x provider \<Rightarrow> 'x reconciler \<Rightarrow> ('w, 'x, json) call" where
  "journaled env ref budget fn rc = (\<lambda>f.
     on_kernel (mutate \<lparr>xc_ref = ref, xc_safe = Some True, xc_budget = budget, xc_digest = None,
                        xc_observe_first = False, xc_owner = en_owner env (fc_tick f)\<rparr> fn (Some rc) (en_clock env (fc_tick f)))
       (f\<lparr>fc_tick := Suc (fc_tick f)\<rparr>))"

text \<open>Dictionaries of the service: an assignment replaces, \<open>pop\<close> removes.\<close>

definition put :: "string \<Rightarrow> 'v \<Rightarrow> (string \<times> 'v) list \<Rightarrow> (string \<times> 'v) list" where
  "put k v kvs = (k, v) # filter (\<lambda>kv. fst kv \<noteq> k) kvs"

definition pop :: "string \<Rightarrow> (string \<times> 'v) list \<Rightarrow> (string \<times> 'v) list" where
  "pop k kvs = filter (\<lambda>kv. fst kv \<noteq> k) kvs"

section \<open>Effects on Airflow\<close>

text \<open>An exception leaves a provider or a reconciler as its text.\<close>

definition unpause_apply :: "('w, 'x) svc_env \<Rightarrow> string \<Rightarrow> 'x provider" where
  "unpause_apply env path x =
     (case checked_airflow (en_airflow env) ''PATCH'' path (Some (JObj [(''is_paused'', JBool False)])) x of
        (Inl e, x1) \<Rightarrow> (Inl (en_show env e), x1)
      | (Inr v, x1) \<Rightarrow> (Inr (if is_jobj v then v else JObj [(''is_paused'', JBool False)]), x1))"

definition unpause_reconcile :: "('w, 'x) svc_env \<Rightarrow> string \<Rightarrow> string \<Rightarrow> 'x reconciler" where
  "unpause_reconcile env line path x =
     (case en_airflow env ''GET'' path None x of
        (Inl e, x1) \<Rightarrow> (Inl (en_show env e), x1)
      | (Inr (status, v), x1) \<Rightarrow>
          (Inr (if status = 200 \<and> is_jobj v then
             (if jget ''is_paused'' v = Some (JBool False)
              then \<lparr>mo_status = OCommitted, mo_result = v, mo_evidence = JObj [(''dag'', JStr line)], mo_detail = Some ''DAG is unpaused''\<rparr>
              else \<lparr>mo_status = DefinitelyAbsent, mo_result = JNull, mo_evidence = JObj [(''dag'', JStr line)],
                    mo_detail = Some ''DAG remains paused''\<rparr>)
           else \<lparr>mo_status = Ambiguous, mo_result = JNull, mo_evidence = JObj [(''dag'', JStr line), (''status'', JInt status)],
                 mo_detail = Some ''DAG state unavailable''\<rparr>), x1))"

definition journal_airflow_unpause :: "('w, 'x) svc_env \<Rightarrow> string \<Rightarrow> int \<Rightarrow> string \<Rightarrow> string \<Rightarrow> ('w, 'x, json) call" where
  "journal_airflow_unpause env cell epoch line path =
     journaled env (build_ref cell epoch ''airflow_unpause'' [line]) None (unpause_apply env path) (unpause_reconcile env line path)"

definition dispatch_apply :: "('w, 'x) svc_env \<Rightarrow> string \<Rightarrow> json \<Rightarrow> 'x provider" where
  "dispatch_apply env path body x =
     (case checked_airflow (en_airflow env) ''POST'' (path @ ''/dagRuns'') (Some body) x of
        (Inl e, x1) \<Rightarrow> (Inl (en_show env e), x1)
      | (Inr v, x1) \<Rightarrow>
          if is_jobj v then (Inr v, x1)
          else (Inl (en_show env (SRefused 502 ''Airflow returned an invalid DAG run document'')), x1))"

definition dispatch_reconcile :: "('w, 'x) svc_env \<Rightarrow> string \<Rightarrow> string \<Rightarrow> 'x reconciler" where
  "dispatch_reconcile env line run x =
     (case en_airflow env ''GET'' (run_path line (Some run)) None x of
        (Inl e, x1) \<Rightarrow> (Inl (en_show env e), x1)
      | (Inr (status, v), x1) \<Rightarrow>
          (let ev = JObj [(''dag_run_id'', JStr run), (''status'', JInt status)] in
           (Inr (if status = 200 \<and> is_jobj v then
                   \<lparr>mo_status = OCommitted, mo_result = v, mo_evidence = ev, mo_detail = Some ''deterministic Airflow run exists''\<rparr>
                 else if status = 404 then
                   \<lparr>mo_status = DefinitelyAbsent, mo_result = JNull, mo_evidence = ev, mo_detail = Some ''deterministic Airflow run is absent''\<rparr>
                 else
                   \<lparr>mo_status = Ambiguous, mo_result = JNull, mo_evidence = ev, mo_detail = Some ''Airflow outcome cannot yet be proven''\<rparr>), x1)))"

definition cancel_apply :: "('w, 'x) svc_env \<Rightarrow> string \<Rightarrow> 'x provider" where
  "cancel_apply env path x =
     (case checked_airflow (en_airflow env) ''PATCH'' path (Some (JObj [(''state'', JStr ''failed'')])) x of
        (Inl e, x1) \<Rightarrow> (Inl (en_show env e), x1)
      | (Inr v, x1) \<Rightarrow> (Inr (if is_jobj v then v else JObj [(''state'', JStr ''failed'')]), x1))"

definition state_text :: "('w, 'x) svc_env \<Rightarrow> json \<Rightarrow> string" where
  "state_text env v = py_str (en_rep env) (py_or (jget0 ''state'' v) (JStr []))"

definition cancel_reconcile :: "('w, 'x) svc_env \<Rightarrow> string \<Rightarrow> string \<Rightarrow> 'x reconciler" where
  "cancel_reconcile env path run x =
     (case en_airflow env ''GET'' path None x of
        (Inl e, x1) \<Rightarrow> (Inl (en_show env e), x1)
      | (Inr (status, v), x1) \<Rightarrow>
          (Inr (if status = 404 then
             \<lparr>mo_status = OCommitted, mo_result = JObj [(''state'', JStr ''absent''), (''dag_run_id'', JStr run)],
              mo_evidence = JObj [(''status'', JInt status), (''dag_run_id'', JStr run)], mo_detail = Some ''managed Airflow run is absent''\<rparr>
           else if status = 200 \<and> is_jobj v then
             (let st = state_text env v; ev = JObj [(''status'', JInt status), (''state'', JStr st), (''dag_run_id'', JStr run)] in
              if st \<in> set [''failed'', ''success'']
              then \<lparr>mo_status = OCommitted, mo_result = v, mo_evidence = ev, mo_detail = Some ''managed Airflow run is terminal''\<rparr>
              else \<lparr>mo_status = DefinitelyAbsent, mo_result = JNull, mo_evidence = ev, mo_detail = Some ''managed Airflow run is still live''\<rparr>)
           else
             \<lparr>mo_status = Ambiguous, mo_result = JNull, mo_evidence = JObj [(''status'', JInt status), (''dag_run_id'', JStr run)],
              mo_detail = Some ''managed Airflow cancellation outcome is unknown''\<rparr>), x1))"

definition journal_airflow_cancel :: "('w, 'x) svc_env \<Rightarrow> cell_row \<Rightarrow> ('w, 'x, json) call" where
  "journal_airflow_cancel env c =
     (case (cell_dag_id c, cell_run_id c) of
        (Some dag, Some run) \<Rightarrow>
          if dag = [] \<or> run = [] then ret (JObj [(''state'', JStr ''no_remote_run'')])
          else
            andthen (journaled env (build_ref (cell_id c) (cell_epoch c) ''airflow_cancel'' [dag, run]) None
                       (cancel_apply env (run_path dag (Some run))) (cancel_reconcile env (run_path dag (Some run)) run))
              (\<lambda>v. ret (if is_jobj v then v else JObj [(''state'', JStr ''failed'')]))
      | _ \<Rightarrow> ret (JObj [(''state'', JStr ''no_remote_run'')]))"

section \<open>Binding the members of an order\<close>

record binding =
  bd_job_idx :: int
  bd_cell :: string
  bd_epoch :: int
  bd_repo :: string
  bd_policy :: string
  bd_generation :: string
  bd_snapshot :: string

definition binding_doc :: "binding \<Rightarrow> json" where
  "binding_doc b = JObj [(''job_idx'', JInt (bd_job_idx b)), (''cell_id'', JStr (bd_cell b)), (''epoch'', JInt (bd_epoch b)),
     (''repo'', JStr (bd_repo b)), (''policy_digest'', JStr (bd_policy b)), (''factory_generation'', JStr (bd_generation b)),
     (''snapshot_digest'', JStr (bd_snapshot b))]"

definition activated_by :: "cell_row \<Rightarrow> string \<Rightarrow> cell_store \<Rightarrow> bool" where
  "activated_by c owner s =
     (case List.find (\<lambda>e. ev_kind e = ''activated'' \<and> ev_epoch e = cell_epoch c) (rev (history (cell_id c) s)) of
        None \<Rightarrow> False
      | Some e \<Rightarrow> jget ''actor'' (ev_payload e) = Some (JStr owner))"

definition adopt_recorded :: "member_row \<Rightarrow> cell_row option \<Rightarrow> service_error + cell_row option" where
  "adopt_recorded m co =
     (case (m_epoch m, co) of
        (Some e, Some c) \<Rightarrow>
          if cell_epoch c = e \<and> cell_state c \<in> set LIVE_CELL_STATES then Inr (Some c)
          else if cell_epoch c > e \<or> cell_state c \<in> set TERMINAL_STATES then
            Inl (SRefused 409 ''Factory Cell moved past the epoch this work order was admitted for'')
          else Inr None
      | _ \<Rightarrow> Inr None)"

definition unrecorded_live :: "member_row \<Rightarrow> cell_row option \<Rightarrow> cell_row option" where
  "unrecorded_live m co =
     (case (m_epoch m, co) of
        (None, Some c) \<Rightarrow> if cell_state c \<in> set LIVE_CELL_STATES then Some c else None
      | _ \<Rightarrow> None)"

definition activate_member ::
  "('w, 'x) svc_env \<Rightarrow> dispatch_intent \<Rightarrow> member_row \<Rightarrow> json \<Rightarrow> string \<Rightarrow> ('w, 'x, cell_row) call" where
  "activate_member env i m job owner =
     andthen (lift_result (identity_for_job (en_rep env) job)) (\<lambda>ident.
     andthen (attempt (cell_activate env ident owner)) (\<lambda>r.
     case r of
       Inl e \<Rightarrow> raise (if e = SCell CellBusy then SRefused 409 (en_show env e) else e)
     | Inr c \<Rightarrow> andthen (adm_member_epoch env i (m_job_idx m) (cell_epoch c)) (\<lambda>_. ret c)))"

definition member_cell ::
  "('w, 'x) svc_env \<Rightarrow> dispatch_intent \<Rightarrow> member_row \<Rightarrow> json \<Rightarrow> string \<Rightarrow> ('w, 'x, cell_row) call" where
  "member_cell env i m job actor =
     (let owner = cell_actor actor (di_work i) in
      andthen (tap (\<lambda>f. get_cell (m_cell m) (fc_cells f))) (\<lambda>co.
      andthen (lift_result (adopt_recorded m co)) (\<lambda>adopted.
      case adopted of
        Some c \<Rightarrow> ret c
      | None \<Rightarrow>
          (case unrecorded_live m co of
             None \<Rightarrow> activate_member env i m job owner
           | Some c \<Rightarrow>
               andthen (tap (\<lambda>f. activated_by c owner (fc_cells f))) (\<lambda>own.
               if own then andthen (adm_member_epoch env i (m_job_idx m) (cell_epoch c)) (\<lambda>_. ret c)
               else activate_member env i m job owner)))))"

definition bind_cell_policy ::
  "('w, 'x) svc_env \<Rightarrow> cell_row \<Rightarrow> string \<Rightarrow> string \<Rightarrow> string \<Rightarrow> ('w, 'x, cell_row) call" where
  "bind_cell_policy env c key policy generation =
     andthen (check_that (cell_policy_digest c \<in> set [None, Some policy])
                (SRefused 409 ''active Factory Cell already carries a different policy digest'')) (\<lambda>_.
     andthen (attempt (cell_patch env (cell_id c) (cell_epoch c) key [F_policy_digest (Some policy), F_generation (Some generation)])) (\<lambda>r.
     andthen (case r of
                Inr b \<Rightarrow> ret b
              | Inl e \<Rightarrow> if e = SCell DuplicateOperation then cell_get (cell_id c) else raise e) (\<lambda>b.
     andthen (check_that (cell_policy_digest b = Some policy) (SRefused 409 ''active Factory Cell policy differs from retried submission''))
       (\<lambda>_. ret b))))"

fun jobs_by_index :: "json list \<Rightarrow> service_error + (int \<times> json) list" where
  "jobs_by_index [] = Inr []"
| "jobs_by_index (j # js) =
     (case jget ''job_idx'' j of
        None \<Rightarrow> Inl (SKeyError ''job_idx'')
      | Some v \<Rightarrow>
          (case py_int v of
             None \<Rightarrow> Inl (SValueError ''job_idx'')
           | Some n \<Rightarrow> (case jobs_by_index js of Inl e \<Rightarrow> Inl e | Inr kvs \<Rightarrow> Inr ((n, j) # kvs))))"

definition order_jobs :: "json \<Rightarrow> service_error + (int \<times> json) list" where
  "order_jobs ord = (case jget ''jobs'' ord of Some (JArr js) \<Rightarrow> jobs_by_index js | _ \<Rightarrow> Inl (SKeyError ''jobs''))"

definition bind_member ::
  "('w, 'x) svc_env \<Rightarrow> dispatch_intent \<Rightarrow> (int \<times> json) list \<Rightarrow> string \<Rightarrow> member_row \<Rightarrow> ('w, 'x, binding) call" where
  "bind_member env i jobs actor m =
     (let ord = o_payload (di_order i);
          generation = py_str (en_rep env) (py_or (jget0 ''generation'' ord) (JStr ''stable'')) in
      case map_of (rev jobs) (m_job_idx m) of
        None \<Rightarrow> raise (SRefused 500 ''work order member has no job in its immutable payload'')
      | Some job \<Rightarrow>
          andthen (lift_result (subscript ''policy_digest'' job)) (\<lambda>pd.
          let policy = py_str (en_rep env) pd in
          andthen (member_cell env i m job actor) (\<lambda>c0.
          andthen (bind_cell_policy env c0 (''policy:'' @ di_work i @ '':'' @ int_str (m_job_idx m)) policy generation) (\<lambda>c.
          andthen (lift_result (snapshot_digest (en_rep env) ord)) (\<lambda>sd.
          ret \<lparr>bd_job_idx = m_job_idx m, bd_cell = cell_id c, bd_epoch = cell_epoch c, bd_repo = m_repo m, bd_policy = policy,
               bd_generation = (case cell_generation c of Some (g # gs) \<Rightarrow> g # gs | _ \<Rightarrow> generation), bd_snapshot = sd\<rparr>)))))"

definition bind_members ::
  "('w, 'x) svc_env \<Rightarrow> dispatch_intent \<Rightarrow> (int \<times> json) list \<Rightarrow> string \<Rightarrow> ('w, 'x, binding list) call" where
  "bind_members env i jobs actor = for_each (bind_member env i jobs actor) (di_members i)"

definition bind_key :: "string \<Rightarrow> binding \<Rightarrow> string" where
  "bind_key run b = ''airflow-bind:'' @ run @ '':'' @ int_str (bd_job_idx b)"

definition bind_evidence :: "('w, 'x) svc_env \<Rightarrow> string \<Rightarrow> string \<Rightarrow> string \<Rightarrow> binding \<Rightarrow> ('w, 'x, unit) call" where
  "bind_evidence env line run actor b =
     (let trace = trace_for_cell (bd_cell b) (bd_epoch b) ''dispatch'' run;
          envelope = \<lparr>me_cell_id = bd_cell b, me_epoch = bd_epoch b, me_operation_key = bind_key run b,
                      me_policy_digest = bd_policy b, me_trace_id = tc_trace_id trace, me_actor = actor\<rparr> in
      andthen (next_clock env) (\<lambda>ck.
      andthen (on_evidence (mutation_evidence (en_rep env) (cf_float (en_cf env)) envelope ''airflow_dispatch''
         (JObj [(''dag_id'', JStr line), (''run_id'', JStr run), (''map_index'', JInt (bd_job_idx b))]) (ck 0))) (\<lambda>_. ret ())))"

definition bind_run_one :: "('w, 'x) svc_env \<Rightarrow> string \<Rightarrow> string \<Rightarrow> string \<Rightarrow> binding \<Rightarrow> ('w, 'x, unit) call" where
  "bind_run_one env line run actor b =
     andthen (cell_get (bd_cell b)) (\<lambda>current.
     if cell_state current = ''dispatching'' then
       andthen (attempt (cell_patch env (bd_cell b) (bd_epoch b) (bind_key run b)
          [F_state ''queued'', F_dag_id (Some line), F_run_id (Some run), F_map_index (Some (bd_job_idx b))])) (\<lambda>r.
       case r of
         Inr _ \<Rightarrow> bind_evidence env line run actor b
       | Inl e \<Rightarrow> if e = SCell DuplicateOperation then ret () else raise e)
     else check_that (cell_run_id current \<in> set [None, Some run]) (SRefused 409 ''Factory Cell is bound to a different Airflow run''))"

definition bind_run :: "('w, 'x) svc_env \<Rightarrow> binding list \<Rightarrow> string \<Rightarrow> string \<Rightarrow> string \<Rightarrow> ('w, 'x, unit) call" where
  "bind_run env bs line run actor = andthen (for_each (bind_run_one env line run actor) bs) (\<lambda>_. ret ())"

section \<open>Failed deliveries\<close>

definition cancel_activation :: "('w, 'x) svc_env \<Rightarrow> string \<Rightarrow> member_row \<Rightarrow> ('w, 'x, string list) call" where
  "cancel_activation env tag m =
     (case m_epoch m of
        None \<Rightarrow> ret []
      | Some e \<Rightarrow>
          andthen (tap (\<lambda>f. get_cell (m_cell m) (fc_cells f))) (\<lambda>co.
          case co of
            None \<Rightarrow> ret []
          | Some c \<Rightarrow>
              if cell_epoch c \<noteq> e \<or> cell_state c \<notin> set LIVE_CELL_STATES then ret []
              else if nonempty (cell_run_id c) then ret []
              else andthen (attempt (cell_patch env (m_cell m) e (tag @ '':'' @ int_str (m_job_idx m)) [F_state ''cancelled''])) (\<lambda>r.
                case r of
                  Inr _ \<Rightarrow> ret [m_cell m]
                | Inl er \<Rightarrow> if er = SCell DuplicateOperation \<or> er = SCell StaleEpoch then ret [] else raise er)))"

definition cancel_activations :: "('w, 'x) svc_env \<Rightarrow> string \<Rightarrow> string \<Rightarrow> ('w, 'x, string list) call" where
  "cancel_activations env work tag =
     andthen (tap (\<lambda>f. members_of work (fc_adm f))) (\<lambda>ms.
     andthen (for_each (cancel_activation env tag) ms) (\<lambda>cs. ret (concat cs)))"

definition compensate :: "('w, 'x) svc_env \<Rightarrow> dispatch_intent \<Rightarrow> string \<Rightarrow> ('w, 'x, unit) call" where
  "compensate env i detail =
     andthen (cancel_activations env (di_work i) (''compensate:'' @ di_work i @ '':'' @ int_str (di_attempt i))) (\<lambda>_.
     andthen (adm_cancel env (di_work i) (''activation_failed: '' @ detail) ''failed'') (\<lambda>_. ret ()))"

definition observe_dispatch :: "'x reconciler option \<Rightarrow> 'x \<Rightarrow> mutation_outcome \<times> 'x" where
  "observe_dispatch ob x =
     (case ob of
        None \<Rightarrow> (\<lparr>mo_status = Ambiguous, mo_result = JNull, mo_evidence = JNull, mo_detail = Some ''no reconciler for this dispatch''\<rparr>, x)
      | Some rc \<Rightarrow>
          (case rc x of
             (Inl e, x1) \<Rightarrow> (\<lparr>mo_status = Ambiguous, mo_result = JNull, mo_evidence = JNull, mo_detail = Some (take 512 e)\<rparr>, x1)
           | (Inr out, x1) \<Rightarrow> (out, x1)))"

definition exhausted_text :: "dispatch_intent \<Rightarrow> string \<Rightarrow> string" where
  "exhausted_text i detail = ''undeliverable after '' @ int_str (di_attempt i) @ '' attempts: '' @ detail"

definition retire_dispatch ::
  "('w, 'x) svc_env \<Rightarrow> dispatch_intent \<Rightarrow> string \<Rightarrow> bool \<Rightarrow> 'x reconciler option \<Rightarrow> ('w, 'x, unit) call" where
  "retire_dispatch env i detail local_only ob =
     (if local_only then compensate env i detail
      else
        andthen (on_air (\<lambda>x. case observe_dispatch ob x of (out, x1) \<Rightarrow> (Inr out, x1))) (\<lambda>out.
        if mo_status out = DefinitelyAbsent then compensate env i (exhausted_text i detail)
        else adm_undeliverable env (di_work i) (exhausted_text i detail)
          (Some (JObj [(''remote'', JStr (if mo_status out = Ambiguous then ''unknown'' else status_str (mo_status out))),
             (''detail'', JStr (take 512 (case mo_detail out of Some (c # cs) \<Rightarrow> c # cs | _ \<Rightarrow> detail))),
             (''evidence'', mo_evidence out)]))))"

definition recover_dispatch ::
  "('w, 'x) svc_env \<Rightarrow> dispatch_intent \<Rightarrow> service_error \<Rightarrow> bool \<Rightarrow> 'x reconciler option \<Rightarrow> ('w, 'x, unit) call" where
  "recover_dispatch env i err local_only ob =
     (let detail = take 2000 (en_show env err);
          observation = (if local_only then None else Some (JObj [(''remote'', JStr ''unknown''), (''detail'', JStr (take 512 detail))])) in
      andthen (attempt
        (andthen (tap (\<lambda>f. attempts_exhausted (di_work i) (fc_adm f))) (\<lambda>exhausted.
         if exhausted then andthen (adm_assert_lease i) (\<lambda>_. retire_dispatch env i detail local_only ob)
         else adm_release env i detail observation))) (\<lambda>r.
      case r of
        Inr _ \<Rightarrow> ret ()
      | Inl e \<Rightarrow> if e = SAdmission DispatchLeaseLost then adm_note env (di_work i) detail observation else raise e))"

section \<open>One delivery\<close>

definition attached_run :: "('w, 'x) svc_env \<Rightarrow> string \<Rightarrow> string \<Rightarrow> ('w, 'x, json) call" where
  "attached_run env dag run =
     andthen (on_air (en_airflow env ''GET'' (run_path dag (Some run)) None)) (\<lambda>(status, v).
     if status = 404 then raise (SRefused 409 ''scheduled Airflow run does not exist'')
     else if status \<noteq> 200 \<or> \<not> is_jobj v then raise (SControlError (''Airflow run state unavailable (HTTP '' @ int_str status @ '')''))
     else if jget ''run_type'' v \<noteq> Some (JStr ''scheduled'') then
       raise (SRefused 409 ''only an Airflow-scheduled run can attach to a work order'')
     else (let st = py_str (en_rep env) (jget0 ''state'' v) in
           if st \<notin> set [''queued'', ''running''] then raise (SRefused 409 (''scheduled Airflow run is already '' @ st)) else ret v))"

fun is_refused :: "service_error \<Rightarrow> bool" where
  "is_refused (SRefused _ _) = True"
| "is_refused _ = False"

text \<open>The scheduled run an order attaches to is asked for before any Cell is activated.\<close>

definition check_attached :: "('w, 'x) svc_env \<Rightarrow> dispatch_intent \<Rightarrow> string \<Rightarrow> string option \<Rightarrow> ('w, 'x, unit) call" where
  "check_attached env i line attached =
     (case attached of
        None \<Rightarrow> ret ()
      | Some run \<Rightarrow>
          andthen (attempt (attached_run env line run)) (\<lambda>r.
          case r of
            Inr _ \<Rightarrow> ret ()
          | Inl e \<Rightarrow>
              if is_refused e then
                andthen (adm_assert_lease i) (\<lambda>_. andthen (compensate env i (en_show env e)) (\<lambda>_. raise e))
              else andthen (recover_dispatch env i e True None) (\<lambda>_. raise e)))"

definition bind_or_recover ::
  "('w, 'x) svc_env \<Rightarrow> dispatch_intent \<Rightarrow> (int \<times> json) list \<Rightarrow> string \<Rightarrow> ('w, 'x, binding list) call" where
  "bind_or_recover env i jobs actor =
     andthen (attempt (bind_members env i jobs actor)) (\<lambda>r.
     case r of Inr bs \<Rightarrow> ret bs | Inl e \<Rightarrow> andthen (recover_dispatch env i e True None) (\<lambda>_. raise e))"

definition run_conf :: "json \<Rightarrow> binding list \<Rightarrow> string \<Rightarrow> string \<Rightarrow> json" where
  "run_conf conf bs work actor =
     (case conf of
        JObj kvs \<Rightarrow> JObj (filter (\<lambda>kv. fst kv \<notin> set [''_factory_cells'', ''_factory_submission_id'', ''_factory_actor'']) kvs
          @ [(''_factory_cells'', JArr (map binding_doc bs)), (''_factory_submission_id'', JStr work), (''_factory_actor'', JStr actor)])
      | v \<Rightarrow> v)"

text \<open>The Airflow POST through the journal; its outcome, if unknown, is left to the observation.\<close>

definition send_or_recover ::
  "('w, 'x) svc_env \<Rightarrow> dispatch_intent \<Rightarrow> string \<Rightarrow> binding \<Rightarrow> string \<Rightarrow> json \<Rightarrow> ('w, 'x, json) call" where
  "send_or_recover env i line authority run conf =
     (let path = run_path line None;
          body = JObj [(''dag_run_id'', JStr run), (''logical_date'', JNull), (''conf'', conf)];
          ref = build_ref (bd_cell authority) (bd_epoch authority) ''airflow_dispatch'' [di_work i];
          rc = dispatch_reconcile env line run in
      andthen (attempt
        (andthen (journal_airflow_unpause env (bd_cell authority) (bd_epoch authority) line path) (\<lambda>_.
         journaled env ref (Some \<lparr>rb_max_attempts = MAX_DISPATCH_ATTEMPTS, rb_base_delay = 1, rb_max_delay = 30\<rparr>)
           (dispatch_apply env path body) rc))) (\<lambda>r.
      case r of Inr v \<Rightarrow> ret v | Inl e \<Rightarrow> andthen (recover_dispatch env i e False (Some rc)) (\<lambda>_. raise e)))"

definition first_authority :: "binding list \<Rightarrow> service_error + binding" where
  "first_authority bs = (case sort_key bd_cell bs of [] \<Rightarrow> Inl (SValueError ''bindings'') | b # _ \<Rightarrow> Inr b)"

definition answered_run :: "('w, 'x) svc_env \<Rightarrow> json \<Rightarrow> string \<Rightarrow> string" where
  "answered_run env v run =
     py_str (en_rep env) (py_or (jget0 ''dag_run_id'' v) (py_or (jget0 ''run_id'' v) (JStr run)))"

definition dispatch_intent_call :: "('w, 'x) svc_env \<Rightarrow> dispatch_intent \<Rightarrow> ('w, 'x, string) call" where
  "dispatch_intent_call env i =
     (let ord = o_payload (di_order i); rep = en_rep env in
      andthen (lift_result (subscript ''line'' ord)) (\<lambda>lv.
      andthen (lift_result (subscript ''actor'' ord)) (\<lambda>av.
      andthen (lift_result (order_jobs ord)) (\<lambda>jobs.
      let line = py_str rep lv; actor = py_str rep av;
          attached = (case jget0 ''airflow_run_id'' ord of JNull \<Rightarrow> None | v \<Rightarrow> Some (py_str rep v)) in
      andthen (check_attached env i line attached) (\<lambda>_.
      andthen (bind_or_recover env i jobs actor) (\<lambda>bs.
      case attached of
        Some run \<Rightarrow>
          andthen (bind_run env bs line run actor) (\<lambda>_. andthen (adm_delivered env i run) (\<lambda>_. ret run))
      | None \<Rightarrow>
          andthen (lift_result (first_authority bs)) (\<lambda>authority.
          andthen (lift_result (subscript ''conf'' ord)) (\<lambda>conf.
          andthen (lift_result (subscript ''dag_run_id'' ord)) (\<lambda>rv.
          let dag_run = py_str rep rv in
          andthen (send_or_recover env i line authority dag_run (run_conf conf bs (di_work i) actor)) (\<lambda>v.
          let run = answered_run env v dag_run in
          andthen (bind_run env bs line run actor) (\<lambda>_.
          andthen (adm_delivered env i run) (\<lambda>_. ret run))))))))))))"

definition deliver :: "('w, 'x) svc_env \<Rightarrow> string \<Rightarrow> ('w, 'x, string option) call" where
  "deliver env work =
     andthen (adm_claim env work) (\<lambda>io.
     case io of None \<Rightarrow> ret None | Some i \<Rightarrow> andthen (dispatch_intent_call env i) (\<lambda>run. ret (Some run)))"

section \<open>Reconciliation and redelivery\<close>

definition UNANSWERED :: string where
  "UNANSWERED = ''unanswered''"

definition note_debt :: "string \<Rightarrow> json \<Rightarrow> ('w, 'x, unit) call" where
  "note_debt cell v = local (\<lambda>f. f\<lparr>fc_debt := put cell v (fc_debt f)\<rparr>)"

definition clear_debt :: "string \<Rightarrow> ('w, 'x, unit) call" where
  "clear_debt cell = local (\<lambda>f. f\<lparr>fc_debt := pop cell (fc_debt f)\<rparr>)"

definition debt_doc :: "string \<Rightarrow> string \<Rightarrow> string \<Rightarrow> json" where
  "debt_doc work run detail = JObj [(''work_id'', JStr work), (''run_id'', JStr run), (''detail'', JStr detail)]"

definition too_early :: "time \<Rightarrow> cell_row \<Rightarrow> ('w, 'x) factory \<Rightarrow> bool" where
  "too_early now c f =
     (now - max (cell_updated_at c) (case map_of (fc_observed f) (cell_id c) of None \<Rightarrow> 0 | Some t \<Rightarrow> t) < RECONCILE_INTERVAL_S)"

text \<open>How a closed run ends its Cell: the fenced patch a callback would have made, and its evidence.\<close>

definition adopt_run_end :: "('w, 'x) svc_env \<Rightarrow> cell_row \<Rightarrow> string \<Rightarrow> string \<Rightarrow> string \<Rightarrow> ('w, 'x, string option) call" where
  "adopt_run_end env c run run_state outcome =
     andthen (clear_debt (cell_id c)) (\<lambda>_.
     let key = ''airflow-reconcile:'' @ run @ '':'' @ outcome in
     andthen (attempt (cell_patch env (cell_id c) (cell_epoch c) key [F_state outcome])) (\<lambda>r.
     if r = Inl (SCell StaleEpoch) then ret None
     else
       andthen (case r of Inr u \<Rightarrow> ret u | Inl e \<Rightarrow> if e = SCell DuplicateOperation then ret c else raise e) (\<lambda>u.
       andthen (evidence_append env (cell_id c) (cell_epoch c) ''lifecycle_transition''
          (JObj [(''from'', JStr (cell_state c)), (''requested'', JStr outcome), (''to'', JStr (cell_state u)),
            (''reason'', JStr (''Airflow run '' @ (if run_state = [] then ''absent'' else run_state) @ ''; the worker's report never arrived'')),
            (''dag_run_id'', JStr run)])
          (cell_policy_digest u) (trace_for_cell (cell_id c) (cell_epoch c) ''lifecycle'' key)) (\<lambda>_.
       ret (Some outcome)))))"

definition settle_lost_report :: "('w, 'x) svc_env \<Rightarrow> string \<Rightarrow> cell_row \<Rightarrow> ('w, 'x, string option) call" where
  "settle_lost_report env work c =
     (let dag = (case cell_dag_id c of None \<Rightarrow> [] | Some d \<Rightarrow> d); run = (case cell_run_id c of None \<Rightarrow> [] | Some r \<Rightarrow> r) in
      andthen (next_clock env) (\<lambda>ck.
      andthen (tap (too_early (ck 0) c)) (\<lambda>early.
      if dag = [] \<or> early then ret None
      else
        andthen (local (\<lambda>f. f\<lparr>fc_observed := put (cell_id c) (ck 0) (fc_observed f)\<rparr>)) (\<lambda>_.
        andthen (attempt (on_air (en_airflow env ''GET'' (run_path dag (Some run)) None))) (\<lambda>r.
        case r of
          Inl e \<Rightarrow> andthen (note_debt (cell_id c) (debt_doc work run (take 512 (en_show env e)))) (\<lambda>_. ret (Some UNANSWERED))
        | Inr (status, v) \<Rightarrow>
            (let run_state = (if is_jobj v then state_text env v else []) in
             if status = 404 then adopt_run_end env c run run_state ''cancelled''
             else if status = 200 \<and> run_state \<in> set [''success'', ''failed''] then adopt_run_end env c run run_state run_state
             else if status = 200 \<and> run_state \<noteq> [] then andthen (clear_debt (cell_id c)) (\<lambda>_. ret None)
             else andthen (note_debt (cell_id c) (debt_doc work run (''HTTP '' @ int_str status))) (\<lambda>_. ret (Some UNANSWERED))))))))"

text \<open>What one held membership is owed: an outcome or nothing, and whether Airflow is still answering.\<close>

definition held_outcome ::
  "('w, 'x) svc_env \<Rightarrow> bool \<Rightarrow> string \<Rightarrow> string \<Rightarrow> int \<Rightarrow> ('w, 'x, string option \<times> bool) call" where
  "held_outcome env answering work cell epoch =
     andthen (tap (\<lambda>f. get_cell cell (fc_cells f))) (\<lambda>co.
     case co of
       None \<Rightarrow> ret (Some ''cancelled'', answering)
     | Some c \<Rightarrow>
         if cell_epoch c > epoch then ret (Some ''cancelled'', answering)
         else if cell_epoch c \<noteq> epoch then ret (None, answering)
         else if cell_state c \<in> set TERMINAL_STATES then ret (Some (cell_state c), answering)
         else if nonempty (cell_run_id c) \<and> answering then
           andthen (settle_lost_report env work c) (\<lambda>st.
           ret (case st of Some s \<Rightarrow> if s \<in> set TERMINAL_STATES then Some s else None | None \<Rightarrow> None, st \<noteq> Some UNANSWERED))
         else if nonempty (cell_run_id c) then
           andthen (note_debt cell (JObj [(''work_id'', JStr work), (''detail'', JStr ''Airflow did not answer'')])) (\<lambda>_. ret (None, answering))
         else ret (None, answering))"

fun reconcile_loop ::
  "('w, 'x) svc_env \<Rightarrow> bool \<Rightarrow> (string \<times> string \<times> int) list \<Rightarrow> ('w, 'x, string list) call" where
  "reconcile_loop env answering [] = ret []"
| "reconcile_loop env answering ((work, cell, epoch) # ms) =
     andthen (held_outcome env answering work cell epoch) (\<lambda>(outcome, answering').
     case outcome of
       None \<Rightarrow> reconcile_loop env answering' ms
     | Some st \<Rightarrow>
         andthen (attempt (adm_complete env work cell epoch st)) (\<lambda>r.
         andthen (reconcile_loop env answering' ms) (\<lambda>rest.
         ret (case r of Inl _ \<Rightarrow> rest | Inr _ \<Rightarrow> work # rest))))"

definition reconcile_held_units :: "('w, 'x) svc_env \<Rightarrow> int \<Rightarrow> ('w, 'x, string list) call" where
  "reconcile_held_units env limit =
     andthen (tap (\<lambda>f. held_memberships limit (fc_adm f))) (reconcile_loop env True)"

definition resume_one :: "('w, 'x) svc_env \<Rightarrow> string \<Rightarrow> ('w, 'x, json list) call" where
  "resume_one env work =
     andthen (adm_claim env work) (\<lambda>io.
     case io of
       None \<Rightarrow> ret []
     | Some i \<Rightarrow>
         andthen (attempt (dispatch_intent_call env i)) (\<lambda>r.
         ret [case r of
           Inl e \<Rightarrow> JObj [(''work_id'', JStr work), (''dispatched'', JBool False), (''detail'', JStr (take 512 (en_show env e)))]
         | Inr run \<Rightarrow> JObj [(''work_id'', JStr work), (''dispatched'', JBool True), (''run_id'', JStr run)]]))"

fun resume_rounds :: "('w, 'x) svc_env \<Rightarrow> int \<Rightarrow> nat \<Rightarrow> string list \<Rightarrow> ('w, 'x, json list) call" where
  "resume_rounds env limit 0 seen = ret []"
| "resume_rounds env limit (Suc n) seen =
     andthen (next_clock env) (\<lambda>ck.
     andthen (tap (\<lambda>f. filter (\<lambda>w. w \<notin> set seen) (pending_dispatch limit (ck 0) (fc_adm f)))) (\<lambda>batch.
     if batch = [] then ret []
     else andthen (for_each (resume_one env) batch) (\<lambda>rows.
          andthen (resume_rounds env limit n (seen @ batch)) (\<lambda>rest. ret (concat rows @ rest)))))"

definition resume_dispatch :: "('w, 'x) svc_env \<Rightarrow> int \<Rightarrow> int \<Rightarrow> ('w, 'x, json list) call" where
  "resume_dispatch env limit rounds =
     andthen (reconcile_held_units env 200) (\<lambda>_. resume_rounds env limit (nat (max 1 rounds)) [])"

section \<open>Submission\<close>

definition LINE_NAME :: "string \<Rightarrow> bool" where
  "LINE_NAME s = (let word = (\<lambda>c. let n = of_char c :: nat in 48 \<le> n \<and> n \<le> 57 \<or> 65 \<le> n \<and> n \<le> 90 \<or> 97 \<le> n \<and> n \<le> 122) in
     case s of [] \<Rightarrow> False | c # cs \<Rightarrow> word c \<and> length cs \<le> 127 \<and> list_all (\<lambda>d. word d \<or> d \<in> set ''_-'') cs)"

definition installed_line :: "('w, 'x) svc_env \<Rightarrow> string \<Rightarrow> service_error + bp_line" where
  "installed_line env name = (if LINE_NAME name then en_lines env name else Inl (SValueError ''line must be an installed blueprint name''))"

text \<open>\<open>capabilities()["mutation_ready"]\<close>: compatible stores, no restore that waits for validation, not draining.\<close>

definition draining :: "('w, 'x) svc_env \<Rightarrow> bool" where
  "draining env = (map to_lower (en_drain env) \<in> set [''1'', ''true'', ''yes''])"

definition schema_compatible :: "state_root \<Rightarrow> bool" where
  "schema_compatible r = (case assert_compatible False (sr_files r) (sr_evidence_dir r) of Inl _ \<Rightarrow> False | Inr _ \<Rightarrow> True)"

definition storage_authoritative :: "('w, 'x, bool) call" where
  "storage_authoritative = (\<lambda>f.
     case kn_gate (fc_kernel f) of
       None \<Rightarrow> (Inr True, f)
     | Some g \<Rightarrow> (case gate_state (kn_root (fc_kernel f)) g of
         (r, g1) \<Rightarrow> (case r of Inl e \<Rightarrow> Inl (SRestore e) | Inr st \<Rightarrow> Inr (st \<noteq> GATE_PENDING),
                    f\<lparr>fc_kernel := (fc_kernel f)\<lparr>kn_gate := Some g1\<rparr>\<rparr>)))"

definition mutation_ready :: "('w, 'x) svc_env \<Rightarrow> ('w, 'x, bool) call" where
  "mutation_ready env =
     andthen (tap (\<lambda>f. schema_compatible (kn_root (fc_kernel f)))) (\<lambda>sc.
     andthen storage_authoritative (\<lambda>sa. ret (sa \<and> sc \<and> \<not> draining env)))"

fun json_strings :: "json list \<Rightarrow> string list option" where
  "json_strings [] = Some []"
| "json_strings (JStr s # vs) = map_option ((#) s) (json_strings vs)"
| "json_strings (_ # vs) = None"

definition issues_field :: "json \<Rightarrow> service_error + string list" where
  "issues_field v =
     (case v of
        JArr vs \<Rightarrow>
          if vs = [] \<or> length vs > 1000 then Inl (SValueError ''issues must contain between 1 and 1000 references'')
          else (case json_strings vs of
                  None \<Rightarrow> Inl (SValueError ''issue references must be nonempty strings of at most 128 characters'')
                | Some is \<Rightarrow>
                    if list_ex (\<lambda>i. py_strip i = [] \<or> length i > 128) is then
                      Inl (SValueError ''issue references must be nonempty strings of at most 128 characters'')
                    else if \<not> distinct (map py_strip is) then Inl (SValueError ''duplicate issue references are not allowed'')
                    else Inr (map py_strip is))
      | _ \<Rightarrow> Inl (SValueError ''issues must contain between 1 and 1000 references''))"

definition targets_field :: "json \<Rightarrow> service_error + string list" where
  "targets_field v =
     (case v of
        JArr vs \<Rightarrow> (case json_strings vs of None \<Rightarrow> Inl (SValueError ''targets'') | Some ts \<Rightarrow> Inr ts)
      | _ \<Rightarrow> Inl (SValueError ''targets''))"

definition actor_field :: "('w, 'x) svc_env \<Rightarrow> json \<Rightarrow> service_error + string" where
  "actor_field env v =
     (let a = py_strip (py_str (en_rep env) (py_or v (JStr ''operator''))) in
      if a = [] \<or> length a > 128 then Inl (SValueError ''actor'') else Inr a)"

definition run_field :: "string \<Rightarrow> json \<Rightarrow> service_error + string option" where
  "run_field actor v =
     (if v = JNull then Inr None
      else case text_field ''airflow_run_id'' 250 v of
        Inl e \<Rightarrow> Inl e
      | Inr r \<Rightarrow> if actor \<noteq> SCHEDULE_ACTOR then Inl (SValueError ''airflow_run_id is reserved for Airflow-scheduled runs'') else Inr (Some r))"

definition member_spec_of :: "('w, 'x) svc_env \<Rightarrow> json \<Rightarrow> service_error + member_spec" where
  "member_spec_of env job =
     (case identity_for_job (en_rep env) job of
        Inl e \<Rightarrow> Inl e
      | Inr ident \<Rightarrow>
          Inr \<lparr>ms_job_idx = (case jget_or ''job_idx'' (JInt 0) job of JInt n \<Rightarrow> n | _ \<Rightarrow> 0),
               ms_repo = job_str (en_rep env) ''repo'' job, ms_cell = stable_id ident\<rparr>)"

definition member_doc :: "('w, 'x) svc_env \<Rightarrow> json \<Rightarrow> member_row \<Rightarrow> ('w, 'x, json) call" where
  "member_doc env ord m =
     andthen (cell_get (m_cell m)) (\<lambda>c.
     andthen (lift_result (snapshot_digest (en_rep env) ord)) (\<lambda>sd.
     ret (JObj [(''job_idx'', JInt (m_job_idx m)), (''cell_id'', JStr (m_cell m)), (''epoch'', jint_opt (m_epoch m)),
        (''repo'', JStr (m_repo m)), (''policy_digest'', jopt (cell_policy_digest c)),
        (''factory_generation'', jopt (cell_generation c)), (''snapshot_digest'', JStr sd)])))"

definition work_document :: "('w, 'x) svc_env \<Rightarrow> string \<Rightarrow> ('w, 'x, json) call" where
  "work_document env work =
     andthen (tap (\<lambda>f. work_order work (fc_adm f))) (\<lambda>oo.
     case oo of
       None \<Rightarrow> raise (SAdmission AdmKeyError)
     | Some orow \<Rightarrow>
         (let ord = o_payload orow; rep = en_rep env in
          andthen (tap (\<lambda>f. members_of work (fc_adm f))) (\<lambda>ms.
          andthen (tap (\<lambda>f. Option.bind (dispatch_of work (fc_adm f)) dr_dag_run)) (\<lambda>dag_run.
          andthen (tap (\<lambda>f. state_of work (fc_adm f))) (\<lambda>st.
          andthen (case dag_run of Some (c # cs) \<Rightarrow> ret (c # cs)
                   | _ \<Rightarrow> andthen (lift_result (subscript ''dag_run_id'' ord)) (\<lambda>v. ret (py_str rep v))) (\<lambda>run.
          andthen (lift_result (subscript ''line'' ord)) (\<lambda>lv.
          andthen (lift_result (subscript ''issues'' ord)) (\<lambda>issues.
          andthen (lift_result (order_jobs ord)) (\<lambda>jobs.
          andthen (if st = Some ''bound''
                   then andthen (for_each (member_doc env ord) ms) (\<lambda>rows. ret [(''bindings'', JArr rows)]) else ret []) (\<lambda>tail.
          let line = py_str rep lv in
          ret (JObj ([(''state'', if st = Some ''bound'' then JStr ''submitted'' else JStr (case st of None \<Rightarrow> ''None'' | Some s \<Rightarrow> s)),
             (''submission_id'', JStr work), (''dag_id'', JStr line), (''run_id'', JStr run), (''issues'', issues),
             (''jobs'', JInt (int (length jobs))), (''cells'', JArr (map (\<lambda>m. JStr (m_cell m)) ms)),
             (''blueprint'', JObj [(''name'', JStr line), (''resolved'', JBool True)]),
             (''url'', JStr (run_url (en_airflow_url env) line run))] @ tail))))))))))))"

definition waiting_document :: "string \<Rightarrow> admission_decision \<Rightarrow> string list \<Rightarrow> json list \<Rightarrow> string \<Rightarrow> json" where
  "waiting_document work d issues jobs line =
     JObj [(''state'', JStr (de_state d)), (''submission_id'', JStr work), (''reason'', JStr (de_reason d)),
       (''position'', case de_position d of None \<Rightarrow> JNull | Some n \<Rightarrow> JInt (int n)),
       (''limiting'', case de_limiting d of None \<Rightarrow> JNull | Some b \<Rightarrow> block_dict b),
       (''issues'', JArr (map JStr issues)), (''jobs'', JInt (int (length jobs))),
       (''blueprint'', JObj [(''name'', JStr line), (''resolved'', JBool True)])]"

text \<open>What follows the admission decision.\<close>

definition after_decision ::
  "('w, 'x) svc_env \<Rightarrow> string \<Rightarrow> string list \<Rightarrow> json list \<Rightarrow> string \<Rightarrow> admission_decision \<Rightarrow> ('w, 'x, json) call" where
  "after_decision env work issues jobs line d =
     (if de_reason d = ''duplicate_terminal'' then raise (SRefused 409 (''work order already finished as '' @ de_state d))
      else if de_state d \<in> set [''queued'', ''rejected''] then
        andthen (resume_dispatch env 32 8) (\<lambda>_. ret (waiting_document work d issues jobs line))
      else
        andthen (case de_intent d of
                   Some i \<Rightarrow> andthen (dispatch_intent_call env i) (\<lambda>_. ret ())
                 | None \<Rightarrow> andthen (deliver env work) (\<lambda>_. ret ())) (\<lambda>_.
        andthen (resume_dispatch env 32 8) (\<lambda>_. work_document env work)))"

text \<open>\<open>submit\<close> for lines that take their issues from the request and have no Linear source. \<open>guard\<close> is what the autonomous line
  asks of its policy and of GitHub before anything is admitted; other lines ask nothing.\<close>

definition submit_call ::
  "('w, 'x) svc_env \<Rightarrow> (bp_line \<Rightarrow> string list \<Rightarrow> 'x \<Rightarrow> (service_error + unit) \<times> 'x) \<Rightarrow> json \<Rightarrow> ('w, 'x, json) call" where
  "submit_call env guard body =
     andthen (mutation_ready env) (\<lambda>ready.
     andthen (check_that ready (SRefused 503 ''backend is draining or not mutation-ready'')) (\<lambda>_.
     andthen (lift_result (text_field ''line'' 512 (jget0 ''line'' body))) (\<lambda>name.
     andthen (lift_result (installed_line env name)) (\<lambda>line.
     andthen (check_that (jget ''work_source'' body = None) (SValueError ''the installed blueprint does not enable Linear work sources'')) (\<lambda>_.
     andthen (lift_result (issues_field (jget0 ''issues'' body))) (\<lambda>issues.
     andthen (if bl_name line = ''autonomous'' then on_air (guard line issues) else ret ()) (\<lambda>_.
     andthen (lift_result (targets_field (jget_or ''targets'' (JArr []) body))) (\<lambda>targets.
     andthen (lift_result (actor_field env (jget0 ''actor'' body))) (\<lambda>actor.
     andthen (lift_result (run_field actor (jget0 ''airflow_run_id'' body))) (\<lambda>run.
     andthen (lift_result (blueprint_jobs line issues targets)) (\<lambda>jobs.
     andthen (lift_result (priority_of (jget0 ''priority'' body))) (\<lambda>p.
     andthen (work_order_doc env line jobs issues targets actor p run) (\<lambda>(work, ord).
     andthen (for_each (\<lambda>job. lift_result (member_spec_of env job)) jobs) (\<lambda>ms.
     andthen (next_clock env) (\<lambda>ck.
     andthen (attempt (on_admission (submit (en_cf env) work actor (bl_name line) ord ms p ck))) (\<lambda>r.
     case r of
       Inl e \<Rightarrow> raise (if e = SAdmission WorkOrderConflict then SRefused 409 (en_show env e) else e)
     | Inr d \<Rightarrow> after_decision env work issues jobs (bl_name line) d))))))))))))))))"

section \<open>Lifecycle transitions\<close>

definition cell_or_404 :: "string \<Rightarrow> ('w, 'x, cell_row) call" where
  "cell_or_404 c =
     andthen (tap (\<lambda>f. get_cell c (fc_cells f))) (\<lambda>co.
     case co of None \<Rightarrow> raise (SRefused 404 (''no Factory Cell '' @ c)) | Some r \<Rightarrow> ret r)"

definition cell_at :: "string \<Rightarrow> int \<Rightarrow> ('w, 'x, cell_row) call" where
  "cell_at c epoch =
     andthen (cell_or_404 c) (\<lambda>r.
     if cell_epoch r \<noteq> epoch then
       raise (SRefused 409 (''stale Factory Cell epoch '' @ int_str epoch @ ''; current epoch is '' @ int_str (cell_epoch r)))
     else ret r)"

definition epoch_field :: "json \<Rightarrow> service_error + int" where
  "epoch_field v = (case v of JInt n \<Rightarrow> if n < 1 then Inl (SValueError ''epoch must be a positive integer'') else Inr n
     | _ \<Rightarrow> Inl (SValueError ''epoch must be a positive integer''))"

definition fenced :: "json \<Rightarrow> string \<Rightarrow> ('w, 'x, cell_row \<times> int \<times> string \<times> string) call" where
  "fenced body what =
     andthen (lift_result (text_field ''cell_id'' 512 (jget0 ''cell_id'' body))) (\<lambda>c.
     andthen (lift_result (epoch_field (jget0 ''epoch'' body))) (\<lambda>epoch.
     andthen (lift_result (text_field ''policy_digest'' 512 (jget0 ''policy_digest'' body))) (\<lambda>policy.
     andthen (lift_result (text_field ''operation_key'' 256 (jget0 ''operation_key'' body))) (\<lambda>key.
     andthen (cell_at c epoch) (\<lambda>r.
     if cell_policy_digest r \<noteq> Some policy then raise (SRefused 409 (''Factory Cell policy digest changed; '' @ what @ '' is stale''))
     else andthen (lift_result (airflow_binding r)) (\<lambda>_. ret (r, epoch, policy, key)))))))"

definition patch_or_current :: "('w, 'x) svc_env \<Rightarrow> string \<Rightarrow> int \<Rightarrow> string \<Rightarrow> cell_field list \<Rightarrow> ('w, 'x, cell_row) call" where
  "patch_or_current env c e key fs =
     andthen (attempt (cell_patch env c e key fs)) (\<lambda>r.
     case r of Inr u \<Rightarrow> ret u | Inl er \<Rightarrow> if er = SCell DuplicateOperation then cell_or_404 c else raise er)"

definition svc_release_cell :: "('w, 'x) svc_env \<Rightarrow> string \<Rightarrow> int \<Rightarrow> string \<Rightarrow> ('w, 'x, string list) call" where
  "svc_release_cell env c epoch st = (\<lambda>f.
     let n = fc_tick f; f0 = f\<lparr>fc_tick := n + Suc (length (members_for_cell c epoch (fc_adm f)))\<rparr> in
     case release_cell (en_cf env) c epoch st (\<lambda>i. en_clock env (n + i)) (fc_kernel f0) of
       (r, k) \<Rightarrow> (map_sum SAdmission id r, f0\<lparr>fc_kernel := k\<rparr>))"

definition allowed_transition :: "string \<Rightarrow> string \<Rightarrow> service_error option" where
  "allowed_transition old requested =
     (if old \<in> set TERMINAL_STATES - {''success''} \<and> requested \<noteq> old then
        Some (SRefused 409 (''terminal Factory Cell cannot transition '' @ old @ '' -> '' @ requested))
      else if old = ''success'' \<and> requested \<notin> set [''success'', ''failed''] then
        Some (SRefused 409 (''Factory Cell cannot transition success -> '' @ requested))
      else if requested = ''running'' \<and> old \<notin> set LIVE_CELL_STATES then
        Some (SRefused 409 (''Factory Cell cannot transition '' @ old @ '' -> running''))
      else None)"

definition transition_cleaned :: "('w, 'x) svc_env \<Rightarrow> string \<Rightarrow> int \<Rightarrow> string \<Rightarrow> ('w, 'x, cell_row \<times> string list \<times> string) call" where
  "transition_cleaned env c epoch key =
     andthen (next_clock env) (\<lambda>ck.
     andthen (patch_or_current env c epoch key
        [F_cleanup (JObj [(''schema_version'', JInt 1), (''status'', JStr ''converged''), (''operation_key'', JStr key),
           (''observed_at'', JReal (ck 0))])]) (\<lambda>u.
     andthen (if cell_state u \<in> set TERMINAL_STATES then svc_release_cell env c epoch (cell_state u) else ret []) (\<lambda>released.
     ret (u, released, cell_state u))))"

definition stops_run :: "string \<Rightarrow> string \<Rightarrow> cell_row \<Rightarrow> bool" where
  "stops_run requested key u =
     (requested = ''cancelled'' \<and> \<not> startswith key ''airflow:'' \<and> nonempty (cell_dag_id u) \<and> nonempty (cell_run_id u))"

definition transition_state ::
  "('w, 'x) svc_env \<Rightarrow> string \<Rightarrow> int \<Rightarrow> string \<Rightarrow> string \<Rightarrow> string \<Rightarrow> ('w, 'x, cell_row \<times> string list \<times> string) call" where
  "transition_state env c epoch requested key old =
     (case allowed_transition old requested of
        Some e \<Rightarrow> raise e
      | None \<Rightarrow>
          andthen (patch_or_current env c epoch key [F_state requested]) (\<lambda>u.
          andthen (if stops_run requested key u then andthen (journal_airflow_cancel env u) (\<lambda>_. ret ()) else ret ()) (\<lambda>_.
          andthen (if requested \<in> set TERMINAL_STATES then svc_release_cell env c epoch requested else ret []) (\<lambda>released.
          ret (u, released, requested)))))"

definition transition_evidence ::
  "('w, 'x) svc_env \<Rightarrow> cell_row \<Rightarrow> cell_row \<Rightarrow> string \<Rightarrow> string \<Rightarrow> string \<Rightarrow> string list \<Rightarrow> json list \<Rightarrow> ('w, 'x, json) call" where
  "transition_evidence env current u key requested next released resumed =
     evidence_append env (cell_id current) (cell_epoch current)
       (if requested \<noteq> ''cleaned'' then ''lifecycle_transition'' else ''cleanup'')
       (JObj [(''from'', JStr (cell_state current)), (''requested'', JStr requested), (''to'', JStr next),
              (''released_work'', JArr (map JStr released)), (''resumed_dispatch'', JArr resumed)])
       (cell_policy_digest u) (trace_for_cell (cell_id current) (cell_epoch current) ''lifecycle'' key)"

definition transition_call :: "('w, 'x) svc_env \<Rightarrow> json \<Rightarrow> ('w, 'x, cell_row \<times> string list \<times> json list) call" where
  "transition_call env body =
     andthen (lift_result (text_field ''cell_id'' 512 (jget0 ''cell_id'' body))) (\<lambda>c.
     andthen (lift_result (epoch_field (jget0 ''epoch'' body))) (\<lambda>epoch.
     andthen (lift_result (text_field ''state'' 64 (jget0 ''state'' body))) (\<lambda>requested.
     andthen (check_that (requested \<in> set [''running'', ''success'', ''failed'', ''cancelled'', ''rejected'', ''cleaned'']) (SValueError ''invalid lifecycle state'')) (\<lambda>_.
     andthen (lift_result (text_field ''operation_key'' 256 (py_or (jget0 ''operation_key'' body) (JStr (''operator:'' @ requested))))) (\<lambda>key.
     andthen (cell_at c epoch) (\<lambda>current.
     andthen (if requested = ''cleaned'' then transition_cleaned env c epoch key
              else transition_state env c epoch requested key (cell_state current)) (\<lambda>(u, released, next).
     andthen (if released \<noteq> [] then resume_dispatch env 32 8 else ret []) (\<lambda>resumed.
     andthen (transition_evidence env current u key requested next released resumed) (\<lambda>_.
     ret (u, released, resumed))))))))))"

definition queue_cancel :: "('w, 'x) svc_env \<Rightarrow> json \<Rightarrow> ('w, 'x, string \<times> string list \<times> string list \<times> json list) call" where
  "queue_cancel env body =
     andthen (lift_result (text_field ''work_id'' 512 (jget0 ''work_id'' body))) (\<lambda>work.
     andthen (tap (\<lambda>f. state_of work (fc_adm f))) (\<lambda>so.
     case so of
       None \<Rightarrow> raise (SRefused 404 (''no admission work '' @ work))
     | Some st \<Rightarrow>
         if st = ''bound'' then raise (SRefused 409 ''a dispatched work order is cancelled through its Factory Cells'')
         else
           andthen (lift_result (text_field ''reason'' 512 (jget0 ''reason'' body))) (\<lambda>reason.
           andthen (cancel_activations env work (''queue-cancel:'' @ work)) (\<lambda>cells.
           andthen (adm_cancel env work reason ''cancelled'') (\<lambda>released.
           andthen (resume_dispatch env 32 8) (\<lambda>resumed.
           ret (st, cells, released, resumed)))))))"

end
