(* ===== verification/Ownership.thy ===== *)
theory Ownership
  imports Dispatch
begin

text \<open>
  Whose work an activation is. Orders record for each member the epoch of the Factory Cell they activated, in
  another store than the Cells. This theory shows that the two stores agree in every state the backend reaches:
  a recorded epoch is one whose activation event names the order, so no activation ever belongs to two orders,
  and that compensation and the queue's cancellation close only Cells of the order they act for. The single
  transactions of the service are the relation \<open>svc_step\<close>; the handlers of \<open>Dispatch\<close> are sequences of them.
\<close>

section \<open>The roster of an admission store\<close>

definition member_id :: "member_row \<Rightarrow> string \<times> int \<times> string" where
  "member_id m = (m_work m, m_job_idx m, m_cell m)"

definition roster_row :: "member_row \<Rightarrow> (string \<times> int \<times> string) \<times> int option" where
  "roster_row m = (member_id m, m_epoch m)"

definition same_roster :: "adm \<Rightarrow> adm \<Rightarrow> bool" where
  "same_roster a a' \<longleftrightarrow> map roster_row (ad_members a') = map roster_row (ad_members a) \<and> ad_orders a' = ad_orders a
     \<and> map w_id (ad_work a') = map w_id (ad_work a)"

lemma same_roster_refl [simp]: "same_roster a a"
  by (simp add: same_roster_def)

lemma same_roster_trans: "same_roster a b \<Longrightarrow> same_roster b c \<Longrightarrow> same_roster a c"
  by (simp add: same_roster_def)

lemma same_roster_set_work [intro]: "same_roster a b \<Longrightarrow> (\<And>w. w_id (g w) = w_id w) \<Longrightarrow> same_roster a (set_work p g b)"
  by (simp add: same_roster_def map_upd_where)

lemma same_roster_set_dispatch [simp]: "same_roster a (set_dispatch p g b) = same_roster a b"
  by (simp add: same_roster_def)

lemma same_roster_drop [simp]: "same_roster a (drop_inflight k b) = same_roster a b"
  by (simp add: same_roster_def)

lemma same_roster_set_members [intro]:
  "same_roster a b \<Longrightarrow> (\<And>m. roster_row (g m) = roster_row m) \<Longrightarrow> same_roster a (set_members p g b)"
  by (simp add: same_roster_def map_upd_where)

lemma same_roster_throttle: "throttle r now a = (th, a') \<Longrightarrow> same_roster a a'"
  by (auto simp: throttle_def Let_def same_roster_def)

lemma same_roster_open [simp]: "same_roster a (open_dispatch k now b) = same_roster a b"
  by (simp add: open_dispatch_def same_roster_def)

lemma roster_row_state [simp]: "roster_row (m\<lparr>m_state := s, m_updated_at := t\<rparr>) = roster_row m"
  by (simp add: roster_row_def member_id_def)

lemma same_roster_fields:
  "ad_members a' = ad_members b \<Longrightarrow> ad_orders a' = ad_orders b \<Longrightarrow> map w_id (ad_work a') = map w_id (ad_work b)
     \<Longrightarrow> same_roster a a' = same_roster a b"
  by (simp add: same_roster_def)

lemma claim_roster:
  assumes "claim cf k lease now a = (res, a')"
  shows "same_roster a a'"
  using assms
proof (cases rule: claim_cases)
  case (some d w ord)
  have "same_roster a (claimed cf k lease now d a)" unfolding claimed_def by (intro same_roster_set_work) simp_all
  then show ?thesis unfolding some(6) by (simp add: same_roster_def)
qed simp

lemma next_fair_roster: "next_fair_candidate a = (c, a') \<Longrightarrow> same_roster a a'"
  by (auto simp: same_roster_def next_fair_candidate_def replenish_def Let_def split: option.splits if_splits)

lemma set_limiting_roster [intro]: "same_roster a b \<Longrightarrow> same_roster a (set_limiting k bl now b)"
  unfolding set_limiting_def by (intro same_roster_set_work) simp_all

lemma defer_roster [intro]: "same_roster a b \<Longrightarrow> same_roster a (defer_sequence k now b)"
  unfolding defer_sequence_def next_sequence_def prod.case Let_def by (intro same_roster_set_work) (simp_all add: same_roster_def)

lemma admit_roster [intro]: "same_roster a b \<Longrightarrow> same_roster a (admit_queued k now b)"
  unfolding admit_queued_def by (intro same_roster_set_work) simp_all

lemma service_roster [simp]: "same_roster a (record_service p b) = same_roster a b"
  by (simp add: record_service_def same_roster_def)

lemma drain_iter_roster: "drain_iter cf ck n acc a = (ids, a') \<Longrightarrow> same_roster a a'"
proof (induction n arbitrary: ck acc a)
  case (Suc n)
  obtain c a1 where f: "next_fair_candidate a = (c, a1)" by fastforce
  have r1: "same_roster a a1" using next_fair_roster[OF f] .
  show ?case
  proof (cases c)
    case None
    then show ?thesis using Suc.prems f r1 by simp
  next
    case (Some item)
    obtain th a2 where t: "throttle (w_repo item) (ck 0) a1 = (th, a2)" by fastforce
    have r2: "same_roster a a2" using r1 same_roster_throttle[OF t] by (rule same_roster_trans)
    show ?thesis
      using Suc.prems f Some t r2
      by (auto simp: Let_def split: option.splits if_splits dest!: Suc.IH elim!: same_roster_trans[rotated])
  qed
qed simp

lemma drain_roster: "drain cf limit ck a = (ids, a') \<Longrightarrow> same_roster a a'"
  unfolding drain_def Let_def by (rule drain_iter_roster)

lemma cancel_roster: "cancel cf k reason st ck a = (res, a') \<Longrightarrow> same_roster a a'"
  unfolding cancel_def Let_def
  by (auto split: option.splits if_splits prod.splits dest!: drain_roster intro!: same_roster_set_work same_roster_set_members
      elim!: same_roster_trans[rotated])

lemma complete_roster: "complete cf k c e st ck a = (res, a') \<Longrightarrow> same_roster a a'"
  unfolding complete_def Let_def
  by (auto split: option.splits if_splits prod.splits dest!: drain_roster intro!: same_roster_set_work same_roster_set_members
      elim!: same_roster_trans[rotated])

lemma record_dispatch_roster: "record_dispatch k token run now a = (res, a') \<Longrightarrow> same_roster a a'"
  unfolding record_dispatch_def Let_def by (auto split: if_splits intro!: same_roster_set_work)

lemma release_roster: "release_dispatch k token err ob now a = (res, a') \<Longrightarrow> same_roster a a'"
  unfolding release_dispatch_def Let_def by (auto split: if_splits intro!: same_roster_set_work)

lemma undeliverable_roster: "same_roster a (mark_undeliverable k err ob now a)"
  unfolding mark_undeliverable_def Let_def by (auto intro!: same_roster_set_work)

lemma note_roster: "same_roster a (note_outcome k err ob now a)"
  unfolding note_outcome_def by simp

lemma release_loop_roster: "release_loop cf c e st ck i ws acc a = (res, a') \<Longrightarrow> same_roster a a'"
proof (induction ws arbitrary: i acc a)
  case (Cons w ws)
  obtain r a1 where c: "complete cf w c e st (ck i) a = (r, a1)" by fastforce
  show ?case using Cons.prems c complete_roster[OF c] Cons.IH by (cases r) (auto intro: same_roster_trans)
qed simp

text \<open>A submission keeps the roster or appends the members of one new order, none of them with an epoch.\<close>

definition enrolled :: "string \<Rightarrow> json \<Rightarrow> member_spec list \<Rightarrow> adm \<Rightarrow> adm \<Rightarrow> bool" where
  "enrolled k ord ms a a' \<longleftrightarrow> work_of k a = None \<and>
     (\<exists>now digest. map roster_row (ad_members a') = map roster_row (ad_members a @ map (new_member k now) (sort_key ms_job_idx ms))
       \<and> ad_orders a' = ad_orders a @ [\<lparr>o_work = k, o_schema_version = WORK_ORDER_SCHEMA, o_digest = digest,
                                       o_payload = jcanon ord, o_created_at = now\<rparr>]
       \<and> map w_id (ad_work a') = map w_id (ad_work a) @ [k])"

lemma enrolled_insert:
  assumes "work_of k a = None" and "same_roster a b" and "w_id w = k"
  shows "enrolled k ord ms a (insert_order k digest ord w ms now b)"
  using assms unfolding enrolled_def same_roster_def insert_order_def by auto

lemma enrolled_roster: "enrolled k ord ms a b \<Longrightarrow> same_roster b c \<Longrightarrow> enrolled k ord ms a c"
  unfolding enrolled_def same_roster_def by simp

lemma next_sequence_roster: "next_sequence a = (s, a') \<Longrightarrow> same_roster a a'"
  by (auto simp: next_sequence_def same_roster_def)

lemma submit_new_roster:
  assumes "submit_new cf k actor bp ord ms p ck a = (res, a')" and "work_of k a = None"
  shows "same_roster a a' \<or> enrolled k ord ms a a'"
proof -
  obtain th a1 where t: "throttle (repo_key_of (sort (map ms_repo ms))) (ck 1) a = (th, a1)" by fastforce
  obtain sq a2 where q: "next_sequence a1 = (sq, a2)" by fastforce
  have r: "same_roster a a1" "same_roster a a2"
    using same_roster_throttle[OF t] next_sequence_roster[OF q] by (auto intro: same_roster_trans)
  have e: "enrolled k ord ms a (insert_order k d ord (new_work k rk actor bp p sq bl ms now) ms now a2)" for d rk bl now
    using assms(2) r(2) by (intro enrolled_insert) (simp_all add: new_work_def)
  have c: "enrolled k ord ms a a3" if "claim cf k None (ck 2) (open_dispatch k now (insert_order k d ord (new_work k rk actor bp p sq bl ms now) ms now a2)) = (i, a3)" for d rk bl now i a3
    using enrolled_roster[OF e] claim_roster[OF that] same_roster_trans by (metis same_roster_open same_roster_refl)
  show ?thesis
    using assms(1) t q r e c unfolding submit_new_def Let_def by (auto split: option.splits if_splits sum.splits prod.splits)
qed

lemma submit_roster:
  "submit cf k actor bp ord ms p ck a = (res, a') \<Longrightarrow> same_roster a a' \<or> enrolled k ord ms a a'"
  unfolding submit_def by (auto split: if_splits option.splits dest: submit_new_roster)

text \<open>The one operation that writes an epoch writes it into one row.\<close>

lemma member_epoch_cases:
  assumes "record_member_epoch k j epoch token now a = (res, a')"
  obtains (same) "a' = a" | (written) "res = Inr ()" "1 \<le> epoch" "lease_ok k token a"
    "a' = set_members (\<lambda>m. m_work m = k \<and> m_job_idx m = j) (\<lambda>m. m\<lparr>m_epoch := Some epoch, m_updated_at := now\<rparr>) a"
  using assms unfolding record_member_epoch_def Let_def by (auto split: if_splits)

section \<open>Activations on record\<close>

definition activation_event :: "cell_store \<Rightarrow> string \<Rightarrow> int \<Rightarrow> string \<Rightarrow> bool" where
  "activation_event s c e owner \<longleftrightarrow>
     (\<exists>ev\<in>set (cs_events s). ev_cell ev = c \<and> ev_kind ev = ''activated'' \<and> ev_epoch ev = e
        \<and> jget ''actor'' (ev_payload ev) = Some (JStr owner))"

definition owned_activation :: "cell_store \<Rightarrow> string \<Rightarrow> string \<Rightarrow> int \<Rightarrow> bool" where
  "owned_activation s k c e \<longleftrightarrow> (\<exists>actor. activation_event s c e (cell_actor actor k))"

definition activations_keyed :: "cell_store \<Rightarrow> bool" where
  "activations_keyed s \<longleftrightarrow> (\<forall>ev\<in>set (cs_events s). ev_kind ev = ''activated'' \<longrightarrow> ev_key ev = ''activation:'' @ int_str (ev_epoch ev))"

text \<open>Events are only appended, so what is on record stays on record; and an activation is written by \<open>activate\<close> alone.\<close>

definition grows :: "cell_store \<Rightarrow> cell_store \<Rightarrow> bool" where
  "grows s t \<longleftrightarrow> (\<exists>new. cs_events t = cs_events s @ new
     \<and> (\<forall>ev\<in>set new. ev_kind ev = ''activated'' \<longrightarrow> ev_key ev = ''activation:'' @ int_str (ev_epoch ev)))"

lemma grows_refl [simp]: "grows s s"
  by (simp add: grows_def)

lemma grows_same: "cs_events t = cs_events s \<Longrightarrow> grows s t"
  by (simp add: grows_def)

lemma grows_append:
  assumes "append_event m now s1 = Inr s2" and "cs_events s1 = cs_events s" and "cs_events t = cs_events s2"
    and "mu_kind m = ''activated'' \<Longrightarrow> mu_key m = ''activation:'' @ int_str (mu_epoch m)"
  shows "grows s t"
  using append_event_Inr(1)[OF assms(1)] assms(2-4) unfolding grows_def by (intro exI[of _ "[event_of m now s1]"]) auto

lemma grows_keyed: "activations_keyed s \<Longrightarrow> grows s t \<Longrightarrow> activations_keyed t"
  by (auto simp: activations_keyed_def grows_def)

lemma grows_owned: "owned_activation s k c e \<Longrightarrow> grows s t \<Longrightarrow> owned_activation t k c e"
  by (fastforce simp: owned_activation_def activation_event_def grows_def)

lemma activate_grows: "activate rv i actor now (s, w) = (res, s', w') \<Longrightarrow> grows s s'"
  by (erule activate_cases) (auto elim!: grows_append)

lemma patch_grows: "patch rv c e key fs now (s, w) = (res, s', w') \<Longrightarrow> grows s s'"
  by (erule patch_cases) (auto elim!: grows_append split: if_splits)

lemma take_epoch_grows: "take_epoch rv c e actor now (s, w) = (res, s', w') \<Longrightarrow> grows s s'"
  by (erule take_epoch_cases) (auto elim!: grows_append)

lemma record_grows: "record_mutation m now s = (res, s') \<Longrightarrow> mu_kind m \<noteq> ''activated'' \<Longrightarrow> grows s s'"
  by (auto simp: record_mutation_def split: sum.splits elim: grows_append)

lemma grows_insert: "grows (insert_identity i now s) t \<Longrightarrow> grows s t"
  by (simp add: grows_def)

lemma ensure_grows: "ensure rv i fs now (s, w) = (res, s', w') \<Longrightarrow> grows s s'"
  unfolding ensure_def Let_def
  by (auto simp: grows_same split: if_splits option.splits sum.splits prod.splits dest!: patch_grows intro: grows_insert)

text \<open>A successful activation leaves its event behind.\<close>

lemma activate_owns:
  assumes "activate rv i (cell_actor actor k) now (s, w) = (Inr c, s', w')"
  shows "cell_id c = stable_id i \<and> owned_activation s' k (stable_id i) (cell_epoch c)"
  using assms
proof (cases rule: activate_cases)
  case (ok current n s1 s2 r)
  have c: "get_cell (stable_id i) s2 = Some c" and s: "s' = s2" using ok by simp_all
  have "cell_id c = stable_id i" using c by (auto simp: get_cell_def dest: select_one_SomeD)
  moreover
  note app = append_event_Inr[OF ok(4)]
  have "epoch_of (stable_id i) s2 = Some n" using app(1,2) by (simp add: epoch_of_def get_cell_def)
  then have "cell_epoch c = n" using c by (simp add: epoch_of_def)
  then have "owned_activation s' k (stable_id i) (cell_epoch c)"
    unfolding s owned_activation_def activation_event_def using app(1) by auto
  ultimately show ?thesis ..
qed simp

text \<open>So does the history check of an adopted one.\<close>

lemma activated_by_owns:
  "activated_by c (cell_actor actor k) s \<Longrightarrow> owned_activation s k (cell_id c) (cell_epoch c)"
  unfolding activated_by_def owned_activation_def activation_event_def
  by (auto simp: history_def split: option.splits dest!: find_in) blast

text \<open>One activation names one order: the epoch's key is unique in the Cell's timeline, and a work id has no colon.\<close>

lemma cell_actor_work:
  assumes "cell_actor a1 k1 = cell_actor a2 k2" and "CHR '':'' \<notin> set k1" and "CHR '':'' \<notin> set k2"
  shows "k1 = k2"
proof -
  have "a1 @ CHR '':'' # k1 = a2 @ CHR '':'' # k2" using assms(1) by (simp add: cell_actor_def)
  then have "takeWhile (\<lambda>c. c \<noteq> CHR '':'') (rev k1 @ CHR '':'' # rev a1)
      = takeWhile (\<lambda>c. c \<noteq> CHR '':'') (rev k2 @ CHR '':'' # rev a2)"
    by (metis append_assoc append_Cons append_Nil rev.simps(2) rev_append)
  moreover have "takeWhile (\<lambda>c. c \<noteq> CHR '':'') (rev k @ CHR '':'' # xs) = rev k" if "CHR '':'' \<notin> set k" for k xs
    using that by (subst takeWhile_append2) auto
  ultimately show ?thesis using assms(2,3) by simp
qed

lemma one_owner:
  assumes "cells_inv s" and "activations_keyed s" and "owned_activation s k1 c e" and "owned_activation s k2 c e"
    and "CHR '':'' \<notin> set k1" and "CHR '':'' \<notin> set k2"
  shows "k1 = k2"
proof -
  obtain a1 v1 where v1: "v1 \<in> set (cs_events s)" "ev_cell v1 = c" "ev_kind v1 = ''activated''" "ev_epoch v1 = e"
      "jget ''actor'' (ev_payload v1) = Some (JStr (cell_actor a1 k1))"
    using assms(3) by (auto simp: owned_activation_def activation_event_def)
  obtain a2 v2 where v2: "v2 \<in> set (cs_events s)" "ev_cell v2 = c" "ev_kind v2 = ''activated''" "ev_epoch v2 = e"
      "jget ''actor'' (ev_payload v2) = Some (JStr (cell_actor a2 k2))"
    using assms(4) by (auto simp: owned_activation_def activation_event_def)
  have "event_id v1 = event_id v2" using v1 v2 assms(2) by (simp add: event_id_def activations_keyed_def)
  then have "v1 = v2" using assms(1) v1(1) v2(1) unfolding cells_inv_def primary_key_def by (meson distinct_map inj_on_def)
  then show ?thesis using v1(5) v2(5) assms(5,6) cell_actor_work[of a1 k1 a2 k2] by simp
qed

section \<open>The transactions of the service\<close>

text \<open>An order's document fits a member when the job of that index has the member's Cell for its identity.\<close>

definition fits :: "(json \<Rightarrow> string) \<Rightarrow> json \<Rightarrow> int \<Rightarrow> string \<Rightarrow> bool" where
  "fits rep ord idx c \<longleftrightarrow>
     (\<forall>jobs job ident. order_jobs ord = Inr jobs \<longrightarrow> map_of (rev jobs) idx = Some job
        \<longrightarrow> identity_for_job rep job = Inr ident \<longrightarrow> stable_id ident = c)"

definition colon_free :: "string \<Rightarrow> bool" where
  "colon_free k \<longleftrightarrow> CHR '':'' \<notin> set k"

text \<open>The Cell store, the world of the lease broker, and the admission store.\<close>

type_synonym 'w stores = "cell_store \<times> 'w \<times> adm"

inductive svc_step ::
  "'w revoker option \<Rightarrow> adm_config \<Rightarrow> (json \<Rightarrow> string) \<Rightarrow> 'w stores \<Rightarrow> 'w stores \<Rightarrow> bool" for rv cf rep where
  sv_activate: "activate rv i actor now (s, w) = (res, s', w') \<Longrightarrow> svc_step rv cf rep (s, w, a) (s', w', a)"
| sv_patch: "patch rv c e key fs now (s, w) = (res, s', w') \<Longrightarrow> svc_step rv cf rep (s, w, a) (s', w', a)"
| sv_take: "take_epoch rv c e actor now (s, w) = (resi, s', w') \<Longrightarrow> svc_step rv cf rep (s, w, a) (s', w', a)"
| sv_ensure: "ensure rv i fs now (s, w) = (res, s', w') \<Longrightarrow> svc_step rv cf rep (s, w, a) (s', w', a)"
| sv_event: "record_mutation m now s = (resu, s') \<Longrightarrow> mu_kind m \<noteq> ''activated'' \<Longrightarrow> svc_step rv cf rep (s, w, a) (s', w, a)"
| sv_submit: "submit cf k actor bp ord ms p ck a = (resd, a') \<Longrightarrow> colon_free k
    \<Longrightarrow> (\<And>m. m \<in> set ms \<Longrightarrow> fits rep (jcanon ord) (ms_job_idx m) (ms_cell m)) \<Longrightarrow> svc_step rv cf rep (s, w, a) (s, w, a')"
| sv_claim: "claim_dispatch cf k lease now a = (resn, a') \<Longrightarrow> svc_step rv cf rep (s, w, a) (s, w, a')"
| sv_member: "record_member_epoch k j e token now a = (resm, a')
    \<Longrightarrow> (\<And>m. m \<in> set (ad_members a) \<Longrightarrow> m_work m = k \<Longrightarrow> m_job_idx m = j \<Longrightarrow> owned_activation s k (m_cell m) e)
    \<Longrightarrow> svc_step rv cf rep (s, w, a) (s, w, a')"
| sv_delivered: "record_dispatch k token run now a = (resm, a') \<Longrightarrow> svc_step rv cf rep (s, w, a) (s, w, a')"
| sv_release: "release_dispatch k token err ob now a = (resm, a') \<Longrightarrow> svc_step rv cf rep (s, w, a) (s, w, a')"
| sv_complete: "complete cf k c e st ck a = (resl, a') \<Longrightarrow> svc_step rv cf rep (s, w, a) (s, w, a')"
| sv_cancel: "cancel cf k reason st ck a = (resl, a') \<Longrightarrow> svc_step rv cf rep (s, w, a) (s, w, a')"
| sv_undeliverable: "svc_step rv cf rep (s, w, a) (s, w, mark_undeliverable k err ob now a)"
| sv_note: "svc_step rv cf rep (s, w, a) (s, w, note_outcome k err ob now a)"
| sv_restart: "svc_step rv cf rep (s, w, a) (s, w, a\<lparr>ad_inflight := []\<rparr>)"

definition roster_owned :: "cell_store \<Rightarrow> adm \<Rightarrow> bool" where
  "roster_owned s a \<longleftrightarrow> (\<forall>m\<in>set (ad_members a). colon_free (m_work m)
     \<and> (\<forall>e. m_epoch m = Some e \<longrightarrow> owned_activation s (m_work m) (m_cell m) e))"

definition orders_fit :: "(json \<Rightarrow> string) \<Rightarrow> adm \<Rightarrow> bool" where
  "orders_fit rep a \<longleftrightarrow> (\<forall>r\<in>set (ad_orders a). work_of (o_work r) a \<noteq> None
     \<and> (\<forall>m\<in>set (ad_members a). m_work m = o_work r \<longrightarrow> fits rep (o_payload r) (m_job_idx m) (m_cell m)))"

definition svc_inv :: "adm_config \<Rightarrow> (json \<Rightarrow> string) \<Rightarrow> 'w stores \<Rightarrow> bool" where
  "svc_inv cf rep = (\<lambda>(s, w, a). cells_inv s \<and> activations_keyed s \<and> adm_inv (cf_limits cf) a \<and> roster_owned s a \<and> orders_fit rep a)"

lemma roster_in: "same_roster a a' \<Longrightarrow> m' \<in> set (ad_members a') \<Longrightarrow> \<exists>m\<in>set (ad_members a). roster_row m = roster_row m'"
  unfolding same_roster_def by (metis image_iff list.set_map)

lemma same_roster_sym: "same_roster a b \<Longrightarrow> same_roster b a"
  by (simp add: same_roster_def)

lemma work_of_ids: "work_of k a \<noteq> None \<longleftrightarrow> k \<in> set (map w_id (ad_work a))"
  by (auto simp: work_of_def select_one_None_iff image_iff)

lemma orders_fitD:
  assumes "orders_fit rep a" and "r \<in> set (ad_orders a)" and "m \<in> set (ad_members a)" and "m_work m = o_work r"
    and "roster_row m = roster_row m'"
  shows "fits rep (o_payload r) (m_job_idx m') (m_cell m')"
proof -
  have "m_job_idx m' = m_job_idx m" "m_cell m' = m_cell m" using assms(5) by (simp_all add: roster_row_def member_id_def)
  then show ?thesis using assms(1-4) by (simp add: orders_fit_def)
qed

lemma roster_row_work: "roster_row m = roster_row m' \<Longrightarrow> m_work m = m_work m'"
  by (simp add: roster_row_def member_id_def)

lemma roster_owned_grows: "roster_owned s a \<Longrightarrow> grows s s' \<Longrightarrow> roster_owned s' a"
  by (auto simp: roster_owned_def intro: grows_owned)

lemma roster_owned_same:
  assumes "roster_owned s a" and "same_roster a a'"
  shows "roster_owned s a'"
  unfolding roster_owned_def
proof
  fix m' assume "m' \<in> set (ad_members a')"
  then obtain m where m: "m \<in> set (ad_members a)" "roster_row m = roster_row m'" using roster_in[OF assms(2)] by blast
  then have "m_work m' = m_work m" "m_cell m' = m_cell m" "m_epoch m' = m_epoch m" by (simp_all add: roster_row_def member_id_def)
  then show "colon_free (m_work m') \<and> (\<forall>e. m_epoch m' = Some e \<longrightarrow> owned_activation s (m_work m') (m_cell m') e)"
    using assms(1) m(1) by (simp add: roster_owned_def)
qed

lemma orders_fit_same:
  assumes "orders_fit rep a" and "same_roster a a'"
  shows "orders_fit rep a'"
proof -
  have "fits rep (o_payload r) (m_job_idx m') (m_cell m')"
    if r: "r \<in> set (ad_orders a)" and m': "m' \<in> set (ad_members a')" and w: "m_work m' = o_work r" for r m'
  proof -
    obtain m where m: "m \<in> set (ad_members a)" "roster_row m = roster_row m'" using roster_in[OF assms(2) m'] by blast
    show ?thesis using orders_fitD[OF assms(1) r m(1) _ m(2)] w roster_row_work[OF m(2)] by simp
  qed
  then show ?thesis using assms unfolding orders_fit_def same_roster_def work_of_ids by auto
qed

lemma enrolled_in:
  assumes "enrolled k ord ms a a'" and "m' \<in> set (ad_members a')"
  shows "(\<exists>m\<in>set (ad_members a). roster_row m = roster_row m')
    \<or> (\<exists>ms'\<in>set ms. m_work m' = k \<and> m_job_idx m' = ms_job_idx ms' \<and> m_cell m' = ms_cell ms' \<and> m_epoch m' = None)"
proof -
  obtain now where e: "set (map roster_row (ad_members a')) = set (map roster_row (ad_members a @ map (new_member k now) (sort_key ms_job_idx ms)))"
    using assms(1) unfolding enrolled_def by metis
  have "roster_row m' \<in> set (map roster_row (ad_members a @ map (new_member k now) (sort_key ms_job_idx ms)))"
    unfolding e[symmetric] using assms(2) by simp
  then show ?thesis by (auto simp: roster_row_def member_id_def new_member_def)
qed

lemma roster_owned_enrolled:
  assumes "roster_owned s a" and "enrolled k ord ms a a'" and "colon_free k"
  shows "roster_owned s a'"
  unfolding roster_owned_def
proof
  fix m' assume "m' \<in> set (ad_members a')"
  from enrolled_in[OF assms(2) this]
  show "colon_free (m_work m') \<and> (\<forall>e. m_epoch m' = Some e \<longrightarrow> owned_activation s (m_work m') (m_cell m') e)"
    using assms(1,3) by (auto simp: roster_owned_def roster_row_def member_id_def)
qed

lemma orders_fit_enrolled:
  assumes "orders_fit rep a" and "adm_inv lm a" and en: "enrolled k ord ms a a'"
    and fit: "\<And>m. m \<in> set ms \<Longrightarrow> fits rep (jcanon ord) (ms_job_idx m) (ms_cell m)"
  shows "orders_fit rep a'"
proof -
  have "map w_id (ad_work a') = map w_id (ad_work a) @ [k]" using en by (auto simp: enrolled_def)
  then have ids: "set (map w_id (ad_work a')) = insert k (set (map w_id (ad_work a)))" by simp
  obtain r0 where os: "set (ad_orders a') = insert r0 (set (ad_orders a))" "o_work r0 = k" "o_payload r0 = jcanon ord"
    using en by (auto simp: enrolled_def)
  have kn: "work_of k a = None" using en by (simp add: enrolled_def)
  have memk: "m_work m \<noteq> k" if "m \<in> set (ad_members a)" for m
    using assms(2) that kn by (auto simp: adm_inv_def list_all_iff)
  have ordk: "o_work r \<noteq> k" if "r \<in> set (ad_orders a)" for r using assms(1) that kn by (auto simp: orders_fit_def)
  have "work_of (o_work r) a' \<noteq> None" if "r \<in> set (ad_orders a')" for r
    using that os assms(1) unfolding work_of_ids ids orders_fit_def by auto
  moreover have "fits rep (o_payload r) (m_job_idx m') (m_cell m')"
    if r: "r \<in> set (ad_orders a')" and m': "m' \<in> set (ad_members a')" and w: "m_work m' = o_work r" for r m'
    using enrolled_in[OF en m']
  proof
    assume "\<exists>m\<in>set (ad_members a). roster_row m = roster_row m'"
    then obtain m where m: "m \<in> set (ad_members a)" "roster_row m = roster_row m'" by blast
    then have "r \<in> set (ad_orders a)" using r w os memk[OF m(1)] by (auto simp: roster_row_def member_id_def)
    then show ?thesis using orders_fitD[OF assms(1) _ m(1) _ m(2)] w roster_row_work[OF m(2)] by simp
  next
    assume "\<exists>ms'\<in>set ms. m_work m' = k \<and> m_job_idx m' = ms_job_idx ms' \<and> m_cell m' = ms_cell ms' \<and> m_epoch m' = None"
    then show ?thesis using r w os ordk fit by auto
  qed
  ultimately show ?thesis unfolding orders_fit_def by blast
qed

lemma roster_owned_member:
  assumes "roster_owned s a"
    and "\<And>m. m \<in> set (ad_members a) \<Longrightarrow> m_work m = k \<Longrightarrow> m_job_idx m = j \<Longrightarrow> owned_activation s k (m_cell m) e"
  shows "roster_owned s (set_members (\<lambda>m. m_work m = k \<and> m_job_idx m = j) (\<lambda>m. m\<lparr>m_epoch := Some e, m_updated_at := now\<rparr>) a)"
  using assms by (auto simp: roster_owned_def dest!: upd_where_in)

lemma orders_fit_member:
  assumes "orders_fit rep a"
  shows "orders_fit rep (set_members (\<lambda>m. m_work m = k \<and> m_job_idx m = j) (\<lambda>m. m\<lparr>m_epoch := Some e, m_updated_at := now\<rparr>) a)"
  using assms by (auto simp: orders_fit_def dest!: upd_where_in)

lemma svc_inv_cells:
  assumes "svc_inv cf rep (s, w, a)" and "cells_inv s'" and "grows s s'"
  shows "svc_inv cf rep (s', w', a)"
  using assms by (auto simp: svc_inv_def intro: grows_keyed roster_owned_grows)

lemma svc_inv_roster:
  assumes "svc_inv cf rep (s, w, a)" and "adm_inv (cf_limits cf) a'" and "same_roster a a'"
  shows "svc_inv cf rep (s, w, a')"
  using assms by (auto simp: svc_inv_def intro: roster_owned_same orders_fit_same)

lemma adm_inv_restart: "adm_inv lm a \<Longrightarrow> adm_inv lm (a\<lparr>ad_inflight := []\<rparr>)"
  by (intro adm_inv_cong[of "a\<lparr>ad_inflight := []\<rparr>" a]) simp_all

lemma svc_submit_inv:
  assumes inv: "svc_inv cf rep (s, w, a)" and sub: "submit cf k actor bp ord ms pr ck a = (res, a')" and "colon_free k"
    and "\<And>m. m \<in> set ms \<Longrightarrow> fits rep (jcanon ord) (ms_job_idx m) (ms_cell m)"
  shows "svc_inv cf rep (s, w, a')"
proof -
  have i: "cells_inv s" "activations_keyed s" "adm_inv (cf_limits cf) a" "roster_owned s a" "orders_fit rep a"
    using inv by (simp_all add: svc_inv_def)
  have adm: "adm_inv (cf_limits cf) a'" using submit_inv[OF i(3) sub] .
  show ?thesis using submit_roster[OF sub]
  proof
    assume "same_roster a a'"
    then show ?thesis using svc_inv_roster[OF inv adm] by blast
  next
    assume "enrolled k ord ms a a'"
    then have "roster_owned s a'" "orders_fit rep a'"
      using roster_owned_enrolled[OF i(4)] orders_fit_enrolled[OF i(5,3)] assms(3,4) by blast+
    then show ?thesis using i(1,2) adm by (simp add: svc_inv_def)
  qed
qed

lemma svc_member_inv:
  assumes inv: "svc_inv cf rep (s, w, a)" and rec: "record_member_epoch k j e token now a = (res, a')"
    and own: "\<And>m. m \<in> set (ad_members a) \<Longrightarrow> m_work m = k \<Longrightarrow> m_job_idx m = j \<Longrightarrow> owned_activation s k (m_cell m) e"
  shows "svc_inv cf rep (s, w, a')"
proof -
  have i: "cells_inv s" "activations_keyed s" "adm_inv (cf_limits cf) a" "roster_owned s a" "orders_fit rep a"
    using inv by (simp_all add: svc_inv_def)
  have adm: "adm_inv (cf_limits cf) a'" using record_member_epoch_inv[OF i(3) rec] .
  show ?thesis using rec
  proof (cases rule: member_epoch_cases)
    case written
    then show ?thesis using i adm roster_owned_member[OF i(4) own] orders_fit_member[OF i(5)] by (simp add: svc_inv_def)
  qed (use inv in simp)
qed

lemma svc_inv_cellsI:
  "svc_inv cf rep (s, w, a) \<Longrightarrow> (cells_inv s \<Longrightarrow> cells_inv s') \<Longrightarrow> grows s s' \<Longrightarrow> svc_inv cf rep (s', w', a)"
  by (rule svc_inv_cells) (auto simp: svc_inv_def)

lemma svc_inv_rosterI:
  "svc_inv cf rep (s, w, a) \<Longrightarrow> (adm_inv (cf_limits cf) a \<Longrightarrow> adm_inv (cf_limits cf) a') \<Longrightarrow> same_roster a a' \<Longrightarrow> svc_inv cf rep (s, w, a')"
  by (rule svc_inv_roster) (auto simp: svc_inv_def)

lemma svc_step_inv: "svc_step rv cf rep p q \<Longrightarrow> svc_inv cf rep p \<Longrightarrow> svc_inv cf rep q"
proof (induction rule: svc_step.induct)
  case (sv_restart s w a)
  then show ?case by (rule svc_inv_rosterI) (auto intro: adm_inv_restart simp: same_roster_def)
qed (blast intro: svc_submit_inv svc_member_inv svc_inv_cellsI svc_inv_rosterI adm_ops_inv
      activate_inv patch_inv take_epoch_inv ensure_inv record_mutation_inv
      activate_grows patch_grows take_epoch_grows ensure_grows record_grows
      claim_roster[folded claim_dispatch_def] record_dispatch_roster release_roster complete_roster cancel_roster
      undeliverable_roster note_roster)+

section \<open>The handlers are sequences of transactions\<close>

definition keeps_rows :: "adm \<Rightarrow> adm \<Rightarrow> bool" where
  "keeps_rows a a' \<longleftrightarrow> member_id ` set (ad_members a) \<subseteq> member_id ` set (ad_members a') \<and> set (ad_orders a) \<subseteq> set (ad_orders a')"

lemma same_roster_keeps:
  assumes "same_roster a a'"
  shows "keeps_rows a a'"
proof -
  have id: "map member_id ms = map fst (map roster_row ms)" for ms
    by (simp add: roster_row_def comp_def)
  have "map member_id (ad_members a) = map member_id (ad_members a')"
    unfolding id using assms by (simp only: same_roster_def)
  then have "set (map member_id (ad_members a)) = set (map member_id (ad_members a'))" by simp
  then show ?thesis using assms by (simp add: keeps_rows_def same_roster_def)
qed

lemma enrolled_keeps:
  assumes "enrolled k ord ms a a'"
  shows "keeps_rows a a'"
proof -
  obtain now where "map roster_row (ad_members a') = map roster_row (ad_members a @ map (new_member k now) (sort_key ms_job_idx ms))"
    using assms unfolding enrolled_def by metis
  then have "map fst (map roster_row (ad_members a')) = map fst (map roster_row (ad_members a @ map (new_member k now) (sort_key ms_job_idx ms)))"
    by simp
  then have "map member_id (ad_members a') = map member_id (ad_members a @ map (new_member k now) (sort_key ms_job_idx ms))"
    by (simp add: roster_row_def comp_def)
  then have "set (map member_id (ad_members a')) = set (map member_id (ad_members a @ map (new_member k now) (sort_key ms_job_idx ms)))"
    by simp
  then show ?thesis using assms by (auto simp: keeps_rows_def enrolled_def)
qed

lemma keeps_rows_refl [simp]: "keeps_rows a a"
  by (simp add: keeps_rows_def)

lemma submit_keeps: "submit cf k actor bp ord ms p ck a = (res, a') \<Longrightarrow> keeps_rows a a'"
  using submit_roster same_roster_keeps enrolled_keeps by blast

lemma member_keeps:
  assumes "record_member_epoch k j e token now a = (res, a')"
  shows "keeps_rows a a'"
  using assms
proof (cases rule: member_epoch_cases)
  case written
  have "map member_id (ad_members a') = map member_id (ad_members a)"
    unfolding written(4) set_members_simps by (rule map_upd_where) (simp add: member_id_def)
  then have "set (map member_id (ad_members a')) = set (map member_id (ad_members a))" by simp
  then show ?thesis by (simp add: keeps_rows_def written(4))
qed simp

lemma svc_step_keeps: "svc_step rv cf rep p q \<Longrightarrow> keeps_rows (snd (snd p)) (snd (snd q))"
proof (induction rule: svc_step.induct)
  case (sv_restart s w a)
  show ?case by (simp add: keeps_rows_def)
qed (auto intro: submit_keeps member_keeps same_roster_keeps[OF claim_roster[folded claim_dispatch_def]]
      same_roster_keeps[OF record_dispatch_roster] same_roster_keeps[OF release_roster] same_roster_keeps[OF complete_roster]
      same_roster_keeps[OF cancel_roster] same_roster_keeps[OF undeliverable_roster] same_roster_keeps[OF note_roster])

definition intent_ok :: "dispatch_intent \<Rightarrow> adm \<Rightarrow> bool" where
  "intent_ok i a \<longleftrightarrow> di_order i \<in> set (ad_orders a) \<and> o_work (di_order i) = di_work i
     \<and> (\<forall>m\<in>set (di_members i). m_work m = di_work i \<and> member_id m \<in> member_id ` set (ad_members a))"

lemma intent_ok_keeps: "intent_ok i a \<Longrightarrow> keeps_rows a a' \<Longrightarrow> intent_ok i a'"
  by (auto simp: intent_ok_def keeps_rows_def)

lemma claim_intent_ok:
  assumes "claim cf k lease now a = (Inr (Some i), a')"
  shows "intent_ok i a'"
  using assms
proof (cases rule: claim_cases)
  case (some d w ord)
  have o: "ord \<in> set (ad_orders a) \<and> o_work ord = k" using some(4) by (auto simp: work_order_def dest: select_one_SomeD)
  have m: "ad_members (claimed cf k lease now d a) = ad_members a" "ad_orders (claimed cf k lease now d a) = ad_orders a"
    by (simp_all add: claimed_def)
  show ?thesis using some(5,6) o m by (auto simp: intent_ok_def members_of_def)
qed blast

lemma submit_intent_ok:
  assumes "submit cf k actor bp ord ms p ck a = (Inr d, a')" and "de_intent d = Some i"
  shows "intent_ok i a'"
  using assms unfolding submit_def submit_new_def Let_def
  by (auto simp: duplicate_decision_def plain_decision_def Let_def split: if_splits option.splits prod.splits sum.splits
      intro: claim_intent_ok)

definition view :: "('w, 'x) factory \<Rightarrow> 'w stores" where
  "view f = (fc_cells f, fc_world f, fc_adm f)"

abbreviation env_inv :: "('w, 'x) svc_env \<Rightarrow> ('w, 'x) factory \<Rightarrow> bool" where
  "env_inv env f \<equiv> svc_inv (en_cf env) (en_rep env) (view f)"

abbreviation env_step :: "('w, 'x) svc_env \<Rightarrow> 'w stores \<Rightarrow> 'w stores \<Rightarrow> bool" where
  "env_step env \<equiv> svc_step (en_revoker env) (en_cf env) (en_rep env)"

lemma env_steps_inv: "(env_step env)\<^sup>*\<^sup>* p q \<Longrightarrow> svc_inv (en_cf env) (en_rep env) p \<Longrightarrow> svc_inv (en_cf env) (en_rep env) q"
  by (induction rule: rtranclp_induct) (auto intro: svc_step_inv)

lemma env_steps_intent: "(env_step env)\<^sup>*\<^sup>* p q \<Longrightarrow> intent_ok i (snd (snd p)) \<Longrightarrow> intent_ok i (snd (snd q))"
  by (induction rule: rtranclp_induct) (auto dest: svc_step_keeps intro: intent_ok_keeps)

definition goes :: "('w, 'x) svc_env \<Rightarrow> ('w, 'x) factory \<Rightarrow> ('w, 'x) factory \<Rightarrow> bool" where
  "goes env f g \<longleftrightarrow> (env_inv env f \<longrightarrow> (env_step env)\<^sup>*\<^sup>* (view f) (view g))"

definition goes_with :: "('w, 'x) svc_env \<Rightarrow> dispatch_intent \<Rightarrow> ('w, 'x) factory \<Rightarrow> ('w, 'x) factory \<Rightarrow> bool" where
  "goes_with env i f g \<longleftrightarrow> (env_inv env f \<longrightarrow> intent_ok i (fc_adm f) \<longrightarrow> (env_step env)\<^sup>*\<^sup>* (view f) (view g))"

interpretation goes: closed_moves "goes env" for env :: "('w, 'x) svc_env"
  by unfold_locales (auto simp: goes_def dest: env_steps_inv intro: rtranclp_trans)

lemma goes_with_trans:
  assumes "goes_with env i f g" and "goes_with env i g h"
  shows "goes_with env i f h"
  unfolding goes_with_def
proof (intro impI)
  assume inv: "env_inv env f" "intent_ok i (fc_adm f)"
  then have fg: "(env_step env)\<^sup>*\<^sup>* (view f) (view g)" using assms(1) by (simp add: goes_with_def)
  have "env_inv env g" using env_steps_inv[OF fg] inv(1) .
  moreover have "intent_ok i (fc_adm g)" using env_steps_intent[OF fg] inv(2) by (simp add: view_def)
  ultimately have "(env_step env)\<^sup>*\<^sup>* (view g) (view h)" using assms(2) by (simp add: goes_with_def)
  then show "(env_step env)\<^sup>*\<^sup>* (view f) (view h)" using fg by simp
qed

interpretation goes_with: closed_moves "goes_with env i" for env :: "('w, 'x) svc_env" and i
  by unfold_locales (simp add: goes_with_def, rule goes_with_trans)

lemma moves_with: "moves (goes env) m \<Longrightarrow> moves (goes_with env i) m"
  by (simp add: moves_def goes_def goes_with_def)

subsection \<open>Accesses that leave the stores of this theory alone\<close>

lemma moves_same_view:
  assumes "\<And>f. view (snd (m f)) = view f"
  shows "moves (goes env) m"
  using assms by (simp add: moves_def goes_def)

lemma view_with_tick [simp]: "view (f\<lparr>fc_tick := n\<rparr>) = view f"
  by (simp add: view_def)

lemma goes_next_clock: "moves (goes env) (next_clock e)"
  by (rule moves_same_view) (simp add: next_clock_def)

lemma goes_on_air: "moves (goes env) (on_air op)"
  by (rule moves_same_view) (simp add: on_air_def view_def split: prod.splits)

lemma goes_local_debt: "moves (goes env) (local (\<lambda>f. f\<lparr>fc_debt := d f\<rparr>))" "moves (goes env) (local (\<lambda>f. f\<lparr>fc_observed := o' f\<rparr>))"
  by (rule moves_same_view; simp add: local_def view_def)+

lemma goes_on_evidence: "moves (goes env) (on_evidence op)"
  by (rule moves_same_view) (simp add: on_evidence_def with_root_def view_def split: prod.splits)

lemma mutate_view:
  assumes "mutate call fn rc ck k x = (r, k', x')"
  shows "sr_cells (kn_root k') = sr_cells (kn_root k) \<and> sr_adm (kn_root k') = sr_adm (kn_root k)"
  using assms by (auto simp: mutate_def split: prod.splits sum.splits)

lemma goes_journaled: "moves (goes env) (journaled e ref budget fn rc)"
  by (rule moves_same_view) (auto simp: journaled_def on_kernel_def view_def split: prod.splits dest!: mutate_view)

lemma goes_storage: "moves (goes env) storage_authoritative"
  by (rule moves_same_view) (auto simp: storage_authoritative_def view_def split: option.splits prod.splits)

lemma goes_cell_get: "moves (goes env) (cell_get c)"
  by (rule moves_same_view) (simp add: cell_get_def)

subsection \<open>Accesses that are one transaction\<close>

lemma goes_cells:
  fixes env :: "('w, 'x) svc_env"
  assumes "\<And>s w a r s' w'. op (s, w) = (r, s', w') \<Longrightarrow> env_step env (s, w, a) (s', w', a)"
  shows "moves (goes env) (on_cells op)"
  unfolding moves_def goes_def
proof (intro allI impI)
  fix f :: "('w, 'x) factory"
  obtain r s w where op: "op (fc_cells f, fc_world f) = (r, s, w)" using prod_cases3 by blast
  then have "view (snd (on_cells op f)) = (s, w, fc_adm f)" by (simp add: on_cells_def with_root_def view_def)
  then show "(env_step env)\<^sup>*\<^sup>* (view f) (view (snd (on_cells op f)))"
    using assms[OF op, of "fc_adm f"] by (simp add: view_def[of f] r_into_rtranclp)
qed

lemma goes_patch: "moves (goes env) (cell_patch env c e key fs)"
  unfolding cell_patch_def by (intro goes.moves_andthen goes_next_clock goes_cells sv_patch)

lemma goes_activate: "moves (goes env) (cell_activate env i actor)"
  unfolding cell_activate_def by (intro goes.moves_andthen goes_next_clock goes_cells sv_activate)

lemma goes_adm:
  fixes env :: "('w, 'x) svc_env"
  assumes "\<And>s w a r a'. op a = (r, a') \<Longrightarrow> env_step env (s, w, a) (s, w, a')"
  shows "moves (goes env) (on_admission op)"
  unfolding moves_def goes_def
proof (intro allI impI)
  fix f :: "('w, 'x) factory"
  obtain r a where op: "op (fc_adm f) = (r, a)" by fastforce
  then have "view (snd (on_admission op f)) = (fc_cells f, fc_world f, a)" by (simp add: on_admission_def with_root_def view_def)
  then show "(env_step env)\<^sup>*\<^sup>* (view f) (view (snd (on_admission op f)))"
    using assms[OF op, of "fc_cells f" "fc_world f"] by (simp add: view_def[of f] r_into_rtranclp)
qed

lemma goes_claim: "moves (goes env) (adm_claim env work)"
  unfolding adm_claim_def by (intro goes.moves_andthen goes_next_clock goes_adm sv_claim)

lemma goes_complete: "moves (goes env) (adm_complete env work c e st)"
  unfolding adm_complete_def by (intro goes.moves_andthen goes_next_clock goes_adm sv_complete)

lemma goes_cancel: "moves (goes env) (adm_cancel env work reason st)"
  unfolding adm_cancel_def by (intro goes.moves_andthen goes_next_clock goes_adm sv_cancel)

lemma goes_delivered: "moves (goes env) (adm_delivered env i run)"
  unfolding adm_delivered_def by (intro goes.moves_andthen goes_next_clock goes_adm sv_delivered)

lemma goes_release: "moves (goes env) (adm_release env i err ob)"
  unfolding adm_release_def by (intro goes.moves_andthen goes_next_clock goes_adm sv_release)

lemma goes_undeliverable: "moves (goes env) (adm_undeliverable env work err ob)"
  unfolding adm_undeliverable_def
  by (intro goes.moves_andthen goes_next_clock goes_adm) (auto intro: sv_undeliverable)

lemma goes_note: "moves (goes env) (adm_note env work err ob)"
  unfolding adm_note_def by (intro goes.moves_andthen goes_next_clock goes_adm) (auto intro: sv_note)

lemma goes_assert_lease: "moves (goes env) (adm_assert_lease i)"
  unfolding adm_assert_lease_def by (rule moves_same_view) (simp add: on_admission_def with_root_def view_def)

lemma release_loop_steps:
  "(env_step env)\<^sup>*\<^sup>* (s, w, a) (s, w, snd (release_loop (en_cf env) c e st ck i ws acc a))"
proof (induction ws arbitrary: i acc a)
  case (Cons k ws)
  obtain r a1 where r: "complete (en_cf env) k c e st (ck i) a = (r, a1)" by fastforce
  have "(env_step env)\<^sup>*\<^sup>* (s, w, a) (s, w, a1)" by (rule r_into_rtranclp, rule sv_complete[OF r])
  then show ?case using r Cons.IH by (cases r) (auto intro: rtranclp_trans)
qed simp

lemma goes_release_cell:
  fixes env :: "('w, 'x) svc_env"
  shows "moves (goes env) (svc_release_cell env c e st)"
  unfolding moves_def goes_def
proof (intro allI impI)
  fix f :: "('w, 'x) factory"
  let ?l = "release_loop (en_cf env) c e st (\<lambda>i. en_clock env (fc_tick f + i)) 0 (members_for_cell c e (fc_adm f)) [] (fc_adm f)"
  have "view (snd (svc_release_cell env c e st f)) = (fc_cells f, fc_world f, snd ?l)"
    by (simp add: svc_release_cell_def release_cell_def view_def Let_def split: prod.splits)
  then show "(env_step env)\<^sup>*\<^sup>* (view f) (view (snd (svc_release_cell env c e st f)))"
    using release_loop_steps by (simp add: view_def[of f])
qed

lemmas goes_accesses [moves_intros] = goes_next_clock goes_on_air goes_local_debt goes_on_evidence goes_journaled goes_storage
  goes_cell_get goes_patch goes_activate goes_claim goes_complete goes_cancel goes_delivered goes_release goes_undeliverable
  goes_note goes_assert_lease goes_release_cell

lemmas with_accesses [moves_intros] = goes_accesses[THEN moves_with]

subsection \<open>Recording an epoch\<close>

lemma goes_with_then:
  assumes "moves (goes_with env i) m"
    and "\<And>f v f'. env_inv env f' \<Longrightarrow> intent_ok i (fc_adm f') \<Longrightarrow> m f = (Inr v, f') \<Longrightarrow> (env_step env)\<^sup>*\<^sup>* (view f') (view (snd (k v f')))"
  shows "moves (goes_with env i) (andthen m k)"
  unfolding moves_def goes_with_def
proof (intro allI impI)
  fix f assume inv: "env_inv env f" "intent_ok i (fc_adm f)"
  obtain r f' where m: "m f = (r, f')" by fastforce
  have st: "(env_step env)\<^sup>*\<^sup>* (view f) (view f')" using movesD[OF assms(1) m] inv by (simp add: goes_with_def)
  show "(env_step env)\<^sup>*\<^sup>* (view f) (view (snd (andthen m k f)))"
  proof (cases r)
    case (Inl e)
    then show ?thesis using m st by (simp add: andthen_def)
  next
    case (Inr v)
    have "env_inv env f'" using env_steps_inv[OF st] inv(1) .
    moreover have "intent_ok i (fc_adm f')" using env_steps_intent[OF st] inv(2) by (simp add: view_def)
    ultimately have "(env_step env)\<^sup>*\<^sup>* (view f') (view (snd (k v f')))" using assms(2) m Inr by blast
    then show ?thesis using m Inr st by (simp add: andthen_def)
  qed
qed

lemma member_epoch_steps:
  assumes inv: "env_inv env f" and ok: "intent_ok i (fc_adm f)" and m: "m \<in> set (di_members i)"
    and own: "owned_activation (fc_cells f) (di_work i) (m_cell m) e"
  shows "(env_step env)\<^sup>*\<^sup>* (view f) (view (snd (andthen (adm_member_epoch env i (m_job_idx m) e) (\<lambda>_. ret v) f)))"
proof -
  let ?now = "en_clock env (fc_tick f) 0"
  obtain r a where rec: "record_member_epoch (di_work i) (m_job_idx m) e (di_token i) ?now (fc_adm f) = (r, a)" by fastforce
  obtain m0 where m0: "m0 \<in> set (ad_members (fc_adm f))" "member_id m0 = member_id m" "m_work m = di_work i"
    using ok m by (force simp: intent_ok_def)
  have "primary_key member_key (ad_members (fc_adm f))" using inv by (simp add: svc_inv_def view_def adm_inv_def)
  then have one: "m2 = m0" if "m2 \<in> set (ad_members (fc_adm f))" "m_work m2 = di_work i" "m_job_idx m2 = m_job_idx m" for m2
    using that m0 unfolding primary_key_def member_key_def member_id_def
    by (metis (mono_tags, lifting) distinct_map inj_onD prod.inject)
  have "env_step env (fc_cells f, fc_world f, fc_adm f) (fc_cells f, fc_world f, a)"
    using rec
  proof (rule sv_member)
    fix m2 assume "m2 \<in> set (ad_members (fc_adm f))" "m_work m2 = di_work i" "m_job_idx m2 = m_job_idx m"
    then have "m_cell m2 = m_cell m" using one m0(2) by (simp add: member_id_def)
    then show "owned_activation (fc_cells f) (di_work i) (m_cell m2) e" using own by simp
  qed
  moreover have "view (snd (andthen (adm_member_epoch env i (m_job_idx m) e) (\<lambda>_. ret v) f)) = (fc_cells f, fc_world f, a)"
    using rec by (cases r) (simp_all add: andthen_def adm_member_epoch_def next_clock_def on_admission_def with_root_def view_def ret_def)
  ultimately show ?thesis by (simp add: view_def[of f] r_into_rtranclp)
qed

definition job_fits :: "('w, 'x) svc_env \<Rightarrow> dispatch_intent \<Rightarrow> member_row \<Rightarrow> json \<Rightarrow> bool" where
  "job_fits env i m job \<longleftrightarrow> m \<in> set (di_members i)
     \<and> (\<exists>jobs. order_jobs (o_payload (di_order i)) = Inr jobs \<and> map_of (rev jobs) (m_job_idx m) = Some job)"

lemma job_fits_cell:
  assumes "job_fits env i m job" and "env_inv env f" and "intent_ok i (fc_adm f)" and "identity_for_job (en_rep env) job = Inr ident"
  shows "stable_id ident = m_cell m"
proof -
  obtain m0 where m0: "m0 \<in> set (ad_members (fc_adm f))" "member_id m0 = member_id m" "m_work m = di_work i"
    using assms(1,3) by (force simp: intent_ok_def job_fits_def)
  have r: "di_order i \<in> set (ad_orders (fc_adm f))" "o_work (di_order i) = di_work i" using assms(3) by (auto simp: intent_ok_def)
  have w: "m_work m0 = o_work (di_order i)" using m0(2,3) r(2) by (simp add: member_id_def)
  have "orders_fit (en_rep env) (fc_adm f)" using assms(2) by (simp add: svc_inv_def view_def)
  then have "fits (en_rep env) (o_payload (di_order i)) (m_job_idx m0) (m_cell m0)"
    using m0(1) r(1) w unfolding orders_fit_def by blast
  then show ?thesis using assms(1,4) m0(2) unfolding fits_def job_fits_def member_id_def by auto
qed

lemma cell_activate_owns:
  assumes "attempt (cell_activate env ident (cell_actor actor k)) f = (Inr (Inr c), f')"
  shows "owned_activation (fc_cells f') k (stable_id ident) (cell_epoch c)"
proof -
  obtain s w where a: "activate (en_revoker env) ident (cell_actor actor k) (en_clock env (fc_tick f) 0) (fc_cells f, fc_world f) = (Inr c, s, w)"
    and s: "fc_cells f' = s"
    using assms by (auto simp: attempt_def cell_activate_def andthen_def next_clock_def on_cells_def with_root_def map_sum_def
        split: prod.splits sum.splits)
  show ?thesis using activate_owns[OF a] s by simp
qed

lemma with_activate_member:
  assumes "job_fits env i m job"
  shows "moves (goes_with env i) (activate_member env i m job (cell_actor actor (di_work i)))"
  unfolding activate_member_def
proof (rule goes_with.moves_lift_then)
  fix ident assume id: "identity_for_job (en_rep env) job = Inr ident"
  show "moves (goes_with env i) (andthen (attempt (cell_activate env ident (cell_actor actor (di_work i)))) (\<lambda>r.
     case r of
       Inl e \<Rightarrow> raise (if e = SCell CellBusy then SRefused 409 (en_show env e) else e)
     | Inr c \<Rightarrow> andthen (adm_member_epoch env i (m_job_idx m) (cell_epoch c)) (\<lambda>_. ret c)))"
  proof (rule goes_with_then)
    fix f r f'
    assume inv: "env_inv env f'" "intent_ok i (fc_adm f')"
      and run: "attempt (cell_activate env ident (cell_actor actor (di_work i))) f = (Inr r, f')"
    show "(env_step env)\<^sup>*\<^sup>* (view f') (view (snd ((case r of
         Inl e \<Rightarrow> raise (if e = SCell CellBusy then SRefused 409 (en_show env e) else e)
       | Inr c \<Rightarrow> andthen (adm_member_epoch env i (m_job_idx m) (cell_epoch c)) (\<lambda>_. ret c)) f')))"
    proof (cases r)
      case (Inr c)
      have "owned_activation (fc_cells f') (di_work i) (m_cell m) (cell_epoch c)"
        using cell_activate_owns[of env ident actor "di_work i" f c f'] run Inr job_fits_cell[OF assms inv id] by simp
      then show ?thesis using member_epoch_steps[OF inv, of m] assms Inr by (simp add: job_fits_def)
    qed (simp add: raise_def)
  qed (intro moves_intros)
qed

lemma with_adopt:
  assumes "m \<in> set (di_members i)" and "cell_id c = m_cell m" and "moves (goes_with env i) k"
  shows "moves (goes_with env i) (andthen (tap (\<lambda>f. activated_by c (cell_actor actor (di_work i)) (fc_cells f))) (\<lambda>own.
     if own then andthen (adm_member_epoch env i (m_job_idx m) (cell_epoch c)) (\<lambda>_. ret c) else k))"
proof (rule goes_with_then)
  fix f own f'
  assume inv: "env_inv env f'" "intent_ok i (fc_adm f')"
    and run: "tap (\<lambda>f. activated_by c (cell_actor actor (di_work i)) (fc_cells f)) f = (Inr own, f')"
  then have eq: "f' = f" "own = activated_by c (cell_actor actor (di_work i)) (fc_cells f')" by (auto simp: tap_def)
  show "(env_step env)\<^sup>*\<^sup>* (view f') (view (snd ((if own then andthen (adm_member_epoch env i (m_job_idx m) (cell_epoch c)) (\<lambda>_. ret c) else k) f')))"
  proof (cases own)
    case True
    then have "owned_activation (fc_cells f') (di_work i) (m_cell m) (cell_epoch c)"
      using activated_by_owns eq(2) assms(2) by metis
    then show ?thesis using member_epoch_steps[OF inv assms(1)] True by simp
  next
    case False
    then show ?thesis using assms(3) inv by (simp add: moves_def goes_with_def)
  qed
qed (intro moves_intros)

subsection \<open>Handlers\<close>

lemma unrecorded_live_id: "unrecorded_live m (get_cell c s) = Some r \<Longrightarrow> cell_id r = c"
  by (auto simp: unrecorded_live_def get_cell_def split: option.splits if_splits dest: select_one_SomeD)

lemma with_member_cell:
  assumes "job_fits env i m job"
  shows "moves (goes_with env i) (member_cell env i m job actor)"
proof -
  note act = with_activate_member[OF assms]
  have m: "m \<in> set (di_members i)" using assms by (simp add: job_fits_def)
  have rest: "moves (goes_with env i) (case unrecorded_live m (get_cell (m_cell m) s) of
       None \<Rightarrow> activate_member env i m job (cell_actor actor (di_work i))
     | Some c \<Rightarrow> andthen (tap (\<lambda>f. activated_by c (cell_actor actor (di_work i)) (fc_cells f))) (\<lambda>own.
         if own then andthen (adm_member_epoch env i (m_job_idx m) (cell_epoch c)) (\<lambda>_. ret c)
         else activate_member env i m job (cell_actor actor (di_work i))))" for s
    using with_adopt[OF m unrecorded_live_id act] act by (auto split: option.split)
  show ?thesis
    unfolding member_cell_def Let_def
    by (rule goes_with.moves_tap_then, rule goes_with.moves_lift_then, rule goes_with.moves_case_option, rule rest,
        rule goes_with.moves_ret)
qed

lemma goes_bind_policy [moves_intros]: "moves (goes env) (bind_cell_policy env c key policy g)"
  unfolding bind_cell_policy_def by (intro moves_intros)

lemma with_bind_member:
  assumes "m \<in> set (di_members i)" and "order_jobs (o_payload (di_order i)) = Inr jobs"
  shows "moves (goes_with env i) (bind_member env i jobs actor m)"
proof (cases "map_of (rev jobs) (m_job_idx m)")
  case None
  then show ?thesis by (simp add: bind_member_def goes_with.moves_raise)
next
  case (Some job)
  then have "job_fits env i m job" using assms by (simp add: job_fits_def)
  from with_member_cell[OF this] show ?thesis
    unfolding bind_member_def Some option.case Let_def
    by (intro goes_with.moves_lift_then goes_with.moves_andthen goes_bind_policy[THEN moves_with] goes_with.moves_ret)
qed

lemma with_bind_members:
  "order_jobs (o_payload (di_order i)) = Inr jobs \<Longrightarrow> moves (goes_with env i) (bind_members env i jobs actor)"
  unfolding bind_members_def by (intro goes_with.moves_for_each with_bind_member)

lemma goes_bind_run [moves_intros]: "moves (goes env) (bind_run env bs line run actor)"
  unfolding bind_run_def bind_run_one_def bind_evidence_def Let_def by (intro moves_intros)

lemma goes_cancel_activations [moves_intros]: "moves (goes env) (cancel_activations env work tag)"
  unfolding cancel_activations_def cancel_activation_def by (intro moves_intros)

lemma goes_compensate [moves_intros]: "moves (goes env) (compensate env i detail)"
  unfolding compensate_def by (intro moves_intros)

lemma goes_recover [moves_intros]: "moves (goes env) (recover_dispatch env i err lo ob)"
  unfolding recover_dispatch_def retire_dispatch_def Let_def by (intro moves_intros)

lemma goes_check_attached [moves_intros]: "moves (goes env) (check_attached env i line attached)"
  unfolding check_attached_def attached_run_def Let_def by (intro moves_intros)

lemma goes_send [moves_intros]: "moves (goes env) (send_or_recover env i line authority run conf)"
  unfolding send_or_recover_def journal_airflow_unpause_def Let_def by (intro moves_intros)

lemma with_bind_or_recover:
  "order_jobs (o_payload (di_order i)) = Inr jobs \<Longrightarrow> moves (goes_with env i) (bind_or_recover env i jobs actor)"
  unfolding bind_or_recover_def
  by (intro goes_with.moves_andthen goes_with.moves_attempt with_bind_members goes_with.moves_case_sum goes_with.moves_ret
      goes_recover[THEN moves_with] goes_with.moves_raise)

lemma with_dispatch: "moves (goes_with env i) (dispatch_intent_call env i)"
  unfolding dispatch_intent_call_def Let_def
  by (intro goes_with.moves_lift_then goes_with.moves_andthen with_bind_or_recover goes_with.moves_case_option goes_with.moves_ret
      goes_check_attached[THEN moves_with] goes_bind_run[THEN moves_with] goes_send[THEN moves_with] goes_delivered[THEN moves_with])

lemma goes_claimed:
  assumes "moves (goes env) (k None)" and "\<And>i. moves (goes_with env i) (k (Some i))"
  shows "moves (goes env) (andthen (adm_claim env work) k)"
  unfolding moves_def
proof
  fix f
  obtain r f' where c: "adm_claim env work f = (r, f')" by fastforce
  have st: "goes env f f'" using movesD[OF goes_claim c] .
  have ok: "intent_ok i (fc_adm f')" if ri: "r = Inr (Some i)" for i
  proof -
    obtain a where "claim (en_cf env) work None (en_clock env (fc_tick f) 0) (fc_adm f) = (Inr (Some i), a)" "fc_adm f' = a"
      using c ri by (auto simp: adm_claim_def andthen_def next_clock_def on_admission_def with_root_def claim_dispatch_def map_sum_def
          split: prod.splits sum.splits)
    then show ?thesis using claim_intent_ok by blast
  qed
  have "goes env f' (snd (k v f'))" if "r = Inr v" for v
    using assms that ok[of "the v"] by (cases v) (auto simp: moves_def goes_def goes_with_def)
  then show "goes env f (snd (andthen (adm_claim env work) k f))"
    using c st goes.R_trans by (cases r) (fastforce simp: andthen_def)+
qed

lemma goes_deliver [moves_intros]: "moves (goes env) (deliver env work)"
  unfolding deliver_def
  by (rule goes_claimed) (simp_all add: goes.moves_ret goes_with.moves_andthen with_dispatch goes_with.moves_ret)

lemma goes_resume_one [moves_intros]: "moves (goes env) (resume_one env work)"
  unfolding resume_one_def
  by (rule goes_claimed) (simp_all add: goes.moves_ret goes_with.moves_andthen goes_with.moves_attempt with_dispatch goes_with.moves_ret)

lemma goes_resume_rounds [moves_intros]: "moves (goes env) (resume_rounds env limit n seen)"
  by (induction n arbitrary: seen) (simp_all, (intro moves_intros | assumption)+)

lemma goes_settle [moves_intros]: "moves (goes env) (settle_lost_report env work c)"
  unfolding settle_lost_report_def adopt_run_end_def evidence_append_def clear_debt_def note_debt_def Let_def by (intro moves_intros)

lemma goes_held_outcome [moves_intros]: "moves (goes env) (held_outcome env answering work c e)"
  unfolding held_outcome_def note_debt_def by (intro moves_intros)

lemma goes_reconcile_loop [moves_intros]: "moves (goes env) (reconcile_loop env answering ms)"
proof (induction ms arbitrary: answering)
  case (Cons x ms)
  obtain work c e where x: "x = (work, c, e)" by (rule prod_cases3)
  show ?case unfolding x reconcile_loop.simps by (intro moves_intros Cons.IH)
qed (simp add: goes.moves_ret)

lemma goes_resume [moves_intros]: "moves (goes env) (resume_dispatch env limit rounds)"
  unfolding resume_dispatch_def reconcile_held_units_def by (intro moves_intros)

lemma goes_transition: "moves (goes env) (transition_call env body)"
  unfolding transition_call_def transition_cleaned_def transition_state_def transition_evidence_def evidence_append_def
    patch_or_current_def cell_or_404_def cell_at_def journal_airflow_cancel_def
  by (intro moves_intros)

lemma goes_queue_cancel: "moves (goes env) (queue_cancel env body)"
  unfolding queue_cancel_def by (intro moves_intros)

subsection \<open>Submission\<close>

lemma for_each_lift:
  "for_each (\<lambda>x. lift_result (g x)) xs f = (Inr ys, f') \<Longrightarrow> f' = f \<and> list_all2 (\<lambda>x y. g x = Inr y) xs ys"
proof (induction xs arbitrary: ys f)
  case (Cons x xs)
  then show ?case by (fastforce simp: andthen_def lift_result_def ret_def split: sum.splits prod.splits)
qed (simp add: ret_def)

lemma jobs_by_index_in:
  "jobs_by_index js = Inr kvs \<Longrightarrow> (n, j) \<in> set kvs \<Longrightarrow> j \<in> set js \<and> (\<exists>v. jget ''job_idx'' j = Some v \<and> py_int v = Some n)"
  by (induction js arbitrary: kvs) (auto split: option.splits sum.splits)

text \<open>The job the order keeps has the index and the identity of the job it was made from.\<close>

lemma order_job_identity:
  assumes "order_job env line (job_doc n issue t) = Inr k"
  shows "jget ''job_idx'' (jcanon k) = Some (JInt (int n))"
    and "identity_for_job rep (jcanon k) = identity_for_job rep (job_doc n issue t)"
proof -
  obtain d where k: "k = JObj [(''job_idx'', JInt (int n)), (''repo'', JStr (tg_repo t)), (''issue'', JStr issue), (''dir'', JStr (tg_dir t)),
      (''base_branch'', JStr (tg_branch t)), (''policy_digest'', JStr d)]"
    using assms by (auto simp: order_job_def job_doc_def job_str_def jget_or_def split: sum.splits)
  have c: "jcanon k = JObj [(''base_branch'', JStr (tg_branch t)), (''dir'', JStr (tg_dir t)), (''issue'', JStr issue),
      (''job_idx'', JInt (int n)), (''policy_digest'', JStr d), (''repo'', JStr (tg_repo t))]"
    unfolding k by simp
  show "jget ''job_idx'' (jcanon k) = Some (JInt (int n))" by (simp add: c)
  have "job_dir rep (jcanon k) = job_dir rep (job_doc n issue t)" "job_branch rep (jcanon k) = job_branch rep (job_doc n issue t)"
    by (simp_all add: c job_doc_def job_dir_def job_branch_def jget_or_def)
  then have "cell_target rep (jcanon k) = cell_target rep (job_doc n issue t)" by (simp only: cell_target_def)
  moreover have "jget ''repo'' (jcanon k) = jget ''repo'' (job_doc n issue t)" "jget ''issue'' (jcanon k) = jget ''issue'' (job_doc n issue t)"
    by (simp_all add: c job_doc_def)
  ultimately show "identity_for_job rep (jcanon k) = identity_for_job rep (job_doc n issue t)"
    by (simp only: identity_for_job_def)
qed

lemma request_keys:
  "map fst (request_doc line identity jobs issues targets actor p run @
     [(''request_digest'', a), (''desired_epochs'', b), (''conf'', c), (''generation'', d), (''dag_run_id'', e)])
   = [''schema_version'', ''line'', ''actor'', ''priority'', ''issues'', ''targets'', ''blueprint'', ''jobs'']
     @ (case run of None \<Rightarrow> [] | Some _ \<Rightarrow> [''airflow_run_id'']) @ [''request_digest'', ''desired_epochs'', ''conf'', ''generation'', ''dag_run_id'']"
  by (simp add: request_doc_def split: option.splits)

lemma order_jobs_canon:
  assumes "ord = JObj (request_doc line identity jobs issues targets actor p run @
     [(''request_digest'', a), (''desired_epochs'', b), (''conf'', c), (''generation'', d), (''dag_run_id'', e)])"
  shows "order_jobs (jcanon ord) = jobs_by_index (map jcanon jobs)"
proof -
  have "jget0 ''jobs'' (jcanon ord) = jcanon (JArr jobs)"
    unfolding assms by (rule jget_jcanon) (simp_all add: request_keys request_doc_def split: option.splits)
  then have "jget ''jobs'' (jcanon ord) = Some (JArr (map jcanon jobs))"
    by (auto simp: jget_or_def split: option.splits)
  then show ?thesis by (simp add: order_jobs_def)
qed

lemma blueprint_jobs_docs:
  "blueprint_jobs line issues wanted = Inr jobs \<Longrightarrow> \<exists>ps. jobs = map (\<lambda>(n, i, t). job_doc n i t) (enumerate 0 ps)"
  by (auto simp: blueprint_jobs_def Let_def split: sum.splits if_splits)

lemma member_spec_job_doc:
  assumes "member_spec_of env (job_doc n i t) = Inr m"
  shows "ms_job_idx m = int n" and "\<exists>ident. identity_for_job (en_rep env) (job_doc n i t) = Inr ident \<and> ms_cell m = stable_id ident"
  using assms by (auto simp: member_spec_of_def job_doc_def jget_or_def split: sum.splits)

lemma submitted_fits:
  assumes jobs: "jobs = map (\<lambda>(n, i, t). job_doc n i t) (enumerate 0 ps)"
    and kept: "list_all2 (\<lambda>job k. order_job env (bl_name line) job = Inr k) jobs kept"
    and specs: "list_all2 (\<lambda>job m. member_spec_of env job = Inr m) jobs ms"
    and ord: "ord = JObj (request_doc line identity kept issues targets actor p run @
       [(''request_digest'', a), (''desired_epochs'', b), (''conf'', c), (''generation'', d), (''dag_run_id'', e)])"
    and m: "m \<in> set ms"
  shows "fits (en_rep env) (jcanon ord) (ms_job_idx m) (ms_cell m)"
  unfolding fits_def order_jobs_canon[OF ord]
proof (intro allI impI)
  fix js job ident
  assume js: "jobs_by_index (map jcanon kept) = Inr js" and job: "map_of (rev js) (ms_job_idx m) = Some job"
    and id: "identity_for_job (en_rep env) job = Inr ident"
  have nth: "jobs ! q = job_doc q (fst (ps ! q)) (snd (ps ! q))" if "q < length jobs" for q
    using that by (simp add: jobs nth_enumerate_eq split: prod.splits)
  obtain q where q: "q < length ms" "ms ! q = m" using m by (auto simp: in_set_conv_nth)
  then have qj: "q < length jobs" "member_spec_of env (jobs ! q) = Inr m"
    using specs by (auto simp: list_all2_conv_all_nth)
  note mq = member_spec_job_doc[OF qj(2)[unfolded nth[OF qj(1)]]]
  have "(ms_job_idx m, job) \<in> set js" using map_of_SomeD[OF job] by simp
  from jobs_by_index_in[OF js this] obtain v where v: "job \<in> jcanon ` set kept" "jget ''job_idx'' job = Some v" "py_int v = Some (ms_job_idx m)"
    by auto
  then obtain r where r: "r < length kept" "job = jcanon (kept ! r)" by (metis image_iff in_set_conv_nth)
  then have rj: "r < length jobs" "order_job env (bl_name line) (jobs ! r) = Inr (kept ! r)"
    using kept by (auto simp: list_all2_conv_all_nth)
  note kr = order_job_identity[OF rj(2)[unfolded nth[OF rj(1)]]]
  have "r = q" using kr(1) v(2,3) r(2) mq(1) by auto
  then have "identity_for_job (en_rep env) (job_doc q (fst (ps ! q)) (snd (ps ! q))) = Inr ident" using kr(2) r(2) id by simp
  then show "stable_id ident = ms_cell m" using mq(2) by auto
qed

lemma work_id_colon_free: "colon_free (work_id_for fr request desired)"
proof -
  have "is_hex x" if "x \<in> set (take 32 (sha256_hex msg))" for x msg
    using that by (auto dest!: in_set_takeD sha256_hex_is_hex)
  then show ?thesis by (fastforce simp: colon_free_def work_id_for_def is_hex_def hex_digits_def)
qed

lemma work_order_doc_shape:
  assumes "work_order_doc env line jobs issues targets actor p run f = (Inr (work, ord), f')"
  shows "colon_free work \<and> (\<exists>identity kept a b c d e. list_all2 (\<lambda>job k. order_job env (bl_name line) job = Inr k) jobs kept
     \<and> ord = JObj (request_doc line identity kept issues targets actor p run @
          [(''request_digest'', a), (''desired_epochs'', b), (''conf'', c), (''generation'', d), (''dag_run_id'', e)]))"
  using assms unfolding work_order_doc_def Let_def
  by (auto simp: andthen_def lift_result_def[of "blueprint_identity env line"] ret_def work_id_colon_free
      split: sum.splits prod.splits dest!: for_each_lift) blast

lemma goes_intent_then:
  assumes "moves (goes env) m"
    and "\<And>f v f'. m f = (Inr v, f') \<Longrightarrow> moves (goes env) (k v) \<or> (\<exists>i. intent_ok i (fc_adm f') \<and> moves (goes_with env i) (k v))"
  shows "moves (goes env) (andthen m k)"
  unfolding moves_def
proof
  fix f
  obtain r f' where m: "m f = (r, f')" by fastforce
  have st: "goes env f f'" using movesD[OF assms(1) m] .
  have "goes env f' (snd (k v f'))" if "r = Inr v" for v
    using assms(2)[of f v f'] m that by (auto simp: moves_def goes_def goes_with_def)
  then show "goes env f (snd (andthen m k f))"
    using m st goes.R_trans by (cases r) (fastforce simp: andthen_def)+
qed

lemma goes_submitted:
  assumes fit: "\<And>m. m \<in> set ms \<Longrightarrow> fits (en_rep env) (jcanon ord) (ms_job_idx m) (ms_cell m)" and "colon_free work"
    and "\<And>e. moves (goes env) (k (Inl e))"
    and "\<And>d. de_intent d = None \<Longrightarrow> moves (goes env) (k (Inr d))"
    and "\<And>d i. de_intent d = Some i \<Longrightarrow> moves (goes_with env i) (k (Inr d))"
  shows "moves (goes env) (andthen (attempt (on_admission (submit (en_cf env) work actor bp ord ms p ck))) k)"
proof (rule goes_intent_then)
  show "moves (goes env) (attempt (on_admission (submit (en_cf env) work actor bp ord ms p ck)))"
    by (intro goes.moves_attempt goes_adm) (auto intro: sv_submit fit assms(2))
  fix f v f'
  assume run: "attempt (on_admission (submit (en_cf env) work actor bp ord ms p ck)) f = (Inr v, f')"
  show "moves (goes env) (k v) \<or> (\<exists>i. intent_ok i (fc_adm f') \<and> moves (goes_with env i) (k v))"
  proof (cases v)
    case (Inr d)
    then obtain a where a: "submit (en_cf env) work actor bp ord ms p ck (fc_adm f) = (Inr d, a)" and f': "fc_adm f' = a"
      using run by (auto simp: attempt_def on_admission_def with_root_def map_sum_def split: prod.splits sum.splits)
    show ?thesis
      using assms(4,5) Inr submit_intent_ok[OF a] f' by (cases "de_intent d") auto
  qed (use assms(3) in simp)
qed

lemma goes_work_document [moves_intros]: "moves (goes env) (work_document env work)"
  unfolding work_document_def member_doc_def Let_def by (intro moves_intros)

lemma goes_after_decision: "de_intent d = None \<Longrightarrow> moves (goes env) (after_decision env work issues jobs line d)"
  unfolding after_decision_def option.case by (simp, intro impI conjI moves_intros)

lemma with_after_decision: "de_intent d = Some i \<Longrightarrow> moves (goes_with env i) (after_decision env work issues jobs line d)"
  unfolding after_decision_def
  by (simp, intro impI conjI goes_with.moves_raise goes_with.moves_andthen goes_with.moves_ret with_dispatch
      goes_resume[THEN moves_with] goes_work_document[THEN moves_with])

lemma goes_work_order_doc [moves_intros]: "moves (goes env) (work_order_doc env line jobs issues targets actor p run)"
  unfolding work_order_doc_def desired_epoch_def Let_def by (intro moves_intros)

lemma goes_mutation_ready [moves_intros]: "moves (goes env) (mutation_ready env)"
  unfolding mutation_ready_def by (intro moves_intros)

lemma goes_admitted:
  assumes "blueprint_jobs line issues targets = Inr jobs"
  shows "moves (goes env) (andthen (work_order_doc env line jobs issues targets actor p run) (\<lambda>(work, ord).
     andthen (for_each (\<lambda>job. lift_result (member_spec_of env job)) jobs) (\<lambda>ms.
     andthen (next_clock env) (\<lambda>ck.
     andthen (attempt (on_admission (submit (en_cf env) work actor (bl_name line) ord ms p ck))) (\<lambda>r.
     case r of
       Inl e \<Rightarrow> raise (if e = SAdmission WorkOrderConflict then SRefused 409 (en_show env e) else e)
     | Inr d \<Rightarrow> after_decision env work issues jobs (bl_name line) d)))))"
proof -
  obtain ps where ps: "jobs = map (\<lambda>(n, i, t). job_doc n i t) (enumerate 0 ps)" using blueprint_jobs_docs[OF assms] by blast
  show ?thesis
  proof (rule goes.moves_then[OF goes_work_order_doc], clarify, rule goes.moves_then, intro moves_intros)
    fix f :: "('a, 'b) factory" and work ord f' and g :: "('a, 'b) factory" and ms g'
    assume wo: "work_order_doc env line jobs issues targets actor p run f = (Inr (work, ord), f')"
      and sp: "for_each (\<lambda>job. lift_result (member_spec_of env job)) jobs g = (Inr ms, g')"
    have ms: "list_all2 (\<lambda>job m. member_spec_of env job = Inr m) jobs ms" using for_each_lift[OF sp] by blast
    have cf: "colon_free work" using work_order_doc_shape[OF wo] by blast
    have fit: "fits (en_rep env) (jcanon ord) (ms_job_idx m) (ms_cell m)" if m: "m \<in> set ms" for m
      using work_order_doc_shape[OF wo] submitted_fits[OF ps _ ms _ m] by blast
    show "moves (goes env) (andthen (next_clock env) (\<lambda>ck.
       andthen (attempt (on_admission (submit (en_cf env) work actor (bl_name line) ord ms p ck))) (\<lambda>r.
       case r of
         Inl e \<Rightarrow> raise (if e = SAdmission WorkOrderConflict then SRefused 409 (en_show env e) else e)
       | Inr d \<Rightarrow> after_decision env work issues jobs (bl_name line) d)))"
      by (rule goes.moves_andthen[OF goes_next_clock], rule goes_submitted[OF fit cf])
        (simp_all add: goes.moves_raise goes_after_decision with_after_decision)
  qed
qed

lemma goes_guard: "moves (goes env) (if b then on_air op else ret ())"
  by (simp add: goes_on_air goes.moves_ret)

lemma goes_submit: "moves (goes env) (submit_call env guard body)"
  unfolding submit_call_def
  by (rule goes.moves_andthen[OF goes_mutation_ready], rule goes.moves_andthen[OF goes.moves_check],
      (rule goes.moves_lift_then | rule goes.moves_andthen[OF goes.moves_check] | rule goes.moves_andthen[OF goes_guard])+, erule goes_admitted)

section \<open>One activation, one order\<close>

text \<open>The backend runs handlers, and other writers run single transactions between them.\<close>

inductive backend_step :: "('w, 'x) svc_env \<Rightarrow> ('w, 'x) factory \<Rightarrow> ('w, 'x) factory \<Rightarrow> bool" for env where
  bs_submit: "submit_call env guard body f = (rs, f') \<Longrightarrow> backend_step env f f'"
| bs_resume: "resume_dispatch env limit rounds f = (rr, f') \<Longrightarrow> backend_step env f f'"
| bs_transition: "transition_call env body f = (rt, f') \<Longrightarrow> backend_step env f f'"
| bs_queue_cancel: "queue_cancel env body f = (rq, f') \<Longrightarrow> backend_step env f f'"
| bs_other: "env_step env (view f) (view f') \<Longrightarrow> backend_step env f f'"

definition fresh_backend :: "('w, 'x) factory \<Rightarrow> bool" where
  "fresh_backend f \<longleftrightarrow> fc_cells f = empty_store \<and> fc_adm f = empty_adm"

lemma backend_step_goes: "backend_step env f f' \<Longrightarrow> goes env f f'"
proof (induction rule: backend_step.induct)
  case (bs_other f f')
  then show ?case by (simp add: goes_def r_into_rtranclp)
qed (erule movesD[OF goes_submit] movesD[OF goes_resume] movesD[OF goes_transition] movesD[OF goes_queue_cancel])+

lemma fresh_backend_inv: "fresh_backend f \<Longrightarrow> env_inv env f"
  by (simp add: fresh_backend_def svc_inv_def view_def cells_inv_empty empty_adm_inv activations_keyed_def roster_owned_def orders_fit_def)
    (simp add: empty_store_def empty_adm_def)

interpretation backend: inductive_invariant fresh_backend "backend_step env" "env_inv env" for env :: "('w, 'x) svc_env"
  by unfold_locales (auto simp: fresh_backend_inv goes_def dest!: backend_step_goes intro: env_steps_inv)

abbreviation reachable_backend :: "('w, 'x) svc_env \<Rightarrow> ('w, 'x) factory \<Rightarrow> bool" where
  "reachable_backend env \<equiv> reach fresh_backend (backend_step env)"

lemma reachable_one_order:
  assumes "env_inv env f" and "m1 \<in> set (ad_members (fc_adm f))" and "m2 \<in> set (ad_members (fc_adm f))"
    and "m_cell m1 = m_cell m2" and "m_epoch m1 = Some e" and "m_epoch m2 = Some e"
  shows "m_work m1 = m_work m2"
proof -
  have inv: "cells_inv (fc_cells f)" "activations_keyed (fc_cells f)" "roster_owned (fc_cells f) (fc_adm f)"
    using assms(1) by (simp_all add: svc_inv_def view_def)
  have "owned_activation (fc_cells f) (m_work m1) (m_cell m1) e" "owned_activation (fc_cells f) (m_work m2) (m_cell m1) e"
    "colon_free (m_work m1)" "colon_free (m_work m2)"
    using inv(3) assms(2-6) by (auto simp: roster_owned_def)
  then show ?thesis using one_owner[OF inv(1,2)] by (simp add: colon_free_def)
qed

text \<open>C5: in every state the backend reaches, by its handlers and by transactions of others between them, an epoch an
  order has recorded for a member is an epoch of the member's Cell whose activation event names that order; so no
  two orders ever hold the same activation, and the end of an activation releases the units of one order only.\<close>

theorem activation_belongs_to_one_order:
  assumes "reachable_backend env f" and "m \<in> set (ad_members (fc_adm f))" and "m_epoch m = Some e"
  shows "(\<exists>actor. activation_event (fc_cells f) (m_cell m) e (cell_actor actor (m_work m)))
    \<and> (\<forall>m2. m2 \<in> set (ad_members (fc_adm f)) \<and> m_cell m2 = m_cell m \<and> m_epoch m2 = Some e \<longrightarrow> m_work m2 = m_work m)
    \<and> set (members_for_cell (m_cell m) e (fc_adm f)) \<subseteq> {m_work m}"
proof (intro conjI allI impI)
  have inv: "env_inv env f" using backend.reach_inv[OF assms(1)] .
  then have "roster_owned (fc_cells f) (fc_adm f)" by (simp add: svc_inv_def view_def)
  then show "\<exists>actor. activation_event (fc_cells f) (m_cell m) e (cell_actor actor (m_work m))"
    using assms(2,3) by (auto simp: roster_owned_def owned_activation_def)
  show one: "m_work m2 = m_work m" if "m2 \<in> set (ad_members (fc_adm f)) \<and> m_cell m2 = m_cell m \<and> m_epoch m2 = Some e" for m2
    using reachable_one_order[OF inv _ assms(2)] that assms(3) by blast
  show "set (members_for_cell (m_cell m) e (fc_adm f)) \<subseteq> {m_work m}"
    using one by (auto simp: members_for_cell_def join_work_def)
qed

text \<open>A concrete order: submitted, its Cell activated in its name, and the epoch recorded.\<close>

definition owner_adm :: adm where
  "owner_adm = snd (submit demo_cf ''w'' ''ann'' ''bp'' demo_order [demo_member ''r'' (stable_id demo_identity)] NORMAL (\<lambda>i. 0) empty_adm)"

definition owner_cells :: cell_store where
  "owner_cells = fst (snd (activate None demo_identity (cell_actor ''ann'' ''w'') 1 (empty_store, ())))"

definition owner_token :: string where
  "owner_token = claim_token demo_cf ''w'' 1 0"

definition owner_recorded :: adm where
  "owner_recorded = snd (record_member_epoch ''w'' 0 1 owner_token 1 owner_adm)"

definition demo_factory :: "cell_store \<Rightarrow> adm \<Rightarrow> (unit, nat) factory" where
  "demo_factory s a =
     \<lparr>fc_kernel = \<lparr>kn_root = \<lparr>sr_files = (\<lambda>n. None), sr_evidence_dir = None, sr_cells = s, sr_journal = [], sr_adm = a,
        sr_restore_open = None, sr_evidence = empty_root, sr_cell_dirs = [], sr_marker = None, sr_archive = []\<rparr>,
        kn_gate = None, kn_core = True\<rparr>,
      fc_world = (), fc_debt = [], fc_observed = [], fc_tick = 0, fc_air = 0\<rparr>"

definition demo_env :: "(unit, nat) svc_env" where
  "demo_env = \<lparr>en_cf = demo_cf, en_rep = (\<lambda>v. []), en_show = (\<lambda>e. ''error''), en_clock = (\<lambda>i j. 0), en_owner = (\<lambda>i. ''o''), en_revoker = None,
     en_airflow = (\<lambda>m p b x. (Inr (404, JNull), Suc x)), en_lines = (\<lambda>n. Inl (SValueError ''line'')), en_drain = [], en_generation = [],
     en_autonomy_revision = [], en_airflow_url = []\<rparr>"

lemma demo_factory_simps [simp]:
  "fc_cells (demo_factory s a) = s" "fc_adm (demo_factory s a) = a" "fc_world (demo_factory s a) = ()"
  "view (demo_factory s a) = (s, (), a)"
  by (simp_all add: demo_factory_def view_def)

lemma demo_env_simps [simp]: "en_cf demo_env = demo_cf" "en_revoker demo_env = None" "en_clock demo_env = (\<lambda>i j. 0)"
  by (simp_all add: demo_env_def)

lemma owner_member:
  "ad_members owner_recorded = [\<lparr>m_work = ''w'', m_job_idx = 0, m_repo = ''r'', m_cell = stable_id demo_identity, m_epoch = Some 1,
      m_state = Held, m_created_at = 0, m_updated_at = 1\<rparr>]"
  unfolding owner_recorded_def owner_adm_def owner_token_def
  by (simp add: eval_submit record_member_epoch_def lease_ok_def set_members_def rowcount_def)

lemma owner_adm_member:
  "ad_members owner_adm = [\<lparr>m_work = ''w'', m_job_idx = 0, m_repo = ''r'', m_cell = stable_id demo_identity, m_epoch = None,
      m_state = Held, m_created_at = 0, m_updated_at = 0\<rparr>]"
  unfolding owner_adm_def by (simp add: eval_submit)

lemma owner_cells_eq:
  "owner_cells = \<lparr>cs_cells = [\<lparr>cell_id = stable_id demo_identity, cell_schema = 1,
      cell_repo = ''acme/shop'', cell_target = ''.'', cell_issue = ''7'', cell_epoch = 1,
      cell_state = ''dispatching'', cell_dag_id = None, cell_run_id = None, cell_map_index = None,
      cell_generation = None, cell_policy_digest = None, cell_base_sha = None,
      cell_observed_sha = None, cell_compute = JNull, cell_cleanup = JNull, cell_created_at = 1,
      cell_updated_at = 1\<rparr>],
     cs_events = [\<lparr>ev_seq = 1, ev_cell = stable_id demo_identity, ev_epoch = 1,
      ev_key = ''activation:1'', ev_kind = ''activated'', ev_payload = JObj [(''actor'', JStr ''backend:ann:w'')],
      ev_at = 1\<rparr>], cs_seq = 1\<rparr>"
  by (simp add: owner_cells_def activate_def Let_def insert_identity_def empty_store_def get_cell_def
      rowcount_def upd_where_def append_event_def activate_row_def int_str_def nat_str.simps
      digit_char_def demo_identity_def cell_actor_def)

lemma owner_reach: "reachable_backend demo_env (demo_factory owner_cells owner_recorded)"
proof -
  have r0: "reachable_backend demo_env (demo_factory empty_store empty_adm)"
    by (rule reach_init) (simp add: fresh_backend_def)
  have "env_step demo_env (empty_store, (), empty_adm) (empty_store, (), owner_adm)"
    unfolding demo_env_simps owner_adm_def
    by (rule sv_submit[OF surjective_pairing])
      (simp_all add: colon_free_def fits_def order_jobs_def demo_order_def)
  then have r1: "reachable_backend demo_env (demo_factory empty_store owner_adm)"
    by (intro reach_step[OF r0] bs_other) simp
  have "env_step demo_env (empty_store, (), owner_adm) (owner_cells, (), owner_adm)"
    unfolding demo_env_simps owner_cells_def
    by (rule sv_activate[of _ demo_identity "cell_actor ''ann'' ''w''" 1]) (simp add: prod_eq_iff)
  then have r2: "reachable_backend demo_env (demo_factory owner_cells owner_adm)"
    by (intro reach_step[OF r1] bs_other) simp
  have own: "owned_activation owner_cells ''w'' (stable_id demo_identity) 1"
    by (auto simp: owned_activation_def activation_event_def owner_cells_eq cell_actor_def intro: exI[of _ "''ann''"])
  have "env_step demo_env (owner_cells, (), owner_adm) (owner_cells, (), owner_recorded)"
    unfolding owner_recorded_def by (rule sv_member[OF surjective_pairing]) (simp add: owner_adm_member own)
  then show ?thesis by (intro reach_step[OF r2] bs_other) simp
qed

theorem activation_belongs_to_one_order_witness:
  "map (\<lambda>m. (m_work m, m_epoch m)) (ad_members (fc_adm (demo_factory owner_cells owner_recorded))) = [(''w'', Some 1)]
   \<and> (\<exists>actor. activation_event owner_cells (stable_id demo_identity) 1 (cell_actor actor ''w''))
   \<and> set (members_for_cell (stable_id demo_identity) 1 owner_recorded) \<subseteq> {''w''}"
  using activation_belongs_to_one_order[OF owner_reach, of _ 1] by (simp add: owner_member)

section \<open>Undoing activations\<close>

text \<open>What the loop over the members of an order may change in the Cell store.\<close>

definition closable :: "member_row list \<Rightarrow> string \<Rightarrow> cell_row \<Rightarrow> bool" where
  "closable ms c row \<longleftrightarrow> (\<exists>m\<in>set ms. m_cell m = c \<and> m_epoch m = Some (cell_epoch row))
     \<and> cell_state row \<in> set LIVE_CELL_STATES \<and> \<not> nonempty (cell_run_id row)"

definition closes :: "member_row list \<Rightarrow> ('w, 'x) factory \<Rightarrow> ('w, 'x) factory \<Rightarrow> bool" where
  "closes ms f g \<longleftrightarrow> fc_adm g = fc_adm f \<and>
     (\<forall>c. get_cell c (fc_cells g) = get_cell c (fc_cells f)
        \<or> (\<exists>row row'. get_cell c (fc_cells f) = Some row \<and> closable ms c row \<and> get_cell c (fc_cells g) = Some row'
             \<and> cell_state row' = ''cancelled'' \<and> cell_epoch row' = cell_epoch row))"

lemma closes_trans:
  assumes "closes ms f g" and "closes ms g h"
  shows "closes ms f h"
  unfolding closes_def
proof (intro conjI allI)
  show "fc_adm h = fc_adm f" using assms by (simp add: closes_def)
  fix c
  have fg: "get_cell c (fc_cells g) = get_cell c (fc_cells f)
      \<or> (\<exists>row row'. get_cell c (fc_cells f) = Some row \<and> closable ms c row \<and> get_cell c (fc_cells g) = Some row'
           \<and> cell_state row' = ''cancelled'' \<and> cell_epoch row' = cell_epoch row)"
    using assms(1) by (simp add: closes_def)
  have gh: "get_cell c (fc_cells h) = get_cell c (fc_cells g)
      \<or> (\<exists>row row'. get_cell c (fc_cells g) = Some row \<and> closable ms c row \<and> get_cell c (fc_cells h) = Some row'
           \<and> cell_state row' = ''cancelled'' \<and> cell_epoch row' = cell_epoch row)"
    using assms(2) by (simp add: closes_def)
  have "\<not> closable ms c row'" if "cell_state row' = ''cancelled''" for row'
    using that by (simp add: closable_def LIVE_CELL_STATES_def)
  then show "get_cell c (fc_cells h) = get_cell c (fc_cells f)
      \<or> (\<exists>row row'. get_cell c (fc_cells f) = Some row \<and> closable ms c row \<and> get_cell c (fc_cells h) = Some row'
           \<and> cell_state row' = ''cancelled'' \<and> cell_epoch row' = cell_epoch row)"
    using fg gh by (metis option.inject)
qed

interpretation closes: closed_moves "closes ms" for ms :: "member_row list"
  by unfold_locales (simp add: closes_def, rule closes_trans)

lemma patch_state_rows:
  assumes "patch rv c e key [F_state st] now (s, w) = (res, s', w')"
  shows "get_cell d s' = get_cell d s
    \<or> (\<exists>row. d = c \<and> get_cell c s = Some row \<and> cell_epoch row = e
         \<and> get_cell c s' = Some (row\<lparr>cell_state := st, cell_updated_at := now\<rparr>))"
  using assms
proof (cases rule: patch_cases)
  case (ok s1)
  have s1: "cs_cells s1 = cs_cells s" using append_event_Inr(1)[OF ok(3)] by simp
  have g: "get_cell d s' = map_option (\<lambda>r. if cell_id r = c \<and> cell_epoch r = e then r\<lparr>cell_state := st, cell_updated_at := now\<rparr> else r) (get_cell d s)"
    unfolding ok(4) get_cell_def by (simp add: s1) (rule select_one_upd_where, simp)
  show ?thesis
  proof (cases "get_cell d s")
    case (Some r)
    then have "cell_id r = d" by (auto simp: get_cell_def dest: select_one_SomeD)
    then show ?thesis using g Some by auto
  qed (use g in simp)
qed simp

lemma closes_cancel_activation:
  assumes "m \<in> set ms"
  shows "moves (closes ms) (cancel_activation env tag m)"
  unfolding moves_def
proof
  fix f
  show "closes ms f (snd (cancel_activation env tag m f))"
  proof (cases "m_epoch m")
    case None
    then show ?thesis by (simp add: cancel_activation_def ret_def closes_def)
  next
    case (Some e)
    show ?thesis
    proof (cases "\<exists>row. get_cell (m_cell m) (fc_cells f) = Some row \<and> cell_epoch row = e
        \<and> cell_state row \<in> set LIVE_CELL_STATES \<and> \<not> nonempty (cell_run_id row)")
      case False
      then show ?thesis
        using Some by (auto simp: cancel_activation_def andthen_def tap_def ret_def closes_def split: option.splits)
    next
      case True
      then obtain row where row: "get_cell (m_cell m) (fc_cells f) = Some row" "cell_epoch row = e"
          "cell_state row \<in> set LIVE_CELL_STATES" "\<not> nonempty (cell_run_id row)" by blast
      obtain r s w where p: "patch (en_revoker env) (m_cell m) e (tag @ '':'' @ int_str (m_job_idx m)) [F_state ''cancelled'']
          (en_clock env (fc_tick f) 0) (fc_cells f, fc_world f) = (r, s, w)" using prod_cases3 by blast
      let ?g = "snd (cancel_activation env tag m f)"
      have g: "fc_cells ?g = s" "fc_adm ?g = fc_adm f"
        using Some row p by (auto simp: cancel_activation_def andthen_def tap_def ret_def raise_def attempt_def cell_patch_def next_clock_def
            on_cells_def with_root_def split: sum.splits)
      have "closable ms (m_cell m) row" using assms row Some by (auto simp: closable_def)
      then show ?thesis using patch_state_rows[OF p] row g by (fastforce simp: closes_def)
    qed
  qed
qed

lemma andthen_tap: "andthen (tap g) k f = k (g f) f"
  by (simp add: andthen_def tap_def)

lemma cancel_activations_closes:
  assumes "cancel_activations env work tag f = (r, f')"
  shows "closes (members_of work (fc_adm f)) f f'"
proof -
  have "moves (closes ms) (andthen (for_each (cancel_activation env tag) ms) (\<lambda>cs. ret (concat cs)))" for ms
    by (intro closes.moves_andthen closes.moves_for_each closes_cancel_activation closes.moves_ret)
  then show ?thesis
    using assms unfolding cancel_activations_def
    by (auto simp: andthen_tap dest: movesD)
qed

text \<open>C7: undoing the activations of an order, after a failed delivery or when its queue entry is cancelled, changes
  only Cells that this order itself activated at the epoch they still stand at, that are live and have no Airflow run;
  each of them becomes cancelled at that epoch, and no other order holds a unit on it. The admission store stays as it is.\<close>

theorem undo_spares_other_orders:
  assumes "reachable_backend env f" and "cancel_activations env work tag f = (r, f')"
    and "get_cell c (fc_cells f') \<noteq> get_cell c (fc_cells f)"
  shows "fc_adm f' = fc_adm f \<and> (\<exists>row row'. get_cell c (fc_cells f) = Some row \<and> cell_state row \<in> set LIVE_CELL_STATES \<and> \<not> nonempty (cell_run_id row)
      \<and> owned_activation (fc_cells f) work c (cell_epoch row)
      \<and> (\<forall>m. m \<in> set (ad_members (fc_adm f)) \<and> m_cell m = c \<and> m_epoch m = Some (cell_epoch row) \<longrightarrow> m_work m = work)
      \<and> get_cell c (fc_cells f') = Some row' \<and> cell_state row' = ''cancelled'' \<and> cell_epoch row' = cell_epoch row)"
proof -
  have cl: "closes (members_of work (fc_adm f)) f f'" using cancel_activations_closes[OF assms(2)] .
  then obtain row row' where row: "get_cell c (fc_cells f) = Some row" "closable (members_of work (fc_adm f)) c row"
      "get_cell c (fc_cells f') = Some row'" "cell_state row' = ''cancelled''" "cell_epoch row' = cell_epoch row"
    using assms(3) unfolding closes_def by blast
  then obtain m where m: "m \<in> set (ad_members (fc_adm f))" "m_work m = work" "m_cell m = c" "m_epoch m = Some (cell_epoch row)"
    by (auto simp: closable_def members_of_def)
  have inv: "env_inv env f" using backend.reach_inv[OF assms(1)] .
  then have "roster_owned (fc_cells f) (fc_adm f)" by (simp add: svc_inv_def view_def)
  then have "owned_activation (fc_cells f) work c (cell_epoch row)" using m by (auto simp: roster_owned_def)
  moreover have "m_work m2 = work" if "m2 \<in> set (ad_members (fc_adm f))" "m_cell m2 = c" "m_epoch m2 = Some (cell_epoch row)" for m2
    using reachable_one_order[OF inv that(1) m(1)] that m by simp
  ultimately show ?thesis using row cl by (auto simp: closable_def closes_def)
qed

definition undone_factory :: "(unit, nat) factory" where
  "undone_factory = snd (cancel_activations demo_env ''w'' ''t'' (demo_factory owner_cells owner_recorded))"

lemma undone_cell: "map_option cell_state (get_cell (stable_id demo_identity) (fc_cells undone_factory)) = Some ''cancelled''"
  unfolding undone_factory_def
  by (simp add: cancel_activations_def cancel_activation_def andthen_def tap_def ret_def attempt_def cell_patch_def next_clock_def on_cells_def
      with_root_def members_of_def owner_member owner_cells_eq get_cell_def LIVE_CELL_STATES_def nonempty_def patch_def Let_def new_state_def
      call_revoker_def append_event_def same_event_def upd_where_def rowcount_def fields_payload_def demo_factory_def demo_env_def TERMINAL_STATES_def int_str_def nat_str.simps digit_char_def)

theorem undo_spares_other_orders_witness:
  "get_cell (stable_id demo_identity) (fc_cells undone_factory) \<noteq> get_cell (stable_id demo_identity) owner_cells
   \<and> owned_activation owner_cells ''w'' (stable_id demo_identity) 1"
proof -
  let ?f = "demo_factory owner_cells owner_recorded"
  obtain r where r: "cancel_activations demo_env ''w'' ''t'' ?f = (r, undone_factory)" by (metis undone_factory_def prod.collapse)
  have ne: "get_cell (stable_id demo_identity) (fc_cells undone_factory) \<noteq> get_cell (stable_id demo_identity) (fc_cells ?f)"
    using undone_cell by (auto simp: owner_cells_eq get_cell_def)
  show ?thesis
    using undo_spares_other_orders[OF owner_reach r ne] ne by (auto simp: owner_cells_eq get_cell_def)
qed

end
