(* ===== verification/DeliveryEffects.thy ===== *)
theory DeliveryEffects
  imports Ownership
begin

text \<open>
  What the handlers of \<open>Dispatch\<close> do at the boundary to Airflow. An operator's cancellation gives capacity back only
  after the run has been stopped; a lost terminal report is replayed only for a run Airflow says is over; and a
  superseded delivery attempt cannot undo anything.
\<close>

section \<open>Where a journaled result comes from\<close>

lemma exec_claim_Inr: "exec_claim c b fn ck j x = (Inr v, j', x') \<Longrightarrow> fn x = (Inr v, x')"
  by (auto simp: exec_claim_def exec_effect_def split: prod.splits sum.splits)

lemma exec_decide_Inr:
  assumes "exec_decide c b safe fn (Some rf) ck existed row j x = (Inr v, j', x')"
  shows "(\<exists>x1. fn x1 = (Inr v, x')) \<or> (\<exists>x1 out. rf x1 = (Inr out, x') \<and> mo_status out = OCommitted)"
proof (cases "existed \<or> xc_observe_first c")
  case False
  then show ?thesis using assms exec_claim_Inr by (fastforce simp: exec_decide_def)
next
  case True
  obtain o1 x1 where rf: "rf x = (o1, x1)" by fastforce
  show ?thesis
  proof (cases o1)
    case (Inl e)
    then show ?thesis using assms True rf by (simp add: exec_decide_def)
  next
    case (Inr out)
    then show ?thesis
      using assms True rf exec_claim_Inr[of c b fn ck _ x1 v j' x'] unfolding exec_decide_def
      by (auto split: prod.splits sum.splits if_splits)
  qed
qed

lemma exec_loaded_Inr:
  assumes "exec_loaded c fn (Some rf) ck existed row j x = (Inr v, j', x')"
  shows "(op_state row = Committed \<and> x' = x) \<or> (\<exists>x1. fn x1 = (Inr v, x'))
    \<or> (\<exists>x1 out. rf x1 = (Inr out, x') \<and> mo_status out = OCommitted)"
  using assms unfolding exec_loaded_def
  by (auto split: if_splits option.splits prod.splits sum.splits dest: exec_decide_Inr)

text \<open>An operation answers from a receipt that was there, from the provider's own success, or from an observation.\<close>

lemma execute_Inr:
  assumes "execute c fn (Some rf) ck j x = (Inr v, j', x')"
  shows "(\<exists>row. get_op (ref_key (xc_ref c)) j = Some row \<and> op_state row = Committed \<and> x' = x) \<or> (\<exists>x1. fn x1 = (Inr v, x'))
    \<or> (\<exists>x1 out. rf x1 = (Inr out, x') \<and> mo_status out = OCommitted)"
proof -
  let ?k = "ref_key (xc_ref c)"
  obtain r1 j1 where b: "exec_begin c (get_op ?k j \<noteq> None) ck j = (r1, j1)" by fastforce
  obtain st where st: "r1 = Inr st" using assms b by (cases r1) (auto simp: execute_def Let_def split: if_splits)
  obtain row where row: "get_op ?k j1 = Some row" "exec_loaded c fn (Some rf) ck (get_op ?k j \<noteq> None) row j1 x = (Inr v, j', x')"
    using assms b st by (auto simp: execute_def Let_def split: if_splits option.splits)
  have "get_op ?k j = Some r \<and> op_state r = Committed" if "op_state row = Committed" and
      "r = (case get_op ?k j of None \<Rightarrow> new_op (xc_ref c) d s m t | Some r \<Rightarrow> r)" and "row = bind_policy d s m t r" for r d s m t
    using that by (auto simp: bind_policy_def new_op_def split: if_splits option.splits)
  then have "op_state row = Committed \<longrightarrow> (\<exists>r. get_op ?k j = Some r \<and> op_state r = Committed)"
    using begin_op_Inr[of "xc_ref c" _ _ _ _ j st j1] b st row(1) unfolding exec_begin_def by (metis option.inject)
  then show ?thesis using exec_loaded_Inr[OF row(2)] by blast
qed

lemma journaled_Inr:
  assumes "journaled env ref budget fn rc f = (Inr v, f')"
  shows "(\<exists>row. get_op (ref_key ref) (fc_journal f) = Some row \<and> op_state row = Committed \<and> fc_air f' = fc_air f)
    \<or> (\<exists>x1. fn x1 = (Inr v, fc_air f')) \<or> (\<exists>x1 out. rc x1 = (Inr out, fc_air f') \<and> mo_status out = OCommitted)"
proof -
  obtain call k j x where e: "execute call fn (Some rc) k (fc_journal f) (fc_air f) = (Inr v, j, x)" "xc_ref call = ref" "fc_air f' = x"
    using assms by (auto simp: journaled_def on_kernel_def mutate_def map_sum_def split: prod.splits sum.splits)
  show ?thesis using execute_Inr[OF e(1)] e(2,3) by auto
qed

section \<open>Stopping a run\<close>

text \<open>What Airflow's API documents of one run: a PATCH to failed that succeeded ended it, and an answer that it is
  absent, failed or successful means it has ended.\<close>

definition airflow_tells_end :: "('w, 'x) svc_env \<Rightarrow> string \<Rightarrow> string \<Rightarrow> ('x \<Rightarrow> bool) \<Rightarrow> bool" where
  "airflow_tells_end env dag run over \<longleftrightarrow>
     (\<forall>x st v x'. en_airflow env ''PATCH'' (run_path dag (Some run)) (Some (JObj [(''state'', JStr ''failed'')])) x = (Inr (st, v), x')
        \<longrightarrow> st < 300 \<longrightarrow> over x')
     \<and> (\<forall>x st v x'. en_airflow env ''GET'' (run_path dag (Some run)) None x = (Inr (st, v), x')
        \<longrightarrow> (st = 404 \<or> st = 200 \<and> is_jobj v \<and> state_text env v \<in> set [''failed'', ''success'']) \<longrightarrow> over x')"

lemma cancel_apply_over:
  "airflow_tells_end env dag run over \<Longrightarrow> cancel_apply env (run_path dag (Some run)) x = (Inr v, x') \<Longrightarrow> over x'"
  by (auto simp: airflow_tells_end_def cancel_apply_def checked_airflow_def split: prod.splits sum.splits if_splits)

lemma cancel_reconcile_over:
  "airflow_tells_end env dag run over \<Longrightarrow> cancel_reconcile env (run_path dag (Some run)) run x = (Inr out, x')
     \<Longrightarrow> mo_status out = OCommitted \<Longrightarrow> over x'"
  by (auto simp: airflow_tells_end_def cancel_reconcile_def Let_def split: prod.splits sum.splits if_splits)

definition stop_receipt :: "cell_row \<Rightarrow> string \<Rightarrow> string \<Rightarrow> journal \<Rightarrow> bool" where
  "stop_receipt c dag run j \<longleftrightarrow>
     (\<exists>row. get_op (ref_key (build_ref (cell_id c) (cell_epoch c) ''airflow_cancel'' [dag, run])) j = Some row \<and> op_state row = Committed)"

lemma airflow_cancel_over:
  assumes tells: "airflow_tells_end env dag run over" and ids: "cell_dag_id c = Some dag" "cell_run_id c = Some run" "dag \<noteq> []" "run \<noteq> []"
    and old: "stop_receipt c dag run (fc_journal f) \<Longrightarrow> over (fc_air f)" and ran: "journal_airflow_cancel env c f = (Inr v, f')"
  shows "over (fc_air f')"
proof -
  obtain v0 where "journaled env (build_ref (cell_id c) (cell_epoch c) ''airflow_cancel'' [dag, run]) None
      (cancel_apply env (run_path dag (Some run))) (cancel_reconcile env (run_path dag (Some run)) run) f = (Inr v0, f')"
    using ran ids by (auto simp: journal_airflow_cancel_def andthen_def ret_def split: prod.splits sum.splits)
  from journaled_Inr[OF this] show ?thesis
    using old cancel_apply_over[OF tells] cancel_reconcile_over[OF tells] by (auto simp: stop_receipt_def)
qed
section \<open>Capacity after a cancellation\<close>

lemma patch_Inr_get: "patch rv c e key fs now (s, w) = (Inr u, s', w') \<Longrightarrow> get_cell c s' = Some u"
  by (auto simp: patch_def Let_def split: if_splits option.splits sum.splits)

definition same_binding :: "cell_row \<Rightarrow> cell_row \<Rightarrow> bool" where
  "same_binding r u \<longleftrightarrow> cell_id u = cell_id r \<and> cell_epoch u = cell_epoch r \<and> cell_dag_id u = cell_dag_id r \<and> cell_run_id u = cell_run_id r"

text \<open>The state patch of a transition touches the Cell store alone and keeps the Cell's run.\<close>

lemma patch_or_current_frame:
  assumes "patch_or_current env c e key [F_state st] f = (r, f')"
  shows "fc_adm f' = fc_adm f \<and> fc_journal f' = fc_journal f \<and> fc_air f' = fc_air f"
  using assms
  by (auto simp: patch_or_current_def cell_or_404_def andthen_def attempt_def cell_patch_def next_clock_def on_cells_def with_root_def
      tap_def ret_def raise_def split: prod.splits sum.splits if_splits option.splits)

lemma patch_or_current_row:
  assumes run: "patch_or_current env c e key [F_state st] f = (Inr u, f')" and row: "get_cell c (fc_cells f) = Some row"
  shows "same_binding row u"
proof -
  obtain r s w where p: "patch (en_revoker env) c e key [F_state st] (en_clock env (fc_tick f) 0) (fc_cells f, fc_world f) = (r, s, w)"
    using prod_cases3 by blast
  have rows: "get_cell c s = Some row \<or> (\<exists>now. get_cell c s = Some (row\<lparr>cell_state := st, cell_updated_at := now\<rparr>))"
    using patch_state_rows[OF p, of c] row by auto
  have "get_cell c s = Some u"
  proof (cases r)
    case (Inl er)
    then show ?thesis
      using run p by (auto simp: patch_or_current_def cell_or_404_def andthen_def attempt_def cell_patch_def next_clock_def on_cells_def
          with_root_def tap_def ret_def raise_def split: if_splits option.splits)
  next
    case (Inr u')
    then have "u' = u"
      using run p by (simp add: patch_or_current_def andthen_def attempt_def cell_patch_def next_clock_def on_cells_def with_root_def ret_def)
    then show ?thesis using patch_Inr_get[OF p[unfolded Inr]] by simp
  qed
  then show ?thesis using rows by (auto simp: same_binding_def)
qed

lemma journaled_adm: "journaled env ref b fn rc f = (r, f') \<Longrightarrow> fc_adm f' = fc_adm f"
  by (auto simp: journaled_def on_kernel_def split: prod.splits dest!: mutate_view)

lemma airflow_cancel_adm: "journal_airflow_cancel env c f = (r, f') \<Longrightarrow> fc_adm f' = fc_adm f"
  by (auto simp: journal_airflow_cancel_def andthen_def ret_def split: option.splits if_splits prod.splits sum.splits dest: journaled_adm)

lemma release_cell_air: "svc_release_cell env c e st f = (r, f') \<Longrightarrow> fc_air f' = fc_air f"
  by (auto simp: svc_release_cell_def Let_def split: prod.splits)

text \<open>C6: an operator's cancellation of a Cell with an Airflow run gives capacity back only after the run is over. When the
  transition changed anything in the admission store, the run had been stopped by a PATCH that succeeded, or Airflow
  had answered that it is absent or terminal, or an earlier receipt of the stop was on record.\<close>

theorem release_only_after_stop:
  assumes tells: "airflow_tells_end env dag run over"
    and row: "get_cell c (fc_cells f) = Some row" "cell_dag_id row = Some dag" "cell_run_id row = Some run" "dag \<noteq> []" "run \<noteq> []"
    and old: "stop_receipt row dag run (fc_journal f) \<Longrightarrow> over (fc_air f)"
    and key: "\<not> startswith key ''airflow:''"
    and ran: "transition_state env c epoch ''cancelled'' key (cell_state row) f = (res, f')"
    and released: "fc_adm f' \<noteq> fc_adm f"
  shows "over (fc_air f')"
proof -
  obtain r1 f1 where p: "patch_or_current env c epoch key [F_state ''cancelled''] f = (r1, f1)" by fastforce
  note frame = patch_or_current_frame[OF p]
  obtain u where u: "r1 = Inr u"
    using ran released p frame by (cases r1) (auto simp: transition_state_def andthen_def raise_def split: option.splits)
  then have same: "same_binding row u" using patch_or_current_row p row(1) by blast
  then have stops: "stops_run ''cancelled'' key u"
    using row(2-5) key by (simp add: stops_run_def same_binding_def nonempty_def)
  obtain r2 f2 where j: "journal_airflow_cancel env u f1 = (r2, f2)" by fastforce
  obtain v where v: "r2 = Inr v"
    using ran released p u stops j frame airflow_cancel_adm[OF j]
    by (cases r2) (auto simp: transition_state_def andthen_def raise_def split: option.splits)
  have "stop_receipt u dag run (fc_journal f1) \<Longrightarrow> over (fc_air f1)"
    using old same frame by (simp add: stop_receipt_def same_binding_def)
  moreover have "cell_dag_id u = Some dag" "cell_run_id u = Some run" using same row(2,3) by (simp_all add: same_binding_def)
  ultimately have "over (fc_air f2)" using airflow_cancel_over[OF tells _ _ row(4,5)] j v by blast
  moreover have "fc_air f' = fc_air f2"
    using ran released p u stops j v frame airflow_cancel_adm[OF j] release_cell_air
    by (auto simp: transition_state_def andthen_def raise_def ret_def TERMINAL_STATES_def split: option.splits prod.splits sum.splits
        dest: release_cell_air)
  ultimately show ?thesis by simp
qed

text \<open>A run that is live until it is told to fail.\<close>

definition stop_env :: "(unit, bool) svc_env" where
  "stop_env = \<lparr>en_cf = demo_cf, en_rep = (\<lambda>v. []), en_show = (\<lambda>e. ''error''), en_clock = (\<lambda>i j. 0), en_owner = (\<lambda>i. ''o''), en_revoker = None,
     en_airflow = (\<lambda>m p b x. if m = ''PATCH'' then (Inr (200, JNull), True) else (Inr (if x then 404 else 200, JObj [(''state'', JStr ''running'')]), x)),
     en_lines = (\<lambda>n. Inl (SValueError ''line'')), en_drain = [], en_generation = [], en_autonomy_revision = [], en_airflow_url = []\<rparr>"

definition bound_row :: cell_row where
  "bound_row = (hd (cs_cells owner_cells))\<lparr>cell_state := ''queued'', cell_dag_id := Some ''d'', cell_run_id := Some ''r''\<rparr>"

definition stop_factory :: "(unit, bool) factory" where
  "stop_factory = \<lparr>fc_kernel = (fc_kernel (demo_factory (owner_cells\<lparr>cs_cells := [bound_row]\<rparr>) owner_recorded)),
     fc_world = (), fc_debt = [], fc_observed = [], fc_tick = 0, fc_air = False\<rparr>"

lemma stop_tells: "airflow_tells_end stop_env dag run (\<lambda>x. x)"
  by (auto simp: airflow_tells_end_def stop_env_def state_text_def py_or_def jget_or_def split: if_splits)

lemma stop_row: "get_cell (stable_id demo_identity) (fc_cells stop_factory) = Some bound_row"
  by (simp add: stop_factory_def demo_factory_def get_cell_def bound_row_def owner_cells_eq)

lemma stop_patch: "\<exists>u f1. patch_or_current stop_env (stable_id demo_identity) 1 ''operator:x'' [F_state ''cancelled''] stop_factory = (Inr u, f1)"
  by (simp add: patch_or_current_def andthen_def attempt_def cell_patch_def next_clock_def on_cells_def ret_def stop_factory_def
      demo_factory_def stop_env_def patch_def Let_def get_cell_def bound_row_def owner_cells_eq new_state_def TERMINAL_STATES_def call_revoker_def
      append_event_def same_event_def fields_payload_def rowcount_def upd_where_def)

lemma stop_journal:
  assumes "fc_journal f = []" and "kn_gate (fc_kernel f) = None" and "same_binding bound_row u"
  shows "\<exists>v f2. journal_airflow_cancel stop_env u f = (Inr v, f2)"
proof -
  let ?ref = "build_ref (cell_id u) (cell_epoch u) ''airflow_cancel'' [''d'', ''r'']"
  let ?call = "\<lparr>xc_ref = ?ref, xc_safe = Some True, xc_budget = None, xc_digest = None, xc_observe_first = False, xc_owner = en_owner stop_env (fc_tick f)\<rparr>"
  let ?path = "run_path ''d'' (Some ''r'')"
  have u: "cell_id u = stable_id demo_identity" "cell_epoch u = 1" "cell_dag_id u = Some ''d''" "cell_run_id u = Some ''r''"
    using assms(3) by (simp_all add: same_binding_def bound_row_def owner_cells_eq)
  have "py_strip (CHR ''a'' # s) \<noteq> []" for s by (auto simp: py_strip_def is_space_def dropWhile_eq_Nil_conv)
  then have "valid_ref ?ref" by (simp add: valid_ref_def build_ref_def u)
  then obtain j where "execute ?call (cancel_apply stop_env ?path) (Some (cancel_reconcile stop_env ?path ''r'')) (en_clock stop_env (fc_tick f)) [] (fc_air f)
      = (Inr (JObj [(''state'', JStr ''failed'')]), j, True)"
    using execute_first[of "[]" ?call "cancel_apply stop_env ?path" "fc_air f" "JObj [(''state'', JStr ''failed'')]" True]
    by (auto simp: get_op_def valid_digest_def call_budget_def build_ref_def budget_for_def default_budget_def cancel_apply_def checked_airflow_def stop_env_def)
  then show ?thesis
    using assms(1,2) u by (simp add: journal_airflow_cancel_def journaled_def on_kernel_def mutate_def must_observe_def andthen_def ret_def)
qed

lemma stop_released:
  assumes "fc_adm f = owner_recorded"
  shows "fc_adm (snd (svc_release_cell stop_env (stable_id demo_identity) 1 ''cancelled'' f)) \<noteq> owner_recorded"
proof -
  have "map m_state (ad_members (fc_adm (snd (svc_release_cell stop_env (stable_id demo_identity) 1 ''cancelled'' f)))) = [MEnded Cancelled]"
    using assms unfolding owner_recorded_def owner_adm_def owner_token_def
    by (simp add: svc_release_cell_def release_cell_def members_for_cell_def join_work_def eval_submit record_member_epoch_def lease_ok_def
        complete_def stop_env_def member_outcomes_def worst_def TERMINAL_PRECEDENCE_def eval_cancel)
  then show ?thesis by (auto simp: owner_member)
qed

lemma stop_factory_simps: "fc_journal stop_factory = []" "kn_gate (fc_kernel stop_factory) = None" "fc_adm stop_factory = owner_recorded"
  by (simp_all add: stop_factory_def demo_factory_def)

lemma patch_or_current_gate:
  "patch_or_current env c e key [F_state st] f = (r, f') \<Longrightarrow> kn_gate (fc_kernel f') = kn_gate (fc_kernel f)"
  by (auto simp: patch_or_current_def cell_or_404_def andthen_def attempt_def cell_patch_def next_clock_def on_cells_def with_root_def
      tap_def ret_def raise_def split: prod.splits sum.splits if_splits option.splits)

theorem release_only_after_stop_witness:
  "\<exists>(f' :: (unit, bool) factory) res. transition_state stop_env (stable_id demo_identity) 1 ''cancelled'' ''operator:x'' ''queued'' stop_factory = (res, f')
     \<and> fc_adm f' \<noteq> fc_adm stop_factory \<and> fc_air f'"
proof -
  obtain u f1 where p: "patch_or_current stop_env (stable_id demo_identity) 1 ''operator:x'' [F_state ''cancelled''] stop_factory = (Inr u, f1)"
    using stop_patch by blast
  note frame = patch_or_current_frame[OF p] patch_or_current_gate[OF p]
  have same: "same_binding bound_row u" using patch_or_current_row[OF p stop_row] .
  have stops: "stops_run ''cancelled'' ''operator:x'' u"
    using same by (simp add: stops_run_def same_binding_def bound_row_def owner_cells_eq nonempty_def startswith_def)
  obtain v f2 where j: "journal_airflow_cancel stop_env u f1 = (Inr v, f2)"
    using stop_journal[of f1 u] same frame stop_factory_simps by auto
  let ?t = "transition_state stop_env (stable_id demo_identity) 1 ''cancelled'' ''operator:x'' ''queued'' stop_factory"
  have a2: "fc_adm f2 = owner_recorded" using airflow_cancel_adm[OF j] frame stop_factory_simps by simp
  have "snd ?t = snd (svc_release_cell stop_env (stable_id demo_identity) 1 ''cancelled'' f2)"
    using p j stops by (simp add: transition_state_def allowed_transition_def TERMINAL_STATES_def LIVE_CELL_STATES_def andthen_def ret_def
        split: prod.splits sum.splits)
  then have ne: "fc_adm (snd ?t) \<noteq> fc_adm stop_factory" using stop_released[OF a2] stop_factory_simps by simp
  have st: "cell_state bound_row = ''queued''" "cell_dag_id bound_row = Some ''d''" "cell_run_id bound_row = Some ''r''" by (simp_all add: bound_row_def)
  have none: "stop_receipt bound_row ''d'' ''r'' (fc_journal stop_factory) \<Longrightarrow> fc_air stop_factory"
    by (simp add: stop_receipt_def stop_factory_simps get_op_def)
  have "fc_air (snd ?t)"
    using release_only_after_stop[OF stop_tells stop_row st(2,3) _ _ none, of "''operator:x''" 1 "fst ?t" "snd ?t"] ne st(1)
    by (simp add: startswith_def)
  then show ?thesis using ne by (metis prod.collapse)
qed

section \<open>Lost reports\<close>

lemma moves_air_same: "(\<And>f. fc_air (snd (m f)) = fc_air f) \<Longrightarrow> moves (\<lambda>f g. fc_air g = fc_air f) m"
  by (simp add: moves_def)

interpretation same_air: closed_moves "\<lambda>f g. fc_air g = fc_air f"
  by unfold_locales auto

lemma patch_air: "moves (\<lambda>f g. fc_air g = fc_air f) (cell_patch env c e key fs)"
  by (rule moves_air_same) (simp add: cell_patch_def andthen_def next_clock_def on_cells_def with_root_def split: prod.splits)

lemma evidence_air: "moves (\<lambda>f g. fc_air g = fc_air f) (evidence_append env c e kind p po t)"
  by (rule moves_air_same) (simp add: evidence_append_def andthen_def next_clock_def on_evidence_def with_root_def split: prod.splits)

lemma debt_air: "moves (\<lambda>f g. fc_air g = fc_air f) (clear_debt c)"
  by (rule moves_air_same) (simp add: clear_debt_def local_def)

lemma adopt_run_end_air: "moves (\<lambda>f g. fc_air g = fc_air f) (adopt_run_end env c run rs out)"
  unfolding adopt_run_end_def Let_def
  by (intro same_air.moves_andthen same_air.moves_attempt same_air.moves_if same_air.moves_case_sum same_air.moves_ret same_air.moves_raise
      patch_air evidence_air debt_air)

lemma adopt_run_end_answer: "adopt_run_end env c run rs out f = (Inr (Some s), f') \<Longrightarrow> s = out"
  by (auto simp: adopt_run_end_def andthen_def ret_def raise_def Let_def split: prod.splits sum.splits if_splits)

text \<open>A report is replayed only for a Cell with a run, in the words of Airflow's own answer.\<close>

lemma settled_over:
  assumes tells: "\<And>dag run. airflow_tells_end env dag run (over dag run)"
    and ran: "settle_lost_report env work c f = (Inr (Some s), f')" and fin: "s \<in> set TERMINAL_STATES"
  shows "\<exists>dag. cell_dag_id c = Some dag \<and> over dag (case cell_run_id c of None \<Rightarrow> [] | Some r \<Rightarrow> r) (fc_air f')"
proof -
  let ?run = "case cell_run_id c of None \<Rightarrow> [] | Some r \<Rightarrow> r"
  have un: "UNANSWERED \<notin> set TERMINAL_STATES" by (simp add: UNANSWERED_def TERMINAL_STATES_def)
  obtain dag where dag: "cell_dag_id c = Some dag"
    using ran by (cases "cell_dag_id c") (auto simp: settle_lost_report_def andthen_def next_clock_def tap_def ret_def)
  obtain r x1 where g: "en_airflow env ''GET'' (run_path dag (Some ?run)) None (fc_air f) = (r, x1)" by fastforce
  obtain status v where r: "r = Inr (status, v)"
    using ran dag g fin un by (cases r) (auto simp: settle_lost_report_def Let_def andthen_def next_clock_def tap_def ret_def local_def attempt_def on_air_def
        note_debt_def split: if_splits)
  let ?rs = "if is_jobj v then state_text env v else []"
  let ?g = "f\<lparr>fc_tick := Suc (fc_tick f), fc_observed := put (cell_id c) (en_clock env (fc_tick f) 0) (fc_observed f), fc_air := x1\<rparr>"
  have "\<exists>out. adopt_run_end env c ?run ?rs out ?g = (Inr (Some s), f')
      \<and> (status = 404 \<or> status = 200 \<and> ?rs \<in> set [''success'', ''failed''])"
    using ran dag g r fin un
    by (auto simp: settle_lost_report_def Let_def andthen_def next_clock_def tap_def ret_def local_def attempt_def on_air_def
        note_debt_def clear_debt_def split: if_splits)
  then obtain out where a: "adopt_run_end env c ?run ?rs out ?g = (Inr (Some s), f')"
      "status = 404 \<or> status = 200 \<and> ?rs \<in> set [''success'', ''failed'']" by blast
  have "fc_air f' = x1" using movesD[OF adopt_run_end_air a(1)] by simp
  moreover have "over dag ?run x1"
    using tells[of dag ?run] g r a(2) unfolding airflow_tells_end_def by (auto split: if_splits)
  ultimately show ?thesis using dag by auto
qed

text \<open>C8: the reconciliation gives a held unit an outcome only when the Cell it stands for is gone, stands at a later epoch, is
  terminal at this epoch and the outcome is its state, or when Airflow itself answers that the Cell's run is absent or terminal.
  The terminal state may be an operator's cancellation whose stop Airflow has not confirmed: the reconciliation does not ask.\<close>

theorem unit_settled_only_at_end:
  assumes "\<And>dag run. airflow_tells_end env dag run (over dag run)"
    and "held_outcome env answering work c epoch f = (Inr (Some st, ans), f')"
  shows "st \<in> set TERMINAL_STATES \<and>
    (get_cell c (fc_cells f) = None \<or> (\<exists>row. get_cell c (fc_cells f) = Some row \<and>
       (epoch < cell_epoch row \<or> cell_epoch row = epoch \<and>
          (cell_state row = st \<or> (\<exists>dag run. cell_dag_id row = Some dag \<and> cell_run_id row = Some run \<and> over dag run (fc_air f'))))))"
proof (cases "get_cell c (fc_cells f)")
  case None
  then show ?thesis using assms(2) by (simp add: held_outcome_def andthen_tap ret_def TERMINAL_STATES_def)
next
  case (Some row)
  show ?thesis
  proof (cases "epoch < cell_epoch row \<or> cell_epoch row \<noteq> epoch \<or> cell_state row \<in> set TERMINAL_STATES")
    case True
    then show ?thesis
      using assms(2) Some by (auto simp: held_outcome_def andthen_tap ret_def TERMINAL_STATES_def split: if_splits)
  next
    case False
    then have run: "nonempty (cell_run_id row)" "answering"
      using assms(2) Some by (auto simp: held_outcome_def andthen_def tap_def note_debt_def local_def ret_def split: if_splits)
    then obtain s where s: "settle_lost_report env work row f = (Inr (Some s), f')" "s \<in> set TERMINAL_STATES" "s = st"
      using assms(2) Some False by (auto simp: held_outcome_def andthen_def tap_def ret_def split: prod.splits sum.splits option.splits if_splits)
    show ?thesis using settled_over[OF assms(1) s(1,2)] s Some False run(1) by (auto simp: nonempty_def split: option.splits)
  qed
qed

text \<open>The demonstration: the Cell is live, Airflow has lost its run, and the worker's report never came. The reconciliation asks, is
  answered 404, and settles the unit.\<close>

definition answer_env :: "(unit, bool) svc_env" where
  "answer_env = stop_env\<lparr>en_clock := (\<lambda>i j. 1000)\<rparr>"

definition lost_factory :: "(unit, bool) factory" where
  "lost_factory = stop_factory\<lparr>fc_air := True\<rparr>"

lemma answer_tells: "airflow_tells_end answer_env dag run (\<lambda>x. x)"
  using stop_tells[of dag run] by (simp add: airflow_tells_end_def answer_env_def state_text_def)

lemma lost_row: "get_cell (stable_id demo_identity) (fc_cells lost_factory) = Some bound_row"
  using stop_row by (simp add: lost_factory_def)

lemma evidence_append_ok: "1 \<le> e \<Longrightarrow> evidence_append env c e kind p po t f \<noteq> (Inl x, f')"
  by (auto simp: evidence_append_def andthen_def next_clock_def on_evidence_def trusted_append_def append_unfold Let_def split: prod.splits)

lemma lost_patch:
  assumes "fc_cells f = fc_cells lost_factory" and "key = ''airflow-reconcile:r:cancelled''"
  shows "\<exists>u f'. cell_patch answer_env (stable_id demo_identity) 1 key [F_state ''cancelled''] f = (Inr u, f')"
  using assms
  by (simp add: cell_patch_def andthen_def next_clock_def on_cells_def lost_factory_def stop_factory_def
      demo_factory_def answer_env_def stop_env_def patch_def Let_def get_cell_def bound_row_def owner_cells_eq new_state_def TERMINAL_STATES_def
      call_revoker_def append_event_def same_event_def fields_payload_def rowcount_def upd_where_def)

lemma lost_adopted:
  assumes "fc_cells f = fc_cells lost_factory"
  shows "\<exists>f'. adopt_run_end answer_env bound_row ''r'' rs ''cancelled'' f = (Inr (Some ''cancelled''), f')"
proof -
  let ?key = "''airflow-reconcile:r:cancelled''" and ?f = "snd (clear_debt (cell_id bound_row) f)"
  have row: "cell_id bound_row = stable_id demo_identity" "cell_epoch bound_row = 1" by (simp_all add: bound_row_def owner_cells_eq)
  have "fc_cells ?f = fc_cells lost_factory" using assms by (simp add: clear_debt_def local_def)
  then obtain u f1 where p: "cell_patch answer_env (stable_id demo_identity) 1 ?key [F_state ''cancelled''] ?f = (Inr u, f1)"
    using lost_patch by blast
  show ?thesis
    using p evidence_append_ok[of 1 answer_env "stable_id demo_identity" "''lifecycle_transition''" _ _ _ f1] row
    by (simp add: adopt_run_end_def andthen_def attempt_def clear_debt_def local_def ret_def Let_def split: prod.splits sum.splits)
qed

lemma lost_settled: "\<exists>f'. held_outcome answer_env True ''w'' (stable_id demo_identity) 1 lost_factory = (Inr (Some ''cancelled'', True), f')"
proof -
  let ?f = "lost_factory\<lparr>fc_tick := Suc (fc_tick lost_factory), fc_observed := put (cell_id bound_row) 1000 (fc_observed lost_factory), fc_air := True\<rparr>"
  have row: "cell_state bound_row = ''queued''" "cell_dag_id bound_row = Some ''d''" "cell_run_id bound_row = Some ''r''" "cell_epoch bound_row = 1"
      "cell_id bound_row = stable_id demo_identity" "cell_updated_at bound_row = 1"
    by (simp_all add: bound_row_def owner_cells_eq)
  have "fc_cells ?f = fc_cells lost_factory" by simp
  then obtain f' where a: "adopt_run_end answer_env bound_row ''r'' ''running'' ''cancelled'' ?f = (Inr (Some ''cancelled''), f')"
    using lost_adopted by blast
  have early: "\<not> too_early 1000 bound_row lost_factory" using row
    by (simp add: too_early_def lost_factory_def stop_factory_def RECONCILE_INTERVAL_S_def)
  have "settle_lost_report answer_env ''w'' bound_row lost_factory = (Inr (Some ''cancelled''), f')"
    using a early row
    by (simp add: settle_lost_report_def Let_def andthen_def next_clock_def tap_def attempt_def on_air_def local_def ret_def answer_env_def stop_env_def
        state_text_def py_or_def jget_or_def lost_factory_def stop_factory_def too_early_def)
  then show ?thesis
    using row lost_row by (simp add: held_outcome_def andthen_def tap_def ret_def nonempty_def TERMINAL_STATES_def UNANSWERED_def)
qed

theorem unit_settled_only_at_end_witness:
  "\<exists>f'. held_outcome answer_env True ''w'' (stable_id demo_identity) 1 lost_factory = (Inr (Some ''cancelled'', True), f')
     \<and> get_cell (stable_id demo_identity) (fc_cells lost_factory) = Some bound_row \<and> cell_state bound_row = ''queued''
     \<and> fc_air f'"
proof -
  obtain f' where h: "held_outcome answer_env True ''w'' (stable_id demo_identity) 1 lost_factory = (Inr (Some ''cancelled'', True), f')"
    using lost_settled by blast
  have row: "cell_state bound_row = ''queued''" "cell_epoch bound_row = 1" by (simp_all add: bound_row_def owner_cells_eq)
  from unit_settled_only_at_end[of answer_env "\<lambda>dag run x. x", OF answer_tells h] show ?thesis
    using h lost_row row by auto
qed

text \<open>What the reconciliation does not ask: the Cell of an operator's cancellation is terminal before Airflow is asked to stop its run,
  so when that stop stays ambiguous the next reconciliation settles the unit at once, without a question to Airflow.\<close>

lemma ambiguous_stop_settled_unasked:
  assumes "get_cell c (fc_cells f) = Some row" and "cell_epoch row = epoch" and "cell_state row = ''cancelled''"
  shows "held_outcome env answering work c epoch f = (Inr (Some ''cancelled'', answering), f)"
  using assms by (simp add: held_outcome_def andthen_tap ret_def TERMINAL_STATES_def)

section \<open>Attempts that lost their claim\<close>

text \<open>An attempt whose lease is gone changes no Cell, no order and no member when it fails: it only notes what it saw.\<close>

lemma superseded_attempt_harmless:
  assumes "\<not> lease_ok (di_work i) (di_token i) (fc_adm f)" and "recover_dispatch env i err local_only ob f = (r, f')"
  shows "r = Inr () \<and> fc_cells f' = fc_cells f \<and> fc_air f' = fc_air f
    \<and> ad_work (fc_adm f') = ad_work (fc_adm f) \<and> ad_members (fc_adm f') = ad_members (fc_adm f)"
  using assms
  by (auto simp: recover_dispatch_def andthen_def tap_def attempt_def adm_assert_lease_def adm_release_def adm_note_def next_clock_def
      on_admission_def with_root_def assert_lease_def release_dispatch_def note_outcome_def ret_def Let_def split: if_splits)

text \<open>Binding the Cells to a run does not touch the admission store, on no path.\<close>

interpretation same_adm: closed_moves "\<lambda>f g. fc_adm g = fc_adm f"
  by unfold_locales auto

lemma patch_adm: "moves (\<lambda>f g. fc_adm g = fc_adm f) (cell_patch env c e key fs)"
  unfolding moves_def by (simp add: cell_patch_def andthen_def next_clock_def on_cells_def with_root_def split: prod.splits)

lemma bind_evidence_adm: "moves (\<lambda>f g. fc_adm g = fc_adm f) (bind_evidence env line run actor b)"
  unfolding moves_def
  by (simp add: bind_evidence_def Let_def andthen_def next_clock_def on_evidence_def with_root_def ret_def split: prod.splits sum.splits)

lemma cell_get_adm: "moves (\<lambda>f g. fc_adm g = fc_adm f) (cell_get c)"
  by (simp add: moves_def cell_get_def)

lemma bind_run_adm: "moves (\<lambda>f g. fc_adm g = fc_adm f) (bind_run env bs line run actor)"
  unfolding bind_run_def bind_run_one_def
  by (intro same_adm.moves_andthen same_adm.moves_for_each same_adm.moves_if same_adm.moves_case_sum same_adm.moves_attempt same_adm.moves_ret
      same_adm.moves_raise same_adm.moves_check patch_adm bind_evidence_adm cell_get_adm)

text \<open>So when the run exists and binding a Cell to it fails, the delivery stays claimed: nothing releases the claim
  this process holds, and until the process restarts every later claim of the order is refused, whatever the time.\<close>

lemma failed_binding_strands_order:
  assumes "bind_run env bs line run actor f = (Inl e, f')" and "work \<in> fst ` set (ad_inflight (fc_adm f))"
  shows "work \<in> fst ` set (ad_inflight (fc_adm f'))" and "fst (claim_dispatch cf work lease now (fc_adm f')) = Inr None"
proof -
  show infl: "work \<in> fst ` set (ad_inflight (fc_adm f'))" using movesD[OF bind_run_adm assms(1)] assms(2) by simp
  then show "fst (claim_dispatch cf work lease now (fc_adm f')) = Inr None"
    by (auto simp: claim_dispatch_def claim_def claim_refused_def Let_def split: option.splits)
qed

end
