(* ===== verification/GitHub.thy ===== *)
theory GitHub
  imports PatchPolicy ServiceCore AcceptedInputs
begin

text \<open>
  The source-control client, \<open>src/src/swfactory/scm.py\<close> (\<open>GitHubScm\<close> with its push and its readers) and
  \<open>src/src/swfactory/publication_identity.py\<close>.

  Every effect is a subprocess. \<open>command\<close> is its argument list, standard input and scoped credential; \<open>'g runner\<close> is what the
  machine does with it, on a world of its own, and \<open>rm_log\<close> keeps the commands with their outcomes in order. Temporary
  directories and the working directory of a command are not represented. A document that has not the type the code
  takes for granted raises, as \<open>ScmCrash\<close>.
\<close>

section \<open>Subprocesses\<close>

datatype proc = NotFound | TimedOut | Exited int string string

record command =
  cm_argv :: "string list"
  cm_input :: "string option"
  cm_token :: "string option"

record 'g remote =
  rm_world :: 'g
  rm_log :: "(command \<times> proc) list"

type_synonym 'g runner = "command \<Rightarrow> 'g \<Rightarrow> proc \<times> 'g"
type_synonym ('g, 'a) scm = "('g remote, scm_error, 'a) action"

text \<open>A client: the machine, the repository and base branch, the scoped token when it has one, whether the environment
  has one, the name of this instance, and the text and float conversions of the language.\<close>

record 'g github =
  gb_run :: "'g runner"
  gb_repo :: string
  gb_base :: string
  gb_token :: "string option"
  gb_ambient :: bool
  gb_instance :: string
  gb_floats :: "string \<Rightarrow> real"
  gb_rep :: "json \<Rightarrow> string"
  gb_read :: "string \<Rightarrow> string option"
  gb_yaml :: "string \<Rightarrow> json option"
  gb_uri :: "string \<Rightarrow> string"

definition GIT_NO_AUTO_GC :: "string list" where
  "GIT_NO_AUTO_GC = [''-c'', ''gc.auto=0'', ''-c'', ''maintenance.auto=false'']"

definition hardened :: "string list \<Rightarrow> string list" where
  "hardened argv = (case argv of g # rest \<Rightarrow> if g = ''git'' then g # GIT_NO_AUTO_GC @ rest else argv | [] \<Rightarrow> [])"

definition run_as :: "'g github \<Rightarrow> string option \<Rightarrow> string list \<Rightarrow> string option \<Rightarrow> ('g, string) scm" where
  "run_as gh token argv inp = (\<lambda>r.
     let c = \<lparr>cm_argv = hardened argv, cm_input = inp, cm_token = token\<rparr> in
     case gb_run gh c (rm_world r) of
       (p, g) \<Rightarrow>
         (case p of
            NotFound \<Rightarrow> Inl (ScmStage (hd (argv @ [[]]) @ '' not found on PATH'') False)
          | TimedOut \<Rightarrow> Inl (ScmStage (''timed out: '' @ join '' '' (cm_argv c)) True)
          | Exited rc out err \<Rightarrow>
              if rc \<noteq> 0 then Inl (ScmStage (join '' '' (cm_argv c) @ '' failed (rc='' @ int_str rc @ ''): '' @ py_strip err) True)
              else Inr out,
          \<lparr>rm_world = g, rm_log = rm_log r @ [(c, p)]\<rparr>))"

definition exec :: "'g github \<Rightarrow> string list \<Rightarrow> ('g, string) scm" where
  "exec gh argv = run_as gh (gb_token gh) argv None"

definition gh_json :: "'g github \<Rightarrow> bool \<Rightarrow> string list \<Rightarrow> ('g, json) scm" where
  "gh_json gh retryable argv =
     andthen (exec gh argv) (\<lambda>out.
     case jloads (gb_floats gh) out of
       None \<Rightarrow> raise (ScmStage (join '' '' (take 3 argv) @ '' returned non-JSON: '' @ take 200 out) retryable)
     | Some v \<Rightarrow> ret v)"

definition crash :: "string \<Rightarrow> ('g, 'a) scm" where
  "crash what = raise (ScmCrash what)"

text \<open>\<open>d[k]\<close>, iteration, and \<open>d.get(k, default)\<close> on a decoded document.\<close>

definition item :: "string \<Rightarrow> json \<Rightarrow> scm_error + json" where
  "item k v = (case jget k v of None \<Rightarrow> Inl (ScmCrash k) | Some x \<Rightarrow> Inr x)"

definition elements :: "json \<Rightarrow> scm_error + json list" where
  "elements v = (case v of JArr xs \<Rightarrow> Inr xs | JObj kvs \<Rightarrow> Inr (map (JStr \<circ> fst) kvs) | JStr s \<Rightarrow> Inr (map (\<lambda>c. JStr [c]) s)
     | _ \<Rightarrow> Inl (ScmCrash ''not iterable''))"

definition get_default :: "string \<Rightarrow> json \<Rightarrow> json \<Rightarrow> scm_error + json" where
  "get_default k dflt v = (if is_jobj v then Inr (jget_or k dflt v) else Inl (ScmCrash k))"

fun collect_all :: "('a \<Rightarrow> 'e + 'b) \<Rightarrow> 'a list \<Rightarrow> 'e + 'b list" where
  "collect_all g [] = Inr []"
| "collect_all g (x # xs) =
     (case g x of Inl e \<Rightarrow> Inl e | Inr y \<Rightarrow> (case collect_all g xs of Inl e \<Rightarrow> Inl e | Inr ys \<Rightarrow> Inr (y # ys)))"

definition text_item :: "string \<Rightarrow> json \<Rightarrow> scm_error + string" where
  "text_item k v = (case jget k v of Some (JStr s) \<Rightarrow> Inr s | _ \<Rightarrow> Inl (ScmCrash k))"

section \<open>Issues\<close>

definition ISSUE_FIELDS :: string where
  "ISSUE_FIELDS = ''number,title,body,labels,url,state''"

text \<open>The boundary model \<open>Issue\<close>: a safe identifier, a title, text fields, a known state.\<close>

definition mk_issue :: "string \<Rightarrow> json \<Rightarrow> json \<Rightarrow> json list \<Rightarrow> json \<Rightarrow> string \<Rightarrow> scm_error + issue" where
  "mk_issue i title body labels url state =
     (case (validate_identifier i, title, body, collect_all (\<lambda>l. case l of JStr s \<Rightarrow> Inr s | _ \<Rightarrow> Inl (ScmCrash ''label'')) labels) of
        (Inr ident, JStr t, JStr b, Inr ls) \<Rightarrow>
          if t = [] \<or> casefold state \<notin> set [''open'', ''closed''] \<or> \<not> (case url of JNull \<Rightarrow> True | JStr _ \<Rightarrow> True | _ \<Rightarrow> False)
          then Inl (ScmCrash ''issue'')
          else Inr \<lparr>is_id = ident, is_title = t, is_body = b, is_labels = ls,
                    is_url = (case url of JStr u \<Rightarrow> Some u | _ \<Rightarrow> None), is_state = casefold state\<rparr>
      | _ \<Rightarrow> Inl (ScmCrash ''issue''))"

definition issue_from_gh :: "(json \<Rightarrow> string) \<Rightarrow> json \<Rightarrow> scm_error + issue" where
  "issue_from_gh rep data =
     (case (item ''number'' data, item ''title'' data, elements (py_or (jget0 ''labels'' data) (JArr []))) of
        (Inr n, Inr t, Inr ls) \<Rightarrow>
          (case collect_all (item ''name'') ls of
             Inl e \<Rightarrow> Inl e
           | Inr names \<Rightarrow> mk_issue (py_str rep n) t (py_or (jget0 ''body'' data) (JStr [])) names (jget0 ''url'' data)
               (py_str rep (py_or (jget0 ''state'' data) (JStr ''open''))))
      | _ \<Rightarrow> Inl (ScmCrash ''issue''))"

text \<open>Front matter: the text between the first line \<open>---\<close> and the next, and the text after it.\<close>

definition skip_eol :: "string \<Rightarrow> string option" where
  "skip_eol s = (case s of c # d # r \<Rightarrow> if c = CHR 0x0D \<and> d = CHR 0x0A then Some r else if c = CHR 0x0A then Some (d # r) else None
     | [c] \<Rightarrow> if c = CHR 0x0A then Some [] else None | [] \<Rightarrow> None)"

definition drop_if :: "char \<Rightarrow> string \<Rightarrow> string" where
  "drop_if c s = (case s of d # r \<Rightarrow> if d = c then r else s | [] \<Rightarrow> [])"

fun front_close :: "string \<Rightarrow> (string \<times> string) option" where
  "front_close [] = None"
| "front_close (c # cs) =
     (case skip_eol (c # cs) of
        Some r \<Rightarrow>
          if startswith r ''---'' then Some ([], drop_if (CHR 0x0A) (drop_if (CHR 0x0D) (drop 3 r)))
          else map_option (\<lambda>(a, b). (c # a, b)) (front_close cs)
      | None \<Rightarrow> map_option (\<lambda>(a, b). (c # a, b)) (front_close cs))"

definition front_matter :: "string \<Rightarrow> (string \<times> string) option" where
  "front_matter t = (if startswith t ''---'' then Option.bind (skip_eol (drop 3 t)) front_close else None)"

definition parse_issue_file :: "'g github \<Rightarrow> string \<Rightarrow> scm_error + issue" where
  "parse_issue_file gh path =
     (case gb_read gh path of
        None \<Rightarrow> Inl (ScmStage (''cannot read issue file '' @ path) False)
      | Some t \<Rightarrow>
          (case front_matter t of
             None \<Rightarrow> Inl (ScmStage (path @ '' has no front matter'') False)
           | Some (head, body) \<Rightarrow>
               (case gb_yaml gh head of
                  None \<Rightarrow> Inl (ScmStage (path @ '': invalid front matter'') False)
                | Some y \<Rightarrow>
                    let meta = py_or y (JObj []); rep = gb_rep gh in
                    if \<not> is_jobj meta \<or> jget ''id'' meta = None \<or> jget ''title'' meta = None
                    then Inl (ScmStage (path @ '': front matter needs id and title'') False)
                    else
                      let labels = py_or (jget0 ''labels'' meta) (JArr []) in
                      case elements (case labels of JStr s \<Rightarrow> JArr [JStr s] | _ \<Rightarrow> labels) of
                        Inl e \<Rightarrow> Inl e
                      | Inr ls \<Rightarrow> mk_issue (py_str rep (jget0 ''id'' meta)) (JStr (py_str rep (jget0 ''title'' meta))) (JStr body)
                          (map (JStr \<circ> py_str rep) ls) (JStr (gb_uri gh path))
                          (py_str rep (py_or (jget0 ''state'' meta) (JStr ''open''))))))"

definition issue_argv :: "'g github \<Rightarrow> string \<Rightarrow> string list" where
  "issue_argv gh ref = [''gh'', ''issue'', ''view'', py_strip ref, ''--repo'', gb_repo gh, ''--json'', ISSUE_FIELDS]"

definition fetch_issue :: "'g github \<Rightarrow> string \<Rightarrow> ('g, issue) scm" where
  "fetch_issue gh ref =
     (if \<not> py_isdigit (py_strip ref) then lift_result (parse_issue_file gh ref)
      else andthen (gh_json gh False (issue_argv gh ref)) (\<lambda>d. lift_result (issue_from_gh (gb_rep gh) d)))"

definition search_issues :: "'g github \<Rightarrow> string \<Rightarrow> int \<Rightarrow> ('g, json list) scm" where
  "search_issues gh query limit =
     andthen (gh_json gh False [''gh'', ''issue'', ''list'', ''--repo'', gb_repo gh, ''--state'', ''all'', ''--search'', query,
        ''--limit'', int_str limit, ''--json'', ''url,body,title'']) (\<lambda>rows.
     case rows of
       JArr rs \<Rightarrow> ret (filter is_jobj rs)
     | _ \<Rightarrow> raise (ScmStage ''gh issue list returned a non-array'' True))"

definition within_window :: "json list \<Rightarrow> int \<Rightarrow> string \<Rightarrow> ('g, json list) scm" where
  "within_window rows limit what =
     (if int (length rows) > limit then raise (ScmStage (''more than '' @ int_str limit @ '' '' @ what) False) else ret rows)"

definition list_open_issues :: "'g github \<Rightarrow> string \<Rightarrow> int \<Rightarrow> ('g, issue list) scm" where
  "list_open_issues gh label limit =
     andthen (gh_json gh False [''gh'', ''issue'', ''list'', ''--repo'', gb_repo gh, ''--label'', label, ''--state'', ''open'',
        ''--limit'', int_str (limit + 1), ''--json'', ISSUE_FIELDS]) (\<lambda>rows.
     andthen (lift_result (elements rows)) (\<lambda>rs.
     andthen (within_window rs limit (''open issues carry label '' @ label)) (\<lambda>rs.
     lift_result (collect_all (issue_from_gh (gb_rep gh)) rs))))"

definition list_open_pr_heads :: "'g github \<Rightarrow> int \<Rightarrow> ('g, string list) scm" where
  "list_open_pr_heads gh limit =
     andthen (gh_json gh False [''gh'', ''pr'', ''list'', ''--repo'', gb_repo gh, ''--state'', ''open'', ''--limit'', int_str (limit + 1),
        ''--json'', ''headRefName'']) (\<lambda>rows.
     andthen (lift_result (elements rows)) (\<lambda>rs.
     andthen (within_window rs limit ''open pull requests'') (\<lambda>rs.
     lift_result (collect_all (\<lambda>r. map_sum id (\<lambda>v. py_str (gb_rep gh) (py_or v (JStr []))) (get_default ''headRefName'' JNull r)) rs))))"

section \<open>The identity of a publication\<close>

definition MARKER_START :: string where
  "MARKER_START = ''<!-- swf-publication''"

definition MARKER_END :: string where
  "MARKER_END = ''-->''"

definition KEY_CHARS :: nat where
  "KEY_CHARS = 12"

definition publication_key :: "string \<Rightarrow> string \<Rightarrow> string \<Rightarrow> string" where
  "publication_key repo target issue = take KEY_CHARS (sha256_hex (repo @ NUL @ target @ NUL @ issue))"

record publication_identity =
  pi_key :: string
  pi_instance :: string
  pi_cell :: "string option"
  pi_epoch :: "int option"

definition marker_block :: "publication_identity \<Rightarrow> string" where
  "marker_block i =
     MARKER_START @ '' '' @ join '' '' ([''key='' @ pi_key i, ''instance='' @ pi_instance i]
        @ (case pi_cell i of None \<Rightarrow> [] | Some c \<Rightarrow> if c = [] then [] else [''cell='' @ c])
        @ (case pi_epoch i of None \<Rightarrow> [] | Some e \<Rightarrow> [''epoch='' @ int_str e])) @ '' '' @ MARKER_END"

text \<open>\<open>str.split()\<close>.\<close>

function words :: "string \<Rightarrow> string list" where
  "words [] = []"
| "words (c # cs) =
     (if is_space c then words cs
      else takeWhile (\<lambda>d. \<not> is_space d) (c # cs) # words (dropWhile (\<lambda>d. \<not> is_space d) (c # cs)))"
  by pat_completeness auto
termination
  by (relation "measure length") (auto intro: le_imp_less_Suc length_dropWhile_le)

text \<open>The marker at the start of the text: its fields are all up to the closing \<open>--\<close> before the first \<open>>\<close>.\<close>

definition marker_at :: "string \<Rightarrow> string option" where
  "marker_at s =
     (if startswith s MARKER_START then
        let t = drop (length MARKER_START) s; x = takeWhile (\<lambda>c. c \<noteq> CHR ''>'') t in
        if length x < length t \<and> 3 \<le> length x \<and> is_space (hd x) \<and> endswith x ''--'' then Some (take (length x - 2) x) else None
      else None)"

fun find_marker :: "string \<Rightarrow> string option" where
  "find_marker [] = None"
| "find_marker (c # cs) = (case marker_at (c # cs) of Some x \<Rightarrow> Some x | None \<Rightarrow> find_marker cs)"

definition marker_field :: "string \<Rightarrow> (string \<times> string) option" where
  "marker_field part =
     (let name = takeWhile (\<lambda>c. c \<noteq> CHR ''='') part; value = drop (length name + 1) part in
      if name \<noteq> [] \<and> value \<noteq> [] then Some (name, value) else None)"

definition read_marker :: "string \<Rightarrow> (string \<times> string) list option" where
  "read_marker body =
     (case find_marker body of
        None \<Rightarrow> None
      | Some x \<Rightarrow>
          (let kvs = rev (List.map_filter marker_field (words x)) in
           if map_of kvs ''key'' = None then None else Some kvs))"

definition adopts :: "string \<Rightarrow> string \<Rightarrow> bool" where
  "adopts body key = (case read_marker body of None \<Rightarrow> False | Some kvs \<Rightarrow> map_of kvs ''key'' = Some key)"

definition identity_from_branch :: "string \<Rightarrow> string \<Rightarrow> publication_identity" where
  "identity_from_branch inst branch =
     (let tail = (if CHR ''-'' \<in> set branch then last (split_on (CHR ''-'') branch) else []);
          key = (if length tail = KEY_CHARS \<and> list_all is_hex tail then tail else []) in
      \<lparr>pi_key = (if key \<noteq> [] then key else take KEY_CHARS (sha256_hex branch)), pi_instance = inst, pi_cell = None, pi_epoch = None\<rparr>)"

section \<open>Pushing a branch\<close>

definition BOT_NAME :: string where
  "BOT_NAME = ''swfactory-bot''"

definition GIT_IDENT :: "string list" where
  "GIT_IDENT = [''-c'', ''user.name='' @ BOT_NAME, ''-c'', ''user.email=swfactory-bot@users.noreply.github.com'']"

definition FACTORY_BRANCH_PREFIX :: string where
  "FACTORY_BRANCH_PREFIX = ''factory/''"

definition first_token :: "string \<Rightarrow> string" where
  "first_token out = (case words out of [] \<Rightarrow> [] | w # _ \<Rightarrow> w)"

definition ls_remote_argv :: "string \<Rightarrow> string list" where
  "ls_remote_argv branch = [''git'', ''ls-remote'', ''origin'', ''refs/heads/'' @ branch]"

definition remote_head :: "'g github \<Rightarrow> string \<Rightarrow> ('g, string) scm" where
  "remote_head gh branch = andthen (exec gh (ls_remote_argv branch)) (\<lambda>out. ret (first_token out))"

definition trailer_argv :: "string \<Rightarrow> string list" where
  "trailer_argv sha = [''git'', ''log'', ''-1'', ''--format=%(trailers:key=Factory-Instance,valueonly)'', sha]"

definition trailer_value :: "string \<Rightarrow> string" where
  "trailer_value message = (case splitlines (py_strip message) of [] \<Rightarrow> [] | l # _ \<Rightarrow> py_strip l)"

definition is_stage :: "scm_error \<Rightarrow> bool" where
  "is_stage e = (case e of ScmPolicy _ \<Rightarrow> True | ScmStage _ _ \<Rightarrow> True | _ \<Rightarrow> False)"

definition instance_of :: "'g github \<Rightarrow> string \<Rightarrow> ('g, string) scm" where
  "instance_of gh sha =
     andthen (attempt (exec gh [''git'', ''rev-parse'', ''--verify'', ''--quiet'', sha @ ''^{commit}''])) (\<lambda>r.
     andthen (case r of
                Inr _ \<Rightarrow> ret ()
              | Inl e \<Rightarrow> if is_stage e then andthen (exec gh [''git'', ''fetch'', ''--quiet'', ''--depth'', ''1'', ''origin'', sha]) (\<lambda>_. ret ())
                        else raise e) (\<lambda>_.
     andthen (exec gh (trailer_argv sha)) (\<lambda>message. ret (trailer_value message))))"

definition is_lease_refusal :: "string \<Rightarrow> bool" where
  "is_lease_refusal message =
     (let m = casefold message in py_in ''stale info'' m \<or> py_in ''force-with-lease'' m \<or> py_in ''fetch first'' m)"

definition error_text :: "scm_error \<Rightarrow> string" where
  "error_text e =
     (case e of ScmPolicy m \<Rightarrow> ''[policy] '' @ m | ScmStage m _ \<Rightarrow> ''[scm] '' @ m | ScmRefused _ m \<Rightarrow> m | ScmValue m \<Rightarrow> m | ScmCrash m \<Rightarrow> m)"

definition push_argv :: "string \<Rightarrow> string list" where
  "push_argv branch = [''git'', ''push'', ''-u'', ''origin'', branch]"

definition lease_push_argv :: "string \<Rightarrow> string \<Rightarrow> string list" where
  "lease_push_argv branch head = [''git'', ''push'', ''-u'', ''--force-with-lease='' @ branch @ '':'' @ head, ''origin'', branch]"

definition push_with_lease :: "'g github \<Rightarrow> string \<Rightarrow> string \<Rightarrow> ('g, unit) scm" where
  "push_with_lease gh branch head =
     andthen (attempt (exec gh (lease_push_argv branch head))) (\<lambda>r.
     case r of
       Inr _ \<Rightarrow> ret ()
     | Inl e \<Rightarrow>
         if is_stage e \<and> is_lease_refusal (error_text e)
         then raise (ScmStage (''another factory instance moved '' @ branch @ '' while this one was publishing'') True)
         else raise e)"

definition push_over :: "'g github \<Rightarrow> string \<Rightarrow> string \<Rightarrow> ('g, unit) scm" where
  "push_over gh branch head =
     andthen (instance_of gh ''HEAD'') (\<lambda>mine.
     andthen (instance_of gh head) (\<lambda>holder.
     if mine = [] \<or> holder \<noteq> mine
     then raise (ScmStage (branch @ '' on the remote is at '' @ take 12 head @ '', published by ''
       @ (if holder = [] then ''an instance that left no Factory-Instance trailer'' else holder) @ '', not by this one (''
       @ (if mine = [] then ''a patch with no Factory-Instance trailer'' else mine) @ ''). Another factory session is ''
       @ ''working this issue. Refusing to overwrite it; adopt its pull request instead.'') False)
     else push_with_lease gh branch head))"

definition apply_and_push :: "'g github \<Rightarrow> string \<Rightarrow> string \<Rightarrow> ('g, unit) scm" where
  "apply_and_push gh branch pt =
     andthen (exec gh [''git'', ''checkout'', ''-b'', branch]) (\<lambda>_.
     andthen (run_as gh (gb_token gh) ([''git''] @ GIT_IDENT @ [''am'', ''--3way'']) (Some pt)) (\<lambda>_.
     if \<not> startswith branch FACTORY_BRANCH_PREFIX then andthen (exec gh (push_argv branch)) (\<lambda>_. ret ())
     else andthen (remote_head gh branch) (\<lambda>head.
       if head = [] then andthen (exec gh (push_argv branch)) (\<lambda>_. ret ()) else push_over gh branch head)))"

section \<open>Publishing\<close>

definition cred_helper :: string where
  "cred_helper = ''!f() { echo username='' @ BOT_NAME @ ''; echo '' @ [DQ] @ ''password=${GH_TOKEN}'' @ [DQ] @ ''; }; f''"

definition cred_args :: "string list" where
  "cred_args = [''-c'', ''credential.helper='', ''-c'', ''credential.helper='' @ cred_helper]"

definition label_flags :: "string \<Rightarrow> string list \<Rightarrow> string list" where
  "label_flags flag labels = concat (map (\<lambda>l. [flag, l]) labels)"

definition nonblank_lines :: "string \<Rightarrow> string list" where
  "nonblank_lines out = filter (\<lambda>l. l \<noteq> []) (map py_strip (splitlines out))"

definition last_line :: "string \<Rightarrow> ('g, string) scm" where
  "last_line out = (if nonblank_lines out = [] then raise (ScmStage ''gh returned no url'' False) else ret (last (nonblank_lines out)))"

definition ensure_labels :: "'g github \<Rightarrow> string list \<Rightarrow> ('g, unit) scm" where
  "ensure_labels gh labels =
     andthen (for_each (\<lambda>l. exec gh [''gh'', ''label'', ''create'', l, ''--repo'', gb_repo gh, ''--force'']) labels) (\<lambda>_. ret ())"

definition open_pr_url :: "'g github \<Rightarrow> string \<Rightarrow> ('g, string option) scm" where
  "open_pr_url gh branch =
     andthen (exec gh [''gh'', ''pr'', ''list'', ''--repo'', gb_repo gh, ''--head'', branch, ''--state'', ''open'', ''--limit'', ''1'',
        ''--json'', ''url'', ''--jq'', ''.[].url'']) (\<lambda>out.
     ret (case nonblank_lines out of [] \<Rightarrow> None | l # _ \<Rightarrow> Some l))"

definition row_url :: "(json \<Rightarrow> string) \<Rightarrow> json \<Rightarrow> string option" where
  "row_url rep row = (let u = py_str rep (py_or (jget0 ''url'' row) (JStr [])) in if u = [] then None else Some u)"

definition adopted_pr_url :: "'g github \<Rightarrow> string \<Rightarrow> ('g, string option) scm" where
  "adopted_pr_url gh key =
     andthen (gh_json gh True [''gh'', ''pr'', ''list'', ''--repo'', gb_repo gh, ''--state'', ''open'', ''--limit'', ''100'',
        ''--json'', ''url,body'']) (\<lambda>rows.
     ret (case List.find (\<lambda>r. is_jobj r \<and> adopts (py_str (gb_rep gh) (py_or (jget0 ''body'' r) (JStr []))) key)
                 (case rows of JArr rs \<Rightarrow> rs | _ \<Rightarrow> []) of
            None \<Rightarrow> None
          | Some r \<Rightarrow> row_url (gb_rep gh) r))"

text \<open>The body file of a pull request or issue is given as the input of the command that reads it.\<close>

definition publish_body :: "'g github \<Rightarrow> publication_identity \<Rightarrow> string \<Rightarrow> string" where
  "publish_body gh i body = body @ [CHR 0x0A, CHR 0x0A] @ marker_block i @ [CHR 0x0A]"

definition edit_or_create :: "'g github \<Rightarrow> string \<Rightarrow> publication_identity \<Rightarrow> string \<Rightarrow> string \<Rightarrow> string list \<Rightarrow> string option \<Rightarrow> ('g, string) scm" where
  "edit_or_create gh branch i title body labels existing =
     (case existing of
        Some url \<Rightarrow>
          andthen (run_as gh (gb_token gh) ([''gh'', ''pr'', ''edit'', url, ''--title'', title, ''--body-file'', ''pr-body.md'']
             @ label_flags ''--add-label'' labels) (Some (publish_body gh i body))) (\<lambda>_. ret url)
      | None \<Rightarrow>
          andthen (run_as gh (gb_token gh) ([''gh'', ''pr'', ''create'', ''--repo'', gb_repo gh, ''--base'', gb_base gh, ''--head'', branch,
             ''--title'', title, ''--body-file'', ''pr-body.md''] @ label_flags ''--label'' labels) (Some (publish_body gh i body))) last_line)"

definition publish :: "'g github \<Rightarrow> string \<Rightarrow> string \<Rightarrow> string \<Rightarrow> string \<Rightarrow> string list \<Rightarrow> string list option \<Rightarrow> ('g, string) scm" where
  "publish gh branch pt title body labels allowed =
     (case check_patch allowed pt of
        Some e \<Rightarrow> raise e
      | None \<Rightarrow>
          if gb_token gh = None \<and> \<not> gb_ambient gh then raise (ScmStage ''GH_TOKEN is not set; cannot push to GitHub'' False)
          else
            let i = identity_from_branch (gb_instance gh) branch in
            andthen (exec gh ([''git''] @ cred_args @ [''clone'', ''--quiet'', ''--depth'', ''50'', ''--branch'', gb_base gh,
               ''https://github.com/'' @ gb_repo gh @ ''.git'', ''clone''])) (\<lambda>_.
            andthen (exec gh [''git'', ''config'', ''--add'', ''credential.helper'', []]) (\<lambda>_.
            andthen (exec gh [''git'', ''config'', ''--add'', ''credential.helper'', cred_helper]) (\<lambda>_.
            andthen (apply_and_push gh branch pt) (\<lambda>_.
            andthen (ensure_labels gh labels) (\<lambda>_.
            andthen (open_pr_url gh branch) (\<lambda>pr.
            andthen (if pr = None then adopted_pr_url gh (pi_key i) else ret pr) (\<lambda>existing.
            edit_or_create gh branch i title body labels existing))))))))"

definition open_issue :: "'g github \<Rightarrow> string \<Rightarrow> string \<Rightarrow> string list \<Rightarrow> ('g, string) scm" where
  "open_issue gh title body labels =
     andthen (ensure_labels gh labels) (\<lambda>_.
     andthen (run_as gh (gb_token gh) ([''gh'', ''issue'', ''create'', ''--repo'', gb_repo gh, ''--title'', title, ''--body-file'', ''issue-body.md'']
        @ label_flags ''--label'' labels) (Some body)) last_line)"

section \<open>Reading a publication back\<close>

definition patch_content_digest :: "'g github \<Rightarrow> string \<Rightarrow> ('g, string) scm" where
  "patch_content_digest gh pt =
     andthen (run_as gh None [''git'', ''patch-id'', ''--stable''] (Some pt)) (\<lambda>out.
     ret (sha256_hex (join [CHR 0x0A] (List.map_filter (\<lambda>l. case words l of [] \<Rightarrow> None | w # _ \<Rightarrow> Some w) (splitlines out)))))"

record publication_receipt =
  pr_repository :: string
  pr_base :: string
  pr_head :: string
  pr_content :: string
  pr_branch :: string
  pr_number :: "int option"
  pr_state :: string
  pr_url :: "string option"

definition PR_STATES :: "(string \<times> string) list" where
  "PR_STATES = [(''OPEN'', ''open''), (''MERGED'', ''merged''), (''CLOSED'', ''closed'')]"

text \<open>The row that describes the work: an open pull request before a merged one before a closed one.\<close>

definition live_row :: "json list \<Rightarrow> (json \<times> string) option" where
  "live_row rows =
     (case List.find (\<lambda>(st, _). list_ex (\<lambda>r. is_jobj r \<and> jget0 ''state'' r = JStr st) rows) PR_STATES of
        None \<Rightarrow> None
      | Some (st, name) \<Rightarrow> map_option (\<lambda>r. (r, name)) (List.find (\<lambda>r. is_jobj r \<and> jget0 ''state'' r = JStr st) rows))"

definition number_item :: "string \<Rightarrow> json \<Rightarrow> scm_error + int" where
  "number_item k v = (case jget k v of Some (JInt n) \<Rightarrow> Inr n | _ \<Rightarrow> Inl (ScmCrash k))"

definition text_of :: "(json \<Rightarrow> string) \<Rightarrow> string \<Rightarrow> json \<Rightarrow> string" where
  "text_of rep k v = py_str rep (py_or (jget0 k v) (JStr []))"

definition observe_pr :: "'g github \<Rightarrow> string \<Rightarrow> json \<Rightarrow> string \<Rightarrow> ('g, publication_receipt option) scm" where
  "observe_pr gh branch row state =
     andthen (lift_result (number_item ''number'' row)) (\<lambda>n.
     andthen (exec gh [''gh'', ''pr'', ''diff'', int_str n, ''--repo'', gb_repo gh, ''--patch'']) (\<lambda>diff.
     andthen (patch_content_digest gh diff) (\<lambda>d.
     ret (Some \<lparr>pr_repository = gb_repo gh, pr_base = text_of (gb_rep gh) ''baseRefName'' row,
       pr_head = text_of (gb_rep gh) ''headRefOid'' row, pr_content = d, pr_branch = branch, pr_number = Some n, pr_state = state,
       pr_url = row_url (gb_rep gh) row\<rparr>))))"

definition observe_branch :: "'g github \<Rightarrow> string \<Rightarrow> ('g, publication_receipt option) scm" where
  "observe_branch gh branch =
     andthen (exec gh ([''git''] @ cred_args @ [''ls-remote'', ''https://github.com/'' @ gb_repo gh @ ''.git'', ''refs/heads/'' @ branch])) (\<lambda>out.
     if first_token out = [] then ret None
     else
       andthen (exec gh [''gh'', ''api'', ''-H'', ''Accept: application/vnd.github.patch'',
          ''repos/'' @ gb_repo gh @ ''/compare/'' @ gb_base gh @ ''...'' @ first_token out]) (\<lambda>diff.
       andthen (patch_content_digest gh diff) (\<lambda>d.
       ret (Some \<lparr>pr_repository = gb_repo gh, pr_base = gb_base gh, pr_head = first_token out, pr_content = d, pr_branch = branch,
         pr_number = None, pr_state = ''branch_only'', pr_url = None\<rparr>))))"

definition observe_publication :: "'g github \<Rightarrow> string \<Rightarrow> ('g, publication_receipt option) scm" where
  "observe_publication gh branch =
     andthen (gh_json gh True [''gh'', ''pr'', ''list'', ''--repo'', gb_repo gh, ''--head'', branch, ''--state'', ''all'', ''--limit'', ''20'',
        ''--json'', ''number,url,state,headRefOid,baseRefName'']) (\<lambda>rows.
     andthen (lift_result (elements rows)) (\<lambda>rs.
     case live_row rs of
       Some (row, state) \<Rightarrow> observe_pr gh branch row state
     | None \<Rightarrow> observe_branch gh branch))"

section \<open>The evidence of a merge\<close>

record snapshot =
  sn_pr :: json
  sn_paths :: "string list"
  sn_checks :: "json list"
  sn_reviews :: "json list"

definition pr_argv :: "'g github \<Rightarrow> int \<Rightarrow> string list" where
  "pr_argv gh n = [''gh'', ''api'', ''repos/'' @ gb_repo gh @ ''/pulls/'' @ int_str n]"

definition paged_argv :: "'g github \<Rightarrow> string \<Rightarrow> string list" where
  "paged_argv gh what = [''gh'', ''api'', ''--paginate'', ''--slurp'', ''repos/'' @ gb_repo gh @ what @ ''?per_page=100'']"

definition files_argv :: "'g github \<Rightarrow> int \<Rightarrow> string list" where
  "files_argv gh n = paged_argv gh (''/pulls/'' @ int_str n @ ''/files'')"

definition checks_argv :: "'g github \<Rightarrow> string \<Rightarrow> string list" where
  "checks_argv gh sha = paged_argv gh (''/commits/'' @ sha @ ''/check-runs'')"

definition reviews_argv :: "'g github \<Rightarrow> int \<Rightarrow> string list" where
  "reviews_argv gh n = paged_argv gh (''/pulls/'' @ int_str n @ ''/reviews'')"

text \<open>\<open>urllib.parse.quote(s, safe="/")\<close>.\<close>

definition quote_path :: "string \<Rightarrow> string" where
  "quote_path s = join ''/'' (map seg (split_on (CHR ''/'') s))"

definition content_argv :: "'g github \<Rightarrow> string \<Rightarrow> string \<Rightarrow> string list" where
  "content_argv gh sha path = [''gh'', ''api'', ''-H'', ''Accept: application/vnd.github.raw+json'',
     ''repos/'' @ gb_repo gh @ ''/contents/'' @ quote_path path @ ''?ref='' @ sha]"

text \<open>\<open>[row for page in pages for row in page]\<close>.\<close>

definition flat_rows :: "json \<Rightarrow> scm_error + json list" where
  "flat_rows v = (case elements v of Inl e \<Rightarrow> Inl e | Inr pages \<Rightarrow> map_sum id concat (collect_all elements pages))"

definition flat_checks :: "json \<Rightarrow> scm_error + json list" where
  "flat_checks v = (case elements v of Inl e \<Rightarrow> Inl e | Inr pages \<Rightarrow>
     map_sum id concat (collect_all (\<lambda>p. case item ''check_runs'' p of Inl e \<Rightarrow> Inl e | Inr rows \<Rightarrow> elements rows) pages))"

definition file_paths :: "json \<Rightarrow> scm_error + string list" where
  "file_paths row =
     (case text_item ''filename'' row of
        Inl e \<Rightarrow> Inl e
      | Inr name \<Rightarrow>
          (case (if py_truthy (jget0 ''previous_filename'' row) then map_sum id (\<lambda>s. [s]) (text_item ''previous_filename'' row) else Inr []) of
             Inl e \<Rightarrow> Inl e
           | Inr old \<Rightarrow>
               if jget0 ''status'' row \<notin> set (map JStr [''added'', ''modified'', ''removed'', ''renamed''])
               then Inl (ScmPolicy ''unsupported autonomous file change'') else Inr (name # old)))"

definition artifact_check :: "'g github \<Rightarrow> string \<Rightarrow> string \<Rightarrow> string \<times> json \<Rightarrow> ('g, unit) scm" where
  "artifact_check gh sha dir nd =
     andthen (exec gh (content_argv gh sha (dir @ ''/'' @ fst nd))) (\<lambda>content.
     if JStr (sha256_hex content) \<noteq> snd nd then raise (ScmPolicy ''published artifact differs from host-owned evidence'') else ret ())"

definition autonomous_snapshot :: "'g github \<Rightarrow> int \<Rightarrow> string \<Rightarrow> string \<Rightarrow> (string \<times> json) list \<Rightarrow> ('g, snapshot) scm" where
  "autonomous_snapshot gh n sha dir digests =
     andthen (gh_json gh False (pr_argv gh n)) (\<lambda>pr.
     andthen (gh_json gh False (files_argv gh n)) (\<lambda>pages.
     andthen (lift_result (flat_rows pages)) (\<lambda>files.
     andthen (lift_result (get_default ''changed_files'' JNull pr)) (\<lambda>changed.
     if length files \<ge> 3000 \<or> JInt (int (length files)) \<noteq> changed then raise (ScmPolicy ''GitHub diff listing is incomplete'')
     else
       andthen (lift_result (collect_all file_paths files)) (\<lambda>paths.
       andthen (for_each (artifact_check gh sha dir) digests) (\<lambda>_.
       andthen (gh_json gh False (checks_argv gh sha)) (\<lambda>cpages.
       andthen (gh_json gh False (reviews_argv gh n)) (\<lambda>rpages.
       andthen (lift_result (flat_checks cpages)) (\<lambda>checks.
       andthen (lift_result (flat_rows rpages)) (\<lambda>reviews.
       ret \<lparr>sn_pr = pr, sn_paths = first_of_each (concat paths), sn_checks = checks, sn_reviews = reviews\<rparr>))))))))))"

definition merge_argv :: "string \<Rightarrow> int \<Rightarrow> string \<Rightarrow> string list" where
  "merge_argv repo n sha = [''gh'', ''api'', ''--method'', ''PUT'', ''repos/'' @ repo @ ''/pulls/'' @ int_str n @ ''/merge'',
     ''-f'', ''sha='' @ sha, ''-f'', ''merge_method=squash'']"

definition merge_verified :: "'g github \<Rightarrow> int \<Rightarrow> string \<Rightarrow> ('g, unit) scm" where
  "merge_verified gh n sha =
     andthen (gh_json gh False (merge_argv (gb_repo gh) n sha)) (\<lambda>v.
     if jget0 ''merged'' v \<noteq> JBool True then raise (ScmStage ''GitHub refused the verified merge'' False) else ret ())"

section \<open>What a call adds to the log\<close>

abbreviation adds :: "('g, 'a) scm \<Rightarrow> (scm_error + 'a \<Rightarrow> (command \<times> proc) list \<Rightarrow> bool) \<Rightarrow> bool" where
  "adds \<equiv> emits rm_log"

text \<open>One command: its argument list, and the answer when it has one.\<close>

definition answered :: "(command \<times> proc) list \<Rightarrow> string list \<Rightarrow> string \<Rightarrow> bool" where
  "answered lg argv out = (\<exists>c err. (c, Exited 0 out err) \<in> set lg \<and> cm_argv c = hardened argv)"

lemma answered_append [simp]: "answered (a @ b) argv out = (answered a argv out \<or> answered b argv out)"
  by (auto simp: answered_def)

lemma adds_run:
  assumes "\<And>c p. cm_argv c = hardened argv \<Longrightarrow> cm_token c = token \<Longrightarrow> (\<And>out. answered [(c, p)] argv out \<Longrightarrow> P (Inr out) [(c, p)])"
    and "\<And>c p e. cm_argv c = hardened argv \<Longrightarrow> is_stage e \<Longrightarrow> P (Inl e) [(c, p)]"
  shows "adds (run_as gh token argv inp) P"
proof -
  have "\<exists>p g. gb_run gh c w = (p, g)" for c w by (cases "gb_run gh c w") auto
  then show ?thesis
    unfolding emits_def run_as_def Let_def
    by (auto split: prod.splits proc.splits intro!: assms simp: answered_def is_stage_def)
qed

text \<open>The general case: at most the given argument list, and an answer.\<close>

definition ran :: "string list \<Rightarrow> scm_error + string \<Rightarrow> (command \<times> proc) list \<Rightarrow> bool" where
  "ran argv res lg = (\<exists>c p. lg = [(c, p)] \<and> cm_argv c = hardened argv \<and> (\<forall>out. res = Inr out \<longrightarrow> answered lg argv out) \<and> (\<forall>e. res = Inl e \<longrightarrow> is_stage e))"

lemma run_adds: "adds (run_as gh token argv inp) (ran argv)"
  by (rule adds_run) (auto simp: ran_def)

lemma exec_adds: "adds (exec gh argv) (ran argv)"
  unfolding exec_def by (rule run_adds)

section \<open>A forced push replaces only what this instance published\<close>

definition is_push :: "command \<Rightarrow> bool" where
  "is_push c = (\<exists>rest. cm_argv c = ''git'' # GIT_NO_AUTO_GC @ ''push'' # rest)"

definition pushless :: "(command \<times> proc) list \<Rightarrow> bool" where
  "pushless lg = list_all (\<lambda>(c, p). \<not> is_push c) lg"

lemma pushless_append [simp]: "pushless (a @ b) = (pushless a \<and> pushless b)"
  by (simp add: pushless_def)

lemma ran_pushless:
  "ran argv res lg \<Longrightarrow> \<forall>rest. argv \<noteq> ''git'' # ''push'' # rest \<Longrightarrow> pushless lg"
  by (auto simp: ran_def pushless_def is_push_def hardened_def GIT_NO_AUTO_GC_def split: list.splits if_splits)

lemma ran_answer: "ran argv (Inr out) lg \<Longrightarrow> answered lg argv out"
  by (auto simp: ran_def)

lemma ran_trailer: "ran (trailer_argv sha) res lg \<Longrightarrow> pushless lg"
  by (erule ran_pushless) (simp add: trailer_argv_def)

lemma ran_ls_remote: "ran (ls_remote_argv branch) res lg \<Longrightarrow> pushless lg"
  by (erule ran_pushless) (simp add: ls_remote_argv_def)

lemma instance_of_adds:
  "adds (instance_of gh sha) (\<lambda>res lg. pushless lg \<and> (\<forall>v. res = Inr v \<longrightarrow> (\<exists>m. answered lg (trailer_argv sha) m \<and> trailer_value m = v)))"
  unfolding instance_of_def
proof (rule emits_andthen[OF emits_attempt[OF exec_adds]], goal_cases)
  case (1 r s1)
  then have s1: "pushless s1" by (auto dest: ran_pushless)
  let ?k = "case r of Inr _ \<Rightarrow> ret () | Inl e \<Rightarrow> if is_stage e then andthen (exec gh [''git'', ''fetch'', ''--quiet'', ''--depth'', ''1'', ''origin'', sha]) (\<lambda>_. ret ()) else raise e"
  have k: "adds ?k (\<lambda>res lg. pushless lg)"
    by (auto split: sum.splits intro!: emits_ret emits_raise emits_andthen[OF exec_adds] dest: ran_pushless simp: pushless_def)
  show ?case
    by (rule emits_andthen[OF k], rule emits_andthen[OF exec_adds], rule emits_ret)
      (use s1 in \<open>auto dest: ran_answer ran_trailer\<close>)
qed auto

text \<open>What justifies a push of \<open>branch\<close> in a log.\<close>

definition own_lease :: "(command \<times> proc) list \<Rightarrow> string \<Rightarrow> string \<Rightarrow> bool" where
  "own_lease lg branch head = (\<exists>out mine holder inst.
     answered lg (ls_remote_argv branch) out \<and> first_token out = head \<and> head \<noteq> []
     \<and> answered lg (trailer_argv ''HEAD'') mine \<and> trailer_value mine = inst
     \<and> answered lg (trailer_argv head) holder \<and> trailer_value holder = inst \<and> inst \<noteq> [])"

definition pushes_own :: "string \<Rightarrow> (command \<times> proc) list \<Rightarrow> bool" where
  "pushes_own branch lg = (\<forall>a c p b. lg = a @ (c, p) # b \<and> is_push c \<longrightarrow>
     cm_argv c = hardened (push_argv branch) \<or> (\<exists>head. cm_argv c = hardened (lease_push_argv branch head) \<and> own_lease a branch head))"

lemma pushless_own: "pushless lg \<Longrightarrow> pushes_own branch lg"
  by (auto simp: pushes_own_def pushless_def)

lemma push_last:
  assumes "pushless lg" and "cm_argv c = hardened (push_argv branch) \<or> (\<exists>head. cm_argv c = hardened (lease_push_argv branch head) \<and> own_lease lg branch head)"
  shows "pushes_own branch (lg @ [(c, p)])"
  unfolding pushes_own_def
proof (intro allI impI, elim conjE)
  fix a d q b assume e: "lg @ [(c, p)] = a @ (d, q) # b" and d: "is_push d"
  show "cm_argv d = hardened (push_argv branch) \<or> (\<exists>head. cm_argv d = hardened (lease_push_argv branch head) \<and> own_lease a branch head)"
  proof (cases b rule: rev_cases)
    case Nil
    then show ?thesis using e assms(2) by auto
  next
    case (snoc b' x)
    then have "lg = a @ (d, q) # b'" using e by auto
    then show ?thesis using assms(1) d by (auto simp: pushless_def)
  qed
qed

lemma plain_push_adds:
  assumes "pushless s"
  shows "adds (andthen (exec gh (push_argv branch)) (\<lambda>_. ret ())) (\<lambda>res lg. pushes_own branch (s @ lg))"
  by (rule emits_andthen[OF exec_adds], rule emits_ret) (auto simp: ran_def intro!: push_last[OF assms])

lemma push_with_lease_adds:
  assumes "pushless s" and "own_lease s branch head"
  shows "adds (push_with_lease gh branch head) (\<lambda>res lg. pushes_own branch (s @ lg))"
  unfolding push_with_lease_def
proof (rule emits_andthen[OF emits_attempt[OF exec_adds]], goal_cases)
  case (1 r s1)
  then have "pushes_own branch (s @ s1)" using assms by (auto simp: ran_def intro!: push_last)
  then show ?case by (auto split: sum.splits intro!: emits_ret emits_raise)
qed auto

lemma push_over_adds:
  assumes "pushless s" and "answered s (ls_remote_argv branch) out" "first_token out = head" "head \<noteq> []"
  shows "adds (push_over gh branch head) (\<lambda>res lg. pushes_own branch (s @ lg))"
  unfolding push_over_def
proof (rule emits_andthen[OF instance_of_adds], goal_cases)
  case (1 mine s1)
  show ?case
  proof (rule emits_andthen[OF instance_of_adds], goal_cases)
    case (1 holder s2)
    show ?case
    proof (cases "mine = [] \<or> holder \<noteq> mine")
      case True
      then show ?thesis using \<open>pushless s\<close> 1 \<open>pushless s1 \<and> _\<close> by (auto intro!: emits_raise pushless_own)
    next
      case False
      have "own_lease (s @ s1 @ s2) branch head"
        using False assms(2-4) 1 \<open>pushless s1 \<and> _\<close> unfolding own_lease_def by (metis answered_append)
      then show ?thesis using push_with_lease_adds[of "s @ s1 @ s2" branch head gh] False assms(1) 1 \<open>pushless s1 \<and> _\<close> by simp
    qed
  next
    case (2 e s2)
    then show ?case using assms(1) \<open>pushless s1 \<and> _\<close> by (auto intro: pushless_own)
  qed
next
  case (2 e s1)
  then show ?case using assms(1) by (auto intro: pushless_own)
qed

lemma apply_and_push_adds: "adds (apply_and_push gh branch pt) (\<lambda>res lg. pushes_own branch lg)"
  unfolding apply_and_push_def
proof (rule emits_andthen[OF exec_adds], goal_cases)
  case (1 _ s1)
  then have s1: "pushless s1" by (auto dest: ran_pushless)
  show ?case
  proof (rule emits_andthen[OF run_adds], goal_cases)
    case (1 _ s2)
    then have s2: "pushless (s1 @ s2)" using s1 by (auto simp: GIT_IDENT_def dest: ran_pushless)
    have "adds (remote_head gh branch) (\<lambda>res lg. pushless lg \<and> (\<forall>v. res = Inr v \<longrightarrow> (\<exists>out. answered lg (ls_remote_argv branch) out \<and> first_token out = v)))"
      unfolding remote_head_def by (rule emits_andthen[OF exec_adds], rule emits_ret) (auto dest: ran_answer ran_ls_remote)
    then have "adds (andthen (remote_head gh branch) (\<lambda>head. if head = [] then andthen (exec gh (push_argv branch)) (\<lambda>_. ret ()) else push_over gh branch head))
        (\<lambda>res lg. pushes_own branch (s1 @ s2 @ lg))"
    proof (rule emits_andthen, goal_cases)
      case (1 head s3)
      then show ?case
        using plain_push_adds[of "s1 @ s2 @ s3" gh branch] push_over_adds[of "s1 @ s2 @ s3" branch _ head gh] s2 by (auto simp: ac_simps)
    next
      case (2 e s3)
      then show ?case using s2 pushless_own[of "s1 @ s2 @ s3" branch] by simp
    qed
    then show ?case using plain_push_adds[OF s2, of gh branch] by simp
  next
    case (2 e s2)
    then have "pushless (s1 @ s2)" using s1 by (auto simp: GIT_IDENT_def dest: ran_pushless)
    then show ?case by (rule pushless_own)
  qed
next
  case (2 e s1)
  then show ?case by (auto dest: ran_pushless intro: pushless_own)
qed

lemma own_lease_mono: "own_lease b branch head \<Longrightarrow> own_lease (a @ b) branch head"
  unfolding own_lease_def by (metis answered_append)

lemma pushes_own_after: "pushless a \<Longrightarrow> pushes_own branch b \<Longrightarrow> pushes_own branch (a @ b)"
proof -
  assume a: "pushless a" and b: "pushes_own branch b"
  show ?thesis
    unfolding pushes_own_def
  proof (intro allI impI, elim conjE)
    fix x c p y assume e: "a @ b = x @ (c, p) # y" and c: "is_push c"
    then obtain z where "x = a @ z" "b = z @ (c, p) # y"
      using a by (auto simp: append_eq_append_conv2 pushless_def append_eq_Cons_conv)
    then show "cm_argv c = hardened (push_argv branch) \<or> (\<exists>head. cm_argv c = hardened (lease_push_argv branch head) \<and> own_lease x branch head)"
      using b c own_lease_mono unfolding pushes_own_def by metis
  qed
qed

lemma pushes_own_before: "pushes_own branch a \<Longrightarrow> pushless b \<Longrightarrow> pushes_own branch (a @ b)"
  unfolding pushes_own_def by (auto simp: append_eq_append_conv2 pushless_def append_eq_Cons_conv)

lemma gh_pushless: "ran argv res lg \<Longrightarrow> hd argv = ''gh'' \<Longrightarrow> pushless lg"
  by (erule ran_pushless) auto

lemma adds_andthen_pushless:
  "adds m (\<lambda>res lg. pushless lg) \<Longrightarrow> (\<And>v. adds (k v) (\<lambda>res lg. pushless lg)) \<Longrightarrow> adds (andthen m k) (\<lambda>res lg. pushless lg)"
  by (rule emits_andthen) (auto elim: emits_weaken)

lemma exec_pushless: "\<forall>rest. argv \<noteq> ''git'' # ''push'' # rest \<Longrightarrow> adds (exec gh argv) (\<lambda>res lg. pushless lg)"
  by (rule emits_weaken[OF exec_adds]) (rule ran_pushless)

lemma run_pushless: "\<forall>rest. argv \<noteq> ''git'' # ''push'' # rest \<Longrightarrow> adds (run_as gh t argv inp) (\<lambda>res lg. pushless lg)"
  by (rule emits_weaken[OF run_adds]) (rule ran_pushless)

lemma gh_json_pushless: "\<forall>rest. argv \<noteq> ''git'' # ''push'' # rest \<Longrightarrow> adds (gh_json gh b argv) (\<lambda>res lg. pushless lg)"
  unfolding gh_json_def
  by (rule adds_andthen_pushless[OF exec_pushless]) (auto split: option.splits intro!: emits_raise emits_ret simp: pushless_def)

lemma ret_pushless: "adds (ret v) (\<lambda>res lg. pushless lg)" "adds (raise e) (\<lambda>res lg. pushless lg)"
  by (simp_all add: emits_ret emits_raise pushless_def)

lemma last_line_pushless: "adds (last_line out) (\<lambda>res lg. pushless lg)"
  by (simp add: last_line_def ret_pushless)

lemma for_each_pushless: "(\<And>x. adds (body x) (\<lambda>res lg. pushless lg)) \<Longrightarrow> adds (for_each body xs) (\<lambda>res lg. pushless lg)"
  by (induction xs) (auto intro!: adds_andthen_pushless ret_pushless)

lemma publish_tail_pushless:
  "adds (ensure_labels gh labels) (\<lambda>res lg. pushless lg)"
  "adds (open_pr_url gh branch) (\<lambda>res lg. pushless lg)"
  "adds (adopted_pr_url gh key) (\<lambda>res lg. pushless lg)"
  "adds (edit_or_create gh branch i title body labels existing) (\<lambda>res lg. pushless lg)"
  unfolding ensure_labels_def open_pr_url_def adopted_pr_url_def edit_or_create_def
  by (auto split: option.splits intro!: adds_andthen_pushless for_each_pushless exec_pushless run_pushless gh_json_pushless ret_pushless last_line_pushless)

lemma adds_before:
  assumes "adds m (\<lambda>res lg. pushless lg)" and "\<And>v. adds (k v) (\<lambda>res lg. pushes_own branch lg)"
  shows "adds (andthen m k) (\<lambda>res lg. pushes_own branch lg)"
  by (rule emits_andthen[OF assms(1)]) (auto intro: pushes_own_after pushless_own emits_weaken[OF assms(2)])

lemma adds_after:
  assumes "adds m (\<lambda>res lg. pushes_own branch lg)" and "\<And>v. adds (k v) (\<lambda>res lg. pushless lg)"
  shows "adds (andthen m k) (\<lambda>res lg. pushes_own branch lg)"
  by (rule emits_andthen[OF assms(1)]) (auto intro: pushes_own_before emits_weaken[OF assms(2)])

lemma raise_own: "adds (raise e) (\<lambda>res lg. pushes_own branch lg)"
  by (rule emits_raise) (simp add: pushless_own pushless_def)

lemma publish_adds: "adds (publish gh branch pt title body labels allowed) (\<lambda>res lg. pushes_own branch lg)"
proof -
  let ?i = "identity_from_branch (gb_instance gh) branch"
  have tail: "adds (andthen (ensure_labels gh labels) (\<lambda>_. andthen (open_pr_url gh branch) (\<lambda>pr.
      andthen (if pr = None then adopted_pr_url gh (pi_key ?i) else ret pr) (\<lambda>existing.
      edit_or_create gh branch ?i title body labels existing)))) (\<lambda>res lg. pushless lg)"
    by (intro adds_andthen_pushless publish_tail_pushless) (simp add: publish_tail_pushless ret_pushless)
  show ?thesis
    unfolding publish_def Let_def
    by (cases "check_patch allowed pt")
      (auto intro!: raise_own adds_before[OF exec_pushless] adds_after[OF apply_and_push_adds] tail simp: cred_args_def)
qed

lemma publish_refused: "check_patch allowed pt = Some e \<Longrightarrow> publish gh branch pt title body labels allowed r = (Inl e, r)"
  by (simp add: publish_def raise_def)

text \<open>C10: publishing never overwrites a branch another instance published. Every push it runs is either a push without force,
  which git refuses unless it fast-forwards, or a push that replaces exactly the head the remote was seen at; and then the
  commit of that head carries the trailer of the same instance as the commit to be pushed. Nothing is pushed of a patch the
  patch policy refuses.\<close>

theorem forced_push_replaces_own:
  assumes "publish gh branch pt title body labels allowed r = (res, r')"
    and "rm_log r' = rm_log r @ before @ (c, p) # rest" and "is_push c"
  shows "check_patch allowed pt = None \<and>
    (cm_argv c = hardened (push_argv branch)
     \<or> (\<exists>head. cm_argv c = hardened (lease_push_argv branch head) \<and> own_lease before branch head))"
proof -
  have "pushes_own branch (before @ (c, p) # rest)" using emitsD[OF publish_adds assms(1)] assms(2) by auto
  moreover have "check_patch allowed pt = None"
    using publish_refused[of allowed pt _ gh branch title body labels r] assms by (cases "check_patch allowed pt") auto
  ultimately show ?thesis using assms(3) unfolding pushes_own_def by blast
qed

text \<open>A machine on which the branch stands at a commit of this instance.\<close>

definition demo_git :: "unit runner" where
  "demo_git c w = (if hd (cm_argv c) = ''gh'' then NotFound
     else if ''ls-remote'' \<in> set (cm_argv c) then Exited 0 ''abc'' []
     else if ''log'' \<in> set (cm_argv c) then Exited 0 ''me'' [] else Exited 0 [] [], w)"

definition demo_github :: "unit github" where
  "demo_github = \<lparr>gb_run = demo_git, gb_repo = ''o/r'', gb_base = ''main'', gb_token = Some ''t'', gb_ambient = False, gb_instance = ''me'',
     gb_floats = (\<lambda>s. 0), gb_rep = (\<lambda>v. []), gb_read = (\<lambda>p. None), gb_yaml = (\<lambda>s. None), gb_uri = (\<lambda>p. p)\<rparr>"

definition demo_patch :: string where
  "demo_patch = ''From: f'' @ CHR 0x0A # render_change demo_change @ []"

definition demo_out :: "string list \<Rightarrow> string" where
  "demo_out argv = (if ''ls-remote'' \<in> set argv then ''abc'' else if ''log'' \<in> set argv then ''me'' else [])"

lemma demo_run: "hd (hardened argv) \<noteq> ''gh'' \<Longrightarrow> run_as demo_github t argv inp r =
  (Inr (demo_out (hardened argv)), \<lparr>rm_world = (), rm_log = rm_log r @ [(\<lparr>cm_argv = hardened argv, cm_input = inp, cm_token = t\<rparr>, Exited 0 (demo_out (hardened argv)) [])]\<rparr>)"
  by (simp add: run_as_def demo_github_def demo_git_def demo_out_def)

lemma demo_gh: "run_as demo_github t (''gh'' # argv) inp r =
  (Inl (ScmStage ''gh not found on PATH'' False), \<lparr>rm_world = (), rm_log = rm_log r @ [(\<lparr>cm_argv = ''gh'' # argv, cm_input = inp, cm_token = t\<rparr>, NotFound)]\<rparr>)"
  by (simp add: run_as_def demo_github_def demo_git_def hardened_def)

definition demo_push :: command where
  "demo_push = \<lparr>cm_argv = hardened (lease_push_argv ''factory/1'' ''abc''), cm_input = None, cm_token = Some ''t''\<rparr>"

lemma demo_pushed: "(demo_push, Exited 0 [] []) \<in> set (rm_log (snd (apply_and_push demo_github ''factory/1'' demo_patch r)))"
proof -
  have w: "words ''abc'' = [''abc'']" "splitlines ''me'' = [''me'']" "py_strip ''me'' = ''me''"
    by (simp_all add: is_space_def splitlines_def line_break_def codes_def py_strip_def)
  have t: "gb_token demo_github = Some ''t''" by (simp add: demo_github_def)
  show ?thesis
    by (simp add: apply_and_push_def remote_head_def push_over_def instance_of_def push_with_lease_def andthen_def attempt_def exec_def t demo_run
        hardened_def GIT_NO_AUTO_GC_def demo_out_def ls_remote_argv_def trailer_argv_def lease_push_argv_def first_token_def trailer_value_def w
        GIT_IDENT_def BOT_NAME_def startswith_def FACTORY_BRANCH_PREFIX_def ret_def demo_push_def is_space_def)
qed

lemma andthen_log: "\<forall>r. \<exists>lg. rm_log (snd (m r)) = rm_log r @ lg \<Longrightarrow> \<forall>v r. \<exists>lg. rm_log (snd (k v r)) = rm_log r @ lg \<Longrightarrow>
  x \<in> set (rm_log (snd (m r))) \<Longrightarrow> x \<in> set (rm_log (snd (andthen m k r)))"
  by (auto simp: andthen_def split: prod.splits sum.splits) (metis Un_iff set_append snd_conv)

lemma demo_published:
  "(demo_push, Exited 0 [] []) \<in> set (rm_log (snd (publish demo_github ''factory/1'' demo_patch [] [] [] (Some [''d'']) \<lparr>rm_world = (), rm_log = []\<rparr>)))"
proof -
  have patch: "check_patch (Some [''d'']) demo_patch = None" using demo_change_accepted(1) by (simp add: demo_patch_def)
  have f: "gb_token demo_github = Some ''t''" "gb_repo demo_github = ''o/r''" "gb_base demo_github = ''main''" by (simp_all add: demo_github_def)
  have t: "\<exists>lg. rm_log (snd (andthen (ensure_labels demo_github []) (\<lambda>_. andthen (open_pr_url demo_github ''factory/1'') k) r)) = rm_log r @ lg" for k r
    by (simp add: andthen_def ensure_labels_def open_pr_url_def ret_def exec_def f demo_gh)
  have p: "\<exists>lg. rm_log (snd (apply_and_push demo_github ''factory/1'' demo_patch r)) = rm_log r @ lg" for r
    using apply_and_push_adds unfolding emits_def by blast
  show ?thesis
    unfolding publish_def patch option.case Let_def f
    by (simp add: andthen_def exec_def f demo_run hardened_def cred_args_def)
      (insert andthen_log[of "apply_and_push demo_github ''factory/1'' demo_patch", OF allI[OF p] allI[OF allI[OF t]] demo_pushed], simp add: andthen_def f)
qed

theorem forced_push_replaces_own_witness:
  "check_patch (Some [''d'']) demo_patch = None \<and> (\<exists>before. own_lease before ''factory/1'' ''abc'')"
proof -
  obtain before rest where e: "rm_log (snd (publish demo_github ''factory/1'' demo_patch [] [] [] (Some [''d'']) \<lparr>rm_world = (), rm_log = []\<rparr>))
      = before @ (demo_push, Exited 0 [] []) # rest" using demo_published by (meson split_list)
  have "is_push demo_push" by (simp add: is_push_def demo_push_def hardened_def lease_push_argv_def)
  then have "check_patch (Some [''d'']) demo_patch = None \<and> (cm_argv demo_push = hardened (push_argv ''factory/1'')
      \<or> (\<exists>head. cm_argv demo_push = hardened (lease_push_argv ''factory/1'' head) \<and> own_lease before ''factory/1'' head))"
    using forced_push_replaces_own[OF surjective_pairing, of demo_github "''factory/1''" demo_patch "[]" "[]" "[]" "Some [''d'']" "\<lparr>rm_world = (), rm_log = []\<rparr>" before demo_push "Exited 0 [] []" rest] e
    by simp
  then show ?thesis by (auto simp: demo_push_def hardened_def push_argv_def lease_push_argv_def)
qed

end
