(* ===== verification/Autonomy.thy ===== *)
theory Autonomy
  imports GitHub Approvals
begin

text \<open>
  Unattended work, \<open>src/src/swfactory/autonomy.py\<close>: the checked-in policy (which issues, paths and budgets it admits), the
  patterns of paths (\<open>fnmatch\<close>), the store of immutable decisions, and the check of a worker's settings.

  \<open>policy_files\<close> are the files a policy is loaded from: the texts that its revision binds, and the documents \<open>tomllib\<close> reads
  from two of them. Decisions are kept as canonical documents, as everywhere in this library.
\<close>

section \<open>Patterns\<close>

datatype glob_item = GLit char | GAny | GNever | GStar | GSet bool "string list"

text \<open>The index of the bracket that closes a set, in the text after the opening one.\<close>

definition find_from :: "nat \<Rightarrow> char \<Rightarrow> string \<Rightarrow> nat option" where
  "find_from k c s = (let n = length (takeWhile (\<lambda>d. d \<noteq> c) (drop k s)) in if k + n < length s then Some (k + n) else None)"

definition set_close :: "string \<Rightarrow> nat option" where
  "set_close r =
     (let a = (if startswith r ''!'' then 1 else 0); b = (if startswith (drop a r) '']'' then a + 1 else a) in find_from b (CHR '']'') r)"

text \<open>The chunks between the hyphens that make ranges; the first search skips \<open>k\<close> characters, the others two.\<close>

function set_chunks :: "nat \<Rightarrow> string \<Rightarrow> string list" where
  "set_chunks k s =
     (case find_from k (CHR ''-'') s of
        None \<Rightarrow> [s]
      | Some i \<Rightarrow> if Suc i = length s then [s] else take i s # set_chunks 2 (drop (Suc i) s))"
  by pat_completeness auto
termination
  by (relation "measure (\<lambda>(k, s). length s)") (auto simp: find_from_def Let_def split: if_splits)

text \<open>Ranges that are empty are removed, the last first.\<close>

fun drop_empty_ranges :: "string list \<Rightarrow> string list" where
  "drop_empty_ranges [] = []"
| "drop_empty_ranges (c # cs) =
     (case drop_empty_ranges cs of
        [] \<Rightarrow> [c]
      | d # ds \<Rightarrow>
          if c \<noteq> [] \<and> d \<noteq> [] \<and> (of_char (last c) :: nat) > of_char (hd d) then (butlast c @ tl d) # ds else c # d # ds)"

definition set_item :: "string \<Rightarrow> glob_item" where
  "set_item stuff =
     (let cs = (if CHR ''-'' \<in> set stuff then drop_empty_ranges (set_chunks (if startswith stuff ''!'' then 2 else 1) stuff) else [stuff]) in
      if concat cs = [] then GNever
      else if cs = [''!''] then GAny
      else if startswith (hd cs) ''!'' then GSet True (tl (hd cs) # tl cs)
      else GSet False cs)"

fun in_chunks :: "char \<Rightarrow> string list \<Rightarrow> bool" where
  "in_chunks x [] = False"
| "in_chunks x [c] = (x \<in> set c)"
| "in_chunks x (c # d # cs) =
     (x \<in> set c \<or> c \<noteq> [] \<and> d \<noteq> [] \<and> (of_char (last c) :: nat) \<le> of_char x \<and> (of_char x :: nat) \<le> of_char (hd d) \<or> in_chunks x (d # cs))"

function glob_parse :: "string \<Rightarrow> glob_item list" where
  "glob_parse [] = []"
| "glob_parse (c # r) =
     (if c = CHR ''*'' then GStar # glob_parse r
      else if c = CHR ''?'' then GAny # glob_parse r
      else if c = CHR ''['' then
        (case set_close r of
           None \<Rightarrow> GLit c # glob_parse r
         | Some i \<Rightarrow> set_item (take i r) # glob_parse (drop (Suc i) r))
      else GLit c # glob_parse r)"
  by pat_completeness auto
termination
  by (relation "measure length") auto

fun glob_one :: "glob_item \<Rightarrow> char \<Rightarrow> bool" where
  "glob_one (GLit c) x = (x = c)"
| "glob_one GAny x = True"
| "glob_one GNever x = False"
| "glob_one (GSet neg cs) x = (in_chunks x cs \<noteq> neg)"
| "glob_one GStar x = False"

fun glob_match :: "glob_item list \<Rightarrow> string \<Rightarrow> bool" where
  "glob_match [] s = (s = [])"
| "glob_match (GStar # gs) [] = glob_match gs []"
| "glob_match (GStar # gs) (x # xs) = (glob_match gs (x # xs) \<or> glob_match (GStar # gs) xs)"
| "glob_match (g # gs) [] = False"
| "glob_match (g # gs) (x # xs) = (glob_one g x \<and> glob_match gs xs)"

definition fnmatchcase :: "string \<Rightarrow> string \<Rightarrow> bool" where
  "fnmatchcase name pat = glob_match (glob_parse pat) name"

definition rstrip_slash :: "string \<Rightarrow> string" where
  "rstrip_slash s = rev (dropWhile (\<lambda>c. c = CHR ''/'') (rev s))"

definition path_matches :: "string \<Rightarrow> string \<Rightarrow> bool" where
  "path_matches path pat = (path = rstrip_slash pat \<or> startswith path (rstrip_slash pat @ ''/'') \<or> fnmatchcase path pat)"

section \<open>The policy\<close>

record autonomous_policy =
  po_enabled :: bool
  po_repository :: string
  po_base_branch :: string
  po_required_labels :: "string list"
  po_denied_labels :: "string list"
  po_allowed_paths :: "string list"
  po_protected_paths :: "string list"
  po_budget :: real
  po_required_checks :: "string list"
  po_checks_app :: int
  po_max_files :: int
  po_merge_timeout :: int
  po_revision :: string

definition LINE :: string where
  "LINE = ''autonomous''"

definition safe_patterns :: "string list \<Rightarrow> bool" where
  "safe_patterns ps = list_all (\<lambda>p. case normalize_relative_path (rstrip_slash p) False of Inl _ \<Rightarrow> False | Inr _ \<Rightarrow> True) ps"

definition policy_ok :: "autonomous_policy \<Rightarrow> bool" where
  "policy_ok p =
     (po_required_labels p \<noteq> [] \<and> po_allowed_paths p \<noteq> [] \<and> po_required_checks p \<noteq> [] \<and> 0 < po_budget p \<and> 0 < po_checks_app p
      \<and> 0 < po_max_files p \<and> po_max_files p \<le> 100 \<and> 0 < po_merge_timeout p \<and> po_merge_timeout p \<le> 86400
      \<and> safe_patterns (po_allowed_paths p) \<and> safe_patterns (po_protected_paths p))"

text \<open>The files: the text and document of the policy, the protected paths of the contract, the review skill and the line.\<close>

record policy_files =
  pf_raw :: string
  pf_document :: "autonomous_policy option"
  pf_protected :: "string list"
  pf_review :: string
  pf_line :: string

definition policy_revision :: "policy_files \<Rightarrow> string" where
  "policy_revision pf =
     sha256_hex (join NUL [pf_raw pf, ''['' @ join '', '' (map (jstr True) (pf_protected pf)) @ '']'', pf_review pf, pf_line pf])"

definition load_policy :: "policy_files \<Rightarrow> scm_error + autonomous_policy" where
  "load_policy pf =
     (case pf_document pf of
        None \<Rightarrow> Inl (ScmValue ''autonomous policy'')
      | Some d \<Rightarrow>
          let p = d\<lparr>po_protected_paths := first_of_each (po_protected_paths d @ pf_protected pf), po_revision := policy_revision pf\<rparr> in
          if policy_ok p then Inr p else Inl (ScmValue ''autonomous policy''))"

definition issue_reason :: "autonomous_policy \<Rightarrow> issue \<Rightarrow> string \<Rightarrow> string option" where
  "issue_reason p i repository =
     (if \<not> po_enabled p then Some ''policy_disabled''
      else if repository \<noteq> po_repository p then Some ''repository_outside_policy''
      else if is_state i \<noteq> ''open'' then Some ''issue_not_open''
      else if \<not> set (po_required_labels p) \<subseteq> set (is_labels i) then Some ''required_labels_missing''
      else if list_ex (\<lambda>l. l \<in> set (is_labels i)) (po_denied_labels p) then Some ''denied_label''
      else if py_strip (is_title i) = [] \<or> py_strip (is_body i) = [] then Some ''missing_intent''
      else None)"

definition check_one_path :: "autonomous_policy \<Rightarrow> string option \<Rightarrow> string \<Rightarrow> scm_error option" where
  "check_one_path p artifacts path =
     (case normalize_relative_path path False of
        Inl _ \<Rightarrow> Some (ScmValue ''autonomous change path'')
      | Inr normalized \<Rightarrow>
          if normalized \<noteq> path then Some (ScmPolicy ''autonomous paths must be canonical'')
          else if (case artifacts of None \<Rightarrow> False | Some a \<Rightarrow> a \<noteq> [] \<and> startswith path (a @ ''/'')) then None
          else if list_ex (path_matches path) (po_protected_paths p) then Some (ScmPolicy (''protected path: '' @ path))
          else if \<not> list_ex (path_matches path) (po_allowed_paths p) then Some (ScmPolicy (''path outside autonomous policy: '' @ path))
          else None)"

definition check_paths :: "autonomous_policy \<Rightarrow> string option \<Rightarrow> string list \<Rightarrow> scm_error option" where
  "check_paths p artifacts paths =
     (if paths = [] \<or> int (card (set paths)) > po_max_files p then Some (ScmPolicy ''empty or oversized autonomous change'')
      else first_error (check_one_path p artifacts) paths)"

definition check_budget :: "autonomous_policy \<Rightarrow> real \<Rightarrow> real \<Rightarrow> scm_error option" where
  "check_budget p spent cap =
     (if \<not> (0 \<le> spent \<and> spent \<le> po_budget p) \<or> \<not> (0 < cap \<and> cap \<le> po_budget p)
      then Some (ScmPolicy ''autonomous budget exceeds checked-in authority'') else None)"

definition job_policy_digest :: "(json \<Rightarrow> string) \<Rightarrow> (real \<Rightarrow> string) \<Rightarrow> autonomous_policy \<Rightarrow> string \<Rightarrow> string \<Rightarrow> scm_error + string" where
  "job_policy_digest rep fr p repo dir =
     (case for_factory_job rep (po_revision p) LINE
             (JObj [(''repo'', JStr repo), (''dir'', JStr dir), (''base_branch'', JStr (po_base_branch p))]) of
        Inl _ \<Rightarrow> Inl (ScmValue ''policy'')
      | Inr c \<Rightarrow> (case policy_digest fr c of Inl _ \<Rightarrow> Inl (ScmValue ''policy'') | Inr d \<Rightarrow> Inr d))"

section \<open>Decisions\<close>

record decisions =
  dc_rows :: "(string \<times> json) list"
  dc_times :: "(string \<times> string) list"

definition no_decisions :: decisions where
  "no_decisions = \<lparr>dc_rows = [], dc_times = []\<rparr>"

text \<open>\<open>INSERT OR IGNORE\<close> on a table with a primary key.\<close>

definition insert_or_ignore :: "string \<Rightarrow> 'v \<Rightarrow> (string \<times> 'v) list \<Rightarrow> (string \<times> 'v) list" where
  "insert_or_ignore k v rows = (if map_of rows k = None then rows @ [(k, v)] else rows)"

definition bind_decision :: "string \<Rightarrow> json \<Rightarrow> string \<Rightarrow> decisions \<Rightarrow> (scm_error + json) \<times> decisions" where
  "bind_decision key v now d =
     (let d1 = (if map_of (dc_rows d) key = None
                then \<lparr>dc_rows = insert_or_ignore key (jcanon v) (dc_rows d), dc_times = insert_or_ignore key now (dc_times d)\<rparr> else d) in
      if map_of (dc_rows d1) key \<noteq> Some (jcanon v) then (Inl (ScmPolicy ''autonomous decision changed at the same Cell epoch''), d1)
      else (Inr v, d1))"

definition get_decision :: "string \<Rightarrow> decisions \<Rightarrow> json option" where
  "get_decision key d = map_of (dc_rows d) key"

definition gate_key :: "string \<Rightarrow> int \<Rightarrow> string \<Rightarrow> string" where
  "gate_key cell epoch g = cell @ '':'' @ int_str epoch @ '':gate:'' @ g"

definition publication_key :: "string \<Rightarrow> int \<Rightarrow> string" where
  "publication_key cell epoch = cell @ '':'' @ int_str epoch @ '':publication''"

text \<open>\<open>enforce_runtime_policy\<close>: the settings of a worker, and the binding it was given.\<close>

record runtime_settings =
  rs_scm :: string
  rs_repo :: string
  rs_target_dir :: string
  rs_base_branch :: string
  rs_budget :: real
  rs_stage_budget :: real

definition enforce_runtime_policy ::
  "(json \<Rightarrow> string) \<Rightarrow> (real \<Rightarrow> string) \<Rightarrow> policy_files \<Rightarrow> runtime_settings \<Rightarrow> string \<Rightarrow> gate_mode list \<Rightarrow> json \<Rightarrow> scm_error option" where
  "enforce_runtime_policy rep fr pf cfg line gates bd =
     (if PolicyGate \<notin> set gates then None
      else case load_policy pf of
        Inl e \<Rightarrow> Some e
      | Inr p \<Rightarrow>
          if line \<noteq> LINE \<or> \<not> py_truthy bd \<or> \<not> py_truthy (jget0 ''managed'' bd) \<or> rs_scm cfg \<noteq> ''github''
          then Some (ScmPolicy ''autonomous work requires a backend-managed line'')
          else if \<not> po_enabled p \<or> rs_repo cfg \<noteq> po_repository p \<or> rs_target_dir cfg \<noteq> [] \<or> rs_base_branch cfg \<noteq> po_base_branch p
          then Some (ScmPolicy ''runtime target is outside autonomous policy'')
          else case check_budget p 0 (rs_budget cfg) of
            Some e \<Rightarrow> Some e
          | None \<Rightarrow>
              if \<not> (0 < rs_stage_budget cfg \<and> rs_stage_budget cfg \<le> rs_budget cfg)
              then Some (ScmPolicy ''stage budget exceeds autonomous job authority'')
              else case job_policy_digest rep fr p (rs_repo cfg) (rs_target_dir cfg) of
                Inl e \<Rightarrow> Some e
              | Inr d \<Rightarrow> if jget0 ''policy_digest'' bd \<noteq> JStr d
                  then Some (ScmPolicy ''autonomous policy moved before execution; a new epoch is required'') else None)"

section \<open>What the checks mean\<close>

lemma check_paths_means:
  assumes "check_paths p artifacts paths = None" and "path \<in> set paths"
  shows "(\<exists>a. artifacts = Some a \<and> startswith path (a @ ''/''))
    \<or> (\<exists>pat\<in>set (po_allowed_paths p). path_matches path pat) \<and> \<not> (\<exists>pat\<in>set (po_protected_paths p). path_matches path pat)"
proof -
  have "check_one_path p artifacts path = None"
    using assms by (auto simp: check_paths_def split: if_splits dest: first_error_None)
  then show ?thesis
    by (auto simp: check_one_path_def list_ex_iff split: sum.splits if_splits option.splits)
qed

lemma protected_subtree: "startswith path (rstrip_slash pat @ ''/'') \<Longrightarrow> path_matches path pat"
  by (simp add: path_matches_def)

lemma bind_decision_keeps: "bind_decision key v now d = (r, d') \<Longrightarrow> get_decision k d = Some x \<Longrightarrow> get_decision k d' = Some x"
  by (auto simp: bind_decision_def get_decision_def insert_or_ignore_def Let_def map_add_def split: if_splits)

lemma bind_decision_bound: "bind_decision key v now d = (Inr w, d') \<Longrightarrow> get_decision key d' = Some (jcanon v)"
  by (auto simp: bind_decision_def get_decision_def insert_or_ignore_def Let_def split: if_splits)

lemma bind_decision_adds: "bind_decision key v now d = (r, d') \<Longrightarrow> get_decision k d' = Some x \<Longrightarrow> get_decision k d = Some x \<or> k = key \<and> x = jcanon v"
  by (auto simp: bind_decision_def get_decision_def insert_or_ignore_def Let_def map_add_def split: if_splits option.splits)

end
