(* ===== verification/Spec2Isabelle.thy ===== *)
theory Spec2Isabelle
  imports Cells RepairLease CredentialLease DurableAdmission Lifecycle ControlKernel WorkExecutor Approvals CallObservations SandboxSweep DeliveryEffects Autonomy
begin

text \<open>
  A verification library of the software factory's control plane, the Python package under
  \<open>src/src/swfactory\<close>.

  \<^bold>\<open>The program.\<close> The factory turns tickets into reviewed changes. Airflow runs the stages; the package owns
  the state that must survive crashes and retries. A \<^emph>\<open>Factory Cell\<close> is the durable identity of one piece of
  work; its \<^emph>\<open>epoch\<close> fences writers that were replaced. External effects (pull requests, sandboxes, dispatches)
  go through an \<^emph>\<open>operation journal\<close> that records the intent before and the receipt after the provider is called,
  so that a retry converges on the provider's state. \<^emph>\<open>Durable admission\<close> bounds how much work runs and hands it to
  Airflow through an outbox. \<^emph>\<open>Credential leases\<close> are bound to a Cell and its epoch and revoked when the epoch moves.
  \<^emph>\<open>Evidence\<close> is a hash chain per Cell. Backup and restore copy all stores at one instant and put a
  \<^emph>\<open>restore gate\<close> in front of effects until the copies have been compared with the world. Plans are graphs of work
  nodes, layered into waves, executed in a pool and merged in a fixed order. Every provider call is paid from a
  \<^emph>\<open>spending ledger\<close> that reserves the call's ceiling before the call; a \<^emph>\<open>journal of rows\<close> holds what a run recorded;
  \<^emph>\<open>approvals\<close> are bound to the digest of what was accepted; a \<^emph>\<open>sweep\<close> removes the sandboxes no live work owns.

  \<^bold>\<open>Conventions.\<close> A SQLite table is an association list or a list of records in row order, and a transaction is
  one atomic function from the store to a result and a new store; where the source uses several transactions the
  model has several steps, and the step relations interleave them with the steps of others. Errors are values
  of a datatype per component. Providers, reconcilers, runners and mergers are function arguments acting on a
  world of their own. Clock readings, random tokens and thread schedules are arguments. Python integers are
  \<open>int\<close>, strings are character lists, JSON documents are the datatype of \<open>Json\<close>, and floating-point times are
  reals. SHA-256 is written out over 32-bit words and evaluates.

  \<^bold>\<open>Theories.\<close>
  \<^item> \<open>Prelude\<close>: results and options, association lists, sorting by key, string operations of Python, and the locale
    \<open>inductive_invariant\<close> (initial states, steps, invariant), interpreted by every component with a step relation.
  \<^item> \<open>Json\<close>, \<open>Sha256\<close>: canonical JSON text and the hash.
  \<^item> \<open>Cells\<close> (\<open>cells.py\<close>): the Cell store, every mutation and read; stale epochs never append, the timeline of every
    reachable store is gapless and carries the fence, and the store refines an abstract epoch fence.
  \<^item> \<open>Idempotency\<close> (\<open>idempotency.py\<close>): intents, attempt claims, observation, retry and commit; the provider is never
    called again blindly, a committed receipt is what a repeated call returns, and one attempt excludes
    the others. \<open>start_attempt\<close> reads before its transaction begins, so the step relation has the read and the write apart: a
    receipt is final but for a claim of a spent budget that read the row before it was committed.
  \<^item> \<open>RepairLease\<close> (\<open>cleanup_receipt.py\<close>): cleanup receipts and leases, as calls and as single statements.
  \<^item> \<open>Revocation\<close> (locale \<open>authority_revoker\<close>) and \<open>CredentialLease\<close> (\<open>credential_lease.py\<close>): bindings, mint, redeem and
    revocation, the composition with the Cell store's epoch changes (two databases: a mint reads the epoch in one and inserts in
    the other, and a lease is current unless an epoch moved in between), and \<open>leased\<close> of \<open>backend/service.py\<close>.
  \<^item> \<open>Admission\<close> (\<open>admission.py\<close>) and \<open>DurableAdmission\<close> (\<open>durable_admission.py\<close>): capacity in every reachable state, one
    claim per delivery, cancelled work that is never delivered, and the outbox.
  \<^item> \<open>Paths\<close> (\<open>paths.py\<close>): what the validators accept, and that two Cells never share a directory.
  \<^item> \<open>WorkGraph\<close> (\<open>workgraph.py\<close>, locale \<open>dependency_graph\<close>) and \<open>Lifecycle\<close> (\<open>models.py\<close>, \<open>lifecycle.py\<close>): the waves are the
    earliest layering, they exist exactly for acyclic plans, and the managed graph puts the work between plan and
    review.
  \<^item> \<open>WorkExecutor\<close> (\<open>work_executor.py\<close>): retries, pool, conflict checks and fan-in; merges are a checked chain in
    dependency order, and a pool whose nodes succeed within their retries reports what a serial run reports, durations apart.
  \<^item> \<open>Recovery\<close> (\<open>operation_recovery.py\<close>, the recovery part of \<open>backend/core_service.py\<close>): when a retry is proposed.
  \<^item> \<open>SecurityContract\<close> (\<open>security_contract.py\<close>, \<open>authority.py\<close>): canonical policies, digests, envelopes and redaction.
  \<^item> \<open>Evidence\<close> (\<open>lifecycle_evidence.py\<close>, \<open>trust_evidence.py\<close>): a ledger verifies and its tail commits to the
    whole chain, on disks where appends overlap and writes are cut, for as long as neither has happened to the Cell.
  \<^item> \<open>CoreCapabilities\<close> (\<open>core_capabilities.py\<close>): one external effect across Cell store, journal and evidence: it is
    fenced, it converges from every crash, and it completes.
  \<^item> \<open>StoreSchema\<close> (\<open>store_schema.py\<close>), \<open>RestoreContract\<close> and \<open>Backup\<close> (\<open>restore_contract.py\<close>): versions and adoption of
    stores by their stamp; the gate, its marker file and stamp, and the joins between the stores; quiescing, manifest, verification
    and the order of a restore's writes.
  \<^item> \<open>ControlKernel\<close> (\<open>control_kernel.py\<close>, locale \<open>effect_gate\<close>): mutations behind the restore gate; a restored factory
    is fenced until its window is closed.
  \<^item> \<open>AcceptedInputs\<close> (\<open>accepted_inputs.py\<close>) and \<open>Approvals\<close> (\<open>approval_policy.py\<close>): the documents an acceptance binds, and
    that an approval on record counts only for the digest it was given for, with processes that die between any two of the
    files an admission writes.
  \<^item> \<open>JsonParse\<close> and \<open>RunState\<close> (\<open>state.py\<close>, locale \<open>row_journal\<close>): the reader of JSON lines, the files of a run and its
    journals; a torn last line costs at most that line, and what was appended is read back.
  \<^item> \<open>CallAccounting\<close> (\<open>call_accounting.py\<close>) and \<open>Budget\<close> (the money path of \<open>stages.py\<close>): reserve, release and charge of a
    call, refined into steps that a crash may separate; what a provider bills is covered by the ledger but for what it bills above
    its grant on a call that is not settled.
  \<^item> \<open>SandboxGovernance\<close> (\<open>sandbox_governance.py\<close>), \<open>ExternalRun\<close> (the external calls of \<open>sandbox.py\<close>) and \<open>CallObservations\<close>
    (\<open>call_observations.py\<close>): records of sandboxes and of the calls in them; a call reported as not started did not
    start, and an imported bill rests on evidence.
  \<^item> \<open>SandboxSweep\<close> (\<open>maintain.py\<close>, \<open>_sweep\<close> of \<open>backend/routes.py\<close>): the sweep over kernel, journal and Cell store; it
    spares the work of live Cells it lists.
  \<^item> \<open>Calls\<close> (locale \<open>closed_moves\<close>): calls as functions from a state to a result or an error and a new state, with the
    combinators the handlers and clients are composed of.
  \<^item> \<open>ServiceCore\<close> and \<open>Dispatch\<close> (\<open>backend/service.py\<close>, \<open>_queue_cancel\<close> of \<open>backend/routes.py\<close>): submission,
    delivery to Airflow, recovery of failed deliveries, reconciliation of held units and Cell transitions, each handler a
    call over the kernel, the stores and an arbitrary Airflow. \<open>Ownership\<close> shows that the handlers are sequences of store
    transactions which, interleaved with those of others, keep every recorded activation with the order that made it, and
    that undoing an order spares the others; \<open>DeliveryEffects\<close> shows that a transition gives capacity back only after a run is over, and
    what the reconciliation of held units requires.
  \<^item> \<open>PatchPolicy\<close> (the patch policy of \<open>scm.py\<close>): the paths a stream of git changes names, and that an accepted stream of
    changes as git renders them stays inside the checkout and the allowed directories.
  \<^item> \<open>GitHub\<close> (\<open>GitHubScm\<close> of \<open>scm.py\<close>, \<open>publication_identity.py\<close>): the client over an arbitrary runner of processes that
    records every command; a forced push replaces only a commit of the same factory instance.
  \<^item> \<open>Autonomy\<close> (\<open>autonomy.py\<close>): the checked-in policy, its revision and checks, and the store of immutable decisions.

  \<^bold>\<open>Hypotheses on code outside the package.\<close> A provider's reconciler reports what the provider did; revocation
  callbacks end the leases they are given; the pool schedules every request it was given; a provider bills only calls that were
  reserved, its answer and a trusted observation of it state the final bill (which may exceed the grant), and a daemon tells
  the truth about containers; Airflow's answers about
  the end of a run are true; git renders the names of changed files as it documents; a float that was written as JSON text is read back
  as the same float; SHA-256 is injective on the documents a theorem names, where a theorem needs that. Each property with such a hypothesis has a witness on concrete
  functions.

  \<^bold>\<open>Bounds and fuel.\<close> Every loop of the model is structural or has a measure: waves shrink the set of remaining
  nodes, retries count down the attempts the policy allows, drains count down the queue,
  and the substitution of redaction patterns consumes its input. The JSON reader alone counts down a number, twice the
  length of the text plus two; the lemma \<open>read_enough\<close> of \<open>JsonParse\<close> shows that a larger number gives
  the same answer on every text.

  \<^bold>\<open>Not modelled.\<close> Stage bodies beyond their spending, the sandbox providers other than the external calls, the local demonstration remote, webhook and Linear clients, the HTTP server, the command
  line and terminal interfaces drive subprocesses and networks. The candidate search rests on floating-point
  heuristics and git worktrees. Of the backend's service the Linear
  branch of a submission, the compatibility proxy and the fleet view are left out; its check of autonomous work is a guard argument. Work claims, generations, intake governance,
  maintenance incidents, recovery accounting and fork waves are left out too, though the same techniques would apply. SQLite's durability, \<open>fsync\<close>, file locks and
  \<open>rename\<close> are assumed where transactions are atomic; a crash is modelled between two writes wherever the source
  orders them.
\<close>

end
